(* ===== verification/Go_Base.thy ===== *)
theory Go_Base
  imports Main "HOL-Library.Word" "HOL-Library.Char_ord" "HOL-Library.List_Lexorder"
    "HOL-Library.Multiset"
begin

text \<open>
  The prelude of the development: the values the Go code works with and the two ways
  it passes control.

  \<^item> A Go string is a byte string, here \<^typ>\<open>string\<close> (one \<^typ>\<open>char\<close> per byte); a
    byte slice is a list of \<^typ>\<open>8 word\<close>.
  \<^item> An error is a value of type \<open>err\<close>: a sentinel of \<^verbatim>\<open>errors.go\<close>, or the result of
    \<^verbatim>\<open>fmt.Errorf\<close> with the literal part of its format (the formatted arguments are
    left out) and the error it wraps with \<^verbatim>\<open>%w\<close>. A result \<^verbatim>\<open>(T, error)\<close> is \<open>err + 'a\<close>.
  \<^item> \<open>bindE\<close> is \<^verbatim>\<open>if err != nil { return err }\<close>; \<open>bindS\<close> is the same for code that
    mutates a state, where the mutations made before the error stay.
  \<^item> Signed 64-bit arithmetic wraps: \<open>wrap64\<close>.
  \<^item> A random source \<^verbatim>\<open>*rand.Rand\<close> is the tape of the raw numbers it will yield
    (\<open>rng\<close>); a finite run reads a finite prefix, and a tape that has run out yields
    zeros. A theorem about every tape holds for every source.
\<close>

section \<open>Errors\<close>

text \<open>A sentinel error is known by the name of its variable.\<close>

type_synonym sentinel = string

abbreviation ErrDeterministicCoverageEffortInvalid :: sentinel where "ErrDeterministicCoverageEffortInvalid \<equiv> ''ErrDeterministicCoverageEffortInvalid''"
abbreviation ErrDeterministicCoverageBasePathEmpty :: sentinel where "ErrDeterministicCoverageBasePathEmpty \<equiv> ''ErrDeterministicCoverageBasePathEmpty''"
abbreviation ErrNilGenerator :: sentinel where "ErrNilGenerator \<equiv> ''ErrNilGenerator''"
abbreviation ErrEmptySymlinkTarget :: sentinel where "ErrEmptySymlinkTarget \<equiv> ''ErrEmptySymlinkTarget''"
abbreviation ErrSymlinkStrategyProbabilitiesEmpty :: sentinel where "ErrSymlinkStrategyProbabilitiesEmpty \<equiv> ''ErrSymlinkStrategyProbabilitiesEmpty''"
abbreviation ErrSymlinkStrategyProbabilitiesNonPositive :: sentinel where "ErrSymlinkStrategyProbabilitiesNonPositive \<equiv> ''ErrSymlinkStrategyProbabilitiesNonPositive''"
abbreviation ErrSpecialFileTypeProbabilitiesEmpty :: sentinel where "ErrSpecialFileTypeProbabilitiesEmpty \<equiv> ''ErrSpecialFileTypeProbabilitiesEmpty''"
abbreviation ErrSpecialFileTypeProbabilitiesNonPositive :: sentinel where "ErrSpecialFileTypeProbabilitiesNonPositive \<equiv> ''ErrSpecialFileTypeProbabilitiesNonPositive''"
abbreviation ErrSpecialDeviceConfigurationIncomplete :: sentinel where "ErrSpecialDeviceConfigurationIncomplete \<equiv> ''ErrSpecialDeviceConfigurationIncomplete''"
abbreviation ErrSpecialDeviceNumbersRequired :: sentinel where "ErrSpecialDeviceNumbersRequired \<equiv> ''ErrSpecialDeviceNumbersRequired''"
abbreviation ErrContentPatternProbabilitiesEmpty :: sentinel where "ErrContentPatternProbabilitiesEmpty \<equiv> ''ErrContentPatternProbabilitiesEmpty''"
abbreviation ErrContentPatternProbabilitiesNonPositive :: sentinel where "ErrContentPatternProbabilitiesNonPositive \<equiv> ''ErrContentPatternProbabilitiesNonPositive''"
abbreviation ErrContentPatternConfigurationIncomplete :: sentinel where "ErrContentPatternConfigurationIncomplete \<equiv> ''ErrContentPatternConfigurationIncomplete''"
abbreviation ErrPlanEntryLimitInvalid :: sentinel where "ErrPlanEntryLimitInvalid \<equiv> ''ErrPlanEntryLimitInvalid''"
abbreviation ErrPlanEntryLimitExceeded :: sentinel where "ErrPlanEntryLimitExceeded \<equiv> ''ErrPlanEntryLimitExceeded''"
abbreviation ErrScenarioNameEmpty :: sentinel where "ErrScenarioNameEmpty \<equiv> ''ErrScenarioNameEmpty''"
abbreviation ErrScenarioUnknown :: sentinel where "ErrScenarioUnknown \<equiv> ''ErrScenarioUnknown''"
abbreviation ErrSpecialFilePermissionDenied :: sentinel where "ErrSpecialFilePermissionDenied \<equiv> ''ErrSpecialFilePermissionDenied''"
abbreviation ErrSpecialFileUnsupported :: sentinel where "ErrSpecialFileUnsupported \<equiv> ''ErrSpecialFileUnsupported''"
abbreviation ErrSpecialFileLinuxOnly :: sentinel where "ErrSpecialFileLinuxOnly \<equiv> ''ErrSpecialFileLinuxOnly''"
abbreviation ErrMountPermissionDenied :: sentinel where "ErrMountPermissionDenied \<equiv> ''ErrMountPermissionDenied''"
abbreviation ErrMountUnsupported :: sentinel where "ErrMountUnsupported \<equiv> ''ErrMountUnsupported''"
abbreviation ErrMountLinuxOnly :: sentinel where "ErrMountLinuxOnly \<equiv> ''ErrMountLinuxOnly''"
abbreviation ErrCrossDeviceScenarioLinuxOnly :: sentinel where "ErrCrossDeviceScenarioLinuxOnly \<equiv> ''ErrCrossDeviceScenarioLinuxOnly''"
abbreviation ErrCrossDeviceScenarioUnavailable :: sentinel where "ErrCrossDeviceScenarioUnavailable \<equiv> ''ErrCrossDeviceScenarioUnavailable''"
abbreviation ErrFilesystemFeatureScenarioLinuxOnly :: sentinel where "ErrFilesystemFeatureScenarioLinuxOnly \<equiv> ''ErrFilesystemFeatureScenarioLinuxOnly''"
abbreviation ErrFilesystemFeatureSelectionEmpty :: sentinel where "ErrFilesystemFeatureSelectionEmpty \<equiv> ''ErrFilesystemFeatureSelectionEmpty''"
abbreviation ErrFilesystemFeaturePermissionDenied :: sentinel where "ErrFilesystemFeaturePermissionDenied \<equiv> ''ErrFilesystemFeaturePermissionDenied''"
abbreviation ErrFilesystemFeatureUnsupported :: sentinel where "ErrFilesystemFeatureUnsupported \<equiv> ''ErrFilesystemFeatureUnsupported''"
abbreviation ErrFilesystemFeatureScenarioUnavailable :: sentinel where "ErrFilesystemFeatureScenarioUnavailable \<equiv> ''ErrFilesystemFeatureScenarioUnavailable''"
abbreviation ErrContentPatternRepeatedBlockEmpty :: sentinel where "ErrContentPatternRepeatedBlockEmpty \<equiv> ''ErrContentPatternRepeatedBlockEmpty''"
abbreviation ErrOwnershipMetadataConfigurationIncomplete :: sentinel where "ErrOwnershipMetadataConfigurationIncomplete \<equiv> ''ErrOwnershipMetadataConfigurationIncomplete''"
abbreviation ErrTimestampMetadataConfigurationIncomplete :: sentinel where "ErrTimestampMetadataConfigurationIncomplete \<equiv> ''ErrTimestampMetadataConfigurationIncomplete''"
abbreviation ErrOwnershipMetadataPermissionDenied :: sentinel where "ErrOwnershipMetadataPermissionDenied \<equiv> ''ErrOwnershipMetadataPermissionDenied''"
abbreviation ErrOwnershipMetadataUnsupported :: sentinel where "ErrOwnershipMetadataUnsupported \<equiv> ''ErrOwnershipMetadataUnsupported''"
abbreviation ErrTimestampMetadataUnsupported :: sentinel where "ErrTimestampMetadataUnsupported \<equiv> ''ErrTimestampMetadataUnsupported''"
abbreviation ErrXAttrNameEmpty :: sentinel where "ErrXAttrNameEmpty \<equiv> ''ErrXAttrNameEmpty''"
abbreviation ErrXAttrNameContainsNUL :: sentinel where "ErrXAttrNameContainsNUL \<equiv> ''ErrXAttrNameContainsNUL''"
abbreviation ErrXAttrNameMissingNamespace :: sentinel where "ErrXAttrNameMissingNamespace \<equiv> ''ErrXAttrNameMissingNamespace''"
abbreviation ErrXAttrNamespaceUnsupported :: sentinel where "ErrXAttrNamespaceUnsupported \<equiv> ''ErrXAttrNamespaceUnsupported''"
abbreviation ErrXAttrNamespaceNotAllowed :: sentinel where "ErrXAttrNamespaceNotAllowed \<equiv> ''ErrXAttrNamespaceNotAllowed''"
abbreviation ErrXAttrPermissionDenied :: sentinel where "ErrXAttrPermissionDenied \<equiv> ''ErrXAttrPermissionDenied''"
abbreviation ErrXAttrUnsupported :: sentinel where "ErrXAttrUnsupported \<equiv> ''ErrXAttrUnsupported''"
abbreviation ErrXAttrMetadataUnsupported :: sentinel where "ErrXAttrMetadataUnsupported \<equiv> ''ErrXAttrMetadataUnsupported''"
abbreviation ErrACLMetadataUnsupported :: sentinel where "ErrACLMetadataUnsupported \<equiv> ''ErrACLMetadataUnsupported''"
abbreviation ErrACLPermissionDenied :: sentinel where "ErrACLPermissionDenied \<equiv> ''ErrACLPermissionDenied''"
abbreviation ErrACLUnsupported :: sentinel where "ErrACLUnsupported \<equiv> ''ErrACLUnsupported''"
abbreviation ErrACLInvalidEntry :: sentinel where "ErrACLInvalidEntry \<equiv> ''ErrACLInvalidEntry''"
abbreviation ErrACLEntryContainsNUL :: sentinel where "ErrACLEntryContainsNUL \<equiv> ''ErrACLEntryContainsNUL''"
abbreviation ErrACLEntryEmpty :: sentinel where "ErrACLEntryEmpty \<equiv> ''ErrACLEntryEmpty''"
abbreviation ErrACLEntryContainsComma :: sentinel where "ErrACLEntryContainsComma \<equiv> ''ErrACLEntryContainsComma''"
abbreviation ErrByteNameAlphabetInvalid :: sentinel where "ErrByteNameAlphabetInvalid \<equiv> ''ErrByteNameAlphabetInvalid''"
abbreviation ErrFaultInjected :: sentinel where "ErrFaultInjected \<equiv> ''ErrFaultInjected''"
abbreviation ErrOperationStartIndexNegative :: sentinel where "ErrOperationStartIndexNegative \<equiv> ''ErrOperationStartIndexNegative''"
abbreviation ErrOperationStartIndexOutOfRange :: sentinel where "ErrOperationStartIndexOutOfRange \<equiv> ''ErrOperationStartIndexOutOfRange''"
abbreviation ErrScenarioManifestVersionTooOld :: sentinel where "ErrScenarioManifestVersionTooOld \<equiv> ''ErrScenarioManifestVersionTooOld''"
abbreviation ErrScenarioManifestVersionTooNew :: sentinel where "ErrScenarioManifestVersionTooNew \<equiv> ''ErrScenarioManifestVersionTooNew''"
abbreviation ErrScenarioManifestPayloadEmpty :: sentinel where "ErrScenarioManifestPayloadEmpty \<equiv> ''ErrScenarioManifestPayloadEmpty''"
abbreviation ErrScenarioManifestCapabilitiesIncomplete :: sentinel where "ErrScenarioManifestCapabilitiesIncomplete \<equiv> ''ErrScenarioManifestCapabilitiesIncomplete''"
abbreviation ErrScenarioManifestChecksumMismatch :: sentinel where "ErrScenarioManifestChecksumMismatch \<equiv> ''ErrScenarioManifestChecksumMismatch''"
abbreviation ErrScenarioManifestChecksumAlgorithmUnsupported :: sentinel where "ErrScenarioManifestChecksumAlgorithmUnsupported \<equiv> ''ErrScenarioManifestChecksumAlgorithmUnsupported''"
abbreviation ErrScenarioManifestCapabilityUnsupported :: sentinel where "ErrScenarioManifestCapabilityUnsupported \<equiv> ''ErrScenarioManifestCapabilityUnsupported''"
abbreviation ErrMutationPathCollisionExhausted :: sentinel where "ErrMutationPathCollisionExhausted \<equiv> ''ErrMutationPathCollisionExhausted''"
abbreviation ErrBasePathEmpty :: sentinel where "ErrBasePathEmpty \<equiv> ''ErrBasePathEmpty''"
abbreviation ErrBasePathSymlink :: sentinel where "ErrBasePathSymlink \<equiv> ''ErrBasePathSymlink''"
abbreviation ErrOperationSpecEmpty :: sentinel where "ErrOperationSpecEmpty \<equiv> ''ErrOperationSpecEmpty''"
abbreviation ErrOperationPathEscapesBase :: sentinel where "ErrOperationPathEscapesBase \<equiv> ''ErrOperationPathEscapesBase''"
abbreviation ErrOperationPathSymlinkParent :: sentinel where "ErrOperationPathSymlinkParent \<equiv> ''ErrOperationPathSymlinkParent''"
abbreviation errOperationPreconditions :: sentinel where "errOperationPreconditions \<equiv> ''errOperationPreconditions''"
abbreviation ErrUnsupportedOperation :: sentinel where "ErrUnsupportedOperation \<equiv> ''ErrUnsupportedOperation''"
abbreviation ErrAllowedOperationKindsEmpty :: sentinel where "ErrAllowedOperationKindsEmpty \<equiv> ''ErrAllowedOperationKindsEmpty''"
abbreviation ErrCreateSymlinkLinkTargetEmpty :: sentinel where "ErrCreateSymlinkLinkTargetEmpty \<equiv> ''ErrCreateSymlinkLinkTargetEmpty''"
abbreviation ErrCreateSymlinkLinkTargetContainsNUL :: sentinel where "ErrCreateSymlinkLinkTargetContainsNUL \<equiv> ''ErrCreateSymlinkLinkTargetContainsNUL''"
abbreviation ErrCreateHardlinkSameSourceAndTarget :: sentinel where "ErrCreateHardlinkSameSourceAndTarget \<equiv> ''ErrCreateHardlinkSameSourceAndTarget''"
abbreviation ErrRenameSameSourceAndDestination :: sentinel where "ErrRenameSameSourceAndDestination \<equiv> ''ErrRenameSameSourceAndDestination''"
abbreviation ErrAppendDataEmpty :: sentinel where "ErrAppendDataEmpty \<equiv> ''ErrAppendDataEmpty''"
abbreviation ErrOverwriteRangeDataEmpty :: sentinel where "ErrOverwriteRangeDataEmpty \<equiv> ''ErrOverwriteRangeDataEmpty''"
abbreviation ErrOperationPathEmpty :: sentinel where "ErrOperationPathEmpty \<equiv> ''ErrOperationPathEmpty''"
abbreviation ErrOperationPathContainsNUL :: sentinel where "ErrOperationPathContainsNUL \<equiv> ''ErrOperationPathContainsNUL''"
abbreviation ErrOperationPathIsRoot :: sentinel where "ErrOperationPathIsRoot \<equiv> ''ErrOperationPathIsRoot''"
abbreviation ErrPlanPathCollisionExhausted :: sentinel where "ErrPlanPathCollisionExhausted \<equiv> ''ErrPlanPathCollisionExhausted''"
abbreviation ErrXAttrComparatorNil :: sentinel where "ErrXAttrComparatorNil \<equiv> ''ErrXAttrComparatorNil''"
abbreviation ErrACLComparatorNil :: sentinel where "ErrACLComparatorNil \<equiv> ''ErrACLComparatorNil''"
abbreviation ErrXAttrMetadataUnavailable :: sentinel where "ErrXAttrMetadataUnavailable \<equiv> ''ErrXAttrMetadataUnavailable''"
abbreviation ErrACLMetadataUnavailable :: sentinel where "ErrACLMetadataUnavailable \<equiv> ''ErrACLMetadataUnavailable''"
abbreviation ErrSparsenessMetadataUnavailable :: sentinel where "ErrSparsenessMetadataUnavailable \<equiv> ''ErrSparsenessMetadataUnavailable''"
abbreviation ErrDeviceIDMetadataUnavailable :: sentinel where "ErrDeviceIDMetadataUnavailable \<equiv> ''ErrDeviceIDMetadataUnavailable''"
abbreviation ErrXAttrCollectionUnsupported :: sentinel where "ErrXAttrCollectionUnsupported \<equiv> ''ErrXAttrCollectionUnsupported''"
abbreviation ErrACLCollectionUnsupported :: sentinel where "ErrACLCollectionUnsupported \<equiv> ''ErrACLCollectionUnsupported''"
abbreviation ErrSparsenessCollectionUnsupported :: sentinel where "ErrSparsenessCollectionUnsupported \<equiv> ''ErrSparsenessCollectionUnsupported''"

datatype err =
    Sentinel sentinel
  | Errorf string "err option"
  | Panic string

fun errors_Is :: "err \<Rightarrow> sentinel \<Rightarrow> bool" where
  "errors_Is (Sentinel s) t = (s = t)"
| "errors_Is (Errorf m None) t = False"
| "errors_Is (Errorf m (Some e)) t = errors_Is e t"
| "errors_Is (Panic m) t = False"

abbreviation Err :: "string \<Rightarrow> err + 'a" where
  "Err m \<equiv> Inl (Errorf m None)"

abbreviation Fail :: "sentinel \<Rightarrow> err + 'a" where
  "Fail s \<equiv> Inl (Sentinel s)"

abbreviation FailW :: "string \<Rightarrow> sentinel \<Rightarrow> err + 'a" where
  "FailW m s \<equiv> Inl (Errorf m (Some (Sentinel s)))"

section \<open>Results\<close>

definition bindE :: "err + 'a \<Rightarrow> ('a \<Rightarrow> err + 'b) \<Rightarrow> err + 'b" where
  "bindE m f = (case m of Inl e \<Rightarrow> Inl e | Inr x \<Rightarrow> f x)"

definition wrapE :: "string \<Rightarrow> err + 'a \<Rightarrow> err + 'a" where
  "wrapE msg m = (case m of Inl e \<Rightarrow> Inl (Errorf msg (Some e)) | Inr x \<Rightarrow> Inr x)"

definition is_ok :: "err + 'a \<Rightarrow> bool" where
  "is_ok m = (case m of Inl e \<Rightarrow> False | Inr x \<Rightarrow> True)"

lemma bindE_simps [simp]:
  "bindE (Inl e) f = Inl e"
  "bindE (Inr x) f = f x"
  by (simp_all add: bindE_def)

lemma wrapE_simps [simp]:
  "wrapE msg (Inl e) = Inl (Errorf msg (Some e))"
  "wrapE msg (Inr x) = Inr x"
  by (simp_all add: wrapE_def)

lemma is_ok_simps [simp]:
  "is_ok (Inl e) = False"
  "is_ok (Inr x) = True"
  by (simp_all add: is_ok_def)

lemma bindE_eq_Inr [simp]: "bindE m f = Inr y \<longleftrightarrow> (\<exists>x. m = Inr x \<and> f x = Inr y)"
  by (cases m) simp_all

lemma wrapE_eq_Inr [simp]: "wrapE msg m = Inr y \<longleftrightarrow> m = Inr y"
  by (cases m) simp_all

lemma is_ok_iff: "is_ok m \<longleftrightarrow> (\<exists>x. m = Inr x)"
  by (cases m) simp_all

lemma bindE_is_ok [simp]: "is_ok (bindE m f) \<longleftrightarrow> (\<exists>x. m = Inr x \<and> is_ok (f x))"
  by (cases m) simp_all

text \<open>A loop that computes one value per element and returns the first error.\<close>

fun mapE_from :: "nat \<Rightarrow> (nat \<Rightarrow> 'a \<Rightarrow> err + 'b) \<Rightarrow> 'a list \<Rightarrow> err + 'b list" where
  "mapE_from i f [] = Inr []"
| "mapE_from i f (x # xs) =
     bindE (f i x) (\<lambda>y. bindE (mapE_from (Suc i) f xs) (\<lambda>ys. Inr (y # ys)))"

lemma mapE_from_eq_Inr:
  "mapE_from i f xs = Inr ys \<longleftrightarrow>
     length ys = length xs \<and> (\<forall>k < length xs. f (i + k) (xs ! k) = Inr (ys ! k))"
proof (induction xs arbitrary: i ys)
  case Nil
  then show ?case by auto
next
  case (Cons x xs)
  show ?case
  proof (cases ys)
    case Nil
    then show ?thesis by simp
  next
    case (Cons z zs)
    then show ?thesis
      by (auto simp: Cons.IH All_less_Suc2)
  qed
qed

lemma mapE_from_length: "mapE_from i f xs = Inr ys \<Longrightarrow> length ys = length xs"
  by (simp add: mapE_from_eq_Inr)

lemma mapE_from_nth:
  "mapE_from i f xs = Inr ys \<Longrightarrow> k < length xs \<Longrightarrow> f (i + k) (xs ! k) = Inr (ys ! k)"
  by (simp add: mapE_from_eq_Inr)

lemma mapE_from_setD:
  assumes "mapE_from i f xs = Inr ys" and "y \<in> set ys"
  shows "\<exists>k x. x \<in> set xs \<and> f k x = Inr y"
proof -
  from assms(2) obtain k where "k < length ys" "ys ! k = y"
    by (auto simp: in_set_conv_nth)
  with assms(1) have "k < length xs" "f (i + k) (xs ! k) = Inr y"
    by (auto simp: mapE_from_eq_Inr)
  then show ?thesis by (meson nth_mem)
qed

lemma mapE_from_id:
  assumes "\<And>k x. x \<in> set xs \<Longrightarrow> f k x = Inr x"
  shows "mapE_from i f xs = Inr xs"
  using assms by (induction xs arbitrary: i) simp_all

section \<open>State with errors\<close>

type_synonym ('s, 'a) sem = "'s \<Rightarrow> (err + 'a) \<times> 's"

definition returnS :: "'a \<Rightarrow> ('s, 'a) sem" where
  "returnS x s = (Inr x, s)"

definition raiseS :: "err \<Rightarrow> ('s, 'a) sem" where
  "raiseS e s = (Inl e, s)"

definition bindS :: "('s, 'a) sem \<Rightarrow> ('a \<Rightarrow> ('s, 'b) sem) \<Rightarrow> ('s, 'b) sem" where
  "bindS m f s = (case m s of (Inl e, t) \<Rightarrow> (Inl e, t) | (Inr x, t) \<Rightarrow> f x t)"

definition wrapS :: "string \<Rightarrow> ('s, 'a) sem \<Rightarrow> ('s, 'a) sem" where
  "wrapS msg m s = (case m s of (r, t) \<Rightarrow> (wrapE msg r, t))"

definition liftS :: "err + 'a \<Rightarrow> ('s, 'a) sem" where
  "liftS r s = (r, s)"

definition getS :: "('s \<Rightarrow> 'a) \<Rightarrow> ('s, 'a) sem" where
  "getS f s = (Inr (f s), s)"

definition modifyS :: "('s \<Rightarrow> 's) \<Rightarrow> ('s, unit) sem" where
  "modifyS f s = (Inr (), f s)"

text \<open>
  A Hoare triple for such code: from a state with \<open>P\<close>, a normal return has \<open>Q\<close> of the
  value and the final state, an error return has \<open>E\<close> of the final state.
\<close>

definition triple :: "('s \<Rightarrow> bool) \<Rightarrow> ('s, 'a) sem \<Rightarrow> ('a \<Rightarrow> 's \<Rightarrow> bool) \<Rightarrow> ('s \<Rightarrow> bool) \<Rightarrow> bool" where
  "triple P m Q E \<longleftrightarrow>
     (\<forall>s. P s \<longrightarrow> (case m s of (Inl e, t) \<Rightarrow> E t | (Inr x, t) \<Rightarrow> Q x t))"

named_theorems hoare

lemma tripleI:
  assumes "\<And>s e t. P s \<Longrightarrow> m s = (Inl e, t) \<Longrightarrow> E t"
    and "\<And>s x t. P s \<Longrightarrow> m s = (Inr x, t) \<Longrightarrow> Q x t"
  shows "triple P m Q E"
  using assms by (auto simp: triple_def split: prod.split sum.split)

lemma triple_okD: "triple P m Q E \<Longrightarrow> P s \<Longrightarrow> m s = (Inr x, t) \<Longrightarrow> Q x t"
  by (auto simp: triple_def)

lemma triple_errD: "triple P m Q E \<Longrightarrow> P s \<Longrightarrow> m s = (Inl e, t) \<Longrightarrow> E t"
  by (auto simp: triple_def)

lemma triple_returnS [hoare]: "(\<And>s. P s \<Longrightarrow> Q x s) \<Longrightarrow> triple P (returnS x) Q E"
  by (simp add: triple_def returnS_def)

lemma triple_raiseS [hoare]: "(\<And>s. P s \<Longrightarrow> E s) \<Longrightarrow> triple P (raiseS e) Q E"
  by (simp add: triple_def raiseS_def)

lemma bindS_eq_Inr:
  "bindS m f s = (Inr y, t) \<longleftrightarrow> (\<exists>x u. m s = (Inr x, u) \<and> f x u = (Inr y, t))"
  by (auto simp: bindS_def split: prod.split sum.split)

lemma bindS_eq_Inl:
  "bindS m f s = (Inl e, t) \<longleftrightarrow>
     m s = (Inl e, t) \<or> (\<exists>x u. m s = (Inr x, u) \<and> f x u = (Inl e, t))"
  by (auto simp: bindS_def split: prod.split sum.split)

lemma triple_bindS:
  assumes m: "triple P m R E" and f: "\<And>x. triple (R x) (f x) Q E"
  shows "triple P (bindS m f) Q E"
proof (rule tripleI)
  fix s e t
  assume "P s" and "bindS m f s = (Inl e, t)"
  then show "E t"
    unfolding bindS_eq_Inl using triple_errD [OF m] triple_okD [OF m] triple_errD [OF f] by blast
next
  fix s x t
  assume "P s" and "bindS m f s = (Inr x, t)"
  then show "Q x t"
    unfolding bindS_eq_Inr using triple_okD [OF m] triple_okD [OF f] by blast
qed

lemma wrapS_eq_Inr: "wrapS msg m s = (Inr x, t) \<longleftrightarrow> m s = (Inr x, t)"
  by (auto simp: wrapS_def split: prod.split)

lemma wrapS_eq_Inl:
  "wrapS msg m s = (Inl e, t) \<longleftrightarrow> (\<exists>e'. e = Errorf msg (Some e') \<and> m s = (Inl e', t))"
  by (auto simp: wrapS_def wrapE_def split: prod.split sum.split)

lemma triple_wrapS [hoare]:
  assumes m: "triple P m Q E"
  shows "triple P (wrapS msg m) Q E"
  by (rule tripleI) (auto simp: wrapS_eq_Inr wrapS_eq_Inl dest: triple_okD [OF m] triple_errD [OF m])

lemma triple_liftS [hoare]:
  "(\<And>s x. P s \<Longrightarrow> r = Inr x \<Longrightarrow> Q x s) \<Longrightarrow> (\<And>s. P s \<Longrightarrow> E s) \<Longrightarrow> triple P (liftS r) Q E"
  by (auto simp: triple_def liftS_def split: sum.split)

lemma triple_getS [hoare]: "(\<And>s. P s \<Longrightarrow> Q (f s) s) \<Longrightarrow> triple P (getS f) Q E"
  by (simp add: triple_def getS_def)

lemma triple_modifyS [hoare]: "(\<And>s. P s \<Longrightarrow> Q () (f s)) \<Longrightarrow> triple P (modifyS f) Q E"
  by (simp add: triple_def modifyS_def)

lemma triple_conseq:
  assumes m: "triple P m Q E" and "\<And>s. P' s \<Longrightarrow> P s" and "\<And>x s. Q x s \<Longrightarrow> Q' x s"
    and "\<And>s. E s \<Longrightarrow> E' s"
  shows "triple P' m Q' E'"
  by (rule tripleI) (use assms triple_okD [OF m] triple_errD [OF m] in blast)+

text \<open>\<open>gives m R\<close>: every value \<open>m\<close> returns satisfies \<open>R\<close>.\<close>

definition gives :: "('s, 'a) sem \<Rightarrow> ('a \<Rightarrow> bool) \<Rightarrow> bool" where
  "gives m R \<longleftrightarrow> (\<forall>s x t. m s = (Inr x, t) \<longrightarrow> R x)"

lemma gives_bind: "gives m R' \<Longrightarrow> (\<And>x. R' x \<Longrightarrow> gives (f x) R) \<Longrightarrow> gives (bindS m f) R"
  unfolding gives_def bindS_eq_Inr by blast

lemma gives_return: "R x \<Longrightarrow> gives (returnS x) R"
  by (simp add: gives_def returnS_def)

lemma gives_raise: "gives (raiseS e) R"
  by (simp add: gives_def raiseS_def)

lemma gives_if: "(b \<Longrightarrow> gives m R) \<Longrightarrow> (\<not> b \<Longrightarrow> gives m' R) \<Longrightarrow> gives (if b then m else m') R"
  by simp

lemma gives_lift: "(\<And>x. r = Inr x \<Longrightarrow> R x) \<Longrightarrow> gives (liftS r) R"
  by (auto simp: gives_def liftS_def)

lemma gives_wrap: "gives m R \<Longrightarrow> gives (wrapS msg m) R"
  by (simp add: gives_def wrapS_eq_Inr)

lemma gives_any: "gives m (\<lambda>_. True)"
  by (simp add: gives_def)

lemma gives_mono: "gives m R \<Longrightarrow> (\<And>x. R x \<Longrightarrow> R' x) \<Longrightarrow> gives m R'"
  unfolding gives_def by blast

section \<open>Machine integers\<close>

definition wrap64 :: "int \<Rightarrow> int" where
  "wrap64 x = (x + 2 ^ 63) mod 2 ^ 64 - 2 ^ 63"

definition int64_range :: "int \<Rightarrow> bool" where
  "int64_range x \<longleftrightarrow> - (2 ^ 63) \<le> x \<and> x < 2 ^ 63"

lemma wrap64_id [simp]: "int64_range x \<Longrightarrow> wrap64 x = x"
  by (simp add: wrap64_def int64_range_def)

lemma wrap64_range [simp]: "int64_range (wrap64 x)"
  using pos_mod_bound [of "2 ^ 64" "x + 2 ^ 63"] pos_mod_sign [of "2 ^ 64" "x + 2 ^ 63"]
  by (simp add: wrap64_def int64_range_def)

section \<open>The random source\<close>

type_synonym rng = "nat list"

fun next_raw :: "rng \<Rightarrow> nat \<times> rng" where
  "next_raw [] = (0, [])"
| "next_raw (x # xs) = (x, xs)"

text \<open>
  \<^verbatim>\<open>r.Intn(n)\<close> and \<^verbatim>\<open>r.Int63n(n)\<close>: a number in \<open>[0, n)\<close>; they panic for \<open>n \<le> 0\<close>.
  \<^verbatim>\<open>r.Int63()\<close>: a number in \<open>[0, 2^63)\<close>. \<^verbatim>\<open>r.Read(buf)\<close> fills the buffer and never fails.
\<close>

definition Intn :: "int \<Rightarrow> rng \<Rightarrow> (err + int) \<times> rng" where
  "Intn n r =
     (if n \<le> 0 then (Inl (Panic ''invalid argument to Intn''), r)
      else (case next_raw r of (x, r') \<Rightarrow> (Inr (int x mod n), r')))"

definition Int63 :: "rng \<Rightarrow> int \<times> rng" where
  "Int63 r = (case next_raw r of (x, r') \<Rightarrow> (int x mod 2 ^ 63, r'))"

fun Read_bytes :: "nat \<Rightarrow> rng \<Rightarrow> 8 word list \<times> rng" where
  "Read_bytes 0 r = ([], r)"
| "Read_bytes (Suc n) r =
     (case next_raw r of (x, r') \<Rightarrow>
        (case Read_bytes n r' of (bs, r'') \<Rightarrow> (word_of_nat x # bs, r'')))"

lemma Intn_ok: "0 < n \<Longrightarrow> \<exists>v r'. Intn n r = (Inr v, r') \<and> 0 \<le> v \<and> v < n"
  by (cases "next_raw r") (simp add: Intn_def)

lemma Intn_bounds: "Intn n r = (Inr v, r') \<Longrightarrow> 0 < n \<and> 0 \<le> v \<and> v < n"
  by (auto simp: Intn_def split: if_splits prod.splits)

lemma gives_Intn: "gives (Intn n) (\<lambda>v. 0 \<le> v \<and> v < n)"
  unfolding gives_def using Intn_bounds by blast

lemma Int63_range: "0 \<le> fst (Int63 r) \<and> fst (Int63 r) < 2 ^ 63"
  by (auto simp: Int63_def split: prod.splits)

lemma Read_bytes_length [simp]: "length (fst (Read_bytes n r)) = n"
  by (induction n r rule: Read_bytes.induct) (auto split: prod.splits)

section \<open>Lists\<close>

lemma sort_unique:
  "sorted xs \<Longrightarrow> sorted ys \<Longrightarrow> mset xs = mset ys \<Longrightarrow> xs = ys"
  by (metis properties_for_sort)

lemma length_filter_eq_count:
  "length (filter (\<lambda>x. f x = a) xs) = count (image_mset f (mset xs)) a"
  by (induction xs) auto

section \<open>Files as byte lists\<close>

text \<open>\<^verbatim>\<open>File.WriteAt\<close> fills a gap with zeros; \<^verbatim>\<open>File.Truncate\<close> cuts or extends with zeros.\<close>

definition pwrite :: "8 word list \<Rightarrow> nat \<Rightarrow> 8 word list \<Rightarrow> 8 word list" where
  "pwrite f off data =
     (if data = [] then f
      else take off f @ replicate (off - length f) 0 @ data @ drop (off + length data) f)"

definition WriteAt :: "8 word list \<Rightarrow> int \<Rightarrow> 8 word list \<Rightarrow> err + 8 word list" where
  "WriteAt f off data =
     (if off < 0 then Err ''negative offset'' else Inr (pwrite f (nat off) data))"

definition ftruncate :: "8 word list \<Rightarrow> int \<Rightarrow> err + 8 word list" where
  "ftruncate f n =
     (if n < 0 then Err ''invalid argument''
      else Inr (take (nat n) f @ replicate (nat n - length f) 0))"

lemma pwrite_pwrite: "pwrite (pwrite f off a) (off + length a) b = pwrite f off (a @ b)"
  by (cases "a = []"; cases "b = []") (auto simp: pwrite_def min_def add.assoc add.commute add.left_commute)

lemma pwrite_Nil [simp]: "pwrite f off [] = f"
  by (simp add: pwrite_def)

lemma pwrite_0 [simp]: "pwrite [] 0 data = data"
  by (simp add: pwrite_def)

lemma length_pwrite: "length (pwrite f off data) = (if data = [] then length f else max (length f) (off + length data))"
  by (auto simp: pwrite_def)

lemma nth_pwrite:
  "k < length (pwrite f off data) \<Longrightarrow> pwrite f off data ! k =
     (if off \<le> k \<and> k < off + length data then data ! (k - off)
      else if k < length f then f ! k else 0)"
  by (auto simp: pwrite_def nth_append min_def split: if_splits)

end
