(* ===== verification/Go_Strings.thy ===== *)
theory Go_Strings
  imports Go_Base
begin

text \<open>
  The part of the Go standard library packages \<^verbatim>\<open>strings\<close>, \<^verbatim>\<open>strconv\<close> and \<^verbatim>\<open>fmt\<close> the
  code uses, on byte strings, with the laws the components need: splitting and joining,
  trimming, decimal and hexadecimal printing and decimal parsing, and the decoding of UTF-8
  into runes (\<^verbatim>\<open>unicode/utf8\<close>).
\<close>

section \<open>Prefixes, membership\<close>

definition NUL :: char where
  "NUL = CHR 0x00"

definition Contains :: "string \<Rightarrow> char \<Rightarrow> bool" where
  "Contains s c \<longleftrightarrow> c \<in> set s"

definition HasPrefix :: "string \<Rightarrow> string \<Rightarrow> bool" where
  "HasPrefix s p \<longleftrightarrow> take (length p) s = p"

definition TrimPrefix :: "string \<Rightarrow> string \<Rightarrow> string" where
  "TrimPrefix s p = (if HasPrefix s p then drop (length p) s else s)"

lemma HasPrefix_iff: "HasPrefix s p \<longleftrightarrow> (\<exists>t. s = p @ t)"
  unfolding HasPrefix_def by (metis append_eq_conv_conj append_take_drop_id)

lemma HasPrefix_append [simp]: "HasPrefix (p @ t) p"
  by (simp add: HasPrefix_def)

lemma HasPrefix_code [simp]:
  "HasPrefix s [] = True"
  "HasPrefix [] (y # ys) = False"
  "HasPrefix (x # xs) (y # ys) = (x = y \<and> HasPrefix xs ys)"
  by (auto simp: HasPrefix_def)

lemma TrimPrefix_append [simp]: "TrimPrefix (p @ t) p = t"
  by (simp add: TrimPrefix_def)

section \<open>Split and Join on a separator byte\<close>

fun Split :: "char \<Rightarrow> string \<Rightarrow> string list" where
  "Split c [] = [[]]"
| "Split c (x # xs) =
     (if x = c then [] # Split c xs
      else (case Split c xs of [] \<Rightarrow> [[x]] | w # ws \<Rightarrow> (x # w) # ws))"

fun Join :: "char \<Rightarrow> string list \<Rightarrow> string" where
  "Join c [] = []"
| "Join c [w] = w"
| "Join c (w # v # ws) = w @ c # Join c (v # ws)"

lemma Split_nonempty [simp]: "Split c s \<noteq> []"
  by (cases s) (auto split: list.splits)

lemma Split_no_sep: "c \<notin> set s \<Longrightarrow> Split c s = [s]"
  by (induction s) auto

lemma Split_append_sep: "c \<notin> set w \<Longrightarrow> Split c (w @ c # s) = w # Split c s"
  by (induction w) auto

lemma Split_elem: "w \<in> set (Split c s) \<Longrightarrow> c \<notin> set w"
  by (induction s arbitrary: w) (auto split: if_splits list.splits)

lemma Split_Join:
  "ws \<noteq> [] \<Longrightarrow> \<forall>w \<in> set ws. c \<notin> set w \<Longrightarrow> Split c (Join c ws) = ws"
  by (induction c ws rule: Join.induct) (auto simp: Split_no_sep Split_append_sep)

lemma Join_Cons: "Join c (w # ws) = w @ (if ws = [] then [] else c # Join c ws)"
  by (cases ws) auto

lemma Join_Split [simp]: "Join c (Split c s) = s"
proof (induction s)
  case Nil
  then show ?case by simp
next
  case (Cons x xs)
  show ?case
  proof (cases "Split c xs")
    case Nil
    then show ?thesis by simp
  next
    case (Cons w ws)
    with Cons.IH show ?thesis by (auto simp: Join_Cons)
  qed
qed

lemma Join_append:
  "us \<noteq> [] \<Longrightarrow> vs \<noteq> [] \<Longrightarrow> Join c (us @ vs) = Join c us @ c # Join c vs"
  by (induction us rule: induct_list012) (auto simp: Join_Cons)

lemma set_Split: "w \<in> set (Split c s) \<Longrightarrow> set w \<subseteq> set s"
proof -
  have "\<forall>w \<in> set (Split c s). set w \<subseteq> set s"
  proof (induction s)
    case (Cons x xs)
    then show ?case by (cases "Split c xs") (simp_all, blast)
  qed simp
  then show "w \<in> set (Split c s) \<Longrightarrow> set w \<subseteq> set s" by blast
qed

lemma Join_eq_Nil: "Join c ws = [] \<longleftrightarrow> ws = [] \<or> ws = [[]]"
  by (cases ws) (auto simp: Join_Cons)

lemma set_Join: "set (Join c ws) \<subseteq> insert c (\<Union>w \<in> set ws. set w)"
  by (induction c ws rule: Join.induct) auto

section \<open>Trimming white space\<close>

text \<open>
  \<^verbatim>\<open>strings.TrimSpace\<close> removes the Unicode \<^verbatim>\<open>White_Space\<close> code points at both ends. On the
  byte string they are the following UTF-8 sequences; no sequence is a proper suffix or
  prefix of another, so decoding rune by rune and matching sequences agree.
\<close>

definition space_seqs :: "string list" where
  "space_seqs =
     [[CHR 0x09], [CHR 0x0A], [CHR 0x0B], [CHR 0x0C], [CHR 0x0D], [CHR 0x20],
      [CHR 0xC2, CHR 0x85], [CHR 0xC2, CHR 0xA0], [CHR 0xE1, CHR 0x9A, CHR 0x80],
      [CHR 0xE2, CHR 0x80, CHR 0x80], [CHR 0xE2, CHR 0x80, CHR 0x81],
      [CHR 0xE2, CHR 0x80, CHR 0x82], [CHR 0xE2, CHR 0x80, CHR 0x83],
      [CHR 0xE2, CHR 0x80, CHR 0x84], [CHR 0xE2, CHR 0x80, CHR 0x85],
      [CHR 0xE2, CHR 0x80, CHR 0x86], [CHR 0xE2, CHR 0x80, CHR 0x87],
      [CHR 0xE2, CHR 0x80, CHR 0x88], [CHR 0xE2, CHR 0x80, CHR 0x89],
      [CHR 0xE2, CHR 0x80, CHR 0x8A], [CHR 0xE2, CHR 0x80, CHR 0xA8],
      [CHR 0xE2, CHR 0x80, CHR 0xA9], [CHR 0xE2, CHR 0x80, CHR 0xAF],
      [CHR 0xE2, CHR 0x81, CHR 0x9F], [CHR 0xE3, CHR 0x80, CHR 0x80]]"

lemma space_seqs_nonempty: "w \<in> set space_seqs \<Longrightarrow> w \<noteq> []"
  by (auto simp: space_seqs_def)

text \<open>Drop listed sequences from the front as long as one matches.\<close>

function drop_seqs :: "string list \<Rightarrow> string \<Rightarrow> string" where
  "drop_seqs ws s =
     (case find (\<lambda>w. w \<noteq> [] \<and> HasPrefix s w) ws of
        None \<Rightarrow> s
      | Some w \<Rightarrow> drop_seqs ws (drop (length w) s))"
  by pat_completeness auto
termination
proof (relation "measure (\<lambda>(ws, s). length s)", goal_cases)
  case 1
  then show ?case by simp
next
  case (2 ws s w)
  then have "w \<noteq> []" and "HasPrefix s w"
    by (auto simp: find_Some_iff)
  then have "0 < length w" and "length w \<le> length s"
    by (auto simp: HasPrefix_iff)
  then have "0 < length s" by linarith
  with \<open>0 < length w\<close> show ?case by simp
qed

declare drop_seqs.simps [simp del]

definition TrimSpace :: "string \<Rightarrow> string" where
  "TrimSpace s = rev (drop_seqs (map rev space_seqs) (rev (drop_seqs space_seqs s)))"

lemma drop_seqs_id: "\<forall>w \<in> set ws. w \<noteq> [] \<longrightarrow> \<not> HasPrefix s w \<Longrightarrow> drop_seqs ws s = s"
proof -
  assume "\<forall>w \<in> set ws. w \<noteq> [] \<longrightarrow> \<not> HasPrefix s w"
  then have "find (\<lambda>w. w \<noteq> [] \<and> HasPrefix s w) ws = None"
    by (auto simp: find_None_iff)
  then show ?thesis by (subst drop_seqs.simps) simp
qed

text \<open>A string whose first and last byte cannot be part of white space is unchanged.\<close>

definition space_first :: "char set" where
  "space_first = {CHR 0x09, CHR 0x0A, CHR 0x0B, CHR 0x0C, CHR 0x0D, CHR 0x20,
     CHR 0xC2, CHR 0xE1, CHR 0xE2, CHR 0xE3}"

definition space_last :: "char set" where
  "space_last = {CHR 0x09, CHR 0x0A, CHR 0x0B, CHR 0x0C, CHR 0x0D, CHR 0x20} \<union>
     {CHR 0x80, CHR 0x81, CHR 0x82, CHR 0x83, CHR 0x84, CHR 0x85, CHR 0x86, CHR 0x87,
      CHR 0x88, CHR 0x89, CHR 0x8A, CHR 0x9F, CHR 0xA0, CHR 0xA8, CHR 0xA9, CHR 0xAF}"

lemma space_seqs_first: "w \<in> set space_seqs \<Longrightarrow> HasPrefix (x # s) w \<Longrightarrow> x \<in> space_first"
  by (auto simp: space_seqs_def space_first_def)

lemma space_seqs_last:
  "w \<in> set (map rev space_seqs) \<Longrightarrow> HasPrefix (x # s) w \<Longrightarrow> x \<in> space_last"
  by (auto simp: space_seqs_def space_last_def)

lemma TrimSpace_id:
  assumes "s \<noteq> []" "hd s \<notin> space_first" "last s \<notin> space_last"
  shows "TrimSpace s = s"
proof -
  obtain x t where s: "s = x # t" using assms(1) by (cases s) auto
  have 1: "drop_seqs space_seqs s = s"
    using assms(2) space_seqs_first s by (intro drop_seqs_id) auto
  obtain y u where r: "rev s = y # u" using assms(1) by (cases "rev s") auto
  then have "last s = y" by (metis hd_rev list.sel(1))
  then have 2: "drop_seqs (map rev space_seqs) (rev s) = rev s"
    unfolding r using assms(3) space_seqs_last by (intro drop_seqs_id) auto
  show ?thesis by (simp add: TrimSpace_def 1 2)
qed

lemma TrimSpace_Nil [simp]: "TrimSpace [] = []"
proof -
  have 1: "drop_seqs ws [] = []" for ws
    by (rule drop_seqs_id) (auto simp: neq_Nil_conv)
  show ?thesis by (simp add: TrimSpace_def 1)
qed

text \<open>A byte that is in no white-space sequence is never trimmed.\<close>

lemma drop_seqs_keeps:
  "c \<in> set s \<Longrightarrow> \<forall>w \<in> set ws. c \<notin> set w \<Longrightarrow> c \<in> set (drop_seqs ws s)"
proof (induction ws s rule: drop_seqs.induct)
  case (1 ws s)
  show ?case
  proof (cases "find (\<lambda>w. w \<noteq> [] \<and> HasPrefix s w) ws")
    case None
    then show ?thesis using 1 by (subst drop_seqs.simps) simp
  next
    case (Some w)
    then have w: "w \<in> set ws" "HasPrefix s w" by (auto simp: find_Some_iff)
    then obtain t where "s = w @ t" by (auto simp: HasPrefix_iff)
    with 1(2,3) w(1) have "c \<in> set (drop (length w) s)" by auto
    with 1(1) [OF Some] 1(3) Some show ?thesis by (subst drop_seqs.simps) simp
  qed
qed

lemma TrimSpace_keeps:
  assumes "c \<in> set s" and "\<forall>w \<in> set space_seqs. c \<notin> set w"
  shows "c \<in> set (TrimSpace s)"
proof -
  have "c \<in> set (drop_seqs space_seqs s)" by (rule drop_seqs_keeps) (use assms in auto)
  then have "c \<in> set (drop_seqs (map rev space_seqs) (rev (drop_seqs space_seqs s)))"
    by (intro drop_seqs_keeps) (use assms(2) in auto)
  then show ?thesis by (simp add: TrimSpace_def)
qed

lemma drop_seqs_sublist: "\<exists>p. s = p @ drop_seqs ws s"
proof (induction ws s rule: drop_seqs.induct)
  case (1 ws s)
  show ?case
  proof (cases "find (\<lambda>w. w \<noteq> [] \<and> HasPrefix s w) ws")
    case None
    then show ?thesis by (subst drop_seqs.simps) simp
  next
    case (Some w)
    with 1 obtain p where "drop (length w) s = p @ drop_seqs ws (drop (length w) s)" by blast
    moreover have "drop_seqs ws s = drop_seqs ws (drop (length w) s)"
      using Some by (subst drop_seqs.simps) simp
    ultimately have "s = (take (length w) s @ p) @ drop_seqs ws s"
      by (metis append.assoc append_take_drop_id)
    then show ?thesis by blast
  qed
qed

lemma TrimSpace_infix: "\<exists>p q. s = p @ TrimSpace s @ q"
proof -
  obtain p where p: "s = p @ drop_seqs space_seqs s" using drop_seqs_sublist by blast
  obtain q where "rev (drop_seqs space_seqs s) =
      q @ drop_seqs (map rev space_seqs) (rev (drop_seqs space_seqs s))"
    using drop_seqs_sublist by blast
  then have "drop_seqs space_seqs s = TrimSpace s @ rev q"
    unfolding TrimSpace_def by (metis rev_append rev_rev_ident)
  with p show ?thesis by metis
qed

lemma set_TrimSpace: "set (TrimSpace s) \<subseteq> set s"
  using TrimSpace_infix [of s] by (metis Un_iff set_append subsetI)

section \<open>Lower case\<close>

text \<open>
  \<^verbatim>\<open>strings.ToLower\<close>, as far as a comparison with an ASCII word can see: ASCII letters, and
  the two other code points whose lower case is an ASCII letter (U+0130 and U+212A). All
  other bytes stay (in Go they may change, but never to ASCII).
\<close>

definition lower_byte :: "char \<Rightarrow> char" where
  "lower_byte c = (if CHR ''A'' \<le> c \<and> c \<le> CHR ''Z'' then char_of (of_char c + 32 :: nat) else c)"

fun ToLower :: "string \<Rightarrow> string" where
  "ToLower [] = []"
| "ToLower (x # xs) =
     (if HasPrefix (x # xs) [CHR 0xC4, CHR 0xB0] then CHR ''i'' # ToLower (drop 1 xs)
      else if HasPrefix (x # xs) [CHR 0xE2, CHR 0x84, CHR 0xAA] then CHR ''k'' # ToLower (drop 2 xs)
      else lower_byte x # ToLower xs)"

section \<open>Numbers as text\<close>

definition digit_char :: "nat \<Rightarrow> char" where
  "digit_char d = char_of (48 + d)"

definition is_digit :: "char \<Rightarrow> bool" where
  "is_digit c \<longleftrightarrow> CHR ''0'' \<le> c \<and> c \<le> CHR ''9''"

definition digit_val :: "char \<Rightarrow> nat" where
  "digit_val c = of_char c - 48"

text \<open>\<^verbatim>\<open>fmt.Sprintf("%d", n)\<close> of a natural number, and the reader of \<^verbatim>\<open>strconv.ParseUint\<close>.\<close>

fun show_nat :: "nat \<Rightarrow> string" where
  "show_nat n = (if n < 10 then [digit_char n] else show_nat (n div 10) @ [digit_char (n mod 10)])"

declare show_nat.simps [simp del]

definition read_nat :: "string \<Rightarrow> nat" where
  "read_nat s = foldl (\<lambda>a c. 10 * a + digit_val c) 0 s"

definition pad_zero :: "nat \<Rightarrow> string \<Rightarrow> string" where
  "pad_zero w s = replicate (w - length s) (CHR ''0'') @ s"

definition hex_alphabet :: string where
  "hex_alphabet = ''0123456789abcdef''"

definition hex_char :: "nat \<Rightarrow> char" where
  "hex_char d = hex_alphabet ! (d mod 16)"

text \<open>Lower-case hexadecimal with \<open>w\<close> digits: \<^verbatim>\<open>%0wx\<close> of a value below \<open>16 ^ w\<close>.\<close>

fun hex_digits :: "nat \<Rightarrow> nat \<Rightarrow> string" where
  "hex_digits 0 n = []"
| "hex_digits (Suc w) n = hex_digits w (n div 16) @ [hex_char n]"

definition ParseUint32 :: "string \<Rightarrow> err + 32 word" where
  "ParseUint32 s =
     (if s = [] then Err ''invalid syntax''
      else if \<not> list_all is_digit s then Err ''invalid syntax''
      else if read_nat s \<ge> 2 ^ 32 then Err ''value out of range''
      else Inr (word_of_nat (read_nat s)))"

lemma digit_char_props:
  assumes "d < 10"
  shows "is_digit (digit_char d)" and "digit_val (digit_char d) = d"
  using assms by (simp_all add: is_digit_def digit_char_def digit_val_def less_eq_char_def)

lemma show_nat_digits: "list_all is_digit (show_nat n)"
proof (induction n rule: show_nat.induct)
  case (1 n)
  then show ?case by (subst show_nat.simps) (simp add: digit_char_props)
qed

lemma show_nat_nonempty [simp]: "show_nat n \<noteq> []"
  by (subst show_nat.simps) simp

lemma read_show_nat [simp]: "read_nat (show_nat n) = n"
proof (induction n rule: show_nat.induct)
  case (1 n)
  show ?case
  proof (cases "n < 10")
    case True
    then show ?thesis by (subst show_nat.simps) (simp add: read_nat_def digit_char_props)
  next
    case False
    with 1 show ?thesis
      by (subst show_nat.simps) (simp add: read_nat_def digit_char_props)
  qed
qed

lemma is_digit_ne:
  "is_digit c \<Longrightarrow> c \<notin> {CHR '':'', CHR ''/'', CHR 0x00, CHR ''.'', CHR ''_''}"
  by (auto simp: is_digit_def less_eq_char_def)

lemma is_digit_not_space: "is_digit c \<Longrightarrow> c \<notin> space_first \<and> c \<notin> space_last"
  by (auto simp: is_digit_def less_eq_char_def space_first_def space_last_def)

lemma ParseUint32_show [simp]:
  "n < 2 ^ 32 \<Longrightarrow> ParseUint32 (show_nat n) = Inr (word_of_nat n)"
  by (simp add: ParseUint32_def show_nat_digits)

lemma hex_digits_length [simp]: "length (hex_digits w n) = w"
  by (induction w arbitrary: n) simp_all

lemma hex_alphabet_length [simp]: "length hex_alphabet = 16"
  by (simp add: hex_alphabet_def)

lemma hex_alphabet_distinct: "distinct hex_alphabet"
  by (simp add: hex_alphabet_def)

lemma hex_char_cases: "hex_char d \<in> set hex_alphabet"
  by (simp add: hex_char_def)

lemma hex_digits_set: "set (hex_digits w n) \<subseteq> set hex_alphabet"
  by (induction w arbitrary: n) (use hex_char_cases in auto)

lemma hex_char_inj: "hex_char a = hex_char b \<Longrightarrow> a mod 16 = b mod 16"
  unfolding hex_char_def by (subst (asm) nth_eq_iff_index_eq [OF hex_alphabet_distinct]) simp_all

lemma hex_digits_inj: "hex_digits w a = hex_digits w b \<Longrightarrow> a mod 16 ^ w = b mod 16 ^ w"
proof (induction w arbitrary: a b)
  case 0
  then show ?case by simp
next
  case (Suc w)
  from Suc.prems have "hex_digits w (a div 16) = hex_digits w (b div 16)"
    and "hex_char a = hex_char b" by simp_all
  then have "a div 16 mod 16 ^ w = b div 16 mod 16 ^ w" and "a mod 16 = b mod 16"
    using Suc.IH hex_char_inj by blast+
  then show ?case by (simp only: power_Suc mod_mult2_eq)
qed

section \<open>Runes\<close>

definition RuneError :: nat where
  "RuneError = 0xFFFD"

definition byte_in :: "nat \<Rightarrow> nat \<Rightarrow> string \<Rightarrow> nat \<Rightarrow> bool" where
  "byte_in lo hi s i \<longleftrightarrow> i < length s \<and> lo \<le> of_char (s ! i) \<and> of_char (s ! i) \<le> hi"

text \<open>The bits a continuation byte adds.\<close>

definition low6 :: "string \<Rightarrow> nat \<Rightarrow> nat" where
  "low6 s i = of_char (s ! i) mod 64"

text \<open>The first rune and its width; width 1 with \<^const>\<open>RuneError\<close> is an invalid encoding.\<close>

definition DecodeRuneInString :: "string \<Rightarrow> nat \<times> nat" where
  "DecodeRuneInString s =
     (if s = [] then (RuneError, 0)
      else let b = (of_char (s ! 0) :: nat) in
        if b < 0x80 then (b, 1)
        else if 0xC2 \<le> b \<and> b \<le> 0xDF then
          if byte_in 0x80 0xBF s 1 then ((b mod 32) * 64 + low6 s 1, 2) else (RuneError, 1)
        else if 0xE0 \<le> b \<and> b \<le> 0xEF then
          if byte_in (if b = 0xE0 then 0xA0 else 0x80) (if b = 0xED then 0x9F else 0xBF) s 1
             \<and> byte_in 0x80 0xBF s 2
          then ((b mod 16) * 4096 + low6 s 1 * 64 + low6 s 2, 3) else (RuneError, 1)
        else if 0xF0 \<le> b \<and> b \<le> 0xF4 then
          if byte_in (if b = 0xF0 then 0x90 else 0x80) (if b = 0xF4 then 0x8F else 0xBF) s 1
             \<and> byte_in 0x80 0xBF s 2 \<and> byte_in 0x80 0xBF s 3
          then ((b mod 8) * 262144 + low6 s 1 * 4096 + low6 s 2 * 64 + low6 s 3, 4)
          else (RuneError, 1)
        else (RuneError, 1))"

lemma DecodeRune_width: "s \<noteq> [] \<Longrightarrow> 0 < snd (DecodeRuneInString s)"
  by (simp add: DecodeRuneInString_def Let_def)

text \<open>\<^verbatim>\<open>utf8.ValidString\<close>, and the runes a \<^verbatim>\<open>range\<close> over a string yields.\<close>

function ValidString :: "string \<Rightarrow> bool" where
  "ValidString s =
     (if s = [] then True
      else let (r, n) = DecodeRuneInString s in
        \<not> (r = RuneError \<and> n = 1) \<and> ValidString (drop n s))"
  by pat_completeness auto
termination
  by (relation "measure length") (use DecodeRune_width in \<open>auto simp: prod_eq_iff\<close>)

function runes :: "string \<Rightarrow> nat list" where
  "runes s = (if s = [] then [] else let (r, n) = DecodeRuneInString s in r # runes (drop n s))"
  by pat_completeness auto
termination
  by (relation "measure length") (use DecodeRune_width in \<open>auto simp: prod_eq_iff\<close>)

declare ValidString.simps [simp del] runes.simps [simp del]

lemma ValidString_Nil [simp]: "ValidString []" "runes [] = []"
  by (simp_all add: ValidString.simps runes.simps)

lemma DecodeRune_fits: "snd (DecodeRuneInString s) \<le> length s"
  unfolding DecodeRuneInString_def Let_def byte_in_def
  by (auto simp: Suc_le_eq length_greater_0_conv [symmetric] simp del: length_greater_0_conv split: if_split)

text \<open>A valid rune is decoded from its own bytes, whatever follows.\<close>

lemma DecodeRune_prefix:
  assumes "s \<noteq> []" "DecodeRuneInString s = (r, n)" "\<not> (r = RuneError \<and> n = 1)"
  shows "DecodeRuneInString (take n s @ t) = (r, n)"
proof -
  have n: "0 < n" "n \<le> length s" using DecodeRune_width [OF assms(1)] DecodeRune_fits [of s] assms(2) by simp_all
  have at: "(take n s @ t) ! i = s ! i" if "i < n" for i using that n by (simp add: nth_append)
  have ne: "take n s @ t \<noteq> []" using n assms(1) by simp
  have b: "byte_in lo hi (take n s @ t) i = byte_in lo hi s i" "low6 (take n s @ t) i = low6 s i" if "i < n" for lo hi i
    using at [OF that] that n by (simp_all add: byte_in_def low6_def)
  have small: "n = 1 \<or> n = 2 \<or> n = 3 \<or> n = 4" using assms by (auto simp: DecodeRuneInString_def Let_def split: if_splits)
  then consider "n = 1" | "n = 2" | "n = 3" | "n = 4" by blast
  then show ?thesis
  proof cases
    case 1
    then show ?thesis using assms ne at [of 0] by (auto simp: DecodeRuneInString_def Let_def split: if_splits)
  next
    case 2
    then show ?thesis
      using assms ne at [of 0] b [of 1] unfolding DecodeRuneInString_def Let_def by (auto split: if_splits)
  next
    case 3
    then show ?thesis
      using assms ne at [of 0] b [of 1] b [of 2] unfolding DecodeRuneInString_def Let_def by (auto split: if_splits)
  next
    case 4
    then show ?thesis
      using assms ne at [of 0] b [of 1] b [of 2] b [of 3] unfolding DecodeRuneInString_def Let_def
      by (auto split: if_splits)
  qed
qed

lemma runes_prefix:
  assumes "s \<noteq> []" "DecodeRuneInString s = (r, n)" "\<not> (r = RuneError \<and> n = 1)"
  shows "ValidString (take n s @ t) = ValidString t" "runes (take n s @ t) = r # runes t"
proof -
  have n: "0 < n" "n \<le> length s" using DecodeRune_width [OF assms(1)] DecodeRune_fits [of s] assms(2) by simp_all
  have ne: "take n s @ t \<noteq> []" using n assms(1) by simp
  have d: "drop n (take n s @ t) = t" using n by simp
  show "ValidString (take n s @ t) = ValidString t" using assms(3)
    by (subst ValidString.simps) (simp only: ne DecodeRune_prefix [OF assms] d Let_def prod.case if_False, simp)
  show "runes (take n s @ t) = r # runes t"
    by (subst runes.simps) (simp only: ne DecodeRune_prefix [OF assms] d Let_def prod.case if_False)
qed

lemma runes_ascii:
  assumes "(of_char c :: nat) < 0x80"
  shows "ValidString (c # t) = ValidString t" "runes (c # t) = of_char c # runes t"
proof -
  have "DecodeRuneInString [c] = (of_char c, 1)" using assms by (simp add: DecodeRuneInString_def)
  from runes_prefix [OF _ this, of t] assms
  show "ValidString (c # t) = ValidString t" "runes (c # t) = of_char c # runes t"
    by (simp_all add: RuneError_def)
qed

end
