(* ===== verification/Acl_Xattr.thy ===== *)
theory Acl_Xattr
  imports Go_Strings "HOL-Library.Product_Lexorder"
begin

unbundle bit_operations_syntax

text \<open>
  The package \<^verbatim>\<open>internal/aclxattr\<close>: POSIX ACL entries, their validation, their canonical
  order, the Linux xattr binary form and the textual form. The byte order of the host
  (\<^verbatim>\<open>binary.NativeEndian\<close>) is an argument. The locale \<open>byte_order\<close> states what the binary
  codec relies on; it is interpreted for both orders.
\<close>

section \<open>Entries\<close>

type_synonym byte = "8 word"
type_synonym entryKey = "16 word \<times> 32 word"

record Entry =
  Tag :: "16 word"
  Perm :: "16 word"
  ID :: "32 word"

definition xattrVersion :: "32 word" where "xattrVersion = 0x0002"
definition TagUserObj :: "16 word" where "TagUserObj = 0x0001"
definition TagUser :: "16 word" where "TagUser = 0x0002"
definition TagGroupObj :: "16 word" where "TagGroupObj = 0x0004"
definition TagGroup :: "16 word" where "TagGroup = 0x0008"
definition TagMask :: "16 word" where "TagMask = 0x0010"
definition TagOther :: "16 word" where "TagOther = 0x0020"
definition permRead :: "16 word" where "permRead = 0x0004"
definition permWrite :: "16 word" where "permWrite = 0x0002"
definition permExec :: "16 word" where "permExec = 0x0001"

definition UndefinedID :: "32 word" where
  "UndefinedID = NOT 0"

lemmas tag_defs = TagUserObj_def TagUser_def TagGroupObj_def TagGroup_def TagMask_def TagOther_def

definition entryKey :: "Entry \<Rightarrow> entryKey" where
  "entryKey e = (Tag e, ID e)"

definition AccessEntriesFromMode :: "32 word \<Rightarrow> Entry list" where
  "AccessEntriesFromMode mode =
     [\<lparr>Tag = TagUserObj, Perm = ucast (drop_bit 6 mode AND 7), ID = UndefinedID\<rparr>,
      \<lparr>Tag = TagGroupObj, Perm = ucast (drop_bit 3 mode AND 7), ID = UndefinedID\<rparr>,
      \<lparr>Tag = TagOther, Perm = ucast (mode AND 7), ID = UndefinedID\<rparr>]"

section \<open>Canonical order\<close>

definition tagSortRank :: "16 word \<Rightarrow> nat" where
  "tagSortRank t =
     (if t = TagUserObj then 0 else if t = TagUser then 1 else if t = TagGroupObj then 2
      else if t = TagGroup then 3 else if t = TagMask then 4 else if t = TagOther then 5
      else 99)"

text \<open>The comparison of \<open>SortEntries\<close>: tag rank, then qualifier, then permission.\<close>

definition sortRank :: "Entry \<Rightarrow> nat \<times> 32 word \<times> 16 word" where
  "sortRank e = (tagSortRank (Tag e), ID e, Perm e)"

definition SortEntries :: "Entry list \<Rightarrow> Entry list" where
  "SortEntries es = sort_key sortRank es"

section \<open>Validation\<close>

definition check_tag :: "Entry \<Rightarrow> bool \<Rightarrow> err + bool" where
  "check_tag e hasNamed =
     (if Tag e \<in> {TagUserObj, TagGroupObj, TagMask, TagOther} then
        (if ID e \<noteq> UndefinedID then Err ''ACL entry tag requires undefined qualifier''
         else Inr hasNamed)
      else if Tag e \<in> {TagUser, TagGroup} then
        (if ID e = UndefinedID then Err ''ACL entry tag requires numeric qualifier''
         else Inr True)
      else Err ''unsupported ACL entry tag'')"

text \<open>The loop of \<open>Validate\<close>: the counts per tag, the keys seen, whether a named entry was seen.\<close>

fun validate_loop ::
  "Entry list \<Rightarrow> (16 word \<Rightarrow> nat) \<Rightarrow> entryKey list \<Rightarrow> bool \<Rightarrow> err + (16 word \<Rightarrow> nat) \<times> bool" where
  "validate_loop [] counts seen hasNamed = Inr (counts, hasNamed)"
| "validate_loop (e # es) counts seen hasNamed =
     (if Perm e > 7 then Err ''invalid ACL permission bits''
      else bindE (check_tag e hasNamed) (\<lambda>named.
        if entryKey e \<in> set seen then Err ''duplicate ACL entry''
        else validate_loop es (counts(Tag e := counts (Tag e) + 1)) (entryKey e # seen) named))"

definition Validate :: "Entry list \<Rightarrow> err + unit" where
  "Validate es =
     (if es = [] then Inr ()
      else bindE (validate_loop es (\<lambda>_. 0) [] False) (\<lambda>(counts, hasNamed).
        if counts TagUserObj \<noteq> 1 then Err ''ACL must contain exactly one user:: entry''
        else if counts TagGroupObj \<noteq> 1 then Err ''ACL must contain exactly one group:: entry''
        else if counts TagOther \<noteq> 1 then Err ''ACL must contain exactly one other:: entry''
        else if counts TagMask > 1 then Err ''ACL must contain at most one mask:: entry''
        else if hasNamed \<and> counts TagMask \<noteq> 1
          then Err ''ACL with named entries requires exactly one mask:: entry''
        else Inr ()))"

section \<open>Binary form\<close>

datatype endian = LittleEndian | BigEndian

definition in_order :: "endian \<Rightarrow> byte list \<Rightarrow> byte list" where
  "in_order en bs = (case en of LittleEndian \<Rightarrow> bs | BigEndian \<Rightarrow> rev bs)"

definition PutUint16 :: "endian \<Rightarrow> 16 word \<Rightarrow> byte list" where
  "PutUint16 en w = in_order en [ucast w, ucast (drop_bit 8 w)]"

definition PutUint32 :: "endian \<Rightarrow> 32 word \<Rightarrow> byte list" where
  "PutUint32 en w =
     in_order en [ucast w, ucast (drop_bit 8 w), ucast (drop_bit 16 w), ucast (drop_bit 24 w)]"

definition Uint16 :: "endian \<Rightarrow> byte list \<Rightarrow> 16 word" where
  "Uint16 en bs =
     (case in_order en bs of b0 # b1 # _ \<Rightarrow> ucast b0 OR push_bit 8 (ucast b1) | _ \<Rightarrow> 0)"

definition Uint32 :: "endian \<Rightarrow> byte list \<Rightarrow> 32 word" where
  "Uint32 en bs =
     (case in_order en bs of
        b0 # b1 # b2 # b3 # _ \<Rightarrow>
          ucast b0 OR push_bit 8 (ucast b1) OR push_bit 16 (ucast b2) OR push_bit 24 (ucast b3)
      | _ \<Rightarrow> 0)"

definition encode_entry ::
  "(16 word \<Rightarrow> byte list) \<Rightarrow> (32 word \<Rightarrow> byte list) \<Rightarrow> Entry \<Rightarrow> byte list" where
  "encode_entry put16 put32 e = put16 (Tag e) @ put16 (Perm e) @ put32 (ID e)"

fun decode_entries ::
  "(byte list \<Rightarrow> 16 word) \<Rightarrow> (byte list \<Rightarrow> 32 word) \<Rightarrow> byte list \<Rightarrow> nat \<Rightarrow> nat \<Rightarrow> Entry list" where
  "decode_entries get16 get32 data off 0 = []"
| "decode_entries get16 get32 data off (Suc n) =
     \<lparr>Tag = get16 (take 2 (drop off data)), Perm = get16 (take 2 (drop (off + 2) data)),
      ID = get32 (take 4 (drop (off + 4) data))\<rparr>
     # decode_entries get16 get32 data (off + 8) n"

definition Marshal :: "endian \<Rightarrow> Entry list \<Rightarrow> err + byte list" where
  "Marshal en entries =
     (if entries = [] then Inr []
      else let sorted = SortEntries entries in
        bindE (Validate sorted) (\<lambda>_.
          Inr (PutUint32 en xattrVersion
               @ concat (map (encode_entry (PutUint16 en) (PutUint32 en)) sorted))))"

definition Parse :: "endian \<Rightarrow> byte list \<Rightarrow> err + Entry list" where
  "Parse en data =
     (if data = [] then Inr []
      else if length data < 4 then Err ''ACL xattr payload too short''
      else if (length data - 4) mod 8 \<noteq> 0 then Err ''ACL xattr payload malformed length''
      else if Uint32 en (take 4 data) \<noteq> xattrVersion then Err ''ACL xattr version mismatch''
      else let entries = SortEntries
                 (decode_entries (Uint16 en) (Uint32 en) data 4 ((length data - 4) div 8)) in
        bindE (Validate entries) (\<lambda>_. Inr entries))"

section \<open>Text form\<close>

definition parsePerm :: "string \<Rightarrow> err + 16 word" where
  "parsePerm raw =
     (if length raw \<noteq> 3 then Err ''ACL permission must be 3 characters''
      else bindE (if raw ! 0 = CHR ''r'' then Inr permRead
                  else if raw ! 0 = CHR ''-'' then Inr 0
                  else Err ''invalid ACL read permission'') (\<lambda>p0.
           bindE (if raw ! 1 = CHR ''w'' then Inr (p0 OR permWrite)
                  else if raw ! 1 = CHR ''-'' then Inr p0
                  else Err ''invalid ACL write permission'') (\<lambda>p1.
           if raw ! 2 = CHR ''x'' then Inr (p1 OR permExec)
           else if raw ! 2 = CHR ''-'' then Inr p1
           else Err ''invalid ACL execute permission'')))"

definition formatPerm :: "16 word \<Rightarrow> string" where
  "formatPerm perm =
     [if perm AND permRead \<noteq> 0 then CHR ''r'' else CHR ''-'',
      if perm AND permWrite \<noteq> 0 then CHR ''w'' else CHR ''-'',
      if perm AND permExec \<noteq> 0 then CHR ''x'' else CHR ''-'']"

definition parseID :: "string \<Rightarrow> err + 32 word" where
  "parseID raw = ParseUint32 raw"

text \<open>The second half of \<open>ParseTextEntry\<close>: role, qualifier and permission of the three fields.\<close>

definition entryFromFields :: "bool \<Rightarrow> string list \<Rightarrow> err + bool \<times> Entry" where
  "entryFromFields isDefault parts =
     (let role = ToLower (TrimSpace (parts ! 0)); qualifier = TrimSpace (parts ! 1) in
      bindE (parsePerm (TrimSpace (parts ! 2))) (\<lambda>perm.
        if role = ''u'' \<or> role = ''user'' then
          (if qualifier = []
           then Inr (isDefault, \<lparr>Tag = TagUserObj, Perm = perm, ID = UndefinedID\<rparr>)
           else bindE (wrapE ''invalid user qualifier'' (parseID qualifier)) (\<lambda>i.
             Inr (isDefault, \<lparr>Tag = TagUser, Perm = perm, ID = i\<rparr>)))
        else if role = ''g'' \<or> role = ''group'' then
          (if qualifier = []
           then Inr (isDefault, \<lparr>Tag = TagGroupObj, Perm = perm, ID = UndefinedID\<rparr>)
           else bindE (wrapE ''invalid group qualifier'' (parseID qualifier)) (\<lambda>i.
             Inr (isDefault, \<lparr>Tag = TagGroup, Perm = perm, ID = i\<rparr>)))
        else if role = ''m'' \<or> role = ''mask'' then
          (if qualifier \<noteq> [] then Err ''mask ACL entry must not define qualifier''
           else Inr (isDefault, \<lparr>Tag = TagMask, Perm = perm, ID = UndefinedID\<rparr>))
        else if role = ''o'' \<or> role = ''other'' then
          (if qualifier \<noteq> [] then Err ''other ACL entry must not define qualifier''
           else Inr (isDefault, \<lparr>Tag = TagOther, Perm = perm, ID = UndefinedID\<rparr>))
        else Err ''unsupported ACL entry role''))"

definition ParseTextEntry :: "string \<Rightarrow> err + bool \<times> Entry" where
  "ParseTextEntry rawEntry =
     (let trimmed = TrimSpace rawEntry in
      if trimmed = [] then Err ''empty ACL entry''
      else
        let (d1, trimmed) = (if HasPrefix trimmed ''d:''
              then (True, TrimSpace (drop 2 trimmed)) else (False, trimmed));
            (isDefault, trimmed) = (if HasPrefix trimmed ''default:''
              then (True, TrimSpace (drop 8 trimmed)) else (d1, trimmed));
            parts = Split (CHR '':'') trimmed
        in if length parts \<noteq> 3 then Err ''ACL entry must have 3 colon-separated fields''
           else entryFromFields isDefault parts)"

text \<open>A map from keys to entries, as the list of its bindings.\<close>

fun put_entry :: "(entryKey \<times> Entry) list \<Rightarrow> entryKey \<Rightarrow> Entry \<Rightarrow> (entryKey \<times> Entry) list" where
  "put_entry [] k e = [(k, e)]"
| "put_entry ((k', e') # m) k e = (if k' = k then (k, e) # m else (k', e') # put_entry m k e)"

definition entriesFromMap :: "(entryKey \<times> Entry) list \<Rightarrow> Entry list" where
  "entriesFromMap m = (if m = [] then [] else SortEntries (map snd m))"

fun parse_text_loop ::
  "string list \<Rightarrow> (entryKey \<times> Entry) list \<Rightarrow> (entryKey \<times> Entry) list
     \<Rightarrow> err + (entryKey \<times> Entry) list \<times> (entryKey \<times> Entry) list" where
  "parse_text_loop [] acc dfl = Inr (acc, dfl)"
| "parse_text_loop (raw # raws) acc dfl =
     bindE (ParseTextEntry raw) (\<lambda>(isDefault, e).
       if isDefault then parse_text_loop raws acc (put_entry dfl (entryKey e) e)
       else parse_text_loop raws (put_entry acc (entryKey e) e) dfl)"

definition ParseTextEntries :: "string list \<Rightarrow> err + Entry list \<times> Entry list" where
  "ParseTextEntries entries =
     (if entries = [] then Inr ([], [])
      else bindE (parse_text_loop entries [] []) (\<lambda>(accessSet, defaultSet).
        let access = entriesFromMap accessSet; defaults = entriesFromMap defaultSet in
        bindE (if access = [] then Inr () else wrapE ''access ACL invalid'' (Validate access)) (\<lambda>_.
        bindE (if defaults = [] then Inr () else wrapE ''default ACL invalid'' (Validate defaults)) (\<lambda>_.
        Inr (access, defaults)))))"

definition formatTextEntry :: "bool \<Rightarrow> Entry \<Rightarrow> string" where
  "formatTextEntry isDefault e =
     (let perm = formatPerm (Perm e);
          formatted =
            (if Tag e = TagUserObj then ''user::'' @ perm
             else if Tag e = TagUser then ''user:'' @ show_nat (unat (ID e)) @ '':'' @ perm
             else if Tag e = TagGroupObj then ''group::'' @ perm
             else if Tag e = TagGroup then ''group:'' @ show_nat (unat (ID e)) @ '':'' @ perm
             else if Tag e = TagMask then ''mask::'' @ perm
             else if Tag e = TagOther then ''other::'' @ perm
             else ''unknown:'' @ show_nat (unat (Tag e)) @ ''::'' @ perm)
      in if isDefault then ''default:'' @ formatted else formatted)"

definition FormatTextEntries :: "Entry list \<Rightarrow> Entry list \<Rightarrow> string list" where
  "FormatTextEntries access defaults =
     map (formatTextEntry False) (SortEntries access)
     @ map (formatTextEntry True) (SortEntries defaults)"

section \<open>What a valid ACL is\<close>

definition named_entry :: "Entry \<Rightarrow> bool" where
  "named_entry e \<longleftrightarrow> Tag e \<in> {TagUser, TagGroup}"

definition entry_ok :: "Entry \<Rightarrow> bool" where
  "entry_ok e \<longleftrightarrow> Perm e \<le> 7 \<and>
     (Tag e \<in> {TagUserObj, TagGroupObj, TagMask, TagOther} \<and> ID e = UndefinedID \<or>
      Tag e \<in> {TagUser, TagGroup} \<and> ID e \<noteq> UndefinedID)"

definition tag_count :: "16 word \<Rightarrow> Entry list \<Rightarrow> nat" where
  "tag_count t es = length (filter (\<lambda>e. Tag e = t) es)"

definition acl_ok :: "Entry list \<Rightarrow> bool" where
  "acl_ok es \<longleftrightarrow>
     (\<forall>e \<in> set es. entry_ok e) \<and> distinct (map entryKey es) \<and>
     tag_count TagUserObj es = 1 \<and> tag_count TagGroupObj es = 1 \<and> tag_count TagOther es = 1 \<and>
     tag_count TagMask es \<le> 1 \<and> ((\<exists>e \<in> set es. named_entry e) \<longrightarrow> tag_count TagMask es = 1)"

lemma tags_distinct [simp]:
  "TagUserObj \<noteq> TagUser" "TagUserObj \<noteq> TagGroupObj" "TagUserObj \<noteq> TagGroup"
  "TagUserObj \<noteq> TagMask" "TagUserObj \<noteq> TagOther" "TagUser \<noteq> TagGroupObj"
  "TagUser \<noteq> TagGroup" "TagUser \<noteq> TagMask" "TagUser \<noteq> TagOther"
  "TagGroupObj \<noteq> TagGroup" "TagGroupObj \<noteq> TagMask" "TagGroupObj \<noteq> TagOther"
  "TagGroup \<noteq> TagMask" "TagGroup \<noteq> TagOther" "TagMask \<noteq> TagOther"
  by (simp_all add: tag_defs)

lemmas tags_distinct_sym [simp] = tags_distinct [symmetric]

lemma check_tag_Inr:
  "Perm e \<le> 7 \<Longrightarrow> check_tag e h = Inr h' \<longleftrightarrow> entry_ok e \<and> h' = (h \<or> named_entry e)"
  by (auto simp: check_tag_def entry_ok_def named_entry_def)

lemma tag_count_simps [simp]:
  "tag_count t [] = 0"
  "tag_count t (e # es) = (if Tag e = t then Suc (tag_count t es) else tag_count t es)"
  by (simp_all add: tag_count_def)

lemma validate_loop_Inr:
  "validate_loop es c seen h = Inr (c', h') \<longleftrightarrow>
     (\<forall>e \<in> set es. entry_ok e) \<and> distinct (map entryKey es) \<and>
     entryKey ` set es \<inter> set seen = {} \<and> c' = (\<lambda>t. c t + tag_count t es) \<and>
     h' = (h \<or> (\<exists>e \<in> set es. named_entry e))"
proof (induction es arbitrary: c seen h)
  case Nil
  then show ?case by auto
next
  case (Cons e es)
  show ?case
  proof (cases "Perm e \<le> 7 \<and> entry_ok e \<and> entryKey e \<notin> set seen")
    case True
    have upd: "(\<lambda>t. (c(Tag e := c (Tag e) + 1)) t + tag_count t es) = (\<lambda>t. c t + tag_count t (e # es))"
      by (rule ext) simp
    have step: "validate_loop (e # es) c seen h =
        validate_loop es (c(Tag e := c (Tag e) + 1)) (entryKey e # seen) (h \<or> named_entry e)"
    proof -
      have "check_tag e h = Inr (h \<or> named_entry e)" using True by (simp add: check_tag_Inr)
      moreover have "\<not> 7 < Perm e" using True by (simp add: not_less)
      ultimately show ?thesis using True by simp
    qed
    show ?thesis
      unfolding step Cons.IH upd using True by auto
  next
    case False
    then show ?thesis by (auto simp: check_tag_Inr entry_ok_def not_less)
  qed
qed

lemma Validate_iff: "Validate es = Inr () \<longleftrightarrow> es = [] \<or> acl_ok es"
  by (auto simp: Validate_def acl_ok_def validate_loop_Inr split: if_splits)

lemma acl_ok_mset: "mset es = mset fs \<Longrightarrow> acl_ok es = acl_ok fs"
proof -
  assume m: "mset es = mset fs"
  then have "set es = set fs" by (rule mset_eq_setD)
  moreover have "tag_count t es = tag_count t fs" for t
    using m by (metis mset_filter size_mset tag_count_def)
  moreover have "distinct (map entryKey es) = distinct (map entryKey fs)"
    using m by (metis mset_eq_imp_distinct_iff mset_map)
  ultimately show ?thesis by (simp add: acl_ok_def)
qed

lemma mset_SortEntries [simp]: "mset (SortEntries es) = mset es"
  by (simp add: SortEntries_def)

lemma set_SortEntries [simp]: "set (SortEntries es) = set es"
  by (simp add: SortEntries_def)

lemma SortEntries_Nil_iff [simp]: "SortEntries es = [] \<longleftrightarrow> es = []"
  by (metis mset_SortEntries mset_zero_iff)

lemma acl_ok_SortEntries [simp]: "acl_ok (SortEntries es) = acl_ok es"
  by (rule acl_ok_mset) simp

text \<open>On entries with known tags the rank determines the entry, so the canonical order is unique.\<close>

lemma sortRank_inj: "entry_ok e \<Longrightarrow> entry_ok f \<Longrightarrow> sortRank e = sortRank f \<Longrightarrow> e = f"
  by (cases e; cases f) (auto simp: sortRank_def entry_ok_def tagSortRank_def split: if_splits)

lemma SortEntries_unique:
  assumes "mset es = mset fs" and "\<forall>e \<in> set es. entry_ok e"
  shows "SortEntries es = SortEntries fs"
proof -
  have "inj_on sortRank (set es)"
    using assms(2) sortRank_inj by (auto simp: inj_on_def)
  then show ?thesis
    unfolding SortEntries_def by (rule sort_key_inj_key_eq [rotated]) (simp_all add: assms(1))
qed

lemma SortEntries_idem: "SortEntries (SortEntries es) = SortEntries es"
  unfolding SortEntries_def by (rule sort_key_id_if_sorted) simp

section \<open>The binary codec\<close>

text \<open>The contract of a byte order: fixed widths, and each reader inverts its writer.\<close>

lemma encode_entry_make:
  "encode_entry put16 put32 \<lparr>Tag = t, Perm = p, ID = i\<rparr> = put16 t @ put16 p @ put32 i"
  by (simp add: encode_entry_def)

locale byte_order =
  fixes put16 :: "16 word \<Rightarrow> byte list"
    and get16 :: "byte list \<Rightarrow> 16 word"
    and put32 :: "32 word \<Rightarrow> byte list"
    and get32 :: "byte list \<Rightarrow> 32 word"
  assumes put16_length: "length (put16 w) = 2"
    and put32_length: "length (put32 v) = 4"
    and get_put16: "get16 (put16 w) = w"
    and get_put32: "get32 (put32 v) = v"
    and put_get16: "length bs = 2 \<Longrightarrow> put16 (get16 bs) = bs"
    and put_get32: "length bs = 4 \<Longrightarrow> put32 (get32 bs) = bs"
begin

lemma encode_entry_length: "length (encode_entry put16 put32 e) = 8"
  by (simp add: encode_entry_def put16_length put32_length)

lemma decode_encode:
  "drop off data = concat (map (encode_entry put16 put32) es) \<Longrightarrow>
     decode_entries get16 get32 data off (length es) = es"
proof (induction es arbitrary: off)
  case Nil
  then show ?case by simp
next
  case (Cons e es)
  let ?rest = "concat (map (encode_entry put16 put32) es)"
  have d: "drop off data = put16 (Tag e) @ put16 (Perm e) @ put32 (ID e) @ ?rest"
    using Cons.prems by (simp add: encode_entry_def [of put16 put32 e])
  have d2: "drop (off + 2) data = put16 (Perm e) @ put32 (ID e) @ ?rest"
    using d by (metis add.commute append_eq_conv_conj drop_drop put16_length)
  have d4: "drop (off + 4) data = put32 (ID e) @ ?rest"
  proof -
    have "off + 4 = 2 + (off + 2)" by simp
    then have "drop (off + 4) data = drop 2 (drop (off + 2) data)" by (simp only: drop_drop)
    also have "\<dots> = drop 2 (put16 (Perm e) @ put32 (ID e) @ ?rest)" by (simp only: d2)
    finally show ?thesis by (simp add: put16_length)
  qed
  have "drop (off + 8) data = drop 4 (drop (off + 4) data)" by (simp add: add.commute)
  then have "drop (off + 8) data = ?rest" using d4 by (simp add: put32_length)
  then have "decode_entries get16 get32 data (off + 8) (length es) = es" by (rule Cons.IH)
  then show ?case
    by (simp add: d d2 d4 put16_length put32_length get_put16 get_put32 del: add_2_eq_Suc')
qed

lemma encode_decode:
  "length data = off + 8 * n \<Longrightarrow>
     concat (map (encode_entry put16 put32) (decode_entries get16 get32 data off n)) = drop off data"
proof (induction n arbitrary: off)
  case 0
  then show ?case by simp
next
  case (Suc n)
  have rest: "concat (map (encode_entry put16 put32) (decode_entries get16 get32 data (off + 8) n))
      = drop (off + 8) data"
    by (rule Suc.IH) (use Suc.prems in simp)
  have split3: "drop off data = take 2 (drop off data) @ take 2 (drop (off + 2) data)
      @ take 4 (drop (off + 4) data) @ drop (off + 8) data"
  proof -
    have "drop off data = take 2 (drop off data) @ drop (off + 2) data"
      by (metis add.commute append_take_drop_id drop_drop)
    moreover have "drop (off + 2) data = take 2 (drop (off + 2) data) @ drop (off + 4) data"
      by (metis (no_types, lifting) add.commute add.left_commute append_take_drop_id drop_drop
          numeral_Bit0)
    moreover have "drop (off + 4) data = take 4 (drop (off + 4) data) @ drop (off + 8) data"
      by (metis (no_types, lifting) add.commute add.left_commute append_take_drop_id drop_drop
          numeral_Bit0)
    ultimately show ?thesis by metis
  qed
  have "put16 (get16 (take 2 (drop off data))) = take 2 (drop off data)"
    "put16 (get16 (take 2 (drop (off + 2) data))) = take 2 (drop (off + 2) data)"
    "put32 (get32 (take 4 (drop (off + 4) data))) = take 4 (drop (off + 4) data)"
    using Suc.prems by (auto intro!: put_get16 put_get32)
  then show ?case using split3 rest by (simp add: encode_entry_make)
qed

end

lemma list_length2: "length bs = 2 \<longleftrightarrow> (\<exists>a b. bs = [a, b])"
  by (auto simp: length_Suc_conv numeral_2_eq_2)

lemma list_length4: "length bs = 4 \<longleftrightarrow> (\<exists>a b c d. bs = [a, b, c, d])"
  by (auto simp: length_Suc_conv eval_nat_numeral)

interpretation native: byte_order "PutUint16 en" "Uint16 en" "PutUint32 en" "Uint32 en" for en
proof
  show "length (PutUint16 en w) = 2" for w
    by (simp add: PutUint16_def in_order_def split: endian.split)
  show "length (PutUint32 en v) = 4" for v
    by (simp add: PutUint32_def in_order_def split: endian.split)
  have 16: "ucast (ucast w :: byte) OR push_bit 8 (ucast (ucast (drop_bit 8 w) :: byte)) = w"
    for w :: "16 word"
    by (rule bit_word_eqI) (auto simp: bit_simps)
  then show "Uint16 en (PutUint16 en w) = w" for w
    by (cases en) (simp_all add: Uint16_def PutUint16_def in_order_def)
  have 32: "ucast (ucast v :: byte) OR push_bit 8 (ucast (ucast (drop_bit 8 v) :: byte))
      OR push_bit 16 (ucast (ucast (drop_bit 16 v) :: byte))
      OR push_bit 24 (ucast (ucast (drop_bit 24 v) :: byte)) = v" (is "?w = v") for v :: "32 word"
  proof (rule bit_word_eqI)
    fix n assume "n < LENGTH(32)"
    then consider "n < 8" | "8 \<le> n" "n < 16" | "16 \<le> n" "n < 24" | "24 \<le> n" "n < 32" by force
    then show "bit ?w n \<longleftrightarrow> bit v n" by cases (auto simp: bit_simps)
  qed
  then show "Uint32 en (PutUint32 en v) = v" for v
    by (cases en) (simp_all add: Uint32_def PutUint32_def in_order_def)
  have 2: "ucast (ucast a OR push_bit 8 (ucast b) :: 16 word) = a"
    "ucast (drop_bit 8 (ucast a OR push_bit 8 (ucast b) :: 16 word)) = b" for a b :: byte
    by (rule bit_word_eqI; auto simp: bit_simps dest: bit_imp_le_length)+
  show "length bs = 2 \<Longrightarrow> PutUint16 en (Uint16 en bs) = bs" for bs
    by (cases en) (auto simp: list_length2 Uint16_def PutUint16_def in_order_def 2 simp del: drop_bit_or)
  let ?v = "\<lambda>a b c d. ucast (a :: byte) OR push_bit 8 (ucast (b :: byte))
      OR push_bit 16 (ucast (c :: byte)) OR push_bit 24 (ucast (d :: byte)) :: 32 word"
  have 4: "ucast (?v a b c d) = a" "ucast (drop_bit 8 (?v a b c d)) = b"
    "ucast (drop_bit 16 (?v a b c d)) = c" "ucast (drop_bit 24 (?v a b c d)) = d" for a b c d
    by (rule bit_word_eqI; auto simp: bit_simps dest: bit_imp_le_length)+
  show "length bs = 4 \<Longrightarrow> PutUint32 en (Uint32 en bs) = bs" for bs
    by (cases en) (auto simp: list_length4 Uint32_def PutUint32_def in_order_def 4 simp del: drop_bit_or)
qed

section \<open>The text codec\<close>

lemma perm_cases:
  assumes "(p :: 16 word) \<le> 7"
  shows "p \<in> {0, 1, 2, 3, 4, 5, 6, 7}"
proof -
  obtain n where n: "n \<le> 7" and p: "p = word_of_nat n"
  proof
    show "unat p \<le> 7" using assms by (simp add: word_le_nat_alt)
  qed simp
  from n have "n \<in> {0, 1, 2, 3, 4, 5, 6, 7}" by auto
  with p show ?thesis by auto
qed

lemma parse_format_perm: "p \<le> 7 \<Longrightarrow> parsePerm (formatPerm p) = Inr p"
  by (drule perm_cases)
    (auto simp: parsePerm_def formatPerm_def permRead_def permWrite_def permExec_def)

lemma formatPerm_chars:
  "formatPerm p \<noteq> []" "hd (formatPerm p) \<in> {CHR ''r'', CHR ''-''}"
  "last (formatPerm p) \<in> {CHR ''x'', CHR ''-''}" "CHR '':'' \<notin> set (formatPerm p)"
  by (simp_all add: formatPerm_def)

lemma TrimSpace_formatPerm [simp]: "TrimSpace (formatPerm p) = formatPerm p"
  by (rule TrimSpace_id) (auto simp: formatPerm_def space_first_def space_last_def)

lemma Split_formatPerm [simp]: "Split (CHR '':'') (formatPerm p) = [formatPerm p]"
  by (rule Split_no_sep) (rule formatPerm_chars)

lemma show_nat_chars: "c \<in> set (show_nat n) \<Longrightarrow> is_digit c"
  using show_nat_digits [of n] by (auto simp: list_all_iff)

lemma TrimSpace_show_nat [simp]: "TrimSpace (show_nat n) = show_nat n"
  by (rule TrimSpace_id) (meson show_nat_nonempty show_nat_chars is_digit_not_space hd_in_set last_in_set)+

lemma Split_show_nat [simp]:
  "Split (CHR '':'') (show_nat n @ CHR '':'' # s) = show_nat n # Split (CHR '':'') s"
  by (rule Split_append_sep) (use show_nat_chars is_digit_ne in blast)

text \<open>The three fields of a formatted entry, and that nothing is trimmed from it.\<close>

definition role_name :: "16 word \<Rightarrow> string" where
  "role_name t =
     (if t \<in> {TagUserObj, TagUser} then ''user'' else if t \<in> {TagGroupObj, TagGroup} then ''group''
      else if t = TagMask then ''mask'' else ''other'')"

definition qualifier_text :: "Entry \<Rightarrow> string" where
  "qualifier_text e = (if named_entry e then show_nat (unat (ID e)) else [])"

lemma formatTextEntry_False:
  "entry_ok e \<Longrightarrow> formatTextEntry False e =
     role_name (Tag e) @ '':'' @ qualifier_text e @ '':'' @ formatPerm (Perm e)"
  by (auto simp: entry_ok_def formatTextEntry_def role_name_def qualifier_text_def named_entry_def)

lemma formatTextEntry_True: "formatTextEntry True e = ''default:'' @ formatTextEntry False e"
  by (simp add: formatTextEntry_def Let_def)

lemma role_name_cases: "role_name t \<in> {''user'', ''group'', ''mask'', ''other''}"
  by (simp add: role_name_def)

lemma Split_role: "Split (CHR '':'') (role_name t @ CHR '':'' # s) = role_name t # Split (CHR '':'') s"
  by (rule Split_append_sep) (use role_name_cases [of t] in auto)

lemma Split_format:
  "entry_ok e \<Longrightarrow> Split (CHR '':'') (formatTextEntry False e) =
     [role_name (Tag e), qualifier_text e, formatPerm (Perm e)]"
  by (simp add: formatTextEntry_False Split_role qualifier_text_def)

lemma format_not_trimmed:
  assumes "entry_ok e"
  shows "TrimSpace (formatTextEntry d e) = formatTextEntry d e"
proof (rule TrimSpace_id)
  have f: "formatTextEntry d e = (if d then ''default:'' else []) @ formatTextEntry False e"
    by (simp add: formatTextEntry_True)
  show "formatTextEntry d e \<noteq> []" by (simp add: f formatTextEntry_False [OF assms])
  show "hd (formatTextEntry d e) \<notin> space_first"
    using role_name_cases [of "Tag e"]
    by (auto simp: f formatTextEntry_False [OF assms] space_first_def)
  have "last (formatTextEntry d e) = last (formatPerm (Perm e))"
    using formatPerm_chars(1) by (simp add: f formatTextEntry_False [OF assms])
  then show "last (formatTextEntry d e) \<notin> space_last"
    using formatPerm_chars(3) [of "Perm e"] by (auto simp: space_last_def)
qed

lemma lower_names:
  "ToLower (TrimSpace ''user'') = ''user''" "ToLower (TrimSpace ''group'') = ''group''"
  "ToLower (TrimSpace ''mask'') = ''mask''" "ToLower (TrimSpace ''other'') = ''other''"
proof -
  have "TrimSpace ''user'' = ''user''" "TrimSpace ''group'' = ''group''"
    "TrimSpace ''mask'' = ''mask''" "TrimSpace ''other'' = ''other''"
    by (rule TrimSpace_id; simp add: space_first_def space_last_def)+
  then show "ToLower (TrimSpace ''user'') = ''user''" "ToLower (TrimSpace ''group'') = ''group''"
    "ToLower (TrimSpace ''mask'') = ''mask''" "ToLower (TrimSpace ''other'') = ''other''"
    by (simp_all add: lower_byte_def less_eq_char_def)
qed

lemma parseID_show: "parseID (show_nat (unat (w :: 32 word))) = Inr w"
proof -
  have "unat w < 2 ^ 32" by (rule order_less_le_trans [OF unsigned_less]) simp
  then show ?thesis by (simp add: parseID_def)
qed

lemma entryFromFields_format:
  assumes ok: "entry_ok e"
  shows "entryFromFields d [role_name (Tag e), qualifier_text e, formatPerm (Perm e)] = Inr (d, e)"
proof -
  have p: "parsePerm (formatPerm (Perm e)) = Inr (Perm e)"
    using ok by (intro parse_format_perm) (simp add: entry_ok_def)
  have e: "e = \<lparr>Tag = Tag e, Perm = Perm e, ID = ID e\<rparr>" by simp
  consider "Tag e = TagUserObj" | "Tag e = TagUser" | "Tag e = TagGroupObj" | "Tag e = TagGroup"
    | "Tag e = TagMask" | "Tag e = TagOther"
    using ok by (auto simp: entry_ok_def)
  then show ?thesis
    using ok by cases (subst e, simp add: entryFromFields_def Let_def role_name_def lower_names p
        entry_ok_def qualifier_text_def named_entry_def parseID_show)+
qed

lemma parse_format_entry:
  assumes "entry_ok e"
  shows "ParseTextEntry (formatTextEntry d e) = Inr (d, e)"
proof -
  let ?f = "formatTextEntry False e"
  have nd: "\<not> HasPrefix ?f ''d:''" "\<not> HasPrefix ?f ''default:''"
    using role_name_cases [of "Tag e"] by (auto simp: formatTextEntry_False [OF assms])
  have tF: "TrimSpace ?f = ?f" by (rule format_not_trimmed [OF assms])
  have tT: "TrimSpace (''default:'' @ ?f) = ''default:'' @ ?f"
    using format_not_trimmed [OF assms, of True] by (simp only: formatTextEntry_True)
  have neF: "?f \<noteq> []" by (simp add: formatTextEntry_False [OF assms])
  note split = Split_format [OF assms] entryFromFields_format [OF assms]
  show ?thesis
  proof (cases d)
    case False
    then show ?thesis by (simp add: ParseTextEntry_def tF neF nd split)
  next
    case True
    then show ?thesis using tT
      by (simp add: ParseTextEntry_def formatTextEntry_True tF split)
  qed
qed

lemma put_entry_new: "k \<notin> fst ` set m \<Longrightarrow> put_entry m k e = m @ [(k, e)]"
  by (induction m k e rule: put_entry.induct) auto

lemma parse_text_loop_append:
  assumes "\<forall>e \<in> set es. entry_ok e" and "distinct (map entryKey es)"
    and "entryKey ` set es \<inter> fst ` set (if d then dfl else acc) = {}"
  shows "parse_text_loop (map (formatTextEntry d) es @ raws) acc dfl =
     parse_text_loop raws (if d then acc else acc @ map (\<lambda>e. (entryKey e, e)) es)
       (if d then dfl @ map (\<lambda>e. (entryKey e, e)) es else dfl)"
  using assms
proof (induction es arbitrary: acc dfl)
  case Nil
  then show ?case by simp
next
  case (Cons e es)
  have p: "ParseTextEntry (formatTextEntry d e) = Inr (d, e)"
    using Cons.prems by (intro parse_format_entry) simp
  show ?case
  proof (cases d)
    case True
    have "entryKey e \<notin> fst ` set dfl" using Cons.prems True by auto
    with Cons.prems Cons.IH [of "dfl @ [(entryKey e, e)]" acc] True p show ?thesis
      by (simp add: put_entry_new)
  next
    case False
    have "entryKey e \<notin> fst ` set acc" using Cons.prems False by auto
    with Cons.prems Cons.IH [of dfl "acc @ [(entryKey e, e)]"] False p show ?thesis
      by (simp add: put_entry_new)
  qed
qed

lemma SortEntries_Nil [simp]: "SortEntries [] = []"
  by (simp add: SortEntries_def)

lemma entriesFromMap_keyed:
  "entriesFromMap (map (\<lambda>e. (entryKey e, e)) (SortEntries es)) = SortEntries es"
  by (simp add: entriesFromMap_def comp_def SortEntries_idem)

lemma acl_ok_not_Nil: "acl_ok es \<Longrightarrow> es \<noteq> []"
  by (auto simp: acl_ok_def)

lemma Marshal_Parse_lemma:
  assumes "Marshal en es = Inr data"
  shows "Parse en data = Inr (SortEntries es)"
proof (cases "es = []")
  case True
  with assms show ?thesis by (simp add: Marshal_def Parse_def)
next
  case False
  let ?s = "SortEntries es"
  let ?enc = "concat (map (encode_entry (PutUint16 en) (PutUint32 en)) ?s)"
  from assms False have data: "data = PutUint32 en xattrVersion @ ?enc" and ok: "Validate ?s = Inr ()"
    by (auto simp: Marshal_def Let_def)
  have len: "length ?enc = 8 * length ?s"
    by (induction ?s) (simp_all add: length_concat comp_def native.encode_entry_length sum_list_triv)
  have "drop 4 data = ?enc" by (simp add: data native.put32_length)
  then have "decode_entries (Uint16 en) (Uint32 en) data 4 (length ?s) = ?s"
    by (rule native.decode_encode)
  moreover have "take 4 data = PutUint32 en xattrVersion" by (simp add: data native.put32_length)
  moreover have "length data = 4 + 8 * length ?s" by (simp add: data native.put32_length len)
  moreover have "data \<noteq> []" using calculation(3) by auto
  ultimately show ?thesis
    by (simp add: Parse_def native.get_put32 SortEntries_idem ok)
qed

section \<open>Properties\<close>

text \<open>
  \<open>Validate\<close> accepts exactly the empty list and the well-formed POSIX ACLs: every entry
  has permission bits \<open>rwx\<close> only and a qualifier exactly when its tag is named, no
  (tag, qualifier) pair occurs twice, there is one owner, one group and one other entry,
  at most one mask, and a mask whenever a named entry occurs.
\<close>

theorem Validate_spec: "Validate es = Inr () \<longleftrightarrow> es = [] \<or> acl_ok es"
  by (rule Validate_iff)

text \<open>
  C9: The binary codec round-trips in either byte order: what \<open>Marshal\<close> writes, \<open>Parse\<close>
  accepts and reads back as the same entries in canonical order.
\<close>

theorem Marshal_Parse_roundtrip:
  "Marshal en es = Inr data \<Longrightarrow> Parse en data = Inr (SortEntries es)"
  by (rule Marshal_Parse_lemma)

definition sample_acl :: "Entry list" where
  "sample_acl =
     [\<lparr>Tag = TagUser, Perm = 5, ID = 1000\<rparr>, \<lparr>Tag = TagUserObj, Perm = 6, ID = UndefinedID\<rparr>,
      \<lparr>Tag = TagMask, Perm = 7, ID = UndefinedID\<rparr>, \<lparr>Tag = TagOther, Perm = 0, ID = UndefinedID\<rparr>,
      \<lparr>Tag = TagGroupObj, Perm = 4, ID = UndefinedID\<rparr>]"

lemma sample_acl_ok: "acl_ok sample_acl"
  by (simp add: acl_ok_def sample_acl_def entry_ok_def entryKey_def UndefinedID_def)

lemma Marshal_ok: "acl_ok es \<Longrightarrow> \<exists>data. Marshal en es = Inr data"
  using acl_ok_not_Nil by (auto simp: Marshal_def Let_def Validate_iff)

theorem Marshal_Parse_roundtrip_witness:
  "\<exists>data. Marshal BigEndian sample_acl = Inr data \<and> Parse BigEndian data = Inr (SortEntries sample_acl)"
proof -
  obtain data where "Marshal BigEndian sample_acl = Inr data"
    using Marshal_ok [OF sample_acl_ok] by blast
  then show ?thesis using Marshal_Parse_roundtrip by blast
qed

text \<open>
  The binary form is canonical: the order in which a caller lists the entries of an ACL
  does not show in the payload.
\<close>

theorem Marshal_order_independent:
  assumes "Marshal en es = Inr data" and "mset fs = mset es"
  shows "Marshal en fs = Inr data"
proof (cases "es = []")
  case True
  with assms show ?thesis by simp
next
  case False
  with assms(1) have "acl_ok es" by (auto simp: Marshal_def Let_def Validate_iff)
  then have "SortEntries fs = SortEntries es"
    using assms(2) by (intro SortEntries_unique) (auto simp: acl_ok_def dest: mset_eq_setD)
  moreover have "fs \<noteq> []" using False assms(2) by auto
  ultimately show ?thesis using assms(1) False by (simp add: Marshal_def)
qed

theorem Marshal_order_independent_witness:
  "\<exists>data. Marshal LittleEndian sample_acl = Inr data \<and> Marshal LittleEndian (rev sample_acl) = Inr data"
proof -
  obtain data where "Marshal LittleEndian sample_acl = Inr data"
    using Marshal_ok [OF sample_acl_ok] by blast
  then show ?thesis using Marshal_order_independent [of LittleEndian sample_acl data "rev sample_acl"] by auto
qed

text \<open>
  What \<open>Parse\<close> accepts is valid and loses nothing: the result is in canonical order and
  satisfies the ACL invariants, and a payload whose records are already in canonical order is
  reproduced byte for byte by \<open>Marshal\<close>.
\<close>

theorem Parse_sound:
  assumes "Parse en data = Inr es" and "4 < length data"
  shows "acl_ok es \<and> SortEntries es = es \<and>
    (es = decode_entries (Uint16 en) (Uint32 en) data 4 ((length data - 4) div 8)
       \<longrightarrow> Marshal en es = Inr data)"
proof -
  let ?n = "(length data - 4) div 8"
  let ?d = "decode_entries (Uint16 en) (Uint32 en) data 4 ?n"
  from assms have m8: "(length data - 4) mod 8 = 0" and v: "Uint32 en (take 4 data) = xattrVersion"
    and es: "es = SortEntries ?d" and ok: "Validate es = Inr ()"
    by (auto simp: Parse_def Let_def split: if_splits)
  have len: "length data = 4 + 8 * ?n" using m8 assms(2) by presburger
  then have "?n \<noteq> 0" using assms(2) by linarith
  then have "?d \<noteq> []" by (cases ?n) simp_all
  then have ne: "es \<noteq> []" by (simp add: es)
  then have acl: "acl_ok es" using ok by (simp add: Validate_iff)
  have sorted: "SortEntries es = es" by (simp add: es SortEntries_idem)
  have "Marshal en es = Inr data" if "es = ?d"
  proof -
    have "concat (map (encode_entry (PutUint16 en) (PutUint32 en)) ?d) = drop 4 data"
      using len by (rule native.encode_decode)
    moreover have "PutUint32 en xattrVersion = take 4 data"
      using v assms(2) native.put_get32 [of "take 4 data" en] by simp
    ultimately have "data = PutUint32 en xattrVersion
        @ concat (map (encode_entry (PutUint16 en) (PutUint32 en)) es)"
      by (metis append_take_drop_id that)
    then show ?thesis using ne ok by (simp add: Marshal_def sorted)
  qed
  then show ?thesis using acl sorted by blast
qed

lemma Marshal_length: "Marshal en es = Inr data \<Longrightarrow> es \<noteq> [] \<Longrightarrow> 4 < length data"
  by (cases "SortEntries es")
    (auto simp: Marshal_def Let_def native.put32_length native.encode_entry_length)

theorem Parse_sound_witness:
  "\<exists>data es. Parse LittleEndian data = Inr es \<and> 4 < length data \<and> acl_ok es"
proof -
  obtain data where m: "Marshal LittleEndian sample_acl = Inr data"
    using Marshal_ok [OF sample_acl_ok] by blast
  then have p: "Parse LittleEndian data = Inr (SortEntries sample_acl)"
    by (rule Marshal_Parse_lemma)
  have l: "4 < length data" using Marshal_length [OF m] acl_ok_not_Nil [OF sample_acl_ok] by blast
  show ?thesis using Parse_sound [OF p l] p l by blast
qed

text \<open>
  C10: The textual form round-trips: parsing the canonical text of a valid access ACL and a
  valid (or absent) default ACL gives both back in canonical order.
\<close>

theorem Text_roundtrip:
  assumes "acl_ok access" and "defaults = [] \<or> acl_ok defaults"
  shows "ParseTextEntries (FormatTextEntries access defaults) =
     Inr (SortEntries access, SortEntries defaults)"
proof -
  let ?a = "SortEntries access" and ?d = "SortEntries defaults"
  let ?m = "map (\<lambda>e. (entryKey e, e))"
  have a: "acl_ok ?a" using assms(1) by simp
  have d: "?d = [] \<or> acl_ok ?d" using assms(2) by auto
  have "parse_text_loop (map (formatTextEntry False) ?a @ map (formatTextEntry True) ?d) [] [] =
      parse_text_loop (map (formatTextEntry True) ?d) (?m ?a) []"
    using parse_text_loop_append [of ?a False "[]" "[]"] a by (simp add: acl_ok_def)
  also have "\<dots> = Inr (?m ?a, ?m ?d)"
    using parse_text_loop_append [of ?d True "[]" "?m ?a" "[]"] d by (auto simp: acl_ok_def)
  finally have loop: "parse_text_loop (FormatTextEntries access defaults) [] [] = Inr (?m ?a, ?m ?d)"
    by (simp add: FormatTextEntries_def)
  have "FormatTextEntries access defaults \<noteq> []"
    using acl_ok_not_Nil [OF assms(1)] by (simp add: FormatTextEntries_def)
  moreover have "Validate ?a = Inr ()" using a by (simp add: Validate_iff)
  moreover have "Validate ?d = Inr ()" using d by (auto simp: Validate_iff)
  ultimately show ?thesis
    by (simp add: ParseTextEntries_def loop entriesFromMap_keyed Let_def)
qed

theorem Text_roundtrip_witness:
  "ParseTextEntries (FormatTextEntries sample_acl sample_acl) =
     Inr (SortEntries sample_acl, SortEntries sample_acl)"
  by (rule Text_roundtrip) (simp_all add: sample_acl_ok)

end
