(* ===== verification/Acl_Resolve.thy ===== *)
theory Acl_Resolve
  imports Acl_Xattr
begin

text \<open>
  The resolution of textual ACL entries against the mode bits of a path
  (\<^verbatim>\<open>metadata_linux.go\<close>, \<open>resolveACLEntries\<close> and its helpers): the base entries come from
  the mode, the text entries override them by (tag, qualifier), and a mask is derived when
  a named entry occurs without one. A Go map is the list of its bindings
  (\<open>put_entry\<close> of the package \<^verbatim>\<open>aclxattr\<close>).
\<close>

section \<open>Definitions\<close>

type_synonym aclMap = "(entryKey \<times> Entry) list"

definition newACLBaseMap :: "32 word \<Rightarrow> aclMap" where
  "newACLBaseMap mode = foldl (\<lambda>m e. put_entry m (entryKey e) e) [] (AccessEntriesFromMode mode)"

definition hasNamedACLEntries :: "Entry list \<Rightarrow> bool" where
  "hasNamedACLEntries es = list_ex (\<lambda>e. Tag e = TagUser \<or> Tag e = TagGroup) es"

definition hasMaskACLEntry :: "Entry list \<Rightarrow> bool" where
  "hasMaskACLEntry es = list_ex (\<lambda>e. Tag e = TagMask) es"

definition deriveACLMask :: "Entry list \<Rightarrow> Entry" where
  "deriveACLMask es =
     \<lparr>Tag = TagMask,
      Perm = foldl (\<lambda>p e. if Tag e \<in> {TagGroupObj, TagUser, TagGroup} then p OR Perm e else p) 0 es,
      ID = UndefinedID\<rparr>"

definition canonicalizeACLEntries :: "aclMap \<Rightarrow> Entry list" where
  "canonicalizeACLEntries raw =
     (let entries = map snd raw in
      if hasNamedACLEntries entries \<and> \<not> hasMaskACLEntry entries
      then let mask = deriveACLMask entries in
        SortEntries (map snd (put_entry raw (entryKey mask) mask))
      else SortEntries entries)"

definition validateACLEntries :: "Entry list \<Rightarrow> err + unit" where
  "validateACLEntries es =
     (case Validate es of Inl e \<Rightarrow> FailW ''ACL entries'' ErrACLInvalidEntry | Inr u \<Rightarrow> Inr ())"

fun resolve_loop ::
  "32 word \<Rightarrow> string list \<Rightarrow> aclMap \<Rightarrow> aclMap option \<Rightarrow> err + aclMap \<times> aclMap option" where
  "resolve_loop mode [] acc dfl = Inr (acc, dfl)"
| "resolve_loop mode (raw # raws) acc dfl =
     (case ParseTextEntry raw of
        Inl e \<Rightarrow> FailW ''at index'' ErrACLInvalidEntry
      | Inr (isDefault, entry) \<Rightarrow>
          if isDefault then
            let d = (case dfl of None \<Rightarrow> newACLBaseMap mode | Some d \<Rightarrow> d) in
            resolve_loop mode raws acc (Some (put_entry d (entryKey entry) entry))
          else resolve_loop mode raws (put_entry acc (entryKey entry) entry) dfl)"

definition resolveACLEntries :: "32 word \<Rightarrow> string list \<Rightarrow> err + Entry list \<times> Entry list" where
  "resolveACLEntries mode rawEntries =
     (if rawEntries = [] then Inr ([], [])
      else bindE (resolve_loop mode rawEntries (newACLBaseMap mode) None) (\<lambda>(accessMap, defaultMap).
        let accessEntries = canonicalizeACLEntries accessMap in
        bindE (validateACLEntries accessEntries) (\<lambda>_.
        case defaultMap of
          None \<Rightarrow> Inr (accessEntries, [])
        | Some dm \<Rightarrow>
            let defaultEntries = canonicalizeACLEntries dm in
            bindE (validateACLEntries defaultEntries) (\<lambda>_. Inr (accessEntries, defaultEntries)))))"

section \<open>The maps\<close>

definition key_ok :: "entryKey \<Rightarrow> bool" where
  "key_ok k \<longleftrightarrow>
     (fst k \<in> {TagUserObj, TagGroupObj, TagMask, TagOther} \<and> snd k = UndefinedID \<or>
      fst k \<in> {TagUser, TagGroup} \<and> snd k \<noteq> UndefinedID)"

definition base_keys :: "entryKey set" where
  "base_keys = {(TagUserObj, UndefinedID), (TagGroupObj, UndefinedID), (TagOther, UndefinedID)}"

definition map_inv :: "aclMap \<Rightarrow> bool" where
  "map_inv m \<longleftrightarrow> distinct (map fst m) \<and> (\<forall>x \<in> set m. fst x = entryKey (snd x) \<and> Perm (snd x) \<le> 7) \<and>
     base_keys \<subseteq> fst ` set m"

lemma entry_ok_key: "entry_ok e \<longleftrightarrow> Perm e \<le> 7 \<and> key_ok (entryKey e)"
  by (simp add: entry_ok_def key_ok_def entryKey_def)

lemma fst_put_entry: "fst ` set (put_entry m k e) = insert k (fst ` set m)"
  by (induction m k e rule: put_entry.induct) auto

lemma distinct_put_entry: "distinct (map fst m) \<Longrightarrow> distinct (map fst (put_entry m k e))"
proof (induction m k e rule: put_entry.induct)
  case (2 k' e' m k e)
  show ?case
  proof (cases "k' = k")
    case False
    moreover have "k' \<notin> fst ` set (put_entry m k e)"
      using 2(2) False by (simp add: fst_put_entry)
    ultimately show ?thesis using 2 by simp
  qed (use 2 in simp)
qed simp

lemma set_put_entry_subset: "set (put_entry m k e) \<subseteq> insert (k, e) (set m)"
  by (induction m k e rule: put_entry.induct) auto

lemma put_entry_inv:
  assumes "map_inv m" and "Perm e \<le> 7"
  shows "map_inv (put_entry m (entryKey e) e)"
  unfolding map_inv_def
proof (intro conjI ballI)
  show "distinct (map fst (put_entry m (entryKey e) e))"
    using assms by (simp add: map_inv_def distinct_put_entry)
next
  fix x
  assume "x \<in> set (put_entry m (entryKey e) e)"
  then have "x = (entryKey e, e) \<or> x \<in> set m" using set_put_entry_subset by fastforce
  then show "fst x = entryKey (snd x)" "Perm (snd x) \<le> 7"
    using assms by (auto simp: map_inv_def)
next
  have "base_keys \<subseteq> fst ` set m" using assms(1) unfolding map_inv_def by blast
  then show "base_keys \<subseteq> fst ` set (put_entry m (entryKey e) e)"
    unfolding fst_put_entry by blast
qed

lemma perm_mask: "ucast ((w :: 32 word) AND 7) \<le> (7 :: 16 word)"
proof -
  have "(ucast (w AND 7) :: 16 word) = ucast w AND 7"
    by (rule bit_word_eqI) (auto simp: bit_simps)
  then show ?thesis by (simp add: word_and_le1)
qed

lemma base_map_inv: "map_inv (newACLBaseMap mode)"
  by (simp add: newACLBaseMap_def AccessEntriesFromMode_def entryKey_def map_inv_def base_keys_def
      perm_mask)

lemma base_map_keys: "fst ` set (newACLBaseMap mode) = base_keys"
  by (simp add: newACLBaseMap_def AccessEntriesFromMode_def entryKey_def base_keys_def insert_commute)

lemma base_keys_ok: "k \<in> base_keys \<Longrightarrow> key_ok k"
  by (auto simp: base_keys_def key_ok_def)

lemma parsePerm_le: "parsePerm s = Inr p \<Longrightarrow> p \<le> 7"
  by (auto simp: parsePerm_def permRead_def permWrite_def permExec_def split: if_splits)

lemma entryFromFields_perm: "entryFromFields d parts = Inr (d', e) \<Longrightarrow> Perm e \<le> 7"
  by (auto simp: entryFromFields_def Let_def dest: parsePerm_le split: if_splits)

lemma ParseTextEntry_perm: "ParseTextEntry raw = Inr (d, e) \<Longrightarrow> Perm e \<le> 7"
  by (auto simp: ParseTextEntry_def Let_def dest: entryFromFields_perm split: if_splits)

section \<open>Canonical lists are valid exactly when the keys are\<close>

lemma map_inv_keys: "map_inv m \<Longrightarrow> map entryKey (map snd m) = map fst m"
  by (simp add: map_inv_def)

lemma map_inv_key_set: "map_inv m \<Longrightarrow> entryKey ` snd ` set m = fst ` set m"
  unfolding map_inv_def image_image by (rule image_cong) simp_all

lemma map_inv_entries_ok:
  assumes "map_inv m"
  shows "(\<forall>e \<in> snd ` set m. entry_ok e) \<longleftrightarrow> (\<forall>k \<in> fst ` set m. key_ok k)"
proof -
  have "entry_ok (snd x) \<longleftrightarrow> key_ok (fst x)" if "x \<in> set m" for x
    using assms that by (simp add: map_inv_def entry_ok_key)
  then show ?thesis by simp
qed

lemma entry_ok_unique_key:
  "entry_ok e \<Longrightarrow> t \<in> {TagUserObj, TagGroupObj, TagMask, TagOther} \<Longrightarrow>
     Tag e = t \<longleftrightarrow> entryKey e = (t, UndefinedID)"
  by (auto simp: entry_ok_def entryKey_def)

lemma tag_count_le1:
  assumes "t \<in> {TagUserObj, TagGroupObj, TagMask, TagOther}"
  shows "\<forall>e \<in> set es. entry_ok e \<Longrightarrow> distinct (map entryKey es) \<Longrightarrow>
     tag_count t es = (if (t, UndefinedID) \<in> entryKey ` set es then 1 else 0)"
proof (induction es)
  case Nil
  then show ?case by (simp add: tag_count_def)
next
  case (Cons e es)
  have "Tag e = t \<longleftrightarrow> entryKey e = (t, UndefinedID)"
    using entry_ok_unique_key [OF _ assms, of e] Cons.prems by simp
  moreover have "entryKey e \<notin> entryKey ` set es" using Cons.prems by simp
  moreover have "tag_count t es = (if (t, UndefinedID) \<in> entryKey ` set es then 1 else 0)"
    using Cons by simp
  ultimately show ?case by (auto simp: tag_count_def split: if_splits)
qed

lemma acl_ok_map:
  assumes "map_inv m" and "\<forall>k \<in> fst ` set m. key_ok k"
    and "hasNamedACLEntries (map snd m) \<longrightarrow> hasMaskACLEntry (map snd m)"
  shows "acl_ok (map snd m)"
proof -
  let ?es = "map snd m"
  have ok: "\<forall>e \<in> set ?es. entry_ok e" using map_inv_entries_ok [OF assms(1)] assms(2) by simp
  have d: "distinct (map entryKey ?es)"
    unfolding map_inv_keys [OF assms(1)] using assms(1) by (simp add: map_inv_def)
  have base: "(t, UndefinedID) \<in> entryKey ` set ?es" if "(t, UndefinedID) \<in> base_keys" for t
    using assms(1) that map_inv_key_set [OF assms(1)] by (auto simp: map_inv_def)
  note count = tag_count_le1 [OF _ ok d]
  have counts: "tag_count TagUserObj ?es = 1" "tag_count TagGroupObj ?es = 1" "tag_count TagOther ?es = 1"
    using base [of TagUserObj] base [of TagGroupObj] base [of TagOther]
      count [of TagUserObj] count [of TagGroupObj] count [of TagOther]
    by (simp_all add: base_keys_def)
  have le1: "tag_count TagMask ?es \<le> 1" using count [of TagMask] by (simp split: if_splits)
  have named: "tag_count TagMask ?es = 1" if "\<exists>e \<in> set ?es. named_entry e"
  proof -
    have "hasNamedACLEntries ?es"
      using that by (simp add: hasNamedACLEntries_def named_entry_def list_ex_iff)
    then obtain e where e: "e \<in> set ?es" "Tag e = TagMask"
      using assms(3) by (auto simp: hasMaskACLEntry_def list_ex_iff)
    then have "entryKey e = (TagMask, UndefinedID)"
      using ok entry_ok_unique_key [of e TagMask] by simp
    then have "(TagMask, UndefinedID) \<in> entryKey ` set ?es" using e(1) by (metis image_eqI)
    then show ?thesis using count [of TagMask] by simp
  qed
  show ?thesis unfolding acl_ok_def using ok d counts le1 named by blast
qed

lemma derive_perm_le: "\<forall>e \<in> set es. Perm e \<le> 7 \<Longrightarrow> p \<le> 7 \<Longrightarrow>
   foldl (\<lambda>p e. if Tag e \<in> {TagGroupObj, TagUser, TagGroup} then p OR Perm e else p) p es \<le> 7"
proof (induction es arbitrary: p)
  case Nil
  then show ?case by simp
next
  case (Cons e es)
  have "p OR Perm e \<le> 7"
    using perm_cases [of p] perm_cases [of "Perm e"] Cons.prems by auto
  with Cons show ?case by simp
qed

lemma deriveACLMask_simps [simp]:
  "Tag (deriveACLMask es) = TagMask" "ID (deriveACLMask es) = UndefinedID"
  by (simp_all add: deriveACLMask_def)

definition masked :: "aclMap \<Rightarrow> aclMap" where
  "masked raw =
     (if hasNamedACLEntries (map snd raw) \<and> \<not> hasMaskACLEntry (map snd raw)
      then put_entry raw (entryKey (deriveACLMask (map snd raw))) (deriveACLMask (map snd raw))
      else raw)"

lemma canonicalize_masked: "canonicalizeACLEntries raw = SortEntries (map snd (masked raw))"
  by (simp add: canonicalizeACLEntries_def masked_def Let_def)

lemma masked_inv:
  assumes "map_inv m"
  shows "map_inv (masked m)"
    and "fst ` set (masked m) \<subseteq> insert (TagMask, UndefinedID) (fst ` set m)"
    and "fst ` set m \<subseteq> fst ` set (masked m)"
proof -
  let ?d = "deriveACLMask (map snd m)"
  have "\<forall>e \<in> set (map snd m). Perm e \<le> 7" using assms by (simp add: map_inv_def)
  from derive_perm_le [OF this, of 0] have "Perm ?d \<le> 7"
    by (simp only: deriveACLMask_def) simp
  then show "map_inv (masked m)" using assms by (simp add: masked_def put_entry_inv)
  have "entryKey ?d = (TagMask, UndefinedID)" by (simp add: entryKey_def)
  then have "fst ` set (put_entry m (entryKey ?d) ?d) = insert (TagMask, UndefinedID) (fst ` set m)"
    by (simp only: fst_put_entry)
  then show "fst ` set (masked m) \<subseteq> insert (TagMask, UndefinedID) (fst ` set m)"
    and "fst ` set m \<subseteq> fst ` set (masked m)"
    unfolding masked_def by (auto simp only: split: if_splits)
qed

lemma put_entry_in: "(k, e) \<in> set (put_entry m k e)"
  by (induction m k e rule: put_entry.induct) auto

lemma masked_has_mask:
  assumes "hasNamedACLEntries (map snd (masked m))"
  shows "hasMaskACLEntry (map snd (masked m))"
proof (cases "hasNamedACLEntries (map snd m) \<and> \<not> hasMaskACLEntry (map snd m)")
  case True
  let ?d = "deriveACLMask (map snd m)"
  have "(entryKey ?d, ?d) \<in> set (masked m)" using True by (simp add: masked_def put_entry_in)
  then have "?d \<in> set (map snd (masked m))" by force
  then show ?thesis unfolding hasMaskACLEntry_def list_ex_iff by (metis deriveACLMask_simps(1))
next
  case False
  then have "masked m = m" by (auto simp: masked_def)
  with False assms show ?thesis by simp
qed

lemma acl_ok_keys:
  assumes "map_inv m" and "acl_ok (map snd m)"
  shows "\<forall>k \<in> fst ` set m. key_ok k"
proof -
  have "\<forall>e \<in> snd ` set m. entry_ok e" using assms(2) unfolding acl_ok_def list.set_map by blast
  then show ?thesis using map_inv_entries_ok [OF assms(1)] by blast
qed

lemma validateACLEntries_iff: "validateACLEntries es = Inr () \<longleftrightarrow> es = [] \<or> acl_ok es"
proof -
  have "validateACLEntries es = Inr () \<longleftrightarrow> Validate es = Inr ()"
    by (cases "Validate es") (simp_all add: validateACLEntries_def)
  then show ?thesis by (simp only: Validate_iff)
qed

lemma map_inv_not_Nil: "map_inv m \<Longrightarrow> m \<noteq> []"
  by (auto simp: map_inv_def base_keys_def)

lemma canonicalize_valid_iff:
  assumes "map_inv m"
  shows "validateACLEntries (canonicalizeACLEntries m) = Inr () \<longleftrightarrow> acl_ok (map snd (masked m))"
proof -
  have "map snd (masked m) \<noteq> []" using map_inv_not_Nil [OF masked_inv(1) [OF assms]] by simp
  then show ?thesis
    by (simp only: validateACLEntries_iff canonicalize_masked SortEntries_Nil_iff acl_ok_SortEntries simp_thms)
qed

lemma masked_keys_ok:
  assumes "map_inv m"
  shows "(\<forall>k \<in> fst ` set (masked m). key_ok k) \<longleftrightarrow> (\<forall>k \<in> fst ` set m. key_ok k)" (is "?L \<longleftrightarrow> ?R")
proof
  assume ?L
  then show ?R using masked_inv(3) [OF assms] by (meson subsetD)
next
  assume R: ?R
  show ?L
  proof
    fix k assume "k \<in> fst ` set (masked m)"
    then have "k = (TagMask, UndefinedID) \<or> k \<in> fst ` set m"
      using subsetD [OF masked_inv(2) [OF assms]] by (simp only: insert_iff)
    then show "key_ok k"
    proof
      assume "k = (TagMask, UndefinedID)"
      then show ?thesis by (simp add: key_ok_def)
    qed (rule bspec [OF R])
  qed
qed

lemma canonicalize_ok_iff:
  assumes "map_inv m"
  shows "validateACLEntries (canonicalizeACLEntries m) = Inr () \<longleftrightarrow> (\<forall>k \<in> fst ` set m. key_ok k)"
proof -
  note inv = masked_inv(1) [OF assms]
  have "acl_ok (map snd (masked m)) \<longleftrightarrow> (\<forall>k \<in> fst ` set (masked m). key_ok k)"
  proof
    assume "acl_ok (map snd (masked m))"
    then show "\<forall>k \<in> fst ` set (masked m). key_ok k" by (rule acl_ok_keys [OF inv])
  next
    assume "\<forall>k \<in> fst ` set (masked m). key_ok k"
    then show "acl_ok (map snd (masked m))"
      by (rule acl_ok_map [OF inv]) (rule impI, rule masked_has_mask)
  qed
  then show ?thesis by (simp only: canonicalize_valid_iff [OF assms] masked_keys_ok [OF assms])
qed

lemma canonicalize_acl_ok:
  assumes "map_inv m" and "validateACLEntries (canonicalizeACLEntries m) = Inr ()"
  shows "acl_ok (canonicalizeACLEntries m)"
proof -
  have "acl_ok (map snd (masked m))"
    using assms(2) by (simp only: canonicalize_valid_iff [OF assms(1)])
  then show ?thesis by (simp only: canonicalize_masked acl_ok_SortEntries)
qed

section \<open>The loop\<close>

text \<open>The entries the texts give for the access ACL (\<open>d = False\<close>) or the default ACL.\<close>

definition parsed :: "bool \<Rightarrow> string list \<Rightarrow> Entry list" where
  "parsed d raws = concat (map (\<lambda>raw. case ParseTextEntry raw of
     Inl e \<Rightarrow> [] | Inr (d', e) \<Rightarrow> if d' = d then [e] else []) raws)"

definition put_all :: "aclMap \<Rightarrow> Entry list \<Rightarrow> aclMap" where
  "put_all m es = foldl (\<lambda>m e. put_entry m (entryKey e) e) m es"

definition after_defaults :: "32 word \<Rightarrow> aclMap option \<Rightarrow> Entry list \<Rightarrow> aclMap option" where
  "after_defaults mode dfl es =
     (if es = [] then dfl
      else Some (put_all (case dfl of None \<Rightarrow> newACLBaseMap mode | Some d \<Rightarrow> d) es))"

lemma resolve_loop_eq:
  "resolve_loop mode raws acc dfl =
     (if \<forall>raw \<in> set raws. is_ok (ParseTextEntry raw)
      then Inr (put_all acc (parsed False raws), after_defaults mode dfl (parsed True raws))
      else FailW ''at index'' ErrACLInvalidEntry)"
proof (induction raws arbitrary: acc dfl)
  case Nil
  then show ?case by (simp add: put_all_def parsed_def after_defaults_def)
next
  case (Cons raw raws)
  show ?case
  proof (cases "ParseTextEntry raw")
    case (Inl e)
    then show ?thesis by simp
  next
    case (Inr x)
    obtain d e where x: "x = (d, e)" by (cases x)
    show ?thesis
    proof (cases d)
      case True
      have p: "parsed True (raw # raws) = e # parsed True raws"
        "parsed False (raw # raws) = parsed False raws"
        using Inr x True by (simp_all add: parsed_def)
      show ?thesis
        unfolding p using Inr x True Cons.IH
        by (simp add: after_defaults_def put_all_def Let_def)
    next
      case False
      have p: "parsed False (raw # raws) = e # parsed False raws"
        "parsed True (raw # raws) = parsed True raws"
        using Inr x False by (simp_all add: parsed_def)
      show ?thesis
        unfolding p using Inr x False Cons.IH by (simp add: put_all_def)
    qed
  qed
qed

lemma put_all_inv:
  "map_inv m \<Longrightarrow> \<forall>e \<in> set es. Perm e \<le> 7 \<Longrightarrow> map_inv (put_all m es)"
  unfolding put_all_def by (induction es arbitrary: m) (simp_all add: put_entry_inv)

lemma put_all_keys: "fst ` set (put_all m es) = fst ` set m \<union> entryKey ` set es"
  unfolding put_all_def
proof (induction es arbitrary: m)
  case (Cons e es)
  then show ?case by (simp only: foldl_Cons fst_put_entry list.set) blast
qed simp

lemma parsed_perm: "e \<in> set (parsed d raws) \<Longrightarrow> Perm e \<le> 7"
proof -
  assume "e \<in> set (parsed d raws)"
  then obtain raw where "ParseTextEntry raw = Inr (d, e)"
    by (auto simp: parsed_def split: sum.splits if_splits)
  then show ?thesis by (rule ParseTextEntry_perm)
qed

lemma parsed_iff:
  "(\<forall>raw \<in> set raws. \<exists>d e. ParseTextEntry raw = Inr (d, e) \<and> entry_ok e) \<longleftrightarrow>
     (\<forall>raw \<in> set raws. is_ok (ParseTextEntry raw)) \<and>
     (\<forall>e \<in> set (parsed False raws). entry_ok e) \<and> (\<forall>e \<in> set (parsed True raws). entry_ok e)"
proof (induction raws)
  case Nil
  then show ?case by (simp add: parsed_def)
next
  case (Cons raw raws)
  show ?case
  proof (cases "ParseTextEntry raw")
    case (Inl e)
    then show ?thesis by simp
  next
    case (Inr x)
    obtain d e where x: "x = (d, e)" by (cases x)
    have p: "parsed b (raw # raws) = (if d = b then e # parsed b raws else parsed b raws)" for b
      using Inr x by (simp add: parsed_def)
    show ?thesis unfolding p using Inr x Cons.IH by (cases d) auto
  qed
qed

lemma put_all_ok:
  assumes "\<forall>e \<in> set es. Perm e \<le> 7"
  shows "(\<forall>k \<in> fst ` set (put_all (newACLBaseMap mode) es). key_ok k) \<longleftrightarrow> (\<forall>e \<in> set es. entry_ok e)"
proof -
  have "(\<forall>e \<in> set es. entry_ok e) \<longleftrightarrow> (\<forall>e \<in> set es. key_ok (entryKey e))"
    using assms by (simp add: entry_ok_key)
  then show ?thesis unfolding put_all_keys base_map_keys using base_keys_ok by blast
qed

lemma canon_put_all:
  "is_ok (validateACLEntries (canonicalizeACLEntries (put_all (newACLBaseMap mode) (parsed d raws))))
     \<longleftrightarrow> (\<forall>e \<in> set (parsed d raws). entry_ok e)"
proof -
  have perm: "\<forall>e \<in> set (parsed d raws). Perm e \<le> 7" using parsed_perm by blast
  have inv: "map_inv (put_all (newACLBaseMap mode) (parsed d raws))"
    by (rule put_all_inv [OF base_map_inv perm])
  show ?thesis unfolding is_ok_iff using canonicalize_ok_iff [OF inv] put_all_ok [OF perm] by simp
qed

section \<open>Properties\<close>

text \<open>
  The canonical form of the entries \<open>resolveACLEntries\<close> arrives at: the base entries of
  the mode, overridden by the texts.
\<close>

definition resolved :: "32 word \<Rightarrow> bool \<Rightarrow> string list \<Rightarrow> Entry list" where
  "resolved mode d raws = canonicalizeACLEntries (put_all (newACLBaseMap mode) (parsed d raws))"

lemma resolve_eq:
  assumes "raws \<noteq> []"
  shows "resolveACLEntries mode raws = Inr (access, defaults) \<longleftrightarrow>
    (\<forall>raw \<in> set raws. \<exists>d e. ParseTextEntry raw = Inr (d, e) \<and> entry_ok e) \<and>
    access = resolved mode False raws \<and>
    defaults = (if parsed True raws = [] then [] else resolved mode True raws)"
proof (cases "\<forall>raw \<in> set raws. is_ok (ParseTextEntry raw)")
  case True
  have v: "validateACLEntries (resolved mode d raws) = Inr () \<longleftrightarrow>
      (\<forall>e \<in> set (parsed d raws). entry_ok e)" for d
    using canon_put_all [of mode d raws] by (simp add: resolved_def is_ok_iff)
  show ?thesis
    unfolding parsed_iff using True assms v [of True] v [of False]
    by (auto simp: resolveACLEntries_def resolve_loop_eq Let_def after_defaults_def resolved_def)
next
  case False
  then show ?thesis
    unfolding parsed_iff using assms by (auto simp: resolveACLEntries_def resolve_loop_eq)
qed

text \<open>
  C13: \<open>resolveACLEntries\<close> succeeds exactly when every text entry parses to an entry whose
  permission bits and qualifier are well formed; no combination of well-formed entries is
  rejected by the validation that follows (the mode supplies the three base entries, a
  missing mask is derived, and repeated entries override one another).
\<close>

theorem resolveACLEntries_succeeds:
  "is_ok (resolveACLEntries mode raws) =
     list_all (\<lambda>raw. case ParseTextEntry raw of Inl err \<Rightarrow> False | Inr (d, e) \<Rightarrow> entry_ok e) raws"
proof -
  have "list_all (\<lambda>raw. case ParseTextEntry raw of Inl err \<Rightarrow> False | Inr (d, e) \<Rightarrow> entry_ok e) raws
      \<longleftrightarrow> (\<forall>raw \<in> set raws. \<exists>d e. ParseTextEntry raw = Inr (d, e) \<and> entry_ok e)"
    unfolding list_all_iff by (rule ball_cong) (auto split: sum.splits)
  moreover have "is_ok (resolveACLEntries mode raws) \<longleftrightarrow>
      (\<forall>raw \<in> set raws. \<exists>d e. ParseTextEntry raw = Inr (d, e) \<and> entry_ok e)"
  proof (cases "raws = []")
    case True
    then show ?thesis by (simp add: resolveACLEntries_def)
  next
    case False
    then show ?thesis using resolve_eq [OF False, of mode] by (auto simp: is_ok_iff)
  qed
  ultimately show ?thesis by blast
qed

lemma resolved_acl_ok:
  assumes "\<forall>e \<in> set (parsed d raws). entry_ok e"
  shows "acl_ok (resolved mode d raws)"
proof -
  have inv: "map_inv (put_all (newACLBaseMap mode) (parsed d raws))"
    by (rule put_all_inv [OF base_map_inv]) (use parsed_perm in blast)
  have "is_ok (validateACLEntries (resolved mode d raws))"
    using assms canon_put_all unfolding resolved_def by blast
  then have "validateACLEntries (resolved mode d raws) = Inr ()" by (simp add: is_ok_iff)
  then show ?thesis unfolding resolved_def by (rule canonicalize_acl_ok [OF inv])
qed

lemma SortEntries_resolved: "SortEntries (resolved mode d raws) = resolved mode d raws"
  by (simp add: resolved_def canonicalize_masked SortEntries_idem)

lemma acl_ok_Marshal: "acl_ok es \<Longrightarrow> is_ok (Marshal en es)"
proof -
  assume "acl_ok es"
  then have "Validate (SortEntries es) = Inr ()" by (simp add: Validate_iff)
  then show ?thesis by (simp add: Marshal_def Let_def)
qed

text \<open>
  What \<open>resolveACLEntries\<close> returns for a non-empty list is a valid access ACL in canonical
  order and either no default ACL (no \<^verbatim>\<open>default:\<close> entry was given) or a valid one in
  canonical order, so the xattr encoder that receives them cannot refuse them.
\<close>

theorem resolveACLEntries_valid:
  assumes "raws \<noteq> []" and "resolveACLEntries mode raws = Inr (access, defaults)"
  shows "acl_ok access \<and> SortEntries access = access \<and> is_ok (Marshal en access) \<and>
    (defaults = [] \<longleftrightarrow> parsed True raws = []) \<and>
    (defaults = [] \<or> acl_ok defaults \<and> SortEntries defaults = defaults \<and> is_ok (Marshal en defaults))"
proof -
  note eq = assms(2) [unfolded resolve_eq [OF assms(1)]]
  then have ok: "acl_ok (resolved mode False raws)" "acl_ok (resolved mode True raws)"
    using resolved_acl_ok parsed_iff by blast+
  then have "resolved mode True raws \<noteq> []" using acl_ok_not_Nil by blast
  then show ?thesis using eq ok by (auto simp: SortEntries_resolved acl_ok_Marshal)
qed

lemma sample_resolves:
  "\<exists>access defaults. resolveACLEntries 416 (map (formatTextEntry False) sample_acl) = Inr (access, defaults)"
proof -
  have "resolveACLEntries 416 (map (formatTextEntry False) sample_acl) =
      Inr (resolved 416 False (map (formatTextEntry False) sample_acl),
        if parsed True (map (formatTextEntry False) sample_acl) = [] then []
        else resolved 416 True (map (formatTextEntry False) sample_acl))"
    by (subst resolve_eq)
      (use sample_acl_ok in \<open>auto simp: acl_ok_def sample_acl_def parse_format_entry\<close>)
  then show ?thesis by blast
qed

theorem resolveACLEntries_valid_witness:
  "\<exists>access defaults. resolveACLEntries 416 (map (formatTextEntry False) sample_acl) = Inr (access, defaults)
     \<and> acl_ok access"
proof -
  obtain access defaults
    where "resolveACLEntries 416 (map (formatTextEntry False) sample_acl) = Inr (access, defaults)"
    using sample_resolves by blast
  then show ?thesis
    using resolveACLEntries_valid [of "map (formatTextEntry False) sample_acl" 416 access defaults]
    by (auto simp: sample_acl_def)
qed

text \<open>The last entry of a list with a given key.\<close>

definition last_with :: "entryKey \<Rightarrow> Entry list \<Rightarrow> Entry option" where
  "last_with k es = find (\<lambda>e. entryKey e = k) (rev es)"

lemma map_of_put_entry: "map_of (put_entry m k e) = (map_of m)(k \<mapsto> e)"
  by (induction m k e rule: put_entry.induct) (auto simp: fun_upd_twist)

lemma find_append: "find P (xs @ ys) = (case find P xs of None \<Rightarrow> find P ys | Some x \<Rightarrow> Some x)"
  by (induction xs) simp_all

lemma map_of_put_all:
  "map_of (put_all m es) k = (case last_with k es of None \<Rightarrow> map_of m k | Some e \<Rightarrow> Some e)"
proof (induction es arbitrary: m)
  case Nil
  then show ?case by (simp add: put_all_def last_with_def)
next
  case (Cons e es)
  have "put_all m (e # es) = put_all (put_entry m (entryKey e) e) es" by (simp add: put_all_def)
  then show ?case
    using Cons [of "put_entry m (entryKey e) e"]
    by (auto simp: map_of_put_entry last_with_def find_append split: option.splits)
qed

lemma map_of_base: "map_of (newACLBaseMap mode) k = last_with k (AccessEntriesFromMode mode)"
  by (auto simp add: newACLBaseMap_def AccessEntriesFromMode_def last_with_def entryKey_def)

lemma map_inv_mem:
  assumes "map_inv m"
  shows "e \<in> snd ` set m \<longleftrightarrow> map_of m (entryKey e) = Some e"
proof
  assume "e \<in> snd ` set m"
  then obtain x where x: "x \<in> set m" "snd x = e" by blast
  moreover have "fst x = entryKey e" using assms x by (auto simp: map_inv_def)
  ultimately have "(entryKey e, e) \<in> set m" by (metis prod.collapse)
  then show "map_of m (entryKey e) = Some e" using assms by (simp add: map_inv_def)
qed (force dest: map_of_SomeD)

text \<open>The derived mask has the bits some entry of the group class has.\<close>

definition group_class :: "Entry \<Rightarrow> bool" where
  "group_class e \<longleftrightarrow> Tag e = TagGroupObj \<or> Tag e = TagUser \<or> Tag e = TagGroup"

lemma derive_bits: "bit (Perm (deriveACLMask es)) i \<longleftrightarrow> (\<exists>x \<in> set es. group_class x \<and> bit (Perm x) i)"
proof -
  have "bit (foldl (\<lambda>p e. if Tag e \<in> {TagGroupObj, TagUser, TagGroup} then p OR Perm e else p) p es) i \<longleftrightarrow>
      bit p i \<or> (\<exists>x \<in> set es. group_class x \<and> bit (Perm x) i)" for p
    by (induction es arbitrary: p) (auto simp: bit_or_iff group_class_def)
  from this [of 0] show ?thesis by (simp add: deriveACLMask_def)
qed

lemma map_inv_tag_ex:
  assumes "map_inv m"
  shows "(\<exists>x \<in> set (map snd m). P (Tag x)) \<longleftrightarrow> (\<exists>k \<in> fst ` set m. P (fst k))"
proof -
  have "fst (fst x) = Tag (snd x)" if "x \<in> set m" for x
    using assms that by (simp add: map_inv_def entryKey_def)
  then show ?thesis by auto
qed

lemma merged_named:
  "hasNamedACLEntries (map snd (put_all (newACLBaseMap mode) (parsed d raws))) \<longleftrightarrow>
     (\<exists>n \<in> set (parsed d raws). Tag n = TagUser \<or> Tag n = TagGroup)"
proof -
  let ?m = "put_all (newACLBaseMap mode) (parsed d raws)"
  have inv: "map_inv ?m" by (rule put_all_inv [OF base_map_inv]) (use parsed_perm in blast)
  have "hasNamedACLEntries (map snd ?m) \<longleftrightarrow> (\<exists>k \<in> fst ` set ?m. fst k = TagUser \<or> fst k = TagGroup)"
    unfolding hasNamedACLEntries_def list_ex_iff by (rule map_inv_tag_ex [OF inv])
  then show ?thesis
    unfolding put_all_keys base_map_keys by (auto simp: base_keys_def entryKey_def)
qed

lemma merged_mask:
  assumes "\<forall>e \<in> set (parsed d raws). entry_ok e"
  shows "hasMaskACLEntry (map snd (put_all (newACLBaseMap mode) (parsed d raws))) \<longleftrightarrow>
     map_of (put_all (newACLBaseMap mode) (parsed d raws)) (TagMask, UndefinedID) \<noteq> None"
proof -
  let ?m = "put_all (newACLBaseMap mode) (parsed d raws)"
  have inv: "map_inv ?m" by (rule put_all_inv [OF base_map_inv]) (use parsed_perm in blast)
  have ok: "\<forall>k \<in> fst ` set ?m. key_ok k" using put_all_ok assms parsed_perm by blast
  have "hasMaskACLEntry (map snd ?m) \<longleftrightarrow> (\<exists>k \<in> fst ` set ?m. fst k = TagMask)"
    unfolding hasMaskACLEntry_def list_ex_iff by (rule map_inv_tag_ex [OF inv])
  also have "\<dots> \<longleftrightarrow> (TagMask, UndefinedID) \<in> fst ` set ?m"
  proof
    assume "\<exists>k \<in> fst ` set ?m. fst k = TagMask"
    then obtain k where "k \<in> fst ` set ?m" "fst k = TagMask" by blast
    moreover from this have "snd k = UndefinedID" using bspec [OF ok, of k] by (simp add: key_ok_def)
    ultimately show "(TagMask, UndefinedID) \<in> fst ` set ?m" by (metis prod.collapse)
  qed force
  finally show ?thesis by (simp add: map_of_eq_None_iff)
qed

lemma map_of_merged:
  "map_of (put_all (newACLBaseMap mode) (parsed d raws)) k = last_with k (AccessEntriesFromMode mode @ parsed d raws)"
  by (simp only: map_of_put_all map_of_base last_with_def find_append rev_append)

lemma set_resolved:
  assumes "\<forall>e \<in> set (parsed d raws). entry_ok e"
  shows "e \<in> set (resolved mode d raws) \<longleftrightarrow>
    (case last_with (entryKey e) (AccessEntriesFromMode mode @ parsed d raws) of
       Some e' \<Rightarrow> e = e'
     | None \<Rightarrow> entryKey e = (TagMask, UndefinedID) \<and>
         (\<exists>n \<in> set (parsed d raws). Tag n = TagUser \<or> Tag n = TagGroup) \<and>
         (\<forall>i. bit (Perm e) i \<longleftrightarrow> (\<exists>x \<in> set (resolved mode d raws). group_class x \<and> bit (Perm x) i)))"
proof -
  let ?m = "put_all (newACLBaseMap mode) (parsed d raws)" and ?k = "(TagMask, UndefinedID)"
  let ?named = "\<exists>n \<in> set (parsed d raws). Tag n = TagUser \<or> Tag n = TagGroup"
  let ?d = "deriveACLMask (map snd ?m)"
  have inv: "map_inv ?m" by (rule put_all_inv [OF base_map_inv]) (use parsed_perm in blast)
  have set_eq: "set (resolved mode d raws) = snd ` set (masked ?m)"
    by (simp add: resolved_def canonicalize_masked)
  have mem: "x \<in> set (resolved mode d raws) \<longleftrightarrow> map_of (masked ?m) (entryKey x) = Some x" for x
    unfolding set_eq by (rule map_inv_mem [OF masked_inv(1) [OF inv]])
  have mem0: "x \<in> set (map snd ?m) \<longleftrightarrow> map_of ?m (entryKey x) = Some x" for x
    using map_inv_mem [OF inv] by simp
  have key: "entryKey ?d = ?k" by (simp add: entryKey_def)
  show ?thesis
  proof (cases "?named \<and> map_of ?m ?k = None")
    case True
    then have "masked ?m = put_entry ?m ?k ?d"
      using merged_named merged_mask [OF assms, of mode] key by (simp add: masked_def)
    then have mo: "map_of (masked ?m) = (map_of ?m)(?k \<mapsto> ?d)" by (simp add: map_of_put_entry)
    have "x \<in> set (resolved mode d raws) \<longleftrightarrow> x \<in> set (map snd ?m)" if "group_class x" for x
    proof -
      have "entryKey x \<noteq> ?k" using that by (auto simp: group_class_def entryKey_def)
      then show ?thesis unfolding mem mem0 mo by (subst fun_upd_other) simp_all
    qed
    then have bits: "bit (Perm ?d) i \<longleftrightarrow> (\<exists>x \<in> set (resolved mode d raws). group_class x \<and> bit (Perm x) i)" for i
      unfolding derive_bits by blast
    show ?thesis
    proof (cases "entryKey e = ?k")
      case k: True
      have "e = ?d \<longleftrightarrow> Perm e = Perm ?d" using k by (cases e) (auto simp: entryKey_def deriveACLMask_def)
      then have "e = ?d \<longleftrightarrow> (\<forall>i. bit (Perm e) i \<longleftrightarrow> bit (Perm ?d) i)" using bit_eqI [of "Perm e" "Perm ?d"] by metis
      then show ?thesis using True k bits unfolding mem mo map_of_merged [symmetric] by auto
    next
      case False
      then show ?thesis unfolding mem mo map_of_merged [symmetric] by (auto split: option.split)
    qed
  next
    case False
    then have "masked ?m = ?m" using merged_named merged_mask [OF assms, of mode] by (auto simp: masked_def)
    then show ?thesis using False unfolding mem map_of_merged [symmetric] by (auto split: option.split)
  qed
qed

text \<open>
  C14: which entries the resolved ACLs have, the access ACL (\<open>d = False\<close>) and, when some text has
  the \<^verbatim>\<open>default:\<close> prefix, the default ACL (\<open>d = True\<close>). An entry whose tag and qualifier occur
  in the list that starts with the three entries of the mode and goes on with the texts of that
  ACL in order is there exactly when it is the last of them: later texts override earlier ones,
  every text overrides the mode, and a mask that a text gives stands as it is given. Nothing
  else is there except a mask that no text gives: it is there exactly when a named entry is, and
  has exactly the permission bits of the entries of the group class.
\<close>

theorem resolveACLEntries_last_wins:
  assumes "raws \<noteq> []" and "resolveACLEntries mode raws = Inr (access, defaults)"
    and "d \<Longrightarrow> parsed True raws \<noteq> []" and "acl = (if d then defaults else access)"
  shows "e \<in> set acl \<longleftrightarrow>
    (case last_with (entryKey e) (AccessEntriesFromMode mode @ parsed d raws) of
       Some e' \<Rightarrow> e = e'
     | None \<Rightarrow> entryKey e = (TagMask, UndefinedID) \<and>
         (\<exists>n \<in> set (parsed d raws). Tag n = TagUser \<or> Tag n = TagGroup) \<and>
         (\<forall>i. bit (Perm e) i \<longleftrightarrow> (\<exists>x \<in> set acl. group_class x \<and> bit (Perm x) i)))"
proof -
  have r: "\<forall>raw \<in> set raws. \<exists>d e. ParseTextEntry raw = Inr (d, e) \<and> entry_ok e"
    "access = resolved mode False raws" "defaults = (if parsed True raws = [] then [] else resolved mode True raws)"
    using assms(2) [unfolded resolve_eq [OF assms(1)]] by blast+
  have "\<forall>e \<in> set (parsed d raws). entry_ok e" using r(1) unfolding parsed_iff by (cases d) simp_all
  moreover have "acl = resolved mode d raws" using r(2,3) assms(3,4) by (cases d) simp_all
  ultimately show ?thesis using set_resolved [of d raws e mode] by (simp only:)
qed

theorem resolveACLEntries_last_wins_witness:
  "\<exists>access defaults. resolveACLEntries 416 (map (formatTextEntry False) sample_acl) = Inr (access, defaults)
     \<and> \<lparr>Tag = TagUserObj, Perm = 6, ID = UndefinedID\<rparr> \<in> set access
     \<and> \<lparr>Tag = TagMask, Perm = 7, ID = UndefinedID\<rparr> \<in> set access
     \<and> \<lparr>Tag = TagMask, Perm = 5, ID = UndefinedID\<rparr> \<notin> set access"
proof -
  let ?raws = "map (formatTextEntry False) sample_acl"
  obtain access defaults where r: "resolveACLEntries 416 ?raws = Inr (access, defaults)"
    using sample_resolves by blast
  have p: "parsed False ?raws = sample_acl"
    using sample_acl_ok by (simp add: parsed_def sample_acl_def acl_ok_def parse_format_entry)
  have l: "last_with (TagUserObj, UndefinedID) (AccessEntriesFromMode 416 @ sample_acl) =
      Some \<lparr>Tag = TagUserObj, Perm = 6, ID = UndefinedID\<rparr>"
    "last_with (TagMask, UndefinedID) (AccessEntriesFromMode 416 @ sample_acl) =
      Some \<lparr>Tag = TagMask, Perm = 7, ID = UndefinedID\<rparr>"
    by (simp_all add: last_with_def sample_acl_def entryKey_def)
  have "?raws \<noteq> []" by (simp add: sample_acl_def)
  note mem = resolveACLEntries_last_wins [OF this r, of False access, simplified p, simplified]
  show ?thesis
    using r l mem [of "\<lparr>Tag = TagUserObj, Perm = 6, ID = UndefinedID\<rparr>"]
      mem [of "\<lparr>Tag = TagMask, Perm = 7, ID = UndefinedID\<rparr>"]
      mem [of "\<lparr>Tag = TagMask, Perm = 5, ID = UndefinedID\<rparr>"]
    by (auto simp: entryKey_def)
qed

end
