(* ===== verification/Go_Path.thy ===== *)
theory Go_Path
  imports Go_Strings
begin

text \<open>
  The Go standard library packages \<^verbatim>\<open>path\<close> and \<^verbatim>\<open>path/filepath\<close> on a Unix host (the two
  agree there): \<open>Clean\<close>, \<open>Join2\<close>, \<open>Dir\<close>, \<open>Base\<close>, \<open>Rel\<close>. A path is read as the list of
  its slash-separated elements. The second half gives the algebra of clean rooted paths,
  \<open>abs_path cs\<close> for a list \<open>cs\<close> of proper elements, on which every operation of the
  package is an operation on lists.
\<close>

section \<open>Clean\<close>

definition slash :: char where
  "slash = CHR ''/''"

definition dot :: string where
  "dot = ''.''"

definition dotdot :: string where
  "dotdot = ''..''"

definition rooted :: "string \<Rightarrow> bool" where
  "rooted s \<longleftrightarrow> HasPrefix s [slash]"

text \<open>One pass over the elements with the output so far as a stack, as the lazy buffer of \<open>Clean\<close>.\<close>

fun clean_elems :: "bool \<Rightarrow> string list \<Rightarrow> string list \<Rightarrow> string list" where
  "clean_elems r st [] = rev st"
| "clean_elems r st (w # ws) =
     (if w = [] \<or> w = dot then clean_elems r st ws
      else if w = dotdot then
        (case st of
           [] \<Rightarrow> clean_elems r (if r then [] else [dotdot]) ws
         | a # st' \<Rightarrow> if a = dotdot then clean_elems r (dotdot # st) ws
                      else clean_elems r st' ws)
      else clean_elems r (w # st) ws)"

definition Clean :: "string \<Rightarrow> string" where
  "Clean s =
     (if s = [] then dot
      else let cs = clean_elems (rooted s) [] (Split slash s) in
        if rooted s then slash # Join slash cs
        else if cs = [] then dot else Join slash cs)"

section \<open>Join, Dir, Base, Rel\<close>

definition Join2 :: "string \<Rightarrow> string \<Rightarrow> string" where
  "Join2 a b = (if a = [] then (if b = [] then [] else Clean b) else Clean (a @ slash # b))"

text \<open>Everything up to and including the last slash.\<close>

definition upto_last_slash :: "string \<Rightarrow> string" where
  "upto_last_slash s = rev (dropWhile (\<lambda>c. c \<noteq> slash) (rev s))"

definition after_last_slash :: "string \<Rightarrow> string" where
  "after_last_slash s = rev (takeWhile (\<lambda>c. c \<noteq> slash) (rev s))"

definition Dir :: "string \<Rightarrow> string" where
  "Dir s = Clean (upto_last_slash s)"

definition Base :: "string \<Rightarrow> string" where
  "Base s =
     (if s = [] then dot
      else let t = after_last_slash (rev (dropWhile (\<lambda>c. c = slash) (rev s))) in
        if t = [] then [slash] else t)"

definition IsAbs :: "string \<Rightarrow> bool" where
  "IsAbs s = rooted s"

text \<open>The elements of a cleaned path, as the loop of \<open>Rel\<close> cuts it.\<close>

definition cut :: "string \<Rightarrow> string list" where
  "cut s = (let t = (if rooted s then drop 1 s else s) in if t = [] then [] else Split slash t)"

fun strip_common :: "string list \<Rightarrow> string list \<Rightarrow> string list \<times> string list" where
  "strip_common (b # bs) (t # ts) = (if b = t then strip_common bs ts else (b # bs, t # ts))"
| "strip_common bs ts = (bs, ts)"

definition Rel :: "string \<Rightarrow> string \<Rightarrow> err + string" where
  "Rel basepath targpath =
     (let base = Clean basepath; targ = Clean targpath in
      if targ = base then Inr dot
      else let base = (if base = dot then [] else base) in
        if rooted base \<noteq> rooted targ then Err ''Rel: can't make relative''
        else case strip_common (cut base) (cut targ) of (bs, ts) \<Rightarrow>
          if bs \<noteq> [] \<and> ts \<noteq> [] \<and> hd bs = dotdot then Err ''Rel: can't make relative''
          else if bs \<noteq> [] then Inr (Join slash (replicate (length bs) dotdot @ ts))
          else Inr (Join slash ts))"

section \<open>Clean rooted paths\<close>

definition elem_ok :: "string \<Rightarrow> bool" where
  "elem_ok w \<longleftrightarrow> w \<noteq> [] \<and> w \<noteq> dot \<and> w \<noteq> dotdot \<and> slash \<notin> set w"

definition abs_path :: "string list \<Rightarrow> string" where
  "abs_path cs = slash # Join slash cs"

definition clean_abs :: "string \<Rightarrow> bool" where
  "clean_abs p \<longleftrightarrow> rooted p \<and> Clean p = p"

text \<open>The elements of a rooted path after cleaning.\<close>

definition elems :: "string \<Rightarrow> string list" where
  "elems p = clean_elems True [] (Split slash p)"

lemma elem_okI: "w \<noteq> [] \<Longrightarrow> w \<noteq> dot \<Longrightarrow> w \<noteq> dotdot \<Longrightarrow> slash \<notin> set w \<Longrightarrow> elem_ok w"
  by (simp add: elem_ok_def)

lemma rooted_simps [simp]:
  "rooted [] = False"
  "rooted (c # s) = (c = slash)"
  by (simp_all add: rooted_def)

lemma rooted_abs_path [simp]: "rooted (abs_path cs)"
  by (simp add: abs_path_def)

lemma abs_path_nonempty [simp]: "abs_path cs \<noteq> []"
  by (simp add: abs_path_def)

lemma clean_elems_True_set:
  "dotdot \<notin> set st \<Longrightarrow>
     set (clean_elems True st ws) \<subseteq> set st \<union> {w \<in> set ws. w \<noteq> [] \<and> w \<noteq> dot \<and> w \<noteq> dotdot}"
proof (induction ws arbitrary: st)
  case Nil
  then show ?case by simp
next
  case (Cons w ws)
  consider "w = [] \<or> w = dot" | "w = dotdot" "w \<noteq> []" "w \<noteq> dot"
    | "w \<noteq> []" "w \<noteq> dot" "w \<noteq> dotdot" by blast
  then show ?case
  proof cases
    case 1
    then show ?thesis using Cons.IH [OF Cons.prems] by auto
  next
    case 2
    show ?thesis
    proof (cases st)
      case Nil
      then show ?thesis using 2 Cons.IH [of "[]"] by auto
    next
      case (Cons a st')
      then have "dotdot \<notin> set st'" "a \<noteq> dotdot" using \<open>dotdot \<notin> set st\<close> by auto
      with 2 Cons show ?thesis using Cons.IH [of st'] by auto
    qed
  next
    case 3
    then have "dotdot \<notin> set (w # st)" using Cons.prems by auto
    from Cons.IH [OF this] 3 show ?thesis by auto
  qed
qed

lemma elems_ok:
  assumes "w \<in> set (elems p)"
  shows "elem_ok w"
proof -
  have "set (elems p) \<subseteq> {w \<in> set (Split slash p). w \<noteq> [] \<and> w \<noteq> dot \<and> w \<noteq> dotdot}"
    using clean_elems_True_set [of "[]" "Split slash p"] by (simp add: elems_def)
  with assms have "w \<in> set (Split slash p)" "w \<noteq> []" "w \<noteq> dot" "w \<noteq> dotdot" by blast+
  then show ?thesis using Split_elem by (blast intro: elem_okI)
qed

lemma clean_elems_ok_id:
  "\<forall>w \<in> set ws. elem_ok w \<Longrightarrow> clean_elems r st ws = rev st @ ws"
  by (induction ws arbitrary: st) (auto simp: elem_ok_def)

lemma Split_abs_path:
  assumes "\<forall>w \<in> set cs. elem_ok w"
  shows "Split slash (abs_path cs) = [] # (if cs = [] then [[]] else cs)"
  using assms by (auto simp: abs_path_def Split_Join elem_ok_def)

lemma elems_abs_path [simp]: "\<forall>w \<in> set cs. elem_ok w \<Longrightarrow> elems (abs_path cs) = cs"
  by (simp add: elems_def Split_abs_path clean_elems_ok_id)

lemma Clean_rooted: "rooted p \<Longrightarrow> Clean p = abs_path (elems p)"
  by (cases p) (simp_all add: Clean_def abs_path_def elems_def Let_def)

lemma Clean_abs_path [simp]: "\<forall>w \<in> set cs. elem_ok w \<Longrightarrow> Clean (abs_path cs) = abs_path cs"
  by (simp add: Clean_rooted)

lemma abs_path_Nil [simp]: "abs_path [] = [slash]"
  by (simp add: abs_path_def)

lemma Clean_root [simp]: "Clean [slash] = [slash]"
  using Clean_abs_path [of "[]"] by simp

lemma clean_abs_iff: "clean_abs p \<longleftrightarrow> (\<exists>cs. (\<forall>w \<in> set cs. elem_ok w) \<and> p = abs_path cs)"
proof
  assume "clean_abs p"
  then have "p = abs_path (elems p)" by (metis Clean_rooted clean_abs_def)
  then show "\<exists>cs. (\<forall>w \<in> set cs. elem_ok w) \<and> p = abs_path cs" using elems_ok by blast
next
  assume "\<exists>cs. (\<forall>w \<in> set cs. elem_ok w) \<and> p = abs_path cs"
  then show "clean_abs p" by (auto simp: clean_abs_def)
qed

lemma clean_absE:
  assumes "clean_abs p"
  obtains cs where "\<forall>w \<in> set cs. elem_ok w" and "p = abs_path cs" and "elems p = cs"
  using assms by (auto simp: clean_abs_iff)

lemma clean_abs_abs_path [simp]: "\<forall>w \<in> set cs. elem_ok w \<Longrightarrow> clean_abs (abs_path cs)"
  by (auto simp: clean_abs_iff)

lemma clean_abs_Clean: "rooted p \<Longrightarrow> clean_abs (Clean p)"
  using elems_ok by (auto simp: Clean_rooted)

lemma clean_abs_root [simp]: "clean_abs [slash]"
  using clean_abs_abs_path [of "[]"] by (simp add: abs_path_def)

lemma clean_abs_nonempty: "clean_abs p \<Longrightarrow> p \<noteq> []"
  by (auto simp: clean_abs_iff)

lemma abs_path_inj:
  "\<forall>w \<in> set cs. elem_ok w \<Longrightarrow> \<forall>w \<in> set ds. elem_ok w \<Longrightarrow> abs_path cs = abs_path ds \<Longrightarrow> cs = ds"
  by (metis elems_abs_path)

lemma abs_path_eq_root: "\<forall>w \<in> set cs. elem_ok w \<Longrightarrow> abs_path cs = [slash] \<longleftrightarrow> cs = []"
  using abs_path_inj [of cs "[]"] by auto

lemma elems_inj: "clean_abs p \<Longrightarrow> clean_abs q \<Longrightarrow> elems p = elems q \<Longrightarrow> p = q"
  by (metis Clean_rooted clean_abs_def)

lemma abs_path_elems: "clean_abs p \<Longrightarrow> abs_path (elems p) = p"
  by (metis Clean_rooted clean_abs_def)

lemma Clean_idem_rooted: "rooted p \<Longrightarrow> Clean (Clean p) = Clean p"
  using clean_abs_Clean clean_abs_def by blast

subsection \<open>Dir, Join and Rel on clean rooted paths\<close>

lemma upto_last_slash_append:
  "slash \<notin> set w \<Longrightarrow> upto_last_slash (s @ slash # w) = s @ [slash]"
proof -
  assume "slash \<notin> set w"
  then have "dropWhile (\<lambda>c. c \<noteq> slash) (rev w @ slash # rev s) = slash # rev s"
    by (subst dropWhile_append2) auto
  then show ?thesis by (simp add: upto_last_slash_def)
qed

lemma abs_path_snoc:
  "abs_path (cs @ [c]) = (if cs = [] then slash # c else abs_path cs @ slash # c)"
  by (simp add: abs_path_def Join_append)

lemma Clean_trailing:
  assumes "\<forall>w \<in> set cs. elem_ok w"
  shows "Clean (abs_path cs @ [slash]) = abs_path cs"
proof (cases "cs = []")
  case True
  then have "elems (abs_path cs @ [slash]) = []" by (simp add: elems_def)
  with True show ?thesis by (simp add: Clean_rooted)
next
  case False
  have "abs_path cs @ [slash] = slash # Join slash (cs @ [[]])"
    using False by (simp add: abs_path_def Join_append)
  then have "Split slash (abs_path cs @ [slash]) = [] # cs @ [[]]"
    using assms by (simp add: Split_Join elem_ok_def)
  moreover have "clean_elems True [] (cs @ [[]]) = cs"
  proof -
    have "clean_elems True st (cs @ [[]]) = rev st @ cs" for st
      using assms by (induction cs arbitrary: st) (auto simp: elem_ok_def)
    then show ?thesis by simp
  qed
  ultimately have "elems (abs_path cs @ [slash]) = cs" by (simp add: elems_def)
  then show ?thesis by (simp add: Clean_rooted abs_path_def)
qed

lemma Dir_abs_path_snoc:
  assumes "\<forall>w \<in> set (cs @ [c]). elem_ok w"
  shows "Dir (abs_path (cs @ [c])) = abs_path cs"
proof (cases "cs = []")
  case True
  have "upto_last_slash ([] @ slash # c) = [] @ [slash]"
    using assms by (intro upto_last_slash_append) (auto simp: elem_ok_def)
  moreover have "abs_path [c] = slash # c" by (simp add: abs_path_def)
  ultimately show ?thesis using True by (simp add: Dir_def)
next
  case False
  have "upto_last_slash (abs_path cs @ slash # c) = abs_path cs @ [slash]"
    using assms by (intro upto_last_slash_append) (auto simp: elem_ok_def)
  with False assms show ?thesis by (simp add: abs_path_snoc Dir_def Clean_trailing)
qed

lemma Dir_root [simp]: "Dir [slash] = [slash]"
  by (simp add: Dir_def upto_last_slash_def)

lemma Dir_clean_abs: "clean_abs p \<Longrightarrow> Dir p = abs_path (butlast (elems p))"
proof (elim clean_absE)
  fix cs assume cs: "\<forall>w \<in> set cs. elem_ok w" "p = abs_path cs" "elems p = cs"
  show "Dir p = abs_path (butlast (elems p))"
  proof (cases cs rule: rev_cases)
    case Nil
    with cs show ?thesis using Dir_root by (simp add: abs_path_def)
  next
    case (snoc ds d)
    with cs show ?thesis by (simp add: Dir_abs_path_snoc)
  qed
qed

lemma clean_abs_Dir: "clean_abs p \<Longrightarrow> clean_abs (Dir p)"
  by (simp add: Dir_clean_abs) (meson clean_abs_abs_path elems_ok in_set_butlastD)

lemma Join2_abs_path:
  assumes "\<forall>w \<in> set cs. elem_ok w" and "elem_ok c"
  shows "Join2 (abs_path cs) c = abs_path (cs @ [c])"
proof -
  have "Split slash (abs_path cs @ slash # c) = [] # (if cs = [] then [[]] else cs) @ [c]"
  proof (cases "cs = []")
    case True
    with assms(2) show ?thesis by (simp add: abs_path_def Split_no_sep elem_ok_def)
  next
    case False
    have "abs_path cs @ slash # c = slash # Join slash (cs @ [c])"
      using False by (simp add: abs_path_def Join_append)
    with assms False show ?thesis by (simp add: Split_Join elem_ok_def)
  qed
  then have "elems (abs_path cs @ slash # c) = cs @ [c]"
    using assms clean_elems_ok_id [of "cs @ [c]" True "[]"] by (auto simp: elems_def)
  moreover have "rooted (abs_path cs @ slash # c)" by (simp add: abs_path_def)
  ultimately show ?thesis by (simp add: Join2_def Clean_rooted)
qed

lemma elem_ok_no_slash: "elem_ok w \<Longrightarrow> slash \<notin> set w"
  by (simp add: elem_ok_def)

lemma Join_ok_Nil: "\<forall>w \<in> set cs. elem_ok w \<Longrightarrow> Join slash cs = [] \<longleftrightarrow> cs = []"
  by (cases cs) (simp_all add: Join_Cons elem_ok_def)

lemma cut_abs_path:
  assumes "\<forall>w \<in> set cs. elem_ok w"
  shows "cut (abs_path cs) = cs"
proof (cases "cs = []")
  case True
  then show ?thesis by (simp add: cut_def)
next
  case False
  have "\<forall>w \<in> set cs. slash \<notin> set w" using assms elem_ok_no_slash by blast
  with False have "Split slash (Join slash cs) = cs" by (rule Split_Join)
  with False assms show ?thesis by (simp add: cut_def abs_path_def Join_ok_Nil)
qed

lemma strip_common_append:
  "strip_common bs ts = (bs', ts') \<Longrightarrow> \<exists>p. bs = p @ bs' \<and> ts = p @ ts'"
  by (induction bs ts rule: strip_common.induct) (auto split: if_splits intro: exI [of _ "[]"])

lemma Rel_abs_path:
  assumes "\<forall>w \<in> set bs. elem_ok w" and "\<forall>w \<in> set ts. elem_ok w"
  shows "Rel (abs_path bs) (abs_path ts) =
     (if bs = ts then Inr dot
      else case strip_common bs ts of (bs', ts') \<Rightarrow>
        Inr (Join slash (replicate (length bs') dotdot @ ts')))"
proof (cases "bs = ts")
  case True
  with assms show ?thesis by (simp add: Rel_def)
next
  case False
  obtain bs' ts' where st: "strip_common bs ts = (bs', ts')" by fastforce
  then obtain p where "bs = p @ bs'" using strip_common_append by blast
  with assms(1) have "bs' \<noteq> [] \<Longrightarrow> hd bs' \<noteq> dotdot"
    by (cases bs') (auto simp: elem_ok_def)
  moreover have "abs_path ts \<noteq> abs_path bs" using False abs_path_inj [OF assms] by metis
  moreover have "abs_path bs \<noteq> dot" by (simp add: abs_path_def dot_def slash_def)
  ultimately show ?thesis using False assms st
    by (auto simp: Rel_def Let_def cut_abs_path)
qed

text \<open>\<open>Rel\<close> under a base that is a prefix: the remaining elements.\<close>

lemma strip_common_prefix [simp]: "strip_common bs (bs @ ts) = ([], ts)"
  by (induction bs) (cases ts; simp)+

lemma Rel_below:
  assumes "\<forall>w \<in> set (bs @ ts). elem_ok w" and "ts \<noteq> []"
  shows "Rel (abs_path bs) (abs_path (bs @ ts)) = Inr (Join slash ts)"
  using assms by (simp add: Rel_abs_path)

subsection \<open>Rootedness and the characters of a cleaned path\<close>

lemma clean_elems_sub: "set (clean_elems r st ws) \<subseteq> set st \<union> {w \<in> set ws. w \<noteq> []} \<union> {dotdot}"
proof (induction ws arbitrary: st)
  case Nil
  then show ?case by auto
next
  case (Cons w ws)
  consider "w = [] \<or> w = dot" | "w = dotdot" "st = []" | v st' where "w = dotdot" "st = v # st'"
    | "w \<noteq> []" "w \<noteq> dot" "w \<noteq> dotdot"
    by (cases st) blast+
  then show ?case
  proof cases
    case 1
    then show ?thesis using Cons.IH [of st] by auto
  next
    case 2
    then show ?thesis
      using Cons.IH [of "[]"] Cons.IH [of "[dotdot]"] by (auto simp: dot_def dotdot_def)
  next
    case 3
    then show ?thesis using Cons.IH [of st'] Cons.IH [of "dotdot # st"] by (auto simp: dot_def dotdot_def)
  next
    case 4
    then show ?thesis using Cons.IH [of "w # st"] by auto
  qed
qed

lemma rooted_Clean [simp]: "rooted (Clean s) = rooted s"
proof (cases "rooted s")
  case True
  then show ?thesis by (simp add: Clean_rooted)
next
  case False
  let ?cs = "clean_elems False [] (Split slash s)"
  show ?thesis
  proof (cases "s = [] \<or> ?cs = []")
    case True
    then show ?thesis using False by (auto simp: Clean_def Let_def dot_def slash_def)
  next
    case f: False
    then obtain w ws where cs: "?cs = w # ws" by (cases ?cs) auto
    then have "w = dotdot \<or> w \<in> set (Split slash s) \<and> w \<noteq> []"
      using clean_elems_sub [of False "[]" "Split slash s"] by auto
    then have "w \<noteq> [] \<and> slash \<notin> set w"
      using Split_elem by (auto simp: dotdot_def slash_def)
    then have "\<not> rooted (Join slash ?cs)" unfolding cs by (cases w) (auto simp: Join_Cons)
    then show ?thesis using False f by (simp add: Clean_def Let_def cs)
  qed
qed

lemma set_Clean: "set (Clean s) \<subseteq> set s \<union> {slash, CHR ''.''}"
proof -
  let ?cs = "clean_elems (rooted s) [] (Split slash s)"
  have "(\<Union>w \<in> set ?cs. set w) \<subseteq> set s \<union> {CHR ''.''}"
  proof (intro UN_least)
    fix w assume "w \<in> set ?cs"
    then have "w = dotdot \<or> w \<in> set (Split slash s)"
      using clean_elems_sub [of "rooted s" "[]" "Split slash s"] by auto
    moreover have "set w \<subseteq> set s" if "w \<in> set (Split slash s)"
      using that set_Split by blast
    ultimately show "set w \<subseteq> set s \<union> {CHR ''.''}" by (auto simp: dotdot_def)
  qed
  then have "set (Join slash ?cs) \<subseteq> set s \<union> {slash, CHR ''.''}"
    using set_Join [of slash ?cs] by blast
  then show ?thesis by (auto simp: Clean_def Let_def dot_def)
qed

end
