(* ===== verification/Operations.thy ===== *)
theory Operations
  imports Go_Path
begin

text \<open>
  The mutation operations of \<^verbatim>\<open>operations.go\<close> and the spec export of \<^verbatim>\<open>mutate.go\<close>: the kinds,
  the record \<open>Operation\<close>, the options of the generator with their validation, and
  \<open>normalizeOperation\<close>, the gate every operation passes before it is planned, exported or
  applied. \<open>op_wf\<close> says what a normalized operation is. The JSON library is a pair of
  arguments of \<open>ExportOperationSpec\<close> and \<open>ParseOperationSpec\<close>.
\<close>

section \<open>Kinds\<close>

text \<open>\<^verbatim>\<open>OperationKind\<close> is a \<^verbatim>\<open>uint8\<close>; the last constructor stands for the values with no name.\<close>

datatype OperationKind =
    OperationKindCreateFile | OperationKindCreateDir | OperationKindCreateSymlink
  | OperationKindCreateHardlink | OperationKindDelete | OperationKindRename
  | OperationKindChmod | OperationKindChown | OperationKindTruncate | OperationKindAppend
  | OperationKindOverwriteRange | OperationKindSetXAttr | OperationKindRemoveXAttr
  | OperationKindUnknown "8 word"

definition OperationKind_String :: "OperationKind \<Rightarrow> string" where
  "OperationKind_String k =
     (case k of
        OperationKindCreateFile \<Rightarrow> ''create-file''
      | OperationKindCreateDir \<Rightarrow> ''create-dir''
      | OperationKindCreateSymlink \<Rightarrow> ''create-symlink''
      | OperationKindCreateHardlink \<Rightarrow> ''create-hardlink''
      | OperationKindDelete \<Rightarrow> ''delete''
      | OperationKindRename \<Rightarrow> ''rename''
      | OperationKindChmod \<Rightarrow> ''chmod''
      | OperationKindChown \<Rightarrow> ''chown''
      | OperationKindTruncate \<Rightarrow> ''truncate''
      | OperationKindAppend \<Rightarrow> ''append''
      | OperationKindOverwriteRange \<Rightarrow> ''overwrite-range''
      | OperationKindSetXAttr \<Rightarrow> ''set-xattr''
      | OperationKindRemoveXAttr \<Rightarrow> ''remove-xattr''
      | OperationKindUnknown n \<Rightarrow> ''unknown('' @ show_nat (unat n) @ '')'')"

definition validateOperationKind :: "OperationKind \<Rightarrow> err + unit" where
  "validateOperationKind k =
     (case k of OperationKindUnknown n \<Rightarrow> Err ''invalid operation kind'' | _ \<Rightarrow> Inr ())"

section \<open>Operations\<close>

record Operation =
  opKind :: OperationKind
  opPath :: string
  opDestination :: string
  opSourcePath :: string
  opLinkTarget :: string
  opMode :: "32 word"
  opUID :: int
  opGID :: int
  opSize :: int
  opOffset :: int
  opData :: "8 word list"
  opXAttrName :: string
  opXAttrValue :: "8 word list"

text \<open>The zero value of the struct, from which the composite literals of the code start.\<close>

definition Operation0 :: "OperationKind \<Rightarrow> string \<Rightarrow> Operation" where
  "Operation0 k p =
     \<lparr>opKind = k, opPath = p, opDestination = [], opSourcePath = [], opLinkTarget = [],
      opMode = 0, opUID = 0, opGID = 0, opSize = 0, opOffset = 0, opData = [],
      opXAttrName = [], opXAttrValue = []\<rparr>"

definition operationSpecVersion :: int where
  "operationSpecVersion = 1"

text \<open>\<^verbatim>\<open>0o7777\<close>\<close>

definition maxPOSIXFileMode :: "32 word" where
  "maxPOSIXFileMode = 0xFFF"

section \<open>Options of the operation stream\<close>

record OperationGenerationOptions =
  ogSeed :: int
  ogCount :: int
  ogMaxDataSize :: int
  ogAllowedKinds :: "OperationKind list"

definition defaultOperationKinds :: "OperationKind list" where
  "defaultOperationKinds =
     [OperationKindCreateFile, OperationKindCreateDir, OperationKindDelete, OperationKindRename,
      OperationKindChmod, OperationKindTruncate, OperationKindAppend, OperationKindOverwriteRange]"

definition DefaultOperationGenerationOptions :: OperationGenerationOptions where
  "DefaultOperationGenerationOptions =
     \<lparr>ogSeed = 1, ogCount = 16, ogMaxDataSize = 64, ogAllowedKinds = defaultOperationKinds\<rparr>"

fun validate_kinds :: "OperationKind list \<Rightarrow> OperationKind list \<Rightarrow> err + unit" where
  "validate_kinds [] seen = Inr ()"
| "validate_kinds (k # ks) seen =
     bindE (wrapE ''allowed kind at index'' (validateOperationKind k)) (\<lambda>_.
       if k \<in> set seen then Err ''allowed operation kinds contain duplicate''
       else validate_kinds ks (k # seen))"

definition validateGenerationOptions :: "OperationGenerationOptions \<Rightarrow> err + unit" where
  "validateGenerationOptions opts =
     (if ogCount opts \<le> 0 then Err ''operation count must be > 0''
      else if ogMaxDataSize opts \<le> 0 then Err ''max data size must be > 0''
      else if ogAllowedKinds opts = [] then Fail ErrAllowedOperationKindsEmpty
      else validate_kinds (ogAllowedKinds opts) [])"

section \<open>Normalization\<close>

definition xattrNamespace :: "string \<Rightarrow> string" where
  "xattrNamespace name =
     (let ns = takeWhile (\<lambda>c. c \<noteq> CHR ''.'') name in if length ns = length name then [] else ns)"

definition validateXAttrName :: "string \<Rightarrow> err + string" where
  "validateXAttrName name =
     (if name = [] then Fail ErrXAttrNameEmpty
      else if Contains name NUL then Fail ErrXAttrNameContainsNUL
      else let namespace = xattrNamespace name in
        if namespace = [] then Fail ErrXAttrNameMissingNamespace
        else if length name \<le> length namespace + 1 then Fail ErrXAttrNameMissingNamespace
        else Inr name)"

definition normalizeOperationPath :: "string \<Rightarrow> bool \<Rightarrow> err + string" where
  "normalizeOperationPath raw allowRoot =
     (if TrimSpace raw = [] then Fail ErrOperationPathEmpty
      else if Contains raw NUL then Fail ErrOperationPathContainsNUL
      else let cleaned = Clean raw in
        if \<not> HasPrefix cleaned ''/'' then Err ''path must be rooted (start with '/')''
        else if \<not> allowRoot \<and> cleaned = ''/'' then Fail ErrOperationPathIsRoot
        else Inr cleaned)"

definition validateMode :: "32 word \<Rightarrow> err + unit" where
  "validateMode mode = (if mode > maxPOSIXFileMode then Err ''mode must be <= 07777'' else Inr ())"

text \<open>Byte slices are values here, so the copy of \<^verbatim>\<open>cloneBytes\<close> is the slice itself.\<close>

definition cloneBytes :: "8 word list \<Rightarrow> 8 word list" where
  "cloneBytes data = (if length data = 0 then [] else take (length data) data)"

definition normalizeOperation :: "Operation \<Rightarrow> err + Operation" where
  "normalizeOperation op =
     bindE (validateOperationKind (opKind op)) (\<lambda>_.
       let next = op\<lparr>opData := cloneBytes (opData op), opXAttrValue := cloneBytes (opXAttrValue op)\<rparr> in
       case opKind next of
         OperationKindCreateFile \<Rightarrow>
           bindE (wrapE ''create-file path'' (normalizeOperationPath (opPath next) False)) (\<lambda>path.
           bindE (wrapE ''create-file mode'' (validateMode (opMode next))) (\<lambda>_.
           Inr (next\<lparr>opPath := path\<rparr>)))
       | OperationKindCreateDir \<Rightarrow>
           bindE (wrapE ''create-dir path'' (normalizeOperationPath (opPath next) False)) (\<lambda>path.
           bindE (wrapE ''create-dir mode'' (validateMode (opMode next))) (\<lambda>_.
           Inr (next\<lparr>opPath := path\<rparr>)))
       | OperationKindCreateSymlink \<Rightarrow>
           bindE (wrapE ''create-symlink path'' (normalizeOperationPath (opPath next) False)) (\<lambda>path.
           if opLinkTarget next = [] then Fail ErrCreateSymlinkLinkTargetEmpty
           else if Contains (opLinkTarget next) NUL then Fail ErrCreateSymlinkLinkTargetContainsNUL
           else Inr (next\<lparr>opPath := path\<rparr>))
       | OperationKindCreateHardlink \<Rightarrow>
           bindE (wrapE ''create-hardlink path'' (normalizeOperationPath (opPath next) False)) (\<lambda>path.
           bindE (wrapE ''create-hardlink source path''
                    (normalizeOperationPath (opSourcePath next) False)) (\<lambda>source.
           if path = source then Fail ErrCreateHardlinkSameSourceAndTarget
           else Inr (next\<lparr>opPath := path, opSourcePath := source\<rparr>)))
       | OperationKindDelete \<Rightarrow>
           bindE (wrapE ''delete path'' (normalizeOperationPath (opPath next) False)) (\<lambda>path.
           Inr (next\<lparr>opPath := path\<rparr>))
       | OperationKindRename \<Rightarrow>
           bindE (wrapE ''rename source path'' (normalizeOperationPath (opPath next) False)) (\<lambda>source.
           bindE (wrapE ''rename destination path''
                    (normalizeOperationPath (opDestination next) False)) (\<lambda>destination.
           if source = destination then Fail ErrRenameSameSourceAndDestination
           else Inr (next\<lparr>opPath := source, opDestination := destination\<rparr>)))
       | OperationKindChmod \<Rightarrow>
           bindE (wrapE ''chmod path'' (normalizeOperationPath (opPath next) True)) (\<lambda>path.
           bindE (wrapE ''chmod mode'' (validateMode (opMode next))) (\<lambda>_.
           Inr (next\<lparr>opPath := path\<rparr>)))
       | OperationKindChown \<Rightarrow>
           bindE (wrapE ''chown path'' (normalizeOperationPath (opPath next) True)) (\<lambda>path.
           if opUID next < 0 then Err ''chown uid must be >= 0''
           else if opGID next < 0 then Err ''chown gid must be >= 0''
           else Inr (next\<lparr>opPath := path\<rparr>))
       | OperationKindTruncate \<Rightarrow>
           bindE (wrapE ''truncate path'' (normalizeOperationPath (opPath next) False)) (\<lambda>path.
           if opSize next < 0 then Err ''truncate size must be >= 0''
           else Inr (next\<lparr>opPath := path\<rparr>))
       | OperationKindAppend \<Rightarrow>
           bindE (wrapE ''append path'' (normalizeOperationPath (opPath next) False)) (\<lambda>path.
           if length (opData next) = 0 then Fail ErrAppendDataEmpty
           else Inr (next\<lparr>opPath := path\<rparr>))
       | OperationKindOverwriteRange \<Rightarrow>
           bindE (wrapE ''overwrite-range path'' (normalizeOperationPath (opPath next) False)) (\<lambda>path.
           if opOffset next < 0 then Err ''overwrite-range offset must be >= 0''
           else if length (opData next) = 0 then Fail ErrOverwriteRangeDataEmpty
           else Inr (next\<lparr>opPath := path\<rparr>))
       | OperationKindSetXAttr \<Rightarrow>
           bindE (wrapE ''set-xattr path'' (normalizeOperationPath (opPath next) True)) (\<lambda>path.
           bindE (wrapE ''set-xattr name'' (validateXAttrName (opXAttrName next))) (\<lambda>name.
           Inr (next\<lparr>opPath := path, opXAttrName := name\<rparr>)))
       | OperationKindRemoveXAttr \<Rightarrow>
           bindE (wrapE ''remove-xattr path'' (normalizeOperationPath (opPath next) True)) (\<lambda>path.
           bindE (wrapE ''remove-xattr name'' (validateXAttrName (opXAttrName next))) (\<lambda>name.
           Inr (next\<lparr>opPath := path, opXAttrName := name\<rparr>)))
       | OperationKindUnknown n \<Rightarrow> Inr next)"

section \<open>The replay spec\<close>

type_synonym operationSpec = "int \<times> Operation list"

definition ExportOperationSpec ::
  "(operationSpec \<Rightarrow> err + string) \<Rightarrow> Operation list \<Rightarrow> err + string" where
  "ExportOperationSpec marshal ops =
     bindE (mapE_from 0 (\<lambda>i op. wrapE ''invalid operation at index'' (normalizeOperation op)) ops) (\<lambda>normalized.
     wrapE ''failed to serialize operation spec'' (marshal (operationSpecVersion, normalized)))"

definition ParseOperationSpec ::
  "(string \<Rightarrow> err + operationSpec) \<Rightarrow> string \<Rightarrow> err + Operation list" where
  "ParseOperationSpec unmarshal spec =
     (if TrimSpace spec = [] then Fail ErrOperationSpecEmpty
      else bindE (wrapE ''failed to parse operation spec'' (unmarshal spec)) (\<lambda>(version, operations).
        if version \<noteq> operationSpecVersion then Err ''operation spec version mismatch''
        else mapE_from 0 (\<lambda>i op. wrapE ''invalid operation at index'' (normalizeOperation op)) operations))"

section \<open>What a normalized operation is\<close>

text \<open>A clean rooted path without NUL bytes, different from the root unless it may be the root.\<close>

definition path_wf :: "string \<Rightarrow> bool \<Rightarrow> bool" where
  "path_wf p allowRoot \<longleftrightarrow> clean_abs p \<and> \<not> Contains p NUL \<and> (allowRoot \<or> p \<noteq> ''/'')"

definition xattr_name_wf :: "string \<Rightarrow> bool" where
  "xattr_name_wf name \<longleftrightarrow> \<not> Contains name NUL \<and>
     xattrNamespace name \<noteq> [] \<and> length (xattrNamespace name) + 1 < length name"

definition op_wf :: "Operation \<Rightarrow> bool" where
  "op_wf op \<longleftrightarrow>
     (case opKind op of
        OperationKindCreateFile \<Rightarrow> path_wf (opPath op) False \<and> opMode op \<le> maxPOSIXFileMode
      | OperationKindCreateDir \<Rightarrow> path_wf (opPath op) False \<and> opMode op \<le> maxPOSIXFileMode
      | OperationKindCreateSymlink \<Rightarrow>
          path_wf (opPath op) False \<and> opLinkTarget op \<noteq> [] \<and> \<not> Contains (opLinkTarget op) NUL
      | OperationKindCreateHardlink \<Rightarrow>
          path_wf (opPath op) False \<and> path_wf (opSourcePath op) False \<and> opPath op \<noteq> opSourcePath op
      | OperationKindDelete \<Rightarrow> path_wf (opPath op) False
      | OperationKindRename \<Rightarrow>
          path_wf (opPath op) False \<and> path_wf (opDestination op) False \<and> opPath op \<noteq> opDestination op
      | OperationKindChmod \<Rightarrow> path_wf (opPath op) True \<and> opMode op \<le> maxPOSIXFileMode
      | OperationKindChown \<Rightarrow> path_wf (opPath op) True \<and> 0 \<le> opUID op \<and> 0 \<le> opGID op
      | OperationKindTruncate \<Rightarrow> path_wf (opPath op) False \<and> 0 \<le> opSize op
      | OperationKindAppend \<Rightarrow> path_wf (opPath op) False \<and> opData op \<noteq> []
      | OperationKindOverwriteRange \<Rightarrow>
          path_wf (opPath op) False \<and> 0 \<le> opOffset op \<and> opData op \<noteq> []
      | OperationKindSetXAttr \<Rightarrow> path_wf (opPath op) True \<and> xattr_name_wf (opXAttrName op)
      | OperationKindRemoveXAttr \<Rightarrow> path_wf (opPath op) True \<and> xattr_name_wf (opXAttrName op)
      | OperationKindUnknown n \<Rightarrow> False)"

lemma cloneBytes_id [simp]: "cloneBytes d = d"
  by (simp add: cloneBytes_def)

lemma HasPrefix_slash: "HasPrefix s ''/'' = rooted s"
  by (simp add: rooted_def slash_def)

lemma slash_string: "''/'' = [slash]"
  by (simp add: slash_def)

lemma TrimSpace_rooted: "rooted s \<Longrightarrow> TrimSpace s \<noteq> []"
proof -
  assume "rooted s"
  then have "slash \<in> set s" by (cases s) auto
  moreover have "\<forall>w \<in> set space_seqs. slash \<notin> set w" by (simp add: space_seqs_def slash_def)
  ultimately show ?thesis using TrimSpace_keeps by fastforce
qed

lemma normalizeOperationPath_wf:
  assumes "normalizeOperationPath raw r = Inr p"
  shows "path_wf p r"
proof -
  have p: "p = Clean raw" "rooted p" "\<not> Contains raw NUL" "r \<or> p \<noteq> ''/''"
    using assms by (auto simp: normalizeOperationPath_def Let_def HasPrefix_slash split: if_splits)
  then have "clean_abs p" using clean_abs_Clean by simp
  moreover have "\<not> Contains p NUL"
    using p(1,3) set_Clean [of raw] by (auto simp: Contains_def NUL_def slash_def)
  ultimately show ?thesis using p(4) by (simp add: path_wf_def)
qed

lemma normalizeOperationPath_id:
  assumes "path_wf p r"
  shows "normalizeOperationPath p r = Inr p"
proof -
  have "rooted p" "Clean p = p" using assms by (auto simp: path_wf_def clean_abs_def)
  then show ?thesis
    using assms TrimSpace_rooted [of p]
    by (auto simp: normalizeOperationPath_def path_wf_def HasPrefix_slash)
qed

lemma validateXAttrName_Inr: "validateXAttrName n = Inr m \<longleftrightarrow> m = n \<and> xattr_name_wf n"
  by (auto simp: validateXAttrName_def xattr_name_wf_def Let_def xattrNamespace_def)

lemma validateMode_Inr: "validateMode m = Inr u \<longleftrightarrow> m \<le> maxPOSIXFileMode"
  by (auto simp: validateMode_def not_less)

lemmas normalize_simps = normalizeOperation_def Let_def validateOperationKind_def op_wf_def
  validateMode_Inr validateXAttrName_Inr

lemma normalizeOperation_wf:
  assumes "normalizeOperation op = Inr op'"
  shows "op_wf op' \<and> opKind op' = opKind op"
  using assms
  by (cases "opKind op")
    (auto simp: normalize_simps dest: normalizeOperationPath_wf split: if_splits)

lemma normalizeOperation_id: "op_wf op \<Longrightarrow> normalizeOperation op = Inr op"
  by (cases "opKind op") (auto simp: normalize_simps normalizeOperationPath_id)

lemma op_wf_fixed: "op_wf op \<longleftrightarrow> normalizeOperation op = Inr op"
  using normalizeOperation_wf normalizeOperation_id by blast

section \<open>Properties\<close>

text \<open>
  C12: \<open>normalizeOperation\<close> accepts an operation exactly into the well-formed ones: what it
  returns is well formed (its paths are clean, rooted, free of NUL and not the root where the
  kind forbids it; mode, ids, size, offset, data, link target and attribute name are in the
  range of the kind), normalizing again changes nothing, the kind stays, and the well-formed
  operations are exactly those it returns unchanged.
\<close>

theorem normalizeOperation_spec:
  "case normalizeOperation op of
     Inl e \<Rightarrow> \<not> op_wf op
   | Inr op' \<Rightarrow> op_wf op' \<and> normalizeOperation op' = Inr op' \<and> opKind op' = opKind op \<and>
       op_wf op = (op' = op)"
proof (cases "normalizeOperation op")
  case (Inl e)
  then show ?thesis using op_wf_fixed by auto
next
  case (Inr op')
  then show ?thesis using normalizeOperation_wf [OF Inr] op_wf_fixed by auto
qed

lemma validate_kinds_iff:
  "validate_kinds ks seen = Inr () \<longleftrightarrow>
     (\<forall>k \<in> set ks. validateOperationKind k = Inr ()) \<and> distinct ks \<and> set ks \<inter> set seen = {}"
  by (induction ks seen rule: validate_kinds.induct) auto

lemma validateGenerationOptions_iff:
  "validateGenerationOptions opts = Inr () \<longleftrightarrow>
     0 < ogCount opts \<and> 0 < ogMaxDataSize opts \<and> ogAllowedKinds opts \<noteq> [] \<and>
     (\<forall>k \<in> set (ogAllowedKinds opts). validateOperationKind k = Inr ()) \<and> distinct (ogAllowedKinds opts)"
  by (auto simp: validateGenerationOptions_def validate_kinds_iff)

lemma mapE_normalize:
  "mapE_from i (\<lambda>i op. wrapE m (normalizeOperation op)) ops = Inr ns \<Longrightarrow> list_all op_wf ns"
proof -
  assume a: "mapE_from i (\<lambda>i op. wrapE m (normalizeOperation op)) ops = Inr ns"
  have "op_wf n" if "n \<in> set ns" for n
    using mapE_from_setD [OF a that] normalizeOperation_wf by auto
  then show ?thesis by (simp add: list_all_iff)
qed

lemma mapE_normalize_id:
  "list_all op_wf ns \<Longrightarrow> mapE_from i (\<lambda>i op. wrapE m (normalizeOperation op)) ns = Inr ns"
  by (rule mapE_from_id) (simp add: list_all_iff normalizeOperation_id)

text \<open>
  An operation whose strings are valid UTF-8. The JSON library replaces what is not; byte slices
  are written in base64, so any bytes survive there.
\<close>

definition op_utf8 :: "Operation \<Rightarrow> bool" where
  "op_utf8 op \<longleftrightarrow> ValidString (opPath op) \<and> ValidString (opDestination op) \<and> ValidString (opSourcePath op) \<and>
     ValidString (opLinkTarget op) \<and> ValidString (opXAttrName op)"

text \<open>
  C15: replay specs of valid UTF-8 are faithful. Let the strings of the normalized operations be
  valid UTF-8 (the JSON library replaces other bytes, so an operation with an invalid name does
  not survive), let the library read back every document of such operations that it wrote, and
  let what it writes not be blank. Then parsing an exported operation list gives the list of the
  normalized operations, one per operation and in the same order, and exporting those again
  writes the same document.
\<close>

theorem operation_spec_roundtrip:
  assumes "ExportOperationSpec marshal ops = Inr s"
    and utf8: "\<And>op n. op \<in> set ops \<Longrightarrow> normalizeOperation op = Inr n \<Longrightarrow> op_utf8 n"
    and json_reads_back: "\<And>version ns s. list_all op_utf8 ns \<Longrightarrow> marshal (version, ns) = Inr s \<Longrightarrow>
      unmarshal s = Inr (version, ns)"
    and not_blank: "\<And>version ns s. marshal (version, ns) = Inr s \<Longrightarrow> TrimSpace s \<noteq> []"
  shows "\<exists>ns. list_all2 (\<lambda>op n. normalizeOperation op = Inr n) ops ns \<and>
    ParseOperationSpec unmarshal s = Inr ns \<and> ExportOperationSpec marshal ns = Inr s"
proof -
  obtain ns where ns: "mapE_from 0 (\<lambda>i op. wrapE ''invalid operation at index'' (normalizeOperation op)) ops = Inr ns"
      "marshal (operationSpecVersion, ns) = Inr s"
    using assms(1) by (auto simp: ExportOperationSpec_def)
  have wf: "list_all op_wf ns" by (rule mapE_normalize [OF ns(1)])
  have all: "list_all2 (\<lambda>op n. normalizeOperation op = Inr n) ops ns"
    using ns(1) by (auto simp: mapE_from_eq_Inr list_all2_conv_all_nth)
  then have "list_all op_utf8 ns"
    using utf8 by (force simp: list_all2_conv_all_nth list_all_length)
  then have "ParseOperationSpec unmarshal s = Inr ns"
    using not_blank [OF ns(2)] json_reads_back [OF _ ns(2)] mapE_normalize_id [OF wf]
    by (simp add: ParseOperationSpec_def)
  moreover have "ExportOperationSpec marshal ns = Inr s"
    using ns(2) mapE_normalize_id [OF wf] by (simp add: ExportOperationSpec_def)
  ultimately show ?thesis using all by blast
qed

definition sample_ops :: "Operation list" where
  "sample_ops = [Operation0 OperationKindCreateDir ''/a'']"

lemma sample_ops_wf: "list_all op_wf sample_ops"
proof -
  have "clean_abs (abs_path [''a''])" by (rule clean_abs_abs_path) (simp add: elem_ok_def dot_def dotdot_def slash_def)
  then have "clean_abs ''/a''" by (simp add: abs_path_def slash_def)
  then show ?thesis
    by (simp add: sample_ops_def Operation0_def op_wf_def path_wf_def Contains_def NUL_def)
qed

lemma sample_ops_normal: "op \<in> set sample_ops \<Longrightarrow> normalizeOperation op = Inr n \<Longrightarrow> n = op"
  using sample_ops_wf normalizeOperation_id by (auto simp: list_all_iff)

text \<open>
  A codec for two documents, which it tells apart: the empty one and the one of the sample. Any
  other document it refuses, as a library may.
\<close>

definition sample_marshal :: "operationSpec \<Rightarrow> err + string" where
  "sample_marshal spec =
     (if spec = (1, sample_ops) then Inr ''[1]'' else if spec = (1, []) then Inr ''[0]'' else Err ''unsupported'')"

definition sample_unmarshal :: "string \<Rightarrow> err + operationSpec" where
  "sample_unmarshal s =
     (if s = ''[1]'' then Inr (1, sample_ops) else if s = ''[0]'' then Inr (1, []) else Err ''unsupported'')"

theorem operation_spec_roundtrip_witness:
  "ParseOperationSpec sample_unmarshal ''[1]'' = Inr sample_ops \<and> ParseOperationSpec sample_unmarshal ''[0]'' = Inr []"
proof -
  have ne: "sample_ops \<noteq> []" by (simp add: sample_ops_def)
  have e: "ExportOperationSpec sample_marshal sample_ops = Inr ''[1]''" "ExportOperationSpec sample_marshal [] = Inr ''[0]''"
    using mapE_normalize_id [OF sample_ops_wf] mapE_normalize_id [of "[]"] ne
    by (simp_all add: ExportOperationSpec_def operationSpecVersion_def sample_marshal_def)
  have t: "TrimSpace s \<noteq> []" if "sample_marshal (v, ns) = Inr s" for v ns s
  proof -
    have "s = ''[1]'' \<or> s = ''[0]''" using that by (auto simp: sample_marshal_def split: if_splits)
    moreover have "TrimSpace ''[1]'' = ''[1]''" "TrimSpace ''[0]'' = ''[0]''"
      by (subst TrimSpace_id; simp add: space_first_def space_last_def)+
    ultimately show ?thesis by auto
  qed
  have b: "sample_unmarshal s = Inr (v, ns)" if "sample_marshal (v, ns) = Inr s" for v ns s
    using that ne by (auto simp: sample_marshal_def sample_unmarshal_def split: if_splits)
  have u: "op_utf8 n" if "op \<in> set sample_ops" "normalizeOperation op = Inr n" for op n
    using sample_ops_normal [OF that] that(1) by (auto simp: sample_ops_def Operation0_def op_utf8_def runes_ascii)
  have "\<exists>ns. list_all2 (\<lambda>op n. normalizeOperation op = Inr n) sample_ops ns \<and>
      ParseOperationSpec sample_unmarshal ''[1]'' = Inr ns \<and> ExportOperationSpec sample_marshal ns = Inr ''[1]''"
    by (rule operation_spec_roundtrip [OF e(1)]) (fact u, rule b, assumption, rule t, assumption)
  then obtain ns where ns: "list_all2 (\<lambda>op n. normalizeOperation op = Inr n) sample_ops ns"
    "ParseOperationSpec sample_unmarshal ''[1]'' = Inr ns" by blast
  moreover have "ns = sample_ops"
    using ns(1) sample_ops_normal by (auto simp: sample_ops_def list_all2_Cons1)
  moreover have "\<exists>ns. list_all2 (\<lambda>op n. normalizeOperation op = Inr n) [] ns \<and>
      ParseOperationSpec sample_unmarshal ''[0]'' = Inr ns \<and> ExportOperationSpec sample_marshal ns = Inr ''[0]''"
    by (rule operation_spec_roundtrip [OF e(2)]) (simp, rule b, assumption, rule t, assumption)
  ultimately show ?thesis by auto
qed

end
