(* ===== verification/Go_Map.thy ===== *)
theory Go_Map
  imports Go_Base
begin

text \<open>
  Go maps as lists of bindings with distinct keys, read with \<^const>\<open>map_of\<close>. An assignment
  replaces the binding of its key where it stands or adds one at the end; \<^verbatim>\<open>delete\<close> drops it.
  The order of the list stands for the unspecified iteration order of Go: code that is
  modelled on such a list either sorts the keys or does not depend on their order.
\<close>

type_synonym 'v gomap = "(string \<times> 'v) list"

fun put :: "string \<Rightarrow> 'v \<Rightarrow> 'v gomap \<Rightarrow> 'v gomap" where
  "put k v [] = [(k, v)]"
| "put k v ((k', v') # m) = (if k' = k then (k, v) # m else (k', v') # put k v m)"

definition del :: "string \<Rightarrow> 'v gomap \<Rightarrow> 'v gomap" where
  "del k m = filter (\<lambda>b. fst b \<noteq> k) m"

definition keys :: "'v gomap \<Rightarrow> string list" where
  "keys m = map fst m"

definition has :: "'v gomap \<Rightarrow> string \<Rightarrow> bool" where
  "has m k \<longleftrightarrow> map_of m k \<noteq> None"

text \<open>\<^verbatim>\<open>sort.Strings\<close>: byte-wise lexicographic order.\<close>

definition sort_strings :: "string list \<Rightarrow> string list" where
  "sort_strings xs = sort xs"

lemma map_of_put [simp]: "map_of (put k v m) = (map_of m)(k \<mapsto> v)"
  by (induction k v m rule: put.induct) (auto simp: fun_upd_twist)

lemma set_keys_put [simp]: "set (keys (put k v m)) = insert k (set (keys m))"
  by (induction k v m rule: put.induct) (auto simp: keys_def)

lemma distinct_put [simp]: "distinct (keys (put k v m)) = distinct (keys m)"
proof (induction k v m rule: put.induct)
  case (2 k v k' v' m)
  have "k' \<noteq> k \<Longrightarrow> k' \<in> set (keys (put k v m)) \<longleftrightarrow> k' \<in> set (keys m)" by simp
  with 2 show ?case by (auto simp: keys_def)
qed (simp add: keys_def)

lemma map_of_del [simp]: "map_of (del k m) = (map_of m)(k := None)"
  by (induction m) (auto simp: del_def)

lemma map_of_filter_key: "map_of (filter (\<lambda>b. P (fst b)) m) k = (if P k then map_of m k else None)"
  by (induction m) auto

lemma keys_del [simp]: "keys (del k m) = filter (\<lambda>x. x \<noteq> k) (keys m)"
  by (simp add: keys_def del_def filter_map comp_def)

lemma keys_filter: "keys (filter (\<lambda>b. P (fst b)) m) = filter P (keys m)"
  by (simp add: keys_def filter_map comp_def)

lemma has_iff: "has m k \<longleftrightarrow> k \<in> set (keys m)"
  by (simp add: has_def keys_def map_of_eq_None_iff)

lemma map_of_keys: "map_of m k = Some v \<Longrightarrow> k \<in> set (keys m)"
  unfolding keys_def by (metis map_of_eq_None_iff option.distinct(1) set_map)

lemma has_put [simp]: "has (put k v m) x = (x = k \<or> has m x)"
  by (simp add: has_def)

lemma has_del [simp]: "has (del k m) x = (x \<noteq> k \<and> has m x)"
  by (simp add: has_def)

lemma set_sort_strings [simp]: "set (sort_strings xs) = set xs"
  by (simp add: sort_strings_def)

lemma distinct_sort_strings [simp]: "distinct (sort_strings xs) = distinct xs"
  by (simp add: sort_strings_def)

lemma sorted_sort_strings [simp]: "sorted (sort_strings xs)"
  by (simp add: sort_strings_def)

lemma length_sort_strings [simp]: "length (sort_strings xs) = length xs"
  by (simp add: sort_strings_def)

text \<open>The sorted keys do not depend on the order of the bindings.\<close>

lemma sort_strings_cong: "mset xs = mset ys \<Longrightarrow> sort_strings xs = sort_strings ys"
  by (simp add: sort_strings_def properties_for_sort)

end
