(* ===== verification/Mutation_State.thy ===== *)
theory Mutation_State
  imports Operations Go_Map
begin

text \<open>
  The virtual file tree of \<^verbatim>\<open>mutate.go\<close> (\<open>mutationState\<close>): its nodes, the lazily rebuilt path
  indexes, and \<open>applyVirtualOperation\<close>, which replays an operation on it. \<open>tree_ok\<close> is the
  invariant of the tree, \<open>cache_ok\<close> the one of the indexes; both are kept by every operation.
\<close>

section \<open>State\<close>

datatype mutationNodeType = mutationNodeTypeFile | mutationNodeTypeDir | mutationNodeTypeSymlink

text \<open>A nil attribute set is \<^const>\<open>None\<close>; a set is the list of its members.\<close>

record mutationNode =
  typeID :: mutationNodeType
  nsize :: int
  xattrs :: "string list option"

record mutationState =
  nodes :: "mutationNode gomap"
  nameSeq :: nat
  indexAll :: "string list"
  indexFiles :: "string list"
  indexDirs :: "string list"
  indexXAttrs :: "string list"
  indexesValid :: bool

definition xattr_set :: "mutationNode \<Rightarrow> string list" where
  "xattr_set n = (case xattrs n of None \<Rightarrow> [] | Some xs \<Rightarrow> xs)"

definition invalidatePathIndexes :: "mutationState \<Rightarrow> mutationState" where
  "invalidatePathIndexes st =
     st\<lparr>indexesValid := False, indexAll := [], indexFiles := [], indexDirs := [], indexXAttrs := []\<rparr>"

definition paths_where :: "(mutationNode \<Rightarrow> bool) \<Rightarrow> mutationNode gomap \<Rightarrow> string list" where
  "paths_where P ns = sort_strings (map fst (filter (\<lambda>b. P (snd b)) ns))"

definition rebuildPathIndexes :: "mutationState \<Rightarrow> mutationState" where
  "rebuildPathIndexes st =
     (if indexesValid st then st
      else st\<lparr>indexAll := paths_where (\<lambda>n. True) (nodes st),
              indexFiles := paths_where (\<lambda>n. typeID n = mutationNodeTypeFile) (nodes st),
              indexDirs := paths_where (\<lambda>n. typeID n = mutationNodeTypeDir) (nodes st),
              indexXAttrs := paths_where (\<lambda>n. length (xattr_set n) > 0) (nodes st),
              indexesValid := True\<rparr>)"

text \<open>The accessors rebuild the indexes first; the root is the first of the sorted paths.\<close>

definition drop_root :: "bool \<Rightarrow> string list \<Rightarrow> string list" where
  "drop_root includeRoot paths =
     (if includeRoot then paths
      else if length paths > 0 \<and> paths ! 0 = ''/'' then drop 1 paths else paths)"

definition sortedPaths :: "bool \<Rightarrow> mutationState \<Rightarrow> string list \<times> mutationState" where
  "sortedPaths includeRoot st =
     (let st = rebuildPathIndexes st in (drop_root includeRoot (indexAll st), st))"

definition sortedDirPaths :: "mutationState \<Rightarrow> string list \<times> mutationState" where
  "sortedDirPaths st = (let st = rebuildPathIndexes st in (indexDirs st, st))"

definition sortedFilePaths :: "mutationState \<Rightarrow> string list \<times> mutationState" where
  "sortedFilePaths st = (let st = rebuildPathIndexes st in (indexFiles st, st))"

definition sortedPathsWithXAttrs :: "bool \<Rightarrow> mutationState \<Rightarrow> string list \<times> mutationState" where
  "sortedPathsWithXAttrs includeRoot st =
     (let st = rebuildPathIndexes st in (drop_root includeRoot (indexXAttrs st), st))"

definition sortedNodeXAttrs :: "string \<Rightarrow> mutationState \<Rightarrow> string list" where
  "sortedNodeXAttrs path st =
     (case map_of (nodes st) path of
        None \<Rightarrow> []
      | Some n \<Rightarrow> if length (xattr_set n) = 0 then [] else sort_strings (xattr_set n))"

section \<open>Applying an operation\<close>

definition hasParentDirectory :: "mutationState \<Rightarrow> string \<Rightarrow> bool" where
  "hasParentDirectory st path =
     (let parent = (if Dir path = ''.'' then ''/'' else Dir path) in
      case map_of (nodes st) parent of
        None \<Rightarrow> False
      | Some n \<Rightarrow> typeID n = mutationNodeTypeDir)"

definition isChildMutationPath :: "string \<Rightarrow> string \<Rightarrow> bool" where
  "isChildMutationPath path parent =
     (if parent = ''/'' then path \<noteq> ''/'' else HasPrefix path (parent @ ''/''))"

definition new_node :: "mutationNodeType \<Rightarrow> int \<Rightarrow> string list \<Rightarrow> mutationNode" where
  "new_node t sz xs = \<lparr>typeID = t, nsize = sz, xattrs = Some xs\<rparr>"

definition put_node :: "string \<Rightarrow> mutationNode \<Rightarrow> mutationState \<Rightarrow> mutationState" where
  "put_node p n st = st\<lparr>nodes := put p n (nodes st)\<rparr>"

text \<open>The paths at or below a directory, deleted by \<open>delete\<close> and moved by \<open>rename\<close>.\<close>

definition in_subtree :: "string \<Rightarrow> string \<Rightarrow> bool" where
  "in_subtree dir path \<longleftrightarrow> path = dir \<or> isChildMutationPath path dir"

definition moved_path :: "string \<Rightarrow> string \<Rightarrow> string \<Rightarrow> string" where
  "moved_path src dst path = Clean (dst @ TrimPrefix path src)"

definition put_nodes :: "mutationNode gomap \<Rightarrow> mutationNode gomap \<Rightarrow> mutationNode gomap" where
  "put_nodes updates m = foldl (\<lambda>m b. put (fst b) (snd b) m) m updates"

definition move_subtree :: "string \<Rightarrow> string \<Rightarrow> mutationNode gomap \<Rightarrow> mutationNode gomap" where
  "move_subtree src dst m =
     (let updates = map (\<lambda>b. (moved_path src dst (fst b), snd b)) (filter (\<lambda>b. in_subtree src (fst b)) m);
          kept = filter (\<lambda>b. \<not> in_subtree src (fst b)) m
      in put_nodes updates kept)"

definition applyVirtualOperation :: "Operation \<Rightarrow> (mutationState, unit) sem" where
  "applyVirtualOperation op st0 =
     (let st = invalidatePathIndexes st0; ns = nodes st; path = opPath op in
      case opKind op of
        OperationKindCreateFile \<Rightarrow>
          if has ns path then (Err ''create-file path already exists'', st)
          else if \<not> hasParentDirectory st path then (Err ''create-file parent directory missing'', st)
          else (Inr (), put_node path
                  (new_node mutationNodeTypeFile (int (length (opData op))) []) st)
      | OperationKindCreateDir \<Rightarrow>
          if has ns path then (Err ''create-dir path already exists'', st)
          else if \<not> hasParentDirectory st path then (Err ''create-dir parent directory missing'', st)
          else (Inr (), put_node path (new_node mutationNodeTypeDir 0 []) st)
      | OperationKindCreateSymlink \<Rightarrow>
          if has ns path then (Err ''create-symlink path already exists'', st)
          else if \<not> hasParentDirectory st path then (Err ''create-symlink parent directory missing'', st)
          else (Inr (), put_node path (new_node mutationNodeTypeSymlink 0 []) st)
      | OperationKindCreateHardlink \<Rightarrow>
          (case map_of ns (opSourcePath op) of
             None \<Rightarrow> (Err ''create-hardlink source does not exist'', st)
           | Some source \<Rightarrow>
               if typeID source \<noteq> mutationNodeTypeFile
               then (Err ''create-hardlink source is not a regular file'', st)
               else if has ns path then (Err ''create-hardlink path already exists'', st)
               else if \<not> hasParentDirectory st path
               then (Err ''create-hardlink parent directory missing'', st)
               else (Inr (), put_node path
                       (new_node mutationNodeTypeFile (nsize source) (xattr_set source)) st))
      | OperationKindDelete \<Rightarrow>
          (case map_of ns path of
             None \<Rightarrow> (Err ''delete path does not exist'', st)
           | Some node \<Rightarrow>
               if typeID node = mutationNodeTypeDir
               then (Inr (), st\<lparr>nodes := filter (\<lambda>b. \<not> in_subtree path (fst b)) ns\<rparr>)
               else (Inr (), st\<lparr>nodes := del path ns\<rparr>))
      | OperationKindRename \<Rightarrow>
          (let dst = opDestination op in
           case map_of ns path of
             None \<Rightarrow> (Err ''rename source path does not exist'', st)
           | Some node \<Rightarrow>
               if has ns dst then (Err ''rename destination path already exists'', st)
               else if \<not> hasParentDirectory st dst
               then (Err ''rename destination parent directory missing'', st)
               else if typeID node = mutationNodeTypeDir \<and> isChildMutationPath dst path
               then (Err ''rename destination is inside source directory'', st)
               else if typeID node \<noteq> mutationNodeTypeDir
               then (Inr (), st\<lparr>nodes := put dst node (del path ns)\<rparr>)
               else (Inr (), st\<lparr>nodes := move_subtree path dst ns\<rparr>))
      | OperationKindChmod \<Rightarrow>
          if \<not> has ns path then (Err ''chmod path does not exist'', st) else (Inr (), st)
      | OperationKindChown \<Rightarrow>
          if \<not> has ns path then (Err ''chown path does not exist'', st) else (Inr (), st)
      | OperationKindTruncate \<Rightarrow>
          (case map_of ns path of
             None \<Rightarrow> (Err ''truncate path does not exist'', st)
           | Some node \<Rightarrow>
               if typeID node \<noteq> mutationNodeTypeFile
               then (Err ''truncate path is not a regular file'', st)
               else (Inr (), put_node path (node\<lparr>nsize := opSize op\<rparr>) st))
      | OperationKindAppend \<Rightarrow>
          (case map_of ns path of
             None \<Rightarrow> (Err ''append path does not exist'', st)
           | Some node \<Rightarrow>
               if typeID node \<noteq> mutationNodeTypeFile
               then (Err ''append path is not a regular file'', st)
               else (Inr (), put_node path
                       (node\<lparr>nsize := wrap64 (nsize node + int (length (opData op)))\<rparr>) st))
      | OperationKindOverwriteRange \<Rightarrow>
          (case map_of ns path of
             None \<Rightarrow> (Err ''overwrite-range path does not exist'', st)
           | Some node \<Rightarrow>
               if typeID node \<noteq> mutationNodeTypeFile
               then (Err ''overwrite-range path is not a regular file'', st)
               else let end' = wrap64 (opOffset op + int (length (opData op))) in
                 if end' > nsize node
                 then (Inr (), put_node path (node\<lparr>nsize := end'\<rparr>) st)
                 else (Inr (), st))
      | OperationKindSetXAttr \<Rightarrow>
          (case map_of ns path of
             None \<Rightarrow> (Err ''set-xattr path does not exist'', st)
           | Some node \<Rightarrow>
               (case validateXAttrName (opXAttrName op) of
                  Inl e \<Rightarrow> (Inl (Errorf ''set-xattr xattr name'' (Some e)), st)
                | Inr _ \<Rightarrow>
                    (Inr (), put_node path
                       (node\<lparr>xattrs := Some (List.insert (opXAttrName op) (xattr_set node))\<rparr>) st)))
      | OperationKindRemoveXAttr \<Rightarrow>
          (case map_of ns path of
             None \<Rightarrow> (Err ''remove-xattr path does not exist'', st)
           | Some node \<Rightarrow>
               (case validateXAttrName (opXAttrName op) of
                  Inl e \<Rightarrow> (Inl (Errorf ''remove-xattr xattr name'' (Some e)), st)
                | Inr _ \<Rightarrow>
                    if opXAttrName op \<notin> set (xattr_set node)
                    then (Err ''remove-xattr name does not exist'', st)
                    else (Inr (), put_node path
                       (node\<lparr>xattrs := Some (removeAll (opXAttrName op) (xattr_set node))\<rparr>) st)))
      | OperationKindUnknown n \<Rightarrow> (FailW ''operation'' ErrUnsupportedOperation, st))"

section \<open>Paths below a directory\<close>

lemma Split_Join_append:
  "ws \<noteq> [] \<Longrightarrow> \<forall>w \<in> set ws. c \<notin> set w \<Longrightarrow> Split c (Join c ws @ c # t) = ws @ Split c t"
proof (induction ws)
  case (Cons w ws)
  then show ?case by (cases "ws = []") (simp_all add: Join_Cons Split_append_sep)
qed simp

lemma Split_abs_path_append:
  assumes "\<forall>w \<in> set ds. elem_ok w" and "ds \<noteq> []"
  shows "Split slash (abs_path ds @ slash # t) = [] # ds @ Split slash t"
proof -
  have "abs_path ds @ slash # t = Join slash ([] # ds) @ slash # t"
    using assms(2) by (simp add: abs_path_def Join_Cons)
  also have "Split slash \<dots> = ([] # ds) @ Split slash t"
    by (rule Split_Join_append) (use assms(1) in \<open>auto simp: elem_ok_def\<close>)
  finally show ?thesis by simp
qed

lemma abs_path_append:
  assumes "ds \<noteq> []" and "r \<noteq> []"
  shows "abs_path (ds @ r) = abs_path ds @ slash # Join slash r"
  using assms by (simp add: abs_path_def Join_append)

lemma isChild_abs_path:
  assumes cs: "\<forall>w \<in> set cs. elem_ok w" and ds: "\<forall>w \<in> set ds. elem_ok w"
  shows "isChildMutationPath (abs_path cs) (abs_path ds) \<longleftrightarrow> (\<exists>r. r \<noteq> [] \<and> cs = ds @ r)"
proof (cases "ds = []")
  case True
  then show ?thesis
    using abs_path_eq_root [OF cs] by (auto simp: isChildMutationPath_def slash_string)
next
  case False
  then have "abs_path ds \<noteq> [slash]" using abs_path_eq_root [OF ds] by simp
  then have child: "isChildMutationPath (abs_path cs) (abs_path ds) \<longleftrightarrow>
      (\<exists>t. abs_path cs = abs_path ds @ slash # t)"
    by (simp add: isChildMutationPath_def slash_string HasPrefix_iff)
  show ?thesis
    unfolding child
  proof
    assume "\<exists>t. abs_path cs = abs_path ds @ slash # t"
    then obtain t where "Split slash (abs_path cs) = [] # ds @ Split slash t"
      using Split_abs_path_append [OF ds False] by auto
    then have "(if cs = [] then [[]] else cs) = ds @ Split slash t" by (simp add: Split_abs_path [OF cs])
    moreover have "1 < length (ds @ Split slash t)"
      using False by (cases ds; cases "Split slash t") simp_all
    ultimately have "1 < length (if cs = [] then [[]] else cs)" by simp
    then have "cs \<noteq> []" by auto
    then have "cs = ds @ Split slash t"
      using \<open>(if cs = [] then [[]] else cs) = ds @ Split slash t\<close> by simp
    then show "\<exists>r. r \<noteq> [] \<and> cs = ds @ r" by (metis Split_nonempty)
  next
    assume "\<exists>r. r \<noteq> [] \<and> cs = ds @ r"
    then show "\<exists>t. abs_path cs = abs_path ds @ slash # t" using abs_path_append [OF False] by blast
  qed
qed

lemma isChild_iff:
  assumes "clean_abs p" and "clean_abs q"
  shows "isChildMutationPath p q \<longleftrightarrow> (\<exists>r. r \<noteq> [] \<and> elems p = elems q @ r)"
  using assms by (auto simp: isChild_abs_path elim!: clean_absE)

lemma in_subtree_iff:
  assumes "clean_abs p" and "clean_abs q"
  shows "in_subtree q p \<longleftrightarrow> (\<exists>r. elems p = elems q @ r)"
proof -
  have "p = q \<longleftrightarrow> elems p = elems q" using elems_inj [OF assms] by blast
  then show ?thesis unfolding in_subtree_def isChild_iff [OF assms] by force
qed

lemma moved_path_elems:
  assumes "clean_abs src" and "src \<noteq> ''/''" and "clean_abs dst" and "dst \<noteq> ''/''"
    and "clean_abs p" and "elems p = elems src @ r"
  shows "moved_path src dst p = abs_path (elems dst @ r)"
proof -
  have ne: "elems src \<noteq> []" "elems dst \<noteq> []"
    using abs_path_elems [OF assms(1)] abs_path_elems [OF assms(3)] assms(2,4)
    by (auto simp: slash_string)
  have "w \<in> set r \<Longrightarrow> w \<in> set (elems p)" for w by (simp add: assms(6))
  then have ok: "\<forall>w \<in> set (elems dst @ r). elem_ok w"
    using elems_ok [of _ dst] elems_ok [of _ p] by auto
  let ?t = "if r = [] then [] else slash # Join slash r"
  have below: "abs_path (es @ r) = abs_path es @ ?t" if "es \<noteq> []" for es
    using abs_path_append [OF that, of r] by simp
  have "p = abs_path (elems src @ r)" using abs_path_elems [OF assms(5)] assms(6) by simp
  then have "p = src @ ?t" using below [OF ne(1)] abs_path_elems [OF assms(1)] by simp
  then have "dst @ TrimPrefix p src = dst @ ?t" by (simp only: TrimPrefix_append)
  also have "\<dots> = abs_path (elems dst @ r)"
    using below [OF ne(2)] abs_path_elems [OF assms(3)] by simp
  finally show ?thesis by (simp add: moved_path_def Clean_abs_path [OF ok])
qed

section \<open>The invariant of the tree\<close>

definition is_dir :: "mutationNode gomap \<Rightarrow> string \<Rightarrow> bool" where
  "is_dir ns p = (case map_of ns p of None \<Rightarrow> False | Some n \<Rightarrow> typeID n = mutationNodeTypeDir)"

definition node_ok :: "mutationNode \<Rightarrow> bool" where
  "node_ok n \<longleftrightarrow> list_all xattr_name_wf (xattr_set n) \<and> distinct (xattr_set n)"

definition tree_ok :: "mutationNode gomap \<Rightarrow> bool" where
  "tree_ok ns \<longleftrightarrow> distinct (keys ns) \<and> is_dir ns ''/'' \<and>
     list_all (\<lambda>b. path_wf (fst b) True \<and> is_dir ns (Dir (fst b)) \<and> node_ok (snd b)) ns"

lemma tree_ok_iff:
  "tree_ok ns \<longleftrightarrow> distinct (keys ns) \<and> is_dir ns ''/'' \<and>
     (\<forall>p n. map_of ns p = Some n \<longrightarrow> path_wf p True \<and> is_dir ns (Dir p) \<and> node_ok n)"
proof -
  have "(\<forall>b \<in> set ns. P (fst b) (snd b)) \<longleftrightarrow> (\<forall>p n. map_of ns p = Some n \<longrightarrow> P p n)"
    if "distinct (keys ns)" for P
  proof -
    have "map_of ns p = Some n \<longleftrightarrow> (p, n) \<in> set ns" for p n
      using that map_of_eq_Some_iff unfolding keys_def by fast
    then show ?thesis by auto
  qed
  from this [of "\<lambda>p n. path_wf p True \<and> is_dir ns (Dir p) \<and> node_ok n"] show ?thesis
    unfolding tree_ok_def list_all_iff by blast
qed

lemma tree_okD:
  assumes "tree_ok ns"
  shows "distinct (keys ns)" and "is_dir ns ''/''"
    and "map_of ns p = Some n \<Longrightarrow> path_wf p True"
    and "map_of ns p = Some n \<Longrightarrow> is_dir ns (Dir p)"
    and "map_of ns p = Some n \<Longrightarrow> node_ok n"
  using assms unfolding tree_ok_iff by blast+

lemma is_dir_has: "is_dir ns p \<Longrightarrow> has ns p"
  by (auto simp: is_dir_def has_def split: option.splits)

text \<open>Everything above a node is a directory of the tree.\<close>

lemma tree_ok_ancestor:
  assumes "tree_ok ns" and "\<forall>w \<in> set (cs @ r). elem_ok w" and "r \<noteq> []" and "has ns (abs_path (cs @ r))"
  shows "is_dir ns (abs_path cs)"
  using assms(2-4)
proof (induction r rule: rev_induct)
  case Nil
  then show ?case by simp
next
  case (snoc x r)
  obtain n where "map_of ns (abs_path (cs @ r @ [x])) = Some n"
    using snoc.prems(3) by (auto simp: has_def)
  then have "is_dir ns (Dir (abs_path ((cs @ r) @ [x])))"
    using tree_okD(4) [OF assms(1)] by simp
  then have d: "is_dir ns (abs_path (cs @ r))"
    using snoc.prems(1) Dir_abs_path_snoc [of "cs @ r" x] by simp
  show ?case
  proof (cases "r = []")
    case True
    then show ?thesis using d by simp
  next
    case False
    then show ?thesis using snoc.IH snoc.prems(1) is_dir_has [OF d] by simp
  qed
qed

lemma Dir_not_dot: "clean_abs p \<Longrightarrow> Dir p \<noteq> ''.''"
  using clean_abs_Dir [of p] by (auto simp: clean_abs_def rooted_def slash_def)

lemma hasParentDirectory_is_dir: "clean_abs p \<Longrightarrow> hasParentDirectory st p = is_dir (nodes st) (Dir p)"
  by (simp add: hasParentDirectory_def is_dir_def Dir_not_dot)

lemma is_dir_put: "is_dir (put p n ns) q = (if q = p then typeID n = mutationNodeTypeDir else is_dir ns q)"
  by (simp add: is_dir_def)

lemma tree_ok_put:
  assumes "tree_ok ns" and "path_wf p True" and "is_dir ns (Dir p)" and "node_ok n"
    and same: "\<And>n'. map_of ns p = Some n' \<Longrightarrow> typeID n' = typeID n"
  shows "tree_ok (put p n ns)"
proof -
  have dir: "is_dir (put p n ns) q" if "is_dir ns q" for q
    using that same by (auto simp: is_dir_put) (auto simp: is_dir_def split: option.splits)
  show ?thesis
    unfolding tree_ok_iff
    using tree_okD [OF assms(1)] assms(2-4) dir by (simp split: if_split)
qed

section \<open>Deleting and moving subtrees\<close>

lemma path_wf_clean: "path_wf p r \<Longrightarrow> clean_abs p"
  by (simp add: path_wf_def)

lemma elems_Nil_iff: "clean_abs p \<Longrightarrow> elems p = [] \<longleftrightarrow> p = ''/''"
  by (metis abs_path_Nil abs_path_elems elems_abs_path empty_iff list.set(1) slash_string)

lemma elems_Dir: "clean_abs p \<Longrightarrow> elems (Dir p) = butlast (elems p)"
proof -
  assume p: "clean_abs p"
  have "\<forall>w \<in> set (butlast (elems p)). elem_ok w" using elems_ok in_set_butlastD by fast
  then show ?thesis using Dir_clean_abs [OF p] by simp
qed

lemma in_subtree_Dir:
  assumes "clean_abs q" and "clean_abs p" and "p \<noteq> ''/''" and "in_subtree p (Dir q)"
  shows "in_subtree p q"
proof -
  obtain r where r: "butlast (elems q) = elems p @ r"
    using assms(4) in_subtree_iff [OF clean_abs_Dir [OF assms(1)] assms(2)] elems_Dir [OF assms(1)] by auto
  moreover have "elems p \<noteq> []" using assms(2,3) by (simp add: elems_Nil_iff)
  ultimately have "elems q \<noteq> []" by auto
  then have "elems q = elems p @ (r @ [last (elems q)])"
    using append_butlast_last_id [of "elems q"] r by simp
  then show ?thesis using in_subtree_iff [OF assms(1,2)] by blast
qed

lemma in_subtree_root: "clean_abs p \<Longrightarrow> p \<noteq> ''/'' \<Longrightarrow> \<not> in_subtree p ''/''"
  using in_subtree_iff [of "''/''" p] elems_Nil_iff [of p] elems_Nil_iff [of "''/''"]
  by (simp add: slash_string)

lemma is_dir_filter: "is_dir (filter (\<lambda>b. P (fst b)) ns) q = (P q \<and> is_dir ns q)"
  by (simp add: is_dir_def map_of_filter_key)

lemma tree_ok_filter:
  assumes "tree_ok ns" and "clean_abs p" and "p \<noteq> ''/''"
  shows "tree_ok (filter (\<lambda>b. \<not> in_subtree p (fst b)) ns)"
  unfolding tree_ok_iff keys_filter [where P = "\<lambda>q. \<not> in_subtree p q"]
    is_dir_filter [where P = "\<lambda>q. \<not> in_subtree p q"] map_of_filter_key [where P = "\<lambda>q. \<not> in_subtree p q"]
proof (intro conjI allI impI)
  show "distinct (filter (\<lambda>q. \<not> in_subtree p q) (keys ns))" using tree_okD(1) [OF assms(1)] by simp
  show "\<not> in_subtree p ''/''" by (rule in_subtree_root [OF assms(2,3)])
  show "is_dir ns ''/''" by (rule tree_okD(2) [OF assms(1)])
next
  fix q n
  assume "(if \<not> in_subtree p q then map_of ns q else None) = Some n"
  then have q: "\<not> in_subtree p q" "map_of ns q = Some n" by (auto split: if_splits)
  note ok = tree_okD(3-5) [OF assms(1) q(2)]
  show "path_wf q True" "is_dir ns (Dir q)" "node_ok n" by (rule ok)+
  show "\<not> in_subtree p (Dir q)"
    using in_subtree_Dir [OF path_wf_clean [OF ok(1)] assms(2,3)] q(1) by blast
qed

lemma tree_ok_del:
  assumes "tree_ok ns" and "\<not> is_dir ns p"
  shows "tree_ok (del p ns)"
proof -
  have d: "is_dir (del p ns) q \<longleftrightarrow> is_dir ns q" for q
    using assms(2) by (auto simp: is_dir_def)
  show ?thesis
    unfolding tree_ok_iff d using tree_okD [OF assms(1)] by simp
qed

lemma map_of_put_nodes: "map_of (put_nodes us m) = map_of m ++ map_of (rev us)"
  unfolding put_nodes_def by (induction us arbitrary: m) (simp_all add: map_add_upd)

lemma distinct_put_nodes [simp]: "distinct (keys (put_nodes us m)) = distinct (keys m)"
  unfolding put_nodes_def by (induction us arbitrary: m) simp_all

text \<open>Where a path of the old tree is after the move.\<close>

definition rekey :: "string \<Rightarrow> string \<Rightarrow> string \<Rightarrow> string" where
  "rekey src dst p = (if in_subtree src p then moved_path src dst p else p)"

lemma rekey_elems:
  assumes "clean_abs src" "src \<noteq> ''/''" "clean_abs dst" "dst \<noteq> ''/''" "clean_abs p"
  shows "clean_abs (rekey src dst p)"
    and "elems p = elems src @ r \<Longrightarrow> elems (rekey src dst p) = elems dst @ r"
proof -
  have *: "clean_abs (rekey src dst p) \<and> elems (rekey src dst p) = elems dst @ r"
    if r: "elems p = elems src @ r" for r
  proof -
    have "in_subtree src p" using r in_subtree_iff [OF assms(5,1)] by blast
    then have "rekey src dst p = abs_path (elems dst @ r)"
      using moved_path_elems [OF assms r] by (simp add: rekey_def)
    moreover have "w \<in> set r \<Longrightarrow> w \<in> set (elems p)" for w using r by simp
    then have "\<forall>w \<in> set (elems dst @ r). elem_ok w" using elems_ok [of _ dst] elems_ok [of _ p] by auto
    ultimately show ?thesis by simp
  qed
  then show "elems p = elems src @ r \<Longrightarrow> elems (rekey src dst p) = elems dst @ r" by blast
  show "clean_abs (rekey src dst p)"
  proof (cases "in_subtree src p")
    case True
    then show ?thesis using * in_subtree_iff [OF assms(5,1)] by blast
  qed (simp add: rekey_def assms(5))
qed

text \<open>When a directory \<open>src\<close> of the tree may be moved to \<open>dst\<close>: the checks of \<open>rename\<close>.\<close>

definition move_ok :: "mutationNode gomap \<Rightarrow> string \<Rightarrow> string \<Rightarrow> bool" where
  "move_ok ns src dst \<longleftrightarrow> tree_ok ns \<and> path_wf src False \<and> path_wf dst False \<and> has ns src \<and>
     \<not> has ns dst \<and> is_dir ns (Dir dst) \<and> \<not> isChildMutationPath dst src"

lemma move_okD:
  assumes "move_ok ns src dst"
  shows "tree_ok ns" "clean_abs src" "src \<noteq> ''/''" "clean_abs dst" "dst \<noteq> ''/''" "has ns src"
    "\<not> has ns dst" "is_dir ns (Dir dst)" "\<not> isChildMutationPath dst src" "\<not> Contains dst NUL"
  using assms by (auto simp: move_ok_def path_wf_def)

lemma nothing_below_dst:
  assumes "move_ok ns src dst" and "has ns p" and "clean_abs p"
  shows "\<not> in_subtree dst p"
proof
  note mv = move_okD [OF assms(1)]
  assume "in_subtree dst p"
  then obtain r where r: "elems p = elems dst @ r" using in_subtree_iff [OF assms(3) mv(4)] by blast
  show False
  proof (cases "r = []")
    case True
    then have "p = dst" using r elems_inj [OF assms(3) mv(4)] by simp
    then show False using assms(2) mv(7) by simp
  next
    case False
    have "p = abs_path (elems dst @ r)" using abs_path_elems [OF assms(3)] r by simp
    moreover have "\<forall>w \<in> set (elems dst @ r). elem_ok w" using elems_ok [of _ p] r by simp
    ultimately have "is_dir ns (abs_path (elems dst))"
      using tree_ok_ancestor [OF mv(1) _ False] assms(2) by simp
    then show False using is_dir_has abs_path_elems [OF mv(4)] mv(7) by fastforce
  qed
qed

lemma rekey_inj:
  assumes "move_ok ns src dst" and "has ns p" "clean_abs p" and "has ns q" "clean_abs q"
    and "rekey src dst p = rekey src dst q"
  shows "p = q"
proof -
  note mv = move_okD [OF assms(1)]
  have outside: False
    if h: "has ns x" "clean_abs x" "has ns y" "clean_abs y" "in_subtree src x" "\<not> in_subtree src y"
      "rekey src dst x = rekey src dst y" for x y
  proof -
    obtain r where "elems x = elems src @ r" using h(5) in_subtree_iff [OF h(2) mv(2)] by blast
    then have "elems (rekey src dst x) = elems dst @ r"
      using rekey_elems(2) [OF mv(2-5) h(2)] by blast
    then have "elems y = elems dst @ r" unfolding h(7) using h(6) by (simp add: rekey_def)
    then have "in_subtree dst y" using in_subtree_iff [OF h(4) mv(4)] by blast
    then show False using nothing_below_dst [OF assms(1) h(3,4)] by simp
  qed
  show ?thesis
  proof (cases "in_subtree src p")
    case True
    then have inq: "in_subtree src q" using outside [OF assms(2-5)] assms(6) by blast
    obtain r s where r: "elems p = elems src @ r" "elems q = elems src @ s"
      using True inq in_subtree_iff [OF assms(3) mv(2)] in_subtree_iff [OF assms(5) mv(2)] by blast
    then have "elems dst @ r = elems dst @ s"
      using rekey_elems(2) [OF mv(2-5) assms(3)] rekey_elems(2) [OF mv(2-5) assms(5)] assms(6) by metis
    then show ?thesis using r elems_inj [OF assms(3,5)] by simp
  next
    case False
    then have "\<not> in_subtree src q" using outside [OF assms(4,5) assms(2,3)] assms(6) by metis
    then show ?thesis using False assms(6) by (simp add: rekey_def)
  qed
qed

lemma move_subtree_map_of:
  assumes "move_ok ns src dst"
  shows "map_of (move_subtree src dst ns) q = Some n \<longleftrightarrow>
    (\<exists>p. map_of ns p = Some n \<and> q = rekey src dst p)"
proof -
  note mv = move_okD [OF assms]
  let ?in = "filter (\<lambda>b. in_subtree src (fst b)) ns"
  let ?us = "map (\<lambda>b. (moved_path src dst (fst b), snd b)) ?in"
  let ?kept = "filter (\<lambda>b. \<not> in_subtree src (fst b)) ns"
  have dist: "distinct (keys ns)" by (rule tree_okD(1) [OF mv(1)])
  have clean: "clean_abs p" if "has ns p" for p
    using that tree_okD(3) [OF mv(1)] path_wf_clean by (auto simp: has_def)
  have mem: "(p, n) \<in> set ns \<longleftrightarrow> map_of ns p = Some n" for p n
    using dist map_of_eq_Some_iff unfolding keys_def by fast
  have memhas: "has ns (fst b)" if "b \<in> set ns" for b
    using that by (force simp: has_iff keys_def)
  have keys_us: "keys ?us = map (rekey src dst) (keys ?in)"
    by (simp add: keys_def rekey_def)
  have "inj_on (rekey src dst) (set (keys ?in))"
  proof (rule inj_onI)
    fix x y assume "x \<in> set (keys ?in)" "y \<in> set (keys ?in)" "rekey src dst x = rekey src dst y"
    moreover from this have "has ns x" "has ns y" using memhas by (force simp: keys_def)+
    ultimately show "x = y" using rekey_inj [OF assms] clean by blast
  qed
  moreover have "distinct (keys ?in)" using dist by (simp add: keys_filter)
  ultimately have dus: "distinct (keys ?us)" unfolding keys_us by (simp add: distinct_map)
  have us: "map_of (rev ?us) q = Some n \<longleftrightarrow> (\<exists>p. map_of ns p = Some n \<and> in_subtree src p \<and> q = rekey src dst p)"
    for q n
  proof -
    have "map_of (rev ?us) q = Some n \<longleftrightarrow> (q, n) \<in> set ?us"
      using dus by (subst map_of_eq_Some_iff) (simp_all add: keys_def rev_map [symmetric])
    also have "\<dots> \<longleftrightarrow> (\<exists>p. map_of ns p = Some n \<and> in_subtree src p \<and> q = rekey src dst p)"
      unfolding mem [symmetric] by (force simp: rekey_def)
    finally show ?thesis .
  qed
  have kept: "map_of ?kept q = Some n \<longleftrightarrow> map_of ns q = Some n \<and> \<not> in_subtree src q" for q n
    using map_of_filter_key [of "\<lambda>q. \<not> in_subtree src q" ns q] by auto
  have disj: "map_of (rev ?us) q = None" if "map_of ns q = Some n" for q n
  proof (rule ccontr)
    assume "map_of (rev ?us) q \<noteq> None"
    then obtain m p where p: "map_of ns p = Some m" "in_subtree src p" "q = rekey src dst p"
      using us by auto
    have cp: "clean_abs p" using p(1) clean by (simp add: has_def)
    obtain r where "elems p = elems src @ r" using p(2) in_subtree_iff [OF cp mv(2)] by blast
    then have "in_subtree dst q"
      using rekey_elems [OF mv(2-5) cp] in_subtree_iff [OF _ mv(4)] p(3) by blast
    then show False using nothing_below_dst [OF assms] clean [of q] that by (simp add: has_def)
  qed
  have "map_of (move_subtree src dst ns) q = Some n \<longleftrightarrow>
      map_of (rev ?us) q = Some n \<or> map_of (rev ?us) q = None \<and> map_of ?kept q = Some n"
    by (simp add: move_subtree_def map_of_put_nodes map_add_Some_iff)
  also have "\<dots> \<longleftrightarrow> (\<exists>p. map_of ns p = Some n \<and> q = rekey src dst p)"
    unfolding us kept using disj by (auto simp: rekey_def)
  finally show ?thesis .
qed

lemma rekey_Dir:
  assumes "move_ok ns src dst" and "has ns p" and "clean_abs p" and "p \<noteq> src"
  shows "rekey src dst (Dir p) = Dir (rekey src dst p)"
proof -
  note mv = move_okD [OF assms(1)]
  note cd = clean_abs_Dir [OF assms(3)]
  show ?thesis
  proof (cases "in_subtree src p")
    case True
    then obtain r where r: "elems p = elems src @ r" using in_subtree_iff [OF assms(3) mv(2)] by blast
    then have "r \<noteq> []" using assms(4) elems_inj [OF assms(3) mv(2)] by auto
    then have "elems (Dir p) = elems src @ butlast r"
      using elems_Dir [OF assms(3)] r by (simp add: butlast_append)
    from rekey_elems(2) [OF mv(2-5) cd this]
    have "elems (rekey src dst (Dir p)) = elems (Dir (rekey src dst p))"
      using rekey_elems(1) [OF mv(2-5) assms(3)] rekey_elems(2) [OF mv(2-5) assms(3) r] \<open>r \<noteq> []\<close>
      by (simp add: elems_Dir butlast_append)
    then show ?thesis
      using elems_inj rekey_elems(1) [OF mv(2-5)] cd assms(3) clean_abs_Dir by blast
  next
    case False
    then have "\<not> in_subtree src (Dir p)" using in_subtree_Dir [OF assms(3) mv(2,3)] by blast
    then show ?thesis using False by (simp add: rekey_def)
  qed
qed

lemma not_in_subtree_Dir_dst:
  assumes "move_ok ns src dst"
  shows "\<not> in_subtree src (Dir dst)"
proof
  note mv = move_okD [OF assms]
  assume "in_subtree src (Dir dst)"
  then have "in_subtree src dst" by (rule in_subtree_Dir [OF mv(4) mv(2,3)])
  then show False using mv(6,7,9) by (auto simp: in_subtree_def)
qed

lemma set_Join_mem: "w \<in> set ws \<Longrightarrow> set w \<subseteq> set (Join c ws)"
  by (induction c ws rule: Join.induct) auto

lemma set_clean_abs: "clean_abs p \<Longrightarrow> set p \<subseteq> insert slash (\<Union>w \<in> set (elems p). set w)"
  using abs_path_elems [of p] set_Join [of slash "elems p"] unfolding abs_path_def
  by (metis (no_types, lifting) insert_absorb2 insert_mono list.set(2))

lemma set_elems_sub: "clean_abs p \<Longrightarrow> w \<in> set (elems p) \<Longrightarrow> set w \<subseteq> set p"
  using abs_path_elems [of p] set_Join_mem [of w "elems p" slash] unfolding abs_path_def
  by (metis list.set_intros(2) subset_code(1))

lemma NUL_moved:
  assumes "clean_abs p" "clean_abs q" "clean_abs d" "\<not> Contains p NUL" "\<not> Contains d NUL"
    and "elems q = elems d @ r" and "set r \<subseteq> set (elems p)"
  shows "\<not> Contains q NUL"
proof -
  have "set q \<subseteq> insert slash (\<Union>w \<in> set (elems q). set w)" by (rule set_clean_abs [OF assms(2)])
  also have "\<dots> \<subseteq> insert slash (set d \<union> set p)"
    using set_elems_sub [OF assms(3)] set_elems_sub [OF assms(1)] assms(6,7) by auto
  finally show ?thesis using assms(4,5) by (auto simp: Contains_def NUL_def slash_def)
qed

lemma rekey_wf:
  assumes "move_ok ns src dst" and "path_wf p True"
  shows "path_wf (rekey src dst p) True"
proof (cases "in_subtree src p")
  case True
  note mv = move_okD [OF assms(1)]
  have p: "clean_abs p" "\<not> Contains p NUL" using assms(2) by (simp_all add: path_wf_def)
  obtain r where r: "elems p = elems src @ r" using True in_subtree_iff [OF p(1) mv(2)] by blast
  note q = rekey_elems [OF mv(2-5) p(1)]
  have "\<not> Contains (rekey src dst p) NUL"
    by (rule NUL_moved [OF p(1) q(1) mv(4) p(2) mv(10) q(2) [OF r]]) (simp add: r)
  then show ?thesis using q(1) by (simp add: path_wf_def)
next
  case False
  then show ?thesis using assms(2) by (simp add: rekey_def)
qed

lemma tree_ok_move:
  assumes "move_ok ns src dst"
  shows "tree_ok (move_subtree src dst ns)"
proof -
  note mv = move_okD [OF assms]
  note ok = tree_okD [OF mv(1)]
  have dir: "is_dir (move_subtree src dst ns) (rekey src dst p)" if isd: "is_dir ns p" for p
  proof -
    obtain n where n: "map_of ns p = Some n" "typeID n = mutationNodeTypeDir"
      using isd by (auto simp: is_dir_def split: option.splits)
    then have "map_of (move_subtree src dst ns) (rekey src dst p) = Some n"
      using move_subtree_map_of [OF assms] by blast
    then show ?thesis using n(2) by (simp add: is_dir_def)
  qed
  have root: "rekey src dst ''/'' = ''/''" using in_subtree_root [OF mv(2,3)] by (simp add: rekey_def)
  show ?thesis
    unfolding tree_ok_iff
  proof (intro conjI allI impI)
    have "distinct (keys (filter (\<lambda>b. \<not> in_subtree src (fst b)) ns))"
      using ok(1) keys_filter [of "\<lambda>q. \<not> in_subtree src q" ns] by simp
    then show "distinct (keys (move_subtree src dst ns))" by (simp add: move_subtree_def)
    show "is_dir (move_subtree src dst ns) ''/''" using dir [OF ok(2)] root by simp
  next
    fix q n
    assume "map_of (move_subtree src dst ns) q = Some n"
    then obtain p where p: "map_of ns p = Some n" "q = rekey src dst p"
      using move_subtree_map_of [OF assms] by blast
    have c: "clean_abs p" using ok(3) [OF p(1)] path_wf_clean by blast
    have h: "has ns p" using p(1) by (simp add: has_def)
    show "path_wf q True" unfolding p(2) by (rule rekey_wf [OF assms ok(3) [OF p(1)]])
    show "node_ok n" by (rule ok(5) [OF p(1)])
    show "is_dir (move_subtree src dst ns) (Dir q)"
    proof (cases "p = src")
      case True
      have "elems (rekey src dst src) = elems dst"
        using rekey_elems(2) [OF mv(2-5) mv(2), of "[]"] by simp
      then have "q = dst" using True p(2) elems_inj rekey_elems(1) [OF mv(2-5) mv(2)] mv(4) by blast
      moreover have "rekey src dst (Dir dst) = Dir dst"
        using not_in_subtree_Dir_dst [OF assms] by (simp add: rekey_def)
      ultimately show ?thesis using dir [OF mv(8)] by simp
    next
      case False
      then show ?thesis
        using dir [OF ok(4) [OF p(1)]] rekey_Dir [OF assms h c] p(2) by simp
    qed
  qed
qed

section \<open>Every operation keeps the invariant\<close>

lemma nodes_invalidate [simp]: "nodes (invalidatePathIndexes st) = nodes st"
  by (simp add: invalidatePathIndexes_def)

lemma nodes_put_node [simp]: "nodes (put_node p n st) = put p n (nodes st)"
  by (simp add: put_node_def)

lemma node_ok_new [simp]: "node_ok (new_node t sz []) "
  by (simp add: node_ok_def new_node_def xattr_set_def)

lemma node_ok_copy: "node_ok n \<Longrightarrow> node_ok (new_node t sz (xattr_set n))"
  by (simp add: node_ok_def new_node_def xattr_set_def)

lemma xattr_set_upd [simp]:
  "xattr_set (n\<lparr>nsize := s\<rparr>) = xattr_set n" "xattr_set (n\<lparr>xattrs := Some xs\<rparr>) = xs"
  by (simp_all add: xattr_set_def)

lemma node_ok_upd:
  "node_ok n \<Longrightarrow> node_ok (n\<lparr>nsize := s\<rparr>)"
  "node_ok n \<Longrightarrow> xattr_name_wf x \<Longrightarrow> node_ok (n\<lparr>xattrs := Some (List.insert x (xattr_set n))\<rparr>)"
  "node_ok n \<Longrightarrow> node_ok (n\<lparr>xattrs := Some (removeAll x (xattr_set n))\<rparr>)"
  by (auto simp: node_ok_def list_all_iff distinct_removeAll)

lemma tree_ok_new:
  assumes "tree_ok (nodes st)" "path_wf p False" "\<not> has (nodes st) p" "hasParentDirectory st p" "node_ok n"
  shows "tree_ok (put p n (nodes st))"
proof (rule tree_ok_put [OF assms(1) _ _ assms(5)])
  show "path_wf p True" using assms(2) by (simp add: path_wf_def)
  show "is_dir (nodes st) (Dir p)"
    using assms(2,4) hasParentDirectory_is_dir path_wf_clean by blast
  show "typeID n' = typeID n" if "map_of (nodes st) p = Some n'" for n'
    using that assms(3) by (simp add: has_def)
qed

lemma tree_ok_replace:
  assumes "tree_ok ns" "map_of ns p = Some n" "node_ok n'" "typeID n' = typeID n"
  shows "tree_ok (put p n' ns)"
  by (rule tree_ok_put [OF assms(1) tree_okD(3,4) [OF assms(1,2)] assms(3)]) (use assms(2,4) in simp)

lemma tree_ok_rename:
  assumes "tree_ok (nodes st)" "path_wf src False" "path_wf dst False" "map_of (nodes st) src = Some n"
    "\<not> has (nodes st) dst" "hasParentDirectory st dst" "typeID n \<noteq> mutationNodeTypeDir"
  shows "tree_ok (put dst n (del src (nodes st)))"
proof -
  have nd: "\<not> is_dir (nodes st) src" using assms(4,7) by (simp add: is_dir_def)
  have d: "is_dir (nodes st) (Dir dst)"
    using assms(3,6) hasParentDirectory_is_dir path_wf_clean by blast
  have "Dir dst \<noteq> src" using d nd by blast
  then have "is_dir (del src (nodes st)) (Dir dst)" using d by (simp add: is_dir_def)
  moreover have "path_wf dst True" using assms(3) by (simp add: path_wf_def)
  moreover have "map_of (del src (nodes st)) dst = None" using assms(5) by (simp add: has_def)
  ultimately show ?thesis
    by (intro tree_ok_put [OF tree_ok_del [OF assms(1) nd] _ _ tree_okD(5) [OF assms(1,4)]])
      (simp_all del: map_of_del)
qed

lemma move_okI:
  assumes "tree_ok (nodes st)" "path_wf src False" "path_wf dst False" "map_of (nodes st) src = Some n"
    "\<not> has (nodes st) dst" "hasParentDirectory st dst" "\<not> isChildMutationPath dst src"
  shows "move_ok (nodes st) src dst"
  using assms hasParentDirectory_is_dir [OF path_wf_clean [OF assms(3)]]
  by (simp add: move_ok_def has_def)

lemma hasParentDirectory_invalidate [simp]:
  "hasParentDirectory (invalidatePathIndexes st) p = hasParentDirectory st p"
  by (simp add: hasParentDirectory_def)

lemmas virtual_simps = applyVirtualOperation_def Let_def op_wf_def

lemma apply_tree_ok:
  assumes "tree_ok (nodes st)" and "op_wf op"
  shows "tree_ok (nodes (snd (applyVirtualOperation op st)))"
proof (cases "opKind op")
  case OperationKindDelete
  then have p: "path_wf (opPath op) False" using assms(2) by (simp add: op_wf_def)
  then have "clean_abs (opPath op)" "opPath op \<noteq> ''/''" by (simp_all add: path_wf_def)
  then show ?thesis
    using OperationKindDelete assms(1) tree_ok_filter [OF assms(1)] tree_ok_del [OF assms(1)]
    by (simp add: applyVirtualOperation_def Let_def is_dir_def split: option.splits)
next
  case OperationKindRename
  then have "path_wf (opPath op) False" "path_wf (opDestination op) False"
    using assms(2) by (simp_all add: op_wf_def)
  then show ?thesis
    using OperationKindRename assms(1) tree_ok_move [OF move_okI [OF assms(1)]] tree_ok_rename [OF assms(1)]
    by (simp add: applyVirtualOperation_def Let_def split: option.splits)
next
  case OperationKindCreateHardlink
  then show ?thesis
    using assms tree_ok_new [OF assms(1)] node_ok_copy tree_okD(5) [OF assms(1)]
    by (simp add: virtual_simps split: option.splits)
next
  case OperationKindSetXAttr
  then show ?thesis
    using assms tree_ok_replace [OF assms(1)] node_ok_upd tree_okD(5) [OF assms(1)]
    by (simp add: virtual_simps split: option.splits sum.splits)
next
  case OperationKindRemoveXAttr
  then show ?thesis
    using assms tree_ok_replace [OF assms(1)] node_ok_upd tree_okD(5) [OF assms(1)]
    by (simp add: virtual_simps split: option.splits sum.splits)
qed (use assms tree_ok_new [OF assms(1)] tree_ok_replace [OF assms(1)] node_ok_upd tree_okD(5) [OF assms(1)]
     in \<open>simp_all add: virtual_simps split: option.splits\<close>)

lemma apply_error_nodes:
  "fst (applyVirtualOperation op st) = Inl e \<Longrightarrow> nodes (snd (applyVirtualOperation op st)) = nodes st"
  by (cases "opKind op")
    (auto simp: applyVirtualOperation_def Let_def split: option.splits sum.splits if_splits)

lemma below_is_dir:
  assumes "tree_ok ns" "clean_abs p" "map_of ns q = Some m" "in_subtree p q" "q \<noteq> p"
  shows "is_dir ns p"
proof -
  have q: "clean_abs q" using tree_okD(3) [OF assms(1,3)] by (simp add: path_wf_def)
  obtain r where r: "elems q = elems p @ r" using assms(4) in_subtree_iff [OF q assms(2)] by blast
  then have "r \<noteq> []" using assms(5) elems_inj [OF q assms(2)] by auto
  moreover have "\<forall>w \<in> set (elems p @ r). elem_ok w" using elems_ok [of _ q] r by simp
  moreover have "has ns (abs_path (elems p @ r))"
    using abs_path_elems [OF q] r assms(3) by (simp add: has_def)
  ultimately have "is_dir ns (abs_path (elems p))" by (intro tree_ok_ancestor [OF assms(1)])
  then show ?thesis by (simp add: abs_path_elems [OF assms(2)])
qed

text \<open>A tree with a directory, a file in it and a symbolic link.\<close>

definition sample_tree :: "mutationNode gomap" where
  "sample_tree =
     [(''/'', \<lparr>typeID = mutationNodeTypeDir, nsize = 0, xattrs = None\<rparr>),
      (''/d'', new_node mutationNodeTypeDir 0 []),
      (''/d/f'', new_node mutationNodeTypeFile 7 []),
      (''/l'', new_node mutationNodeTypeSymlink 0 [])]"

definition sample_state :: mutationState where
  "sample_state =
     \<lparr>nodes = sample_tree, nameSeq = 1, indexAll = [], indexFiles = [], indexDirs = [],
      indexXAttrs = [], indexesValid = False\<rparr>"

lemma clean_samples [simp]:
  "clean_abs ''/''" "clean_abs ''/d''" "clean_abs ''/d/f''" "clean_abs ''/l''" "clean_abs ''/e''"
  by (simp_all add: clean_abs_def Clean_def slash_def dot_def dotdot_def)

lemma Dir_samples [simp]:
  "Dir ''/'' = ''/''" "Dir ''/d'' = ''/''" "Dir ''/d/f'' = ''/d''" "Dir ''/l'' = ''/''" "Dir ''/e'' = ''/''"
  by (simp_all add: Dir_def upto_last_slash_def Clean_def slash_def dot_def dotdot_def)

lemma sample_tree_ok: "tree_ok sample_tree"
  by (simp add: tree_ok_def sample_tree_def keys_def is_dir_def path_wf_def Contains_def NUL_def
      node_ok_def xattr_set_def new_node_def)

definition sample_rename :: Operation where
  "sample_rename = (Operation0 OperationKindRename ''/d'')\<lparr>opDestination := ''/e''\<rparr>"

lemma sample_rename_wf: "op_wf sample_rename"
  by (simp add: op_wf_def sample_rename_def Operation0_def path_wf_def Contains_def NUL_def)

lemma sample_rename_result:
  "\<exists>st. applyVirtualOperation sample_rename sample_state = (Inr (), st)"
  by (simp add: applyVirtualOperation_def sample_rename_def Operation0_def sample_state_def
      sample_tree_def invalidatePathIndexes_def has_def hasParentDirectory_def isChildMutationPath_def
      new_node_def Let_def)

text \<open>
  C8: \<open>applyVirtualOperation\<close> keeps the virtual tree a tree: for a well-formed operation on a
  tree whose paths are clean, distinct and below directories, the tree after a success is
  one again, and a failed operation leaves the nodes as they were.
\<close>

theorem applyVirtualOperation_keeps_tree:
  assumes "tree_ok (nodes st)" and "op_wf op"
  shows "case applyVirtualOperation op st of
    (Inl e, st') \<Rightarrow> nodes st' = nodes st | (Inr _, st') \<Rightarrow> tree_ok (nodes st')"
proof (cases "applyVirtualOperation op st")
  case (Pair r st')
  then show ?thesis
    using apply_tree_ok [OF assms] apply_error_nodes [of op st] by (cases r) simp_all
qed

theorem applyVirtualOperation_keeps_tree_witness:
  "tree_ok (nodes (snd (applyVirtualOperation sample_rename sample_state)))"
proof -
  obtain st where "applyVirtualOperation sample_rename sample_state = (Inr (), st)"
    using sample_rename_result by blast
  then show ?thesis
    using applyVirtualOperation_keeps_tree [of sample_state sample_rename] sample_tree_ok sample_rename_wf
    by (simp add: sample_state_def)
qed

lemma rename_map_of:
  assumes "tree_ok (nodes st)" and "op_wf op" and "opKind op = OperationKindRename"
    and "applyVirtualOperation op st = (Inr (), st')"
  shows "map_of (nodes st') q = Some n \<longleftrightarrow>
    (\<exists>p. map_of (nodes st) p = Some n \<and>
      q = (if in_subtree (opPath op) p
           then abs_path (elems (opDestination op) @ drop (length (elems (opPath op))) (elems p)) else p))"
proof -
  let ?ns = "nodes st" and ?src = "opPath op" and ?dst = "opDestination op"
  have wf: "path_wf ?src False" "path_wf ?dst False" using assms(2,3) by (simp_all add: op_wf_def)
  then have c: "clean_abs ?src" "?src \<noteq> ''/''" "clean_abs ?dst" "?dst \<noteq> ''/''" by (simp_all add: path_wf_def)
  obtain m where m: "map_of ?ns ?src = Some m" and nd: "\<not> has ?ns ?dst" and par: "hasParentDirectory st ?dst"
    and st': "nodes st' = (if typeID m = mutationNodeTypeDir then move_subtree ?src ?dst ?ns
                else put ?dst m (del ?src ?ns))"
    and nc: "typeID m = mutationNodeTypeDir \<Longrightarrow> \<not> isChildMutationPath ?dst ?src"
    using assms(3,4) by (auto simp: applyVirtualOperation_def Let_def split: option.splits if_splits)
  have key: "(if in_subtree ?src p then abs_path (elems ?dst @ drop (length (elems ?src)) (elems p)) else p)
      = rekey ?src ?dst p" if "map_of ?ns p = Some n" for p n
  proof -
    have cp: "clean_abs p" using that tree_okD(3) [OF assms(1)] path_wf_clean by blast
    show ?thesis using in_subtree_iff [OF cp c(1)] moved_path_elems [OF c cp] by (auto simp: rekey_def)
  qed
  have "map_of (nodes st') q = Some n \<longleftrightarrow> (\<exists>p. map_of ?ns p = Some n \<and> q = rekey ?src ?dst p)"
  proof (cases "typeID m = mutationNodeTypeDir")
    case True
    have "move_ok ?ns ?src ?dst" by (rule move_okI [OF assms(1) wf m nd par nc [OF True]])
    then show ?thesis using True st' move_subtree_map_of by simp
  next
    case False
    then have "\<not> is_dir ?ns ?src" using m by (simp add: is_dir_def)
    then have sub: "in_subtree ?src p \<longleftrightarrow> p = ?src" if "map_of ?ns p = Some n" for p n
      using below_is_dir [OF assms(1) c(1) that] by (auto simp: in_subtree_def)
    have "rekey ?src ?dst p = (if p = ?src then ?dst else p)" if "map_of ?ns p = Some n" for p n
    proof (cases "p = ?src")
      case True
      then show ?thesis
        using moved_path_elems [OF c c(1), of "[]"] abs_path_elems [OF c(3)] sub [OF that] by (simp add: rekey_def)
    qed (use sub [OF that] in \<open>simp add: rekey_def\<close>)
    then have "(\<exists>p. map_of ?ns p = Some n \<and> q = rekey ?src ?dst p) \<longleftrightarrow>
        (\<exists>p. map_of ?ns p = Some n \<and> q = (if p = ?src then ?dst else p))" by metis
    also have "\<dots> \<longleftrightarrow> q = ?dst \<and> n = m \<or> q \<noteq> ?dst \<and> q \<noteq> ?src \<and> map_of ?ns q = Some n"
      using m nd by (auto simp: has_def split: if_splits)
    also have "\<dots> \<longleftrightarrow> map_of (nodes st') q = Some n" using False st' nd m by (auto simp: has_def)
    finally show ?thesis by blast
  qed
  also have "\<dots> \<longleftrightarrow> (\<exists>p. map_of ?ns p = Some n \<and>
      q = (if in_subtree ?src p then abs_path (elems ?dst @ drop (length (elems ?src)) (elems p)) else p))"
    using key by metis
  finally show ?thesis .
qed

text \<open>
  C11: a successful rename moves exactly the source and what is below it: a node of the new
  tree is a node of the old one, at the same path when it was not at or below the source, and
  otherwise at the destination followed by the same path relative to the source.
\<close>

theorem rename_moves_subtree:
  assumes "tree_ok (nodes st)" and "op_wf op" and "opKind op = OperationKindRename"
    and "applyVirtualOperation op st = (Inr (), st')"
  shows "map_of (nodes st') q = Some n \<longleftrightarrow>
    (\<exists>p. map_of (nodes st) p = Some n \<and>
      q = (if in_subtree (opPath op) p
           then abs_path (elems (opDestination op) @ drop (length (elems (opPath op))) (elems p)) else p))"
  by (rule rename_map_of [OF assms])

theorem rename_moves_subtree_witness:
  "\<exists>st'. applyVirtualOperation sample_rename sample_state = (Inr (), st') \<and>
    map_of (nodes st') ''/e/f'' = Some (new_node mutationNodeTypeFile 7 [])"
proof -
  obtain st' where st': "applyVirtualOperation sample_rename sample_state = (Inr (), st')"
    using sample_rename_result by blast
  have "map_of (nodes sample_state) ''/d/f'' = Some (new_node mutationNodeTypeFile 7 [])"
    by (simp add: sample_state_def sample_tree_def)
  moreover have "''/e/f'' = (if in_subtree (opPath sample_rename) ''/d/f''
      then abs_path (elems (opDestination sample_rename) @ drop (length (elems (opPath sample_rename))) (elems ''/d/f''))
      else ''/d/f'')"
    by (simp add: sample_rename_def Operation0_def in_subtree_def isChildMutationPath_def elems_def
        abs_path_def slash_def dot_def dotdot_def)
  ultimately show ?thesis
    using rename_moves_subtree [of sample_state sample_rename st' "''/e/f''"] sample_tree_ok
      sample_rename_wf st'
    by (auto simp: sample_state_def sample_rename_def Operation0_def)
qed

lemma delete_map_of:
  assumes "tree_ok (nodes st)" and "op_wf op" and "opKind op = OperationKindDelete"
    and "applyVirtualOperation op st = (Inr (), st')"
  shows "map_of (nodes st') q = (if in_subtree (opPath op) q then None else map_of (nodes st) q)"
proof -
  have c: "clean_abs (opPath op)" using assms(2,3) by (simp add: op_wf_def path_wf_def)
  obtain m where m: "map_of (nodes st) (opPath op) = Some m"
    and st': "nodes st' = (if typeID m = mutationNodeTypeDir
      then filter (\<lambda>b. \<not> in_subtree (opPath op) (fst b)) (nodes st) else del (opPath op) (nodes st))"
    using assms(3,4) by (auto simp: applyVirtualOperation_def Let_def split: option.splits if_splits)
  show ?thesis
  proof (cases "typeID m = mutationNodeTypeDir")
    case True
    then show ?thesis
      using st' map_of_filter_key [of "\<lambda>q. \<not> in_subtree (opPath op) q" "nodes st" q] by auto
  next
    case False
    then have "\<not> is_dir (nodes st) (opPath op)" using m by (simp add: is_dir_def)
    then have "map_of (nodes st) q = None" if "in_subtree (opPath op) q" "q \<noteq> opPath op"
      using below_is_dir [OF assms(1) c _ that] by (cases "map_of (nodes st) q") auto
    moreover have "in_subtree (opPath op) (opPath op)" by (simp add: in_subtree_def)
    ultimately show ?thesis using st' False by auto
  qed
qed

text \<open>
  A successful delete removes exactly the path and what is below it, and changes no
  other node.
\<close>

theorem delete_removes_subtree:
  assumes "tree_ok (nodes st)" and "op_wf op" and "opKind op = OperationKindDelete"
    and "applyVirtualOperation op st = (Inr (), st')"
  shows "map_of (nodes st') q = (if in_subtree (opPath op) q then None else map_of (nodes st) q)"
  by (rule delete_map_of [OF assms])

theorem delete_removes_subtree_witness:
  "\<exists>st'. applyVirtualOperation (Operation0 OperationKindDelete ''/d'') sample_state = (Inr (), st') \<and>
    map_of (nodes st') ''/d/f'' = None"
proof -
  have r: "applyVirtualOperation (Operation0 OperationKindDelete ''/d'') sample_state =
      (Inr (), snd (applyVirtualOperation (Operation0 OperationKindDelete ''/d'') sample_state))"
    by (simp add: applyVirtualOperation_def Operation0_def sample_state_def sample_tree_def
        invalidatePathIndexes_def new_node_def Let_def)
  have "op_wf (Operation0 OperationKindDelete ''/d'')"
    by (simp add: op_wf_def Operation0_def path_wf_def Contains_def NUL_def)
  then show ?thesis
    using delete_removes_subtree [OF _ _ _ r, of "''/d/f''"] sample_tree_ok r
    by (auto simp: sample_state_def Operation0_def in_subtree_def isChildMutationPath_def)
qed

end
