(* ===== verification/Mutation_Plan.thy ===== *)
theory Mutation_Plan
  imports Mutation_State
begin

text \<open>
  The planner of random operation streams (\<^verbatim>\<open>mutate.go\<close>: \<open>planOperation\<close>,
  \<open>planNextOperation\<close>, \<open>GenerateOperations\<close> and the scan of the baseline). A planner works on
  the virtual tree and the random source, both threaded through; what it changed before an
  error stays. The locale \<open>op_stream\<close> is the contract between the planner and the virtual
  tree; it is interpreted on \<open>planNextOperation\<close>, \<open>normalizeOperation\<close> and
  \<open>applyVirtualOperation\<close>.
\<close>

section \<open>Planner primitives\<close>

type_synonym 'a planner = "(mutationState \<times> rng, 'a) sem"

definition drawS :: "int \<Rightarrow> int planner" where
  "drawS n s = (case Intn n (snd s) of (v, r') \<Rightarrow> (v, (fst s, r')))"

definition stateS :: "(mutationState \<Rightarrow> 'a \<times> mutationState) \<Rightarrow> 'a planner" where
  "stateS f s = (case f (fst s) of (x, st') \<Rightarrow> (Inr x, (st', snd s)))"

text \<open>\<^verbatim>\<open>xs[r.Intn(len(xs))]\<close>\<close>

definition pickS :: "string list \<Rightarrow> string planner" where
  "pickS xs = bindS (drawS (int (length xs))) (\<lambda>i. returnS (xs ! nat i))"

definition randomDataLength :: "int \<Rightarrow> int planner" where
  "randomDataLength max' =
     (if max' \<le> 1 then returnS 1 else bindS (drawS max') (\<lambda>v. returnS (v + 1)))"

definition randomBytes :: "int \<Rightarrow> 8 word list planner" where
  "randomBytes size' s = (case Read_bytes (nat size') (snd s) of (bs, r') \<Rightarrow> (Inr bs, (fst s, r')))"

text \<open>\<^verbatim>\<open>0o600 + r.Intn(0o200)\<close> and \<^verbatim>\<open>0o700 + r.Intn(0o100)\<close>\<close>

definition randomFileMode :: "32 word planner" where
  "randomFileMode = bindS (drawS 128) (\<lambda>v. returnS (word_of_int (384 + v)))"

definition randomDirMode :: "32 word planner" where
  "randomDirMode = bindS (drawS 64) (\<lambda>v. returnS (word_of_int (448 + v)))"

section \<open>Paths\<close>

definition maxMutationPathCollisionRetries :: nat where
  "maxMutationPathCollisionRetries = 128"

text \<open>\<^verbatim>\<open>mut_%04d_%02x\<close>\<close>

definition nextMutationName :: "string planner" where
  "nextMutationName =
     bindS (drawS 256) (\<lambda>v. stateS (\<lambda>st.
       (''mut_'' @ pad_zero 4 (show_nat (nameSeq st)) @ ''_'' @ hex_digits 2 (nat v),
        st\<lparr>nameSeq := nameSeq st + 1\<rparr>)))"

fun unique_path_loop :: "nat \<Rightarrow> string list \<Rightarrow> string planner" where
  "unique_path_loop 0 dirs = raiseS (Sentinel ErrMutationPathCollisionExhausted)"
| "unique_path_loop (Suc attempts) dirs =
     bindS (pickS dirs) (\<lambda>parent.
     bindS nextMutationName (\<lambda>name.
     bindS (getS fst) (\<lambda>st.
       let candidate = Clean (Join2 parent name) in
       if candidate = ''/'' then unique_path_loop attempts dirs
       else if has (nodes st) candidate then unique_path_loop attempts dirs
       else returnS candidate)))"

definition planUniquePath :: "string planner" where
  "planUniquePath =
     bindS (stateS sortedDirPaths) (\<lambda>dirs.
       if length dirs = 0 then raiseS (Errorf ''plan unique path'' (Some (Sentinel errOperationPreconditions)))
       else unique_path_loop maxMutationPathCollisionRetries dirs)"

text \<open>The destination of a rename: a fresh path that is not inside the renamed directory.\<close>

fun rename_loop :: "nat \<Rightarrow> OperationKind \<Rightarrow> string \<Rightarrow> mutationNodeType \<Rightarrow> Operation planner" where
  "rename_loop 0 kind source t =
     raiseS (Errorf ''rename destination'' (Some (Sentinel ErrMutationPathCollisionExhausted)))"
| "rename_loop (Suc attempts) kind source t =
     bindS planUniquePath (\<lambda>destination.
       if t = mutationNodeTypeDir \<and> isChildMutationPath destination source
       then rename_loop attempts kind source t
       else returnS ((Operation0 kind source)\<lparr>opDestination := destination\<rparr>))"

text \<open>\<^verbatim>\<open>user.mut_%03d\<close>\<close>

definition xattr_candidate :: "string planner" where
  "xattr_candidate = bindS (drawS 1000) (\<lambda>v. returnS (''user.mut_'' @ pad_zero 3 (show_nat (nat v))))"

fun xattr_name_loop :: "nat \<Rightarrow> string list \<Rightarrow> string \<Rightarrow> string planner" where
  "xattr_name_loop 0 existing name = returnS name"
| "xattr_name_loop (Suc attempts) existing name =
     bindS xattr_candidate (\<lambda>candidate.
       if candidate \<in> set existing then xattr_name_loop attempts existing name
       else returnS candidate)"

section \<open>Planning one operation\<close>

abbreviation preconditions_not_met :: "'a planner" where
  "preconditions_not_met \<equiv> raiseS (Sentinel errOperationPreconditions)"

text \<open>
  \<open>node_at\<close> is a read of the node map: the zero node (whose type is none of the three)
  for an absent key. \<open>sz\<close> is its size.
\<close>

definition node_size :: "mutationState \<Rightarrow> string \<Rightarrow> int" where
  "node_size st p = (case map_of (nodes st) p of None \<Rightarrow> 0 | Some n \<Rightarrow> nsize n)"

definition planOperation :: "int \<Rightarrow> int \<Rightarrow> OperationKind \<Rightarrow> int \<Rightarrow> Operation planner" where
  "planOperation uid gid kind maxDataSize =
     (case kind of
        OperationKindCreateFile \<Rightarrow>
          bindS planUniquePath (\<lambda>path.
          bindS randomFileMode (\<lambda>mode.
          bindS (randomDataLength maxDataSize) (\<lambda>len.
          bindS (randomBytes len) (\<lambda>data.
          returnS ((Operation0 kind path)\<lparr>opMode := mode, opData := data\<rparr>)))))
      | OperationKindCreateDir \<Rightarrow>
          bindS planUniquePath (\<lambda>path.
          bindS randomDirMode (\<lambda>mode.
          returnS ((Operation0 kind path)\<lparr>opMode := mode\<rparr>)))
      | OperationKindCreateSymlink \<Rightarrow>
          bindS (stateS (sortedPaths False)) (\<lambda>targets.
          if length targets = 0 then preconditions_not_met
          else bindS planUniquePath (\<lambda>path.
            bindS (pickS targets) (\<lambda>target.
            bindS (wrapS ''failed to derive relative symlink target'' (liftS (Rel (Dir path) target))) (\<lambda>relTarget.
            returnS ((Operation0 kind path)\<lparr>opLinkTarget := relTarget\<rparr>)))))
      | OperationKindCreateHardlink \<Rightarrow>
          bindS (stateS sortedFilePaths) (\<lambda>files.
          if length files = 0 then preconditions_not_met
          else bindS planUniquePath (\<lambda>path.
            bindS (pickS files) (\<lambda>source.
            returnS ((Operation0 kind path)\<lparr>opSourcePath := source\<rparr>))))
      | OperationKindDelete \<Rightarrow>
          bindS (stateS (sortedPaths False)) (\<lambda>paths.
          if length paths = 0 then preconditions_not_met
          else bindS (pickS paths) (\<lambda>path. returnS (Operation0 kind path)))
      | OperationKindRename \<Rightarrow>
          bindS (stateS (sortedPaths False)) (\<lambda>sources.
          if length sources = 0 then preconditions_not_met
          else bindS (pickS sources) (\<lambda>source.
            bindS (getS (\<lambda>s. map_of (nodes (fst s)) source)) (\<lambda>n.
            rename_loop maxMutationPathCollisionRetries kind source
              (case n of None \<Rightarrow> mutationNodeTypeFile | Some n \<Rightarrow> typeID n))))
      | OperationKindChmod \<Rightarrow>
          bindS (stateS (sortedPaths False)) (\<lambda>paths.
          if length paths = 0 then preconditions_not_met
          else bindS (pickS paths) (\<lambda>target.
            bindS randomFileMode (\<lambda>mode.
            bindS (getS (\<lambda>s. is_dir (nodes (fst s)) target)) (\<lambda>dir.
            bindS (if dir then randomDirMode else returnS mode) (\<lambda>mode.
            returnS ((Operation0 kind target)\<lparr>opMode := mode\<rparr>))))))
      | OperationKindChown \<Rightarrow>
          bindS (stateS (sortedPaths False)) (\<lambda>paths.
          if length paths = 0 then preconditions_not_met
          else if uid < 0 \<or> gid < 0 then preconditions_not_met
          else bindS (pickS paths) (\<lambda>path.
            returnS ((Operation0 kind path)\<lparr>opUID := uid, opGID := gid\<rparr>)))
      | OperationKindTruncate \<Rightarrow>
          bindS (stateS sortedFilePaths) (\<lambda>files.
          if length files = 0 then preconditions_not_met
          else bindS (pickS files) (\<lambda>filePath.
            bindS (getS (\<lambda>s. node_size (fst s) filePath)) (\<lambda>currentSize.
            let maxSize = (if currentSize > maxDataSize then currentSize else maxDataSize) in
            bindS (drawS (wrap64 (maxSize + 1))) (\<lambda>v.
            returnS ((Operation0 kind filePath)\<lparr>opSize := v\<rparr>)))))
      | OperationKindAppend \<Rightarrow>
          bindS (stateS sortedFilePaths) (\<lambda>files.
          if length files = 0 then preconditions_not_met
          else bindS (pickS files) (\<lambda>path.
            bindS (randomDataLength maxDataSize) (\<lambda>len.
            bindS (randomBytes len) (\<lambda>data.
            returnS ((Operation0 kind path)\<lparr>opData := data\<rparr>)))))
      | OperationKindOverwriteRange \<Rightarrow>
          bindS (stateS sortedFilePaths) (\<lambda>files.
          if length files = 0 then preconditions_not_met
          else bindS (pickS files) (\<lambda>filePath.
            bindS (getS (\<lambda>s. node_size (fst s) filePath)) (\<lambda>fileSize.
            if fileSize \<le> 0 then preconditions_not_met
            else bindS (drawS fileSize) (\<lambda>offset.
              let remaining = fileSize - offset in
              if remaining \<le> 0 then preconditions_not_met
              else bindS (randomDataLength (if maxDataSize > remaining then remaining else maxDataSize)) (\<lambda>len.
                bindS (randomBytes len) (\<lambda>data.
                returnS ((Operation0 kind filePath)\<lparr>opOffset := offset, opData := data\<rparr>)))))))
      | OperationKindSetXAttr \<Rightarrow>
          bindS (stateS (sortedPaths True)) (\<lambda>paths.
          if length paths = 0 then preconditions_not_met
          else bindS (pickS paths) (\<lambda>target.
            bindS (getS (\<lambda>s. case map_of (nodes (fst s)) target of None \<Rightarrow> None | Some n \<Rightarrow> xattrs n)) (\<lambda>existing.
            bindS xattr_candidate (\<lambda>name.
            bindS (case existing of
                     None \<Rightarrow> returnS name
                   | Some xs \<Rightarrow> xattr_name_loop maxMutationPathCollisionRetries xs name) (\<lambda>name.
            bindS (randomDataLength maxDataSize) (\<lambda>len.
            bindS (randomBytes len) (\<lambda>data.
            returnS ((Operation0 kind target)\<lparr>opXAttrName := name, opXAttrValue := data\<rparr>))))))))
      | OperationKindRemoveXAttr \<Rightarrow>
          bindS (stateS (sortedPathsWithXAttrs True)) (\<lambda>targets.
          if length targets = 0 then preconditions_not_met
          else bindS (pickS targets) (\<lambda>target.
            bindS (getS (\<lambda>s. sortedNodeXAttrs target (fst s))) (\<lambda>names.
            if length names = 0 then preconditions_not_met
            else bindS (pickS names) (\<lambda>name.
              returnS ((Operation0 kind target)\<lparr>opXAttrName := name\<rparr>)))))
      | OperationKindUnknown n \<Rightarrow> raiseS (Errorf ''operation'' (Some (Sentinel ErrUnsupportedOperation))))"

section \<open>The stream\<close>

text \<open>The kinds are tried in turn from a random one; only unmet preconditions go on to the next.\<close>

fun try_kinds ::
  "(OperationKind \<Rightarrow> Operation planner) \<Rightarrow> OperationKind list \<Rightarrow> err option \<Rightarrow> Operation planner" where
  "try_kinds plan [] lastErr =
     raiseS (case lastErr of None \<Rightarrow> Sentinel errOperationPreconditions | Some e \<Rightarrow> e)"
| "try_kinds plan (kind # kinds) lastErr =
     (\<lambda>s. case plan kind s of
        (Inr op, t) \<Rightarrow> (Inr op, t)
      | (Inl e, t) \<Rightarrow>
          if errors_Is e errOperationPreconditions
          then try_kinds plan kinds (Some (Errorf (OperationKind_String kind) (Some e))) t
          else (Inl (Errorf (OperationKind_String kind) (Some e)), t))"

definition planNextOperation :: "int \<Rightarrow> int \<Rightarrow> OperationKind list \<Rightarrow> int \<Rightarrow> Operation planner" where
  "planNextOperation uid gid allowedKinds maxDataSize =
     bindS (drawS (int (length allowedKinds))) (\<lambda>start.
     try_kinds (\<lambda>kind. planOperation uid gid kind maxDataSize)
       (map (\<lambda>i. allowedKinds ! ((nat start + i) mod length allowedKinds)) [0..<length allowedKinds]) None)"

definition applyS :: "Operation \<Rightarrow> unit planner" where
  "applyS op s = (case applyVirtualOperation op (fst s) of (x, st') \<Rightarrow> (x, (st', snd s)))"

fun generate_loop ::
  "Operation planner \<Rightarrow> (Operation \<Rightarrow> err + Operation) \<Rightarrow> (Operation \<Rightarrow> unit planner) \<Rightarrow> nat
     \<Rightarrow> Operation list planner" where
  "generate_loop plan norm apply' 0 = returnS []"
| "generate_loop plan norm apply' (Suc n) =
     bindS (wrapS ''failed to plan operation'' plan) (\<lambda>op.
     bindS (wrapS ''failed to normalize operation'' (liftS (norm op))) (\<lambda>normalized.
     bindS (wrapS ''failed to apply planned operation'' (apply' normalized)) (\<lambda>_.
     bindS (generate_loop plan norm apply' n) (\<lambda>ops.
     returnS (normalized # ops)))))"

section \<open>The scan of the baseline\<close>

text \<open>
  What \<^verbatim>\<open>filepath.Walk\<close> hands to its callback for one path: the error it met, the type and
  size of the file, and what \<^verbatim>\<open>listPathXAttrNames\<close> returns for it.
\<close>

datatype fileKind = FSymlink | FDir | FRegular | FOther

record walkVisit =
  wvPath :: string
  wvErr :: "err option"
  wvKind :: fileKind
  wvSize :: int
  wvXAttrs :: "err + string list"

definition canonicalMutationPath :: "string \<Rightarrow> string \<Rightarrow> err + string" where
  "canonicalMutationPath basePath path =
     bindE (wrapE ''failed to determine relative path'' (Rel basePath path)) (\<lambda>relPath.
       if relPath = ''.'' then Inr ''/'' else Inr (''/'' @ relPath))"

definition scanPathXAttrSet :: "err + string list \<Rightarrow> err + string list" where
  "scanPathXAttrSet listed =
     (case listed of
        Inl e \<Rightarrow> if errors_Is e ErrXAttrUnsupported then Inr [] else Inl e
      | Inr names \<Rightarrow> Inr (remdups names))"

fun scan_loop :: "string \<Rightarrow> walkVisit list \<Rightarrow> mutationNode gomap \<Rightarrow> err + mutationNode gomap" where
  "scan_loop basePath [] ns = Inr ns"
| "scan_loop basePath (v # vs) ns =
     (case wvErr v of
        Some e \<Rightarrow> Inl (Errorf ''failed to access path'' (Some e))
      | None \<Rightarrow>
          bindE (canonicalMutationPath basePath (wvPath v)) (\<lambda>nodePath.
          if nodePath = ''/'' then scan_loop basePath vs ns
          else if wvKind v = FOther then scan_loop basePath vs ns
          else bindE (scanPathXAttrSet (wvXAttrs v)) (\<lambda>xs.
            scan_loop basePath vs
              (put nodePath
                \<lparr>typeID = (case wvKind v of FSymlink \<Rightarrow> mutationNodeTypeSymlink
                           | FDir \<Rightarrow> mutationNodeTypeDir | _ \<Rightarrow> mutationNodeTypeFile),
                 nsize = (if wvKind v = FRegular then wvSize v else 0), xattrs = Some xs\<rparr> ns))))"

definition newMutationState :: "mutationNode gomap \<Rightarrow> mutationState" where
  "newMutationState ns =
     \<lparr>nodes = ns, nameSeq = 1, indexAll = [], indexFiles = [], indexDirs = [], indexXAttrs = [],
      indexesValid = False\<rparr>"

text \<open>\<open>baseInfo\<close> is the result of \<^verbatim>\<open>os.Stat(basePath)\<close>: whether it is a directory.\<close>

definition scanMutationState :: "string \<Rightarrow> err + bool \<Rightarrow> walkVisit list \<Rightarrow> err + mutationState" where
  "scanMutationState basePath baseInfo visits =
     bindE (wrapE ''failed to inspect baseline path'' baseInfo) (\<lambda>isDir.
     if \<not> isDir then Err ''baseline path is not a directory''
     else bindE (scan_loop basePath visits
                  [(''/'', \<lparr>typeID = mutationNodeTypeDir, nsize = 0, xattrs = None\<rparr>)]) (\<lambda>ns.
       Inr (newMutationState ns)))"

text \<open>
  \<open>seeded\<close> is \<^verbatim>\<open>rand.New(rand.NewSource(seed))\<close>; \<open>uid\<close> and \<open>gid\<close> are the ids of the process.
\<close>

definition GenerateOperations ::
  "(int \<Rightarrow> rng) \<Rightarrow> int \<Rightarrow> int \<Rightarrow> err + bool \<Rightarrow> walkVisit list \<Rightarrow> string \<Rightarrow> OperationGenerationOptions
     \<Rightarrow> err + Operation list" where
  "GenerateOperations seeded uid gid baseInfo visits basePath opts =
     (if TrimSpace basePath = [] then Fail ErrBasePathEmpty
      else bindE (validateGenerationOptions opts) (\<lambda>_.
        bindE (scanMutationState basePath baseInfo visits) (\<lambda>state.
        fst (generate_loop (planNextOperation uid gid (ogAllowedKinds opts) (ogMaxDataSize opts))
               normalizeOperation applyS (nat (ogCount opts)) (state, seeded (ogSeed opts))))))"

section \<open>The contract between planner and tree\<close>

text \<open>
  An operation stream is planned step by step against a state: a planned operation is in
  normal form, applies to the state it was planned for, and neither planning nor applying
  leaves the invariant. Then the loop fails only where planning fails, and its operations
  apply one after the other.
\<close>

fun applies_all :: "(Operation \<Rightarrow> unit planner) \<Rightarrow> Operation list \<Rightarrow> mutationState \<times> rng \<Rightarrow> bool" where
  "applies_all apply' [] s = True"
| "applies_all apply' (op # ops) s =
     (case apply' op s of (Inl e, t) \<Rightarrow> False | (Inr u, t) \<Rightarrow> applies_all apply' ops t)"

locale op_stream =
  fixes plan :: "Operation planner"
    and norm :: "Operation \<Rightarrow> err + Operation"
    and apply' :: "Operation \<Rightarrow> unit planner"
    and tree :: "mutationState \<Rightarrow> mutationNode gomap"
    and inv :: "mutationState \<Rightarrow> bool"
    and allowed :: "Operation \<Rightarrow> bool"
  assumes plan_inv: "inv (fst s) \<Longrightarrow> inv (fst (snd (plan s))) \<and> tree (fst (snd (plan s))) = tree (fst s)"
    and plan_norm: "inv (fst s) \<Longrightarrow> plan s = (Inr op, t) \<Longrightarrow> norm op = Inr op \<and> allowed op"
    and plan_applies: "inv (fst s) \<Longrightarrow> plan s = (Inr op, t) \<Longrightarrow> \<exists>u. apply' op t = (Inr (), u)"
    and apply_inv: "inv (fst s) \<Longrightarrow> norm op = Inr op \<Longrightarrow> inv (fst (snd (apply' op s)))"
    and apply_tree: "tree (fst s) = tree (fst s') \<Longrightarrow> fst (apply' op s) = fst (apply' op s') \<and>
          tree (fst (snd (apply' op s))) = tree (fst (snd (apply' op s')))"
begin

lemma step_cases:
  assumes "inv (fst s)"
  obtains (fail) e t where "plan s = (Inl e, t)" "inv (fst t)" "tree (fst t) = tree (fst s)"
  | (ok) op t u where "plan s = (Inr op, t)" "norm op = Inr op \<and> allowed op" "apply' op t = (Inr (), u)"
      "inv (fst u)" "tree (fst t) = tree (fst s)"
proof (cases "plan s" rule: prod.exhaust)
  case (Pair r t)
  show thesis
  proof (cases r)
    case (Inl e)
    then show thesis using fail [of e t] Pair plan_inv [OF assms] by simp
  next
    case (Inr op)
    obtain u where u: "apply' op t = (Inr (), u)" using plan_applies [OF assms] Pair Inr by blast
    have n: "norm op = Inr op \<and> allowed op" using plan_norm [OF assms] Pair Inr by blast
    have "inv (fst u)" using apply_inv [of t op] plan_inv [OF assms] Pair n u by simp
    then show thesis using ok [of op t u] Pair Inr n u plan_inv [OF assms] by simp
  qed
qed

lemma generate_error:
  assumes "inv (fst s)" and "generate_loop plan norm apply' n s = (Inl e, t)"
  shows "\<exists>s' e' t'. inv (fst s') \<and> plan s' = (Inl e', t') \<and> e = Errorf ''failed to plan operation'' (Some e')"
  using assms
proof (induction n arbitrary: s)
  case 0
  then show ?case by (simp add: returnS_def)
next
  case (Suc n)
  show ?case
  proof (cases rule: step_cases [OF Suc.prems(1)])
    case (1 e' t')
    then have "e = Errorf ''failed to plan operation'' (Some e')"
      using Suc.prems(2) by (simp add: bindS_def wrapS_def)
    then show ?thesis using 1 Suc.prems(1) by blast
  next
    case (2 op t' u)
    then have "generate_loop plan norm apply' n u = (Inl e, t)"
      using Suc.prems(2) by (auto simp: bindS_def wrapS_def liftS_def returnS_def split: prod.splits sum.splits)
    then show ?thesis using Suc.IH [of u] 2 by blast
  qed
qed

lemma applies_all_tree:
  "tree (fst s) = tree (fst s') \<Longrightarrow> applies_all apply' ops s = applies_all apply' ops s'"
proof (induction ops arbitrary: s s')
  case (Cons op ops)
  obtain r t r' t' where rt: "apply' op s = (r, t)" "apply' op s' = (r', t')"
    by (meson prod.exhaust)
  have "r = r'" "tree (fst t) = tree (fst t')" using apply_tree [OF Cons.prems, of op] rt by simp_all
  then show ?case using rt Cons.IH [of t t'] by (simp split: sum.split)
qed simp

lemma generate_ok:
  assumes "inv (fst s)" and "generate_loop plan norm apply' n s = (Inr ops, t)"
  shows "length ops = n \<and> list_all (\<lambda>op. norm op = Inr op \<and> allowed op) ops \<and> applies_all apply' ops s \<and> inv (fst t)"
  using assms
proof (induction n arbitrary: s ops)
  case 0
  then show ?case by (simp add: returnS_def)
next
  case (Suc n)
  show ?case
  proof (cases rule: step_cases [OF Suc.prems(1)])
    case (1 e' t')
    then show ?thesis using Suc.prems by (auto simp: bindS_def wrapS_def)
  next
    case (2 op t' u)
    then obtain rest where rest: "generate_loop plan norm apply' n u = (Inr rest, t)" "ops = op # rest"
      using Suc.prems(2) by (auto simp: bindS_def wrapS_def liftS_def returnS_def split: prod.splits sum.splits)
    obtain r w where w: "apply' op s = (r, w)" by (meson prod.exhaust)
    have "r = Inr ()" "tree (fst w) = tree (fst u)"
      using apply_tree [of s t' op] 2(3,5) w by simp_all
    then have "applies_all apply' ops s = applies_all apply' rest u"
      using rest(2) w applies_all_tree [of w u rest] by simp
    then show ?thesis using Suc.IH [OF 2(4) rest(1)] rest(2) 2(2) by simp
  qed
qed

end

section \<open>The path indexes\<close>

definition cache_ok :: "mutationState \<Rightarrow> bool" where
  "cache_ok st \<longleftrightarrow> (indexesValid st \<longrightarrow>
     indexAll st = paths_where (\<lambda>n. True) (nodes st) \<and>
     indexFiles st = paths_where (\<lambda>n. typeID n = mutationNodeTypeFile) (nodes st) \<and>
     indexDirs st = paths_where (\<lambda>n. typeID n = mutationNodeTypeDir) (nodes st) \<and>
     indexXAttrs st = paths_where (\<lambda>n. length (xattr_set n) > 0) (nodes st))"

lemma rebuild_ok:
  assumes "cache_ok st"
  shows "cache_ok (rebuildPathIndexes st)" "nodes (rebuildPathIndexes st) = nodes st"
    "indexAll (rebuildPathIndexes st) = paths_where (\<lambda>n. True) (nodes st)"
    "indexFiles (rebuildPathIndexes st) = paths_where (\<lambda>n. typeID n = mutationNodeTypeFile) (nodes st)"
    "indexDirs (rebuildPathIndexes st) = paths_where (\<lambda>n. typeID n = mutationNodeTypeDir) (nodes st)"
    "indexXAttrs (rebuildPathIndexes st) = paths_where (\<lambda>n. length (xattr_set n) > 0) (nodes st)"
  using assms by (simp_all add: cache_ok_def rebuildPathIndexes_def)

lemma cache_ok_invalidate [simp]: "cache_ok (invalidatePathIndexes st)"
  by (simp add: cache_ok_def invalidatePathIndexes_def)

lemma cache_ok_nodes [simp]:
  "\<not> indexesValid st \<Longrightarrow> cache_ok st" "cache_ok (st\<lparr>nameSeq := k\<rparr>) = cache_ok st"
  by (simp_all add: cache_ok_def)

lemma invalid_simps [simp]:
  "indexesValid (invalidatePathIndexes st) = False"
  "indexesValid (put_node p n st) = indexesValid st"
  by (simp_all add: invalidatePathIndexes_def put_node_def)

lemma apply_cache_ok: "cache_ok (snd (applyVirtualOperation op st))"
proof -
  have "\<not> indexesValid (snd (applyVirtualOperation op st))"
    by (cases "opKind op") (simp_all add: applyVirtualOperation_def Let_def split: option.splits sum.splits)
  then show ?thesis by simp
qed

lemma set_paths_where:
  "distinct (keys ns) \<Longrightarrow> p \<in> set (paths_where P ns) \<longleftrightarrow> (\<exists>n. map_of ns p = Some n \<and> P n)"
proof -
  assume "distinct (keys ns)"
  then have "map_of ns p = Some n \<longleftrightarrow> (p, n) \<in> set ns" for n
    using map_of_eq_Some_iff unfolding keys_def by fast
  then show ?thesis by (force simp: paths_where_def)
qed

lemma distinct_paths_where: "distinct (keys ns) \<Longrightarrow> distinct (paths_where P ns)"
  by (simp add: paths_where_def keys_def distinct_map_filter)

text \<open>The root sorts first, so dropping the first path drops the root.\<close>

lemma rooted_le_root: "rooted y \<Longrightarrow> y \<le> ''/'' \<Longrightarrow> y = ''/''"
  by (cases y) (auto simp: slash_def)

lemma drop_root_set:
  assumes "tree_ok ns" and "p \<in> set (drop_root False (paths_where P ns))"
  shows "p \<noteq> ''/'' \<and> (\<exists>n. map_of ns p = Some n \<and> P n)"
proof -
  let ?xs = "paths_where P ns"
  have d: "distinct ?xs" by (rule distinct_paths_where [OF tree_okD(1) [OF assms(1)]])
  have s: "sorted ?xs" by (simp add: paths_where_def)
  have r: "rooted q" if "q \<in> set ?xs" for q
    using that tree_okD(3) [OF assms(1)]
    by (auto simp: set_paths_where [OF tree_okD(1) [OF assms(1)]] path_wf_def clean_abs_def)
  have "p \<in> set ?xs" using assms(2) by (auto simp: drop_root_def dest: in_set_dropD split: if_splits)
  moreover have "p \<noteq> ''/''"
  proof (cases ?xs)
    case Nil
    then show ?thesis using assms(2) by (simp add: drop_root_def)
  next
    case (Cons y ys)
    then have y: "y = ''/'' \<or> ''/'' \<notin> set ?xs"
      using s r [of y] rooted_le_root [of y] by auto
    show ?thesis
    proof (cases "y = ''/''")
      case True
      then have "p \<in> set ys" using assms(2) Cons by (simp add: drop_root_def)
      then show ?thesis using d Cons True by auto
    next
      case False
      then show ?thesis using y \<open>p \<in> set ?xs\<close> by auto
    qed
  qed
  ultimately show ?thesis using set_paths_where [OF tree_okD(1) [OF assms(1)]] by blast
qed

section \<open>What a planner may do\<close>

definition planI :: "mutationNode gomap \<Rightarrow> mutationState \<times> rng \<Rightarrow> bool" where
  "planI ns s \<longleftrightarrow> nodes (fst s) = ns \<and> cache_ok (fst s)"

text \<open>\<open>m\<close> leaves the nodes alone and the indexes coherent, and its results satisfy \<open>R\<close>.\<close>

definition plans :: "mutationNode gomap \<Rightarrow> 'a planner \<Rightarrow> ('a \<Rightarrow> bool) \<Rightarrow> bool" where
  "plans ns m R = triple (planI ns) m (\<lambda>x s. planI ns s \<and> R x) (planI ns)"

lemma plans_bind:
  assumes "plans ns m R'" and "\<And>x. R' x \<Longrightarrow> plans ns (f x) R"
  shows "plans ns (bindS m f) R"
  unfolding plans_def
proof (rule triple_bindS)
  show "triple (planI ns) m (\<lambda>x s. planI ns s \<and> R' x) (planI ns)"
    using assms(1) by (simp add: plans_def)
  show "triple (\<lambda>s. planI ns s \<and> R' x) (f x) (\<lambda>x s. planI ns s \<and> R x) (planI ns)" for x
    using assms(2) [of x] by (auto simp: plans_def triple_def)
qed

lemma plans_return: "R x \<Longrightarrow> plans ns (returnS x) R"
  by (simp add: plans_def triple_def returnS_def)

lemma plans_raise: "plans ns (raiseS e) R"
  by (simp add: plans_def triple_def raiseS_def)

lemma plans_get: "(\<And>s. planI ns s \<Longrightarrow> R (f s)) \<Longrightarrow> plans ns (getS f) R"
  by (simp add: plans_def triple_def getS_def)

lemma plans_lift: "(\<And>x. r = Inr x \<Longrightarrow> R x) \<Longrightarrow> plans ns (liftS r) R"
  by (auto simp: plans_def triple_def liftS_def split: sum.split)

lemma plans_wrap: "plans ns m R \<Longrightarrow> plans ns (wrapS msg m) R"
  unfolding plans_def by (rule triple_wrapS)

lemma plans_weaken: "plans ns m R \<Longrightarrow> (\<And>x. R x \<Longrightarrow> R' x) \<Longrightarrow> plans ns m R'"
  unfolding plans_def by (erule triple_conseq) simp_all

lemma plans_if: "(b \<Longrightarrow> plans ns m R) \<Longrightarrow> (\<not> b \<Longrightarrow> plans ns m' R) \<Longrightarrow> plans ns (if b then m else m') R"
  by simp

lemma plans_draw: "plans ns (drawS n) (\<lambda>v. 0 \<le> v \<and> v < n)"
  unfolding plans_def
proof (rule tripleI)
  fix s e t assume "planI ns s" "drawS n s = (Inl e, t)"
  then show "planI ns t" by (auto simp: drawS_def planI_def split: prod.splits)
next
  fix s x t assume a: "planI ns s" "drawS n s = (Inr x, t)"
  then obtain r' where "Intn n (snd s) = (Inr x, r')" "t = (fst s, r')"
    by (auto simp: drawS_def split: prod.splits)
  then show "planI ns t \<and> 0 \<le> x \<and> x < n" using a Intn_bounds by (auto simp: planI_def)
qed

lemma plans_pick: "plans ns (pickS xs) (\<lambda>x. x \<in> set xs)"
  unfolding pickS_def by (rule plans_bind [OF plans_draw], rule plans_return) auto

lemma plans_bytes: "plans ns (randomBytes n) (\<lambda>bs. length bs = nat n)"
  unfolding plans_def
proof (rule tripleI)
  fix s x t assume a: "planI ns s" "randomBytes n s = (Inr x, t)"
  then have "t = (fst s, snd (Read_bytes (nat n) (snd s)))" "x = fst (Read_bytes (nat n) (snd s))"
    by (auto simp: randomBytes_def split: prod.splits)
  then show "planI ns t \<and> length x = nat n" using a(1) by (simp add: planI_def)
qed (auto simp: randomBytes_def split: prod.splits)

lemma plans_len: "plans ns (randomDataLength n) (\<lambda>v. 1 \<le> v)"
  unfolding randomDataLength_def
  by (rule plans_if) (auto intro!: plans_return plans_bind [OF plans_draw])

lemma mode_le: "0 \<le> k \<Longrightarrow> k \<le> 4095 \<Longrightarrow> (word_of_int k :: 32 word) \<le> maxPOSIXFileMode"
  by (simp add: word_le_def uint_word_of_int maxPOSIXFileMode_def)

lemma plans_fileMode: "plans ns randomFileMode (\<lambda>m. m \<le> maxPOSIXFileMode)"
  unfolding randomFileMode_def
  by (rule plans_bind [OF plans_draw], rule plans_return, rule mode_le) simp_all

lemma plans_dirMode: "plans ns randomDirMode (\<lambda>m. m \<le> maxPOSIXFileMode)"
  unfolding randomDirMode_def
  by (rule plans_bind [OF plans_draw], rule plans_return, rule mode_le) simp_all

lemma plans_state:
  assumes "\<And>st. cache_ok st \<Longrightarrow> nodes st = ns \<Longrightarrow>
    nodes (snd (f st)) = ns \<and> cache_ok (snd (f st)) \<and> R (fst (f st))"
  shows "plans ns (stateS f) R"
  unfolding plans_def
proof (rule tripleI)
  fix s e t assume "stateS f s = (Inl e, t)"
  then show "planI ns t" by (simp add: stateS_def split_beta)
next
  fix s x t assume "planI ns s" and "stateS f s = (Inr x, t)"
  then have "cache_ok (fst s)" "nodes (fst s) = ns" "x = fst (f (fst s))" "fst t = snd (f (fst s))"
    by (auto simp: stateS_def planI_def split_beta)
  then show "planI ns t \<and> R x" using assms by (simp add: planI_def)
qed

lemma plans_dirs: "plans ns (stateS sortedDirPaths) (\<lambda>xs. xs = paths_where (\<lambda>n. typeID n = mutationNodeTypeDir) ns)"
  by (rule plans_state) (simp add: sortedDirPaths_def Let_def rebuild_ok)

lemma plans_files: "plans ns (stateS sortedFilePaths) (\<lambda>xs. xs = paths_where (\<lambda>n. typeID n = mutationNodeTypeFile) ns)"
  by (rule plans_state) (simp add: sortedFilePaths_def Let_def rebuild_ok)

lemma plans_paths: "plans ns (stateS (sortedPaths b)) (\<lambda>xs. xs = drop_root b (paths_where (\<lambda>n. True) ns))"
  by (rule plans_state) (simp add: sortedPaths_def Let_def rebuild_ok)

lemma plans_xpaths:
  "plans ns (stateS (sortedPathsWithXAttrs b)) (\<lambda>xs. xs = drop_root b (paths_where (\<lambda>n. length (xattr_set n) > 0) ns))"
  by (rule plans_state) (simp add: sortedPathsWithXAttrs_def Let_def rebuild_ok)

text \<open>The names the planner makes up are path elements.\<close>

definition plain :: "string \<Rightarrow> bool" where
  "plain s \<longleftrightarrow> slash \<notin> set s \<and> NUL \<notin> set s"

lemma plain_show_nat: "plain (show_nat n)" and plain_hex: "plain (hex_digits w n)"
proof -
  have "is_digit c" if "c \<in> set (show_nat n)" for c
    using show_nat_digits that by (auto simp: list_all_iff)
  moreover have "\<not> is_digit slash" "\<not> is_digit NUL"
    by (simp_all add: is_digit_def slash_def NUL_def)
  ultimately show "plain (show_nat n)" unfolding plain_def by blast
  have "slash \<notin> set hex_alphabet" "NUL \<notin> set hex_alphabet"
    by (simp_all add: hex_alphabet_def slash_def NUL_def)
  then show "plain (hex_digits w n)" using hex_digits_set unfolding plain_def by blast
qed

lemma plain_pad: "plain s \<Longrightarrow> plain (pad_zero w s)"
  by (auto simp: plain_def pad_zero_def slash_def NUL_def)

definition mut_name :: "string \<Rightarrow> bool" where
  "mut_name s \<longleftrightarrow> elem_ok s \<and> NUL \<notin> set s"

lemma mut_nameI: "plain s \<Longrightarrow> plain t \<Longrightarrow> mut_name (''mut_'' @ s @ ''_'' @ t)"
  by (auto simp: mut_name_def elem_ok_def plain_def dot_def dotdot_def slash_def NUL_def)

lemma plans_name: "plans ns nextMutationName mut_name"
  unfolding nextMutationName_def
  by (rule plans_bind [OF plans_draw], rule plans_state)
    (use mut_nameI [OF plain_pad [OF plain_show_nat] plain_hex] in simp)

section \<open>Fresh paths\<close>

text \<open>A path a creating operation may use: well formed, absent, below a directory of the tree.\<close>

definition fresh :: "mutationNode gomap \<Rightarrow> string \<Rightarrow> bool" where
  "fresh ns p \<longleftrightarrow> path_wf p False \<and> \<not> has ns p \<and> is_dir ns (Dir p)"

lemma fresh_child:
  assumes "tree_ok ns" and "is_dir ns d" and "mut_name w" and "\<not> has ns (Clean (Join2 d w))"
  shows "fresh ns (Clean (Join2 d w))"
proof -
  obtain n where "map_of ns d = Some n" using assms(2) by (auto simp: is_dir_def split: option.splits)
  then have wf: "path_wf d True" by (rule tree_okD(3) [OF assms(1)])
  then have c: "clean_abs d" by (rule path_wf_clean)
  have w: "elem_ok w" "NUL \<notin> set w" using assms(3) by (simp_all add: mut_name_def)
  have ok: "\<forall>x \<in> set (elems d @ [w]). elem_ok x" using elems_ok [of _ d] w(1) by auto
  have p: "Clean (Join2 d w) = abs_path (elems d @ [w])"
    using Join2_abs_path [of "elems d" w] elems_ok [of _ d] w(1) abs_path_elems [OF c] ok by simp
  have "Dir (abs_path (elems d @ [w])) = d" using Dir_abs_path_snoc [OF ok] abs_path_elems [OF c] by simp
  moreover have "abs_path (elems d @ [w]) \<noteq> ''/''"
    using abs_path_eq_root [OF ok] by (simp add: slash_string)
  moreover have "\<not> Contains (abs_path (elems d @ [w])) NUL"
  proof -
    have "set (abs_path (elems d @ [w])) \<subseteq> insert slash (set d \<union> set w)"
      using abs_path_snoc [of "elems d" w] abs_path_elems [OF c] by auto
    then show ?thesis using wf w(2) by (auto simp: path_wf_def Contains_def NUL_def slash_def)
  qed
  ultimately show ?thesis using assms(2,4) ok unfolding p fresh_def path_wf_def by simp
qed

lemma plans_unique_loop:
  assumes "tree_ok ns" and "\<forall>d \<in> set dirs. is_dir ns d"
  shows "plans ns (unique_path_loop k dirs) (fresh ns)"
proof (induction k)
  case 0
  then show ?case by (simp add: plans_raise)
next
  case (Suc k)
  show ?case
    unfolding unique_path_loop.simps Let_def
  proof (rule plans_bind [OF plans_pick], rule plans_bind [OF plans_name],
      rule plans_bind [where R' = "\<lambda>st. nodes st = ns"])
    fix parent name
    assume "parent \<in> set dirs" "mut_name name"
    then have d: "is_dir ns parent" using assms(2) by blast
    show "plans ns (getS fst) (\<lambda>st. nodes st = ns)" by (rule plans_get) (simp add: planI_def)
    fix st :: mutationState assume "nodes st = ns"
    then show "plans ns (if Clean (Join2 parent name) = ''/'' then unique_path_loop k dirs
        else if has (nodes st) (Clean (Join2 parent name)) then unique_path_loop k dirs
        else returnS (Clean (Join2 parent name))) (fresh ns)"
      using Suc.IH fresh_child [OF assms(1) d \<open>mut_name name\<close>] by (auto intro!: plans_if plans_return)
  qed
qed

lemma plans_unique:
  assumes "tree_ok ns"
  shows "plans ns planUniquePath (fresh ns)"
  unfolding planUniquePath_def
proof (rule plans_bind [OF plans_dirs], rule plans_if)
  fix dirs assume "dirs = paths_where (\<lambda>n. typeID n = mutationNodeTypeDir) ns"
  then have "\<forall>d \<in> set dirs. is_dir ns d"
    using set_paths_where [OF tree_okD(1) [OF assms]] by (auto simp: is_dir_def)
  then show "plans ns (unique_path_loop maxMutationPathCollisionRetries dirs) (fresh ns)"
    by (rule plans_unique_loop [OF assms])
qed (rule plans_raise)

section \<open>Planned operations are ready\<close>

definition ready :: "mutationNode gomap \<Rightarrow> Operation \<Rightarrow> bool" where
  "ready ns op \<longleftrightarrow> op_wf op \<and> fst (applyVirtualOperation op (newMutationState ns)) = Inr ()"

lemma hasParentDirectory_nodes: "nodes st = nodes st' \<Longrightarrow> hasParentDirectory st p = hasParentDirectory st' p"
  by (simp add: hasParentDirectory_def)

lemma apply_depends:
  assumes "nodes st = nodes st'"
  shows "fst (applyVirtualOperation op st) = fst (applyVirtualOperation op st')"
    and "nodes (snd (applyVirtualOperation op st)) = nodes (snd (applyVirtualOperation op st'))"
  using assms hasParentDirectory_nodes [OF assms]
  by (cases "opKind op"; simp add: applyVirtualOperation_def Let_def split: option.splits sum.splits)+

lemma nodes_new [simp]: "nodes (newMutationState ns) = ns"
  by (simp add: newMutationState_def)

lemma fresh_parent: "fresh ns p \<Longrightarrow> hasParentDirectory (newMutationState ns) p"
  using hasParentDirectory_is_dir path_wf_clean by (auto simp: fresh_def)

lemma fresh_facts: "fresh ns p \<Longrightarrow> path_wf p False \<and> \<not> has ns p \<and> map_of ns p = None"
  by (simp add: fresh_def has_def)

lemmas ready_simps = ready_def Operation0_def op_wf_def applyVirtualOperation_def

lemma node_path:
  assumes "tree_ok ns" and "map_of ns p = Some n"
  shows "path_wf p True" and "p \<noteq> ''/'' \<Longrightarrow> path_wf p False"
  using tree_okD(3) [OF assms] by (simp_all add: path_wf_def)

lemma picked_path:
  assumes "tree_ok ns" and "p \<in> set (drop_root False (paths_where P ns))"
  shows "path_wf p False" and "\<exists>n. map_of ns p = Some n"
  using drop_root_set [OF assms] node_path(2) [OF assms(1), of p] by blast+

lemma picked_file:
  assumes "tree_ok ns" and "p \<in> set (paths_where (\<lambda>n. typeID n = mutationNodeTypeFile) ns)"
  shows "path_wf p False" and "\<exists>n. map_of ns p = Some n \<and> typeID n = mutationNodeTypeFile"
proof -
  obtain n where n: "map_of ns p = Some n" "typeID n = mutationNodeTypeFile"
    using assms(2) unfolding set_paths_where [OF tree_okD(1) [OF assms(1)]] by blast
  have "p \<noteq> ''/''"
  proof
    assume "p = ''/''"
    then show False using n tree_okD(2) [OF assms(1)] by (simp add: is_dir_def)
  qed
  then show "path_wf p False" by (rule node_path(2) [OF assms(1) n(1)])
  show "\<exists>n. map_of ns p = Some n \<and> typeID n = mutationNodeTypeFile" using n by blast
qed

text \<open>The target of a planned link is relative, never empty and free of NUL bytes.\<close>

lemma Rel_target:
  assumes "clean_abs d" "clean_abs t" "\<not> Contains d NUL" "\<not> Contains t NUL" "Rel d t = Inr r"
  shows "r \<noteq> [] \<and> \<not> Contains r NUL"
proof -
  have ok: "\<forall>w \<in> set (elems d). elem_ok w" "\<forall>w \<in> set (elems t). elem_ok w" using elems_ok by blast+
  obtain bs ts where sc: "strip_common (elems d) (elems t) = (bs, ts)" by (meson prod.exhaust)
  have r: "r = (if elems d = elems t then dot else Join slash (replicate (length bs) dotdot @ ts))"
  proof -
    have "Rel d t = (if elems d = elems t then Inr dot
        else Inr (Join slash (replicate (length bs) dotdot @ ts)))"
      using Rel_abs_path [OF ok] sc
      by (simp only: abs_path_elems [OF assms(1)] abs_path_elems [OF assms(2)] prod.case)
    then show ?thesis using assms(5) by (simp split: if_splits)
  qed
  obtain p where p: "elems d = p @ bs" "elems t = p @ ts" using strip_common_append [OF sc] by blast
  let ?ws = "replicate (length bs) dotdot @ ts"
  have "set r \<subseteq> insert slash (insert (CHR ''.'') (set t))"
  proof -
    have "set w \<subseteq> insert (CHR ''.'') (set t)" if "w \<in> set ?ws" for w
      using that set_elems_sub [OF assms(2), of w] p by (auto simp: dotdot_def)
    then have "set (Join slash ?ws) \<subseteq> insert slash (insert (CHR ''.'') (set t))"
      using set_Join [of slash ?ws] by blast
    then show ?thesis unfolding r by (auto simp: dot_def)
  qed
  then have "\<not> Contains r NUL" using assms(4) by (auto simp: Contains_def NUL_def slash_def)
  moreover have "r \<noteq> []"
  proof (cases "elems d = elems t")
    case False
    then have "?ws \<noteq> []" using p by auto
    moreover have "[] \<notin> set ?ws" using ok(2) p by (auto simp: dotdot_def elem_ok_def)
    ultimately have "?ws \<noteq> [] \<and> ?ws \<noteq> [[]]" by (metis list.set_intros(1))
    then have "Join slash ?ws \<noteq> []" unfolding Join_eq_Nil by blast
    then show ?thesis using False r by simp
  qed (simp add: r dot_def)
  ultimately show ?thesis by blast
qed

lemma NUL_Dir:
  assumes "path_wf p False"
  shows "\<not> Contains (Dir p) NUL"
  using assms set_Clean [of "upto_last_slash p"] set_dropWhileD [of _ _ "rev p"]
  by (fastforce simp: Dir_def path_wf_def Contains_def NUL_def slash_def upto_last_slash_def)

lemma Rel_fresh:
  assumes "tree_ok ns" "fresh ns p" "map_of ns t = Some n" "Rel (Dir p) t = Inr r"
  shows "r \<noteq> [] \<and> \<not> Contains r NUL"
proof (rule Rel_target [OF _ _ _ _ assms(4)])
  show "clean_abs (Dir p)" using assms(2) by (simp add: fresh_def path_wf_def clean_abs_Dir)
  show "clean_abs t" "\<not> Contains t NUL" using node_path(1) [OF assms(1,3)] by (simp_all add: path_wf_def)
  show "\<not> Contains (Dir p) NUL" using NUL_Dir assms(2) by (simp add: fresh_def)
qed

lemmas planOp_simps = planOperation_def OperationKind.case

lemma plans_create:
  assumes t: "tree_ok ns"
  shows "plans ns (planOperation uid gid OperationKindCreateFile k) (ready ns)"
    and "plans ns (planOperation uid gid OperationKindCreateDir k) (ready ns)"
proof -
  show "plans ns (planOperation uid gid OperationKindCreateFile k) (ready ns)"
    unfolding planOp_simps
  proof (rule plans_bind [OF plans_unique [OF t]], rule plans_bind [OF plans_fileMode],
      rule plans_bind [OF plans_len], rule plans_bind [OF plans_bytes], rule plans_return)
    fix p m l and d :: "8 word list" assume "fresh ns p" "m \<le> maxPOSIXFileMode"
    then show "ready ns ((Operation0 OperationKindCreateFile p)\<lparr>opMode := m, opData := d\<rparr>)"
      using fresh_facts [of ns p] fresh_parent [of ns p] by (simp add: ready_simps Let_def)
  qed
  show "plans ns (planOperation uid gid OperationKindCreateDir k) (ready ns)"
    unfolding planOp_simps
  proof (rule plans_bind [OF plans_unique [OF t]], rule plans_bind [OF plans_dirMode], rule plans_return)
    fix p m assume "fresh ns p" "m \<le> maxPOSIXFileMode"
    then show "ready ns ((Operation0 OperationKindCreateDir p)\<lparr>opMode := m\<rparr>)"
      using fresh_facts [of ns p] fresh_parent [of ns p] by (simp add: ready_simps Let_def)
  qed
qed

lemma plans_symlink:
  assumes t: "tree_ok ns"
  shows "plans ns (planOperation uid gid OperationKindCreateSymlink k) (ready ns)"
  unfolding planOp_simps
proof (rule plans_bind [OF plans_paths], rule plans_if, rule plans_raise,
    rule plans_bind [OF plans_unique [OF t]], rule plans_bind [OF plans_pick],
    rule plans_bind [OF plans_wrap [OF plans_lift [where R = "\<lambda>r. r \<noteq> [] \<and> \<not> Contains r NUL"]]])
  fix targets p target r
  assume a: "targets = drop_root False (paths_where (\<lambda>n. True) ns)" "fresh ns p" "target \<in> set targets"
    "Rel (Dir p) target = Inr r"
  then obtain n where "map_of ns target = Some n" using picked_path(2) [OF t] by blast
  then show "r \<noteq> [] \<and> \<not> Contains r NUL" using Rel_fresh [OF t a(2)] a(4) by blast
next
  fix p :: string and target r :: string
  assume "fresh ns p" "r \<noteq> [] \<and> \<not> Contains r NUL"
  then show "plans ns (returnS ((Operation0 OperationKindCreateSymlink p)\<lparr>opLinkTarget := r\<rparr>)) (ready ns)"
    using fresh_facts [of ns p] fresh_parent [of ns p]
    by (intro plans_return) (simp add: ready_simps Let_def)
qed

lemma plans_hardlink:
  assumes t: "tree_ok ns"
  shows "plans ns (planOperation uid gid OperationKindCreateHardlink k) (ready ns)"
  unfolding planOp_simps
proof (rule plans_bind [OF plans_files], rule plans_if, rule plans_raise,
    rule plans_bind [OF plans_unique [OF t]], rule plans_bind [OF plans_pick], rule plans_return)
  fix files p source
  assume a: "files = paths_where (\<lambda>n. typeID n = mutationNodeTypeFile) ns" "fresh ns p" "source \<in> set files"
  note src = picked_file [OF t, of source]
  have "path_wf source False" using src(1) a by blast
  moreover obtain n where n: "map_of ns source = Some n" "typeID n = mutationNodeTypeFile"
    using src(2) a by blast
  moreover have "p \<noteq> source" using n fresh_facts [OF a(2)] by auto
  ultimately show "ready ns ((Operation0 OperationKindCreateHardlink p)\<lparr>opSourcePath := source\<rparr>)"
    using fresh_facts [OF a(2)] fresh_parent [OF a(2)] by (simp add: ready_simps Let_def)
qed

lemma plans_delete:
  assumes t: "tree_ok ns"
  shows "plans ns (planOperation uid gid OperationKindDelete k) (ready ns)"
  unfolding planOp_simps
proof (rule plans_bind [OF plans_paths], rule plans_if, rule plans_raise,
    rule plans_bind [OF plans_pick], rule plans_return)
  fix paths p assume "paths = drop_root False (paths_where (\<lambda>n. True) ns)" "p \<in> set paths"
  then have "path_wf p False" "\<exists>n. map_of ns p = Some n" using picked_path [OF t] by blast+
  then show "ready ns (Operation0 OperationKindDelete p)" by (auto simp: ready_simps Let_def)
qed

lemma plans_rename_loop:
  assumes t: "tree_ok ns" and src: "path_wf source False" "map_of ns source = Some n"
  shows "plans ns (rename_loop k OperationKindRename source (typeID n)) (ready ns)"
proof (induction k)
  case 0
  then show ?case by (simp add: plans_raise)
next
  case (Suc k)
  show ?case
    unfolding rename_loop.simps
  proof (rule plans_bind [OF plans_unique [OF t]], rule plans_if, rule Suc.IH, rule plans_return)
    fix d assume a: "fresh ns d" "\<not> (typeID n = mutationNodeTypeDir \<and> isChildMutationPath d source)"
    have "source \<noteq> d" using fresh_facts [OF a(1)] src(2) by auto
    then show "ready ns ((Operation0 OperationKindRename source)\<lparr>opDestination := d\<rparr>)"
      using fresh_facts [OF a(1)] fresh_parent [OF a(1)] src a(2) by (simp add: ready_simps Let_def)
  qed
qed

lemma plans_rename:
  assumes t: "tree_ok ns"
  shows "plans ns (planOperation uid gid OperationKindRename k) (ready ns)"
  unfolding planOp_simps
proof (rule plans_bind [OF plans_paths], rule plans_if, rule plans_raise, rule plans_bind [OF plans_pick])
  fix sources source
  assume "sources = drop_root False (paths_where (\<lambda>n. True) ns)" "source \<in> set sources"
  then have p: "path_wf source False" "\<exists>n. map_of ns source = Some n" using picked_path [OF t] by blast+
  show "plans ns (bindS (getS (\<lambda>s. map_of (nodes (fst s)) source)) (\<lambda>n.
      rename_loop maxMutationPathCollisionRetries OperationKindRename source
        (case n of None \<Rightarrow> mutationNodeTypeFile | Some n \<Rightarrow> typeID n))) (ready ns)"
  proof (rule plans_bind [where R' = "\<lambda>n. n = map_of ns source"])
    show "plans ns (getS (\<lambda>s. map_of (nodes (fst s)) source)) (\<lambda>n. n = map_of ns source)"
      by (rule plans_get) (simp add: planI_def)
    show "plans ns (rename_loop maxMutationPathCollisionRetries OperationKindRename source
        (case n of None \<Rightarrow> mutationNodeTypeFile | Some n \<Rightarrow> typeID n)) (ready ns)"
      if "n = map_of ns source" for n
      using that p plans_rename_loop [OF t p(1)] by (auto split: option.split)
  qed
qed

lemma plans_chmod:
  assumes t: "tree_ok ns"
  shows "plans ns (planOperation uid gid OperationKindChmod k) (ready ns)"
  unfolding planOp_simps
proof (rule plans_bind [OF plans_paths], rule plans_if, rule plans_raise, rule plans_bind [OF plans_pick],
    rule plans_bind [OF plans_fileMode], rule plans_bind [OF plans_get [where R = "\<lambda>_. True"]], rule TrueI,
    rule plans_bind [where R' = "\<lambda>m. m \<le> maxPOSIXFileMode"])
  fix mode and dir :: bool assume "mode \<le> maxPOSIXFileMode"
  then show "plans ns (if dir then randomDirMode else returnS mode) (\<lambda>m. m \<le> maxPOSIXFileMode)"
    by (intro plans_if plans_dirMode plans_return)
next
  fix paths p m
  assume "paths = drop_root False (paths_where (\<lambda>n. True) ns)" "p \<in> set paths"
    and m: "m \<le> maxPOSIXFileMode"
  then have "path_wf p False" "\<exists>n. map_of ns p = Some n" using picked_path [OF t] by blast+
  then show "plans ns (returnS ((Operation0 OperationKindChmod p)\<lparr>opMode := m\<rparr>)) (ready ns)"
    using m by (intro plans_return) (auto simp: ready_simps Let_def path_wf_def has_def)
qed

lemma plans_chown:
  assumes t: "tree_ok ns"
  shows "plans ns (planOperation uid gid OperationKindChown k) (ready ns)"
  unfolding planOp_simps
proof (rule plans_bind [OF plans_paths], rule plans_if, rule plans_raise, rule plans_if, rule plans_raise,
    rule plans_bind [OF plans_pick], rule plans_return)
  fix paths p
  assume "paths = drop_root False (paths_where (\<lambda>n. True) ns)" "p \<in> set paths"
    and u: "\<not> (uid < 0 \<or> gid < 0)"
  then have "path_wf p False" "\<exists>n. map_of ns p = Some n" using picked_path [OF t] by blast+
  then show "ready ns ((Operation0 OperationKindChown p)\<lparr>opUID := uid, opGID := gid\<rparr>)"
    using u by (auto simp: ready_simps Let_def path_wf_def has_def)
qed

lemma plans_truncate:
  assumes t: "tree_ok ns"
  shows "plans ns (planOperation uid gid OperationKindTruncate k) (ready ns)"
  unfolding planOp_simps Let_def
proof (rule plans_bind [OF plans_files], rule plans_if, rule plans_raise, rule plans_bind [OF plans_pick],
    rule plans_bind [OF plans_get [where R = "\<lambda>_. True"]], rule TrueI, rule plans_bind [OF plans_draw],
    rule plans_return)
  fix files p and v c :: int
  assume a: "files = paths_where (\<lambda>n. typeID n = mutationNodeTypeFile) ns" "p \<in> set files"
    and v: "0 \<le> v \<and> v < wrap64 ((if k < c then c else k) + 1)"
  then have "path_wf p False" "\<exists>n. map_of ns p = Some n \<and> typeID n = mutationNodeTypeFile"
    using picked_file [OF t] by blast+
  then show "ready ns ((Operation0 OperationKindTruncate p)\<lparr>opSize := v\<rparr>)"
    using v by (auto simp: ready_simps Let_def)
qed

lemma plans_append:
  assumes t: "tree_ok ns"
  shows "plans ns (planOperation uid gid OperationKindAppend k) (ready ns)"
  unfolding planOp_simps
proof (rule plans_bind [OF plans_files], rule plans_if, rule plans_raise, rule plans_bind [OF plans_pick],
    rule plans_bind [OF plans_len], rule plans_bind [OF plans_bytes], rule plans_return)
  fix files p and l :: int and d :: "8 word list"
  assume a: "files = paths_where (\<lambda>n. typeID n = mutationNodeTypeFile) ns" "p \<in> set files"
    and "1 \<le> l" "length d = nat l"
  then have "d \<noteq> []" by auto
  moreover have "path_wf p False" "\<exists>n. map_of ns p = Some n \<and> typeID n = mutationNodeTypeFile"
    using picked_file [OF t] a by blast+
  ultimately show "ready ns ((Operation0 OperationKindAppend p)\<lparr>opData := d\<rparr>)"
    by (auto simp: ready_simps Let_def)
qed

lemma plans_overwrite:
  assumes t: "tree_ok ns"
  shows "plans ns (planOperation uid gid OperationKindOverwriteRange k) (ready ns)"
  unfolding planOp_simps Let_def
proof (rule plans_bind [OF plans_files], rule plans_if, rule plans_raise, rule plans_bind [OF plans_pick],
    rule plans_bind [OF plans_get [where R = "\<lambda>_. True"]], rule TrueI, rule plans_if, rule plans_raise,
    rule plans_bind [OF plans_draw], rule plans_if, rule plans_raise, rule plans_bind [OF plans_len],
    rule plans_bind [OF plans_bytes], rule plans_return)
  fix files p and o' l sz :: int and d :: "8 word list"
  assume a: "files = paths_where (\<lambda>n. typeID n = mutationNodeTypeFile) ns" "p \<in> set files"
    and o': "0 \<le> o' \<and> o' < sz" and "1 \<le> l" "length d = nat l"
  then have "d \<noteq> []" by auto
  moreover have "path_wf p False" "\<exists>n. map_of ns p = Some n \<and> typeID n = mutationNodeTypeFile"
    using picked_file [OF t] a by blast+
  ultimately show "ready ns ((Operation0 OperationKindOverwriteRange p)\<lparr>opOffset := o', opData := d\<rparr>)"
    using o' by (auto simp: ready_simps Let_def)
qed

lemma xattr_candidate_wf: "xattr_name_wf (''user.mut_'' @ pad_zero 3 (show_nat n))"
proof -
  have "plain (pad_zero 3 (show_nat n))" by (intro plain_pad plain_show_nat)
  then show ?thesis
    by (auto simp: xattr_name_wf_def xattrNamespace_def Contains_def plain_def NUL_def Let_def)
qed

lemma plans_candidate: "plans ns xattr_candidate xattr_name_wf"
  unfolding xattr_candidate_def
  by (rule plans_bind [OF plans_draw], rule plans_return) (use xattr_candidate_wf in simp)

lemma plans_xattr_loop: "xattr_name_wf name \<Longrightarrow> plans ns (xattr_name_loop k xs name) xattr_name_wf"
proof (induction k)
  case (Suc k)
  show ?case
    unfolding xattr_name_loop.simps
    by (rule plans_bind [OF plans_candidate], rule plans_if, rule Suc.IH, rule Suc.prems, rule plans_return)
qed (simp add: plans_return)

lemma plans_setxattr:
  assumes t: "tree_ok ns"
  shows "plans ns (planOperation uid gid OperationKindSetXAttr k) (ready ns)"
  unfolding planOp_simps
proof (rule plans_bind [OF plans_paths], rule plans_if, rule plans_raise, rule plans_bind [OF plans_pick],
    rule plans_bind [OF plans_get [where R = "\<lambda>_. True"]], rule TrueI, rule plans_bind [OF plans_candidate],
    rule plans_bind [where R' = xattr_name_wf])
  fix ex :: "string list option" and name assume "xattr_name_wf name"
  then show "plans ns (case ex of None \<Rightarrow> returnS name
      | Some xs \<Rightarrow> xattr_name_loop maxMutationPathCollisionRetries xs name) xattr_name_wf"
    by (cases ex) (simp_all add: plans_return plans_xattr_loop)
next
  fix paths p name
  assume a: "paths = drop_root True (paths_where (\<lambda>n. True) ns)" "p \<in> set paths" "xattr_name_wf name"
  then obtain n where n: "map_of ns p = Some n"
    using set_paths_where [OF tree_okD(1) [OF t]] by (auto simp: drop_root_def)
  then have "path_wf p True" by (rule node_path(1) [OF t])
  then have "ready ns ((Operation0 OperationKindSetXAttr p)\<lparr>opXAttrName := name, opXAttrValue := d\<rparr>)" for d
    using a(3) n validateXAttrName_Inr [of name name] by (simp add: ready_simps Let_def)
  then show "plans ns (bindS (randomDataLength k) (\<lambda>len. bindS (randomBytes len) (\<lambda>data.
      returnS ((Operation0 OperationKindSetXAttr p)\<lparr>opXAttrName := name, opXAttrValue := data\<rparr>)))) (ready ns)"
    by (intro plans_bind [OF plans_len] plans_bind [OF plans_bytes] plans_return)
qed

lemma plans_removexattr:
  assumes t: "tree_ok ns"
  shows "plans ns (planOperation uid gid OperationKindRemoveXAttr k) (ready ns)"
  unfolding planOp_simps
proof (rule plans_bind [OF plans_xpaths], rule plans_if, rule plans_raise, rule plans_bind [OF plans_pick],
    rule plans_bind [where R' = "\<lambda>names. \<forall>st. nodes st = ns \<longrightarrow> names = sortedNodeXAttrs _ st"])
  fix p show "plans ns (getS (\<lambda>s. sortedNodeXAttrs p (fst s)))
      (\<lambda>names. \<forall>st. nodes st = ns \<longrightarrow> names = sortedNodeXAttrs p st)"
    by (rule plans_get) (simp add: planI_def sortedNodeXAttrs_def)
next
  fix paths p names
  assume a: "paths = drop_root True (paths_where (\<lambda>n. length (xattr_set n) > 0) ns)" "p \<in> set paths"
    and names: "\<forall>st. nodes st = ns \<longrightarrow> names = sortedNodeXAttrs p st"
  then obtain n where n: "map_of ns p = Some n"
    using set_paths_where [OF tree_okD(1) [OF t]] by (auto simp: drop_root_def)
  have p: "path_wf p True" by (rule node_path(1) [OF t n])
  have nm: "set names = set (xattr_set n)"
    using names [rule_format, of "newMutationState ns"] n by (simp add: sortedNodeXAttrs_def)
  have "ready ns ((Operation0 OperationKindRemoveXAttr p)\<lparr>opXAttrName := x\<rparr>)" if "x \<in> set names" for x
  proof -
    have "xattr_name_wf x" using that nm tree_okD(5) [OF t n] by (simp add: node_ok_def list_all_iff)
    then show ?thesis
      using that nm n p validateXAttrName_Inr [of x x] by (simp add: ready_simps Let_def)
  qed
  then show "plans ns (if length names = 0 then preconditions_not_met
      else bindS (pickS names) (\<lambda>name.
        returnS ((Operation0 OperationKindRemoveXAttr p)\<lparr>opXAttrName := name\<rparr>))) (ready ns)"
    by (intro plans_if plans_raise plans_bind [OF plans_pick] plans_return)
qed

lemma plans_planOperation:
  assumes "tree_ok ns"
  shows "plans ns (planOperation uid gid kind k) (ready ns)"
proof (cases kind)
  case (OperationKindUnknown n)
  then show ?thesis unfolding planOp_simps by (simp add: plans_raise)
qed (simp_all add: assms plans_create plans_symlink plans_hardlink plans_delete plans_rename plans_chmod
      plans_chown plans_truncate plans_append plans_overwrite plans_setxattr plans_removexattr)

text \<open>A planned operation has the kind that was asked for.\<close>

definition yields :: "'a planner \<Rightarrow> ('a \<Rightarrow> bool) \<Rightarrow> bool" where
  "yields m R \<longleftrightarrow> (\<forall>s x t. m s = (Inr x, t) \<longrightarrow> R x)"

lemma yields_bind: "(\<And>x. yields (f x) R) \<Longrightarrow> yields (bindS m f) R"
  unfolding yields_def bindS_eq_Inr by blast

lemma yields_return: "R x \<Longrightarrow> yields (returnS x) R"
  by (simp add: yields_def returnS_def)

lemma yields_raise: "yields (raiseS e) R"
  by (simp add: yields_def raiseS_def)

lemma yields_if: "yields m R \<Longrightarrow> yields m' R \<Longrightarrow> yields (if b then m else m') R"
  by simp

lemma yields_rename: "yields (rename_loop k kind source t) (\<lambda>op. opKind op = kind)"
  by (induction k)
    (auto simp: Operation0_def intro!: yields_raise yields_bind yields_if yields_return)

lemma planOperation_kind: "yields (planOperation uid gid kind k) (\<lambda>op. opKind op = kind)"
  by (cases kind; simp only: planOp_simps Let_def;
      intro yields_raise yields_bind yields_if yields_return yields_rename; simp add: Operation0_def)

lemma plans_try_kinds:
  assumes "\<And>kind. kind \<in> set kinds \<Longrightarrow> plans ns (plan kind) (R kind)"
  shows "plans ns (try_kinds plan kinds e) (\<lambda>op. \<exists>kind \<in> set kinds. R kind op)"
  using assms
proof (induction kinds arbitrary: e)
  case Nil
  then show ?case by (simp add: plans_raise)
next
  case (Cons kind kinds)
  have k: "triple (planI ns) (plan kind) (\<lambda>x s. planI ns s \<and> R kind x) (planI ns)"
    using Cons.prems by (simp add: plans_def)
  have r: "triple (planI ns) (try_kinds plan kinds e') (\<lambda>op s. planI ns s \<and> (\<exists>kind \<in> set kinds. R kind op)) (planI ns)"
    for e' using Cons by (simp add: plans_def)
  have out: "planI ns t \<and> (\<forall>op. r = Inr op \<longrightarrow> (\<exists>k \<in> set (kind # kinds). R k op))"
    if i: "planI ns s" and t: "try_kinds plan (kind # kinds) e s = (r, t)" for s r t
  proof -
    obtain q u where q: "plan kind s = (q, u)" by (meson prod.exhaust)
    show ?thesis
    proof (cases q)
      case (Inr op)
      then have "r = Inr op" "t = u" using q t by simp_all
      moreover have "planI ns u \<and> R kind op" using triple_okD [OF k i] q Inr by blast
      ultimately show ?thesis by simp
    next
      case (Inl e')
      have u: "planI ns u" using triple_errD [OF k i] q Inl by blast
      show ?thesis
      proof (cases "errors_Is e' errOperationPreconditions")
        case True
        then have "try_kinds plan kinds (Some (Errorf (OperationKind_String kind) (Some e'))) u = (r, t)"
          using t q Inl by simp
        then show ?thesis using triple_okD [OF r u] triple_errD [OF r u] by (cases r) auto
      next
        case False
        then show ?thesis using t q Inl u by auto
      qed
    qed
  qed
  show ?case
    unfolding plans_def
  proof (rule tripleI)
    fix s e1 t assume "planI ns s" and "try_kinds plan (kind # kinds) e s = (Inl e1, t)"
    then show "planI ns t" using out by blast
  next
    fix s op t assume "planI ns s" and "try_kinds plan (kind # kinds) e s = (Inr op, t)"
    then show "planI ns t \<and> (\<exists>k \<in> set (kind # kinds). R k op)" using out by blast
  qed
qed

lemma plans_next_kind:
  assumes "\<And>kind. plans ns (planOperation uid gid kind k) (R kind)"
  shows "plans ns (planNextOperation uid gid kinds k) (\<lambda>op. \<exists>kind \<in> set kinds. R kind op)"
  unfolding planNextOperation_def
proof (rule plans_bind [OF plans_draw])
  fix start assume v: "0 \<le> start \<and> start < int (length kinds)"
  let ?ks = "map (\<lambda>i. kinds ! ((nat start + i) mod length kinds)) [0..<length kinds]"
  have "0 < length kinds" using v by linarith
  then have "kinds ! ((nat start + i) mod length kinds) \<in> set kinds" for i
    by (intro nth_mem mod_less_divisor)
  then have sub: "set ?ks \<subseteq> set kinds" by auto
  show "plans ns (try_kinds (\<lambda>kind. planOperation uid gid kind k) ?ks None)
      (\<lambda>op. \<exists>kind \<in> set kinds. R kind op)"
    by (rule plans_weaken [OF plans_try_kinds [where R = R]]) (use assms sub in auto)
qed

lemma plans_yields:
  assumes "plans ns m R" and "yields m Q"
  shows "plans ns m (\<lambda>x. R x \<and> Q x)"
  unfolding plans_def
proof (rule tripleI)
  fix s e t assume "planI ns s" "m s = (Inl e, t)"
  then show "planI ns t" using triple_errD [OF assms(1) [unfolded plans_def]] by blast
next
  fix s x t assume "planI ns s" "m s = (Inr x, t)"
  then show "planI ns t \<and> R x \<and> Q x"
    using triple_okD [OF assms(1) [unfolded plans_def]] assms(2) unfolding yields_def by blast
qed

lemma plans_next:
  assumes "tree_ok ns"
  shows "plans ns (planNextOperation uid gid kinds k) (\<lambda>op. ready ns op \<and> opKind op \<in> set kinds)"
  by (rule plans_weaken [OF plans_next_kind [OF plans_yields [OF plans_planOperation [OF assms] planOperation_kind]]]) auto

section \<open>The contract holds\<close>

definition state_ok :: "mutationState \<Rightarrow> bool" where
  "state_ok st \<longleftrightarrow> tree_ok (nodes st) \<and> cache_ok st"

lemma next_ok:
  assumes "state_ok (fst s)" and "planNextOperation uid gid kinds k s = (r, t)"
  shows "state_ok (fst t)" and "nodes (fst t) = nodes (fst s)"
    and "r = Inr op \<Longrightarrow> ready (nodes (fst s)) op \<and> opKind op \<in> set kinds"
proof -
  have t: "tree_ok (nodes (fst s))" and i: "planI (nodes (fst s)) s"
    using assms(1) by (simp_all add: state_ok_def planI_def)
  note p = plans_next [OF t, of uid gid kinds k, unfolded plans_def]
  have "planI (nodes (fst s)) t" using triple_okD [OF p i] triple_errD [OF p i] assms(2) by (cases r) auto
  then show "state_ok (fst t)" "nodes (fst t) = nodes (fst s)" using t by (simp_all add: planI_def state_ok_def)
  show "r = Inr op \<Longrightarrow> ready (nodes (fst s)) op \<and> opKind op \<in> set kinds"
    using triple_okD [OF p i] assms(2) by blast
qed

interpretation ops: op_stream "planNextOperation uid gid kinds k" normalizeOperation applyS nodes state_ok
  "\<lambda>op. opKind op \<in> set kinds" for uid gid kinds k
proof
  fix s :: "mutationState \<times> rng" assume s: "state_ok (fst s)"
  show "state_ok (fst (snd (planNextOperation uid gid kinds k s))) \<and>
      nodes (fst (snd (planNextOperation uid gid kinds k s))) = nodes (fst s)"
    using next_ok(1,2) [OF s prod.collapse [symmetric]] by blast
  fix op t assume p: "planNextOperation uid gid kinds k s = (Inr op, t)"
  have r: "ready (nodes (fst s)) op \<and> opKind op \<in> set kinds" by (rule next_ok(3) [OF s p]) simp
  then show "normalizeOperation op = Inr op \<and> opKind op \<in> set kinds"
    using normalizeOperation_id by (simp add: ready_def)
  have "fst (applyVirtualOperation op (fst t)) = Inr ()"
    using r next_ok(2) [OF s p] apply_depends(1) [of "fst t" "newMutationState (nodes (fst s))" op]
    by (simp add: ready_def)
  then show "\<exists>u. applyS op t = (Inr (), u)" by (auto simp: applyS_def split: prod.split)
next
  fix s :: "mutationState \<times> rng" and op
  assume "state_ok (fst s)" "normalizeOperation op = Inr op"
  then show "state_ok (fst (snd (applyS op s)))"
    using apply_tree_ok [of "fst s" op] apply_cache_ok [of op "fst s"] op_wf_fixed
    by (simp add: state_ok_def applyS_def split_beta)
next
  fix s s' :: "mutationState \<times> rng" and op assume "nodes (fst s) = nodes (fst s')"
  from apply_depends [OF this, of op]
  show "fst (applyS op s) = fst (applyS op s') \<and>
      nodes (fst (snd (applyS op s))) = nodes (fst (snd (applyS op s')))"
    by (simp add: applyS_def split_beta)
qed

section \<open>The scan gives a tree\<close>

text \<open>
  What \<^verbatim>\<open>filepath.Walk\<close> promises for a clean rooted base: it visits a path at most once, only the
  base and paths below it, each after the directory that holds it; file names have no NUL
  byte, attribute names have a namespace.
\<close>

fun walk_ok :: "string \<Rightarrow> string list \<Rightarrow> string list \<Rightarrow> walkVisit list \<Rightarrow> bool" where
  "walk_ok base seen dirs [] = True"
| "walk_ok base seen dirs (v # vs) =
     (path_wf (wvPath v) True \<and> in_subtree base (wvPath v) \<and> wvPath v \<notin> set seen \<and>
      (wvPath v \<noteq> base \<longrightarrow> Dir (wvPath v) \<in> set dirs) \<and>
      (case wvXAttrs v of Inl e \<Rightarrow> True | Inr names \<Rightarrow> list_all xattr_name_wf names) \<and>
      walk_ok base (wvPath v # seen)
        (if wvKind v = FDir \<and> wvPath v \<noteq> base then wvPath v # dirs else dirs) vs)"

definition node_path_of :: "string \<Rightarrow> string \<Rightarrow> string" where
  "node_path_of base p = abs_path (drop (length (elems base)) (elems p))"

lemma canonical_path:
  assumes "clean_abs base" "clean_abs p" "in_subtree base p"
  shows "canonicalMutationPath base p = Inr (node_path_of base p)"
proof -
  obtain r where r: "elems p = elems base @ r" using assms(3) in_subtree_iff [OF assms(2,1)] by blast
  have ok: "\<forall>w \<in> set (elems base @ r). elem_ok w" using elems_ok [of _ p] r by simp
  note paths = abs_path_elems [OF assms(1)] abs_path_elems [OF assms(2)]
  show ?thesis
  proof (cases "r = []")
    case True
    have "Rel (abs_path (elems base)) (abs_path (elems base)) = Inr dot"
      using Rel_abs_path [of "elems base" "elems base"] ok by simp
    moreover have "p = base" using paths r True by simp
    ultimately show ?thesis
      using paths r True by (simp add: canonicalMutationPath_def node_path_of_def dot_def slash_string)
  next
    case False
    have "Rel base p = Inr (Join slash r)" using Rel_below [OF ok False] paths r by simp
    moreover have "Join slash r \<noteq> ''.''"
    proof
      assume "Join slash r = ''.''"
      then have "abs_path r = abs_path [dot]" by (simp add: abs_path_def dot_def)
      then have "r = [dot]"
        using Split_abs_path [of r] ok False arg_cong [of "abs_path r" "abs_path [dot]" "Split slash"]
        by (simp add: abs_path_def dot_def slash_def)
      then show False using ok by (simp add: elem_ok_def)
    qed
    ultimately show ?thesis using r by (simp add: canonicalMutationPath_def node_path_of_def abs_path_def slash_def)
  qed
qed

lemma node_path_of:
  assumes "path_wf base True" "path_wf p True" "in_subtree base p"
  shows "path_wf (node_path_of base p) True" and "elems p = elems base @ elems (node_path_of base p)"
proof -
  have c: "clean_abs base" "clean_abs p" using assms by (simp_all add: path_wf_def)
  obtain r where r: "elems p = elems base @ r" using assms(3) in_subtree_iff [OF c(2,1)] by blast
  have ok: "\<forall>w \<in> set r. elem_ok w" using elems_ok [of _ p] r by simp
  have np: "node_path_of base p = abs_path r" by (simp add: node_path_of_def r)
  then show "elems p = elems base @ elems (node_path_of base p)" using r ok by simp
  have "\<not> Contains (abs_path r) NUL"
  proof (rule NUL_moved [OF c(2) _ clean_abs_root])
    show "clean_abs (abs_path r)" using ok by simp
    show "\<not> Contains p NUL" using assms(2) by (simp add: path_wf_def)
    show "\<not> Contains [slash] NUL" by (simp add: Contains_def slash_def NUL_def)
    show "elems (abs_path r) = elems [slash] @ r" using ok elems_abs_path [of "[]"] by simp
    show "set r \<subseteq> set (elems p)" by (simp add: r)
  qed
  then show "path_wf (node_path_of base p) True" using ok by (simp add: np path_wf_def)
qed

lemma node_path_root:
  assumes "path_wf base True" "path_wf p True" "in_subtree base p"
  shows "node_path_of base p = ''/'' \<longleftrightarrow> p = base"
proof -
  note n = node_path_of [OF assms]
  have c: "clean_abs base" "clean_abs p" "clean_abs (node_path_of base p)"
    using assms n by (simp_all add: path_wf_def)
  show ?thesis using elems_Nil_iff [OF c(3)] n(2) elems_inj [OF c(2,1)] by auto
qed

lemma node_path_Dir:
  assumes "path_wf base True" "path_wf p True" "in_subtree base p" "p \<noteq> base"
  shows "Dir (node_path_of base p) = node_path_of base (Dir p)"
proof -
  note n = node_path_of [OF assms(1-3)]
  have c: "clean_abs base" "clean_abs p" "clean_abs (node_path_of base p)"
    using assms n by (simp_all add: path_wf_def)
  have "elems (node_path_of base p) \<noteq> []"
    using node_path_root [OF assms(1-3)] assms(4) elems_Nil_iff [OF c(3)] by simp
  then show ?thesis
    using n(2) Dir_clean_abs [OF c(3)] elems_Dir [OF c(2)]
    by (simp add: node_path_of_def [of base "Dir p"] butlast_append)
qed

lemma node_path_inj:
  assumes "path_wf base True" "path_wf p True" "in_subtree base p" "path_wf q True" "in_subtree base q"
    "node_path_of base p = node_path_of base q"
  shows "p = q"
proof -
  have c: "clean_abs p" "clean_abs q" using assms(2,4) by (simp_all add: path_wf_def)
  show ?thesis
    using node_path_of(2) [OF assms(1-3)] node_path_of(2) [OF assms(1,4,5)] assms(6) elems_inj [OF c] by simp
qed

text \<open>What holds of the nodes while the scan runs.\<close>

definition scan_inv :: "string \<Rightarrow> string list \<Rightarrow> string list \<Rightarrow> mutationNode gomap \<Rightarrow> bool" where
  "scan_inv base seen dirs ns \<longleftrightarrow> tree_ok ns \<and>
     (\<forall>d \<in> set dirs. is_dir ns (node_path_of base d)) \<and>
     (\<forall>q. has ns q \<longrightarrow> q = ''/'' \<or>
        (\<exists>p \<in> set seen. path_wf p True \<and> in_subtree base p \<and> q = node_path_of base p))"

lemma scan_inv_put:
  assumes "path_wf base True" and "scan_inv base seen dirs ns" and "path_wf p True" "in_subtree base p"
    and "p \<notin> set seen" "p \<noteq> base" "Dir p \<in> set dirs" "node_ok n"
  shows "scan_inv base (p # seen) (if typeID n = mutationNodeTypeDir then p # dirs else dirs)
    (put (node_path_of base p) n ns)"
proof -
  let ?q = "node_path_of base p"
  have t: "tree_ok ns" using assms(2) by (simp add: scan_inv_def)
  have new: "\<not> has ns ?q"
  proof
    assume "has ns ?q"
    then have "?q = ''/'' \<or> (\<exists>p' \<in> set seen. path_wf p' True \<and> in_subtree base p' \<and> ?q = node_path_of base p')"
      using assms(2) by (simp add: scan_inv_def)
    then show False
      using node_path_root [OF assms(1,3,4)] node_path_inj [OF assms(1,3,4)] assms(5,6) by blast
  qed
  have par: "is_dir ns (Dir ?q)"
    using node_path_Dir [OF assms(1,3,4,6)] assms(2,7) by (simp add: scan_inv_def)
  have "tree_ok (put ?q n ns)"
    using new by (intro tree_ok_put [OF t node_path_of(1) [OF assms(1,3,4)] par assms(8)]) (simp add: has_def)
  moreover have "is_dir (put ?q n ns) q" if "is_dir ns q" for q
    using that new is_dir_has by (auto simp: is_dir_put)
  ultimately show ?thesis
    using assms(2-4) unfolding scan_inv_def by (auto simp: is_dir_put)
qed

lemma scan_inv_skip: "scan_inv base seen dirs ns \<Longrightarrow> scan_inv base (p # seen) dirs ns"
  by (auto simp: scan_inv_def)

lemma scanned_node_ok:
  assumes "case r of Inl e \<Rightarrow> True | Inr names \<Rightarrow> list_all xattr_name_wf names" "scanPathXAttrSet r = Inr xs"
  shows "node_ok \<lparr>typeID = t, nsize = sz, xattrs = Some xs\<rparr>"
  using assms by (cases r) (auto simp: scanPathXAttrSet_def node_ok_def xattr_set_def list_all_iff split: if_splits)

lemma scan_loop_ok:
  assumes "path_wf base True"
  shows "scan_loop base vs ns = Inr ns' \<Longrightarrow> scan_inv base seen dirs ns \<Longrightarrow>
    walk_ok base seen dirs vs \<Longrightarrow> tree_ok ns'"
proof (induction vs arbitrary: ns seen dirs)
  case Nil
  then show ?case by (simp add: scan_inv_def)
next
  case (Cons v vs)
  let ?p = "wvPath v"
  have w: "path_wf ?p True" "in_subtree base ?p" "?p \<notin> set seen" "?p \<noteq> base \<longrightarrow> Dir ?p \<in> set dirs"
    "case wvXAttrs v of Inl e \<Rightarrow> True | Inr names \<Rightarrow> list_all xattr_name_wf names"
    and rest: "walk_ok base (?p # seen) (if wvKind v = FDir \<and> ?p \<noteq> base then ?p # dirs else dirs) vs"
    using Cons.prems(3) by simp_all
  have c: "canonicalMutationPath base ?p = Inr (node_path_of base ?p)"
    by (rule canonical_path [OF path_wf_clean [OF assms] path_wf_clean [OF w(1)] w(2)])
  have noerr: "wvErr v = None" using Cons.prems(1) by (cases "wvErr v") simp_all
  show ?case
  proof (cases "?p = base \<or> wvKind v = FOther")
    case True
    then have "scan_loop base vs ns = Inr ns'"
      using Cons.prems(1) noerr c node_path_root [OF assms w(1,2)] by (auto split: if_splits)
    moreover have "walk_ok base (?p # seen) dirs vs" using rest True by (auto split: if_splits)
    ultimately show ?thesis using Cons.IH scan_inv_skip [OF Cons.prems(2)] by blast
  next
    case False
    let ?t = "case wvKind v of FSymlink \<Rightarrow> mutationNodeTypeSymlink | FDir \<Rightarrow> mutationNodeTypeDir
      | _ \<Rightarrow> mutationNodeTypeFile"
    obtain xs sz where xs: "scanPathXAttrSet (wvXAttrs v) = Inr xs" and
      next': "scan_loop base vs (put (node_path_of base ?p) \<lparr>typeID = ?t, nsize = sz, xattrs = Some xs\<rparr> ns) = Inr ns'"
      using Cons.prems(1) noerr c node_path_root [OF assms w(1,2)] False by (auto split: if_splits)
    let ?n = "\<lparr>typeID = ?t, nsize = sz, xattrs = Some xs\<rparr>"
    have "scan_inv base (?p # seen) (if typeID ?n = mutationNodeTypeDir then ?p # dirs else dirs)
        (put (node_path_of base ?p) ?n ns)"
      by (rule scan_inv_put [OF assms Cons.prems(2) w(1-3)]) (use False w(4) scanned_node_ok [OF w(5) xs] in auto)
    moreover have "(if typeID ?n = mutationNodeTypeDir then ?p # dirs else dirs) =
        (if wvKind v = FDir \<and> ?p \<noteq> base then ?p # dirs else dirs)"
      using False by (cases "wvKind v") simp_all
    ultimately show ?thesis using Cons.IH [OF next'] rest by simp
  qed
qed

lemma scan_ok:
  assumes "path_wf base True" "walk_ok base [] [base] visits" "scanMutationState base info visits = Inr st"
  shows "state_ok st"
proof -
  let ?root = "[(''/'', \<lparr>typeID = mutationNodeTypeDir, nsize = 0, xattrs = None\<rparr>)]"
  obtain ns where ns: "scan_loop base visits ?root = Inr ns" "st = newMutationState ns"
    using assms(3) by (auto simp: scanMutationState_def split: if_splits)
  have root: "node_path_of base base = ''/''" by (simp add: node_path_of_def slash_string)
  have "tree_ok ?root"
    by (simp add: tree_ok_def keys_def is_dir_def path_wf_def Contains_def NUL_def node_ok_def xattr_set_def)
  then have "scan_inv base [] [base] ?root" by (simp add: scan_inv_def root is_dir_def has_def)
  then have "tree_ok ns" using scan_loop_ok [OF assms(1) ns(1)] assms(2) by blast
  then show ?thesis using ns(2) by (simp add: state_ok_def cache_ok_def newMutationState_def)
qed

section \<open>Properties\<close>

text \<open>
  C1: the operations \<open>GenerateOperations\<close> returns: as many as asked for, all in normal form
  and of an allowed kind, and they apply one after the other to the scanned baseline, each to
  the tree its predecessors left. The random source and the ids of the process are arbitrary.
\<close>

theorem GenerateOperations_replays:
  assumes "path_wf base True" and "walk_ok base [] [base] visits"
    and "GenerateOperations seeded uid gid info visits base opts = Inr ops"
  shows "int (length ops) = ogCount opts \<and>
    list_all (\<lambda>op. op_wf op \<and> opKind op \<in> set (ogAllowedKinds opts)) ops \<and>
    (\<exists>st. scanMutationState base info visits = Inr st \<and> applies_all applyS ops (st, seeded (ogSeed opts)))"
proof -
  obtain st where v: "validateGenerationOptions opts = Inr ()" and st: "scanMutationState base info visits = Inr st"
    and g: "fst (generate_loop (planNextOperation uid gid (ogAllowedKinds opts) (ogMaxDataSize opts))
              normalizeOperation applyS (nat (ogCount opts)) (st, seeded (ogSeed opts))) = Inr ops"
    using assms(3) by (auto simp: GenerateOperations_def split: if_splits)
  have s: "state_ok (fst (st, seeded (ogSeed opts)))" using scan_ok [OF assms(1,2) st] by simp
  obtain t where gl: "generate_loop (planNextOperation uid gid (ogAllowedKinds opts) (ogMaxDataSize opts))
      normalizeOperation applyS (nat (ogCount opts)) (st, seeded (ogSeed opts)) = (Inr ops, t)"
    using g by (metis prod.collapse)
  have "length ops = nat (ogCount opts) \<and>
      list_all (\<lambda>op. normalizeOperation op = Inr op \<and> opKind op \<in> set (ogAllowedKinds opts)) ops \<and>
      applies_all applyS ops (st, seeded (ogSeed opts))"
    using ops.generate_ok [OF s gl] by blast
  moreover have "0 < ogCount opts" using v by (simp add: validateGenerationOptions_iff)
  ultimately show ?thesis using st by (auto simp: op_wf_fixed list_all_iff)
qed

text \<open>
  After a successful scan the generator can only fail in the choice of an operation (no
  kind has its preconditions met, or no free name was found): a planned operation is never
  rejected by the normalization or by the tree it was planned for.
\<close>

theorem GenerateOperations_error:
  assumes "path_wf base True" and "walk_ok base [] [base] visits"
    and "validateGenerationOptions opts = Inr ()" and "scanMutationState base info visits = Inr st"
    and "GenerateOperations seeded uid gid info visits base opts = Inl e"
  shows "\<exists>e' s t. state_ok (fst s) \<and> e = Errorf ''failed to plan operation'' (Some e') \<and>
    planNextOperation uid gid (ogAllowedKinds opts) (ogMaxDataSize opts) s = (Inl e', t)"
proof -
  have "rooted base" using assms(1) by (simp add: path_wf_def clean_abs_def)
  then have "TrimSpace base \<noteq> []" by (rule TrimSpace_rooted)
  then have g: "fst (generate_loop (planNextOperation uid gid (ogAllowedKinds opts) (ogMaxDataSize opts))
      normalizeOperation applyS (nat (ogCount opts)) (st, seeded (ogSeed opts))) = Inl e"
    using assms(3-5) by (simp add: GenerateOperations_def)
  have s: "state_ok (fst (st, seeded (ogSeed opts)))" using scan_ok [OF assms(1,2,4)] by simp
  obtain t where gl: "generate_loop (planNextOperation uid gid (ogAllowedKinds opts) (ogMaxDataSize opts))
      normalizeOperation applyS (nat (ogCount opts)) (st, seeded (ogSeed opts)) = (Inl e, t)"
    using g by (metis prod.collapse)
  show ?thesis using ops.generate_error [OF s gl] by blast
qed

text \<open>A baseline with one file, and a stream of one operation on it.\<close>

definition sample_visits :: "walkVisit list" where
  "sample_visits =
     [\<lparr>wvPath = ''/b'', wvErr = None, wvKind = FDir, wvSize = 0, wvXAttrs = Inr []\<rparr>,
      \<lparr>wvPath = ''/b/f'', wvErr = None, wvKind = FRegular, wvSize = 3, wvXAttrs = Inr [''user.x'']\<rparr>]"

definition sample_opts :: "OperationKind list \<Rightarrow> OperationGenerationOptions" where
  "sample_opts ks = \<lparr>ogSeed = 1, ogCount = 1, ogMaxDataSize = 4, ogAllowedKinds = ks\<rparr>"

lemma sample_walk: "path_wf ''/b'' True" "walk_ok ''/b'' [] [''/b''] sample_visits"
  "walk_ok ''/b'' [] [''/b''] []"
  by code_simp+

lemma sample_generates:
  "is_ok (GenerateOperations (\<lambda>s. []) 0 0 (Inr True) sample_visits ''/b'' (sample_opts [OperationKindTruncate]))"
  by code_simp

theorem GenerateOperations_replays_witness:
  "\<exists>ops st. GenerateOperations (\<lambda>s. []) 0 0 (Inr True) sample_visits ''/b''
      (sample_opts [OperationKindTruncate]) = Inr ops \<and> applies_all applyS ops (st, [])"
proof -
  obtain ops where "GenerateOperations (\<lambda>s. []) 0 0 (Inr True) sample_visits ''/b''
      (sample_opts [OperationKindTruncate]) = Inr ops"
    using sample_generates unfolding is_ok_iff by blast
  from this GenerateOperations_replays [OF sample_walk(1,2) this] show ?thesis by blast
qed

lemma sample_no_file:
  "case GenerateOperations (\<lambda>s. []) 0 0 (Inr True) [] ''/b'' (sample_opts [OperationKindTruncate])
     of Inl e \<Rightarrow> True | Inr ops \<Rightarrow> False"
  "is_ok (validateGenerationOptions (sample_opts [OperationKindTruncate]))"
  "is_ok (scanMutationState ''/b'' (Inr True) [])"
  by code_simp+

theorem GenerateOperations_error_witness:
  "\<exists>e. GenerateOperations (\<lambda>s. []) 0 0 (Inr True) [] ''/b'' (sample_opts [OperationKindTruncate]) =
     Inl (Errorf ''failed to plan operation'' (Some e))"
proof -
  obtain e where e: "GenerateOperations (\<lambda>s. []) 0 0 (Inr True) [] ''/b'' (sample_opts [OperationKindTruncate]) = Inl e"
    using sample_no_file(1) by (auto split: sum.splits)
  obtain st where st: "scanMutationState ''/b'' (Inr True) [] = Inr st"
    using sample_no_file(3) unfolding is_ok_iff by blast
  have "validateGenerationOptions (sample_opts [OperationKindTruncate]) = Inr ()"
    using sample_no_file(2) unfolding is_ok_iff by simp
  from GenerateOperations_error [OF sample_walk(1,3) this st e] e show ?thesis by blast
qed

end
