(* ===== verification/Generators.thy ===== *)
theory Generators
  imports Operations Go_Map
begin

text \<open>
  The building blocks a generator is configured with (\<^verbatim>\<open>vars.go\<close>, and the enumerations of
  \<^verbatim>\<open>links.go\<close>, \<^verbatim>\<open>special.go\<close>, \<^verbatim>\<open>runmode.go\<close>, \<^verbatim>\<open>content_patterns.go\<close>), the record \<open>Generator\<close>
  of \<^verbatim>\<open>generator.go\<close> with its completeness check, and the metadata it resolves per entry
  (\<^verbatim>\<open>metadata.go\<close>). A callback \<^verbatim>\<open>func(r *rand.Rand) T\<close> is a computation on the random source;
  the callbacks a user can pass are arbitrary such computations. A nil callback is
  \<^const>\<open>None\<close>, and calling it panics.
\<close>

section \<open>Callbacks\<close>

type_synonym 'a gen = "(rng, 'a) sem"
type_synonym NumberGenerator = "int gen"
type_synonym StringGenerator = "int \<Rightarrow> string gen"
type_synonym FileModeGenerator = "32 word gen"
type_synonym DataGenerator = "8 word list gen"
type_synonym BooleanGenerator = "bool gen"

text \<open>Instants are nanoseconds; the code only passes them on.\<close>

type_synonym time = int

text \<open>\<^verbatim>\<open>fmt.Sprintf("unknown(%d)", n)\<close>, the name of a value outside an enumeration.\<close>

definition unknown_name :: "8 word \<Rightarrow> string" where
  "unknown_name n = ''unknown('' @ show_nat (unat n) @ '')''"

definition makeslice_ok :: "int \<Rightarrow> unit gen" where
  "makeslice_ok n = (if n < 0 then raiseS (Panic ''makeslice: len out of range'') else returnS ())"

fun repeat_gen :: "nat \<Rightarrow> 'a gen \<Rightarrow> 'a list gen" where
  "repeat_gen 0 m = returnS []"
| "repeat_gen (Suc n) m = bindS m (\<lambda>x. bindS (repeat_gen n m) (\<lambda>xs. returnS (x # xs)))"

text \<open>One element of a slice, \<^verbatim>\<open>xs[r.Intn(len(xs))]\<close>.\<close>

definition pick :: "'a list \<Rightarrow> 'a gen" where
  "pick xs = bindS (Intn (int (length xs))) (\<lambda>i. returnS (xs ! nat i))"

section \<open>Name generators\<close>

text \<open>A rune of an alphabet is given by its UTF-8 encoding.\<close>

definition StringGeneratorAlphabet :: "string list \<Rightarrow> StringGenerator" where
  "StringGeneratorAlphabet alphabet len =
     bindS (makeslice_ok len) (\<lambda>_. bindS (repeat_gen (nat len) (pick alphabet)) (\<lambda>rs. returnS (concat rs)))"

definition ByteNameGeneratorAlphabet :: "string \<Rightarrow> StringGenerator" where
  "ByteNameGeneratorAlphabet alphabet byteLen =
     bindS (makeslice_ok byteLen) (\<lambda>_. repeat_gen (nat byteLen) (pick alphabet))"

definition ByteNameAlphabetEdgeCase :: string where
  "ByteNameAlphabetEdgeCase =
     ''abcdefghijklmnopqrstuvwxyzABCDEFGHIJKLMNOPQRSTUVWXYZ01234567890!@#$%^&*()-_+= ;.,''"

definition minInt :: "int \<Rightarrow> int \<Rightarrow> int" where
  "minInt a b = (if a < b then a else b)"

definition at_least_2 :: "int \<Rightarrow> int" where
  "at_least_2 byteLen = (if byteLen < 2 then 2 else byteLen)"

text \<open>
  The presets fill the name from left to right: \<open>edge_run\<close> is a run of special bytes, the
  rest comes from the edge-case alphabet.
\<close>

definition edge_fill :: "int \<Rightarrow> string gen" where
  "edge_fill n = repeat_gen (nat n) (pick ByteNameAlphabetEdgeCase)"

definition ByteNamePresetLeadingSpaces :: StringGenerator where
  "ByteNamePresetLeadingSpaces byteLen0 =
     (let byteLen = at_least_2 byteLen0 in
      bindS (Intn (minInt (byteLen - 1) 5)) (\<lambda>k. let nSpaces = 1 + k in
      bindS (edge_fill (byteLen - nSpaces)) (\<lambda>rest.
      returnS (replicate (nat nSpaces) (CHR '' '') @ rest))))"

definition ByteNamePresetTrailingSpaces :: StringGenerator where
  "ByteNamePresetTrailingSpaces byteLen0 =
     (let byteLen = at_least_2 byteLen0 in
      bindS (Intn (minInt (byteLen - 1) 5)) (\<lambda>k. let nSpaces = 1 + k in
      bindS (edge_fill (byteLen - nSpaces)) (\<lambda>front.
      returnS (front @ replicate (nat nSpaces) (CHR '' '')))))"

definition ByteNamePresetLeadingDots :: StringGenerator where
  "ByteNamePresetLeadingDots byteLen0 =
     (let byteLen = at_least_2 byteLen0 in
      bindS (Intn (minInt (byteLen - 1) 3)) (\<lambda>k. let nDots = 1 + k in
      bindS (edge_fill (byteLen - nDots)) (\<lambda>rest.
      returnS (replicate (nat nDots) (CHR ''.'') @ rest))))"

definition ByteNamePresetNewlineTab :: StringGenerator where
  "ByteNamePresetNewlineTab byteLen0 =
     (let byteLen = at_least_2 byteLen0 in
      bindS (Intn (minInt (byteLen - 1) 3)) (\<lambda>k. let nSpecial = 1 + k in
      bindS (repeat_gen (nat nSpecial) (pick [CHR 0x0A, CHR 0x0D, CHR 0x09])) (\<lambda>front.
      bindS (edge_fill (byteLen - nSpecial)) (\<lambda>rest.
      returnS (front @ rest)))))"

definition ByteNamePresetControlChars :: StringGenerator where
  "ByteNamePresetControlChars byteLen0 =
     (let byteLen = at_least_2 byteLen0 in
      bindS (Intn (minInt (byteLen - 1) 4)) (\<lambda>k. let nControl = 1 + k in
      bindS (repeat_gen (nat nControl) (bindS (Intn 31) (\<lambda>v. returnS (char_of (nat (1 + v)))))) (\<lambda>front.
      bindS (edge_fill (byteLen - nControl)) (\<lambda>rest.
      returnS (front @ rest)))))"

definition invalidSequences :: "string list" where
  "invalidSequences =
     [[CHR 0x80], [CHR 0xBF], [CHR 0xC0], [CHR 0xC1], [CHR 0xF5], [CHR 0xFF],
      [CHR 0xC2, CHR 0x00], [CHR 0xE0, CHR 0x00]]"

text \<open>The sequences are written until the name is full; a zero byte becomes \<^verbatim>\<open>0x80\<close>.\<close>

fun invalid_loop :: "nat \<Rightarrow> nat \<Rightarrow> string \<Rightarrow> string gen" where
  "invalid_loop 0 byteLen name = returnS name"
| "invalid_loop (Suc i) byteLen name =
     (if length name < byteLen
      then bindS (pick invalidSequences) (\<lambda>seq.
        invalid_loop i byteLen
          (take byteLen (name @ map (\<lambda>b. if b = CHR 0x00 then CHR 0x80 else b) seq)))
      else returnS name)"

definition ByteNamePresetInvalidUTF8 :: StringGenerator where
  "ByteNamePresetInvalidUTF8 byteLen0 =
     (let byteLen = at_least_2 byteLen0 in
      bindS (Intn (minInt (byteLen - 1) 4)) (\<lambda>k. let nInvalid = 1 + k in
      bindS (invalid_loop (nat nInvalid) (nat byteLen) []) (\<lambda>front.
      bindS (edge_fill (byteLen - int (length front))) (\<lambda>rest.
      returnS (front @ rest)))))"

definition combiningBytes :: string where
  "combiningBytes = [CHR 0xCC, CHR 0x81, CHR 0xCC, CHR 0x82, CHR 0xCC, CHR 0x83, CHR 0xCC, CHR 0x84]"

text \<open>The marks after the \<^verbatim>\<open>e\<close>, two bytes each, while two bytes are left.\<close>

fun combining_loop :: "nat \<Rightarrow> nat \<Rightarrow> nat \<Rightarrow> string \<Rightarrow> string" where
  "combining_loop 0 i byteLen name = name"
| "combining_loop (Suc n) i byteLen name =
     (if length name + 1 < byteLen
      then combining_loop n (i + 1) byteLen
             (take byteLen (name @ [combiningBytes ! (i * 2), combiningBytes ! (i * 2 + 1)]))
      else name)"

definition ByteNamePresetUnicodeNormalization :: StringGenerator where
  "ByteNamePresetUnicodeNormalization byteLen0 =
     (let byteLen = at_least_2 byteLen0 in
      bindS (Intn (minInt (byteLen - 1) 3)) (\<lambda>k. let nCombining = 1 + k;
        front = combining_loop (nat nCombining) 0 (nat byteLen) ''e'' in
      bindS (edge_fill (byteLen - int (length front))) (\<lambda>rest.
      returnS (front @ rest))))"

section \<open>Other generators\<close>

definition NumberGeneratorConstant :: "int \<Rightarrow> NumberGenerator" where
  "NumberGeneratorConstant val = returnS val"

definition NumberGeneratorRandomFlat :: "int \<Rightarrow> int \<Rightarrow> NumberGenerator" where
  "NumberGeneratorRandomFlat mn mx = bindS (Intn (mx - mn)) (\<lambda>v. returnS (v + mn))"

definition FileModeGeneratorConstant :: "32 word \<Rightarrow> FileModeGenerator" where
  "FileModeGeneratorConstant mode = returnS mode"

definition TimestampGeneratorConstant :: "time \<Rightarrow> time gen" where
  "TimestampGeneratorConstant ts = returnS ts"

definition ACLGeneratorFixed :: "string list \<Rightarrow> string list gen" where
  "ACLGeneratorFixed entries = returnS entries"

definition DataGeneratorFixed :: "8 word list \<Rightarrow> DataGenerator" where
  "DataGeneratorFixed data = returnS data"

definition DataGeneratorFixedString :: "string \<Rightarrow> DataGenerator" where
  "DataGeneratorFixedString str = DataGeneratorFixed (map (\<lambda>c. word_of_nat (of_char c)) str)"

definition read_bytes :: "nat \<Rightarrow> 8 word list gen" where
  "read_bytes n r = (case Read_bytes n r of (bs, r') \<Rightarrow> (Inr bs, r'))"

text \<open>\<^verbatim>\<open>r.Int63()\<close>\<close>

definition int63 :: "int gen" where
  "int63 r = (case Int63 r of (v, r') \<Rightarrow> (Inr v, r'))"

definition DataGeneratorRandomFixedLen :: "int \<Rightarrow> DataGenerator" where
  "DataGeneratorRandomFixedLen len = bindS (makeslice_ok len) (\<lambda>_. read_bytes (nat len))"

definition DataGeneratorRandom :: "NumberGenerator \<Rightarrow> DataGenerator" where
  "DataGeneratorRandom lengthGen =
     bindS lengthGen (\<lambda>len. bindS (makeslice_ok len) (\<lambda>_. read_bytes (nat len)))"

section \<open>Enumerations\<close>

datatype ContentPattern =
    ContentPatternDenseRandom | ContentPatternSparseHoles | ContentPatternRepeatedBlocks
  | ContentPatternPartialRangeOverwrite | ContentPatternUnknown "8 word"

definition ContentPattern_String :: "ContentPattern \<Rightarrow> string" where
  "ContentPattern_String p =
     (case p of
        ContentPatternDenseRandom \<Rightarrow> ''dense-random''
      | ContentPatternSparseHoles \<Rightarrow> ''sparse-holes''
      | ContentPatternRepeatedBlocks \<Rightarrow> ''repeated-blocks''
      | ContentPatternPartialRangeOverwrite \<Rightarrow> ''partial-range-overwrite''
      | ContentPatternUnknown n \<Rightarrow> unknown_name n)"

definition validateContentPattern :: "ContentPattern \<Rightarrow> err + unit" where
  "validateContentPattern p =
     (case p of ContentPatternUnknown n \<Rightarrow> Err ''invalid content pattern'' | _ \<Rightarrow> Inr ())"

datatype SymlinkStrategy =
    SymlinkStrategyAbsolute | SymlinkStrategyRelative | SymlinkStrategyDangling
  | SymlinkStrategySelfReferential | SymlinkStrategyChained | SymlinkStrategyCycle
  | SymlinkStrategyUnknown "8 word"

definition SymlinkStrategy_String :: "SymlinkStrategy \<Rightarrow> string" where
  "SymlinkStrategy_String s =
     (case s of
        SymlinkStrategyAbsolute \<Rightarrow> ''absolute''
      | SymlinkStrategyRelative \<Rightarrow> ''relative''
      | SymlinkStrategyDangling \<Rightarrow> ''dangling''
      | SymlinkStrategySelfReferential \<Rightarrow> ''self-referential''
      | SymlinkStrategyChained \<Rightarrow> ''chained''
      | SymlinkStrategyCycle \<Rightarrow> ''cycle''
      | SymlinkStrategyUnknown n \<Rightarrow> unknown_name n)"

definition validateSymlinkStrategy :: "SymlinkStrategy \<Rightarrow> err + unit" where
  "validateSymlinkStrategy s =
     (case s of SymlinkStrategyUnknown n \<Rightarrow> Err ''invalid symlink strategy'' | _ \<Rightarrow> Inr ())"

datatype SpecialFileType =
    SpecialFileTypeFIFO | SpecialFileTypeSocket | SpecialFileTypeCharDevice
  | SpecialFileTypeBlockDevice | SpecialFileTypeUnknown "8 word"

definition SpecialFileType_String :: "SpecialFileType \<Rightarrow> string" where
  "SpecialFileType_String t =
     (case t of
        SpecialFileTypeFIFO \<Rightarrow> ''fifo''
      | SpecialFileTypeSocket \<Rightarrow> ''socket''
      | SpecialFileTypeCharDevice \<Rightarrow> ''char-device''
      | SpecialFileTypeBlockDevice \<Rightarrow> ''block-device''
      | SpecialFileTypeUnknown n \<Rightarrow> unknown_name n)"

definition validateSpecialFileType :: "SpecialFileType \<Rightarrow> err + unit" where
  "validateSpecialFileType t =
     (case t of SpecialFileTypeUnknown n \<Rightarrow> Err ''invalid special file type'' | _ \<Rightarrow> Inr ())"

definition isSpecialDeviceType :: "SpecialFileType \<Rightarrow> bool" where
  "isSpecialDeviceType t \<longleftrightarrow> t = SpecialFileTypeCharDevice \<or> t = SpecialFileTypeBlockDevice"

datatype RunMode = RunModeAppend | RunModeStrict | RunModeReplace | RunModeUnknown "8 word"

definition RunMode_String :: "RunMode \<Rightarrow> string" where
  "RunMode_String m =
     (case m of
        RunModeAppend \<Rightarrow> ''append''
      | RunModeStrict \<Rightarrow> ''strict''
      | RunModeReplace \<Rightarrow> ''replace''
      | RunModeUnknown n \<Rightarrow> unknown_name n)"

definition validateRunMode :: "RunMode \<Rightarrow> err + unit" where
  "validateRunMode m =
     (case m of RunModeUnknown n \<Rightarrow> Err ''run mode must be one of append, strict, replace'' | _ \<Rightarrow> Inr ())"

section \<open>The generator\<close>

record xattrValueGeneratorConfig =
  xc_name :: string
  xc_valueGen :: "DataGenerator option"

record Generator =
  basePath :: string
  dirNameGen :: "StringGenerator option"
  dirNameLenGen :: "NumberGenerator option"
  dirModeGen :: "FileModeGenerator option"
  nFilesInDirGen :: "NumberGenerator option"
  nDirsInDirGen :: "NumberGenerator option"
  fileNameGen :: "StringGenerator option"
  fileNameLenGen :: "NumberGenerator option"
  fileModeGen :: "FileModeGenerator option"
  dataGen :: "DataGenerator option"
  pathDepthGen :: "NumberGenerator option"
  contentPatternGen :: "ContentPattern gen option"
  contentLogicalSizeGen :: "NumberGenerator option"
  ownershipUIDGen :: "NumberGenerator option"
  ownershipGIDGen :: "NumberGenerator option"
  atimeGen :: "time gen option"
  mtimeGen :: "time gen option"
  xattrValueGens :: "xattrValueGeneratorConfig list"
  xattrAllowTrustedNamespace :: bool
  xattrAllowSecurityNamespace :: bool
  aclEntriesGen :: "string list gen option"
  symlinkProbGen :: "BooleanGenerator option"
  symlinkRelProbGen :: "BooleanGenerator option"
  hardlinkProbGen :: "BooleanGenerator option"
  specialFileProbGen :: "BooleanGenerator option"
  symlinkStrategyGen :: "SymlinkStrategy gen option"
  specialFileTypeGen :: "SpecialFileType gen option"
  specialDeviceMajorGen :: "NumberGenerator option"
  specialDeviceMinorGen :: "NumberGenerator option"
  byteFileNameGen :: "StringGenerator option"
  byteDirNameGen :: "StringGenerator option"
  runMode :: RunMode
  planEntryLimit :: int

definition call :: "'a gen option \<Rightarrow> 'a gen" where
  "call f = (case f of None \<Rightarrow> raiseS (Panic ''nil function'') | Some m \<Rightarrow> m)"

definition call1 :: "('b \<Rightarrow> 'a gen) option \<Rightarrow> 'b \<Rightarrow> 'a gen" where
  "call1 f x = (case f of None \<Rightarrow> raiseS (Panic ''nil function'') | Some m \<Rightarrow> m x)"

definition New :: "string \<Rightarrow> Generator" where
  "New path =
     \<lparr>basePath = path, dirNameGen = None, dirNameLenGen = None, dirModeGen = None,
      nFilesInDirGen = None, nDirsInDirGen = None, fileNameGen = None, fileNameLenGen = None,
      fileModeGen = None, dataGen = None, pathDepthGen = None, contentPatternGen = None,
      contentLogicalSizeGen = None, ownershipUIDGen = None, ownershipGIDGen = None,
      atimeGen = None, mtimeGen = None, xattrValueGens = [], xattrAllowTrustedNamespace = False,
      xattrAllowSecurityNamespace = False, aclEntriesGen = None, symlinkProbGen = None,
      symlinkRelProbGen = None, hardlinkProbGen = None, specialFileProbGen = None,
      symlinkStrategyGen = None, specialFileTypeGen = None, specialDeviceMajorGen = None,
      specialDeviceMinorGen = None, byteFileNameGen = None, byteDirNameGen = None,
      runMode = RunModeAppend, planEntryLimit = 100000\<rparr>"

definition shouldPlanHardlink :: "Generator \<Rightarrow> bool gen" where
  "shouldPlanHardlink g = (case hardlinkProbGen g of None \<Rightarrow> returnS False | Some m \<Rightarrow> m)"

definition shouldPlanSpecialFile :: "Generator \<Rightarrow> bool gen" where
  "shouldPlanSpecialFile g = (case specialFileProbGen g of None \<Rightarrow> returnS False | Some m \<Rightarrow> m)"

definition nextSpecialFileType :: "Generator \<Rightarrow> SpecialFileType gen" where
  "nextSpecialFileType g =
     (case specialFileTypeGen g of None \<Rightarrow> returnS (SpecialFileTypeUnknown 0) | Some m \<Rightarrow> m)"

definition hasContentPatternConfiguration :: "Generator \<Rightarrow> bool" where
  "hasContentPatternConfiguration g \<longleftrightarrow> contentPatternGen g \<noteq> None \<and> contentLogicalSizeGen g \<noteq> None"

definition hasExplicitSymlinkStrategy :: "Generator \<Rightarrow> bool" where
  "hasExplicitSymlinkStrategy g \<longleftrightarrow> symlinkStrategyGen g \<noteq> None"

definition nextSymlinkStrategy :: "Generator \<Rightarrow> SymlinkStrategy gen" where
  "nextSymlinkStrategy g =
     (case symlinkStrategyGen g of
        Some m \<Rightarrow> m
      | None \<Rightarrow>
          (case symlinkRelProbGen g of
             None \<Rightarrow> returnS SymlinkStrategyAbsolute
           | Some m \<Rightarrow> bindS m (\<lambda>b. returnS (if b then SymlinkStrategyRelative else SymlinkStrategyAbsolute))))"

text \<open>A preset is a generator of names already.\<close>

definition ByteNameGeneratorPreset :: "StringGenerator \<Rightarrow> StringGenerator" where
  "ByteNameGeneratorPreset preset = preset"

section \<open>What the name presets return\<close>

lemma gives_int63: "gives int63 (\<lambda>v. 0 \<le> v \<and> v < 2 ^ 63)"
  using Int63_range by (auto simp: gives_def int63_def split_beta)

lemma gives_read: "gives (read_bytes n) (\<lambda>bs. length bs = n)"
  by (auto simp: gives_def read_bytes_def split_beta)

lemma gives_pick: "gives (pick xs) (\<lambda>x. x \<in> set xs)"
  unfolding pick_def by (rule gives_bind [OF gives_Intn], rule gives_return) (auto simp: nat_less_iff)

lemma gives_repeat: "gives m P \<Longrightarrow> gives (repeat_gen n m) (\<lambda>xs. length xs = n \<and> list_all P xs)"
proof (induction n)
  case 0
  show ?case by (simp add: gives_return)
next
  case (Suc n)
  show ?case
    unfolding repeat_gen.simps
    by (rule gives_bind [OF Suc.prems], rule gives_bind [OF Suc.IH [OF Suc.prems]], rule gives_return) simp
qed

text \<open>A byte that may stand in a name.\<close>

definition name_byte :: "char \<Rightarrow> bool" where
  "name_byte c \<longleftrightarrow> c \<noteq> NUL \<and> c \<noteq> slash"

lemma edge_alphabet_bytes: "list_all name_byte ByteNameAlphabetEdgeCase"
  by (simp add: ByteNameAlphabetEdgeCase_def name_byte_def NUL_def slash_def)

lemma gives_edge: "gives (edge_fill n) (\<lambda>w. length w = nat n \<and> list_all name_byte w)"
  unfolding edge_fill_def
  by (rule gives_repeat, rule gives_mono [OF gives_pick])
    (use edge_alphabet_bytes in \<open>simp add: list_all_iff\<close>)

text \<open>What a preset promises for a requested length: as many bytes (but two at least), each one
  legal, starting or ending as \<open>P\<close> says.\<close>

definition preset_name :: "(string \<Rightarrow> bool) \<Rightarrow> int \<Rightarrow> string \<Rightarrow> bool" where
  "preset_name P byteLen w \<longleftrightarrow> int (length w) = at_least_2 byteLen \<and> list_all name_byte w \<and> P w"

lemma at_least_2_ge: "2 \<le> at_least_2 n"
  by (simp add: at_least_2_def)

lemma bind_return [simp]: "bindS (returnS x) f = f x"
  by (rule ext) (simp add: bindS_def returnS_def)

lemma name_byte_simps [simp]:
  "name_byte (CHR '' '')" "name_byte (CHR ''.'')" "name_byte (CHR 0x0A)" "name_byte (CHR 0x0D)" "name_byte (CHR 0x09)"
  "name_byte (CHR ''e'')"
  by (simp_all add: name_byte_def NUL_def slash_def)

lemma minInt_run: "2 \<le> n \<Longrightarrow> 0 < c \<Longrightarrow> 0 < minInt (n - 1) c \<and> minInt (n - 1) c < n"
  by (simp add: minInt_def)

lemma list_all_replicate: "P x \<Longrightarrow> list_all P (replicate n x)"
  by (simp add: list_all_length)

text \<open>A preset starts (or ends) with a run of \<open>1 + k\<close> bytes; the rest fills the name.\<close>

lemma preset_run:
  assumes "0 \<le> k \<and> k < minInt (at_least_2 n - 1) c" and "length u = nat (1 + k)"
    and "length v = nat (at_least_2 n - (1 + k)) \<and> list_all name_byte v" and "list_all name_byte u"
  shows "u \<noteq> []" "preset_name (\<lambda>w. hd w = hd u) n (u @ v)" "preset_name (\<lambda>w. last w = last u) n (v @ u)"
proof -
  show u: "u \<noteq> []" using assms(1,2) by auto
  have "k < at_least_2 n - 1" using assms(1) by (simp add: minInt_def split: if_splits)
  then have "int (length u) + int (length v) = at_least_2 n" using assms by simp
  then show "preset_name (\<lambda>w. hd w = hd u) n (u @ v)" "preset_name (\<lambda>w. last w = last u) n (v @ u)"
    using assms(3,4) u by (simp_all add: preset_name_def)
qed

lemma preset_mono: "preset_name P n w \<Longrightarrow> (P w \<Longrightarrow> Q w) \<Longrightarrow> preset_name Q n w"
  by (simp add: preset_name_def)

lemma gives_LeadingSpaces: "gives (ByteNamePresetLeadingSpaces n) (preset_name (\<lambda>w. hd w = CHR '' '') n)"
  unfolding ByteNamePresetLeadingSpaces_def Let_def
  by (rule gives_bind [OF gives_Intn], rule gives_bind [OF gives_edge], rule gives_return,
      rule preset_mono [OF preset_run(2)]) (auto simp: list_all_replicate)

lemma gives_TrailingSpaces: "gives (ByteNamePresetTrailingSpaces n) (preset_name (\<lambda>w. last w = CHR '' '') n)"
  unfolding ByteNamePresetTrailingSpaces_def Let_def
  by (rule gives_bind [OF gives_Intn], rule gives_bind [OF gives_edge], rule gives_return,
      rule preset_mono [OF preset_run(3)]) (auto simp: list_all_replicate)

lemma gives_LeadingDots: "gives (ByteNamePresetLeadingDots n) (preset_name (\<lambda>w. hd w = CHR ''.'') n)"
  unfolding ByteNamePresetLeadingDots_def Let_def
  by (rule gives_bind [OF gives_Intn], rule gives_bind [OF gives_edge], rule gives_return,
      rule preset_mono [OF preset_run(2)]) (auto simp: list_all_replicate)

lemma list_all_hd: "list_all P w \<Longrightarrow> w \<noteq> [] \<Longrightarrow> P (hd w)"
  by (cases w) simp_all

text \<open>The presets that draw each byte of the run.\<close>

lemma gives_drawn_run:
  assumes "\<And>c. Q c \<Longrightarrow> name_byte c" and "gives m Q"
  shows "gives (bindS (Intn (minInt (at_least_2 n - 1) c)) (\<lambda>k. bindS (repeat_gen (nat (1 + k)) m) (\<lambda>u.
      bindS (edge_fill (at_least_2 n - (1 + k))) (\<lambda>v. returnS (u @ v))))) (preset_name (\<lambda>w. Q (hd w)) n)"
proof (rule gives_bind [OF gives_Intn], rule gives_bind [OF gives_repeat [OF assms(2)]],
    rule gives_bind [OF gives_edge], rule gives_return)
  fix k u v
  assume k: "0 \<le> k \<and> k < minInt (at_least_2 n - 1) c" and u: "length u = nat (1 + k) \<and> list_all Q u"
    and v: "length v = nat (at_least_2 n - (1 + k)) \<and> list_all name_byte v"
  have "list_all name_byte u" using u assms(1) by (auto simp: list_all_iff)
  note run = preset_run [OF k conjunct1 [OF u] v this]
  show "preset_name (\<lambda>w. Q (hd w)) n (u @ v)"
    by (rule preset_mono [OF run(2)]) (use u run(1) list_all_hd in auto)
qed

lemma gives_NewlineTab:
  "gives (ByteNamePresetNewlineTab n) (preset_name (\<lambda>w. hd w \<in> {CHR 0x0A, CHR 0x0D, CHR 0x09}) n)"
  unfolding ByteNamePresetNewlineTab_def Let_def
  by (rule gives_drawn_run) (auto intro: gives_mono [OF gives_pick])

lemma gives_ControlChars:
  "gives (ByteNamePresetControlChars n) (preset_name (\<lambda>w. of_char (hd w) \<in> {1..31 :: nat}) n)"
  unfolding ByteNamePresetControlChars_def Let_def
proof (rule gives_drawn_run)
  show "name_byte c" if "of_char c \<in> {1..31 :: nat}" for c
    using that by (auto simp: name_byte_def NUL_def slash_def)
  show "gives (bindS (Intn 31) (\<lambda>v. returnS (char_of (nat (1 + v)) :: char))) (\<lambda>c. of_char c \<in> {1..31 :: nat})"
    by (rule gives_bind [OF gives_Intn], rule gives_return) (auto simp: nat_le_iff)
qed

definition invalid_byte :: "char \<Rightarrow> bool" where
  "invalid_byte c \<longleftrightarrow> name_byte c \<and> 128 \<le> (of_char c :: nat)"

lemma invalidSequences_bytes:
  "list_all (\<lambda>q. q \<noteq> [] \<and> list_all (\<lambda>b. invalid_byte (if b = CHR 0x00 then CHR 0x80 else b)) q) invalidSequences"
  by (simp add: invalidSequences_def invalid_byte_def name_byte_def NUL_def slash_def)

lemma gives_invalid:
  "length w \<le> m \<Longrightarrow> list_all invalid_byte w \<Longrightarrow> 0 < m \<Longrightarrow>
     gives (invalid_loop i m w)
       (\<lambda>u. length u \<le> m \<and> list_all invalid_byte u \<and> (0 < i \<or> w \<noteq> [] \<longrightarrow> u \<noteq> []))"
proof (induction i arbitrary: w)
  case 0
  then show ?case by (simp add: gives_return)
next
  case (Suc i)
  show ?case
    unfolding invalid_loop.simps
  proof (rule gives_if, rule gives_bind [OF gives_pick])
    fix seq assume "seq \<in> set invalidSequences"
    then have seq: "seq \<noteq> []" "list_all (\<lambda>b. invalid_byte (if b = CHR 0x00 then CHR 0x80 else b)) seq"
      using invalidSequences_bytes unfolding list_all_iff by blast+
    let ?f = "\<lambda>b. if b = CHR 0x00 then CHR 0x80 else b"
    let ?w = "take m (w @ map ?f seq)"
    have "list_all invalid_byte (map ?f seq)" using seq(2) unfolding list_all_iff set_map by blast
    then have "list_all invalid_byte (w @ map ?f seq)" using Suc.prems(2) by (simp only: list_all_append simp_thms)
    then have w1: "list_all invalid_byte ?w" unfolding list_all_iff using in_set_takeD by metis
    have w2: "length ?w \<le> m" by (simp only: length_take min.cobounded2)
    have "w @ map ?f seq \<noteq> []" using seq(1) by blast
    then have w3: "?w \<noteq> []" using Suc.prems(3) unfolding take_eq_Nil by blast
    show "gives (invalid_loop i m ?w)
        (\<lambda>u. length u \<le> m \<and> list_all invalid_byte u \<and> (0 < Suc i \<or> w \<noteq> [] \<longrightarrow> u \<noteq> []))"
      by (rule gives_mono [OF Suc.IH [OF w2 w1 Suc.prems(3)]]) (use w3 in blast)
  next
    assume "\<not> length w < m"
    then have "w \<noteq> []" using Suc.prems(3) by auto
    then show "gives (returnS w) (\<lambda>u. length u \<le> m \<and> list_all invalid_byte u \<and> (0 < Suc i \<or> w \<noteq> [] \<longrightarrow> u \<noteq> []))"
      using Suc.prems by (auto intro!: gives_return)
  qed
qed

lemma preset_fill:
  assumes "length u \<le> nat (at_least_2 n)" "list_all name_byte u" "u \<noteq> []"
    and "length v = nat (at_least_2 n - int (length u)) \<and> list_all name_byte v"
  shows "preset_name (\<lambda>w. hd w = hd u) n (u @ v)"
  using assms by (auto simp: preset_name_def at_least_2_def split: if_splits)

lemma gives_InvalidUTF8:
  "gives (ByteNamePresetInvalidUTF8 n) (preset_name (\<lambda>w. 128 \<le> (of_char (hd w) :: nat)) n)"
  unfolding ByteNamePresetInvalidUTF8_def Let_def
proof (rule gives_bind [OF gives_Intn], rule gives_bind [OF gives_invalid], simp, simp,
    use at_least_2_ge [of n] in simp, rule gives_bind [OF gives_edge], rule gives_return)
  fix k u v
  assume k: "0 \<le> k \<and> k < minInt (at_least_2 n - 1) 4"
    and u: "length u \<le> nat (at_least_2 n) \<and> list_all invalid_byte u \<and> (0 < nat (1 + k) \<or> [] \<noteq> [] \<longrightarrow> u \<noteq> [])"
    and v: "length v = nat (at_least_2 n - int (length u)) \<and> list_all name_byte v"
  have ne: "u \<noteq> []" using u k by simp
  have "list_all name_byte u" using u by (auto simp: list_all_iff invalid_byte_def)
  moreover have "128 \<le> (of_char (hd u) :: nat)"
    using list_all_hd [of invalid_byte u] u ne by (simp add: invalid_byte_def)
  ultimately show "preset_name (\<lambda>w. 128 \<le> (of_char (hd w) :: nat)) n (u @ v)"
    using preset_mono [OF preset_fill [OF _ _ ne v]] u by simp
qed

lemma combiningBytes_nth: "list_all name_byte combiningBytes" "length combiningBytes = 8"
  by (simp_all add: combiningBytes_def name_byte_def NUL_def slash_def)

lemma combining_loop_ok:
  "i + k \<le> 4 \<Longrightarrow> length w \<le> m \<Longrightarrow> w \<noteq> [] \<Longrightarrow> list_all name_byte w \<Longrightarrow>
     length (combining_loop k i m w) \<le> m \<and> list_all name_byte (combining_loop k i m w) \<and>
     combining_loop k i m w \<noteq> [] \<and> hd (combining_loop k i m w) = hd w"
proof (induction k i m w rule: combining_loop.induct)
  case (2 n i m w)
  have "name_byte (combiningBytes ! (i * 2))" "name_byte (combiningBytes ! (i * 2 + 1))"
    using combiningBytes_nth 2(2) by (auto simp: list_all_length)
  then show ?case using 2 by (auto simp: hd_append)
qed simp

lemma gives_UnicodeNormalization:
  "gives (ByteNamePresetUnicodeNormalization n) (preset_name (\<lambda>w. hd w = CHR ''e'') n)"
  unfolding ByteNamePresetUnicodeNormalization_def Let_def
proof (rule gives_bind [OF gives_Intn], rule gives_bind [OF gives_edge], rule gives_return)
  fix k v
  assume k: "0 \<le> k \<and> k < minInt (at_least_2 n - 1) 3"
    and v: "length v = nat (at_least_2 n - int (length (combining_loop (nat (1 + k)) 0 (nat (at_least_2 n)) ''e''))) \<and>
      list_all name_byte v"
  have "nat (1 + k) \<le> 3" using k by (auto simp: minInt_def split: if_splits)
  then have c: "length (combining_loop (nat (1 + k)) 0 (nat (at_least_2 n)) ''e'') \<le> nat (at_least_2 n) \<and>
      list_all name_byte (combining_loop (nat (1 + k)) 0 (nat (at_least_2 n)) ''e'') \<and>
      combining_loop (nat (1 + k)) 0 (nat (at_least_2 n)) ''e'' \<noteq> [] \<and>
      hd (combining_loop (nat (1 + k)) 0 (nat (at_least_2 n)) ''e'') = hd ''e''"
    using combining_loop_ok [of 0 "nat (1 + k)" "''e''" "nat (at_least_2 n)"] at_least_2_ge [of n] by simp
  show "preset_name (\<lambda>w. hd w = CHR ''e'') n (combining_loop (nat (1 + k)) 0 (nat (at_least_2 n)) ''e'' @ v)"
    by (rule preset_mono [OF preset_fill [OF _ _ _ v]]) (use c in auto)
qed

lemma preset_elem_ok:
  assumes "preset_name P n w" and "P w \<Longrightarrow> w \<noteq> dotdot"
  shows "elem_ok w"
proof -
  have "2 \<le> length w" using assms(1) at_least_2_ge [of n] by (simp add: preset_name_def)
  then have "w \<noteq> []" "w \<noteq> dot" by (auto simp: dot_def)
  moreover have "slash \<notin> set w" using assms(1) by (auto simp: preset_name_def list_all_iff name_byte_def)
  ultimately show ?thesis using assms by (simp add: elem_ok_def preset_name_def)
qed

text \<open>What every preset name has: its length, no NUL byte, no slash.\<close>

definition legal_name :: "int \<Rightarrow> string \<Rightarrow> bool" where
  "legal_name n w \<longleftrightarrow> int (length w) = (if n < 2 then 2 else n) \<and> NUL \<notin> set w \<and> slash \<notin> set w"

lemma gives_legal:
  assumes "gives m (preset_name P n)" and "\<And>w. P w \<Longrightarrow> w \<noteq> dotdot"
  shows "gives m (\<lambda>w. legal_name n w \<and> elem_ok w)"
proof (rule gives_mono [OF assms(1)])
  fix w assume w: "preset_name P n w"
  have "legal_name n w"
    using w by (auto simp: preset_name_def legal_name_def at_least_2_def list_all_iff name_byte_def)
  then show "legal_name n w \<and> elem_ok w" using preset_elem_ok [OF w] assms(2) by blast
qed

text \<open>
  C18: the name presets give names of the requested length (of two bytes at least) without NUL
  bytes and slashes, and all of them but one only proper path elements. The exception is
  \<open>ByteNamePresetLeadingDots\<close>, which returns either a proper element or the name \<^verbatim>\<open>..\<close>, and
  does return \<^verbatim>\<open>..\<close> for some random source: joined to a directory that is its parent.
\<close>

theorem ByteNamePresets_names:
  "gives (ByteNamePresetLeadingSpaces n) (\<lambda>w. legal_name n w \<and> elem_ok w) \<and>
   gives (ByteNamePresetTrailingSpaces n) (\<lambda>w. legal_name n w \<and> elem_ok w) \<and>
   gives (ByteNamePresetNewlineTab n) (\<lambda>w. legal_name n w \<and> elem_ok w) \<and>
   gives (ByteNamePresetControlChars n) (\<lambda>w. legal_name n w \<and> elem_ok w) \<and>
   gives (ByteNamePresetInvalidUTF8 n) (\<lambda>w. legal_name n w \<and> elem_ok w) \<and>
   gives (ByteNamePresetUnicodeNormalization n) (\<lambda>w. legal_name n w \<and> elem_ok w) \<and>
   gives (ByteNamePresetLeadingDots n) (\<lambda>w. legal_name n w \<and> (elem_ok w \<or> w = ''..'')) \<and>
   fst (ByteNamePresetLeadingDots 2 [0, 79]) = Inr ''..''"
proof -
  have d: "hd dotdot = CHR ''.''" "last dotdot = CHR ''.''" by (simp_all add: dotdot_def)
  have "gives (ByteNamePresetLeadingSpaces n) (\<lambda>w. legal_name n w \<and> elem_ok w)"
    "gives (ByteNamePresetTrailingSpaces n) (\<lambda>w. legal_name n w \<and> elem_ok w)"
    "gives (ByteNamePresetNewlineTab n) (\<lambda>w. legal_name n w \<and> elem_ok w)"
    "gives (ByteNamePresetControlChars n) (\<lambda>w. legal_name n w \<and> elem_ok w)"
    "gives (ByteNamePresetInvalidUTF8 n) (\<lambda>w. legal_name n w \<and> elem_ok w)"
    "gives (ByteNamePresetUnicodeNormalization n) (\<lambda>w. legal_name n w \<and> elem_ok w)"
    by (rule gives_legal [OF gives_LeadingSpaces] gives_legal [OF gives_TrailingSpaces]
        gives_legal [OF gives_NewlineTab] gives_legal [OF gives_ControlChars]
        gives_legal [OF gives_InvalidUTF8] gives_legal [OF gives_UnicodeNormalization],
        use d in auto)+
  moreover have "gives (ByteNamePresetLeadingDots n) (\<lambda>w. legal_name n w \<and> (elem_ok w \<or> w = ''..''))"
  proof (rule gives_mono [OF gives_LeadingDots])
    fix w assume w: "preset_name (\<lambda>w. hd w = CHR ''.'') n w"
    have "legal_name n w"
      using w by (auto simp: preset_name_def legal_name_def at_least_2_def list_all_iff name_byte_def)
    moreover have "elem_ok w" if "w \<noteq> ''..''"
      by (rule preset_elem_ok [OF w]) (use that in \<open>simp add: dotdot_def\<close>)
    ultimately show "legal_name n w \<and> (elem_ok w \<or> w = ''..'')" by blast
  qed
  moreover have "fst (ByteNamePresetLeadingDots 2 [0, 79]) = Inr ''..''" by code_simp
  ultimately show ?thesis by blast
qed

end
