(* ===== verification/Metadata.thy ===== *)
theory Metadata
  imports Generators
begin

text \<open>
  Per-entry metadata (\<^verbatim>\<open>metadata.go\<close>): \<open>normalizeACLEntries\<close>, \<open>resolveMetadata\<close> and the check
  of the attribute configuration, and with them the completeness check of a configured
  generator (\<^verbatim>\<open>generator.go\<close>, \<open>validateRunConfiguration\<close>).
\<close>

section \<open>Textual ACL entries\<close>

definition normalize_acl_entry :: "nat \<Rightarrow> string \<Rightarrow> err + string" where
  "normalize_acl_entry i entry =
     (let trimmed = TrimSpace entry in
      if trimmed = [] then FailW ''ACL entry at index'' ErrACLEntryEmpty
      else if Contains trimmed NUL then FailW ''ACL entry at index'' ErrACLEntryContainsNUL
      else if Contains trimmed (CHR '','') then FailW ''ACL entry at index'' ErrACLEntryContainsComma
      else Inr trimmed)"

text \<open>The loop that skips an element equal to the one before it, on a sorted slice.\<close>

definition drop_repeats :: "string list \<Rightarrow> string list" where
  "drop_repeats xs = map (\<lambda>i. xs ! i) (filter (\<lambda>i. \<not> (0 < i \<and> xs ! (i - 1) = xs ! i)) [0..<length xs])"

definition normalizeACLEntries :: "string list \<Rightarrow> err + string list" where
  "normalizeACLEntries entries =
     (if entries = [] then Inr []
      else bindE (mapE_from 0 normalize_acl_entry entries) (\<lambda>normalized.
        Inr (drop_repeats (sort_strings normalized))))"

section \<open>Resolving metadata\<close>

record metadataConfig =
  hasOwnership :: bool
  md_uid :: int
  md_gid :: int
  hasTimestamps :: bool
  md_atime :: time
  md_mtime :: time
  hasXAttrs :: bool
  md_xattrs :: "8 word list gomap"
  hasACL :: bool
  aclEntries :: "string list"

definition metadata0 :: metadataConfig where
  "metadata0 =
     \<lparr>hasOwnership = False, md_uid = 0, md_gid = 0, hasTimestamps = False, md_atime = 0,
      md_mtime = 0, hasXAttrs = False, md_xattrs = [], hasACL = False, aclEntries = []\<rparr>"

fun resolve_xattrs :: "xattrValueGeneratorConfig list \<Rightarrow> 8 word list gomap \<Rightarrow> 8 word list gomap gen" where
  "resolve_xattrs [] xs = returnS xs"
| "resolve_xattrs (cfg # cfgs) xs =
     bindS (wrapS ''failed to generate xattr value'' (call (xc_valueGen cfg))) (\<lambda>value.
       resolve_xattrs cfgs (put (xc_name cfg) (cloneBytes value) xs))"

definition resolveMetadata :: "Generator \<Rightarrow> metadataConfig gen" where
  "resolveMetadata g =
     bindS (if ownershipUIDGen g \<noteq> None \<and> ownershipGIDGen g \<noteq> None
            then bindS (call (ownershipUIDGen g)) (\<lambda>uid.
                 bindS (call (ownershipGIDGen g)) (\<lambda>gid.
                 returnS (metadata0\<lparr>hasOwnership := True, md_uid := uid, md_gid := gid\<rparr>)))
            else returnS metadata0) (\<lambda>metadata.
     bindS (if atimeGen g \<noteq> None \<and> mtimeGen g \<noteq> None
            then bindS (call (atimeGen g)) (\<lambda>atime.
                 bindS (call (mtimeGen g)) (\<lambda>mtime.
                 returnS (metadata\<lparr>hasTimestamps := True, md_atime := atime, md_mtime := mtime\<rparr>)))
            else returnS metadata) (\<lambda>metadata.
     bindS (if length (xattrValueGens g) > 0
            then bindS (resolve_xattrs (xattrValueGens g) []) (\<lambda>xs.
                 returnS (metadata\<lparr>hasXAttrs := True, md_xattrs := xs\<rparr>))
            else returnS metadata) (\<lambda>metadata.
     case aclEntriesGen g of
       None \<Rightarrow> returnS metadata
     | Some m \<Rightarrow>
         bindS (wrapS ''failed to generate ACL entries'' m) (\<lambda>entries.
         bindS (liftS (normalizeACLEntries entries)) (\<lambda>normalized.
         returnS (metadata\<lparr>hasACL := True, aclEntries := normalized\<rparr>))))))"

section \<open>Is the configuration complete?\<close>

fun validate_xattr_configs :: "Generator \<Rightarrow> xattrValueGeneratorConfig list \<Rightarrow> string list \<Rightarrow> err + unit" where
  "validate_xattr_configs g [] seen = Inr ()"
| "validate_xattr_configs g (cfg # cfgs) seen =
     (if xc_valueGen cfg = None then Err ''xattr value generator must not be nil''
      else bindE (wrapE ''xattr config'' (validateXAttrName (xc_name cfg))) (\<lambda>name.
        if name \<in> set seen then Err ''duplicate xattr name configured''
        else let namespace = xattrNamespace name in
          if namespace = ''user'' then validate_xattr_configs g cfgs (name # seen)
          else if namespace = ''trusted'' then
            (if \<not> xattrAllowTrustedNamespace g then FailW ''name'' ErrXAttrNamespaceNotAllowed
             else validate_xattr_configs g cfgs (name # seen))
          else if namespace = ''security'' then
            (if \<not> xattrAllowSecurityNamespace g then FailW ''name'' ErrXAttrNamespaceNotAllowed
             else validate_xattr_configs g cfgs (name # seen))
          else FailW ''name'' ErrXAttrNamespaceUnsupported))"

definition validateXAttrConfiguration :: "Generator \<Rightarrow> err + unit" where
  "validateXAttrConfiguration g = validate_xattr_configs g (xattrValueGens g) []"

definition hasNoConfiguration :: "Generator \<Rightarrow> bool" where
  "hasNoConfiguration g \<longleftrightarrow>
     dirNameGen g = None \<and> dirNameLenGen g = None \<and> dirModeGen g = None \<and>
     nFilesInDirGen g = None \<and> nDirsInDirGen g = None \<and> fileNameGen g = None \<and>
     fileNameLenGen g = None \<and> fileModeGen g = None \<and> dataGen g = None \<and>
     pathDepthGen g = None \<and> contentPatternGen g = None \<and> contentLogicalSizeGen g = None \<and>
     ownershipUIDGen g = None \<and> ownershipGIDGen g = None \<and> atimeGen g = None \<and>
     mtimeGen g = None \<and> symlinkProbGen g = None \<and> symlinkRelProbGen g = None \<and>
     hardlinkProbGen g = None \<and> specialFileProbGen g = None \<and> symlinkStrategyGen g = None \<and>
     specialFileTypeGen g = None \<and> specialDeviceMajorGen g = None \<and>
     specialDeviceMinorGen g = None \<and> byteFileNameGen g = None \<and> byteDirNameGen g = None \<and>
     xattrValueGens g = [] \<and> aclEntriesGen g = None"

text \<open>The names of what is missing; the random source is always there in the model.\<close>

definition missing_parts :: "Generator \<Rightarrow> string list" where
  "missing_parts g =
     (if dirNameGen g = None \<and> byteDirNameGen g = None then [''directory name generator''] else []) @
     (if dirNameLenGen g = None then [''directory name length generator''] else []) @
     (if dirModeGen g = None then [''directory mode generator''] else []) @
     (if nFilesInDirGen g = None then [''files-per-directory generator''] else []) @
     (if nDirsInDirGen g = None then [''directories-per-directory generator''] else []) @
     (if fileNameGen g = None \<and> byteFileNameGen g = None then [''file name generator''] else []) @
     (if fileNameLenGen g = None then [''file name length generator''] else []) @
     (if fileModeGen g = None then [''file mode generator''] else []) @
     (if dataGen g = None \<and> contentPatternGen g = None then [''data generator''] else []) @
     (if (contentPatternGen g = None) \<noteq> (contentLogicalSizeGen g = None)
      then [ErrContentPatternConfigurationIncomplete] else []) @
     (if pathDepthGen g = None then [''path depth generator''] else []) @
     (if (ownershipUIDGen g = None) \<noteq> (ownershipGIDGen g = None)
      then [ErrOwnershipMetadataConfigurationIncomplete] else []) @
     (if (atimeGen g = None) \<noteq> (mtimeGen g = None)
      then [ErrTimestampMetadataConfigurationIncomplete] else []) @
     (if symlinkProbGen g = None then [''symlink generator''] else []) @
     (if symlinkRelProbGen g = None \<and> symlinkStrategyGen g = None
      then [''relative symlink generator or symlink strategy generator''] else []) @
     (if (specialFileProbGen g = None) \<noteq> (specialFileTypeGen g = None)
      then [''special file generator and special file type generator''] else []) @
     (if (specialDeviceMajorGen g = None) \<noteq> (specialDeviceMinorGen g = None)
      then [ErrSpecialDeviceConfigurationIncomplete] else []) @
     (if is_ok (validateXAttrConfiguration g) then [] else [''xattr configuration'']) @
     (if is_ok (validateRunMode (runMode g)) then [] else [''run mode'']) @
     (if planEntryLimit g \<le> 0 then [ErrPlanEntryLimitInvalid] else [])"

definition validateRunConfiguration :: "Generator \<Rightarrow> err + unit" where
  "validateRunConfiguration g =
     (if length (missing_parts g) > 0 then Err ''generator configuration incomplete'' else Inr ())"

section \<open>Normalized ACL entries\<close>

definition acl_text_ok :: "string \<Rightarrow> bool" where
  "acl_text_ok s \<longleftrightarrow> TrimSpace s = s \<and> s \<noteq> [] \<and> \<not> Contains s NUL \<and> \<not> Contains s (CHR '','')"

lemma drop_seqs_no_prefix:
  "w \<in> set ws \<Longrightarrow> w \<noteq> [] \<Longrightarrow> \<not> HasPrefix (drop_seqs ws s) w"
proof (induction ws s rule: drop_seqs.induct)
  case (1 ws s)
  show ?case
  proof (cases "find (\<lambda>w. w \<noteq> [] \<and> HasPrefix s w) ws")
    case None
    then have "\<not> HasPrefix s w" using 1(2,3) unfolding find_None_iff by blast
    then show ?thesis using None by (subst drop_seqs.simps) simp
  next
    case (Some v)
    then show ?thesis using 1 by (subst drop_seqs.simps) simp
  qed
qed

lemma HasPrefix_mono: "HasPrefix s w \<Longrightarrow> HasPrefix (s @ t) w"
  by (auto simp: HasPrefix_iff)

lemma TrimSpace_idem: "TrimSpace (TrimSpace s) = TrimSpace s"
proof -
  let ?a = "drop_seqs space_seqs s"
  let ?b = "drop_seqs (map rev space_seqs) (rev ?a)"
  have nonempty: "w \<in> set space_seqs \<Longrightarrow> w \<noteq> []" for w by (rule space_seqs_nonempty)
  obtain p where "rev ?a = p @ ?b" using drop_seqs_sublist by blast
  then have a: "?a = rev ?b @ rev p" by (metis rev_append rev_rev_ident)
  have "drop_seqs space_seqs (rev ?b) = rev ?b"
  proof (rule drop_seqs_id, intro ballI impI)
    fix w assume w: "w \<in> set space_seqs" "w \<noteq> []"
    show "\<not> HasPrefix (rev ?b) w"
      using drop_seqs_no_prefix [OF w, of s] HasPrefix_mono [of "rev ?b" w "rev p"] a by auto
  qed
  moreover have "drop_seqs (map rev space_seqs) ?b = ?b"
  proof (rule drop_seqs_id, intro ballI impI)
    fix w :: string assume w: "w \<in> set (map rev space_seqs)" "w \<noteq> []"
    show "\<not> HasPrefix ?b w" by (rule drop_seqs_no_prefix [OF w])
  qed
  ultimately show ?thesis by (simp add: TrimSpace_def)
qed

lemma normalize_acl_entry_Inr:
  "normalize_acl_entry i e = Inr t \<longleftrightarrow> t = TrimSpace e \<and> acl_text_ok t"
  by (auto simp: normalize_acl_entry_def Let_def acl_text_ok_def TrimSpace_idem)

lemma sorted_repeats:
  assumes "sorted xs"
  shows "set (drop_repeats xs) = set xs \<and> sorted (drop_repeats xs) \<and> distinct (drop_repeats xs)"
proof -
  let ?P = "\<lambda>i. \<not> (0 < i \<and> xs ! (i - 1) = xs ! i)"
  let ?is = "filter ?P [0..<length xs]"
  have mono: "xs ! i \<le> xs ! j" if "i \<le> j" "j < length xs" for i j
    using assms that by (simp add: sorted_nth_mono)
  have less: "xs ! i < xs ! j" if "i < j" "j < length xs" "?P j" for i j
  proof -
    have "xs ! i \<le> xs ! (j - 1)" "xs ! (j - 1) \<le> xs ! j" using that by (auto intro!: mono)
    moreover have "xs ! (j - 1) \<noteq> xs ! j" using that by auto
    ultimately show ?thesis by auto
  qed
  have "sorted_wrt (<) (map (\<lambda>i. xs ! i) ?is)"
    unfolding sorted_wrt_map
  proof (rule sorted_wrt_mono_rel [of _ "\<lambda>i j. i < j"])
    show "sorted_wrt (<) ?is" by (rule sorted_wrt_filter) simp
    show "xs ! x < xs ! y" if "x \<in> set ?is" "y \<in> set ?is" "x < y" for x y
      using that less by auto
  qed
  then have "sorted (drop_repeats xs) \<and> distinct (drop_repeats xs)"
    unfolding drop_repeats_def strict_sorted_iff by blast
  moreover have "\<exists>j \<in> set ?is. xs ! j = xs ! i" if "i < length xs" for i
    using that
  proof (induction i rule: less_induct)
    case (less i)
    show ?case
    proof (cases "?P i")
      case True
      then show ?thesis using less.prems by auto
    next
      case False
      then show ?thesis using less.IH [of "i - 1"] less.prems by auto
    qed
  qed
  then have "set xs \<subseteq> set (drop_repeats xs)"
    by (fastforce simp: drop_repeats_def in_set_conv_nth image_iff)
  moreover have "set (drop_repeats xs) \<subseteq> set xs" by (auto simp: drop_repeats_def)
  ultimately show ?thesis by blast
qed

lemma drop_repeats_id: "sorted xs \<Longrightarrow> distinct xs \<Longrightarrow> drop_repeats xs = xs"
  using sorted_repeats [of xs] sorted_distinct_set_unique by blast

lemma normalizeACLEntries_Inr:
  assumes "normalizeACLEntries entries = Inr out"
  shows "sorted out \<and> distinct out \<and> set out = TrimSpace ` set entries \<and> list_all acl_text_ok out"
proof (cases "entries = []")
  case True
  then show ?thesis using assms by (simp add: normalizeACLEntries_def)
next
  case False
  then obtain ns where ns: "mapE_from 0 normalize_acl_entry entries = Inr ns"
      "out = drop_repeats (sort_strings ns)"
    using assms by (auto simp: normalizeACLEntries_def)
  have "\<forall>k < length entries. ns ! k = TrimSpace (entries ! k) \<and> acl_text_ok (ns ! k)"
    "length ns = length entries"
    using ns(1) by (auto simp: mapE_from_eq_Inr normalize_acl_entry_Inr)
  then have "ns = map TrimSpace entries" "list_all acl_text_ok ns"
    by (auto simp: list_eq_iff_nth_eq list_all_length)
  then show ?thesis
    using sorted_repeats [of "sort_strings ns"] ns(2) by (auto simp: list_all_iff)
qed

text \<open>
  \<open>normalizeACLEntries\<close> keeps exactly the trimmed entries: its result is the sorted list
  of them without repetition, each non-empty and free of commas and NUL bytes, and
  normalizing it again changes nothing.
\<close>

theorem normalizeACLEntries_spec:
  "case normalizeACLEntries entries of
     Inl e \<Rightarrow> \<not> list_all (\<lambda>x. acl_text_ok (TrimSpace x)) entries
   | Inr out \<Rightarrow> sorted out \<and> distinct out \<and> set out = TrimSpace ` set entries \<and>
       list_all acl_text_ok out \<and> normalizeACLEntries out = Inr out"
proof (cases "normalizeACLEntries entries")
  case (Inl e)
  have "\<not> list_all (\<lambda>x. acl_text_ok (TrimSpace x)) entries"
  proof
    assume a: "list_all (\<lambda>x. acl_text_ok (TrimSpace x)) entries"
    have "normalize_acl_entry k (entries ! k) = Inr (TrimSpace (entries ! k))" if "k < length entries" for k
      using a that unfolding normalize_acl_entry_Inr list_all_length by blast
    then have "mapE_from 0 normalize_acl_entry entries = Inr (map TrimSpace entries)"
      unfolding mapE_from_eq_Inr by simp
    then show False using Inl unfolding normalizeACLEntries_def by (cases "entries = []") simp_all
  qed
  then show ?thesis using Inl by simp
next
  case (Inr out)
  note o = normalizeACLEntries_Inr [OF Inr]
  have "normalize_acl_entry k x = Inr x" if "x \<in> set out" for k x
  proof -
    have "acl_text_ok x" using o that by (simp only: list_all_iff)
    moreover from this have "x = TrimSpace x" unfolding acl_text_ok_def by simp
    ultimately show ?thesis unfolding normalize_acl_entry_Inr by blast
  qed
  then have "mapE_from 0 normalize_acl_entry out = Inr out" by (rule mapE_from_id)
  moreover have "sort_strings out = out" using o by (simp only: sort_strings_def sorted_sort_id)
  moreover have "drop_repeats out = out" using o drop_repeats_id by blast
  ultimately have "normalizeACLEntries out = Inr out" by (simp add: normalizeACLEntries_def)
  then show ?thesis using Inr o by (simp only: sum.case simp_thms)
qed

end
