(* ===== verification/Content_Patterns.thy ===== *)
theory Content_Patterns
  imports Metadata "HOL-Library.Product_Lexorder"
begin

text \<open>
  File contents by pattern (\<^verbatim>\<open>content_patterns.go\<close>): the plan of a content (its size, seeds and
  extents) and the writer that turns a planned content into the bytes of a file. The calls the
  writer makes on the file are an argument, functions on a state of the disk that may all
  fail; \<^verbatim>\<open>rand.New(rand.NewSource(seed))\<close> is an argument, a function from seeds to sources.
\<close>

section \<open>Planned contents\<close>

record plannedContentRange =
  rg_offset :: int
  rg_length :: int
  rg_seed :: int

record plannedFileContent =
  pc_pattern :: ContentPattern
  pc_logicalSize :: int
  pc_expectedWrittenBytes :: int
  pc_expectedSparse :: bool
  pc_seed :: int
  pc_repeatedBlock :: "8 word list"
  pc_sparseExtents :: "plannedContentRange list"
  pc_overwriteExtents :: "plannedContentRange list"

text \<open>The zero value; pattern 0 marks a file without a planned content.\<close>

definition content0 :: plannedFileContent where
  "content0 =
     \<lparr>pc_pattern = ContentPatternUnknown 0, pc_logicalSize = 0, pc_expectedWrittenBytes = 0,
      pc_expectedSparse = False, pc_seed = 0, pc_repeatedBlock = [], pc_sparseExtents = [],
      pc_overwriteExtents = []\<rparr>"

definition defaultContentWriteChunkSize :: nat where
  "defaultContentWriteChunkSize = 65536"

definition defaultPartialOverwriteCount :: nat where
  "defaultPartialOverwriteCount = 2"

definition defaultPatternSegmentMaxLength :: int where
  "defaultPatternSegmentMaxLength = 1048576"

definition minInt64 :: "int \<Rightarrow> int \<Rightarrow> int" where
  "minInt64 a b = (if a < b then a else b)"

definition randomizedSegmentLength :: "int \<Rightarrow> int gen" where
  "randomizedSegmentLength logicalSize =
     (if logicalSize \<le> 0 then returnS 0
      else let maxLength = (if logicalSize > defaultPatternSegmentMaxLength
                 then defaultPatternSegmentMaxLength else logicalSize) in
        bindS (Intn maxLength) (\<lambda>v. returnS (v + 1)))"

definition randomizedOffset :: "int \<Rightarrow> int \<Rightarrow> int gen" where
  "randomizedOffset logicalSize len =
     (if logicalSize < 0 then raiseS (Errorf ''logical size must be >= 0'' None)
      else if len < 0 then raiseS (Errorf ''segment length must be >= 0'' None)
      else if len > logicalSize then raiseS (Errorf ''segment length exceeds logical size'' None)
      else let remaining = logicalSize - len in
        if remaining = 0 then returnS 0 else Intn (wrap64 (remaining + 1)))"

definition resolveRepeatedBlock :: "Generator \<Rightarrow> int \<Rightarrow> 8 word list gen" where
  "resolveRepeatedBlock g logicalSize =
     bindS (case dataGen g of
              Some m \<Rightarrow> wrapS ''failed to generate repeated block data'' m
            | None \<Rightarrow>
                let blockLen = (if 0 < logicalSize \<and> logicalSize < int defaultContentWriteChunkSize
                      then nat logicalSize else defaultContentWriteChunkSize)
                in read_bytes (if blockLen = 0 then 1 else blockLen)) (\<lambda>block.
     if length block = 0 then raiseS (Sentinel ErrContentPatternRepeatedBlockEmpty)
     else returnS (if length block > defaultContentWriteChunkSize
                   then take defaultContentWriteChunkSize block else block))"

text \<open>The loop of \<^verbatim>\<open>ContentPatternPartialRangeOverwrite\<close>: the extents and the bytes they add.\<close>

fun plan_updates :: "nat \<Rightarrow> int \<Rightarrow> plannedContentRange list \<Rightarrow> int \<Rightarrow> (plannedContentRange list \<times> int) gen" where
  "plan_updates 0 logicalSize updates written = returnS (updates, written)"
| "plan_updates (Suc n) logicalSize updates written =
     bindS (randomizedSegmentLength logicalSize) (\<lambda>len.
     bindS (randomizedOffset logicalSize len) (\<lambda>off.
     bindS int63 (\<lambda>seed.
     plan_updates n logicalSize
       (updates @ [\<lparr>rg_offset = off, rg_length = len, rg_seed = seed\<rparr>]) (wrap64 (written + len)))))"

text \<open>The branches of \<open>planFileContentPattern\<close>; \<open>content\<close> has its pattern and size set.\<close>

definition plan_dense :: "plannedFileContent \<Rightarrow> plannedFileContent gen" where
  "plan_dense content =
     bindS int63 (\<lambda>seed.
     returnS (content\<lparr>pc_seed := seed, pc_expectedWrittenBytes := pc_logicalSize content\<rparr>))"

definition plan_sparse :: "plannedFileContent \<Rightarrow> plannedFileContent gen" where
  "plan_sparse content =
     (let logicalSize = pc_logicalSize content in
      if logicalSize = 0 then returnS content
      else bindS (bindS (randomizedSegmentLength logicalSize) (\<lambda>len.
             returnS (if logicalSize > 1 \<and> len \<ge> logicalSize then logicalSize - 1 else len))) (\<lambda>len.
        bindS (randomizedOffset logicalSize len) (\<lambda>off.
        bindS int63 (\<lambda>seed.
        returnS (content\<lparr>pc_sparseExtents := [\<lparr>rg_offset = off, rg_length = len, rg_seed = seed\<rparr>],
          pc_expectedWrittenBytes := len, pc_expectedSparse := logicalSize > len\<rparr>)))))"

definition plan_repeated :: "Generator \<Rightarrow> plannedFileContent \<Rightarrow> plannedFileContent gen" where
  "plan_repeated g content =
     bindS (resolveRepeatedBlock g (pc_logicalSize content)) (\<lambda>block.
     returnS (content\<lparr>pc_repeatedBlock := block, pc_expectedWrittenBytes := pc_logicalSize content\<rparr>))"

definition plan_partial :: "plannedFileContent \<Rightarrow> plannedFileContent gen" where
  "plan_partial content =
     bindS int63 (\<lambda>seed.
     let logicalSize = pc_logicalSize content;
         content = content\<lparr>pc_seed := seed, pc_expectedWrittenBytes := logicalSize\<rparr> in
     if logicalSize = 0 then returnS content
     else bindS (plan_updates defaultPartialOverwriteCount logicalSize [] logicalSize) (\<lambda>(updates, written).
       returnS (content\<lparr>pc_expectedWrittenBytes := written,
         pc_overwriteExtents := sort_key (\<lambda>u. (rg_offset u, rg_length u)) updates\<rparr>)))"

definition planFileContentPattern :: "Generator \<Rightarrow> plannedFileContent gen" where
  "planFileContentPattern g =
     bindS (call (contentPatternGen g)) (\<lambda>pattern.
     bindS (liftS (validateContentPattern pattern)) (\<lambda>_.
     bindS (call (contentLogicalSizeGen g)) (\<lambda>logicalSize.
     if logicalSize < 0 then raiseS (Errorf ''content logical size must be >= 0'' None)
     else let content = content0\<lparr>pc_pattern := pattern, pc_logicalSize := logicalSize\<rparr> in
     case pattern of
       ContentPatternDenseRandom \<Rightarrow> plan_dense content
     | ContentPatternSparseHoles \<Rightarrow> plan_sparse content
     | ContentPatternRepeatedBlocks \<Rightarrow> plan_repeated g content
     | ContentPatternPartialRangeOverwrite \<Rightarrow> plan_partial content
     | ContentPatternUnknown n \<Rightarrow> raiseS (Errorf ''unsupported content pattern'' None))))"

section \<open>Writing a content\<close>

text \<open>
  The calls of package \<^verbatim>\<open>os\<close> the writer makes on a file, as functions on a state of the disk;
  \<open>'h\<close> is the type of open files. Every one may fail, and \<open>fc_WriteAt\<close> returns the number of
  bytes written.
\<close>

record ('s, 'h) file_calls =
  fc_OpenFile :: "string \<Rightarrow> 32 word \<Rightarrow> ('s, 'h) sem"
  fc_WriteAt :: "'h \<Rightarrow> 8 word list \<Rightarrow> int \<Rightarrow> ('s, int) sem"
  fc_Truncate :: "'h \<Rightarrow> int \<Rightarrow> ('s, unit) sem"
  fc_Close :: "'h \<Rightarrow> ('s, unit) sem"

type_synonym 's writer = "8 word list \<Rightarrow> int \<Rightarrow> ('s, int) sem"

text \<open>One \<open>WriteAt\<close> of the loops, with the checks of its error and of the count.\<close>

definition write_chunk :: "string \<Rightarrow> 's writer \<Rightarrow> 8 word list \<Rightarrow> int \<Rightarrow> ('s, unit) sem" where
  "write_chunk msg wr chunk off =
     bindS (wrapS msg (wr chunk off)) (\<lambda>nWritten.
     if nWritten \<noteq> int (length chunk) then raiseS (Errorf msg None) else returnS ())"

text \<open>The loop of \<open>writeRandomContentAt\<close>: \<open>Suc buf\<close> is the size of the buffer, at least 1.\<close>

function write_random_loop :: "'s writer \<Rightarrow> nat \<Rightarrow> int \<Rightarrow> int \<Rightarrow> int \<Rightarrow> rng \<Rightarrow> ('s, unit) sem" where
  "write_random_loop wr buf off len position r =
     (if position < len then
        let chunkLen = nat (minInt64 (len - position) (int (Suc buf))) in
        (case Read_bytes chunkLen r of (chunk, r') \<Rightarrow>
          bindS (write_chunk ''failed to write deterministic content chunk'' wr chunk (off + position)) (\<lambda>_.
          write_random_loop wr buf off len (position + int chunkLen) r'))
      else returnS ())"
  by pat_completeness auto
termination
  by (relation "measure (\<lambda>(wr, buf, off, len, position, r). nat (len - position))")
    (auto simp: minInt64_def)

declare write_random_loop.simps [simp del]

definition writeRandomContentAt ::
  "'s writer \<Rightarrow> (int \<Rightarrow> rng) \<Rightarrow> int \<Rightarrow> int \<Rightarrow> int \<Rightarrow> ('s, unit) sem" where
  "writeRandomContentAt wr seeded off len seed =
     (if len = 0 then returnS ()
      else if len < 0 then raiseS (Panic ''makeslice: len out of range'')
      else write_random_loop wr (nat (minInt64 len (int defaultContentWriteChunkSize)) - 1) off len 0 (seeded seed))"

function write_repeated_loop :: "'s writer \<Rightarrow> 8 word list \<Rightarrow> int \<Rightarrow> int \<Rightarrow> ('s, unit) sem" where
  "write_repeated_loop wr chunk logicalSize off =
     (if off < logicalSize \<and> chunk \<noteq> [] then
        let chunkLen = nat (minInt64 (logicalSize - off) (int (length chunk))) in
        bindS (write_chunk ''failed to write repeated-block chunk'' wr (take chunkLen chunk) off) (\<lambda>_.
        write_repeated_loop wr chunk logicalSize (off + int chunkLen))
      else returnS ())"
  by pat_completeness auto
termination
  by (relation "measure (\<lambda>(wr, chunk, logicalSize, off). nat (logicalSize - off))")
    (auto simp: minInt64_def)

declare write_repeated_loop.simps [simp del]

definition repeated_chunk :: "8 word list \<Rightarrow> 8 word list" where
  "repeated_chunk block = map (\<lambda>i. block ! (i mod length block)) [0..<defaultContentWriteChunkSize]"

definition writeRepeatedContent :: "'s writer \<Rightarrow> int \<Rightarrow> 8 word list \<Rightarrow> ('s, unit) sem" where
  "writeRepeatedContent wr logicalSize block =
     (if logicalSize = 0 then returnS ()
      else if length block = 0 then raiseS (Sentinel ErrContentPatternRepeatedBlockEmpty)
      else write_repeated_loop wr (repeated_chunk block) logicalSize 0)"

fun write_extents :: "'s writer \<Rightarrow> (int \<Rightarrow> rng) \<Rightarrow> plannedContentRange list \<Rightarrow> ('s, unit) sem" where
  "write_extents wr seeded [] = returnS ()"
| "write_extents wr seeded (x # xs) =
     bindS (writeRandomContentAt wr seeded (rg_offset x) (rg_length x) (rg_seed x)) (\<lambda>_. write_extents wr seeded xs)"

definition write_pattern :: "'s writer \<Rightarrow> (int \<Rightarrow> rng) \<Rightarrow> plannedFileContent \<Rightarrow> ('s, unit) sem" where
  "write_pattern wr seeded content =
     (case pc_pattern content of
        ContentPatternDenseRandom \<Rightarrow>
          writeRandomContentAt wr seeded 0 (pc_logicalSize content) (pc_seed content)
      | ContentPatternSparseHoles \<Rightarrow> write_extents wr seeded (pc_sparseExtents content)
      | ContentPatternRepeatedBlocks \<Rightarrow>
          writeRepeatedContent wr (pc_logicalSize content) (pc_repeatedBlock content)
      | ContentPatternPartialRangeOverwrite \<Rightarrow>
          bindS (writeRandomContentAt wr seeded 0 (pc_logicalSize content) (pc_seed content)) (\<lambda>_.
          write_extents wr seeded (pc_overwriteExtents content))
      | ContentPatternUnknown n \<Rightarrow> raiseS (Errorf ''unsupported content pattern'' None))"

text \<open>\<^verbatim>\<open>defer\<close>: the deferred call runs whatever the body returned, its own result is dropped.\<close>

definition deferS :: "('s, 'b) sem \<Rightarrow> ('s, 'a) sem \<Rightarrow> ('s, 'a) sem" where
  "deferS c m s = (case m s of (r, t) \<Rightarrow> (r, snd (c t)))"

definition writePlannedFileContent ::
  "('s, 'h) file_calls \<Rightarrow> (int \<Rightarrow> rng) \<Rightarrow> string \<Rightarrow> 32 word \<Rightarrow> plannedFileContent \<Rightarrow> ('s, unit) sem" where
  "writePlannedFileContent io seeded path mode content =
     bindS (wrapS ''failed to create planned file'' (fc_OpenFile io path (and mode 0x1FF))) (\<lambda>f.
     deferS (fc_Close io f)
      (bindS (write_pattern (fc_WriteAt io f) seeded content) (\<lambda>_.
       bindS (wrapS ''failed to truncate planned file'' (fc_Truncate io f (pc_logicalSize content))) (\<lambda>_.
       wrapS ''failed to finalize planned file'' (fc_Close io f)))))"

section \<open>What the writer writes\<close>

text \<open>
  What the writer relies on of the calls, in terms of the bytes \<open>view h\<close> of an open file: opening
  truncates, a write that reports its full length has put the bytes at the offset, with zeros
  in a gap, truncation cuts or extends with zeros, and closing leaves the bytes alone. Nothing
  is assumed of calls that fail, nor of a write that reports fewer bytes.
\<close>

locale byte_file =
  fixes io :: "('s, 'h) file_calls" and view :: "'h \<Rightarrow> 's \<Rightarrow> 8 word list"
  assumes open_empty: "fc_OpenFile io path mode s = (Inr h, s') \<Longrightarrow> view h s' = []"
    and write_full: "0 \<le> off \<Longrightarrow> fc_WriteAt io h d off s = (Inr (int (length d)), s') \<Longrightarrow>
      view h s' = pwrite (view h s) (nat off) d"
    and truncate_cuts: "0 \<le> n \<Longrightarrow> fc_Truncate io h n s = (Inr (), s') \<Longrightarrow> Inr (view h s') = ftruncate (view h s) n"
    and close_keeps: "view h (snd (fc_Close io h s)) = view h s"

lemma Read_bytes_add:
  "Read_bytes (m + n) r =
     (fst (Read_bytes m r) @ fst (Read_bytes n (snd (Read_bytes m r))), snd (Read_bytes n (snd (Read_bytes m r))))"
  by (induction m r rule: Read_bytes.induct) (auto split: prod.splits)

lemma nat_add_int: "0 \<le> x \<Longrightarrow> nat (x + int c) = nat x + c"
  by simp

lemma nat_split_add: "int c \<le> x \<Longrightarrow> nat x = c + nat (x - int c)"
  by simp

lemma take_chunk: "n \<le> length chunk \<Longrightarrow> take n chunk = map (\<lambda>k. chunk ! (k mod length chunk)) [0..<n]"
  by (rule nth_equalityI) auto

lemma map_upt_add: "map f [0..<m + n] = map f [0..<m] @ map (\<lambda>k. f (m + k)) [0..<n]"
  by (rule nth_equalityI) (auto simp: nth_append)

lemma write_chunk_eq_Inr:
  "write_chunk msg wr chunk off s = (Inr (), s') \<longleftrightarrow> wr chunk off s = (Inr (int (length chunk)), s')"
  by (auto simp: write_chunk_def bindS_eq_Inr wrapS_eq_Inr raiseS_def returnS_def)

context byte_file
begin

lemma chunk_written:
  "write_chunk msg (fc_WriteAt io h) d off s = (Inr (), s') \<Longrightarrow> 0 \<le> off \<Longrightarrow>
     view h s' = pwrite (view h s) (nat off) d"
  unfolding write_chunk_eq_Inr by (rule write_full)

text \<open>Writing in chunks of any size writes the stream of the seed in one piece.\<close>

lemma random_loop_written:
  "write_random_loop (fc_WriteAt io h) buf off len position r s = (Inr (), s') \<Longrightarrow>
     0 \<le> off \<Longrightarrow> 0 \<le> position \<Longrightarrow> position \<le> len \<Longrightarrow>
     view h s' = pwrite (view h s) (nat (off + position)) (fst (Read_bytes (nat (len - position)) r))"
proof (induction "fc_WriteAt io h" buf off len position r arbitrary: s rule: write_random_loop.induct)
  case (1 buf off len position r)
  show ?case
  proof (cases "position < len")
    case False
    then show ?thesis using 1(2,5) by (subst (asm) write_random_loop.simps) (simp add: returnS_def)
  next
    case True
    let ?c = "nat (minInt64 (len - position) (int (Suc buf)))"
    let ?m = "nat (len - (position + int ?c))"
    obtain chunk r' where rd: "Read_bytes ?c r = (chunk, r')" by (meson prod.exhaust)
    have c: "position + int ?c \<le> len" "0 \<le> position + int ?c" using True 1(4) by (auto simp: minInt64_def)
    have lc: "length chunk = ?c" using Read_bytes_length [of ?c r] by (simp only: rd fst_conv)
    obtain s1 where w: "write_chunk ''failed to write deterministic content chunk'' (fc_WriteAt io h) chunk
        (off + position) s = (Inr (), s1)"
      and rest: "write_random_loop (fc_WriteAt io h) buf off len (position + int ?c) r' s1 = (Inr (), s')"
      using 1(2) True rd by (subst (asm) write_random_loop.simps) (auto simp: Let_def bindS_eq_Inr)
    have v1: "view h s1 = pwrite (view h s) (nat (off + position)) chunk"
      using chunk_written [OF w] 1(3,4) by simp
    have ih: "view h s' = pwrite (view h s1) (nat (off + (position + int ?c))) (fst (Read_bytes ?m r'))"
      by (rule 1(1) [OF True refl rd [symmetric] rest 1(3) c(2) c(1)])
    have "nat (off + (position + int ?c)) = nat (off + position) + length chunk"
      unfolding lc add.assoc [symmetric] by (rule nat_add_int) (use 1(3,4) in simp)
    moreover have "nat (len - position) = ?c + ?m"
    proof -
      have "int ?c \<le> len - position" using c(1) by linarith
      from nat_split_add [OF this] show ?thesis by (simp only: diff_diff_eq)
    qed
    moreover have "fst (Read_bytes (?c + ?m) r) = chunk @ fst (Read_bytes ?m r')"
      by (simp only: Read_bytes_add rd fst_conv snd_conv)
    ultimately show ?thesis using v1 ih by (simp only: pwrite_pwrite)
  qed
qed

lemma random_written:
  "writeRandomContentAt (fc_WriteAt io h) seeded off len seed s = (Inr (), s') \<Longrightarrow> 0 \<le> off \<Longrightarrow> 0 \<le> len \<Longrightarrow>
     view h s' = pwrite (view h s) (nat off) (fst (Read_bytes (nat len) (seeded seed)))"
  using random_loop_written [of h _ off len 0 "seeded seed" s s']
  by (auto simp: writeRandomContentAt_def returnS_def split: if_splits)

lemma repeated_loop_written:
  "write_repeated_loop (fc_WriteAt io h) chunk logicalSize off s = (Inr (), s') \<Longrightarrow>
     0 \<le> off \<Longrightarrow> off \<le> logicalSize \<Longrightarrow> chunk \<noteq> [] \<Longrightarrow>
     view h s' = pwrite (view h s) (nat off) (map (\<lambda>k. chunk ! (k mod length chunk)) [0..<nat (logicalSize - off)])"
proof (induction "fc_WriteAt io h" chunk logicalSize off arbitrary: s rule: write_repeated_loop.induct)
  case (1 chunk logicalSize off)
  let ?g = "\<lambda>k. chunk ! (k mod length chunk)"
  show ?case
  proof (cases "off < logicalSize")
    case False
    then show ?thesis using 1(2,4) by (subst (asm) write_repeated_loop.simps) (simp add: returnS_def)
  next
    case True
    let ?c = "nat (minInt64 (logicalSize - off) (int (length chunk)))"
    let ?m = "nat (logicalSize - (off + int ?c))"
    have c: "0 \<le> off + int ?c" "off + int ?c \<le> logicalSize" "?c \<le> length chunk"
      using True 1(3) by (auto simp: minInt64_def)
    have tk: "take ?c chunk = map ?g [0..<?c]" using c(3) by (rule take_chunk)
    obtain s1 where w: "write_chunk ''failed to write repeated-block chunk'' (fc_WriteAt io h) (take ?c chunk) off s
        = (Inr (), s1)"
      and rest: "write_repeated_loop (fc_WriteAt io h) chunk logicalSize (off + int ?c) s1 = (Inr (), s')"
      using 1(2) True 1(5) by (subst (asm) write_repeated_loop.simps) (auto simp: Let_def bindS_eq_Inr)
    have v1: "view h s1 = pwrite (view h s) (nat off) (map ?g [0..<?c])"
      using chunk_written [OF w 1(3)] tk by simp
    have ih: "view h s' = pwrite (view h s1) (nat (off + int ?c)) (map ?g [0..<?m])"
      using True 1(5) by (intro 1(1) [OF _ refl rest c(1,2) 1(5)]) simp
    have "map ?g [0..<nat (logicalSize - off)] = map ?g [0..<?c] @ map ?g [0..<?m]"
    proof -
      have "nat (logicalSize - off) = ?c + ?m"
      proof -
        have "int ?c \<le> logicalSize - off" using c(2) by linarith
        from nat_split_add [OF this] show ?thesis by (simp only: diff_diff_eq)
      qed
      moreover have "map (\<lambda>k. ?g (?c + k)) [0..<?m] = map ?g [0..<?m]"
      proof (cases "?c = length chunk")
        case True
        then show ?thesis by (simp only: mod_add_self1)
      next
        case False
        then have "?m = 0" using c(3) by (auto simp: minInt64_def split: if_splits)
        then show ?thesis by (simp only: upt_0 list.map)
      qed
      ultimately show ?thesis by (simp only: map_upt_add)
    qed
    moreover have "nat (off + int ?c) = nat off + length (map ?g [0..<?c])"
      unfolding length_map length_upt by (subst nat_add_int [OF 1(3)]) simp
    ultimately show ?thesis unfolding ih v1 by (simp only: pwrite_pwrite)
  qed
qed

end

lemma repeated_chunk_props: "length (repeated_chunk b) = defaultContentWriteChunkSize" "repeated_chunk b \<noteq> []"
  by (simp_all add: repeated_chunk_def defaultContentWriteChunkSize_def)

text \<open>The byte at position \<open>k\<close> of a repeated-block content: every write chunk starts the block anew.\<close>

definition repeated_byte :: "8 word list \<Rightarrow> nat \<Rightarrow> 8 word" where
  "repeated_byte block k = block ! ((k mod defaultContentWriteChunkSize) mod length block)"

text \<open>Where the chunks do not show, that is the block again and again.\<close>

lemma repeated_byte_plain:
  assumes "k < defaultContentWriteChunkSize \<or> length block dvd defaultContentWriteChunkSize"
  shows "repeated_byte block k = block ! (k mod length block)"
  using assms by (auto simp: repeated_byte_def mod_mod_cancel)

lemma repeated_chunk_bytes:
  assumes "block \<noteq> []"
  shows "map (\<lambda>k. repeated_chunk block ! (k mod length (repeated_chunk block))) [0..<n] =
    map (repeated_byte block) [0..<n]"
proof -
  have "repeated_chunk block ! (k mod defaultContentWriteChunkSize) = repeated_byte block k" for k
  proof -
    have "k mod defaultContentWriteChunkSize < defaultContentWriteChunkSize"
      by (simp add: defaultContentWriteChunkSize_def)
    then show ?thesis by (simp add: repeated_chunk_def repeated_byte_def)
  qed
  then show ?thesis by (simp add: repeated_chunk_props(1))
qed

context byte_file
begin

lemma repeated_written:
  assumes "writeRepeatedContent (fc_WriteAt io h) n block s = (Inr (), s')" and "0 \<le> n" "block \<noteq> []"
  shows "view h s' = pwrite (view h s) 0 (map (repeated_byte block) [0..<nat n])"
proof (cases "n = 0")
  case True
  then show ?thesis using assms(1) by (simp add: writeRepeatedContent_def returnS_def)
next
  case False
  then have "write_repeated_loop (fc_WriteAt io h) (repeated_chunk block) n 0 s = (Inr (), s')"
    using assms(1,3) by (simp add: writeRepeatedContent_def)
  from repeated_loop_written [OF this _ assms(2) repeated_chunk_props(2)] show ?thesis
    by (simp add: repeated_chunk_bytes [OF assms(3)])
qed

end

section \<open>Planned contents are well formed\<close>

definition range_ok :: "int \<Rightarrow> plannedContentRange \<Rightarrow> bool" where
  "range_ok sz x \<longleftrightarrow> 0 \<le> rg_offset x \<and> 1 \<le> rg_length x \<and> rg_offset x + rg_length x \<le> sz \<and>
     0 \<le> rg_seed x \<and> rg_seed x < 2 ^ 63"

definition extents_length :: "plannedContentRange list \<Rightarrow> int" where
  "extents_length xs = sum_list (map rg_length xs)"

text \<open>
  What a planned content promises its writer: a known pattern, a size, extents inside it,
  a non-empty block of at most one chunk, and the number of bytes that will be written.
\<close>

definition content_ok :: "plannedFileContent \<Rightarrow> bool" where
  "content_ok c \<longleftrightarrow> 0 \<le> pc_logicalSize c \<and>
     list_all (range_ok (pc_logicalSize c)) (pc_sparseExtents c) \<and>
     list_all (range_ok (pc_logicalSize c)) (pc_overwriteExtents c) \<and>
     (case pc_pattern c of
        ContentPatternDenseRandom \<Rightarrow> pc_expectedWrittenBytes c = pc_logicalSize c \<and> \<not> pc_expectedSparse c
      | ContentPatternSparseHoles \<Rightarrow>
          pc_expectedWrittenBytes c = extents_length (pc_sparseExtents c) \<and>
          pc_expectedSparse c = (pc_expectedWrittenBytes c < pc_logicalSize c) \<and>
          length (pc_sparseExtents c) = (if pc_logicalSize c = 0 then 0 else 1)
      | ContentPatternRepeatedBlocks \<Rightarrow>
          pc_expectedWrittenBytes c = pc_logicalSize c \<and> \<not> pc_expectedSparse c \<and>
          pc_repeatedBlock c \<noteq> [] \<and> length (pc_repeatedBlock c) \<le> defaultContentWriteChunkSize
      | ContentPatternPartialRangeOverwrite \<Rightarrow>
          pc_expectedWrittenBytes c = wrap64 (pc_logicalSize c + extents_length (pc_overwriteExtents c)) \<and>
          \<not> pc_expectedSparse c \<and>
          sorted (map (\<lambda>u. (rg_offset u, rg_length u)) (pc_overwriteExtents c)) \<and>
          length (pc_overwriteExtents c) = (if pc_logicalSize c = 0 then 0 else defaultPartialOverwriteCount)
      | ContentPatternUnknown n \<Rightarrow> False)"

lemma gives_segment:
  "0 < sz \<Longrightarrow> gives (randomizedSegmentLength sz) (\<lambda>n. 1 \<le> n \<and> n \<le> sz)"
  unfolding randomizedSegmentLength_def Let_def
  by (rule gives_if, simp, rule gives_bind [OF gives_Intn], rule gives_return) (auto split: if_splits)

lemma gives_offset:
  "1 \<le> len \<Longrightarrow> sz < 2 ^ 63 \<Longrightarrow> gives (randomizedOffset sz len) (\<lambda>off. 0 \<le> off \<and> off + len \<le> sz)"
  unfolding randomizedOffset_def Let_def
  by (intro gives_if gives_raise gives_return gives_mono [OF gives_Intn])
    (auto simp: int64_range_def)

lemma gives_updates:
  assumes "0 < sz" "sz < 2 ^ 63" "list_all (range_ok sz) us" "written = wrap64 (sz + extents_length us)"
  shows "gives (plan_updates n sz us written) (\<lambda>(vs, w). list_all (range_ok sz) vs \<and>
    w = wrap64 (sz + extents_length vs) \<and> length vs = length us + n)"
  using assms(3,4)
proof (induction n arbitrary: us written)
  case 0
  then show ?case by (simp add: gives_return)
next
  case (Suc n)
  show ?case
    unfolding plan_updates.simps
  proof (rule gives_bind [OF gives_segment [OF assms(1)]])
    fix len assume len: "1 \<le> len \<and> len \<le> sz"
    show "gives (bindS (randomizedOffset sz len) (\<lambda>off. bindS int63 (\<lambda>seed. plan_updates n sz
        (us @ [\<lparr>rg_offset = off, rg_length = len, rg_seed = seed\<rparr>]) (wrap64 (written + len)))))
        (\<lambda>(vs, w). list_all (range_ok sz) vs \<and> w = wrap64 (sz + extents_length vs) \<and> length vs = length us + Suc n)"
    proof (rule gives_bind [OF gives_offset [OF _ assms(2)]], use len in simp, rule gives_bind [OF gives_int63])
      fix off seed :: int assume o: "0 \<le> off \<and> off + len \<le> sz" "0 \<le> seed \<and> seed < 2 ^ 63"
      let ?u = "\<lparr>rg_offset = off, rg_length = len, rg_seed = seed\<rparr>"
      have w: "wrap64 (written + len) = wrap64 (sz + extents_length (us @ [?u]))"
        using Suc.prems(2) by (simp add: wrap64_def extents_length_def mod_simps algebra_simps)
      show "gives (plan_updates n sz (us @ [?u]) (wrap64 (written + len)))
        (\<lambda>(vs, w). list_all (range_ok sz) vs \<and> w = wrap64 (sz + extents_length vs) \<and> length vs = length us + Suc n)"
      proof -
        have "range_ok sz ?u" using o len by (simp add: range_ok_def)
        then have "list_all (range_ok sz) (us @ [?u])" using Suc.prems(1) by simp
        from Suc.IH [OF this w] show ?thesis by simp
      qed
    qed
  qed
qed

lemma extents_length_sort: "extents_length (sort_key f xs) = extents_length xs"
  unfolding extents_length_def by (metis mset_map mset_sort sum_mset_sum_list)

lemma gives_block:
  "gives (resolveRepeatedBlock g sz) (\<lambda>b. b \<noteq> [] \<and> length b \<le> defaultContentWriteChunkSize)"
  unfolding resolveRepeatedBlock_def
  by (intro gives_bind [OF gives_any] gives_if gives_raise gives_return)
    (auto simp: defaultContentWriteChunkSize_def)

lemma content0_simps [simp]:
  "pc_sparseExtents content0 = []" "pc_overwriteExtents content0 = []" "\<not> pc_expectedSparse content0"
  "pc_expectedWrittenBytes content0 = 0"
  by (simp_all add: content0_def)

text \<open>A content of which only the pattern and a size in range are set.\<close>

definition fresh_content :: "ContentPattern \<Rightarrow> plannedFileContent \<Rightarrow> bool" where
  "fresh_content pat c \<longleftrightarrow> pc_pattern c = pat \<and> 0 \<le> pc_logicalSize c \<and> pc_logicalSize c < 2 ^ 63 \<and>
     pc_sparseExtents c = [] \<and> pc_overwriteExtents c = [] \<and> \<not> pc_expectedSparse c \<and>
     pc_expectedWrittenBytes c = 0"

lemma gives_dense: "fresh_content ContentPatternDenseRandom c \<Longrightarrow> gives (plan_dense c) content_ok"
  unfolding plan_dense_def
  by (rule gives_bind [OF gives_any], rule gives_return) (simp add: fresh_content_def content_ok_def)

lemma gives_sparse:
  assumes "fresh_content ContentPatternSparseHoles c"
  shows "gives (plan_sparse c) content_ok"
  unfolding plan_sparse_def Let_def
proof (rule gives_if, rule gives_return)
  assume "pc_logicalSize c = 0"
  then show "content_ok c" using assms by (simp add: fresh_content_def content_ok_def extents_length_def)
next
  assume "pc_logicalSize c \<noteq> 0"
  then have n: "0 < pc_logicalSize c" "pc_logicalSize c < 2 ^ 63" using assms by (simp_all add: fresh_content_def)
  let ?seg = "bindS (randomizedSegmentLength (pc_logicalSize c)) (\<lambda>len.
    returnS (if 1 < pc_logicalSize c \<and> pc_logicalSize c \<le> len then pc_logicalSize c - 1 else len))"
  have seg: "gives ?seg (\<lambda>len. 1 \<le> len)"
    by (rule gives_bind [OF gives_segment [OF n(1)]], rule gives_return) simp
  show "gives (bindS ?seg (\<lambda>len. bindS (randomizedOffset (pc_logicalSize c) len) (\<lambda>off.
        bindS int63 (\<lambda>seed. returnS (c\<lparr>pc_sparseExtents := [\<lparr>rg_offset = off, rg_length = len, rg_seed = seed\<rparr>],
          pc_expectedWrittenBytes := len, pc_expectedSparse := len < pc_logicalSize c\<rparr>))))) content_ok"
    by (rule gives_bind [OF seg], rule gives_bind [OF gives_offset [OF _ n(2)]], assumption,
        rule gives_bind [OF gives_int63], rule gives_return)
      (use assms n in \<open>simp add: content_ok_def fresh_content_def extents_length_def range_ok_def\<close>)
qed

lemma gives_repeated:
  assumes "fresh_content ContentPatternRepeatedBlocks c"
  shows "gives (plan_repeated g c) content_ok"
  unfolding plan_repeated_def
  by (rule gives_bind [OF gives_block], rule gives_return)
    (use assms in \<open>simp add: fresh_content_def content_ok_def\<close>)

lemma gives_partial:
  assumes "fresh_content ContentPatternPartialRangeOverwrite c"
  shows "gives (plan_partial c) content_ok"
  unfolding plan_partial_def Let_def
proof (rule gives_bind [OF gives_any], rule gives_if, rule gives_return)
  fix seed assume "pc_logicalSize c = 0"
  then show "content_ok (c\<lparr>pc_seed := seed, pc_expectedWrittenBytes := pc_logicalSize c\<rparr>)"
    using assms by (simp add: fresh_content_def content_ok_def extents_length_def wrap64_def)
next
  fix seed assume "pc_logicalSize c \<noteq> 0"
  then have n: "0 < pc_logicalSize c" "pc_logicalSize c < 2 ^ 63" using assms by (simp_all add: fresh_content_def)
  have u: "gives (plan_updates k (pc_logicalSize c) [] (pc_logicalSize c))
      (\<lambda>(vs, w). list_all (range_ok (pc_logicalSize c)) vs \<and>
        w = wrap64 (pc_logicalSize c + extents_length vs) \<and> length vs = k)" for k
    using gives_updates [OF n, of "[]" "pc_logicalSize c" k] n by (simp add: extents_length_def int64_range_def)
  show "gives (bindS (plan_updates defaultPartialOverwriteCount (pc_logicalSize c) [] (pc_logicalSize c))
      (\<lambda>(updates, written). returnS (c\<lparr>pc_seed := seed, pc_expectedWrittenBytes := pc_logicalSize c,
         pc_expectedWrittenBytes := written,
         pc_overwriteExtents := sort_key (\<lambda>u. (rg_offset u, rg_length u)) updates\<rparr>))) content_ok"
    by (rule gives_bind [OF u], unfold split_beta, rule gives_return)
      (use assms n in \<open>auto simp: content_ok_def fresh_content_def extents_length_sort list_all_iff\<close>)
qed

lemma gives_content:
  assumes "gives (call (contentLogicalSizeGen g)) (\<lambda>n. n < 2 ^ 63)"
  shows "gives (planFileContentPattern g) content_ok"
  unfolding planFileContentPattern_def Let_def
proof (rule gives_bind [OF gives_any], rule gives_bind [OF gives_any], rule gives_bind [OF assms],
    rule gives_if, rule gives_raise)
  fix pat and u :: unit and n assume "n < 2 ^ 63" "\<not> n < (0 :: int)"
  then have f: "fresh_content pat (content0\<lparr>pc_pattern := pat, pc_logicalSize := n\<rparr>)"
    by (simp add: fresh_content_def)
  show "gives (case pat of
       ContentPatternDenseRandom \<Rightarrow> plan_dense (content0\<lparr>pc_pattern := pat, pc_logicalSize := n\<rparr>)
     | ContentPatternSparseHoles \<Rightarrow> plan_sparse (content0\<lparr>pc_pattern := pat, pc_logicalSize := n\<rparr>)
     | ContentPatternRepeatedBlocks \<Rightarrow> plan_repeated g (content0\<lparr>pc_pattern := pat, pc_logicalSize := n\<rparr>)
     | ContentPatternPartialRangeOverwrite \<Rightarrow> plan_partial (content0\<lparr>pc_pattern := pat, pc_logicalSize := n\<rparr>)
     | ContentPatternUnknown n \<Rightarrow> raiseS (Errorf ''unsupported content pattern'' None)) content_ok"
    using f by (cases pat) (simp_all add: gives_dense gives_sparse gives_repeated gives_partial gives_raise)
qed

section \<open>Properties\<close>

text \<open>The bytes of a seed: what one read of \<open>n\<close> bytes from its source gives.\<close>

definition seed_bytes :: "(int \<Rightarrow> rng) \<Rightarrow> int \<Rightarrow> int \<Rightarrow> 8 word list" where
  "seed_bytes seeded seed n = fst (Read_bytes (nat n) (seeded seed))"

text \<open>The byte at \<open>k\<close> after the extents are written over \<open>b\<close>, the later ones last.\<close>

fun overlay_byte :: "(int \<Rightarrow> rng) \<Rightarrow> plannedContentRange list \<Rightarrow> nat \<Rightarrow> 8 word \<Rightarrow> 8 word" where
  "overlay_byte seeded [] k b = b"
| "overlay_byte seeded (x # xs) k b =
     overlay_byte seeded xs k
       (if rg_offset x \<le> int k \<and> int k < rg_offset x + rg_length x
        then seed_bytes seeded (rg_seed x) (rg_length x) ! (k - nat (rg_offset x)) else b)"

definition content_byte :: "(int \<Rightarrow> rng) \<Rightarrow> plannedFileContent \<Rightarrow> nat \<Rightarrow> 8 word" where
  "content_byte seeded c k =
     (case pc_pattern c of
        ContentPatternDenseRandom \<Rightarrow> seed_bytes seeded (pc_seed c) (pc_logicalSize c) ! k
      | ContentPatternSparseHoles \<Rightarrow> overlay_byte seeded (pc_sparseExtents c) k 0
      | ContentPatternRepeatedBlocks \<Rightarrow> repeated_byte (pc_repeatedBlock c) k
      | ContentPatternPartialRangeOverwrite \<Rightarrow>
          overlay_byte seeded (pc_overwriteExtents c) k (seed_bytes seeded (pc_seed c) (pc_logicalSize c) ! k)
      | ContentPatternUnknown n \<Rightarrow> 0)"

definition byte_or_0 :: "8 word list \<Rightarrow> nat \<Rightarrow> 8 word" where
  "byte_or_0 f k = (if k < length f then f ! k else 0)"

lemma seed_bytes_length [simp]: "length (seed_bytes seeded seed n) = nat n"
  by (simp add: seed_bytes_def)

lemma byte_or_0_pwrite:
  "byte_or_0 (pwrite f off data) k =
     (if off \<le> k \<and> k < off + length data then data ! (k - off) else byte_or_0 f k)"
proof (cases "k < length (pwrite f off data)")
  case True
  then show ?thesis using nth_pwrite [OF True] by (simp add: byte_or_0_def)
next
  case False
  then show ?thesis by (auto simp: byte_or_0_def length_pwrite split: if_splits)
qed

lemma byte_or_0_Nil [simp]: "byte_or_0 [] k = 0"
  by (simp add: byte_or_0_def)

lemma ftruncate_ok:
  assumes "0 \<le> n" "length f \<le> nat n" "\<forall>k < nat n. byte_or_0 f k = g k"
  shows "ftruncate f n = Inr (map g [0..<nat n])"
proof -
  have "f @ replicate (nat n - length f) 0 = map g [0..<nat n]"
  proof (rule nth_equalityI)
    show "length (f @ replicate (nat n - length f) 0) = length (map g [0..<nat n])" using assms(2) by simp
    fix k assume "k < length (f @ replicate (nat n - length f) 0)"
    then have "k < nat n" using assms(2) by simp
    then show "(f @ replicate (nat n - length f) 0) ! k = map g [0..<nat n] ! k"
      using assms(3) [rule_format, of k] by (auto simp: byte_or_0_def nth_append split: if_splits)
  qed
  then show ?thesis using assms(1,2) by (simp add: ftruncate_def)
qed

text \<open>What the writer needs of a content; the announced numbers do not matter to it.\<close>

definition content_writable :: "plannedFileContent \<Rightarrow> bool" where
  "content_writable c \<longleftrightarrow> 0 \<le> pc_logicalSize c \<and>
     list_all (range_ok (pc_logicalSize c)) (pc_sparseExtents c) \<and>
     list_all (range_ok (pc_logicalSize c)) (pc_overwriteExtents c) \<and>
     (case pc_pattern c of
        ContentPatternRepeatedBlocks \<Rightarrow>
          pc_repeatedBlock c \<noteq> [] \<and> length (pc_repeatedBlock c) \<le> defaultContentWriteChunkSize
      | ContentPatternUnknown n \<Rightarrow> False
      | _ \<Rightarrow> True)"

lemma content_ok_writable: "content_ok c \<Longrightarrow> content_writable c"
  by (simp add: content_ok_def content_writable_def split: ContentPattern.splits)

context byte_file
begin

lemma extents_written:
  "write_extents (fc_WriteAt io h) seeded xs s = (Inr (), s') \<Longrightarrow> list_all (range_ok n) xs \<Longrightarrow>
     length (view h s) \<le> nat n \<Longrightarrow>
     length (view h s') \<le> nat n \<and>
       (\<forall>k. byte_or_0 (view h s') k = overlay_byte seeded xs k (byte_or_0 (view h s) k))"
proof (induction xs arbitrary: s)
  case Nil
  then show ?case by (simp add: returnS_def)
next
  case (Cons x xs)
  let ?d = "seed_bytes seeded (rg_seed x) (rg_length x)"
  let ?f = "pwrite (view h s) (nat (rg_offset x)) ?d"
  have x: "0 \<le> rg_offset x" "1 \<le> rg_length x" "rg_offset x + rg_length x \<le> n"
    using Cons.prems(2) by (simp_all add: range_ok_def)
  obtain s1 where w: "writeRandomContentAt (fc_WriteAt io h) seeded (rg_offset x) (rg_length x) (rg_seed x) s
      = (Inr (), s1)"
    and rest: "write_extents (fc_WriteAt io h) seeded xs s1 = (Inr (), s')"
    using Cons.prems(1) by (auto simp: bindS_eq_Inr)
  have v1: "view h s1 = ?f" using random_written [OF w] x by (simp add: seed_bytes_def)
  have "nat (rg_offset x) + nat (rg_length x) \<le> nat n" using x by linarith
  then have l: "length (view h s1) \<le> nat n" unfolding v1 using Cons.prems(3) by (simp add: length_pwrite)
  have ih: "length (view h s') \<le> nat n"
    "\<forall>k. byte_or_0 (view h s') k = overlay_byte seeded xs k (byte_or_0 (view h s1) k)"
    using Cons.IH [OF rest _ l] Cons.prems(2) by simp_all
  have "(nat (rg_offset x) \<le> k \<and> k < nat (rg_offset x) + length ?d) \<longleftrightarrow>
      (rg_offset x \<le> int k \<and> int k < rg_offset x + rg_length x)" for k
    using x by auto
  then show ?case using ih by (auto simp: v1 byte_or_0_pwrite)
qed

lemma base_written:
  assumes "writeRandomContentAt (fc_WriteAt io h) seeded 0 n seed s = (Inr (), s')" "0 \<le> n" "view h s = []"
  shows "view h s' = seed_bytes seeded seed n"
  using random_written [OF assms(1)] assms(2,3) by (simp add: seed_bytes_def)

lemma pattern_written:
  assumes "content_writable c" and w: "write_pattern (fc_WriteAt io h) seeded c s = (Inr (), s')" and "view h s = []"
  shows "length (view h s') \<le> nat (pc_logicalSize c) \<and>
    (\<forall>k < nat (pc_logicalSize c). byte_or_0 (view h s') k = content_byte seeded c k)"
proof (cases "pc_pattern c")
  case ContentPatternDenseRandom
  then show ?thesis
    using base_written [of h seeded "pc_logicalSize c" "pc_seed c" s s'] assms
    by (simp add: write_pattern_def content_writable_def content_byte_def byte_or_0_def)
next
  case ContentPatternSparseHoles
  then show ?thesis
    using extents_written [of h seeded "pc_sparseExtents c" s s' "pc_logicalSize c"] assms
    by (simp add: write_pattern_def content_writable_def content_byte_def)
next
  case ContentPatternRepeatedBlocks
  then show ?thesis
    using repeated_written [of h "pc_logicalSize c" "pc_repeatedBlock c" s s'] assms
    by (simp add: write_pattern_def content_writable_def content_byte_def byte_or_0_def)
next
  case ContentPatternPartialRangeOverwrite
  then obtain s1 where b: "writeRandomContentAt (fc_WriteAt io h) seeded 0 (pc_logicalSize c) (pc_seed c) s = (Inr (), s1)"
    and e: "write_extents (fc_WriteAt io h) seeded (pc_overwriteExtents c) s1 = (Inr (), s')"
    using w by (auto simp: write_pattern_def bindS_eq_Inr)
  have v1: "view h s1 = seed_bytes seeded (pc_seed c) (pc_logicalSize c)"
    using base_written [OF b] assms(1,3) by (simp add: content_writable_def)
  from extents_written [OF e, of "pc_logicalSize c"] show ?thesis
    using assms(1) ContentPatternPartialRangeOverwrite
    by (simp add: v1 content_writable_def content_byte_def byte_or_0_def)
next
  case (ContentPatternUnknown k)
  then show ?thesis using assms by (simp add: content_writable_def)
qed

text \<open>A normal return has opened, truncated and closed the file, and the bytes are there.\<close>

lemma content_written:
  assumes "content_writable c" and w: "writePlannedFileContent io seeded path mode c s = (Inr (), s')"
  shows "\<exists>h s0 s1 s2 s3. fc_OpenFile io path (and mode 0x1FF) s = (Inr h, s0) \<and>
    fc_Truncate io h (pc_logicalSize c) s1 = (Inr (), s2) \<and> fc_Close io h s2 = (Inr (), s3) \<and>
    view h s' = map (content_byte seeded c) [0..<nat (pc_logicalSize c)]"
proof -
  obtain h s0 where o: "fc_OpenFile io path (and mode 0x1FF) s = (Inr h, s0)"
    and d: "deferS (fc_Close io h) (bindS (write_pattern (fc_WriteAt io h) seeded c) (\<lambda>_.
       bindS (wrapS ''failed to truncate planned file'' (fc_Truncate io h (pc_logicalSize c))) (\<lambda>_.
       wrapS ''failed to finalize planned file'' (fc_Close io h)))) s0 = (Inr (), s')"
    using w by (auto simp: writePlannedFileContent_def bindS_eq_Inr wrapS_eq_Inr)
  obtain s3 where b: "bindS (write_pattern (fc_WriteAt io h) seeded c) (\<lambda>_.
       bindS (wrapS ''failed to truncate planned file'' (fc_Truncate io h (pc_logicalSize c))) (\<lambda>_.
       wrapS ''failed to finalize planned file'' (fc_Close io h))) s0 = (Inr (), s3)"
    and s': "s' = snd (fc_Close io h s3)"
    using d by (auto simp: deferS_def split: prod.splits)
  obtain s1 s2 where p: "write_pattern (fc_WriteAt io h) seeded c s0 = (Inr (), s1)"
    and t: "fc_Truncate io h (pc_logicalSize c) s1 = (Inr (), s2)" and c: "fc_Close io h s2 = (Inr (), s3)"
    using b by (auto simp: bindS_eq_Inr wrapS_eq_Inr)
  have n: "0 \<le> pc_logicalSize c" using assms(1) by (simp add: content_writable_def)
  have "Inr (view h s2) = ftruncate (view h s1) (pc_logicalSize c)" by (rule truncate_cuts [OF n t])
  moreover have "ftruncate (view h s1) (pc_logicalSize c) = Inr (map (content_byte seeded c) [0..<nat (pc_logicalSize c)])"
    using pattern_written [OF assms(1) p open_empty [OF o]] by (intro ftruncate_ok [OF n]) simp_all
  moreover have "view h s' = view h s2" using close_keeps [of h s2] close_keeps [of h s3] c s' by simp
  ultimately show ?thesis using o t c by auto
qed

end

section \<open>When the writer succeeds\<close>

text \<open>A file with room for \<open>limit\<close> bytes: no call on it fails as long as the bytes stay below.\<close>

locale roomy_file =
  fixes io :: "('s, 'h) file_calls" and room :: "'h \<Rightarrow> 's \<Rightarrow> bool" and limit :: int
  assumes write_room: "room h s \<Longrightarrow> 0 \<le> off \<Longrightarrow> off + int (length d) \<le> limit \<Longrightarrow>
      \<exists>s'. fc_WriteAt io h d off s = (Inr (int (length d)), s') \<and> room h s'"
    and truncate_room: "room h s \<Longrightarrow> 0 \<le> n \<Longrightarrow> n \<le> limit \<Longrightarrow> \<exists>s'. fc_Truncate io h n s = (Inr (), s') \<and> room h s'"
    and close_room: "room h s \<Longrightarrow> \<exists>s'. fc_Close io h s = (Inr (), s') \<and> room h s'"
begin

definition passes :: "'h \<Rightarrow> ('s, unit) sem \<Rightarrow> 's \<Rightarrow> bool" where
  "passes h m s \<longleftrightarrow> (\<exists>s'. m s = (Inr (), s') \<and> room h s')"

lemma passes_bind: "passes h m s \<Longrightarrow> (\<And>s'. room h s' \<Longrightarrow> passes h (g ()) s') \<Longrightarrow> passes h (bindS m g) s"
  unfolding passes_def bindS_eq_Inr by blast

lemma passes_return: "room h s \<Longrightarrow> passes h (returnS ()) s"
  by (simp add: passes_def returnS_def)

lemma passes_wrap: "passes h m s \<Longrightarrow> passes h (wrapS msg m) s"
  by (simp add: passes_def wrapS_eq_Inr)

lemma passes_chunk:
  "room h s \<Longrightarrow> 0 \<le> off \<Longrightarrow> off + int (length d) \<le> limit \<Longrightarrow> passes h (write_chunk msg (fc_WriteAt io h) d off) s"
  unfolding passes_def write_chunk_eq_Inr by (rule write_room)

lemma passes_random_loop:
  "room h s \<Longrightarrow> 0 \<le> off \<Longrightarrow> 0 \<le> position \<Longrightarrow> off + len \<le> limit \<Longrightarrow>
     passes h (write_random_loop (fc_WriteAt io h) buf off len position r) s"
proof (induction "fc_WriteAt io h" buf off len position r arbitrary: s rule: write_random_loop.induct)
  case (1 buf off len position r)
  show ?case
  proof (cases "position < len")
    case False
    then show ?thesis using passes_return [OF 1(2)] by (subst write_random_loop.simps) simp
  next
    case True
    let ?c = "nat (minInt64 (len - position) (int (Suc buf)))"
    obtain chunk r' where rd: "Read_bytes ?c r = (chunk, r')" by (meson prod.exhaust)
    have c: "position + int ?c \<le> len" "0 \<le> position + int ?c" using True 1(4) by (auto simp: minInt64_def)
    have lc: "length chunk = ?c" using Read_bytes_length [of ?c r] by (simp only: rd fst_conv)
    have "passes h (bindS (write_chunk ''failed to write deterministic content chunk'' (fc_WriteAt io h) chunk
        (off + position)) (\<lambda>_. write_random_loop (fc_WriteAt io h) buf off len (position + int ?c) r')) s"
    proof (rule passes_bind [OF passes_chunk [OF 1(2)]])
      show "off + position + int (length chunk) \<le> limit" unfolding lc using c(1) 1(5) by linarith
      show "passes h (write_random_loop (fc_WriteAt io h) buf off len (position + int ?c) r') s'" if "room h s'" for s'
        by (rule 1(1) [OF True refl rd [symmetric] that 1(3) c(2) 1(5)])
    qed (use 1(3,4) in simp)
    then show ?thesis using True rd by (subst write_random_loop.simps) (simp add: Let_def)
  qed
qed

lemma passes_random:
  assumes "room h s" "0 \<le> off" "0 \<le> len" "off + len \<le> limit"
  shows "passes h (writeRandomContentAt (fc_WriteAt io h) seeded off len seed) s"
  using assms passes_return [OF assms(1)] by (simp add: writeRandomContentAt_def passes_random_loop)

lemma passes_repeated_loop:
  "room h s \<Longrightarrow> 0 \<le> off \<Longrightarrow> logicalSize \<le> limit \<Longrightarrow>
     passes h (write_repeated_loop (fc_WriteAt io h) chunk logicalSize off) s"
proof (induction "fc_WriteAt io h" chunk logicalSize off arbitrary: s rule: write_repeated_loop.induct)
  case (1 chunk logicalSize off)
  show ?case
  proof (cases "off < logicalSize \<and> chunk \<noteq> []")
    case False
    show ?thesis
      by (subst write_repeated_loop.simps, subst if_not_P [OF False]) (rule passes_return [OF 1(2)])
  next
    case True
    let ?c = "nat (minInt64 (logicalSize - off) (int (length chunk)))"
    have "passes h (bindS (write_chunk ''failed to write repeated-block chunk'' (fc_WriteAt io h) (take ?c chunk) off)
        (\<lambda>_. write_repeated_loop (fc_WriteAt io h) chunk logicalSize (off + int ?c))) s"
    proof (rule passes_bind [OF passes_chunk [OF 1(2,3)]])
      show "off + int (length (take ?c chunk)) \<le> limit" using True 1(4) by (auto simp: minInt64_def)
      show "passes h (write_repeated_loop (fc_WriteAt io h) chunk logicalSize (off + int ?c)) s'" if "room h s'" for s'
        using 1(3) by (intro 1(1) [OF True refl that _ 1(4)]) simp
    qed
    then show ?thesis using True by (subst write_repeated_loop.simps) (simp add: Let_def)
  qed
qed

lemma passes_extents:
  "list_all (range_ok n) xs \<Longrightarrow> n \<le> limit \<Longrightarrow> room h s \<Longrightarrow> passes h (write_extents (fc_WriteAt io h) seeded xs) s"
  by (induction xs arbitrary: s) (auto simp: range_ok_def intro!: passes_return passes_bind [OF passes_random])

lemma passes_pattern:
  assumes "content_writable c" "pc_logicalSize c \<le> limit" "room h s"
  shows "passes h (write_pattern (fc_WriteAt io h) seeded c) s"
proof -
  have n: "0 \<le> pc_logicalSize c" "0 + pc_logicalSize c \<le> limit" using assms by (simp_all add: content_writable_def)
  show ?thesis
  proof (cases "pc_pattern c")
    case ContentPatternDenseRandom
    then show ?thesis using passes_random [OF assms(3) order_refl n] by (simp add: write_pattern_def)
  next
    case ContentPatternSparseHoles
    then show ?thesis
      using assms(1) passes_extents [OF _ assms(2,3)] by (simp add: write_pattern_def content_writable_def)
  next
    case ContentPatternRepeatedBlocks
    then show ?thesis
      using assms passes_return [OF assms(3)] passes_repeated_loop [OF assms(3) order_refl assms(2)]
      by (simp add: write_pattern_def content_writable_def writeRepeatedContent_def)
  next
    case ContentPatternPartialRangeOverwrite
    have "passes h (write_extents (fc_WriteAt io h) seeded (pc_overwriteExtents c)) s'" if "room h s'" for s'
      using assms(1) passes_extents [OF _ assms(2) that] by (simp add: content_writable_def)
    from passes_bind [OF passes_random [OF assms(3) order_refl n] this] show ?thesis
      using ContentPatternPartialRangeOverwrite by (simp add: write_pattern_def)
  next
    case (ContentPatternUnknown k)
    then show ?thesis using assms by (simp add: content_writable_def)
  qed
qed

lemma content_passes:
  assumes "content_writable c" "pc_logicalSize c \<le> limit"
    and "fc_OpenFile io path (and mode 0x1FF) s = (Inr h, s0)" "room h s0"
  shows "\<exists>s'. writePlannedFileContent io seeded path mode c s = (Inr (), s')"
proof -
  have n: "0 \<le> pc_logicalSize c" using assms(1) by (simp add: content_writable_def)
  have cl: "passes h (fc_Close io h) s'" if "room h s'" for s' using close_room [OF that] by (simp add: passes_def)
  have tr: "passes h (fc_Truncate io h (pc_logicalSize c)) s'" if "room h s'" for s'
    using truncate_room [OF that n assms(2)] by (simp add: passes_def)
  have "passes h (bindS (write_pattern (fc_WriteAt io h) seeded c) (\<lambda>_.
       bindS (wrapS ''failed to truncate planned file'' (fc_Truncate io h (pc_logicalSize c))) (\<lambda>_.
       wrapS ''failed to finalize planned file'' (fc_Close io h)))) s0"
    by (intro passes_bind [OF passes_pattern [OF assms(1,2,4)]] passes_bind [OF passes_wrap [OF tr]]
        passes_wrap [OF cl])
  then obtain s1 where "bindS (write_pattern (fc_WriteAt io h) seeded c) (\<lambda>_.
       bindS (wrapS ''failed to truncate planned file'' (fc_Truncate io h (pc_logicalSize c))) (\<lambda>_.
       wrapS ''failed to finalize planned file'' (fc_Close io h))) s0 = (Inr (), s1)"
    by (auto simp: passes_def)
  then show ?thesis
    using assms(3) unfolding writePlannedFileContent_def bindS_eq_Inr [of "wrapS _ _"] wrapS_eq_Inr
    by (auto simp: deferS_def)
qed

end

section \<open>A file in memory\<close>

text \<open>A file of at most \<open>limit\<close> bytes that is only its bytes; a write beyond fails and changes nothing.\<close>

definition mem_update :: "int \<Rightarrow> err + 8 word list \<Rightarrow> 'a \<Rightarrow> (8 word list, 'a) sem" where
  "mem_update limit r x f =
     (case r of Inl e \<Rightarrow> (Inl e, f) | Inr g \<Rightarrow> if int (length g) > limit then (Fail ''EFBIG'', f) else (Inr x, g))"

definition mem_file :: "int \<Rightarrow> (8 word list, unit) file_calls" where
  "mem_file limit =
     \<lparr>fc_OpenFile = (\<lambda>path mode f. (Inr (), [])),
      fc_WriteAt = (\<lambda>h d off f. mem_update limit (WriteAt f off d) (int (length d)) f),
      fc_Truncate = (\<lambda>h n f. if n < 0 \<or> n > limit then (Fail ''EINVAL'', f) else mem_update limit (ftruncate f n) () f),
      fc_Close = (\<lambda>h f. (Inr (), f))\<rparr>"

lemma mem_update_Inr: "mem_update limit r x f = (Inr y, g) \<Longrightarrow> r = Inr g"
  by (auto simp: mem_update_def split: sum.splits if_splits)

interpretation mem: byte_file "mem_file limit" "\<lambda>h f. f"
  by unfold_locales (auto simp: mem_file_def WriteAt_def split: if_splits dest!: mem_update_Inr)

interpretation mem_room: roomy_file "mem_file limit" "\<lambda>h f. int (length f) \<le> limit" limit
  by unfold_locales
    (auto simp: mem_file_def mem_update_def WriteAt_def ftruncate_def length_pwrite split: if_splits)

text \<open>The bytes the writer leaves in such a file, or its error.\<close>

definition planned_bytes :: "int \<Rightarrow> (int \<Rightarrow> rng) \<Rightarrow> plannedFileContent \<Rightarrow> err + 8 word list" where
  "planned_bytes limit seeded c =
     (case writePlannedFileContent (mem_file limit) seeded [] 0 c [] of
        (Inl e, f) \<Rightarrow> Inl e | (Inr u, f) \<Rightarrow> Inr f)"

lemma write_content:
  assumes "content_writable c" and "pc_logicalSize c \<le> limit"
  shows "planned_bytes limit seeded c = Inr (map (content_byte seeded c) [0..<nat (pc_logicalSize c)])"
proof -
  have "fc_OpenFile (mem_file limit) [] (and 0 0x1FF) [] = (Inr (), [])" by (simp add: mem_file_def)
  moreover have "int (length ([] :: 8 word list)) \<le> limit" using assms by (simp add: content_writable_def)
  ultimately obtain f where f: "writePlannedFileContent (mem_file limit) seeded [] 0 c [] = (Inr (), f)"
    using mem_room.content_passes [OF assms(1,2)] by blast
  then show ?thesis using mem.content_written [OF assms(1) f] by (auto simp: planned_bytes_def)
qed

text \<open>
  C17: a planned content keeps its promises: for any generator whose sizes fit in 64 bits,
  whatever \<open>planFileContentPattern\<close> returns has a known pattern, extents of at least one byte
  inside the file, seeds \<^verbatim>\<open>rand.NewSource\<close> takes, a usable block, and announces the number
  of bytes written and whether the file is sparse.
\<close>

theorem planFileContentPattern_ok:
  assumes "\<And>r n r'. call (contentLogicalSizeGen g) r = (Inr n, r') \<Longrightarrow> n < 2 ^ 63"
    and "planFileContentPattern g r = (Inr c, r')"
  shows "content_ok c"
  using gives_content [of g] assms unfolding gives_def by blast

text \<open>
  C16: for such a content, and any disk whose calls keep the laws of \<open>byte_file\<close> and may fail or
  write short at any point: when \<open>writePlannedFileContent\<close> returns normally it has opened,
  truncated and closed the file without error, and the file has exactly its logical size and,
  at each position, the byte the pattern says (the stream of the seed, zero in the holes, the
  block, or the base overwritten by the extents in order), so no failed or short write is
  passed over and the size of the write buffer does not show; when the file opens and has room
  for the content, it does return normally. The repeated block is the plain repetition of the
  block when the content is at most 64 KiB or the length of the block divides 64 KiB; otherwise
  the block starts anew at every 64 KiB.
\<close>

theorem writePlannedFileContent_bytes:
  assumes "content_ok c" and "byte_file io view" and "roomy_file io room (pc_logicalSize c)"
  shows "(\<forall>s'. writePlannedFileContent io seeded path mode c s = (Inr (), s') \<longrightarrow>
      (\<exists>h s0 s1 s2 s3. fc_OpenFile io path (and mode 0x1FF) s = (Inr h, s0) \<and>
        fc_Truncate io h (pc_logicalSize c) s1 = (Inr (), s2) \<and> fc_Close io h s2 = (Inr (), s3) \<and>
        view h s' = map (content_byte seeded c) [0..<nat (pc_logicalSize c)])) \<and>
    (\<forall>h s0. fc_OpenFile io path (and mode 0x1FF) s = (Inr h, s0) \<and> room h s0 \<longrightarrow>
      (\<exists>s'. writePlannedFileContent io seeded path mode c s = (Inr (), s'))) \<and>
    (pc_pattern c = ContentPatternRepeatedBlocks \<and>
       (pc_logicalSize c \<le> 65536 \<or> length (pc_repeatedBlock c) dvd 65536) \<longrightarrow>
      (\<forall>k < nat (pc_logicalSize c).
         content_byte seeded c k = pc_repeatedBlock c ! (k mod length (pc_repeatedBlock c))))"
proof (intro conjI allI impI)
  fix s' assume "writePlannedFileContent io seeded path mode c s = (Inr (), s')"
  then show "\<exists>h s0 s1 s2 s3. fc_OpenFile io path (and mode 0x1FF) s = (Inr h, s0) \<and>
        fc_Truncate io h (pc_logicalSize c) s1 = (Inr (), s2) \<and> fc_Close io h s2 = (Inr (), s3) \<and>
        view h s' = map (content_byte seeded c) [0..<nat (pc_logicalSize c)]"
    by (rule byte_file.content_written [OF assms(2) content_ok_writable [OF assms(1)]])
next
  fix h s0 assume "fc_OpenFile io path (and mode 0x1FF) s = (Inr h, s0) \<and> room h s0"
  then show "\<exists>s'. writePlannedFileContent io seeded path mode c s = (Inr (), s')"
    using roomy_file.content_passes [OF assms(3) content_ok_writable [OF assms(1)]] by blast
next
  fix k assume r: "pc_pattern c = ContentPatternRepeatedBlocks \<and>
      (pc_logicalSize c \<le> 65536 \<or> length (pc_repeatedBlock c) dvd 65536)" "k < nat (pc_logicalSize c)"
  then have "k < defaultContentWriteChunkSize \<or> length (pc_repeatedBlock c) dvd defaultContentWriteChunkSize"
    by (auto simp: defaultContentWriteChunkSize_def)
  from repeated_byte_plain [OF this] show
    "content_byte seeded c k = pc_repeatedBlock c ! (k mod length (pc_repeatedBlock c))"
    using r(1) by (simp add: content_byte_def)
qed

definition sample_content_generator :: Generator where
  "sample_content_generator = (New ''/b'')\<lparr>contentPatternGen := Some (returnS ContentPatternSparseHoles),
     contentLogicalSizeGen := Some (returnS 4)\<rparr>"

lemma sample_plans: "is_ok (fst (planFileContentPattern sample_content_generator [1, 1, 5]))"
  by code_simp

theorem planFileContentPattern_ok_witness:
  "\<exists>c r. planFileContentPattern sample_content_generator [1, 1, 5] = (Inr c, r) \<and> content_ok c"
proof -
  obtain c r where c: "planFileContentPattern sample_content_generator [1, 1, 5] = (Inr c, r)"
    using sample_plans unfolding is_ok_iff by (metis prod.collapse)
  have bound: "n < 2 ^ 63" if "call (contentLogicalSizeGen sample_content_generator) r = (Inr n, r')" for r n r'
    using that by (simp add: sample_content_generator_def New_def call_def returnS_def)
  have "content_ok c" by (rule planFileContentPattern_ok [OF _ c], rule bound)
  then show ?thesis using c by blast
qed

definition sample_content :: plannedFileContent where
  "sample_content = content0\<lparr>pc_pattern := ContentPatternRepeatedBlocks, pc_logicalSize := 3,
     pc_expectedWrittenBytes := 3, pc_repeatedBlock := [1, 2]\<rparr>"

lemma sample_disk_full:
  "errors_Is (projl (fst (writePlannedFileContent (mem_file 2) (\<lambda>s. []) ''/f'' 0x1A4
     (sample_content\<lparr>pc_pattern := ContentPatternDenseRandom\<rparr>) [9]))) ''EFBIG''"
proof -
  obtain d r where rd: "Read_bytes 3 [] = (d, r)" by (meson prod.exhaust)
  have l: "length d = 3" using Read_bytes_length [of 3 "[]"] by (simp add: rd)
  have m: "minInt64 3 (int defaultContentWriteChunkSize) = 3" "minInt64 (3 - 0) (int (Suc (nat 3 - 1))) = 3"
    by (simp_all add: minInt64_def defaultContentWriteChunkSize_def)
  have n: "nat (3 :: int) = 3" by simp
  have w: "mem_update 2 (WriteAt [] (0 + 0) d) (int (length d)) [] = (Fail ''EFBIG'', [])"
    by (simp add: mem_update_def WriteAt_def l)
  have "write_random_loop (fc_WriteAt (mem_file 2) ()) (nat 3 - 1) 0 3 0 [] [] =
      (FailW ''failed to write deterministic content chunk'' ''EFBIG'', [])"
    by (subst write_random_loop.simps)
      (simp add: mem_file_def Let_def m [simplified] n rd w [simplified] bindS_def write_chunk_def wrapS_def wrapE_def)
  then show ?thesis
    by (simp add: writePlannedFileContent_def write_pattern_def writeRandomContentAt_def sample_content_def
        content0_def m bindS_def wrapS_def deferS_def mem_file_def wrapE_def)
qed

text \<open>A disk of five bytes has room for the content; one of two bytes has none, and the error is returned.\<close>

theorem writePlannedFileContent_bytes_witness:
  "writePlannedFileContent (mem_file 5) (\<lambda>s. []) ''/f'' 0x1A4 sample_content [9] = (Inr (), [1, 2, 1]) \<and>
   errors_Is (projl (fst (writePlannedFileContent (mem_file 2) (\<lambda>s. []) ''/f'' 0x1A4
     (sample_content\<lparr>pc_pattern := ContentPatternDenseRandom\<rparr>) [9]))) ''EFBIG''"
proof -
  have ok: "content_ok sample_content"
    by (simp add: content_ok_def sample_content_def defaultContentWriteChunkSize_def)
  have sz: "pc_logicalSize sample_content = 3" by (simp add: sample_content_def)
  have room: "roomy_file (mem_file 5) (\<lambda>h f. int (length f) \<le> 5) (pc_logicalSize sample_content)"
    using mem_room.roomy_file_axioms [of 5] by (auto simp: sz roomy_file_def)
  have o: "fc_OpenFile (mem_file 5) ''/f'' (and 0x1A4 0x1FF) [9] = (Inr (), [])" by (simp add: mem_file_def)
  note written = writePlannedFileContent_bytes [where seeded = "\<lambda>s. []" and path = "''/f''"
      and mode = "0x1A4" and s = "[9]", OF ok mem.byte_file_axioms [of 5] room]
  obtain f where f: "writePlannedFileContent (mem_file 5) (\<lambda>s. []) ''/f'' 0x1A4 sample_content [9] = (Inr (), f)"
    using written [THEN conjunct2, THEN conjunct1] o by fastforce
  have "f = map (content_byte (\<lambda>s. []) sample_content) [0..<3]" using written [THEN conjunct1] f by (auto simp: sz)
  then have "f = [1, 2, 1]"
    by (simp add: sample_content_def content_byte_def repeated_byte_def defaultContentWriteChunkSize_def
        upt_rec numeral_2_eq_2)
  moreover note sample_disk_full
  ultimately show ?thesis using f by simp
qed

end
