(* ===== verification/Plan.thy ===== *)
theory Plan
  imports Content_Patterns
begin

text \<open>
  Planning of a random tree (\<^verbatim>\<open>plan.go\<close>, from \<open>planRun\<close> to \<open>materializeHardlinkGroups\<close>). A
  planning step works on the \<open>planState\<close> and the \<open>runPlan\<close> under construction, both threaded
  through; what it changed before an error stays, as \<open>planRun\<close> returns the partial plan with
  the error. Go's map of used paths is a list read with membership, a pointer to a hardlink
  group the index of the group. The recursion into directories is bounded by fuel: every
  level appends an entry and the number of entries is limited, so \<^verbatim>\<open>planEntryLimit + 1\<close> levels
  are enough (\<^verbatim>\<open>planRun_fuel\<close> in \<^verbatim>\<open>Plan_Spec\<close>).
\<close>

section \<open>The plan\<close>

datatype plannedEntryType =
    plannedEntryTypeDir | plannedEntryTypeFile | plannedEntryTypeSymlink
  | plannedEntryTypeHardlink | plannedEntryTypeSpecial

record plannedEntry =
  pe_type :: plannedEntryType
  pe_path :: string
  pe_mode :: "32 word"
  pe_data :: "8 word list"
  pe_content :: plannedFileContent
  pe_linkTarget :: string
  pe_special :: SpecialFileType
  pe_major :: int
  pe_minor :: int
  pe_metadata :: metadataConfig

text \<open>A composite literal that names the type and the path only.\<close>

definition entry0 :: "plannedEntryType \<Rightarrow> string \<Rightarrow> plannedEntry" where
  "entry0 t p =
     \<lparr>pe_type = t, pe_path = p, pe_mode = 0, pe_data = [], pe_content = content0,
      pe_linkTarget = [], pe_special = SpecialFileTypeUnknown 0, pe_major = 0, pe_minor = 0,
      pe_metadata = metadata0\<rparr>"

record plannedHardlinkGroup =
  hg_origin :: string
  hg_paths :: "string list"

record planMetrics =
  pathRetries :: int
  pathCollisions :: int

record runPlan =
  entries :: "plannedEntry list"
  planGroups :: "plannedHardlinkGroup list"
  planMetrics :: planMetrics

record planState =
  rnd :: rng
  used :: "string list"
  lastPath :: string
  filePaths :: "string list"
  symlinkPaths :: "string list"
  hardlinkGroups :: "plannedHardlinkGroup list"
  hardlinkGroupByPath :: "nat gomap"
  entryLimit :: int
  metrics :: planMetrics

type_synonym 'a plan_op = "(planState \<times> runPlan, 'a) sem"

text \<open>A callback draws from the random source of the state.\<close>

definition rndS :: "'a gen \<Rightarrow> 'a plan_op" where
  "rndS m s = (case m (rnd (fst s)) of (r, t) \<Rightarrow> (r, ((fst s)\<lparr>rnd := t\<rparr>, snd s)))"

definition updS :: "(planState \<Rightarrow> planState) \<Rightarrow> unit plan_op" where
  "updS f = modifyS (\<lambda>s. (f (fst s), snd s))"

fun repeatS :: "nat \<Rightarrow> unit plan_op \<Rightarrow> unit plan_op" where
  "repeatS 0 m = returnS ()"
| "repeatS (Suc n) m = bindS m (\<lambda>_. repeatS n m)"

definition appendEntry :: "plannedEntry \<Rightarrow> unit plan_op" where
  "appendEntry e s =
     (if int (length (entries (snd s))) \<ge> entryLimit (fst s)
      then (FailW ''limit'' ErrPlanEntryLimitExceeded, s)
      else (Inr (), (fst s, (snd s)\<lparr>entries := entries (snd s) @ [e]\<rparr>)))"

definition maxPlanPathCollisionRetries :: nat where
  "maxPlanPathCollisionRetries = 128"

definition defaultSymlinkCycleLength :: int where
  "defaultSymlinkCycleLength = 2"

section \<open>Registered paths\<close>

definition registerFilePath :: "string \<Rightarrow> planState \<Rightarrow> planState" where
  "registerFilePath path st = st\<lparr>filePaths := filePaths st @ [path]\<rparr>"

definition registerSymlinkPath :: "string \<Rightarrow> planState \<Rightarrow> planState" where
  "registerSymlinkPath path st = st\<lparr>symlinkPaths := symlinkPaths st @ [path]\<rparr>"

definition pickFilePath :: "string option plan_op" where
  "pickFilePath =
     bindS (getS (\<lambda>s. filePaths (fst s))) (\<lambda>ps.
     if length ps = 0 then returnS None
     else bindS (rndS (pick ps)) (\<lambda>p. returnS (Some p)))"

definition pickSymlinkPath :: "string option plan_op" where
  "pickSymlinkPath =
     bindS (getS (\<lambda>s. symlinkPaths (fst s))) (\<lambda>ps.
     if length ps = 0 then returnS None
     else bindS (rndS (pick ps)) (\<lambda>p. returnS (Some p)))"

text \<open>Appending to the group at an index, and entering the path into the index.\<close>

definition join_group :: "nat \<Rightarrow> string \<Rightarrow> planState \<Rightarrow> planState" where
  "join_group i hardlinkPath st =
     (let grp = hardlinkGroups st ! i in
      st\<lparr>hardlinkGroups := (hardlinkGroups st)[i := grp\<lparr>hg_paths := hg_paths grp @ [hardlinkPath]\<rparr>],
         hardlinkGroupByPath := put hardlinkPath i (hardlinkGroupByPath st)\<rparr>)"

definition registerHardlink :: "string \<Rightarrow> string \<Rightarrow> planState \<Rightarrow> planState" where
  "registerHardlink targetPath hardlinkPath st =
     (case map_of (hardlinkGroupByPath st) targetPath of
        Some i \<Rightarrow> join_group i hardlinkPath st
      | None \<Rightarrow>
          let i = length (hardlinkGroups st);
              st = st\<lparr>hardlinkGroups := hardlinkGroups st @ [\<lparr>hg_origin = targetPath, hg_paths = [targetPath]\<rparr>],
                      hardlinkGroupByPath := put targetPath i (hardlinkGroupByPath st)\<rparr>
          in join_group i hardlinkPath st)"

text \<open>\<^verbatim>\<open>sort.Slice\<close> by origin; the origins of distinct groups differ, so any sort gives this.\<close>

definition materializeHardlinkGroups :: "planState \<Rightarrow> plannedHardlinkGroup list" where
  "materializeHardlinkGroups st =
     sort_key hg_origin (map (\<lambda>grp. grp\<lparr>hg_paths := sort_strings (hg_paths grp)\<rparr>) (hardlinkGroups st))"

section \<open>Unique paths\<close>

definition next_name :: "StringGenerator option \<Rightarrow> NumberGenerator option \<Rightarrow> StringGenerator option \<Rightarrow> string gen" where
  "next_name nameGen lenGen byteGen =
     (case byteGen of
        Some f \<Rightarrow> bindS (call lenGen) f
      | None \<Rightarrow> bindS (call lenGen) (call1 nameGen))"

fun unique_attempts :: "nat \<Rightarrow> string \<Rightarrow> string gen \<Rightarrow> string \<Rightarrow> string plan_op" where
  "unique_attempts 0 dir name entryKind =
     raiseS (Errorf entryKind (Some (Sentinel ErrPlanPathCollisionExhausted)))"
| "unique_attempts (Suc n) dir name entryKind =
     bindS (rndS name) (\<lambda>w.
     bindS (getS (\<lambda>s. used (fst s))) (\<lambda>us.
       let path = Join2 dir w in
       if path \<in> set us then
         bindS (updS (\<lambda>st. st\<lparr>metrics :=
             \<lparr>pathRetries = pathRetries (metrics st) + 1,
              pathCollisions = pathCollisions (metrics st) + 1\<rparr>\<rparr>)) (\<lambda>_.
           unique_attempts n dir name entryKind)
       else bindS (updS (\<lambda>st. st\<lparr>used := path # used st\<rparr>)) (\<lambda>_. returnS path)))"

definition planUniquePathWithByte ::
  "string \<Rightarrow> StringGenerator option \<Rightarrow> NumberGenerator option \<Rightarrow> StringGenerator option \<Rightarrow> string \<Rightarrow>
   string plan_op" where
  "planUniquePathWithByte dir nameGen lenGen byteGen entryKind =
     unique_attempts maxPlanPathCollisionRetries dir (next_name nameGen lenGen byteGen) entryKind"

text \<open>The call with the generators of file names, as every planner of a non-directory makes it.\<close>

definition unique_file_path :: "Generator \<Rightarrow> string \<Rightarrow> string \<Rightarrow> string plan_op" where
  "unique_file_path g dir entryKind =
     planUniquePathWithByte dir (fileNameGen g) (fileNameLenGen g) (byteFileNameGen g) entryKind"

section \<open>Entries\<close>

definition appendSymlink :: "string \<Rightarrow> string \<Rightarrow> unit plan_op" where
  "appendSymlink path targ =
     bindS (appendEntry ((entry0 plannedEntryTypeSymlink path)\<lparr>pe_linkTarget := targ\<rparr>)) (\<lambda>_.
     updS (registerSymlinkPath path))"

definition planSymlink :: "Generator \<Rightarrow> string \<Rightarrow> string \<Rightarrow> unit plan_op" where
  "planSymlink g dir targ =
     bindS (unique_file_path g dir ''symlink'') (\<lambda>symlinkPath. appendSymlink symlinkPath targ)"

fun cycle_paths :: "nat \<Rightarrow> Generator \<Rightarrow> string \<Rightarrow> string list \<Rightarrow> string list plan_op" where
  "cycle_paths 0 g dir ps = returnS ps"
| "cycle_paths (Suc n) g dir ps =
     bindS (unique_file_path g dir ''symlink cycle'') (\<lambda>p. cycle_paths n g dir (ps @ [p]))"

text \<open>\<open>link_cycle ps qs\<close> links each path of \<open>ps\<close> to the path of \<open>qs\<close> at the same place.\<close>

fun link_cycle :: "string list \<Rightarrow> string list \<Rightarrow> unit plan_op" where
  "link_cycle (path # ps) (nxt # ns) =
     bindS (liftS (wrapE ''failed to derive cycle symlink target'' (Rel (Dir path) nxt))) (\<lambda>relTarget.
     bindS (appendSymlink path relTarget) (\<lambda>_.
     link_cycle ps ns))"
| "link_cycle _ _ = returnS ()"

definition planSymlinkCycle :: "Generator \<Rightarrow> string \<Rightarrow> int \<Rightarrow> unit plan_op" where
  "planSymlinkCycle g dir len =
     (if len < 2 then raiseS (Errorf ''symlink cycle length must be >= 2'' None)
      else bindS (cycle_paths (nat len) g dir []) (\<lambda>cyclePaths.
        link_cycle cyclePaths (rotate1 cyclePaths)))"

definition planSymlinkStrategy :: "Generator \<Rightarrow> string \<Rightarrow> SymlinkStrategy \<Rightarrow> bool plan_op" where
  "planSymlinkStrategy g dir strategy =
     (case strategy of
        SymlinkStrategyAbsolute \<Rightarrow>
          bindS pickFilePath (\<lambda>targ.
          (case targ of None \<Rightarrow> returnS False
           | Some targetPath \<Rightarrow> bindS (planSymlink g dir targetPath) (\<lambda>_. returnS True)))
      | SymlinkStrategyRelative \<Rightarrow>
          bindS pickFilePath (\<lambda>targ.
          (case targ of None \<Rightarrow> returnS False
           | Some targetPath \<Rightarrow>
               bindS (liftS (wrapE ''failed to derive relative symlink target'' (Rel dir targetPath))) (\<lambda>relTarget.
               bindS (planSymlink g dir relTarget) (\<lambda>_. returnS True))))
      | SymlinkStrategyDangling \<Rightarrow>
          bindS (unique_file_path g dir ''dangling symlink target'') (\<lambda>danglingTarget.
          bindS (planSymlink g dir danglingTarget) (\<lambda>_. returnS True))
      | SymlinkStrategySelfReferential \<Rightarrow>
          bindS (unique_file_path g dir ''self-referential symlink'') (\<lambda>symlinkPath.
          bindS (appendSymlink symlinkPath (Base symlinkPath)) (\<lambda>_. returnS True))
      | SymlinkStrategyChained \<Rightarrow>
          bindS pickSymlinkPath (\<lambda>targ.
          (case targ of None \<Rightarrow> returnS False
           | Some chainedTarget \<Rightarrow> bindS (planSymlink g dir chainedTarget) (\<lambda>_. returnS True)))
      | SymlinkStrategyCycle \<Rightarrow>
          bindS (planSymlinkCycle g dir defaultSymlinkCycleLength) (\<lambda>_. returnS True)
      | SymlinkStrategyUnknown n \<Rightarrow> raiseS (Errorf ''unsupported symlink strategy'' None))"

definition tryPlanSymlink :: "Generator \<Rightarrow> string \<Rightarrow> bool plan_op" where
  "tryPlanSymlink g dir =
     bindS (rndS (call (symlinkProbGen g))) (\<lambda>yes.
     if \<not> yes then returnS False
     else if hasExplicitSymlinkStrategy g then
       bindS (rndS (nextSymlinkStrategy g)) (\<lambda>strategy.
       bindS (liftS (wrapE ''invalid configured symlink strategy'' (validateSymlinkStrategy strategy))) (\<lambda>_.
       planSymlinkStrategy g dir strategy))
     else
       bindS (getS (\<lambda>s. lastPath (fst s))) (\<lambda>lst.
       if lst = [] then returnS False
       else bindS (planSymlink g dir lst) (\<lambda>_. returnS True)))"

definition tryPlanHardlink :: "Generator \<Rightarrow> string \<Rightarrow> bool plan_op" where
  "tryPlanHardlink g dir =
     bindS (rndS (shouldPlanHardlink g)) (\<lambda>yes.
     if \<not> yes then returnS False
     else bindS pickFilePath (\<lambda>targ.
       case targ of None \<Rightarrow> returnS False
       | Some targetPath \<Rightarrow>
           bindS (unique_file_path g dir ''hardlink'') (\<lambda>hardlinkPath.
           bindS (appendEntry ((entry0 plannedEntryTypeHardlink hardlinkPath)\<lparr>pe_linkTarget := targetPath\<rparr>)) (\<lambda>_.
           bindS (updS (registerFilePath hardlinkPath)) (\<lambda>_.
           bindS (updS (\<lambda>st. st\<lparr>lastPath := hardlinkPath\<rparr>)) (\<lambda>_.
           bindS (updS (registerHardlink targetPath hardlinkPath)) (\<lambda>_.
           returnS True)))))))"

text \<open>The device numbers of a special file.\<close>

definition device_numbers :: "Generator \<Rightarrow> SpecialFileType \<Rightarrow> (int \<times> int) plan_op" where
  "device_numbers g fileType =
     (if isSpecialDeviceType fileType then
        if specialDeviceMajorGen g = None \<or> specialDeviceMinorGen g = None
        then raiseS (Sentinel ErrSpecialDeviceNumbersRequired)
        else
          bindS (rndS (call (specialDeviceMajorGen g))) (\<lambda>major.
          bindS (rndS (call (specialDeviceMinorGen g))) (\<lambda>minor.
          if major < 0 then raiseS (Errorf ''special device major must be >= 0'' None)
          else if minor < 0 then raiseS (Errorf ''special device minor must be >= 0'' None)
          else returnS (major, minor)))
      else returnS (0, 0))"

definition tryPlanSpecialFile :: "Generator \<Rightarrow> string \<Rightarrow> bool plan_op" where
  "tryPlanSpecialFile g dir =
     bindS (rndS (shouldPlanSpecialFile g)) (\<lambda>yes.
     if \<not> yes then returnS False
     else
       bindS (rndS (nextSpecialFileType g)) (\<lambda>fileType.
       bindS (liftS (wrapE ''invalid configured special file type'' (validateSpecialFileType fileType))) (\<lambda>_.
       bindS (unique_file_path g dir ''special file'') (\<lambda>path.
       bindS (rndS (call (fileModeGen g))) (\<lambda>mode.
       bindS (device_numbers g fileType) (\<lambda>(major, minor).
       bindS (appendEntry ((entry0 plannedEntryTypeSpecial path)
           \<lparr>pe_mode := mode, pe_special := fileType, pe_major := major, pe_minor := minor\<rparr>)) (\<lambda>_.
       bindS (updS (\<lambda>st. st\<lparr>lastPath := path\<rparr>)) (\<lambda>_.
       returnS True))))))))"

text \<open>The contents of a file entry: a planned content or data.\<close>

definition file_content :: "Generator \<Rightarrow> plannedEntry \<Rightarrow> plannedEntry plan_op" where
  "file_content g entry =
     (if hasContentPatternConfiguration g then
        bindS (rndS (wrapS ''failed to generate file content pattern'' (planFileContentPattern g))) (\<lambda>c.
        returnS (entry\<lparr>pe_content := c\<rparr>))
      else
        bindS (rndS (wrapS ''failed to generate file data'' (call (dataGen g)))) (\<lambda>d.
        returnS (entry\<lparr>pe_data := d\<rparr>)))"

text \<open>The relative symlink that may follow a file.\<close>

definition follow_symlink :: "Generator \<Rightarrow> string \<Rightarrow> string \<Rightarrow> unit plan_op" where
  "follow_symlink g dir filePath =
     (if hasExplicitSymlinkStrategy g then returnS ()
      else
        bindS (rndS (case symlinkRelProbGen g of None \<Rightarrow> returnS False | Some m \<Rightarrow> m)) (\<lambda>rel.
        if \<not> rel then returnS ()
        else
          bindS (liftS (wrapE ''failed to derive relative symlink target'' (Rel dir filePath))) (\<lambda>relTarget.
          planSymlink g dir relTarget)))"

definition planFile :: "Generator \<Rightarrow> string \<Rightarrow> unit plan_op" where
  "planFile g dir =
     bindS (unique_file_path g dir ''file'') (\<lambda>filePath.
     bindS (rndS (call (fileModeGen g))) (\<lambda>mode.
     bindS (file_content g ((entry0 plannedEntryTypeFile filePath)\<lparr>pe_mode := mode\<rparr>)) (\<lambda>entry.
     bindS (rndS (resolveMetadata g)) (\<lambda>metadata.
     bindS (appendEntry (entry\<lparr>pe_metadata := metadata\<rparr>)) (\<lambda>_.
     bindS (updS (registerFilePath filePath)) (\<lambda>_.
     bindS (updS (\<lambda>st. st\<lparr>lastPath := filePath\<rparr>)) (\<lambda>_.
     follow_symlink g dir filePath)))))))"

text \<open>One round of the loop over the files of a directory.\<close>

definition plan_file_slot :: "Generator \<Rightarrow> string \<Rightarrow> unit plan_op" where
  "plan_file_slot g path =
     bindS (tryPlanSymlink g path) (\<lambda>plannedSymlink.
     if plannedSymlink then returnS ()
     else bindS (tryPlanHardlink g path) (\<lambda>plannedHardlink.
       if plannedHardlink then returnS ()
       else bindS (tryPlanSpecialFile g path) (\<lambda>plannedSpecial.
         if plannedSpecial then returnS () else planFile g path)))"

section \<open>Directories and the run\<close>

definition set_metadata :: "nat \<Rightarrow> metadataConfig \<Rightarrow> unit plan_op" where
  "set_metadata i m = modifyS (\<lambda>s. (fst s, (snd s)\<lparr>entries :=
     (entries (snd s))[i := (entries (snd s) ! i)\<lparr>pe_metadata := m\<rparr>]\<rparr>))"

fun planDir :: "nat \<Rightarrow> Generator \<Rightarrow> string \<Rightarrow> int \<Rightarrow> unit plan_op" where
  "planDir 0 g path depth = raiseS (Panic ''no fuel'')"
| "planDir (Suc n) g path depth =
     bindS (rndS (call (pathDepthGen g))) (\<lambda>maxDepth.
     if depth + 1 > maxDepth then returnS ()
     else
       bindS (rndS (call (dirModeGen g))) (\<lambda>mode.
       bindS (appendEntry ((entry0 plannedEntryTypeDir path)\<lparr>pe_mode := mode\<rparr>)) (\<lambda>_.
       bindS (getS (\<lambda>s. length (entries (snd s)) - 1)) (\<lambda>entryIndex.
       bindS (rndS (resolveMetadata g)) (\<lambda>metadata.
       bindS (set_metadata entryIndex metadata) (\<lambda>_.
       bindS (rndS (call (nDirsInDirGen g))) (\<lambda>nDirs.
       bindS (repeatS (nat nDirs)
         (bindS (planUniquePathWithByte path (dirNameGen g) (dirNameLenGen g) (byteDirNameGen g) ''directory'')
           (\<lambda>dirPath. planDir n g dirPath (depth + 1)))) (\<lambda>_.
       bindS (rndS (call (nFilesInDirGen g))) (\<lambda>nFiles.
       repeatS (nat nFiles) (plan_file_slot g path))))))))))"

definition start_state :: "Generator \<Rightarrow> rng \<Rightarrow> planState \<times> runPlan" where
  "start_state g r =
     (\<lparr>rnd = r, used = [basePath g], lastPath = [], filePaths = [], symlinkPaths = [],
       hardlinkGroups = [], hardlinkGroupByPath = [], entryLimit = planEntryLimit g,
       metrics = \<lparr>pathRetries = 0, pathCollisions = 0\<rparr>\<rparr>,
      \<lparr>entries = [], planGroups = [], planMetrics = \<lparr>pathRetries = 0, pathCollisions = 0\<rparr>\<rparr>)"

definition finish_plan :: "planState \<times> runPlan \<Rightarrow> runPlan" where
  "finish_plan s = (snd s)\<lparr>planGroups := materializeHardlinkGroups (fst s), planMetrics := metrics (fst s)\<rparr>"

definition planRun_with :: "nat \<Rightarrow> Generator \<Rightarrow> rng \<Rightarrow> (runPlan \<times> (err + unit)) \<times> rng" where
  "planRun_with fuel g r =
     (case planDir fuel g (basePath g) 0 (start_state g r) of
        (res, s) \<Rightarrow> ((finish_plan s, res), rnd (fst s)))"

definition planRun :: "Generator \<Rightarrow> rng \<Rightarrow> (runPlan \<times> (err + unit)) \<times> rng" where
  "planRun g = planRun_with (nat (planEntryLimit g) + 1) g"

end
