(* ===== verification/Plan_Spec.thy ===== *)
theory Plan_Spec
  imports Plan
begin

text \<open>
  What a random plan promises, for every random source and whatever the callbacks draw: the
  entries can be created in their order (each below an earlier directory, each hard link
  after its target), no path twice, never more than the limit, and the hard link groups of
  the plan are exactly the sets of paths linked together. The proof is an invariant of the
  planning state, \<open>plan_inv\<close>, kept by every planning step; \<open>seg\<close> is the triple for it. The
  fuel of \<open>planDir\<close> never runs out.
\<close>

section \<open>Plans in creation order\<close>

definition paths :: "plannedEntry list \<Rightarrow> string list" where
  "paths es = map pe_path es"

definition names :: "plannedEntryType \<Rightarrow> plannedEntry list \<Rightarrow> string list" where
  "names t es = map pe_path (filter (\<lambda>e. pe_type e = t) es)"

definition hard_links :: "plannedEntry list \<Rightarrow> (string \<times> string) list" where
  "hard_links es = map (\<lambda>e. (pe_path e, pe_linkTarget e)) (filter (\<lambda>e. pe_type e = plannedEntryTypeHardlink) es)"

text \<open>A clean path properly below the base.\<close>

definition below :: "string \<Rightarrow> string \<Rightarrow> bool" where
  "below base p \<longleftrightarrow> clean_abs p \<and> take (length (elems base)) (elems p) = elems base \<and>
     length (elems base) < length (elems p)"

text \<open>An entry that can be created after the entries before it.\<close>

definition entry_ok :: "string \<Rightarrow> plannedEntry list \<Rightarrow> plannedEntry \<Rightarrow> bool" where
  "entry_ok base es e \<longleftrightarrow> pe_path e \<notin> set (paths es) \<and>
     (if es = [] then pe_type e = plannedEntryTypeDir \<and> pe_path e = base
      else below base (pe_path e) \<and> Dir (pe_path e) \<in> set (names plannedEntryTypeDir es)) \<and>
     (pe_type e = plannedEntryTypeHardlink \<longrightarrow>
        pe_linkTarget e \<in> set (names plannedEntryTypeFile es) \<union> set (names plannedEntryTypeHardlink es)) \<and>
     (pe_type e = plannedEntryTypeSymlink \<longrightarrow> pe_linkTarget e \<noteq> []) \<and>
     (pe_type e = plannedEntryTypeSpecial \<longrightarrow>
        is_ok (validateSpecialFileType (pe_special e)) \<and> 0 \<le> pe_major e \<and> 0 \<le> pe_minor e)"

definition entries_ok :: "string \<Rightarrow> plannedEntry list \<Rightarrow> bool" where
  "entries_ok base es \<longleftrightarrow> list_all (\<lambda>i. entry_ok base (take i es) (es ! i)) [0..<length es]"

text \<open>
  Groups of hard links: at least two distinct paths, the origin a file of the plan, the others
  hard links of the plan; no path in two groups; every hard link in the group of its target.
\<close>

definition group_ok :: "plannedEntry list \<Rightarrow> plannedHardlinkGroup \<Rightarrow> bool" where
  "group_ok es grp \<longleftrightarrow> distinct (hg_paths grp) \<and> 2 \<le> length (hg_paths grp) \<and>
     hg_origin grp \<in> set (hg_paths grp) \<and> hg_origin grp \<in> set (names plannedEntryTypeFile es) \<and>
     set (hg_paths grp) - {hg_origin grp} \<subseteq> set (names plannedEntryTypeHardlink es)"

definition grouped :: "plannedHardlinkGroup list \<Rightarrow> string \<times> string \<Rightarrow> bool" where
  "grouped gs l \<longleftrightarrow> list_ex (\<lambda>grp. fst l \<in> set (hg_paths grp) \<and> snd l \<in> set (hg_paths grp)) gs"

definition groups_ok :: "plannedEntry list \<Rightarrow> plannedHardlinkGroup list \<Rightarrow> bool" where
  "groups_ok es gs \<longleftrightarrow> list_all (group_ok es) gs \<and> distinct (concat (map hg_paths gs)) \<and>
     list_all (grouped gs) (hard_links es)"

lemma snoc_simps [simp]:
  "paths (es @ [e]) = paths es @ [pe_path e]"
  "names t (es @ [e]) = names t es @ (if pe_type e = t then [pe_path e] else [])"
  "hard_links (es @ [e]) = hard_links es @
     (if pe_type e = plannedEntryTypeHardlink then [(pe_path e, pe_linkTarget e)] else [])"
  "paths [] = []" "names t [] = []" "hard_links [] = []"
  by (simp_all add: paths_def names_def hard_links_def)

lemma names_paths: "p \<in> set (names t es) \<Longrightarrow> p \<in> set (paths es)"
  by (auto simp: names_def paths_def)

lemma entries_ok_snoc [simp]:
  "entries_ok base (es @ [e]) \<longleftrightarrow> entries_ok base es \<and> entry_ok base es e"
  by (auto simp: entries_ok_def list_all_iff nth_append)

lemma entries_ok_Nil [simp]: "entries_ok base []"
  by (simp add: entries_ok_def)

lemma entries_ok_distinct: "entries_ok base es \<Longrightarrow> distinct (paths es)"
  by (induction es rule: rev_induct) (simp_all add: entry_ok_def)

lemma entries_ok_path:
  "entries_ok base es \<Longrightarrow> p \<in> set (paths es) \<Longrightarrow> p = base \<or> below base p"
  by (induction es rule: rev_induct) (auto simp: entry_ok_def split: if_splits)

section \<open>Triples with errors\<close>

text \<open>
  \<open>runs I m Q F\<close>: from a state with \<open>I\<close>, a normal return has \<open>Q\<close> of the value and the final
  state, an error has \<open>F\<close> of the error and the final state.
\<close>

definition runs :: "('s \<Rightarrow> bool) \<Rightarrow> ('s, 'a) sem \<Rightarrow> ('a \<Rightarrow> 's \<Rightarrow> bool) \<Rightarrow> (err \<Rightarrow> 's \<Rightarrow> bool) \<Rightarrow> bool" where
  "runs I m Q F \<longleftrightarrow>
     (\<forall>s. I s \<longrightarrow> (case m s of (Inl e, t) \<Rightarrow> F e t | (Inr x, t) \<Rightarrow> Q x t))"

lemma runsI:
  assumes "\<And>s x t. I s \<Longrightarrow> m s = (Inr x, t) \<Longrightarrow> Q x t"
    and "\<And>s e t. I s \<Longrightarrow> m s = (Inl e, t) \<Longrightarrow> F e t"
  shows "runs I m Q F"
  using assms by (auto simp: runs_def split: prod.split sum.split)

lemma runs_okD: "runs I m Q F \<Longrightarrow> I s \<Longrightarrow> m s = (Inr x, t) \<Longrightarrow> Q x t"
  by (auto simp: runs_def)

lemma runs_errD: "runs I m Q F \<Longrightarrow> I s \<Longrightarrow> m s = (Inl e, t) \<Longrightarrow> F e t"
  by (auto simp: runs_def)

lemma runs_bind:
  assumes m: "runs I m J F" and f: "\<And>x. runs (J x) (f x) Q F"
  shows "runs I (bindS m f) Q F"
proof (rule runsI)
  fix s x t assume "I s" "bindS m f s = (Inr x, t)"
  then show "Q x t" unfolding bindS_eq_Inr using runs_okD [OF m] runs_okD [OF f] by blast
next
  fix s e t assume "I s" "bindS m f s = (Inl e, t)"
  then show "F e t" unfolding bindS_eq_Inl using runs_errD [OF m] runs_okD [OF m] runs_errD [OF f] by blast
qed

lemma runs_conseq:
  assumes m: "runs I m Q F" and "\<And>s. I' s \<Longrightarrow> I s" and "\<And>x s. Q x s \<Longrightarrow> Q' x s"
  shows "runs I' m Q' F"
  by (rule runsI) (use assms runs_okD [OF m] runs_errD [OF m] in blast)+

text \<open>\<open>fails m C\<close>: every error of \<open>m\<close> is in \<open>C\<close>.\<close>

definition fails :: "('s, 'a) sem \<Rightarrow> (err \<Rightarrow> bool) \<Rightarrow> bool" where
  "fails m C \<longleftrightarrow> (\<forall>s e t. m s = (Inl e, t) \<longrightarrow> C e)"

section \<open>The invariant\<close>

definition index_ok :: "nat gomap \<Rightarrow> plannedHardlinkGroup list \<Rightarrow> bool" where
  "index_ok ix gs \<longleftrightarrow>
     (\<forall>p i. map_of ix p = Some i \<longleftrightarrow> i < length gs \<and> p \<in> set (hg_paths (gs ! i)))"

definition st_ok :: "plannedEntry list \<Rightarrow> planState \<Rightarrow> bool" where
  "st_ok es st \<longleftrightarrow>
     set (filePaths st) \<subseteq> set (names plannedEntryTypeFile es) \<union> set (names plannedEntryTypeHardlink es) \<and>
     set (symlinkPaths st) \<subseteq> set (paths es) \<and>
     (lastPath st = [] \<or> lastPath st \<in> set (paths es)) \<and>
     index_ok (hardlinkGroupByPath st) (hardlinkGroups st) \<and> list_all (group_ok es) (hardlinkGroups st) \<and>
     list_all (grouped (hardlinkGroups st)) (hard_links es) \<and>
     pathRetries (metrics st) = pathCollisions (metrics st)"

text \<open>
  \<open>D\<close> are directories known to have an entry, \<open>P\<close> paths that are reserved and have none yet.
\<close>

definition plan_inv :: "string \<Rightarrow> int \<Rightarrow> string set \<Rightarrow> string set \<Rightarrow> planState \<times> runPlan \<Rightarrow> bool" where
  "plan_inv base lim D P s \<longleftrightarrow> clean_abs base \<and> entries_ok base (entries (snd s)) \<and>
     int (length (entries (snd s))) \<le> max 0 lim \<and> entryLimit (fst s) = lim \<and>
     set (paths (entries (snd s))) \<union> P \<subseteq> set (used (fst s)) \<and> base \<in> set (used (fst s)) \<and>
     P \<inter> set (paths (entries (snd s))) = {} \<and>
     D \<subseteq> set (names plannedEntryTypeDir (entries (snd s))) \<and> st_ok (entries (snd s)) (fst s)"

definition seg ::
  "string \<Rightarrow> int \<Rightarrow> (err \<Rightarrow> bool) \<Rightarrow> (planState \<times> runPlan \<Rightarrow> bool) \<Rightarrow> 'a plan_op \<Rightarrow>
   ('a \<Rightarrow> planState \<times> runPlan \<Rightarrow> bool) \<Rightarrow> bool" where
  "seg base lim C I m J = runs I m J (\<lambda>e s. plan_inv base lim {} {} s \<and> C e)"

lemma plan_inv_anti: "plan_inv base lim D P s \<Longrightarrow> D' \<subseteq> D \<Longrightarrow> P' \<subseteq> P \<Longrightarrow> plan_inv base lim D' P' s"
  unfolding plan_inv_def by blast

lemma plan_inv_none: "plan_inv base lim D P s \<Longrightarrow> plan_inv base lim {} {} s"
  by (erule plan_inv_anti) simp_all

lemma seg_bind:
  "seg base lim C I m J \<Longrightarrow> (\<And>x. seg base lim C (J x) (f x) K) \<Longrightarrow> seg base lim C I (bindS m f) K"
  unfolding seg_def by (rule runs_bind)

lemma seg_conseq:
  "seg base lim C I m J \<Longrightarrow> (\<And>s. I' s \<Longrightarrow> I s) \<Longrightarrow> (\<And>x s. J x s \<Longrightarrow> J' x s) \<Longrightarrow> seg base lim C I' m J'"
  unfolding seg_def by (rule runs_conseq)

lemma seg_return: "(\<And>s. I s \<Longrightarrow> J x s) \<Longrightarrow> seg base lim C I (returnS x) J"
  by (simp add: seg_def runs_def returnS_def)

lemma seg_if:
  "(b \<Longrightarrow> seg base lim C I m J) \<Longrightarrow> (\<not> b \<Longrightarrow> seg base lim C I m' J) \<Longrightarrow> seg base lim C I (if b then m else m') J"
  by simp

lemma seg_raise: "(\<And>s. I s \<Longrightarrow> plan_inv base lim {} {} s) \<Longrightarrow> C e \<Longrightarrow> seg base lim C I (raiseS e) J"
  by (simp add: seg_def runs_def raiseS_def)

lemma seg_get: "(\<And>s. I s \<Longrightarrow> J (f s) s) \<Longrightarrow> seg base lim C I (getS f) J"
  by (simp add: seg_def runs_def getS_def)

lemma seg_upd: "(\<And>s. I s \<Longrightarrow> J () (f (fst s), snd s)) \<Longrightarrow> seg base lim C I (updS f) J"
  by (simp add: seg_def runs_def updS_def modifyS_def)

text \<open>A fact that does not mention the state may be taken out of the precondition.\<close>

lemma seg_pre:
  assumes "\<And>s. I s \<Longrightarrow> A" "A \<Longrightarrow> seg base lim C I m J"
  shows "seg base lim C I m J"
proof (cases "\<exists>s. I s")
  case True
  then show ?thesis using assms by blast
next
  case False
  then show ?thesis by (simp add: seg_def runs_def)
qed

lemma plan_inv_rnd [simp]:
  "plan_inv base lim D P (fst s\<lparr>rnd := t\<rparr>, snd s) = plan_inv base lim D P s"
  by (simp add: plan_inv_def st_ok_def)

text \<open>A callback: \<open>K\<close> is whatever is known of the plan.\<close>

lemma seg_rnd:
  assumes "gives m R" "fails m C"
  shows "seg base lim C (\<lambda>s. plan_inv base lim D P s \<and> K (snd s)) (rndS m)
    (\<lambda>x s. plan_inv base lim D P s \<and> K (snd s) \<and> R x)"
  unfolding seg_def
proof (rule runsI)
  fix s x t assume s: "plan_inv base lim D P s \<and> K (snd s)" and r: "rndS m s = (Inr x, t)"
  obtain y u where m: "m (rnd (fst s)) = (y, u)" by (meson prod.exhaust)
  then show "plan_inv base lim D P t \<and> K (snd t) \<and> R x"
    using s r assms(1) by (auto simp: rndS_def gives_def)
next
  fix s e t assume s: "plan_inv base lim D P s \<and> K (snd s)" and r: "rndS m s = (Inl e, t)"
  obtain y u where m: "m (rnd (fst s)) = (y, u)" by (meson prod.exhaust)
  then show "plan_inv base lim {} {} t \<and> C e"
    using s r assms(2) by (auto simp: rndS_def fails_def dest: plan_inv_none)
qed

lemmas seg_rnd_any = seg_rnd [OF gives_any]

lemma seg_lift:
  assumes "\<And>x. r = Inr x \<Longrightarrow> R x" "\<And>e. r = Inl e \<Longrightarrow> C e"
  shows "seg base lim C (\<lambda>s. plan_inv base lim D P s \<and> K (snd s)) (liftS r)
    (\<lambda>x s. plan_inv base lim D P s \<and> K (snd s) \<and> R x)"
  unfolding seg_def using assms by (intro runsI) (auto simp: liftS_def dest: plan_inv_none)

lemma seg_repeat:
  assumes "seg base lim C I m (\<lambda>_. I)"
  shows "seg base lim C I (repeatS n m) (\<lambda>_. I)"
  by (induction n) (auto intro: seg_return seg_bind [OF assms])

section \<open>Unique paths\<close>

lemma child_path:
  assumes "clean_abs dir" "elem_ok w"
  shows "clean_abs (Join2 dir w)" "elems (Join2 dir w) = elems dir @ [w]" "Dir (Join2 dir w) = dir"
proof -
  obtain cs where cs: "\<forall>c \<in> set cs. elem_ok c" "dir = abs_path cs" using assms(1) by (rule clean_absE)
  have j: "Join2 dir w = abs_path (cs @ [w])" using Join2_abs_path [OF cs(1) assms(2)] cs(2) by simp
  then show "clean_abs (Join2 dir w)" "elems (Join2 dir w) = elems dir @ [w]"
    using cs assms(2) by simp_all
  then show "Dir (Join2 dir w) = dir" using cs assms(2) by (simp add: Dir_clean_abs)
qed

lemma dir_clean:
  assumes "plan_inv base lim D P s" "dir \<in> D"
  shows "clean_abs dir" "dir = base \<or> below base dir"
proof -
  have "dir \<in> set (paths (entries (snd s)))" using assms names_paths unfolding plan_inv_def by blast
  then show "dir = base \<or> below base dir" using assms(1) entries_ok_path unfolding plan_inv_def by blast
  then show "clean_abs dir" using assms(1) unfolding plan_inv_def below_def by blast
qed

lemma below_child:
  assumes "clean_abs dir" "dir = base \<or> below base dir" "elem_ok w"
  shows "below base (Join2 dir w)"
  using assms child_path [OF assms(1,3)] by (auto simp: below_def)

lemma plan_inv_reserve:
  "plan_inv base lim D P s \<Longrightarrow> p \<notin> set (used (fst s)) \<Longrightarrow>
     plan_inv base lim D (insert p P) ((fst s)\<lparr>used := p # used (fst s)\<rparr>, snd s)"
  by (auto simp: plan_inv_def st_ok_def)

lemma plan_inv_retry:
  "plan_inv base lim D P s \<Longrightarrow> plan_inv base lim D P ((fst s)\<lparr>metrics :=
     \<lparr>pathRetries = pathRetries (metrics (fst s)) + 1, pathCollisions = pathCollisions (metrics (fst s)) + 1\<rparr>\<rparr>, snd s)"
  by (simp add: plan_inv_def st_ok_def)

lemma plan_inv_reserved: "plan_inv base lim D P s \<Longrightarrow> p \<in> P \<Longrightarrow> p \<in> set (used (fst s))"
  unfolding plan_inv_def by blast

abbreviation reserved_in :: "string \<Rightarrow> int \<Rightarrow> string set \<Rightarrow> string set \<Rightarrow> (runPlan \<Rightarrow> bool) \<Rightarrow> string \<Rightarrow>
    string \<Rightarrow> planState \<times> runPlan \<Rightarrow> bool" where
  "reserved_in base lim D P K dir p s \<equiv>
     plan_inv base lim D (insert p P) s \<and> K (snd s) \<and> p \<notin> P \<and> below base p \<and> Dir p = dir"

lemma seg_unique:
  assumes dir: "dir \<in> D" and name: "gives m elem_ok" "fails m C"
    and C: "C (Errorf kind (Some (Sentinel ErrPlanPathCollisionExhausted)))"
  shows "seg base lim C (\<lambda>s. plan_inv base lim D P s \<and> K (snd s)) (unique_attempts n dir m kind)
    (reserved_in base lim D P K dir)"
proof (induction n)
  case 0
  show ?case unfolding unique_attempts.simps by (rule seg_raise) (use C plan_inv_none in blast)+
next
  case (Suc n)
  show ?case
    unfolding unique_attempts.simps Let_def
  proof (rule seg_bind [OF seg_rnd [OF name]], rule seg_bind)
    fix w
    show "seg base lim C (\<lambda>s. plan_inv base lim D P s \<and> K (snd s) \<and> elem_ok w) (getS (\<lambda>s. used (fst s)))
        (\<lambda>us s. plan_inv base lim D P s \<and> K (snd s) \<and> elem_ok w \<and> us = used (fst s))"
      by (rule seg_get) simp
    fix us
    show "seg base lim C (\<lambda>s. plan_inv base lim D P s \<and> K (snd s) \<and> elem_ok w \<and> us = used (fst s))
      (if Join2 dir w \<in> set us then
         bindS (updS (\<lambda>st. st\<lparr>metrics := \<lparr>pathRetries = pathRetries (metrics st) + 1,
              pathCollisions = pathCollisions (metrics st) + 1\<rparr>\<rparr>)) (\<lambda>_. unique_attempts n dir m kind)
       else bindS (updS (\<lambda>st. st\<lparr>used := Join2 dir w # used st\<rparr>)) (\<lambda>_. returnS (Join2 dir w)))
      (reserved_in base lim D P K dir)"
    proof (rule seg_if)
      show "seg base lim C (\<lambda>s. plan_inv base lim D P s \<and> K (snd s) \<and> elem_ok w \<and> us = used (fst s))
         (bindS (updS (\<lambda>st. st\<lparr>metrics := \<lparr>pathRetries = pathRetries (metrics st) + 1,
              pathCollisions = pathCollisions (metrics st) + 1\<rparr>\<rparr>)) (\<lambda>_. unique_attempts n dir m kind))
         (reserved_in base lim D P K dir)"
        by (rule seg_bind [OF _ Suc.IH], rule seg_upd) (simp add: plan_inv_retry)
    next
      assume new: "Join2 dir w \<notin> set us"
      show "seg base lim C (\<lambda>s. plan_inv base lim D P s \<and> K (snd s) \<and> elem_ok w \<and> us = used (fst s))
         (bindS (updS (\<lambda>st. st\<lparr>used := Join2 dir w # used st\<rparr>)) (\<lambda>_. returnS (Join2 dir w)))
         (reserved_in base lim D P K dir)"
      proof (rule seg_bind [where J = "\<lambda>_. reserved_in base lim D P K dir (Join2 dir w)", OF seg_upd])
        fix s assume s: "plan_inv base lim D P s \<and> K (snd s) \<and> elem_ok w \<and> us = used (fst s)"
        note d = dir_clean [OF conjunct1 [OF s] dir]
        have "Join2 dir w \<notin> P" using plan_inv_reserved s new by blast
        then show "reserved_in base lim D P K dir (Join2 dir w)
            (fst s\<lparr>used := Join2 dir w # used (fst s)\<rparr>, snd s)"
          using s new plan_inv_reserve below_child [OF d] child_path(3) [OF d(1)] by auto
      next
        fix u
        show "seg base lim C (reserved_in base lim D P K dir (Join2 dir w)) (returnS (Join2 dir w))
            (reserved_in base lim D P K dir)" by (rule seg_return)
      qed
    qed
  qed
qed

section \<open>Hard link groups\<close>

lemma hard_links_names: "p \<in> set (names plannedEntryTypeHardlink es) \<Longrightarrow> \<exists>t. (p, t) \<in> set (hard_links es)"
  by (auto simp: names_def hard_links_def)

lemma group_paths: "group_ok es grp \<Longrightarrow> set (hg_paths grp) \<subseteq> set (paths es)"
  unfolding group_ok_def using names_paths by blast

lemma group_ok_snoc: "group_ok es grp \<Longrightarrow> group_ok (es @ [e]) grp"
  by (auto simp: group_ok_def)

lemma grouped_iff: "grouped gs l \<longleftrightarrow> (\<exists>i < length gs. fst l \<in> set (hg_paths (gs ! i)) \<and> snd l \<in> set (hg_paths (gs ! i)))"
  by (auto simp: grouped_def list_ex_length)

lemma index_okD: "index_ok ix gs \<Longrightarrow> map_of ix p = Some i \<Longrightarrow> i < length gs \<and> p \<in> set (hg_paths (gs ! i))"
  by (simp add: index_ok_def)

lemma index_okI: "index_ok ix gs \<Longrightarrow> i < length gs \<Longrightarrow> p \<in> set (hg_paths (gs ! i)) \<Longrightarrow> map_of ix p = Some i"
  by (simp add: index_ok_def)

text \<open>Joining an existing group.\<close>

lemma join_group_ok:
  assumes ix: "index_ok ix gs" and gs: "list_all (group_ok es) gs" and links: "list_all (grouped gs) (hard_links es)"
    and e: "pe_type e = plannedEntryTypeHardlink" "pe_path e \<notin> set (paths es)"
    and t: "map_of ix (pe_linkTarget e) = Some i"
  defines "gs' \<equiv> gs[i := (gs ! i)\<lparr>hg_paths := hg_paths (gs ! i) @ [pe_path e]\<rparr>]"
  shows "index_ok (put (pe_path e) i ix) gs'" "list_all (group_ok (es @ [e])) gs'"
    "list_all (grouped gs') (hard_links (es @ [e]))"
proof -
  have i: "i < length gs" "pe_linkTarget e \<in> set (hg_paths (gs ! i))" using index_okD [OF ix t] by auto
  have g: "group_ok es (gs ! j)" if "j < length gs" for j using gs that by (simp add: list_all_length)
  have fresh: "pe_path e \<notin> set (hg_paths (gs ! j))" if "j < length gs" for j
    using group_paths [OF g [OF that]] e(2) by blast
  have n: "hg_paths (gs' ! j) = (if j = i then hg_paths (gs ! i) @ [pe_path e] else hg_paths (gs ! j))"
    "hg_origin (gs' ! j) = hg_origin (gs ! j)" if "j < length gs" for j
    using that by (cases "i = j"; simp add: gs'_def)+
  have len: "length gs' = length gs" by (simp add: gs'_def)
  show "index_ok (put (pe_path e) i ix) gs'"
    unfolding index_ok_def
  proof (intro allI)
    fix p j
    have ix': "map_of ix p = Some j \<longleftrightarrow> j < length gs \<and> p \<in> set (hg_paths (gs ! j))"
      using ix by (simp add: index_ok_def)
    show "map_of (put (pe_path e) i ix) p = Some j \<longleftrightarrow> j < length gs' \<and> p \<in> set (hg_paths (gs' ! j))"
    proof (cases "j < length gs")
      case True
      have "p \<in> set (hg_paths (gs' ! j)) \<longleftrightarrow> (if p = pe_path e then j = i else p \<in> set (hg_paths (gs ! j)))"
        using n(1) [OF True] fresh [OF True] by (cases "j = i") auto
      then show ?thesis using True ix' by (cases "p = pe_path e") (auto simp: len)
    next
      case False
      then show ?thesis using ix' i(1) by (cases "p = pe_path e") (auto simp: len)
    qed
  qed
  have "group_ok (es @ [e]) (gs' ! j)" if j: "j < length gs" for j
  proof (cases "j = i")
    case True
    have "hg_paths (gs' ! j) = hg_paths (gs ! j) @ [pe_path e]" using n(1) [OF j] True by simp
    then show ?thesis using g [OF j] n(2) [OF j] fresh [OF j] e(1) by (auto simp: group_ok_def)
  next
    case False
    then have "hg_paths (gs' ! j) = hg_paths (gs ! j)" using n(1) [OF j] by simp
    then show ?thesis using group_ok_snoc [OF g [OF j]] n(2) [OF j] unfolding group_ok_def by simp
  qed
  then show "list_all (group_ok (es @ [e])) gs'" by (simp add: list_all_length len)
  have "grouped gs' l" if l: "grouped gs l" for l
  proof -
    obtain j where j: "j < length gs" "fst l \<in> set (hg_paths (gs ! j))" "snd l \<in> set (hg_paths (gs ! j))"
      using l unfolding grouped_iff by blast
    then show ?thesis using n(1) [OF j(1)] unfolding grouped_iff len by (cases "j = i") auto
  qed
  moreover have "grouped gs' (pe_path e, pe_linkTarget e)"
    unfolding grouped_iff len using i n [OF i(1)] by (intro exI [of _ i]) simp
  ultimately show "list_all (grouped gs') (hard_links (es @ [e]))"
    using links by (auto simp: list_all_iff)
qed

text \<open>A new group.\<close>

lemma new_group_ok:
  assumes ix: "index_ok ix gs" and gs: "list_all (group_ok es) gs" and links: "list_all (grouped gs) (hard_links es)"
    and e: "pe_type e = plannedEntryTypeHardlink" "pe_path e \<notin> set (paths es)"
    and t: "map_of ix (pe_linkTarget e) = None"
    and targ: "pe_linkTarget e \<in> set (names plannedEntryTypeFile es) \<union> set (names plannedEntryTypeHardlink es)"
  defines "gs' \<equiv> gs @ [\<lparr>hg_origin = pe_linkTarget e, hg_paths = [pe_linkTarget e, pe_path e]\<rparr>]"
  shows "index_ok (put (pe_path e) (length gs) (put (pe_linkTarget e) (length gs) ix)) gs'"
    "list_all (group_ok (es @ [e])) gs'" "list_all (grouped gs') (hard_links (es @ [e]))"
proof -
  have g: "group_ok es (gs ! j)" if "j < length gs" for j using gs that by (simp add: list_all_length)
  have fresh: "pe_path e \<notin> set (hg_paths (gs ! j))" "pe_linkTarget e \<notin> set (hg_paths (gs ! j))"
    if "j < length gs" for j
    using group_paths [OF g [OF that]] e(2) index_okI [OF ix that] t by auto
  have nth: "j < length gs' \<longleftrightarrow> j < length gs \<or> j = length gs"
    "j < length gs \<Longrightarrow> gs' ! j = gs ! j" "hg_paths (gs' ! length gs) = [pe_linkTarget e, pe_path e]" for j
    by (auto simp: gs'_def nth_append)
  show "index_ok (put (pe_path e) (length gs) (put (pe_linkTarget e) (length gs) ix)) gs'"
    unfolding index_ok_def
  proof (intro allI)
    fix p j
    have ix': "map_of ix p = Some j \<longleftrightarrow> j < length gs \<and> p \<in> set (hg_paths (gs ! j))"
      using ix by (simp add: index_ok_def)
    show "map_of (put (pe_path e) (length gs) (put (pe_linkTarget e) (length gs) ix)) p = Some j \<longleftrightarrow>
        j < length gs' \<and> p \<in> set (hg_paths (gs' ! j))"
    proof (cases "p = pe_path e \<or> p = pe_linkTarget e")
      case True
      then have "j < length gs' \<and> p \<in> set (hg_paths (gs' ! j)) \<longleftrightarrow> j = length gs"
        unfolding nth(1) using nth(2) [of j] nth(3) fresh [of j] by (cases "j < length gs") auto
      then show ?thesis using True by (cases "p = pe_path e") auto
    next
      case False
      then have "j < length gs' \<and> p \<in> set (hg_paths (gs' ! j)) \<longleftrightarrow> j < length gs \<and> p \<in> set (hg_paths (gs ! j))"
        unfolding nth(1) using nth(2) [of j] nth(3) by (cases "j < length gs") auto
      then show ?thesis using False ix' by simp
    qed
  qed
  have ne: "pe_linkTarget e \<noteq> pe_path e" using targ e(2) names_paths by (metis Un_iff)
  have "pe_linkTarget e \<in> set (names plannedEntryTypeFile es)"
  proof (rule ccontr)
    assume "\<not> ?thesis"
    then obtain t' where "(pe_linkTarget e, t') \<in> set (hard_links es)" using targ hard_links_names by blast
    then have "grouped gs (pe_linkTarget e, t')" using links by (simp add: list_all_iff)
    then show False unfolding grouped_iff using fresh(2) by auto
  qed
  then have "group_ok (es @ [e]) \<lparr>hg_origin = pe_linkTarget e, hg_paths = [pe_linkTarget e, pe_path e]\<rparr>"
    using ne e(1) by (simp add: group_ok_def)
  then show "list_all (group_ok (es @ [e])) gs'"
    using gs group_ok_snoc unfolding gs'_def list_all_iff by auto
  have "grouped gs' l" if "grouped gs l" for l using that by (simp add: gs'_def grouped_def)
  moreover have "grouped gs' (pe_path e, pe_linkTarget e)" by (simp add: gs'_def grouped_def)
  ultimately show "list_all (grouped gs') (hard_links (es @ [e]))"
    using links by (auto simp: list_all_iff)
qed

section \<open>Appending entries\<close>

lemma groups_snoc: "list_all (group_ok es) gs \<Longrightarrow> list_all (group_ok (es @ [e])) gs"
  unfolding list_all_iff using group_ok_snoc by blast

lemma st_ok_snoc:
  assumes "st_ok es st" "pe_type e \<noteq> plannedEntryTypeHardlink"
  shows "st_ok (es @ [e]) st"
  using assms groups_snoc unfolding st_ok_def by auto

lemma plan_inv_append:
  assumes "plan_inv base lim D P s" "pe_path e \<in> P" "entry_ok base (entries (snd s)) e"
    "int (length (entries (snd s))) < lim" "st_ok (entries (snd s) @ [e]) st"
    "entryLimit st = lim" "used st = used (fst s)"
  shows "plan_inv base lim (D \<union> (if pe_type e = plannedEntryTypeDir then {pe_path e} else {})) (P - {pe_path e})
    (st, (snd s)\<lparr>entries := entries (snd s) @ [e]\<rparr>)"
  using assms by (auto simp: plan_inv_def)

lemma seg_append:
  assumes "pe_type e \<noteq> plannedEntryTypeHardlink" "C (Errorf ''limit'' (Some (Sentinel ErrPlanEntryLimitExceeded)))"
  shows "seg base lim C (\<lambda>s. plan_inv base lim D P s \<and> pe_path e \<in> P \<and> entry_ok base (entries (snd s)) e)
    (appendEntry e)
    (\<lambda>_ s. plan_inv base lim (D \<union> (if pe_type e = plannedEntryTypeDir then {pe_path e} else {})) (P - {pe_path e}) s \<and>
       (\<exists>es. entries (snd s) = es @ [e]))"
  unfolding seg_def
proof (rule runsI)
  fix s x t
  assume s: "plan_inv base lim D P s \<and> pe_path e \<in> P \<and> entry_ok base (entries (snd s)) e"
    and a: "appendEntry e s = (Inr x, t)"
  have lim: "int (length (entries (snd s))) < lim" and t: "t = (fst s, (snd s)\<lparr>entries := entries (snd s) @ [e]\<rparr>)"
    using a s by (auto simp: appendEntry_def plan_inv_def split: if_splits)
  have "st_ok (entries (snd s) @ [e]) (fst s)" "entryLimit (fst s) = lim"
    using s st_ok_snoc assms(1) by (auto simp: plan_inv_def)
  then show "plan_inv base lim (D \<union> (if pe_type e = plannedEntryTypeDir then {pe_path e} else {})) (P - {pe_path e}) t \<and>
      (\<exists>es. entries (snd t) = es @ [e])"
    using plan_inv_append [OF _ _ _ lim] s unfolding t by simp
next
  fix s err t
  assume "plan_inv base lim D P s \<and> pe_path e \<in> P \<and> entry_ok base (entries (snd s)) e"
    and "appendEntry e s = (Inl err, t)"
  then show "plan_inv base lim {} {} t \<and> C err"
    using assms(2) plan_inv_none by (auto simp: appendEntry_def split: if_splits)
qed

text \<open>An entry below a known directory; \<open>Q\<close> is what is asked of its kind.\<close>

lemma entry_okI:
  assumes "plan_inv base lim D P s" "pe_path e \<in> P" "below base (pe_path e)" "Dir (pe_path e) \<in> D"
    and "pe_type e = plannedEntryTypeHardlink \<Longrightarrow> pe_linkTarget e \<in>
      set (names plannedEntryTypeFile (entries (snd s))) \<union> set (names plannedEntryTypeHardlink (entries (snd s)))"
    and "pe_type e = plannedEntryTypeSymlink \<Longrightarrow> pe_linkTarget e \<noteq> []"
    and "pe_type e = plannedEntryTypeSpecial \<Longrightarrow>
      is_ok (validateSpecialFileType (pe_special e)) \<and> 0 \<le> pe_major e \<and> 0 \<le> pe_minor e"
  shows "entry_ok base (entries (snd s)) e"
proof -
  have "Dir (pe_path e) \<in> set (names plannedEntryTypeDir (entries (snd s)))"
    using assms(1,4) unfolding plan_inv_def by blast
  moreover from this have "entries (snd s) \<noteq> []" by auto
  moreover have "pe_path e \<notin> set (paths (entries (snd s)))"
    using assms(1,2) unfolding plan_inv_def by blast
  ultimately show ?thesis using assms by (simp add: entry_ok_def)
qed

section \<open>Symlinks\<close>

lemma seg_appendSymlink:
  assumes "Dir p \<in> D" "below base p" "targ \<noteq> []" "p \<notin> P"
    and C: "C (Errorf ''limit'' (Some (Sentinel ErrPlanEntryLimitExceeded)))"
  shows "seg base lim C (\<lambda>s. plan_inv base lim D (insert p P) s) (appendSymlink p targ)
    (\<lambda>_ s. plan_inv base lim D P s)"
  unfolding appendSymlink_def
proof (rule seg_bind [OF seg_conseq [OF seg_append]])
  let ?e = "entry0 plannedEntryTypeSymlink p\<lparr>pe_linkTarget := targ\<rparr>"
  show "pe_type ?e \<noteq> plannedEntryTypeHardlink" by (simp add: entry0_def)
  show "plan_inv base lim D (insert p P) s \<and> pe_path ?e \<in> insert p P \<and> entry_ok base (entries (snd s)) ?e"
    if "plan_inv base lim D (insert p P) s" for s
    using entry_okI [OF that, of ?e] that assms by (simp add: entry0_def)
  show "plan_inv base lim D P s \<and> p \<in> set (paths (entries (snd s)))"
    if "plan_inv base lim (D \<union> (if pe_type ?e = plannedEntryTypeDir then {pe_path ?e} else {}))
          (insert p P - {pe_path ?e}) s \<and> (\<exists>es. entries (snd s) = es @ [?e])" for s
    using that assms(4) by (auto simp: entry0_def)
  show "seg base lim C (\<lambda>s. plan_inv base lim D P s \<and> p \<in> set (paths (entries (snd s))))
      (updS (registerSymlinkPath p)) (\<lambda>_ s. plan_inv base lim D P s)"
    by (rule seg_upd) (auto simp: plan_inv_def st_ok_def registerSymlinkPath_def)
qed (rule C)

text \<open>The generators a planner needs, with the errors \<open>C\<close> they may fail with.\<close>

definition file_names_ok :: "(err \<Rightarrow> bool) \<Rightarrow> Generator \<Rightarrow> bool" where
  "file_names_ok C g \<longleftrightarrow>
     gives (next_name (fileNameGen g) (fileNameLenGen g) (byteFileNameGen g)) elem_ok \<and>
     fails (next_name (fileNameGen g) (fileNameLenGen g) (byteFileNameGen g)) C \<and>
     C (Errorf ''limit'' (Some (Sentinel ErrPlanEntryLimitExceeded))) \<and>
     (\<forall>kind. C (Errorf kind (Some (Sentinel ErrPlanPathCollisionExhausted))))"

lemma seg_unique_file:
  assumes "file_names_ok C g" "dir \<in> D"
  shows "seg base lim C (\<lambda>s. plan_inv base lim D P s \<and> K (snd s)) (unique_file_path g dir kind)
    (reserved_in base lim D P K dir)"
  unfolding unique_file_path_def planUniquePathWithByte_def
  using assms by (intro seg_unique) (simp_all add: file_names_ok_def)

lemmas seg_unique_file0 = seg_unique_file [where K = "\<lambda>_. True", simplified]

lemma seg_pure: "(A \<Longrightarrow> seg base lim C I m J) \<Longrightarrow> seg base lim C (\<lambda>s. I s \<and> A) m J"
  by (rule seg_pre [of _ A]) (auto intro: seg_conseq)

lemma seg_planSymlink:
  assumes g: "file_names_ok C g" and "dir \<in> D" "targ \<noteq> []"
  shows "seg base lim C (\<lambda>s. plan_inv base lim D P s) (planSymlink g dir targ) (\<lambda>_ s. plan_inv base lim D P s)"
  unfolding planSymlink_def
proof (rule seg_bind [OF seg_conseq [OF seg_unique_file [OF g assms(2), where K = "\<lambda>_. True"]]], simp, assumption)
  fix p
  show "seg base lim C (reserved_in base lim D P (\<lambda>_. True) dir p) (appendSymlink p targ) (\<lambda>_ s. plan_inv base lim D P s)"
    by (rule seg_pre [where A = "p \<notin> P \<and> below base p \<and> Dir p = dir"], simp,
        rule seg_conseq [OF seg_appendSymlink]) (use assms in \<open>auto simp: file_names_ok_def\<close>)
qed

lemma Rel_clean:
  assumes "clean_abs b" "clean_abs t"
  shows "\<exists>r. Rel b t = Inr r \<and> r \<noteq> []"
proof -
  obtain bs ts where bs: "\<forall>w \<in> set bs. elem_ok w" "b = abs_path bs" and ts: "\<forall>w \<in> set ts. elem_ok w" "t = abs_path ts"
    using assms by (elim clean_absE)
  obtain bs' ts' where st: "strip_common bs ts = (bs', ts')" by fastforce
  then obtain p where p: "bs = p @ bs'" "ts = p @ ts'" using strip_common_append by blast
  show ?thesis
  proof (cases "bs = ts")
    case True
    then show ?thesis using Rel_abs_path [OF bs(1) ts(1)] bs ts by (simp add: dot_def)
  next
    case False
    have "Join slash (replicate (length bs') dotdot @ ts') \<noteq> []"
      unfolding Join_eq_Nil
    proof
      assume "replicate (length bs') dotdot @ ts' = [] \<or> replicate (length bs') dotdot @ ts' = [[]]"
      then have "[] \<in> set (replicate (length bs') dotdot @ ts') \<or> (bs' = [] \<and> ts' = [])"
        by (metis append_is_Nil_conv length_0_conv length_replicate list.set_intros(1))
      then show False using p ts(1) False by (auto simp: elem_ok_def dotdot_def)
    qed
    then show ?thesis using Rel_abs_path [OF bs(1) ts(1)] bs ts st False by simp
  qed
qed

lemma seg_cycle_paths:
  assumes g: "file_names_ok C g" and "dir \<in> D"
  shows "seg base lim C
    (\<lambda>s. plan_inv base lim D (P \<union> set ps) s \<and> set ps \<inter> P = {} \<and> distinct ps \<and> (\<forall>q \<in> set ps. below base q \<and> Dir q = dir))
    (cycle_paths n g dir ps)
    (\<lambda>qs s. plan_inv base lim D (P \<union> set qs) s \<and> set qs \<inter> P = {} \<and> distinct qs \<and> (\<forall>q \<in> set qs. below base q \<and> Dir q = dir))"
proof (induction n arbitrary: ps)
  case 0
  show ?case by (simp add: seg_return)
next
  case (Suc n)
  let ?A = "\<lambda>ps. set ps \<inter> P = {} \<and> distinct ps \<and> (\<forall>q \<in> set ps. below base q \<and> Dir q = dir)"
  show ?case
    unfolding cycle_paths.simps
  proof (rule seg_pre [where A = "?A ps"], simp)
    assume ps: "?A ps"
    show "seg base lim C (\<lambda>s. plan_inv base lim D (P \<union> set ps) s \<and> ?A ps)
        (bindS (unique_file_path g dir ''symlink cycle'') (\<lambda>p. cycle_paths n g dir (ps @ [p])))
        (\<lambda>qs s. plan_inv base lim D (P \<union> set qs) s \<and> ?A qs)"
    proof (rule seg_bind)
      show "seg base lim C (\<lambda>s. plan_inv base lim D (P \<union> set ps) s \<and> ?A ps) (unique_file_path g dir ''symlink cycle'')
          (\<lambda>p s. plan_inv base lim D (P \<union> set (ps @ [p])) s \<and> ?A (ps @ [p]))"
        by (rule seg_conseq [OF seg_unique_file0 [OF assms, where P = "P \<union> set ps"]]) (use ps in auto)
      show "seg base lim C (\<lambda>s. plan_inv base lim D (P \<union> set (ps @ [p])) s \<and> ?A (ps @ [p])) (cycle_paths n g dir (ps @ [p]))
          (\<lambda>qs s. plan_inv base lim D (P \<union> set qs) s \<and> ?A qs)" for p
        by (rule Suc.IH)
    qed
  qed
qed

lemma seg_link_cycle:
  assumes C: "C (Errorf ''limit'' (Some (Sentinel ErrPlanEntryLimitExceeded)))" and d: "dir \<in> D" "clean_abs dir"
  shows "set qs \<inter> P = {} \<and> distinct qs \<and> (\<forall>q \<in> set qs. below base q \<and> Dir q = dir) \<Longrightarrow> \<forall>q \<in> set ns. clean_abs q \<Longrightarrow>
    seg base lim C (\<lambda>s. plan_inv base lim D (P \<union> set qs) s) (link_cycle qs ns) (\<lambda>_ s. plan_inv base lim D P s)"
proof (induction qs ns rule: link_cycle.induct)
  case (1 p ps q ns)
  obtain r where r: "Rel (Dir p) q = Inr r" "r \<noteq> []" using Rel_clean [of dir q] 1(2,3) d by auto
  have "seg base lim C (\<lambda>s. plan_inv base lim D (insert p (P \<union> set ps)) s) (appendSymlink p r)
      (\<lambda>_ s. plan_inv base lim D (P \<union> set ps) s)"
    by (rule seg_appendSymlink) (use 1(2) d(1) r(2) C in auto)
  moreover have "seg base lim C (\<lambda>s. plan_inv base lim D (P \<union> set ps) s) (link_cycle ps ns) (\<lambda>_ s. plan_inv base lim D P s)"
    by (rule 1(1)) (use 1(2,3) in auto)
  ultimately have "seg base lim C (\<lambda>s. plan_inv base lim D (insert p (P \<union> set ps)) s)
      (bindS (appendSymlink p r) (\<lambda>_. link_cycle ps ns)) (\<lambda>_ s. plan_inv base lim D P s)"
    by (rule seg_bind)
  moreover have "link_cycle (p # ps) (q # ns) = bindS (appendSymlink p r) (\<lambda>_. link_cycle ps ns)"
    by (rule ext) (simp add: r(1) liftS_def bindS_def [of "liftS _"])
  ultimately show ?case by simp
qed (simp_all add: seg_return plan_inv_anti)

section \<open>The other planners\<close>

text \<open>
  What the proof asks of the callbacks: names are proper path elements, and every error they
  raise is in \<open>C\<close>. If \<open>C\<close> is not every error, then the values drawn must be in range as well.
\<close>

abbreviation in_range :: "(err \<Rightarrow> bool) \<Rightarrow> 'a gen \<Rightarrow> ('a \<Rightarrow> bool) \<Rightarrow> bool" where
  "in_range C m R \<equiv> fails m C \<and> gives m (\<lambda>x. R x \<or> (\<forall>e. C e))"

definition strategy_ok :: "(err \<Rightarrow> bool) \<Rightarrow> Generator \<Rightarrow> bool" where
  "strategy_ok C g \<longleftrightarrow> fails (call (symlinkProbGen g)) C \<and>
     (hasExplicitSymlinkStrategy g \<longrightarrow>
        in_range C (nextSymlinkStrategy g) (\<lambda>s. is_ok (validateSymlinkStrategy s)))"

definition special_ok :: "(err \<Rightarrow> bool) \<Rightarrow> Generator \<Rightarrow> bool" where
  "special_ok C g \<longleftrightarrow> fails (shouldPlanSpecialFile g) C \<and> fails (call (fileModeGen g)) C \<and>
     (specialFileProbGen g \<noteq> None \<longrightarrow>
        in_range C (nextSpecialFileType g) (\<lambda>t. is_ok (validateSpecialFileType t) \<and>
          (isSpecialDeviceType t \<longrightarrow> specialDeviceMajorGen g \<noteq> None \<and> specialDeviceMinorGen g \<noteq> None))) \<and>
     (specialDeviceMajorGen g \<noteq> None \<and> specialDeviceMinorGen g \<noteq> None \<longrightarrow>
        in_range C (call (specialDeviceMajorGen g)) (\<lambda>v. 0 \<le> v) \<and>
        in_range C (call (specialDeviceMinorGen g)) (\<lambda>v. 0 \<le> v))"

definition content_gens_ok :: "(err \<Rightarrow> bool) \<Rightarrow> Generator \<Rightarrow> bool" where
  "content_gens_ok C g \<longleftrightarrow> fails (resolveMetadata g) C \<and>
     fails (case symlinkRelProbGen g of None \<Rightarrow> returnS False | Some m \<Rightarrow> m) C \<and>
     (if hasContentPatternConfiguration g
      then fails (wrapS ''failed to generate file content pattern'' (planFileContentPattern g)) C
      else fails (wrapS ''failed to generate file data'' (call (dataGen g))) C)"

definition dir_gens_ok :: "(err \<Rightarrow> bool) \<Rightarrow> Generator \<Rightarrow> bool" where
  "dir_gens_ok C g \<longleftrightarrow> fails (call (pathDepthGen g)) C \<and> fails (call (dirModeGen g)) C \<and>
     fails (call (nDirsInDirGen g)) C \<and> fails (call (nFilesInDirGen g)) C \<and>
     gives (next_name (dirNameGen g) (dirNameLenGen g) (byteDirNameGen g)) elem_ok \<and>
     fails (next_name (dirNameGen g) (dirNameLenGen g) (byteDirNameGen g)) C"

definition gens_ok :: "(err \<Rightarrow> bool) \<Rightarrow> Generator \<Rightarrow> bool" where
  "gens_ok C g \<longleftrightarrow> file_names_ok C g \<and> dir_gens_ok C g \<and> strategy_ok C g \<and>
     fails (shouldPlanHardlink g) C \<and> special_ok C g \<and> content_gens_ok C g"

lemma fails_pick: "xs \<noteq> [] \<Longrightarrow> fails (pick xs) C"
  by (auto simp: fails_def pick_def bindS_eq_Inl Intn_def returnS_def split: if_splits prod.splits)

abbreviation inode_names :: "runPlan \<Rightarrow> string set" where
  "inode_names plan \<equiv> set (names plannedEntryTypeFile (entries plan)) \<union> set (names plannedEntryTypeHardlink (entries plan))"

lemma seg_rnd_plain:
  "gives m R \<Longrightarrow> fails m C \<Longrightarrow>
     seg base lim C (plan_inv base lim D P) (rndS m) (\<lambda>x s. plan_inv base lim D P s \<and> R x)"
  using seg_rnd [of m R C base lim D P "\<lambda>_. True"] by simp

lemma seg_rnd0:
  "fails m C \<Longrightarrow> seg base lim C (plan_inv base lim D P) (rndS m) (\<lambda>_. plan_inv base lim D P)"
  using seg_rnd [OF gives_any, of m C base lim D P "\<lambda>_. True"] by simp

lemma seg_lift_plain:
  "(\<And>x. r = Inr x \<Longrightarrow> R x) \<Longrightarrow> (\<And>e. r = Inl e \<Longrightarrow> C e) \<Longrightarrow>
     seg base lim C (plan_inv base lim D P) (liftS r) (\<lambda>x s. plan_inv base lim D P s \<and> R x)"
  using seg_lift [of r R C base lim D P "\<lambda>_. True"] by simp

lemma seg_option:
  assumes "x = None \<Longrightarrow> seg base lim C I m J" "\<And>y. x = Some y \<Longrightarrow> seg base lim C I (f y) J"
  shows "seg base lim C I (case x of None \<Rightarrow> m | Some y \<Rightarrow> f y) J"
  using assms by (cases x) simp_all

text \<open>Picking a registered path: the element has what all elements have.\<close>

lemma seg_pick:
  assumes "\<And>s p. plan_inv base lim D P s \<Longrightarrow> p \<in> set (f (fst s)) \<Longrightarrow> R p (snd s)"
  shows "seg base lim C (plan_inv base lim D P)
    (bindS (getS (\<lambda>s. f (fst s))) (\<lambda>ps. if length ps = 0 then returnS None
       else bindS (rndS (pick ps)) (\<lambda>p. returnS (Some p))))
    (\<lambda>x s. plan_inv base lim D P s \<and> (\<forall>p. x = Some p \<longrightarrow> R p (snd s)))"
proof (rule seg_bind [where J = "\<lambda>ps s. plan_inv base lim D P s \<and> (\<forall>p \<in> set ps. R p (snd s))"])
  show "seg base lim C (plan_inv base lim D P) (getS (\<lambda>s. f (fst s)))
      (\<lambda>ps s. plan_inv base lim D P s \<and> (\<forall>p \<in> set ps. R p (snd s)))"
    by (rule seg_get) (use assms in blast)
  fix ps
  show "seg base lim C (\<lambda>s. plan_inv base lim D P s \<and> (\<forall>p \<in> set ps. R p (snd s)))
      (if length ps = 0 then returnS None else bindS (rndS (pick ps)) (\<lambda>p. returnS (Some p)))
      (\<lambda>x s. plan_inv base lim D P s \<and> (\<forall>p. x = Some p \<longrightarrow> R p (snd s)))"
  proof (rule seg_if)
    assume "length ps \<noteq> 0"
    then have ps: "fails (pick ps) C" using fails_pick by simp
    show "seg base lim C (\<lambda>s. plan_inv base lim D P s \<and> (\<forall>p \<in> set ps. R p (snd s)))
      (bindS (rndS (pick ps)) (\<lambda>p. returnS (Some p))) (\<lambda>x s. plan_inv base lim D P s \<and> (\<forall>p. x = Some p \<longrightarrow> R p (snd s)))"
      by (rule seg_bind [OF seg_rnd [OF gives_pick ps]], rule seg_return) auto
  qed (rule seg_return, simp)
qed

lemma seg_pickFile:
  "seg base lim C (plan_inv base lim D P) pickFilePath
    (\<lambda>x s. plan_inv base lim D P s \<and> (\<forall>p. x = Some p \<longrightarrow> p \<in> inode_names (snd s)))"
  unfolding pickFilePath_def by (rule seg_pick) (auto simp: plan_inv_def st_ok_def)

lemma seg_pickSymlink:
  "seg base lim C (plan_inv base lim D P) pickSymlinkPath
    (\<lambda>x s. plan_inv base lim D P s \<and> (\<forall>p. x = Some p \<longrightarrow> p \<in> set (paths (entries (snd s)))))"
  unfolding pickSymlinkPath_def by (rule seg_pick) (auto simp: plan_inv_def st_ok_def)

lemma planned_path_clean:
  assumes "plan_inv base lim D P s" "p \<in> set (paths (entries (snd s)))"
  shows "clean_abs p" "p \<noteq> []"
proof -
  have "p = base \<or> below base p" using assms entries_ok_path unfolding plan_inv_def by blast
  then show "clean_abs p" using assms(1) unfolding plan_inv_def below_def by blast
  then show "p \<noteq> []" by (rule clean_abs_nonempty)
qed

text \<open>\<open>keeps\<close>: the step keeps the invariant, whatever it returns.\<close>

abbreviation keeps :: "string \<Rightarrow> int \<Rightarrow> (err \<Rightarrow> bool) \<Rightarrow> string set \<Rightarrow> string set \<Rightarrow> 'a plan_op \<Rightarrow> bool" where
  "keeps base lim C D P m \<equiv> seg base lim C (plan_inv base lim D P) m (\<lambda>_. plan_inv base lim D P)"

lemma keeps_bind: "keeps base lim C D P m \<Longrightarrow> (\<And>x. keeps base lim C D P (f x)) \<Longrightarrow> keeps base lim C D P (bindS m f)"
  by (rule seg_bind)

lemma keeps_return: "keeps base lim C D P (returnS x)"
  by (rule seg_return)

lemma keeps_then:
  "seg base lim C (plan_inv base lim D P) m (\<lambda>x s. plan_inv base lim D P s \<and> R x (snd s)) \<Longrightarrow>
   (\<And>x. seg base lim C (\<lambda>s. plan_inv base lim D P s \<and> R x (snd s)) (f x) J) \<Longrightarrow>
     seg base lim C (plan_inv base lim D P) (bindS m f) J"
  by (rule seg_bind)

lemma keeps_planSymlink:
  "file_names_ok C g \<Longrightarrow> dir \<in> D \<Longrightarrow> targ \<noteq> [] \<Longrightarrow> keeps base lim C D P (planSymlink g dir targ)"
  by (rule seg_planSymlink)

lemma seg_true:
  "seg base lim C I m (\<lambda>_. J) \<Longrightarrow> seg base lim C I (bindS m (\<lambda>_. returnS True)) (\<lambda>_. J)"
  by (rule seg_bind, assumption, rule seg_return)

text \<open>A symlink to a path of the plan, taken as it is or relative to the directory.\<close>

lemma keeps_link_to:
  fixes m :: "string option plan_op" and f :: "string \<Rightarrow> unit plan_op"
  assumes g: "file_names_ok C g" and d: "dir \<in> D"
    and pick: "seg base lim C (plan_inv base lim D P) m
      (\<lambda>x s. plan_inv base lim D P s \<and> (\<forall>p. x = Some p \<longrightarrow> p \<in> set (paths (entries (snd s)))))"
    and f: "\<And>p. clean_abs dir \<Longrightarrow> clean_abs p \<Longrightarrow> keeps base lim C D P (f p)"
  shows "keeps base lim C D P (bindS m (\<lambda>x. case x of None \<Rightarrow> returnS False | Some p \<Rightarrow> bindS (f p) (\<lambda>_. returnS True)))"
proof (rule seg_bind [OF pick], rule seg_option)
  fix x :: "string option" and y assume x: "x = Some y"
  show "seg base lim C (\<lambda>s. plan_inv base lim D P s \<and> (\<forall>p. x = Some p \<longrightarrow> p \<in> set (paths (entries (snd s)))))
      (bindS (f y) (\<lambda>_. returnS True)) (\<lambda>_. plan_inv base lim D P)"
  proof (rule seg_pre [where A = "clean_abs dir \<and> clean_abs y"])
    fix s assume s: "plan_inv base lim D P s \<and> (\<forall>p. x = Some p \<longrightarrow> p \<in> set (paths (entries (snd s))))"
    then have "y \<in> set (paths (entries (snd s)))" using x by simp
    then show "clean_abs dir \<and> clean_abs y"
      using planned_path_clean(1) [OF conjunct1 [OF s]] dir_clean(1) [OF conjunct1 [OF s] d] by simp
  next
    assume a: "clean_abs dir \<and> clean_abs y"
    show "seg base lim C (\<lambda>s. plan_inv base lim D P s \<and> (\<forall>p. x = Some p \<longrightarrow> p \<in> set (paths (entries (snd s)))))
      (bindS (f y) (\<lambda>_. returnS True)) (\<lambda>_. plan_inv base lim D P)"
      by (rule seg_true, rule seg_conseq [OF f]) (use a in simp_all)
  qed
qed (rule seg_return, simp)

lemma pick_paths:
  fixes m :: "string option plan_op"
  assumes "seg base lim C I m (\<lambda>x s. plan_inv base lim D P s \<and> (\<forall>p. x = Some p \<longrightarrow> p \<in> inode_names (snd s)))"
  shows "seg base lim C I m (\<lambda>x s. plan_inv base lim D P s \<and> (\<forall>p. x = Some p \<longrightarrow> p \<in> set (paths (entries (snd s)))))"
  by (rule seg_conseq [OF assms]) (auto dest: names_paths)

lemma keeps_strategy:
  assumes g: "file_names_ok C g" and d: "dir \<in> D" and s: "is_ok (validateSymlinkStrategy strategy) \<or> (\<forall>e. C e)"
  shows "keeps base lim C D P (planSymlinkStrategy g dir strategy)"
proof -
  have C: "C (Errorf ''limit'' (Some (Sentinel ErrPlanEntryLimitExceeded)))" using g by (simp add: file_names_ok_def)
  have rel: "keeps base lim C D P (bindS (liftS (wrapE m (Rel dir p))) (planSymlink g dir))"
    if r: "clean_abs dir" "clean_abs p" for m p
    using Rel_clean [OF r] by (intro seg_bind [OF seg_lift_plain [where R = "\<lambda>r. r \<noteq> []"]])
      (auto intro!: seg_pure keeps_planSymlink [OF g d])
  show ?thesis
  proof (cases strategy)
    case SymlinkStrategyAbsolute
    then show ?thesis unfolding planSymlinkStrategy_def
      by (simp, intro keeps_link_to [OF g d pick_paths [OF seg_pickFile]] keeps_planSymlink [OF g d])
        (auto dest: clean_abs_nonempty)
  next
    case SymlinkStrategyRelative
    have "planSymlinkStrategy g dir strategy = bindS pickFilePath (\<lambda>x. case x of None \<Rightarrow> returnS False
        | Some p \<Rightarrow> bindS (bindS (liftS (wrapE ''failed to derive relative symlink target'' (Rel dir p))) (planSymlink g dir)) (\<lambda>_. returnS True))"
      unfolding planSymlinkStrategy_def SymlinkStrategyRelative
      by (auto simp: fun_eq_iff bindS_def split: option.split prod.split sum.split intro!: arg_cong2 [of _ _ _ _ bindS])
    then show ?thesis using keeps_link_to [OF g d pick_paths [OF seg_pickFile] rel] by simp
  next
    case SymlinkStrategyChained
    then show ?thesis unfolding planSymlinkStrategy_def
      by (simp, intro keeps_link_to [OF g d seg_pickSymlink] keeps_planSymlink [OF g d])
        (auto dest: clean_abs_nonempty)
  next
    case (SymlinkStrategyUnknown n)
    then have "\<forall>e. C e" using s by (simp add: validateSymlinkStrategy_def)
    then show ?thesis unfolding planSymlinkStrategy_def SymlinkStrategyUnknown SymlinkStrategy.case
      by (intro seg_raise) (rule plan_inv_none, assumption, blast)
  next
    case SymlinkStrategyDangling
    have "keeps base lim C D P (bindS (unique_file_path g dir k)
        (\<lambda>p. bindS (planSymlink g dir p) (\<lambda>_. returnS True)))" for k
    proof (rule seg_bind [OF seg_unique_file0 [OF g d]])
      fix p
      show "seg base lim C (\<lambda>s. plan_inv base lim D (insert p P) s \<and> p \<notin> P \<and> below base p \<and> Dir p = dir)
          (bindS (planSymlink g dir p) (\<lambda>_. returnS True)) (\<lambda>_. plan_inv base lim D P)"
      proof (rule seg_pre [where A = "p \<noteq> []"])
        show "p \<noteq> []" if "plan_inv base lim D (insert p P) s \<and> p \<notin> P \<and> below base p \<and> Dir p = dir" for s
          using that clean_abs_nonempty by (auto simp: below_def)
        assume p: "p \<noteq> []"
        show "seg base lim C (\<lambda>s. plan_inv base lim D (insert p P) s \<and> p \<notin> P \<and> below base p \<and> Dir p = dir)
          (bindS (planSymlink g dir p) (\<lambda>_. returnS True)) (\<lambda>_. plan_inv base lim D P)"
        proof (rule seg_true, rule seg_conseq [OF keeps_planSymlink [OF g d p, of base lim "insert p P"]])
          show "plan_inv base lim D P s" if "plan_inv base lim D (insert p P) s" for s
            by (rule plan_inv_anti [OF that]) auto
        qed simp
      qed
    qed
    then show ?thesis using SymlinkStrategyDangling by (simp add: planSymlinkStrategy_def)
  next
    case SymlinkStrategySelfReferential
    have "keeps base lim C D P (bindS (unique_file_path g dir k)
        (\<lambda>p. bindS (appendSymlink p (Base p)) (\<lambda>_. returnS True)))" for k
    proof (rule seg_bind [OF seg_unique_file0 [OF g d]])
      fix p
      have b: "Base p \<noteq> []" by (simp add: Base_def dot_def slash_def Let_def)
      show "seg base lim C (\<lambda>s. plan_inv base lim D (insert p P) s \<and> p \<notin> P \<and> below base p \<and> Dir p = dir)
          (bindS (appendSymlink p (Base p)) (\<lambda>_. returnS True)) (\<lambda>_. plan_inv base lim D P)"
      proof (rule seg_pre [where A = "p \<notin> P \<and> below base p \<and> Dir p = dir"])
        assume p: "p \<notin> P \<and> below base p \<and> Dir p = dir"
        have a: "seg base lim C (plan_inv base lim D (insert p P)) (appendSymlink p (Base p)) (\<lambda>_. plan_inv base lim D P)"
          by (rule seg_appendSymlink) (use p d b C in auto)
        show "seg base lim C (\<lambda>s. plan_inv base lim D (insert p P) s \<and> p \<notin> P \<and> below base p \<and> Dir p = dir)
          (bindS (appendSymlink p (Base p)) (\<lambda>_. returnS True)) (\<lambda>_. plan_inv base lim D P)"
          by (rule seg_true, rule seg_conseq [OF a]) simp_all
      qed simp
    qed
    then show ?thesis using SymlinkStrategySelfReferential by (simp add: planSymlinkStrategy_def)
  next
    case SymlinkStrategyCycle
    have "keeps base lim C D P (planSymlinkCycle g dir defaultSymlinkCycleLength)"
    proof -
      have "seg base lim C (plan_inv base lim D P) (cycle_paths 2 g dir [])
        (\<lambda>qs s. plan_inv base lim D (P \<union> set qs) s \<and> set qs \<inter> P = {} \<and> distinct qs \<and> (\<forall>q \<in> set qs. below base q \<and> Dir q = dir))"
        using seg_cycle_paths [OF g d, of base lim P "[]" 2] by simp
      moreover have "seg base lim C (\<lambda>s. plan_inv base lim D (P \<union> set qs) s \<and> set qs \<inter> P = {} \<and> distinct qs \<and>
          (\<forall>q \<in> set qs. below base q \<and> Dir q = dir)) (link_cycle qs (rotate1 qs)) (\<lambda>_. plan_inv base lim D P)" for qs
        by (rule seg_pre [where A = "clean_abs dir \<and> set qs \<inter> P = {} \<and> distinct qs \<and> (\<forall>q \<in> set qs. below base q \<and> Dir q = dir)"],
            use dir_clean(1) d in blast, rule seg_conseq [OF seg_link_cycle [where C = C and D = D and dir = dir]])
          (use C d in \<open>auto simp: below_def\<close>)
      ultimately show ?thesis
        unfolding planSymlinkCycle_def by (simp add: defaultSymlinkCycleLength_def) (rule seg_bind)
    qed
    then show ?thesis using SymlinkStrategyCycle
      by (simp add: planSymlinkStrategy_def) (rule keeps_bind [OF _ keeps_return])
  qed
qed

lemma keeps_tryPlanSymlink:
  assumes g: "file_names_ok C g" "strategy_ok C g" and d: "dir \<in> D"
  shows "keeps base lim C D P (tryPlanSymlink g dir)"
  unfolding tryPlanSymlink_def
proof (rule keeps_bind [OF seg_rnd0], use g in \<open>simp add: strategy_ok_def\<close>, rule seg_if, rule keeps_return, rule seg_if)
  let ?ok = "\<lambda>s. is_ok (validateSymlinkStrategy s) \<or> (\<forall>e. C e)"
  assume "hasExplicitSymlinkStrategy g"
  then have ns: "fails (nextSymlinkStrategy g) C" "gives (nextSymlinkStrategy g) ?ok"
    using g(2) by (simp_all add: strategy_ok_def)
  show "keeps base lim C D P (bindS (rndS (nextSymlinkStrategy g)) (\<lambda>strategy.
      bindS (liftS (wrapE ''invalid configured symlink strategy'' (validateSymlinkStrategy strategy)))
        (\<lambda>_. planSymlinkStrategy g dir strategy)))"
  proof (rule seg_bind [OF seg_rnd_plain [OF ns(2,1)]], rule seg_pure)
    fix strategy assume s: "?ok strategy"
    have "keeps base lim C D P (liftS (wrapE ''invalid configured symlink strategy'' (validateSymlinkStrategy strategy)))"
      by (rule seg_conseq [OF seg_lift_plain [where R = "\<lambda>_. True"]])
        (use s in \<open>auto simp: is_ok_def split: sum.splits\<close>)
    then show "keeps base lim C D P
       (bindS (liftS (wrapE ''invalid configured symlink strategy'' (validateSymlinkStrategy strategy)))
        (\<lambda>_. planSymlinkStrategy g dir strategy))"
      by (rule keeps_bind) (rule keeps_strategy [OF g(1) d s])
  qed
next
  have lst: "seg base lim C (plan_inv base lim D P) (getS (\<lambda>s. lastPath (fst s)))
      (\<lambda>_. plan_inv base lim D P)"
    by (rule seg_get)
  show "keeps base lim C D P (bindS (getS (\<lambda>s. lastPath (fst s))) (\<lambda>lst.
       if lst = [] then returnS False else bindS (planSymlink g dir lst) (\<lambda>_. returnS True)))"
    by (rule keeps_bind [OF lst], rule seg_if, rule keeps_return, rule seg_true,
        rule keeps_planSymlink [OF g(1) d])
qed

lemma st_ok_hardlink:
  assumes "st_ok es st" and e: "pe_type e = plannedEntryTypeHardlink" "pe_path e \<notin> set (paths es)"
    and t: "pe_linkTarget e \<in> set (names plannedEntryTypeFile es) \<union> set (names plannedEntryTypeHardlink es)"
  shows "st_ok (es @ [e]) (registerHardlink (pe_linkTarget e) (pe_path e)
    ((registerFilePath (pe_path e) st)\<lparr>lastPath := pe_path e\<rparr>))"
proof -
  have st: "index_ok (hardlinkGroupByPath st) (hardlinkGroups st)" "list_all (group_ok es) (hardlinkGroups st)"
    "list_all (grouped (hardlinkGroups st)) (hard_links es)"
    using assms(1) unfolding st_ok_def by blast+
  show ?thesis
  proof (cases "map_of (hardlinkGroupByPath st) (pe_linkTarget e)")
    case (Some i)
    show ?thesis
      using join_group_ok [OF st e Some] assms(1) Some e(1)
      by (auto simp: st_ok_def registerHardlink_def registerFilePath_def join_group_def Let_def)
  next
    case None
    show ?thesis
      using new_group_ok [OF st e None t] assms(1) None e(1)
      by (auto simp: st_ok_def registerHardlink_def registerFilePath_def join_group_def Let_def)
  qed
qed

lemma registerHardlink_frame [simp]:
  "entryLimit (registerHardlink t p st) = entryLimit st" "used (registerHardlink t p st) = used st"
  by (simp_all add: registerHardlink_def join_group_def Let_def split: option.split)

definition append_hardlink :: "string \<Rightarrow> string \<Rightarrow> bool plan_op" where
  "append_hardlink targetPath hardlinkPath =
     bindS (appendEntry ((entry0 plannedEntryTypeHardlink hardlinkPath)\<lparr>pe_linkTarget := targetPath\<rparr>)) (\<lambda>_.
     bindS (updS (registerFilePath hardlinkPath)) (\<lambda>_.
     bindS (updS (\<lambda>st. st\<lparr>lastPath := hardlinkPath\<rparr>)) (\<lambda>_.
     bindS (updS (registerHardlink targetPath hardlinkPath)) (\<lambda>_.
     returnS True))))"

lemma append_hardlink_eq:
  "append_hardlink t p s =
     (if int (length (entries (snd s))) \<ge> entryLimit (fst s) then (FailW ''limit'' ErrPlanEntryLimitExceeded, s)
      else (Inr True, (registerHardlink t p ((registerFilePath p (fst s))\<lparr>lastPath := p\<rparr>),
        (snd s)\<lparr>entries := entries (snd s) @ [(entry0 plannedEntryTypeHardlink p)\<lparr>pe_linkTarget := t\<rparr>]\<rparr>)))"
  by (simp add: append_hardlink_def bindS_def appendEntry_def updS_def modifyS_def returnS_def)

lemma seg_append_hardlink:
  assumes "Dir p \<in> D" "below base p" "p \<notin> P"
    and C: "C (Errorf ''limit'' (Some (Sentinel ErrPlanEntryLimitExceeded)))"
  shows "seg base lim C (\<lambda>s. plan_inv base lim D (insert p P) s \<and> t \<in> inode_names (snd s)) (append_hardlink t p)
    (\<lambda>_. plan_inv base lim D P)"
  unfolding seg_def
proof (rule runsI)
  let ?e = "(entry0 plannedEntryTypeHardlink p)\<lparr>pe_linkTarget := t\<rparr>"
  fix s x u
  assume s: "plan_inv base lim D (insert p P) s \<and> t \<in> inode_names (snd s)" and a: "append_hardlink t p s = (Inr x, u)"
  have lim: "int (length (entries (snd s))) < lim" "entryLimit (fst s) = lim"
    and u: "u = (registerHardlink t p ((registerFilePath p (fst s))\<lparr>lastPath := p\<rparr>),
        (snd s)\<lparr>entries := entries (snd s) @ [?e]\<rparr>)"
    using a s by (auto simp: append_hardlink_eq plan_inv_def split: if_splits)
  have e: "entry_ok base (entries (snd s)) ?e"
    using entry_okI [of base lim D "insert p P" s ?e] s assms by (simp add: entry0_def)
  then have p: "p \<notin> set (paths (entries (snd s)))" by (simp add: entry_ok_def entry0_def)
  have "st_ok (entries (snd s) @ [?e]) (registerHardlink t p ((registerFilePath p (fst s))\<lparr>lastPath := p\<rparr>))"
    using st_ok_hardlink [of "entries (snd s)" "fst s" ?e] s p by (simp add: entry0_def plan_inv_def)
  from plan_inv_append [OF conjunct1 [OF s] _ e lim(1) this] assms(3) lim(2)
  show "plan_inv base lim D P u" unfolding u by (simp add: entry0_def registerFilePath_def)
next
  fix s e u
  assume "plan_inv base lim D (insert p P) s \<and> t \<in> inode_names (snd s)" and "append_hardlink t p s = (Inl e, u)"
  then show "plan_inv base lim {} {} u \<and> C e"
    using C plan_inv_none by (auto simp: append_hardlink_eq split: if_splits)
qed

lemma keeps_tryPlanHardlink:
  assumes g: "file_names_ok C g" "fails (shouldPlanHardlink g) C" and d: "dir \<in> D"
  shows "keeps base lim C D P (tryPlanHardlink g dir)"
  unfolding tryPlanHardlink_def append_hardlink_def [symmetric]
proof (rule keeps_bind [OF seg_rnd0 [OF g(2)]], rule seg_if, rule keeps_return, rule seg_bind [OF seg_pickFile], rule seg_option)
  have C: "C (Errorf ''limit'' (Some (Sentinel ErrPlanEntryLimitExceeded)))" using g by (simp add: file_names_ok_def)
  fix x :: "string option" and t assume x: "x = Some t"
  have "seg base lim C (\<lambda>s. plan_inv base lim D P s \<and> t \<in> inode_names (snd s))
      (bindS (unique_file_path g dir ''hardlink'') (append_hardlink t)) (\<lambda>_. plan_inv base lim D P)"
  proof (rule seg_bind [OF seg_unique_file [OF g(1) d]])
    fix p
    show "seg base lim C (reserved_in base lim D P (\<lambda>plan. t \<in> inode_names plan) dir p) (append_hardlink t p)
        (\<lambda>_. plan_inv base lim D P)"
    proof (rule seg_pre [where A = "p \<notin> P \<and> below base p \<and> Dir p = dir"])
      assume p: "p \<notin> P \<and> below base p \<and> Dir p = dir"
      have a: "seg base lim C (\<lambda>s. plan_inv base lim D (insert p P) s \<and> t \<in> inode_names (snd s)) (append_hardlink t p)
        (\<lambda>_. plan_inv base lim D P)" by (rule seg_append_hardlink) (use p d C in auto)
      show "seg base lim C (reserved_in base lim D P (\<lambda>plan. t \<in> inode_names plan) dir p) (append_hardlink t p)
        (\<lambda>_. plan_inv base lim D P)" by (rule seg_conseq [OF a]) simp_all
    qed simp
  qed
  then show "seg base lim C (\<lambda>s. plan_inv base lim D P s \<and> (\<forall>p. x = Some p \<longrightarrow> p \<in> inode_names (snd s)))
      (bindS (unique_file_path g dir ''hardlink'') (append_hardlink t)) (\<lambda>_. plan_inv base lim D P)"
    by (rule seg_conseq) (use x in simp_all)
qed (rule seg_return, simp)

text \<open>After a path is reserved, its facts are at hand and the rest keeps it reserved.\<close>

lemma keeps_reserve:
  assumes "file_names_ok C g" "dir \<in> D"
    and "\<And>p. p \<notin> P \<Longrightarrow> below base p \<Longrightarrow> Dir p = dir \<Longrightarrow>
      seg base lim C (plan_inv base lim D (insert p P)) (f p) (\<lambda>_. plan_inv base lim D P)"
  shows "keeps base lim C D P (bindS (unique_file_path g dir kind) f)"
proof (rule seg_bind [OF seg_unique_file0 [OF assms(1,2)]])
  fix p
  show "seg base lim C (\<lambda>s. plan_inv base lim D (insert p P) s \<and> p \<notin> P \<and> below base p \<and> Dir p = dir) (f p)
      (\<lambda>_. plan_inv base lim D P)"
    by (rule seg_pre [where A = "p \<notin> P \<and> below base p \<and> Dir p = dir"], simp, rule seg_conseq [OF assms(3)]) simp_all
qed

text \<open>Appending the entry of a reserved path.\<close>

lemma seg_append_reserved:
  assumes "Dir (pe_path e) \<in> D" "below base (pe_path e)" "pe_path e \<notin> P"
    and C: "C (Errorf ''limit'' (Some (Sentinel ErrPlanEntryLimitExceeded)))"
    and e: "pe_type e = plannedEntryTypeFile \<or> pe_type e = plannedEntryTypeSpecial \<and>
      is_ok (validateSpecialFileType (pe_special e)) \<and> 0 \<le> pe_major e \<and> 0 \<le> pe_minor e"
  shows "seg base lim C (plan_inv base lim D (insert (pe_path e) P)) (appendEntry e)
    (\<lambda>_ s. plan_inv base lim D P s \<and> pe_path e \<in> set (paths (entries (snd s))) \<and>
       (pe_type e = plannedEntryTypeFile \<longrightarrow> pe_path e \<in> inode_names (snd s)))"
proof (rule seg_conseq [OF seg_append [where e = e and C = C and P = "insert (pe_path e) P" and D = D]])
  show "pe_type e \<noteq> plannedEntryTypeHardlink" using e by auto
  show "C (Errorf ''limit'' (Some (Sentinel ErrPlanEntryLimitExceeded)))" by (rule C)
  show "plan_inv base lim D (insert (pe_path e) P) s \<and> pe_path e \<in> insert (pe_path e) P \<and> entry_ok base (entries (snd s)) e"
    if "plan_inv base lim D (insert (pe_path e) P) s" for s
  proof -
    have "entry_ok base (entries (snd s)) e"
      by (rule entry_okI [OF that]) (use assms(1,2) e in auto)
    then show ?thesis using that by simp
  qed
  show "plan_inv base lim D P s \<and> pe_path e \<in> set (paths (entries (snd s))) \<and>
       (pe_type e = plannedEntryTypeFile \<longrightarrow> pe_path e \<in> inode_names (snd s))"
    if "plan_inv base lim (D \<union> (if pe_type e = plannedEntryTypeDir then {pe_path e} else {}))
          (insert (pe_path e) P - {pe_path e}) s \<and> (\<exists>es. entries (snd s) = es @ [e])" for s
    using that e assms(3) by auto
qed

lemma seg_lastPath:
  "seg base lim C (\<lambda>s. plan_inv base lim D P s \<and> p \<in> set (paths (entries (snd s)))) (updS (\<lambda>st. st\<lparr>lastPath := p\<rparr>))
    (\<lambda>_. plan_inv base lim D P)"
  by (rule seg_upd) (simp add: plan_inv_def st_ok_def)

lemma keeps_device_numbers:
  assumes g: "special_ok C g" and t: "isSpecialDeviceType t \<longrightarrow> specialDeviceMajorGen g \<noteq> None \<and> specialDeviceMinorGen g \<noteq> None \<or> (\<forall>e. C e)"
  shows "seg base lim C (plan_inv base lim D P) (device_numbers g t)
    (\<lambda>(major, minor) s. plan_inv base lim D P s \<and> 0 \<le> major \<and> 0 \<le> minor)"
  unfolding device_numbers_def
proof (intro seg_if)
  let ?dev = "bindS (rndS (call (specialDeviceMajorGen g))) (\<lambda>major. bindS (rndS (call (specialDeviceMinorGen g))) (\<lambda>minor.
      if major < 0 then raiseS (Errorf ''special device major must be >= 0'' None)
      else if minor < 0 then raiseS (Errorf ''special device minor must be >= 0'' None) else returnS (major, minor)))"
  let ?Q = "\<lambda>(major, minor) s. plan_inv base lim D P s \<and> (0 :: int) \<le> major \<and> (0 :: int) \<le> minor"
  assume dev: "isSpecialDeviceType t"
  show "seg base lim C (plan_inv base lim D P) (raiseS (Sentinel ErrSpecialDeviceNumbersRequired)) ?Q"
    if n: "specialDeviceMajorGen g = None \<or> specialDeviceMinorGen g = None"
    by (rule seg_raise) (use plan_inv_none n dev t in auto)
  assume "\<not> (specialDeviceMajorGen g = None \<or> specialDeviceMinorGen g = None)"
  then have m: "in_range C (call (specialDeviceMajorGen g)) (\<lambda>v. 0 \<le> v)" "in_range C (call (specialDeviceMinorGen g)) (\<lambda>v. 0 \<le> v)"
    using g by (simp_all add: special_ok_def)
  show "seg base lim C (plan_inv base lim D P) ?dev ?Q"
  proof (rule seg_bind [OF seg_rnd_plain [OF conjunct2 [OF m(1)] conjunct1 [OF m(1)]]], rule seg_pure,
      rule seg_bind [OF seg_rnd_plain [OF conjunct2 [OF m(2)] conjunct1 [OF m(2)]]], rule seg_pure, intro seg_if)
    fix major minor :: int
    assume r: "0 \<le> major \<or> (\<forall>e. C e)" "0 \<le> minor \<or> (\<forall>e. C e)"
    show "seg base lim C (plan_inv base lim D P) (raiseS (Errorf ''special device major must be >= 0'' None)) ?Q" if "major < 0"
      by (rule seg_raise, erule plan_inv_none) (use r that in auto)
    show "seg base lim C (plan_inv base lim D P) (raiseS (Errorf ''special device minor must be >= 0'' None)) ?Q" if "minor < 0"
      by (rule seg_raise, erule plan_inv_none) (use r that in auto)
    show "seg base lim C (plan_inv base lim D P) (returnS (major, minor)) ?Q" if "\<not> major < 0" "\<not> minor < 0"
      by (rule seg_return) (use that in simp)
  qed
qed (rule seg_return, simp)

lemma keeps_tryPlanSpecialFile:
  assumes g: "file_names_ok C g" "special_ok C g" and d: "dir \<in> D"
  shows "keeps base lim C D P (tryPlanSpecialFile g dir)"
proof (cases "specialFileProbGen g = None")
  case True
  then have "rndS (shouldPlanSpecialFile g) = returnS False"
    by (auto simp: fun_eq_iff rndS_def shouldPlanSpecialFile_def returnS_def)
  then have "tryPlanSpecialFile g dir = returnS False" by (simp add: tryPlanSpecialFile_def)
  then show ?thesis by (simp add: keeps_return)
next
  case prob: False
  show ?thesis
    unfolding tryPlanSpecialFile_def
  proof (rule keeps_bind [OF seg_rnd0], use g in \<open>simp add: special_ok_def\<close>, rule seg_if, rule keeps_return)
    let ?R = "\<lambda>t. is_ok (validateSpecialFileType t) \<and>
      (isSpecialDeviceType t \<longrightarrow> specialDeviceMajorGen g \<noteq> None \<and> specialDeviceMinorGen g \<noteq> None) \<or> (\<forall>e. C e)"
    let ?rest = "\<lambda>fileType path. bindS (rndS (call (fileModeGen g))) (\<lambda>mode. bindS (device_numbers g fileType) (\<lambda>(major, minor).
        bindS (appendEntry ((entry0 plannedEntryTypeSpecial path)
             \<lparr>pe_mode := mode, pe_special := fileType, pe_major := major, pe_minor := minor\<rparr>)) (\<lambda>_.
        bindS (updS (\<lambda>st. st\<lparr>lastPath := path\<rparr>)) (\<lambda>_. returnS True))))"
    have nt: "fails (nextSpecialFileType g) C" "gives (nextSpecialFileType g) ?R" and fm: "fails (call (fileModeGen g)) C"
      using g(2) prob by (simp_all add: special_ok_def)
    have C: "C (Errorf ''limit'' (Some (Sentinel ErrPlanEntryLimitExceeded)))" using g(1) by (simp add: file_names_ok_def)
    have rest: "seg base lim C (plan_inv base lim D (insert p P)) (?rest t p) (\<lambda>_. plan_inv base lim D P)"
      if t: "?R t" "is_ok (validateSpecialFileType t)" and p: "p \<notin> P" "below base p" "Dir p = dir" for t p
    proof (rule seg_bind [OF seg_rnd0 [OF fm]], rule seg_bind [OF keeps_device_numbers [OF g(2)]], use t in blast, unfold split_beta, rule seg_pure)
      fix mode and x :: "int \<times> int"
      assume x: "0 \<le> fst x \<and> 0 \<le> snd x"
      let ?e = "(entry0 plannedEntryTypeSpecial p)\<lparr>pe_mode := mode, pe_special := t, pe_major := fst x, pe_minor := snd x\<rparr>"
      have a: "seg base lim C (plan_inv base lim D (insert (pe_path ?e) P)) (appendEntry ?e)
        (\<lambda>_ s. plan_inv base lim D P s \<and> pe_path ?e \<in> set (paths (entries (snd s))) \<and>
         (pe_type ?e = plannedEntryTypeFile \<longrightarrow> pe_path ?e \<in> inode_names (snd s)))"
        by (rule seg_append_reserved) (use p d t x C in \<open>simp_all add: entry0_def\<close>)
      show "seg base lim C (plan_inv base lim D (insert p P))
         (bindS (appendEntry ?e) (\<lambda>_. bindS (updS (\<lambda>st. st\<lparr>lastPath := p\<rparr>)) (\<lambda>_. returnS True))) (\<lambda>_. plan_inv base lim D P)"
        by (rule seg_bind [OF seg_conseq [OF a, where J' = "\<lambda>_ s. plan_inv base lim D P s \<and> p \<in> set (paths (entries (snd s)))"]])
          (auto simp: entry0_def intro: seg_true seg_lastPath)
    qed
    show "keeps base lim C D P (bindS (rndS (nextSpecialFileType g)) (\<lambda>fileType.
        bindS (liftS (wrapE ''invalid configured special file type'' (validateSpecialFileType fileType))) (\<lambda>_.
        bindS (unique_file_path g dir ''special file'') (?rest fileType))))"
    proof (rule seg_bind [OF seg_rnd_plain [OF nt(2,1)]], rule seg_pure)
      fix t assume t: "?R t"
      have "seg base lim C (plan_inv base lim D P)
          (liftS (wrapE ''invalid configured special file type'' (validateSpecialFileType t)))
          (\<lambda>_ s. plan_inv base lim D P s \<and> is_ok (validateSpecialFileType t))"
        by (rule seg_lift_plain) (use t in \<open>auto simp: is_ok_def split: sum.splits\<close>)
      then show "keeps base lim C D P
         (bindS (liftS (wrapE ''invalid configured special file type'' (validateSpecialFileType t))) (\<lambda>_.
          bindS (unique_file_path g dir ''special file'') (?rest t)))"
        by (rule seg_bind) (rule seg_pure, rule keeps_reserve [OF g(1) d], rule rest [OF t])
    qed
  qed
qed

section \<open>Files and directories\<close>

lemma keeps_follow_symlink:
  assumes g: "file_names_ok C g" "content_gens_ok C g" and d: "dir \<in> D" and p: "below base p"
  shows "keeps base lim C D P (follow_symlink g dir p)"
  unfolding follow_symlink_def
proof (rule seg_if, rule keeps_return, rule keeps_bind [OF seg_rnd0], use g in \<open>simp add: content_gens_ok_def\<close>,
    rule seg_if, rule keeps_return, rule seg_pre [where A = "clean_abs dir"], erule dir_clean(1) [OF _ d])
  assume "clean_abs dir"
  then obtain r where r: "Rel dir p = Inr r" "r \<noteq> []" using Rel_clean p by (auto simp: below_def)
  have "seg base lim C (plan_inv base lim D P) (liftS (wrapE ''failed to derive relative symlink target'' (Rel dir p)))
      (\<lambda>x s. plan_inv base lim D P s \<and> x \<noteq> [])"
    by (rule seg_lift_plain) (use r in simp_all)
  then show "keeps base lim C D P (bindS (liftS (wrapE ''failed to derive relative symlink target'' (Rel dir p)))
      (planSymlink g dir))"
    by (rule seg_bind) (rule seg_pure, rule keeps_planSymlink [OF g(1) d])
qed

lemma seg_file_content:
  assumes "content_gens_ok C g" "\<And>c d. R (e\<lparr>pe_content := c\<rparr>) \<and> R (e\<lparr>pe_data := d\<rparr>)"
  shows "seg base lim C (plan_inv base lim D P) (file_content g e) (\<lambda>x s. plan_inv base lim D P s \<and> R x)"
  unfolding file_content_def
proof (rule seg_if)
  assume "hasContentPatternConfiguration g"
  then have "fails (wrapS ''failed to generate file content pattern'' (planFileContentPattern g)) C"
    using assms(1) by (simp add: content_gens_ok_def)
  then show "seg base lim C (plan_inv base lim D P)
     (bindS (rndS (wrapS ''failed to generate file content pattern'' (planFileContentPattern g)))
       (\<lambda>c. returnS (e\<lparr>pe_content := c\<rparr>))) (\<lambda>x s. plan_inv base lim D P s \<and> R x)"
    by (rule seg_bind [OF seg_rnd0]) (rule seg_return, simp add: assms(2))
next
  assume "\<not> hasContentPatternConfiguration g"
  then have "fails (wrapS ''failed to generate file data'' (call (dataGen g))) C"
    using assms(1) by (simp add: content_gens_ok_def)
  then show "seg base lim C (plan_inv base lim D P)
     (bindS (rndS (wrapS ''failed to generate file data'' (call (dataGen g)))) (\<lambda>d. returnS (e\<lparr>pe_data := d\<rparr>)))
     (\<lambda>x s. plan_inv base lim D P s \<and> R x)"
    by (rule seg_bind [OF seg_rnd0]) (rule seg_return, simp add: assms(2))
qed

lemma keeps_planFile:
  assumes g: "gens_ok C g" and d: "dir \<in> D"
  shows "keeps base lim C D P (planFile g dir)"
proof -
  have gs: "file_names_ok C g" "content_gens_ok C g" "fails (call (fileModeGen g)) C" "fails (resolveMetadata g) C"
    using g by (simp_all add: gens_ok_def content_gens_ok_def special_ok_def)
  have C: "C (Errorf ''limit'' (Some (Sentinel ErrPlanEntryLimitExceeded)))" using gs(1) by (simp add: file_names_ok_def)
  have fin: "seg base lim C (plan_inv base lim D (insert p P))
      (bindS (appendEntry e) (\<lambda>_. bindS (updS (registerFilePath p)) (\<lambda>_.
         bindS (updS (\<lambda>st. st\<lparr>lastPath := p\<rparr>)) (\<lambda>_. follow_symlink g dir p)))) (\<lambda>_. plan_inv base lim D P)"
    if p: "p \<notin> P" "below base p" "Dir p = dir" and e: "pe_path e = p" "pe_type e = plannedEntryTypeFile" for p e
  proof (rule seg_bind [where J = "\<lambda>_ s. plan_inv base lim D P s \<and> p \<in> set (paths (entries (snd s))) \<and> p \<in> inode_names (snd s)"])
    have "seg base lim C (plan_inv base lim D (insert (pe_path e) P)) (appendEntry e)
      (\<lambda>_ s. plan_inv base lim D P s \<and> pe_path e \<in> set (paths (entries (snd s))) \<and>
       (pe_type e = plannedEntryTypeFile \<longrightarrow> pe_path e \<in> inode_names (snd s)))"
      by (rule seg_append_reserved) (use p d e C in simp_all)
    then show "seg base lim C (plan_inv base lim D (insert p P)) (appendEntry e)
      (\<lambda>_ s. plan_inv base lim D P s \<and> p \<in> set (paths (entries (snd s))) \<and> p \<in> inode_names (snd s))"
      using e by simp
  next
    have "seg base lim C (\<lambda>s. plan_inv base lim D P s \<and> p \<in> set (paths (entries (snd s))) \<and> p \<in> inode_names (snd s))
        (updS (registerFilePath p)) (\<lambda>_ s. plan_inv base lim D P s \<and> p \<in> set (paths (entries (snd s))))"
      by (rule seg_upd) (auto simp: plan_inv_def st_ok_def registerFilePath_def)
    then show "seg base lim C (\<lambda>s. plan_inv base lim D P s \<and> p \<in> set (paths (entries (snd s))) \<and> p \<in> inode_names (snd s))
       (bindS (updS (registerFilePath p)) (\<lambda>_. bindS (updS (\<lambda>st. st\<lparr>lastPath := p\<rparr>)) (\<lambda>_. follow_symlink g dir p)))
       (\<lambda>_. plan_inv base lim D P)" for u :: unit
      by (rule seg_bind) (rule seg_bind [OF seg_lastPath keeps_follow_symlink [OF gs(1,2) d p(2)]])
  qed
  show ?thesis
    unfolding planFile_def
  proof (rule keeps_reserve [OF gs(1) d], rule seg_bind [OF seg_rnd0 [OF gs(3)]])
    fix p mode assume p: "p \<notin> P" "below base p" "Dir p = dir"
    let ?R = "\<lambda>e. pe_path e = p \<and> pe_type e = plannedEntryTypeFile"
    show "seg base lim C (plan_inv base lim D (insert p P))
       (bindS (file_content g ((entry0 plannedEntryTypeFile p)\<lparr>pe_mode := mode\<rparr>)) (\<lambda>entry. bindS (rndS (resolveMetadata g))
        (\<lambda>metadata. bindS (appendEntry (entry\<lparr>pe_metadata := metadata\<rparr>)) (\<lambda>_. bindS (updS (registerFilePath p))
        (\<lambda>_. bindS (updS (\<lambda>st. st\<lparr>lastPath := p\<rparr>)) (\<lambda>_. follow_symlink g dir p)))))) (\<lambda>_. plan_inv base lim D P)"
    proof (rule seg_bind [OF seg_file_content [OF gs(2), where R = ?R]], simp add: entry0_def, rule seg_pure,
        rule seg_bind [OF seg_rnd0 [OF gs(4)]])
      fix e :: plannedEntry and md assume "?R e"
      then show "seg base lim C (plan_inv base lim D (insert p P))
         (bindS (appendEntry (e\<lparr>pe_metadata := md\<rparr>)) (\<lambda>_. bindS (updS (registerFilePath p))
        (\<lambda>_. bindS (updS (\<lambda>st. st\<lparr>lastPath := p\<rparr>)) (\<lambda>_. follow_symlink g dir p)))) (\<lambda>_. plan_inv base lim D P)"
        by (intro fin p) simp_all
    qed
  qed
qed

lemma keeps_slot:
  assumes g: "gens_ok C g" and d: "dir \<in> D"
  shows "keeps base lim C D P (plan_file_slot g dir)"
  unfolding plan_file_slot_def
  using g by (intro keeps_bind seg_if keeps_return keeps_tryPlanSymlink keeps_tryPlanHardlink
      keeps_tryPlanSpecialFile keeps_planFile d) (simp_all add: gens_ok_def)

text \<open>A reserved directory path where its entry may be appended.\<close>

definition dir_spot :: "string \<Rightarrow> string \<Rightarrow> runPlan \<Rightarrow> bool" where
  "dir_spot base p plan \<longleftrightarrow>
     (if entries plan = [] then p = base
      else below base p \<and> Dir p \<in> set (names plannedEntryTypeDir (entries plan)))"

lemma seg_append_dir:
  assumes p: "p \<notin> P" and C: "C (Errorf ''limit'' (Some (Sentinel ErrPlanEntryLimitExceeded)))"
    and e: "pe_type e = plannedEntryTypeDir" "pe_path e = p"
  shows "seg base lim C (\<lambda>s. plan_inv base lim D (insert p P) s \<and> dir_spot base p (snd s)) (appendEntry e)
    (\<lambda>_ s. plan_inv base lim (insert p D) P s \<and> entries (snd s) \<noteq> [])"
proof (rule seg_conseq [OF seg_append [where e = e and C = C and P = "insert p P" and D = D]])
  show "pe_type e \<noteq> plannedEntryTypeHardlink" using e by simp
  show "C (Errorf ''limit'' (Some (Sentinel ErrPlanEntryLimitExceeded)))" by (rule C)
  show "plan_inv base lim D (insert p P) s \<and> pe_path e \<in> insert p P \<and> entry_ok base (entries (snd s)) e"
    if s: "plan_inv base lim D (insert p P) s \<and> dir_spot base p (snd s)" for s
  proof -
    have "p \<notin> set (paths (entries (snd s)))" using s unfolding plan_inv_def by blast
    then show ?thesis using s e by (simp add: entry_ok_def dir_spot_def split: if_splits)
  qed
  show "plan_inv base lim (insert p D) P s \<and> entries (snd s) \<noteq> []"
    if "plan_inv base lim (D \<union> (if pe_type e = plannedEntryTypeDir then {pe_path e} else {}))
          (insert p P - {pe_path e}) s \<and> (\<exists>es. entries (snd s) = es @ [e])" for s
    using that e p by auto
qed

lemma plan_inv_metadata:
  assumes "plan_inv base lim D P s" "entries (snd s) = es @ [e]"
  shows "plan_inv base lim D P (fst s, (snd s)\<lparr>entries := es @ [e\<lparr>pe_metadata := m\<rparr>]\<rparr>)"
proof -
  have same: "names t (es @ [e\<lparr>pe_metadata := m\<rparr>]) = names t (es @ [e])"
    "paths (es @ [e\<lparr>pe_metadata := m\<rparr>]) = paths (es @ [e])"
    "hard_links (es @ [e\<lparr>pe_metadata := m\<rparr>]) = hard_links (es @ [e])" for t
    by simp_all
  have "entry_ok base es (e\<lparr>pe_metadata := m\<rparr>) = entry_ok base es e" by (simp add: entry_ok_def)
  then have ok: "entries_ok base (es @ [e\<lparr>pe_metadata := m\<rparr>]) = entries_ok base (es @ [e])" by simp
  have "group_ok (es @ [e\<lparr>pe_metadata := m\<rparr>]) = group_ok (es @ [e])"
    by (rule ext) (simp only: group_ok_def same)
  then have "st_ok (es @ [e\<lparr>pe_metadata := m\<rparr>]) (fst s) = st_ok (es @ [e]) (fst s)"
    by (simp only: st_ok_def same)
  moreover have "entries ((snd s)\<lparr>entries := es @ [e\<lparr>pe_metadata := m\<rparr>]\<rparr>) = es @ [e\<lparr>pe_metadata := m\<rparr>]"
    "length (es @ [e\<lparr>pe_metadata := m\<rparr>]) = length (es @ [e])" by simp_all
  ultimately show ?thesis using assms ok by (simp only: plan_inv_def fst_conv snd_conv same)
qed

lemma seg_set_metadata:
  "seg base lim C (\<lambda>s. plan_inv base lim D P s \<and> entries (snd s) \<noteq> [] \<and> i = length (entries (snd s)) - 1)
    (set_metadata i m) (\<lambda>_. plan_inv base lim D P)"
  unfolding seg_def
proof (rule runsI)
  fix s x t
  assume s: "plan_inv base lim D P s \<and> entries (snd s) \<noteq> [] \<and> i = length (entries (snd s)) - 1"
    and a: "set_metadata i m s = (Inr x, t)"
  then obtain es e where es: "entries (snd s) = es @ [e]" by (meson rev_exhaust)
  then have "t = (fst s, (snd s)\<lparr>entries := es @ [e\<lparr>pe_metadata := m\<rparr>]\<rparr>)"
    using a s by (simp add: set_metadata_def modifyS_def)
  then show "plan_inv base lim D P t" using plan_inv_metadata s es by blast
qed (simp add: set_metadata_def modifyS_def)

lemma seg_unique_dir:
  assumes "gens_ok C g" "dir \<in> D"
  shows "seg base lim C (plan_inv base lim D P)
    (planUniquePathWithByte dir (dirNameGen g) (dirNameLenGen g) (byteDirNameGen g) kind)
    (reserved_in base lim D P (\<lambda>_. True) dir)"
proof -
  have "seg base lim C (\<lambda>s. plan_inv base lim D P s \<and> True)
    (unique_attempts n dir (next_name (dirNameGen g) (dirNameLenGen g) (byteDirNameGen g)) kind)
    (reserved_in base lim D P (\<lambda>_. True) dir)" for n
    by (rule seg_unique [where K = "\<lambda>_. True"])
      (use assms in \<open>auto simp: gens_ok_def dir_gens_ok_def file_names_ok_def\<close>)
  then show ?thesis by (simp add: planUniquePathWithByte_def)
qed

lemma bindS_assoc: "bindS (bindS m f) g = bindS m (\<lambda>x. bindS (f x) g)"
  by (rule ext) (auto simp: bindS_def split: prod.split sum.split)

text \<open>
  The fuel: every directory on the way down has an entry, so with \<open>n\<close> levels left and the
  directories \<open>D\<close> above, \<open>n\<close> cannot be 0 while the plan keeps its limit.
\<close>

lemma seg_planDir:
  assumes g: "gens_ok C g"
  shows "p \<notin> P \<Longrightarrow> finite D \<Longrightarrow> max 0 lim + 1 \<le> int (card D) + int n \<Longrightarrow> seg base lim C (\<lambda>s. plan_inv base lim D (insert p P) s \<and> dir_spot base p (snd s))
    (planDir n g p depth) (\<lambda>_. plan_inv base lim D P)"
proof (induction n arbitrary: p P D depth)
  case 0
  have "\<not> plan_inv base lim D (insert p P) s" for s
  proof
    assume s: "plan_inv base lim D (insert p P) s"
    have "card D \<le> card (set (names plannedEntryTypeDir (entries (snd s))))"
      using s unfolding plan_inv_def by (intro card_mono List.finite_set) blast
    also have "\<dots> \<le> length (entries (snd s))"
      by (rule order_trans [OF card_length]) (simp add: names_def)
    finally have "int (card D) \<le> int (length (entries (snd s)))" by simp
    moreover have "int (length (entries (snd s))) \<le> max 0 lim" using s unfolding plan_inv_def by blast
    ultimately show False using 0(3) by simp
  qed
  then show ?case by (simp add: seg_def runs_def)
next
  case (Suc n)
  have gs: "fails (call (pathDepthGen g)) C" "fails (call (dirModeGen g)) C" "fails (call (nDirsInDirGen g)) C"
    "fails (call (nFilesInDirGen g)) C" "fails (resolveMetadata g) C"
    and C: "C (Errorf ''limit'' (Some (Sentinel ErrPlanEntryLimitExceeded)))"
    using g by (simp_all add: gens_ok_def dir_gens_ok_def content_gens_ok_def file_names_ok_def)
  let ?J = "plan_inv base lim (insert p D) P"
  have sub: "p \<notin> D \<Longrightarrow> seg base lim C ?J (bindS (planUniquePathWithByte p (dirNameGen g) (dirNameLenGen g) (byteDirNameGen g) ''directory'')
      (\<lambda>q. planDir n g q (depth + 1))) (\<lambda>_. ?J)"
  proof (rule seg_bind [OF seg_unique_dir [OF g insertI1]])
    fix q assume new: "p \<notin> D"
    show "seg base lim C (reserved_in base lim (insert p D) P (\<lambda>_. True) p q) (planDir n g q (depth + 1)) (\<lambda>_. ?J)"
    proof (rule seg_pre [where A = "q \<notin> P \<and> below base q \<and> Dir q = p"], simp)
      assume q: "q \<notin> P \<and> below base q \<and> Dir q = p"
      have spot: "dir_spot base q (snd s)" if "plan_inv base lim (insert p D) (insert q P) s" for s
      proof -
        have "p \<in> set (names plannedEntryTypeDir (entries (snd s)))" using that by (simp add: plan_inv_def)
        then show ?thesis using q by (auto simp: dir_spot_def)
      qed
      show "seg base lim C (reserved_in base lim (insert p D) P (\<lambda>_. True) p q) (planDir n g q (depth + 1)) (\<lambda>_. ?J)"
      proof (rule seg_conseq [OF Suc.IH [of q P "insert p D"]])
        show "q \<notin> P" using q by blast
        show "finite (insert p D)" using Suc.prems(2) by simp
        show "max 0 lim + 1 \<le> int (card (insert p D)) + int n" using Suc.prems(2,3) new by simp
        show "plan_inv base lim (insert p D) (insert q P) s \<and> dir_spot base q (snd s)"
          if "reserved_in base lim (insert p D) P (\<lambda>_. True) p q s" for s
          using spot [OF conjunct1 [OF that]] conjunct1 [OF that] by blast
      qed
    qed
  qed
  have body: "seg base lim C (\<lambda>s. plan_inv base lim D (insert p P) s \<and> dir_spot base p (snd s)) (planDir (Suc n) g p depth) (\<lambda>_. plan_inv base lim D P)"
    if new: "p \<notin> D"
    unfolding planDir.simps
  proof (rule seg_bind [OF seg_rnd_any [OF gs(1)]], rule seg_if)
    show "seg base lim C (\<lambda>s. plan_inv base lim D (insert p P) s \<and> dir_spot base p (snd s) \<and> True) (returnS ())
        (\<lambda>_. plan_inv base lim D P)"
      by (rule seg_return) (auto elim: plan_inv_anti)
    have spot: "seg base lim C (\<lambda>s. plan_inv base lim D (insert p P) s \<and> dir_spot base p (snd s) \<and> True)
        (appendEntry e) (\<lambda>_ s. ?J s \<and> entries (snd s) \<noteq> [])"
      if e: "pe_type e = plannedEntryTypeDir" "pe_path e = p" for e
      by (rule seg_conseq [OF seg_append_dir [where p = p and P = P and e = e and C = C]])
        (use Suc.prems(1) C e in simp_all)
    have ix: "seg base lim C (\<lambda>s. ?J s \<and> entries (snd s) \<noteq> []) (getS (\<lambda>s. length (entries (snd s)) - 1))
        (\<lambda>i s. ?J s \<and> entries (snd s) \<noteq> [] \<and> i = length (entries (snd s)) - 1)"
      by (rule seg_get) simp
    have md: "seg base lim C (\<lambda>s. ?J s \<and> entries (snd s) \<noteq> [] \<and> i = length (entries (snd s)) - 1)
        (bindS (rndS (resolveMetadata g)) (set_metadata i)) (\<lambda>_. ?J)" for i
      by (rule seg_bind [OF seg_rnd_any [OF gs(5), where K = "\<lambda>plan. entries plan \<noteq> [] \<and> i = length (entries plan) - 1"]])
        (rule seg_conseq [OF seg_set_metadata], simp_all)
    have files: "seg base lim C ?J (bindS (rndS (call (nFilesInDirGen g))) (\<lambda>nFiles. repeatS (nat nFiles) (plan_file_slot g p))) (\<lambda>_. ?J)"
      by (rule keeps_bind [OF seg_rnd0 [OF gs(4)]], rule seg_repeat, rule keeps_slot [OF g insertI1])
    have dirs: "seg base lim C ?J (bindS (rndS (call (nDirsInDirGen g))) (\<lambda>nDirs. bindS (repeatS (nat nDirs)
        (bindS (planUniquePathWithByte p (dirNameGen g) (dirNameLenGen g) (byteDirNameGen g) ''directory'') (\<lambda>q. planDir n g q (depth + 1))))
        (\<lambda>_. bindS (rndS (call (nFilesInDirGen g))) (\<lambda>nFiles. repeatS (nat nFiles) (plan_file_slot g p))))) (\<lambda>_. ?J)"
      by (rule keeps_bind [OF seg_rnd0 [OF gs(3)]], rule keeps_bind [OF seg_repeat [OF sub [OF new]]], rule files)
    show "seg base lim C (\<lambda>s. plan_inv base lim D (insert p P) s \<and> dir_spot base p (snd s) \<and> True)
       (bindS (rndS (call (dirModeGen g))) (\<lambda>mode. bindS (appendEntry ((entry0 plannedEntryTypeDir p)\<lparr>pe_mode := mode\<rparr>))
        (\<lambda>_. bindS (getS (\<lambda>s. length (entries (snd s)) - 1)) (\<lambda>i. bindS (rndS (resolveMetadata g)) (\<lambda>m. bindS (set_metadata i m)
        (\<lambda>_. bindS (rndS (call (nDirsInDirGen g))) (\<lambda>nDirs. bindS (repeatS (nat nDirs)
        (bindS (planUniquePathWithByte p (dirNameGen g) (dirNameLenGen g) (byteDirNameGen g) ''directory'') (\<lambda>q. planDir n g q (depth + 1))))
        (\<lambda>_. bindS (rndS (call (nFilesInDirGen g))) (\<lambda>nFiles. repeatS (nat nFiles) (plan_file_slot g p))))))))))
       (\<lambda>_. plan_inv base lim D P)"
    proof (rule seg_bind [OF seg_rnd_any [OF gs(2), where K = "\<lambda>plan. dir_spot base p plan \<and> True"]],
        rule seg_bind [where J = "\<lambda>_ s. ?J s \<and> entries (snd s) \<noteq> []"], rule seg_conseq [OF spot])
      fix mode and u :: unit
      show "seg base lim C (\<lambda>s. ?J s \<and> entries (snd s) \<noteq> [])
         (bindS (getS (\<lambda>s. length (entries (snd s)) - 1)) (\<lambda>i. bindS (rndS (resolveMetadata g)) (\<lambda>m. bindS (set_metadata i m)
        (\<lambda>_. bindS (rndS (call (nDirsInDirGen g))) (\<lambda>nDirs. bindS (repeatS (nat nDirs)
        (bindS (planUniquePathWithByte p (dirNameGen g) (dirNameLenGen g) (byteDirNameGen g) ''directory'') (\<lambda>q. planDir n g q (depth + 1))))
        (\<lambda>_. bindS (rndS (call (nFilesInDirGen g))) (\<lambda>nFiles. repeatS (nat nFiles) (plan_file_slot g p)))))))) (\<lambda>_. plan_inv base lim D P)"
      proof (rule seg_bind [OF ix])
        fix i
        from seg_bind [OF md [of i] dirs]
        show "seg base lim C (\<lambda>s. ?J s \<and> entries (snd s) \<noteq> [] \<and> i = length (entries (snd s)) - 1)
          (bindS (rndS (resolveMetadata g)) (\<lambda>m. bindS (set_metadata i m)
        (\<lambda>_. bindS (rndS (call (nDirsInDirGen g))) (\<lambda>nDirs. bindS (repeatS (nat nDirs)
        (bindS (planUniquePathWithByte p (dirNameGen g) (dirNameLenGen g) (byteDirNameGen g) ''directory'') (\<lambda>q. planDir n g q (depth + 1))))
        (\<lambda>_. bindS (rndS (call (nFilesInDirGen g))) (\<lambda>nFiles. repeatS (nat nFiles) (plan_file_slot g p))))))) (\<lambda>_. plan_inv base lim D P)"
          unfolding bindS_assoc by (rule seg_conseq) (auto elim: plan_inv_anti)
      qed
    qed (auto simp: entry0_def)
  qed
  have new: "p \<notin> D" if "plan_inv base lim D (insert p P) s" for s
  proof
    assume "p \<in> D"
    then have "p \<in> set (names plannedEntryTypeDir (entries (snd s)))" using that by (auto simp: plan_inv_def)
    then have "p \<in> set (paths (entries (snd s)))" by (rule names_paths)
    then show False using that unfolding plan_inv_def by blast
  qed
  show ?case by (rule seg_pre [where A = "p \<notin> D"], rule new, erule conjunct1, rule body)
qed

section \<open>The finished plan\<close>

lemma distinct_concatI:
  "\<forall>i < length xss. distinct (xss ! i) \<Longrightarrow>
   \<forall>i j. i < j \<and> j < length xss \<longrightarrow> set (xss ! i) \<inter> set (xss ! j) = {} \<Longrightarrow> distinct (concat xss)"
proof (induction xss rule: rev_induct)
  case (snoc xs xss)
  have "distinct (concat xss)"
  proof (rule snoc.IH)
    show "\<forall>i < length xss. distinct (xss ! i)"
    proof (intro allI impI)
      fix i assume "i < length xss"
      then show "distinct (xss ! i)" using snoc.prems(1) [rule_format, of i] by (simp add: nth_append)
    qed
    show "\<forall>i j. i < j \<and> j < length xss \<longrightarrow> set (xss ! i) \<inter> set (xss ! j) = {}"
    proof (intro allI impI)
      fix i j assume "i < j \<and> j < length xss"
      then show "set (xss ! i) \<inter> set (xss ! j) = {}"
        using snoc.prems(2) [rule_format, of i j] by (simp add: nth_append)
    qed
  qed
  moreover have "distinct xs" using snoc.prems(1) [rule_format, of "length xss"] by simp
  moreover have "set ys \<inter> set xs = {}" if ys: "ys \<in> set xss" for ys
  proof -
    obtain i where "i < length xss" "xss ! i = ys" using ys by (auto simp: in_set_conv_nth)
    then show ?thesis using snoc.prems(2) [rule_format, of i "length xss"] by (simp add: nth_append)
  qed
  ultimately show ?case by auto
qed simp

lemma groups_ok_index:
  assumes "index_ok ix gs" "list_all (group_ok es) gs" "list_all (grouped gs) (hard_links es)"
  shows "groups_ok es gs"
proof -
  have "distinct (concat (map hg_paths gs))"
  proof (rule distinct_concatI)
    show "\<forall>i < length (map hg_paths gs). distinct (map hg_paths gs ! i)"
      using assms(2) by (simp add: list_all_length group_ok_def)
    show "\<forall>i j. i < j \<and> j < length (map hg_paths gs) \<longrightarrow> set (map hg_paths gs ! i) \<inter> set (map hg_paths gs ! j) = {}"
    proof (intro allI impI equals0I)
      fix i j p assume ij: "i < j \<and> j < length (map hg_paths gs)"
        and p: "p \<in> set (map hg_paths gs ! i) \<inter> set (map hg_paths gs ! j)"
      then have "map_of ix p = Some i" "map_of ix p = Some j" by (auto intro!: index_okI [OF assms(1)])
      then show False using ij by simp
    qed
  qed
  then show ?thesis using assms by (simp add: groups_ok_def)
qed

lemma sort_sum_mset: "mset (concat (map f (sort_key k xs))) = mset (concat (map f xs))"
proof -
  have "mset (concat (map f ys)) = \<Sum>\<^sub># (image_mset (\<lambda>x. mset (f x)) (mset ys))" for ys
    by (induction ys) simp_all
  then show ?thesis by simp
qed

lemma materialize_ok:
  assumes "groups_ok es (hardlinkGroups st)"
  shows "groups_ok es (materializeHardlinkGroups st)"
    "sorted (map hg_origin (materializeHardlinkGroups st))"
    "list_all (\<lambda>grp. sorted (hg_paths grp)) (materializeHardlinkGroups st)"
proof -
  let ?srt = "\<lambda>grp. grp\<lparr>hg_paths := sort_strings (hg_paths grp)\<rparr>"
  let ?gs = "hardlinkGroups st"
  have grp: "group_ok es (?srt grp) = group_ok es grp" for grp by (simp add: group_ok_def)
  have "mset (concat (map hg_paths (sort_key hg_origin (map ?srt ?gs)))) = mset (concat (map hg_paths ?gs))"
    unfolding sort_sum_mset by (induction ?gs arbitrary: st) (simp_all add: mset_concat comp_def sort_strings_def)
  then have "distinct (concat (map hg_paths (materializeHardlinkGroups st))) = distinct (concat (map hg_paths ?gs))"
    unfolding materializeHardlinkGroups_def by (rule mset_eq_imp_distinct_iff)
  moreover have "grouped (materializeHardlinkGroups st) l = grouped ?gs l" for l
    by (auto simp: grouped_def list_ex_iff materializeHardlinkGroups_def)
  then have "grouped (materializeHardlinkGroups st) = grouped ?gs" by blast
  moreover have "list_all (group_ok es) (materializeHardlinkGroups st) = list_all (group_ok es) ?gs"
    by (auto simp: list_all_iff materializeHardlinkGroups_def grp)
  ultimately show "groups_ok es (materializeHardlinkGroups st)" using assms by (simp only: groups_ok_def)
  show "sorted (map hg_origin (materializeHardlinkGroups st))"
    unfolding materializeHardlinkGroups_def by (rule sorted_sort_key)
  show "list_all (\<lambda>grp. sorted (hg_paths grp)) (materializeHardlinkGroups st)"
    by (simp add: list_all_iff materializeHardlinkGroups_def)
qed

lemma start_inv:
  assumes "clean_abs (basePath g)"
  shows "plan_inv (basePath g) (planEntryLimit g) {} {basePath g} (start_state g r)"
  using assms by (simp add: plan_inv_def start_state_def st_ok_def index_ok_def)

lemma planRun_seg:
  assumes g: "gens_ok C g" and b: "clean_abs (basePath g)"
    and run: "planRun g r = ((plan, res), r')"
  obtains s where "plan_inv (basePath g) (planEntryLimit g) {} {} s" "plan = finish_plan s" "\<forall>e. res = Inl e \<longrightarrow> C e"
proof -
  let ?n = "nat (planEntryLimit g) + 1"
  have spot: "dir_spot (basePath g) (basePath g) (snd (start_state g r))"
    by (simp add: dir_spot_def start_state_def)
  have seg: "seg (basePath g) (planEntryLimit g) C
      (\<lambda>s. plan_inv (basePath g) (planEntryLimit g) {} (insert (basePath g) {}) s \<and> dir_spot (basePath g) (basePath g) (snd s))
      (planDir ?n g (basePath g) 0) (\<lambda>_. plan_inv (basePath g) (planEntryLimit g) {} {})"
    by (rule seg_planDir [OF g]) simp_all
  obtain x s where ps: "planDir ?n g (basePath g) 0 (start_state g r) = (x, s)" by (meson prod.exhaust)
  then have out: "plan = finish_plan s" "res = x" using run by (simp_all add: planRun_def planRun_with_def)
  have "case x of Inl e \<Rightarrow> plan_inv (basePath g) (planEntryLimit g) {} {} s \<and> C e
      | Inr u \<Rightarrow> plan_inv (basePath g) (planEntryLimit g) {} {} s"
    using seg [unfolded seg_def runs_def, rule_format, of "start_state g r"] start_inv [OF b] spot ps
    by (auto split: sum.splits)
  then have "plan_inv (basePath g) (planEntryLimit g) {} {} s \<and> (\<forall>e. x = Inl e \<longrightarrow> C e)" by (cases x) simp_all
  then show ?thesis using that [of s] out by simp
qed

lemma gens_ok_any:
  assumes "gives (next_name (fileNameGen g) (fileNameLenGen g) (byteFileNameGen g)) elem_ok"
    and "gives (next_name (dirNameGen g) (dirNameLenGen g) (byteDirNameGen g)) elem_ok"
  shows "gens_ok (\<lambda>_. True) g"
  using assms by (auto simp: gens_ok_def file_names_ok_def dir_gens_ok_def strategy_ok_def special_ok_def
      content_gens_ok_def fails_def gives_def)

lemma planRun_in_order:
  assumes "gives (next_name (fileNameGen g) (fileNameLenGen g) (byteFileNameGen g)) elem_ok"
    and "gives (next_name (dirNameGen g) (dirNameLenGen g) (byteDirNameGen g)) elem_ok"
    and "clean_abs (basePath g)" and "planRun g r = ((plan, res), r')"
  shows "entries_ok (basePath g) (entries plan) \<and> distinct (paths (entries plan)) \<and>
    int (length (entries plan)) \<le> max 0 (planEntryLimit g)"
proof -
  obtain s where s: "plan_inv (basePath g) (planEntryLimit g) {} {} s" "plan = finish_plan s"
    using planRun_seg [OF gens_ok_any [OF assms(1,2)] assms(3,4)] by blast
  then have "entries plan = entries (snd s)" by (simp add: finish_plan_def)
  then show ?thesis
    using s(1) entries_ok_distinct [of "basePath g" "entries (snd s)"] unfolding plan_inv_def by simp
qed

text \<open>
  C2: let the name generators return only proper path elements (not empty, not a dot or two dots,
  without a slash), as every preset but the leading-dots one does; with that one a plan can leave
  the base. Then for every random source, and whether planning succeeds or stops with an error,
  the random plan of the generator can be created entry by entry: the base
  first, every other path below the base, new, and in a directory that comes earlier in the
  plan; a hard link points to an earlier file or hard link; symlinks have a target; special
  files a known type and device numbers that are not negative. There are never more entries
  than the limit.
\<close>

theorem planRun_entries:
  assumes "gives (next_name (fileNameGen g) (fileNameLenGen g) (byteFileNameGen g)) elem_ok"
    and "gives (next_name (dirNameGen g) (dirNameLenGen g) (byteDirNameGen g)) elem_ok"
    and "clean_abs (basePath g)" and "planRun g r = ((plan, res), r')"
  shows "entries_ok (basePath g) (entries plan) \<and> distinct (paths (entries plan)) \<and>
    int (length (entries plan)) \<le> max 0 (planEntryLimit g)"
  by (rule planRun_in_order [OF assms])

text \<open>
  C6: the hard link groups of such a plan are the classes of paths linked together. Each has
  one file of the plan, its origin, and otherwise hard links; no path is in two groups; every
  hard link is in the group of its target. They come sorted by origin, each with sorted paths.
\<close>

theorem planRun_groups:
  assumes "gives (next_name (fileNameGen g) (fileNameLenGen g) (byteFileNameGen g)) elem_ok"
    and "gives (next_name (dirNameGen g) (dirNameLenGen g) (byteDirNameGen g)) elem_ok"
    and "clean_abs (basePath g)" and "planRun g r = ((plan, res), r')"
  shows "groups_ok (entries plan) (planGroups plan) \<and> sorted (map hg_origin (planGroups plan)) \<and>
    list_all (\<lambda>grp. sorted (hg_paths grp)) (planGroups plan)"
proof -
  obtain s where s: "plan_inv (basePath g) (planEntryLimit g) {} {} s" "plan = finish_plan s"
    using planRun_seg [OF gens_ok_any [OF assms(1,2)] assms(3,4)] by blast
  have e: "entries plan = entries (snd s)" "planGroups plan = materializeHardlinkGroups (fst s)"
    using s(2) by (simp_all add: finish_plan_def)
  have "groups_ok (entries (snd s)) (hardlinkGroups (fst s))"
    using s(1) unfolding plan_inv_def st_ok_def by (blast intro: groups_ok_index)
  then show ?thesis unfolding e using materialize_ok by blast
qed

section \<open>A sample run\<close>

text \<open>Two directory levels; every second file slot is a hard link, a quarter are symlinks.\<close>

definition sample_bool :: "int \<Rightarrow> bool gen" where
  "sample_bool n = bindS (Intn n) (\<lambda>v. returnS (v = 0))"

definition sample_tree :: Generator where
  "sample_tree = (New ''/b'')\<lparr>
     byteDirNameGen := Some ByteNamePresetLeadingSpaces, dirNameLenGen := Some (returnS 2),
     byteFileNameGen := Some ByteNamePresetLeadingSpaces, fileNameLenGen := Some (returnS 2),
     dirModeGen := Some (returnS 448), fileModeGen := Some (returnS 384),
     pathDepthGen := Some (returnS 2), nDirsInDirGen := Some (returnS 1), nFilesInDirGen := Some (returnS 2),
     dataGen := Some (returnS [1]), symlinkProbGen := Some (sample_bool 4),
     symlinkRelProbGen := Some (sample_bool 4), hardlinkProbGen := Some (sample_bool 2),
     planEntryLimit := 20\<rparr>"

definition sample_tape :: rng where
  "sample_tape = [0, 0, 0, 0, 1, 1, 0, 1, 1, 1, 0, 0, 0, 2, 0, 0, 3, 1, 1, 0, 4, 0, 0, 5]"

lemma sample_names:
  "gives (next_name (fileNameGen sample_tree) (fileNameLenGen sample_tree) (byteFileNameGen sample_tree)) elem_ok"
  "gives (next_name (dirNameGen sample_tree) (dirNameLenGen sample_tree) (byteDirNameGen sample_tree)) elem_ok"
proof -
  have "gives (bindS (call (Some (returnS 2))) ByteNamePresetLeadingSpaces) elem_ok"
    by (rule gives_bind [OF gives_any], rule gives_mono [OF gives_legal [OF gives_LeadingSpaces]])
      (auto simp: dotdot_def)
  then show "gives (next_name (fileNameGen sample_tree) (fileNameLenGen sample_tree) (byteFileNameGen sample_tree)) elem_ok"
    "gives (next_name (dirNameGen sample_tree) (dirNameLenGen sample_tree) (byteDirNameGen sample_tree)) elem_ok"
    by (simp_all add: next_name_def sample_tree_def New_def)
qed

lemma sample_base: "clean_abs (basePath sample_tree)" by code_simp

lemma sample_paths:
  "map (\<lambda>e. (pe_path e, pe_linkTarget e)) (entries (fst (fst (planRun sample_tree sample_tape)))) =
     [(''/b'', []), (''/b/ a'', []), (''/b/ a/ b'', []), (''/b/ a/ c'', ''/b/ a/ b''), (''/b/ d'', ''/b/ a/ c''),
      (''/b/ e'', []), (''/b/ f'', '' e'')]"
  by code_simp

lemma sample_groups:
  "planGroups (fst (fst (planRun sample_tree sample_tape))) =
     [\<lparr>hg_origin = ''/b/ a/ b'', hg_paths = [''/b/ a/ b'', ''/b/ a/ c'']\<rparr>]"
  by code_simp

theorem planRun_entries_witness:
  "\<exists>plan. fst (fst (planRun sample_tree sample_tape)) = plan \<and> entries_ok ''/b'' (entries plan) \<and>
     paths (entries plan) = [''/b'', ''/b/ a'', ''/b/ a/ b'', ''/b/ a/ c'', ''/b/ d'', ''/b/ e'', ''/b/ f'']"
proof -
  obtain plan res r' where run: "planRun sample_tree sample_tape = ((plan, res), r')" by (metis prod.exhaust)
  have "basePath sample_tree = ''/b''" by (simp add: sample_tree_def New_def)
  then have "entries_ok ''/b'' (entries plan)"
    using planRun_entries [OF sample_names sample_base run] by simp
  moreover have "paths (entries plan) = map fst (map (\<lambda>e. (pe_path e, pe_linkTarget e)) (entries plan))"
    by (simp add: paths_def comp_def)
  then have "paths (entries plan) = [''/b'', ''/b/ a'', ''/b/ a/ b'', ''/b/ a/ c'', ''/b/ d'', ''/b/ e'', ''/b/ f'']"
    using sample_paths unfolding run fst_conv by (simp only: list.map fst_conv)
  ultimately show ?thesis using run by simp
qed

theorem planRun_groups_witness:
  "\<exists>plan. fst (fst (planRun sample_tree sample_tape)) = plan \<and> groups_ok (entries plan) (planGroups plan) \<and>
     planGroups plan = [\<lparr>hg_origin = ''/b/ a/ b'', hg_paths = [''/b/ a/ b'', ''/b/ a/ c'']\<rparr>]"
proof -
  obtain plan res r' where run: "planRun sample_tree sample_tape = ((plan, res), r')" by (metis prod.exhaust)
  then have "groups_ok (entries plan) (planGroups plan)"
    using planRun_groups [OF sample_names sample_base run] by simp
  then show ?thesis using sample_groups run by simp
qed

section \<open>Names that are no path elements\<close>

text \<open>
  With names from \<open>ByteNamePresetLeadingDots\<close> the premise of the theorems fails, and so does
  the conclusion: the plan for the base \<^verbatim>\<open>/x/b\<close> holds an entry for the directory \<^verbatim>\<open>/x\<close> above
  it, whose mode and metadata a run then sets.
\<close>

definition dots_tree :: Generator where
  "dots_tree = sample_tree\<lparr>basePath := ''/x/b'', byteDirNameGen := Some ByteNamePresetLeadingDots,
     nFilesInDirGen := Some (returnS 0)\<rparr>"

lemma planRun_leaves_base:
  "map (\<lambda>e. (pe_path e, pe_type e)) (entries (fst (fst (planRun dots_tree [0, 79])))) =
     [(''/x/b'', plannedEntryTypeDir), (''/x'', plannedEntryTypeDir)]"
  by code_simp

end
