(* ===== verification/Plan_Total.thy ===== *)
theory Plan_Total
  imports Plan_Spec
begin

text \<open>
  Planning is total and its errors are known: more fuel than \<open>planRun\<close> takes changes nothing
  (\<open>grows\<close> bounds the depth of the recursion by the entries appended), and a complete
  configuration whose callbacks return values in range can fail in two ways only, too many
  entries or too many name collisions; in particular no missing callback is ever called.
\<close>

section \<open>Plans only grow\<close>

definition grows :: "'a plan_op \<Rightarrow> bool" where
  "grows m \<longleftrightarrow> (\<forall>s x t. m s = (x, t) \<longrightarrow> entryLimit (fst t) = entryLimit (fst s) \<and>
     length (entries (snd s)) \<le> length (entries (snd t)) \<and>
     (int (length (entries (snd s))) \<le> max 0 (entryLimit (fst s)) \<longrightarrow>
      int (length (entries (snd t))) \<le> max 0 (entryLimit (fst s))))"

named_theorems growing

lemma growsD:
  "grows m \<Longrightarrow> m s = (x, t) \<Longrightarrow> entryLimit (fst t) = entryLimit (fst s) \<and>
     length (entries (snd s)) \<le> length (entries (snd t)) \<and>
     (int (length (entries (snd s))) \<le> max 0 (entryLimit (fst s)) \<longrightarrow>
      int (length (entries (snd t))) \<le> max 0 (entryLimit (fst s)))"
  unfolding grows_def by blast

lemma grows_bind [growing]:
  assumes m: "grows m" and f: "\<And>x. grows (f x)"
  shows "grows (bindS m f)"
  unfolding grows_def
proof (intro allI impI)
  fix s x t assume b: "bindS m f s = (x, t)"
  obtain y u where mu: "m s = (y, u)" by (meson prod.exhaust)
  note gm = growsD [OF m mu]
  show "entryLimit (fst t) = entryLimit (fst s) \<and> length (entries (snd s)) \<le> length (entries (snd t)) \<and>
     (int (length (entries (snd s))) \<le> max 0 (entryLimit (fst s)) \<longrightarrow>
      int (length (entries (snd t))) \<le> max 0 (entryLimit (fst s)))"
  proof (cases y)
    case (Inl e)
    then show ?thesis using b gm mu by (simp add: bindS_def)
  next
    case (Inr z)
    then have "f z u = (x, t)" using b mu by (simp add: bindS_def)
    from growsD [OF f this] gm show ?thesis by simp
  qed
qed

lemma grows_if [growing]: "grows m \<Longrightarrow> grows m' \<Longrightarrow> grows (if b then m else m')"
  by simp

lemma grows_case_option [growing]: "grows m \<Longrightarrow> (\<And>y. grows (f y)) \<Longrightarrow> grows (case x of None \<Rightarrow> m | Some y \<Rightarrow> f y)"
  by (cases x) simp_all

lemma grows_case_prod [growing]: "(\<And>a b. grows (f a b)) \<Longrightarrow> grows (case x of (a, b) \<Rightarrow> f a b)"
  by (cases x) simp

lemma grows_basic [growing]:
  "grows (returnS x)" "grows (raiseS e)" "grows (getS h)" "grows (liftS r)" "grows (rndS g)"
  "grows (appendEntry pe)" "grows (set_metadata i md)"
  by (auto simp: grows_def returnS_def raiseS_def getS_def liftS_def rndS_def appendEntry_def set_metadata_def
      modifyS_def split: if_splits prod.splits)

lemma grows_updS: "(\<And>st. entryLimit (f st) = entryLimit st) \<Longrightarrow> grows (updS f)"
  by (simp add: grows_def updS_def modifyS_def)

lemma grows_upds [growing]:
  "grows (updS (registerFilePath p))" "grows (updS (registerSymlinkPath p))" "grows (updS (registerHardlink t p))"
  "grows (updS (\<lambda>st. st\<lparr>lastPath := p\<rparr>))" "grows (updS (\<lambda>st. st\<lparr>used := p # used st\<rparr>))"
  "grows (updS (\<lambda>st. st\<lparr>metrics := h st\<rparr>))"
  by (rule grows_updS, simp add: registerFilePath_def registerSymlinkPath_def)+

lemma grows_unique [growing]: "grows (unique_attempts n dir m kind)"
  by (induction n) (auto simp: Let_def intro!: growing)

lemma grows_repeat [growing]: "grows m \<Longrightarrow> grows (repeatS n m)"
  by (induction n) (auto intro!: growing)

lemma grows_paths [growing]:
  "grows (planUniquePathWithByte dir a b c kind)" "grows (unique_file_path g dir kind)"
  by (auto simp: planUniquePathWithByte_def unique_file_path_def intro!: growing)

lemma grows_symlink [growing]: "grows (appendSymlink p t)" "grows (planSymlink g dir t)"
  by (auto simp: appendSymlink_def planSymlink_def intro!: growing)

lemma grows_cycle_paths [growing]: "grows (cycle_paths n g dir ps)"
  by (induction n arbitrary: ps) (auto intro!: growing)

lemma grows_link_cycle [growing]: "grows (link_cycle ps qs)"
  by (induction ps qs rule: link_cycle.induct) (auto intro!: growing)

lemma grows_strategy [growing]: "grows (planSymlinkStrategy g dir s)"
  unfolding planSymlinkStrategy_def planSymlinkCycle_def pickFilePath_def pickSymlinkPath_def
  by (cases s) (auto intro!: growing)

lemma grows_slot [growing]: "grows (plan_file_slot g dir)"
  unfolding plan_file_slot_def tryPlanSymlink_def tryPlanHardlink_def tryPlanSpecialFile_def planFile_def
    pickFilePath_def device_numbers_def file_content_def follow_symlink_def
  by (intro growing)

lemma grows_planDir [growing]: "grows (planDir n g p depth)"
proof (induction n arbitrary: p depth)
  case 0
  show ?case unfolding planDir.simps by (intro growing)
next
  case (Suc n)
  show ?case unfolding planDir.simps by (intro growing Suc.IH)
qed

section \<open>Enough fuel\<close>

lemma bindS_cong_after: "(\<And>x t. m s = (Inr x, t) \<Longrightarrow> f x t = f' x t) \<Longrightarrow> bindS m f s = bindS m f' s"
  by (auto simp: bindS_def split: prod.split sum.split)

lemma bindS_cong_first: "m s = m' s \<Longrightarrow> bindS m f s = bindS m' f s"
  by (simp add: bindS_def)

text \<open>The fuel left covers what the plan may still grow by.\<close>

definition fuel_left :: "nat \<Rightarrow> planState \<times> runPlan \<Rightarrow> bool" where
  "fuel_left n s \<longleftrightarrow> int (length (entries (snd s))) \<le> max 0 (entryLimit (fst s)) \<and>
     max 0 (entryLimit (fst s)) + 1 \<le> int (length (entries (snd s))) + int n"

lemma fuel_left_grows: "grows m \<Longrightarrow> m s = (x, t) \<Longrightarrow> fuel_left n s \<Longrightarrow> fuel_left n t"
  using growsD [of m s x t] by (simp add: fuel_left_def)

lemma fuel_left_append:
  "appendEntry e s = (Inr x, t) \<Longrightarrow> fuel_left (Suc n) s \<Longrightarrow> fuel_left n t"
  by (auto simp: appendEntry_def fuel_left_def split: if_splits)

lemma repeatS_cong:
  assumes m: "grows m" and eq: "\<And>s. fuel_left n s \<Longrightarrow> m s = m' s"
  shows "fuel_left n s \<Longrightarrow> repeatS k m s = repeatS k m' s"
proof (induction k arbitrary: s)
  case (Suc k)
  have "bindS m (\<lambda>_. repeatS k m) s = bindS m (\<lambda>_. repeatS k m') s"
    by (rule bindS_cong_after) (use fuel_left_grows [OF m] Suc in blast)
  also have "\<dots> = bindS m' (\<lambda>_. repeatS k m') s" by (rule bindS_cong_first) (rule eq [OF Suc.prems])
  finally show ?case by simp
qed simp

lemma planDir_fuel: "fuel_left n s \<Longrightarrow> planDir (n + k) g p depth s = planDir n g p depth s"
proof (induction n arbitrary: p depth s)
  case 0
  then have False unfolding fuel_left_def by linarith
  then show ?case ..
next
  case (Suc n)
  let ?sub = "\<lambda>n. bindS (planUniquePathWithByte p (dirNameGen g) (dirNameLenGen g) (byteDirNameGen g) ''directory'')
           (\<lambda>dirPath. planDir n g dirPath (depth + 1))"
  have sub: "?sub (n + k) s = ?sub n s" if s: "fuel_left n s" for s
    by (rule bindS_cong_after, rule Suc.IH, erule fuel_left_grows [OF grows_paths(1) _ s])
  have loop: "repeatS j (?sub (n + k)) s = repeatS j (?sub n) s" if "fuel_left n s" for j s
    by (rule repeatS_cong [OF _ sub that]) (intro growing)
  note keep = fuel_left_grows [OF grows_basic(5)] fuel_left_grows [OF grows_basic(3)]
    fuel_left_grows [OF grows_basic(7)]
  show ?case
    unfolding add_Suc planDir.simps
  proof (rule bindS_cong_after)
    fix maxDepth t1 assume "rndS (call (pathDepthGen g)) s = (Inr maxDepth, t1)"
    then have t1: "fuel_left (Suc n) t1" using keep(1) Suc.prems by blast
    show "(if maxDepth < depth + 1 then returnS () else bindS (rndS (call (dirModeGen g))) (\<lambda>mode.
       bindS (appendEntry ((entry0 plannedEntryTypeDir p)\<lparr>pe_mode := mode\<rparr>)) (\<lambda>_.
       bindS (getS (\<lambda>s. length (entries (snd s)) - 1)) (\<lambda>i.
       bindS (rndS (resolveMetadata g)) (\<lambda>m. bindS (set_metadata i m) (\<lambda>_.
       bindS (rndS (call (nDirsInDirGen g))) (\<lambda>nDirs. bindS (repeatS (nat nDirs) (?sub (n + k))) (\<lambda>_.
       bindS (rndS (call (nFilesInDirGen g))) (\<lambda>nFiles. repeatS (nat nFiles) (plan_file_slot g p)))))))))) t1 =
      (if maxDepth < depth + 1 then returnS () else bindS (rndS (call (dirModeGen g))) (\<lambda>mode.
       bindS (appendEntry ((entry0 plannedEntryTypeDir p)\<lparr>pe_mode := mode\<rparr>)) (\<lambda>_.
       bindS (getS (\<lambda>s. length (entries (snd s)) - 1)) (\<lambda>i.
       bindS (rndS (resolveMetadata g)) (\<lambda>m. bindS (set_metadata i m) (\<lambda>_.
       bindS (rndS (call (nDirsInDirGen g))) (\<lambda>nDirs. bindS (repeatS (nat nDirs) (?sub n)) (\<lambda>_.
       bindS (rndS (call (nFilesInDirGen g))) (\<lambda>nFiles. repeatS (nat nFiles) (plan_file_slot g p)))))))))) t1"
    proof (cases "maxDepth < depth + 1")
      case False
      show ?thesis
        unfolding if_not_P [OF False]
        by (rule bindS_cong_after, drule keep(1) [OF _ t1], rule bindS_cong_after, drule (1) fuel_left_append,
            rule bindS_cong_after, drule (1) keep(2), rule bindS_cong_after, drule (1) keep(1),
            rule bindS_cong_after, drule (1) keep(3), rule bindS_cong_after, drule (1) keep(1),
            rule bindS_cong_first, erule loop)
    qed simp
  qed
qed

text \<open>
  C7: planning terminates within the depth \<open>planRun\<close> allows: with any larger bound on the
  recursion into directories the plan, the result and the state of the random source are the
  same, for every generator, every source and every entry limit.
\<close>

theorem planRun_fuel: "planRun_with (nat (planEntryLimit g) + 1 + k) g r = planRun g r"
proof -
  have "fuel_left (nat (planEntryLimit g) + 1) (start_state g r)"
    by (simp add: fuel_left_def start_state_def)
  from planDir_fuel [OF this] show ?thesis by (simp only: planRun_def planRun_with_def)
qed

section \<open>Callbacks that return\<close>

lemma fails_bind:
  "fails m C \<Longrightarrow> gives m R \<Longrightarrow> (\<And>x. R x \<Longrightarrow> fails (f x) C) \<Longrightarrow> fails (bindS m f) C"
  unfolding fails_def gives_def bindS_eq_Inl by blast

lemma fails_bind0: "fails m C \<Longrightarrow> (\<And>x. fails (f x) C) \<Longrightarrow> fails (bindS m f) C"
  by (rule fails_bind [OF _ gives_any])

lemma fails_return: "fails (returnS x) C"
  by (simp add: fails_def returnS_def)

lemma fails_if: "(b \<Longrightarrow> fails m C) \<Longrightarrow> (\<not> b \<Longrightarrow> fails m' C) \<Longrightarrow> fails (if b then m else m') C"
  by simp

lemma fails_mono: "fails m C \<Longrightarrow> (\<And>e. C e \<Longrightarrow> C' e) \<Longrightarrow> fails m C'"
  unfolding fails_def by blast

lemma fails_wrap: "fails m (\<lambda>_. False) \<Longrightarrow> fails (wrapS msg m) C"
  by (auto simp: fails_def wrapS_eq_Inl)

lemma fails_lift: "is_ok r \<Longrightarrow> fails (liftS r) C"
  by (auto simp: fails_def liftS_def is_ok_iff)

lemma fails_Intn: "0 < n \<Longrightarrow> fails (Intn n) C"
  by (auto simp: fails_def Intn_def split: prod.splits)

lemma fails_draws: "fails int63 C" "fails (read_bytes n) C"
  by (simp_all add: fails_def int63_def read_bytes_def split: prod.split)

lemma fails_segment: "fails (randomizedSegmentLength sz) C"
  unfolding randomizedSegmentLength_def Let_def defaultPatternSegmentMaxLength_def
  by (rule fails_if, rule fails_return, rule fails_bind0 [OF fails_Intn fails_return]) auto

lemma fails_offset: "1 \<le> len \<Longrightarrow> len \<le> sz \<Longrightarrow> sz < 2 ^ 63 \<Longrightarrow> fails (randomizedOffset sz len) C"
  unfolding randomizedOffset_def Let_def
  by (auto intro!: fails_return fails_Intn simp: int64_range_def)

lemma fails_updates: "0 < sz \<Longrightarrow> sz < 2 ^ 63 \<Longrightarrow> fails (plan_updates n sz us w) C"
proof (induction n arbitrary: us w)
  case (Suc n)
  show ?case
    unfolding plan_updates.simps
    by (rule fails_bind [OF fails_segment gives_segment [OF Suc.prems(1)]], rule fails_bind0 [OF fails_offset],
        simp, simp, rule Suc.prems(2), rule fails_bind0 [OF fails_draws(1)], rule Suc.IH [OF Suc.prems])
qed (simp add: fails_return)

text \<open>A callback that is missing, or returns a value in \<open>R\<close> on every source.\<close>

definition callback :: "'a gen option \<Rightarrow> ('a \<Rightarrow> bool) \<Rightarrow> bool" where
  "callback f R \<longleftrightarrow> (case f of None \<Rightarrow> True | Some m \<Rightarrow> fails m (\<lambda>_. False) \<and> gives m R)"

definition name_callback :: "StringGenerator option \<Rightarrow> NumberGenerator option \<Rightarrow> StringGenerator option \<Rightarrow> bool" where
  "name_callback nameGen lenGen byteGen \<longleftrightarrow>
     (nameGen = None \<and> byteGen = None \<or> lenGen = None \<or>
      fails (next_name nameGen lenGen byteGen) (\<lambda>_. False)) \<and>
     gives (next_name nameGen lenGen byteGen) elem_ok"

definition content_callbacks :: "Generator \<Rightarrow> bool" where
  "content_callbacks g \<longleftrightarrow>
     callback (contentPatternGen g) (\<lambda>p. is_ok (validateContentPattern p)) \<and>
     callback (contentLogicalSizeGen g) (\<lambda>n. 0 \<le> n \<and> n < 2 ^ 63) \<and>
     callback (dataGen g) (\<lambda>b. contentPatternGen g \<noteq> None \<longrightarrow> b \<noteq> [])"

definition metadata_callbacks :: "Generator \<Rightarrow> bool" where
  "metadata_callbacks g \<longleftrightarrow>
     callback (ownershipUIDGen g) (\<lambda>_. True) \<and> callback (ownershipGIDGen g) (\<lambda>_. True) \<and>
     callback (atimeGen g) (\<lambda>_. True) \<and> callback (mtimeGen g) (\<lambda>_. True) \<and>
     list_all (\<lambda>cfg. callback (xc_valueGen cfg) (\<lambda>_. True)) (xattrValueGens g) \<and>
     callback (aclEntriesGen g) (list_all (\<lambda>x. acl_text_ok (TrimSpace x)))"

definition entry_callbacks :: "Generator \<Rightarrow> bool" where
  "entry_callbacks g \<longleftrightarrow>
     callback (pathDepthGen g) (\<lambda>_. True) \<and> callback (dirModeGen g) (\<lambda>_. True) \<and> callback (fileModeGen g) (\<lambda>_. True) \<and>
     callback (nDirsInDirGen g) (\<lambda>_. True) \<and> callback (nFilesInDirGen g) (\<lambda>_. True) \<and>
     callback (symlinkProbGen g) (\<lambda>_. True) \<and> callback (symlinkRelProbGen g) (\<lambda>_. True) \<and>
     callback (hardlinkProbGen g) (\<lambda>_. True) \<and> callback (specialFileProbGen g) (\<lambda>_. True) \<and>
     callback (symlinkStrategyGen g) (\<lambda>s. is_ok (validateSymlinkStrategy s)) \<and>
     callback (specialFileTypeGen g) (\<lambda>t. is_ok (validateSpecialFileType t) \<and>
       (isSpecialDeviceType t \<longrightarrow> specialDeviceMajorGen g \<noteq> None)) \<and>
     callback (specialDeviceMajorGen g) (\<lambda>v. 0 \<le> v) \<and> callback (specialDeviceMinorGen g) (\<lambda>v. 0 \<le> v)"

definition callbacks_ok :: "Generator \<Rightarrow> bool" where
  "callbacks_ok g \<longleftrightarrow>
     name_callback (fileNameGen g) (fileNameLenGen g) (byteFileNameGen g) \<and>
     name_callback (dirNameGen g) (dirNameLenGen g) (byteDirNameGen g) \<and>
     content_callbacks g \<and> metadata_callbacks g \<and> entry_callbacks g"

lemma callback_call: "callback f R \<Longrightarrow> f \<noteq> None \<Longrightarrow> fails (call f) C \<and> gives (call f) R"
  by (auto simp: callback_def call_def fails_def)

lemma callback_fails: "callback f R \<Longrightarrow> f \<noteq> None \<Longrightarrow> fails (call f) C"
  using callback_call by blast

lemma callback_gives: "callback f R \<Longrightarrow> gives (call f) R"
  by (cases f) (auto simp: callback_def call_def gives_raise)

lemma fails_content:
  assumes g: "content_callbacks g" and c: "contentPatternGen g \<noteq> None" "contentLogicalSizeGen g \<noteq> None"
  shows "fails (planFileContentPattern g) (\<lambda>_. False)"
proof -
  let ?F = "\<lambda>_. False"
  have cb: "callback (contentPatternGen g) (\<lambda>p. is_ok (validateContentPattern p))"
    "callback (contentLogicalSizeGen g) (\<lambda>n. 0 \<le> n \<and> n < 2 ^ 63)" "callback (dataGen g) (\<lambda>b. b \<noteq> [])"
    using g c by (auto simp: content_callbacks_def)
  have block: "fails (resolveRepeatedBlock g n) ?F" for n
    unfolding resolveRepeatedBlock_def Let_def
  proof (rule fails_bind [where R = "\<lambda>b. b \<noteq> []"])
    show "fails (case dataGen g of Some m \<Rightarrow> wrapS ''failed to generate repeated block data'' m
        | None \<Rightarrow> read_bytes (if (if 0 < n \<and> n < int defaultContentWriteChunkSize then nat n else defaultContentWriteChunkSize) = 0 then 1
            else if 0 < n \<and> n < int defaultContentWriteChunkSize then nat n else defaultContentWriteChunkSize)) ?F"
      using cb(3) by (cases "dataGen g") (auto simp: callback_def intro: fails_draws fails_wrap)
    show "gives (case dataGen g of Some m \<Rightarrow> wrapS ''failed to generate repeated block data'' m
        | None \<Rightarrow> read_bytes (if (if 0 < n \<and> n < int defaultContentWriteChunkSize then nat n else defaultContentWriteChunkSize) = 0 then 1
            else if 0 < n \<and> n < int defaultContentWriteChunkSize then nat n else defaultContentWriteChunkSize)) (\<lambda>b. b \<noteq> [])"
      using cb(3) by (cases "dataGen g")
        (auto simp: callback_def intro: gives_wrap gives_mono [OF gives_read] split: if_splits)
  qed (simp add: fails_return)
  have sparse: "fails (plan_sparse c) ?F" if "0 \<le> pc_logicalSize c" "pc_logicalSize c < 2 ^ 63" for c
    unfolding plan_sparse_def Let_def
  proof (rule fails_if, rule fails_return, rule fails_bind [OF fails_bind0 [OF fails_segment fails_return]])
    assume "pc_logicalSize c \<noteq> 0"
    then have n: "0 < pc_logicalSize c" using that by simp
    show "gives (bindS (randomizedSegmentLength (pc_logicalSize c)) (\<lambda>len. returnS
       (if 1 < pc_logicalSize c \<and> pc_logicalSize c \<le> len then pc_logicalSize c - 1 else len))) (\<lambda>len. 1 \<le> len \<and> len \<le> pc_logicalSize c)"
      by (rule gives_bind [OF gives_segment [OF n]], rule gives_return) (use n in auto)
    show "fails (bindS (randomizedOffset (pc_logicalSize c) len) (\<lambda>off. bindS int63 (\<lambda>seed. returnS
        (c\<lparr>pc_sparseExtents := [\<lparr>rg_offset = off, rg_length = len, rg_seed = seed\<rparr>],
          pc_expectedWrittenBytes := len, pc_expectedSparse := len < pc_logicalSize c\<rparr>)))) ?F"
      if "1 \<le> len \<and> len \<le> pc_logicalSize c" for len
      by (rule fails_bind0 [OF fails_offset]) (use that \<open>pc_logicalSize c < 2 ^ 63\<close> in
        \<open>auto intro: fails_bind0 fails_draws fails_return\<close>)
  qed
  have partial: "fails (plan_partial c) ?F" if "0 \<le> pc_logicalSize c" "pc_logicalSize c < 2 ^ 63" for c
    unfolding plan_partial_def Let_def
    by (rule fails_bind0 [OF fails_draws(1)], rule fails_if, rule fails_return, rule fails_bind0 [OF fails_updates])
      (use that in \<open>auto intro: fails_return\<close>)
  show ?thesis
    unfolding planFileContentPattern_def Let_def
  proof (rule fails_bind [OF callback_fails [OF cb(1) c(1)] callback_gives [OF cb(1)]], rule fails_bind0 [OF fails_lift],
      assumption, rule fails_bind [OF callback_fails [OF cb(2) c(2)] callback_gives [OF cb(2)]])
    fix pat and u :: unit and n :: int assume p: "is_ok (validateContentPattern pat)" and n: "0 \<le> n \<and> n < 2 ^ 63"
    let ?c = "content0\<lparr>pc_pattern := pat, pc_logicalSize := n\<rparr>"
    have "fails (case pat of ContentPatternDenseRandom \<Rightarrow> plan_dense ?c | ContentPatternSparseHoles \<Rightarrow> plan_sparse ?c
        | ContentPatternRepeatedBlocks \<Rightarrow> plan_repeated g ?c | ContentPatternPartialRangeOverwrite \<Rightarrow> plan_partial ?c
        | ContentPatternUnknown k \<Rightarrow> raiseS (Errorf ''unsupported content pattern'' None)) ?F"
      using p n by (cases pat) (auto simp: plan_dense_def plan_repeated_def validateContentPattern_def
          intro: sparse partial fails_bind0 fails_draws fails_return block)
    then show "fails (if n < 0 then raiseS (Errorf ''content logical size must be >= 0'' None)
       else case pat of ContentPatternDenseRandom \<Rightarrow> plan_dense ?c | ContentPatternSparseHoles \<Rightarrow> plan_sparse ?c
        | ContentPatternRepeatedBlocks \<Rightarrow> plan_repeated g ?c | ContentPatternPartialRangeOverwrite \<Rightarrow> plan_partial ?c
        | ContentPatternUnknown k \<Rightarrow> raiseS (Errorf ''unsupported content pattern'' None)) ?F"
      using n by simp
  qed
qed

lemma normalizeACLEntries_ok:
  assumes "list_all (\<lambda>x. acl_text_ok (TrimSpace x)) es"
  shows "is_ok (normalizeACLEntries es)"
proof -
  have "normalize_acl_entry k (es ! k) = Inr (TrimSpace (es ! k))" if "k < length es" for k
    using assms that unfolding normalize_acl_entry_Inr list_all_length by blast
  then have "mapE_from 0 normalize_acl_entry es = Inr (map TrimSpace es)"
    unfolding mapE_from_eq_Inr by simp
  then show ?thesis by (simp add: normalizeACLEntries_def)
qed

lemma fails_xattrs:
  "list_all (\<lambda>cfg. callback (xc_valueGen cfg) (\<lambda>_. True) \<and> xc_valueGen cfg \<noteq> None) cfgs \<Longrightarrow>
     fails (resolve_xattrs cfgs xs) C"
proof (induction cfgs arbitrary: xs)
  case (Cons cfg cfgs)
  then have "fails (wrapS ''failed to generate xattr value'' (call (xc_valueGen cfg))) C"
    by (intro fails_wrap callback_fails) auto
  then show ?case unfolding resolve_xattrs.simps by (rule fails_bind0) (use Cons in simp)
qed (simp add: fails_return)

lemma fails_metadata:
  assumes g: "metadata_callbacks g" and x: "list_all (\<lambda>cfg. xc_valueGen cfg \<noteq> None) (xattrValueGens g)"
  shows "fails (resolveMetadata g) C"
proof -
  have cb: "callback (ownershipUIDGen g) (\<lambda>_. True)" "callback (ownershipGIDGen g) (\<lambda>_. True)"
    "callback (atimeGen g) (\<lambda>_. True)" "callback (mtimeGen g) (\<lambda>_. True)"
    "callback (aclEntriesGen g) (list_all (\<lambda>x. acl_text_ok (TrimSpace x)))"
    and xs: "list_all (\<lambda>cfg. callback (xc_valueGen cfg) (\<lambda>_. True) \<and> xc_valueGen cfg \<noteq> None) (xattrValueGens g)"
    using g x by (auto simp: metadata_callbacks_def list_all_iff)
  show ?thesis
    unfolding resolveMetadata_def
  proof (rule fails_bind0)
    show "fails (if ownershipUIDGen g \<noteq> None \<and> ownershipGIDGen g \<noteq> None then bindS (call (ownershipUIDGen g)) (\<lambda>uid.
        bindS (call (ownershipGIDGen g)) (\<lambda>gid. returnS (metadata0\<lparr>hasOwnership := True, md_uid := uid, md_gid := gid\<rparr>)))
        else returnS metadata0) C"
      by (rule fails_if) (auto intro!: fails_bind0 fails_return callback_fails [OF cb(1)] callback_fails [OF cb(2)])
    fix m
    show "fails (bindS (if atimeGen g \<noteq> None \<and> mtimeGen g \<noteq> None then bindS (call (atimeGen g)) (\<lambda>atime.
        bindS (call (mtimeGen g)) (\<lambda>mtime. returnS (m\<lparr>hasTimestamps := True, md_atime := atime, md_mtime := mtime\<rparr>)))
        else returnS m) (\<lambda>m. bindS (if 0 < length (xattrValueGens g) then bindS (resolve_xattrs (xattrValueGens g) []) (\<lambda>xs.
          returnS (m\<lparr>hasXAttrs := True, md_xattrs := xs\<rparr>)) else returnS m) (\<lambda>m. case aclEntriesGen g of None \<Rightarrow> returnS m
          | Some a \<Rightarrow> bindS (wrapS ''failed to generate ACL entries'' a) (\<lambda>entries. bindS (liftS (normalizeACLEntries entries))
             (\<lambda>normalized. returnS (m\<lparr>hasACL := True, aclEntries := normalized\<rparr>)))))) C"
    proof (rule fails_bind0)
      show "fails (if atimeGen g \<noteq> None \<and> mtimeGen g \<noteq> None then bindS (call (atimeGen g)) (\<lambda>atime.
        bindS (call (mtimeGen g)) (\<lambda>mtime. returnS (m\<lparr>hasTimestamps := True, md_atime := atime, md_mtime := mtime\<rparr>)))
        else returnS m) C"
        by (rule fails_if) (auto intro!: fails_bind0 fails_return callback_fails [OF cb(3)] callback_fails [OF cb(4)])
      fix m
      have acl: "fails (case aclEntriesGen g of None \<Rightarrow> returnS m
          | Some a \<Rightarrow> bindS (wrapS ''failed to generate ACL entries'' a) (\<lambda>entries. bindS (liftS (normalizeACLEntries entries))
             (\<lambda>normalized. returnS (m\<lparr>hasACL := True, aclEntries := normalized\<rparr>)))) C" for m
      proof (cases "aclEntriesGen g")
        case (Some a)
        then have a: "fails a (\<lambda>_. False)" "gives a (list_all (\<lambda>x. acl_text_ok (TrimSpace x)))"
          using cb(5) by (simp_all add: callback_def)
        show ?thesis unfolding Some option.case
          by (rule fails_bind [OF fails_wrap [OF a(1)] gives_wrap [OF a(2)]],
              rule fails_bind0 [OF fails_lift fails_return], rule normalizeACLEntries_ok)
      qed (simp add: fails_return)
      show "fails (bindS (if 0 < length (xattrValueGens g) then bindS (resolve_xattrs (xattrValueGens g) []) (\<lambda>xs.
          returnS (m\<lparr>hasXAttrs := True, md_xattrs := xs\<rparr>)) else returnS m) (\<lambda>m. case aclEntriesGen g of None \<Rightarrow> returnS m
          | Some a \<Rightarrow> bindS (wrapS ''failed to generate ACL entries'' a) (\<lambda>entries. bindS (liftS (normalizeACLEntries entries))
             (\<lambda>normalized. returnS (m\<lparr>hasACL := True, aclEntries := normalized\<rparr>))))) C"
        by (rule fails_bind0 [OF _ acl], rule fails_if, rule fails_bind0 [OF fails_xattrs [OF xs] fails_return], rule fails_return)
    qed
  qed
qed

lemma validate_xattr_configs_values:
  "is_ok (validate_xattr_configs g cfgs seen) \<Longrightarrow> list_all (\<lambda>cfg. xc_valueGen cfg \<noteq> None) cfgs"
  by (induction g cfgs seen rule: validate_xattr_configs.induct) (auto split: if_splits simp: Let_def)

text \<open>What a complete configuration has.\<close>

lemma complete_configuration:
  assumes "validateRunConfiguration g = Inr ()"
  shows "dirNameGen g \<noteq> None \<or> byteDirNameGen g \<noteq> None" "dirNameLenGen g \<noteq> None" "dirModeGen g \<noteq> None"
    "nFilesInDirGen g \<noteq> None" "nDirsInDirGen g \<noteq> None" "fileNameGen g \<noteq> None \<or> byteFileNameGen g \<noteq> None"
    "fileNameLenGen g \<noteq> None" "fileModeGen g \<noteq> None" "dataGen g \<noteq> None \<or> contentPatternGen g \<noteq> None"
    "(contentPatternGen g = None) = (contentLogicalSizeGen g = None)" "pathDepthGen g \<noteq> None"
    "symlinkProbGen g \<noteq> None" "(specialFileProbGen g = None) = (specialFileTypeGen g = None)"
    "(specialDeviceMajorGen g = None) = (specialDeviceMinorGen g = None)"
    "list_all (\<lambda>cfg. xc_valueGen cfg \<noteq> None) (xattrValueGens g)"
proof -
  have "missing_parts g = []" using assms by (simp add: validateRunConfiguration_def split: if_splits)
  then have m: "\<not> (dirNameGen g = None \<and> byteDirNameGen g = None)" "dirNameLenGen g \<noteq> None" "dirModeGen g \<noteq> None"
    "nFilesInDirGen g \<noteq> None" "nDirsInDirGen g \<noteq> None" "\<not> (fileNameGen g = None \<and> byteFileNameGen g = None)"
    "fileNameLenGen g \<noteq> None" "fileModeGen g \<noteq> None" "\<not> (dataGen g = None \<and> contentPatternGen g = None)"
    "\<not> ((contentPatternGen g = None) \<noteq> (contentLogicalSizeGen g = None))" "pathDepthGen g \<noteq> None"
    "symlinkProbGen g \<noteq> None" "\<not> ((specialFileProbGen g = None) \<noteq> (specialFileTypeGen g = None))"
    "\<not> ((specialDeviceMajorGen g = None) \<noteq> (specialDeviceMinorGen g = None))"
    "is_ok (validateXAttrConfiguration g)"
    unfolding missing_parts_def by (simp_all split: if_split_asm)
  show "dirNameGen g \<noteq> None \<or> byteDirNameGen g \<noteq> None" "dirNameLenGen g \<noteq> None" "dirModeGen g \<noteq> None"
    "nFilesInDirGen g \<noteq> None" "nDirsInDirGen g \<noteq> None" "fileNameGen g \<noteq> None \<or> byteFileNameGen g \<noteq> None"
    "fileNameLenGen g \<noteq> None" "fileModeGen g \<noteq> None" "dataGen g \<noteq> None \<or> contentPatternGen g \<noteq> None"
    "(contentPatternGen g = None) = (contentLogicalSizeGen g = None)" "pathDepthGen g \<noteq> None"
    "symlinkProbGen g \<noteq> None" "(specialFileProbGen g = None) = (specialFileTypeGen g = None)"
    "(specialDeviceMajorGen g = None) = (specialDeviceMinorGen g = None)"
    using m by auto
  show "list_all (\<lambda>cfg. xc_valueGen cfg \<noteq> None) (xattrValueGens g)"
    using m(15) validate_xattr_configs_values by (simp add: validateXAttrConfiguration_def)
qed

definition planning_error :: "err \<Rightarrow> bool" where
  "planning_error e \<longleftrightarrow> errors_Is e ErrPlanEntryLimitExceeded \<or> errors_Is e ErrPlanPathCollisionExhausted"

lemma fails_default: "callback f R \<Longrightarrow> fails (case f of None \<Rightarrow> returnS d | Some m \<Rightarrow> m) C"
  by (cases f) (auto simp: callback_def returnS_def fails_def)

lemma gens_ok_callbacks:
  assumes v: "validateRunConfiguration g = Inr ()" and cb: "callbacks_ok g"
  shows "gens_ok planning_error g"
proof -
  note c = complete_configuration [OF v]
  have names: "fails (next_name (fileNameGen g) (fileNameLenGen g) (byteFileNameGen g)) planning_error"
    "fails (next_name (dirNameGen g) (dirNameLenGen g) (byteDirNameGen g)) planning_error"
    "gives (next_name (fileNameGen g) (fileNameLenGen g) (byteFileNameGen g)) elem_ok"
    "gives (next_name (dirNameGen g) (dirNameLenGen g) (byteDirNameGen g)) elem_ok"
    using cb c(1,2,6,7) fails_mono [of _ "\<lambda>_. False" planning_error]
    by (auto simp: callbacks_ok_def name_callback_def)
  have cg: "content_callbacks g" and mg: "metadata_callbacks g"
    using cb by (simp_all add: callbacks_ok_def)
  have e: "callback (pathDepthGen g) (\<lambda>_. True)" "callback (dirModeGen g) (\<lambda>_. True)" "callback (fileModeGen g) (\<lambda>_. True)"
    "callback (nDirsInDirGen g) (\<lambda>_. True)" "callback (nFilesInDirGen g) (\<lambda>_. True)"
    "callback (symlinkProbGen g) (\<lambda>_. True)" "callback (symlinkRelProbGen g) (\<lambda>_. True)"
    "callback (hardlinkProbGen g) (\<lambda>_. True)" "callback (specialFileProbGen g) (\<lambda>_. True)"
    "callback (symlinkStrategyGen g) (\<lambda>s. is_ok (validateSymlinkStrategy s))"
    "callback (specialFileTypeGen g) (\<lambda>t. is_ok (validateSpecialFileType t) \<and>
       (isSpecialDeviceType t \<longrightarrow> specialDeviceMajorGen g \<noteq> None))"
    "callback (specialDeviceMajorGen g) (\<lambda>v. 0 \<le> v)" "callback (specialDeviceMinorGen g) (\<lambda>v. 0 \<le> v)"
    using cb unfolding callbacks_ok_def entry_callbacks_def by blast+
  have "file_names_ok planning_error g"
    using names by (simp add: file_names_ok_def planning_error_def)
  moreover have "dir_gens_ok planning_error g"
    unfolding dir_gens_ok_def
    using names callback_fails [OF e(1) c(11)] callback_fails [OF e(2) c(3)] callback_fails [OF e(4) c(5)]
      callback_fails [OF e(5) c(4)] by blast
  moreover have "strategy_ok planning_error g"
  proof (cases "symlinkStrategyGen g")
    case None
    then show ?thesis using callback_fails [OF e(6) c(12)] by (simp add: strategy_ok_def hasExplicitSymlinkStrategy_def)
  next
    case (Some m)
    then have "fails m (\<lambda>_. False)" "gives m (\<lambda>s. is_ok (validateSymlinkStrategy s))"
      using e(10) by (simp_all add: callback_def)
    then show ?thesis using Some callback_fails [OF e(6) c(12)]
      by (auto simp: strategy_ok_def nextSymlinkStrategy_def elim: fails_mono gives_mono)
  qed
  moreover have "fails (shouldPlanHardlink g) planning_error"
    unfolding shouldPlanHardlink_def by (rule fails_default [OF e(8)])
  moreover have "special_ok planning_error g"
    unfolding special_ok_def
  proof (intro conjI impI)
    show "fails (shouldPlanSpecialFile g) planning_error"
      unfolding shouldPlanSpecialFile_def by (rule fails_default [OF e(9)])
    show "fails (call (fileModeGen g)) planning_error" by (rule callback_fails [OF e(3) c(8)])
    assume "specialFileProbGen g \<noteq> None"
    then obtain m where m: "specialFileTypeGen g = Some m" using c(13) by auto
    then have "fails m (\<lambda>_. False)" "gives m (\<lambda>t. is_ok (validateSpecialFileType t) \<and>
       (isSpecialDeviceType t \<longrightarrow> specialDeviceMajorGen g \<noteq> None))"
      using e(11) by (simp_all add: callback_def)
    then show "fails (nextSpecialFileType g) planning_error"
      "gives (nextSpecialFileType g) (\<lambda>x. is_ok (validateSpecialFileType x) \<and>
        (isSpecialDeviceType x \<longrightarrow> specialDeviceMajorGen g \<noteq> None \<and> specialDeviceMinorGen g \<noteq> None) \<or>
        (\<forall>e. planning_error e))"
      using m c(14) by (auto simp: nextSpecialFileType_def elim: fails_mono gives_mono)
  next
    assume d: "specialDeviceMajorGen g \<noteq> None \<and> specialDeviceMinorGen g \<noteq> None"
    show "fails (call (specialDeviceMajorGen g)) planning_error" "fails (call (specialDeviceMinorGen g)) planning_error"
      using d by (auto intro: callback_fails [OF e(12)] callback_fails [OF e(13)])
    show "gives (call (specialDeviceMajorGen g)) (\<lambda>x. 0 \<le> x \<or> (\<forall>e. planning_error e))"
      "gives (call (specialDeviceMinorGen g)) (\<lambda>x. 0 \<le> x \<or> (\<forall>e. planning_error e))"
      using callback_gives [OF e(12)] callback_gives [OF e(13)] by (auto elim: gives_mono)
  qed
  moreover have "content_gens_ok planning_error g"
    unfolding content_gens_ok_def
  proof (intro conjI)
    show "fails (resolveMetadata g) planning_error" by (rule fails_metadata [OF mg c(15)])
    show "fails (case symlinkRelProbGen g of None \<Rightarrow> returnS False | Some m \<Rightarrow> m) planning_error"
      by (rule fails_default [OF e(7)])
    show "if hasContentPatternConfiguration g
      then fails (wrapS ''failed to generate file content pattern'' (planFileContentPattern g)) planning_error
      else fails (wrapS ''failed to generate file data'' (call (dataGen g))) planning_error"
    proof (cases "hasContentPatternConfiguration g")
      case True
      then show ?thesis using fails_wrap [OF fails_content [OF cg]] by (simp add: hasContentPatternConfiguration_def)
    next
      case False
      then have "dataGen g \<noteq> None" using c(9,10) by (auto simp: hasContentPatternConfiguration_def)
      moreover have "callback (dataGen g) (\<lambda>b. contentPatternGen g \<noteq> None \<longrightarrow> b \<noteq> [])"
        using cg by (simp add: content_callbacks_def)
      ultimately show ?thesis using False fails_wrap [OF callback_fails] by simp
    qed
  qed
  ultimately show ?thesis by (simp add: gens_ok_def)
qed

text \<open>
  C5: a configuration \<open>validateRunConfiguration\<close> accepts is complete: when each callback that is
  set returns a value in its range, planning can only fail with too many entries or with
  exhausted name collisions. It never calls a callback that is not set, never runs into an
  invalid symlink strategy, file type or device number, and every relative link exists.
\<close>

theorem planRun_errors:
  assumes "validateRunConfiguration g = Inr ()" and "callbacks_ok g" and "clean_abs (basePath g)"
    and "planRun g r = ((plan, Inl e), r')"
  shows "errors_Is e ErrPlanEntryLimitExceeded \<or> errors_Is e ErrPlanPathCollisionExhausted"
  using planRun_seg [OF gens_ok_callbacks [OF assms(1,2)] assms(3,4)] unfolding planning_error_def by blast

section \<open>A sample run that stops\<close>

definition small_tree :: Generator where
  "small_tree = sample_tree\<lparr>planEntryLimit := 2\<rparr>"

lemma fails_repeat: "fails m C \<Longrightarrow> fails (repeat_gen n m) C"
  by (induction n) (auto intro!: fails_return fails_bind0)

lemma fails_LeadingSpaces: "fails (ByteNamePresetLeadingSpaces n) C"
proof -
  have "0 < minInt (at_least_2 n - 1) 5" using at_least_2_ge [of n] by (simp add: minInt_def)
  moreover have "fails (edge_fill k) C" for k
    unfolding edge_fill_def by (rule fails_repeat, rule fails_pick) (simp add: ByteNameAlphabetEdgeCase_def)
  ultimately show ?thesis
    unfolding ByteNamePresetLeadingSpaces_def Let_def by (intro fails_bind0 fails_Intn fails_return)
qed

lemma small_tree_callbacks: "callbacks_ok small_tree"
proof -
  have names: "next_name (fileNameGen small_tree) (fileNameLenGen small_tree) (byteFileNameGen small_tree) =
      next_name (fileNameGen sample_tree) (fileNameLenGen sample_tree) (byteFileNameGen sample_tree)"
    "next_name (dirNameGen small_tree) (dirNameLenGen small_tree) (byteDirNameGen small_tree) =
      next_name (dirNameGen sample_tree) (dirNameLenGen sample_tree) (byteDirNameGen sample_tree)"
    by (simp_all add: small_tree_def)
  have n: "fails (next_name nm (Some (returnS k)) (Some ByteNamePresetLeadingSpaces)) C" for nm k C
    by (simp add: next_name_def call_def fails_LeadingSpaces)
  have c: "callback (Some (returnS x)) R" if "R x" for x :: 'a and R
    using that by (auto simp: callback_def fails_return gives_return)
  have b: "callback (Some (sample_bool k)) (\<lambda>_. True)" if "0 < k" for k
    unfolding callback_def sample_bool_def option.case
    by (intro conjI gives_any fails_bind0 fails_Intn fails_return that)
  show ?thesis
    unfolding callbacks_ok_def name_callback_def names
    using sample_names n
    by (simp add: content_callbacks_def metadata_callbacks_def entry_callbacks_def small_tree_def sample_tree_def New_def
        callback_def [of None] b) (simp add: callback_def fails_return gives_return)
qed

lemma small_tree_stops: "is_ok (snd (fst (planRun small_tree sample_tape))) = False" by code_simp

theorem planRun_errors_witness:
  "\<exists>e. snd (fst (planRun small_tree sample_tape)) = Inl e \<and>
     (errors_Is e ErrPlanEntryLimitExceeded \<or> errors_Is e ErrPlanPathCollisionExhausted)"
proof -
  have v: "validateRunConfiguration small_tree = Inr ()" by code_simp
  have b: "clean_abs (basePath small_tree)" by code_simp
  obtain plan res r' where run: "planRun small_tree sample_tape = ((plan, res), r')" by (metis prod.exhaust)
  with small_tree_stops obtain e where e: "res = Inl e" by (cases res) auto
  show ?thesis using planRun_errors [OF v small_tree_callbacks b run [unfolded e]] run e by simp
qed

end
