(* ===== verification/Go_FS.thy ===== *)
theory Go_FS
  imports Go_Path "HOL-Library.AList"
begin

text \<open>
  The file system behind the \<^verbatim>\<open>os\<close> and \<^verbatim>\<open>unix\<close> calls of the appliers, as Linux has it: directory
  entries name inodes, so hard links share a file, and a path is looked up component by
  component, following symbolic links. Each call of the standard library the code makes is one
  definition; its error is the \<^verbatim>\<open>errno\<close> in the chain of the returned error.

  What a real system may refuse beyond these rules (permissions, quotas, length limits, missing
  support) is the field \<open>refuses\<close> of the kernel: a function of the state of the file system, the
  call and the path. A theorem about every kernel holds for every such system. A refused call
  changes nothing. Of the times of an inode the state holds the pair that was set explicitly, until a
  write or a change of the directory replaces the modification time; reads, which may move the
  access time, leave it. Device numbers beyond their value, set-group-ID inheritance, what the kernel
  derives from an ACL attribute and the mode bits it clears on writes are left out.
\<close>

section \<open>State\<close>

datatype specialNode = NodeFifo | NodeSocket | NodeChar nat | NodeBlock nat

datatype fnode = NFile "8 word list" | NDir | NLink string | NSpecial specialNode

record inode =
  node :: fnode
  imode :: "32 word"
  iuid :: int
  igid :: int
  ixattrs :: "(string \<times> 8 word list) list"

text \<open>A directory entry is known by the elements of its absolute path; \<open>[]\<close> is the root.\<close>

record fsys =
  ents :: "(string list \<times> nat) list"
  inos :: "nat \<Rightarrow> inode"
  nextino :: nat
  stamps :: "nat \<Rightarrow> (int \<times> int) option"

type_synonym errno = sentinel

record kernel =
  cwd :: "string list"
  umask :: "32 word"
  kuid :: int
  kgid :: int
  refuses :: "fsys \<Rightarrow> string \<Rightarrow> string list \<Rightarrow> errno option"

abbreviation ENOENT :: errno where "ENOENT \<equiv> ''ENOENT''"
abbreviation ENOTDIR :: errno where "ENOTDIR \<equiv> ''ENOTDIR''"
abbreviation EEXIST :: errno where "EEXIST \<equiv> ''EEXIST''"
abbreviation EISDIR :: errno where "EISDIR \<equiv> ''EISDIR''"
abbreviation ELOOP :: errno where "ELOOP \<equiv> ''ELOOP''"
abbreviation EINVAL :: errno where "EINVAL \<equiv> ''EINVAL''"
abbreviation ENOTEMPTY :: errno where "ENOTEMPTY \<equiv> ''ENOTEMPTY''"
abbreviation EPERM :: errno where "EPERM \<equiv> ''EPERM''"
abbreviation EACCES :: errno where "EACCES \<equiv> ''EACCES''"
abbreviation EBUSY :: errno where "EBUSY \<equiv> ''EBUSY''"
abbreviation EFBIG :: errno where "EFBIG \<equiv> ''EFBIG''"
abbreviation ENODATA :: errno where "ENODATA \<equiv> ''ENODATA''"
abbreviation ENXIO :: errno where "ENXIO \<equiv> ''ENXIO''"
abbreviation ENOTSUP :: errno where "ENOTSUP \<equiv> ''ENOTSUP''"

definition lookup :: "fsys \<Rightarrow> string list \<Rightarrow> inode option" where
  "lookup fs q = map_option (inos fs) (map_of (ents fs) q)"

definition dir_at :: "fsys \<Rightarrow> string list \<Rightarrow> bool" where
  "dir_at fs q = (case lookup fs q of None \<Rightarrow> False | Some i \<Rightarrow> node i = NDir)"

definition below :: "string list \<Rightarrow> string list \<Rightarrow> bool" where
  "below p q \<longleftrightarrow> take (length p) q = p"

lemma below_append [simp]: "below bs (bs @ r)"
  by (simp add: below_def)

lemma belowE:
  assumes "below bs ts"
  obtains r where "ts = bs @ r"
  using assms unfolding below_def by (metis append_take_drop_id)

section \<open>Path lookup\<close>

text \<open>
  \<open>walk\<close> resolves names from a directory; \<open>n\<close> symbolic links may still be followed (Linux
  allows 40). The last component may be missing: then the result is where it would be created.
\<close>

function walk :: "fsys \<Rightarrow> bool \<Rightarrow> nat \<Rightarrow> string list \<Rightarrow> string list \<Rightarrow> err + string list" where
  "walk fs follow n cur [] = Inr cur"
| "walk fs follow n cur (c # cs) =
     (if \<not> dir_at fs cur then Fail ENOTDIR
      else if c = [] \<or> c = dot then walk fs follow n cur cs
      else if c = dotdot then walk fs follow n (butlast cur) cs
      else case lookup fs (cur @ [c]) of
        None \<Rightarrow> if cs = [] then Inr (cur @ [c]) else Fail ENOENT
      | Some i \<Rightarrow>
          (case node i of
             NLink target \<Rightarrow>
               if cs = [] \<and> \<not> follow then Inr (cur @ [c])
               else (case n of
                 0 \<Rightarrow> Fail ELOOP
               | Suc m \<Rightarrow> walk fs follow m (if rooted target then [] else cur) (Split slash target @ cs))
           | _ \<Rightarrow> walk fs follow n (cur @ [c]) cs))"
  by pat_completeness auto
termination
  by (relation "(\<lambda>(fs, f, n, cur, cs). n) <*mlex*> measure (\<lambda>(fs, f, n, cur, cs). length cs)")
    (auto intro: wf_mlex mlex_less mlex_leq)

definition maxSymlinks :: nat where
  "maxSymlinks = 40"

definition resolve :: "kernel \<Rightarrow> fsys \<Rightarrow> bool \<Rightarrow> string \<Rightarrow> err + string list" where
  "resolve k fs follow p =
     (if p = [] then Fail ENOENT
      else if Contains p NUL then Fail EINVAL
      else walk fs follow maxSymlinks (if rooted p then [] else cwd k) (Split slash p))"

section \<open>Calls that read\<close>

text \<open>A refusal has another reason than a missing path, so it is never \<^verbatim>\<open>ENOENT\<close>.\<close>

definition ask :: "kernel \<Rightarrow> string \<Rightarrow> string list \<Rightarrow> fsys \<Rightarrow> err + unit" where
  "ask k name q fs = (case refuses k fs name q of None \<Rightarrow> Inr () | Some e \<Rightarrow> Fail (if e = ENOENT then EACCES else e))"

definition get_inode :: "fsys \<Rightarrow> string list \<Rightarrow> err + inode" where
  "get_inode fs q = (case lookup fs q of None \<Rightarrow> Fail ENOENT | Some i \<Rightarrow> Inr i)"

definition os_Lstat :: "kernel \<Rightarrow> string \<Rightarrow> fsys \<Rightarrow> err + inode" where
  "os_Lstat k p fs = bindE (resolve k fs False p) (\<lambda>q. bindE (ask k ''lstat'' q fs) (\<lambda>_. get_inode fs q))"

definition os_Stat :: "kernel \<Rightarrow> string \<Rightarrow> fsys \<Rightarrow> err + inode" where
  "os_Stat k p fs = bindE (resolve k fs True p) (\<lambda>q. bindE (ask k ''stat'' q fs) (\<lambda>_. get_inode fs q))"

definition IsDir :: "inode \<Rightarrow> bool" where
  "IsDir i \<longleftrightarrow> node i = NDir"

definition IsRegular :: "inode \<Rightarrow> bool" where
  "IsRegular i = (case node i of NFile data \<Rightarrow> True | _ \<Rightarrow> False)"

definition IsSymlink :: "inode \<Rightarrow> bool" where
  "IsSymlink i = (case node i of NLink target \<Rightarrow> True | _ \<Rightarrow> False)"

definition Size :: "inode \<Rightarrow> int" where
  "Size i = (case node i of NFile data \<Rightarrow> int (length data) | NLink target \<Rightarrow> int (length target) | _ \<Rightarrow> 0)"

section \<open>Calls that write\<close>

type_synonym 'a fsop = "(fsys, 'a) sem"

text \<open>A read of the file system inside an operation.\<close>

definition readS :: "('s \<Rightarrow> err + 'a) \<Rightarrow> ('s, 'a) sem" where
  "readS f s = (f s, s)"

text \<open>Look the path up, let the kernel refuse, act on the place found.\<close>

definition os_call :: "kernel \<Rightarrow> string \<Rightarrow> bool \<Rightarrow> string \<Rightarrow> (string list \<Rightarrow> 'a fsop) \<Rightarrow> 'a fsop" where
  "os_call k name follow p f =
     bindS (readS (\<lambda>fs. resolve k fs follow p)) (\<lambda>q. bindS (readS (ask k name q)) (\<lambda>_. f q))"

text \<open>
  The mode a system call gets for an \<^verbatim>\<open>os.FileMode\<close>: the nine permission bits, and the special
  bits only from Go's own flags (bits 23, 22 and 20).
\<close>

definition syscallMode :: "32 word \<Rightarrow> 32 word" where
  "syscallMode m =
     or (and m 0x1FF)
       (or (if bit m 23 then 0x800 else 0) (or (if bit m 22 then 0x400 else 0) (if bit m 20 then 0x200 else 0)))"

definition add_entry :: "kernel \<Rightarrow> string list \<Rightarrow> fnode \<Rightarrow> 32 word \<Rightarrow> fsys \<Rightarrow> fsys" where
  "add_entry k q n mode fs =
     fs\<lparr>ents := (q, nextino fs) # ents fs,
        inos := (inos fs)(nextino fs := \<lparr>node = n, imode = mode, iuid = kuid k, igid = kgid k, ixattrs = []\<rparr>),
        nextino := Suc (nextino fs),
        stamps := (stamps fs)(nextino fs := None)\<rparr>"

text \<open>The modification time of the inode at a place moves on.\<close>

definition touch_at :: "string list \<Rightarrow> fsys \<Rightarrow> fsys" where
  "touch_at q fs =
     fs\<lparr>stamps := (case map_of (ents fs) q of None \<Rightarrow> stamps fs | Some i \<Rightarrow> (stamps fs)(i := None))\<rparr>"

lemma touch_at_simps [simp]:
  "ents (touch_at q fs) = ents fs" "inos (touch_at q fs) = inos fs"
  "nextino (touch_at q fs) = nextino fs" "lookup (touch_at q fs) = lookup fs"
  "dir_at (touch_at q fs) = dir_at fs"
  by (simp_all add: touch_at_def lookup_def dir_at_def fun_eq_iff)

lemma fold_touch_simps [simp]:
  "ents (fold (\<lambda>e. touch_at (g e)) es fs) = ents fs" "inos (fold (\<lambda>e. touch_at (g e)) es fs) = inos fs"
  "nextino (fold (\<lambda>e. touch_at (g e)) es fs) = nextino fs"
  "lookup (fold (\<lambda>e. touch_at (g e)) es fs) = lookup fs"
  by (induction es arbitrary: fs) simp_all

definition upd_inode :: "string list \<Rightarrow> (inode \<Rightarrow> inode) \<Rightarrow> fsys \<Rightarrow> fsys" where
  "upd_inode q f fs =
     (case map_of (ents fs) q of
        None \<Rightarrow> fs
      | Some i \<Rightarrow> fs\<lparr>inos := (inos fs)(i := f (inos fs i))\<rparr>)"

text \<open>Creation at a place that must be free.\<close>

definition create_at :: "kernel \<Rightarrow> string list \<Rightarrow> fnode \<Rightarrow> 32 word \<Rightarrow> unit fsop" where
  "create_at k q n mode fs =
     (if lookup fs q \<noteq> None then (Fail EEXIST, fs)
      else (Inr (), touch_at (butlast q) (add_entry k q n mode fs)))"

definition os_Mkdir :: "kernel \<Rightarrow> string \<Rightarrow> 32 word \<Rightarrow> unit fsop" where
  "os_Mkdir k p mode =
     os_call k ''mkdir'' False p (\<lambda>q. create_at k q NDir (and (syscallMode mode) (not (umask k))))"

definition os_Symlink :: "kernel \<Rightarrow> string \<Rightarrow> string \<Rightarrow> unit fsop" where
  "os_Symlink k target p =
     (if target = [] then raiseS (Sentinel ENOENT)
      else if Contains target NUL then raiseS (Sentinel EINVAL)
      else os_call k ''symlink'' False p (\<lambda>q. create_at k q (NLink target) 0x1FF))"

definition os_Mknod :: "kernel \<Rightarrow> string \<Rightarrow> specialNode \<Rightarrow> 32 word \<Rightarrow> unit fsop" where
  "os_Mknod k p n mode =
     os_call k ''mknod'' False p (\<lambda>q. create_at k q (NSpecial n) (and mode (not (umask k))))"

definition os_Link :: "kernel \<Rightarrow> string \<Rightarrow> string \<Rightarrow> unit fsop" where
  "os_Link k old new =
     os_call k ''link-source'' False old (\<lambda>p. os_call k ''link'' False new (\<lambda>q fs.
       case map_of (ents fs) p of
         None \<Rightarrow> (Fail ENOENT, fs)
       | Some i \<Rightarrow>
           if node (inos fs i) = NDir then (Fail EPERM, fs)
           else if lookup fs q \<noteq> None then (Fail EEXIST, fs)
           else (Inr (), touch_at (butlast q) (fs\<lparr>ents := (q, i) # ents fs\<rparr>))))"

text \<open>\<^verbatim>\<open>unlink\<close>, and \<^verbatim>\<open>rmdir\<close> for a directory.\<close>

definition os_Remove :: "kernel \<Rightarrow> string \<Rightarrow> unit fsop" where
  "os_Remove k p =
     os_call k ''remove'' False p (\<lambda>q fs.
       if lookup fs q = None then (Fail ENOENT, fs)
       else if q = [] then (Fail EBUSY, fs)
       else if dir_at fs q \<and> (\<exists>e \<in> set (ents fs). below q (fst e) \<and> fst e \<noteq> q) then (Fail ENOTEMPTY, fs)
       else (Inr (), touch_at (butlast q) (fs\<lparr>ents := filter (\<lambda>e. fst e \<noteq> q) (ents fs)\<rparr>)))"

text \<open>
  \<^verbatim>\<open>os.RemoveAll\<close> removes what it can: an entry stays if its removal, or that of something
  below it, is refused. A missing path is no error.
\<close>

definition os_RemoveAll :: "kernel \<Rightarrow> string \<Rightarrow> unit fsop" where
  "os_RemoveAll k p fs =
     (if p = [] then (Inr (), fs)
      else case resolve k fs False p of
        Inl e \<Rightarrow> if errors_Is e ENOENT then (Inr (), fs) else (Inl e, fs)
      | Inr q \<Rightarrow>
          if lookup fs q = None then (Inr (), fs)
          else let stays = (\<lambda>r. \<exists>e \<in> set (ents fs). below r (fst e) \<and> refuses k fs ''remove'' (fst e) \<noteq> None);
                   gone = filter (\<lambda>e. below q (fst e) \<and> \<not> stays (fst e)) (ents fs);
                   fs' = fold (\<lambda>e. touch_at (butlast (fst e))) gone
                     (fs\<lparr>ents := filter (\<lambda>e. \<not> below q (fst e) \<or> stays (fst e)) (ents fs)\<rparr>)
            in (if q = [] \<or> stays q then Fail EACCES else Inr (), fs'))"

definition move_entry :: "string list \<Rightarrow> string list \<Rightarrow> string list \<times> nat \<Rightarrow> string list \<times> nat" where
  "move_entry p q e = (if below p (fst e) then (q @ drop (length p) (fst e), snd e) else e)"

text \<open>Go refuses to replace a directory; otherwise \<^verbatim>\<open>rename\<close> replaces what is at the new name.\<close>

definition os_Rename :: "kernel \<Rightarrow> string \<Rightarrow> string \<Rightarrow> unit fsop" where
  "os_Rename k old new =
     os_call k ''rename-source'' False old (\<lambda>p. os_call k ''rename'' False new (\<lambda>q fs.
       if lookup fs p = None then (Fail ENOENT, fs)
       else if p = [] \<or> q = [] then (Fail EBUSY, fs)
       else if map_of (ents fs) p = map_of (ents fs) q then (Inr (), fs)
       else if dir_at fs q then (Fail EEXIST, fs)
       else if dir_at fs p \<and> below p q then (Fail EINVAL, fs)
       else if dir_at fs p \<and> lookup fs q \<noteq> None then (Fail ENOTDIR, fs)
       else (Inr (), touch_at (butlast p) (touch_at (butlast q)
              (fs\<lparr>ents := map (move_entry p q) (filter (\<lambda>e. fst e \<noteq> q) (ents fs))\<rparr>)))))"

text \<open>An operation on an existing inode.\<close>

definition with_inode :: "string list \<Rightarrow> (inode \<Rightarrow> err + inode) \<Rightarrow> unit fsop" where
  "with_inode q f fs =
     (case lookup fs q of
        None \<Rightarrow> (Fail ENOENT, fs)
      | Some i \<Rightarrow> (case f i of Inl e \<Rightarrow> (Inl e, fs) | Inr j \<Rightarrow> (Inr (), upd_inode q (\<lambda>_. j) fs)))"

text \<open>\<^verbatim>\<open>os.Chmod\<close> follows a symbolic link, \<^verbatim>\<open>os.Lchown\<close> does not; an id of -1 stays as it is.\<close>

definition os_Chmod :: "kernel \<Rightarrow> string \<Rightarrow> 32 word \<Rightarrow> unit fsop" where
  "os_Chmod k p mode =
     os_call k ''chmod'' True p (\<lambda>q. with_inode q (\<lambda>i. Inr (i\<lparr>imode := syscallMode mode\<rparr>)))"

definition chown_id :: "int \<Rightarrow> int \<Rightarrow> int" where
  "chown_id new old = (if (word_of_int new :: 32 word) = -1 then old else uint (word_of_int new :: 32 word))"

definition os_Lchown :: "kernel \<Rightarrow> string \<Rightarrow> int \<Rightarrow> int \<Rightarrow> unit fsop" where
  "os_Lchown k p uid gid =
     os_call k ''lchown'' False p (\<lambda>q. with_inode q (\<lambda>i.
       Inr (i\<lparr>iuid := chown_id uid (iuid i), igid := chown_id gid (igid i)\<rparr>)))"

text \<open>No file grows beyond the largest offset.\<close>

definition maxFileSize :: int where
  "maxFileSize = 2 ^ 63 - 1"

definition set_data :: "inode \<Rightarrow> 8 word list \<Rightarrow> err + inode" where
  "set_data i data = (if int (length data) > maxFileSize then Fail EFBIG else Inr (i\<lparr>node := NFile data\<rparr>))"

definition os_Truncate :: "kernel \<Rightarrow> string \<Rightarrow> int \<Rightarrow> unit fsop" where
  "os_Truncate k p sz =
     os_call k ''truncate'' True p (\<lambda>q.
       bindS (with_inode q (\<lambda>i.
         case node i of
           NFile data \<Rightarrow> if sz < 0 \<or> sz > maxFileSize then Fail EINVAL else bindE (ftruncate data sz) (set_data i)
         | NDir \<Rightarrow> Fail EISDIR
         | _ \<Rightarrow> Fail EINVAL)) (\<lambda>_.
       modifyS (touch_at q)))"

text \<open>A file opened for writing is known by the place of its entry.\<close>

type_synonym handle = "string list"

text \<open>\<^verbatim>\<open>os.OpenFile\<close> without \<^verbatim>\<open>O_CREATE\<close>, for writing.\<close>

definition os_OpenFile :: "kernel \<Rightarrow> string \<Rightarrow> handle fsop" where
  "os_OpenFile k p =
     os_call k ''open'' True p (\<lambda>q fs.
       case lookup fs q of
         None \<Rightarrow> (Fail ENOENT, fs)
       | Some i \<Rightarrow>
           (case node i of NFile data \<Rightarrow> (Inr q, fs) | NDir \<Rightarrow> (Fail EISDIR, fs) | _ \<Rightarrow> (Fail ENXIO, fs)))"

text \<open>\<^verbatim>\<open>Write\<close> under \<^verbatim>\<open>O_APPEND\<close>, and \<^verbatim>\<open>WriteAt\<close>; both return the number of bytes written.\<close>

definition write_handle :: "kernel \<Rightarrow> handle \<Rightarrow> (8 word list \<Rightarrow> err + 8 word list) \<Rightarrow> nat \<Rightarrow> int fsop" where
  "write_handle k h f len =
     bindS (readS (ask k ''write'' h)) (\<lambda>_.
     bindS (with_inode h (\<lambda>i. case node i of NFile data \<Rightarrow> bindE (f data) (set_data i) | _ \<Rightarrow> Fail EINVAL)) (\<lambda>_.
     bindS (modifyS (touch_at h)) (\<lambda>_.
     returnS (int len))))"

definition fd_Append :: "kernel \<Rightarrow> handle \<Rightarrow> 8 word list \<Rightarrow> int fsop" where
  "fd_Append k h data = write_handle k h (\<lambda>old. Inr (old @ data)) (length data)"

definition fd_WriteAt :: "kernel \<Rightarrow> handle \<Rightarrow> 8 word list \<Rightarrow> int \<Rightarrow> int fsop" where
  "fd_WriteAt k h data off = write_handle k h (\<lambda>old. WriteAt old off data) (length data)"

definition fd_Close :: "kernel \<Rightarrow> handle \<Rightarrow> unit fsop" where
  "fd_Close k h = readS (ask k ''close'' h)"

text \<open>\<^verbatim>\<open>os.WriteFile\<close>: create or truncate, then write.\<close>

definition open_create :: "kernel \<Rightarrow> handle \<Rightarrow> 32 word \<Rightarrow> unit fsop" where
  "open_create k q mode fs =
     (case lookup fs q of
        None \<Rightarrow>
          (Inr (), touch_at (butlast q) (add_entry k q (NFile []) (and (syscallMode mode) (not (umask k))) fs))
      | Some i \<Rightarrow>
          (case node i of
             NFile old \<Rightarrow> (Inr (), touch_at q (upd_inode q (\<lambda>i. i\<lparr>node := NFile []\<rparr>) fs))
           | NDir \<Rightarrow> (Fail EISDIR, fs)
           | _ \<Rightarrow> (Fail ENXIO, fs)))"

definition os_WriteFile :: "kernel \<Rightarrow> string \<Rightarrow> 8 word list \<Rightarrow> 32 word \<Rightarrow> unit fsop" where
  "os_WriteFile k p data mode =
     os_call k ''open'' True p (\<lambda>q.
       bindS (open_create k q mode) (\<lambda>_.
       bindS (fd_WriteAt k q data 0) (\<lambda>_. fd_Close k q)))"

text \<open>Extended attributes; the \<^verbatim>\<open>user\<close> namespace exists on files and directories only.\<close>

definition user_xattr :: "string \<Rightarrow> bool" where
  "user_xattr name = HasPrefix name ''user.''"

definition Lsetxattr :: "kernel \<Rightarrow> string \<Rightarrow> string \<Rightarrow> 8 word list \<Rightarrow> unit fsop" where
  "Lsetxattr k p name value =
     os_call k ''lsetxattr'' False p (\<lambda>q. with_inode q (\<lambda>i.
       if user_xattr name \<and> \<not> IsRegular i \<and> \<not> IsDir i then Fail EPERM
       else Inr (i\<lparr>ixattrs := AList.update name value (ixattrs i)\<rparr>)))"

definition Lremovexattr :: "kernel \<Rightarrow> string \<Rightarrow> string \<Rightarrow> unit fsop" where
  "Lremovexattr k p name =
     os_call k ''lremovexattr'' False p (\<lambda>q. with_inode q (\<lambda>i.
       if user_xattr name \<and> \<not> IsRegular i \<and> \<not> IsDir i then Fail EPERM
       else if map_of (ixattrs i) name = None then Fail ENODATA
       else Inr (i\<lparr>ixattrs := AList.delete name (ixattrs i)\<rparr>)))"


section \<open>Lookup of physical paths\<close>

text \<open>A path all of whose components are directories, none of them a symbolic link.\<close>

definition phys :: "fsys \<Rightarrow> string list \<Rightarrow> bool" where
  "phys fs cs \<longleftrightarrow> list_all (\<lambda>i. dir_at fs (take i cs)) [0..<Suc (length cs)]"

lemma phys_iff: "phys fs cs \<longleftrightarrow> (\<forall>i \<le> length cs. dir_at fs (take i cs))"
  unfolding phys_def list_all_iff by (simp only: set_upt atLeastLessThan_iff less_Suc_eq_le) auto

lemma phys_dir: "phys fs cs \<Longrightarrow> dir_at fs cs"
  by (auto simp: phys_iff dest: spec [of _ "length cs"])

lemma phys_root: "phys fs cs \<Longrightarrow> dir_at fs []"
  by (auto simp: phys_iff dest: spec [of _ 0])

lemma phys_append: "phys fs (cs @ ds) \<Longrightarrow> phys fs cs"
  unfolding phys_iff
proof (intro allI impI)
  fix i assume "\<forall>i \<le> length (cs @ ds). dir_at fs (take i (cs @ ds))" and "i \<le> length cs"
  then show "dir_at fs (take i cs)" by (auto dest: spec [of _ i])
qed

lemma phys_snoc: "phys fs (cs @ [c]) \<longleftrightarrow> phys fs cs \<and> dir_at fs (cs @ [c])"
proof
  assume p: "phys fs (cs @ [c])"
  then show "phys fs cs \<and> dir_at fs (cs @ [c])" using phys_append phys_dir by blast
next
  assume p: "phys fs cs \<and> dir_at fs (cs @ [c])"
  show "phys fs (cs @ [c])"
    unfolding phys_iff
  proof (intro allI impI)
    fix i assume "i \<le> length (cs @ [c])"
    then show "dir_at fs (take i (cs @ [c]))"
      using p by (cases "i = length (cs @ [c])") (auto simp: phys_iff)
  qed
qed

lemma dir_at_lookup: "dir_at fs q \<longleftrightarrow> (\<exists>i. lookup fs q = Some i \<and> node i = NDir)"
  by (auto simp: dir_at_def split: option.split)

lemma walk_phys:
  assumes "\<forall>c \<in> set cs. elem_ok c" and "\<forall>i < length cs. dir_at fs (cur @ take i cs)"
    and "follow \<Longrightarrow> \<forall>i t. lookup fs (cur @ cs) = Some i \<longrightarrow> node i \<noteq> NLink t"
  shows "walk fs follow n cur cs = Inr (cur @ cs)"
  using assms
proof (induction cs arbitrary: cur)
  case (Cons c cs)
  have c: "c \<noteq> []" "c \<noteq> dot" "c \<noteq> dotdot" using Cons.prems(1) by (auto simp: elem_ok_def)
  have dir: "dir_at fs cur" using Cons.prems(2) by (auto dest: spec [of _ 0])
  show ?case
  proof (cases "cs = []")
    case True
    then show ?thesis
      using c dir Cons.prems(3) by (auto split: option.split fnode.split)
  next
    case False
    have step: "\<forall>i < length cs. dir_at fs ((cur @ [c]) @ take i cs)"
    proof (intro allI impI)
      fix i assume "i < length cs"
      then show "dir_at fs ((cur @ [c]) @ take i cs)" using Cons.prems(2) by (auto dest: spec [of _ "Suc i"])
    qed
    then have "dir_at fs (cur @ [c])" using False by (auto dest: spec [of _ 0])
    then obtain i where "lookup fs (cur @ [c]) = Some i" "node i = NDir" by (auto simp: dir_at_lookup)
    moreover have "walk fs follow n (cur @ [c]) cs = Inr ((cur @ [c]) @ cs)"
      by (rule Cons.IH [OF _ step]) (use Cons.prems(1,3) in auto)
    ultimately show ?thesis using c dir by simp
  qed
qed simp

lemma resolve_phys:
  assumes "\<forall>c \<in> set cs. elem_ok c" and "dir_at fs []" and "cs \<noteq> [] \<Longrightarrow> phys fs (butlast cs)"
    and "follow \<Longrightarrow> \<forall>i t. lookup fs cs = Some i \<longrightarrow> node i \<noteq> NLink t"
  shows "resolve k fs follow (abs_path cs) = (if Contains (abs_path cs) NUL then Fail EINVAL else Inr cs)"
proof -
  have "walk fs follow maxSymlinks [] ([] # (if cs = [] then [[]] else cs)) = Inr cs"
  proof (cases "cs = []")
    case True
    then show ?thesis using assms(2) by simp
  next
    case False
    have "\<forall>i < length cs. dir_at fs ([] @ take i cs)"
    proof (intro allI impI)
      fix i assume i: "i < length cs"
      then have "take i cs = take i (butlast cs)" by (simp add: take_butlast)
      then show "dir_at fs ([] @ take i cs)" using assms(3) False i by (auto simp: phys_iff)
    qed
    then show ?thesis
      using walk_phys [of cs fs "[]" follow maxSymlinks] assms False by simp
  qed
  then show ?thesis using assms(1) by (simp add: resolve_def Split_abs_path)
qed

lemma Lstat_phys:
  assumes "\<forall>c \<in> set cs. elem_ok c" and "dir_at fs []" and "cs \<noteq> [] \<Longrightarrow> phys fs (butlast cs)"
    and "os_Lstat k (abs_path cs) fs = Inr i"
  shows "lookup fs cs = Some i \<and> resolve k fs False (abs_path cs) = Inr cs"
  using assms(4) resolve_phys [OF assms(1-3), of False k]
  by (auto simp: os_Lstat_def get_inode_def split: if_splits option.splits)

end
