(* ===== verification/Go_Match.thy ===== *)
theory Go_Match
  imports Go_Strings
begin

text \<open>
  \<^verbatim>\<open>path.Match\<close> of the Go standard library, which the fault rules call: shell patterns with
  \<^verbatim>\<open>*\<close>, \<^verbatim>\<open>?\<close>, character classes and escapes. Modelled chunk by chunk as the library has it,
  with the runes of the name and of the classes decoded from UTF-8. The main lemma,
  \<open>Match_error_name\<close>, says that whether a pattern is malformed does not depend on the name.
\<close>

section \<open>Chunks\<close>

abbreviation ErrBadPattern :: sentinel where
  "ErrBadPattern \<equiv> ''path.ErrBadPattern''"

definition getEsc :: "string \<Rightarrow> err + nat \<times> string" where
  "getEsc chunk =
     (if chunk = [] \<or> hd chunk = CHR ''-'' \<or> hd chunk = CHR '']'' then Fail ErrBadPattern
      else let chunk = (if hd chunk = CHR 0x5C then tl chunk else chunk) in
        if chunk = [] then Fail ErrBadPattern
        else let (r, n) = DecodeRuneInString chunk; rest = drop n chunk in
          if r = RuneError \<and> n = 1 then Fail ErrBadPattern
          else if rest = [] then Fail ErrBadPattern
          else Inr (r, rest))"

lemma getEsc_shorter: "getEsc chunk = Inr (r, rest) \<Longrightarrow> length rest < length chunk"
proof -
  assume a: "getEsc chunk = Inr (r, rest)"
  let ?c = "if hd chunk = CHR 0x5C then tl chunk else chunk"
  have c: "?c \<noteq> []" "chunk \<noteq> []" using a by (auto simp: getEsc_def Let_def split: if_splits)
  have "rest = drop (snd (DecodeRuneInString ?c)) ?c"
    using a by (auto simp: getEsc_def Let_def split: if_splits prod.splits)
  moreover have "0 < snd (DecodeRuneInString ?c)" using c by (simp add: DecodeRune_width)
  moreover have "length ?c \<le> length chunk" by simp
  ultimately show ?thesis using c by (auto split: if_splits)
qed

text \<open>
  The ranges of a character class up to its closing bracket: whether the rune \<open>r\<close> is in one
  of them, and the rest of the chunk.
\<close>

function class_ranges :: "nat \<Rightarrow> nat \<Rightarrow> bool \<Rightarrow> string \<Rightarrow> err + bool \<times> string" where
  "class_ranges r nrange matched chunk =
     (if chunk \<noteq> [] \<and> hd chunk = CHR '']'' \<and> nrange > 0 then Inr (matched, tl chunk)
      else case getEsc chunk of
        Inl e \<Rightarrow> Inl e
      | Inr (lo, c1) \<Rightarrow>
          (case (if hd c1 = CHR ''-'' then getEsc (tl c1) else Inr (lo, c1)) of
             Inl e \<Rightarrow> Inl e
           | Inr (hi, c2) \<Rightarrow>
               if length c2 < length chunk
               then class_ranges r (Suc nrange) (matched \<or> (lo \<le> r \<and> r \<le> hi)) c2
               else Fail ErrBadPattern))"
  by pat_completeness auto
termination
  by (relation "measure (\<lambda>(r, n, m, c). length c)") auto

declare class_ranges.simps [simp del]

lemma class_ranges_shorter: "class_ranges r n m chunk = Inr (b, rest) \<Longrightarrow> length rest < length chunk"
proof (induction r n m chunk rule: class_ranges.induct)
  case (1 r n m chunk)
  show ?case
  proof (cases "chunk \<noteq> [] \<and> hd chunk = CHR '']'' \<and> n > 0")
    case True
    then show ?thesis using "1.prems" by (subst (asm) class_ranges.simps) (auto simp: Suc_le_eq)
  next
    case c: False
    obtain lo c1 where lo: "getEsc chunk = Inr (lo, c1)"
      using "1.prems" c by (subst (asm) class_ranges.simps) (auto split: sum.splits)
    obtain hi c2 where hi: "(if hd c1 = CHR ''-'' then getEsc (tl c1) else Inr (lo, c1)) = Inr (hi, c2)"
      and l: "length c2 < length chunk"
      and r: "class_ranges r (Suc n) (m \<or> (lo \<le> r \<and> r \<le> hi)) c2 = Inr (b, rest)"
      using "1.prems" c lo by (subst (asm) class_ranges.simps) (auto split: sum.splits if_splits)
    have "length rest < length c2" by (rule "1.IH" [OF c lo refl hi refl l r])
    then show ?thesis using l by simp
  qed
qed

text \<open>
  \<open>matchChunk\<close> goes on over the chunk after a mismatch (\<open>failed\<close>), only to check its syntax.
  The result \<open>None\<close> is no match, \<open>Some rest\<close> a match and what is left of the name.
\<close>

function match_chunk :: "bool \<Rightarrow> string \<Rightarrow> string \<Rightarrow> err + string option" where
  "match_chunk failed0 chunk s =
     (if chunk = [] then Inr (if failed0 then None else Some s)
      else let failed = (failed0 \<or> s = []) in
        if hd chunk = CHR ''['' then
          let (r, n) = (if failed then (0, 0) else DecodeRuneInString s);
              c1 = tl chunk;
              negated = (c1 \<noteq> [] \<and> hd c1 = CHR ''^'');
              c2 = (if negated then tl c1 else c1)
          in case class_ranges r 0 False c2 of
               Inl e \<Rightarrow> Inl e
             | Inr (matched, c3) \<Rightarrow>
                 if length c3 < length chunk
                 then match_chunk (failed \<or> matched = negated) c3 (drop n s)
                 else Fail ErrBadPattern
        else if hd chunk = CHR ''?'' then
          (if failed then match_chunk True (tl chunk) s
           else match_chunk (hd s = CHR ''/'') (tl chunk) (drop (snd (DecodeRuneInString s)) s))
        else if hd chunk = CHR 0x5C \<and> tl chunk = [] then Fail ErrBadPattern
        else let c1 = (if hd chunk = CHR 0x5C then tl chunk else chunk) in
          (if failed then match_chunk True (tl c1) s
           else match_chunk (hd c1 \<noteq> hd s) (tl c1) (tl s)))"
  by pat_completeness auto
termination
  by (relation "measure (\<lambda>(f, c, s). length c)") auto

declare match_chunk.simps [simp del]

definition matchChunk :: "string \<Rightarrow> string \<Rightarrow> err + string option" where
  "matchChunk chunk s = match_chunk False chunk s"

text \<open>\<open>scan_len\<close> is the index at which the loop of \<open>scanChunk\<close> stops.\<close>

fun scan_len :: "bool \<Rightarrow> string \<Rightarrow> nat" where
  "scan_len inrange [] = 0"
| "scan_len inrange [c] = (if c = CHR ''*'' \<and> \<not> inrange then 0 else 1)"
| "scan_len inrange (c # d # s) =
     (if c = CHR 0x5C then 2 + scan_len inrange s
      else if c = CHR ''['' then 1 + scan_len True (d # s)
      else if c = CHR '']'' then 1 + scan_len False (d # s)
      else if c = CHR ''*'' \<and> \<not> inrange then 0
      else 1 + scan_len inrange (d # s))"

definition scanChunk :: "string \<Rightarrow> bool \<times> string \<times> string" where
  "scanChunk pattern =
     (let p = dropWhile (\<lambda>c. c = CHR ''*'') pattern; i = scan_len False p
      in (p \<noteq> pattern, take i p, drop i p))"

lemma scan_len_pos: "p \<noteq> [] \<Longrightarrow> hd p \<noteq> CHR ''*'' \<Longrightarrow> 0 < scan_len False p"
  by (cases "(False, p)" rule: scan_len.cases) auto

lemma scanChunk_shorter:
  assumes "pattern \<noteq> []" and "scanChunk pattern = (star, chunk, rest)"
  shows "length rest < length pattern"
proof -
  let ?p = "dropWhile (\<lambda>c. c = CHR ''*'') pattern"
  have rest: "rest = drop (scan_len False ?p) ?p" using assms(2) by (simp add: scanChunk_def Let_def)
  have le: "length ?p \<le> length pattern" by (rule length_dropWhile_le)
  show ?thesis
  proof (cases "?p = []")
    case True
    then have "rest = []" using rest by (metis drop_Nil)
    then show ?thesis using assms(1) by simp
  next
    case False
    then have "0 < scan_len False ?p" using scan_len_pos hd_dropWhile by blast
    moreover have "length (drop n p) < length p" if "0 < n" and "p \<noteq> []" for n and p :: string
      using that by (cases p) simp_all
    ultimately have "length rest < length ?p" using False rest by blast
    then show ?thesis using le by simp
  qed
qed

section \<open>Match\<close>

text \<open>
  After a star the chunk may match further on in the name, but not beyond a slash:
  \<open>star_search\<close> tries the positions after each further byte.
\<close>

fun star_search :: "bool \<Rightarrow> string \<Rightarrow> string \<Rightarrow> err + string option" where
  "star_search final chunk [] = Inr None"
| "star_search final chunk (c # name) =
     (if c = CHR ''/'' then Inr None
      else bindE (matchChunk chunk name) (\<lambda>t.
        case t of
          None \<Rightarrow> star_search final chunk name
        | Some t \<Rightarrow> if final \<and> t \<noteq> [] then star_search final chunk name else Inr (Some t)))"

text \<open>The syntax of the rest of a pattern that does not match.\<close>

function check_rest :: "string \<Rightarrow> err + bool" where
  "check_rest pattern =
     (if pattern = [] then Inr False
      else case scanChunk pattern of
        (star, chunk, rest) \<Rightarrow>
          if length rest < length pattern
          then bindE (matchChunk chunk []) (\<lambda>_. check_rest rest)
          else Inr False)"
  by pat_completeness auto
termination
  by (relation "measure length") auto

declare check_rest.simps [simp del]

function Match :: "string \<Rightarrow> string \<Rightarrow> err + bool" where
  "Match pattern name =
     (if pattern = [] then Inr (name = [])
      else case scanChunk pattern of
        (star, chunk, rest) \<Rightarrow>
          if star \<and> chunk = [] then Inr (CHR ''/'' \<notin> set name)
          else if length rest < length pattern
          then bindE (matchChunk chunk name) (\<lambda>t.
            if t \<noteq> None \<and> (the t = [] \<or> rest \<noteq> []) then Match rest (the t)
            else if star
            then bindE (star_search (rest = []) chunk name) (\<lambda>t.
              case t of None \<Rightarrow> check_rest rest | Some t \<Rightarrow> Match rest t)
            else check_rest rest)
          else Inr False)"
  by pat_completeness auto
termination
  by (relation "measure (\<lambda>(p, n). length p)") auto

declare Match.simps [simp del]

section \<open>Malformed patterns\<close>

lemma class_ranges_error:
  "map_sum id snd (class_ranges r n m chunk) = map_sum id snd (class_ranges r' n m' chunk)"
proof (induction r n m chunk arbitrary: r' m' rule: class_ranges.induct)
  case (1 r n m chunk)
  show ?case
  proof (cases "chunk \<noteq> [] \<and> hd chunk = CHR '']'' \<and> n > 0")
    case True
    then show ?thesis by (simp add: class_ranges.simps)
  next
    case c: False
    show ?thesis
    proof (cases "getEsc chunk")
      case (Inl e)
      then show ?thesis using c by (simp add: class_ranges.simps [of r] class_ranges.simps [of r'])
    next
      case lo: (Inr lc)
      obtain lo c1 where lc: "lc = (lo, c1)" by (cases lc)
      show ?thesis
      proof (cases "if hd c1 = CHR ''-'' then getEsc (tl c1) else Inr (lo, c1)")
        case (Inl e)
        then show ?thesis
          using c lo lc by (simp add: class_ranges.simps [of r] class_ranges.simps [of r'])
      next
        case hi: (Inr hc)
        obtain hi' c2 where hc: "hc = (hi', c2)" by (cases hc)
        show ?thesis
        proof (cases "length c2 < length chunk")
          case True
          have IH: "map_sum id snd (class_ranges r (Suc n) (m \<or> (lo \<le> r \<and> r \<le> hi')) c2) =
              map_sum id snd (class_ranges r' (Suc n) m'' c2)" for m''
            by (rule "1.IH" [OF c lo lc [symmetric] hi hc [symmetric] True])
          have e: "class_ranges x n y chunk = class_ranges x (Suc n) (y \<or> (lo \<le> x \<and> x \<le> hi')) c2" for x y
            by (subst class_ranges.simps, subst if_not_P [OF c]) (simp add: lo lc hi hc True)
          show ?thesis unfolding e by (rule IH)
        next
          case False
          then have "class_ranges x n y chunk = Fail ErrBadPattern" for x y
            by (subst class_ranges.simps, subst if_not_P [OF c]) (simp add: lo lc hi hc)
          then show ?thesis by simp
        qed
      qed
    qed
  qed
qed

text \<open>The error of a result, if any.\<close>

definition err_of :: "err + 'a \<Rightarrow> err option" where
  "err_of m = (case m of Inl e \<Rightarrow> Some e | Inr x \<Rightarrow> None)"

lemma err_of_simps [simp]: "err_of (Inl e) = Some e" "err_of (Inr x) = None"
  by (simp_all add: err_of_def)

lemma err_of_bindE: "err_of (bindE m f) = (case m of Inl e \<Rightarrow> Some e | Inr x \<Rightarrow> err_of (f x))"
  by (cases m) simp_all

lemma match_chunk_error: "err_of (match_chunk failed chunk s) = err_of (match_chunk failed' chunk s')"
proof (induction "length chunk" arbitrary: chunk failed s failed' s' rule: less_induct)
  case less
  show ?case
  proof (cases chunk)
    case Nil
    then show ?thesis by (simp add: match_chunk.simps)
  next
    case (Cons c cs)
    define E where "E u = err_of (match_chunk False u [])" for u
    have ind: "err_of (match_chunk g u t) = E u" if "length u < length chunk" for g u t
      unfolding E_def by (rule less [OF that])
    consider (cls) "c = CHR ''[''" | (one) "c = CHR ''?''" | (esc) "c = CHR 0x5C"
      | (lit) "c \<noteq> CHR ''[''" "c \<noteq> CHR ''?''" "c \<noteq> CHR 0x5C" by blast
    then show ?thesis
    proof cases
      case cls
      let ?c2 = "if cs \<noteq> [] \<and> hd cs = CHR ''^'' then tl cs else cs"
      have "err_of (match_chunk f chunk t) =
          (case map_sum id snd (class_ranges 0 0 False ?c2) of
             Inl e \<Rightarrow> Some e
           | Inr c3 \<Rightarrow> if length c3 < length chunk then E c3 else Some (Sentinel ErrBadPattern))" for f t
      proof -
        obtain r n where rn: "(if f \<or> t = [] then (0, 0) else DecodeRuneInString t) = (r, n)"
          by (meson prod.exhaust)
        have m: "err_of (match_chunk f chunk t) =
            (case class_ranges r 0 False ?c2 of
               Inl e \<Rightarrow> Some e
             | Inr (b, c3) \<Rightarrow> if length c3 < length chunk then E c3 else Some (Sentinel ErrBadPattern))"
          using rn cls Cons ind
          by (subst match_chunk.simps) (simp add: Let_def split: sum.split prod.split)
        show ?thesis
          unfolding m class_ranges_error [of 0 0 False ?c2 r False]
          by (simp split: sum.split prod.split)
      qed
      then show ?thesis by simp
    next
      case one
      have "err_of (match_chunk f chunk t) = E cs" for f t
        using one Cons ind by (subst match_chunk.simps) (simp add: Let_def)
      then show ?thesis by simp
    next
      case esc
      have "err_of (match_chunk f chunk t) =
          (if cs = [] then Some (Sentinel ErrBadPattern) else E (tl cs))" for f t
        using esc Cons ind by (subst match_chunk.simps) (simp add: Let_def)
      then show ?thesis by simp
    next
      case lit
      have "err_of (match_chunk f chunk t) = E cs" for f t
        using lit Cons ind by (subst match_chunk.simps) (simp add: Let_def)
      then show ?thesis by simp
    qed
  qed
qed

lemma matchChunk_error: "err_of (matchChunk chunk s) = err_of (matchChunk chunk [])"
  unfolding matchChunk_def by (rule match_chunk_error)

lemma star_search_ok:
  assumes "err_of (matchChunk chunk []) = None"
  shows "err_of (star_search final chunk name) = None"
proof (induction name)
  case (Cons c name)
  have "err_of (matchChunk chunk name) = None" using matchChunk_error assms by metis
  then obtain t where "matchChunk chunk name = Inr t"
    by (auto simp: err_of_def split: sum.splits)
  then show ?case using Cons.IH by (cases final) (simp_all split: option.split)
qed simp

text \<open>A pattern is malformed whatever it is matched against.\<close>

lemma Match_check_rest: "err_of (Match pattern name) = err_of (check_rest pattern)"
proof (induction "length pattern" arbitrary: pattern name rule: less_induct)
  case less
  obtain star chunk rest where sc: "scanChunk pattern = (star, chunk, rest)" by (meson prod_cases3)
  show ?case
  proof (cases "pattern = []")
    case True
    then show ?thesis by (simp add: Match.simps check_rest.simps)
  next
    case ne: False
    have short: "length rest < length pattern" by (rule scanChunk_shorter [OF ne sc])
    have IH: "err_of (Match rest n) = err_of (check_rest rest)" for n by (rule less [OF short])
    have c: "err_of (check_rest pattern) =
        (case matchChunk chunk [] of Inl e \<Rightarrow> Some e | Inr _ \<Rightarrow> err_of (check_rest rest))"
      using ne sc short by (subst check_rest.simps) (simp add: err_of_bindE)
    show ?thesis
    proof (cases "star \<and> chunk = []")
      case True
      have "rest = []"
      proof -
        let ?p = "dropWhile (\<lambda>c. c = CHR ''*'') pattern"
        have "take (scan_len False ?p) ?p = []" "rest = drop (scan_len False ?p) ?p"
          using sc True by (simp_all add: scanChunk_def Let_def)
        then show ?thesis using scan_len_pos [of ?p] hd_dropWhile [of "\<lambda>c. c = CHR ''*''" pattern]
          by (cases "?p = []") auto
      qed
      then show ?thesis
        unfolding c using True ne sc
        by (subst Match.simps) (simp add: matchChunk_def match_chunk.simps check_rest.simps)
    next
      case False
      show ?thesis
      proof (cases "matchChunk chunk name")
        case (Inl e)
        then have "err_of (matchChunk chunk []) = Some e" using matchChunk_error [of chunk name] by simp
        then show ?thesis unfolding c using Inl ne sc short False
          by (subst Match.simps) (auto split: sum.splits)
      next
        case (Inr t)
        then have ok: "err_of (matchChunk chunk []) = None" using matchChunk_error [of chunk name] by simp
        then have c': "err_of (check_rest pattern) = err_of (check_rest rest)"
          unfolding c by (auto simp: err_of_def split: sum.splits)
        obtain u where u: "star_search (rest = []) chunk name = Inr u"
          using star_search_ok [OF ok, of "rest = []" name] by (auto simp: err_of_def split: sum.splits)
        show ?thesis unfolding c' using Inr ne sc short False u IH
          by (subst Match.simps, cases "rest = []") (simp_all split: option.split)
      qed
    qed
  qed
qed

lemma Match_error_name: "err_of (Match pattern name) = err_of (Match pattern name')"
  by (simp add: Match_check_rest)

end
