(* ===== verification/Faults.thy ===== *)
theory Faults
  imports Go_Match
begin

text \<open>
  Fault injection (\<^verbatim>\<open>faults.go\<close>, \<^verbatim>\<open>executor.go\<close>): the rules of a profile with their validation, the
  injector with its per-rule counters, and the execution context the appliers ask before each
  step. \<open>answers\<close> is what an injector says to a sequence of execution points; \<open>counts\<close> and
  \<open>fires\<close> state on that record when a rule counts a point and when it injects its error, and
  the theorems relate the two.
\<close>

section \<open>Rules and profiles\<close>

text \<open>\<^verbatim>\<open>FaultScope\<close> is a \<^verbatim>\<open>uint8\<close>; the last constructor stands for the values with no name.\<close>

datatype FaultScope = FaultScopeAny | FaultScopeRun | FaultScopeMutation | FaultScopeUnknown "8 word"

definition FaultScope_String :: "FaultScope \<Rightarrow> string" where
  "FaultScope_String s =
     (case s of
        FaultScopeAny \<Rightarrow> ''any''
      | FaultScopeRun \<Rightarrow> ''run''
      | FaultScopeMutation \<Rightarrow> ''mutation''
      | FaultScopeUnknown n \<Rightarrow> ''unknown('' @ show_nat (unat n) @ '')'')"

definition validateFaultScope :: "FaultScope \<Rightarrow> err + unit" where
  "validateFaultScope scope =
     (case scope of FaultScopeUnknown n \<Rightarrow> Err ''invalid fault scope'' | _ \<Rightarrow> Inr ())"

record FaultRule =
  Nth :: int
  Scope :: FaultScope
  Kind :: string
  PathPattern :: string
  RuleErr :: "err option"

type_synonym FaultProfile = "FaultRule list"

definition validateFaultRule :: "FaultRule \<Rightarrow> err + unit" where
  "validateFaultRule rule =
     (if Nth rule \<le> 0 then Err ''fault rule at index: nth must be > 0''
      else bindE (wrapE ''fault rule at index'' (validateFaultScope (Scope rule))) (\<lambda>_.
        if PathPattern rule \<noteq> []
        then bindE (wrapE ''fault rule at index: invalid path pattern''
                     (Match (PathPattern rule) ''probe'')) (\<lambda>_. Inr ())
        else Inr ()))"

definition validateFaultProfile :: "FaultProfile \<Rightarrow> err + unit" where
  "validateFaultProfile p = bindE (mapE_from 0 (\<lambda>i rule. validateFaultRule rule) p) (\<lambda>_. Inr ())"

record FaultPoint =
  ptScope :: FaultScope
  ptKind :: string
  ptPath :: string
  ptIndex :: int

text \<open>What \<open>before\<close> returns instead of nil: an injected failure, or the error of a bad pattern.\<close>

datatype fault_error =
    FaultInjectionError (RuleIndex: nat) (Rule: FaultRule) (Point: FaultPoint) (InjectedErr: err)
  | PatternError err

text \<open>The error chain of such a value, as \<^verbatim>\<open>Unwrap\<close> exposes it.\<close>

definition fault_err :: "fault_error \<Rightarrow> err" where
  "fault_err e =
     (case e of
        FaultInjectionError i rule point err \<Rightarrow> Errorf ''fault rule injected'' (Some err)
      | PatternError err \<Rightarrow> err)"

section \<open>The injector\<close>

record faultRuleState =
  rule :: FaultRule
  matchCount :: int
  triggered :: bool

text \<open>\<^verbatim>\<open>*faultInjector\<close>: nil, or the states of its rules. \<^verbatim>\<open>ToSlash\<close> is the identity on Linux.\<close>

type_synonym faultInjector = "faultRuleState list option"

definition newFaultInjector :: "FaultProfile \<Rightarrow> err + faultInjector" where
  "newFaultInjector profile =
     bindE (validateFaultProfile profile) (\<lambda>_.
       if profile = [] then Inr None
       else Inr (Some (map (\<lambda>r. \<lparr>rule = r, matchCount = 0, triggered = False\<rparr>) profile)))"

definition faultRuleMatchesPoint :: "FaultRule \<Rightarrow> FaultPoint \<Rightarrow> err + bool" where
  "faultRuleMatchesPoint r point =
     (if Scope r \<noteq> FaultScopeAny \<and> Scope r \<noteq> ptScope point then Inr False
      else if Kind r \<noteq> [] \<and> Kind r \<noteq> ptKind point then Inr False
      else if PathPattern r = [] then Inr True
      else wrapE ''invalid fault path pattern'' (Match (PathPattern r) (ptPath point)))"

fun before_rules ::
  "nat \<Rightarrow> faultRuleState list \<Rightarrow> FaultPoint \<Rightarrow> fault_error option \<times> faultRuleState list" where
  "before_rules ruleIdx [] point = (None, [])"
| "before_rules ruleIdx (s # rs) point =
     (let continue = (\<lambda>s'. case before_rules (Suc ruleIdx) rs point of (res, rs') \<Rightarrow> (res, s' # rs')) in
      if triggered s then continue s
      else case faultRuleMatchesPoint (rule s) point of
        Inl e \<Rightarrow> (Some (PatternError e), s # rs)
      | Inr matches \<Rightarrow>
          if \<not> matches then continue s
          else let s' = s\<lparr>matchCount := wrap64 (matchCount s + 1)\<rparr> in
            if matchCount s' \<noteq> Nth (rule s') then continue s'
            else (Some (FaultInjectionError ruleIdx (rule s') point
                     (case RuleErr (rule s') of None \<Rightarrow> Sentinel ErrFaultInjected | Some e \<Rightarrow> e)),
                  s'\<lparr>triggered := True\<rparr> # rs))"

definition before :: "FaultPoint \<Rightarrow> faultInjector \<Rightarrow> fault_error option \<times> faultInjector" where
  "before point i =
     (case i of
        None \<Rightarrow> (None, None)
      | Some rs \<Rightarrow> (case before_rules 0 rs point of (res, rs') \<Rightarrow> (res, Some rs')))"

section \<open>The execution context\<close>

record executionContext =
  injector :: faultInjector

definition newExecutionContext :: "FaultProfile \<Rightarrow> err + executionContext" where
  "newExecutionContext profile =
     bindE (wrapE ''invalid fault profile'' (newFaultInjector profile)) (\<lambda>i. Inr \<lparr>injector = i\<rparr>)"

definition ctx_before ::
  "FaultScope \<Rightarrow> int \<Rightarrow> string \<Rightarrow> string \<Rightarrow> executionContext \<Rightarrow> fault_error option \<times> executionContext" where
  "ctx_before scope index kind path ctx =
     (if injector ctx = None then (None, ctx)
      else case before \<lparr>ptScope = scope, ptKind = kind, ptPath = path, ptIndex = index\<rparr> (injector ctx) of
        (res, i) \<Rightarrow> (res, ctx\<lparr>injector := i\<rparr>))"

section \<open>What an injector answers\<close>

fun answers :: "faultInjector \<Rightarrow> FaultPoint list \<Rightarrow> fault_error option list" where
  "answers i [] = []"
| "answers i (p # ps) = (case before p i of (res, i') \<Rightarrow> res # answers i' ps)"

definition rule_matches :: "FaultRule \<Rightarrow> FaultPoint \<Rightarrow> bool" where
  "rule_matches r p \<longleftrightarrow> faultRuleMatchesPoint r p = Inr True"

definition injected :: "nat \<Rightarrow> FaultRule \<Rightarrow> FaultPoint \<Rightarrow> fault_error" where
  "injected i r p =
     FaultInjectionError i r p (case RuleErr r of None \<Rightarrow> Sentinel ErrFaultInjected | Some e \<Rightarrow> e)"

text \<open>
  In the record \<open>out\<close> of the answers to the points \<open>ps\<close>: rule \<open>i\<close> of the profile fires at
  point \<open>k\<close>; it counts point \<open>k\<close> when it matches it and no rule before it fires there.
\<close>

definition fires :: "FaultProfile \<Rightarrow> FaultPoint list \<Rightarrow> fault_error option list \<Rightarrow> nat \<Rightarrow> nat \<Rightarrow> bool" where
  "fires rs ps out i k \<longleftrightarrow> out ! k = Some (injected i (rs ! i) (ps ! k))"

definition counts :: "FaultProfile \<Rightarrow> FaultPoint list \<Rightarrow> fault_error option list \<Rightarrow> nat \<Rightarrow> nat \<Rightarrow> bool" where
  "counts rs ps out i k \<longleftrightarrow>
     rule_matches (rs ! i) (ps ! k) \<and> list_all (\<lambda>j. \<not> fires rs ps out j k) [0..<i]"

definition count_upto :: "FaultProfile \<Rightarrow> FaultPoint list \<Rightarrow> fault_error option list \<Rightarrow> nat \<Rightarrow> nat \<Rightarrow> nat" where
  "count_upto rs ps out i n = length (filter (counts rs ps out i) [0..<n])"

section \<open>Validated rules\<close>

text \<open>Outside of Go: \<open>Nth\<close> is a signed 64-bit number.\<close>

definition rule_ok :: "FaultRule \<Rightarrow> bool" where
  "rule_ok r \<longleftrightarrow> validateFaultRule r = Inr () \<and> Nth r < 2 ^ 63"

lemma validateFaultProfile_iff:
  "validateFaultProfile p = Inr () \<longleftrightarrow> (\<forall>r \<in> set p. validateFaultRule r = Inr ())"
proof -
  have "(\<exists>us. mapE_from 0 (\<lambda>i r. validateFaultRule r) p = Inr us) \<longleftrightarrow>
      (\<forall>r \<in> set p. validateFaultRule r = Inr ())"
  proof
    assume "\<exists>us. mapE_from 0 (\<lambda>i r. validateFaultRule r) p = Inr us"
    then show "\<forall>r \<in> set p. validateFaultRule r = Inr ()"
      by (auto simp: mapE_from_eq_Inr in_set_conv_nth)
  next
    assume "\<forall>r \<in> set p. validateFaultRule r = Inr ()"
    then have "mapE_from 0 (\<lambda>i r. validateFaultRule r) p = Inr (replicate (length p) ())"
      by (auto simp: mapE_from_eq_Inr)
    then show "\<exists>us. mapE_from 0 (\<lambda>i r. validateFaultRule r) p = Inr us" by blast
  qed
  then show ?thesis by (simp add: validateFaultProfile_def)
qed

lemma validateFaultRule_Nth: "validateFaultRule r = Inr () \<Longrightarrow> 0 < Nth r"
  by (simp add: validateFaultRule_def split: if_splits)

text \<open>A rule that was validated on a probe path matches without error on every path.\<close>

lemma validateFaultRule_matches:
  assumes "validateFaultRule r = Inr ()"
  shows "faultRuleMatchesPoint r p = Inr (rule_matches r p)"
proof -
  have "err_of (Match (PathPattern r) ''probe'') = None" if "PathPattern r \<noteq> []"
    using assms that by (auto simp: validateFaultRule_def split: if_splits)
  then have "err_of (Match (PathPattern r) (ptPath p)) = None" if "PathPattern r \<noteq> []"
    using that Match_error_name by metis
  then have "\<exists>b. faultRuleMatchesPoint r p = Inr b"
    by (auto simp: faultRuleMatchesPoint_def err_of_def split: sum.splits)
  then show ?thesis by (auto simp: rule_matches_def)
qed

section \<open>Counting\<close>

text \<open>The state of a rule that has counted \<open>c\<close> points: it stops counting when it triggers.\<close>

definition state_of :: "FaultRule \<times> nat \<Rightarrow> faultRuleState" where
  "state_of x =
     \<lparr>rule = fst x, matchCount = min (int (snd x)) (Nth (fst x)), triggered = (Nth (fst x) \<le> int (snd x))\<rparr>"

text \<open>One point against the rules and their counts.\<close>

fun count_point ::
  "nat \<Rightarrow> (FaultRule \<times> nat) list \<Rightarrow> FaultPoint \<Rightarrow> fault_error option \<times> (FaultRule \<times> nat) list" where
  "count_point i [] p = (None, [])"
| "count_point i ((r, c) # xs) p =
     (if \<not> rule_matches r p then (case count_point (Suc i) xs p of (res, ys) \<Rightarrow> (res, (r, c) # ys))
      else if int c + 1 = Nth r then (Some (injected i r p), (r, c + 1) # xs)
      else (case count_point (Suc i) xs p of (res, ys) \<Rightarrow> (res, (r, c + 1) # ys)))"

lemma before_rules_count:
  assumes "\<forall>x \<in> set xs. rule_ok (fst x)"
  shows "before_rules i (map state_of xs) p =
     (case count_point i xs p of (res, ys) \<Rightarrow> (res, map state_of ys))"
  using assms
proof (induction xs arbitrary: i)
  case (Cons x xs)
  obtain r c where x: "x = (r, c)" by (cases x)
  have ok: "validateFaultRule r = Inr ()" "Nth r < 2 ^ 63" "0 < Nth r"
    using Cons.prems validateFaultRule_Nth x by (auto simp: rule_ok_def)
  have m: "faultRuleMatchesPoint r p = Inr (rule_matches r p)"
    by (rule validateFaultRule_matches [OF ok(1)])
  have w: "wrap64 (int c + 1) = int c + 1" if "int c < Nth r"
    using that ok by (simp add: int64_range_def)
  obtain res ys where c: "count_point (Suc i) xs p = (res, ys)" by (meson prod.exhaust)
  have IH: "before_rules (Suc i) (map state_of xs) p = (res, map state_of ys)"
    using Cons c by simp
  consider (past) "Nth r \<le> int c" | (more) "int c < Nth r" "int c + 1 \<noteq> Nth r"
    | (now) "int c < Nth r" "int c + 1 = Nth r"
    by linarith
  then show ?case
  proof cases
    case past
    then have "triggered (state_of (r, c))" "state_of (r, Suc c) = state_of (r, c)"
      by (simp_all add: state_of_def)
    then show ?thesis using past c IH x by (simp add: Let_def)
  next
    case more
    then have "state_of (r, c) = \<lparr>rule = r, matchCount = int c, triggered = False\<rparr>"
      "state_of (r, Suc c) = \<lparr>rule = r, matchCount = int c + 1, triggered = False\<rparr>"
      by (simp_all add: state_of_def)
    then show ?thesis using more c IH x m w by (simp add: Let_def)
  next
    case now
    then have "state_of (r, c) = \<lparr>rule = r, matchCount = int c, triggered = False\<rparr>"
      "state_of (r, Suc c) = \<lparr>rule = r, matchCount = int c + 1, triggered = True\<rparr>"
      by (simp_all add: state_of_def)
    then show ?thesis using now c IH x m w by (simp add: Let_def injected_def)
  qed
qed simp

lemma count_point_length: "length (snd (count_point i xs p)) = length xs"
  by (induction i xs p rule: count_point.induct) (auto split: prod.split)

lemma count_point_fst: "map fst (snd (count_point i xs p)) = map fst xs"
  by (induction i xs p rule: count_point.induct) (auto split: prod.split)

lemma injected_inject [simp]: "injected i r p = injected j r' p' \<longleftrightarrow> i = j \<and> r = r' \<and> p = p'"
  by (auto simp: injected_def)

definition point_counts :: "nat \<Rightarrow> (FaultRule \<times> nat) list \<Rightarrow> FaultPoint \<Rightarrow> nat \<Rightarrow> bool" where
  "point_counts i xs p k \<longleftrightarrow> rule_matches (fst (xs ! k)) p \<and>
     (\<forall>j < k. fst (count_point i xs p) \<noteq> Some (injected (i + j) (fst (xs ! j)) p))"

lemma count_point_index:
  "fst (count_point i xs p) = Some (injected j r q) \<Longrightarrow> i \<le> j"
  by (induction i xs p rule: count_point.induct) (force split: prod.splits if_splits)+

lemma count_point_spec:
  assumes "k < length xs"
  shows "(fst (count_point i xs p) = Some (injected (i + k) (fst (xs ! k)) p) \<longleftrightarrow>
      point_counts i xs p k \<and> int (snd (xs ! k)) + 1 = Nth (fst (xs ! k))) \<and>
    snd (snd (count_point i xs p) ! k) = snd (xs ! k) + (if point_counts i xs p k then 1 else 0)"
  using assms
proof (induction xs arbitrary: i k)
  case (Cons x xs)
  obtain r c where x: "x = (r, c)" by (cases x)
  obtain res ys where c: "count_point (Suc i) xs p = (res, ys)" by (meson prod.exhaust)
  show ?case
  proof (cases "rule_matches r p \<and> int c + 1 = Nth r")
    case True
    then have "count_point i (x # xs) p = (Some (injected i r p), (r, c + 1) # xs)" using x by simp
    then show ?thesis using True x by (cases k) (auto simp: point_counts_def)
  next
    case False
    then have cp: "count_point i (x # xs) p = (res, (r, if rule_matches r p then c + 1 else c) # ys)"
      using x c by auto
    have no: "res \<noteq> Some (injected i r' q)" for r' q
      using count_point_index [of "Suc i" xs p i] c by fastforce
    show ?thesis
    proof (cases k)
      case 0
      then show ?thesis using cp False no x by (auto simp: point_counts_def)
    next
      case (Suc k')
      have "point_counts i (x # xs) p k = point_counts (Suc i) xs p k'"
        using Suc cp c no by (auto simp: point_counts_def less_Suc_eq_0_disj)
      then show ?thesis using Cons.IH [of k' "Suc i"] Cons.prems Suc cp c by simp
    qed
  qed
qed simp

lemma counts_iff:
  "counts rs ps out i k \<longleftrightarrow> rule_matches (rs ! i) (ps ! k) \<and> (\<forall>j < i. \<not> fires rs ps out j k)"
  by (auto simp: counts_def list_all_iff)

lemma fires_Suc: "fires rs (p # ps) (a # out) i (Suc k) = fires rs ps out i k"
  by (simp add: fires_def)

lemma counts_Suc: "counts rs (p # ps) (a # out) i (Suc k) = counts rs ps out i k"
  by (simp add: counts_iff fires_Suc)

lemma count_upto_Suc:
  "count_upto rs (p # ps) (a # out) i (Suc n) =
     (if counts rs (p # ps) (a # out) i 0 then 1 else 0) + count_upto rs ps out i n"
proof -
  have "[0..<Suc n] = 0 # map Suc [0..<n]" by (simp add: upt_conv_Cons map_Suc_upt)
  then show ?thesis
    unfolding count_upto_def by (simp add: filter_map comp_def counts_Suc)
qed

text \<open>Every answer is nil or the error of a rule; a rule fires at its \<open>Nth\<close> counted point.\<close>

lemma answers_count:
  assumes "\<forall>x \<in> set xs. rule_ok (fst x)" and "k < length ps" and "i < length xs"
    and "out = answers (Some (map state_of xs)) ps" and "rs = map fst xs"
  shows "fires rs ps out i k \<longleftrightarrow>
    counts rs ps out i k \<and> int (snd (xs ! i) + count_upto rs ps out i (Suc k)) = Nth (rs ! i)"
  using assms
proof (induction ps arbitrary: xs k out)
  case (Cons p ps)
  obtain res ys where c: "count_point 0 xs p = (res, ys)" by (meson prod.exhaust)
  have fst_ys: "map fst ys = map fst xs" using count_point_fst [of 0 xs p] c by simp
  have len: "length ys = length xs" using fst_ys by (metis length_map)
  have ok: "\<forall>x \<in> set ys. rule_ok (fst x)"
    using Cons.prems(1) fst_ys by (metis (no_types, lifting) image_iff list.set_map)
  define out' where "out' = answers (Some (map state_of ys)) ps"
  have out: "out = res # out'"
    using Cons.prems(1,4) before_rules_count [of xs 0 p] c by (simp add: before_def out'_def)
  have fire0: "fires rs (p # ps) out j 0 \<longleftrightarrow> res = Some (injected j (fst (xs ! j)) p)" if "j < length xs" for j
    using that Cons.prems(5) by (simp add: fires_def out)
  have count0: "counts rs (p # ps) out j 0 \<longleftrightarrow> point_counts 0 xs p j" if "j < length xs" for j
    using that fire0 Cons.prems(5) c by (auto simp: counts_iff point_counts_def)
  note spec = count_point_spec [OF Cons.prems(3), of 0 p]
  show ?case
  proof (cases k)
    case 0
    have "count_upto rs (p # ps) out i (Suc 0) = (if counts rs (p # ps) out i 0 then 1 else 0)"
      by (simp add: count_upto_def)
    then show ?thesis
      using 0 spec fire0 [OF Cons.prems(3)] count0 [OF Cons.prems(3)] c Cons.prems(3,5) by auto
  next
    case (Suc k')
    have "fires rs ps out' i k' \<longleftrightarrow>
        counts rs ps out' i k' \<and> int (snd (ys ! i) + count_upto rs ps out' i (Suc k')) = Nth (rs ! i)"
      by (rule Cons.IH [OF ok _ _ out'_def]) (use Cons.prems Suc len fst_ys in auto)
    moreover have "snd (ys ! i) = snd (xs ! i) + (if counts rs (p # ps) out i 0 then 1 else 0)"
      using spec c count0 [OF Cons.prems(3)] by simp
    ultimately show ?thesis
      unfolding Suc out fires_Suc counts_Suc count_upto_Suc [of rs p ps res out' i "Suc k'"]
      by (simp add: out algebra_simps)
  qed
qed simp

lemma count_point_res:
  "fst (count_point i xs p) = None \<or>
   (\<exists>j < length xs. fst (count_point i xs p) = Some (injected (i + j) (fst (xs ! j)) p))"
proof (induction xs arbitrary: i)
  case (Cons x xs)
  obtain r c where x: "x = (r, c)" by (cases x)
  obtain res ys where c: "count_point (Suc i) xs p = (res, ys)" by (meson prod.exhaust)
  have now: "fst (count_point i (x # xs) p) = (if rule_matches r p \<and> int c + 1 = Nth r then Some (injected i r p) else res)"
    using x c by simp
  have "res = None \<or> (\<exists>j < length xs. res = Some (injected (Suc i + j) (fst (xs ! j)) p))"
    using Cons.IH [of "Suc i"] c by simp
  then show ?case
    unfolding now using x by (auto intro: exI [of _ 0] exI [of _ "Suc j" for j])
qed simp

lemma answers_attributed:
  assumes "\<forall>x \<in> set xs. rule_ok (fst x)" and "k < length ps" and "rs = map fst xs"
    and "out = answers (Some (map state_of xs)) ps"
  shows "out ! k = None \<or> (\<exists>i < length xs. fires rs ps out i k)"
  using assms
proof (induction ps arbitrary: xs k out)
  case (Cons p ps)
  obtain res ys where c: "count_point 0 xs p = (res, ys)" by (meson prod.exhaust)
  have fst_ys: "map fst ys = map fst xs" using count_point_fst [of 0 xs p] c by simp
  have len: "length ys = length xs" using fst_ys by (metis length_map)
  have ok: "\<forall>x \<in> set ys. rule_ok (fst x)"
    using Cons.prems(1) fst_ys by (metis (no_types, lifting) image_iff list.set_map)
  define out' where "out' = answers (Some (map state_of ys)) ps"
  have out: "out = res # out'"
    using Cons.prems(1,4) before_rules_count [of xs 0 p] c by (simp add: before_def out'_def)
  show ?case
  proof (cases k)
    case 0
    then show ?thesis
      using count_point_res [of 0 xs p] c Cons.prems(3) out by (auto simp: fires_def)
  next
    case (Suc k')
    have "out' ! k' = None \<or> (\<exists>i < length ys. fires rs ps out' i k')"
      by (rule Cons.IH [OF ok _ _ out'_def]) (use Cons.prems Suc fst_ys in auto)
    then show ?thesis using Suc out fires_Suc len by (metis nth_Cons_Suc)
  qed
qed simp

lemma newFaultInjector_states:
  assumes "newFaultInjector rs = Inr fi" and "\<forall>r \<in> set rs. Nth r < 2 ^ 63"
  shows "if rs = [] then fi = None
    else fi = Some (map state_of (map (\<lambda>r. (r, 0)) rs)) \<and> (\<forall>x \<in> set (map (\<lambda>r. (r, 0::nat)) rs). rule_ok (fst x))"
proof (cases "rs = []")
  case True
  then show ?thesis using assms by (simp add: newFaultInjector_def)
next
  case False
  have v: "\<forall>r \<in> set rs. validateFaultRule r = Inr ()"
    using assms(1) validateFaultProfile_iff by (simp add: newFaultInjector_def)
  have "state_of (r, 0) = \<lparr>rule = r, matchCount = 0, triggered = False\<rparr>" if "r \<in> set rs" for r
    using v that validateFaultRule_Nth [of r] by (simp add: state_of_def)
  then show ?thesis
    using assms False v by (auto simp: newFaultInjector_def rule_ok_def)
qed

section \<open>Properties\<close>

definition sample_rule :: "int \<Rightarrow> string \<Rightarrow> FaultRule" where
  "sample_rule n pat = \<lparr>Nth = n, Scope = FaultScopeMutation, Kind = [], PathPattern = pat, RuleErr = None\<rparr>"

definition sample_point :: "string \<Rightarrow> int \<Rightarrow> FaultPoint" where
  "sample_point p i = \<lparr>ptScope = FaultScopeMutation, ptKind = ''create-file'', ptPath = p, ptIndex = i\<rparr>"

definition sample_profile :: FaultProfile where
  "sample_profile = [sample_rule 2 ''/nested/*'', sample_rule 3 '''']"

definition sample_points :: "FaultPoint list" where
  "sample_points = [sample_point ''/nested/a'' 0, sample_point ''/b'' 1, sample_point ''/nested/c'' 2,
     sample_point ''/nested/d'' 3]"

lemma sample_injector:
  "newFaultInjector sample_profile =
     Inr (Some [\<lparr>rule = sample_rule 2 ''/nested/*'', matchCount = 0, triggered = False\<rparr>,
                \<lparr>rule = sample_rule 3 '''', matchCount = 0, triggered = False\<rparr>])"
  by code_simp

text \<open>
  C19: a fault rule injects its error exactly at the \<open>Nth\<close> execution point it counts: whatever
  the other rules of a validated profile are, rule \<open>i\<close> fires at point \<open>k\<close> if and only if it
  matches the point, no rule before it in the profile fires there, and it is the \<open>Nth\<close> point of
  that kind. (A rule does not count a point at which a rule before it fires.)
\<close>

theorem fault_rule_fires_at_nth:
  assumes "newFaultInjector rs = Inr fi" and "\<forall>r \<in> set rs. Nth r < 2 ^ 63"
    and "i < length rs" and "k < length ps"
  shows "fires rs ps (answers fi ps) i k \<longleftrightarrow>
    counts rs ps (answers fi ps) i k \<and> int (count_upto rs ps (answers fi ps) i (Suc k)) = Nth (rs ! i)"
proof -
  let ?xs = "map (\<lambda>r. (r, 0::nat)) rs"
  have fi: "fi = Some (map state_of ?xs)" and ok: "\<forall>x \<in> set ?xs. rule_ok (fst x)"
    using newFaultInjector_states [OF assms(1,2)] assms(3) by (cases "rs = []"; simp)+
  show ?thesis
    using answers_count [OF ok assms(4), of i "answers fi ps" rs] assms(3) fi by (simp add: comp_def)
qed

theorem fault_rule_fires_at_nth_witness:
  "\<exists>fi. newFaultInjector sample_profile = Inr fi \<and>
     fires sample_profile sample_points (answers fi sample_points) 1 3"
proof -
  define fi where "fi =
     Some [\<lparr>rule = sample_rule 2 ''/nested/*'', matchCount = 0, triggered = False\<rparr>,
           \<lparr>rule = sample_rule 3 '''', matchCount = 0, triggered = False\<rparr>]"
  have n: "newFaultInjector sample_profile = Inr fi" unfolding fi_def by (rule sample_injector)
  have lt: "\<forall>r \<in> set sample_profile. Nth r < 2 ^ 63"
    by (simp add: sample_profile_def sample_rule_def)
  have c: "counts sample_profile sample_points (answers fi sample_points) 1 3 \<and>
      int (count_upto sample_profile sample_points (answers fi sample_points) 1 (Suc 3)) = Nth (sample_profile ! 1)"
    unfolding fi_def by code_simp
  have "1 < length sample_profile" "3 < length sample_points"
    by (simp_all add: sample_profile_def sample_points_def)
  then show ?thesis
    using fault_rule_fires_at_nth [OF n lt, of 1 3 sample_points] c n by blast
qed

text \<open>
  An injector built from a validated profile never fails for a reason of its own. At each
  execution point it answers nil or the error of one of its rules, never the error of a
  malformed pattern; so validating the patterns on one probe path covers every path.
\<close>

theorem faults_come_from_rules:
  assumes "newFaultInjector rs = Inr fi" and "\<forall>r \<in> set rs. Nth r < 2 ^ 63" and "k < length ps"
  shows "answers fi ps ! k = None \<or> (\<exists>i < length rs. fires rs ps (answers fi ps) i k)"
proof (cases "rs = []")
  case True
  then have "fi = None" using newFaultInjector_states [OF assms(1,2)] by simp
  moreover have "k < length qs \<Longrightarrow> answers None qs ! k = None" for qs
    by (induction qs arbitrary: k) (auto simp: before_def nth_Cons split: nat.split)
  ultimately show ?thesis using assms(3) by simp
next
  case False
  let ?xs = "map (\<lambda>r. (r, 0::nat)) rs"
  have fi: "fi = Some (map state_of ?xs)" and ok: "\<forall>x \<in> set ?xs. rule_ok (fst x)"
    using newFaultInjector_states [OF assms(1,2)] False by simp_all
  show ?thesis
    using answers_attributed [OF ok assms(3), of rs "answers fi ps"] fi by (simp add: comp_def)
qed

theorem faults_come_from_rules_witness:
  "\<exists>fi. newFaultInjector sample_profile = Inr fi \<and>
     (answers fi sample_points ! 2 = None \<or>
      (\<exists>i < length sample_profile. fires sample_profile sample_points (answers fi sample_points) i 2))"
proof -
  have lt: "\<forall>r \<in> set sample_profile. Nth r < 2 ^ 63"
    by (simp add: sample_profile_def sample_rule_def)
  have "2 < length sample_points" by (simp add: sample_points_def)
  then show ?thesis using faults_come_from_rules [OF sample_injector lt] sample_injector by blast
qed

end
