(* ===== verification/Executor.thy ===== *)
theory Executor
  imports Go_FS Mutation_Plan Faults
begin

text \<open>
  The executor of operation streams (\<^verbatim>\<open>mutate.go\<close>): from a path of an operation to a path of the
  file system, the checks against leaving the base, \<open>applyOperation\<close> with its thirteen kinds, and
  \<open>ApplyOperationsWithOptions\<close> with faults and resumption. The file system is the one of
  \<open>Go_FS\<close>; a check only reads it.
\<close>

section \<open>Paths and checks\<close>

definition ensurePathWithinBase :: "string \<Rightarrow> string \<Rightarrow> err + unit" where
  "ensurePathWithinBase basePath path =
     (case Rel basePath path of
        Inl e \<Rightarrow> FailW ''failed to derive relative path'' ErrOperationPathEscapesBase
      | Inr rel \<Rightarrow>
          if rel = dotdot \<or> HasPrefix rel (dotdot @ [slash])
          then FailW '''' ErrOperationPathEscapesBase
          else Inr ())"

definition operationPathToFS :: "string \<Rightarrow> string \<Rightarrow> err + string" where
  "operationPathToFS basePath path =
     (let cleanBase = Clean basePath in
      if path = ''/'' then Inr cleanBase
      else let relPath = TrimPrefix path ''/'' in
        if relPath = [] then FailW ''empty relative path'' ErrOperationPathEscapesBase
        else let fullPath = Join2 cleanBase relPath in
          bindE (ensurePathWithinBase cleanBase fullPath) (\<lambda>_. Inr fullPath))"

text \<open>The loop over the components between the base and the parent.\<close>

fun check_parents :: "kernel \<Rightarrow> fsys \<Rightarrow> string \<Rightarrow> string list \<Rightarrow> err + unit" where
  "check_parents k fs current [] = Inr ()"
| "check_parents k fs current (component # rest) =
     (if component = [] \<or> component = dot then check_parents k fs current rest
      else let current = Join2 current component in
        bindE (wrapE ''failed to inspect parent component'' (os_Lstat k current fs)) (\<lambda>info.
        if IsSymlink info then FailW '''' ErrOperationPathSymlinkParent
        else if \<not> IsDir info then Err ''parent component is not a directory''
        else check_parents k fs current rest))"

definition ensureNoSymlinkParents :: "kernel \<Rightarrow> string \<Rightarrow> string \<Rightarrow> fsys \<Rightarrow> err + unit" where
  "ensureNoSymlinkParents k basePath path fs =
     (let cleanBase = Clean basePath; cleanPath = Clean path in
      bindE (ensurePathWithinBase cleanBase cleanPath) (\<lambda>_.
      if cleanPath = cleanBase then Inr ()
      else let parent = Dir cleanPath in
        if parent = cleanPath then Inr ()
        else bindE (wrapE ''failed to derive parent path'' (Rel cleanBase parent)) (\<lambda>relParent.
          if relParent = dot then Inr ()
          else check_parents k fs cleanBase (Split slash relParent))))"

definition ensureParentDirectory :: "kernel \<Rightarrow> string \<Rightarrow> fsys \<Rightarrow> err + unit" where
  "ensureParentDirectory k path fs =
     bindE (wrapE ''failed to inspect parent'' (os_Stat k (Dir path) fs)) (\<lambda>parentInfo.
     if \<not> IsDir parentInfo then Err ''parent is not a directory'' else Inr ())"

definition ensureRegularFile :: "kernel \<Rightarrow> string \<Rightarrow> fsys \<Rightarrow> err + inode" where
  "ensureRegularFile k path fs =
     bindE (wrapE ''failed to inspect path'' (os_Lstat k path fs)) (\<lambda>info.
     if \<not> IsRegular info then Err ''path is not a regular file'' else Inr info)"

definition pathExists :: "kernel \<Rightarrow> string \<Rightarrow> fsys \<Rightarrow> err + bool" where
  "pathExists k path fs =
     (case os_Lstat k path fs of
        Inr info \<Rightarrow> Inr True
      | Inl e \<Rightarrow> if errors_Is e ENOENT then Inr False else Inl e)"

section \<open>Writing parts of files\<close>

text \<open>
  \<open>deferred_close\<close> is the deferred \<^verbatim>\<open>Close\<close>: its error counts only when the body had none.
\<close>

definition deferred_close :: "kernel \<Rightarrow> handle \<Rightarrow> string \<Rightarrow> unit fsop \<Rightarrow> unit fsop" where
  "deferred_close k f msg body fs =
     (case body fs of
        (r, fs') \<Rightarrow>
          (case fd_Close k f fs' of
             (Inl closeErr, fs'') \<Rightarrow> (if is_ok r then Inl (Errorf msg (Some closeErr)) else r, fs'')
           | (Inr _, fs'') \<Rightarrow> (r, fs'')))"

definition appendToOperationFile :: "kernel \<Rightarrow> string \<Rightarrow> 8 word list \<Rightarrow> unit fsop" where
  "appendToOperationFile k fsPath data =
     bindS (wrapS ''failed to open append target'' (os_OpenFile k fsPath)) (\<lambda>f.
     deferred_close k f ''failed to finalize append''
       (bindS (wrapS ''failed to append'' (fd_Append k f data)) (\<lambda>nWritten.
        if nWritten \<noteq> int (length data) then raiseS (Errorf ''append wrote fewer bytes than expected'' None)
        else returnS ())))"

definition overwriteOperationFile :: "kernel \<Rightarrow> string \<Rightarrow> int \<Rightarrow> 8 word list \<Rightarrow> unit fsop" where
  "overwriteOperationFile k fsPath offset data =
     bindS (wrapS ''failed to open overwrite target'' (os_OpenFile k fsPath)) (\<lambda>f.
     deferred_close k f ''failed to finalize overwrite''
       (bindS (wrapS ''failed to overwrite'' (fd_WriteAt k f data offset)) (\<lambda>nWritten.
        if nWritten \<noteq> int (length data) then raiseS (Errorf ''overwrite-range wrote fewer bytes than expected'' None)
        else returnS ())))"

section \<open>Extended attributes\<close>

text \<open>The mapping of \<^verbatim>\<open>errno\<close> to the sentinels of the package; it drops the cause for the named ones.\<close>

definition map_xattr_error :: "string \<Rightarrow> err \<Rightarrow> err" where
  "map_xattr_error msg e =
     (if errors_Is e EPERM \<or> errors_Is e EACCES then Errorf '''' (Some (Sentinel ErrXAttrPermissionDenied))
      else if errors_Is e ENOTSUP \<or> errors_Is e EINVAL then Errorf '''' (Some (Sentinel ErrXAttrUnsupported))
      else Errorf msg (Some e))"

definition map_errS :: "(err \<Rightarrow> err) \<Rightarrow> ('s, 'a) sem \<Rightarrow> ('s, 'a) sem" where
  "map_errS f m s = (case m s of (Inl e, t) \<Rightarrow> (Inl (f e), t) | (Inr x, t) \<Rightarrow> (Inr x, t))"

definition setPathXAttr :: "kernel \<Rightarrow> string \<Rightarrow> string \<Rightarrow> 8 word list \<Rightarrow> unit fsop" where
  "setPathXAttr k path name value =
     bindS (liftS (validateXAttrName name)) (\<lambda>normalizedName.
     map_errS (map_xattr_error ''failed to set xattr'') (Lsetxattr k path normalizedName value))"

definition removePathXAttr :: "kernel \<Rightarrow> string \<Rightarrow> string \<Rightarrow> unit fsop" where
  "removePathXAttr k path name =
     bindS (liftS (validateXAttrName name)) (\<lambda>normalizedName.
     map_errS (map_xattr_error ''failed to remove xattr'') (Lremovexattr k path normalizedName))"

section \<open>One operation\<close>

text \<open>The two checks before something is created: the parent is a directory, the path is free.\<close>

definition check_free :: "kernel \<Rightarrow> string \<Rightarrow> string \<Rightarrow> string \<Rightarrow> string \<Rightarrow> fsys \<Rightarrow> err + unit" where
  "check_free k path parentMsg checkMsg existsMsg fs =
     bindE (wrapE parentMsg (ensureParentDirectory k path fs)) (\<lambda>_.
     bindE (wrapE checkMsg (pathExists k path fs)) (\<lambda>exists.
     if exists then Err existsMsg else Inr ()))"

definition applyOperation :: "kernel \<Rightarrow> string \<Rightarrow> Operation \<Rightarrow> unit fsop" where
  "applyOperation k basePath op =
     bindS (wrapS ''invalid operation path'' (liftS (operationPathToFS basePath (opPath op)))) (\<lambda>path.
     bindS (wrapS ''operation path'' (readS (ensureNoSymlinkParents k basePath path))) (\<lambda>_.
     case opKind op of
       OperationKindCreateFile \<Rightarrow>
         bindS (readS (check_free k path ''create-file parent check failed'' ''create-file path check failed''
                  ''create-file path already exists'')) (\<lambda>_.
         wrapS ''failed to write file'' (os_WriteFile k path (opData op) (opMode op)))
     | OperationKindCreateDir \<Rightarrow>
         bindS (readS (check_free k path ''create-dir parent check failed'' ''create-dir path check failed''
                  ''create-dir path already exists'')) (\<lambda>_.
         wrapS ''failed to create directory'' (os_Mkdir k path (opMode op)))
     | OperationKindCreateSymlink \<Rightarrow>
         bindS (readS (check_free k path ''create-symlink parent check failed''
                  ''create-symlink path check failed'' ''create-symlink path already exists'')) (\<lambda>_.
         wrapS ''failed to create symlink'' (os_Symlink k (opLinkTarget op) path))
     | OperationKindCreateHardlink \<Rightarrow>
         bindS (wrapS ''invalid hardlink source path'' (liftS (operationPathToFS basePath (opSourcePath op)))) (\<lambda>source.
         bindS (wrapS ''hardlink source path'' (readS (ensureNoSymlinkParents k basePath source))) (\<lambda>_.
         bindS (readS (check_free k path ''create-hardlink parent check failed''
                  ''create-hardlink path check failed'' ''create-hardlink path already exists'')) (\<lambda>_.
         bindS (wrapS ''failed to inspect hardlink source'' (readS (os_Lstat k source))) (\<lambda>sourceInfo.
         if \<not> IsRegular sourceInfo then raiseS (Errorf ''hardlink source is not a regular file'' None)
         else wrapS ''failed to create hardlink'' (os_Link k source path)))))
     | OperationKindDelete \<Rightarrow>
         bindS (wrapS ''failed to inspect delete path'' (readS (os_Lstat k path))) (\<lambda>info.
         if IsDir info then wrapS ''failed to remove directory'' (os_RemoveAll k path)
         else wrapS ''failed to remove path'' (os_Remove k path))
     | OperationKindRename \<Rightarrow>
         bindS (wrapS ''invalid rename destination path'' (liftS (operationPathToFS basePath (opDestination op)))) (\<lambda>destination.
         bindS (wrapS ''rename destination path'' (readS (ensureNoSymlinkParents k basePath destination))) (\<lambda>_.
         bindS (wrapS ''failed to inspect rename source'' (readS (os_Lstat k path))) (\<lambda>sourceInfo.
         if IsDir sourceInfo \<and> isChildMutationPath (opDestination op) (opPath op)
         then raiseS (Errorf ''rename destination is inside source directory'' None)
         else bindS (readS (check_free k destination ''rename destination parent check failed''
                  ''rename destination check failed'' ''rename destination already exists'')) (\<lambda>_.
              wrapS ''failed to rename'' (os_Rename k path destination)))))
     | OperationKindChmod \<Rightarrow>
         bindS (wrapS ''failed to inspect chmod path'' (readS (os_Lstat k path))) (\<lambda>_.
         wrapS ''failed to chmod'' (os_Chmod k path (opMode op)))
     | OperationKindChown \<Rightarrow>
         bindS (wrapS ''failed to inspect chown path'' (readS (os_Lstat k path))) (\<lambda>_.
         wrapS ''failed to chown'' (os_Lchown k path (opUID op) (opGID op)))
     | OperationKindTruncate \<Rightarrow>
         bindS (wrapS ''truncate'' (readS (ensureRegularFile k path))) (\<lambda>_.
         wrapS ''failed to truncate'' (os_Truncate k path (opSize op)))
     | OperationKindAppend \<Rightarrow>
         bindS (wrapS ''append'' (readS (ensureRegularFile k path))) (\<lambda>_.
         appendToOperationFile k path (opData op))
     | OperationKindOverwriteRange \<Rightarrow>
         bindS (wrapS ''overwrite-range'' (readS (ensureRegularFile k path))) (\<lambda>info.
         if opOffset op > Size info then raiseS (Errorf ''overwrite-range offset exceeds file size'' None)
         else overwriteOperationFile k path (opOffset op) (opData op))
     | OperationKindSetXAttr \<Rightarrow>
         bindS (wrapS ''failed to inspect set-xattr path'' (readS (os_Lstat k path))) (\<lambda>_.
         wrapS ''set-xattr'' (setPathXAttr k path (opXAttrName op) (opXAttrValue op)))
     | OperationKindRemoveXAttr \<Rightarrow>
         bindS (wrapS ''failed to inspect remove-xattr path'' (readS (os_Lstat k path))) (\<lambda>_.
         wrapS ''remove-xattr'' (removePathXAttr k path (opXAttrName op)))
     | OperationKindUnknown n \<Rightarrow> raiseS (Errorf '''' (Some (Sentinel ErrUnsupportedOperation)))))"

section \<open>The stream\<close>

text \<open>The cause is an error of the operation or what the injector answered.\<close>

datatype applyCause = OperationFailed err | FaultAnswered fault_error

definition cause_err :: "applyCause \<Rightarrow> err" where
  "cause_err c = (case c of OperationFailed e \<Rightarrow> e | FaultAnswered f \<Rightarrow> fault_err f)"

record OperationApplyError =
  aeIndex :: int
  aeOperation :: Operation
  aeSpec :: string
  aeErr :: applyCause
  aeSpecOps :: "Operation list"

datatype applyError = PlainError err | ApplyError OperationApplyError

text \<open>\<^verbatim>\<open>Unwrap\<close>\<close>

definition ApplyError_Unwrap :: "OperationApplyError option \<Rightarrow> err option" where
  "ApplyError_Unwrap e = map_option (\<lambda>e. cause_err (aeErr e)) e"

definition newOperationApplyError :: "int \<Rightarrow> Operation \<Rightarrow> Operation list \<Rightarrow> applyCause \<Rightarrow> applyError" where
  "newOperationApplyError index op ops err =
     ApplyError \<lparr>aeIndex = index, aeOperation = op, aeSpec = [], aeErr = err, aeSpecOps = ops\<rparr>"

text \<open>\<open>marshalMap\<close> encodes the one-entry map with the message of the export error.\<close>

definition ReplaySpec ::
  "(operationSpec \<Rightarrow> err + string) \<Rightarrow> (err \<Rightarrow> err + string) \<Rightarrow> OperationApplyError option
     \<Rightarrow> string \<times> OperationApplyError option" where
  "ReplaySpec marshal marshalMap e =
     (case e of
        None \<Rightarrow> ([], None)
      | Some e \<Rightarrow>
          if aeSpec e \<noteq> [] \<or> length (aeSpecOps e) = 0 then (aeSpec e, Some e)
          else let spec = (case ExportOperationSpec marshal (aeSpecOps e) of
                     Inl specErr \<Rightarrow>
                       (case marshalMap specErr of
                          Inl marshalErr \<Rightarrow> ''{\"exportError\":\"<unencodable>\"}''
                        | Inr fallback \<Rightarrow> fallback)
                   | Inr spec \<Rightarrow> spec)
            in (spec, Some (e\<lparr>aeSpec := spec, aeSpecOps := []\<rparr>)))"

definition operationPathLabel :: "Operation \<Rightarrow> string" where
  "operationPathLabel op =
     (case opKind op of
        OperationKindRename \<Rightarrow> opPath op @ ''->'' @ opDestination op
      | OperationKindCreateHardlink \<Rightarrow> opPath op @ ''<- '' @ opSourcePath op
      | _ \<Rightarrow> opPath op)"

record OperationApplyOptions =
  StartIndex :: int
  aoFaultProfile :: FaultProfile

definition validateApplyOptions :: "OperationApplyOptions \<Rightarrow> int \<Rightarrow> err + unit" where
  "validateApplyOptions o' operationCount =
     (if StartIndex o' < 0 then Fail ErrOperationStartIndexNegative
      else if StartIndex o' > operationCount then Fail ErrOperationStartIndexOutOfRange
      else wrapE ''invalid operation apply fault profile'' (validateFaultProfile (aoFaultProfile o')))"

fun apply_loop ::
  "kernel \<Rightarrow> string \<Rightarrow> Operation list \<Rightarrow> nat \<Rightarrow> Operation list \<Rightarrow> executionContext \<Rightarrow> fsys
     \<Rightarrow> applyError option \<times> fsys" where
  "apply_loop k basePath ops i [] execCtx fs = (None, fs)"
| "apply_loop k basePath ops i (op # rest) execCtx fs =
     (case normalizeOperation op of
        Inl normalizeErr \<Rightarrow>
          (Some (newOperationApplyError (int i) op ops
                   (OperationFailed (Errorf ''invalid operation'' (Some normalizeErr)))), fs)
      | Inr normalized \<Rightarrow>
          (case ctx_before FaultScopeMutation (int i) (OperationKind_String (opKind normalized))
                  (opPath normalized) execCtx of
             (Some e, execCtx') \<Rightarrow> (Some (newOperationApplyError (int i) normalized ops (FaultAnswered e)), fs)
           | (None, execCtx') \<Rightarrow>
               (case applyOperation k basePath normalized fs of
                  (Inl e, fs') \<Rightarrow> (Some (newOperationApplyError (int i) normalized ops (OperationFailed e)), fs')
                | (Inr _, fs') \<Rightarrow> apply_loop k basePath ops (Suc i) rest execCtx' fs')))"

definition ApplyOperationsWithOptions ::
  "kernel \<Rightarrow> string \<Rightarrow> Operation list \<Rightarrow> OperationApplyOptions \<Rightarrow> fsys \<Rightarrow> applyError option \<times> fsys" where
  "ApplyOperationsWithOptions k basePath ops opts fs =
     (if TrimSpace basePath = [] then (Some (PlainError (Sentinel ErrBasePathEmpty)), fs)
      else case validateApplyOptions opts (int (length ops)) of
        Inl e \<Rightarrow> (Some (PlainError e), fs)
      | Inr _ \<Rightarrow>
          if StartIndex opts = int (length ops) then (None, fs)
          else (case os_Lstat k basePath fs of
            Inl e \<Rightarrow> (Some (PlainError (Errorf ''failed to inspect base path'' (Some e))), fs)
          | Inr baseInfo \<Rightarrow>
              if IsSymlink baseInfo
              then (Some (PlainError (Errorf ''base path'' (Some (Sentinel ErrBasePathSymlink)))), fs)
              else if \<not> IsDir baseInfo
              then (Some (PlainError (Errorf ''base path is not a directory'' None)), fs)
              else (case newExecutionContext (aoFaultProfile opts) of
                Inl e \<Rightarrow> (Some (PlainError e), fs)
              | Inr execCtx \<Rightarrow>
                  apply_loop k basePath ops (nat (StartIndex opts)) (drop (nat (StartIndex opts)) ops)
                    execCtx fs)))"

definition ApplyOperations :: "kernel \<Rightarrow> string \<Rightarrow> Operation list \<Rightarrow> fsys \<Rightarrow> applyError option \<times> fsys" where
  "ApplyOperations k basePath ops fs =
     ApplyOperationsWithOptions k basePath ops \<lparr>StartIndex = 0, aoFaultProfile = []\<rparr> fs"

end
