(* ===== verification/FS_Frame.thy ===== *)
theory FS_Frame
  imports Go_FS
begin

text \<open>
  What a call of the file system can change. \<open>confined bs\<close> relates a state to a later one in which
  the entries outside of the directory \<open>bs\<close> (and \<open>bs\<close> itself) are as before, and so is every
  inode that has no name at or below \<open>bs\<close>; no directory became anything else. Each call keeps to it when the
  place it acts on is below \<open>bs\<close>. \<open>conf\<close> says it of an operation, with one rule per construct.
\<close>

section \<open>The relation\<close>

definition inodes_ok :: "fsys \<Rightarrow> bool" where
  "inodes_ok fs \<longleftrightarrow> list_all (\<lambda>e. snd e < nextino fs) (ents fs)"

definition strictly_below :: "string list \<Rightarrow> string list \<Rightarrow> bool" where
  "strictly_below p q \<longleftrightarrow> below p q \<and> q \<noteq> p"

text \<open>The inode \<open>i\<close> has a name at or below \<open>bs\<close>.\<close>

definition linked :: "string list \<Rightarrow> fsys \<Rightarrow> nat \<Rightarrow> bool" where
  "linked bs fs i \<longleftrightarrow> list_ex (\<lambda>e. below bs (fst e) \<and> snd e = i) (ents fs)"

definition confined :: "string list \<Rightarrow> fsys \<Rightarrow> fsys \<Rightarrow> bool" where
  "confined bs fs fs' \<longleftrightarrow>
     (\<forall>q. \<not> strictly_below bs q \<longrightarrow> map_of (ents fs') q = map_of (ents fs) q) \<and>
     (\<forall>i < nextino fs. \<not> linked bs fs i \<longrightarrow> inos fs' i = inos fs i) \<and>
     (\<forall>i < nextino fs. (node (inos fs' i) = NDir) = (node (inos fs i) = NDir)) \<and>
     (\<forall>i. linked bs fs' i \<longrightarrow> linked bs fs i \<or> nextino fs \<le> i) \<and>
     nextino fs \<le> nextino fs' \<and> inodes_ok fs'"

lemma linked_iff: "linked bs fs i \<longleftrightarrow> (\<exists>e \<in> set (ents fs). below bs (fst e) \<and> snd e = i)"
  by (simp add: linked_def list_ex_iff)

lemma inodes_ok_iff: "inodes_ok fs \<longleftrightarrow> (\<forall>e \<in> set (ents fs). snd e < nextino fs)"
  by (simp add: inodes_ok_def list_all_iff)

lemma inodes_ok_lookup: "inodes_ok fs \<Longrightarrow> map_of (ents fs) q = Some i \<Longrightarrow> i < nextino fs"
  by (drule map_of_SomeD) (auto simp: inodes_ok_iff)

lemma confined_refl [simp]: "inodes_ok fs \<Longrightarrow> confined bs fs fs"
  by (simp add: confined_def)

lemma linked_touch [simp]: "linked bs (touch_at q fs) = linked bs fs"
  by (simp add: linked_def fun_eq_iff)

lemma inodes_ok_touch [simp]: "inodes_ok (touch_at q fs) = inodes_ok fs"
  by (simp add: inodes_ok_def)

lemma confined_touch [simp]: "confined bs fs (touch_at q fs') = confined bs fs fs'"
  by (simp add: confined_def)

lemma confined_fold_touch [simp]: "confined bs fs (fold (\<lambda>e. touch_at (g e)) es fs') = confined bs fs fs'"
  by (simp add: confined_def linked_def inodes_ok_def)

lemma confined_inodes: "confined bs fs fs' \<Longrightarrow> inodes_ok fs'"
  by (simp add: confined_def)

lemma confinedI:
  assumes "\<And>q. \<not> strictly_below bs q \<Longrightarrow> map_of (ents fs') q = map_of (ents fs) q"
    and "\<And>i. i < nextino fs \<Longrightarrow> \<not> linked bs fs i \<Longrightarrow> inos fs' i = inos fs i"
    and "\<And>i. i < nextino fs \<Longrightarrow> (node (inos fs' i) = NDir) = (node (inos fs i) = NDir)"
    and "\<And>i. linked bs fs' i \<Longrightarrow> linked bs fs i \<or> nextino fs \<le> i"
    and "nextino fs \<le> nextino fs'" and "inodes_ok fs'"
  shows "confined bs fs fs'"
  using assms by (simp add: confined_def)

lemma confinedD:
  assumes "confined bs fs fs'"
  shows "\<not> strictly_below bs q \<Longrightarrow> map_of (ents fs') q = map_of (ents fs) q"
    and "i < nextino fs \<Longrightarrow> \<not> linked bs fs i \<Longrightarrow> inos fs' i = inos fs i"
    and "i < nextino fs \<Longrightarrow> (node (inos fs' i) = NDir) = (node (inos fs i) = NDir)"
    and "linked bs fs' i \<Longrightarrow> linked bs fs i \<or> nextino fs \<le> i"
    and "nextino fs \<le> nextino fs'" and "inodes_ok fs'"
  using assms by (simp_all add: confined_def)

lemma confined_trans:
  assumes "confined bs fs fs'" and "confined bs fs' fs''"
  shows "confined bs fs fs''"
proof (rule confinedI)
  note d = confinedD [OF assms(1)] and e = confinedD [OF assms(2)]
  fix i assume i: "i < nextino fs"
  then have i': "i < nextino fs'" using d(5) by simp
  show "(node (inos fs'' i) = NDir) = (node (inos fs i) = NDir)" using e(3) [OF i'] d(3) [OF i] by simp
  assume l: "\<not> linked bs fs i"
  then have "\<not> linked bs fs' i" using d(4) [of i] i by auto
  then show "inos fs'' i = inos fs i" using e(2) [OF i'] d(2) [OF i l] by simp
next
  note d = confinedD [OF assms(1)] and e = confinedD [OF assms(2)]
  show "linked bs fs i \<or> nextino fs \<le> i" if "linked bs fs'' i" for i
    using e(4) [OF that] d(4) [of i] d(5) by auto
  show "map_of (ents fs'') q = map_of (ents fs) q" if "\<not> strictly_below bs q" for q
    using d(1) [OF that] e(1) [OF that] by simp
  show "nextino fs \<le> nextino fs''" using d(5) e(5) by simp
  show "inodes_ok fs''" by (rule e(6))
qed

text \<open>Outside of \<open>bs\<close> nothing looks different, unless it shares an inode with the inside.\<close>

lemma confined_lookup:
  assumes c: "confined bs fs fs'" and ok: "inodes_ok fs" and q: "\<not> below bs q"
    and i: "\<And>i. map_of (ents fs) q = Some i \<Longrightarrow> \<not> linked bs fs i"
  shows "lookup fs' q = lookup fs q"
proof (cases "map_of (ents fs) q")
  case None
  then show ?thesis using c q by (simp add: confined_def strictly_below_def lookup_def)
next
  case (Some j)
  then have "j < nextino fs" "\<not> linked bs fs j" using inodes_ok_lookup [OF ok] i by blast+
  then show ?thesis using c q Some by (simp add: confined_def strictly_below_def lookup_def)
qed

lemma confined_dir:
  assumes c: "confined bs fs fs'" and ok: "inodes_ok fs" and q: "\<not> strictly_below bs q"
  shows "dir_at fs' q = dir_at fs q"
proof (cases "map_of (ents fs) q")
  case None
  then show ?thesis using c q by (simp add: confined_def dir_at_def lookup_def)
next
  case (Some j)
  then have "j < nextino fs" using inodes_ok_lookup [OF ok] by blast
  then show ?thesis using c q Some by (simp add: confined_def dir_at_def lookup_def)
qed

lemma not_strictly_below_take: "\<not> strictly_below bs (take i bs)"
  by (auto simp: strictly_below_def below_def)

lemma confined_phys: "confined bs fs fs' \<Longrightarrow> inodes_ok fs \<Longrightarrow> phys fs' bs = phys fs bs"
  by (simp add: phys_iff confined_dir not_strictly_below_take)

section \<open>The steps\<close>

lemma confined_add:
  assumes "inodes_ok fs" and "strictly_below bs q"
  shows "confined bs fs (add_entry k q n mode fs)"
  using assms by (auto simp: confined_def add_entry_def linked_iff inodes_ok_iff less_Suc_eq)

lemma confined_link:
  assumes "inodes_ok fs" and "strictly_below bs q" and "below bs p" and "map_of (ents fs) p = Some i"
  shows "confined bs fs (fs\<lparr>ents := (q, i) # ents fs\<rparr>)"
  using assms(1,2) inodes_ok_lookup [OF assms(1,4)] bexI [OF _ map_of_SomeD [OF assms(4)], of "\<lambda>e. below bs (fst e) \<and> snd e = i"] assms(3)
  by (auto simp: confined_def linked_iff inodes_ok_iff)

lemma confined_filter:
  assumes "inodes_ok fs" and "\<And>q. \<not> strictly_below bs q \<Longrightarrow> P q"
  shows "confined bs fs (fs\<lparr>ents := filter (\<lambda>e. P (fst e)) (ents fs)\<rparr>)"
proof -
  have "map_of (filter (\<lambda>e. P (fst e)) es) q = (if P q then map_of es q else None)" for es :: "(string list \<times> nat) list" and q
    by (induction es) auto
  moreover have "linked bs fs i" if "linked bs (fs\<lparr>ents := filter (\<lambda>e. P (fst e)) (ents fs)\<rparr>) i" for i
    using that by (force simp: linked_iff)
  ultimately show ?thesis using assms by (auto simp: confined_def inodes_ok_iff)
qed

lemma confined_upd:
  assumes "inodes_ok fs" and "below bs q" and "\<And>i. lookup fs q = Some i \<Longrightarrow> (node (f i) = NDir) = (node i = NDir)"
  shows "confined bs fs (upd_inode q f fs)"
proof (cases "map_of (ents fs) q")
  case None
  then show ?thesis using assms(1) by (simp add: upd_inode_def)
next
  case (Some i)
  then have "linked bs fs i" using assms(2) by (force simp: linked_iff dest: map_of_SomeD)
  then show ?thesis
    using Some assms by (auto simp: upd_inode_def confined_def linked_iff inodes_ok_iff lookup_def)
qed

lemma map_of_move_outside:
  "\<not> below p x \<Longrightarrow> \<not> below q x \<Longrightarrow> map_of (map (move_entry p q) es) x = map_of es x"
  by (induction es) (auto simp: move_entry_def)

lemma strictly_below_trans: "strictly_below bs p \<Longrightarrow> below p x \<Longrightarrow> strictly_below bs x"
  unfolding strictly_below_def below_def
  by (metis (no_types, lifting) length_take min.absorb2 min.cobounded1 nat_le_linear take_all take_take)

lemma confined_move:
  assumes ok: "inodes_ok fs" and p: "strictly_below bs p" and q: "strictly_below bs q"
  shows "confined bs fs (fs\<lparr>ents := map (move_entry p q) (filter (\<lambda>e. fst e \<noteq> q) (ents fs))\<rparr>)"
proof -
  have out: "map_of (map (move_entry p q) (filter (\<lambda>e. fst e \<noteq> q) es)) x = map_of es x"
    if "\<not> strictly_below bs x" for x and es :: "(string list \<times> nat) list"
  proof -
    have nb: "\<not> below p x" "\<not> below q x" using that strictly_below_trans p q by blast+
    then have "x \<noteq> q" by (auto simp: below_def)
    then have "map_of (filter (\<lambda>e. fst e \<noteq> q) es) x = map_of es x" by (induction es) auto
    then show ?thesis using map_of_move_outside [OF nb] by simp
  qed
  have inside: "linked bs fs (snd e)" if "e \<in> set (ents fs)" "below bs (fst (move_entry p q e))" for e
  proof -
    have "below bs (fst e)"
      using that(2) strictly_below_trans [OF p, of "fst e"] by (auto simp: move_entry_def strictly_below_def split: if_splits)
    then show ?thesis using that(1) by (auto simp: linked_iff)
  qed
  have snd: "snd (move_entry p q e) = snd e" for e by (simp add: move_entry_def)
  show ?thesis
    unfolding confined_def using ok out inside
    by (auto simp: linked_iff [of _ "_\<lparr>ents := _\<rparr>"] inodes_ok_iff snd)
qed

section \<open>Operations\<close>

definition conf :: "string list \<Rightarrow> fsys \<Rightarrow> 'a fsop \<Rightarrow> bool" where
  "conf bs fs m \<longleftrightarrow> (inodes_ok fs \<longrightarrow> confined bs fs (snd (m fs)))"

named_theorems confine

lemma conf_bind:
  assumes "conf bs fs m" and "\<And>x fs'. m fs = (Inr x, fs') \<Longrightarrow> confined bs fs fs' \<Longrightarrow> conf bs fs' (g x)"
  shows "conf bs fs (bindS m g)"
  unfolding conf_def
proof
  assume ok: "inodes_ok fs"
  obtain r fs' where m: "m fs = (r, fs')" by (meson prod.exhaust)
  have c: "confined bs fs fs'" using assms(1) ok m by (simp add: conf_def)
  show "confined bs fs (snd (bindS m g fs))"
  proof (cases r)
    case (Inl e)
    then show ?thesis using m c by (simp add: bindS_def)
  next
    case (Inr x)
    then have "confined bs fs' (snd (g x fs'))"
      using assms(2) [of x fs'] m c confined_inodes [OF c] by (simp add: conf_def)
    then show ?thesis using m Inr confined_trans [OF c] by (simp add: bindS_def)
  qed
qed

lemma conf_read_bind [confine]:
  assumes "\<And>x. f fs = Inr x \<Longrightarrow> conf bs fs (g x)"
  shows "conf bs fs (bindS (readS f) g)"
  using assms by (cases "f fs") (simp_all add: conf_def bindS_def readS_def)

lemma conf_lift_bind [confine]:
  assumes "\<And>x. r = Inr x \<Longrightarrow> conf bs fs (g x)"
  shows "conf bs fs (bindS (liftS r) g)"
  using assms by (cases r) (simp_all add: conf_def bindS_def liftS_def)

lemma conf_wrap [confine]: "conf bs fs m \<Longrightarrow> conf bs fs (wrapS msg m)"
  by (auto simp: conf_def wrapS_def split: prod.split)

lemma conf_read [confine]: "conf bs fs (readS f)"
  by (simp add: conf_def readS_def)

lemma conf_lift [confine]: "conf bs fs (liftS f)"
  by (simp add: conf_def liftS_def)

lemma conf_raise [confine]: "conf bs fs (raiseS e)"
  by (simp add: conf_def raiseS_def)

lemma conf_return [confine]: "conf bs fs (returnS x)"
  by (simp add: conf_def returnS_def)

lemma conf_if [confine]:
  "(b \<Longrightarrow> conf bs fs m) \<Longrightarrow> (\<not> b \<Longrightarrow> conf bs fs m') \<Longrightarrow> conf bs fs (if b then m else m')"
  by simp

lemma wrap_read: "wrapS msg (readS f) = readS (\<lambda>s. wrapE msg (f s))"
  by (rule ext) (simp add: wrapS_def readS_def)

lemma wrap_lift: "wrapS msg (liftS r) = liftS (wrapE msg r)"
  by (rule ext) (simp add: wrapS_def liftS_def)

lemma conf_touch [confine]: "conf bs fs (modifyS (touch_at q))"
  by (simp add: conf_def modifyS_def)

lemma conf_os_call:
  assumes "\<And>q. resolve k fs follow p = Inr q \<Longrightarrow> conf bs fs (f q)"
  shows "conf bs fs (os_call k name follow p f)"
  unfolding os_call_def by (intro conf_read_bind assms)

lemma conf_create_at:
  assumes "strictly_below bs q"
  shows "conf bs fs (create_at k q n mode)"
  using assms by (simp add: conf_def create_at_def confined_add)

lemma conf_with_inode:
  assumes "below bs q" and "\<And>i j. lookup fs q = Some i \<Longrightarrow> f i = Inr j \<Longrightarrow> (node j = NDir) = (node i = NDir)"
  shows "conf bs fs (with_inode q f)"
proof (cases "lookup fs q")
  case None
  then show ?thesis by (simp add: conf_def with_inode_def)
next
  case (Some i)
  then show ?thesis
    using assms(2) by (cases "f i") (auto simp: conf_def with_inode_def intro!: confined_upd assms(1))
qed

lemma set_data_node: "set_data i d = Inr j \<Longrightarrow> node j = NFile d"
  by (auto simp: set_data_def split: if_splits)

lemma conf_write_handle:
  assumes "below bs h"
  shows "conf bs fs (write_handle k h f len)"
  unfolding write_handle_def
  by (intro conf_read_bind conf_bind conf_with_inode assms conf_touch conf_return)
    (auto split: fnode.splits dest: set_data_node)

lemma conf_Mkdir:
  assumes "\<And>q. resolve k fs False p = Inr q \<Longrightarrow> strictly_below bs q"
  shows "conf bs fs (os_Mkdir k p mode)"
  unfolding os_Mkdir_def using assms by (auto intro!: conf_os_call conf_create_at)

lemma conf_Symlink:
  assumes "\<And>q. resolve k fs False p = Inr q \<Longrightarrow> strictly_below bs q"
  shows "conf bs fs (os_Symlink k target p)"
  unfolding os_Symlink_def using assms by (auto intro!: conf_if conf_raise conf_os_call conf_create_at)

lemma conf_Link:
  assumes "\<And>q. resolve k fs False p = Inr q \<Longrightarrow> strictly_below bs q"
    and "\<And>q. resolve k fs False old = Inr q \<Longrightarrow> below bs q"
  shows "conf bs fs (os_Link k old p)"
  unfolding os_Link_def
  by (intro conf_os_call)
    (use assms in \<open>auto simp: conf_def intro!: confined_link split: option.split\<close>)

lemma conf_Remove:
  assumes "\<And>q. resolve k fs False p = Inr q \<Longrightarrow> strictly_below bs q"
  shows "conf bs fs (os_Remove k p)"
  unfolding os_Remove_def
  by (intro conf_os_call)
    (use assms in \<open>auto simp: conf_def intro!: confined_filter\<close>)

lemma conf_RemoveAll:
  assumes "\<And>q. resolve k fs False p = Inr q \<Longrightarrow> strictly_below bs q"
  shows "conf bs fs (os_RemoveAll k p)"
proof (cases "resolve k fs False p")
  case (Inl e)
  then show ?thesis by (simp add: conf_def os_RemoveAll_def)
next
  case (Inr q)
  then have "\<not> below q x" if "\<not> strictly_below bs x" for x
    using that strictly_below_trans assms by blast
  then show ?thesis
    using Inr by (auto simp: conf_def os_RemoveAll_def Let_def intro!: confined_filter)
qed

lemma conf_Rename:
  assumes "\<And>q. resolve k fs False old = Inr q \<Longrightarrow> strictly_below bs q"
    and "\<And>q. resolve k fs False new = Inr q \<Longrightarrow> strictly_below bs q"
  shows "conf bs fs (os_Rename k old new)"
  unfolding os_Rename_def
  by (intro conf_os_call)
    (use assms in \<open>auto simp: conf_def intro!: confined_move\<close>)

lemma conf_Chmod:
  assumes "\<And>q. resolve k fs True p = Inr q \<Longrightarrow> below bs q"
  shows "conf bs fs (os_Chmod k p mode)"
  unfolding os_Chmod_def using assms by (auto intro!: conf_os_call conf_with_inode)

lemma conf_Lchown:
  assumes "\<And>q. resolve k fs False p = Inr q \<Longrightarrow> below bs q"
  shows "conf bs fs (os_Lchown k p uid gid)"
  unfolding os_Lchown_def using assms by (auto intro!: conf_os_call conf_with_inode)

lemma conf_Truncate:
  assumes "\<And>q. resolve k fs True p = Inr q \<Longrightarrow> below bs q"
  shows "conf bs fs (os_Truncate k p sz)"
  unfolding os_Truncate_def using assms
  by (auto intro!: conf_os_call conf_bind conf_touch conf_with_inode dest!: set_data_node split: fnode.splits if_splits)

lemma conf_Lsetxattr:
  assumes "\<And>q. resolve k fs False p = Inr q \<Longrightarrow> below bs q"
  shows "conf bs fs (Lsetxattr k p name value)"
  unfolding Lsetxattr_def using assms by (auto intro!: conf_os_call conf_with_inode split: if_splits)

lemma conf_Lremovexattr:
  assumes "\<And>q. resolve k fs False p = Inr q \<Longrightarrow> below bs q"
  shows "conf bs fs (Lremovexattr k p name)"
  unfolding Lremovexattr_def using assms by (auto intro!: conf_os_call conf_with_inode split: if_splits)

text \<open>Opening only reads; what it returns is the place of the file.\<close>

lemma OpenFile_state: "snd (os_OpenFile k p fs) = fs"
  by (auto simp: os_OpenFile_def os_call_def bindS_def readS_def split: sum.split option.split fnode.split)

lemma OpenFile_handle: "os_OpenFile k p fs = (Inr h, fs') \<Longrightarrow> resolve k fs True p = Inr h \<and> fs' = fs"
  by (auto simp: os_OpenFile_def os_call_def bindS_def readS_def split: sum.splits option.splits fnode.splits)

lemma conf_OpenFile [confine]: "conf bs fs (os_OpenFile k p)"
  by (simp add: conf_def OpenFile_state)

lemma conf_WriteFile:
  assumes "\<And>q. resolve k fs True p = Inr q \<Longrightarrow> strictly_below bs q"
  shows "conf bs fs (os_WriteFile k p data mode)"
proof -
  have "conf bs fs (open_create k q mode)" if "strictly_below bs q" for q
    using that strictly_below_def [of bs q]
    by (auto simp: conf_def open_create_def intro!: confined_add confined_upd split: option.split fnode.split)
  moreover have "below bs q" if "resolve k fs True p = Inr q" for q
    using assms [OF that] by (simp add: strictly_below_def)
  ultimately show ?thesis
    unfolding os_WriteFile_def fd_WriteAt_def fd_Close_def
    using assms by (auto intro!: conf_os_call conf_bind conf_write_handle conf_read)
qed

end
