(* ===== verification/Executor_Confine.thy ===== *)
theory Executor_Confine
  imports Executor FS_Frame
begin

text \<open>
  The executor stays inside its base directory. The paths it computes are below the base, the
  checks leave only real directories between the base and a path, and so every call acts where
  its path says. \<open>confined\<close> relates the file system before and after: nothing outside the base
  has changed. The one exception is stated at the end: \<^verbatim>\<open>os.Chmod\<close> follows a symbolic link.
\<close>

section \<open>Paths\<close>

lemma Join_dotdot:
  assumes "\<forall>c \<in> set cs. elem_ok c" and "cs \<noteq> []"
  shows "Join slash cs \<noteq> dotdot" and "\<not> HasPrefix (Join slash cs) (dotdot @ [slash])"
proof -
  have sp: "Split slash (Join slash cs) = cs"
    using assms by (intro Split_Join) (auto simp: elem_ok_def)
  have no: "slash \<notin> set dotdot" by (simp add: slash_def dotdot_def)
  have hd: "hd cs \<noteq> dotdot" using assms by (cases cs) (auto simp: elem_ok_def)
  show "Join slash cs \<noteq> dotdot" using sp hd Split_no_sep [OF no] by auto
  show "\<not> HasPrefix (Join slash cs) (dotdot @ [slash])"
  proof
    assume "HasPrefix (Join slash cs) (dotdot @ [slash])"
    then obtain t where "Join slash cs = dotdot @ slash # t" by (auto simp: HasPrefix_iff)
    then have "Split slash (Join slash cs) = dotdot # Split slash t" using Split_append_sep [OF no] by simp
    then show False using sp hd by simp
  qed
qed

lemma ensurePathWithinBase_iff:
  assumes bs: "\<forall>c \<in> set bs. elem_ok c" and ts: "\<forall>c \<in> set ts. elem_ok c"
  shows "ensurePathWithinBase (abs_path bs) (abs_path ts) = Inr () \<longleftrightarrow> below bs ts"
proof (cases "bs = ts")
  case True
  then show ?thesis
    by (simp add: ensurePathWithinBase_def Rel_def below_def dot_def dotdot_def)
next
  case False
  obtain bs' ts' where st: "strip_common bs ts = (bs', ts')" by fastforce
  obtain p where p: "bs = p @ bs'" "ts = p @ ts'" using strip_common_append [OF st] by blast
  have rel: "Rel (abs_path bs) (abs_path ts) = Inr (Join slash (replicate (length bs') dotdot @ ts'))"
    using Rel_abs_path [OF bs ts] False st by simp
  show ?thesis
  proof (cases "bs' = []")
    case True
    then have "ts' \<noteq> []" using False p by auto
    moreover have "\<forall>c \<in> set ts'. elem_ok c" using ts p by auto
    ultimately have "ensurePathWithinBase (abs_path bs) (abs_path ts) = Inr ()"
      using Join_dotdot [of ts'] rel True by (simp add: ensurePathWithinBase_def)
    then show ?thesis using p True by (simp add: below_def)
  next
    case ne: False
    have "\<not> below bs ts"
    proof
      assume "below bs ts"
      then obtain r where "ts = bs @ r" unfolding below_def by (metis append_take_drop_id)
      then have "strip_common bs ts = ([], r)" by simp
      then show False using st ne by simp
    qed
    moreover obtain n where n: "replicate (length bs') dotdot = dotdot # replicate n dotdot"
      using ne by (cases bs') auto
    have "Join slash (dotdot # replicate n dotdot @ ts') = dotdot \<or>
        HasPrefix (Join slash (dotdot # replicate n dotdot @ ts')) (dotdot @ [slash])"
      by (auto simp: Join_Cons HasPrefix_iff)
    then have "ensurePathWithinBase (abs_path bs) (abs_path ts) \<noteq> Inr ()"
      using rel n by (auto simp: ensurePathWithinBase_def)
    ultimately show ?thesis by simp
  qed
qed

text \<open>A base path that is absolute has the elements \<open>bs\<close>.\<close>

text \<open>A path in normal form is placed below the base element by element.\<close>

lemma operationPathToFS_wf:
  assumes base: "rooted basePath" and p: "path_wf p True"
  shows "operationPathToFS basePath p = Inr (abs_path (elems basePath @ elems p))"
proof (cases "elems p = []")
  case True
  then have "p = ''/''" using elems_Nil_iff path_wf_clean [OF p] by blast
  then show ?thesis using True Clean_rooted [OF base] by (simp add: operationPathToFS_def)
next
  case False
  let ?bs = "elems basePath" and ?es = "elems p"
  have ok: "\<forall>c \<in> set (?bs @ ?es). elem_ok c" using elems_ok by fastforce
  then have okb: "\<forall>c \<in> set ?bs. elem_ok c" and noslash: "\<forall>c \<in> set ?es. slash \<notin> set c"
    by (auto simp: elem_ok_def)
  have "p = slash # Join slash ?es"
    using abs_path_elems [OF path_wf_clean [OF p]] by (simp add: abs_path_def)
  then have rel: "TrimPrefix p ''/'' = Join slash ?es"
    by (metis TrimPrefix_append append_Cons append_Nil slash_string)
  have ne: "Join slash ?es \<noteq> []" using ok False by (simp add: Join_ok_Nil)
  have "p \<noteq> ''/''" using False elems_Nil_iff path_wf_clean [OF p] by blast
  let ?raw = "abs_path ?bs @ slash # Join slash ?es"
  have sp: "Split slash (Join slash ?es) = ?es" using noslash False by (simp add: Split_Join)
  have "elems ?raw = ?bs @ ?es"
  proof (cases "?bs = []")
    case True
    then show ?thesis using sp ok clean_elems_ok_id [of ?es True "[]"] by (simp add: elems_def)
  next
    case bs: False
    then show ?thesis
      using Split_abs_path_append [OF okb bs] sp ok clean_elems_ok_id [of "?bs @ ?es" True "[]"]
      by (simp add: elems_def)
  qed
  then have full: "Join2 (abs_path ?bs) (Join slash ?es) = abs_path (?bs @ ?es)"
    by (simp add: Join2_def Clean_rooted abs_path_def)
  show ?thesis
    using \<open>p \<noteq> ''/''\<close> rel ne full Clean_rooted [OF base] ensurePathWithinBase_iff [OF okb ok]
    by (simp add: operationPathToFS_def)
qed

lemma ensureNoSymlinkParents_eq:
  assumes base: "rooted basePath" and ok: "\<forall>c \<in> set (elems basePath @ r). elem_ok c"
  shows "ensureNoSymlinkParents k basePath (abs_path (elems basePath @ r)) fs =
     check_parents k fs (abs_path (elems basePath)) (butlast r)"
proof -
  let ?bs = "elems basePath"
  have b: "Clean basePath = abs_path ?bs" using base by (rule Clean_rooted)
  have okb: "\<forall>c \<in> set ?bs. elem_ok c" using ok by simp
  have c: "Clean (abs_path (?bs @ r)) = abs_path (?bs @ r)" by (rule Clean_abs_path [OF ok])
  have e: "ensurePathWithinBase (abs_path ?bs) (abs_path (?bs @ r)) = Inr ()"
    using ensurePathWithinBase_iff [OF okb ok] by simp
  show ?thesis
  proof (cases r rule: rev_cases)
    case Nil
    then show ?thesis using b c e by (simp add: ensureNoSymlinkParents_def)
  next
    case (snoc r' x)
    have ok': "\<forall>c \<in> set (?bs @ r'). elem_ok c" and okx: "\<forall>c \<in> set ((?bs @ r') @ [x]). elem_ok c"
      using ok snoc by auto
    have d: "Dir (abs_path (?bs @ r)) = abs_path (?bs @ r')"
      using Dir_abs_path_snoc [of "?bs @ r'" x] okx snoc by simp
    have ne: "abs_path (?bs @ r) \<noteq> abs_path ?bs" "abs_path (?bs @ r') \<noteq> abs_path (?bs @ r)"
      using abs_path_inj [OF ok okb] abs_path_inj [OF ok' ok] snoc by auto
    show ?thesis
    proof (cases "r' = []")
      case True
      then show ?thesis using b c e d ne snoc by (simp add: ensureNoSymlinkParents_def Rel_def Let_def)
    next
      case False
      have rel: "Rel (abs_path ?bs) (abs_path (?bs @ r')) = Inr (Join slash r')"
        by (rule Rel_below [OF ok' False])
      have sp: "Split slash (Join slash r') = r'"
        using ok' False by (intro Split_Join) (auto simp: elem_ok_def)
      have "Join slash r' \<noteq> dot"
      proof
        assume "Join slash r' = dot"
        then have "r' = [dot]" using sp Split_no_sep [of slash dot] by (auto simp: dot_def slash_def)
        then show False using ok' by (auto simp: elem_ok_def)
      qed
      then show ?thesis
        using b c e d ne snoc rel sp by (simp add: ensureNoSymlinkParents_def Let_def)
    qed
  qed
qed

lemma check_parents_phys:
  assumes "check_parents k fs (abs_path cs) rs = Inr ()" and "phys fs cs"
    and "\<forall>c \<in> set (cs @ rs). elem_ok c"
  shows "phys fs (cs @ rs)"
  using assms
proof (induction rs arbitrary: cs)
  case (Cons c rs)
  have ok: "\<forall>x \<in> set (cs @ [c]). elem_ok x" using Cons.prems(3) by auto
  have j: "Join2 (abs_path cs) c = abs_path (cs @ [c])" using ok by (simp add: Join2_abs_path)
  have "c \<noteq> []" "c \<noteq> dot" using ok by (auto simp: elem_ok_def)
  then obtain info where info: "os_Lstat k (abs_path (cs @ [c])) fs = Inr info" "IsDir info"
    and rest: "check_parents k fs (abs_path (cs @ [c])) rs = Inr ()"
    using Cons.prems(1) j by (auto simp: Let_def split: if_splits)
  have "lookup fs (cs @ [c]) = Some info"
    using Lstat_phys [OF ok phys_root [OF Cons.prems(2)] _ info(1)] Cons.prems(2) by simp
  then have "phys fs (cs @ [c])"
    using info(2) Cons.prems(2) by (auto simp: phys_snoc dir_at_lookup IsDir_def)
  then show ?case using Cons.IH [OF rest] Cons.prems(3) by simp
qed simp

section \<open>One operation\<close>

text \<open>Where a well-formed path is placed, and what the parent check says about it.\<close>

definition place :: "string \<Rightarrow> string \<Rightarrow> string list" where
  "place basePath p = elems basePath @ elems p"

lemma place_ok: "\<forall>c \<in> set (place basePath p). elem_ok c"
  unfolding place_def using elems_ok by fastforce

lemma place_below [simp]: "below (elems basePath) (place basePath p)"
  by (simp add: place_def)

lemma place_strict: "path_wf p False \<Longrightarrow> strictly_below (elems basePath) (place basePath p)"
  using elems_Nil_iff [of p] by (auto simp: path_wf_def strictly_below_def place_def)

lemma path_wf_weaken: "path_wf p r \<Longrightarrow> path_wf p True"
  by (simp add: path_wf_def)

lemma toFS_place: "rooted basePath \<Longrightarrow> path_wf p r \<Longrightarrow> operationPathToFS basePath p = Inr (abs_path (place basePath p))"
  unfolding place_def using operationPathToFS_wf path_wf_weaken by blast

lemma parents_place:
  "rooted basePath \<Longrightarrow> ensureNoSymlinkParents k basePath (abs_path (place basePath p)) fs =
     check_parents k fs (abs_path (elems basePath)) (butlast (elems p))"
  unfolding place_def using ensureNoSymlinkParents_eq place_ok unfolding place_def by blast

lemma parents_phys:
  assumes base: "rooted basePath" and ph: "phys fs (elems basePath)"
    and c: "ensureNoSymlinkParents k basePath (abs_path (place basePath p)) fs = Inr ()"
  shows "place basePath p \<noteq> [] \<Longrightarrow> phys fs (butlast (place basePath p))"
proof -
  have ok: "\<forall>c \<in> set (elems basePath @ butlast (elems p)). elem_ok c"
    using place_ok [of basePath p] by (auto simp: place_def dest: in_set_butlastD)
  have "phys fs (elems basePath @ butlast (elems p))"
    using check_parents_phys [OF _ ph ok] c parents_place [OF base] by metis
  moreover have "phys fs (butlast (elems basePath))" if "elems p = []"
    using ph phys_append [of fs "butlast (elems basePath)" "[last (elems basePath)]"]
    by (cases "elems basePath = []") simp_all
  ultimately show ?thesis by (cases "elems p = []") (simp_all add: place_def butlast_append)
qed

text \<open>The path an operation has checked is the place it acts on.\<close>

lemma resolve_place:
  assumes "rooted basePath" and "phys fs (elems basePath)"
    and "ensureNoSymlinkParents k basePath (abs_path (place basePath p)) fs = Inr ()"
    and "resolve k fs follow (abs_path (place basePath p)) = Inr q"
    and "follow \<Longrightarrow> \<forall>i t. lookup fs (place basePath p) = Some i \<longrightarrow> node i \<noteq> NLink t"
  shows "q = place basePath p"
  using assms(4) resolve_phys [OF place_ok phys_root [OF assms(2)] parents_phys [OF assms(1-3)], of follow k] assms(5)
  by (simp split: if_splits)

lemma Lstat_place:
  assumes "rooted basePath" and "phys fs (elems basePath)"
    and "ensureNoSymlinkParents k basePath (abs_path (place basePath p)) fs = Inr ()"
    and "os_Lstat k (abs_path (place basePath p)) fs = Inr i"
  shows "lookup fs (place basePath p) = Some i"
  using Lstat_phys [OF place_ok phys_root [OF assms(2)] parents_phys [OF assms(1-3)] assms(4)] by simp

lemma check_free_place:
  assumes "rooted basePath" and "phys fs (elems basePath)"
    and "ensureNoSymlinkParents k basePath (abs_path (place basePath p)) fs = Inr ()"
    and "check_free k (abs_path (place basePath p)) m1 m2 m3 fs = Inr ()"
  shows "lookup fs (place basePath p) = None"
proof -
  have "pathExists k (abs_path (place basePath p)) fs = Inr False"
    using assms(4) by (auto simp: check_free_def split: if_splits)
  then obtain e where e: "os_Lstat k (abs_path (place basePath p)) fs = Inl e" "errors_Is e ENOENT"
    by (auto simp: pathExists_def split: sum.splits if_splits)
  have r: "resolve k fs False (abs_path (place basePath p)) =
      (if Contains (abs_path (place basePath p)) NUL then Fail EINVAL else Inr (place basePath p))"
    using resolve_phys [OF place_ok phys_root [OF assms(2)] parents_phys [OF assms(1-3)], of False k] by simp
  show ?thesis
    using e r by (auto simp: os_Lstat_def get_inode_def ask_def split: if_splits option.splits)
qed

lemma conf_deferred_close:
  assumes "conf bs fs body"
  shows "conf bs fs (deferred_close k f msg body)"
proof -
  have "snd (deferred_close k f msg body fs) = snd (body fs)"
    by (auto simp: deferred_close_def fd_Close_def readS_def split: prod.split sum.split)
  then show ?thesis using assms by (simp add: conf_def)
qed

lemma conf_map_err: "conf bs fs m \<Longrightarrow> conf bs fs (map_errS f m)"
  by (auto simp: conf_def map_errS_def split: prod.split sum.split)

lemma conf_appendTo:
  assumes "\<And>q. resolve k fs True p = Inr q \<Longrightarrow> below bs q"
  shows "conf bs fs (appendToOperationFile k p data)"
  unfolding appendToOperationFile_def fd_Append_def
  by (intro conf_bind conf_wrap conf_OpenFile conf_deferred_close conf_if conf_raise conf_return conf_write_handle)
    (use assms OpenFile_handle in \<open>fastforce simp: wrapS_eq_Inr\<close>)

lemma conf_overwrite:
  assumes "\<And>q. resolve k fs True p = Inr q \<Longrightarrow> below bs q"
  shows "conf bs fs (overwriteOperationFile k p off data)"
  unfolding overwriteOperationFile_def fd_WriteAt_def
  by (intro conf_bind conf_wrap conf_OpenFile conf_deferred_close conf_if conf_raise conf_return conf_write_handle)
    (use assms OpenFile_handle in \<open>fastforce simp: wrapS_eq_Inr\<close>)

text \<open>No mode of a symbolic link is changed: \<^verbatim>\<open>os.Chmod\<close> would follow the link.\<close>

definition chmod_stays :: "fsys \<Rightarrow> string \<Rightarrow> Operation \<Rightarrow> bool" where
  "chmod_stays fs basePath op \<longleftrightarrow> opKind op = OperationKindChmod \<longrightarrow>
     (case lookup fs (place basePath (opPath op)) of None \<Rightarrow> True | Some i \<Rightarrow> \<not> IsSymlink i)"

lemma not_link: "\<not> IsSymlink i \<longleftrightarrow> (\<forall>t. node i \<noteq> NLink t)"
  by (auto simp: IsSymlink_def split: fnode.split)

lemma IsRegular_not_link: "IsRegular i \<Longrightarrow> \<forall>t. node i \<noteq> NLink t"
  by (auto simp: IsRegular_def split: fnode.splits)

lemma applyOperation_conf:
  assumes base: "rooted basePath" and ph: "phys fs (elems basePath)" and wf: "op_wf op"
    and chmod: "chmod_stays fs basePath op"
  shows "conf (elems basePath) fs (applyOperation k basePath op)"
proof -
  let ?bs = "elems basePath" and ?P = "\<lambda>p. abs_path (place basePath p)"
  note rp = resolve_place [OF base ph] and lp = Lstat_place [OF base ph] and cf = check_free_place [OF base ph]
  have free: "strictly_below ?bs q"
    if "ensureNoSymlinkParents k basePath (?P p) fs = Inr ()" "check_free k (?P p) m1 m2 m3 fs = Inr ()"
      "path_wf p False" "resolve k fs f (?P p) = Inr q" for p m1 m2 m3 f q
    using rp [OF that(1,4)] cf [OF that(1,2)] place_strict [OF that(3)] by simp
  have strict: "strictly_below ?bs q"
    if "ensureNoSymlinkParents k basePath (?P p) fs = Inr ()" "path_wf p False"
      "resolve k fs False (?P p) = Inr q" for p q
    using rp [OF that(1,3)] place_strict [OF that(2)] by simp
  have at: "below ?bs q"
    if "ensureNoSymlinkParents k basePath (?P p) fs = Inr ()" "resolve k fs False (?P p) = Inr q" for p q
    using rp [OF that] by simp
  have reg: "below ?bs q"
    if "ensureNoSymlinkParents k basePath (?P p) fs = Inr ()" "ensureRegularFile k (?P p) fs = Inr i"
      "resolve k fs True (?P p) = Inr q" for p q i
  proof -
    have "os_Lstat k (?P p) fs = Inr i" "IsRegular i"
      using that(2) by (auto simp: ensureRegularFile_def split: if_splits)
    then have "lookup fs (place basePath p) = Some i" using lp [OF that(1)] by blast
    then show ?thesis using rp [OF that(1,3)] IsRegular_not_link [OF \<open>IsRegular i\<close>] by simp
  qed
  show ?thesis
  proof (cases "opKind op")
    case OperationKindCreateFile
    then show ?thesis
      using wf toFS_place [OF base, of "opPath op"]
      by (auto simp: applyOperation_def op_wf_def wrap_read wrap_lift
          intro!: confine conf_WriteFile elim!: free)
  next
    case OperationKindCreateDir
    then show ?thesis
      using wf toFS_place [OF base, of "opPath op"]
      by (auto simp: applyOperation_def op_wf_def wrap_read wrap_lift
          intro!: confine conf_Mkdir elim!: free)
  next
    case OperationKindCreateSymlink
    then show ?thesis
      using wf toFS_place [OF base, of "opPath op"]
      by (auto simp: applyOperation_def op_wf_def wrap_read wrap_lift
          intro!: confine conf_Symlink elim!: free)
  next
    case OperationKindCreateHardlink
    then show ?thesis
      using wf toFS_place [OF base, of "opPath op"] toFS_place [OF base, of "opSourcePath op"]
      by (auto simp: applyOperation_def op_wf_def wrap_read wrap_lift
          intro!: confine conf_Link elim: free at)
  next
    case OperationKindDelete
    then show ?thesis
      using wf toFS_place [OF base, of "opPath op"]
      by (auto simp: applyOperation_def op_wf_def wrap_read wrap_lift
          intro!: confine conf_Remove conf_RemoveAll elim!: strict)
  next
    case OperationKindRename
    then show ?thesis
      using wf toFS_place [OF base, of "opPath op"] toFS_place [OF base, of "opDestination op"]
      by (auto simp: applyOperation_def op_wf_def wrap_read wrap_lift
          intro!: confine conf_Rename dest: strict)
  next
    case OperationKindChmod
    have "below ?bs q"
      if e: "ensureNoSymlinkParents k basePath (?P (opPath op)) fs = Inr ()"
        and "os_Lstat k (?P (opPath op)) fs = Inr i" "resolve k fs True (?P (opPath op)) = Inr q" for i q
      using rp [OF e that(3)] lp [OF e that(2)] chmod OperationKindChmod
      by (auto simp: chmod_stays_def not_link)
    then show ?thesis
      using OperationKindChmod wf toFS_place [OF base, of "opPath op"]
      by (auto simp: applyOperation_def op_wf_def wrap_read wrap_lift
          intro!: confine conf_Chmod)
  next
    case OperationKindChown
    then show ?thesis
      using wf toFS_place [OF base, of "opPath op"]
      by (auto simp: applyOperation_def op_wf_def wrap_read wrap_lift
          intro!: confine conf_Lchown elim!: at)
  next
    case OperationKindTruncate
    then show ?thesis
      using wf toFS_place [OF base, of "opPath op"]
      by (auto simp: applyOperation_def op_wf_def wrap_read wrap_lift
          intro!: confine conf_Truncate elim!: reg)
  next
    case OperationKindAppend
    then show ?thesis
      using wf toFS_place [OF base, of "opPath op"]
      by (auto simp: applyOperation_def op_wf_def wrap_read wrap_lift
          intro!: confine conf_appendTo elim!: reg)
  next
    case OperationKindOverwriteRange
    then show ?thesis
      using wf toFS_place [OF base, of "opPath op"]
      by (auto simp: applyOperation_def op_wf_def wrap_read wrap_lift
          intro!: confine conf_overwrite elim!: reg)
  next
    case OperationKindSetXAttr
    then show ?thesis
      using wf toFS_place [OF base, of "opPath op"]
      by (auto simp: applyOperation_def op_wf_def wrap_read wrap_lift setPathXAttr_def
          intro!: confine conf_map_err conf_Lsetxattr elim!: at)
  next
    case OperationKindRemoveXAttr
    then show ?thesis
      using wf toFS_place [OF base, of "opPath op"]
      by (auto simp: applyOperation_def op_wf_def wrap_read wrap_lift removePathXAttr_def
          intro!: confine conf_map_err conf_Lremovexattr elim!: at)
  next
    case (OperationKindUnknown n)
    then show ?thesis using wf by (simp add: op_wf_def)
  qed
qed

section \<open>The stream\<close>

lemma apply_loop_confined:
  assumes "rooted basePath" and "phys fs (elems basePath)" and "inodes_ok fs"
    and "list_all (\<lambda>op. opKind op \<noteq> OperationKindChmod) rest"
  shows "confined (elems basePath) fs (snd (apply_loop k basePath ops i rest ctx fs))"
  using assms(2-)
proof (induction rest arbitrary: i ctx fs)
  case (Cons op rest)
  show ?case
  proof (cases "normalizeOperation op")
    case (Inl e)
    then show ?thesis using Cons.prems by simp
  next
    case (Inr n)
    have wf: "op_wf n" "opKind n = opKind op" using normalizeOperation_wf [OF Inr] by simp_all
    obtain fe ctx' where b: "ctx_before FaultScopeMutation (int i) (OperationKind_String (opKind n)) (opPath n) ctx = (fe, ctx')"
      by (meson prod.exhaust)
    obtain r fs' where a: "applyOperation k basePath n fs = (r, fs')" by (meson prod.exhaust)
    have "chmod_stays fs basePath n" using wf(2) Cons.prems(3) by (simp add: chmod_stays_def)
    then have c: "confined (elems basePath) fs fs'"
      using applyOperation_conf [OF assms(1) Cons.prems(1) wf(1), of k] Cons.prems(2) a by (simp add: conf_def)
    have "phys fs' (elems basePath)" using confined_phys [OF c Cons.prems(2)] Cons.prems(1) by simp
    then have "confined (elems basePath) fs' (snd (apply_loop k basePath ops (Suc i) rest ctx' fs'))"
      using Cons.IH [of fs' "Suc i" ctx'] confined_inodes [OF c] Cons.prems(3) by simp
    then show ?thesis
      using Inr b a c confined_trans [OF c] Cons.prems(2) by (cases fe; cases r) simp_all
  qed
qed simp

lemma ApplyOperations_confined:
  assumes "rooted basePath" and "phys fs (elems basePath)" and "inodes_ok fs"
    and "list_all (\<lambda>op. opKind op \<noteq> OperationKindChmod) ops"
  shows "confined (elems basePath) fs (snd (ApplyOperationsWithOptions k basePath ops opts fs))"
proof -
  have "list_all (\<lambda>op. opKind op \<noteq> OperationKindChmod) (drop n ops)" for n
    using assms(4) by (auto simp: list_all_iff dest: in_set_dropD)
  then show ?thesis
    using apply_loop_confined [OF assms(1-3)] assms(3)
    by (simp add: ApplyOperationsWithOptions_def split: sum.split)
qed

section \<open>Samples\<close>

definition sample_inode :: "fnode \<Rightarrow> inode" where
  "sample_inode n = \<lparr>node = n, imode = 0x180, iuid = 0, igid = 0, ixattrs = []\<rparr>"

definition sample_kernel :: kernel where
  "sample_kernel = \<lparr>cwd = [], umask = 0x12, kuid = 0, kgid = 0, refuses = (\<lambda>fs name q. None)\<rparr>"

text \<open>A base \<open>/b\<close> with a file and a symbolic link to a file outside of it.\<close>

definition sample_fs :: fsys where
  "sample_fs =
     \<lparr>ents = [([], 0), ([''b''], 1), ([''b'', ''l''], 2), ([''o''], 3), ([''b'', ''f''], 4)],
      inos = (\<lambda>i. sample_inode (if i < 2 then NDir else if i = 2 then NLink ''../o'' else NFile [1, 2, 3])),
      nextino = 5, stamps = (\<lambda>i. None)\<rparr>"

definition sample_stream :: "Operation list" where
  "sample_stream =
     [(Operation0 OperationKindCreateDir ''/d'')\<lparr>opMode := 0x1C0\<rparr>,
      (Operation0 OperationKindRename ''/f'')\<lparr>opDestination := ''/d/g''\<rparr>,
      (Operation0 OperationKindAppend ''/d/g'')\<lparr>opData := [4, 5]\<rparr>]"

lemma elems_sample: "elems ''/b'' = [''b'']" "rooted ''/b''"
  by code_simp+

text \<open>
  What \<^verbatim>\<open>os.Chmod\<close> does with a link: the mode of a file outside of the base changes.
\<close>

lemma chmod_leaves_base:
  "map_option imode (lookup (snd (ApplyOperations sample_kernel ''/b''
       [(Operation0 OperationKindChmod ''/l'')\<lparr>opMode := 0x1FF\<rparr>] sample_fs)) [''o'']) = Some 0x1FF
   \<and> map_option imode (lookup sample_fs [''o'']) = Some 0x180"
  by code_simp

section \<open>Property\<close>

text \<open>
  C26: the executor stays inside its base directory. Let the base be a real directory (no
  component of its path a symbolic link) and let the stream hold no chmod, which would follow a
  link. Then for every stream, well-formed or not, every fault profile, and whether the run
  succeeds or stops with an error, a path outside of the base still names what it named before,
  unless it is another name of a file inside; no symbolic link below the base leads an operation
  out of it.
\<close>

theorem executor_stays_inside:
  assumes "rooted basePath" and "phys fs (elems basePath)" and "inodes_ok fs"
    and "list_all (\<lambda>op. opKind op \<noteq> OperationKindChmod) ops"
    and "\<not> below (elems basePath) q"
    and "list_all (\<lambda>e. below (elems basePath) (fst e) \<longrightarrow> map_of (ents fs) q \<noteq> Some (snd e)) (ents fs)"
  shows "lookup (snd (ApplyOperationsWithOptions k basePath ops opts fs)) q = lookup fs q"
proof (rule confined_lookup [OF ApplyOperations_confined [OF assms(1-4)] assms(3) assms(5)])
  fix i assume "map_of (ents fs) q = Some i"
  then show "\<not> linked (elems basePath) fs i" using assms(6) by (auto simp: linked_iff list_all_iff)
qed

theorem executor_stays_inside_witness:
  "lookup (snd (ApplyOperationsWithOptions sample_kernel ''/b'' sample_stream
     \<lparr>StartIndex = 0, aoFaultProfile = []\<rparr> sample_fs)) [''o''] = lookup sample_fs [''o'']"
proof (rule executor_stays_inside)
  show "rooted ''/b''" "phys sample_fs (elems ''/b'')" "inodes_ok sample_fs"
    "list_all (\<lambda>op. opKind op \<noteq> OperationKindChmod) sample_stream" "\<not> below (elems ''/b'') [''o'']"
    "list_all (\<lambda>e. below (elems ''/b'') (fst e) \<longrightarrow> map_of (ents sample_fs) [''o''] \<noteq> Some (snd e)) (ents sample_fs)"
    by code_simp+
qed

end
