(* ===== verification/Executor_Replay.thy ===== *)
theory Executor_Replay
  imports Executor_Confine
begin

text \<open>
  The executor refines the virtual tree: \<open>mirrors\<close> relates a virtual tree with the file system
  below a base directory, and an operation that applies to the tree applies to the file system,
  with related results. So a stream that replays on the virtual tree replays on the files.
  \<open>fits\<close> collects what the virtual tree does not see: hard links share their content,
  a mode or an attribute cannot be set on a symbolic link, and a write may not begin beyond the
  end of a file or grow it beyond the largest size.
\<close>

section \<open>The relation\<close>

definition node_matches :: "mutationNode \<Rightarrow> inode \<Rightarrow> bool" where
  "node_matches n i \<longleftrightarrow>
     (case typeID n of
        mutationNodeTypeFile \<Rightarrow> (case node i of NFile data \<Rightarrow> nsize n = int (length data) \<and> nsize n \<le> maxFileSize | _ \<Rightarrow> False)
      | mutationNodeTypeDir \<Rightarrow> node i = NDir
      | mutationNodeTypeSymlink \<Rightarrow> IsSymlink i) \<and>
     set (xattr_set n) \<subseteq> fst ` set (ixattrs i)"

definition entry_matches :: "fsys \<Rightarrow> mutationNode option \<Rightarrow> nat option \<Rightarrow> bool" where
  "entry_matches fs n i =
     (case (n, i) of (None, None) \<Rightarrow> True | (Some n, Some i) \<Rightarrow> node_matches n (inos fs i) | _ \<Rightarrow> False)"

text \<open>No two names at or below \<open>bs\<close> share an inode, and names are proper.\<close>

definition unshared :: "string list \<Rightarrow> fsys \<Rightarrow> bool" where
  "unshared bs fs \<longleftrightarrow> list_all (\<lambda>e. below bs (fst e) \<longrightarrow>
     list_all (\<lambda>e'. below bs (fst e') \<and> snd e' = snd e \<longrightarrow> fst e' = fst e) (ents fs)) (ents fs)"

definition names_ok :: "fsys \<Rightarrow> bool" where
  "names_ok fs \<longleftrightarrow> list_all (\<lambda>e. list_all elem_ok (fst e)) (ents fs)"

definition mirrors :: "string list \<Rightarrow> mutationNode gomap \<Rightarrow> fsys \<Rightarrow> bool" where
  "mirrors bs ns fs \<longleftrightarrow> phys fs bs \<and> inodes_ok fs \<and> names_ok fs \<and> unshared bs fs \<and>
     (\<forall>cs. list_all elem_ok cs \<longrightarrow>
        entry_matches fs (map_of ns (abs_path cs)) (map_of (ents fs) (bs @ cs)))"

lemma entry_matches_touch [simp]: "entry_matches (touch_at q fs) = entry_matches fs"
  by (intro ext) (simp add: entry_matches_def split: option.split)

lemma mirrors_touch [simp]: "mirrors bs ns (touch_at q fs) = mirrors bs ns fs"
  by (simp add: mirrors_def phys_iff names_ok_def unshared_def)

lemma mirrors_fold_touch [simp]:
  "mirrors bs ns (fold (\<lambda>e. touch_at (g e)) es fs) = mirrors bs ns fs"
  by (induction es arbitrary: fs) simp_all

lemma mirrorsD:
  assumes "mirrors bs ns fs"
  shows "phys fs bs" "inodes_ok fs" "names_ok fs" "unshared bs fs"
    "list_all elem_ok cs \<Longrightarrow> entry_matches fs (map_of ns (abs_path cs)) (map_of (ents fs) (bs @ cs))"
  using assms by (simp_all add: mirrors_def)

lemma entry_matches_simps [simp]:
  "entry_matches fs None i = (i = None)" "entry_matches fs n None = (n = None)"
  "entry_matches fs (Some m) (Some j) = node_matches m (inos fs j)"
  by (auto simp: entry_matches_def split: option.split)

lemma entry_matches_Some: "entry_matches fs (Some n) i \<longleftrightarrow> (\<exists>j. i = Some j \<and> node_matches n (inos fs j))"
  by (cases i) simp_all

lemma unsharedD:
  assumes "unshared bs fs" and "(q, i) \<in> set (ents fs)" and "(q', i) \<in> set (ents fs)" "below bs q" "below bs q'"
  shows "q = q'"
  using assms unfolding unshared_def list_all_iff by fastforce

lemma unsharedI:
  assumes "\<And>q q' i. (q, i) \<in> set (ents fs) \<Longrightarrow> (q', i) \<in> set (ents fs) \<Longrightarrow> below bs q \<Longrightarrow> below bs q' \<Longrightarrow> q' = q"
  shows "unshared bs fs"
  unfolding unshared_def list_all_iff
proof (intro ballI impI)
  fix e e' assume "e \<in> set (ents fs)" "below bs (fst e)" "e' \<in> set (ents fs)" "below bs (fst e') \<and> snd e' = snd e"
  then show "fst e' = fst e" using assms [of "fst e" "snd e" "fst e'"] by (metis prod.collapse)
qed

text \<open>An executable form, for concrete trees.\<close>

lemma mirrorsI_code:
  assumes "phys fs bs" "inodes_ok fs" "names_ok fs" "unshared bs fs"
    and "list_all (\<lambda>b. clean_abs (fst b) \<and>
           entry_matches fs (map_of ns (fst b)) (map_of (ents fs) (bs @ elems (fst b)))) ns"
    and "list_all (\<lambda>e. below bs (fst e) \<longrightarrow> has ns (abs_path (drop (length bs) (fst e)))) (ents fs)"
  shows "mirrors bs ns fs"
  unfolding mirrors_def
proof (intro conjI allI impI)
  fix cs assume cs: "list_all elem_ok cs"
  then have e: "elems (abs_path cs) = cs" by (simp add: list_all_iff)
  show "entry_matches fs (map_of ns (abs_path cs)) (map_of (ents fs) (bs @ cs))"
  proof (cases "map_of ns (abs_path cs)")
    case None
    have "map_of (ents fs) (bs @ cs) = None"
    proof (rule ccontr)
      assume "map_of (ents fs) (bs @ cs) \<noteq> None"
      then obtain i where "(bs @ cs, i) \<in> set (ents fs)" by (auto dest: map_of_SomeD)
      then have "has ns (abs_path cs)" using assms(6) by (force simp: list_all_iff)
      then show False using None by (simp add: has_def)
    qed
    then show ?thesis using None by simp
  next
    case (Some n)
    then have "(abs_path cs, n) \<in> set ns" by (rule map_of_SomeD)
    then show ?thesis using assms(5) e by (force simp: list_all_iff)
  qed
qed (use assms in auto)

section \<open>Real directories\<close>

lemma mirrors_lookup:
  assumes "mirrors bs ns fs" and "list_all elem_ok cs" and "map_of ns (abs_path cs) = Some n"
  obtains i where "map_of (ents fs) (bs @ cs) = Some i" "lookup fs (bs @ cs) = Some (inos fs i)"
    "node_matches n (inos fs i)"
  using mirrorsD(5) [OF assms(1,2)] assms(3) by (auto simp: entry_matches_Some lookup_def)

lemma mirrors_None:
  assumes "mirrors bs ns fs" and "list_all elem_ok cs" and "map_of ns (abs_path cs) = None"
  shows "map_of (ents fs) (bs @ cs) = None"
  using mirrorsD(5) [OF assms(1,2)] assms(3) by simp

lemma mirrors_dir:
  assumes "mirrors bs ns fs" and "list_all elem_ok cs" and "is_dir ns (abs_path cs)"
  shows "dir_at fs (bs @ cs)"
proof -
  obtain n where n: "map_of ns (abs_path cs) = Some n" "typeID n = mutationNodeTypeDir"
    using assms(3) by (auto simp: is_dir_def split: option.splits)
  obtain i where "lookup fs (bs @ cs) = Some (inos fs i)" "node_matches n (inos fs i)"
    by (rule mirrors_lookup [OF assms(1,2) n(1)])
  then show ?thesis using n(2) by (simp add: dir_at_lookup node_matches_def)
qed

lemma mirrors_phys:
  assumes m: "mirrors bs ns fs" and t: "tree_ok ns"
  shows "list_all elem_ok cs \<Longrightarrow> is_dir ns (abs_path cs) \<Longrightarrow> phys fs (bs @ cs)"
proof (induction cs rule: rev_induct)
  case Nil
  then show ?case using mirrorsD(1) [OF m] by simp
next
  case (snoc c cs)
  have "is_dir ns (abs_path cs)"
    by (rule tree_ok_ancestor [OF t _ _ is_dir_has [OF snoc.prems(2)]]) (use snoc.prems(1) in \<open>auto simp: list_all_iff\<close>)
  then have "phys fs (bs @ cs)" using snoc by simp
  moreover have "dir_at fs (bs @ cs @ [c])" by (rule mirrors_dir [OF m snoc.prems])
  ultimately show ?case using phys_snoc [of fs "bs @ cs" c] by simp
qed

text \<open>A kernel that refuses nothing.\<close>

definition permissive :: "kernel \<Rightarrow> bool" where
  "permissive k \<longleftrightarrow> refuses k = (\<lambda>fs name q. None)"

lemma ask_permissive [simp]: "permissive k \<Longrightarrow> ask k name q fs = Inr ()"
  by (simp add: ask_def permissive_def)

lemma check_parents_ok:
  assumes "permissive k" and "phys fs (cs @ rs)" and "\<forall>c \<in> set (cs @ rs). elem_ok c"
    and "\<forall>c \<in> set (cs @ rs). \<not> Contains c NUL"
  shows "check_parents k fs (abs_path cs) rs = Inr ()"
  using assms(2-)
proof (induction rs arbitrary: cs)
  case (Cons c rs)
  have ok: "\<forall>x \<in> set (cs @ [c]). elem_ok x" using Cons.prems(2) by auto
  have ph: "phys fs (cs @ [c])" using phys_append [of fs "cs @ [c]" rs] Cons.prems(1) by simp
  have nn: "\<not> Contains (abs_path (cs @ [c])) NUL"
    using Cons.prems(3) set_Join [of slash "cs @ [c]"] by (auto simp: Contains_def abs_path_def slash_def NUL_def)
  have "\<forall>i t. lookup fs (cs @ [c]) = Some i \<longrightarrow> node i \<noteq> NLink t"
    using phys_dir [OF ph] by (auto simp: dir_at_lookup)
  then have r: "resolve k fs False (abs_path (cs @ [c])) = Inr (cs @ [c])"
    using resolve_phys [OF ok phys_root [OF ph], of False k] ph nn by (simp add: phys_snoc)
  obtain i where i: "lookup fs (cs @ [c]) = Some i" "node i = NDir"
    using phys_dir [OF ph] by (auto simp: dir_at_lookup)
  have "os_Lstat k (abs_path (cs @ [c])) fs = Inr i"
    using r i assms(1) by (simp add: os_Lstat_def get_inode_def)
  moreover have "Join2 (abs_path cs) c = abs_path (cs @ [c])" using ok by (simp add: Join2_abs_path)
  moreover have "check_parents k fs (abs_path (cs @ [c])) rs = Inr ()"
    by (rule Cons.IH) (use Cons.prems in auto)
  moreover have "c \<noteq> []" "c \<noteq> dot" using ok by (auto simp: elem_ok_def)
  ultimately show ?case using i by (simp add: IsSymlink_def IsDir_def)
qed simp

text \<open>An absolute clean base path without NUL bytes.\<close>

definition good_base :: "string \<Rightarrow> bool" where
  "good_base basePath \<longleftrightarrow> rooted basePath \<and> Clean basePath = basePath \<and> \<not> Contains basePath NUL"

lemma set_elems_sub_rooted: "rooted p \<Longrightarrow> w \<in> set (elems p) \<Longrightarrow> set w \<subseteq> set p"
  unfolding elems_def
  using clean_elems_sub [of True "[]" "Split slash p"] set_Split [of _ slash p] clean_elems_True_set [of "[]" "Split slash p"]
  by (fastforce dest: set_Split)

lemma no_NUL_place:
  assumes "good_base basePath" and "path_wf p True"
  shows "\<forall>c \<in> set (place basePath p). \<not> Contains c NUL" and "\<not> Contains (abs_path (place basePath p)) NUL"
proof -
  show n: "\<forall>c \<in> set (place basePath p). \<not> Contains c NUL"
    using assms set_elems_sub_rooted [of basePath] set_elems_sub_rooted [of p]
    by (auto simp: place_def Contains_def good_base_def path_wf_def clean_abs_def)
  then show "\<not> Contains (abs_path (place basePath p)) NUL"
    using set_Join [of slash "place basePath p"] by (auto simp: Contains_def abs_path_def slash_def NUL_def)
qed

text \<open>A path whose directory is in the tree.\<close>

definition housed :: "mutationNode gomap \<Rightarrow> string \<Rightarrow> bool" where
  "housed ns p \<longleftrightarrow> path_wf p True \<and> is_dir ns (Dir p)"

lemma housed_has:
  assumes "tree_ok ns" and "map_of ns p = Some n"
  shows "housed ns p"
  using tree_okD(3) [OF assms] tree_okD(4) [OF assms] by (simp add: housed_def)

lemma elems_list_all: "list_all elem_ok (elems p)"
  using elems_ok by (auto simp: list_all_iff)

lemma housed_phys:
  assumes "good_base basePath" "mirrors (elems basePath) ns fs" "tree_ok ns" "housed ns p"
  shows "phys fs (elems basePath @ butlast (elems p))" and "place basePath p \<noteq> [] \<Longrightarrow> phys fs (butlast (place basePath p))"
proof -
  have c: "clean_abs p" using assms(4) by (simp add: housed_def path_wf_def)
  have l: "list_all elem_ok (butlast (elems p))" using elems_list_all by (auto simp: list_all_iff dest: in_set_butlastD)
  have "is_dir ns (abs_path (butlast (elems p)))" using assms(4) Dir_clean_abs [OF c] by (simp add: housed_def)
  then show ph: "phys fs (elems basePath @ butlast (elems p))" by (rule mirrors_phys [OF assms(2,3) l])
  have "phys fs (butlast (elems basePath))" if "elems p = []"
    using mirrorsD(1) [OF assms(2)] phys_append [of fs "butlast (elems basePath)" "[last (elems basePath)]"]
    by (cases "elems basePath = []") simp_all
  then show "place basePath p \<noteq> [] \<Longrightarrow> phys fs (butlast (place basePath p))"
    using ph by (cases "elems p = []") (simp_all add: place_def butlast_append)
qed

lemma housed_parents:
  assumes "permissive k" "good_base basePath" "mirrors (elems basePath) ns fs" "tree_ok ns" "housed ns p"
  shows "ensureNoSymlinkParents k basePath (abs_path (place basePath p)) fs = Inr ()"
proof -
  have "check_parents k fs (abs_path (elems basePath)) (butlast (elems p)) = Inr ()"
  proof (rule check_parents_ok [OF assms(1) housed_phys(1) [OF assms(2-5)]])
    show "\<forall>c \<in> set (elems basePath @ butlast (elems p)). elem_ok c"
      using place_ok [of basePath p] by (auto simp: place_def dest: in_set_butlastD)
    show "\<forall>c \<in> set (elems basePath @ butlast (elems p)). \<not> Contains c NUL"
      using no_NUL_place(1) [OF assms(2)] assms(5) by (auto simp: housed_def place_def dest: in_set_butlastD)
  qed
  then show ?thesis using parents_place assms(2) by (simp add: good_base_def)
qed

lemma housed_resolve:
  assumes "good_base basePath" "mirrors (elems basePath) ns fs" "tree_ok ns" "housed ns p"
    and "follow \<Longrightarrow> \<forall>i t. lookup fs (place basePath p) = Some i \<longrightarrow> node i \<noteq> NLink t"
  shows "resolve k fs follow (abs_path (place basePath p)) = Inr (place basePath p)"
  using resolve_phys [OF place_ok phys_root [OF mirrorsD(1) [OF assms(2)]] housed_phys(2) [OF assms(1-4)], of follow k]
    assms(5) no_NUL_place(2) [OF assms(1)] assms(4) by (simp add: housed_def)

lemma housed_Lstat:
  assumes "permissive k" "good_base basePath" "mirrors (elems basePath) ns fs" "tree_ok ns" "housed ns p"
  shows "os_Lstat k (abs_path (place basePath p)) fs = get_inode fs (place basePath p)"
  using housed_resolve [OF assms(2-5), of False k] assms(1) by (simp add: os_Lstat_def)

lemma housed_free:
  assumes "permissive k" "good_base basePath" "mirrors (elems basePath) ns fs" "tree_ok ns" "housed ns p"
    and "path_wf p False" and "map_of ns p = None"
  shows "check_free k (abs_path (place basePath p)) m1 m2 m3 fs = Inr ()"
    and "lookup fs (place basePath p) = None"
proof -
  have c: "clean_abs p" using assms(6) by (simp add: path_wf_def)
  show l: "lookup fs (place basePath p) = None"
    using mirrors_None [OF assms(3) elems_list_all, of p] assms(7) abs_path_elems [OF c]
    by (simp add: lookup_def place_def)
  have ne: "elems p \<noteq> []" using assms(6) elems_Nil_iff [OF c] by (simp add: path_wf_def)
  let ?q = "elems basePath @ butlast (elems p)"
  have q: "place basePath p = ?q @ [last (elems p)]" using ne by (simp add: place_def)
  have okq: "\<forall>c \<in> set ?q. elem_ok c" and okp: "\<forall>c \<in> set (?q @ [last (elems p)]). elem_ok c"
    using place_ok [of basePath p] q by auto
  have d: "Dir (abs_path (place basePath p)) = abs_path ?q" using Dir_abs_path_snoc [OF okp] q by simp
  have ph: "phys fs ?q" by (rule housed_phys(1) [OF assms(2-5)])
  have nn: "\<not> Contains (abs_path ?q) NUL"
  proof -
    have "\<forall>c \<in> set ?q. \<not> Contains c NUL"
      using no_NUL_place(1) [OF assms(2)] assms(5) q by (auto simp: housed_def)
    then show ?thesis using set_Join [of slash ?q] by (auto simp: Contains_def abs_path_def slash_def NUL_def)
  qed
  obtain i where i: "lookup fs ?q = Some i" "node i = NDir" using phys_dir [OF ph] by (auto simp: dir_at_lookup)
  have "phys fs (butlast ?q)" if "?q \<noteq> []"
    using phys_append [of fs "butlast ?q" "[last ?q]"] ph that by simp
  then have "resolve k fs True (abs_path ?q) = Inr ?q"
    using resolve_phys [OF okq phys_root [OF ph], of True k] nn i by simp
  then have "ensureParentDirectory k (abs_path (place basePath p)) fs = Inr ()"
    using d i assms(1) by (simp add: ensureParentDirectory_def os_Stat_def get_inode_def IsDir_def)
  then show "check_free k (abs_path (place basePath p)) m1 m2 m3 fs = Inr ()"
    using housed_Lstat [OF assms(1-5)] l by (simp add: check_free_def pathExists_def get_inode_def)
qed

section \<open>How the relation is kept\<close>

lemma same_place: "list_all elem_ok cs \<Longrightarrow> clean_abs p \<Longrightarrow> abs_path cs = p \<longleftrightarrow> cs = elems p"
  by (metis abs_path_elems elems_abs_path list_all_iff)

lemma dir_at_ents: "dir_at fs q \<longleftrightarrow> (\<exists>i. map_of (ents fs) q = Some i \<and> node (inos fs i) = NDir)"
  by (auto simp: dir_at_lookup lookup_def)

lemma mirrors_bs: "mirrors bs ns fs \<Longrightarrow> list_all elem_ok bs"
proof -
  assume m: "mirrors bs ns fs"
  obtain i where "(bs, i) \<in> set (ents fs)"
    using phys_dir [OF mirrorsD(1) [OF m]] by (auto simp: dir_at_ents dest: map_of_SomeD)
  then show ?thesis using mirrorsD(3) [OF m] by (auto simp: names_ok_def list_all_iff)
qed

lemma phys_mono: "phys fs cs \<Longrightarrow> (\<And>q. dir_at fs q \<Longrightarrow> dir_at fs' q) \<Longrightarrow> phys fs' cs"
  by (simp add: phys_iff)

text \<open>A new entry with a new inode.\<close>

lemma mirrors_add:
  assumes m: "mirrors bs ns fs" and c: "clean_abs p" and new: "map_of ns p = None"
    and e: "ents fs' = (bs @ elems p, nextino fs) # ents fs" "nextino fs' = Suc (nextino fs)"
    and i: "\<And>i. i < nextino fs \<Longrightarrow> inos fs' i = inos fs i" "node_matches n (inos fs' (nextino fs))"
  shows "mirrors bs (put p n ns) fs'"
proof -
  have lt: "j < nextino fs" if "(q, j) \<in> set (ents fs)" for q j
    using that mirrorsD(2) [OF m] by (auto simp: inodes_ok_iff)
  have free: "map_of (ents fs) (bs @ elems p) = None"
    using mirrors_None [OF m elems_list_all, of p] new abs_path_elems [OF c] by simp
  have dir: "dir_at fs' q" if h: "dir_at fs q" for q
  proof -
    obtain j where j: "map_of (ents fs) q = Some j" "node (inos fs j) = NDir"
      using h by (auto simp: dir_at_ents)
    then have "q \<noteq> bs @ elems p" "inos fs' j = inos fs j"
      using free i(1) [OF lt [OF map_of_SomeD]] by auto
    then show ?thesis using j e by (simp add: dir_at_ents)
  qed
  have "names_ok fs'"
    using mirrorsD(3) [OF m] mirrors_bs [OF m] e elems_list_all [of p] by (simp add: names_ok_def)
  moreover have "unshared bs fs'"
  proof (rule unsharedI)
    fix q q' j assume q: "(q, j) \<in> set (ents fs')" "(q', j) \<in> set (ents fs')" "below bs q" "below bs q'"
    have "j \<noteq> nextino fs \<Longrightarrow> (q, j) \<in> set (ents fs) \<and> (q', j) \<in> set (ents fs)" using q e by auto
    moreover have "j = nextino fs \<Longrightarrow> q = bs @ elems p \<and> q' = bs @ elems p" using q e lt by auto
    ultimately show "q' = q" using unsharedD [OF mirrorsD(4) [OF m], of q' j q] q(3,4) by blast
  qed
  moreover have "inodes_ok fs'" using lt e by (auto simp: inodes_ok_iff less_Suc_eq)
  moreover have "entry_matches fs' (map_of (put p n ns) (abs_path cs)) (map_of (ents fs') (bs @ cs))"
    if cs: "list_all elem_ok cs" for cs
  proof (cases "cs = elems p")
    case True
    then show ?thesis using i(2) e same_place [OF cs c] by simp
  next
    case False
    have "entry_matches fs (map_of ns (abs_path cs)) (map_of (ents fs) (bs @ cs))" by (rule mirrorsD(5) [OF m cs])
    then show ?thesis
      using False e same_place [OF cs c] i(1) [OF lt [OF map_of_SomeD]]
      by (auto simp: entry_matches_def split: option.splits)
  qed
  ultimately show ?thesis
    unfolding mirrors_def using phys_mono [OF mirrorsD(1) [OF m] dir] by blast
qed

text \<open>A change of the inode of one place.\<close>

lemma mirrors_upd:
  assumes m: "mirrors bs ns fs" and c: "clean_abs p" and at: "map_of (ents fs) (bs @ elems p) = Some i"
    and e: "ents fs' = ents fs" "nextino fs' = nextino fs"
    and i: "\<And>j. j \<noteq> i \<Longrightarrow> inos fs' j = inos fs j" "node_matches n (inos fs' i)"
      "(node (inos fs' i) = NDir) = (node (inos fs i) = NDir)"
    and ns: "map_of ns' = (map_of ns)(p \<mapsto> n)"
  shows "mirrors bs ns' fs'"
proof -
  have dir: "dir_at fs' q" if "dir_at fs q" for q
    using that i(1,3) unfolding dir_at_ents e by metis
  have one: "cs = elems p" if "map_of (ents fs) (bs @ cs) = Some i" for cs
    using unsharedD [OF mirrorsD(4) [OF m] map_of_SomeD [OF that] map_of_SomeD [OF at]] by simp
  have "entry_matches fs' (map_of ns' (abs_path cs)) (map_of (ents fs') (bs @ cs))"
    if cs: "list_all elem_ok cs" for cs
  proof (cases "cs = elems p")
    case True
    then show ?thesis using at i(2) e ns abs_path_elems [OF c] by simp
  next
    case False
    have old: "entry_matches fs (map_of ns (abs_path cs)) (map_of (ents fs) (bs @ cs))"
      by (rule mirrorsD(5) [OF m cs])
    have "inos fs' j = inos fs j" if "map_of (ents fs) (bs @ cs) = Some j" for j
      using one [of cs] that False i(1) by auto
    then show ?thesis
      using old False e ns same_place [OF cs c] by (auto simp: entry_matches_def split: option.splits)
  qed
  moreover have "names_ok fs'" "unshared bs fs'" "inodes_ok fs'"
    using mirrorsD(2-4) [OF m] e by (simp_all add: names_ok_def unshared_def inodes_ok_def)
  ultimately show ?thesis
    unfolding mirrors_def using phys_mono [OF mirrorsD(1) [OF m] dir] by blast
qed

text \<open>Some entries strictly below the base are gone.\<close>

lemma mirrors_filter:
  assumes m: "mirrors bs ns fs" and P: "\<And>q. \<not> strictly_below bs q \<Longrightarrow> P q"
    and ns: "\<And>cs. list_all elem_ok cs \<Longrightarrow>
      map_of ns' (abs_path cs) = (if P (bs @ cs) then map_of ns (abs_path cs) else None)"
  shows "mirrors bs ns' (fs\<lparr>ents := filter (\<lambda>e. P (fst e)) (ents fs)\<rparr>)"
proof -
  let ?fs = "fs\<lparr>ents := filter (\<lambda>e. P (fst e)) (ents fs)\<rparr>"
  have f: "map_of (filter (\<lambda>e. P (fst e)) es) q = (if P q then map_of es q else None)" for es :: "(string list \<times> nat) list" and q
    by (induction es) auto
  have "dir_at ?fs (take i bs) = dir_at fs (take i bs)" for i
    using P [OF not_strictly_below_take] by (simp add: dir_at_ents f)
  then have "phys ?fs bs" using mirrorsD(1) [OF m] by (simp add: phys_iff)
  moreover have "entry_matches ?fs (map_of ns' (abs_path cs)) (map_of (ents ?fs) (bs @ cs))"
    if cs: "list_all elem_ok cs" for cs
    using mirrorsD(5) [OF m cs] ns [OF cs] f by (auto simp: entry_matches_def split: option.splits)
  moreover have "names_ok ?fs" "unshared bs ?fs" "inodes_ok ?fs"
    using mirrorsD(2-4) [OF m] by (auto simp: names_ok_def unshared_def inodes_ok_def list_all_iff)
  ultimately show ?thesis unfolding mirrors_def by blast
qed

text \<open>Everything at or below \<open>s\<close> is now at or below \<open>d\<close>.\<close>

definition moved :: "string list \<Rightarrow> string list \<Rightarrow> string list \<Rightarrow> string list" where
  "moved s d q = (if below s q then d @ drop (length s) q else q)"

lemma move_entry_moved: "move_entry s d e = (moved s d (fst e), snd e)"
  by (cases e) (simp add: move_entry_def moved_def)

lemma map_of_map_key:
  assumes "inj_on f (fst ` set es)"
  shows "map_of (map (\<lambda>e. (f (fst e), snd e)) es) q = Some i \<longleftrightarrow> (\<exists>p. map_of es p = Some i \<and> q = f p)"
  using assms
proof (induction es)
  case (Cons e es)
  obtain k j where e: "e = (k, j)" by (cases e)
  have i: "inj_on f (fst ` set es)" using Cons.prems by (auto simp: inj_on_def)
  have ne: "p = k" if h: "map_of es p = Some j'" "f p = f k" for p j'
  proof -
    have "p \<in> fst ` set (e # es)" "k \<in> fst ` set (e # es)" using map_of_SomeD [OF h(1)] e by force+
    then show ?thesis using inj_onD [OF Cons.prems h(2)] by blast
  qed
  show ?case
  proof (cases "q = f k")
    case True
    then show ?thesis using e ne by (auto split: if_splits)
  next
    case False
    then show ?thesis using e Cons.IH [OF i] by (auto split: if_splits)
  qed
qed simp

lemma moved_append: "moved s d (s @ r) = d @ r"
  by (simp add: moved_def)

lemma below_base: "below (bs @ s) (bs @ q) = below s q"
  by (simp add: below_def)

lemma moved_base: "moved (bs @ s) (bs @ d) (bs @ q) = bs @ moved s d q"
  by (simp add: moved_def below_base)

lemma moved_ok: "list_all elem_ok d \<Longrightarrow> list_all elem_ok q \<Longrightarrow> list_all elem_ok (moved s d q)"
  by (auto simp: moved_def list_all_iff dest: in_set_dropD)

lemma moved_inj:
  assumes "\<And>p. p \<in> A \<Longrightarrow> \<not> below d p"
  shows "inj_on (moved s d) A"
proof (rule inj_onI)
  fix x y assume xy: "x \<in> A" "y \<in> A" "moved s d x = moved s d y"
  have no: "\<not> below d x" "\<not> below d y" using assms xy(1,2) by blast+
  show "x = y"
  proof (cases "below s x"; cases "below s y")
    assume "below s x" "below s y"
    then obtain u v where "x = s @ u" "y = s @ v" by (metis belowE)
    then show ?thesis using xy(3) by (simp add: moved_append)
  next
    assume "below s x" "\<not> below s y"
    then have "y = d @ drop (length s) x" using xy(3) by (simp add: moved_def)
    then show ?thesis using no(2) by simp
  next
    assume "\<not> below s x" "below s y"
    then have "x = d @ drop (length s) y" using xy(3) by (simp add: moved_def)
    then show ?thesis using no(1) by simp
  next
    assume "\<not> below s x" "\<not> below s y"
    then show ?thesis using xy(3) by (simp add: moved_def)
  qed
qed

lemma mirrors_key:
  assumes "mirrors bs ns fs" and "(bs @ cs, i) \<in> set (ents fs)"
  shows "list_all elem_ok cs" and "\<exists>n. map_of ns (abs_path cs) = Some n"
proof -
  show ok: "list_all elem_ok cs" using mirrorsD(3) [OF assms(1)] assms(2) by (auto simp: names_ok_def list_all_iff)
  have "map_of (ents fs) (bs @ cs) \<noteq> None" using assms(2) by (simp add: map_of_eq_None_iff) force
  then show "\<exists>n. map_of ns (abs_path cs) = Some n" using mirrors_None [OF assms(1) ok] by fastforce
qed

lemma mirrors_move:
  assumes m: "mirrors bs ns fs" and t: "tree_ok ns" and s: "path_wf src False" and d: "path_wf dst False"
    and free: "map_of ns dst = None" and out: "\<not> below (elems src) (elems dst)"
    and ns: "\<And>q n. map_of ns' q = Some n \<longleftrightarrow> (\<exists>p. map_of ns p = Some n \<and>
      q = (if in_subtree src p then abs_path (elems dst @ drop (length (elems src)) (elems p)) else p))"
  shows "mirrors bs ns' (fs\<lparr>ents := map (move_entry (bs @ elems src) (bs @ elems dst))
    (filter (\<lambda>e. fst e \<noteq> bs @ elems dst) (ents fs))\<rparr>)"
proof -
  let ?s = "bs @ elems src" and ?d = "bs @ elems dst"
  let ?fs = "fs\<lparr>ents := map (move_entry ?s ?d) (filter (\<lambda>e. fst e \<noteq> ?d) (ents fs))\<rparr>"
  have c: "clean_abs src" "clean_abs dst" "src \<noteq> ''/''" "dst \<noteq> ''/''" using s d by (simp_all add: path_wf_def)
  have sb: "strictly_below bs ?s" "strictly_below bs ?d"
    using elems_Nil_iff [OF c(1)] elems_Nil_iff [OF c(2)] c(3,4) by (simp_all add: strictly_below_def)
  have nod: "\<not> below ?d q" if h: "(q, i) \<in> set (ents fs)" for q i
  proof
    assume "below ?d q"
    then obtain r where q: "q = bs @ (elems dst @ r)" by (metis belowE append.assoc)
    obtain n where n: "list_all elem_ok (elems dst @ r)" "map_of ns (abs_path (elems dst @ r)) = Some n"
      using mirrors_key [OF m] h q by blast
    show False
    proof (cases "r = []")
      case True
      then show ?thesis using n(2) free abs_path_elems [OF c(2)] by simp
    next
      case False
      have "is_dir ns (abs_path (elems dst))"
        by (rule tree_ok_ancestor [OF t _ False]) (use n in \<open>auto simp: list_all_iff has_def\<close>)
      then show ?thesis using free abs_path_elems [OF c(2)] by (simp add: is_dir_def)
    qed
  qed
  have all: "filter (\<lambda>e. fst e \<noteq> ?d) (ents fs) = ents fs"
    using nod by (force simp: filter_id_conv below_def)
  have "inj_on (moved ?s ?d) (fst ` set (ents fs))" by (rule moved_inj) (use nod in auto)
  from map_of_map_key [OF this]
  have key: "map_of (ents ?fs) q = Some i \<longleftrightarrow> (\<exists>p. map_of (ents fs) p = Some i \<and> q = moved ?s ?d p)" for q i
    unfolding ext [of "move_entry ?s ?d", OF move_entry_moved] by (simp add: all)
  have conf: "confined bs fs ?fs" by (rule confined_move [OF mirrorsD(2) [OF m] sb])
  have inside: "below bs q" if h: "below bs (moved ?s ?d q)" for q
    using h strictly_below_trans [OF sb(1), of q] by (auto simp: moved_def strictly_below_def split: if_splits)
  have vkey: "map_of ns' (abs_path cs) = Some n \<longleftrightarrow>
      (\<exists>ps. list_all elem_ok ps \<and> map_of ns (abs_path ps) = Some n \<and> cs = moved (elems src) (elems dst) ps)"
    if cs: "list_all elem_ok cs" for cs n
  proof -
    have one: "abs_path cs = (if in_subtree src p then abs_path (elems dst @ drop (length (elems src)) (elems p)) else p)
        \<longleftrightarrow> cs = moved (elems src) (elems dst) (elems p)" if h: "clean_abs p" for p
    proof -
      have "in_subtree src p \<longleftrightarrow> below (elems src) (elems p)"
        using in_subtree_iff [OF h c(1)] by (metis belowE below_append)
      moreover have "list_all elem_ok (elems dst @ drop (length (elems src)) (elems p))"
        using elems_list_all [of dst] elems_list_all [of p] by (auto simp: list_all_iff dest: in_set_dropD)
      ultimately show ?thesis
        using abs_path_inj [of cs "elems dst @ drop (length (elems src)) (elems p)"] same_place [OF cs h] cs
        by (auto simp: moved_def list_all_iff)
    qed
    have cl: "clean_abs p" if h: "map_of ns p = Some n" for p n
      using tree_okD(3) [OF t h] by (simp add: path_wf_def)
    show ?thesis
    proof
      assume "map_of ns' (abs_path cs) = Some n"
      then obtain p where p: "map_of ns p = Some n"
        "abs_path cs = (if in_subtree src p then abs_path (elems dst @ drop (length (elems src)) (elems p)) else p)"
        using ns by blast
      then have "cs = moved (elems src) (elems dst) (elems p)" using one [OF cl [OF p(1)]] by blast
      then show "\<exists>ps. list_all elem_ok ps \<and> map_of ns (abs_path ps) = Some n \<and> cs = moved (elems src) (elems dst) ps"
        using elems_list_all p(1) abs_path_elems [OF cl [OF p(1)]] by metis
    next
      assume "\<exists>ps. list_all elem_ok ps \<and> map_of ns (abs_path ps) = Some n \<and> cs = moved (elems src) (elems dst) ps"
      then obtain ps where ps: "list_all elem_ok ps" "map_of ns (abs_path ps) = Some n" "cs = moved (elems src) (elems dst) ps"
        by blast
      have "elems (abs_path ps) = ps" using ps(1) by (simp add: list_all_iff)
      then show "map_of ns' (abs_path cs) = Some n" using ns one [OF cl [OF ps(2)]] ps by metis
    qed
  qed
  have match: "entry_matches ?fs (map_of ns' (abs_path cs)) (map_of (ents ?fs) (bs @ cs))"
    if cs: "list_all elem_ok cs" for cs
  proof (cases "map_of ns' (abs_path cs)")
    case (Some n)
    then obtain ps where ps: "list_all elem_ok ps" "map_of ns (abs_path ps) = Some n" "cs = moved (elems src) (elems dst) ps"
      using vkey [OF cs] by blast
    obtain i where i: "map_of (ents fs) (bs @ ps) = Some i" "node_matches n (inos fs i)"
      by (rule mirrors_lookup [OF m ps(1,2)])
    have "map_of (ents ?fs) (bs @ cs) = Some i" unfolding key using i(1) ps(3) moved_base by metis
    then show ?thesis using Some i(2) by simp
  next
    case None
    have "map_of (ents ?fs) (bs @ cs) = None"
    proof (rule ccontr)
      assume "map_of (ents ?fs) (bs @ cs) \<noteq> None"
      then obtain i p where p: "map_of (ents fs) p = Some i" "bs @ cs = moved ?s ?d p" using key by blast
      then obtain ps where ps: "p = bs @ ps" using inside by (metis belowE below_append)
      obtain n where n: "list_all elem_ok ps" "map_of ns (abs_path ps) = Some n"
        using mirrors_key [OF m] map_of_SomeD [OF p(1)] ps by blast
      have "cs = moved (elems src) (elems dst) ps" using p(2) ps by (simp add: moved_base)
      then show False using None vkey [OF cs] n by auto
    qed
    then show ?thesis using None by simp
  qed
  have names: "names_ok ?fs"
    using mirrorsD(3) [OF m] moved_ok [of ?d] mirrors_bs [OF m] elems_list_all [of dst]
    by (auto simp: names_ok_def list_all_iff [of _ "ents fs"] all move_entry_moved list_all_iff [of _ "map _ _"])
  have "unshared bs ?fs"
  proof (rule unsharedI)
    fix q q' i assume q: "(q, i) \<in> set (ents ?fs)" "(q', i) \<in> set (ents ?fs)" "below bs q" "below bs q'"
    then obtain p p' where p: "(p, i) \<in> set (ents fs)" "(p', i) \<in> set (ents fs)"
      "q = moved ?s ?d p" "q' = moved ?s ?d p'" by (auto simp: all move_entry_moved)
    have "p' = p" using unsharedD [OF mirrorsD(4) [OF m] p(2,1)] inside q(3,4) p(3,4) by blast
    then show "q' = q" using p by simp
  qed
  then show ?thesis
    unfolding mirrors_def
    using names match confined_inodes [OF conf] confined_phys [OF conf mirrorsD(2) [OF m]] mirrorsD(1) [OF m] by blast
qed

section \<open>Each kind of operation\<close>

text \<open>What the virtual tree does not check.\<close>

definition is_symlink :: "mutationNode gomap \<Rightarrow> string \<Rightarrow> bool" where
  "is_symlink ns p = (case map_of ns p of None \<Rightarrow> False | Some n \<Rightarrow> typeID n = mutationNodeTypeSymlink)"

definition size_at :: "mutationNode gomap \<Rightarrow> string \<Rightarrow> int" where
  "size_at ns p = (case map_of ns p of None \<Rightarrow> 0 | Some n \<Rightarrow> nsize n)"

definition fits :: "mutationNode gomap \<Rightarrow> Operation \<Rightarrow> bool" where
  "fits ns op \<longleftrightarrow>
     (case opKind op of
        OperationKindCreateFile \<Rightarrow> int (length (opData op)) \<le> maxFileSize
      | OperationKindCreateHardlink \<Rightarrow> False
      | OperationKindChmod \<Rightarrow> \<not> is_symlink ns (opPath op)
      | OperationKindTruncate \<Rightarrow> opSize op \<le> maxFileSize
      | OperationKindAppend \<Rightarrow> size_at ns (opPath op) + int (length (opData op)) \<le> maxFileSize
      | OperationKindOverwriteRange \<Rightarrow>
          opOffset op \<le> size_at ns (opPath op) \<and> opOffset op + int (length (opData op)) \<le> maxFileSize
      | OperationKindSetXAttr \<Rightarrow> \<not> is_symlink ns (opPath op)
      | OperationKindRemoveXAttr \<Rightarrow> \<not> is_symlink ns (opPath op)
      | _ \<Rightarrow> True)"

lemma run_read: "f s = Inr x \<Longrightarrow> bindS (readS f) g s = g x s"
  by (simp add: bindS_def readS_def)

lemma run_lift: "bindS (liftS (Inr x)) g s = g x s"
  by (simp add: bindS_def liftS_def)

lemma run_bind: "m s = (Inr x, t) \<Longrightarrow> bindS m g s = g x t"
  by (simp add: bindS_def)

lemma run_wrap: "m s = (Inr x, t) \<Longrightarrow> wrapS msg m s = (Inr x, t)"
  by (simp add: wrapS_def)

lemma run_call: "permissive k \<Longrightarrow> resolve k fs follow p = Inr q \<Longrightarrow> os_call k name follow p f fs = f q fs"
  by (simp add: os_call_def run_read)

text \<open>The operation up to the switch over its kind.\<close>

lemma applyOperation_start:
  assumes "permissive k" "good_base basePath" "mirrors (elems basePath) ns fs" "tree_ok ns" "housed ns (opPath op)"
  shows "operationPathToFS basePath (opPath op) = Inr (abs_path (place basePath (opPath op)))"
    and "ensureNoSymlinkParents k basePath (abs_path (place basePath (opPath op))) fs = Inr ()"
  using toFS_place [of basePath "opPath op" True] housed_parents [OF assms] assms(2,5)
  by (simp_all add: good_base_def housed_def)

lemma fd_Close_ok [simp]: "permissive k \<Longrightarrow> fd_Close k h fs = (Inr (), fs)"
  by (simp add: fd_Close_def readS_def)

lemma deferred_close_ok: "permissive k \<Longrightarrow> deferred_close k h msg m fs = m fs"
  by (cases "m fs") (simp add: deferred_close_def)

lemma write_handle_ok:
  assumes "permissive k" "map_of (ents fs) h = Some i" "node (inos fs i) = NFile old" "f old = Inr new"
    "int (length new) \<le> maxFileSize"
  shows "write_handle k h f len fs =
     (Inr (int len), touch_at h (fs\<lparr>inos := (inos fs)(i := (inos fs i)\<lparr>node := NFile new\<rparr>)\<rparr>))"
proof -
  have "with_inode h (\<lambda>i. case node i of NFile data \<Rightarrow> bindE (f data) (set_data i) | _ \<Rightarrow> Fail EINVAL) fs =
      (Inr (), fs\<lparr>inos := (inos fs)(i := (inos fs i)\<lparr>node := NFile new\<rparr>)\<rparr>)"
    using assms(2-) by (simp add: with_inode_def lookup_def set_data_def upd_inode_def)
  then show ?thesis using assms(1) by (simp add: write_handle_def run_read run_bind returnS_def modifyS_def)
qed

lemma refine_CreateFile:
  assumes "permissive k" "good_base basePath" "mirrors (elems basePath) ns fs" "tree_ok ns"
    and "opKind op = OperationKindCreateFile" "path_wf (opPath op) False" "map_of ns (opPath op) = None"
    and "is_dir ns (Dir (opPath op))" "int (length (opData op)) \<le> maxFileSize"
  shows "\<exists>fs'. applyOperation k basePath op fs = (Inr (), fs') \<and>
    mirrors (elems basePath) (put (opPath op) (new_node mutationNodeTypeFile (int (length (opData op))) []) ns) fs'"
proof -
  let ?q = "place basePath (opPath op)" and ?p = "abs_path (place basePath (opPath op))"
  have h: "housed ns (opPath op)" using assms(6,8) by (simp add: housed_def path_wf_def)
  note free = housed_free [OF assms(1-4) h assms(6,7)]
  have r: "resolve k fs True ?p = Inr ?q" by (rule housed_resolve [OF assms(2-4) h]) (simp add: free(2))
  define fs1 where "fs1 = touch_at (butlast ?q) (add_entry k ?q (NFile []) (and (syscallMode (opMode op)) (not (umask k))) fs)"
  define fs2 where "fs2 = touch_at ?q (fs1\<lparr>inos := (inos fs1)(nextino fs := (inos fs1 (nextino fs))\<lparr>node := NFile (opData op)\<rparr>)\<rparr>)"
  have o1: "open_create k ?q (opMode op) fs = (Inr (), fs1)" using free(2) by (simp add: open_create_def fs1_def)
  have w: "fd_WriteAt k ?q (opData op) 0 fs1 = (Inr (int (length (opData op))), fs2)"
    unfolding fd_WriteAt_def fs2_def
    by (rule write_handle_ok [where old = "[]" and new = "opData op", OF assms(1)])
      (use assms(9) in \<open>simp_all add: fs1_def add_entry_def WriteAt_def\<close>)
  have "os_WriteFile k ?p (opData op) (opMode op) fs = (Inr (), fs2)"
    using o1 w assms(1) by (simp add: os_WriteFile_def run_call [OF assms(1) r] run_bind)
  then have a: "applyOperation k basePath op fs = (Inr (), fs2)"
    using applyOperation_start [OF assms(1-4) h] assms(5) free(1)
    by (simp add: applyOperation_def wrap_read wrap_lift run_lift run_read run_wrap)
  have "mirrors (elems basePath) (put (opPath op) (new_node mutationNodeTypeFile (int (length (opData op))) []) ns) fs2"
    by (rule mirrors_add [OF assms(3) path_wf_clean [OF assms(6)] assms(7)])
      (simp_all add: fs2_def fs1_def add_entry_def place_def node_matches_def new_node_def xattr_set_def assms(9))
  then show ?thesis using a by blast
qed

lemma refine_CreateDir:
  assumes "permissive k" "good_base basePath" "mirrors (elems basePath) ns fs" "tree_ok ns"
    and "opKind op = OperationKindCreateDir" "path_wf (opPath op) False" "map_of ns (opPath op) = None"
    and "is_dir ns (Dir (opPath op))"
  shows "\<exists>fs'. applyOperation k basePath op fs = (Inr (), fs') \<and>
    mirrors (elems basePath) (put (opPath op) (new_node mutationNodeTypeDir 0 []) ns) fs'"
proof -
  let ?q = "place basePath (opPath op)"
  have h: "housed ns (opPath op)" using assms(6,8) by (simp add: housed_def path_wf_def)
  note free = housed_free [OF assms(1-4) h assms(6,7)]
  have r: "resolve k fs False (abs_path ?q) = Inr ?q" by (rule housed_resolve [OF assms(2-4) h]) simp
  define fs1 where "fs1 = touch_at (butlast ?q) (add_entry k ?q NDir (and (syscallMode (opMode op)) (not (umask k))) fs)"
  have "os_Mkdir k (abs_path ?q) (opMode op) fs = (Inr (), fs1)"
    using free(2) by (simp add: os_Mkdir_def run_call [OF assms(1) r] create_at_def fs1_def)
  then have a: "applyOperation k basePath op fs = (Inr (), fs1)"
    using applyOperation_start [OF assms(1-4) h] assms(5) free(1)
    by (simp add: applyOperation_def wrap_read wrap_lift run_lift run_read run_wrap)
  have "mirrors (elems basePath) (put (opPath op) (new_node mutationNodeTypeDir 0 []) ns) fs1"
    by (rule mirrors_add [OF assms(3) path_wf_clean [OF assms(6)] assms(7)])
      (simp_all add: fs1_def add_entry_def place_def node_matches_def new_node_def xattr_set_def)
  then show ?thesis using a by blast
qed

lemma refine_CreateSymlink:
  assumes "permissive k" "good_base basePath" "mirrors (elems basePath) ns fs" "tree_ok ns"
    and "opKind op = OperationKindCreateSymlink" "path_wf (opPath op) False" "map_of ns (opPath op) = None"
    and "is_dir ns (Dir (opPath op))" "opLinkTarget op \<noteq> []" "\<not> Contains (opLinkTarget op) NUL"
  shows "\<exists>fs'. applyOperation k basePath op fs = (Inr (), fs') \<and>
    mirrors (elems basePath) (put (opPath op) (new_node mutationNodeTypeSymlink 0 []) ns) fs'"
proof -
  let ?q = "place basePath (opPath op)"
  have h: "housed ns (opPath op)" using assms(6,8) by (simp add: housed_def path_wf_def)
  note free = housed_free [OF assms(1-4) h assms(6,7)]
  have r: "resolve k fs False (abs_path ?q) = Inr ?q" by (rule housed_resolve [OF assms(2-4) h]) simp
  define fs1 where "fs1 = touch_at (butlast ?q) (add_entry k ?q (NLink (opLinkTarget op)) 0x1FF fs)"
  have "os_Symlink k (opLinkTarget op) (abs_path ?q) fs = (Inr (), fs1)"
    using free(2) assms(9,10) by (simp add: os_Symlink_def run_call [OF assms(1) r] create_at_def fs1_def)
  then have a: "applyOperation k basePath op fs = (Inr (), fs1)"
    using applyOperation_start [OF assms(1-4) h] assms(5) free(1)
    by (simp add: applyOperation_def wrap_read wrap_lift run_lift run_read run_wrap)
  have "mirrors (elems basePath) (put (opPath op) (new_node mutationNodeTypeSymlink 0 []) ns) fs1"
    by (rule mirrors_add [OF assms(3) path_wf_clean [OF assms(6)] assms(7)])
      (simp_all add: fs1_def add_entry_def place_def node_matches_def new_node_def xattr_set_def IsSymlink_def)
  then show ?thesis using a by blast
qed

text \<open>Where an existing node is found.\<close>

lemma node_found:
  assumes "mirrors (elems basePath) ns fs" "tree_ok ns" "map_of ns p = Some n"
  obtains i where "map_of (ents fs) (place basePath p) = Some i"
    "lookup fs (place basePath p) = Some (inos fs i)" "node_matches n (inos fs i)" "housed ns p" "clean_abs p"
proof -
  have c: "clean_abs p" using tree_okD(3) [OF assms(2,3)] by (simp add: path_wf_def)
  have "map_of ns (abs_path (elems p)) = Some n" using abs_path_elems [OF c] assms(3) by simp
  from mirrors_lookup [OF assms(1) elems_list_all this] show thesis
    using that housed_has [OF assms(2,3)] c by (metis place_def)
qed

lemma with_inode_ok:
  assumes "map_of (ents fs) q = Some i" and "f (inos fs i) = Inr j"
  shows "with_inode q f fs = (Inr (), fs\<lparr>inos := (inos fs)(i := j)\<rparr>)"
  using assms by (simp add: with_inode_def lookup_def upd_inode_def)

lemma mirrors_set:
  assumes "mirrors (elems basePath) ns fs" "clean_abs p" "map_of (ents fs) (place basePath p) = Some i"
    and "node_matches n j" "(node j = NDir) = (node (inos fs i) = NDir)" "map_of ns' = (map_of ns)(p \<mapsto> n)"
  shows "mirrors (elems basePath) ns' (fs\<lparr>inos := (inos fs)(i := j)\<rparr>)"
  by (rule mirrors_upd [OF assms(1,2) assms(3) [unfolded place_def], where n = n]) (use assms(4-6) in simp_all)

lemma file_node: "node_matches n i \<Longrightarrow> typeID n = mutationNodeTypeFile \<Longrightarrow>
    \<exists>d. node i = NFile d \<and> nsize n = int (length d) \<and> nsize n \<le> maxFileSize"
  by (auto simp: node_matches_def split: fnode.splits)

lemma node_matches_data:
  "node_matches n i \<Longrightarrow> typeID n = mutationNodeTypeFile \<Longrightarrow> int (length d) \<le> maxFileSize \<Longrightarrow>
     node_matches (n\<lparr>nsize := int (length d)\<rparr>) (i\<lparr>node := NFile d\<rparr>)"
  by (simp add: node_matches_def xattr_set_def)

lemma node_matches_meta:
  "node_matches n i \<Longrightarrow> node j = node i \<Longrightarrow> set (xattr_set n') \<subseteq> fst ` set (ixattrs j) \<Longrightarrow>
     typeID n' = typeID n \<Longrightarrow> nsize n' = nsize n \<Longrightarrow> node_matches n' j"
  by (auto simp: node_matches_def IsSymlink_def split: mutationNodeType.splits fnode.splits)

lemma node_matches_xattrs: "node_matches n i \<Longrightarrow> set (xattr_set n) \<subseteq> fst ` set (ixattrs i)"
  by (simp add: node_matches_def)

lemma not_symlink: "node_matches n i \<Longrightarrow> typeID n \<noteq> mutationNodeTypeSymlink \<Longrightarrow> \<forall>t. node i \<noteq> NLink t"
  by (auto simp: node_matches_def split: mutationNodeType.splits fnode.splits)

text \<open>An operation that sets the inode of the place it names.\<close>

lemma refine_set:
  assumes m: "mirrors (elems basePath) ns fs" and c: "clean_abs p" and i: "map_of (ents fs) (place basePath p) = Some i"
    and a: "applyOperation k basePath op fs = (Inr (), g (fs\<lparr>inos := (inos fs)(i := j)\<rparr>))"
    and g: "\<And>ns fs. mirrors (elems basePath) ns (g fs) = mirrors (elems basePath) ns fs"
    and j: "node_matches n j" "(node j = NDir) = (node (inos fs i) = NDir)"
    and ns: "map_of ns' = (map_of ns)(p \<mapsto> n)"
  shows "\<exists>fs'. applyOperation k basePath op fs = (Inr (), fs') \<and> mirrors (elems basePath) ns' fs'"
  using a mirrors_set [OF m c i j ns] g by blast

lemma refine_Chmod:
  assumes "permissive k" "good_base basePath" "mirrors (elems basePath) ns fs" "tree_ok ns"
    and "opKind op = OperationKindChmod" "map_of ns (opPath op) = Some n" "typeID n \<noteq> mutationNodeTypeSymlink"
  shows "\<exists>fs'. applyOperation k basePath op fs = (Inr (), fs') \<and> mirrors (elems basePath) ns fs'"
proof -
  obtain i where i: "map_of (ents fs) (place basePath (opPath op)) = Some i"
    "lookup fs (place basePath (opPath op)) = Some (inos fs i)" "node_matches n (inos fs i)"
    "housed ns (opPath op)" "clean_abs (opPath op)" by (rule node_found [OF assms(3,4,6)])
  have r: "resolve k fs True (abs_path (place basePath (opPath op))) = Inr (place basePath (opPath op))"
    by (rule housed_resolve [OF assms(2-4) i(4)]) (use not_symlink [OF i(3) assms(7)] i(2) in simp)
  have "os_Chmod k (abs_path (place basePath (opPath op))) (opMode op) fs =
      (Inr (), fs\<lparr>inos := (inos fs)(i := (inos fs i)\<lparr>imode := syscallMode (opMode op)\<rparr>)\<rparr>)"
    unfolding os_Chmod_def run_call [OF assms(1) r] by (rule with_inode_ok [OF i(1)]) simp
  then have "applyOperation k basePath op fs =
      (Inr (), fs\<lparr>inos := (inos fs)(i := (inos fs i)\<lparr>imode := syscallMode (opMode op)\<rparr>)\<rparr>)"
    using applyOperation_start [OF assms(1-4) i(4)] assms(5) housed_Lstat [OF assms(1-4) i(4)] i(2)
    by (simp add: applyOperation_def wrap_read wrap_lift run_lift run_read run_wrap get_inode_def)
  then show ?thesis
    by (rule refine_set [OF assms(3) i(5,1), where n = n]) (use node_matches_meta [OF i(3)] node_matches_xattrs [OF i(3)] assms(6) in \<open>simp_all add: fun_upd_idem\<close>)
qed

lemma refine_Chown:
  assumes "permissive k" "good_base basePath" "mirrors (elems basePath) ns fs" "tree_ok ns"
    and "opKind op = OperationKindChown" "map_of ns (opPath op) = Some n"
  shows "\<exists>fs'. applyOperation k basePath op fs = (Inr (), fs') \<and> mirrors (elems basePath) ns fs'"
proof -
  obtain i where i: "map_of (ents fs) (place basePath (opPath op)) = Some i"
    "lookup fs (place basePath (opPath op)) = Some (inos fs i)" "node_matches n (inos fs i)"
    "housed ns (opPath op)" "clean_abs (opPath op)" by (rule node_found [OF assms(3,4,6)])
  have r: "resolve k fs False (abs_path (place basePath (opPath op))) = Inr (place basePath (opPath op))"
    by (rule housed_resolve [OF assms(2-4) i(4)]) simp
  let ?j = "(inos fs i)\<lparr>iuid := chown_id (opUID op) (iuid (inos fs i)), igid := chown_id (opGID op) (igid (inos fs i))\<rparr>"
  have "os_Lchown k (abs_path (place basePath (opPath op))) (opUID op) (opGID op) fs =
      (Inr (), fs\<lparr>inos := (inos fs)(i := ?j)\<rparr>)"
    unfolding os_Lchown_def run_call [OF assms(1) r] by (rule with_inode_ok [OF i(1)]) simp
  then have "applyOperation k basePath op fs = (Inr (), fs\<lparr>inos := (inos fs)(i := ?j)\<rparr>)"
    using applyOperation_start [OF assms(1-4) i(4)] assms(5) housed_Lstat [OF assms(1-4) i(4)] i(2)
    by (simp add: applyOperation_def wrap_read wrap_lift run_lift run_read run_wrap get_inode_def)
  then show ?thesis
    by (rule refine_set [OF assms(3) i(5,1), where n = n]) (use node_matches_meta [OF i(3)] node_matches_xattrs [OF i(3)] assms(6) in \<open>simp_all add: fun_upd_idem\<close>)
qed

lemma regular_found:
  assumes "permissive k" "good_base basePath" "mirrors (elems basePath) ns fs" "tree_ok ns"
    and "map_of ns p = Some n" "typeID n = mutationNodeTypeFile"
  obtains i d where "map_of (ents fs) (place basePath p) = Some i" "node (inos fs i) = NFile d"
    "nsize n = int (length d)" "node_matches n (inos fs i)" "housed ns p" "clean_abs p"
    "resolve k fs True (abs_path (place basePath p)) = Inr (place basePath p)"
    "ensureRegularFile k (abs_path (place basePath p)) fs = Inr (inos fs i)"
    "os_OpenFile k (abs_path (place basePath p)) fs = (Inr (place basePath p), fs)"
proof -
  obtain i where i: "map_of (ents fs) (place basePath p) = Some i"
    "lookup fs (place basePath p) = Some (inos fs i)" "node_matches n (inos fs i)"
    "housed ns p" "clean_abs p" by (rule node_found [OF assms(3-5)])
  obtain d where d: "node (inos fs i) = NFile d" "nsize n = int (length d)" using file_node [OF i(3) assms(6)] by blast
  have r: "resolve k fs True (abs_path (place basePath p)) = Inr (place basePath p)"
    by (rule housed_resolve [OF assms(2-4) i(4)]) (use d i(2) in simp)
  have e: "ensureRegularFile k (abs_path (place basePath p)) fs = Inr (inos fs i)"
    using housed_Lstat [OF assms(1-4) i(4)] i(2) d by (simp add: ensureRegularFile_def get_inode_def IsRegular_def)
  have "os_OpenFile k (abs_path (place basePath p)) fs = (Inr (place basePath p), fs)"
    using i(2) d by (simp add: os_OpenFile_def run_call [OF assms(1) r])
  then show thesis using that i(1,3-5) d r e by blast
qed

lemma refine_Truncate:
  assumes "permissive k" "good_base basePath" "mirrors (elems basePath) ns fs" "tree_ok ns"
    and "opKind op = OperationKindTruncate" "map_of ns (opPath op) = Some n" "typeID n = mutationNodeTypeFile"
    and "0 \<le> opSize op" "opSize op \<le> maxFileSize"
  shows "\<exists>fs'. applyOperation k basePath op fs = (Inr (), fs') \<and>
    mirrors (elems basePath) (put (opPath op) (n\<lparr>nsize := opSize op\<rparr>) ns) fs'"
proof -
  let ?p = "opPath op"
  obtain i d where i: "map_of (ents fs) (place basePath ?p) = Some i" "node (inos fs i) = NFile d"
    "nsize n = int (length d)" "node_matches n (inos fs i)" "housed ns ?p" "clean_abs ?p"
    "resolve k fs True (abs_path (place basePath ?p)) = Inr (place basePath ?p)"
    "ensureRegularFile k (abs_path (place basePath ?p)) fs = Inr (inos fs i)"
    by (rule regular_found [OF assms(1-4,6,7)])
  let ?d = "take (nat (opSize op)) d @ replicate (nat (opSize op) - length d) 0"
  have len: "int (length ?d) = opSize op" using assms(8) by simp
  have "os_Truncate k (abs_path (place basePath ?p)) (opSize op) fs =
      (Inr (), touch_at (place basePath ?p) (fs\<lparr>inos := (inos fs)(i := (inos fs i)\<lparr>node := NFile ?d\<rparr>)\<rparr>))"
    unfolding os_Truncate_def run_call [OF assms(1) i(7)] bindS_def modifyS_def
    by (subst with_inode_ok [OF i(1)]) (use i(2) assms(8,9) len in \<open>simp_all add: ftruncate_def set_data_def\<close>)
  then have "applyOperation k basePath op fs = (Inr (), touch_at (place basePath ?p) (fs\<lparr>inos := (inos fs)(i := (inos fs i)\<lparr>node := NFile ?d\<rparr>)\<rparr>))"
    using applyOperation_start [OF assms(1-4) i(5)] assms(5) i(8)
    by (simp add: applyOperation_def wrap_read wrap_lift run_lift run_read run_wrap)
  then show ?thesis
    by (rule refine_set [OF assms(3) i(6,1), where n = "n\<lparr>nsize := opSize op\<rparr>"])
      (use i(2) node_matches_data [OF i(4) assms(7), of ?d] len assms(9) in simp_all)
qed

lemma refine_Append:
  assumes "permissive k" "good_base basePath" "mirrors (elems basePath) ns fs" "tree_ok ns"
    and "opKind op = OperationKindAppend" "map_of ns (opPath op) = Some n" "typeID n = mutationNodeTypeFile"
    and "nsize n + int (length (opData op)) \<le> maxFileSize"
  shows "\<exists>fs'. applyOperation k basePath op fs = (Inr (), fs') \<and>
    mirrors (elems basePath) (put (opPath op) (n\<lparr>nsize := wrap64 (nsize n + int (length (opData op)))\<rparr>) ns) fs'"
proof -
  let ?p = "opPath op"
  obtain i d where i: "map_of (ents fs) (place basePath ?p) = Some i" "node (inos fs i) = NFile d"
    "nsize n = int (length d)" "node_matches n (inos fs i)" "housed ns ?p" "clean_abs ?p"
    "resolve k fs True (abs_path (place basePath ?p)) = Inr (place basePath ?p)"
    "ensureRegularFile k (abs_path (place basePath ?p)) fs = Inr (inos fs i)"
    "os_OpenFile k (abs_path (place basePath ?p)) fs = (Inr (place basePath ?p), fs)"
    by (rule regular_found [OF assms(1-4,6,7)])
  let ?d = "d @ opData op"
  have len: "wrap64 (nsize n + int (length (opData op))) = int (length ?d)"
    using i(3) assms(8) by (simp add: int64_range_def maxFileSize_def)
  have "fd_Append k (place basePath ?p) (opData op) fs =
      (Inr (int (length (opData op))), touch_at (place basePath ?p) (fs\<lparr>inos := (inos fs)(i := (inos fs i)\<lparr>node := NFile ?d\<rparr>)\<rparr>))"
    unfolding fd_Append_def by (rule write_handle_ok [OF assms(1) i(1,2)]) (use i(3) assms(8) in simp_all)
  then have "appendToOperationFile k (abs_path (place basePath ?p)) (opData op) fs =
      (Inr (), touch_at (place basePath ?p) (fs\<lparr>inos := (inos fs)(i := (inos fs i)\<lparr>node := NFile ?d\<rparr>)\<rparr>))"
    using i(9) by (simp add: appendToOperationFile_def run_bind run_wrap deferred_close_ok [OF assms(1)] returnS_def)
  then have "applyOperation k basePath op fs = (Inr (), touch_at (place basePath ?p) (fs\<lparr>inos := (inos fs)(i := (inos fs i)\<lparr>node := NFile ?d\<rparr>)\<rparr>))"
    using applyOperation_start [OF assms(1-4) i(5)] assms(5) i(8)
    by (simp add: applyOperation_def wrap_read wrap_lift run_lift run_read run_wrap)
  then show ?thesis unfolding len
    by (rule refine_set [OF assms(3) i(6,1), where n = "n\<lparr>nsize := int (length ?d)\<rparr>"])
      (use i(2) node_matches_data [OF i(4) assms(7), of ?d] i(3) assms(8) in simp_all)
qed

lemma refine_OverwriteRange:
  assumes "permissive k" "good_base basePath" "mirrors (elems basePath) ns fs" "tree_ok ns"
    and "opKind op = OperationKindOverwriteRange" "map_of ns (opPath op) = Some n" "typeID n = mutationNodeTypeFile"
    and "0 \<le> opOffset op" "opOffset op \<le> nsize n" "opOffset op + int (length (opData op)) \<le> maxFileSize"
    and "opData op \<noteq> []"
  shows "\<exists>fs'. applyOperation k basePath op fs = (Inr (), fs') \<and>
    mirrors (elems basePath) (let end' = wrap64 (opOffset op + int (length (opData op))) in
      if end' > nsize n then put (opPath op) (n\<lparr>nsize := end'\<rparr>) ns else ns) fs'"
proof -
  let ?p = "opPath op"
  obtain i d where i: "map_of (ents fs) (place basePath ?p) = Some i" "node (inos fs i) = NFile d"
    "nsize n = int (length d)" "node_matches n (inos fs i)" "housed ns ?p" "clean_abs ?p"
    "resolve k fs True (abs_path (place basePath ?p)) = Inr (place basePath ?p)"
    "ensureRegularFile k (abs_path (place basePath ?p)) fs = Inr (inos fs i)"
    "os_OpenFile k (abs_path (place basePath ?p)) fs = (Inr (place basePath ?p), fs)"
    by (rule regular_found [OF assms(1-4,6,7)])
  let ?d = "pwrite d (nat (opOffset op)) (opData op)"
  have w: "wrap64 (opOffset op + int (length (opData op))) = opOffset op + int (length (opData op))"
    using assms(8,10) by (simp add: int64_range_def maxFileSize_def)
  have len: "int (length ?d) = max (nsize n) (opOffset op + int (length (opData op)))"
    using i(3) assms(8,11) by (simp add: length_pwrite)
  have "nsize n \<le> maxFileSize" using file_node [OF i(4) assms(7)] by blast
  then have le: "int (length ?d) \<le> maxFileSize" using len assms(10) by simp
  have "fd_WriteAt k (place basePath ?p) (opData op) (opOffset op) fs =
      (Inr (int (length (opData op))), touch_at (place basePath ?p) (fs\<lparr>inos := (inos fs)(i := (inos fs i)\<lparr>node := NFile ?d\<rparr>)\<rparr>))"
    unfolding fd_WriteAt_def
    by (rule write_handle_ok [OF assms(1) i(1,2)]) (use assms(8) le in \<open>simp_all add: WriteAt_def\<close>)
  then have "overwriteOperationFile k (abs_path (place basePath ?p)) (opOffset op) (opData op) fs =
      (Inr (), touch_at (place basePath ?p) (fs\<lparr>inos := (inos fs)(i := (inos fs i)\<lparr>node := NFile ?d\<rparr>)\<rparr>))"
    using i(9) by (simp add: overwriteOperationFile_def run_bind run_wrap deferred_close_ok [OF assms(1)] returnS_def)
  then have a: "applyOperation k basePath op fs = (Inr (), touch_at (place basePath ?p) (fs\<lparr>inos := (inos fs)(i := (inos fs i)\<lparr>node := NFile ?d\<rparr>)\<rparr>))"
    using applyOperation_start [OF assms(1-4) i(5)] assms(5) i(2,3,8) assms(9)
    by (simp add: applyOperation_def wrap_read wrap_lift run_lift run_read run_wrap Size_def)
  let ?ns = "if opOffset op + int (length (opData op)) > nsize n
    then put ?p (n\<lparr>nsize := opOffset op + int (length (opData op))\<rparr>) ns else ns"
  have "map_of ?ns = (map_of ns)(?p \<mapsto> n\<lparr>nsize := int (length ?d)\<rparr>)"
    unfolding len by (auto simp: max_def fun_upd_idem assms(6))
  from refine_set [OF assms(3) i(6,1) a mirrors_touch _ _ this] node_matches_data [OF i(4) assms(7) le] i(2)
  show ?thesis by (simp add: w Let_def)
qed

lemma real_node: "node_matches n i \<Longrightarrow> typeID n \<noteq> mutationNodeTypeSymlink \<Longrightarrow> IsRegular i \<or> IsDir i"
  by (auto simp: node_matches_def IsRegular_def IsDir_def split: mutationNodeType.splits fnode.splits)

lemma refine_SetXAttr:
  assumes "permissive k" "good_base basePath" "mirrors (elems basePath) ns fs" "tree_ok ns"
    and "opKind op = OperationKindSetXAttr" "map_of ns (opPath op) = Some n" "typeID n \<noteq> mutationNodeTypeSymlink"
    and "validateXAttrName (opXAttrName op) = Inr name"
  shows "\<exists>fs'. applyOperation k basePath op fs = (Inr (), fs') \<and>
    mirrors (elems basePath) (put (opPath op) (n\<lparr>xattrs := Some (List.insert (opXAttrName op) (xattr_set n))\<rparr>) ns) fs'"
proof -
  obtain i where i: "map_of (ents fs) (place basePath (opPath op)) = Some i"
    "lookup fs (place basePath (opPath op)) = Some (inos fs i)" "node_matches n (inos fs i)"
    "housed ns (opPath op)" "clean_abs (opPath op)" by (rule node_found [OF assms(3,4,6)])
  have r: "resolve k fs False (abs_path (place basePath (opPath op))) = Inr (place basePath (opPath op))"
    by (rule housed_resolve [OF assms(2-4) i(4)]) simp
  have name: "name = opXAttrName op" using assms(8) by (auto simp: validateXAttrName_def Let_def split: if_splits)
  let ?j = "(inos fs i)\<lparr>ixattrs := AList.update name (opXAttrValue op) (ixattrs (inos fs i))\<rparr>"
  have "Lsetxattr k (abs_path (place basePath (opPath op))) name (opXAttrValue op) fs =
      (Inr (), fs\<lparr>inos := (inos fs)(i := ?j)\<rparr>)"
    unfolding Lsetxattr_def run_call [OF assms(1) r]
    by (rule with_inode_ok [OF i(1)]) (use real_node [OF i(3) assms(7)] in auto)
  then have "applyOperation k basePath op fs = (Inr (), fs\<lparr>inos := (inos fs)(i := ?j)\<rparr>)"
    using applyOperation_start [OF assms(1-4) i(4)] assms(5,8) housed_Lstat [OF assms(1-4) i(4)] i(2)
    by (simp add: applyOperation_def wrap_read wrap_lift run_lift run_read run_wrap get_inode_def
        setPathXAttr_def map_errS_def)
  then show ?thesis
    by (rule refine_set [OF assms(3) i(5,1),
          where n = "n\<lparr>xattrs := Some (List.insert (opXAttrName op) (xattr_set n))\<rparr>"])
      (use node_matches_xattrs [OF i(3)] name in
        \<open>auto intro!: node_matches_meta [OF i(3)] simp: dom_update\<close>)
qed

lemma delete_dom: "fst ` set (AList.delete k al) = fst ` set al - {k}"
  using delete_keys [of k al] by (metis set_map set_removeAll)

lemma refine_RemoveXAttr:
  assumes "permissive k" "good_base basePath" "mirrors (elems basePath) ns fs" "tree_ok ns"
    and "opKind op = OperationKindRemoveXAttr" "map_of ns (opPath op) = Some n" "typeID n \<noteq> mutationNodeTypeSymlink"
    and "validateXAttrName (opXAttrName op) = Inr name" "opXAttrName op \<in> set (xattr_set n)"
  shows "\<exists>fs'. applyOperation k basePath op fs = (Inr (), fs') \<and>
    mirrors (elems basePath) (put (opPath op) (n\<lparr>xattrs := Some (removeAll (opXAttrName op) (xattr_set n))\<rparr>) ns) fs'"
proof -
  obtain i where i: "map_of (ents fs) (place basePath (opPath op)) = Some i"
    "lookup fs (place basePath (opPath op)) = Some (inos fs i)" "node_matches n (inos fs i)"
    "housed ns (opPath op)" "clean_abs (opPath op)" by (rule node_found [OF assms(3,4,6)])
  have r: "resolve k fs False (abs_path (place basePath (opPath op))) = Inr (place basePath (opPath op))"
    by (rule housed_resolve [OF assms(2-4) i(4)]) simp
  have name: "name = opXAttrName op" using assms(8) by (auto simp: validateXAttrName_def Let_def split: if_splits)
  let ?j = "(inos fs i)\<lparr>ixattrs := AList.delete name (ixattrs (inos fs i))\<rparr>"
  have "map_of (ixattrs (inos fs i)) name \<noteq> None"
    using node_matches_xattrs [OF i(3)] assms(9) name by (auto simp: map_of_eq_None_iff)
  then have "Lremovexattr k (abs_path (place basePath (opPath op))) name fs =
      (Inr (), fs\<lparr>inos := (inos fs)(i := ?j)\<rparr>)"
    unfolding Lremovexattr_def run_call [OF assms(1) r]
    by (intro with_inode_ok [OF i(1)]) (use real_node [OF i(3) assms(7)] in auto)
  then have "applyOperation k basePath op fs = (Inr (), fs\<lparr>inos := (inos fs)(i := ?j)\<rparr>)"
    using applyOperation_start [OF assms(1-4) i(4)] assms(5,8) housed_Lstat [OF assms(1-4) i(4)] i(2)
    by (simp add: applyOperation_def wrap_read wrap_lift run_lift run_read run_wrap get_inode_def
        removePathXAttr_def map_errS_def)
  then show ?thesis
    by (rule refine_set [OF assms(3) i(5,1),
          where n = "n\<lparr>xattrs := Some (removeAll (opXAttrName op) (xattr_set n))\<rparr>"])
      (use node_matches_xattrs [OF i(3)] name in
        \<open>auto intro!: node_matches_meta [OF i(3)] simp: delete_dom\<close>)
qed

lemma below_place: "below (place basePath p) (elems basePath @ cs) \<longleftrightarrow> below (elems p) cs"
  by (simp add: place_def below_base)

lemma in_subtree_below:
  assumes "clean_abs p" "list_all elem_ok cs"
  shows "in_subtree p (abs_path cs) \<longleftrightarrow> below (elems p) cs"
proof -
  have "clean_abs (abs_path cs)" "elems (abs_path cs) = cs" using assms(2) by (simp_all add: list_all_iff)
  then show ?thesis using in_subtree_iff [of "abs_path cs" p] assms(1) by (metis belowE below_append)
qed

lemma refine_Delete:
  assumes "permissive k" "good_base basePath" "mirrors (elems basePath) ns fs" "tree_ok ns"
    and "opKind op = OperationKindDelete" "path_wf (opPath op) False" "map_of ns (opPath op) = Some n"
    and "\<And>q. map_of ns' q = (if in_subtree (opPath op) q then None else map_of ns q)"
    and "typeID n \<noteq> mutationNodeTypeDir \<Longrightarrow> (\<And>q. map_of ns' q = (if q = opPath op then None else map_of ns q))"
  shows "\<exists>fs'. applyOperation k basePath op fs = (Inr (), fs') \<and> mirrors (elems basePath) ns' fs'"
proof -
  let ?q = "place basePath (opPath op)"
  obtain i where i: "map_of (ents fs) ?q = Some i" "lookup fs ?q = Some (inos fs i)" "node_matches n (inos fs i)"
    "housed ns (opPath op)" "clean_abs (opPath op)" by (rule node_found [OF assms(3,4,7)])
  have r: "resolve k fs False (abs_path ?q) = Inr ?q" by (rule housed_resolve [OF assms(2-4) i(4)]) simp
  have sb: "strictly_below (elems basePath) ?q" by (rule place_strict [OF assms(6)])
  then have ne: "?q \<noteq> []" by (auto simp: strictly_below_def below_def)
  note start = applyOperation_start [OF assms(1-4) i(4)] assms(5) housed_Lstat [OF assms(1-4) i(4)] i(2)
  show ?thesis
  proof (cases "typeID n = mutationNodeTypeDir")
    case True
    then have d: "node (inos fs i) = NDir" using i(3) by (simp add: node_matches_def)
    let ?fs = "fs\<lparr>ents := filter (\<lambda>e. \<not> below ?q (fst e)) (ents fs)\<rparr>"
    let ?fs' = "fold (\<lambda>e. touch_at (butlast (fst e))) (filter (\<lambda>e. below ?q (fst e)) (ents fs)) ?fs"
    have "os_RemoveAll k (abs_path ?q) fs = (Inr (), ?fs')"
      using r i(2) assms(1) ne by (simp add: os_RemoveAll_def Let_def permissive_def)
    then have a: "applyOperation k basePath op fs = (Inr (), ?fs')"
      using start d
      by (simp add: applyOperation_def wrap_read wrap_lift run_lift run_read run_wrap get_inode_def IsDir_def)
    have "mirrors (elems basePath) ns' ?fs"
      by (rule mirrors_filter [OF assms(3), where P = "\<lambda>q. \<not> below ?q q"])
        (use strictly_below_trans [OF sb] assms(8) in_subtree_below [OF i(5)] in \<open>auto simp: below_place\<close>)
    then have "mirrors (elems basePath) ns' ?fs'" by simp
    then show ?thesis using a by blast
  next
    case False
    then have d: "node (inos fs i) \<noteq> NDir"
      using i(3) by (auto simp: node_matches_def IsSymlink_def split: mutationNodeType.splits)
    let ?fs = "fs\<lparr>ents := filter (\<lambda>e. fst e \<noteq> ?q) (ents fs)\<rparr>"
    have "os_Remove k (abs_path ?q) fs = (Inr (), touch_at (butlast ?q) ?fs)"
      using i(2) d ne by (simp add: os_Remove_def run_call [OF assms(1) r] dir_at_def)
    then have a: "applyOperation k basePath op fs = (Inr (), touch_at (butlast ?q) ?fs)"
      using start d
      by (simp add: applyOperation_def wrap_read wrap_lift run_lift run_read run_wrap get_inode_def IsDir_def)
    have "mirrors (elems basePath) ns' ?fs"
      by (rule mirrors_filter [OF assms(3), where P = "\<lambda>q. q \<noteq> ?q"])
        (use sb assms(9) [OF False] same_place [OF _ i(5)] in \<open>auto simp: place_def\<close>)
    then show ?thesis using a by (metis mirrors_touch)
  qed
qed

lemma refine_Rename:
  assumes "permissive k" "good_base basePath" "mirrors (elems basePath) ns fs" "tree_ok ns"
    and "opKind op = OperationKindRename" "path_wf (opPath op) False" "path_wf (opDestination op) False"
    and "map_of ns (opPath op) = Some n" "map_of ns (opDestination op) = None" "is_dir ns (Dir (opDestination op))"
    and "typeID n = mutationNodeTypeDir \<Longrightarrow> \<not> isChildMutationPath (opDestination op) (opPath op)"
    and "\<And>q m. map_of ns' q = Some m \<longleftrightarrow> (\<exists>p. map_of ns p = Some m \<and>
      q = (if in_subtree (opPath op) p
           then abs_path (elems (opDestination op) @ drop (length (elems (opPath op))) (elems p)) else p))"
  shows "\<exists>fs'. applyOperation k basePath op fs = (Inr (), fs') \<and> mirrors (elems basePath) ns' fs'"
proof -
  let ?src = "opPath op" and ?dst = "opDestination op"
  let ?p = "place basePath ?src" and ?q = "place basePath ?dst"
  obtain i where i: "map_of (ents fs) ?p = Some i" "lookup fs ?p = Some (inos fs i)" "node_matches n (inos fs i)"
    "housed ns ?src" "clean_abs ?src" by (rule node_found [OF assms(3,4,8)])
  have c: "clean_abs ?dst" "?dst \<noteq> ''/''" using assms(7) by (simp_all add: path_wf_def)
  have hd: "housed ns ?dst" using assms(7,10) by (simp add: housed_def path_wf_def)
  note free = housed_free [OF assms(1-4) hd assms(7,9)]
  have out: "\<not> below (elems ?src) (elems ?dst)"
  proof
    assume "below (elems ?src) (elems ?dst)"
    then obtain r where r: "elems ?dst = elems ?src @ r" by (rule belowE)
    have ne: "r \<noteq> []" using r elems_inj [OF c(1) i(5)] assms(8,9) by auto
    have dst: "Dir ?dst = abs_path (elems ?src @ butlast r)"
      using Dir_clean_abs [OF c(1)] r ne by (simp add: butlast_append)
    have "is_dir ns (abs_path (elems ?src))"
    proof (cases "butlast r = []")
      case True
      then show ?thesis using assms(10) dst by simp
    next
      case False
      show ?thesis
        by (rule tree_ok_ancestor [OF assms(4) _ False])
          (use assms(10) dst is_dir_has r elems_list_all [of ?dst] in
            \<open>auto simp: list_all_iff dest: in_set_butlastD\<close>)
    qed
    then have "typeID n = mutationNodeTypeDir"
      using assms(8) abs_path_elems [OF i(5)] by (simp add: is_dir_def)
    then show False using assms(11) isChild_iff [OF c(1) i(5)] r ne by blast
  qed
  have rp: "resolve k fs False (abs_path ?p) = Inr ?p" by (rule housed_resolve [OF assms(2-4) i(4)]) simp
  have rq: "resolve k fs False (abs_path ?q) = Inr ?q" by (rule housed_resolve [OF assms(2-4) hd]) simp
  have ne: "?p \<noteq> []" "?q \<noteq> []"
    using place_strict [OF assms(6), of basePath] place_strict [OF assms(7), of basePath] by (auto simp: strictly_below_def below_def)
  let ?fs = "fs\<lparr>ents := map (move_entry ?p ?q) (filter (\<lambda>e. fst e \<noteq> ?q) (ents fs))\<rparr>"
  have nb: "\<not> below ?p ?q" using out below_place [of basePath ?src "elems ?dst"] by (simp add: place_def)
  have "map_of (ents fs) ?q = None" using free(2) by (simp add: lookup_def)
  then have "os_Rename k (abs_path ?p) (abs_path ?q) fs = (Inr (), touch_at (butlast ?p) (touch_at (butlast ?q) ?fs))"
    using i(1,2) ne nb free(2)
    by (simp add: os_Rename_def run_call [OF assms(1) rp] run_call [OF assms(1) rq] dir_at_def)
  moreover have "\<not> (IsDir (inos fs i) \<and> isChildMutationPath ?dst ?src)"
    using assms(11) i(3) by (auto simp: node_matches_def IsDir_def IsSymlink_def split: mutationNodeType.splits fnode.splits)
  moreover have "operationPathToFS basePath ?dst = Inr (abs_path ?q)"
    using toFS_place [of basePath ?dst] assms(2,7) by (simp add: good_base_def)
  ultimately have a: "applyOperation k basePath op fs = (Inr (), touch_at (butlast ?p) (touch_at (butlast ?q) ?fs))"
    using applyOperation_start [OF assms(1-4) i(4)] assms(5) housed_Lstat [OF assms(1-4) i(4)] i(2)
      housed_parents [OF assms(1-4) hd] free(1)
    by (auto simp: applyOperation_def wrap_read wrap_lift run_lift run_read run_wrap get_inode_def)
  have "mirrors (elems basePath) ns' ?fs"
    using mirrors_move [OF assms(3,4,6,7,9) out assms(12)] by (simp add: place_def)
  then show ?thesis using a by (metis mirrors_touch)
qed

section \<open>One step, one stream\<close>

lemma applyOperation_refines:
  assumes k: "permissive k" and b: "good_base basePath" and m: "mirrors (elems basePath) (nodes st) fs"
    and t: "tree_ok (nodes st)" and wf: "op_wf op" and f: "fits (nodes st) op"
    and v: "applyVirtualOperation op st = (Inr (), st')"
  shows "\<exists>fs'. applyOperation k basePath op fs = (Inr (), fs') \<and> mirrors (elems basePath) (nodes st') fs'"
proof (cases "opKind op")
  case OperationKindCreateFile
  then have "path_wf (opPath op) False" using wf by (simp add: op_wf_def)
  then show ?thesis
    using refine_CreateFile [OF k b m t OperationKindCreateFile] v f hasParentDirectory_is_dir [OF path_wf_clean]
    by (auto simp: OperationKindCreateFile applyVirtualOperation_def Let_def fits_def has_def split: if_splits option.splits)
next
  case OperationKindCreateDir
  then have "path_wf (opPath op) False" using wf by (simp add: op_wf_def)
  then show ?thesis
    using refine_CreateDir [OF k b m t OperationKindCreateDir] v hasParentDirectory_is_dir [OF path_wf_clean]
    by (auto simp: OperationKindCreateDir applyVirtualOperation_def Let_def has_def split: if_splits option.splits)
next
  case OperationKindCreateSymlink
  then have "path_wf (opPath op) False" "opLinkTarget op \<noteq> []" "\<not> Contains (opLinkTarget op) NUL"
    using wf by (simp_all add: op_wf_def)
  then show ?thesis
    using refine_CreateSymlink [OF k b m t OperationKindCreateSymlink] v hasParentDirectory_is_dir [OF path_wf_clean]
    by (auto simp: OperationKindCreateSymlink applyVirtualOperation_def Let_def has_def split: if_splits option.splits)
next
  case OperationKindCreateHardlink
  then show ?thesis using f by (simp add: fits_def)
next
  case OperationKindDelete
  then have p: "path_wf (opPath op) False" using wf by (simp add: op_wf_def)
  obtain n where n: "map_of (nodes st) (opPath op) = Some n"
    and st': "typeID n \<noteq> mutationNodeTypeDir \<Longrightarrow> nodes st' = del (opPath op) (nodes st)"
    using v OperationKindDelete by (auto simp: applyVirtualOperation_def Let_def split: option.splits if_splits)
  show ?thesis
    by (rule refine_Delete [OF k b m t OperationKindDelete p n delete_map_of [OF t wf OperationKindDelete v]])
      (simp add: st')
next
  case OperationKindRename
  then have p: "path_wf (opPath op) False" "path_wf (opDestination op) False" using wf by (simp_all add: op_wf_def)
  obtain n where n: "map_of (nodes st) (opPath op) = Some n" "map_of (nodes st) (opDestination op) = None"
    "hasParentDirectory st (opDestination op)"
    "typeID n = mutationNodeTypeDir \<Longrightarrow> \<not> isChildMutationPath (opDestination op) (opPath op)"
    using v OperationKindRename
    by (auto simp: applyVirtualOperation_def Let_def has_def split: option.splits if_splits)
  show ?thesis
    by (rule refine_Rename [OF k b m t OperationKindRename p n(1,2) _ n(4) rename_map_of [OF t wf OperationKindRename v]])
      (use n(3) hasParentDirectory_is_dir [OF path_wf_clean [OF p(2)]] in simp_all)
next
  case OperationKindChmod
  then obtain n where n: "map_of (nodes st) (opPath op) = Some n" "nodes st' = nodes st"
    using v by (auto simp: applyVirtualOperation_def Let_def has_def split: if_splits)
  then show ?thesis
    using refine_Chmod [OF k b m t OperationKindChmod n(1)] f OperationKindChmod by (simp add: fits_def is_symlink_def)
next
  case OperationKindChown
  then obtain n where n: "map_of (nodes st) (opPath op) = Some n" "nodes st' = nodes st"
    using v by (auto simp: applyVirtualOperation_def Let_def has_def split: if_splits)
  then show ?thesis using refine_Chown [OF k b m t OperationKindChown n(1)] by simp
next
  case OperationKindTruncate
  then obtain n where n: "map_of (nodes st) (opPath op) = Some n" "typeID n = mutationNodeTypeFile"
    "nodes st' = put (opPath op) (n\<lparr>nsize := opSize op\<rparr>) (nodes st)"
    using v by (auto simp: applyVirtualOperation_def Let_def split: option.splits if_splits)
  then show ?thesis
    using refine_Truncate [OF k b m t OperationKindTruncate n(1,2)] f wf OperationKindTruncate
    by (simp add: fits_def op_wf_def)
next
  case OperationKindAppend
  then obtain n where n: "map_of (nodes st) (opPath op) = Some n" "typeID n = mutationNodeTypeFile"
    "nodes st' = put (opPath op) (n\<lparr>nsize := wrap64 (nsize n + int (length (opData op)))\<rparr>) (nodes st)"
    using v by (auto simp: applyVirtualOperation_def Let_def split: option.splits if_splits)
  then show ?thesis
    using refine_Append [OF k b m t OperationKindAppend n(1,2)] f OperationKindAppend
    by (simp add: fits_def size_at_def)
next
  case OperationKindOverwriteRange
  then obtain n where n: "map_of (nodes st) (opPath op) = Some n" "typeID n = mutationNodeTypeFile"
    "nodes st' = (let end' = wrap64 (opOffset op + int (length (opData op))) in
      if end' > nsize n then put (opPath op) (n\<lparr>nsize := end'\<rparr>) (nodes st) else nodes st)"
    using v by (auto simp: applyVirtualOperation_def Let_def split: option.splits if_splits)
  then show ?thesis
    using refine_OverwriteRange [OF k b m t OperationKindOverwriteRange n(1,2)] f wf OperationKindOverwriteRange
    by (simp add: fits_def size_at_def op_wf_def)
next
  case OperationKindSetXAttr
  then obtain n name where n: "map_of (nodes st) (opPath op) = Some n" "validateXAttrName (opXAttrName op) = Inr name"
    "nodes st' = put (opPath op) (n\<lparr>xattrs := Some (List.insert (opXAttrName op) (xattr_set n))\<rparr>) (nodes st)"
    using v by (auto simp: applyVirtualOperation_def Let_def split: option.splits sum.splits)
  then show ?thesis
    using refine_SetXAttr [OF k b m t OperationKindSetXAttr n(1) _ n(2)] f OperationKindSetXAttr
    by (simp add: fits_def is_symlink_def)
next
  case OperationKindRemoveXAttr
  then obtain n name where n: "map_of (nodes st) (opPath op) = Some n" "validateXAttrName (opXAttrName op) = Inr name"
    "opXAttrName op \<in> set (xattr_set n)"
    "nodes st' = put (opPath op) (n\<lparr>xattrs := Some (removeAll (opXAttrName op) (xattr_set n))\<rparr>) (nodes st)"
    using v by (auto simp: applyVirtualOperation_def Let_def split: option.splits sum.splits if_splits)
  then show ?thesis
    using refine_RemoveXAttr [OF k b m t OperationKindRemoveXAttr n(1) _ n(2,3)] f OperationKindRemoveXAttr
    by (simp add: fits_def is_symlink_def)
next
  case (OperationKindUnknown u)
  then show ?thesis using wf by (simp add: op_wf_def)
qed

text \<open>A stream replays on the virtual tree, each operation fitting where it is applied.\<close>

fun replays :: "Operation list \<Rightarrow> mutationState \<Rightarrow> bool" where
  "replays [] st = True"
| "replays (op # ops) st = (op_wf op \<and> fits (nodes st) op \<and>
     (case applyVirtualOperation op st of (Inl e, st') \<Rightarrow> False | (Inr _, st') \<Rightarrow> replays ops st'))"

fun replay :: "Operation list \<Rightarrow> mutationState \<Rightarrow> mutationState" where
  "replay [] st = st"
| "replay (op # ops) st = replay ops (snd (applyVirtualOperation op st))"

lemma apply_loop_refines:
  assumes "permissive k" "good_base basePath" "mirrors (elems basePath) (nodes st) fs" "tree_ok (nodes st)"
    "replays rest st"
  shows "\<exists>fs'. apply_loop k basePath ops i rest \<lparr>injector = None\<rparr> fs = (None, fs') \<and>
    mirrors (elems basePath) (nodes (replay rest st)) fs'"
  using assms(3-5)
proof (induction rest arbitrary: i st fs)
  case (Cons op rest)
  obtain st' where v: "applyVirtualOperation op st = (Inr (), st')" and r: "replays rest st'"
    using Cons.prems(3) by (auto split: prod.splits sum.splits)
  have wf: "op_wf op" and f: "fits (nodes st) op" using Cons.prems(3) by simp_all
  obtain fs' where a: "applyOperation k basePath op fs = (Inr (), fs')" "mirrors (elems basePath) (nodes st') fs'"
    using applyOperation_refines [OF assms(1,2) Cons.prems(1,2) wf f v] by blast
  have t: "tree_ok (nodes st')" using apply_tree_ok [OF Cons.prems(2) wf] v by simp
  from Cons.IH [OF a(2) t r, of "Suc i"] show ?case
    using a(1) v normalizeOperation_id [OF wf] by (simp add: ctx_before_def)
qed simp

lemma base_Lstat:
  assumes "permissive k" "good_base basePath" "phys fs (elems basePath)"
  shows "\<exists>i. os_Lstat k basePath fs = Inr i \<and> node i = NDir"
proof -
  have b: "basePath = abs_path (elems basePath)"
    using assms(2) abs_path_elems [of basePath] by (simp add: good_base_def clean_abs_def)
  have "phys fs (butlast (elems basePath))" if "elems basePath \<noteq> []"
    using phys_append [of fs "butlast (elems basePath)" "[last (elems basePath)]"] assms(3) that by simp
  then have "resolve k fs False basePath = Inr (elems basePath)"
    using resolve_phys [of "elems basePath" fs False k] phys_root [OF assms(3)] elems_ok b assms(2)
    by (metis good_base_def)
  moreover obtain i where "lookup fs (elems basePath) = Some i" "node i = NDir"
    using phys_dir [OF assms(3)] by (auto simp: dir_at_lookup)
  ultimately show ?thesis using assms(1) by (simp add: os_Lstat_def get_inode_def)
qed

lemma ApplyOperations_refines:
  assumes "permissive k" "good_base basePath" "mirrors (elems basePath) (nodes st) fs" "tree_ok (nodes st)"
    "replays ops st"
  shows "\<exists>fs'. ApplyOperations k basePath ops fs = (None, fs') \<and>
    mirrors (elems basePath) (nodes (replay ops st)) fs'"
proof -
  have "rooted basePath" using assms(2) by (simp add: good_base_def)
  then have trim: "TrimSpace basePath \<noteq> []" by (rule TrimSpace_rooted)
  obtain i where i: "os_Lstat k basePath fs = Inr i" "node i = NDir"
    using base_Lstat [OF assms(1,2) mirrorsD(1) [OF assms(3)]] by blast
  obtain fs' where fs': "apply_loop k basePath ops 0 ops \<lparr>injector = None\<rparr> fs = (None, fs')"
    "mirrors (elems basePath) (nodes (replay ops st)) fs'"
    using apply_loop_refines [OF assms] by blast
  have "ApplyOperations k basePath ops fs = (None, fs')"
  proof (cases "ops = []")
    case True
    then show ?thesis using fs' trim
      by (simp add: ApplyOperations_def ApplyOperationsWithOptions_def validateApplyOptions_def validateFaultProfile_def)
  next
    case False
    then show ?thesis using fs' trim i
      by (simp add: ApplyOperations_def ApplyOperationsWithOptions_def validateApplyOptions_def
          validateFaultProfile_def newExecutionContext_def newFaultInjector_def IsSymlink_def IsDir_def)
  qed
  then show ?thesis using fs'(2) by blast
qed

section \<open>Samples\<close>

definition replay_tree :: "mutationNode gomap" where
  "replay_tree =
     [(''/'', \<lparr>typeID = mutationNodeTypeDir, nsize = 0, xattrs = None\<rparr>),
      (''/f'', \<lparr>typeID = mutationNodeTypeFile, nsize = 3, xattrs = Some []\<rparr>),
      (''/l'', \<lparr>typeID = mutationNodeTypeSymlink, nsize = 0, xattrs = Some []\<rparr>)]"

lemma replay_tree_ok: "tree_ok replay_tree"
  by (simp add: tree_ok_def keys_def is_dir_def replay_tree_def) code_simp

lemma replay_tree_mirrors: "mirrors [''b''] replay_tree sample_fs"
  by (rule mirrorsI_code) code_simp+

end
