(* ===== verification/Executor_Generated.thy ===== *)
theory Executor_Generated
  imports Executor_Replay
begin

text \<open>
  From the generator to the executor: what \<open>GenerateOperations\<close> plans for a scanned base is what
  \<open>ApplyOperations\<close> can do to it. The planner keeps within the sizes of the files it sees
  (\<open>within\<close>), so a stream of bounded length fits (\<open>fits\<close>) wherever it is applied, and the
  refinement of the executor does the rest. The section on resumption relates an interrupted
  run with the run that was not.
\<close>

section \<open>What the planner keeps to\<close>

definition within :: "int \<Rightarrow> mutationNode gomap \<Rightarrow> Operation \<Rightarrow> bool" where
  "within k ns op \<longleftrightarrow>
     (case opKind op of
        OperationKindCreateFile \<Rightarrow> int (length (opData op)) \<le> k
      | OperationKindTruncate \<Rightarrow> opSize op \<le> max (size_at ns (opPath op)) k
      | OperationKindAppend \<Rightarrow> int (length (opData op)) \<le> k
      | OperationKindOverwriteRange \<Rightarrow>
          opOffset op + int (length (opData op)) \<le> size_at ns (opPath op) \<and> opOffset op \<le> size_at ns (opPath op)
      | _ \<Rightarrow> True)"

lemma plans_len_max: "0 < k \<Longrightarrow> plans ns (randomDataLength k) (\<lambda>v. 1 \<le> v \<and> v \<le> k)"
  unfolding randomDataLength_def
  by (rule plans_if) (auto intro!: plans_return plans_bind [OF plans_draw])

lemma node_size_at: "nodes st = ns \<Longrightarrow> node_size st p = size_at ns p"
  by (simp add: node_size_def size_at_def)

lemma within_create:
  assumes "tree_ok ns" "0 < k"
  shows "plans ns (planOperation uid gid OperationKindCreateFile k) (within k ns)"
  unfolding planOp_simps
proof (rule plans_bind [OF plans_unique [OF assms(1)]], rule plans_bind [OF plans_fileMode],
    rule plans_bind [OF plans_len_max [OF assms(2)]], rule plans_bind [OF plans_bytes], rule plans_return)
  fix p m l and d :: "8 word list" assume "1 \<le> l \<and> l \<le> k" "length d = nat l"
  then show "within k ns ((Operation0 OperationKindCreateFile p)\<lparr>opMode := m, opData := d\<rparr>)"
    by (simp add: within_def Operation0_def)
qed

lemma within_append:
  assumes "0 < k"
  shows "plans ns (planOperation uid gid OperationKindAppend k) (within k ns)"
  unfolding planOp_simps
proof (rule plans_bind [OF plans_files], rule plans_if, rule plans_raise, rule plans_bind [OF plans_pick],
    rule plans_bind [OF plans_len_max [OF assms]], rule plans_bind [OF plans_bytes], rule plans_return)
  fix p and l :: int and d :: "8 word list" assume "1 \<le> l \<and> l \<le> k" "length d = nat l"
  then show "within k ns ((Operation0 OperationKindAppend p)\<lparr>opData := d\<rparr>)"
    by (simp add: within_def Operation0_def)
qed

lemma within_truncate:
  assumes "k < 2 ^ 63 - 1" "0 < k" "\<And>p. size_at ns p < 2 ^ 63 - 1"
  shows "plans ns (planOperation uid gid OperationKindTruncate k) (within k ns)"
  unfolding planOp_simps Let_def
proof (rule plans_bind [OF plans_files], rule plans_if, rule plans_raise, rule plans_bind [OF plans_pick])
  fix p
  show "plans ns (bindS (getS (\<lambda>s. node_size (fst s) p)) (\<lambda>currentSize.
      bindS (drawS (wrap64 ((if k < currentSize then currentSize else k) + 1))) (\<lambda>v.
      returnS ((Operation0 OperationKindTruncate p)\<lparr>opSize := v\<rparr>)))) (within k ns)"
  proof (rule plans_bind [OF plans_get [where R = "\<lambda>c. c = size_at ns p"]])
    fix s assume "planI ns s"
    then show "node_size (fst s) p = size_at ns p" by (simp add: planI_def node_size_at)
  next
    fix c assume c: "c = size_at ns p"
    have w: "wrap64 ((if k < c then c else k) + 1) = max c k + 1"
      using assms(1,2) assms(3) [of p] c by (subst wrap64_id) (auto simp: int64_range_def max_def)
    show "plans ns (bindS (drawS (wrap64 ((if k < c then c else k) + 1))) (\<lambda>v.
        returnS ((Operation0 OperationKindTruncate p)\<lparr>opSize := v\<rparr>))) (within k ns)"
      unfolding w
      by (rule plans_bind [OF plans_draw], rule plans_return) (auto simp: within_def Operation0_def c)
  qed
qed

lemma within_overwrite:
  assumes "0 < k"
  shows "plans ns (planOperation uid gid OperationKindOverwriteRange k) (within k ns)"
  unfolding planOp_simps Let_def
proof (rule plans_bind [OF plans_files], rule plans_if, rule plans_raise, rule plans_bind [OF plans_pick])
  fix p
  show "plans ns (bindS (getS (\<lambda>s. node_size (fst s) p)) (\<lambda>fileSize.
      if fileSize \<le> 0 then preconditions_not_met
      else bindS (drawS fileSize) (\<lambda>offset.
        if fileSize - offset \<le> 0 then preconditions_not_met
        else bindS (randomDataLength (if k > fileSize - offset then fileSize - offset else k)) (\<lambda>len.
          bindS (randomBytes len) (\<lambda>data.
          returnS ((Operation0 OperationKindOverwriteRange p)\<lparr>opOffset := offset, opData := data\<rparr>))))))
      (within k ns)"
  proof (rule plans_bind [OF plans_get [where R = "\<lambda>c. c = size_at ns p"]])
    fix s assume "planI ns s"
    then show "node_size (fst s) p = size_at ns p" by (simp add: planI_def node_size_at)
  next
    fix c assume c: "c = size_at ns p"
    show "plans ns (if c \<le> 0 then preconditions_not_met
      else bindS (drawS c) (\<lambda>offset.
        if c - offset \<le> 0 then preconditions_not_met
        else bindS (randomDataLength (if k > c - offset then c - offset else k)) (\<lambda>len.
          bindS (randomBytes len) (\<lambda>data.
          returnS ((Operation0 OperationKindOverwriteRange p)\<lparr>opOffset := offset, opData := data\<rparr>)))))
      (within k ns)"
    proof (rule plans_if, rule plans_raise, rule plans_bind [OF plans_draw], rule plans_if, rule plans_raise)
      fix off assume o': "0 \<le> off \<and> off < c" "\<not> c - off \<le> 0"
      let ?m = "if k > c - off then c - off else k"
      have m: "0 < ?m" using o' assms by simp
      show "plans ns (bindS (randomDataLength ?m) (\<lambda>len. bindS (randomBytes len) (\<lambda>data.
          returnS ((Operation0 OperationKindOverwriteRange p)\<lparr>opOffset := off, opData := data\<rparr>)))) (within k ns)"
        by (rule plans_bind [OF plans_len_max [OF m]], rule plans_bind [OF plans_bytes], rule plans_return)
          (use o' c in \<open>auto simp: within_def Operation0_def split: if_splits\<close>)
    qed
  qed
qed

lemma plans_within:
  assumes "tree_ok ns" "0 < k" "k < 2 ^ 63 - 1" "\<And>p. size_at ns p < 2 ^ 63 - 1"
  shows "plans ns (planOperation uid gid kind k) (within k ns)"
proof -
  have other: "plans ns (planOperation uid gid kind k) (within k ns)"
    if "\<And>op. opKind op = kind \<Longrightarrow> within k ns op" for kind
    by (rule plans_weaken [OF plans_yields [OF plans_planOperation [OF assms(1)] planOperation_kind]]) (use that in blast)
  show ?thesis
    using within_create [OF assms(1,2)] within_append [OF assms(2)] within_truncate [OF assms(3,2,4)]
      within_overwrite [OF assms(2)] other
    by (cases kind) (simp_all add: within_def)
qed

section \<open>Bounded trees\<close>

text \<open>No symbolic links, and no file larger than \<open>S\<close>.\<close>

definition bounded :: "int \<Rightarrow> mutationNode gomap \<Rightarrow> bool" where
  "bounded S ns \<longleftrightarrow> (\<forall>p n. map_of ns p = Some n \<longrightarrow> typeID n \<noteq> mutationNodeTypeSymlink \<and> 0 \<le> nsize n \<and> nsize n \<le> S)"

lemma boundedD: "bounded S ns \<Longrightarrow> map_of ns p = Some n \<Longrightarrow> typeID n \<noteq> mutationNodeTypeSymlink \<and> 0 \<le> nsize n \<and> nsize n \<le> S"
  by (simp add: bounded_def)

lemma bounded_put:
  "bounded S ns \<Longrightarrow> S \<le> S' \<Longrightarrow> typeID n \<noteq> mutationNodeTypeSymlink \<Longrightarrow> 0 \<le> nsize n \<Longrightarrow> nsize n \<le> S' \<Longrightarrow> bounded S' (put p n ns)"
  by (auto simp: bounded_def) (meson order_trans)

lemma bounded_sub:
  "bounded S ns \<Longrightarrow> S \<le> S' \<Longrightarrow> (\<And>p n. map_of ns' p = Some n \<Longrightarrow> \<exists>q. map_of ns q = Some n) \<Longrightarrow> bounded S' ns'"
  by (fastforce simp: bounded_def)

lemma size_at_bounded: "bounded S ns \<Longrightarrow> 0 \<le> S \<Longrightarrow> 0 \<le> size_at ns p \<and> size_at ns p \<le> S"
  by (auto simp: size_at_def bounded_def split: option.split)

definition plain_kind :: "OperationKind \<Rightarrow> bool" where
  "plain_kind kind \<longleftrightarrow> kind \<noteq> OperationKindCreateSymlink \<and> kind \<noteq> OperationKindCreateHardlink"

lemma within_fits:
  assumes b: "bounded S ns" and S: "0 \<le> S" "0 < k" "S + k \<le> maxFileSize" and w: "within k ns op" and kind: "plain_kind (opKind op)"
  shows "fits ns op"
proof -
  note sz = size_at_bounded [OF b S(1), of "opPath op"]
  have ns: "\<not> is_symlink ns p" for p using b by (auto simp: is_symlink_def bounded_def split: option.split)
  show ?thesis
    using w S sz ns kind by (cases "opKind op") (auto simp: within_def fits_def plain_kind_def)
qed

lemma within_bounded:
  assumes b: "bounded S (nodes st)" and t: "tree_ok (nodes st)" and S: "0 \<le> S" "0 < k" "S + k \<le> maxFileSize"
    and w: "within k (nodes st) op" and kind: "plain_kind (opKind op)" and wf: "op_wf op"
    and v: "applyVirtualOperation op st = (Inr (), st')"
  shows "bounded (S + k) (nodes st')"
proof -
  have le: "S \<le> S + k" using S by simp
  note put = bounded_put [OF b le] and sub = bounded_sub [OF b le]
  have same: "bounded (S + k) (nodes st)" by (rule sub) blast
  have w64: "wrap64 x = x" if "0 \<le> x" "x \<le> S + k" for x
    using that S by (simp add: int64_range_def maxFileSize_def)
  have sz: "size_at (nodes st) p = nsize n" if "map_of (nodes st) p = Some n" for p n
    using that by (simp add: size_at_def)
  show ?thesis
  proof (cases "opKind op")
    case OperationKindCreateFile
    then show ?thesis using v w S
      by (auto simp: applyVirtualOperation_def Let_def within_def new_node_def intro!: put split: if_splits)
  next
    case OperationKindCreateDir
    then show ?thesis using v w S
      by (auto simp: applyVirtualOperation_def Let_def within_def new_node_def intro!: put split: if_splits)
  next
    case OperationKindDelete
    show ?thesis by (rule sub) (use delete_map_of [OF t wf OperationKindDelete v] in \<open>auto split: if_splits\<close>)
  next
    case OperationKindRename
    show ?thesis by (rule sub) (use rename_map_of [OF t wf OperationKindRename v] in blast)
  next
    case OperationKindTruncate
    then obtain n where n: "map_of (nodes st) (opPath op) = Some n" "typeID n = mutationNodeTypeFile"
      "nodes st' = put (opPath op) (n\<lparr>nsize := opSize op\<rparr>) (nodes st)"
      using v by (auto simp: applyVirtualOperation_def Let_def split: option.splits if_splits)
    show ?thesis unfolding n(3)
      by (rule put) (use n(2) w wf OperationKindTruncate sz [OF n(1)] boundedD [OF b n(1)] S in
        \<open>auto simp: within_def op_wf_def\<close>)
  next
    case OperationKindAppend
    then obtain n where n: "map_of (nodes st) (opPath op) = Some n" "typeID n = mutationNodeTypeFile"
      "nodes st' = put (opPath op) (n\<lparr>nsize := wrap64 (nsize n + int (length (opData op)))\<rparr>) (nodes st)"
      using v by (auto simp: applyVirtualOperation_def Let_def split: option.splits if_splits)
    have l: "int (length (opData op)) \<le> k" using w OperationKindAppend by (simp add: within_def)
    have "wrap64 (nsize n + int (length (opData op))) = nsize n + int (length (opData op))"
      by (rule w64) (use l boundedD [OF b n(1)] in auto)
    then show ?thesis unfolding n(3) by (intro put) (use n(2) l boundedD [OF b n(1)] in auto)
  next
    case OperationKindOverwriteRange
    then obtain n where n: "map_of (nodes st) (opPath op) = Some n" "typeID n = mutationNodeTypeFile"
      "nodes st' = (let end' = wrap64 (opOffset op + int (length (opData op))) in
        if end' > nsize n then put (opPath op) (n\<lparr>nsize := end'\<rparr>) (nodes st) else nodes st)"
      using v by (auto simp: applyVirtualOperation_def Let_def split: option.splits if_splits)
    have e: "opOffset op + int (length (opData op)) \<le> nsize n" "0 \<le> opOffset op"
      using w wf OperationKindOverwriteRange sz [OF n(1)] by (simp_all add: within_def op_wf_def)
    then have "wrap64 (opOffset op + int (length (opData op))) = opOffset op + int (length (opData op))"
      by (intro w64) (use boundedD [OF b n(1)] S in auto)
    then show ?thesis using n(3) same e by simp
  next
    case OperationKindSetXAttr
    then obtain n where n: "map_of (nodes st) (opPath op) = Some n"
      "nodes st' = put (opPath op) (n\<lparr>xattrs := Some (List.insert (opXAttrName op) (xattr_set n))\<rparr>) (nodes st)"
      using v by (auto simp: applyVirtualOperation_def Let_def split: option.splits sum.splits)
    show ?thesis unfolding n(2) by (rule put) (use boundedD [OF b n(1)] S in auto)
  next
    case OperationKindRemoveXAttr
    then obtain n where n: "map_of (nodes st) (opPath op) = Some n"
      "nodes st' = put (opPath op) (n\<lparr>xattrs := Some (removeAll (opXAttrName op) (xattr_set n))\<rparr>) (nodes st)"
      using v by (auto simp: applyVirtualOperation_def Let_def split: option.splits sum.splits if_splits)
    show ?thesis unfolding n(2) by (rule put) (use boundedD [OF b n(1)] S in auto)
  next
    case OperationKindChmod
    then show ?thesis using v same by (auto simp: applyVirtualOperation_def Let_def split: if_splits)
  next
    case OperationKindChown
    then show ?thesis using v same by (auto simp: applyVirtualOperation_def Let_def split: if_splits)
  qed (use kind wf in \<open>simp_all add: plain_kind_def op_wf_def\<close>)
qed

section \<open>A generated stream\<close>

lemma replays_nodes: "nodes st = nodes st' \<Longrightarrow> replays ops st = replays ops st'"
proof (induction ops arbitrary: st st')
  case (Cons op ops)
  obtain r u r' u' where v: "applyVirtualOperation op st = (r, u)" "applyVirtualOperation op st' = (r', u')"
    by (meson prod.exhaust)
  have "r = r'" "nodes u = nodes u'" using apply_depends [OF Cons.prems, of op] v by simp_all
  then show ?case using v Cons.prems Cons.IH [of u u'] by (simp split: sum.split)
qed simp

lemma generate_replays:
  assumes "list_all plain_kind kinds" "0 < k"
  shows "state_ok (fst s) \<Longrightarrow> bounded S (nodes (fst s)) \<Longrightarrow> 0 \<le> S \<Longrightarrow> S + int n * k \<le> maxFileSize \<Longrightarrow>
    k < maxFileSize \<Longrightarrow>
    generate_loop (planNextOperation uid gid kinds k) normalizeOperation applyS n s = (Inr ops, t) \<Longrightarrow>
    replays ops (fst s)"
proof (induction n arbitrary: s S ops)
  case 0
  then show ?case by (simp add: returnS_def)
next
  case (Suc n)
  have t: "tree_ok (nodes (fst s))" using Suc.prems(1) by (simp add: state_ok_def)
  have lt: "S + k \<le> maxFileSize"
  proof -
    have "k \<le> int (Suc n) * k" using assms(2) by simp
    then show ?thesis using Suc.prems(4) by linarith
  qed
  show ?case
  proof (cases rule: ops.step_cases [OF Suc.prems(1), of uid gid kinds k])
    case (1 e' t')
    then show ?thesis using Suc.prems(6) by (auto simp: bindS_def wrapS_def)
  next
    case (2 op t' u)
    then obtain rest where rest: "generate_loop (planNextOperation uid gid kinds k) normalizeOperation applyS n u = (Inr rest, t)"
      "ops = op # rest"
      using Suc.prems(6) by (auto simp: bindS_def wrapS_def liftS_def returnS_def split: prod.splits sum.splits)
    have small: "size_at (nodes (fst s)) p < 2 ^ 63 - 1" for p
      using size_at_bounded [OF Suc.prems(2,3), of p] lt assms(2) by (simp add: maxFileSize_def)
    have "plans (nodes (fst s)) (planNextOperation uid gid kinds k) (\<lambda>op. \<exists>kind \<in> set kinds. within k (nodes (fst s)) op)"
      by (rule plans_next_kind [where R = "\<lambda>_. within k (nodes (fst s))"], rule plans_within [OF t assms(2) _ small])
        (use Suc.prems(5) in \<open>simp add: maxFileSize_def\<close>)
    moreover have "planI (nodes (fst s)) s" using Suc.prems(1) by (simp add: planI_def state_ok_def)
    ultimately have w: "within k (nodes (fst s)) op" using 2(1) unfolding plans_def by (auto dest: triple_okD)
    have kind: "plain_kind (opKind op)" using 2(2) assms(1) by (simp add: list_all_iff)
    have wf: "op_wf op" using 2(2) op_wf_fixed by blast
    obtain st' where v: "applyVirtualOperation op (fst t') = (Inr (), st')" "fst u = st'"
      using 2(3) by (auto simp: applyS_def split: prod.splits)
    obtain st'' where v': "applyVirtualOperation op (fst s) = (Inr (), st'')" "nodes st'' = nodes st'"
      using apply_depends [OF 2(5), of op] v(1) by (metis fst_conv prod.collapse snd_conv)
    have "bounded (S + k) (nodes (fst u))"
      using within_bounded [OF Suc.prems(2) t Suc.prems(3) assms(2) lt w kind wf v'(1)] v' v(2) by simp
    moreover have "(S + k) + int n * k \<le> maxFileSize" using Suc.prems(4) by (simp add: algebra_simps)
    ultimately have "replays rest (fst u)"
      using Suc.IH [OF 2(4) _ _ _ Suc.prems(5) rest(1), of "S + k"] Suc.prems(3) assms(2) by simp
    then have "replays rest st''" using replays_nodes [of "fst u" st''] v(2) v'(2) by simp
    then show ?thesis
      using rest(2) wf v'(1) within_fits [OF Suc.prems(2,3) assms(2) lt w kind] by simp
  qed
qed

section \<open>Resuming after a fault\<close>

text \<open>The run without faults from the operation at which an injected fault stopped the other.\<close>

lemma apply_loop_fault:
  assumes "apply_loop k basePath ops i rest ctx fs = (Some (ApplyError e), fs')" and "aeErr e = FaultAnswered f"
  shows "\<exists>j < length rest. aeIndex e = int (i + j) \<and>
    apply_loop k basePath ops i rest \<lparr>injector = None\<rparr> fs =
      apply_loop k basePath ops (i + j) (drop j rest) \<lparr>injector = None\<rparr> fs'"
  using assms
proof (induction rest arbitrary: i ctx fs)
  case (Cons op rest)
  have none: "ctx_before sc x y z \<lparr>injector = None\<rparr> = (None, \<lparr>injector = None\<rparr>)" for sc x y z
    by (simp add: ctx_before_def)
  show ?case
  proof (cases "normalizeOperation op")
    case (Inl e')
    then show ?thesis using Cons.prems by (auto simp: newOperationApplyError_def)
  next
    case (Inr n)
    obtain fe ctx' where b: "ctx_before FaultScopeMutation (int i) (OperationKind_String (opKind n)) (opPath n) ctx = (fe, ctx')"
      by (meson prod.exhaust)
    obtain r fs1 where a: "applyOperation k basePath n fs = (r, fs1)" by (meson prod.exhaust)
    show ?thesis
    proof (cases fe)
      case (Some x)
      then have "aeIndex e = int i" "fs' = fs"
        using Cons.prems(1) Inr b by (auto simp: newOperationApplyError_def)
      then show ?thesis by (intro exI [of _ 0]) simp
    next
      case None
      show ?thesis
      proof (cases r)
        case (Inl e')
        then show ?thesis using Cons.prems Inr b None a by (auto simp: newOperationApplyError_def)
      next
        case r: (Inr u)
        then have "apply_loop k basePath ops (Suc i) rest ctx' fs1 = (Some (ApplyError e), fs')"
          using Cons.prems(1) Inr b None a by simp
        from Cons.IH [OF this Cons.prems(2)] obtain j where j: "j < length rest" "aeIndex e = int (Suc i + j)"
          "apply_loop k basePath ops (Suc i) rest \<lparr>injector = None\<rparr> fs1 =
            apply_loop k basePath ops (Suc i + j) (drop j rest) \<lparr>injector = None\<rparr> fs'" by blast
        then show ?thesis using Inr a r none by (intro exI [of _ "Suc j"]) simp
      qed
    qed
  qed
qed simp

text \<open>The loop as \<open>ApplyOperationsWithOptions\<close> reaches it.\<close>

definition ready_base :: "kernel \<Rightarrow> string \<Rightarrow> fsys \<Rightarrow> bool" where
  "ready_base k basePath fs =
     (case os_Lstat k basePath fs of Inl e \<Rightarrow> False | Inr info \<Rightarrow> IsDir info)"

lemma run_without_faults:
  assumes "ready_base k basePath fs" "TrimSpace basePath \<noteq> []" "0 \<le> start" "start < int (length ops)"
  shows "ApplyOperationsWithOptions k basePath ops \<lparr>StartIndex = start, aoFaultProfile = []\<rparr> fs =
    apply_loop k basePath ops (nat start) (drop (nat start) ops) \<lparr>injector = None\<rparr> fs"
proof -
  obtain info where "os_Lstat k basePath fs = Inr info" "IsDir info"
    using assms(1) by (auto simp: ready_base_def split: sum.splits)
  then show ?thesis
    using assms(2-4)
    by (simp add: ApplyOperationsWithOptions_def validateApplyOptions_def validateFaultProfile_def
        newExecutionContext_def newFaultInjector_def IsSymlink_def IsDir_def)
qed

section \<open>Properties\<close>

definition replay_state :: mutationState where
  "replay_state = newMutationState replay_tree"

lemma replay_state_nodes: "nodes replay_state = replay_tree"
  by (simp add: replay_state_def)

lemma sample_good: "permissive sample_kernel" "good_base ''/b''" "elems ''/b'' = [''b'']"
  by (simp add: permissive_def sample_kernel_def) (code_simp+)

text \<open>
  C20: the executor implements the virtual tree, for the kinds where the two agree. Let the kernel
  refuse nothing and let the virtual tree mirror what is below the base. Take a stream that
  replays on the tree and fits: no operation creates a hard link, changes the mode of a symbolic
  link or sets or removes an attribute of one, an overwritten range starts inside the file or at
  its end, and files stay within the largest size. It runs
  through on the file system without an error, and
  afterwards the file system below the base again mirrors the tree: the same paths, the same
  types and file sizes, the attributes the tree knows.
\<close>

theorem executor_refines_virtual_tree:
  assumes "permissive k" and "good_base basePath" and "tree_ok (nodes st)"
    and "mirrors (elems basePath) (nodes st) fs" and "replays ops st"
  shows "\<exists>fs'. ApplyOperations k basePath ops fs = (None, fs') \<and>
    mirrors (elems basePath) (nodes (replay ops st)) fs'"
  by (rule ApplyOperations_refines [OF assms(1,2,4,3,5)])

theorem executor_refines_virtual_tree_witness:
  "\<exists>fs'. ApplyOperations sample_kernel ''/b'' sample_stream sample_fs = (None, fs') \<and>
    mirrors [''b''] (nodes (replay sample_stream replay_state)) fs'"
proof -
  have "replays sample_stream replay_state" by code_simp
  moreover have "mirrors (elems ''/b'') (nodes replay_state) sample_fs"
    unfolding sample_good(3) replay_state_nodes by (rule replay_tree_mirrors)
  moreover have "tree_ok (nodes replay_state)" using replay_tree_ok by (simp add: replay_state_nodes)
  ultimately show ?thesis
    using executor_refines_virtual_tree [OF sample_good(1,2), of replay_state sample_fs sample_stream] sample_good(3)
    by simp
qed

text \<open>
  C27: a generated stream without links can be carried out. Let the kernel refuse nothing, let the
  scan have seen what is below the base, a tree without symbolic links and hard links whose files
  have at most \<open>S\<close> bytes, and let the options allow no link kinds and leave room for the stream to
  grow the files. (With links in the base a generated stream can fail.) Then every
  stream \<open>GenerateOperations\<close> plans for it, with any random source, runs through on the base
  without an error.
\<close>

theorem generated_stream_applies:
  assumes "permissive k" and "path_wf basePath True" and "walk_ok basePath [] [basePath] visits"
    and "GenerateOperations seeded uid gid info visits basePath opts = Inr ops"
    and "scanMutationState basePath info visits = Inr st"
    and "mirrors (elems basePath) (nodes st) fs" and "bounded S (nodes st)" and "0 \<le> S"
    and "list_all plain_kind (ogAllowedKinds opts)"
    and "S + ogCount opts * ogMaxDataSize opts \<le> maxFileSize" and "ogMaxDataSize opts < maxFileSize"
  shows "fst (ApplyOperations k basePath ops fs) = None"
proof -
  have v: "0 < ogCount opts" "0 < ogMaxDataSize opts"
    using assms(4) by (auto simp: GenerateOperations_def validateGenerationOptions_iff split: if_splits)
  have s: "state_ok (fst (st, seeded (ogSeed opts)))" using scan_ok [OF assms(2,3,5)] by simp
  obtain t where g: "generate_loop (planNextOperation uid gid (ogAllowedKinds opts) (ogMaxDataSize opts))
      normalizeOperation applyS (nat (ogCount opts)) (st, seeded (ogSeed opts)) = (Inr ops, t)"
    using assms(4,5) by (auto simp: GenerateOperations_def split: if_splits) (metis prod.collapse)
  have r: "replays ops (fst (st, seeded (ogSeed opts)))"
    by (rule generate_replays [OF assms(9) v(2) s _ assms(8) _ assms(11) g]) (use assms(7,10) v in simp_all)
  have b: "good_base basePath" using assms(2) by (simp add: good_base_def path_wf_def clean_abs_def)
  have "tree_ok (nodes st)" using s by (simp add: state_ok_def)
  then show ?thesis
    using ApplyOperations_refines [OF assms(1) b assms(6)] r by fastforce
qed

definition scanned_fs :: fsys where
  "scanned_fs =
     \<lparr>ents = [([], 0), ([''b''], 1), ([''b'', ''f''], 2)],
      inos = (\<lambda>i. (sample_inode (if i < 2 then NDir else NFile [1, 2, 3]))\<lparr>ixattrs := [(''user.x'', [])]\<rparr>),
      nextino = 3, stamps = (\<lambda>i. None)\<rparr>"

theorem generated_stream_applies_witness:
  "\<exists>ops. GenerateOperations (\<lambda>s. []) 0 0 (Inr True) sample_visits ''/b'' (sample_opts defaultOperationKinds) = Inr ops \<and>
     fst (ApplyOperations sample_kernel ''/b'' ops scanned_fs) = None"
proof -
  have "is_ok (GenerateOperations (\<lambda>s. []) 0 0 (Inr True) sample_visits ''/b'' (sample_opts defaultOperationKinds))"
    by code_simp
  then obtain ops where ops: "GenerateOperations (\<lambda>s. []) 0 0 (Inr True) sample_visits ''/b''
      (sample_opts defaultOperationKinds) = Inr ops" unfolding is_ok_iff by blast
  let ?ns = "[(''/'', \<lparr>typeID = mutationNodeTypeDir, nsize = 0, xattrs = None\<rparr>),
      (''/f'', \<lparr>typeID = mutationNodeTypeFile, nsize = 3, xattrs = Some [''user.x'']\<rparr>)]"
  have st: "scanMutationState ''/b'' (Inr True) sample_visits = Inr (newMutationState ?ns)" by code_simp
  have "mirrors [''b''] ?ns scanned_fs" by (rule mirrorsI_code) code_simp+
  then have m: "mirrors (elems ''/b'') (nodes (newMutationState ?ns)) scanned_fs" by (simp add: sample_good(3))
  have b: "bounded 3 (nodes (newMutationState ?ns))" by (auto simp: bounded_def split: if_splits)
  have "fst (ApplyOperations sample_kernel ''/b'' ops scanned_fs) = None"
    by (rule generated_stream_applies [OF sample_good(1) sample_walk(1,2) ops st m b])
      (simp_all add: sample_opts_def defaultOperationKinds_def plain_kind_def maxFileSize_def)
  then show ?thesis using ops by blast
qed

text \<open>
  C28: resuming after an injected fault gives the run that was not interrupted. When a run stops
  because the injector answered, then continuing at the index in the error, without faults,
  does the same to the file system and has the same result as the whole run without faults
  from the same start: no operation is lost or done twice. The base must still be a directory
  that can be inspected.
\<close>

theorem resume_after_fault:
  assumes "ApplyOperationsWithOptions k basePath ops opts fs = (Some (ApplyError e), fs')"
    and "aeErr e = FaultAnswered f" and "ready_base k basePath fs'"
  shows "ApplyOperationsWithOptions k basePath ops \<lparr>StartIndex = aeIndex e, aoFaultProfile = []\<rparr> fs' =
    ApplyOperationsWithOptions k basePath ops \<lparr>StartIndex = StartIndex opts, aoFaultProfile = []\<rparr> fs"
proof -
  let ?s = "StartIndex opts"
  have trim: "TrimSpace basePath \<noteq> []" and lo: "0 \<le> ?s" and hi: "?s < int (length ops)"
    and rb: "ready_base k basePath fs"
    and run: "\<exists>ctx. apply_loop k basePath ops (nat ?s) (drop (nat ?s) ops) ctx fs = (Some (ApplyError e), fs')"
    using assms(1)
    by (auto simp: ApplyOperationsWithOptions_def validateApplyOptions_def ready_base_def split: if_splits sum.splits)
  obtain j where j: "j < length (drop (nat ?s) ops)" "aeIndex e = int (nat ?s + j)"
    "apply_loop k basePath ops (nat ?s) (drop (nat ?s) ops) \<lparr>injector = None\<rparr> fs =
      apply_loop k basePath ops (nat ?s + j) (drop j (drop (nat ?s) ops)) \<lparr>injector = None\<rparr> fs'"
    using run apply_loop_fault [OF _ assms(2)] by blast
  have "nat ?s + j < length ops" using j(1) by simp
  then have "0 \<le> aeIndex e" "aeIndex e < int (length ops)" unfolding j(2) by linarith+
  then show ?thesis
    unfolding run_without_faults [OF rb trim lo hi] run_without_faults [OF assms(3) trim \<open>0 \<le> aeIndex e\<close> \<open>aeIndex e < int (length ops)\<close>] j(3)
    by (simp only: j(2) nat_int drop_drop add.commute)
qed

definition sample_faults :: OperationApplyOptions where
  "sample_faults = \<lparr>StartIndex = 0, aoFaultProfile = [sample_rule 2 '''']\<rparr>"

theorem resume_after_fault_witness:
  "\<exists>e fs'. ApplyOperationsWithOptions sample_kernel ''/b'' sample_stream sample_faults sample_fs = (Some (ApplyError e), fs') \<and>
    aeIndex e = 1 \<and>
    ApplyOperationsWithOptions sample_kernel ''/b'' sample_stream \<lparr>StartIndex = aeIndex e, aoFaultProfile = []\<rparr> fs' =
    ApplyOperationsWithOptions sample_kernel ''/b'' sample_stream \<lparr>StartIndex = 0, aoFaultProfile = []\<rparr> sample_fs"
proof -
  have "case ApplyOperationsWithOptions sample_kernel ''/b'' sample_stream sample_faults sample_fs of
      (Some (ApplyError e), fs') \<Rightarrow> aeIndex e = 1 \<and> (case aeErr e of FaultAnswered f \<Rightarrow> True | _ \<Rightarrow> False)
        \<and> ready_base sample_kernel ''/b'' fs'
    | _ \<Rightarrow> False"
    by code_simp
  then obtain e fs' f where e: "ApplyOperationsWithOptions sample_kernel ''/b'' sample_stream sample_faults sample_fs =
      (Some (ApplyError e), fs')" "aeIndex e = 1" "aeErr e = FaultAnswered f" "ready_base sample_kernel ''/b'' fs'"
    by (auto split: prod.splits option.splits applyError.splits applyCause.splits)
  from resume_after_fault [OF e(1,3,4)] e(1,2) show ?thesis by (auto simp: sample_faults_def)
qed

end
