(* ===== verification/Apply_Plan.thy ===== *)
theory Apply_Plan
  imports Executor Plan Acl_Resolve
begin

text \<open>
  How a plan becomes a tree (\<^verbatim>\<open>plan.go\<close> from \<open>applyRunPlan\<close> on, \<^verbatim>\<open>metadata_linux.go\<close>,
  \<^verbatim>\<open>special_linux.go\<close>): the entries are created in their order, each with its metadata but the
  directories, whose metadata follow in a second pass in reverse order; the run of a generator is
  planning and applying. The file system is the one of \<open>Go_FS\<close>; further calls of the standard
  library are in the first section. \<open>seeded\<close> is the random source of a seed.
\<close>

section \<open>Further calls\<close>

text \<open>\<^verbatim>\<open>os.MkdirAll\<close>: the missing parents first. \<open>parent_path\<close> is what precedes the last element.\<close>

definition parent_path :: "string \<Rightarrow> string" where
  "parent_path p =
     (let r = dropWhile (\<lambda>c. c \<noteq> slash) (dropWhile (\<lambda>c. c = slash) (rev p)) in
      if r = [] then []
      else if dropWhile (\<lambda>c. c = slash) r = [] then [slash] else rev (dropWhile (\<lambda>c. c = slash) r))"

lemma parent_path_shorter: "parent_path p \<noteq> [] \<Longrightarrow> length (parent_path p) < length p"
proof -
  assume ne: "parent_path p \<noteq> []"
  define q where "q = dropWhile (\<lambda>c. c = slash) (rev p)"
  define r where "r = dropWhile (\<lambda>c. c \<noteq> slash) q"
  define s where "s = dropWhile (\<lambda>c. c = slash) r"
  have up: "parent_path p = (if r = [] then [] else if s = [] then [slash] else rev s)"
    by (simp only: parent_path_def Let_def q_def r_def s_def)
  then have "r \<noteq> []" using ne by auto
  then have "q \<noteq> []" unfolding r_def by auto
  then have "hd q \<noteq> slash" unfolding q_def by (rule hd_dropWhile)
  then have "length r < length q"
    using \<open>q \<noteq> []\<close> length_dropWhile_le [of "\<lambda>c. c \<noteq> slash" "tl q"] by (cases q) (auto simp: r_def)
  moreover have "length s \<le> length r" unfolding s_def by (rule length_dropWhile_le)
  moreover have "length q \<le> length p"
    unfolding q_def using length_dropWhile_le [of "\<lambda>c. c = slash" "rev p"] by simp
  moreover have "0 < length r" using \<open>r \<noteq> []\<close> by simp
  ultimately have "length s < length p" "1 < length p" by linarith+
  then show ?thesis unfolding up using \<open>r \<noteq> []\<close> by simp
qed

definition mkdir_last :: "kernel \<Rightarrow> string \<Rightarrow> 32 word \<Rightarrow> unit fsop" where
  "mkdir_last k p perm fs =
     (case os_Mkdir k p perm fs of
        (Inl e, fs') \<Rightarrow> (case os_Lstat k p fs' of Inr i \<Rightarrow> (if IsDir i then Inr () else Inl e, fs') | Inl _ \<Rightarrow> (Inl e, fs'))
      | (Inr _, fs') \<Rightarrow> (Inr (), fs'))"

function os_MkdirAll :: "kernel \<Rightarrow> string \<Rightarrow> 32 word \<Rightarrow> unit fsop" where
  "os_MkdirAll k p perm fs =
     (case os_Stat k p fs of
        Inr i \<Rightarrow> (if IsDir i then Inr () else Fail ENOTDIR, fs)
      | Inl _ \<Rightarrow>
          if parent_path p = [] then mkdir_last k p perm fs
          else (case os_MkdirAll k (parent_path p) perm fs of
                  (Inl e, fs') \<Rightarrow> (Inl e, fs')
                | (Inr _, fs') \<Rightarrow> mkdir_last k p perm fs'))"
  by pat_completeness auto
termination
  by (relation "measure (\<lambda>(k, p, perm, fs). length p)") (auto intro: parent_path_shorter)

declare os_MkdirAll.simps [simp del]

text \<open>\<^verbatim>\<open>utimensat\<close> without following a link; the instants are nanoseconds.\<close>

definition UtimesNanoAt :: "kernel \<Rightarrow> string \<Rightarrow> time \<Rightarrow> time \<Rightarrow> unit fsop" where
  "UtimesNanoAt k p atime mtime =
     os_call k ''utimensat'' False p (\<lambda>q fs.
       case map_of (ents fs) q of
         None \<Rightarrow> (Fail ENOENT, fs)
       | Some i \<Rightarrow> (Inr (), fs\<lparr>stamps := (stamps fs)(i := Some (atime, mtime))\<rparr>))"

definition Mkdev :: "32 word \<Rightarrow> 32 word \<Rightarrow> 64 word" where
  "Mkdev major minor =
     (let a = ucast major :: 64 word; i = ucast minor :: 64 word in
      or (or (push_bit 8 (and a 0xFFF)) (push_bit 32 (and a 0xFFFFF000)))
         (or (and i 0xFF) (push_bit 12 (and i 0xFFFFFF00))))"

text \<open>\<^verbatim>\<open>net.Listen\<close> on a Unix socket path: binding creates the socket.\<close>

definition net_Listen_unix :: "kernel \<Rightarrow> string \<Rightarrow> unit fsop" where
  "net_Listen_unix k p =
     os_call k ''bind'' False p (\<lambda>q. create_at k q (NSpecial NodeSocket) (and 0x1FF (not (umask k))))"

section \<open>Metadata\<close>

definition permission_error :: "sentinel \<Rightarrow> string \<Rightarrow> err \<Rightarrow> err" where
  "permission_error denied msg e =
     (if errors_Is e EPERM \<or> errors_Is e EACCES then Errorf '''' (Some (Sentinel denied))
      else Errorf msg (Some e))"

definition support_error :: "sentinel \<Rightarrow> sentinel \<Rightarrow> string \<Rightarrow> err \<Rightarrow> err" where
  "support_error denied unsupported msg e =
     (if errors_Is e EPERM \<or> errors_Is e EACCES then Errorf '''' (Some (Sentinel denied))
      else if errors_Is e ENOTSUP \<or> errors_Is e EINVAL then Errorf '''' (Some (Sentinel unsupported))
      else Errorf msg (Some e))"

abbreviation ErrOwnershipMetadataPermissionDenied :: sentinel where "ErrOwnershipMetadataPermissionDenied \<equiv> ''ErrOwnershipMetadataPermissionDenied''"
abbreviation ErrACLPermissionDenied :: sentinel where "ErrACLPermissionDenied \<equiv> ''ErrACLPermissionDenied''"
abbreviation ErrACLUnsupported :: sentinel where "ErrACLUnsupported \<equiv> ''ErrACLUnsupported''"
abbreviation ErrSpecialFilePermissionDenied :: sentinel where "ErrSpecialFilePermissionDenied \<equiv> ''ErrSpecialFilePermissionDenied''"
abbreviation ErrSpecialFileUnsupported :: sentinel where "ErrSpecialFileUnsupported \<equiv> ''ErrSpecialFileUnsupported''"
abbreviation ErrNilGenerator :: sentinel where "ErrNilGenerator \<equiv> ''ErrNilGenerator''"

text \<open>The two steps that links have in common with other entries.\<close>

definition apply_ownership :: "kernel \<Rightarrow> string \<Rightarrow> metadataConfig \<Rightarrow> unit fsop" where
  "apply_ownership k path metadata =
     (if \<not> hasOwnership metadata then returnS ()
      else if md_uid metadata < 0 then raiseS (Errorf ''uid must be >= 0'' None)
      else if md_gid metadata < 0 then raiseS (Errorf ''gid must be >= 0'' None)
      else map_errS (permission_error ErrOwnershipMetadataPermissionDenied ''failed to set ownership metadata'')
             (os_Lchown k path (md_uid metadata) (md_gid metadata)))"

definition apply_times :: "kernel \<Rightarrow> string \<Rightarrow> metadataConfig \<Rightarrow> unit fsop" where
  "apply_times k path metadata =
     (if hasTimestamps metadata
      then wrapS ''failed to set atime/mtime metadata'' (UtimesNanoAt k path (md_atime metadata) (md_mtime metadata))
      else returnS ())"

definition applyLinkMetadata :: "kernel \<Rightarrow> string \<Rightarrow> metadataConfig \<Rightarrow> unit fsop" where
  "applyLinkMetadata k path metadata =
     bindS (apply_ownership k path metadata) (\<lambda>_. apply_times k path metadata)"

fun set_xattrs :: "kernel \<Rightarrow> string \<Rightarrow> 8 word list gomap \<Rightarrow> string list \<Rightarrow> unit fsop" where
  "set_xattrs k path xs [] = returnS ()"
| "set_xattrs k path xs (name # names) =
     bindS (setPathXAttr k path name (case map_of xs name of None \<Rightarrow> [] | Some v \<Rightarrow> v)) (\<lambda>_.
     set_xattrs k path xs names)"

definition applyXAttrs :: "kernel \<Rightarrow> string \<Rightarrow> 8 word list gomap \<Rightarrow> unit fsop" where
  "applyXAttrs k path xs = set_xattrs k path xs (sort_strings (keys xs))"

definition XAttrAccess :: string where "XAttrAccess = ''system.posix_acl_access''"
definition XAttrDefault :: string where "XAttrDefault = ''system.posix_acl_default''"

definition acl_error :: "string \<Rightarrow> err \<Rightarrow> err" where
  "acl_error = support_error ErrACLPermissionDenied ErrACLUnsupported"

definition removeACLXAttr :: "kernel \<Rightarrow> string \<Rightarrow> string \<Rightarrow> unit fsop" where
  "removeACLXAttr k path name fs =
     (case Lremovexattr k path name fs of
        (Inr _, fs') \<Rightarrow> (Inr (), fs')
      | (Inl e, fs') \<Rightarrow>
          (if errors_Is e ENODATA then Inr () else Inl (acl_error ''failed to remove ACL'' e), fs'))"

definition clearACLXAttrs :: "kernel \<Rightarrow> string \<Rightarrow> unit fsop" where
  "clearACLXAttrs k path =
     bindS (removeACLXAttr k path XAttrAccess) (\<lambda>_. removeACLXAttr k path XAttrDefault)"

text \<open>Linux machines of the supported kinds are little-endian.\<close>

definition setACLXAttr :: "kernel \<Rightarrow> string \<Rightarrow> string \<Rightarrow> Entry list \<Rightarrow> unit fsop" where
  "setACLXAttr k path name es =
     (case Marshal LittleEndian es of
        Inl e \<Rightarrow> raiseS (Errorf '''' (Some (Sentinel ErrACLInvalidEntry)))
      | Inr payload \<Rightarrow>
          if payload = [] then returnS ()
          else map_errS (acl_error ''failed to set ACL'') (Lsetxattr k path name payload))"

definition applyACL :: "kernel \<Rightarrow> string \<Rightarrow> 32 word \<Rightarrow> string list \<Rightarrow> unit fsop" where
  "applyACL k path mode rawEntries =
     bindS (liftS (resolveACLEntries mode rawEntries)) (\<lambda>(accessEntries, defaultEntries).
     bindS (if defaultEntries \<noteq> []
            then bindS (wrapS ''failed to stat ACL target'' (readS (os_Lstat k path))) (\<lambda>info.
                 if \<not> IsDir info then raiseS (Errorf ''default ACL'' (Some (Sentinel ErrACLInvalidEntry)))
                 else returnS ())
            else returnS ()) (\<lambda>_.
     bindS (clearACLXAttrs k path) (\<lambda>_.
     if rawEntries = [] then returnS ()
     else bindS (setACLXAttr k path XAttrAccess accessEntries) (\<lambda>_.
          if defaultEntries \<noteq> [] then setACLXAttr k path XAttrDefault defaultEntries else returnS ()))))"

definition applyMetadata :: "kernel \<Rightarrow> string \<Rightarrow> 32 word \<Rightarrow> metadataConfig \<Rightarrow> unit fsop" where
  "applyMetadata k path mode metadata =
     bindS (apply_ownership k path metadata) (\<lambda>_.
     bindS (wrapS ''failed to chmod'' (os_Chmod k path mode)) (\<lambda>_.
     bindS (apply_times k path metadata) (\<lambda>_.
     bindS (if hasXAttrs metadata then applyXAttrs k path (md_xattrs metadata) else returnS ()) (\<lambda>_.
     if hasACL metadata then applyACL k path mode (aclEntries metadata) else returnS ()))))"

section \<open>Special files\<close>

definition special_error :: "err \<Rightarrow> err" where
  "special_error = support_error ErrSpecialFilePermissionDenied ErrSpecialFileUnsupported ''failed to create special file''"

text \<open>The listener is a \<^verbatim>\<open>*net.UnixListener\<close>; closing it leaves the path.\<close>

definition createUnixSocketPath :: "kernel \<Rightarrow> string \<Rightarrow> unit fsop" where
  "createUnixSocketPath k path =
     bindS (net_Listen_unix k path) (\<lambda>_.
     wrapS ''failed to close unix listener'' (readS (ask k ''close-socket'' [])))"

definition createDeviceNode ::
  "kernel \<Rightarrow> string \<Rightarrow> (nat \<Rightarrow> specialNode) \<Rightarrow> 32 word \<Rightarrow> int \<Rightarrow> int \<Rightarrow> unit fsop" where
  "createDeviceNode k path kind mode major minor =
     (if major < 0 then raiseS (Errorf ''special device major must be >= 0'' None)
      else if minor < 0 then raiseS (Errorf ''special device minor must be >= 0'' None)
      else os_Mknod k path (kind (unat (Mkdev (word_of_int major) (word_of_int minor)))) (and mode 0xFFF))"

definition createPlannedSpecialFile ::
  "kernel \<Rightarrow> string \<Rightarrow> SpecialFileType \<Rightarrow> 32 word \<Rightarrow> int \<Rightarrow> int \<Rightarrow> unit fsop" where
  "createPlannedSpecialFile k path fileType mode major minor =
     bindS (liftS (validateSpecialFileType fileType)) (\<lambda>_.
     bindS (map_errS special_error
       (case fileType of
          SpecialFileTypeFIFO \<Rightarrow> os_Mknod k path NodeFifo (and mode 0xFFF)
        | SpecialFileTypeSocket \<Rightarrow> createUnixSocketPath k path
        | SpecialFileTypeCharDevice \<Rightarrow> createDeviceNode k path NodeChar mode major minor
        | SpecialFileTypeBlockDevice \<Rightarrow> createDeviceNode k path NodeBlock mode major minor
        | SpecialFileTypeUnknown n \<Rightarrow> returnS ())) (\<lambda>_.
     wrapS ''failed to chmod special file'' (os_Chmod k path mode)))"

definition matchesSpecialFileType :: "inode \<Rightarrow> SpecialFileType \<Rightarrow> bool" where
  "matchesSpecialFileType info fileType =
     (case fileType of
        SpecialFileTypeFIFO \<Rightarrow> node info = NSpecial NodeFifo
      | SpecialFileTypeSocket \<Rightarrow> node info = NSpecial NodeSocket
      | SpecialFileTypeCharDevice \<Rightarrow> (case node info of NSpecial (NodeChar d) \<Rightarrow> True | _ \<Rightarrow> False)
      | SpecialFileTypeBlockDevice \<Rightarrow> (case node info of NSpecial (NodeBlock d) \<Rightarrow> True | _ \<Rightarrow> False)
      | SpecialFileTypeUnknown n \<Rightarrow> False)"

section \<open>One entry\<close>

text \<open>
  The calls of the content writer on the file system of the kernel: an open file is known by the
  place of its entry, \<^verbatim>\<open>File.Truncate\<close> is the call \<^verbatim>\<open>ftruncate\<close>.
\<close>

definition fd_Truncate :: "kernel \<Rightarrow> handle \<Rightarrow> int \<Rightarrow> unit fsop" where
  "fd_Truncate k h sz =
     bindS (readS (ask k ''ftruncate'' h)) (\<lambda>_.
     bindS (with_inode h (\<lambda>i.
       case node i of
         NFile data \<Rightarrow> if sz < 0 \<or> sz > maxFileSize then Fail EINVAL else bindE (ftruncate data sz) (set_data i)
       | _ \<Rightarrow> Fail EINVAL)) (\<lambda>_.
     modifyS (touch_at h)))"

definition kernel_file :: "kernel \<Rightarrow> (fsys, handle) file_calls" where
  "kernel_file k =
     \<lparr>fc_OpenFile = (\<lambda>path mode. os_call k ''open'' True path (\<lambda>q. bindS (open_create k q mode) (\<lambda>_. returnS q))),
      fc_WriteAt = fd_WriteAt k, fc_Truncate = fd_Truncate k, fc_Close = fd_Close k\<rparr>"

definition file_bytes :: "handle \<Rightarrow> fsys \<Rightarrow> 8 word list" where
  "file_bytes h fs = (case lookup fs h of Some i \<Rightarrow> (case node i of NFile d \<Rightarrow> d | _ \<Rightarrow> []) | None \<Rightarrow> [])"

lemma with_inode_data:
  assumes "with_inode h (\<lambda>i. case node i of NFile data \<Rightarrow> bindE (f data) (set_data i) | _ \<Rightarrow> Fail e) fs = (Inr (), fs')"
  shows "Inr (file_bytes h fs') = f (file_bytes h fs)"
  using assms
  by (auto simp: with_inode_def file_bytes_def lookup_def upd_inode_def set_data_def bindE_eq_Inr
      split: option.splits sum.splits fnode.splits if_splits)

lemma touch_bytes [simp]: "file_bytes h (touch_at q fs) = file_bytes h fs"
  by (simp add: file_bytes_def)

lemma write_handle_bytes:
  assumes "write_handle k h f n fs = (Inr m, fs')"
  shows "Inr (file_bytes h fs') = f (file_bytes h fs)"
proof -
  obtain fs1 where w: "with_inode h (\<lambda>i. case node i of NFile data \<Rightarrow> bindE (f data) (set_data i) | _ \<Rightarrow> Fail EINVAL) fs
      = (Inr (), fs1)" and t: "fs' = touch_at h fs1"
    using assms by (auto simp: write_handle_def bindS_eq_Inr readS_def modifyS_def returnS_def)
  from with_inode_data [OF w] show ?thesis by (simp add: t)
qed

lemma fd_Truncate_bytes:
  assumes "fd_Truncate k h n fs = (Inr (), fs')"
  shows "Inr (file_bytes h fs') = ftruncate (file_bytes h fs) n"
proof -
  have n: "(\<lambda>i. case node i of NFile data \<Rightarrow> if n < 0 \<or> n > maxFileSize then Fail EINVAL
         else bindE (ftruncate data n) (set_data i) | _ \<Rightarrow> Fail EINVAL) =
      (\<lambda>i. case node i of NFile data \<Rightarrow> bindE (if n < 0 \<or> n > maxFileSize then Fail EINVAL else ftruncate data n) (set_data i)
         | _ \<Rightarrow> Fail EINVAL)"
    by (rule ext) (simp split: fnode.split)
  obtain fs1 where w: "with_inode h (\<lambda>i. case node i of NFile data \<Rightarrow>
        bindE (if n < 0 \<or> n > maxFileSize then Fail EINVAL else ftruncate data n) (set_data i) | _ \<Rightarrow> Fail EINVAL) fs
      = (Inr (), fs1)" and t: "fs' = touch_at h fs1"
    using assms unfolding fd_Truncate_def n by (auto simp: bindS_eq_Inr readS_def modifyS_def)
  from with_inode_data [OF w] show ?thesis by (auto simp: t split: if_splits)
qed

lemma open_create_bytes: "open_create k q mode fs = (Inr (), fs') \<Longrightarrow> file_bytes q fs' = []"
  by (auto simp: open_create_def file_bytes_def add_entry_def upd_inode_def lookup_def
      split: option.splits fnode.splits)

text \<open>The kernel keeps the laws of the writer, so what a content write leaves is the content.\<close>

interpretation kernel_disk: byte_file "kernel_file k" file_bytes
proof
  show "file_bytes h s' = []" if "fc_OpenFile (kernel_file k) path mode s = (Inr h, s')" for path mode s h s'
    using that by (auto simp: kernel_file_def os_call_def bindS_eq_Inr readS_def returnS_def dest: open_create_bytes)
  show "file_bytes h s' = pwrite (file_bytes h s) (nat off) d"
    if "0 \<le> off" "fc_WriteAt (kernel_file k) h d off s = (Inr (int (length d)), s')" for off h d s s'
    using write_handle_bytes [of k h "\<lambda>old. WriteAt old off d"] that
    by (auto simp: kernel_file_def fd_WriteAt_def WriteAt_def)
  show "Inr (file_bytes h s') = ftruncate (file_bytes h s) n"
    if "0 \<le> n" "fc_Truncate (kernel_file k) h n s = (Inr (), s')" for n h s s'
    using that by (simp add: kernel_file_def fd_Truncate_bytes)
  show "file_bytes h (snd (fc_Close (kernel_file k) h s)) = file_bytes h s" for h s
    by (simp add: kernel_file_def fd_Close_def readS_def)
qed

definition createPlannedFile :: "kernel \<Rightarrow> (int \<Rightarrow> rng) \<Rightarrow> string \<Rightarrow> 32 word \<Rightarrow> plannedFileContent \<Rightarrow> unit fsop" where
  "createPlannedFile k = writePlannedFileContent (kernel_file k)"

definition plannedEntryTypeLabel :: "plannedEntryType \<Rightarrow> string" where
  "plannedEntryTypeLabel t =
     (case t of
        plannedEntryTypeDir \<Rightarrow> ''create-dir''
      | plannedEntryTypeFile \<Rightarrow> ''create-file''
      | plannedEntryTypeSymlink \<Rightarrow> ''create-symlink''
      | plannedEntryTypeHardlink \<Rightarrow> ''create-hardlink''
      | plannedEntryTypeSpecial \<Rightarrow> ''create-special'')"

text \<open>The first half of \<open>applyPlannedEntry\<close>: the path exists.\<close>

definition check_existing :: "Generator \<Rightarrow> plannedEntry \<Rightarrow> inode \<Rightarrow> err + bool" where
  "check_existing g entry info =
     (if runMode g = RunModeStrict then
        (if pe_type entry = plannedEntryTypeDir \<and> pe_path entry = basePath g \<and> IsDir info then Inr False
         else Err ''planned path already exists in strict mode'')
      else case pe_type entry of
        plannedEntryTypeDir \<Rightarrow>
          if \<not> IsDir info then Err ''planned directory path already exists as non-directory'' else Inr False
      | plannedEntryTypeFile \<Rightarrow>
          if \<not> IsRegular info then Err ''planned file path already exists as non-regular file'' else Inr False
      | plannedEntryTypeSymlink \<Rightarrow>
          if \<not> IsSymlink info then Err ''planned symlink path already exists as non-symlink'' else Inr False
      | plannedEntryTypeHardlink \<Rightarrow>
          if \<not> IsRegular info then Err ''planned hardlink path already exists as non-regular file'' else Inr False
      | plannedEntryTypeSpecial \<Rightarrow>
          if \<not> matchesSpecialFileType info (pe_special entry)
          then Err ''planned special file path already exists as incompatible type'' else Inr False)"

text \<open>The second half: the path is free.\<close>

definition create_planned :: "kernel \<Rightarrow> (int \<Rightarrow> rng) \<Rightarrow> plannedEntry \<Rightarrow> unit fsop" where
  "create_planned k seeded entry =
     (let path = pe_path entry; mode = pe_mode entry in
      case pe_type entry of
        plannedEntryTypeDir \<Rightarrow>
          wrapS ''failed to create planned directory'' (os_MkdirAll k path (and mode 0xFFF))
      | plannedEntryTypeFile \<Rightarrow>
          bindS (if pc_pattern (pe_content entry) \<noteq> ContentPatternUnknown 0
                 then createPlannedFile k seeded path mode (pe_content entry)
                 else wrapS ''failed to create planned file'' (os_WriteFile k path (pe_data entry) (and mode 0x1FF))) (\<lambda>_.
          wrapS ''failed to apply metadata for planned file'' (applyMetadata k path mode (pe_metadata entry)))
      | plannedEntryTypeSymlink \<Rightarrow>
          bindS (wrapS ''failed to create planned symlink'' (os_Symlink k (pe_linkTarget entry) path)) (\<lambda>_.
          wrapS ''failed to apply metadata for planned symlink'' (applyLinkMetadata k path (pe_metadata entry)))
      | plannedEntryTypeHardlink \<Rightarrow>
          wrapS ''failed to create planned hardlink'' (os_Link k (pe_linkTarget entry) path)
      | plannedEntryTypeSpecial \<Rightarrow>
          bindS (createPlannedSpecialFile k path (pe_special entry) mode (pe_major entry) (pe_minor entry)) (\<lambda>_.
          wrapS ''failed to apply metadata for planned special file'' (applyMetadata k path mode (pe_metadata entry))))"

definition applyPlannedEntry :: "kernel \<Rightarrow> (int \<Rightarrow> rng) \<Rightarrow> Generator \<Rightarrow> plannedEntry \<Rightarrow> bool fsop" where
  "applyPlannedEntry k seeded g entry fs =
     (case os_Lstat k (pe_path entry) fs of
        Inr info \<Rightarrow> (check_existing g entry info, fs)
      | Inl e \<Rightarrow>
          if \<not> errors_Is e ENOENT then (Inl (Errorf ''failed to inspect planned path'' (Some e)), fs)
          else bindS (create_planned k seeded entry) (\<lambda>_. returnS True) fs)"

section \<open>The plan\<close>

record applyStats =
  appliedEntries :: int
  finalizedDirectories :: int

record runContext =
  stats :: applyStats
  createdDirs :: "string list"
  execCtx :: executionContext

definition count_applied :: "plannedEntry \<Rightarrow> bool \<Rightarrow> runContext \<Rightarrow> runContext" where
  "count_applied entry created c =
     c\<lparr>stats := (stats c)\<lparr>appliedEntries := wrap64 (appliedEntries (stats c) + 1)\<rparr>,
       createdDirs := (if created \<and> pe_type entry = plannedEntryTypeDir then pe_path entry # createdDirs c
                       else createdDirs c)\<rparr>"

text \<open>A step first asks the injector of the run.\<close>

definition ask_faults :: "int \<Rightarrow> string \<Rightarrow> string \<Rightarrow> runContext \<Rightarrow> fault_error option \<times> runContext" where
  "ask_faults i label path c =
     (case ctx_before FaultScopeRun i label path (execCtx c) of (res, x) \<Rightarrow> (res, c\<lparr>execCtx := x\<rparr>))"

fun create_entries ::
  "kernel \<Rightarrow> (int \<Rightarrow> rng) \<Rightarrow> Generator \<Rightarrow> nat \<Rightarrow> plannedEntry list \<Rightarrow> runContext \<Rightarrow> fsys
     \<Rightarrow> (applyCause option \<times> runContext) \<times> fsys" where
  "create_entries k seeded g i [] c fs = ((None, c), fs)"
| "create_entries k seeded g i (entry # rest) c fs =
     (case ask_faults (int i) (plannedEntryTypeLabel (pe_type entry)) (pe_path entry) c of
        (Some f, c') \<Rightarrow> ((Some (FaultAnswered f), c'), fs)
      | (None, c') \<Rightarrow>
          (case applyPlannedEntry k seeded g entry fs of
             (Inl e, fs') \<Rightarrow> ((Some (OperationFailed e), c'), fs')
           | (Inr created, fs') \<Rightarrow>
               create_entries k seeded g (Suc i) rest (count_applied entry created c') fs'))"

text \<open>The entries come with their indices, the last one first; \<open>n\<close> is the length of the plan.\<close>

fun finalize_dirs ::
  "kernel \<Rightarrow> int \<Rightarrow> (nat \<times> plannedEntry) list \<Rightarrow> runContext \<Rightarrow> fsys
     \<Rightarrow> (applyCause option \<times> runContext) \<times> fsys" where
  "finalize_dirs k n [] c fs = ((None, c), fs)"
| "finalize_dirs k n ((i, entry) # rest) c fs =
     (if pe_type entry \<noteq> plannedEntryTypeDir then finalize_dirs k n rest c fs
      else if pe_path entry \<notin> set (createdDirs c) then finalize_dirs k n rest c fs
      else case ask_faults (n + int i) ''finalize-directory-metadata'' (pe_path entry) c of
        (Some f, c') \<Rightarrow> ((Some (FaultAnswered f), c'), fs)
      | (None, c') \<Rightarrow>
          (case applyMetadata k (pe_path entry) (pe_mode entry) (pe_metadata entry) fs of
             (Inl e, fs') \<Rightarrow>
               ((Some (OperationFailed (Errorf ''failed to finalize metadata for planned directory'' (Some e))), c'), fs')
           | (Inr _, fs') \<Rightarrow>
               finalize_dirs k n rest
                 (c'\<lparr>stats := (stats c')\<lparr>finalizedDirectories := wrap64 (finalizedDirectories (stats c') + 1)\<rparr>\<rparr>) fs'))"

definition clear_base :: "kernel \<Rightarrow> Generator \<Rightarrow> unit fsop" where
  "clear_base k g =
     (case runMode g of
        RunModeAppend \<Rightarrow> returnS ()
      | RunModeStrict \<Rightarrow> returnS ()
      | RunModeReplace \<Rightarrow> wrapS ''failed to clear base path'' (os_RemoveAll k (basePath g))
      | RunModeUnknown n \<Rightarrow> liftS (validateRunMode (runMode g)))"

definition applyRunPlan ::
  "kernel \<Rightarrow> (int \<Rightarrow> rng) \<Rightarrow> Generator \<Rightarrow> runPlan \<Rightarrow> executionContext \<Rightarrow> fsys
     \<Rightarrow> (applyStats \<times> applyCause option) \<times> fsys" where
  "applyRunPlan k seeded g plan ctx fs =
     (let c0 = \<lparr>stats = \<lparr>appliedEntries = 0, finalizedDirectories = 0\<rparr>, createdDirs = [], execCtx = ctx\<rparr>;
          es = entries plan in
      case clear_base k g fs of
        (Inl e, fs') \<Rightarrow> ((stats c0, Some (OperationFailed e)), fs')
      | (Inr _, fs') \<Rightarrow>
          (case create_entries k seeded g 0 es c0 fs' of
             ((Some e, c), fs'') \<Rightarrow> ((stats c, Some e), fs'')
           | ((None, c), fs'') \<Rightarrow>
               (case finalize_dirs k (int (length es)) (rev (zip [0..<length es] es)) c fs'' of
                  ((res, c'), fs''') \<Rightarrow> ((stats c', res), fs'''))))"

definition applyPrebuiltPlan ::
  "kernel \<Rightarrow> (int \<Rightarrow> rng) \<Rightarrow> Generator \<Rightarrow> runPlan \<Rightarrow> fsys \<Rightarrow> (applyStats \<times> applyCause option) \<times> fsys" where
  "applyPrebuiltPlan k seeded g plan fs =
     (case newExecutionContext [] of
        Inl e \<Rightarrow> ((\<lparr>appliedEntries = 0, finalizedDirectories = 0\<rparr>, Some (OperationFailed e)), fs)
      | Inr ctx \<Rightarrow> applyRunPlan k seeded g plan ctx fs)"

section \<open>The run of a generator\<close>

text \<open>The elapsed times of the metrics are left out.\<close>

record RunMetrics =
  Nodes :: int
  Retries :: int
  Collisions :: int
  HardlinkGroups :: int
  AppliedEntries :: int
  FinalizedDirectories :: int

definition RunMetrics0 :: RunMetrics where
  "RunMetrics0 = \<lparr>Nodes = 0, Retries = 0, Collisions = 0, HardlinkGroups = 0, AppliedEntries = 0, FinalizedDirectories = 0\<rparr>"

definition plan_metrics :: "runPlan \<Rightarrow> RunMetrics" where
  "plan_metrics plan =
     RunMetrics0\<lparr>Nodes := int (length (entries plan)), Retries := pathRetries (planMetrics plan),
       Collisions := pathCollisions (planMetrics plan), HardlinkGroups := int (length (planGroups plan))\<rparr>"

text \<open>
  \<open>coverage\<close> is \<open>runCoverage\<close> when the deterministic coverage is active. The random source of
  the generator is threaded through.
\<close>

definition RunWithMetrics ::
  "kernel \<Rightarrow> (int \<Rightarrow> rng) \<Rightarrow> (fsys \<Rightarrow> (RunMetrics \<times> applyCause option) \<times> fsys) option \<Rightarrow> Generator option
     \<Rightarrow> FaultProfile \<Rightarrow> rng \<Rightarrow> fsys \<Rightarrow> (RunMetrics \<times> applyCause option) \<times> rng \<times> fsys" where
  "RunWithMetrics k seeded coverage generator faults r fs =
     (let stop = (\<lambda>m e r. ((m, Some (OperationFailed e)), r, fs)) in
      case generator of
        None \<Rightarrow> stop RunMetrics0 (Sentinel ErrNilGenerator) r
      | Some g \<Rightarrow>
          (case wrapE ''invalid run fault profile'' (validateFaultProfile faults) of
             Inl e \<Rightarrow> stop RunMetrics0 e r
           | Inr _ \<Rightarrow>
          (case coverage of
             Some run \<Rightarrow> (case run fs of (res, fs') \<Rightarrow> (res, r, fs'))
           | None \<Rightarrow>
          (if hasNoConfiguration g then ((RunMetrics0, None), r, fs)
           else case validateRunConfiguration g of
             Inl e \<Rightarrow> stop RunMetrics0 e r
           | Inr _ \<Rightarrow>
          (case planRun g r of
             ((plan, Inl e), r') \<Rightarrow> stop (plan_metrics plan) e r'
           | ((plan, Inr _), r') \<Rightarrow>
          (case newExecutionContext faults of
             Inl e \<Rightarrow> stop (plan_metrics plan) e r'
           | Inr ctx \<Rightarrow>
          (case applyRunPlan k seeded g plan ctx fs of
             ((st, res), fs') \<Rightarrow>
               (((plan_metrics plan)\<lparr>AppliedEntries := appliedEntries st, FinalizedDirectories := finalizedDirectories st\<rparr>,
                 res), r', fs'))))))))"

end
