(* ===== verification/Apply_Safe.thy ===== *)
theory Apply_Safe
  imports Apply_Plan Executor_Confine Plan_Spec
begin

text \<open>
  A run in append or strict mode changes nothing that was there, whatever the kernel refuses and
  wherever a fault stops it. \<open>grown n\<close> relates a state to a later one: entries only come, inodes
  below \<open>n\<close> stay as they are, no inode becomes or stops being a directory or a link. \<open>mon\<close> says it of an operation,
  with one rule per construct; the places the run writes to are new ones.
\<close>

section \<open>The relation\<close>

definition same_kind :: "inode \<Rightarrow> inode \<Rightarrow> bool" where
  "same_kind i j \<longleftrightarrow> (node i = NDir) = (node j = NDir) \<and> (\<forall>t. (node i = NLink t) = (node j = NLink t))"

definition grown :: "nat \<Rightarrow> fsys \<Rightarrow> fsys \<Rightarrow> bool" where
  "grown n fs fs' \<longleftrightarrow>
     (\<forall>q i. map_of (ents fs) q = Some i \<longrightarrow> map_of (ents fs') q = Some i) \<and>
     (\<forall>i < n. inos fs' i = inos fs i) \<and>
     (\<forall>i < nextino fs. same_kind (inos fs' i) (inos fs i)) \<and>
     nextino fs \<le> nextino fs' \<and> inodes_ok fs'"

lemma same_kind_refl [simp]: "same_kind i i"
  by (simp add: same_kind_def)

lemma grownD:
  assumes "grown n fs fs'"
  shows "map_of (ents fs) q = Some i \<Longrightarrow> map_of (ents fs') q = Some i"
    and "i < n \<Longrightarrow> inos fs' i = inos fs i"
    and "i < nextino fs \<Longrightarrow> same_kind (inos fs' i) (inos fs i)"
    and "nextino fs \<le> nextino fs'" and "inodes_ok fs'"
  using assms by (simp_all add: grown_def)

lemma grown_refl [simp]: "inodes_ok fs \<Longrightarrow> grown n fs fs"
  by (simp add: grown_def)

lemma grown_trans:
  assumes "grown n fs fs'" and "grown n fs' fs''"
  shows "grown n fs fs''"
  using assms grownD(4) [OF assms(1)]
  by (fastforce simp: grown_def same_kind_def)

lemma grown_touch [simp]: "grown n fs (touch_at q fs') = grown n fs fs'"
  by (simp add: grown_def)

lemma grown_add:
  assumes "inodes_ok fs" and "n \<le> nextino fs" and "lookup fs q = None"
  shows "grown n fs (add_entry k q nd mode fs)"
  using assms by (auto simp: grown_def add_entry_def lookup_def inodes_ok_iff less_Suc_eq)

lemma grown_link:
  assumes "inodes_ok fs" and "lookup fs q = None" and "map_of (ents fs) p = Some i"
  shows "grown n fs (fs\<lparr>ents := (q, i) # ents fs\<rparr>)"
  using assms inodes_ok_lookup [OF assms(1,3)] by (auto simp: grown_def lookup_def inodes_ok_iff)

lemma grown_upd:
  assumes "inodes_ok fs" and "map_of (ents fs) q = Some i" and "n \<le> i" and "same_kind (f (inos fs i)) (inos fs i)"
  shows "grown n fs (upd_inode q f fs)"
  using assms by (auto simp: grown_def upd_inode_def inodes_ok_iff)

lemma grown_kind:
  "grown n fs fs' \<Longrightarrow> inodes_ok fs \<Longrightarrow> map_of (ents fs) q = Some i \<Longrightarrow> same_kind (inos fs' i) (inos fs i)"
  using grownD(3) inodes_ok_lookup by blast

lemma same_kind_symlink: "same_kind i j \<Longrightarrow> IsSymlink i = IsSymlink j"
  unfolding same_kind_def IsSymlink_def by (cases "node i"; cases "node j") auto

lemma grown_dir:
  assumes "grown n fs fs'" and "inodes_ok fs" and "dir_at fs q"
  shows "dir_at fs' q"
proof -
  obtain i where i: "map_of (ents fs) q = Some i" "node (inos fs i) = NDir"
    using assms(3) by (auto simp: dir_at_lookup lookup_def)
  then have "map_of (ents fs') q = Some i" "node (inos fs' i) = NDir"
    using grownD(1) [OF assms(1)] grown_kind [OF assms(1,2)] by (auto simp: same_kind_def)
  then show ?thesis by (auto simp: dir_at_lookup lookup_def)
qed

lemma grown_phys: "grown n fs fs' \<Longrightarrow> inodes_ok fs \<Longrightarrow> phys fs q \<Longrightarrow> phys fs' q"
  by (simp add: phys_iff grown_dir)

lemma grown_free: "grown n fs fs' \<Longrightarrow> lookup fs' q = None \<Longrightarrow> lookup fs q = None"
  by (cases "map_of (ents fs) q") (auto simp: lookup_def dest: grownD(1))

section \<open>Operations\<close>

definition mon :: "nat \<Rightarrow> fsys \<Rightarrow> 'a fsop \<Rightarrow> bool" where
  "mon n fs m \<longleftrightarrow> (inodes_ok fs \<longrightarrow> n \<le> nextino fs \<longrightarrow> grown n fs (snd (m fs)))"

lemma mon_bind:
  assumes "mon n fs m"
    and "\<And>x fs'. m fs = (Inr x, fs') \<Longrightarrow> inodes_ok fs \<Longrightarrow> n \<le> nextino fs \<Longrightarrow> grown n fs fs' \<Longrightarrow> mon n fs' (g x)"
  shows "mon n fs (bindS m g)"
  unfolding mon_def
proof (intro impI)
  assume ok: "inodes_ok fs" "n \<le> nextino fs"
  obtain r fs' where m: "m fs = (r, fs')" by (meson prod.exhaust)
  have c: "grown n fs fs'" using assms(1) ok m by (simp add: mon_def)
  show "grown n fs (snd (bindS m g fs))"
  proof (cases r)
    case (Inl e)
    then show ?thesis using m c by (simp add: bindS_def)
  next
    case (Inr x)
    then have "grown n fs' (snd (g x fs'))"
      using assms(2) [of x fs'] m c grownD(4,5) [OF c] ok by (simp add: mon_def)
    then show ?thesis using m Inr grown_trans [OF c] by (simp add: bindS_def)
  qed
qed

lemma mon_read_bind: "(\<And>x. f fs = Inr x \<Longrightarrow> mon n fs (g x)) \<Longrightarrow> mon n fs (bindS (readS f) g)"
  by (cases "f fs") (simp_all add: mon_def bindS_def readS_def)

lemma mon_lift_bind: "(\<And>x. r = Inr x \<Longrightarrow> mon n fs (g x)) \<Longrightarrow> mon n fs (bindS (liftS r) g)"
  by (cases r) (simp_all add: mon_def bindS_def liftS_def)

lemma mon_pure [simp]: "mon n fs (readS f)" "mon n fs (liftS r)" "mon n fs (raiseS e)" "mon n fs (returnS x)"
  "mon n fs (modifyS (touch_at q))"
  by (simp_all add: mon_def readS_def liftS_def raiseS_def returnS_def modifyS_def)

lemma mon_wrap [simp]: "mon n fs (wrapS msg m) = mon n fs m"
  by (simp add: mon_def wrapS_def split_beta)

lemma mon_map_err [simp]: "mon n fs (map_errS h m) = mon n fs m"
  by (simp add: mon_def map_errS_def split: prod.split sum.split)

lemma mon_os_call: "(\<And>q. resolve k fs follow p = Inr q \<Longrightarrow> mon n fs (f q)) \<Longrightarrow> mon n fs (os_call k name follow p f)"
  unfolding os_call_def by (intro mon_read_bind)

lemma mon_create_at [simp]: "mon n fs (create_at k q nd mode)"
  by (simp add: mon_def create_at_def grown_add)

lemma mon_create [simp]:
  "mon n fs (os_Mkdir k p mode)" "mon n fs (os_Mknod k p nd mode)" "mon n fs (os_Symlink k t p)"
  "mon n fs (net_Listen_unix k p)"
  by (simp_all add: os_Mkdir_def os_Mknod_def os_Symlink_def net_Listen_unix_def mon_os_call)

lemma mon_link [simp]: "mon n fs (os_Link k old p)"
  unfolding os_Link_def by (intro mon_os_call) (simp add: mon_def grown_link split: option.split)

lemma mon_with_inode:
  assumes "map_of (ents fs) q = Some i" and "n \<le> i" and "\<And>j. f (inos fs i) = Inr j \<Longrightarrow> same_kind j (inos fs i)"
  shows "mon n fs (with_inode q f)"
  using assms by (cases "f (inos fs i)") (auto simp: mon_def with_inode_def lookup_def intro!: grown_upd)

lemma mon_write_handle:
  assumes "map_of (ents fs) h = Some i" and "n \<le> i"
  shows "mon n fs (write_handle k h f len)"
  unfolding write_handle_def
  by (intro mon_read_bind mon_bind mon_with_inode [OF assms] mon_pure)
    (auto simp: same_kind_def split: fnode.splits dest: set_data_node)

section \<open>Places that are new\<close>

text \<open>The entry at \<open>cs\<close>, in a real directory, has an inode not below \<open>n\<close>; when a call follows links it is none.\<close>

definition new_at :: "nat \<Rightarrow> bool \<Rightarrow> fsys \<Rightarrow> string list \<Rightarrow> bool" where
  "new_at n follow fs cs \<longleftrightarrow> (\<forall>c \<in> set cs. elem_ok c) \<and> phys fs (butlast cs) \<and>
     (\<exists>i. map_of (ents fs) cs = Some i \<and> n \<le> i \<and> i < nextino fs \<and> (follow \<longrightarrow> \<not> IsSymlink (inos fs i)))"

lemma new_at_grown: "new_at n follow fs cs \<Longrightarrow> grown n fs fs' \<Longrightarrow> inodes_ok fs \<Longrightarrow> new_at n follow fs' cs"
  unfolding new_at_def
  using grown_phys [of n fs fs'] grownD(1,4) [of n fs fs'] same_kind_symlink [OF grown_kind [of n fs fs']]
  by (metis order_less_le_trans)

lemma new_at_False: "new_at n True fs cs \<Longrightarrow> new_at n False fs cs"
  by (auto simp: new_at_def)

lemma phys_root_butlast: "phys fs (butlast cs) \<Longrightarrow> dir_at fs []"
  by (rule phys_root)

lemma new_at_resolve:
  assumes "new_at n follow fs cs" and "resolve k fs follow (abs_path cs) = Inr q"
  shows "q = cs"
proof -
  have "follow \<Longrightarrow> \<forall>i t. lookup fs cs = Some i \<longrightarrow> node i \<noteq> NLink t"
    using assms(1) by (auto simp: new_at_def lookup_def IsSymlink_def)
  then show ?thesis
    using resolve_phys [of cs fs follow k] assms by (auto simp: new_at_def phys_root split: if_splits)
qed

lemma mon_inode_call:
  assumes "new_at n follow fs cs" and "\<And>i j. f i = Inr j \<Longrightarrow> same_kind j i"
  shows "mon n fs (os_call k name follow (abs_path cs) (\<lambda>q. with_inode q f))"
proof (rule mon_os_call)
  fix q assume "resolve k fs follow (abs_path cs) = Inr q"
  then have "q = cs" using new_at_resolve [OF assms(1)] by blast
  then show "mon n fs (with_inode q f)" using assms by (auto simp: new_at_def intro: mon_with_inode)
qed

lemma mon_chmod: "new_at n True fs cs \<Longrightarrow> mon n fs (os_Chmod k (abs_path cs) mode)"
  unfolding os_Chmod_def by (erule mon_inode_call) (auto simp: same_kind_def)

lemma mon_lchown: "new_at n False fs cs \<Longrightarrow> mon n fs (os_Lchown k (abs_path cs) uid gid)"
  unfolding os_Lchown_def by (erule mon_inode_call) (auto simp: same_kind_def)

lemma mon_setxattr: "new_at n False fs cs \<Longrightarrow> mon n fs (Lsetxattr k (abs_path cs) name v)"
  unfolding Lsetxattr_def by (erule mon_inode_call) (auto simp: same_kind_def split: if_splits)

lemma mon_removexattr: "new_at n False fs cs \<Longrightarrow> mon n fs (Lremovexattr k (abs_path cs) name)"
  unfolding Lremovexattr_def by (erule mon_inode_call) (auto simp: same_kind_def split: if_splits)

lemma mon_utimes [simp]: "mon n fs (UtimesNanoAt k p a m)"
  unfolding UtimesNanoAt_def
  by (rule mon_os_call) (auto simp: mon_def grown_def inodes_ok_iff split: option.split)

lemma mon_new:
  assumes "new_at n follow fs cs" and "mon n fs m" and "\<And>x fs'. new_at n follow fs' cs \<Longrightarrow> mon n fs' (g x)"
  shows "mon n fs (bindS m g)"
  by (rule mon_bind [OF assms(2)]) (use assms(3) new_at_grown [OF assms(1)] in blast)

lemma mon_ownership: "new_at n False fs cs \<Longrightarrow> mon n fs (apply_ownership k (abs_path cs) md)"
  by (simp add: apply_ownership_def mon_lchown)

lemma mon_times [simp]: "mon n fs (apply_times k p md)"
  by (simp add: apply_times_def)

lemma mon_link_metadata: "new_at n False fs cs \<Longrightarrow> mon n fs (applyLinkMetadata k (abs_path cs) md)"
  unfolding applyLinkMetadata_def by (rule mon_new [OF _ mon_ownership]) simp_all

lemma mon_setPathXAttr: "new_at n False fs cs \<Longrightarrow> mon n fs (setPathXAttr k (abs_path cs) name v)"
  unfolding setPathXAttr_def by (intro mon_lift_bind) (simp add: mon_setxattr)

lemma mon_set_xattrs: "new_at n False fs cs \<Longrightarrow> mon n fs (set_xattrs k (abs_path cs) xs ns)"
proof (induction ns arbitrary: fs)
  case (Cons name ns)
  show ?case
    unfolding set_xattrs.simps
    by (rule mon_new [OF Cons.prems mon_setPathXAttr [OF Cons.prems]]) (rule Cons.IH)
qed simp

lemma mon_removeACL: "new_at n False fs cs \<Longrightarrow> mon n fs (removeACLXAttr k (abs_path cs) name)"
  using mon_removexattr [of n fs cs k name]
  by (auto simp: mon_def removeACLXAttr_def split: prod.split sum.split)

lemma mon_setACL: "new_at n False fs cs \<Longrightarrow> mon n fs (setACLXAttr k (abs_path cs) name es)"
  unfolding setACLXAttr_def by (auto simp: mon_setxattr split: sum.split)

lemma mon_clearACL: "new_at n False fs cs \<Longrightarrow> mon n fs (clearACLXAttrs k (abs_path cs))"
  unfolding clearACLXAttrs_def by (rule mon_new [OF _ mon_removeACL], assumption+) (rule mon_removeACL)

lemma mon_if: "(b \<Longrightarrow> mon n fs m) \<Longrightarrow> (\<not> b \<Longrightarrow> mon n fs m') \<Longrightarrow> mon n fs (if b then m else m')"
  by simp

lemma bindS_returnS [simp]: "bindS m returnS = m"
  by (rule ext) (simp add: bindS_def returnS_def split: prod.split sum.split)

lemma mon_applyACL:
  assumes "new_at n False fs cs"
  shows "mon n fs (applyACL k (abs_path cs) mode raw)"
proof -
  have "mon n fs' (setACLXAttr k (abs_path cs) name es)" if "new_at n False fs' cs" for fs' name es
    using that by (rule mon_setACL)
  moreover have "mon n fs' (bindS (setACLXAttr k (abs_path cs) XAttrAccess a) (\<lambda>_. m))"
    if "new_at n False fs' cs" "\<And>fs'. new_at n False fs' cs \<Longrightarrow> mon n fs' m" for fs' a and m :: "unit fsop"
    by (rule mon_new [OF that(1) mon_setACL [OF that(1)]]) (rule that(2))
  moreover have "mon n fs (bindS (wrapS ''failed to stat ACL target'' (readS (os_Lstat k (abs_path cs)))) (\<lambda>info.
      if \<not> IsDir info then raiseS (Errorf ''default ACL'' (Some (Sentinel ErrACLInvalidEntry))) else returnS ()))"
    unfolding wrap_read by (rule mon_read_bind) simp
  ultimately show ?thesis
    unfolding applyACL_def
    by (intro mon_lift_bind)
      (auto intro!: mon_new [OF assms] mon_new [OF _ mon_clearACL] mon_clearACL assms mon_if split: prod.split)
qed

lemma mon_applyMetadata:
  assumes "new_at n True fs cs"
  shows "mon n fs (applyMetadata k (abs_path cs) mode md)"
  unfolding applyMetadata_def applyXAttrs_def
  by (intro mon_new [OF assms mon_ownership [OF new_at_False [OF assms]]])
    (auto intro!: mon_new [where follow = True] mon_chmod mon_set_xattrs mon_applyACL dest: new_at_False)

section \<open>Creation at a free place\<close>

definition free_at :: "fsys \<Rightarrow> string list \<Rightarrow> bool" where
  "free_at fs cs \<longleftrightarrow> (\<forall>c \<in> set cs. elem_ok c) \<and> phys fs (butlast cs) \<and> lookup fs cs = None"

lemma free_at_resolve:
  assumes "free_at fs cs" and "resolve k fs follow (abs_path cs) = Inr q"
  shows "q = cs"
  using resolve_phys [of cs fs follow k] assms by (auto simp: free_at_def phys_root split: if_splits)

lemma free_at_nonempty: "free_at fs cs \<Longrightarrow> cs \<noteq> []"
  by (auto simp: free_at_def dest!: phys_dir simp: dir_at_def)

lemma add_entry_new_at:
  assumes "free_at fs cs" and "inodes_ok fs" and "n \<le> nextino fs" and "follow \<Longrightarrow> \<forall>t. nd \<noteq> NLink t"
  shows "new_at n follow (add_entry k cs nd mode fs) cs"
proof -
  have "grown n fs (add_entry k cs nd mode fs)"
    using assms by (intro grown_add) (auto simp: free_at_def)
  then have "phys (add_entry k cs nd mode fs) (butlast cs)"
    using assms by (auto simp: free_at_def intro: grown_phys)
  then show ?thesis using assms by (auto simp: new_at_def free_at_def add_entry_def IsSymlink_def split: fnode.split)
qed

lemma new_at_touch [simp]: "new_at n follow (touch_at q fs) cs = new_at n follow fs cs"
  by (simp add: new_at_def phys_iff)

lemma create_call_new:
  assumes "os_call k name follow (abs_path cs) (\<lambda>q. create_at k q nd mode) fs = (Inr x, fs')"
    and "free_at fs cs" and "inodes_ok fs" and "n \<le> nextino fs" and "f \<Longrightarrow> \<forall>t. nd \<noteq> NLink t"
  shows "new_at n f fs' cs"
proof -
  have "fs' = touch_at (butlast cs) (add_entry k cs nd mode fs)"
    using assms(1) free_at_resolve [OF assms(2)]
    by (auto simp: os_call_def create_at_def bindS_def readS_def split: sum.splits if_splits)
  then show ?thesis using add_entry_new_at [OF assms(2-5)] by simp
qed

lemma create_call_dir:
  assumes "os_call k name follow (abs_path cs) (\<lambda>q. create_at k q NDir mode) fs = (Inr x, fs')"
    and "free_at fs cs"
  shows "dir_at fs' cs"
proof -
  have "fs' = touch_at (butlast cs) (add_entry k cs NDir mode fs)"
    using assms(1) free_at_resolve [OF assms(2)]
    by (auto simp: os_call_def create_at_def bindS_def readS_def split: sum.splits if_splits)
  then show ?thesis by (simp add: dir_at_lookup lookup_def add_entry_def)
qed

text \<open>Creation, then something on what was created.\<close>

lemma mon_created:
  assumes "free_at fs cs" and "mon n fs m"
    and "\<And>x fs'. m fs = (Inr x, fs') \<Longrightarrow> inodes_ok fs \<Longrightarrow> n \<le> nextino fs \<Longrightarrow> new_at n follow fs' cs"
    and "\<And>x fs'. new_at n follow fs' cs \<Longrightarrow> mon n fs' (g x)"
  shows "mon n fs (bindS m g)"
  by (rule mon_bind [OF assms(2)]) (use assms(3,4) in blast)

subsection \<open>Directories\<close>

lemma parent_path_root: "parent_path [slash] = []"
  by (simp add: parent_path_def)

lemma parent_path_snoc:
  assumes "\<forall>c \<in> set (cs @ [c]). elem_ok c"
  shows "parent_path (abs_path (cs @ [c])) = abs_path cs"
proof -
  have c: "c \<noteq> []" "slash \<notin> set c" using assms by (auto simp: elem_ok_def)
  have drop: "dropWhile (\<lambda>x. x = slash) (rev w @ xs) = rev w @ xs" if "w \<noteq> []" "slash \<notin> set w" for w xs
    using that by (cases w rule: rev_cases) auto
  have skip: "dropWhile (\<lambda>x. x \<noteq> slash) (rev c @ slash # xs) = slash # xs" for xs
    using c by (subst dropWhile_append2) auto
  show ?thesis
  proof (cases cs rule: rev_cases)
    case Nil
    then have r: "rev (abs_path (cs @ [c])) = rev c @ [slash]" by (simp add: abs_path_def)
    show ?thesis unfolding parent_path_def r drop [OF c] skip using Nil by (simp add: Let_def)
  next
    case (snoc ds d)
    have d: "d \<noteq> []" "slash \<notin> set d" using assms snoc by (auto simp: elem_ok_def)
    obtain y where y: "abs_path cs = y @ d" using abs_path_snoc [of ds d] snoc by (metis append_Cons append_assoc append_Nil)
    have r: "rev (abs_path (cs @ [c])) = rev c @ slash # rev d @ rev y" using abs_path_snoc [of cs c] snoc y by simp
    show ?thesis unfolding parent_path_def r drop [OF c] skip using d drop [OF d] y by (simp add: Let_def)
  qed
qed

lemma mkdir_last_existing:
  assumes "\<forall>c \<in> set cs. elem_ok c" and "phys fs cs"
  shows "snd (mkdir_last k (abs_path cs) perm fs) = fs"
proof -
  have "phys fs (butlast cs)" using assms(2) by (metis append_butlast_last_id phys_append butlast.simps(1))
  then have "resolve k fs False (abs_path cs) = Inr q \<Longrightarrow> q = cs" for q
    using resolve_phys [OF assms(1) phys_root [OF assms(2)], of False k] by (auto split: if_splits)
  moreover have "lookup fs cs \<noteq> None" using phys_dir [OF assms(2)] by (auto simp: dir_at_lookup)
  ultimately have "\<exists>e. os_Mkdir k (abs_path cs) perm fs = (Inl e, fs)"
    by (auto simp: os_Mkdir_def os_call_def bindS_def readS_def create_at_def split: sum.split)
  then show ?thesis by (auto simp: mkdir_last_def split: sum.split)
qed

lemma MkdirAll_existing:
  "\<forall>c \<in> set cs. elem_ok c \<Longrightarrow> phys fs cs \<Longrightarrow> snd (os_MkdirAll k (abs_path cs) perm fs) = fs"
proof (induction cs rule: rev_induct)
  case Nil
  then show ?case
    using mkdir_last_existing [of "[]" fs k perm]
    by (subst os_MkdirAll.simps) (simp add: parent_path_root split: sum.split)
next
  case (snoc c cs)
  have "snd (os_MkdirAll k (abs_path cs) perm fs) = fs" using snoc phys_append by auto
  then obtain r where "os_MkdirAll k (abs_path cs) perm fs = (r, fs)" by (metis prod.collapse)
  then show ?case
    using mkdir_last_existing [OF snoc.prems, of k perm] parent_path_snoc [OF snoc.prems(1)]
    by (subst os_MkdirAll.simps) (simp split: sum.split)
qed

lemma MkdirAll_free:
  assumes "free_at fs cs"
  shows "\<exists>r. os_MkdirAll k (abs_path cs) perm fs = (Inl r, fs) \<or>
    os_MkdirAll k (abs_path cs) perm fs = mkdir_last k (abs_path cs) perm fs"
proof -
  obtain ds d where cs: "cs = ds @ [d]" using free_at_nonempty [OF assms] by (cases cs rule: rev_cases) auto
  have ok: "\<forall>c \<in> set (ds @ [d]). elem_ok c" and ph: "phys fs ds" and no: "lookup fs cs = None"
    using assms cs by (auto simp: free_at_def)
  have "\<exists>e. os_Stat k (abs_path cs) fs = Inl e"
    using free_at_resolve [OF assms, of k True] no
    by (auto simp: os_Stat_def get_inode_def bindE_def split: sum.split)
  moreover obtain r where "os_MkdirAll k (abs_path ds) perm fs = (r, fs)"
    using MkdirAll_existing [of ds fs k perm] ok ph by (metis UnCI prod.collapse set_append)
  ultimately have "os_MkdirAll k (abs_path cs) perm fs =
      (case r of Inl e \<Rightarrow> (Inl e, fs) | Inr _ \<Rightarrow> mkdir_last k (abs_path cs) perm fs)"
    using parent_path_snoc [OF ok] cs by (subst os_MkdirAll.simps) (auto split: sum.split)
  then show ?thesis by (cases r) auto
qed

lemma mkdir_last_free:
  assumes "free_at fs cs"
  shows "mon n fs (mkdir_last k (abs_path cs) perm)"
    and "mkdir_last k (abs_path cs) perm fs = (Inr x, fs') \<Longrightarrow> os_Mkdir k (abs_path cs) perm fs = (Inr (), fs')"
proof -
  have m: "mon n fs (os_Mkdir k (abs_path cs) perm)" by simp
  obtain r t where rt: "os_Mkdir k (abs_path cs) perm fs = (r, t)" by (meson prod.exhaust)
  have "snd (mkdir_last k (abs_path cs) perm fs) = t" using rt by (auto simp: mkdir_last_def split: sum.split)
  then show "mon n fs (mkdir_last k (abs_path cs) perm)" using m rt by (simp add: mon_def)
  assume ok: "mkdir_last k (abs_path cs) perm fs = (Inr x, fs')"
  show "os_Mkdir k (abs_path cs) perm fs = (Inr (), fs')"
  proof (cases r)
    case (Inr u)
    then show ?thesis using ok rt by (auto simp: mkdir_last_def)
  next
    case (Inl e)
    then have "t = fs"
      using rt free_at_resolve [OF assms, of k False]
      by (auto simp: os_Mkdir_def os_call_def bindS_def readS_def create_at_def split: sum.splits if_splits)
    moreover have "\<exists>e. os_Lstat k (abs_path cs) fs = Inl e"
      using free_at_resolve [OF assms, of k False] assms
      by (auto simp: os_Lstat_def get_inode_def bindE_def free_at_def split: sum.split)
    ultimately show ?thesis using ok rt Inl by (auto simp: mkdir_last_def)
  qed
qed

subsection \<open>Making an entry\<close>

text \<open>\<open>m\<close> keeps what is there, and when it succeeds the entry \<open>cs\<close> is there and new.\<close>

definition makes :: "nat \<Rightarrow> bool \<Rightarrow> fsys \<Rightarrow> string list \<Rightarrow> 'a fsop \<Rightarrow> bool" where
  "makes n follow fs cs m \<longleftrightarrow> mon n fs m \<and>
     (\<forall>x fs'. inodes_ok fs \<longrightarrow> n \<le> nextino fs \<longrightarrow> m fs = (Inr x, fs') \<longrightarrow> new_at n follow fs' cs)"

lemma makes_mon: "makes n follow fs cs m \<Longrightarrow> mon n fs m"
  by (simp add: makes_def)

lemma makes_create_call:
  assumes "free_at fs cs" and "follow \<Longrightarrow> \<forall>t. nd \<noteq> NLink t"
  shows "makes n follow fs cs (os_call k name f (abs_path cs) (\<lambda>q. create_at k q nd mode))"
  using create_call_new [OF _ assms(1)] assms(2) by (auto simp: makes_def intro: mon_os_call)

lemma makes_wrap: "makes n follow fs cs m \<Longrightarrow> makes n follow fs cs (wrapS msg m)"
  by (auto simp: makes_def wrapS_eq_Inr)

lemma makes_map_err: "makes n follow fs cs m \<Longrightarrow> makes n follow fs cs (map_errS h m)"
  by (auto simp: makes_def map_errS_def split: prod.splits sum.splits)

lemma makes_raise: "makes n follow fs cs (raiseS e)"
  by (simp add: makes_def raiseS_def)

lemma makes_if:
  "(b \<Longrightarrow> makes n follow fs cs m) \<Longrightarrow> (\<not> b \<Longrightarrow> makes n follow fs cs m') \<Longrightarrow> makes n follow fs cs (if b then m else m')"
  by simp

lemma makes_lift_bind: "(\<And>x. r = Inr x \<Longrightarrow> makes n follow fs cs (g x)) \<Longrightarrow> makes n follow fs cs (bindS (liftS r) g)"
  by (cases r) (simp_all add: makes_def mon_def bindS_def liftS_def)

lemma makes_bind:
  assumes "makes n follow fs cs m" and "\<And>x fs'. new_at n follow fs' cs \<Longrightarrow> mon n fs' (g x)"
  shows "makes n follow fs cs (bindS m g)"
  unfolding makes_def
proof (intro conjI allI impI)
  show "mon n fs (bindS m g)"
    by (rule mon_bind [OF makes_mon [OF assms(1)]]) (use assms in \<open>auto simp: makes_def\<close>)
  fix y fs'' assume ok: "inodes_ok fs" "n \<le> nextino fs" "bindS m g fs = (Inr y, fs'')"
  obtain x fs' where m: "m fs = (Inr x, fs')" "g x fs' = (Inr y, fs'')" using ok(3) by (auto simp: bindS_eq_Inr)
  then have new: "new_at n follow fs' cs" and g: "grown n fs fs'"
    using assms(1) ok by (auto simp: makes_def mon_def dest: spec [of _ x])
  then have "grown n fs' fs''"
    using assms(2) [OF new, of x] m(2) grownD(4,5) [OF g] ok(2) by (auto simp: mon_def)
  with new show "new_at n follow fs'' cs" using grownD(5) [OF g] by (rule new_at_grown)
qed

lemma makes_open_create:
  assumes "free_at fs cs"
  shows "makes n True fs cs (open_create k cs mode)"
proof -
  let ?fs = "touch_at (butlast cs) (add_entry k cs (NFile []) (and (syscallMode mode) (not (umask k))) fs)"
  have "open_create k cs mode fs = (Inr (), ?fs)" using assms by (simp add: open_create_def free_at_def)
  then show ?thesis
    using add_entry_new_at [OF assms] assms by (auto simp: makes_def mon_def free_at_def grown_add)
qed

lemma makes_os_call:
  assumes "free_at fs cs" and "makes n f fs cs (g cs)"
  shows "makes n f fs cs (os_call k name follow (abs_path cs) g)"
proof -
  have q: "q = cs" if "resolve k fs follow (abs_path cs) = Inr q" for q
    using that free_at_resolve [OF assms(1)] by blast
  have m: "mon n fs (os_call k name follow (abs_path cs) g)"
    by (rule mon_os_call) (use q makes_mon [OF assms(2)] in blast)
  have run: "g cs fs = (Inr x, fs')" if "os_call k name follow (abs_path cs) g fs = (Inr x, fs')" for x fs'
    using that q by (auto simp: os_call_def bindS_def readS_def split: sum.splits)
  show ?thesis using m run assms(2) unfolding makes_def by blast
qed

lemma mon_write_new: "new_at n True fs cs \<Longrightarrow> mon n fs (write_handle k cs f len)"
  by (auto simp: new_at_def intro: mon_write_handle)

lemma makes_WriteFile: "free_at fs cs \<Longrightarrow> makes n True fs cs (os_WriteFile k (abs_path cs) data mode)"
  unfolding os_WriteFile_def fd_WriteAt_def fd_Close_def
  by (rule makes_os_call, assumption, rule makes_bind [OF makes_open_create], assumption, rule mon_new [OF _ mon_write_new])
    simp_all

lemma mon_truncate_new: "new_at n True fs cs \<Longrightarrow> mon n fs (fd_Truncate k cs sz)"
  unfolding fd_Truncate_def new_at_def
  by (elim conjE exE, intro mon_read_bind mon_bind mon_with_inode mon_pure)
    (auto simp: same_kind_def split: fnode.splits if_splits dest: set_data_node)

lemma mon_write_chunk: "new_at n True fs cs \<Longrightarrow> mon n fs (write_chunk msg (fd_WriteAt k cs) d off)"
  unfolding write_chunk_def fd_WriteAt_def
  by (rule mon_new, assumption) (simp_all add: mon_write_new)

lemma mon_random_loop:
  "new_at n True fs cs \<Longrightarrow> mon n fs (write_random_loop (fd_WriteAt k cs) buf off len position r)"
proof (induction "fd_WriteAt k cs" buf off len position r arbitrary: fs rule: write_random_loop.induct)
  case (1 buf off len position r)
  show ?case
  proof (cases "position < len")
    case False
    then show ?thesis by (subst write_random_loop.simps) simp
  next
    case True
    obtain chunk r' where rd: "Read_bytes (nat (minInt64 (len - position) (int (Suc buf)))) r = (chunk, r')"
      by (meson prod.exhaust)
    show ?thesis
      unfolding write_random_loop.simps [of "fd_WriteAt k cs" buf off len position] if_P [OF True] Let_def rd prod.case
      by (rule mon_new [OF 1(2) mon_write_chunk [OF 1(2)]]) (rule 1(1) [OF True refl rd [symmetric]])
  qed
qed

lemma mon_random: "new_at n True fs cs \<Longrightarrow> mon n fs (writeRandomContentAt (fd_WriteAt k cs) seeded off len seed)"
  by (simp add: writeRandomContentAt_def mon_random_loop)

lemma mon_repeated_loop:
  "new_at n True fs cs \<Longrightarrow> mon n fs (write_repeated_loop (fd_WriteAt k cs) chunk logicalSize off)"
proof (induction "fd_WriteAt k cs" chunk logicalSize off arbitrary: fs rule: write_repeated_loop.induct)
  case (1 chunk logicalSize off)
  show ?case
    by (subst write_repeated_loop.simps, cases "off < logicalSize \<and> chunk \<noteq> []")
      (simp_all only: if_True if_False simp_thms Let_def mon_pure,
       rule mon_new [OF 1(2) mon_write_chunk [OF 1(2)]], rule 1(1), simp_all)
qed

lemma mon_extents: "new_at n True fs cs \<Longrightarrow> mon n fs (write_extents (fd_WriteAt k cs) seeded xs)"
  by (induction xs arbitrary: fs) (auto intro: mon_new [OF _ mon_random])

lemma mon_pattern: "new_at n True fs cs \<Longrightarrow> mon n fs (write_pattern (fd_WriteAt k cs) seeded c)"
  by (auto simp: write_pattern_def writeRepeatedContent_def mon_random mon_extents mon_repeated_loop
      split: ContentPattern.split intro: mon_new [OF _ mon_random])

lemma mon_defer_close: "mon n fs m \<Longrightarrow> mon n fs (deferS (fd_Close k f) m)"
  by (simp add: mon_def deferS_def fd_Close_def readS_def split: prod.split)

lemma makes_createPlannedFile:
  assumes "free_at fs cs"
  shows "makes n True fs cs (createPlannedFile k seeded (abs_path cs) mode content)"
proof -
  let ?open = "os_call k ''open'' True (abs_path cs) (\<lambda>q. bindS (open_create k q (and mode 0x1FF)) (\<lambda>_. returnS q))"
  let ?rest = "\<lambda>f. deferS (fd_Close k f) (bindS (write_pattern (fd_WriteAt k f) seeded content) (\<lambda>_.
     bindS (wrapS ''failed to truncate planned file'' (fd_Truncate k f (pc_logicalSize content))) (\<lambda>_.
     wrapS ''failed to finalize planned file'' (fd_Close k f))))"
  have o: "makes n True fs cs ?open"
    by (rule makes_os_call [OF assms]) (rule makes_bind [OF makes_open_create [OF assms]], simp)
  have h: "q = cs" if "?open fs = (Inr q, fs')" for q fs'
    using that free_at_resolve [OF assms, of k True]
    by (auto simp: os_call_def bindS_def readS_def returnS_def split: sum.splits prod.splits)
  have "bindS (wrapS msg ?open) ?rest fs = bindS (wrapS msg ?open) (\<lambda>_. ?rest cs) fs" for msg
    using h by (auto simp: bindS_def wrapS_def split: prod.split sum.split)
  moreover have "mon n fs' (?rest cs)" if "new_at n True fs' cs" for fs'
    by (rule mon_defer_close, rule mon_new [OF that mon_pattern [OF that]],
        rule mon_new [where follow = True and cs = cs], assumption)
      (simp_all add: mon_truncate_new fd_Close_def)
  then have "makes n True fs cs (bindS (wrapS msg ?open) (\<lambda>_. ?rest cs))" for msg
    by (rule makes_bind [OF makes_wrap [OF o]])
  ultimately show ?thesis
    by (simp add: createPlannedFile_def writePlannedFileContent_def kernel_file_def makes_def mon_def)
qed

lemma makes_MkdirAll:
  assumes "free_at fs cs"
  shows "makes n True fs cs (os_MkdirAll k (abs_path cs) perm)"
    and "os_MkdirAll k (abs_path cs) perm fs = (Inr x, fs') \<Longrightarrow> dir_at fs' cs"
proof -
  let ?m = "mkdir_last k (abs_path cs) perm"
  obtain r where cases: "os_MkdirAll k (abs_path cs) perm fs = (Inl r, fs) \<or> os_MkdirAll k (abs_path cs) perm fs = ?m fs"
    using MkdirAll_free [OF assms, of k perm] by blast
  have m: "makes n True fs cs ?m"
    unfolding makes_def
  proof (intro conjI allI impI)
    show "mon n fs ?m" by (rule mkdir_last_free(1) [OF assms])
    fix x fs' assume ok: "inodes_ok fs" "n \<le> nextino fs" "?m fs = (Inr x, fs')"
    from mkdir_last_free(2) [OF assms ok(3)] show "new_at n True fs' cs"
      unfolding os_Mkdir_def by (rule create_call_new [OF _ assms ok(1,2)]) simp
  qed
  show "makes n True fs cs (os_MkdirAll k (abs_path cs) perm)"
    using cases m by (auto simp: makes_def mon_def)
  assume ok: "os_MkdirAll k (abs_path cs) perm fs = (Inr x, fs')"
  then have "os_Mkdir k (abs_path cs) perm fs = (Inr (), fs')" using cases mkdir_last_free(2) [OF assms, of k perm x fs'] by simp
  then show "dir_at fs' cs" unfolding os_Mkdir_def by (rule create_call_dir) (rule assms)
qed

section \<open>The entries of a plan\<close>

lemma makes_special:
  assumes "free_at fs cs"
  shows "makes n True fs cs (createPlannedSpecialFile k (abs_path cs) t mode major minor)"
proof -
  note makes_create = makes_create_call [OF assms, where follow = True and f = False]
  have node: "makes n True fs cs (case t of
          SpecialFileTypeFIFO \<Rightarrow> os_Mknod k (abs_path cs) NodeFifo (and mode 0xFFF)
        | SpecialFileTypeSocket \<Rightarrow> createUnixSocketPath k (abs_path cs)
        | SpecialFileTypeCharDevice \<Rightarrow> createDeviceNode k (abs_path cs) NodeChar mode major minor
        | SpecialFileTypeBlockDevice \<Rightarrow> createDeviceNode k (abs_path cs) NodeBlock mode major minor
        | SpecialFileTypeUnknown j \<Rightarrow> returnS ())" if "validateSpecialFileType t = Inr x" for x
  proof (cases t)
    case SpecialFileTypeSocket
    have "makes n True fs cs (createUnixSocketPath k (abs_path cs))"
      unfolding createUnixSocketPath_def net_Listen_unix_def
      by (rule makes_bind) (rule makes_create, simp_all)
    then show ?thesis using SpecialFileTypeSocket by simp
  next
    case SpecialFileTypeFIFO
    then show ?thesis by (simp add: os_Mknod_def makes_create)
  next
    case SpecialFileTypeCharDevice
    then show ?thesis by (simp add: createDeviceNode_def os_Mknod_def makes_create makes_raise)
  next
    case SpecialFileTypeBlockDevice
    then show ?thesis by (simp add: createDeviceNode_def os_Mknod_def makes_create makes_raise)
  next
    case (SpecialFileTypeUnknown j)
    then show ?thesis using that by (simp add: validateSpecialFileType_def)
  qed
  show ?thesis
    unfolding createPlannedSpecialFile_def
    by (intro makes_lift_bind makes_bind makes_map_err node) (simp_all add: mon_chmod)
qed

lemma mon_create_planned:
  assumes "free_at fs cs" and "pe_path e = abs_path cs"
  shows "mon n fs (create_planned k seeded e)"
proof -
  let ?md = "\<lambda>msg. wrapS msg (applyMetadata k (abs_path cs) (pe_mode e) (pe_metadata e))"
  have md: "mon n fs' (?md msg)" if "new_at n True fs' cs" for fs' msg using that by (simp add: mon_applyMetadata)
  have mkfile: "makes n True fs cs (if pc_pattern (pe_content e) \<noteq> ContentPatternUnknown 0
      then createPlannedFile k seeded (abs_path cs) (pe_mode e) (pe_content e)
      else wrapS msg (os_WriteFile k (abs_path cs) (pe_data e) (and (pe_mode e) 0x1FF)))" for msg
    by (intro makes_if makes_createPlannedFile makes_wrap makes_WriteFile assms(1))
  have link: "makes n False fs cs (os_Symlink k t (abs_path cs))" for t
    unfolding os_Symlink_def by (intro makes_if makes_raise makes_create_call [OF assms(1)]) simp
  show ?thesis
  proof (cases "pe_type e")
    case plannedEntryTypeDir
    then show ?thesis using makes_MkdirAll(1) [OF assms(1)] assms(2) by (simp add: create_planned_def makes_def)
  next
    case plannedEntryTypeFile
    then have t: "pe_type e = plannedEntryTypeFile" .
    show ?thesis
      unfolding create_planned_def Let_def t assms(2) plannedEntryType.case
      by (rule makes_mon [OF makes_bind [OF mkfile md]])
  next
    case plannedEntryTypeSymlink
    have "mon n fs (bindS (wrapS m1 (os_Symlink k (pe_linkTarget e) (abs_path cs)))
        (\<lambda>_. wrapS m2 (applyLinkMetadata k (abs_path cs) (pe_metadata e))))" for m1 m2
      by (rule makes_mon, rule makes_bind [OF makes_wrap [OF link]]) (simp add: mon_link_metadata)
    then show ?thesis using plannedEntryTypeSymlink assms(2) by (simp add: create_planned_def Let_def)
  next
    case plannedEntryTypeHardlink
    then show ?thesis by (simp add: create_planned_def)
  next
    case plannedEntryTypeSpecial
    then have t: "pe_type e = plannedEntryTypeSpecial" .
    show ?thesis
      unfolding create_planned_def Let_def t assms(2) plannedEntryType.case
      by (rule makes_mon [OF makes_bind [OF makes_special [OF assms(1)] md]])
  qed
qed

text \<open>Lstat of a path in a real directory.\<close>

lemma Lstat_here:
  assumes "\<forall>c \<in> set cs. elem_ok c" and "phys fs (butlast cs)"
  shows "os_Lstat k (abs_path cs) fs = Inr i \<Longrightarrow> lookup fs cs = Some i"
    and "os_Lstat k (abs_path cs) fs = Inl e \<Longrightarrow> errors_Is e ENOENT \<Longrightarrow> lookup fs cs = None"
  using resolve_phys [OF assms(1) phys_root [OF assms(2)], of False k] assms(2)
  by (auto simp: os_Lstat_def get_inode_def ask_def bindE_def split: if_splits option.splits sum.splits)

text \<open>One entry at a place in a real directory.\<close>

lemma apply_entry_keeps:
  assumes cs: "pe_path e = abs_path cs" "\<forall>c \<in> set cs. elem_ok c" "phys fs (butlast cs)"
    and ok: "inodes_ok fs" "n \<le> nextino fs"
    and run: "applyPlannedEntry k seeded g e fs = (res, fs')"
  shows "grown n fs fs'"
    and "res = Inr created \<Longrightarrow> pe_type e = plannedEntryTypeDir \<Longrightarrow> dir_at fs' cs \<and> (created \<longrightarrow> new_at n True fs' cs)"
    and "res = Inr created \<Longrightarrow> runMode g = RunModeStrict \<Longrightarrow> pe_path e \<noteq> basePath g \<Longrightarrow> lookup fs cs = None"
proof -
  have free: "free_at fs cs" if "os_Lstat k (pe_path e) fs = Inl err" "errors_Is err ENOENT" for err
    using Lstat_here(2) [OF cs(2,3)] that cs by (simp add: free_at_def)
  consider (there) info where "os_Lstat k (pe_path e) fs = Inr info" "res = check_existing g e info" "fs' = fs"
    | (error) err where "res = Inl err" "fs' = fs"
    | (new) "free_at fs cs" "bindS (create_planned k seeded e) (\<lambda>_. returnS True) fs = (res, fs')"
    using run free by (auto simp: applyPlannedEntry_def split: sum.splits if_splits)
  note three = this
  show "grown n fs fs'"
    using three
  proof cases
    case new
    then have "fs' = snd (create_planned k seeded e fs)"
      by (auto simp: bindS_def returnS_def split: prod.splits sum.splits)
    then show ?thesis using mon_create_planned [OF new(1) cs(1), of n k seeded] ok by (simp add: mon_def)
  qed (use ok in simp_all)
  show "dir_at fs' cs \<and> (created \<longrightarrow> new_at n True fs' cs)" if r: "res = Inr created" and t: "pe_type e = plannedEntryTypeDir"
    using three
  proof cases
    case there
    then have "IsDir info" "created = False" using r t by (auto simp: check_existing_def split: if_splits)
    then show ?thesis using Lstat_here(1) [OF cs(2,3)] there cs(1) by (auto simp: dir_at_lookup IsDir_def)
  next
    case new
    obtain x where "os_MkdirAll k (abs_path cs) (and (pe_mode e) 0xFFF) fs = (Inr x, fs')"
      using new(2) r t cs(1) by (auto simp: create_planned_def bindS_eq_Inr wrapS_eq_Inr returnS_def)
    then show ?thesis
      using makes_MkdirAll [OF new(1)] ok by (auto simp: makes_def)
  qed (use r in simp)
  show "lookup fs cs = None" if r: "res = Inr created" and m: "runMode g = RunModeStrict" "pe_path e \<noteq> basePath g"
    using three
  proof cases
    case there
    then show ?thesis using r m by (auto simp: check_existing_def split: if_splits)
  next
    case new
    then show ?thesis by (simp add: free_at_def)
  qed (use r in simp)
qed

section \<open>The run\<close>

text \<open>
  While the entries \<open>done\<close> have been applied: their directories are real, the created ones among
  them new; in strict mode every path but the base was free at the start.
\<close>

definition run_inv :: "fsys \<Rightarrow> Generator \<Rightarrow> plannedEntry list \<Rightarrow> string list \<Rightarrow> fsys \<Rightarrow> bool" where
  "run_inv fs0 g done created fs \<longleftrightarrow> grown (nextino fs0) fs0 fs \<and>
     (\<forall>d \<in> set (names plannedEntryTypeDir done). phys fs (elems d)) \<and>
     (\<forall>d \<in> set created. clean_abs d \<and> new_at (nextino fs0) True fs (elems d)) \<and>
     (runMode g = RunModeStrict \<longrightarrow>
        (\<forall>e \<in> set done. pe_path e = basePath g \<or> lookup fs0 (elems (pe_path e)) = None))"

lemma entry_place:
  assumes "entry_ok base es e" and "clean_abs base" and "phys fs (butlast (elems base))"
    and "\<forall>d \<in> set (names plannedEntryTypeDir es). phys fs (elems d)"
  shows "clean_abs (pe_path e)" and "phys fs (butlast (elems (pe_path e)))"
proof -
  show c: "clean_abs (pe_path e)"
    using assms(1,2) by (auto simp: entry_ok_def Plan_Spec.below_def split: if_splits)
  show "phys fs (butlast (elems (pe_path e)))"
  proof (cases "es = []")
    case True
    then show ?thesis using assms(1,3) by (simp add: entry_ok_def)
  next
    case False
    then have "phys fs (elems (Dir (pe_path e)))" using assms(1,4) by (simp add: entry_ok_def)
    moreover have "\<forall>w \<in> set (butlast (elems (pe_path e))). elem_ok w" using elems_ok in_set_butlastD by fast
    ultimately show ?thesis by (simp add: Dir_clean_abs [OF c])
  qed
qed

lemma run_inv_step:
  assumes inv: "run_inv fs0 g es created fs" and fs0: "inodes_ok fs0" and base: "clean_abs base" "phys fs0 (butlast (elems base))"
    and e: "entry_ok base es e" and run: "applyPlannedEntry k seeded g e fs = (res, fs')"
  shows "grown (nextino fs0) fs0 fs'"
    and "res = Inr new \<Longrightarrow>
      run_inv fs0 g (es @ [e]) (if new \<and> pe_type e = plannedEntryTypeDir then pe_path e # created else created) fs'"
proof -
  have g: "grown (nextino fs0) fs0 fs" and dirs: "\<forall>d \<in> set (names plannedEntryTypeDir es). phys fs (elems d)"
    using inv by (simp_all add: run_inv_def)
  have ok: "inodes_ok fs" "nextino fs0 \<le> nextino fs" using grownD(4,5) [OF g] by simp_all
  note place = entry_place [OF e base(1) grown_phys [OF g fs0 base(2)] dirs]
  have cs: "pe_path e = abs_path (elems (pe_path e))" "\<forall>c \<in> set (elems (pe_path e)). elem_ok c"
    using abs_path_elems [OF place(1)] elems_ok by auto
  note keeps = apply_entry_keeps [OF cs place(2) ok run]
  show g': "grown (nextino fs0) fs0 fs'" using grown_trans [OF g keeps(1)] .
  assume r: "res = Inr new"
  have A: "phys fs' (elems d)" if "d \<in> set (names plannedEntryTypeDir (es @ [e]))" for d
  proof (cases "d \<in> set (names plannedEntryTypeDir es)")
    case True
    then show ?thesis using dirs grown_phys [OF keeps(1) ok(1)] by blast
  next
    case False
    then have d: "d = pe_path e" "pe_type e = plannedEntryTypeDir" using that by (auto simp: names_def split: if_splits)
    then have dir: "dir_at fs' (elems d)" using keeps(2) [OF r] by blast
    show ?thesis
    proof (cases "elems d = []")
      case True
      then show ?thesis using dir by (simp add: phys_iff)
    next
      case False
      then have "elems d = butlast (elems d) @ [last (elems d)]" by simp
      moreover have "phys fs' (butlast (elems d))" using grown_phys [OF keeps(1) ok(1) place(2)] d by simp
      ultimately show ?thesis using dir phys_snoc by metis
    qed
  qed
  have B: "clean_abs d \<and> new_at (nextino fs0) True fs' (elems d)"
    if "d \<in> set (if new \<and> pe_type e = plannedEntryTypeDir then pe_path e # created else created)" for d
  proof (cases "d \<in> set created")
    case True
    then show ?thesis using inv new_at_grown [OF _ keeps(1) ok(1)] by (auto simp: run_inv_def)
  next
    case False
    then show ?thesis using that keeps(2) [OF r] place(1) by (auto split: if_splits)
  qed
  have C: "pe_path x = basePath g \<or> lookup fs0 (elems (pe_path x)) = None"
    if "runMode g = RunModeStrict" "x \<in> set (es @ [e])" for x
  proof (cases "x = e")
    case True
    then show ?thesis using keeps(3) [OF r that(1)] grown_free [OF g, of "elems (pe_path e)"] by metis
  next
    case False
    then show ?thesis using that inv by (auto simp: run_inv_def)
  qed
  show "run_inv fs0 g (es @ [e]) (if new \<and> pe_type e = plannedEntryTypeDir then pe_path e # created else created) fs'"
    unfolding run_inv_def using A conjunct1 [OF B] conjunct2 [OF B] C by (intro conjI ballI impI g')
qed

lemma entries_ok_prefix:
  "entries_ok base es \<longleftrightarrow> (\<forall>i < length es. entry_ok base (take i es) (es ! i))"
  by (auto simp: entries_ok_def list_all_iff)

lemma create_entries_inv:
  assumes fs0: "inodes_ok fs0" and base: "clean_abs base" "phys fs0 (butlast (elems base))"
  shows "run_inv fs0 g done (createdDirs c) fs \<Longrightarrow> entries_ok base (done @ es) \<Longrightarrow>
    create_entries k seeded g i es c fs = ((res, c'), fs') \<Longrightarrow>
    grown (nextino fs0) fs0 fs' \<and> (res = None \<longrightarrow> run_inv fs0 g (done @ es) (createdDirs c') fs')"
proof (induction es arbitrary: "done" c fs i)
  case Nil
  then show ?case by (auto simp: run_inv_def)
next
  case (Cons e es)
  have e: "entry_ok base done e"
    using Cons.prems(2) unfolding entries_ok_prefix by (auto dest: spec [of _ "length done"])
  obtain f c1 where f: "ask_faults (int i) (plannedEntryTypeLabel (pe_type e)) (pe_path e) c = (f, c1)" by (meson prod.exhaust)
  then have c1: "createdDirs c1 = createdDirs c" by (auto simp: ask_faults_def split: prod.splits)
  show ?case
  proof (cases f)
    case (Some x)
    then show ?thesis using Cons.prems(1,3) f by (auto simp: run_inv_def)
  next
    case None
    obtain r fs1 where run: "applyPlannedEntry k seeded g e fs = (r, fs1)" by (meson prod.exhaust)
    note step = run_inv_step [OF Cons.prems(1) fs0 base e run]
    show ?thesis
    proof (cases r)
      case (Inl x)
      then show ?thesis using Cons.prems(3) f None run step(1) by auto
    next
      case (Inr new)
      have "run_inv fs0 g (done @ [e]) (createdDirs (count_applied e new c1)) fs1"
        using step(2) [OF Inr] by (simp add: count_applied_def c1 split del: if_split cong: if_cong)
      moreover have "entries_ok base ((done @ [e]) @ es)"
        "create_entries k seeded g (Suc i) es (count_applied e new c1) fs1 = ((res, c'), fs')"
        using Cons.prems(2,3) f None run Inr by simp_all
      ultimately show ?thesis using Cons.IH [of "done @ [e]"] by (metis append_Cons append_Nil append_assoc)
    qed
  qed
qed

lemma finalize_inv:
  assumes fs0: "inodes_ok fs0"
  shows "grown (nextino fs0) fs0 fs \<Longrightarrow>
    (\<forall>d \<in> set (createdDirs c). clean_abs d \<and> new_at (nextino fs0) True fs (elems d)) \<Longrightarrow>
    grown (nextino fs0) fs0 (snd (finalize_dirs k n es c fs))"
proof (induction k n es c fs rule: finalize_dirs.induct)
  case (2 k n i e rest c fs)
  show ?case
  proof (cases "pe_type e \<noteq> plannedEntryTypeDir \<or> pe_path e \<notin> set (createdDirs c)")
    case True
    then show ?thesis using 2(1,2,4,5) by auto
  next
    case False
    then have h: "pe_type e = plannedEntryTypeDir" "pe_path e \<in> set (createdDirs c)" by auto
    have ok: "inodes_ok fs" "nextino fs0 \<le> nextino fs" using grownD(4,5) [OF 2(4)] by simp_all
    obtain f c1 where f: "ask_faults (n + int i) ''finalize-directory-metadata'' (pe_path e) c = (f, c1)" by (meson prod.exhaust)
    then have c1: "createdDirs c1 = createdDirs c" by (auto simp: ask_faults_def split: prod.splits)
    have new: "new_at (nextino fs0) True fs (elems (pe_path e))" and c: "clean_abs (pe_path e)" using 2(5) h by auto
    obtain r fs1 where m: "applyMetadata k (pe_path e) (pe_mode e) (pe_metadata e) fs = (r, fs1)" by (meson prod.exhaust)
    then have g1: "grown (nextino fs0) fs fs1"
      using mon_applyMetadata [OF new, of k "pe_mode e" "pe_metadata e"] ok abs_path_elems [OF c] by (simp add: mon_def)
    have keep: "\<forall>d \<in> set (createdDirs c1). clean_abs d \<and> new_at (nextino fs0) True fs1 (elems d)"
      using 2(5) c1 new_at_grown [OF _ g1 ok(1)] by auto
    show ?thesis
    proof (cases f)
      case (Some x)
      then show ?thesis using h f 2(4) by simp
    next
      case None
      show ?thesis
      proof (cases r)
        case (Inl x)
        then show ?thesis using h f None m grown_trans [OF 2(4) g1] by simp
      next
        case (Inr u)
        let ?c = "c1\<lparr>stats := (stats c1)\<lparr>finalizedDirectories := wrap64 (finalizedDirectories (stats c1) + 1)\<rparr>\<rparr>"
        have "grown (nextino fs0) fs0 (snd (finalize_dirs k n rest ?c fs1))"
          by (rule 2(3)) (use h f None m Inr grown_trans [OF 2(4) g1] keep in simp_all)
        then show ?thesis using h f None m Inr by simp
      qed
    qed
  qed
qed simp

lemma clear_base_keep:
  "runMode g = RunModeAppend \<or> runMode g = RunModeStrict \<Longrightarrow> clear_base k g fs = (Inr (), fs)"
  by (auto simp: clear_base_def returnS_def)

lemma applyRunPlan_grown:
  assumes mode: "runMode g = RunModeAppend \<or> runMode g = RunModeStrict"
    and base: "clean_abs (basePath g)" "phys fs (butlast (elems (basePath g)))"
    and fs: "inodes_ok fs" and plan: "entries_ok (basePath g) (entries plan)"
    and run: "applyRunPlan k seeded g plan ctx fs = ((st, res), fs')"
  shows "grown (nextino fs) fs fs'"
    and "runMode g = RunModeStrict \<Longrightarrow> res = None \<Longrightarrow> e \<in> set (entries plan) \<Longrightarrow>
      pe_path e = basePath g \<or> lookup fs (elems (pe_path e)) = None"
proof -
  let ?c = "\<lparr>stats = \<lparr>appliedEntries = 0, finalizedDirectories = 0\<rparr>, createdDirs = [], execCtx = ctx\<rparr>"
  obtain r c fs1 where create: "create_entries k seeded g 0 (entries plan) ?c fs = ((r, c), fs1)"
    by (metis prod.exhaust)
  have "run_inv fs g [] (createdDirs ?c) fs" using fs by (simp add: run_inv_def names_def)
  from create_entries_inv [OF fs base this _ create] plan
  have inv: "grown (nextino fs) fs fs1" "r = None \<longrightarrow> run_inv fs g (entries plan) (createdDirs c) fs1" by simp_all
  have "grown (nextino fs) fs fs' \<and>
    (runMode g = RunModeStrict \<longrightarrow> res = None \<longrightarrow> e \<in> set (entries plan) \<longrightarrow>
      pe_path e = basePath g \<or> lookup fs (elems (pe_path e)) = None)"
  proof (cases r)
    case (Some x)
    then show ?thesis
      using run create inv(1) clear_base_keep [OF mode] by (auto simp: applyRunPlan_def Let_def)
  next
    case None
    then have inv': "run_inv fs g (entries plan) (createdDirs c) fs1" using inv(2) by simp
    let ?n = "int (length (entries plan))" and ?es = "rev (zip [0..<length (entries plan)] (entries plan))"
    obtain r' c' fs2 where fin: "finalize_dirs k ?n ?es c fs1 = ((r', c'), fs2)" by (metis prod.exhaust)
    have "grown (nextino fs) fs fs2"
      using finalize_inv [OF fs inv(1), of c k ?n ?es] inv' fin by (auto simp: run_inv_def)
    moreover have "fs' = fs2" "res = r'"
      using run create fin None clear_base_keep [OF mode] by (simp_all add: applyRunPlan_def Let_def)
    moreover have "runMode g = RunModeStrict \<longrightarrow> (\<forall>e \<in> set (entries plan). pe_path e = basePath g \<or> lookup fs (elems (pe_path e)) = None)"
      using inv' unfolding run_inv_def by (elim conjE) assumption
    ultimately show ?thesis by simp
  qed
  then show "grown (nextino fs) fs fs'"
    and "runMode g = RunModeStrict \<Longrightarrow> res = None \<Longrightarrow> e \<in> set (entries plan) \<Longrightarrow>
      pe_path e = basePath g \<or> lookup fs (elems (pe_path e)) = None" by simp_all
qed

lemma grown_lookup:
  assumes "grown (nextino fs) fs fs'" and "inodes_ok fs" and "x \<in> set (ents fs)"
  shows "map_of (ents fs') (fst x) = map_of (ents fs) (fst x) \<and> lookup fs' (fst x) = lookup fs (fst x)"
proof -
  obtain i where i: "map_of (ents fs) (fst x) = Some i" using assms(3) by (metis map_of_eq_None_iff image_eqI not_None_eq)
  then have "map_of (ents fs') (fst x) = Some i" "inos fs' i = inos fs i"
    using grownD(1,2) [OF assms(1)] inodes_ok_lookup [OF assms(2)] by blast+
  then show ?thesis using i by (simp add: lookup_def)
qed

text \<open>
  In append and in strict mode a run never touches what exists. For every plan that can be
  created in its order, every kernel with whatever it refuses, every fault profile, and whether
  the run succeeds or stops half-way: each entry of the file system is still there and names the
  same inode, with the same content, mode, owner and attributes. A strict run that succeeds
  found every path of its plan but the base free.
\<close>

theorem applyRunPlan_keeps_existing:
  assumes "runMode g = RunModeAppend \<or> runMode g = RunModeStrict"
    and "clean_abs (basePath g)" and "phys fs (butlast (elems (basePath g)))" and "inodes_ok fs"
    and "entries_ok (basePath g) (entries plan)"
    and "applyRunPlan k seeded g plan ctx fs = ((st, res), fs')"
  shows "list_all (\<lambda>x. map_of (ents fs') (fst x) = map_of (ents fs) (fst x) \<and> lookup fs' (fst x) = lookup fs (fst x)) (ents fs)
    \<and> (runMode g = RunModeStrict \<and> res = None \<longrightarrow>
        list_all (\<lambda>e. pe_path e = basePath g \<or> lookup fs (elems (pe_path e)) = None) (entries plan))"
proof
  note g = applyRunPlan_grown [OF assms]
  show "list_all (\<lambda>x. map_of (ents fs') (fst x) = map_of (ents fs) (fst x) \<and> lookup fs' (fst x) = lookup fs (fst x)) (ents fs)"
    using grown_lookup [OF g(1) assms(4)] by (simp add: list_all_iff)
  show "runMode g = RunModeStrict \<and> res = None \<longrightarrow>
      list_all (\<lambda>e. pe_path e = basePath g \<or> lookup fs (elems (pe_path e)) = None) (entries plan)"
    using g(2) by (auto simp: list_all_iff)
qed

text \<open>A plan for the base \<open>/b\<close> of the sample: the file and a directory in it are new.\<close>

definition sample_entries :: "plannedEntry list" where
  "sample_entries =
     [(entry0 plannedEntryTypeDir ''/b'')\<lparr>pe_mode := 0x1FF\<rparr>,
      (entry0 plannedEntryTypeFile ''/b/f'')\<lparr>pe_data := [7]\<rparr>,
      (entry0 plannedEntryTypeDir ''/b/d'')\<lparr>pe_mode := 0x1C0\<rparr>,
      (entry0 plannedEntryTypeFile ''/b/d/g'')\<lparr>pe_mode := 0x180, pe_data := [7, 8]\<rparr>]"

definition sample_run_plan :: runPlan where
  "sample_run_plan = \<lparr>entries = sample_entries, planGroups = [], planMetrics = \<lparr>pathRetries = 0, pathCollisions = 0\<rparr>\<rparr>"

definition sample_run :: "(applyStats \<times> applyCause option) \<times> fsys" where
  "sample_run = applyRunPlan sample_kernel (\<lambda>s. []) (New ''/b'') sample_run_plan \<lparr>injector = None\<rparr> sample_fs"

lemma sample_run_creates:
  "fst (fst sample_run) = \<lparr>appliedEntries = 4, finalizedDirectories = 1\<rparr> \<and> snd (fst sample_run) = None \<and>
     map_option node (lookup (snd sample_run) [''b'', ''d'', ''g'']) = Some (NFile [7, 8])"
  by code_simp

theorem applyRunPlan_keeps_existing_witness:
  "snd (fst sample_run) = None \<and>
     list_all (\<lambda>x. lookup (snd sample_run) (fst x) = lookup sample_fs (fst x)) (ents sample_fs)"
proof -
  obtain st res fs' where run: "applyRunPlan sample_kernel (\<lambda>s. []) (New ''/b'') sample_run_plan \<lparr>injector = None\<rparr> sample_fs
      = ((st, res), fs')" by (metis prod.exhaust)
  have "runMode (New ''/b'') = RunModeAppend" "basePath (New ''/b'') = ''/b''" by (simp_all add: New_def)
  moreover have "clean_abs ''/b''" "phys sample_fs (butlast (elems ''/b''))" "inodes_ok sample_fs"
    "entries_ok ''/b'' (entries sample_run_plan)" by code_simp+
  ultimately have "list_all (\<lambda>x. map_of (ents fs') (fst x) = map_of (ents sample_fs) (fst x) \<and>
      lookup fs' (fst x) = lookup sample_fs (fst x)) (ents sample_fs)"
    using applyRunPlan_keeps_existing [OF _ _ _ _ _ run] by simp
  moreover have "snd sample_run = fs'" by (simp add: sample_run_def run)
  ultimately show ?thesis using sample_run_creates by (simp add: list_all_iff)
qed

end
