(* ===== verification/Apply_Total.thy ===== *)
theory Apply_Total
  imports Apply_Safe Executor_Replay
begin

text \<open>
  A run on a permissive kernel builds its plan: below the base there are the planned
  paths and nothing else, each with the inode \<open>entry_inode\<close> says and the times of its metadata, the
  directories too, although creating their children moved their times on. The mode of an inode is
  what the calls of the code make of the planned one: \<open>permission_bits_only\<close> states that this is its
  nine permission bits, the special bits being lost. The inodes are
  numbered in the order of the entries that are no hard links.
\<close>

section \<open>What an entry becomes\<close>

definition planned_xattrs :: "8 word list gomap \<Rightarrow> (string \<times> 8 word list) list \<Rightarrow> (string \<times> 8 word list) list" where
  "planned_xattrs xs old =
     fold (\<lambda>name. AList.update name (case map_of xs name of None \<Rightarrow> [] | Some v \<Rightarrow> v)) (sort_strings (keys xs)) old"

definition owned :: "metadataConfig \<Rightarrow> inode \<Rightarrow> inode" where
  "owned md i =
     (if hasOwnership md then i\<lparr>iuid := chown_id (md_uid md) (iuid i), igid := chown_id (md_gid md) (igid i)\<rparr> else i)"

definition meta_inode :: "32 word \<Rightarrow> metadataConfig \<Rightarrow> inode \<Rightarrow> inode" where
  "meta_inode mode md i =
     (let j = (owned md i)\<lparr>imode := syscallMode mode\<rparr> in
      if hasXAttrs md then j\<lparr>ixattrs := planned_xattrs (md_xattrs md) (ixattrs j)\<rparr> else j)"

definition new_inode :: "kernel \<Rightarrow> fnode \<Rightarrow> 32 word \<Rightarrow> inode" where
  "new_inode k n mode = \<lparr>node = n, imode = mode, iuid = kuid k, igid = kgid k, ixattrs = []\<rparr>"

definition special_node :: "plannedEntry \<Rightarrow> specialNode" where
  "special_node e =
     (let dev = unat (Mkdev (word_of_int (pe_major e)) (word_of_int (pe_minor e))) in
      case pe_special e of
        SpecialFileTypeSocket \<Rightarrow> NodeSocket
      | SpecialFileTypeCharDevice \<Rightarrow> NodeChar dev
      | SpecialFileTypeBlockDevice \<Rightarrow> NodeBlock dev
      | _ \<Rightarrow> NodeFifo)"

definition planned_data :: "(int \<Rightarrow> rng) \<Rightarrow> plannedEntry \<Rightarrow> err + 8 word list" where
  "planned_data seeded e =
     (if pc_pattern (pe_content e) \<noteq> ContentPatternUnknown 0
      then planned_bytes maxFileSize seeded (pe_content e) else Inr (pe_data e))"

definition entry_node :: "(int \<Rightarrow> rng) \<Rightarrow> plannedEntry \<Rightarrow> fnode" where
  "entry_node seeded e =
     (case pe_type e of
        plannedEntryTypeDir \<Rightarrow> NDir
      | plannedEntryTypeSymlink \<Rightarrow> NLink (pe_linkTarget e)
      | plannedEntryTypeSpecial \<Rightarrow> NSpecial (special_node e)
      | _ \<Rightarrow> NFile (case planned_data seeded e of Inl _ \<Rightarrow> [] | Inr d \<Rightarrow> d))"

definition entry_inode :: "kernel \<Rightarrow> (int \<Rightarrow> rng) \<Rightarrow> plannedEntry \<Rightarrow> inode" where
  "entry_inode k seeded e =
     (let i = new_inode k (entry_node seeded e) 0x1FF in
      if pe_type e = plannedEntryTypeSymlink then owned (pe_metadata e) i
      else meta_inode (pe_mode e) (pe_metadata e) i)"

definition entry_stamp :: "plannedEntry \<Rightarrow> (int \<times> int) option" where
  "entry_stamp e =
     (let md = pe_metadata e in if hasTimestamps md then Some (md_atime md, md_mtime md) else None)"

text \<open>
  What applying an entry needs: the file system can represent it. ACLs are left out here, since
  the kernel derives mode bits from them.
\<close>

definition meta_ready :: "metadataConfig \<Rightarrow> bool" where
  "meta_ready md \<longleftrightarrow> (hasOwnership md \<longrightarrow> 0 \<le> md_uid md \<and> 0 \<le> md_gid md) \<and> \<not> hasACL md \<and>
     (hasXAttrs md \<longrightarrow> list_all (\<lambda>n. validateXAttrName n = Inr n) (keys (md_xattrs md)))"

definition entry_ready :: "(int \<Rightarrow> rng) \<Rightarrow> plannedEntry \<Rightarrow> bool" where
  "entry_ready seeded e \<longleftrightarrow> \<not> Contains (pe_path e) NUL \<and> meta_ready (pe_metadata e) \<and>
     (case pe_type e of
        plannedEntryTypeFile \<Rightarrow>
          (case planned_data seeded e of Inl _ \<Rightarrow> False | Inr d \<Rightarrow> int (length d) \<le> maxFileSize)
      | plannedEntryTypeSymlink \<Rightarrow> \<not> Contains (pe_linkTarget e) NUL
      | plannedEntryTypeSpecial \<Rightarrow> \<not> hasXAttrs (pe_metadata e)
      | _ \<Rightarrow> True)"

section \<open>Metadata\<close>

text \<open>A place the calls of a permissive kernel find.\<close>

definition place_at :: "fsys \<Rightarrow> string list \<Rightarrow> nat \<Rightarrow> bool" where
  "place_at fs cs i \<longleftrightarrow> (\<forall>c \<in> set cs. elem_ok c) \<and> \<not> Contains (abs_path cs) NUL \<and> phys fs (butlast cs) \<and>
     map_of (ents fs) cs = Some i"

definition set_ino :: "nat \<Rightarrow> inode \<Rightarrow> fsys \<Rightarrow> fsys" where
  "set_ino i j fs = fs\<lparr>inos := (inos fs)(i := j)\<rparr>"

definition stamp_ino :: "nat \<Rightarrow> (int \<times> int) option \<Rightarrow> fsys \<Rightarrow> fsys" where
  "stamp_ino i t fs = fs\<lparr>stamps := (stamps fs)(i := t)\<rparr>"

lemma set_ino_simps [simp]:
  "ents (set_ino i j fs) = ents fs" "nextino (set_ino i j fs) = nextino fs"
  "inos (set_ino i j fs) = (inos fs)(i := j)" "stamps (set_ino i j fs) = stamps fs"
  "set_ino i j' (set_ino i j fs) = set_ino i j' fs"
  by (simp_all add: set_ino_def)

lemma stamp_ino_simps [simp]:
  "ents (stamp_ino i t fs) = ents fs" "nextino (stamp_ino i t fs) = nextino fs"
  "inos (stamp_ino i t fs) = inos fs" "stamps (stamp_ino i t fs) = (stamps fs)(i := t)"
  "set_ino i' j (stamp_ino i t fs) = stamp_ino i t (set_ino i' j fs)"
  by (simp_all add: stamp_ino_def set_ino_def)

lemma dir_at_set_ino: "(node j = NDir) = (node (inos fs i) = NDir) \<Longrightarrow> dir_at (set_ino i j fs) = dir_at fs"
  by (rule ext) (auto simp: dir_at_ents)

lemma IsSymlink_iff: "IsSymlink i \<longleftrightarrow> (\<exists>t. node i = NLink t)"
  by (cases "node i") (simp_all add: IsSymlink_def)

lemma dir_at_stamp [simp]: "dir_at (stamp_ino i t fs) = dir_at fs"
  by (rule ext) (auto simp: dir_at_lookup lookup_def)

lemma place_at_set: "node j = node (inos fs i) \<Longrightarrow> place_at (set_ino i j fs) cs i' = place_at fs cs i'"
  by (simp add: place_at_def phys_iff dir_at_set_ino)

lemma place_at_stamp [simp]: "place_at (stamp_ino i t fs) cs i' = place_at fs cs i'"
  by (simp add: place_at_def phys_iff)

lemma place_resolve:
  assumes "place_at fs cs i" and "follow \<Longrightarrow> \<not> IsSymlink (inos fs i)"
  shows "resolve k fs follow (abs_path cs) = Inr cs"
proof -
  have "follow \<Longrightarrow> \<forall>j t. lookup fs cs = Some j \<longrightarrow> node j \<noteq> NLink t"
    using assms by (auto simp: place_at_def lookup_def IsSymlink_iff)
  then show ?thesis
    using resolve_phys [of cs fs follow k] assms(1) by (auto simp: place_at_def phys_root)
qed

lemma inode_call:
  assumes "permissive k" and "place_at fs cs i" and "follow \<Longrightarrow> \<not> IsSymlink (inos fs i)"
    and "f (inos fs i) = Inr j"
  shows "os_call k name follow (abs_path cs) (\<lambda>q. with_inode q f) fs = (Inr (), set_ino i j fs)"
proof -
  have "resolve k fs follow (abs_path cs) = Inr cs" using assms(2,3) by (rule place_resolve)
  then show ?thesis
    using assms(1,2,4) by (simp add: run_call with_inode_def lookup_def upd_inode_def place_at_def set_ino_def)
qed

lemma ownership_ok:
  assumes "permissive k" and "place_at fs cs i" and "meta_ready md"
  shows "apply_ownership k (abs_path cs) md fs = (Inr (), set_ino i (owned md (inos fs i)) fs)"
  using inode_call [OF assms(1,2), of False] assms(3)
  by (auto simp: apply_ownership_def owned_def meta_ready_def os_Lchown_def map_errS_def returnS_def set_ino_def)

definition stamped :: "metadataConfig \<Rightarrow> nat \<Rightarrow> fsys \<Rightarrow> fsys" where
  "stamped md i fs = (if hasTimestamps md then stamp_ino i (Some (md_atime md, md_mtime md)) fs else fs)"

lemma times_ok:
  assumes "permissive k" and "place_at fs cs i"
  shows "apply_times k (abs_path cs) md fs = (Inr (), stamped md i fs)"
proof -
  have "resolve k fs False (abs_path cs) = Inr cs" by (rule place_resolve [OF assms(2)]) simp
  then show ?thesis
    using assms by (simp add: apply_times_def stamped_def UtimesNanoAt_def run_call run_wrap place_at_def
        stamp_ino_def returnS_def)
qed

lemma set_xattrs_ok:
  assumes "permissive k"
  shows "place_at fs cs i \<Longrightarrow> IsRegular (inos fs i) \<or> IsDir (inos fs i) \<Longrightarrow>
    list_all (\<lambda>n. validateXAttrName n = Inr n) ns \<Longrightarrow>
    set_xattrs k (abs_path cs) xs ns fs = (Inr (), set_ino i ((inos fs i)\<lparr>ixattrs :=
      fold (\<lambda>name. AList.update name (case map_of xs name of None \<Rightarrow> [] | Some v \<Rightarrow> v)) ns (ixattrs (inos fs i))\<rparr>) fs)"
proof (induction ns arbitrary: fs)
  case Nil
  then show ?case by (simp add: returnS_def set_ino_def)
next
  case (Cons n ns)
  let ?v = "case map_of xs n of None \<Rightarrow> [] | Some v \<Rightarrow> v"
  let ?j = "(inos fs i)\<lparr>ixattrs := AList.update n ?v (ixattrs (inos fs i))\<rparr>"
  have set: "setPathXAttr k (abs_path cs) n ?v fs = (Inr (), set_ino i ?j fs)"
    using inode_call [OF assms Cons.prems(1), of False] Cons.prems(2,3)
    by (auto simp: setPathXAttr_def run_lift map_errS_def Lsetxattr_def)
  have "set_xattrs k (abs_path cs) xs ns (set_ino i ?j fs) =
      (Inr (), set_ino i ((inos (set_ino i ?j fs) i)\<lparr>ixattrs :=
        fold (\<lambda>name. AList.update name (case map_of xs name of None \<Rightarrow> [] | Some v \<Rightarrow> v)) ns
          (ixattrs (inos (set_ino i ?j fs) i))\<rparr>) (set_ino i ?j fs))"
    by (rule Cons.IH) (use Cons.prems in \<open>simp_all add: place_at_set IsRegular_def IsDir_def\<close>)
  then show ?case using set by (simp add: run_bind)
qed

lemma owned_node [simp]: "node (owned md i) = node i" "ixattrs (owned md i) = ixattrs i"
  by (simp_all add: owned_def)

lemma applyMetadata_ok:
  assumes "permissive k" and "place_at fs cs i" and "meta_ready md" and "\<not> IsSymlink (inos fs i)"
    and "hasXAttrs md \<Longrightarrow> IsRegular (inos fs i) \<or> IsDir (inos fs i)"
  shows "applyMetadata k (abs_path cs) mode md fs =
    (Inr (), stamped md i (set_ino i (meta_inode mode md (inos fs i)) fs))"
proof -
  let ?i1 = "owned md (inos fs i)"
  let ?i2 = "?i1\<lparr>imode := syscallMode mode\<rparr>"
  let ?fs1 = "set_ino i ?i1 fs" and ?fs2 = "set_ino i ?i2 fs"
  let ?fs3 = "stamped md i ?fs2"
  have p1: "place_at ?fs1 cs i" and p2: "place_at ?fs2 cs i" using assms(2) by (simp_all add: place_at_set)
  then have p3: "place_at ?fs3 cs i" by (simp add: stamped_def)
  have chmod: "os_Chmod k (abs_path cs) mode ?fs1 = (Inr (), ?fs2)"
    unfolding os_Chmod_def using inode_call [OF assms(1) p1, of True] assms(4) by (simp add: IsSymlink_def)
  have i3: "inos ?fs3 i = ?i2" by (simp add: stamped_def)
  have "(if hasXAttrs md then applyXAttrs k (abs_path cs) (md_xattrs md) else returnS ()) ?fs3 =
      (Inr (), stamped md i (set_ino i (meta_inode mode md (inos fs i)) fs))"
  proof (cases "hasXAttrs md")
    case True
    have "applyXAttrs k (abs_path cs) (md_xattrs md) ?fs3 =
        (Inr (), set_ino i ((inos ?fs3 i)\<lparr>ixattrs := planned_xattrs (md_xattrs md) (ixattrs (inos ?fs3 i))\<rparr>) ?fs3)"
      unfolding applyXAttrs_def planned_xattrs_def
      by (rule set_xattrs_ok [OF assms(1) p3])
        (use assms(3,5) True in \<open>auto simp: i3 IsRegular_def IsDir_def meta_ready_def list_all_iff\<close>)
    then show ?thesis using True by (simp add: i3 meta_inode_def Let_def stamped_def)
  qed (simp add: meta_inode_def Let_def returnS_def)
  then show ?thesis
    using ownership_ok [OF assms(1-3)] run_wrap [of "os_Chmod k (abs_path cs) mode", OF chmod] times_ok [OF assms(1) p2, of md] assms(3)
    by (simp add: applyMetadata_def run_bind meta_ready_def returnS_def)
qed

section \<open>Creating an entry\<close>

definition plus :: "kernel \<Rightarrow> string list \<Rightarrow> fnode \<Rightarrow> 32 word \<Rightarrow> fsys \<Rightarrow> fsys" where
  "plus k cs nd mode fs = touch_at (butlast cs) (add_entry k cs nd mode fs)"

lemma plus_simps [simp]:
  "ents (plus k cs nd mode fs) = (cs, nextino fs) # ents fs" "nextino (plus k cs nd mode fs) = Suc (nextino fs)"
  "inos (plus k cs nd mode fs) = (inos fs)(nextino fs := new_inode k nd mode)"
  by (simp_all add: plus_def add_entry_def new_inode_def)

lemma new_inode_simps [simp]:
  "(new_inode k nd mode)\<lparr>node := nd'\<rparr> = new_inode k nd' mode" "node (new_inode k nd mode) = nd"
  by (simp_all add: new_inode_def)

lemma meta_new: "meta_inode mode md (new_inode k nd m) = meta_inode mode md (new_inode k nd m')"
  by (simp add: meta_inode_def owned_def new_inode_def Let_def)

definition vacant :: "fsys \<Rightarrow> string list \<Rightarrow> bool" where
  "vacant fs cs \<longleftrightarrow> free_at fs cs \<and> \<not> Contains (abs_path cs) NUL \<and> inodes_ok fs"

lemma vacant_resolve: "vacant fs cs \<Longrightarrow> resolve k fs follow (abs_path cs) = Inr cs"
  using resolve_phys [of cs fs follow k] by (auto simp: vacant_def free_at_def phys_root)

lemma vacant_plus: "vacant fs cs \<Longrightarrow> place_at (plus k cs nd mode fs) cs (nextino fs)"
  using add_entry_new_at [of fs cs 0 False nd k mode]
  by (auto simp: place_at_def new_at_def vacant_def free_at_def plus_def add_entry_def phys_iff)

text \<open>Of the inodes there were, only the times of directories may have moved on.\<close>

definition quiet :: "fsys \<Rightarrow> fsys \<Rightarrow> bool" where
  "quiet fs fs' \<longleftrightarrow> (\<forall>i < nextino fs. stamps fs' i = stamps fs i \<or> node (inos fs i) = NDir \<and> stamps fs' i = None)"

lemma quiet_touch:
  assumes "dir_at fs q" and "map_of (ents fs') q = map_of (ents fs) q" and "quiet fs fs'"
  shows "quiet fs (touch_at q fs')"
  using assms by (auto simp: quiet_def touch_at_def dir_at_ents split: if_splits)

lemma vacant_butlast: "vacant fs cs \<Longrightarrow> dir_at fs (butlast cs) \<and> butlast cs \<noteq> cs"
  using free_at_nonempty [of fs cs] phys_dir [of fs "butlast cs"]
  by (metis append_butlast_last_id append_self_conv free_at_def not_Cons_self2 vacant_def)

lemma vacant_quiet: "vacant fs cs \<Longrightarrow> quiet fs (plus k cs nd mode fs)"
  unfolding plus_def using vacant_butlast [of fs cs]
  by (intro quiet_touch) (auto simp: add_entry_def quiet_def)

lemma vacant_create:
  assumes "permissive k" and "vacant fs cs"
  shows "os_call k name follow (abs_path cs) (\<lambda>q. create_at k q nd mode) fs = (Inr (), plus k cs nd mode fs)"
  using assms vacant_resolve [OF assms(2)] by (simp add: run_call create_at_def plus_def vacant_def free_at_def)

lemma touch_at_place: "map_of (ents fs) cs = Some i \<Longrightarrow> touch_at cs fs = stamp_ino i None fs"
  by (simp add: touch_at_def stamp_ino_def)

lemma write_place:
  assumes "permissive k" and "map_of (ents fs) cs = Some i" and "node (inos fs i) = NFile old"
    and "f old = Inr new" and "int (length new) \<le> maxFileSize"
  shows "write_handle k cs f len fs =
    (Inr (int len), stamp_ino i None (set_ino i ((inos fs i)\<lparr>node := NFile new\<rparr>) fs))"
  using write_handle_ok [where f = f and old = old and new = new, OF assms, of len] assms(2)
  by (simp add: touch_at_place set_ino_def)

text \<open>The file with its data, before its metadata.\<close>

definition plus_file :: "kernel \<Rightarrow> string list \<Rightarrow> 8 word list \<Rightarrow> 32 word \<Rightarrow> fsys \<Rightarrow> fsys" where
  "plus_file k cs d mode fs =
     stamp_ino (nextino fs) None (set_ino (nextino fs) (new_inode k (NFile d) mode) (plus k cs (NFile []) mode fs))"

lemma vacant_open:
  "vacant fs cs \<Longrightarrow> open_create k cs mode fs = (Inr (), plus k cs (NFile []) (and (syscallMode mode) (not (umask k))) fs)"
  by (simp add: open_create_def plus_def vacant_def free_at_def)

lemma vacant_WriteFile:
  assumes "permissive k" and "vacant fs cs" and "int (length d) \<le> maxFileSize"
  shows "os_WriteFile k (abs_path cs) d mode fs = (Inr (), plus_file k cs d (and (syscallMode mode) (not (umask k))) fs)"
proof -
  let ?fs = "plus k cs (NFile []) (and (syscallMode mode) (not (umask k))) fs"
  have "fd_WriteAt k cs d 0 ?fs =
      (Inr (int (length d)), stamp_ino (nextino fs) None (set_ino (nextino fs) ((inos ?fs (nextino fs))\<lparr>node := NFile d\<rparr>) ?fs))"
    unfolding fd_WriteAt_def
    by (rule write_place [OF assms(1), where old = "[]"]) (use assms(3) in \<open>simp_all add: WriteAt_def\<close>)
  then show ?thesis
    using assms(1) vacant_resolve [OF assms(2)] vacant_open [OF assms(2)]
    by (simp add: os_WriteFile_def run_call run_bind plus_file_def)
qed

text \<open>
  \<open>lifts f m m'\<close>: what \<open>m\<close> does to the image under \<open>f\<close> of a state is what \<open>m'\<close> does to the state.
  The calls of a permissive kernel on a file are those on its bytes alone, so what the writer
  does to the file is what it does to a file in memory.
\<close>

definition lifts :: "('t \<Rightarrow> 's) \<Rightarrow> ('s, 'a) sem \<Rightarrow> ('t, 'a) sem \<Rightarrow> bool" where
  "lifts f m m' \<longleftrightarrow> (\<forall>t. m (f t) = (fst (m' t), f (snd (m' t))))"

lemma lifts_bind: "lifts f m m' \<Longrightarrow> (\<And>x. lifts f (g x) (g' x)) \<Longrightarrow> lifts f (bindS m g) (bindS m' g')"
  by (auto simp: lifts_def bindS_def split: prod.split sum.split)

lemma lifts_pure: "lifts f (returnS x) (returnS x)" "lifts f (raiseS e) (raiseS e)"
  by (simp_all add: lifts_def returnS_def raiseS_def)

lemma lifts_wrap: "lifts f m m' \<Longrightarrow> lifts f (wrapS msg m) (wrapS msg m')"
  by (simp add: lifts_def wrapS_def split_beta)

lemma lifts_defer: "lifts f c c' \<Longrightarrow> lifts f m m' \<Longrightarrow> lifts f (deferS c m) (deferS c' m')"
  by (simp add: lifts_def deferS_def split_beta)

lemma lifts_if: "(b \<Longrightarrow> lifts f m m') \<Longrightarrow> (\<not> b \<Longrightarrow> lifts f n n') \<Longrightarrow> lifts f (if b then m else n) (if b then m' else n')"
  by simp

definition lifts_writer :: "('t \<Rightarrow> 's) \<Rightarrow> 's writer \<Rightarrow> 't writer \<Rightarrow> bool" where
  "lifts_writer f wr wr' \<longleftrightarrow> (\<forall>d off. lifts f (wr d off) (wr' d off))"

lemma lifts_chunk: "lifts_writer f wr wr' \<Longrightarrow> lifts f (write_chunk msg wr d off) (write_chunk msg wr' d off)"
  unfolding write_chunk_def lifts_writer_def by (intro lifts_bind lifts_wrap lifts_if lifts_pure) blast

lemma lifts_random_loop:
  assumes "lifts_writer f wr wr'"
  shows "lifts f (write_random_loop wr buf off len position r) (write_random_loop wr' buf off len position r)"
  using assms
proof (induction wr buf off len position r rule: write_random_loop.induct)
  case (1 wr buf off len position r)
  show ?case
  proof (cases "position < len")
    case False
    then show ?thesis
      by (subst write_random_loop.simps, subst write_random_loop.simps [of wr']) (simp add: lifts_pure)
  next
    case True
    obtain chunk r' where rd: "Read_bytes (nat (minInt64 (len - position) (int (Suc buf)))) r = (chunk, r')"
      by (meson prod.exhaust)
    show ?thesis
      unfolding write_random_loop.simps [of wr buf off len position]
        write_random_loop.simps [of wr' buf off len position] if_P [OF True] Let_def rd prod.case
      by (rule lifts_bind [OF lifts_chunk [OF 1(2)]]) (rule 1(1) [OF True refl rd [symmetric] 1(2)])
  qed
qed

lemma lifts_random:
  "lifts_writer f wr wr' \<Longrightarrow>
     lifts f (writeRandomContentAt wr seeded off len seed) (writeRandomContentAt wr' seeded off len seed)"
  unfolding writeRandomContentAt_def by (intro lifts_if lifts_pure lifts_random_loop)

lemma lifts_repeated_loop:
  assumes "lifts_writer f wr wr'"
  shows "lifts f (write_repeated_loop wr chunk n off) (write_repeated_loop wr' chunk n off)"
  using assms
proof (induction wr chunk n off rule: write_repeated_loop.induct)
  case (1 wr chunk n off)
  show ?case
  proof (cases "off < n \<and> chunk \<noteq> []")
    case False
    show ?thesis
      unfolding write_repeated_loop.simps [of wr chunk n off]
        write_repeated_loop.simps [of wr' chunk n off] if_not_P [OF False] by (rule lifts_pure)
  next
    case True
    show ?thesis
      unfolding write_repeated_loop.simps [of wr chunk n off]
        write_repeated_loop.simps [of wr' chunk n off] if_P [OF True] Let_def
      by (rule lifts_bind [OF lifts_chunk [OF 1(2)]]) (rule 1(1) [OF True refl 1(2)])
  qed
qed

lemma lifts_extents: "lifts_writer f wr wr' \<Longrightarrow> lifts f (write_extents wr seeded xs) (write_extents wr' seeded xs)"
  by (induction xs) (auto intro: lifts_pure lifts_bind lifts_random)

lemma lifts_pattern: "lifts_writer f wr wr' \<Longrightarrow> lifts f (write_pattern wr seeded c) (write_pattern wr' seeded c)"
  unfolding write_pattern_def writeRepeatedContent_def
  by (cases "pc_pattern c") (simp_all add: lifts_random lifts_extents lifts_bind lifts_pure lifts_repeated_loop)

lemma lifts_content:
  assumes "lifts_writer f (fc_WriteAt io h) (fc_WriteAt mem g)"
    and "\<And>n. lifts f (fc_Truncate io h n) (fc_Truncate mem g n)" and "lifts f (fc_Close io h) (fc_Close mem g)"
    and "fc_OpenFile io path (and mode 0x1FF) s = (Inr h, f t)"
    and "fc_OpenFile mem path' (and mode' 0x1FF) t' = (Inr g, t)"
  shows "writePlannedFileContent io seeded path mode c s =
    (fst (writePlannedFileContent mem seeded path' mode' c t'), f (snd (writePlannedFileContent mem seeded path' mode' c t')))"
proof -
  let ?m = "\<lambda>wr tr cl. bindS (write_pattern wr seeded c) (\<lambda>_.
       bindS (wrapS ''failed to truncate planned file'' tr) (\<lambda>_. wrapS ''failed to finalize planned file'' cl))"
  have "lifts f (deferS (fc_Close io h) (?m (fc_WriteAt io h) (fc_Truncate io h (pc_logicalSize c)) (fc_Close io h)))
      (deferS (fc_Close mem g) (?m (fc_WriteAt mem g) (fc_Truncate mem g (pc_logicalSize c)) (fc_Close mem g)))"
    by (intro lifts_defer assms(3) lifts_bind [OF lifts_pattern [OF assms(1)]] lifts_bind [OF lifts_wrap [OF assms(2)]]
        lifts_wrap [OF assms(3)])
  then show ?thesis using assms(4,5) by (simp add: writePlannedFileContent_def bindS_def wrapS_def lifts_def)
qed

lemma set_ino_same: "inos fs i = j \<Longrightarrow> set_ino i j fs = fs"
  by (simp add: set_ino_def fun_upd_idem)

lemma plus_file_Nil: "plus_file k cs [] mode fs = plus k cs (NFile []) mode fs"
proof -
  have "(stamps (plus k cs (NFile []) mode fs)) (nextino fs) = None"
    by (simp add: plus_def touch_at_def add_entry_def split: option.split)
  then have "stamp_ino (nextino fs) None (plus k cs (NFile []) mode fs) = plus k cs (NFile []) mode fs"
    by (simp add: stamp_ino_def fun_upd_idem)
  moreover have "set_ino (nextino fs) (new_inode k (NFile []) mode) (plus k cs (NFile []) mode fs) = plus k cs (NFile []) mode fs"
    by (rule set_ino_same) simp
  ultimately show ?thesis by (simp only: plus_file_def)
qed

lemma plus_file_update:
  "stamp_ino (nextino fs) None (set_ino (nextino fs) ((inos (plus_file k cs d mode fs) (nextino fs))\<lparr>node := NFile d'\<rparr>)
     (plus_file k cs d mode fs)) = plus_file k cs d' mode fs"
  by (simp add: plus_file_def new_inode_def set_ino_def stamp_ino_def)

text \<open>A call that turns the bytes of the file into others, or refuses and leaves them.\<close>

lemma plus_file_call:
  assumes "\<And>old. f old = bindE (r old) (\<lambda>g. if int (length g) > maxFileSize then Fail EFBIG else Inr g)"
  shows "bindS (with_inode cs (\<lambda>i. case node i of NFile data \<Rightarrow> bindE (r data) (set_data i) | _ \<Rightarrow> Fail EINVAL))
      (\<lambda>_. modifyS (touch_at cs)) (plus_file k cs d mode fs) =
    (case f d of Inl e \<Rightarrow> (Inl e, plus_file k cs d mode fs) | Inr d' \<Rightarrow> (Inr (), plus_file k cs d' mode fs))"
proof -
  let ?fs = "plus_file k cs d mode fs"
  have at: "map_of (ents ?fs) cs = Some (nextino fs)" "node (inos ?fs (nextino fs)) = NFile d"
    by (simp_all add: plus_file_def)
  show ?thesis
  proof (cases "r d")
    case (Inl e)
    then show ?thesis using at assms [of d] by (simp add: bindS_def with_inode_def lookup_def)
  next
    case (Inr d')
    show ?thesis
    proof (cases "int (length d') > maxFileSize")
      case True
      then show ?thesis using Inr at assms [of d] by (simp add: bindS_def with_inode_def lookup_def set_data_def)
    next
      case False
      then show ?thesis
        using Inr at assms [of d] plus_file_update [where fs = fs and k = k and cs = cs and d = d and mode = mode and d' = d']
        by (simp add: bindS_def with_inode_def lookup_def set_data_def upd_inode_def modifyS_def touch_at_place set_ino_def)
    qed
  qed
qed

lemma kernel_file_simps:
  "fc_WriteAt (kernel_file k) = fd_WriteAt k" "fc_Truncate (kernel_file k) = fd_Truncate k"
  "fc_Close (kernel_file k) = fd_Close k"
  by (simp_all add: kernel_file_def)

lemma lifted_WriteAt:
  assumes "permissive k"
  shows "lifts_writer (\<lambda>d. plus_file k cs d mode fs) (fd_WriteAt k cs) (fc_WriteAt (mem_file maxFileSize) ())"
  unfolding lifts_writer_def lifts_def
proof (intro allI)
  fix d off t
  let ?fs = "plus_file k cs t mode fs"
  let ?r = "\<lambda>old. WriteAt old off d"
  let ?f = "\<lambda>old. bindE (?r old) (\<lambda>g. if int (length g) > maxFileSize then Fail EFBIG else Inr g)"
  have "fd_WriteAt k cs d off ?fs =
      bindS (bindS (with_inode cs (\<lambda>i. case node i of NFile data \<Rightarrow> bindE (?r data) (set_data i) | _ \<Rightarrow> Fail EINVAL))
        (\<lambda>_. modifyS (touch_at cs))) (\<lambda>_. returnS (int (length d))) ?fs"
    using assms by (simp add: fd_WriteAt_def write_handle_def bindS_def readS_def split: prod.split sum.split)
  also have "\<dots> = (case ?f t of Inl e \<Rightarrow> (Inl e, ?fs) | Inr d' \<Rightarrow> (Inr (int (length d)), plus_file k cs d' mode fs))"
    unfolding bindS_def [of "bindS _ _"] plus_file_call [of ?f ?r, OF refl]
    by (cases "?f t") (simp_all only: sum.case prod.case returnS_def)
  finally show "fd_WriteAt k cs d off ?fs =
      (fst (fc_WriteAt (mem_file maxFileSize) () d off t), plus_file k cs (snd (fc_WriteAt (mem_file maxFileSize) () d off t)) mode fs)"
    by (cases "WriteAt t off d") (auto simp: mem_file_def mem_update_def)
qed

lemma lifted_Truncate:
  assumes "permissive k"
  shows "lifts (\<lambda>d. plus_file k cs d mode fs) (fd_Truncate k cs n) (fc_Truncate (mem_file maxFileSize) () n)"
  unfolding lifts_def
proof
  fix t
  let ?fs = "plus_file k cs t mode fs"
  let ?r = "\<lambda>data. if n < 0 \<or> n > maxFileSize then Fail EINVAL else ftruncate data n"
  let ?f = "\<lambda>old. bindE (?r old) (\<lambda>g. if int (length g) > maxFileSize then Fail EFBIG else Inr g)"
  have c: "(\<lambda>i. case node i of NFile data \<Rightarrow> if n < 0 \<or> n > maxFileSize then Fail EINVAL
         else bindE (ftruncate data n) (set_data i) | _ \<Rightarrow> Fail EINVAL) =
      (\<lambda>i. case node i of NFile data \<Rightarrow> bindE (?r data) (set_data i) | _ \<Rightarrow> Fail EINVAL)"
    by (rule ext) (simp split: fnode.split)
  have "fd_Truncate k cs n ?fs = bindS (with_inode cs (\<lambda>i. case node i of NFile data \<Rightarrow> bindE (?r data) (set_data i)
      | _ \<Rightarrow> Fail EINVAL)) (\<lambda>_. modifyS (touch_at cs)) ?fs"
    unfolding fd_Truncate_def c using assms by (simp add: bindS_def [of "readS _"] readS_def)
  also have "\<dots> = (case ?f t of Inl e \<Rightarrow> (Inl e, ?fs) | Inr d' \<Rightarrow> (Inr (), plus_file k cs d' mode fs))"
    by (rule plus_file_call [OF refl])
  finally show "fd_Truncate k cs n ?fs =
      (fst (fc_Truncate (mem_file maxFileSize) () n t), plus_file k cs (snd (fc_Truncate (mem_file maxFileSize) () n t)) mode fs)"
    by (cases "ftruncate t n") (auto simp: mem_file_def mem_update_def)
qed

lemma lifted_Close:
  "permissive k \<Longrightarrow> lifts (\<lambda>d. plus_file k cs d mode fs) (fd_Close k cs) (fc_Close (mem_file maxFileSize) ())"
  by (simp add: lifts_def mem_file_def)

lemma vacant_createPlannedFile:
  assumes "permissive k" and "vacant fs cs" and "planned_bytes maxFileSize seeded c = Inr d"
  shows "createPlannedFile k seeded (abs_path cs) mode c fs =
    (Inr (), plus_file k cs d (and (syscallMode (and mode 0x1FF)) (not (umask k))) fs)"
proof -
  let ?mode = "and (syscallMode (and mode 0x1FF)) (not (umask k))"
  obtain u where u: "writePlannedFileContent (mem_file maxFileSize) seeded [] 0 c [] = (Inr u, d)"
    using assms(3) by (auto simp: planned_bytes_def split: prod.splits sum.splits)
  have "fc_OpenFile (kernel_file k) (abs_path cs) (and mode 0x1FF) fs = (Inr cs, plus_file k cs [] ?mode fs)"
    using assms(1) vacant_resolve [OF assms(2)] vacant_open [OF assms(2)]
    by (simp add: kernel_file_def run_call run_bind returnS_def plus_file_Nil)
  moreover have "fc_OpenFile (mem_file maxFileSize) [] (and 0 0x1FF) [] = (Inr (), [])" by (simp add: mem_file_def)
  ultimately have "createPlannedFile k seeded (abs_path cs) mode c fs =
      (fst (writePlannedFileContent (mem_file maxFileSize) seeded [] 0 c []),
       plus_file k cs (snd (writePlannedFileContent (mem_file maxFileSize) seeded [] 0 c [])) ?mode fs)"
    unfolding createPlannedFile_def
    by (intro lifts_content [where f = "\<lambda>d. plus_file k cs d ?mode fs" and h = cs and g = "()" and t = "[]"])
      (simp_all add: kernel_file_simps lifted_WriteAt [OF assms(1)] lifted_Truncate [OF assms(1)] lifted_Close [OF assms(1)])
  then show ?thesis by (simp add: u)
qed

lemma vacant_MkdirAll:
  assumes "permissive k" and "vacant fs cs"
  shows "\<exists>m. os_MkdirAll k (abs_path cs) perm fs = (Inr (), plus k cs NDir m fs)"
proof -
  have f: "free_at fs cs" using assms(2) by (simp add: vacant_def)
  obtain ds d where cs: "cs = ds @ [d]" using free_at_nonempty [OF f] by (cases cs rule: rev_cases) auto
  have ok: "\<forall>c \<in> set (ds @ [d]). elem_ok c" and ph: "phys fs ds" and no: "lookup fs cs = None"
    using f cs by (auto simp: free_at_def)
  have nul: "\<not> Contains (abs_path ds) NUL"
    using assms(2) cs by (cases "ds = []") (auto simp: vacant_def Contains_def abs_path_snoc NUL_def slash_def)
  obtain i where i: "lookup fs ds = Some i" "node i = NDir" using phys_dir [OF ph] by (auto simp: dir_at_lookup)
  have "phys fs (butlast ds)" using ph by (metis append_butlast_last_id phys_append butlast.simps(1))
  then have "resolve k fs True (abs_path ds) = Inr ds"
    using resolve_phys [of ds fs True k] ok phys_root [OF ph] nul i by auto
  then have parent: "os_MkdirAll k (abs_path ds) perm fs = (Inr (), fs)"
    using assms(1) i by (subst os_MkdirAll.simps) (simp add: os_Stat_def get_inode_def IsDir_def)
  have "os_Stat k (abs_path cs) fs = Fail ENOENT"
    using vacant_resolve [OF assms(2), of k True] no assms(1) by (simp add: os_Stat_def get_inode_def)
  moreover have "os_Mkdir k (abs_path cs) perm fs = (Inr (), plus k cs NDir (and (syscallMode perm) (not (umask k))) fs)"
    unfolding os_Mkdir_def by (rule vacant_create [OF assms])
  ultimately have "os_MkdirAll k (abs_path cs) perm fs = (Inr (), plus k cs NDir (and (syscallMode perm) (not (umask k))) fs)"
    using parent_path_snoc [OF ok] cs parent by (subst os_MkdirAll.simps) (simp add: mkdir_last_def)
  then show ?thesis by blast
qed

lemma vacant_special:
  assumes "permissive k" and "vacant fs cs" and "is_ok (validateSpecialFileType (pe_special e))"
    and "0 \<le> pe_major e" and "0 \<le> pe_minor e"
  shows "\<exists>m. createPlannedSpecialFile k (abs_path cs) (pe_special e) mode (pe_major e) (pe_minor e) fs =
    (Inr (), set_ino (nextino fs) (new_inode k (NSpecial (special_node e)) (syscallMode mode))
      (plus k cs (NSpecial (special_node e)) m fs))"
proof -
  let ?t = "pe_special e"
  have mk: "os_call k name False (abs_path cs) (\<lambda>q. create_at k q nd m) fs = (Inr (), plus k cs nd m fs)" for name nd m
    by (rule vacant_create [OF assms(1,2)])
  have "\<exists>m. (case ?t of
          SpecialFileTypeFIFO \<Rightarrow> os_Mknod k (abs_path cs) NodeFifo (and mode 0xFFF)
        | SpecialFileTypeSocket \<Rightarrow> createUnixSocketPath k (abs_path cs)
        | SpecialFileTypeCharDevice \<Rightarrow> createDeviceNode k (abs_path cs) NodeChar mode (pe_major e) (pe_minor e)
        | SpecialFileTypeBlockDevice \<Rightarrow> createDeviceNode k (abs_path cs) NodeBlock mode (pe_major e) (pe_minor e)
        | SpecialFileTypeUnknown j \<Rightarrow> returnS ()) fs = (Inr (), plus k cs (NSpecial (special_node e)) m fs)"
    using assms mk by (cases ?t)
      (auto simp: os_Mknod_def createUnixSocketPath_def net_Listen_unix_def createDeviceNode_def special_node_def Let_def
        run_bind wrapS_def readS_def validateSpecialFileType_def)
  then obtain m where node: "(case ?t of
          SpecialFileTypeFIFO \<Rightarrow> os_Mknod k (abs_path cs) NodeFifo (and mode 0xFFF)
        | SpecialFileTypeSocket \<Rightarrow> createUnixSocketPath k (abs_path cs)
        | SpecialFileTypeCharDevice \<Rightarrow> createDeviceNode k (abs_path cs) NodeChar mode (pe_major e) (pe_minor e)
        | SpecialFileTypeBlockDevice \<Rightarrow> createDeviceNode k (abs_path cs) NodeBlock mode (pe_major e) (pe_minor e)
        | SpecialFileTypeUnknown j \<Rightarrow> returnS ()) fs = (Inr (), plus k cs (NSpecial (special_node e)) m fs)" by blast
  let ?fs = "plus k cs (NSpecial (special_node e)) m fs"
  have "os_Chmod k (abs_path cs) mode ?fs =
      (Inr (), set_ino (nextino fs) ((inos ?fs (nextino fs))\<lparr>imode := syscallMode mode\<rparr>) ?fs)"
    unfolding os_Chmod_def
    by (rule inode_call [OF assms(1) vacant_plus [OF assms(2)]]) (simp_all add: IsSymlink_def)
  moreover have "(new_inode k nd m)\<lparr>imode := m'\<rparr> = new_inode k nd m'" for nd m m' by (simp add: new_inode_def)
  moreover obtain u where "validateSpecialFileType ?t = Inr u" using assms(3) by (auto simp: is_ok_iff)
  ultimately show ?thesis
    using node by (auto simp: createPlannedSpecialFile_def run_lift run_bind run_wrap map_errS_def)
qed

lemma vacant_Symlink:
  assumes "permissive k" and "vacant fs cs" and "t \<noteq> []" and "\<not> Contains t NUL"
  shows "os_Symlink k t (abs_path cs) fs = (Inr (), plus k cs (NLink t) 0x1FF fs)"
  using assms(3,4) vacant_create [OF assms(1,2)] by (simp add: os_Symlink_def)

text \<open>
  From \<open>fs\<close> to \<open>fs'\<close> the entry \<open>e\<close> has come, with the next inode. The inode of a directory still
  lacks its metadata.
\<close>

definition adds :: "kernel \<Rightarrow> (int \<Rightarrow> rng) \<Rightarrow> plannedEntry \<Rightarrow> string list \<Rightarrow> fsys \<Rightarrow> fsys \<Rightarrow> bool" where
  "adds k seeded e cs fs fs' \<longleftrightarrow> ents fs' = (cs, nextino fs) # ents fs \<and> nextino fs' = Suc (nextino fs) \<and>
     (\<forall>i. i \<noteq> nextino fs \<longrightarrow> inos fs' i = inos fs i) \<and>
     quiet fs fs' \<and>
     (if pe_type e = plannedEntryTypeDir
      then (\<exists>m. inos fs' (nextino fs) = new_inode k NDir m) \<and> stamps fs' (nextino fs) = None
      else inos fs' (nextino fs) = entry_inode k seeded e \<and> stamps fs' (nextino fs) = entry_stamp e)"

lemma stamps_plus: "stamps (plus k cs nd mode fs) (nextino fs) = None"
  by (simp add: plus_def touch_at_def add_entry_def split: option.split)

lemma adds_meta:
  assumes v: "vacant fs cs" and t: "pe_type e \<noteq> plannedEntryTypeDir" and fs1: "ents fs1 = (cs, nextino fs) # ents fs"
    "nextino fs1 = Suc (nextino fs)" "\<And>i. i \<noteq> nextino fs \<Longrightarrow> inos fs1 i = inos fs i"
    "quiet fs fs1" "stamps fs1 (nextino fs) = None"
    and j: "j = entry_inode k seeded e"
  shows "adds k seeded e cs fs (stamped (pe_metadata e) (nextino fs) (set_ino (nextino fs) j fs1))"
  using assms by (auto simp: adds_def stamped_def entry_stamp_def quiet_def Let_def)

lemma create_planned_ok:
  assumes k: "permissive k" and v: "vacant fs cs" and e: "pe_path e = abs_path cs" "entry_ready seeded e"
    and t: "pe_type e \<noteq> plannedEntryTypeHardlink"
    and link: "pe_type e = plannedEntryTypeSymlink \<Longrightarrow> pe_linkTarget e \<noteq> []"
    and special: "pe_type e = plannedEntryTypeSpecial \<Longrightarrow>
      is_ok (validateSpecialFileType (pe_special e)) \<and> 0 \<le> pe_major e \<and> 0 \<le> pe_minor e"
  shows "\<exists>fs'. create_planned k seeded e fs = (Inr (), fs') \<and> adds k seeded e cs fs fs'"
proof -
  let ?n = "nextino fs" and ?md = "pe_metadata e"
  have md: "meta_ready ?md" using e(2) by (simp add: entry_ready_def)
  have old: "quiet fs (plus k cs nd m fs)" "quiet fs (stamp_ino ?n t (set_ino ?n j (plus k cs nd m fs)))"
    "quiet fs (set_ino ?n j (plus k cs nd m fs))" for nd m t j
    using vacant_quiet [OF v, of k nd m] by (simp_all add: quiet_def)
  show ?thesis
  proof (cases "pe_type e")
    case plannedEntryTypeDir
    obtain m where "os_MkdirAll k (abs_path cs) (and (pe_mode e) 0xFFF) fs = (Inr (), plus k cs NDir m fs)"
      using vacant_MkdirAll [OF k v] by blast
    then show ?thesis
      using plannedEntryTypeDir e(1) old(1) by (auto simp: create_planned_def run_wrap adds_def stamps_plus)
  next
    case plannedEntryTypeFile
    then obtain d where d: "planned_data seeded e = Inr d" "int (length d) \<le> maxFileSize"
      using e(2) by (auto simp: entry_ready_def split: sum.splits)
    have "\<exists>m. (if pc_pattern (pe_content e) \<noteq> ContentPatternUnknown 0
        then createPlannedFile k seeded (abs_path cs) (pe_mode e) (pe_content e)
        else wrapS ''failed to create planned file'' (os_WriteFile k (abs_path cs) (pe_data e) (and (pe_mode e) 0x1FF))) fs
        = (Inr (), plus_file k cs d m fs)"
      using d vacant_WriteFile [OF k v] vacant_createPlannedFile [OF k v]
      by (auto simp: planned_data_def run_wrap split: if_splits)
    then obtain m where file1: "(if pc_pattern (pe_content e) \<noteq> ContentPatternUnknown 0
        then createPlannedFile k seeded (abs_path cs) (pe_mode e) (pe_content e)
        else wrapS ''failed to create planned file'' (os_WriteFile k (abs_path cs) (pe_data e) (and (pe_mode e) 0x1FF))) fs
        = (Inr (), plus_file k cs d m fs)" by blast
    let ?fs1 = "plus_file k cs d m fs"
    have i1: "inos ?fs1 ?n = new_inode k (NFile d) m" by (simp add: plus_file_def)
    have "place_at ?fs1 cs ?n"
      using vacant_plus [OF v] phys_iff unfolding plus_file_def
      by (simp add: place_at_def phys_iff dir_at_set_ino)
    then have "applyMetadata k (abs_path cs) (pe_mode e) ?md ?fs1 =
        (Inr (), stamped ?md ?n (set_ino ?n (meta_inode (pe_mode e) ?md (inos ?fs1 ?n)) ?fs1))"
      by (rule applyMetadata_ok [OF k _ md]) (simp_all add: i1 IsSymlink_def IsRegular_def)
    moreover have "meta_inode (pe_mode e) ?md (inos ?fs1 ?n) = entry_inode k seeded e"
      using plannedEntryTypeFile d(1) meta_new [of _ _ k _ m "0x1FF"] unfolding i1
      by (simp add: entry_inode_def entry_node_def Let_def)
    moreover have "adds k seeded e cs fs (stamped ?md ?n (set_ino ?n (entry_inode k seeded e) ?fs1))"
      by (rule adds_meta [OF v]) (use plannedEntryTypeFile old in \<open>simp_all add: plus_file_def\<close>)
    ultimately show ?thesis
      using plannedEntryTypeFile e(1) file1
      by (auto simp: create_planned_def Let_def run_bind run_wrap simp del: if_split split del: if_split)
  next
    case plannedEntryTypeSymlink
    let ?fs1 = "plus k cs (NLink (pe_linkTarget e)) 0x1FF fs"
    have s: "os_Symlink k (pe_linkTarget e) (abs_path cs) fs = (Inr (), ?fs1)"
      by (rule vacant_Symlink [OF k v]) (use link e(2) plannedEntryTypeSymlink in \<open>simp_all add: entry_ready_def\<close>)
    note p = vacant_plus [OF v, of k "NLink (pe_linkTarget e)" "0x1FF"]
    have own: "apply_ownership k (abs_path cs) ?md ?fs1 = (Inr (), set_ino ?n (owned ?md (inos ?fs1 ?n)) ?fs1)"
      by (rule ownership_ok [OF k p md])
    have "apply_times k (abs_path cs) ?md (set_ino ?n (owned ?md (inos ?fs1 ?n)) ?fs1) =
        (Inr (), stamped ?md ?n (set_ino ?n (owned ?md (inos ?fs1 ?n)) ?fs1))"
      by (rule times_ok [OF k]) (use p in \<open>simp add: place_at_set\<close>)
    moreover have "owned ?md (inos ?fs1 ?n) = entry_inode k seeded e"
      using plannedEntryTypeSymlink by (simp add: entry_inode_def entry_node_def Let_def)
    moreover have "adds k seeded e cs fs (stamped ?md ?n (set_ino ?n (entry_inode k seeded e) ?fs1))"
      by (rule adds_meta [OF v]) (use plannedEntryTypeSymlink old in \<open>simp_all add: stamps_plus\<close>)
    ultimately show ?thesis
      using plannedEntryTypeSymlink e(1) s own
      by (auto simp: create_planned_def Let_def applyLinkMetadata_def run_bind run_wrap)
  next
    case plannedEntryTypeSpecial
    obtain m where s: "createPlannedSpecialFile k (abs_path cs) (pe_special e) (pe_mode e) (pe_major e) (pe_minor e) fs =
      (Inr (), set_ino ?n (new_inode k (NSpecial (special_node e)) (syscallMode (pe_mode e)))
        (plus k cs (NSpecial (special_node e)) m fs))"
      using vacant_special [OF k v] special plannedEntryTypeSpecial by blast
    let ?fs1 = "set_ino ?n (new_inode k (NSpecial (special_node e)) (syscallMode (pe_mode e)))
        (plus k cs (NSpecial (special_node e)) m fs)"
    have i1: "inos ?fs1 ?n = new_inode k (NSpecial (special_node e)) (syscallMode (pe_mode e))" by simp
    have "place_at ?fs1 cs ?n" using vacant_plus [OF v] by (simp add: place_at_set)
    then have "applyMetadata k (abs_path cs) (pe_mode e) ?md ?fs1 =
        (Inr (), stamped ?md ?n (set_ino ?n (meta_inode (pe_mode e) ?md (inos ?fs1 ?n)) ?fs1))"
      by (rule applyMetadata_ok [OF k _ md])
        (use e(2) plannedEntryTypeSpecial in \<open>simp_all add: i1 IsSymlink_def entry_ready_def\<close>)
    moreover have "meta_inode (pe_mode e) ?md (inos ?fs1 ?n) = entry_inode k seeded e"
      using plannedEntryTypeSpecial meta_new [of _ _ k _ "syscallMode (pe_mode e)" "0x1FF"] unfolding i1
      by (simp add: entry_inode_def entry_node_def Let_def)
    moreover have "adds k seeded e cs fs (stamped ?md ?n (set_ino ?n (entry_inode k seeded e) ?fs1))"
      by (rule adds_meta [OF v]) (use plannedEntryTypeSpecial old in \<open>simp_all add: stamps_plus\<close>)
    ultimately show ?thesis
      using plannedEntryTypeSpecial e(1) s by (auto simp: create_planned_def Let_def run_bind run_wrap)
  qed (use t in simp)
qed

section \<open>The first pass\<close>

definition own :: "plannedEntry list \<Rightarrow> plannedEntry list" where
  "own es = filter (\<lambda>e. pe_type e \<noteq> plannedEntryTypeHardlink) es"

definition absent :: "fsys \<Rightarrow> string list \<Rightarrow> bool" where
  "absent fs bs \<longleftrightarrow> list_all (\<lambda>x. \<not> Go_FS.below bs (fst x)) (ents fs)"

text \<open>
  The state after the entries \<open>es\<close>, where the directories in \<open>fin\<close> have their metadata: the
  entry that is number \<open>j\<close> among those with an inode of their own has inode \<open>nextino fs1 + j\<close>.
\<close>

definition inode_ready :: "kernel \<Rightarrow> (int \<Rightarrow> rng) \<Rightarrow> string set \<Rightarrow> plannedEntry \<Rightarrow> nat \<Rightarrow> fsys \<Rightarrow> bool" where
  "inode_ready k seeded fin e i fs \<longleftrightarrow>
     (if pe_type e = plannedEntryTypeDir \<and> pe_path e \<notin> fin
      then (\<exists>m. inos fs i = new_inode k NDir m) \<and> stamps fs i = None
      else inos fs i = entry_inode k seeded e \<and> stamps fs i = entry_stamp e)"

definition built ::
  "kernel \<Rightarrow> (int \<Rightarrow> rng) \<Rightarrow> fsys \<Rightarrow> plannedEntry list \<Rightarrow> string set \<Rightarrow> fsys \<Rightarrow> bool" where
  "built k seeded fs1 es fin fs \<longleftrightarrow> nextino fs = nextino fs1 + length (own es) \<and>
     (\<forall>j < length (own es). map_of (ents fs) (elems (pe_path (own es ! j))) = Some (nextino fs1 + j) \<and>
        inode_ready k seeded fin (own es ! j) (nextino fs1 + j) fs) \<and>
     (\<forall>l \<in> set (hard_links es). map_of (ents fs) (elems (fst l)) = map_of (ents fs) (elems (snd l))) \<and>
     (\<forall>p \<in> set (names plannedEntryTypeFile es) \<union> set (names plannedEntryTypeHardlink es).
        \<exists>i. map_of (ents fs) (elems p) = Some i \<and> IsRegular (inos fs i)) \<and>
     (\<forall>q. map_of (ents fs) q \<noteq> None \<longrightarrow> map_of (ents fs1) q \<noteq> None \<or> q \<in> elems ` set (paths es))"

lemma builtD:
  assumes "built k seeded fs1 es fin fs"
  shows "nextino fs = nextino fs1 + length (own es)"
    and "j < length (own es) \<Longrightarrow> map_of (ents fs) (elems (pe_path (own es ! j))) = Some (nextino fs1 + j)"
    and "j < length (own es) \<Longrightarrow> inode_ready k seeded fin (own es ! j) (nextino fs1 + j) fs"
    and "l \<in> set (hard_links es) \<Longrightarrow> map_of (ents fs) (elems (fst l)) = map_of (ents fs) (elems (snd l))"
    and "p \<in> set (names plannedEntryTypeFile es) \<union> set (names plannedEntryTypeHardlink es) \<Longrightarrow>
      \<exists>i. map_of (ents fs) (elems p) = Some i \<and> IsRegular (inos fs i)"
    and "map_of (ents fs) q \<noteq> None \<Longrightarrow> map_of (ents fs1) q \<noteq> None \<or> q \<in> elems ` set (paths es)"
  using assms by (auto simp: built_def)

lemma own_snoc: "own (es @ [e]) = own es @ (if pe_type e = plannedEntryTypeHardlink then [] else [e])"
  by (simp add: own_def)

lemma entry_node_Dir: "entry_node seeded e = NDir \<longleftrightarrow> pe_type e = plannedEntryTypeDir"
  by (simp add: entry_node_def split: plannedEntryType.split)

lemma entry_inode_node: "node (entry_inode k seeded e) = entry_node seeded e"
  by (simp add: entry_inode_def meta_inode_def Let_def)

lemma inode_ready_quiet:
  assumes "inode_ready k seeded fin e i fs" and "i < nextino fs" and "inos fs' i = inos fs i" and "quiet fs fs'"
    and "pe_type e = plannedEntryTypeDir \<Longrightarrow> pe_path e \<notin> fin"
  shows "inode_ready k seeded fin e i fs'"
proof (cases "pe_type e = plannedEntryTypeDir")
  case True
  then have "pe_path e \<notin> fin" by (rule assms(5))
  then show ?thesis using assms(1-4) True by (auto simp: inode_ready_def quiet_def)
next
  case False
  then have "inos fs i = entry_inode k seeded e" "node (inos fs i) \<noteq> NDir"
    using assms(1) by (auto simp: inode_ready_def entry_inode_node entry_node_Dir)
  then show ?thesis using assms(1-4) False by (auto simp: inode_ready_def quiet_def)
qed

text \<open>Where the next entry goes nothing is.\<close>

lemma next_vacant:
  assumes b: "built k seeded fs1 es {} fs" and abs: "absent fs1 (elems base)" and base: "clean_abs base"
    and e: "entry_ok base es e" "entry_ready seeded e" and es: "\<forall>x \<in> set es. clean_abs (pe_path x)"
    and ok: "inodes_ok fs" and c: "clean_abs (pe_path e)" "phys fs (butlast (elems (pe_path e)))"
  shows "vacant fs (elems (pe_path e))"
proof -
  let ?cs = "elems (pe_path e)"
  have "Go_FS.below (elems base) ?cs"
    using e(1) by (auto simp: entry_ok_def Plan_Spec.below_def Go_FS.below_def split: if_splits)
  then have "map_of (ents fs1) ?cs = None"
    using abs by (force simp: absent_def list_all_iff map_of_eq_None_iff)
  moreover have "?cs \<notin> elems ` set (paths es)"
    using e(1) es elems_inj [OF c(1)] by (auto simp: entry_ok_def paths_def)
  ultimately have "map_of (ents fs) ?cs = None" using builtD(6) [OF b, of ?cs] by blast
  then have "lookup fs ?cs = None" by (simp add: lookup_def)
  then show ?thesis
    using c ok e(2) elems_ok abs_path_elems [OF c(1)] by (auto simp: vacant_def free_at_def entry_ready_def)
qed

lemma vacant_apply:
  assumes "permissive k" and "vacant fs cs" and "pe_path e = abs_path cs"
  shows "applyPlannedEntry k seeded g e fs = bindS (create_planned k seeded e) (\<lambda>_. returnS True) fs"
  using assms vacant_resolve [OF assms(2), of k False]
  by (simp add: applyPlannedEntry_def os_Lstat_def get_inode_def vacant_def free_at_def)

lemma built_adds:
  assumes b: "built k seeded fs1 es {} fs" and v: "vacant fs (elems (pe_path e))" and t: "pe_type e \<noteq> plannedEntryTypeHardlink"
    and a: "adds k seeded e (elems (pe_path e)) fs fs'" and ok: "inodes_ok fs"
  shows "built k seeded fs1 (es @ [e]) {} fs'"
proof -
  let ?cs = "elems (pe_path e)" and ?n = "nextino fs"
  note old = builtD [OF b]
  have ents: "ents fs' = (?cs, ?n) # ents fs" and next': "nextino fs' = Suc ?n" and q: "quiet fs fs'"
    and inos: "i \<noteq> ?n \<Longrightarrow> inos fs' i = inos fs i" for i
    using a by (simp_all add: adds_def)
  have free: "map_of (ents fs) ?cs = None" using v by (simp add: vacant_def free_at_def lookup_def)
  have keep: "map_of (ents fs') x = Some i" if "map_of (ents fs) x = Some i" for x i
    using that free ents by auto
  have lt: "i < ?n" if "map_of (ents fs) x = Some i" for x i using inodes_ok_lookup [OF ok that] .
  have own: "map_of (ents fs') (elems (pe_path (own (es @ [e]) ! j))) = Some (nextino fs1 + j) \<and>
      inode_ready k seeded {} (own (es @ [e]) ! j) (nextino fs1 + j) fs'" if j: "j < length (own (es @ [e]))" for j
  proof (cases "j < length (own es)")
    case True
    have "nextino fs1 + j < ?n" using True old(1) by simp
    then have "inode_ready k seeded {} (own es ! j) (nextino fs1 + j) fs'"
      using inode_ready_quiet [OF old(3) [OF True] _ _ q] inos by simp
    then show ?thesis using True keep [OF old(2) [OF True]] by (simp add: own_snoc nth_append)
  next
    case False
    then have j: "j = length (own es)" "own (es @ [e]) ! j = e" using j t by (auto simp: own_snoc nth_append split: if_splits)
    have "inode_ready k seeded {} e ?n fs'" using a by (simp add: adds_def inode_ready_def)
    then show ?thesis using j ents old(1) by simp
  qed
  have reg: "\<exists>i. map_of (ents fs') (elems p) = Some i \<and> IsRegular (inos fs' i)"
    if p: "p \<in> set (names plannedEntryTypeFile (es @ [e])) \<union> set (names plannedEntryTypeHardlink (es @ [e]))" for p
  proof (cases "p \<in> set (names plannedEntryTypeFile es) \<union> set (names plannedEntryTypeHardlink es)")
    case True
    then obtain i where "map_of (ents fs) (elems p) = Some i" "IsRegular (inos fs i)" using old(5) by blast
    then show ?thesis using keep inos lt by (metis less_irrefl)
  next
    case False
    then have "p = pe_path e" "pe_type e = plannedEntryTypeFile" using p t by (auto simp: names_def split: if_splits)
    then show ?thesis
      using a ents by (auto simp: adds_def IsRegular_def entry_inode_node entry_node_def)
  qed
  have hl: "map_of (ents fs') (elems (fst l)) = map_of (ents fs') (elems (snd l))" if "l \<in> set (hard_links (es @ [e]))" for l
  proof -
    have l: "l \<in> set (hard_links es)" using that t by (auto simp: hard_links_def split: if_splits)
    then have "fst l \<in> set (names plannedEntryTypeHardlink es)" by (auto simp: hard_links_def names_def)
    then obtain i where "map_of (ents fs) (elems (fst l)) = Some i" using old(5) by blast
    then show ?thesis using keep old(4) [OF l] by metis
  qed
  have "map_of (ents fs1) x \<noteq> None \<or> x \<in> elems ` set (paths (es @ [e]))" if "map_of (ents fs') x \<noteq> None" for x
    using that old(6) [of x] ents by (auto simp: paths_def split: if_splits)
  then show ?thesis
    unfolding built_def using own reg hl next' old(1) t by (simp add: own_snoc)
qed

lemma built_hardlink:
  assumes b: "built k seeded fs1 es {} fs" and v: "vacant fs (elems (pe_path e))" and t: "pe_type e = plannedEntryTypeHardlink"
    and target: "pe_linkTarget e \<in> set (names plannedEntryTypeFile es) \<union> set (names plannedEntryTypeHardlink es)"
    and i: "map_of (ents fs) (elems (pe_linkTarget e)) = Some i" "IsRegular (inos fs i)" and ok: "inodes_ok fs"
  shows "built k seeded fs1 (es @ [e]) {} (touch_at (butlast (elems (pe_path e))) (fs\<lparr>ents := (elems (pe_path e), i) # ents fs\<rparr>))"
    (is "built k seeded fs1 _ _ ?fs'")
proof -
  let ?cs = "elems (pe_path e)"
  note old = builtD [OF b]
  have free: "map_of (ents fs) ?cs = None" using v by (simp add: vacant_def free_at_def lookup_def)
  have keep: "map_of (ents ?fs') x = Some j" if "map_of (ents fs) x = Some j" for x j
    using that free by auto
  have q: "quiet fs ?fs'"
    by (rule quiet_touch) (use vacant_butlast [OF v] in \<open>auto simp: quiet_def\<close>)
  have own: "own (es @ [e]) = own es" using t by (simp add: own_snoc)
  have inode: "inode_ready k seeded {} (own es ! j) (nextino fs1 + j) ?fs'" if j: "j < length (own es)" for j
    by (rule inode_ready_quiet [OF old(3) [OF j] _ _ q]) (use j old(1) in simp_all)
  have hl: "map_of (ents ?fs') (elems (fst l)) = map_of (ents ?fs') (elems (snd l))" if l: "l \<in> set (hard_links (es @ [e]))" for l
  proof (cases "l \<in> set (hard_links es)")
    case True
    then have "fst l \<in> set (names plannedEntryTypeHardlink es)" by (auto simp: hard_links_def names_def)
    then obtain j where "map_of (ents fs) (elems (fst l)) = Some j" using old(5) by blast
    then show ?thesis using keep old(4) [OF True] by metis
  next
    case False
    then have "l = (pe_path e, pe_linkTarget e)" using l t by (auto simp: hard_links_def)
    then show ?thesis using i(1) free by auto
  qed
  have reg: "\<exists>j. map_of (ents ?fs') (elems p) = Some j \<and> IsRegular (inos ?fs' j)"
    if p: "p \<in> set (names plannedEntryTypeFile (es @ [e])) \<union> set (names plannedEntryTypeHardlink (es @ [e]))" for p
  proof (cases "p \<in> set (names plannedEntryTypeFile es) \<union> set (names plannedEntryTypeHardlink es)")
    case True
    then obtain j where j: "map_of (ents fs) (elems p) = Some j" "IsRegular (inos fs j)" using old(5) by blast
    have "inos ?fs' = inos fs" by simp
    then show ?thesis using keep [OF j(1)] j(2) by metis
  next
    case False
    then have "p = pe_path e" using p t by (auto simp: names_def split: if_splits)
    then show ?thesis using i(2) by simp
  qed
  have only: "map_of (ents fs1) x \<noteq> None \<or> x \<in> elems ` set (paths (es @ [e]))" if "map_of (ents ?fs') x \<noteq> None" for x
    using that old(6) [of x] by (auto simp: paths_def split: if_splits)
  show ?thesis
    unfolding built_def own
  proof (intro conjI allI impI ballI)
    show "nextino ?fs' = nextino fs1 + length (own es)" using old(1) by simp
  qed (use keep [OF old(2)] inode hl reg only in blast)+
qed

definition placed :: "plannedEntry list \<Rightarrow> fsys \<Rightarrow> bool" where
  "placed es fs \<longleftrightarrow> (\<forall>x \<in> set es. clean_abs (pe_path x) \<and> \<not> Contains (pe_path x) NUL \<and>
     phys fs (butlast (elems (pe_path x))))"

lemma placed_grown: "placed es fs \<Longrightarrow> grown n fs fs' \<Longrightarrow> inodes_ok fs \<Longrightarrow> placed es fs'"
  by (auto simp: placed_def grown_phys)

lemma apply_next:
  assumes k: "permissive k" and b: "built k seeded fs1 es {} fs" and abs: "absent fs1 (elems base)" and base: "clean_abs base"
    and e: "entry_ok base es e" "entry_ready seeded e" and es: "placed es fs"
    and ok: "inodes_ok fs" and c: "clean_abs (pe_path e)" "phys fs (butlast (elems (pe_path e)))"
  shows "\<exists>fs'. applyPlannedEntry k seeded g e fs = (Inr True, fs') \<and> built k seeded fs1 (es @ [e]) {} fs'"
proof -
  let ?cs = "elems (pe_path e)"
  have p: "pe_path e = abs_path ?cs" using abs_path_elems [OF c(1)] by simp
  have v: "vacant fs ?cs"
    by (rule next_vacant [OF b abs base e _ ok c]) (use es in \<open>simp add: placed_def\<close>)
  show ?thesis
  proof (cases "pe_type e = plannedEntryTypeHardlink")
    case False
    obtain fs' where fs': "create_planned k seeded e fs = (Inr (), fs')" "adds k seeded e ?cs fs fs'"
      using create_planned_ok [OF k v p e(2) False] e(1) by (auto simp: entry_ok_def)
    then show ?thesis
      using vacant_apply [OF k v p] built_adds [OF b v False fs'(2) ok] by (simp add: run_bind returnS_def)
  next
    case True
    let ?t = "pe_linkTarget e"
    have t: "?t \<in> set (names plannedEntryTypeFile es) \<union> set (names plannedEntryTypeHardlink es)"
      using e(1) True by (simp add: entry_ok_def)
    then obtain i where i: "map_of (ents fs) (elems ?t) = Some i" "IsRegular (inos fs i)" using builtD(5) [OF b] by blast
    obtain x where x: "x \<in> set es" "pe_path x = ?t" using t by (auto simp: names_def)
    then have ct: "clean_abs ?t" "\<not> Contains ?t NUL" "phys fs (butlast (elems ?t))" using es by (auto simp: placed_def)
    have "resolve k fs False (abs_path (elems ?t)) = Inr (elems ?t)"
      by (rule place_resolve [where i = i]) (use ct i elems_ok abs_path_elems [OF ct(1)] in \<open>auto simp: place_at_def\<close>)
    moreover have "node (inos fs i) \<noteq> NDir" using i(2) by (auto simp: IsRegular_def)
    moreover have "lookup fs ?cs = None" using v by (simp add: vacant_def free_at_def)
    ultimately have "os_Link k ?t (pe_path e) fs = (Inr (), touch_at (butlast ?cs) (fs\<lparr>ents := (?cs, i) # ents fs\<rparr>))"
      using i(1) vacant_resolve [OF v, of k False] abs_path_elems [OF ct(1)] p by (simp add: os_Link_def run_call [OF k])
    then show ?thesis
      using vacant_apply [OF k v p] True built_hardlink [OF b v True t i ok]
      by (simp add: create_planned_def Let_def run_bind run_wrap returnS_def)
  qed
qed

lemma faultless: "injector (execCtx c) = None \<Longrightarrow> ask_faults i l p c = (None, c)"
  by (simp add: ask_faults_def ctx_before_def)

lemma dirs_snoc: "names plannedEntryTypeDir (es @ [e]) = names plannedEntryTypeDir es @ (if pe_type e = plannedEntryTypeDir then [pe_path e] else [])"
  by (simp add: names_def)

lemma create_all:
  assumes k: "permissive k" and abs: "absent fs1 (elems base)" and base: "clean_abs base" "phys fs1 (butlast (elems base))"
    and ok1: "inodes_ok fs1"
  shows "built k seeded fs1 done {} fs \<Longrightarrow> run_inv fs1 g done (createdDirs c) fs \<Longrightarrow> placed done fs \<Longrightarrow>
    entries_ok base (done @ es) \<Longrightarrow> list_all (entry_ready seeded) es \<Longrightarrow> injector (execCtx c) = None \<Longrightarrow>
    set (createdDirs c) = set (names plannedEntryTypeDir done) \<Longrightarrow> appliedEntries (stats c) = int (length done) \<Longrightarrow>
    int (length (done @ es)) < 2 ^ 63 \<Longrightarrow>
    \<exists>c' fs'. create_entries k seeded g i es c fs = ((None, c'), fs') \<and> built k seeded fs1 (done @ es) {} fs' \<and>
      run_inv fs1 g (done @ es) (createdDirs c') fs' \<and> placed (done @ es) fs' \<and> injector (execCtx c') = None \<and>
      set (createdDirs c') = set (names plannedEntryTypeDir (done @ es)) \<and>
      appliedEntries (stats c') = int (length (done @ es)) \<and> finalizedDirectories (stats c') = finalizedDirectories (stats c)"
proof (induction es arbitrary: "done" c fs i)
  case Nil
  then show ?case by simp
next
  case (Cons e es)
  have e: "entry_ok base done e"
    using Cons.prems(4) unfolding entries_ok_prefix by (auto dest: spec [of _ "length done"])
  have r: "entry_ready seeded e" using Cons.prems(5) by simp
  have g: "grown (nextino fs1) fs1 fs" and dirs: "\<forall>d \<in> set (names plannedEntryTypeDir done). phys fs (elems d)"
    using Cons.prems(2) by (simp_all add: run_inv_def)
  note ok = grownD(5) [OF g]
  note c = entry_place [OF e base(1) grown_phys [OF g ok1 base(2)] dirs]
  obtain fs2 where run: "applyPlannedEntry k seeded g e fs = (Inr True, fs2)" and b2: "built k seeded fs1 (done @ [e]) {} fs2"
    using apply_next [OF k Cons.prems(1) abs base(1) e r Cons.prems(3) ok c] by blast
  let ?c = "count_applied e True c"
  have dirs2: "createdDirs ?c = (if True \<and> pe_type e = plannedEntryTypeDir then pe_path e # createdDirs c else createdDirs c)"
    by (simp add: count_applied_def)
  have inv2: "run_inv fs1 g (done @ [e]) (createdDirs ?c) fs2"
    unfolding dirs2 using run_inv_step(2) [OF Cons.prems(2) ok1 base e run, of True] by blast
  have "phys fs (butlast (elems (pe_path x)))" "clean_abs (pe_path x)" "\<not> Contains (pe_path x) NUL" if "x \<in> set (done @ [e])" for x
    using that Cons.prems(3) c r by (auto simp: placed_def entry_ready_def)
  then have "placed (done @ [e]) fs" by (simp add: placed_def)
  moreover have "pe_path e = abs_path (elems (pe_path e))" "\<forall>w \<in> set (elems (pe_path e)). elem_ok w"
    using abs_path_elems [OF c(1)] elems_ok by auto
  from apply_entry_keeps(1) [OF this c(2) ok grownD(4) [OF g] run] have "grown (nextino fs1) fs fs2" .
  ultimately have p2: "placed (done @ [e]) fs2" using placed_grown ok by blast
  have stats: "appliedEntries (stats ?c) = int (length (done @ [e]))" "finalizedDirectories (stats ?c) = finalizedDirectories (stats c)"
    "injector (execCtx ?c) = None"
    using Cons.prems(6,8,9) by (simp_all add: count_applied_def int64_range_def)
  have set2: "set (createdDirs ?c) = set (names plannedEntryTypeDir (done @ [e]))"
    using Cons.prems(7) by (simp add: dirs2 dirs_snoc)
  have "\<exists>c' fs'. create_entries k seeded g (Suc i) es ?c fs2 = ((None, c'), fs') \<and> built k seeded fs1 ((done @ [e]) @ es) {} fs' \<and>
      run_inv fs1 g ((done @ [e]) @ es) (createdDirs c') fs' \<and> placed ((done @ [e]) @ es) fs' \<and> injector (execCtx c') = None \<and>
      set (createdDirs c') = set (names plannedEntryTypeDir ((done @ [e]) @ es)) \<and>
      appliedEntries (stats c') = int (length ((done @ [e]) @ es)) \<and> finalizedDirectories (stats c') = finalizedDirectories (stats ?c)"
    by (rule Cons.IH [OF b2 inv2 p2 _ _ stats(3) set2 stats(1)]) (use Cons.prems(4,5,9) in simp_all)
  then show ?case using run faultless [OF Cons.prems(6)] stats(2) by simp
qed

section \<open>The second pass\<close>

lemma own_index:
  assumes "e \<in> set es" and "pe_type e \<noteq> plannedEntryTypeHardlink"
  obtains j where "j < length (own es)" and "own es ! j = e"
proof -
  have "e \<in> set (own es)" using assms by (simp add: own_def)
  then show ?thesis using that by (metis in_set_conv_nth)
qed

lemma own_distinct: "distinct (paths es) \<Longrightarrow> distinct (map pe_path (own es))"
  by (induction es) (auto simp: own_def paths_def)

text \<open>Metadata of one directory.\<close>

definition finished :: "kernel \<Rightarrow> plannedEntry \<Rightarrow> nat \<Rightarrow> (int \<Rightarrow> rng) \<Rightarrow> fsys \<Rightarrow> fsys" where
  "finished k e i seeded fs = stamped (pe_metadata e) i (set_ino i (entry_inode k seeded e) fs)"

lemma finished_simps [simp]:
  "ents (finished k e i seeded fs) = ents fs" "nextino (finished k e i seeded fs) = nextino fs"
  "inos (finished k e i seeded fs) = (inos fs)(i := entry_inode k seeded e)"
  by (simp_all add: finished_def stamped_def)

lemma stamps_finished: "stamps (finished k e i seeded fs) j =
    (if j = i \<and> hasTimestamps (pe_metadata e) then entry_stamp e else stamps fs j)"
  by (simp add: finished_def stamped_def entry_stamp_def Let_def)

lemma placed_finished:
  assumes "placed es fs" and "node (inos fs i) = NDir" and "pe_type e = plannedEntryTypeDir"
  shows "placed es (finished k e i seeded fs)"
  using assms by (simp add: placed_def finished_def stamped_def phys_iff dir_at_set_ino entry_inode_node entry_node_Dir)

lemma finish_dir:
  assumes k: "permissive k" and b: "built k seeded fs1 es fin fs" and p: "placed es fs" and e: "e \<in> set es"
    and t: "pe_type e = plannedEntryTypeDir" "pe_path e \<notin> fin" and r: "entry_ready seeded e" and d: "distinct (paths es)"
  shows "\<exists>fs'. applyMetadata k (pe_path e) (pe_mode e) (pe_metadata e) fs = (Inr (), fs') \<and>
    built k seeded fs1 es (insert (pe_path e) fin) fs' \<and> placed es fs' \<and> ents fs' = ents fs \<and>
    (\<forall>i < nextino fs1. inos fs' i = inos fs i)"
proof -
  note old = builtD [OF b]
  obtain j where j: "j < length (own es)" "own es ! j = e" using own_index [OF e] t(1) by auto
  let ?i = "nextino fs1 + j" and ?cs = "elems (pe_path e)"
  obtain m where m: "inos fs ?i = new_inode k NDir m" "stamps fs ?i = None"
    using old(3) [OF j(1)] t j(2) by (auto simp: inode_ready_def)
  have c: "clean_abs (pe_path e)" "\<not> Contains (pe_path e) NUL" "phys fs (butlast ?cs)" using p e by (auto simp: placed_def)
  have pl: "place_at fs ?cs ?i"
    using c old(2) [OF j(1)] j(2) elems_ok abs_path_elems [OF c(1)] by (auto simp: place_at_def)
  have "meta_inode (pe_mode e) (pe_metadata e) (inos fs ?i) = entry_inode k seeded e"
    using t(1) meta_new [of _ _ k _ m "0x1FF"] unfolding m(1) by (simp add: entry_inode_def entry_node_def Let_def)
  then have run: "applyMetadata k (abs_path ?cs) (pe_mode e) (pe_metadata e) fs = (Inr (), finished k e ?i seeded fs)"
    using applyMetadata_ok [OF k pl, of "pe_metadata e" "pe_mode e"] r
    by (simp add: m(1) entry_ready_def IsSymlink_def IsDir_def finished_def)
  have other: "own es ! j' \<noteq> e \<and> pe_path (own es ! j') \<noteq> pe_path e" if "j' < length (own es)" "j' \<noteq> j" for j'
    using nth_eq_iff_index_eq [OF own_distinct [OF d], of j' j] that j by auto
  have inode: "inode_ready k seeded (insert (pe_path e) fin) (own es ! j') (nextino fs1 + j') (finished k e ?i seeded fs)"
    if j': "j' < length (own es)" for j'
  proof (cases "j' = j")
    case True
    then show ?thesis using j(2) m(2) by (simp add: inode_ready_def stamps_finished entry_stamp_def Let_def)
  next
    case False
    then show ?thesis using old(3) [OF j'] other [OF j' False] by (simp add: inode_ready_def stamps_finished)
  qed
  have reg: "\<exists>i. map_of (ents fs) (elems q) = Some i \<and> IsRegular (((inos fs)(?i := entry_inode k seeded e)) i)"
    if q: "q \<in> set (names plannedEntryTypeFile es) \<union> set (names plannedEntryTypeHardlink es)" for q
  proof -
    obtain i where i: "map_of (ents fs) (elems q) = Some i" "IsRegular (inos fs i)" using old(5) [OF q] by blast
    then have "i \<noteq> ?i" using m(1) by (auto simp: IsRegular_def)
    then show ?thesis using i by auto
  qed
  have "built k seeded fs1 es (insert (pe_path e) fin) (finished k e ?i seeded fs)"
    unfolding built_def finished_simps
  proof (intro conjI allI impI ballI)
    show "nextino fs = nextino fs1 + length (own es)" by (rule old(1))
  qed (use inode reg old(2,4,6) in blast)+
  moreover have "placed es (finished k e ?i seeded fs)" by (rule placed_finished [OF p _ t(1)]) (simp add: m(1))
  ultimately show ?thesis using run abs_path_elems [OF c(1)] by auto
qed

definition dir_entries :: "(nat \<times> plannedEntry) list \<Rightarrow> plannedEntry list" where
  "dir_entries zs = filter (\<lambda>e. pe_type e = plannedEntryTypeDir) (map snd zs)"

lemma finish_all:
  assumes k: "permissive k" and r: "list_all (entry_ready seeded) es" and d: "distinct (paths es)"
    and dirs: "set (names plannedEntryTypeDir es) \<subseteq> created"
  shows "built k seeded fs1 es fin fs \<Longrightarrow> placed es fs \<Longrightarrow> set (map snd zs) \<subseteq> set es \<Longrightarrow> distinct (paths (map snd zs)) \<Longrightarrow>
    fin \<inter> set (paths (map snd zs)) = {} \<Longrightarrow> injector (execCtx c) = None \<Longrightarrow> set (createdDirs c) = created \<Longrightarrow>
    0 \<le> finalizedDirectories (stats c) \<Longrightarrow> finalizedDirectories (stats c) + int (length zs) < 2 ^ 63 \<Longrightarrow>
    \<exists>c' fs'. finalize_dirs k n zs c fs = ((None, c'), fs') \<and>
      built k seeded fs1 es (fin \<union> set (map pe_path (dir_entries zs))) fs' \<and> ents fs' = ents fs \<and>
      (\<forall>i < nextino fs1. inos fs' i = inos fs i) \<and> appliedEntries (stats c') = appliedEntries (stats c) \<and>
      finalizedDirectories (stats c') = finalizedDirectories (stats c) + int (length (dir_entries zs))"
proof (induction zs arbitrary: fin c fs)
  case Nil
  then show ?case by (simp add: dir_entries_def)
next
  case (Cons z zs)
  obtain i e where z: "z = (i, e)" by (cases z)
  have e: "e \<in> set es" using Cons.prems(3) z by simp
  show ?case
  proof (cases "pe_type e = plannedEntryTypeDir")
    case False
    have "\<exists>c' fs'. finalize_dirs k n zs c fs = ((None, c'), fs') \<and>
      built k seeded fs1 es (fin \<union> set (map pe_path (dir_entries zs))) fs' \<and> ents fs' = ents fs \<and>
      (\<forall>i < nextino fs1. inos fs' i = inos fs i) \<and> appliedEntries (stats c') = appliedEntries (stats c) \<and>
      finalizedDirectories (stats c') = finalizedDirectories (stats c) + int (length (dir_entries zs))"
      by (rule Cons.IH [OF Cons.prems(1,2) _ _ _ Cons.prems(6-8)])
        (use Cons.prems(3-5,9) in \<open>auto simp: paths_def\<close>)
    then show ?thesis using False z by (simp add: dir_entries_def)
  next
    case True
    have new: "pe_path e \<notin> fin" using Cons.prems(5) z by (simp add: paths_def)
    have ready: "entry_ready seeded e" using r e by (simp add: list_all_iff)
    have cr: "pe_path e \<in> set (createdDirs c)" using e True dirs Cons.prems(7) by (force simp: names_def)
    obtain fs2 where m: "applyMetadata k (pe_path e) (pe_mode e) (pe_metadata e) fs = (Inr (), fs2)"
      and s2: "built k seeded fs1 es (insert (pe_path e) fin) fs2" "placed es fs2" "ents fs2 = ents fs"
        "\<forall>i < nextino fs1. inos fs2 i = inos fs i"
      using finish_dir [OF k Cons.prems(1,2) e True new ready d] by blast
    let ?c = "c\<lparr>stats := (stats c)\<lparr>finalizedDirectories := wrap64 (finalizedDirectories (stats c) + 1)\<rparr>\<rparr>"
    have w: "wrap64 (finalizedDirectories (stats c) + 1) = finalizedDirectories (stats c) + 1"
      using Cons.prems(8,9) by (simp add: int64_range_def)
    have "\<exists>c' fs'. finalize_dirs k n zs ?c fs2 = ((None, c'), fs') \<and>
      built k seeded fs1 es (insert (pe_path e) fin \<union> set (map pe_path (dir_entries zs))) fs' \<and> ents fs' = ents fs2 \<and>
      (\<forall>i < nextino fs1. inos fs' i = inos fs2 i) \<and> appliedEntries (stats c') = appliedEntries (stats ?c) \<and>
      finalizedDirectories (stats c') = finalizedDirectories (stats ?c) + int (length (dir_entries zs))"
      by (rule Cons.IH [OF s2(1,2)]) (use Cons.prems(3-9) z w in \<open>auto simp: paths_def\<close>)
    then show ?thesis
      using True z cr m faultless [OF Cons.prems(6)] s2(3,4) w by (auto simp: dir_entries_def)
  qed
qed

section \<open>The whole run\<close>

text \<open>
  \<open>fs'\<close> holds the tree of the entries below \<open>bs\<close>: each entry with an inode of its own has the one it
  should, and its times; hard links name the inode of their target; all other entries have different
  inodes; at or below \<open>bs\<close> there is nothing else.
\<close>

definition entry_there :: "kernel \<Rightarrow> (int \<Rightarrow> rng) \<Rightarrow> plannedEntry \<Rightarrow> fsys \<Rightarrow> bool" where
  "entry_there k seeded e fs =
     (case map_of (ents fs) (elems (pe_path e)) of
        None \<Rightarrow> False
      | Some i \<Rightarrow>
          if pe_type e = plannedEntryTypeHardlink then map_of (ents fs) (elems (pe_linkTarget e)) = Some i
          else inos fs i = entry_inode k seeded e \<and> stamps fs i = entry_stamp e)"

definition tree_there :: "kernel \<Rightarrow> (int \<Rightarrow> rng) \<Rightarrow> string list \<Rightarrow> plannedEntry list \<Rightarrow> fsys \<Rightarrow> bool" where
  "tree_there k seeded bs es fs \<longleftrightarrow>
     list_all (\<lambda>e. entry_there k seeded e fs) es \<and>
     distinct (map (\<lambda>e. map_of (ents fs) (elems (pe_path e))) (own es)) \<and>
     list_all (\<lambda>x. Go_FS.below bs (fst x) \<longrightarrow> fst x \<in> set (map (\<lambda>e. elems (pe_path e)) es)) (ents fs)"

text \<open>
  Which bits of a planned mode arrive: \<^verbatim>\<open>os.Chmod\<close> gets the raw POSIX bits converted to an
  \<^verbatim>\<open>os.FileMode\<close>, where setuid, setgid and sticky lie elsewhere, so of a mode of twelve bits
  only the nine permission bits do.
\<close>

definition permission_bits_only :: "plannedEntry list \<Rightarrow> fsys \<Rightarrow> bool" where
  "permission_bits_only es fs \<longleftrightarrow>
     list_all (\<lambda>e. pe_type e \<noteq> plannedEntryTypeHardlink \<longrightarrow> pe_type e \<noteq> plannedEntryTypeSymlink \<longrightarrow> pe_mode e < 0x1000 \<longrightarrow>
       (case lookup fs (elems (pe_path e)) of None \<Rightarrow> False | Some i \<Rightarrow> imode i = and (pe_mode e) 0x1FF)) es"

lemma syscallMode_posix: "m < 0x1000 \<Longrightarrow> syscallMode m = and m 0x1FF"
proof -
  assume "m < 0x1000"
  then have "unat m < 2 ^ 12" by (simp add: word_less_nat_alt)
  then have "take_bit 12 (unat m) = unat m" by (rule take_bit_nat_eq_self)
  then have "\<not> bit m n" if "12 \<le> n" for n
    using that bit_take_bit_iff [of 12 "unat m" n] by (simp add: bit_unsigned_iff)
  then show ?thesis by (simp add: syscallMode_def)
qed

lemma entry_inode_mode:
  "pe_type e \<noteq> plannedEntryTypeSymlink \<Longrightarrow> imode (entry_inode k seeded e) = syscallMode (pe_mode e)"
  by (simp add: entry_inode_def meta_inode_def Let_def)

lemma tree_there_modes:
  assumes "tree_there k seeded bs es fs"
  shows "permission_bits_only es fs"
proof -
  have "case lookup fs (elems (pe_path e)) of None \<Rightarrow> False | Some i \<Rightarrow> imode i = and (pe_mode e) 0x1FF"
    if "e \<in> set es" "pe_type e \<noteq> plannedEntryTypeHardlink" "pe_type e \<noteq> plannedEntryTypeSymlink" "pe_mode e < 0x1000" for e
    using assms that entry_inode_mode [of e k seeded] syscallMode_posix
    by (auto simp: tree_there_def list_all_iff entry_there_def lookup_def split: option.splits dest!: bspec [of _ _ e])
  then show ?thesis by (simp add: permission_bits_only_def list_all_iff)
qed

lemma entries_below:
  assumes "entries_ok base es" and "e \<in> set es"
  shows "Go_FS.below (elems base) (elems (pe_path e))"
proof -
  obtain i where "i < length es" "es ! i = e" using assms(2) by (metis in_set_conv_nth)
  then have "entry_ok base (take i es) e" using assms(1) by (auto simp: entries_ok_prefix)
  then show ?thesis by (auto simp: entry_ok_def Plan_Spec.below_def Go_FS.below_def split: if_splits)
qed

lemma built_tree:
  assumes b: "built k seeded fs1 es (set (names plannedEntryTypeDir es)) fs" and abs: "absent fs1 bs"
  shows "tree_there k seeded bs es fs"
proof -
  note old = builtD [OF b]
  have there: "entry_there k seeded e fs" if e: "e \<in> set es" for e
  proof (cases "pe_type e = plannedEntryTypeHardlink")
    case True
    then have "pe_path e \<in> set (names plannedEntryTypeHardlink es)" "(pe_path e, pe_linkTarget e) \<in> set (hard_links es)"
      using e by (auto simp: names_def hard_links_def)
    then show ?thesis using True old(4) [of "(pe_path e, pe_linkTarget e)"] old(5) [of "pe_path e"]
      by (auto simp: entry_there_def)
  next
    case False
    obtain j where j: "j < length (own es)" "own es ! j = e" using own_index [OF e False] .
    have "pe_type e = plannedEntryTypeDir \<longrightarrow> pe_path e \<in> set (names plannedEntryTypeDir es)"
      using e by (auto simp: names_def)
    then show ?thesis
      using False j old(2) [OF j(1)] old(3) [OF j(1)] by (auto simp: entry_there_def inode_ready_def)
  qed
  have "distinct (map (\<lambda>e. map_of (ents fs) (elems (pe_path e))) (own es))"
    using old(2) by (auto simp: distinct_conv_nth)
  moreover have "fst x \<in> set (map (\<lambda>e. elems (pe_path e)) es)" if x: "x \<in> set (ents fs)" "Go_FS.below bs (fst x)" for x
  proof -
    have "map_of (ents fs) (fst x) \<noteq> None" using x(1) by (metis map_of_eq_None_iff image_eqI)
    moreover have "map_of (ents fs1) (fst x) = None"
      using x(2) abs by (force simp: absent_def list_all_iff map_of_eq_None_iff)
    ultimately show ?thesis using old(6) [of "fst x"] by (auto simp: paths_def)
  qed
  ultimately show ?thesis using there by (auto simp: tree_there_def list_all_iff)
qed

text \<open>What clearing the base leaves.\<close>

lemma clear_base_ok:
  assumes k: "permissive k" and base: "clean_abs (basePath g)" "\<not> Contains (basePath g) NUL" "phys fs (butlast (elems (basePath g)))"
    and ok: "inodes_ok fs"
    and mode: "runMode g = RunModeReplace \<and> basePath g \<noteq> ''/'' \<and> lookup fs (elems (basePath g)) \<noteq> None \<or>
      (\<forall>n. runMode g \<noteq> RunModeUnknown n) \<and> absent fs (elems (basePath g))"
  shows "\<exists>fs1. clear_base k g fs = (Inr (), fs1) \<and> absent fs1 (elems (basePath g)) \<and> inodes_ok fs1 \<and>
    phys fs1 (butlast (elems (basePath g))) \<and> nextino fs1 = nextino fs \<and> inos fs1 = inos fs \<and>
    (\<forall>q. \<not> Go_FS.below (elems (basePath g)) q \<longrightarrow> map_of (ents fs1) q = map_of (ents fs) q)"
proof -
  let ?bs = "elems (basePath g)"
  have p: "basePath g = abs_path ?bs" using abs_path_elems [OF base(1)] by simp
  have "basePath g \<noteq> []" using clean_abs_nonempty [OF base(1)] .
  have res: "resolve k fs False (basePath g) = Inr ?bs"
    using resolve_phys [of ?bs fs False k] base phys_root [OF base(3)] elems_ok p by auto
  show ?thesis
  proof (cases "lookup fs ?bs = None \<or> runMode g \<noteq> RunModeReplace")
    case True
    then have "absent fs ?bs" "\<forall>n. runMode g \<noteq> RunModeUnknown n" using mode by auto
    moreover have "clear_base k g fs = (Inr (), fs)"
      using True res \<open>\<forall>n. runMode g \<noteq> RunModeUnknown n\<close> \<open>basePath g \<noteq> []\<close>
      by (cases "runMode g") (auto simp: clear_base_def returnS_def wrapS_def os_RemoveAll_def)
    ultimately show ?thesis using ok base(3) by auto
  next
    case False
    then have m: "runMode g = RunModeReplace" and there: "lookup fs ?bs \<noteq> None" by auto
    have bs: "?bs \<noteq> []"
    proof
      assume "?bs = []"
      then have "absent fs []" "lookup fs [] \<noteq> None" using mode m there p by (auto simp: slash_def)
      then show False by (auto simp: absent_def list_all_iff lookup_def Go_FS.below_def dest!: map_of_SomeD)
    qed
    define fs1 where "fs1 = fold (\<lambda>e. touch_at (butlast (fst e))) (filter (\<lambda>e. Go_FS.below ?bs (fst e)) (ents fs))
        (fs\<lparr>ents := filter (\<lambda>e. \<not> Go_FS.below ?bs (fst e)) (ents fs)\<rparr>)"
    obtain i where "lookup fs ?bs = Some i" using there by blast
    then have run: "clear_base k g fs = (Inr (), fs1)"
      using k res bs m \<open>basePath g \<noteq> []\<close>
      by (simp add: clear_base_def wrapS_def os_RemoveAll_def Let_def permissive_def fs1_def)
    have e: "ents fs1 = filter (\<lambda>e. \<not> Go_FS.below ?bs (fst e)) (ents fs)" "inos fs1 = inos fs" "nextino fs1 = nextino fs"
      by (simp_all add: fs1_def)
    have f: "map_of (filter (\<lambda>e. P (fst e)) es) q = (if P q then map_of es q else None)" for P and es :: "(string list \<times> nat) list" and q
      by (induction es) auto
    have out: "map_of (ents fs1) q = map_of (ents fs) q" if "\<not> Go_FS.below ?bs q" for q
      using that f [of "\<lambda>x. \<not> Go_FS.below ?bs x" "ents fs" q] e(1) by simp
    have "\<not> Go_FS.below ?bs (take i (butlast ?bs))" for i
    proof
      assume "Go_FS.below ?bs (take i (butlast ?bs))"
      then obtain r where "take i (butlast ?bs) = ?bs @ r" by (rule Go_FS.belowE)
      then have "length (take i (butlast ?bs)) = length ?bs + length r" by simp
      moreover have "length (take i (butlast ?bs)) \<le> length ?bs - 1" by simp
      ultimately show False using bs by (cases ?bs) simp_all
    qed
    then have "dir_at fs1 (take i (butlast ?bs)) = dir_at fs (take i (butlast ?bs))" for i
      using out by (simp add: dir_at_ents e)
    then have "phys fs1 (butlast ?bs)" using base(3) by (simp add: phys_iff)
    moreover have "absent fs1 ?bs" "inodes_ok fs1" using ok by (auto simp: absent_def list_all_iff inodes_ok_iff e)
    ultimately show ?thesis using run out e by blast
  qed
qed

lemma applyRunPlan_ok:
  assumes k: "permissive k" and base: "clean_abs (basePath g)" "phys fs (butlast (elems (basePath g)))"
    and ok: "inodes_ok fs" and ctx: "injector ctx = None"
    and mode: "runMode g = RunModeReplace \<and> basePath g \<noteq> ''/'' \<and> lookup fs (elems (basePath g)) \<noteq> None \<or>
      (\<forall>n. runMode g \<noteq> RunModeUnknown n) \<and> absent fs (elems (basePath g))"
    and plan: "entries_ok (basePath g) (entries plan)" "entries plan \<noteq> []" "list_all (entry_ready seeded) (entries plan)"
      "int (length (entries plan)) < 2 ^ 63"
  shows "\<exists>fs'. applyRunPlan k seeded g plan ctx fs =
      ((\<lparr>appliedEntries = int (length (entries plan)),
         finalizedDirectories = int (length (names plannedEntryTypeDir (entries plan)))\<rparr>, None), fs') \<and>
    tree_there k seeded (elems (basePath g)) (entries plan) fs' \<and>
    (\<forall>q. \<not> Go_FS.below (elems (basePath g)) q \<longrightarrow> map_of (ents fs') q = map_of (ents fs) q \<and> lookup fs' q = lookup fs q)"
proof -
  let ?es = "entries plan" and ?bs = "elems (basePath g)"
  have "entry_ok (basePath g) [] (hd ?es)"
    using plan(1,2) by (auto simp: entries_ok_prefix hd_conv_nth dest: spec [of _ 0])
  then have "pe_path (hd ?es) = basePath g" "hd ?es \<in> set ?es" using plan(2) by (auto simp: entry_ok_def)
  then have nul: "\<not> Contains (basePath g) NUL" using plan(3) by (auto simp: list_all_iff entry_ready_def)
  obtain fs1 where clear: "clear_base k g fs = (Inr (), fs1)" and abs: "absent fs1 ?bs" and ok1: "inodes_ok fs1"
    and ph: "phys fs1 (butlast ?bs)" and same: "nextino fs1 = nextino fs" "inos fs1 = inos fs"
      "\<And>q. \<not> Go_FS.below ?bs q \<Longrightarrow> map_of (ents fs1) q = map_of (ents fs) q"
    using clear_base_ok [OF k base(1) nul base(2) ok mode] by blast
  let ?c = "\<lparr>stats = \<lparr>appliedEntries = 0, finalizedDirectories = 0\<rparr>, createdDirs = [], execCtx = ctx\<rparr>"
  have "built k seeded fs1 [] {} fs1" "run_inv fs1 g [] (createdDirs ?c) fs1" "placed [] fs1"
    using ok1 by (simp_all add: built_def own_def run_inv_def placed_def)
  from create_all [where es = ?es and i = 0, OF k abs base(1) ph ok1 this]
  obtain c fs2 where create: "create_entries k seeded g 0 ?es ?c fs1 = ((None, c), fs2)" and b: "built k seeded fs1 ?es {} fs2"
    and inv: "run_inv fs1 g ?es (createdDirs c) fs2" and pl: "placed ?es fs2" and inj: "injector (execCtx c) = None"
    and dirs: "set (createdDirs c) = set (names plannedEntryTypeDir ?es)"
    and st: "appliedEntries (stats c) = int (length ?es)" "finalizedDirectories (stats c) = 0"
    using plan(1,3,4) ctx by auto
  let ?zs = "rev (zip [0..<length ?es] ?es)"
  have snd: "map snd ?zs = rev ?es" by (simp add: rev_map [symmetric])
  have dist: "distinct (paths ?es)" using plan(1) by (rule entries_ok_distinct)
  have d: "set (map pe_path (dir_entries ?zs)) = set (names plannedEntryTypeDir ?es)"
    "length (dir_entries ?zs) = length (names plannedEntryTypeDir ?es)"
    unfolding dir_entries_def snd by (simp_all add: names_def rev_filter [symmetric])
  obtain c' fs3 where fin: "finalize_dirs k (int (length ?es)) ?zs c fs2 = ((None, c'), fs3)"
    and b3: "built k seeded fs1 ?es (set (names plannedEntryTypeDir ?es)) fs3" and e3: "ents fs3 = ents fs2"
    and i3: "\<forall>i < nextino fs1. inos fs3 i = inos fs2 i"
    and st3: "appliedEntries (stats c') = int (length ?es)" "finalizedDirectories (stats c') = int (length (names plannedEntryTypeDir ?es))"
    using finish_all [where created = "set (createdDirs c)" and fin = "{}" and zs = ?zs and c = c and n = "int (length ?es)",
        OF k plan(3) dist _ b pl] inj dirs st plan(4) dist d
    by (auto simp: snd paths_def rev_map [symmetric] simp del: set_map)
  have "applyRunPlan k seeded g plan ctx fs = ((stats c', None), fs3)"
    using clear create fin by (simp add: applyRunPlan_def Let_def)
  moreover have "stats c' = \<lparr>appliedEntries = int (length ?es), finalizedDirectories = int (length (names plannedEntryTypeDir ?es))\<rparr>"
    using st3 by simp
  moreover have "map_of (ents fs3) q = map_of (ents fs) q \<and> lookup fs3 q = lookup fs q" if q: "\<not> Go_FS.below ?bs q" for q
  proof (cases "map_of (ents fs1) q")
    case None
    have "q \<notin> elems ` set (paths ?es)" using q entries_below [OF plan(1)] by (auto simp: paths_def)
    then have "map_of (ents fs3) q = None" using None builtD(6) [OF b3, of q] by blast
    then show ?thesis using None same(3) [OF q] by (simp add: lookup_def)
  next
    case (Some i)
    have g: "grown (nextino fs1) fs1 fs2" using inv by (simp add: run_inv_def)
    have "map_of (ents fs3) q = Some i" using grownD(1) [OF g Some] e3 by simp
    moreover have "i < nextino fs1" using inodes_ok_lookup [OF ok1 Some] .
    then have "inos fs3 i = inos fs i" using i3 grownD(2) [OF g] same(2) by simp
    ultimately show ?thesis using Some same(3) [OF q] by (simp add: lookup_def)
  qed
  ultimately show ?thesis using built_tree [OF b3 abs] by auto
qed

section \<open>Property\<close>

text \<open>
  C3: a run builds its plan, up to the special mode bits. On a kernel that refuses nothing, without
  faults, for a base whose parent is a real directory and that is free (or is cleared by the replace
  mode), a plan without ACL metadata that can be created in its order and whose entries the file
  system can represent is applied in full: every entry counts, every directory is finalized.
  Afterwards each entry is there with its type, content, owner, attributes and times (those of a
  directory survive the creation of its children), hard links share the inode of their target and
  nothing else does, below the base there is nothing but the plan, and outside of it nothing has
  changed. Of the twelve bits of a planned mode exactly the nine permission bits arrive: setuid,
  setgid and sticky never do, contrary to the documentation.
\<close>

theorem applyRunPlan_builds:
  assumes "permissive k" and "clean_abs (basePath g)" and "phys fs (butlast (elems (basePath g)))"
    and "inodes_ok fs" and "injector ctx = None"
    and "runMode g = RunModeReplace \<and> basePath g \<noteq> ''/'' \<and> lookup fs (elems (basePath g)) \<noteq> None \<or>
      (\<forall>n. runMode g \<noteq> RunModeUnknown n) \<and> absent fs (elems (basePath g))"
    and "entries_ok (basePath g) (entries plan)" and "entries plan \<noteq> []"
    and "list_all (entry_ready seeded) (entries plan)" and "int (length (entries plan)) < 2 ^ 63"
  shows "\<exists>fs'. applyRunPlan k seeded g plan ctx fs =
      ((\<lparr>appliedEntries = int (length (entries plan)),
         finalizedDirectories = int (length (names plannedEntryTypeDir (entries plan)))\<rparr>, None), fs') \<and>
    tree_there k seeded (elems (basePath g)) (entries plan) fs' \<and>
    permission_bits_only (entries plan) fs' \<and>
    (\<forall>q. \<not> Go_FS.below (elems (basePath g)) q \<longrightarrow> map_of (ents fs') q = map_of (ents fs) q \<and> lookup fs' q = lookup fs q)"
  using applyRunPlan_ok [OF assms] tree_there_modes by blast

text \<open>
  The base \<open>/b\<close> of the sample is replaced by a tree with an entry of each type. The file is planned
  with mode 06600 and has mode 0600.
\<close>

definition sample_metadata :: metadataConfig where
  "sample_metadata = metadata0\<lparr>hasOwnership := True, md_uid := 7, md_gid := 8, hasTimestamps := True,
     md_atime := 10, md_mtime := 20, hasXAttrs := True, md_xattrs := [(''user.k'', [1])]\<rparr>"

definition full_plan :: runPlan where
  "full_plan =
     \<lparr>entries =
        [(entry0 plannedEntryTypeDir ''/b'')\<lparr>pe_mode := 0x1C0, pe_metadata := sample_metadata\<rparr>,
         (entry0 plannedEntryTypeFile ''/b/f'')\<lparr>pe_mode := 0xD80, pe_data := [7, 8], pe_metadata := sample_metadata\<rparr>,
         (entry0 plannedEntryTypeHardlink ''/b/h'')\<lparr>pe_linkTarget := ''/b/f''\<rparr>,
         (entry0 plannedEntryTypeSymlink ''/b/s'')\<lparr>pe_linkTarget := ''f''\<rparr>,
         (entry0 plannedEntryTypeSpecial ''/b/p'')\<lparr>pe_mode := 0x180, pe_special := SpecialFileTypeFIFO\<rparr>],
      planGroups = [], planMetrics = \<lparr>pathRetries = 0, pathCollisions = 0\<rparr>\<rparr>"

definition full_run :: "(applyStats \<times> applyCause option) \<times> fsys" where
  "full_run = applyRunPlan sample_kernel (\<lambda>s. []) ((New ''/b'')\<lparr>runMode := RunModeReplace\<rparr>) full_plan
     \<lparr>injector = None\<rparr> sample_fs"

theorem applyRunPlan_builds_witness:
  "snd (fst full_run) = None \<and> tree_there sample_kernel (\<lambda>s. []) [''b''] (entries full_plan) (snd full_run) \<and>
     map_option imode (lookup (snd full_run) [''b'', ''f'']) = Some 0x180 \<and>
     stamps (snd full_run) 5 = Some (10, 20) \<and> lookup (snd full_run) [''o''] = lookup sample_fs [''o'']"
proof -
  let ?g = "(New ''/b'')\<lparr>runMode := RunModeReplace\<rparr>"
  have g: "basePath ?g = ''/b''" "runMode ?g = RunModeReplace" by (simp_all add: New_def)
  have e: "elems ''/b'' = [''b'']" by code_simp
  have "permissive sample_kernel" by (simp add: permissive_def sample_kernel_def)
  moreover have "clean_abs ''/b''" "phys sample_fs (butlast [''b''])" "inodes_ok sample_fs"
    "entries_ok ''/b'' (entries full_plan)" "list_all (entry_ready (\<lambda>s. [])) (entries full_plan)"
    "lookup sample_fs [''b''] \<noteq> None" by code_simp+
  moreover have "entries full_plan \<noteq> []" "int (length (entries full_plan)) < 2 ^ 63" by (simp_all add: full_plan_def)
  ultimately obtain fs' where f: "full_run = ((\<lparr>appliedEntries = int (length (entries full_plan)),
         finalizedDirectories = int (length (names plannedEntryTypeDir (entries full_plan)))\<rparr>, None), fs')"
      "tree_there sample_kernel (\<lambda>s. []) [''b''] (entries full_plan) fs'"
      "permission_bits_only (entries full_plan) fs'"
      "\<forall>q. \<not> Go_FS.below [''b''] q \<longrightarrow> map_of (ents fs') q = map_of (ents sample_fs) q \<and> lookup fs' q = lookup sample_fs q"
    using applyRunPlan_builds [of sample_kernel ?g sample_fs "\<lparr>injector = None\<rparr>" full_plan "\<lambda>s. []"]
    unfolding g e full_run_def by auto
  have "snd full_run = fs'" "snd (fst full_run) = None" unfolding f(1) by (rule snd_conv, simp only: fst_conv snd_conv)
  moreover have "stamps (snd full_run) 5 = Some (10, 20)" by code_simp
  moreover have "\<not> Go_FS.below [''b''] [''o'']" by code_simp
  then have "lookup fs' [''o''] = lookup sample_fs [''o'']" using f(4) by blast
  moreover have p: "elems ''/b/f'' = [''b'', ''f'']" by code_simp
  moreover have "map_option imode (lookup fs' [''b'', ''f'']) = Some 0x180"
  proof -
    let ?e = "entries full_plan ! 1"
    have "?e \<in> set (entries full_plan)" "pe_type ?e = plannedEntryTypeFile" "pe_mode ?e = 0xD80" "pe_path ?e = ''/b/f''"
      by (simp_all add: full_plan_def entry0_def)
    then show ?thesis
      using bspec [OF f(3) [unfolded permission_bits_only_def list_all_iff], of ?e] p
      by (cases "lookup fs' [''b'', ''f'']") simp_all
  qed
  ultimately show ?thesis using f(2) by (simp only: simp_thms)
qed

end
