(* ===== verification/Coverage_Pairwise.thy ===== *)
theory Coverage_Pairwise
  imports Go_Base
begin

text \<open>
  The pairwise covering array of the deterministic coverage (\<^verbatim>\<open>coverage_enumerator.go\<close>,
  \<open>coveragePairwise\<close>). A dimension is its cardinality, a test case picks one value per
  dimension. The loop runs until no pair of values is uncovered, so it is a partial function
  that returns \<^const>\<open>None\<close> if it never ends; \<open>coveragePairwise_covers\<close> shows that it always
  returns, that every pair of values of two dimensions is in a returned case, and how many
  cases there are at most. A slot of a test case not yet filled (\<^verbatim>\<open>-1\<close> in the code) is \<^const>\<open>None\<close>.
\<close>

section \<open>The algorithm\<close>

record covPair =
  cp_d1 :: nat
  cp_d2 :: nat
  cp_v1 :: nat
  cp_v2 :: nat

definition all_pairs :: "nat list \<Rightarrow> covPair list" where
  "all_pairs sizes =
     [\<lparr>cp_d1 = d1, cp_d2 = d2, cp_v1 = v1, cp_v2 = v2\<rparr>.
        d1 \<leftarrow> [0..<length sizes - 1], d2 \<leftarrow> [d1 + 1..<length sizes],
        v1 \<leftarrow> [0..<sizes ! d1], v2 \<leftarrow> [0..<sizes ! d2]]"

text \<open>Does the value \<open>v\<close> in slot \<open>d\<close> cover the pair, given the slots already filled?\<close>

definition counts_pair :: "nat option list \<Rightarrow> nat \<Rightarrow> nat \<Rightarrow> covPair \<Rightarrow> bool" where
  "counts_pair tc d v p \<longleftrightarrow>
     cp_d1 p = d \<and> tc ! cp_d2 p \<noteq> None \<and> cp_v1 p = v \<and> Some (cp_v2 p) = tc ! cp_d2 p \<or>
     cp_d2 p = d \<and> tc ! cp_d1 p \<noteq> None \<and> cp_v2 p = v \<and> Some (cp_v1 p) = tc ! cp_d1 p"

definition pair_count :: "covPair list \<Rightarrow> nat option list \<Rightarrow> nat \<Rightarrow> nat \<Rightarrow> nat" where
  "pair_count uncovered tc d v = length (filter (counts_pair tc d v) uncovered)"

text \<open>The value with the greatest count, the first one of several; \<open>b\<close> is the best so far.\<close>

fun best_value :: "(nat \<Rightarrow> nat) \<Rightarrow> nat list \<Rightarrow> nat \<times> int \<Rightarrow> nat \<times> int" where
  "best_value cnt [] b = b"
| "best_value cnt (v # vs) b =
     best_value cnt vs (if int (cnt v) > snd b then (v, int (cnt v)) else b)"

fun fill_slots :: "nat list \<Rightarrow> covPair list \<Rightarrow> nat list \<Rightarrow> nat option list \<Rightarrow> nat option list" where
  "fill_slots sizes uncovered [] tc = tc"
| "fill_slots sizes uncovered (d # ds) tc =
     (if tc ! d \<noteq> None then fill_slots sizes uncovered ds tc
      else fill_slots sizes uncovered ds
             (tc[d := Some (fst (best_value (pair_count uncovered tc d) [0..<sizes ! d] (0, - 1)))]))"

definition seed_case :: "nat \<Rightarrow> covPair \<Rightarrow> nat option list" where
  "seed_case n seed = (replicate n None)[cp_d1 seed := Some (cp_v1 seed), cp_d2 seed := Some (cp_v2 seed)]"

definition covers_pair :: "nat option list \<Rightarrow> covPair \<Rightarrow> bool" where
  "covers_pair tc p \<longleftrightarrow> tc ! cp_d1 p = Some (cp_v1 p) \<and> tc ! cp_d2 p = Some (cp_v2 p)"

definition next_case :: "nat list \<Rightarrow> covPair list \<Rightarrow> nat option list" where
  "next_case sizes uncovered =
     fill_slots sizes uncovered [0..<length sizes] (seed_case (length sizes) (hd uncovered))"

partial_function (option) cover_loop :: "nat list \<Rightarrow> covPair list \<Rightarrow> nat list list \<Rightarrow> nat list list option" where
  "cover_loop sizes uncovered cases =
     (if uncovered = [] then Some cases
      else let tc = next_case sizes uncovered in
        cover_loop sizes (filter (\<lambda>p. \<not> covers_pair tc p) uncovered) (cases @ [map the tc]))"

declare cover_loop.simps [code]

definition coveragePairwise :: "int list \<Rightarrow> nat list list option" where
  "coveragePairwise dimSizes =
     (let n = length dimSizes; sizes = map nat dimSizes in
      if n = 0 then Some []
      else if list_ex (\<lambda>size. size \<le> 0) dimSizes then Some []
      else if n = 1 then Some (map (\<lambda>i. [i]) [0..<hd sizes])
      else cover_loop sizes (all_pairs sizes) [])"

section \<open>Filling a test case\<close>

text \<open>A pair of values of two dimensions, and a complete test case.\<close>

definition pair_ok :: "nat list \<Rightarrow> covPair \<Rightarrow> bool" where
  "pair_ok sizes p \<longleftrightarrow> cp_d1 p < cp_d2 p \<and> cp_d2 p < length sizes \<and>
     cp_v1 p < sizes ! cp_d1 p \<and> cp_v2 p < sizes ! cp_d2 p"

definition slots_ok :: "nat list \<Rightarrow> nat option list \<Rightarrow> bool" where
  "slots_ok sizes tc \<longleftrightarrow> length tc = length sizes \<and>
     (\<forall>i v. i < length sizes \<longrightarrow> tc ! i = Some v \<longrightarrow> v < sizes ! i)"

lemma set_all_pairs: "p \<in> set (all_pairs sizes) \<longleftrightarrow> pair_ok sizes p"
proof -
  have "p \<in> set (all_pairs sizes)" if "pair_ok sizes p"
  proof -
    have "\<lparr>cp_d1 = cp_d1 p, cp_d2 = cp_d2 p, cp_v1 = cp_v1 p, cp_v2 = cp_v2 p\<rparr> \<in> set (all_pairs sizes)"
      using that unfolding all_pairs_def pair_ok_def
      by (simp, intro bexI [of _ "cp_d1 p"] bexI [of _ "cp_d2 p"] bexI [of _ "cp_v1 p"]) auto
    then show ?thesis by (cases p) simp
  qed
  then show ?thesis by (auto simp: all_pairs_def pair_ok_def)
qed

lemma best_value_mem: "fst (best_value cnt vs b) \<in> insert (fst b) (set vs)"
  by (induction cnt vs b rule: best_value.induct) auto

text \<open>The choice is greedy: no value of the slot is in more uncovered pairs.\<close>

lemma best_value_max:
  "snd b \<le> snd (best_value cnt vs b) \<and> (\<forall>v \<in> set vs. int (cnt v) \<le> snd (best_value cnt vs b))"
proof (induction cnt vs b rule: best_value.induct)
  case (2 cnt v vs b)
  then show ?case by (auto split: if_splits)
qed simp

lemma best_value_first:
  assumes "0 < n"
  shows "fst (best_value cnt [0..<n] (0, - 1)) < n"
    and "\<forall>v < n. cnt v \<le> cnt (fst (best_value cnt [0..<n] (0, - 1)))"
proof -
  have inv: "snd b = - 1 \<or> snd b = int (cnt (fst b)) \<Longrightarrow>
      snd (best_value cnt vs b) = - 1 \<or> snd (best_value cnt vs b) = int (cnt (fst (best_value cnt vs b)))" for vs b
    by (induction cnt vs b rule: best_value.induct) auto
  show "fst (best_value cnt [0..<n] (0, - 1)) < n"
    using best_value_mem [of cnt "[0..<n]" "(0, - 1)"] assms by auto
  have "int (cnt v) \<le> snd (best_value cnt [0..<n] (0, - 1))" if "v < n" for v
    using best_value_max [of "(0, - 1)" cnt "[0..<n]"] that by auto
  moreover from this [OF assms] inv [of "(0, - 1)" "[0..<n]"]
  have "snd (best_value cnt [0..<n] (0, - 1)) = int (cnt (fst (best_value cnt [0..<n] (0, - 1))))" by auto
  ultimately show "\<forall>v < n. cnt v \<le> cnt (fst (best_value cnt [0..<n] (0, - 1)))" by (metis of_nat_le_iff)
qed

lemma not_not_None: "x = None \<Longrightarrow> \<not> x \<noteq> None"
  by simp

lemma fill_slots_props:
  assumes "slots_ok sizes tc" and "\<forall>d \<in> set ds. d < length sizes" and "\<forall>size \<in> set sizes. 0 < size"
  shows "slots_ok sizes (fill_slots sizes U ds tc)"
    and "tc ! i = Some v \<Longrightarrow> i < length sizes \<Longrightarrow> fill_slots sizes U ds tc ! i = Some v"
    and "d \<in> set ds \<Longrightarrow> fill_slots sizes U ds tc ! d \<noteq> None"
proof -
  have "slots_ok sizes (fill_slots sizes U ds tc) \<and>
      (\<forall>i v. tc ! i = Some v \<longrightarrow> i < length sizes \<longrightarrow> fill_slots sizes U ds tc ! i = Some v) \<and>
      (\<forall>d \<in> set ds. fill_slots sizes U ds tc ! d \<noteq> None)"
    using assms
  proof (induction sizes U ds tc rule: fill_slots.induct)
    case (2 sizes U d ds tc)
    show ?case
    proof (cases "tc ! d = None")
      case False
      have step: "fill_slots sizes U (d # ds) tc = fill_slots sizes U ds tc" using False by simp
      obtain v where v: "tc ! d = Some v" using False by auto
      have ds: "\<forall>d \<in> set ds. d < length sizes" and d: "d < length sizes" using 2(4) by simp_all
      note IH = 2(1) [OF False 2(3) ds 2(5)]
      have "fill_slots sizes U ds tc ! d = Some v" using IH v d by blast
      then show ?thesis unfolding step using IH by simp
    next
      case True
      let ?v = "fst (best_value (pair_count U tc d) [0..<sizes ! d] (0, - 1))"
      let ?tc = "tc[d := Some ?v]"
      have d: "d < length sizes" "length tc = length sizes" using 2(3,4) by (simp_all add: slots_ok_def)
      have "sizes ! d \<in> set sizes" using d by simp
      then have "?v < sizes ! d" using 2(5) by (intro best_value_first) blast
      then have ok: "slots_ok sizes ?tc" using 2(3) d by (auto simp: slots_ok_def nth_list_update)
      have ds: "\<forall>d \<in> set ds. d < length sizes" using 2(4) by simp
      have IH:
        "slots_ok sizes (fill_slots sizes U ds ?tc)"
        "\<forall>i v. ?tc ! i = Some v \<longrightarrow> i < length sizes \<longrightarrow> fill_slots sizes U ds ?tc ! i = Some v"
        "\<forall>d \<in> set ds. fill_slots sizes U ds ?tc ! d \<noteq> None"
        using 2(2) [OF not_not_None [OF True] ok ds 2(5)] by simp_all
      have step: "fill_slots sizes U (d # ds) tc = fill_slots sizes U ds ?tc" using True by simp
      have "?tc ! i = Some v" if "tc ! i = Some v" for i v using that True by (cases "i = d") auto
      then have "\<forall>i v. tc ! i = Some v \<longrightarrow> i < length sizes \<longrightarrow> fill_slots sizes U ds ?tc ! i = Some v"
        using IH(2) by metis
      moreover have "fill_slots sizes U ds ?tc ! d = Some ?v" using IH(2) d by simp
      ultimately show ?thesis unfolding step using IH(1,3) by simp
    qed
  qed simp
  then show "slots_ok sizes (fill_slots sizes U ds tc)"
    "tc ! i = Some v \<Longrightarrow> i < length sizes \<Longrightarrow> fill_slots sizes U ds tc ! i = Some v"
    "d \<in> set ds \<Longrightarrow> fill_slots sizes U ds tc ! d \<noteq> None" by (metis)+
qed

section \<open>Every pair is covered\<close>

definition case_ok :: "nat list \<Rightarrow> nat list \<Rightarrow> bool" where
  "case_ok sizes tc \<longleftrightarrow> length tc = length sizes \<and> (\<forall>i < length sizes. tc ! i < sizes ! i)"

lemma seed_case_ok:
  assumes "pair_ok sizes p"
  shows "slots_ok sizes (seed_case (length sizes) p)"
    and "seed_case (length sizes) p ! cp_d1 p = Some (cp_v1 p)"
    and "seed_case (length sizes) p ! cp_d2 p = Some (cp_v2 p)"
  using assms by (auto simp: seed_case_def pair_ok_def slots_ok_def nth_list_update split: if_splits)

lemma next_case_ok:
  assumes "U \<noteq> []" and "\<forall>p \<in> set U. pair_ok sizes p" and pos: "\<forall>size \<in> set sizes. 0 < size"
  shows "covers_pair (next_case sizes U) (hd U)" and "case_ok sizes (map the (next_case sizes U))"
    and "pair_ok sizes p \<Longrightarrow> covers_pair (next_case sizes U) p \<Longrightarrow>
      map the (next_case sizes U) ! cp_d1 p = cp_v1 p \<and> map the (next_case sizes U) ! cp_d2 p = cp_v2 p"
proof -
  have hd: "pair_ok sizes (hd U)" using assms(1,2) by simp
  then have d: "cp_d1 (hd U) < length sizes" "cp_d2 (hd U) < length sizes" by (auto simp: pair_ok_def)
  note fill = fill_slots_props [OF seed_case_ok(1) [OF hd] _ pos]
  have ok: "slots_ok sizes (next_case sizes U)" unfolding next_case_def by (rule fill(1)) simp
  have len: "length (next_case sizes U) = length sizes" using ok by (simp add: slots_ok_def)
  have some: "next_case sizes U ! i \<noteq> None" if "i < length sizes" for i
    unfolding next_case_def using that by (intro fill(3)) auto
  show "covers_pair (next_case sizes U) (hd U)"
    unfolding covers_pair_def next_case_def
    using d seed_case_ok(2,3) [OF hd] by (intro conjI fill(2)) auto
  show "case_ok sizes (map the (next_case sizes U))"
    unfolding case_ok_def using ok some len by (auto simp: slots_ok_def)
  show "map the (next_case sizes U) ! cp_d1 p = cp_v1 p \<and> map the (next_case sizes U) ! cp_d2 p = cp_v2 p"
    if "pair_ok sizes p" "covers_pair (next_case sizes U) p"
    using that len by (simp add: covers_pair_def pair_ok_def)
qed

lemma cover_loop_covers:
  assumes "\<forall>p \<in> set U. pair_ok sizes p" and pos: "\<forall>size \<in> set sizes. 0 < size"
  shows "\<exists>new. cover_loop sizes U cases = Some (cases @ new) \<and> length new \<le> length U \<and>
    list_all (case_ok sizes) new \<and>
    (\<forall>p \<in> set U. \<exists>tc \<in> set new. tc ! cp_d1 p = cp_v1 p \<and> tc ! cp_d2 p = cp_v2 p)"
  using assms(1)
proof (induction "length U" arbitrary: U cases rule: less_induct)
  case less
  show ?case
  proof (cases "U = []")
    case True
    then show ?thesis by (subst cover_loop.simps) simp
  next
    case False
    let ?tc = "next_case sizes U"
    let ?V = "filter (\<lambda>p. \<not> covers_pair ?tc p) U"
    note tc = next_case_ok [OF False less.prems pos]
    have "hd U \<in> set U" using False by simp
    then have len: "length ?V < length U" using tc(1) by (intro length_filter_less) auto
    have "\<forall>p \<in> set ?V. pair_ok sizes p" using less.prems by simp
    from less.hyps [OF len this, of "cases @ [map the ?tc]"] obtain new where
      new: "cover_loop sizes ?V (cases @ [map the ?tc]) = Some ((cases @ [map the ?tc]) @ new)"
        "length new \<le> length ?V" "list_all (case_ok sizes) new"
        "\<forall>p \<in> set ?V. \<exists>tc \<in> set new. tc ! cp_d1 p = cp_v1 p \<and> tc ! cp_d2 p = cp_v2 p" by blast
    have "cover_loop sizes U cases = Some (cases @ (map the ?tc # new))"
      using False new(1) by (subst cover_loop.simps) (simp add: Let_def)
    moreover have "length (map the ?tc # new) \<le> length U" using new(2) len by simp
    moreover have "list_all (case_ok sizes) (map the ?tc # new)" using new(3) tc(2) by simp
    moreover have "\<forall>p \<in> set U. \<exists>tc \<in> set (map the ?tc # new). tc ! cp_d1 p = cp_v1 p \<and> tc ! cp_d2 p = cp_v2 p"
    proof
      fix p
      assume p: "p \<in> set U"
      show "\<exists>tc \<in> set (map the ?tc # new). tc ! cp_d1 p = cp_v1 p \<and> tc ! cp_d2 p = cp_v2 p"
      proof (cases "covers_pair ?tc p")
        case True
        with tc(3) [OF _ True] less.prems p show ?thesis by simp
      next
        case False
        then have "p \<in> set ?V" using p by simp
        with new(4) show ?thesis by auto
      qed
    qed
    ultimately show ?thesis by blast
  qed
qed

text \<open>The number of pairs, and with it of cases.\<close>

definition pair_total :: "nat list \<Rightarrow> nat" where
  "pair_total sizes =
     (\<Sum>d1 \<leftarrow> [0..<length sizes - 1]. \<Sum>d2 \<leftarrow> [d1 + 1..<length sizes]. sizes ! d1 * sizes ! d2)"

lemma length_all_pairs: "length (all_pairs sizes) = pair_total sizes"
  by (simp add: all_pairs_def pair_total_def length_concat o_def sum_list_triv)

lemma coveragePairwise_result:
  assumes pos: "\<forall>size \<in> set sizes. 0 < size" and len: "2 \<le> length sizes"
  shows "\<exists>cases. coveragePairwise (map int sizes) = Some cases \<and> list_all (case_ok sizes) cases \<and>
    (\<forall>p. pair_ok sizes p \<longrightarrow> (\<exists>tc \<in> set cases. tc ! cp_d1 p = cp_v1 p \<and> tc ! cp_d2 p = cp_v2 p)) \<and>
    length cases \<le> pair_total sizes"
proof -
  obtain new where new: "cover_loop sizes (all_pairs sizes) [] = Some new" "length new \<le> pair_total sizes"
    "list_all (case_ok sizes) new"
    "\<forall>p \<in> set (all_pairs sizes). \<exists>tc \<in> set new. tc ! cp_d1 p = cp_v1 p \<and> tc ! cp_d2 p = cp_v2 p"
    using cover_loop_covers [of "all_pairs sizes" sizes "[]"] pos by (auto simp: set_all_pairs length_all_pairs)
  have "map nat (map int sizes) = sizes" by (simp add: o_def)
  then have "coveragePairwise (map int sizes) = Some new"
    using pos len new(1) by (auto simp: coveragePairwise_def Let_def list_ex_iff)
  with new show ?thesis by (auto simp: set_all_pairs)
qed

text \<open>
  C31: \<^verbatim>\<open>coveragePairwise\<close> returns for every list of positive cardinalities. Each returned test
  case picks an existing value for every dimension, and for every two dimensions and every pair
  of their values some test case has both. There are at most as many cases as pairs.
\<close>

theorem coveragePairwise_covers:
  assumes "\<forall>size \<in> set dimSizes. 0 < size" and "2 \<le> length dimSizes"
  shows "\<exists>cases. coveragePairwise dimSizes = Some cases \<and>
    list_all (\<lambda>tc. length tc = length dimSizes \<and> (\<forall>i < length dimSizes. int (tc ! i) < dimSizes ! i)) cases \<and>
    (\<forall>i j a b. i < j \<longrightarrow> j < length dimSizes \<longrightarrow> int a < dimSizes ! i \<longrightarrow> int b < dimSizes ! j \<longrightarrow>
       (\<exists>tc \<in> set cases. tc ! i = a \<and> tc ! j = b)) \<and>
    length cases \<le> pair_total (map nat dimSizes)"
proof -
  let ?sizes = "map nat dimSizes"
  have map_int: "map int ?sizes = dimSizes" using assms(1) by (intro nth_equalityI) (auto simp: less_imp_le)
  have "\<forall>size \<in> set ?sizes. 0 < size" "2 \<le> length ?sizes" using assms by auto
  from coveragePairwise_result [OF this] map_int obtain cases where
    res: "coveragePairwise dimSizes = Some cases" "list_all (case_ok ?sizes) cases"
      "\<forall>p. pair_ok ?sizes p \<longrightarrow> (\<exists>tc \<in> set cases. tc ! cp_d1 p = cp_v1 p \<and> tc ! cp_d2 p = cp_v2 p)"
      "length cases \<le> pair_total ?sizes" by auto
  have "list_all (\<lambda>tc. length tc = length dimSizes \<and> (\<forall>i < length dimSizes. int (tc ! i) < dimSizes ! i)) cases"
    using res(2) by (simp add: list_all_iff case_ok_def zless_nat_eq_int_zless)
  moreover have "\<exists>tc \<in> set cases. tc ! i = a \<and> tc ! j = b"
    if "i < j" "j < length dimSizes" "int a < dimSizes ! i" "int b < dimSizes ! j" for i j a b
    using that res(3) [rule_format, of "\<lparr>cp_d1 = i, cp_d2 = j, cp_v1 = a, cp_v2 = b\<rparr>"]
    by (simp add: pair_ok_def zless_nat_eq_int_zless)
  ultimately show ?thesis using res(1,4) by blast
qed

theorem coveragePairwise_covers_witness:
  "\<exists>cases. coveragePairwise [2, 3, 2] = Some cases \<and> (\<exists>tc \<in> set cases. tc ! 1 = 2 \<and> tc ! 2 = 1) \<and> length cases \<le> 16"
proof -
  have "\<forall>size \<in> set [2, 3, 2 :: int]. 0 < size" "2 \<le> length [2, 3, 2 :: int]" by simp_all
  from coveragePairwise_covers [OF this] obtain cases where
    cases: "coveragePairwise [2, 3, 2] = Some cases"
      "\<forall>i j a b. i < j \<longrightarrow> j < length [2, 3, 2 :: int] \<longrightarrow> int a < [2, 3, 2] ! i \<longrightarrow> int b < [2, 3, 2] ! j \<longrightarrow>
         (\<exists>tc \<in> set cases. tc ! i = a \<and> tc ! j = b)"
      "length cases \<le> pair_total (map nat [2, 3, 2])" by blast
  have "pair_total (map nat [2, 3, 2]) = 16" by code_simp
  moreover have "\<exists>tc \<in> set cases. tc ! 1 = 2 \<and> tc ! 2 = 1"
    using cases(2) [rule_format, of 1 2 2 1] by simp
  ultimately show ?thesis using cases(1,3) by auto
qed

end
