(* ===== verification/Coverage_Names.thy ===== *)
theory Coverage_Names
  imports Generators
begin

text \<open>
  The deterministic names of the coverage cells (\<^verbatim>\<open>coverage_naming.go\<close>): a name is a body of the
  requested class and a suffix from the identifier of its cell, both computed from the 64-bit
  identifier alone, by FNV-1a hashing (\<^verbatim>\<open>hash/fnv\<close>) and a linear congruential stream.
\<close>

section \<open>Hash and stream\<close>

text \<open>\<^verbatim>\<open>fnv.New64a\<close>: one step per byte written.\<close>

definition fnv64a :: "8 word list \<Rightarrow> 64 word" where
  "fnv64a bs = foldl (\<lambda>h b. xor h (ucast b) * 1099511628211) 14695981039346656037 bs"

definition string_bytes :: "string \<Rightarrow> 8 word list" where
  "string_bytes s = map (\<lambda>c. word_of_nat (of_char c)) s"

text \<open>The eight bytes of an identifier, the low one first.\<close>

definition seedBytes :: "64 word \<Rightarrow> 8 word list" where
  "seedBytes cellID = map (\<lambda>i. ucast (drop_bit (8 * i) cellID)) [0..<8]"

definition lcg :: "64 word \<Rightarrow> 64 word" where
  "lcg stream = stream * 6364136223846793005 + 1442695040888963407"

definition top_byte :: "64 word \<Rightarrow> 8 word" where
  "top_byte stream = ucast (drop_bit 56 stream)"

text \<open>\<open>advance\<close>: the next byte of the stream.\<close>

definition advance :: "64 word \<Rightarrow> nat \<times> 64 word" where
  "advance stream = (let s = lcg stream in (unat (top_byte s), s))"

fun advances :: "nat \<Rightarrow> 64 word \<Rightarrow> nat list \<times> 64 word" where
  "advances 0 s = ([], s)"
| "advances (Suc n) s =
     (case advance s of (b, s') \<Rightarrow> (case advances n s' of (bs, s'') \<Rightarrow> (b # bs, s'')))"

definition stream_bytes :: "nat \<Rightarrow> 64 word \<Rightarrow> 8 word list" where
  "stream_bytes n s = map word_of_nat (fst (advances n s))"

definition coverageCellID :: "string list \<Rightarrow> 64 word" where
  "coverageCellID parts = fnv64a (concat (map (\<lambda>p. string_bytes p @ [0]) parts))"

section \<open>Name classes\<close>

datatype coverageNameClass =
    coverageNameClassBasic | coverageNameClassLeadingSpaces | coverageNameClassTrailingSpaces
  | coverageNameClassLeadingDots | coverageNameClassNewlineTab | coverageNameClassControlChars
  | coverageNameClassInvalidUTF8 | coverageNameClassUnicodeNormalization
  | coverageNameClassNearMaxBytes | coverageNameClassUnknown "8 word"

definition coverageNameClass_String :: "coverageNameClass \<Rightarrow> string" where
  "coverageNameClass_String c =
     (case c of
        coverageNameClassBasic \<Rightarrow> ''basic''
      | coverageNameClassLeadingSpaces \<Rightarrow> ''leading-spaces''
      | coverageNameClassTrailingSpaces \<Rightarrow> ''trailing-spaces''
      | coverageNameClassLeadingDots \<Rightarrow> ''leading-dots''
      | coverageNameClassNewlineTab \<Rightarrow> ''newline-tab''
      | coverageNameClassControlChars \<Rightarrow> ''control-chars''
      | coverageNameClassInvalidUTF8 \<Rightarrow> ''invalid-utf8''
      | coverageNameClassUnicodeNormalization \<Rightarrow> ''unicode-normalization''
      | coverageNameClassNearMaxBytes \<Rightarrow> ''near-max-bytes''
      | coverageNameClassUnknown n \<Rightarrow> unknown_name n)"

definition coverageNameClassAll :: "coverageNameClass list" where
  "coverageNameClassAll =
     [coverageNameClassBasic, coverageNameClassLeadingSpaces, coverageNameClassTrailingSpaces,
      coverageNameClassLeadingDots, coverageNameClassNewlineTab, coverageNameClassControlChars,
      coverageNameClassInvalidUTF8, coverageNameClassUnicodeNormalization,
      coverageNameClassNearMaxBytes]"

definition coverageBasicAlphabet :: string where
  "coverageBasicAlphabet = ''abcdefghijklmnopqrstuvwxyzABCDEFGHIJKLMNOPQRSTUVWXYZ0123456789-_''"

definition coverageInvalidUTF8Sequences :: "string list" where
  "coverageInvalidUTF8Sequences =
     [[CHR 0x80], [CHR 0xBF], [CHR 0xC0], [CHR 0xC1], [CHR 0xF5], [CHR 0xFF],
      [CHR 0xC2, CHR 0x80], [CHR 0xE0, CHR 0x80]]"

definition coverageCombiningSequence :: string where
  "coverageCombiningSequence =
     [CHR 0xCC, CHR 0x81, CHR 0xCC, CHR 0x82, CHR 0xCC, CHR 0x83, CHR 0xCC, CHR 0x84]"

definition coverageNameMinLen :: int where
  "coverageNameMinLen = 8"

definition coverageNameDefaultLen :: int where
  "coverageNameDefaultLen = 16"

definition NameMaxBytes :: int where
  "NameMaxBytes = 255"

section \<open>Suffix and body\<close>

definition coverageCellIDSuffix :: "64 word \<Rightarrow> string" where
  "coverageCellIDSuffix cellID =
     CHR ''_'' # map (\<lambda>i. hex_alphabet ! unat (and (drop_bit (4 * (7 - i)) cellID) 0xF)) [0..<8]"

definition basic_char :: "nat \<Rightarrow> char" where
  "basic_char b = coverageBasicAlphabet ! (b mod length coverageBasicAlphabet)"

text \<open>The length of a run of edge bytes, cut to the body but one.\<close>

definition clamp_run :: "nat \<Rightarrow> nat \<Rightarrow> nat" where
  "clamp_run n bodyLen = (if n > bodyLen - 1 then (if bodyLen - 1 < 1 then 1 else bodyLen - 1) else n)"

text \<open>A prefix of the body is replaced; bytes past its end are dropped.\<close>

definition overwrite_front :: "string \<Rightarrow> string \<Rightarrow> string" where
  "overwrite_front front body = take (length body) front @ drop (length front) body"

fun invalid_fill :: "nat \<Rightarrow> nat \<Rightarrow> 64 word \<Rightarrow> string \<Rightarrow> string" where
  "invalid_fill 0 bodyLen s w = w"
| "invalid_fill (Suc n) bodyLen s w =
     (if length w < bodyLen
      then case advance s of (b, s') \<Rightarrow>
        invalid_fill n bodyLen s'
          (take bodyLen (w @ coverageInvalidUTF8Sequences ! (b mod length coverageInvalidUTF8Sequences)))
      else w)"

definition combining_byte :: "nat \<Rightarrow> char" where
  "combining_byte i = coverageCombiningSequence ! (i mod length coverageCombiningSequence)"

text \<open>\<open>i\<close> counts the marks; a mark is two bytes, the second one if there is room.\<close>

fun combining_fill :: "nat \<Rightarrow> nat \<Rightarrow> nat \<Rightarrow> string \<Rightarrow> string" where
  "combining_fill 0 i bodyLen w = w"
| "combining_fill (Suc n) i bodyLen w =
     (if length w + 1 < bodyLen
      then let w1 = w @ [combining_byte (i * 2)];
               w2 = (if length w1 < bodyLen then w1 @ [combining_byte (i * 2 + 1)] else w1)
        in combining_fill n (i + 1) bodyLen w2
      else w)"

text \<open>The run of class-specific bytes, from the stream after the fill.\<close>

definition edge_body :: "coverageNameClass \<Rightarrow> nat \<Rightarrow> string \<Rightarrow> 64 word \<Rightarrow> string" where
  "edge_body class bodyLen body stream =
     (case advance stream of (b, s) \<Rightarrow>
      (case class of
         coverageNameClassLeadingSpaces \<Rightarrow>
           overwrite_front (replicate (clamp_run (1 + b mod 3) bodyLen) (CHR '' '')) body
       | coverageNameClassTrailingSpaces \<Rightarrow>
           rev (overwrite_front (replicate (clamp_run (1 + b mod 3) bodyLen) (CHR '' '')) (rev body))
       | coverageNameClassLeadingDots \<Rightarrow>
           overwrite_front (replicate (clamp_run (1 + b mod 2) bodyLen) (CHR ''.'')) body
       | coverageNameClassNewlineTab \<Rightarrow>
           overwrite_front (map (\<lambda>b. [CHR 0x0A, CHR 0x0D, CHR 0x09] ! (b mod 3))
             (fst (advances (clamp_run (1 + b mod 3) bodyLen) s))) body
       | coverageNameClassControlChars \<Rightarrow>
           overwrite_front (map (\<lambda>b. char_of (1 + b mod 31))
             (fst (advances (clamp_run (1 + b mod 4) bodyLen) s))) body
       | coverageNameClassInvalidUTF8 \<Rightarrow>
           overwrite_front (invalid_fill (1 + b mod 3) bodyLen s []) body
       | coverageNameClassUnicodeNormalization \<Rightarrow>
           overwrite_front (combining_fill (1 + b mod 3) 0 bodyLen ''e'') body
       | _ \<Rightarrow> body))"

definition coverageNameBody :: "coverageNameClass \<Rightarrow> int \<Rightarrow> 64 word \<Rightarrow> string" where
  "coverageNameBody class bodyLen0 cellID =
     (let bodyLen = nat (if bodyLen0 \<le> 0 then 1 else bodyLen0) in
      case advances bodyLen (fnv64a (seedBytes cellID)) of
        (bs, stream) \<Rightarrow> edge_body class bodyLen (map basic_char bs) stream)"

definition coverageNameNearMax :: "64 word \<Rightarrow> string \<Rightarrow> string" where
  "coverageNameNearMax cellID suffix =
     (let bodyLen0 = NameMaxBytes - int (length suffix);
          bodyLen = nat (if bodyLen0 < 1 then 1 else bodyLen0) in
      map basic_char (fst (advances bodyLen (fnv64a (seedBytes cellID)))) @ suffix)"

definition coverageDeterministicName :: "coverageNameClass \<Rightarrow> int \<Rightarrow> 64 word \<Rightarrow> string" where
  "coverageDeterministicName class targetLen0 cellID =
     (let targetLen = (if targetLen0 < coverageNameMinLen then coverageNameDefaultLen else targetLen0);
          suffix = coverageCellIDSuffix cellID;
          bodyLen0 = targetLen - int (length suffix);
          bodyLen = (if bodyLen0 < 1 then 1 else bodyLen0) in
      case class of
        coverageNameClassNearMaxBytes \<Rightarrow> coverageNameNearMax cellID suffix
      | _ \<Rightarrow> coverageNameBody class bodyLen cellID @ suffix)"

section \<open>Names are legal\<close>

lemma advances_length [simp]: "length (fst (advances n s)) = n"
  by (induction n arbitrary: s) (auto split: prod.splits simp: prod_eq_iff)

lemma stream_bytes_length [simp]: "length (stream_bytes n s) = n"
  by (simp add: stream_bytes_def)

lemma alphabets_legal:
  "list_all name_byte coverageBasicAlphabet" "list_all name_byte coverageCombiningSequence"
  "list_all (list_all name_byte) coverageInvalidUTF8Sequences" "list_all name_byte hex_alphabet"
  by (simp_all add: coverageBasicAlphabet_def coverageCombiningSequence_def coverageInvalidUTF8Sequences_def
      hex_alphabet_def name_byte_def NUL_def slash_def)

lemma list_all_nthI: "list_all P xs \<Longrightarrow> i < length xs \<Longrightarrow> P (xs ! i)"
  by (simp add: list_all_length)

lemma basic_char_legal: "name_byte (basic_char b)"
  unfolding basic_char_def
  by (rule list_all_nthI [OF alphabets_legal(1)]) (simp add: coverageBasicAlphabet_def)

lemma combining_byte_legal: "name_byte (combining_byte i)"
  unfolding combining_byte_def
  by (rule list_all_nthI [OF alphabets_legal(2)]) (simp add: coverageCombiningSequence_def)

lemma overwrite_front_legal:
  assumes "list_all name_byte front" and "list_all name_byte body"
  shows "list_all name_byte (overwrite_front front body)" and "length (overwrite_front front body) = length body"
  using assms by (auto simp: overwrite_front_def list_all_iff dest: in_set_takeD in_set_dropD)

lemma invalid_fill_legal: "list_all name_byte w \<Longrightarrow> list_all name_byte (invalid_fill n len s w)"
proof (induction n len s w rule: invalid_fill.induct)
  case (2 n len s w)
  obtain b s' where adv: "advance s = (b, s')" by fastforce
  have "list_all name_byte (coverageInvalidUTF8Sequences ! (b mod length coverageInvalidUTF8Sequences))"
    by (rule list_all_nthI [OF alphabets_legal(3)]) (simp add: coverageInvalidUTF8Sequences_def)
  then have "list_all name_byte (take len (w @ coverageInvalidUTF8Sequences ! (b mod length coverageInvalidUTF8Sequences)))"
    using 2(2) by (auto simp: list_all_iff dest: in_set_takeD)
  then show ?case using 2 adv by simp
qed simp

lemma combining_fill_legal: "list_all name_byte w \<Longrightarrow> list_all name_byte (combining_fill n i len w)"
  by (induction n i len w rule: combining_fill.induct) (auto simp: Let_def combining_byte_legal)

lemma control_char_legal: "name_byte (char_of (1 + b mod 31 :: nat))"
proof -
  have lt: "b mod 31 < (31 :: nat)" by simp
  have c: "of_char (char_of (1 + b mod 31 :: nat)) = 1 + b mod 31" using lt by (simp add: of_char_of)
  have "of_char NUL = (0 :: nat)" "of_char slash = (47 :: nat)" by (simp_all add: NUL_def slash_def)
  then have "char_of (1 + b mod 31) \<noteq> NUL" using c by (metis add_is_0 one_neq_zero)
  moreover have "char_of (1 + b mod 31) \<noteq> slash"
  proof
    assume "char_of (1 + b mod 31) = slash"
    then have "1 + b mod 31 = 47" using c \<open>of_char slash = 47\<close> by metis
    with lt show False by linarith
  qed
  ultimately show ?thesis by (simp add: name_byte_def)
qed


lemma edge_body_legal:
  assumes "list_all name_byte body" and "length body = n"
  shows "list_all name_byte (edge_body class n body stream) \<and> length (edge_body class n body stream) = n"
proof -
  obtain b s where adv: "advance stream = (b, s)" by fastforce
  have rep: "list_all name_byte (replicate k c)" if "name_byte c" for k c using that by (simp add: list_all_length)
  have nl: "list_all name_byte (map (\<lambda>b. [CHR 0x0A, CHR 0x0D, CHR 0x09] ! (b mod 3)) bs)" for bs :: "nat list"
    by (auto simp: list_all_iff intro!: list_all_nthI [of name_byte "[CHR 0x0A, CHR 0x0D, CHR 0x09]"])
  have ctl: "list_all name_byte (map (\<lambda>b. char_of (1 + b mod 31 :: nat)) bs)" for bs :: "nat list"
    using control_char_legal by (simp add: list_all_iff)
  note front = overwrite_front_legal [OF _ assms(1)]
  have "list_all name_byte (rev body)" using assms(1) by simp
  note tail = overwrite_front_legal [OF rep this]
  show ?thesis
    using assms front [OF rep] tail front [OF nl] front [OF ctl]
      front [OF invalid_fill_legal] front [OF combining_fill_legal]
    by (cases "class") (simp_all add: edge_body_def adv del: invalid_fill.simps combining_fill.simps)
qed

lemma coverageNameBody_legal:
  "list_all name_byte (coverageNameBody class n cellID) \<and>
   length (coverageNameBody class n cellID) = nat (if n \<le> 0 then 1 else n)"
proof -
  let ?n = "nat (if n \<le> 0 then 1 else n)"
  obtain bs s where adv: "advances ?n (fnv64a (seedBytes cellID)) = (bs, s)" by fastforce
  then have "length bs = ?n" by (metis advances_length fst_conv)
  then have "list_all name_byte (map basic_char bs)" "length (map basic_char bs) = ?n"
    using basic_char_legal by (simp_all add: list_all_iff)
  from edge_body_legal [OF this] show ?thesis by (simp add: coverageNameBody_def adv)
qed

text \<open>The suffix has the low 32 bits of the identifier.\<close>

lemma hex_digits_numeral:
  "hex_digits w n = map (\<lambda>i. hex_char (n div 16 ^ (w - 1 - i))) [0..<w]"
proof (induction w arbitrary: n)
  case (Suc w)
  have "n div 16 div 16 ^ (w - 1 - i) = n div 16 ^ (w - i)" if "i < w" for i
  proof -
    have "w - i = Suc (w - 1 - i)" using that by simp
    then show ?thesis by (simp only: power_Suc div_mult2_eq)
  qed
  then show ?case by (simp add: Suc)
qed simp

lemma nibble: "unat (and (drop_bit (4 * k) (c :: 64 word)) 0xF) = unat c div 16 ^ k mod 16"
proof -
  have "unat (and (drop_bit (4 * k) c) 0xF) = unat (take_bit 4 (drop_bit (4 * k) c))"
    by (simp add: take_bit_eq_mask mask_eq_exp_minus_1)
  also have "\<dots> = take_bit 4 (drop_bit (4 * k) (unat c))" by (simp add: unsigned_take_bit_eq unat_drop_bit_eq)
  also have "\<dots> = unat c div 16 ^ k mod 16"
    by (simp add: take_bit_eq_mod drop_bit_eq_div power_mult)
  finally show ?thesis .
qed

lemma coverageCellIDSuffix_hex: "coverageCellIDSuffix cellID = CHR ''_'' # hex_digits 8 (unat cellID)"
  unfolding coverageCellIDSuffix_def hex_digits_numeral [of 8] hex_char_def nibble by simp

lemma suffix_length [simp]: "length (coverageCellIDSuffix cellID) = 9"
  by (simp add: coverageCellIDSuffix_hex)

lemma suffix_legal: "list_all name_byte (coverageCellIDSuffix cellID)"
proof -
  have "list_all name_byte (hex_digits 8 (unat cellID))"
    using hex_digits_set [of 8 "unat cellID"] alphabets_legal(4) unfolding list_all_iff by blast
  moreover have "name_byte (CHR ''_'')" by (simp add: name_byte_def NUL_def slash_def)
  ultimately show ?thesis by (simp add: coverageCellIDSuffix_hex)
qed

lemma suffix_inj:
  "coverageCellIDSuffix a = coverageCellIDSuffix b \<Longrightarrow> unat a mod 2 ^ 32 = unat b mod 2 ^ 32"
  using hex_digits_inj [of 8 "unat a" "unat b"] by (simp add: coverageCellIDSuffix_hex)

text \<open>A name is a legal body, not empty, and the suffix.\<close>

definition name_length :: "coverageNameClass \<Rightarrow> int \<Rightarrow> int" where
  "name_length class targetLen =
     (if class = coverageNameClassNearMaxBytes then 255
      else if targetLen < 8 then 16 else if targetLen < 10 then 10 else targetLen)"

lemma name_parts:
  "\<exists>body. coverageDeterministicName class targetLen cellID = body @ coverageCellIDSuffix cellID \<and>
     list_all name_byte body \<and> int (length body) = name_length class targetLen - 9"
proof (cases "class = coverageNameClassNearMaxBytes")
  case True
  let ?bs = "fst (advances 246 (fnv64a (seedBytes cellID)))"
  have "coverageDeterministicName class targetLen cellID = map basic_char ?bs @ coverageCellIDSuffix cellID"
    using True by (simp add: coverageDeterministicName_def coverageNameNearMax_def NameMaxBytes_def)
  moreover have "list_all name_byte (map basic_char ?bs)" using basic_char_legal by (simp add: list_all_iff)
  ultimately show ?thesis using True by (intro exI [of _ "map basic_char ?bs"]) (simp add: name_length_def)
next
  case False
  let ?t = "if targetLen < 8 then 16 else targetLen"
  let ?n = "if ?t - 9 < 1 then 1 else ?t - 9"
  have "coverageDeterministicName class targetLen cellID = coverageNameBody class ?n cellID @ coverageCellIDSuffix cellID"
    using False by (cases "class")
      (simp_all add: coverageDeterministicName_def Let_def coverageNameMinLen_def coverageNameDefaultLen_def)
  moreover have "int (nat (if ?n \<le> 0 then 1 else ?n)) = name_length class targetLen - 9"
    using False by (simp add: name_length_def)
  ultimately show ?thesis using coverageNameBody_legal [of "class" ?n cellID] by metis
qed

lemma name_elem_ok:
  shows "elem_ok (coverageDeterministicName class targetLen cellID)"
    and "list_all name_byte (coverageDeterministicName class targetLen cellID)"
    and "int (length (coverageDeterministicName class targetLen cellID)) = name_length class targetLen"
proof -
  obtain body where b: "coverageDeterministicName class targetLen cellID = body @ coverageCellIDSuffix cellID"
    "list_all name_byte body" "int (length body) = name_length class targetLen - 9" using name_parts by blast
  show legal: "list_all name_byte (coverageDeterministicName class targetLen cellID)"
    unfolding b(1) using b(2) suffix_legal by simp
  have "CHR ''_'' \<in> set (coverageDeterministicName class targetLen cellID)"
    unfolding b(1) by (simp add: coverageCellIDSuffix_hex)
  then show "elem_ok (coverageDeterministicName class targetLen cellID)"
    using legal by (auto simp: elem_ok_def dot_def dotdot_def list_all_iff name_byte_def)
  show "int (length (coverageDeterministicName class targetLen cellID)) = name_length class targetLen"
    unfolding b(1) using b(3) by simp
qed

lemma name_suffix_eq:
  assumes "coverageDeterministicName c1 n1 a = coverageDeterministicName c2 n2 b"
  shows "coverageCellIDSuffix a = coverageCellIDSuffix b"
proof -
  obtain u v where "coverageDeterministicName c1 n1 a = u @ coverageCellIDSuffix a"
    "coverageDeterministicName c2 n2 b = v @ coverageCellIDSuffix b" using name_parts by metis
  with assms show ?thesis by simp
qed

text \<open>
  C33: The name of a cell is a legal path component for every class, target and identifier: it is
  not empty, \<^verbatim>\<open>.\<close> or \<^verbatim>\<open>..\<close>, has no NUL byte and no slash, and its length is that of the class
  (255 for the long class, else the target, at least ten bytes). Two cells have the same name only
  if their identifiers agree in the low 32 bits, whatever their classes are. Beyond these bits
  names do collide: cells 1 and \<^verbatim>\<open>0x500000001\<close> have the same combining-mark name.
\<close>

theorem coverageDeterministicName_legal:
  "(\<forall>class targetLen cellID. let name = coverageDeterministicName class targetLen cellID in
      elem_ok name \<and> list_all name_byte name \<and> int (length name) = name_length class targetLen) \<and>
   (\<forall>c1 c2 n1 n2 a b. unat a mod 2 ^ 32 \<noteq> unat b mod 2 ^ 32 \<longrightarrow>
      coverageDeterministicName c1 n1 a \<noteq> coverageDeterministicName c2 n2 b) \<and>
   coverageDeterministicName coverageNameClassUnicodeNormalization coverageNameDefaultLen 1 =
     coverageDeterministicName coverageNameClassUnicodeNormalization coverageNameDefaultLen 0x500000001"
proof (intro conjI allI impI)
  show "let name = coverageDeterministicName class targetLen cellID in
      elem_ok name \<and> list_all name_byte name \<and> int (length name) = name_length class targetLen"
    for "class" targetLen cellID using name_elem_ok by (simp add: Let_def)
  show "coverageDeterministicName c1 n1 a \<noteq> coverageDeterministicName c2 n2 b"
    if "unat a mod 2 ^ 32 \<noteq> unat b mod 2 ^ 32" for c1 c2 n1 n2 a b
    using that name_suffix_eq suffix_inj by blast
  show "coverageDeterministicName coverageNameClassUnicodeNormalization coverageNameDefaultLen 1 =
     coverageDeterministicName coverageNameClassUnicodeNormalization coverageNameDefaultLen 0x500000001"
    by code_simp
qed

theorem coverageDeterministicName_legal_witness:
  "coverageDeterministicName coverageNameClassBasic 16 1 \<noteq> coverageDeterministicName coverageNameClassLeadingDots 16 2"
proof -
  have "unat (1 :: 64 word) mod 2 ^ 32 \<noteq> unat (2 :: 64 word) mod 2 ^ 32" by simp
  then show ?thesis using coverageDeterministicName_legal by blast
qed

end
