(* ===== verification/Coverage_Content.thy ===== *)
theory Coverage_Content
  imports Coverage_Names Content_Patterns
begin

text \<open>
  The deterministic contents of the coverage cells (\<^verbatim>\<open>coverage_content.go\<close>): the size and content
  classes, the seeds and lengths drawn from the identifier of the cell, and the planned content
  of a cell. The lemmas show that every planned content can be written.
\<close>

section \<open>Classes\<close>

datatype coverageContentClass =
    coverageContentClassPlain | coverageContentClassDenseRandom | coverageContentClassSparseHoles
  | coverageContentClassRepeatedBlocks | coverageContentClassPartialRangeOverwrite
  | coverageContentClassUnknown "8 word"

definition coverageContentClass_String :: "coverageContentClass \<Rightarrow> string" where
  "coverageContentClass_String c =
     (case c of
        coverageContentClassPlain \<Rightarrow> ''plain''
      | coverageContentClassDenseRandom \<Rightarrow> ''dense-random''
      | coverageContentClassSparseHoles \<Rightarrow> ''sparse-holes''
      | coverageContentClassRepeatedBlocks \<Rightarrow> ''repeated-blocks''
      | coverageContentClassPartialRangeOverwrite \<Rightarrow> ''partial-range-overwrite''
      | coverageContentClassUnknown n \<Rightarrow> unknown_name n)"

definition coverageContentClassAll :: "coverageContentClass list" where
  "coverageContentClassAll =
     [coverageContentClassPlain, coverageContentClassDenseRandom, coverageContentClassSparseHoles,
      coverageContentClassRepeatedBlocks, coverageContentClassPartialRangeOverwrite]"

datatype coverageSizeClass =
    coverageSizeClassZero | coverageSizeClassOne | coverageSizeClassTiny
  | coverageSizeClassBelowChunk | coverageSizeClassExactChunk | coverageSizeClassAboveChunk
  | coverageSizeClassTwoChunksPlusTail | coverageSizeClassUnknown "8 word"

definition coverageSizeClass_String :: "coverageSizeClass \<Rightarrow> string" where
  "coverageSizeClass_String c =
     (case c of
        coverageSizeClassZero \<Rightarrow> ''size-0''
      | coverageSizeClassOne \<Rightarrow> ''size-1''
      | coverageSizeClassTiny \<Rightarrow> ''size-tiny''
      | coverageSizeClassBelowChunk \<Rightarrow> ''size-below-chunk''
      | coverageSizeClassExactChunk \<Rightarrow> ''size-exact-chunk''
      | coverageSizeClassAboveChunk \<Rightarrow> ''size-above-chunk''
      | coverageSizeClassTwoChunksPlusTail \<Rightarrow> ''size-two-chunks-plus-tail''
      | coverageSizeClassUnknown n \<Rightarrow> unknown_name n)"

definition coverageSizeClassAll :: "coverageSizeClass list" where
  "coverageSizeClassAll =
     [coverageSizeClassZero, coverageSizeClassOne, coverageSizeClassTiny, coverageSizeClassBelowChunk,
      coverageSizeClassExactChunk, coverageSizeClassAboveChunk, coverageSizeClassTwoChunksPlusTail]"

definition coverageSizeBytes :: "coverageSizeClass \<Rightarrow> int" where
  "coverageSizeBytes c =
     (let chunk = int defaultContentWriteChunkSize in
      case c of
        coverageSizeClassZero \<Rightarrow> 0
      | coverageSizeClassOne \<Rightarrow> 1
      | coverageSizeClassTiny \<Rightarrow> 16
      | coverageSizeClassBelowChunk \<Rightarrow> chunk - 1
      | coverageSizeClassExactChunk \<Rightarrow> chunk
      | coverageSizeClassAboveChunk \<Rightarrow> chunk + 1
      | coverageSizeClassTwoChunksPlusTail \<Rightarrow> 2 * chunk + 7
      | coverageSizeClassUnknown n \<Rightarrow> chunk)"

section \<open>Seeds and data\<close>

definition coverageDeterministicSeed :: "string \<Rightarrow> 64 word \<Rightarrow> int" where
  "coverageDeterministicSeed label cellID =
     uint (and (fnv64a (string_bytes label @ [0] @ seedBytes cellID)) 0x7FFFFFFFFFFFFFFF)"

definition coveragePlainData :: "int \<Rightarrow> 64 word \<Rightarrow> 8 word list" where
  "coveragePlainData sz cellID =
     (if sz \<le> 0 then []
      else stream_bytes (nat sz) (word_of_int (coverageDeterministicSeed ''plain'' cellID)))"

text \<open>\<^verbatim>\<open>int64(stream % uint64(n)) + 1\<close>, cut to \<open>n\<close>.\<close>

definition seeded_pick :: "string \<Rightarrow> 64 word \<Rightarrow> int \<Rightarrow> int" where
  "seeded_pick label cellID maxLength =
     (let pick = coverageDeterministicSeed label cellID mod maxLength + 1 in
      if pick > maxLength then maxLength else pick)"

definition coverageSparseSegmentLength :: "int \<Rightarrow> 64 word \<Rightarrow> int" where
  "coverageSparseSegmentLength sz cellID =
     (if sz \<le> 0 then 0
      else if sz = 1 then 1
      else let maxLength = (if sz - 1 > defaultPatternSegmentMaxLength
                 then defaultPatternSegmentMaxLength else sz - 1) in
        seeded_pick ''sparse-length'' cellID maxLength)"

definition coveragePartialSegmentLength :: "int \<Rightarrow> 64 word \<Rightarrow> nat \<Rightarrow> int" where
  "coveragePartialSegmentLength sz cellID index =
     (if sz \<le> 0 then 0
      else let maxLength = (if sz > defaultPatternSegmentMaxLength
                 then defaultPatternSegmentMaxLength else sz);
               pick = seeded_pick (''partial-length-'' @ show_nat index) cellID maxLength in
        if pick > sz then sz else pick)"

definition coverageDeterministicOffset :: "int \<Rightarrow> int \<Rightarrow> 64 word \<Rightarrow> int" where
  "coverageDeterministicOffset sz len cellID =
     (if sz \<le> 0 \<or> len \<le> 0 \<or> len \<ge> sz then 0
      else let remaining = sz - len in
        if remaining \<le> 0 then 0
        else coverageDeterministicSeed ''offset'' cellID mod (remaining + 1))"

definition coverageRepeatedBlock :: "int \<Rightarrow> 64 word \<Rightarrow> 8 word list" where
  "coverageRepeatedBlock sz cellID =
     (let blockLen0 = (if sz > 0 \<and> sz < int defaultContentWriteChunkSize then nat sz
                       else defaultContentWriteChunkSize);
          blockLen = (if blockLen0 = 0 then 1 else blockLen0) in
      stream_bytes blockLen (word_of_int (coverageDeterministicSeed ''repeated-block'' cellID)))"

section \<open>The content of a cell\<close>

definition partial_update :: "int \<Rightarrow> 64 word \<Rightarrow> nat \<Rightarrow> plannedContentRange" where
  "partial_update sz cellID i =
     (let len = coveragePartialSegmentLength sz cellID i in
      \<lparr>rg_offset = coverageDeterministicOffset sz len (cellID + word_of_nat i + 1),
       rg_length = len,
       rg_seed = coverageDeterministicSeed (''partial-extent-'' @ show_nat i) cellID\<rparr>)"

definition coverageContentFor ::
  "coverageContentClass \<Rightarrow> coverageSizeClass \<Rightarrow> 64 word \<Rightarrow> err + plannedFileContent" where
  "coverageContentFor class sizeClass cellID =
     (let sz = coverageSizeBytes sizeClass in
      case class of
        coverageContentClassPlain \<Rightarrow> Inr content0
      | coverageContentClassDenseRandom \<Rightarrow>
          Inr (content0\<lparr>pc_pattern := ContentPatternDenseRandom, pc_logicalSize := sz,
                 pc_expectedWrittenBytes := sz, pc_expectedSparse := False,
                 pc_seed := coverageDeterministicSeed ''dense-random'' cellID\<rparr>)
      | coverageContentClassSparseHoles \<Rightarrow>
          let content = content0\<lparr>pc_pattern := ContentPatternSparseHoles, pc_logicalSize := sz\<rparr> in
          if sz = 0 then Inr content
          else let len = coverageSparseSegmentLength sz cellID;
                   offset = coverageDeterministicOffset sz len cellID in
            Inr (content\<lparr>
                   pc_sparseExtents := [\<lparr>rg_offset = offset, rg_length = len,
                     rg_seed = coverageDeterministicSeed ''sparse-extent'' cellID\<rparr>],
                   pc_expectedWrittenBytes := len, pc_expectedSparse := (sz > len)\<rparr>)
      | coverageContentClassRepeatedBlocks \<Rightarrow>
          Inr (content0\<lparr>pc_pattern := ContentPatternRepeatedBlocks, pc_logicalSize := sz,
                 pc_expectedWrittenBytes := sz, pc_expectedSparse := False,
                 pc_repeatedBlock := coverageRepeatedBlock sz cellID\<rparr>)
      | coverageContentClassPartialRangeOverwrite \<Rightarrow>
          let content = content0\<lparr>pc_pattern := ContentPatternPartialRangeOverwrite, pc_logicalSize := sz,
                 pc_expectedWrittenBytes := sz, pc_expectedSparse := False,
                 pc_seed := coverageDeterministicSeed ''partial-base'' cellID\<rparr> in
          if sz = 0 then Inr content
          else let updates = map (partial_update sz cellID) [0..<defaultPartialOverwriteCount] in
            Inr (content\<lparr>pc_expectedWrittenBytes := wrap64 (sz + extents_length updates),
                   pc_overwriteExtents := updates\<rparr>)
      | coverageContentClassUnknown n \<Rightarrow> Err ''unsupported coverage content class'')"

section \<open>Every content can be written\<close>

lemma seed_range: "0 \<le> coverageDeterministicSeed label cellID \<and> coverageDeterministicSeed label cellID < 2 ^ 63"
proof -
  have "and (w :: 64 word) 0x7FFFFFFFFFFFFFFF = take_bit 63 w" for w
    by (simp add: take_bit_eq_mask mask_eq_exp_minus_1)
  then have "coverageDeterministicSeed label cellID =
      uint (take_bit 63 (fnv64a (string_bytes label @ [0] @ seedBytes cellID)))"
    by (simp only: coverageDeterministicSeed_def)
  also have "\<dots> = take_bit 63 (uint (fnv64a (string_bytes label @ [0] @ seedBytes cellID)))"
    by (simp add: unsigned_take_bit_eq)
  finally show ?thesis using take_bit_int_less_exp [of 63] by simp
qed

lemma size_bounds: "0 \<le> coverageSizeBytes c" "coverageSizeBytes c \<le> 131079"
  by (cases c; simp add: coverageSizeBytes_def defaultContentWriteChunkSize_def)+

lemma seeded_pick_range: "0 < n \<Longrightarrow> 1 \<le> seeded_pick label cellID n \<and> seeded_pick label cellID n \<le> n"
  using seed_range [of label cellID] pos_mod_sign [of n "coverageDeterministicSeed label cellID"]
  by (simp add: seeded_pick_def Let_def)

lemma offset_range:
  "1 \<le> len \<Longrightarrow> len \<le> sz \<Longrightarrow>
   0 \<le> coverageDeterministicOffset sz len cellID \<and> coverageDeterministicOffset sz len cellID + len \<le> sz"
  using pos_mod_bound [of "sz - len + 1" "coverageDeterministicSeed ''offset'' cellID"]
  by (auto simp: coverageDeterministicOffset_def Let_def)

lemma sparse_length_range:
  assumes "0 < sz"
  shows "1 \<le> coverageSparseSegmentLength sz cellID \<and> coverageSparseSegmentLength sz cellID \<le> sz"
proof (cases "sz = 1")
  case False
  let ?m = "if sz - 1 > defaultPatternSegmentMaxLength then defaultPatternSegmentMaxLength else sz - 1"
  have "0 < ?m" "?m \<le> sz" using assms False by (simp_all add: defaultPatternSegmentMaxLength_def)
  then show ?thesis
    using seeded_pick_range [of ?m "''sparse-length''" cellID] assms False
    by (simp add: coverageSparseSegmentLength_def Let_def split: if_splits)
qed (simp add: coverageSparseSegmentLength_def)

lemma partial_length_range:
  assumes "0 < sz"
  shows "1 \<le> coveragePartialSegmentLength sz cellID i \<and> coveragePartialSegmentLength sz cellID i \<le> sz"
proof -
  let ?m = "if sz > defaultPatternSegmentMaxLength then defaultPatternSegmentMaxLength else sz"
  have "0 < ?m" "?m \<le> sz" using assms by (simp_all add: defaultPatternSegmentMaxLength_def)
  then show ?thesis
    using seeded_pick_range [of ?m "''partial-length-'' @ show_nat i" cellID] assms
    by (auto simp: coveragePartialSegmentLength_def Let_def)
qed

lemma partial_update_ok: "0 < sz \<Longrightarrow> range_ok sz (partial_update sz cellID i)"
  using partial_length_range [of sz cellID i] offset_range seed_range
  by (simp add: range_ok_def partial_update_def Let_def)

lemma repeated_block_ok:
  "coverageRepeatedBlock sz cellID \<noteq> []" "length (coverageRepeatedBlock sz cellID) \<le> defaultContentWriteChunkSize"
  by (auto simp: coverageRepeatedBlock_def Let_def defaultContentWriteChunkSize_def length_0_conv [symmetric]
      simp del: length_0_conv)

lemma coverageContentFor_ok:
  assumes "\<forall>n. class \<noteq> coverageContentClassUnknown n"
  shows "\<exists>c. coverageContentFor class sizeClass cellID = Inr c \<and>
    (if class = coverageContentClassPlain then c = content0
     else content_writable c \<and> pc_logicalSize c = coverageSizeBytes sizeClass)"
proof -
  let ?n = "coverageSizeBytes sizeClass"
  have "range_ok ?n \<lparr>rg_offset = coverageDeterministicOffset ?n (coverageSparseSegmentLength ?n cellID) cellID,
      rg_length = coverageSparseSegmentLength ?n cellID,
      rg_seed = coverageDeterministicSeed ''sparse-extent'' cellID\<rparr>" if "?n \<noteq> 0"
    using that size_bounds(1) [of sizeClass] sparse_length_range [of ?n cellID] offset_range seed_range
    by (simp add: range_ok_def)
  moreover have "list_all (range_ok ?n) (map (partial_update ?n cellID) xs)" if "?n \<noteq> 0" for xs
    using that size_bounds(1) [of sizeClass] partial_update_ok [of ?n] by (simp add: list_all_iff)
  ultimately show ?thesis
    using assms size_bounds(1) repeated_block_ok
    by (cases "class") (simp_all add: coverageContentFor_def Let_def content_writable_def)
qed

lemma plain_data_length [simp]: "length (coveragePlainData sz cellID) = nat sz"
  by (simp add: coveragePlainData_def)

end
