(* ===== verification/Coverage_Capabilities.thy ===== *)
theory Coverage_Capabilities
  imports Apply_Plan
begin

text \<open>
  What a coverage run may exercise (\<^verbatim>\<open>coverage_capabilities.go\<close> and its Linux probes,
  \<open>normalizeDeterministicCoverageOptions\<close> of \<^verbatim>\<open>coverage.go\<close>): the options switch dimensions off,
  and the file system is probed for extended attributes and ACLs. The probes work below the base
  path, which they create. The model is the one of a Linux host.
\<close>

section \<open>Options\<close>

datatype DeterministicCoverageEffort =
    DeterministicCoverageEffortLow | DeterministicCoverageEffortMedium
  | DeterministicCoverageEffortHigh | DeterministicCoverageEffortXHigh
  | DeterministicCoverageEffortUnknown "8 word"

definition DeterministicCoverageEffort_String :: "DeterministicCoverageEffort \<Rightarrow> string" where
  "DeterministicCoverageEffort_String e =
     (case e of
        DeterministicCoverageEffortLow \<Rightarrow> ''low''
      | DeterministicCoverageEffortMedium \<Rightarrow> ''medium''
      | DeterministicCoverageEffortHigh \<Rightarrow> ''high''
      | DeterministicCoverageEffortXHigh \<Rightarrow> ''xhigh''
      | DeterministicCoverageEffortUnknown n \<Rightarrow> unknown_name n)"

definition validateDeterministicCoverageEffort :: "DeterministicCoverageEffort \<Rightarrow> err + unit" where
  "validateDeterministicCoverageEffort e =
     (case e of
        DeterministicCoverageEffortUnknown n \<Rightarrow> FailW ''effort'' ErrDeterministicCoverageEffortInvalid
      | _ \<Rightarrow> Inr ())"

record DeterministicCoverageOptions =
  co_effort :: DeterministicCoverageEffort
  co_includeLinuxOnly :: bool
  co_includePrivileged :: bool
  co_planEntryLimit :: int
  co_runMode :: RunMode

definition normalizeDeterministicCoverageOptions ::
  "DeterministicCoverageOptions \<Rightarrow> DeterministicCoverageOptions" where
  "normalizeDeterministicCoverageOptions opts =
     (if \<not> co_includeLinuxOnly opts \<and> \<not> co_includePrivileged opts
      then opts\<lparr>co_includeLinuxOnly := True\<rparr> else opts)"

section \<open>Capabilities\<close>

datatype coverageCapabilityID =
    coverageCapabilityHardlinks | coverageCapabilitySymlinks | coverageCapabilitySpecialFIFO
  | coverageCapabilitySpecialSocket | coverageCapabilitySpecialCharDevice
  | coverageCapabilitySpecialBlockDevice | coverageCapabilityOwnershipMetadata
  | coverageCapabilityTimestampMetadata | coverageCapabilityXAttrUser
  | coverageCapabilityXAttrTrusted | coverageCapabilityXAttrSecurity | coverageCapabilityACL
  | coverageCapabilityNonDefaultOwnership

definition coverageCapabilityID_String :: "coverageCapabilityID \<Rightarrow> string" where
  "coverageCapabilityID_String c =
     (case c of
        coverageCapabilityHardlinks \<Rightarrow> ''hardlinks''
      | coverageCapabilitySymlinks \<Rightarrow> ''symlinks''
      | coverageCapabilitySpecialFIFO \<Rightarrow> ''special-fifo''
      | coverageCapabilitySpecialSocket \<Rightarrow> ''special-socket''
      | coverageCapabilitySpecialCharDevice \<Rightarrow> ''special-char-device''
      | coverageCapabilitySpecialBlockDevice \<Rightarrow> ''special-block-device''
      | coverageCapabilityOwnershipMetadata \<Rightarrow> ''ownership-metadata''
      | coverageCapabilityTimestampMetadata \<Rightarrow> ''timestamp-metadata''
      | coverageCapabilityXAttrUser \<Rightarrow> ''xattr-user''
      | coverageCapabilityXAttrTrusted \<Rightarrow> ''xattr-trusted''
      | coverageCapabilityXAttrSecurity \<Rightarrow> ''xattr-security''
      | coverageCapabilityACL \<Rightarrow> ''acl''
      | coverageCapabilityNonDefaultOwnership \<Rightarrow> ''non-default-ownership'')"

record coverageCapabilityRequirement =
  cq_linuxOnly :: bool
  cq_privileged :: bool

text \<open>The keys of the requirements map, sorted, and the map.\<close>

definition coverageCapabilityIDs :: "coverageCapabilityID list" where
  "coverageCapabilityIDs =
     [coverageCapabilityHardlinks, coverageCapabilitySymlinks, coverageCapabilitySpecialFIFO,
      coverageCapabilitySpecialSocket, coverageCapabilitySpecialCharDevice,
      coverageCapabilitySpecialBlockDevice, coverageCapabilityOwnershipMetadata,
      coverageCapabilityTimestampMetadata, coverageCapabilityXAttrUser, coverageCapabilityXAttrTrusted,
      coverageCapabilityXAttrSecurity, coverageCapabilityACL, coverageCapabilityNonDefaultOwnership]"

definition coverageCapabilityRequirements :: "coverageCapabilityID \<Rightarrow> coverageCapabilityRequirement" where
  "coverageCapabilityRequirements cid =
     (if cid \<in> {coverageCapabilityHardlinks, coverageCapabilitySymlinks}
      then \<lparr>cq_linuxOnly = False, cq_privileged = False\<rparr>
      else if cid \<in> {coverageCapabilitySpecialCharDevice, coverageCapabilitySpecialBlockDevice,
                  coverageCapabilityXAttrTrusted, coverageCapabilityXAttrSecurity,
                  coverageCapabilityNonDefaultOwnership}
      then \<lparr>cq_linuxOnly = True, cq_privileged = True\<rparr>
      else \<lparr>cq_linuxOnly = True, cq_privileged = False\<rparr>)"

record capabilityReport =
  cr_id :: coverageCapabilityID
  cr_enabled :: bool
  cr_reason :: string

record SkippedDimension =
  sd_Name :: string
  sd_Reason :: string

section \<open>Probing the file system\<close>

text \<open>\<^verbatim>\<open>os.OpenFile\<close> with \<^verbatim>\<open>O_CREATE|O_WRONLY|O_TRUNC\<close>.\<close>

definition os_Create :: "kernel \<Rightarrow> string \<Rightarrow> 32 word \<Rightarrow> handle fsop" where
  "os_Create k path perm =
     os_call k ''open'' True path (\<lambda>q. bindS (open_create k q perm) (\<lambda>_. returnS q))"

text \<open>
  The frame of both probes: the base path and a file in it are made, \<open>use\<close> tries the feature on
  the file, and the deferred call removes it.
\<close>

definition probe_file :: "kernel \<Rightarrow> string \<Rightarrow> string \<Rightarrow> (string \<Rightarrow> fsys \<Rightarrow> bool \<times> fsys) \<Rightarrow> fsys \<Rightarrow> bool \<times> fsys" where
  "probe_file k probeBasePath name use fs =
     (case os_MkdirAll k probeBasePath 0x1ED fs of
        (Inl _, fs1) \<Rightarrow> (False, fs1)
      | (Inr _, fs1) \<Rightarrow>
          let target = Join2 probeBasePath name in
          (case os_Create k target 0x180 fs1 of
             (Inl _, fs2) \<Rightarrow> (False, fs2)
           | (Inr f, fs2) \<Rightarrow>
               (case use target (snd (fd_Close k f fs2)) of
                  (ok, fs3) \<Rightarrow> (ok, snd (os_Remove k target fs3)))))"

definition coverageProbeXAttrSupport :: "kernel \<Rightarrow> string \<Rightarrow> fsys \<Rightarrow> bool \<times> fsys" where
  "coverageProbeXAttrSupport k probeBasePath =
     probe_file k probeBasePath ''.randfiletree-coverage-xattr-probe'' (\<lambda>target fs.
       case setPathXAttr k target ''user.randfiletree-probe'' (map (\<lambda>c. word_of_nat (of_char c)) ''v'') fs of
         (Inl _, fs') \<Rightarrow> (False, fs')
       | (Inr _, fs') \<Rightarrow> (True, snd (removePathXAttr k target ''user.randfiletree-probe'' fs')))"

definition coverageProbeACLSupport :: "kernel \<Rightarrow> string \<Rightarrow> fsys \<Rightarrow> bool \<times> fsys" where
  "coverageProbeACLSupport k probeBasePath =
     probe_file k probeBasePath ''.randfiletree-coverage-acl-probe'' (\<lambda>target fs.
       case applyACL k target 0x180 [''u::rw-'', ''g::---'', ''o::---''] fs of
         (res, fs') \<Rightarrow> (is_ok res, fs'))"

text \<open>What the flags of the caller remember: the result of a probe that has run.\<close>

record probeState =
  ps_xattr :: "bool option"
  ps_acl :: "bool option"
  ps_fs :: fsys

definition ask_xattr_probe :: "kernel \<Rightarrow> string \<Rightarrow> probeState \<Rightarrow> bool \<times> probeState" where
  "ask_xattr_probe k probeBasePath s =
     (case ps_xattr s of
        Some available \<Rightarrow> (available, s)
      | None \<Rightarrow> (case coverageProbeXAttrSupport k probeBasePath (ps_fs s) of
          (available, fs') \<Rightarrow> (available, s\<lparr>ps_xattr := Some available, ps_fs := fs'\<rparr>)))"

definition ask_acl_probe :: "kernel \<Rightarrow> string \<Rightarrow> probeState \<Rightarrow> bool \<times> probeState" where
  "ask_acl_probe k probeBasePath s =
     (case ps_acl s of
        Some available \<Rightarrow> (available, s)
      | None \<Rightarrow> (case coverageProbeACLSupport k probeBasePath (ps_fs s) of
          (available, fs') \<Rightarrow> (available, s\<lparr>ps_acl := Some available, ps_fs := fs'\<rparr>)))"

definition skip_reason :: "coverageCapabilityID \<Rightarrow> string \<Rightarrow> string" where
  "skip_reason cid msg = coverageCapabilityID_String cid @ '': '' @ msg"

definition socketPathSafetyBudget :: nat where
  "socketPathSafetyBudget = 90"

text \<open>Effective ids are not negative; the text of one is its decimal digits.\<close>

definition runCoverageCapabilityProbe ::
  "kernel \<Rightarrow> coverageCapabilityID \<Rightarrow> string \<Rightarrow> probeState \<Rightarrow> (bool \<times> string) \<times> probeState" where
  "runCoverageCapabilityProbe k cid probeBasePath s =
     (if cid \<in> {coverageCapabilityXAttrUser, coverageCapabilityXAttrTrusted, coverageCapabilityXAttrSecurity} then
        if probeBasePath = [] then ((True, []), s)
        else (case ask_xattr_probe k probeBasePath s of
          (available, s') \<Rightarrow>
            (if \<not> available then (False, skip_reason cid ''filesystem at probe path does not support xattrs'')
             else (True, []), s'))
      else if cid = coverageCapabilityACL then
        if probeBasePath = [] then ((True, []), s)
        else (case ask_acl_probe k probeBasePath s of
          (available, s') \<Rightarrow>
            (if \<not> available then (False, skip_reason cid ''filesystem at probe path does not support ACLs'')
             else (True, []), s'))
      else if cid = coverageCapabilityNonDefaultOwnership \<and> kuid k \<noteq> 0 then
        ((False, skip_reason cid (''requires root (effective uid '' @ show_nat (nat (kuid k)) @ '')'')), s)
      else if cid = coverageCapabilitySpecialSocket \<and> probeBasePath \<noteq> [] \<and>
          length probeBasePath > socketPathSafetyBudget then
        ((False, skip_reason cid (''base path length '' @ show_nat (length probeBasePath) @
           '' exceeds sun_path budget '' @ show_nat socketPathSafetyBudget)), s)
      else ((True, []), s))"

fun resolve_capabilities ::
  "kernel \<Rightarrow> DeterministicCoverageOptions \<Rightarrow> string \<Rightarrow> coverageCapabilityID list \<Rightarrow> probeState
     \<Rightarrow> capabilityReport list \<times> probeState" where
  "resolve_capabilities k opts base [] s = ([], s)"
| "resolve_capabilities k opts base (cid # cids) s =
     (let req = coverageCapabilityRequirements cid in
      case (if cq_linuxOnly req \<and> \<not> co_includeLinuxOnly opts then
              ((False, skip_reason cid ''requires linux (set IncludeLinuxOnly=true to enable)''), s)
            else if cq_privileged req \<and> \<not> co_includePrivileged opts then
              ((False, skip_reason cid
                 ''requires privileged capabilities (set IncludePrivileged=true to enable)''), s)
            else runCoverageCapabilityProbe k cid base s) of
        ((enabled, reason), s') \<Rightarrow>
          (case resolve_capabilities k opts base cids s' of
             (reports, s'') \<Rightarrow> (\<lparr>cr_id = cid, cr_enabled = enabled, cr_reason = reason\<rparr> # reports, s'')))"

definition resolveCoverageCapabilities ::
  "kernel \<Rightarrow> DeterministicCoverageOptions \<Rightarrow> string \<Rightarrow> fsys \<Rightarrow> capabilityReport list \<times> fsys" where
  "resolveCoverageCapabilities k opts probeBasePath fs =
     (case resolve_capabilities k opts probeBasePath coverageCapabilityIDs
             \<lparr>ps_xattr = None, ps_acl = None, ps_fs = fs\<rparr> of
        (reports, s) \<Rightarrow> (reports, ps_fs s))"

text \<open>Reading a Go map of booleans: a missing key is false.\<close>

definition coverageCapabilitySet :: "capabilityReport list \<Rightarrow> coverageCapabilityID \<Rightarrow> bool" where
  "coverageCapabilitySet reports = foldl (\<lambda>m r. m(cr_id r := cr_enabled r)) (\<lambda>_. False) reports"

definition coverageCapabilitySkipped :: "capabilityReport list \<Rightarrow> SkippedDimension list" where
  "coverageCapabilitySkipped reports =
     map (\<lambda>r. \<lparr>sd_Name = coverageCapabilityID_String (cr_id r), sd_Reason = cr_reason r\<rparr>)
       (filter (\<lambda>r. \<not> cr_enabled r) reports)"

definition coverageCapabilityEnabledNames :: "capabilityReport list \<Rightarrow> string list" where
  "coverageCapabilityEnabledNames reports =
     map (\<lambda>r. coverageCapabilityID_String (cr_id r)) (filter cr_enabled reports)"

section \<open>Which dimensions are left\<close>

lemma coverageCapabilitySet_map_of:
  "foldl (\<lambda>m r. m(cr_id r := cr_enabled r)) m0 reports cid =
   (case map_of (rev (map (\<lambda>r. (cr_id r, cr_enabled r)) reports)) cid of None \<Rightarrow> m0 cid | Some b \<Rightarrow> b)"
  by (induction reports rule: rev_induct) auto

text \<open>A dimension is enabled only if the options allow it.\<close>

lemma resolve_allowed:
  assumes "resolve_capabilities k opts base cids s = (reports, s')" and "r \<in> set reports" and "cr_enabled r"
  shows "cr_id r \<in> set cids \<and> (cq_linuxOnly (coverageCapabilityRequirements (cr_id r)) \<longrightarrow> co_includeLinuxOnly opts) \<and>
    (cq_privileged (coverageCapabilityRequirements (cr_id r)) \<longrightarrow> co_includePrivileged opts)"
  using assms
proof (induction cids arbitrary: s reports s')
  case (Cons cid cids)
  obtain b reason s1 where one: "(if cq_linuxOnly (coverageCapabilityRequirements cid) \<and> \<not> co_includeLinuxOnly opts then
              ((False, skip_reason cid ''requires linux (set IncludeLinuxOnly=true to enable)''), s)
            else if cq_privileged (coverageCapabilityRequirements cid) \<and> \<not> co_includePrivileged opts then
              ((False, skip_reason cid
                 ''requires privileged capabilities (set IncludePrivileged=true to enable)''), s)
            else runCoverageCapabilityProbe k cid base s) = ((b, reason), s1)"
    by (metis prod.exhaust)
  obtain rest s2 where rest: "resolve_capabilities k opts base cids s1 = (rest, s2)" by fastforce
  have reports: "reports = \<lparr>cr_id = cid, cr_enabled = b, cr_reason = reason\<rparr> # rest"
    using Cons.prems(1) rest by (simp add: one Let_def)
  show ?case
  proof (cases "r = \<lparr>cr_id = cid, cr_enabled = b, cr_reason = reason\<rparr>")
    case True
    then have "b" using Cons.prems(3) by simp
    then show ?thesis using one True by (auto split: if_splits)
  next
    case False
    then have "r \<in> set rest" using Cons.prems(2) reports by simp
    from Cons.IH [OF rest this Cons.prems(3)] show ?thesis by simp
  qed
qed simp

lemma capability_allowed:
  assumes "resolveCoverageCapabilities k opts base fs = (reports, fs')" and "coverageCapabilitySet reports cid"
  shows "(cq_linuxOnly (coverageCapabilityRequirements cid) \<longrightarrow> co_includeLinuxOnly opts) \<and>
    (cq_privileged (coverageCapabilityRequirements cid) \<longrightarrow> co_includePrivileged opts)"
proof -
  have "map_of (rev (map (\<lambda>r. (cr_id r, cr_enabled r)) reports)) cid = Some True"
    using assms(2) unfolding coverageCapabilitySet_def coverageCapabilitySet_map_of by (auto split: option.splits)
  then have "(cid, True) \<in> set (map (\<lambda>r. (cr_id r, cr_enabled r)) reports)" by (metis map_of_SomeD set_rev)
  then obtain r where "r \<in> set reports" "cr_id r = cid" "cr_enabled r" by auto
  moreover obtain s where "resolve_capabilities k opts base coverageCapabilityIDs
      \<lparr>ps_xattr = None, ps_acl = None, ps_fs = fs\<rparr> = (reports, s)"
    using assms(1) by (auto simp: resolveCoverageCapabilities_def split: prod.splits)
  ultimately show ?thesis using resolve_allowed by blast
qed

text \<open>Without the Linux dimensions only links are left, and nothing is probed.\<close>

lemma resolve_portable:
  assumes "\<not> co_includeLinuxOnly opts"
  shows "snd (resolveCoverageCapabilities k opts base fs) = fs"
    and "coverageCapabilitySet (fst (resolveCoverageCapabilities k opts base fs)) =
      (\<lambda>cid. cid \<in> {coverageCapabilityHardlinks, coverageCapabilitySymlinks})"
  using assms
  by (auto simp: resolveCoverageCapabilities_def coverageCapabilityIDs_def coverageCapabilityRequirements_def Let_def
      runCoverageCapabilityProbe_def coverageCapabilitySet_def fun_eq_iff)

end
