(* ===== verification/Coverage_Enumerator.thy ===== *)
theory Coverage_Enumerator
  imports Coverage_Pairwise Coverage_Content Coverage_Capabilities
begin

text \<open>
  The plan of a deterministic coverage run (\<^verbatim>\<open>coverage_enumerator.go\<close>): per sub-tree a covering
  array over its dimensions, and per test case and repetition a wrapper directory with the entry
  under test. A builder collects the entries and refuses a path it has seen.
\<close>

section \<open>Dimensions\<close>

text \<open>\<^verbatim>\<open>time.Unix(1_700_000_000, 123_456_789)\<close> in nanoseconds.\<close>

definition coverageEpoch :: time where
  "coverageEpoch = 1700000000123456789"

datatype coverageModeClass =
    coverageModeClassRegular | coverageModeClassExecutable | coverageModeClassSetuid
  | coverageModeClassSetgid | coverageModeClassSticky | coverageModeClassSetuidSetgid

definition coverageModeClassAll :: "coverageModeClass list" where
  "coverageModeClassAll =
     [coverageModeClassRegular, coverageModeClassExecutable, coverageModeClassSetuid,
      coverageModeClassSetgid, coverageModeClassSticky, coverageModeClassSetuidSetgid]"

definition coverageModeClass_String :: "coverageModeClass \<Rightarrow> string" where
  "coverageModeClass_String c =
     (case c of
        coverageModeClassRegular \<Rightarrow> ''mode-regular''
      | coverageModeClassExecutable \<Rightarrow> ''mode-exec''
      | coverageModeClassSetuid \<Rightarrow> ''mode-setuid''
      | coverageModeClassSetgid \<Rightarrow> ''mode-setgid''
      | coverageModeClassSticky \<Rightarrow> ''mode-sticky''
      | coverageModeClassSetuidSetgid \<Rightarrow> ''mode-setuid-setgid'')"

definition coverageModeForFile :: "coverageModeClass \<Rightarrow> 32 word" where
  "coverageModeForFile c =
     (case c of
        coverageModeClassRegular \<Rightarrow> 0x1A4
      | coverageModeClassExecutable \<Rightarrow> 0x1ED
      | coverageModeClassSetuid \<Rightarrow> 0x9E8
      | coverageModeClassSetgid \<Rightarrow> 0x5E8
      | coverageModeClassSticky \<Rightarrow> 0x3E8
      | coverageModeClassSetuidSetgid \<Rightarrow> 0xDE8)"

definition coverageModeForDir :: "coverageModeClass \<Rightarrow> 32 word" where
  "coverageModeForDir c =
     (case c of
        coverageModeClassRegular \<Rightarrow> 0x1ED
      | coverageModeClassExecutable \<Rightarrow> 0x1ED
      | coverageModeClassSetuid \<Rightarrow> 0x9E8
      | coverageModeClassSetgid \<Rightarrow> 0x5E8
      | coverageModeClassSticky \<Rightarrow> 0x3E8
      | coverageModeClassSetuidSetgid \<Rightarrow> 0xDE8)"

datatype coverageMetadataClass =
    coverageMetadataClassNone | coverageMetadataClassOwnership
  | coverageMetadataClassTimestamps | coverageMetadataClassFull

definition coverageMetadataClass_String :: "coverageMetadataClass \<Rightarrow> string" where
  "coverageMetadataClass_String c =
     (case c of
        coverageMetadataClassNone \<Rightarrow> ''meta-none''
      | coverageMetadataClassOwnership \<Rightarrow> ''meta-ownership''
      | coverageMetadataClassTimestamps \<Rightarrow> ''meta-timestamps''
      | coverageMetadataClassFull \<Rightarrow> ''meta-full'')"

definition coverageSymlinkStrategyAll :: "SymlinkStrategy list" where
  "coverageSymlinkStrategyAll =
     [SymlinkStrategyAbsolute, SymlinkStrategyRelative, SymlinkStrategyDangling,
      SymlinkStrategySelfReferential, SymlinkStrategyChained, SymlinkStrategyCycle]"

definition coverageHardlinkGroupSizeAll :: "nat list" where
  "coverageHardlinkGroupSizeAll = [2, 3, 4]"

definition coverageSpecialFileTypeAll :: "SpecialFileType list" where
  "coverageSpecialFileTypeAll =
     [SpecialFileTypeFIFO, SpecialFileTypeSocket, SpecialFileTypeCharDevice, SpecialFileTypeBlockDevice]"

datatype coverageXAttrVariant =
    coverageXAttrVariantUserShort | coverageXAttrVariantUserEmpty | coverageXAttrVariantUserLarge
  | coverageXAttrVariantUserBinary | coverageXAttrVariantTrusted | coverageXAttrVariantSecurity

definition coverageXAttrVariant_String :: "coverageXAttrVariant \<Rightarrow> string" where
  "coverageXAttrVariant_String v =
     (case v of
        coverageXAttrVariantUserShort \<Rightarrow> ''xattr-user-short''
      | coverageXAttrVariantUserEmpty \<Rightarrow> ''xattr-user-empty''
      | coverageXAttrVariantUserLarge \<Rightarrow> ''xattr-user-large''
      | coverageXAttrVariantUserBinary \<Rightarrow> ''xattr-user-binary''
      | coverageXAttrVariantTrusted \<Rightarrow> ''xattr-trusted''
      | coverageXAttrVariantSecurity \<Rightarrow> ''xattr-security'')"

datatype coverageACLVariant =
    coverageACLVariantBase | coverageACLVariantNamedUserGroupMask | coverageACLVariantDefaultOnDir

definition coverageACLVariant_String :: "coverageACLVariant \<Rightarrow> string" where
  "coverageACLVariant_String v =
     (case v of
        coverageACLVariantBase \<Rightarrow> ''acl-base''
      | coverageACLVariantNamedUserGroupMask \<Rightarrow> ''acl-named-mask''
      | coverageACLVariantDefaultOnDir \<Rightarrow> ''acl-default-on-dir'')"

datatype coverageTimestampVariant =
    coverageTimestampVariantEpoch | coverageTimestampVariantPast | coverageTimestampVariantFuture
  | coverageTimestampVariantAtimeBeforeMtime | coverageTimestampVariantAtimeAfterMtime

definition coverageTimestampVariant_String :: "coverageTimestampVariant \<Rightarrow> string" where
  "coverageTimestampVariant_String v =
     (case v of
        coverageTimestampVariantEpoch \<Rightarrow> ''ts-epoch''
      | coverageTimestampVariantPast \<Rightarrow> ''ts-past''
      | coverageTimestampVariantFuture \<Rightarrow> ''ts-future''
      | coverageTimestampVariantAtimeBeforeMtime \<Rightarrow> ''ts-atime-before-mtime''
      | coverageTimestampVariantAtimeAfterMtime \<Rightarrow> ''ts-atime-after-mtime'')"

text \<open>Access and modification time; an hour is \<^verbatim>\<open>3600 * 10^9\<close> nanoseconds.\<close>

definition hours :: "int \<Rightarrow> int" where
  "hours n = n * 3600000000000"

definition coverageTimestampPair :: "coverageTimestampVariant \<Rightarrow> time \<times> time" where
  "coverageTimestampPair v =
     (case v of
        coverageTimestampVariantEpoch \<Rightarrow> (0, 0)
      | coverageTimestampVariantPast \<Rightarrow> (coverageEpoch - hours (365 * 24), coverageEpoch - hours (365 * 24))
      | coverageTimestampVariantFuture \<Rightarrow> (coverageEpoch + hours (365 * 24), coverageEpoch + hours (365 * 24))
      | coverageTimestampVariantAtimeBeforeMtime \<Rightarrow> (coverageEpoch, coverageEpoch + hours 1)
      | coverageTimestampVariantAtimeAfterMtime \<Rightarrow> (coverageEpoch + hours 1, coverageEpoch))"

definition coverageOwnershipTable :: "(int \<times> int) list" where
  "coverageOwnershipTable = [(0, 0), (1000, 1000), (65534, 65534)]"

definition coverageEffortMultiplier :: "DeterministicCoverageEffort \<Rightarrow> nat" where
  "coverageEffortMultiplier effort =
     (case effort of
        DeterministicCoverageEffortLow \<Rightarrow> 1
      | DeterministicCoverageEffortMedium \<Rightarrow> 3
      | DeterministicCoverageEffortHigh \<Rightarrow> 10
      | DeterministicCoverageEffortXHigh \<Rightarrow> 50
      | DeterministicCoverageEffortUnknown n \<Rightarrow> 1)"

text \<open>The test cases of a sub-tree; the covering array always returns (\<open>Coverage_Pairwise\<close>).\<close>

definition pairwise_cases :: "nat list \<Rightarrow> nat list list" where
  "pairwise_cases sizes = the (coveragePairwise (map int sizes))"

section \<open>The builder\<close>

type_synonym capabilitySet = "coverageCapabilityID \<Rightarrow> bool"

record coveragePlanBuilder =
  b_basePath :: string
  b_entries :: "plannedEntry list"
  b_hardlinks :: "plannedHardlinkGroup list"
  b_used :: "string list"
  b_enabled :: capabilitySet
  b_nextCellIndex :: nat

type_synonym 'a cov_op = "(coveragePlanBuilder, 'a) sem"

definition newCoveragePlanBuilder :: "string \<Rightarrow> capabilityReport list \<Rightarrow> coveragePlanBuilder" where
  "newCoveragePlanBuilder base caps =
     \<lparr>b_basePath = base, b_entries = [], b_hardlinks = [], b_used = [],
      b_enabled = coverageCapabilitySet caps, b_nextCellIndex = 0\<rparr>"

definition registerPath :: "string \<Rightarrow> unit cov_op" where
  "registerPath path b =
     (if path \<in> set (b_used b) then (Inl (Errorf ''coverage path collision'' None), b)
      else (Inr (), b\<lparr>b_used := path # b_used b\<rparr>))"

definition ensureDeterministicTimestamps :: "capabilitySet \<Rightarrow> metadataConfig \<Rightarrow> metadataConfig" where
  "ensureDeterministicTimestamps caps cfg =
     (if \<not> caps coverageCapabilityTimestampMetadata then cfg
      else if hasTimestamps cfg then cfg
      else cfg\<lparr>hasTimestamps := True, md_atime := coverageEpoch, md_mtime := coverageEpoch\<rparr>)"

definition deterministicLinkMetadata :: "capabilitySet \<Rightarrow> metadataConfig" where
  "deterministicLinkMetadata caps =
     (if \<not> caps coverageCapabilityTimestampMetadata then metadata0
      else metadata0\<lparr>hasTimestamps := True, md_atime := coverageEpoch, md_mtime := coverageEpoch\<rparr>)"

text \<open>Registering the path of an entry that the builder then appends.\<close>

definition push_entry :: "(capabilitySet \<Rightarrow> plannedEntry) \<Rightarrow> string \<Rightarrow> unit cov_op" where
  "push_entry entry path =
     bindS (registerPath path) (\<lambda>_.
     modifyS (\<lambda>b. b\<lparr>b_entries := b_entries b @ [entry (b_enabled b)]\<rparr>))"

definition appendDir :: "string \<Rightarrow> 32 word \<Rightarrow> metadataConfig \<Rightarrow> unit cov_op" where
  "appendDir path mode metadata =
     push_entry (\<lambda>caps. (entry0 plannedEntryTypeDir path)\<lparr>pe_mode := mode,
       pe_metadata := ensureDeterministicTimestamps caps metadata\<rparr>) path"

text \<open>Every caller sets the type of the entry to \<open>plannedEntryTypeFile\<close>.\<close>

definition appendFile :: "plannedEntry \<Rightarrow> unit cov_op" where
  "appendFile entry =
     push_entry (\<lambda>caps. entry\<lparr>pe_metadata := ensureDeterministicTimestamps caps (pe_metadata entry)\<rparr>) (pe_path entry)"

definition appendCoverageSymlink :: "string \<Rightarrow> string \<Rightarrow> unit cov_op" where
  "appendCoverageSymlink path target =
     push_entry (\<lambda>caps. (entry0 plannedEntryTypeSymlink path)\<lparr>pe_linkTarget := target,
       pe_metadata := deterministicLinkMetadata caps\<rparr>) path"

definition appendHardlink :: "string \<Rightarrow> string \<Rightarrow> unit cov_op" where
  "appendHardlink path target =
     push_entry (\<lambda>caps. (entry0 plannedEntryTypeHardlink path)\<lparr>pe_linkTarget := target\<rparr>) path"

definition appendSpecial :: "plannedEntry \<Rightarrow> unit cov_op" where
  "appendSpecial entry =
     push_entry (\<lambda>caps. entry\<lparr>pe_type := plannedEntryTypeSpecial,
       pe_metadata := ensureDeterministicTimestamps caps (pe_metadata entry)\<rparr>) (pe_path entry)"

definition registerHardlinkGroup :: "string \<Rightarrow> string list \<Rightarrow> unit cov_op" where
  "registerHardlinkGroup origin mirrors =
     modifyS (\<lambda>b. b\<lparr>b_hardlinks := b_hardlinks b @ [\<lparr>hg_origin = origin, hg_paths = sort_strings (origin # mirrors)\<rparr>]\<rparr>)"

text \<open>\<^verbatim>\<open>sort.Slice\<close> by origin; the origins are distinct, so any sort gives this.\<close>

definition buildRunPlan :: "coveragePlanBuilder \<Rightarrow> runPlan" where
  "buildRunPlan b =
     \<lparr>entries = b_entries b,
      planGroups = sort_key hg_origin (map (\<lambda>g. \<lparr>hg_origin = hg_origin g, hg_paths = sort_strings (hg_paths g)\<rparr>) (b_hardlinks b)),
      planMetrics = \<lparr>pathRetries = 0, pathCollisions = 0\<rparr>\<rparr>"

section \<open>Cells\<close>

fun for_each :: "('a \<Rightarrow> unit cov_op) \<Rightarrow> 'a list \<Rightarrow> unit cov_op" where
  "for_each f [] = returnS ()"
| "for_each f (x # xs) = bindS (f x) (\<lambda>_. for_each f xs)"

text \<open>The two nested loops: every test case with its index, every repetition.\<close>

definition for_cells :: "nat list list \<Rightarrow> nat \<Rightarrow> (nat \<Rightarrow> nat list \<Rightarrow> nat \<Rightarrow> unit cov_op) \<Rightarrow> unit cov_op" where
  "for_cells cases multiplier cell =
     for_each (\<lambda>(idx, tc). for_each (cell idx tc) [0..<multiplier]) (zip [0..<length cases] cases)"

definition coverageCellWrapperDir :: "string \<Rightarrow> string \<Rightarrow> nat \<Rightarrow> string" where
  "coverageCellWrapperDir parent kind index =
     Join2 parent (''cell-'' @ kind @ ''-'' @ pad_zero 5 (show_nat index))"

text \<open>The first statements of every cell: the next wrapper directory.\<close>

definition cell_wrapper :: "string \<Rightarrow> string \<Rightarrow> string cov_op" where
  "cell_wrapper root kind =
     bindS (getS b_nextCellIndex) (\<lambda>index.
     bindS (modifyS (\<lambda>b. b\<lparr>b_nextCellIndex := index + 1\<rparr>)) (\<lambda>_.
     let wrapper = coverageCellWrapperDir root kind index in
     bindS (appendDir wrapper 0x1ED metadata0) (\<lambda>_. returnS wrapper)))"

definition rep_label :: "nat \<Rightarrow> string" where
  "rep_label rep = ''rep-'' @ show_nat rep"

definition coverageEffectiveOwnership :: "kernel \<Rightarrow> capabilitySet \<Rightarrow> nat \<Rightarrow> int \<times> int" where
  "coverageEffectiveOwnership k caps ownerIndex =
     (if \<not> caps coverageCapabilityNonDefaultOwnership
      then (if kuid k \<ge> 0 then kuid k else 0, if kgid k \<ge> 0 then kgid k else 0)
      else coverageOwnershipTable ! (ownerIndex mod length coverageOwnershipTable))"

definition owned_by :: "kernel \<Rightarrow> capabilitySet \<Rightarrow> nat \<Rightarrow> metadataConfig \<Rightarrow> metadataConfig" where
  "owned_by k caps ownerIndex cfg =
     (if caps coverageCapabilityOwnershipMetadata
      then (case coverageEffectiveOwnership k caps ownerIndex of
              (uid, gid) \<Rightarrow> cfg\<lparr>hasOwnership := True, md_uid := uid, md_gid := gid\<rparr>)
      else cfg)"

definition coverageMetadataFor ::
  "kernel \<Rightarrow> coverageMetadataClass \<Rightarrow> capabilitySet \<Rightarrow> nat \<Rightarrow> coverageTimestampVariant
     \<Rightarrow> 8 word list gomap \<Rightarrow> string list \<Rightarrow> metadataConfig" where
  "coverageMetadataFor k class caps ownerIndex tsVariant xs aclEnts =
     (let cfg = (if caps coverageCapabilityTimestampMetadata
                 then (case coverageTimestampPair tsVariant of
                         (atime, mtime) \<Rightarrow> metadata0\<lparr>hasTimestamps := True, md_atime := atime, md_mtime := mtime\<rparr>)
                 else metadata0) in
      case class of
        coverageMetadataClassNone \<Rightarrow> cfg
      | coverageMetadataClassOwnership \<Rightarrow> owned_by k caps ownerIndex cfg
      | coverageMetadataClassTimestamps \<Rightarrow> cfg
      | coverageMetadataClassFull \<Rightarrow>
          let cfg1 = owned_by k caps ownerIndex cfg;
              cfg2 = (if caps coverageCapabilityXAttrUser \<and> length xs > 0
                      then cfg1\<lparr>hasXAttrs := True, md_xattrs := xs\<rparr> else cfg1)
          in (if caps coverageCapabilityACL \<and> length aclEnts > 0
              then cfg2\<lparr>hasACL := True, aclEntries := aclEnts\<rparr> else cfg2))"

text \<open>\<^verbatim>\<open>fmt.Sprintf("v-%016x", cellID)\<close> as bytes.\<close>

definition cell_value :: "64 word \<Rightarrow> 8 word list" where
  "cell_value cellID = string_bytes (''v-'' @ hex_digits 16 (unat cellID))"

definition coverageDefaultUserXAttrs :: "64 word \<Rightarrow> 8 word list gomap" where
  "coverageDefaultUserXAttrs cellID = [(''user.coverage.value'', cell_value cellID)]"

definition coverageDefaultACLEntries :: "bool \<Rightarrow> string list" where
  "coverageDefaultACLEntries isDir =
     (if isDir then [''u::rwx'', ''g::r-x'', ''o::---''] else [''u::rw-'', ''g::r--'', ''o::---''])"

definition coverageEnabledMetadataValues :: "capabilitySet \<Rightarrow> coverageMetadataClass list" where
  "coverageEnabledMetadataValues caps =
     [coverageMetadataClassNone] @
     (if caps coverageCapabilityOwnershipMetadata then [coverageMetadataClassOwnership] else []) @
     (if caps coverageCapabilityTimestampMetadata then [coverageMetadataClassTimestamps] else []) @
     (if caps coverageCapabilityOwnershipMetadata \<and> caps coverageCapabilityTimestampMetadata \<and>
         caps coverageCapabilityXAttrUser \<and> caps coverageCapabilityACL
      then [coverageMetadataClassFull] else [])"

definition coverageTimestampForCell :: "64 word \<Rightarrow> coverageTimestampVariant" where
  "coverageTimestampForCell cellID =
     [coverageTimestampVariantEpoch, coverageTimestampVariantPast, coverageTimestampVariantFuture,
      coverageTimestampVariantAtimeBeforeMtime, coverageTimestampVariantAtimeAfterMtime] ! (unat cellID mod 5)"

text \<open>The composite literal of a regular file.\<close>

definition file_entry :: "string \<Rightarrow> 32 word \<Rightarrow> 8 word list \<Rightarrow> metadataConfig \<Rightarrow> plannedEntry" where
  "file_entry path mode data metadata =
     (entry0 plannedEntryTypeFile path)\<lparr>pe_mode := mode, pe_data := data, pe_metadata := metadata\<rparr>"

section \<open>Directories and files\<close>

definition enumerateCoverageDirSubTree :: "kernel \<Rightarrow> nat \<Rightarrow> unit cov_op" where
  "enumerateCoverageDirSubTree k multiplier =
     bindS (getS (\<lambda>b. (Join2 (b_basePath b) ''dirs'', b_enabled b))) (\<lambda>(root, caps).
       let metaValues = coverageEnabledMetadataValues caps;
           cases = pairwise_cases [length coverageModeClassAll, length coverageNameClassAll, length metaValues] in
       for_cells cases multiplier (\<lambda>idx tc rep.
         let modeClass = coverageModeClassAll ! (tc ! 0);
             nameClass = coverageNameClassAll ! (tc ! 1);
             metaClass = metaValues ! (tc ! 2);
             cellID = coverageCellID [''dirs'', coverageModeClass_String modeClass, coverageNameClass_String nameClass,
                        coverageMetadataClass_String metaClass, rep_label rep] in
         bindS (cell_wrapper root ''dirs'') (\<lambda>wrapper.
         let dirPath = Join2 wrapper (coverageDeterministicName nameClass coverageNameDefaultLen cellID);
             metadata = coverageMetadataFor k metaClass caps (idx + rep) coverageTimestampVariantPast
               (coverageDefaultUserXAttrs cellID) (coverageDefaultACLEntries True) in
         appendDir dirPath (coverageModeForDir modeClass) metadata)))"

definition enumerateCoverageFileSubTree :: "kernel \<Rightarrow> nat \<Rightarrow> unit cov_op" where
  "enumerateCoverageFileSubTree k multiplier =
     bindS (getS (\<lambda>b. (Join2 (b_basePath b) ''files'', b_enabled b))) (\<lambda>(root, caps).
       let metaValues = coverageEnabledMetadataValues caps;
           cases = pairwise_cases [length coverageModeClassAll, length coverageContentClassAll,
             length coverageSizeClassAll, length coverageNameClassAll, length metaValues] in
       for_cells cases multiplier (\<lambda>idx tc rep.
         let modeClass = coverageModeClassAll ! (tc ! 0);
             contentClass = coverageContentClassAll ! (tc ! 1);
             sizeClass = coverageSizeClassAll ! (tc ! 2);
             nameClass = coverageNameClassAll ! (tc ! 3);
             metaClass = metaValues ! (tc ! 4);
             cellID = coverageCellID [''files'', coverageModeClass_String modeClass,
                        coverageContentClass_String contentClass, coverageSizeClass_String sizeClass,
                        coverageNameClass_String nameClass, coverageMetadataClass_String metaClass, rep_label rep] in
         bindS (cell_wrapper root ''files'') (\<lambda>wrapper.
         let filePath = Join2 wrapper (coverageDeterministicName nameClass coverageNameDefaultLen cellID) in
         bindS (liftS (coverageContentFor contentClass sizeClass cellID)) (\<lambda>content.
         let entry = (entry0 plannedEntryTypeFile filePath)\<lparr>pe_mode := coverageModeForFile modeClass\<rparr>;
             entry1 = (if pc_pattern content = ContentPatternUnknown 0
                       then entry\<lparr>pe_data := coveragePlainData (coverageSizeBytes sizeClass) cellID\<rparr>
                       else entry\<lparr>pe_content := content\<rparr>) in
         appendFile (entry1\<lparr>pe_metadata := coverageMetadataFor k metaClass caps (idx + rep)
           (coverageTimestampForCell cellID) (coverageDefaultUserXAttrs cellID)
           (coverageDefaultACLEntries False)\<rparr>)))))"

section \<open>Links\<close>

definition emitCoverageSymlinkCell ::
  "string \<Rightarrow> string \<Rightarrow> string \<Rightarrow> SymlinkStrategy \<Rightarrow> coverageNameClass \<Rightarrow> 64 word \<Rightarrow> unit cov_op" where
  "emitCoverageSymlinkCell wrapper anchorFilePath anchorSymlinkPath strategy nameClass cellID =
     (let linkName = coverageDeterministicName nameClass coverageNameDefaultLen cellID;
          linkPath = Join2 wrapper linkName in
      case strategy of
        SymlinkStrategyAbsolute \<Rightarrow> appendCoverageSymlink linkPath anchorFilePath
      | SymlinkStrategyRelative \<Rightarrow>
          bindS (liftS (wrapE ''coverage relative symlink'' (Rel wrapper anchorFilePath))) (\<lambda>rel.
          appendCoverageSymlink linkPath rel)
      | SymlinkStrategyDangling \<Rightarrow>
          let danglingTargetName =
                coverageDeterministicName coverageNameClassBasic coverageNameDefaultLen (xor cellID 0xDEAD) in
          appendCoverageSymlink linkPath (Join2 wrapper danglingTargetName)
      | SymlinkStrategySelfReferential \<Rightarrow> appendCoverageSymlink linkPath (Base linkPath)
      | SymlinkStrategyChained \<Rightarrow>
          bindS (liftS (wrapE ''coverage chained symlink'' (Rel wrapper anchorSymlinkPath))) (\<lambda>rel.
          appendCoverageSymlink linkPath rel)
      | SymlinkStrategyCycle \<Rightarrow>
          let linkPath2 = Join2 wrapper
                (coverageDeterministicName nameClass coverageNameDefaultLen (xor cellID 0xBEEF)) in
          bindS (appendCoverageSymlink linkPath (Base linkPath2)) (\<lambda>_.
          appendCoverageSymlink linkPath2 (Base linkPath))
      | SymlinkStrategyUnknown n \<Rightarrow> raiseS (Errorf ''unsupported coverage symlink strategy'' None))"

definition enumerateCoverageSymlinkSubTree :: "nat \<Rightarrow> unit cov_op" where
  "enumerateCoverageSymlinkSubTree multiplier =
     bindS (getS (\<lambda>b. (Join2 (b_basePath b) ''symlinks'', b_enabled b))) (\<lambda>(root, caps).
       if \<not> caps coverageCapabilitySymlinks then returnS ()
       else
         let anchorFilePath = Join2 root ''anchor-file.bin'';
             anchorSymlinkPath = Join2 root ''anchor-symlink.lnk'' in
         bindS (appendFile (file_entry anchorFilePath 0x1A4 (string_bytes ''coverage-anchor-file'') metadata0)) (\<lambda>_.
         bindS (appendCoverageSymlink anchorSymlinkPath ''anchor-file.bin'') (\<lambda>_.
         for_cells (pairwise_cases [length coverageSymlinkStrategyAll, length coverageNameClassAll]) multiplier
           (\<lambda>idx tc rep.
              let strategy = coverageSymlinkStrategyAll ! (tc ! 0);
                  nameClass = coverageNameClassAll ! (tc ! 1);
                  cellID = coverageCellID [''symlinks'', SymlinkStrategy_String strategy,
                             coverageNameClass_String nameClass, rep_label rep] in
              bindS (cell_wrapper root ''symlinks'') (\<lambda>wrapper.
              emitCoverageSymlinkCell wrapper anchorFilePath anchorSymlinkPath strategy nameClass cellID)))))"

text \<open>The mirrors of a group: \<open>ms\<close> are the numbers still to do.\<close>

fun append_mirrors :: "string \<Rightarrow> coverageNameClass \<Rightarrow> 64 word \<Rightarrow> string \<Rightarrow> nat list \<Rightarrow> string list cov_op" where
  "append_mirrors wrapper nameClass cellID originPath [] = returnS []"
| "append_mirrors wrapper nameClass cellID originPath (m # ms) =
     (let mirrorPath = Join2 wrapper
            (coverageDeterministicName nameClass coverageNameDefaultLen (xor cellID (word_of_nat m * 0x9E37))) in
      bindS (appendHardlink mirrorPath originPath) (\<lambda>_.
      bindS (append_mirrors wrapper nameClass cellID originPath ms) (\<lambda>mirrors.
      returnS (mirrorPath # mirrors))))"

definition enumerateCoverageHardlinkSubTree :: "nat \<Rightarrow> unit cov_op" where
  "enumerateCoverageHardlinkSubTree multiplier =
     bindS (getS (\<lambda>b. (Join2 (b_basePath b) ''hardlinks'', b_enabled b))) (\<lambda>(root, caps).
       if \<not> caps coverageCapabilityHardlinks then returnS ()
       else for_cells (pairwise_cases [length coverageHardlinkGroupSizeAll, length coverageNameClassAll]) multiplier
         (\<lambda>idx tc rep.
            let groupSize = coverageHardlinkGroupSizeAll ! (tc ! 0);
                nameClass = coverageNameClassAll ! (tc ! 1);
                cellID = coverageCellID [''hardlinks'', ''size-'' @ show_nat groupSize,
                           coverageNameClass_String nameClass, rep_label rep] in
            bindS (cell_wrapper root ''hardlinks'') (\<lambda>wrapper.
            let originPath = Join2 wrapper (coverageDeterministicName nameClass coverageNameDefaultLen cellID) in
            bindS (appendFile (file_entry originPath 0x1A4 (coveragePlainData 64 cellID) metadata0)) (\<lambda>_.
            bindS (append_mirrors wrapper nameClass cellID originPath [1..<groupSize]) (\<lambda>mirrors.
            registerHardlinkGroup originPath mirrors)))))"

section \<open>Special files\<close>

definition coverageSpecialTypeChar :: "SpecialFileType \<Rightarrow> string" where
  "coverageSpecialTypeChar t =
     (case t of
        SpecialFileTypeFIFO \<Rightarrow> ''f''
      | SpecialFileTypeSocket \<Rightarrow> ''s''
      | SpecialFileTypeCharDevice \<Rightarrow> ''c''
      | SpecialFileTypeBlockDevice \<Rightarrow> ''b''
      | SpecialFileTypeUnknown n \<Rightarrow> ''x'')"

definition special_enabled :: "capabilitySet \<Rightarrow> SpecialFileType \<Rightarrow> bool" where
  "special_enabled caps t =
     (case t of
        SpecialFileTypeFIFO \<Rightarrow> caps coverageCapabilitySpecialFIFO
      | SpecialFileTypeSocket \<Rightarrow> caps coverageCapabilitySpecialSocket
      | SpecialFileTypeCharDevice \<Rightarrow> caps coverageCapabilitySpecialCharDevice
      | SpecialFileTypeBlockDevice \<Rightarrow> caps coverageCapabilitySpecialBlockDevice
      | SpecialFileTypeUnknown n \<Rightarrow> False)"

text \<open>The entries are numbered through: \<open>specialIndex\<close> is the index of the next one.\<close>

definition special_entry :: "string \<Rightarrow> SpecialFileType \<Rightarrow> coverageModeClass \<Rightarrow> nat \<Rightarrow> plannedEntry" where
  "special_entry root specialType modeClass specialIndex =
     (let path = Join2 root (pad_zero 6 (show_nat specialIndex) @ ''-'' @ coverageSpecialTypeChar specialType);
          entry = (entry0 plannedEntryTypeSpecial path)\<lparr>pe_mode := coverageModeForFile modeClass,
                    pe_special := specialType\<rparr> in
      if specialType = SpecialFileTypeCharDevice \<or> specialType = SpecialFileTypeBlockDevice
      then entry\<lparr>pe_major := 1, pe_minor := 3\<rparr> else entry)"

definition enumerateCoverageSpecialSubTree :: "nat \<Rightarrow> unit cov_op" where
  "enumerateCoverageSpecialSubTree multiplier =
     bindS (getS (\<lambda>b. (Join2 (b_basePath b) ''special'', b_enabled b))) (\<lambda>(root, caps).
       let types = filter (special_enabled caps) coverageSpecialFileTypeAll;
           modeValues = [coverageModeClassRegular, coverageModeClassExecutable] in
       if length types = 0 then returnS ()
       else for_cells (pairwise_cases [length types, length modeValues]) multiplier (\<lambda>idx tc rep.
         appendSpecial (special_entry root (types ! (tc ! 0)) (modeValues ! (tc ! 1)) (idx * multiplier + rep))))"

section \<open>Attributes, ACLs and time stamps\<close>

definition coverageBytesOfLength :: "nat \<Rightarrow> 64 word \<Rightarrow> 8 word list" where
  "coverageBytesOfLength n cellID =
     stream_bytes n (word_of_int (coverageDeterministicSeed ''xattr-large'' cellID))"

definition coverageBinaryXAttrPayload :: "64 word \<Rightarrow> 8 word list" where
  "coverageBinaryXAttrPayload cellID = map (\<lambda>i. xor (word_of_nat i) (ucast cellID)) [0..<256]"

definition coverageXAttrValueFor :: "coverageXAttrVariant \<Rightarrow> 64 word \<Rightarrow> 8 word list gomap" where
  "coverageXAttrValueFor variant cellID =
     (case variant of
        coverageXAttrVariantUserShort \<Rightarrow> [(''user.coverage.short'', cell_value cellID)]
      | coverageXAttrVariantUserEmpty \<Rightarrow> [(''user.coverage.empty'', [])]
      | coverageXAttrVariantUserLarge \<Rightarrow> [(''user.coverage.large'', coverageBytesOfLength 1024 cellID)]
      | coverageXAttrVariantUserBinary \<Rightarrow> [(''user.coverage.binary'', coverageBinaryXAttrPayload cellID)]
      | coverageXAttrVariantTrusted \<Rightarrow> [(''trusted.coverage.value'', cell_value cellID)]
      | coverageXAttrVariantSecurity \<Rightarrow> [(''security.coverage.value'', cell_value cellID)])"

definition enumerateCoverageXAttrSubTree :: "nat \<Rightarrow> unit cov_op" where
  "enumerateCoverageXAttrSubTree multiplier =
     bindS (getS (\<lambda>b. (Join2 (b_basePath b) ''xattr-variants'', b_enabled b))) (\<lambda>(root, caps).
       if \<not> caps coverageCapabilityXAttrUser then returnS ()
       else
         let variants =
               [coverageXAttrVariantUserShort, coverageXAttrVariantUserEmpty,
                coverageXAttrVariantUserLarge, coverageXAttrVariantUserBinary] @
               (if caps coverageCapabilityXAttrTrusted then [coverageXAttrVariantTrusted] else []) @
               (if caps coverageCapabilityXAttrSecurity then [coverageXAttrVariantSecurity] else []) in
         for_cells (pairwise_cases [length variants, length coverageNameClassAll]) multiplier (\<lambda>idx tc rep.
           let variant = variants ! (tc ! 0);
               nameClass = coverageNameClassAll ! (tc ! 1);
               cellID = coverageCellID [''xattr-variants'', coverageXAttrVariant_String variant,
                          coverageNameClass_String nameClass, rep_label rep] in
           bindS (cell_wrapper root ''xattr'') (\<lambda>wrapper.
           let filePath = Join2 wrapper (coverageDeterministicName nameClass coverageNameDefaultLen cellID) in
           appendFile (file_entry filePath 0x1A4 (coveragePlainData 16 cellID)
             (metadata0\<lparr>hasXAttrs := True, md_xattrs := coverageXAttrValueFor variant cellID\<rparr>)))))"

definition coverageACLEntriesFor :: "coverageACLVariant \<Rightarrow> string list" where
  "coverageACLEntriesFor variant =
     (case variant of
        coverageACLVariantBase \<Rightarrow> [''u::rw-'', ''g::r--'', ''o::---'']
      | coverageACLVariantNamedUserGroupMask \<Rightarrow>
          [''u::rw-'', ''g::r--'', ''o::---'', ''u:1000:r--'', ''g:1000:r--'', ''m::r--'']
      | coverageACLVariantDefaultOnDir \<Rightarrow>
          [''u::rwx'', ''g::r-x'', ''o::---'', ''default:u::rwx'', ''default:g::r-x'', ''default:o::---''])"

definition enumerateCoverageACLSubTree :: "nat \<Rightarrow> unit cov_op" where
  "enumerateCoverageACLSubTree multiplier =
     bindS (getS (\<lambda>b. (Join2 (b_basePath b) ''acl-variants'', b_enabled b))) (\<lambda>(root, caps).
       if \<not> caps coverageCapabilityACL then returnS ()
       else
         let variants = [coverageACLVariantBase, coverageACLVariantNamedUserGroupMask, coverageACLVariantDefaultOnDir] in
         for_cells (pairwise_cases [length variants, length coverageNameClassAll]) multiplier (\<lambda>idx tc rep.
           let variant = variants ! (tc ! 0);
               nameClass = coverageNameClassAll ! (tc ! 1);
               cellID = coverageCellID [''acl-variants'', coverageACLVariant_String variant,
                          coverageNameClass_String nameClass, rep_label rep];
               metadata = metadata0\<lparr>hasACL := True, aclEntries := coverageACLEntriesFor variant\<rparr> in
           bindS (cell_wrapper root ''acl'') (\<lambda>wrapper.
           let path = Join2 wrapper (coverageDeterministicName nameClass coverageNameDefaultLen cellID) in
           if variant = coverageACLVariantDefaultOnDir then appendDir path 0x1ED metadata
           else appendFile (file_entry path 0x1A4 (coveragePlainData 16 cellID) metadata))))"

definition enumerateCoverageTimestampSubTree :: "nat \<Rightarrow> unit cov_op" where
  "enumerateCoverageTimestampSubTree multiplier =
     bindS (getS (\<lambda>b. (Join2 (b_basePath b) ''timestamp-variants'', b_enabled b))) (\<lambda>(root, caps).
       if \<not> caps coverageCapabilityTimestampMetadata then returnS ()
       else
         let variants = [coverageTimestampVariantEpoch, coverageTimestampVariantPast, coverageTimestampVariantFuture,
               coverageTimestampVariantAtimeBeforeMtime, coverageTimestampVariantAtimeAfterMtime] in
         for_cells (pairwise_cases [length variants, length coverageNameClassAll]) multiplier (\<lambda>idx tc rep.
           let variant = variants ! (tc ! 0);
               nameClass = coverageNameClassAll ! (tc ! 1);
               cellID = coverageCellID [''timestamp-variants'', coverageTimestampVariant_String variant,
                          coverageNameClass_String nameClass, rep_label rep] in
           bindS (cell_wrapper root ''ts'') (\<lambda>wrapper.
           let filePath = Join2 wrapper (coverageDeterministicName nameClass coverageNameDefaultLen cellID) in
           case coverageTimestampPair variant of (atime, mtime) \<Rightarrow>
             appendFile (file_entry filePath 0x1A4 (coveragePlainData 16 cellID)
               (metadata0\<lparr>hasTimestamps := True, md_atime := atime, md_mtime := mtime\<rparr>)))))"

section \<open>The plan\<close>

text \<open>The table of sub-trees, in order.\<close>

definition subTrees :: "kernel \<Rightarrow> (string \<times> (nat \<Rightarrow> unit cov_op)) list" where
  "subTrees k =
     [(''dirs'', enumerateCoverageDirSubTree k), (''files'', enumerateCoverageFileSubTree k),
      (''symlinks'', enumerateCoverageSymlinkSubTree), (''hardlinks'', enumerateCoverageHardlinkSubTree),
      (''special'', enumerateCoverageSpecialSubTree), (''xattr-variants'', enumerateCoverageXAttrSubTree),
      (''acl-variants'', enumerateCoverageACLSubTree), (''timestamp-variants'', enumerateCoverageTimestampSubTree)]"

definition build_coverage :: "kernel \<Rightarrow> string \<Rightarrow> nat \<Rightarrow> unit cov_op" where
  "build_coverage k base multiplier =
     bindS (appendDir base 0x1ED metadata0) (\<lambda>_.
     for_each (\<lambda>(name, fn).
       bindS (appendDir (Join2 base name) 0x1ED metadata0) (\<lambda>_. fn multiplier)) (subTrees k))"

definition enumerateCoveragePlan ::
  "kernel \<Rightarrow> string \<Rightarrow> DeterministicCoverageOptions \<Rightarrow> fsys
     \<Rightarrow> ((err + runPlan) \<times> capabilityReport list) \<times> fsys" where
  "enumerateCoveragePlan k base opts fs =
     (case resolveCoverageCapabilities k opts base fs of
        (caps, fs') \<Rightarrow>
          (case build_coverage k base (coverageEffortMultiplier (co_effort opts))
                  (newCoveragePlanBuilder base caps) of
             (Inl e, b) \<Rightarrow> ((Inl e, caps), fs')
           | (Inr _, b) \<Rightarrow> ((Inr (buildRunPlan b), caps), fs')))"

end
