(* ===== verification/Coverage_Spec.thy ===== *)
theory Coverage_Spec
  imports Coverage_Enumerator Apply_Total
begin

text \<open>
  What the plan of a coverage run promises (\<^verbatim>\<open>coverage_enumerator.go\<close>): no path collides, so the
  enumerators never fail; the entries are in creation order and the hard link groups are those of
  the plan, as for a random plan (\<open>Plan_Spec\<close>); every entry can be applied as far as the enabled
  capabilities allow; and the number of entries stays below the default limit. \<open>cov\<close> is the
  invariant of the builder, kept by every cell.
\<close>

section \<open>Loops\<close>

lemma for_each_inv:
  assumes "\<And>i b. i < length xs \<Longrightarrow> J i b \<Longrightarrow> \<exists>b'. f (xs ! i) b = (Inr (), b') \<and> J (Suc i) b'" and "J 0 b"
  shows "\<exists>b'. for_each f xs b = (Inr (), b') \<and> J (length xs) b'"
  using assms
proof (induction xs arbitrary: J b)
  case Nil
  then show ?case by (simp add: returnS_def)
next
  case (Cons x xs)
  obtain b1 where b1: "f x b = (Inr (), b1)" "J (Suc 0) b1" using Cons.prems(1) [of 0 b] Cons.prems(2) by auto
  have "\<exists>b'. for_each f xs b1 = (Inr (), b') \<and> J (Suc (length xs)) b'"
  proof (rule Cons.IH [of "\<lambda>i. J (Suc i)"])
    show "\<exists>b'. f (xs ! i) b = (Inr (), b') \<and> J (Suc (Suc i)) b'" if "i < length xs" "J (Suc i) b" for i b
      using Cons.prems(1) [of "Suc i" b] that by simp
  qed (rule b1(2))
  then show ?case using b1(1) by (auto simp: bindS_def)
qed

lemma for_cells_inv:
  assumes cell: "\<And>i tc rep b. i < length cases \<Longrightarrow> tc = cases ! i \<Longrightarrow> rep < reps \<Longrightarrow> I (i * reps + rep) b \<Longrightarrow>
      \<exists>b'. cell i tc rep b = (Inr (), b') \<and> I (Suc (i * reps + rep)) b'"
    and start: "I 0 b"
  shows "\<exists>b'. for_cells cases reps cell b = (Inr (), b') \<and> I (length cases * reps) b'"
proof -
  let ?f = "\<lambda>(i, tc). for_each (cell i tc) [0..<reps]" and ?xs = "zip [0..<length cases] cases"
  have "\<exists>b'. for_each ?f ?xs b = (Inr (), b') \<and> I (length ?xs * reps) b'"
  proof (rule for_each_inv [where J = "\<lambda>i. I (i * reps)"])
    fix i b assume i: "i < length ?xs" "I (i * reps) b"
    have x: "?xs ! i = (i, cases ! i)" using i(1) by simp
    have "\<exists>b'. for_each (cell i (cases ! i)) [0..<reps] b = (Inr (), b') \<and> I (i * reps + length [0..<reps]) b'"
      by (rule for_each_inv [where J = "\<lambda>r. I (i * reps + r)"]) (use cell i in auto)
    then show "\<exists>b'. ?f (?xs ! i) b = (Inr (), b') \<and> I (Suc i * reps) b'" unfolding x by (simp add: add.commute)
  qed (use start in simp)
  then show ?thesis by (simp add: for_cells_def)
qed

section \<open>Names of cells\<close>

definition cell_name :: "string \<Rightarrow> nat \<Rightarrow> string" where
  "cell_name kind i = ''cell-'' @ kind @ ''-'' @ pad_zero 5 (show_nat i)"

lemma digits_no_dash: "list_all is_digit ds \<Longrightarrow> CHR ''-'' \<notin> set ds"
  by (auto simp: list_all_iff is_digit_def less_eq_char_def)

lemma pad_digits: "list_all is_digit (pad_zero w (show_nat i))"
  using show_nat_digits [of i] by (auto simp: pad_zero_def list_all_iff is_digit_def less_eq_char_def)

lemma read_zeros: "read_nat (replicate n (CHR ''0'') @ ds) = read_nat ds"
  by (induction n) (simp_all add: read_nat_def digit_val_def)

lemma read_pad: "read_nat (pad_zero w (show_nat i)) = i"
  by (simp add: pad_zero_def read_zeros)

lemma after_dash:
  "CHR ''-'' \<notin> set ds \<Longrightarrow> rev (takeWhile (\<lambda>c. c \<noteq> CHR ''-'') (rev (u @ CHR ''-'' # ds))) = ds"
proof -
  assume "CHR ''-'' \<notin> set ds"
  then have "takeWhile (\<lambda>c. c \<noteq> CHR ''-'') (rev ds @ CHR ''-'' # rev u) = rev ds"
    by (subst takeWhile_append2) auto
  then show ?thesis by simp
qed

lemma cell_name_inj: "cell_name k1 i = cell_name k2 j \<Longrightarrow> i = j"
proof -
  assume eq: "cell_name k1 i = cell_name k2 j"
  have "rev (takeWhile (\<lambda>c. c \<noteq> CHR ''-'') (rev (cell_name k n))) = pad_zero 5 (show_nat n)" for k n
    using after_dash [OF digits_no_dash [OF pad_digits], of "''cell-'' @ k" 5 n] by (simp add: cell_name_def)
  then show "i = j" using eq read_pad by metis
qed

lemma digit_name_byte: "is_digit c \<Longrightarrow> name_byte c"
  using is_digit_ne [of c] by (auto simp: name_byte_def NUL_def slash_def)

lemma legal_elem_ok:
  "list_all name_byte w \<Longrightarrow> 2 < length w \<Longrightarrow> elem_ok w"
  by (auto simp: elem_ok_def dot_def dotdot_def list_all_iff name_byte_def)

lemma cell_name_legal:
  assumes "list_all name_byte kind"
  shows "list_all name_byte (cell_name kind i)" "elem_ok (cell_name kind i)" "hd (cell_name kind i) = CHR ''c''"
proof -
  have "list_all name_byte (pad_zero 5 (show_nat i))"
    using pad_digits [of 5 i] digit_name_byte by (auto simp: list_all_iff)
  then show "list_all name_byte (cell_name kind i)"
    using assms by (simp add: cell_name_def name_byte_def NUL_def slash_def)
  then show "elem_ok (cell_name kind i)" by (rule legal_elem_ok) (simp add: cell_name_def)
  show "hd (cell_name kind i) = CHR ''c''" by (simp add: cell_name_def)
qed

lemma wrapper_path: "coverageCellWrapperDir root kind i = Join2 root (cell_name kind i)"
  by (simp add: coverageCellWrapperDir_def cell_name_def)

section \<open>The invariant\<close>

text \<open>What the metadata and the entries of the plan need to be applied.\<close>

definition meta_shape :: "capabilitySet \<Rightarrow> metadataConfig \<Rightarrow> bool" where
  "meta_shape caps md \<longleftrightarrow>
     (hasOwnership md \<longrightarrow> caps coverageCapabilityOwnershipMetadata \<and> 0 \<le> md_uid md \<and> 0 \<le> md_gid md) \<and>
     (hasTimestamps md \<longrightarrow> caps coverageCapabilityTimestampMetadata) \<and>
     (hasXAttrs md \<longrightarrow> caps coverageCapabilityXAttrUser \<and>
        list_all (\<lambda>n. validateXAttrName n = Inr n) (keys (md_xattrs md))) \<and>
     (hasACL md \<longrightarrow> caps coverageCapabilityACL)"

definition cov_entry :: "capabilitySet \<Rightarrow> plannedEntry \<Rightarrow> bool" where
  "cov_entry caps e \<longleftrightarrow> \<not> Contains (pe_path e) NUL \<and> meta_shape caps (pe_metadata e) \<and>
     (pe_type e \<noteq> plannedEntryTypeHardlink \<longrightarrow> caps coverageCapabilityTimestampMetadata \<longrightarrow>
        hasTimestamps (pe_metadata e)) \<and>
     (case pe_type e of
        plannedEntryTypeFile \<Rightarrow> length (pe_data e) \<le> 131079 \<and>
          (pe_content e = content0 \<or> content_writable (pe_content e) \<and> pc_logicalSize (pe_content e) \<le> 131079)
      | plannedEntryTypeSymlink \<Rightarrow> \<not> Contains (pe_linkTarget e) NUL
      | plannedEntryTypeSpecial \<Rightarrow> \<not> hasXAttrs (pe_metadata e)
      | _ \<Rightarrow> True)"

text \<open>
  The used paths are the base, sub-tree roots in \<open>T\<close>, and paths below their children: cells with
  an index that has been given out, or the children listed in \<open>K\<close>.
\<close>

definition key_ok :: "string \<Rightarrow> string set \<Rightarrow> (string \<times> string) set \<Rightarrow> nat \<Rightarrow> string \<Rightarrow> bool" where
  "key_ok B T K n p \<longleftrightarrow> p = B \<or>
     (\<exists>s r. s \<in> T \<and> elems p = elems B @ s # r \<and>
        (\<forall>c q. r = c # q \<longrightarrow> (\<exists>kind i. c = cell_name kind i \<and> i < n) \<or> (s, c) \<in> K))"

text \<open>\<open>L\<close> has the links not yet in a group, \<open>D\<close> directories that are there.\<close>

definition cov :: "string \<Rightarrow> capabilitySet \<Rightarrow> string set \<Rightarrow> (string \<times> string) set \<Rightarrow> string set
    \<Rightarrow> (string \<times> string) set \<Rightarrow> nat \<Rightarrow> coveragePlanBuilder \<Rightarrow> bool" where
  "cov B caps T K D L m b \<longleftrightarrow> clean_abs B \<and> \<not> Contains B NUL \<and> b_basePath b = B \<and> b_enabled b = caps \<and>
     set (b_used b) = set (paths (b_entries b)) \<and> entries_ok B (b_entries b) \<and> b_entries b \<noteq> [] \<and>
     list_all (cov_entry caps) (b_entries b) \<and> length (b_entries b) \<le> m \<and>
     D \<subseteq> set (names plannedEntryTypeDir (b_entries b)) \<and>
     (\<forall>p \<in> set (b_used b). key_ok B T K (b_nextCellIndex b) p) \<and>
     (\<forall>(s, c) \<in> K. hd c \<noteq> CHR ''c'') \<and>
     list_all (group_ok (b_entries b)) (b_hardlinks b) \<and> distinct (concat (map hg_paths (b_hardlinks b))) \<and>
     (\<forall>l \<in> set (hard_links (b_entries b)). grouped (b_hardlinks b) l \<or> l \<in> L)"

lemma key_ok_mono:
  "key_ok B T K n p \<Longrightarrow> T \<subseteq> T' \<Longrightarrow> K \<subseteq> K' \<Longrightarrow> n \<le> n' \<Longrightarrow> key_ok B T' K' n' p"
  unfolding key_ok_def by (meson less_le_trans subsetD)

text \<open>An entry below a directory that is there, at a new path.\<close>

lemma cov_push:
  assumes inv: "cov B caps T K D L m b" and new: "path \<notin> set (b_used b)"
    and ent: "entry caps = e" and e: "pe_path e = path" "cov_entry caps e"
    and place: "below B path" "Dir path \<in> D"
    and link: "pe_type e = plannedEntryTypeHardlink \<Longrightarrow>
      pe_linkTarget e \<in> set (names plannedEntryTypeFile (b_entries b)) \<and> (path, pe_linkTarget e) \<in> L'"
    and sym: "pe_type e = plannedEntryTypeSymlink \<Longrightarrow> pe_linkTarget e \<noteq> []"
    and spec: "pe_type e = plannedEntryTypeSpecial \<Longrightarrow>
      is_ok (validateSpecialFileType (pe_special e)) \<and> 0 \<le> pe_major e \<and> 0 \<le> pe_minor e"
    and key: "key_ok B T' K' (b_nextCellIndex b) path" "T \<subseteq> T'" "K \<subseteq> K'" "\<forall>(s, c) \<in> K'. hd c \<noteq> CHR ''c''"
    and D': "D' \<subseteq> D \<union> (if pe_type e = plannedEntryTypeDir then {path} else {})" and L: "L \<subseteq> L'"
  shows "\<exists>b'. push_entry entry path b = (Inr (), b') \<and> cov B caps T' K' D' L' (Suc m) b' \<and>
    b_used b' = path # b_used b \<and> b_nextCellIndex b' = b_nextCellIndex b \<and> b_hardlinks b' = b_hardlinks b \<and>
    b_entries b' = b_entries b @ [e]"
proof -
  let ?e = e
  let ?b = "b\<lparr>b_used := path # b_used b, b_entries := b_entries b @ [?e]\<rparr>"
  have caps: "b_enabled b = caps" and used: "set (b_used b) = set (paths (b_entries b))" using inv by (simp_all add: cov_def)
  have run: "push_entry entry path b = (Inr (), ?b)"
    using new caps ent by (simp add: push_entry_def registerPath_def bindS_def modifyS_def)
  have "Dir path \<in> set (names plannedEntryTypeDir (b_entries b))" using inv place(2) by (auto simp: cov_def)
  then have ok: "entry_ok B (b_entries b) ?e"
    using inv new used e(1) place(1) link sym spec by (auto simp: entry_ok_def cov_def)
  have keys: "\<forall>p \<in> set (b_used b). key_ok B T' K' (b_nextCellIndex b) p"
    using inv key key_ok_mono unfolding cov_def by blast
  have "cov B caps T' K' D' L' (Suc m) ?b"
    using inv e ok keys key link L D' groups_snoc [of "b_entries b" "b_hardlinks b" ?e] unfolding cov_def
    by (auto split: if_splits)
  with run show ?thesis by simp
qed

section \<open>A cell\<close>

text \<open>The names used below the wrapper are in \<open>N\<close>, and no group has one but those in \<open>N\<close>.\<close>

definition in_cell :: "string \<Rightarrow> string set \<Rightarrow> coveragePlanBuilder \<Rightarrow> bool" where
  "in_cell w N b \<longleftrightarrow> (\<forall>x. elem_ok x \<longrightarrow> Join2 w x \<in> set (b_used b) \<longrightarrow> x \<in> N) \<and>
     (\<forall>g \<in> set (b_hardlinks b). \<forall>p \<in> set (hg_paths g). \<forall>x. elem_ok x \<longrightarrow> p \<noteq> Join2 w x)"

text \<open>A wrapper in the sub-tree \<open>s\<close> whose index has been given out.\<close>

definition wrapper_of :: "string \<Rightarrow> string \<Rightarrow> nat \<Rightarrow> string \<Rightarrow> bool" where
  "wrapper_of B s n w \<longleftrightarrow> clean_abs w \<and> \<not> Contains w NUL \<and> below B w \<and>
     (\<exists>kind i. elems w = elems B @ [s, cell_name kind i] \<and> i < n)"

lemma Join2_NUL: "\<not> Contains a NUL \<Longrightarrow> list_all name_byte w \<Longrightarrow> \<not> Contains (Join2 a w) NUL"
proof -
  assume "\<not> Contains a NUL" "list_all name_byte w"
  moreover have "set (Join2 a w) \<subseteq> set a \<union> set w \<union> {slash, CHR ''.''}"
    using set_Clean [of w] set_Clean [of "a @ slash # w"] by (auto simp: Join2_def)
  ultimately show ?thesis by (auto simp: Contains_def list_all_iff name_byte_def NUL_def slash_def)
qed

lemma root_below:
  assumes "clean_abs B" "elem_ok s"
  shows "below B (Join2 B s)" "clean_abs (Join2 B s)" "elems (Join2 B s) = elems B @ [s]" "Dir (Join2 B s) = B"
  using child_path [OF assms] below_child [OF assms(1) _ assms(2)] by auto

lemma child_below:
  assumes "clean_abs B" "elem_ok s" "elem_ok c"
  shows "below B (Join2 (Join2 B s) c)" "clean_abs (Join2 (Join2 B s) c)"
    "elems (Join2 (Join2 B s) c) = elems B @ [s, c]" "Dir (Join2 (Join2 B s) c) = Join2 B s"
proof -
  note r = root_below [OF assms(1,2)]
  show "below B (Join2 (Join2 B s) c)" "clean_abs (Join2 (Join2 B s) c)"
    "elems (Join2 (Join2 B s) c) = elems B @ [s, c]" "Dir (Join2 (Join2 B s) c) = Join2 B s"
    using child_path [OF r(2) assms(3)] below_child [OF r(2) _ assms(3)] r by auto
qed

lemma cov_wrapper:
  assumes inv: "cov B caps T K D L m b" and s: "elem_ok s" "list_all name_byte s" "s \<in> T" "Join2 B s \<in> D"
    and kind: "list_all name_byte kind"
  shows "\<exists>w b'. cell_wrapper (Join2 B s) kind b = (Inr w, b') \<and> cov B caps T K (insert w D) L (Suc m) b' \<and>
    in_cell w {} b' \<and> wrapper_of B s (b_nextCellIndex b') w"
proof -
  let ?n = "b_nextCellIndex b"
  let ?c = "cell_name kind ?n"
  let ?w = "Join2 (Join2 B s) ?c"
  let ?b = "b\<lparr>b_nextCellIndex := Suc ?n\<rparr>"
  let ?entry = "\<lambda>caps. (entry0 plannedEntryTypeDir ?w)\<lparr>pe_mode := 0x1ED,
       pe_metadata := ensureDeterministicTimestamps caps metadata0\<rparr>"
  have B: "clean_abs B" "\<not> Contains B NUL" using inv by (simp_all add: cov_def)
  note c = cell_name_legal [OF kind, of ?n]
  note w = child_below [OF B(1) s(1) c(2)]
  have nul: "\<not> Contains ?w NUL" using B(2) s(2) c(1) by (intro Join2_NUL) simp_all
  have fresh: "elems p \<noteq> elems B @ s # ?c # r" if p: "p \<in> set (b_used b)" for p r
  proof
    assume eq: "elems p = elems B @ s # ?c # r"
    have "key_ok B T K ?n p" using inv p by (simp add: cov_def)
    then show False
      unfolding key_ok_def
    proof (elim disjE exE conjE)
      assume "p = B"
      with eq show False by simp
    next
      fix s' r'
      assume "s' \<in> T" "elems p = elems B @ s' # r'"
        and k: "\<forall>c q. r' = c # q \<longrightarrow> (\<exists>kind i. c = cell_name kind i \<and> i < ?n) \<or> (s', c) \<in> K"
      then have "s' = s" "r' = ?c # r" using eq by simp_all
      then have "(\<exists>kind' i. ?c = cell_name kind' i \<and> i < ?n) \<or> (s, ?c) \<in> K" using k by blast
      moreover have "\<not> (\<exists>kind' i. ?c = cell_name kind' i \<and> i < ?n)" using cell_name_inj by blast
      moreover have "(s, ?c) \<notin> K" using inv c(3) by (auto simp: cov_def)
      ultimately show False by blast
    qed
  qed
  have clean: "clean_abs p" if "p \<in> set (b_used b)" for p
    using inv that entries_ok_path [of B "b_entries b" p] by (auto simp: cov_def below_def)
  have new: "?w \<notin> set (b_used ?b)" using fresh w(3) by auto
  have inv': "cov B caps T K D L m ?b"
    using inv key_ok_mono [of B T K ?n _ T K "Suc ?n"] unfolding cov_def by auto
  have key: "key_ok B T K (Suc ?n) ?w" unfolding key_ok_def using w(3) s(3) by auto
  have K: "\<forall>(s, c) \<in> K. hd c \<noteq> CHR ''c''" using inv by (simp add: cov_def)
  have "cov_entry caps (?entry caps)"
    using nul by (simp add: cov_entry_def entry0_def meta_shape_def ensureDeterministicTimestamps_def metadata0_def)
  from cov_push [where entry = ?entry, OF inv' new refl _ this w(1), where T' = T and K' = K and D' = "insert ?w D" and L' = L] obtain b' where
    b': "push_entry ?entry ?w ?b = (Inr (), b')" "cov B caps T K (insert ?w D) L (Suc m) b'"
      "b_used b' = ?w # b_used b" "b_nextCellIndex b' = Suc ?n" "b_hardlinks b' = b_hardlinks b"
    using w(4) s(4) key K by (auto simp: entry0_def)
  have run: "cell_wrapper (Join2 B s) kind b = (Inr ?w, b')"
    using b'(1) by (simp add: cell_wrapper_def bindS_def getS_def modifyS_def returnS_def appendDir_def
        wrapper_path Let_def)
  have in_w: "elems (Join2 ?w x) = elems B @ s # ?c # [x]" "?w \<noteq> Join2 ?w x" if "elem_ok x" for x
    using child_path [OF w(2) that] w(3) by (auto dest: arg_cong [of _ _ elems])
  have "p \<in> set (b_used b)" if "g \<in> set (b_hardlinks b)" "p \<in> set (hg_paths g)" for g p
    using inv that group_paths [of "b_entries b" g] by (auto simp: cov_def list_all_iff)
  then have cell: "in_cell ?w {} b'"
    unfolding in_cell_def using in_w fresh b'(3,5) by (metis set_ConsD)
  have "wrapper_of B s (b_nextCellIndex b') ?w"
    unfolding wrapper_of_def using w nul b'(4) by auto
  with run b'(2) cell show ?thesis by blast
qed

text \<open>An entry of the cell, with a name that is not used yet.\<close>

lemma cov_in_cell:
  assumes inv: "cov B caps T K D L m b" and cell: "in_cell w N b" "wrapper_of B s (b_nextCellIndex b) w"
    and s: "s \<in> T" "w \<in> D" and x: "elem_ok x" "x \<notin> N"
    and ent: "entry caps = e" and e: "pe_path e = Join2 w x" "cov_entry caps e"
    and link: "pe_type e = plannedEntryTypeHardlink \<Longrightarrow>
      pe_linkTarget e \<in> set (names plannedEntryTypeFile (b_entries b)) \<and>
      (Join2 w x, pe_linkTarget e) \<in> L'"
    and sym: "pe_type e = plannedEntryTypeSymlink \<Longrightarrow> pe_linkTarget e \<noteq> []"
    and spec: "pe_type e \<noteq> plannedEntryTypeSpecial" and L: "L \<subseteq> L'"
  shows "\<exists>b'. push_entry entry (Join2 w x) b = (Inr (), b') \<and> cov B caps T K D L' (Suc m) b' \<and>
    in_cell w (insert x N) b' \<and> b_nextCellIndex b' = b_nextCellIndex b \<and> b_hardlinks b' = b_hardlinks b \<and>
    b_entries b' = b_entries b @ [e]"
proof -
  have w: "clean_abs w" "below B w" using cell(2) by (simp_all add: wrapper_of_def)
  obtain kind i where wi: "elems w = elems B @ [s, cell_name kind i]" "i < b_nextCellIndex b"
    using cell(2) by (auto simp: wrapper_of_def)
  note c = child_path [OF w(1) x(1)]
  have new: "Join2 w x \<notin> set (b_used b)" using cell(1) x by (auto simp: in_cell_def)
  have bel: "below B (Join2 w x)" using below_child [OF w(1) _ x(1)] w(2) by blast
  have "elems (Join2 w x) = elems B @ s # [cell_name kind i, x]" using c(2) wi(1) by simp
  then have key: "key_ok B T K (b_nextCellIndex b) (Join2 w x)"
    unfolding key_ok_def using wi(2) s(1) by blast
  have K: "\<forall>(s, c) \<in> K. hd c \<noteq> CHR ''c''" using inv by (simp add: cov_def)
  have D: "Dir (Join2 w x) \<in> D" using c(3) s(2) by simp
  have sp: "is_ok (validateSpecialFileType (pe_special e)) \<and> 0 \<le> pe_major e \<and> 0 \<le> pe_minor e"
    if "pe_type e = plannedEntryTypeSpecial" using spec that by simp
  have "\<exists>b'. push_entry entry (Join2 w x) b = (Inr (), b') \<and> cov B caps T K D L' (Suc m) b' \<and>
    b_used b' = Join2 w x # b_used b \<and> b_nextCellIndex b' = b_nextCellIndex b \<and> b_hardlinks b' = b_hardlinks b \<and>
    b_entries b' = b_entries b @ [e]"
    by (rule cov_push [where entry = entry, OF inv new ent e bel D])
      (erule link | erule sym | erule sp | rule key subset_refl K L Un_upper1)+
  then obtain b' where
    b': "push_entry entry (Join2 w x) b = (Inr (), b')" "cov B caps T K D L' (Suc m) b'"
      "b_used b' = Join2 w x # b_used b" "b_nextCellIndex b' = b_nextCellIndex b" "b_hardlinks b' = b_hardlinks b"
      "b_entries b' = b_entries b @ [e]"
    by (elim exE conjE) (rule that)
  have same: "y = x" if "elem_ok y" "Join2 w y = Join2 w x" for y
  proof -
    have "elems w @ [y] = elems w @ [x]" using c(2) unfolding that(2) [symmetric] child_path(2) [OF w(1) that(1)] .
    then show ?thesis by simp
  qed
  have "y \<in> insert x N" if y: "elem_ok y" "Join2 w y \<in> set (b_used b')" for y
  proof (cases "Join2 w y = Join2 w x")
    case True
    then show ?thesis using same [OF y(1)] by simp
  next
    case False
    then have "Join2 w y \<in> set (b_used b)" using y(2) unfolding b'(3) by simp
    then show ?thesis using cell(1) y(1) unfolding in_cell_def by blast
  qed
  moreover have "\<forall>g \<in> set (b_hardlinks b'). \<forall>p \<in> set (hg_paths g). \<forall>y. elem_ok y \<longrightarrow> p \<noteq> Join2 w y"
    using cell(1) unfolding in_cell_def b'(5) by (rule conjunct2)
  ultimately have "in_cell w (insert x N) b'" unfolding in_cell_def by blast
  then show ?thesis using b'(1,2,4,5,6) by (intro exI [of _ b'] conjI)
qed

lemma cov_mono:
  assumes "cov B caps T K D L m b" "T \<subseteq> T'" "D' \<subseteq> D" "L \<subseteq> L'" "m \<le> m'"
  shows "cov B caps T' K D' L' m' b"
  using assms key_ok_mono [of B T K "b_nextCellIndex b" _ T' K "b_nextCellIndex b"] unfolding cov_def by auto

text \<open>The state within a cell with wrapper \<open>w\<close>.\<close>

definition cell_inv :: "string \<Rightarrow> capabilitySet \<Rightarrow> string set \<Rightarrow> (string \<times> string) set \<Rightarrow> string set
    \<Rightarrow> (string \<times> string) set \<Rightarrow> nat \<Rightarrow> string \<Rightarrow> string \<Rightarrow> string set \<Rightarrow> coveragePlanBuilder \<Rightarrow> bool" where
  "cell_inv B caps T K D L m s w N b \<longleftrightarrow> cov B caps T K D L m b \<and> in_cell w N b \<and>
     wrapper_of B s (b_nextCellIndex b) w \<and> s \<in> T \<and> w \<in> D"

lemma cell_inv_wrapper:
  "cell_inv B caps T K D L m s w N b \<Longrightarrow> clean_abs w \<and> \<not> Contains w NUL \<and> below B w"
  by (simp add: cell_inv_def wrapper_of_def)

lemma cov_cell:
  assumes "cov B caps T K D L m b" "elem_ok s" "list_all name_byte s" "s \<in> T" "Join2 B s \<in> D" "list_all name_byte kind"
    and body: "\<And>w b1. cell_inv B caps T K (insert w D) L (Suc m) s w {} b1 \<Longrightarrow>
      \<exists>b'. body w b1 = (Inr (), b') \<and> cov B caps T K D L m' b'"
  shows "\<exists>b'. bindS (cell_wrapper (Join2 B s) kind) body b = (Inr (), b') \<and> cov B caps T K D L m' b'"
proof -
  obtain w b1 where w: "cell_wrapper (Join2 B s) kind b = (Inr w, b1)" "cov B caps T K (insert w D) L (Suc m) b1"
    "in_cell w {} b1" "wrapper_of B s (b_nextCellIndex b1) w"
    using cov_wrapper [OF assms(1-6)] by blast
  then have "cell_inv B caps T K (insert w D) L (Suc m) s w {} b1" using assms(4) by (simp add: cell_inv_def)
  from body [OF this] w(1) show ?thesis by (auto simp: bindS_def)
qed

lemma push_in_cell:
  assumes inv: "cell_inv B caps T K D L m s w N b" and x: "elem_ok x" "x \<notin> N" and path: "path = Join2 w x"
    and ent: "entry caps = e" and e: "pe_path e = path" "cov_entry caps e"
    and link: "pe_type e = plannedEntryTypeHardlink \<Longrightarrow>
      pe_linkTarget e \<in> set (names plannedEntryTypeFile (b_entries b)) \<and> (path, pe_linkTarget e) \<in> L'"
    and sym: "pe_type e = plannedEntryTypeSymlink \<Longrightarrow> pe_linkTarget e \<noteq> []"
    and spec: "pe_type e \<noteq> plannedEntryTypeSpecial" and L: "L \<subseteq> L'"
  shows "\<exists>b'. push_entry entry path b = (Inr (), b') \<and> cell_inv B caps T K D L' (Suc m) s w (insert x N) b' \<and>
    b_hardlinks b' = b_hardlinks b \<and> b_entries b' = b_entries b @ [e]"
proof -
  have inv': "cov B caps T K D L m b" "in_cell w N b" "wrapper_of B s (b_nextCellIndex b) w" "s \<in> T" "w \<in> D"
    using inv by (simp_all add: cell_inv_def)
  have "\<exists>b'. push_entry entry path b = (Inr (), b') \<and> cov B caps T K D L' (Suc m) b' \<and>
    in_cell w (insert x N) b' \<and> b_nextCellIndex b' = b_nextCellIndex b \<and> b_hardlinks b' = b_hardlinks b \<and>
    b_entries b' = b_entries b @ [e]"
    unfolding path
    by (rule cov_in_cell [where entry = entry, OF inv' x ent e [unfolded path] link [unfolded path] sym spec L])
  then show ?thesis using inv'(3-5) unfolding cell_inv_def by metis
qed

section \<open>Entries\<close>

lemma ensure_simps [simp]:
  "hasXAttrs (ensureDeterministicTimestamps caps md) = hasXAttrs md"
  "meta_shape caps (ensureDeterministicTimestamps caps md) = meta_shape caps md"
  "caps coverageCapabilityTimestampMetadata \<Longrightarrow> hasTimestamps (ensureDeterministicTimestamps caps md)"
  by (auto simp: ensureDeterministicTimestamps_def meta_shape_def)

lemma meta_shape_simps [simp]:
  "meta_shape caps metadata0"
  "meta_shape caps (deterministicLinkMetadata caps)"
  "caps coverageCapabilityTimestampMetadata \<Longrightarrow> hasTimestamps (deterministicLinkMetadata caps)"
  by (simp_all add: meta_shape_def metadata0_def deterministicLinkMetadata_def)

lemma default_xattr_names: "list_all (\<lambda>n. validateXAttrName n = Inr n) (keys (coverageDefaultUserXAttrs cellID))"
  unfolding coverageDefaultUserXAttrs_def by (simp add: keys_def) code_simp

lemma xattr_variant_names: "list_all (\<lambda>n. validateXAttrName n = Inr n) (keys (coverageXAttrValueFor v cellID))"
  unfolding coverageXAttrValueFor_def by (cases v; simp add: keys_def; code_simp)

lemma owner_shape:
  "meta_shape caps md \<Longrightarrow> meta_shape caps (owned_by k caps i md)"
  "hasTimestamps (owned_by k caps i md) = hasTimestamps md" "hasXAttrs (owned_by k caps i md) = hasXAttrs md"
proof -
  have "fst (coverageOwnershipTable ! (i mod 3)) \<ge> 0 \<and> snd (coverageOwnershipTable ! (i mod 3)) \<ge> 0"
  proof -
    have "list_all (\<lambda>p. fst p \<ge> 0 \<and> snd p \<ge> 0) coverageOwnershipTable" by (simp add: coverageOwnershipTable_def)
    then show ?thesis by (rule list_all_nthI) (simp add: coverageOwnershipTable_def)
  qed
  moreover have "length coverageOwnershipTable = 3" by (simp add: coverageOwnershipTable_def)
  ultimately have "fst (coverageEffectiveOwnership k caps i) \<ge> 0 \<and> snd (coverageEffectiveOwnership k caps i) \<ge> 0"
    by (simp add: coverageEffectiveOwnership_def)
  then show "meta_shape caps md \<Longrightarrow> meta_shape caps (owned_by k caps i md)"
    by (auto simp: owned_by_def meta_shape_def split: prod.splits)
qed (auto simp: owned_by_def split: prod.splits)

lemma metadataFor_shape: "meta_shape caps (coverageMetadataFor k cls caps i ts (coverageDefaultUserXAttrs cellID) acl)"
proof -
  define cfg where "cfg = (if caps coverageCapabilityTimestampMetadata
    then (case coverageTimestampPair ts of
      (atime, mtime) \<Rightarrow> metadata0\<lparr>hasTimestamps := True, md_atime := atime, md_mtime := mtime\<rparr>) else metadata0)"
  have "meta_shape caps cfg" by (auto simp: cfg_def meta_shape_def metadata0_def split: prod.splits)
  then have c: "meta_shape caps cfg" "meta_shape caps (owned_by k caps i cfg)" using owner_shape(1) by blast+
  have "meta_shape caps md \<Longrightarrow> caps coverageCapabilityXAttrUser \<Longrightarrow>
      meta_shape caps (md\<lparr>hasXAttrs := True, md_xattrs := coverageDefaultUserXAttrs cellID\<rparr>)"
    "meta_shape caps md \<Longrightarrow> caps coverageCapabilityACL \<Longrightarrow> meta_shape caps (md\<lparr>hasACL := True, aclEntries := acl\<rparr>)" for md
    using default_xattr_names by (simp_all add: meta_shape_def)
  with c show ?thesis
    unfolding coverageMetadataFor_def cfg_def [symmetric]
    by (cases cls) (simp_all add: Let_def)
qed

lemma in_cell_NUL:
  "cell_inv B caps T K D L m s w N b \<Longrightarrow> \<not> Contains (Join2 w (coverageDeterministicName nc n cellID)) NUL"
  using Join2_NUL name_elem_ok(2) cell_inv_wrapper by blast

end
