(* ===== verification/Coverage_Plan.thy ===== *)
theory Coverage_Plan
  imports Coverage_Spec
begin

text \<open>
  The sub-trees of the coverage plan keep the invariant \<open>cov\<close> (\<open>Coverage_Spec\<close>), hence the plan:
  \<open>sub_tree_ok\<close> is what every enumerator of \<^verbatim>\<open>coverage_enumerator.go\<close> promises, with the number of
  entries it adds, and \<open>enumerateCoveragePlan_ok\<close> is the contract of the whole enumeration.
\<close>

section \<open>Cells of a covering array\<close>

lemma pairwise_cases_ok:
  assumes "\<forall>size \<in> set sizes. 0 < size" and "2 \<le> length sizes" and "tc \<in> set (pairwise_cases sizes)"
  shows "case_ok sizes tc"
  using coveragePairwise_result [OF assms(1,2)] assms(3) by (auto simp: pairwise_cases_def list_all_iff)

lemma pairwise_cases_length:
  "\<forall>size \<in> set sizes. 0 < size \<Longrightarrow> 2 \<le> length sizes \<Longrightarrow> length (pairwise_cases sizes) \<le> pair_total sizes"
  using coveragePairwise_result [of sizes] by (auto simp: pairwise_cases_def)

text \<open>What an enumerator promises: it adds at most \<open>n\<close> entries below its root.\<close>

definition sub_tree_ok :: "string \<Rightarrow> unit cov_op \<Rightarrow> nat \<Rightarrow> bool" where
  "sub_tree_ok s run n \<longleftrightarrow> (\<forall>B caps T K D m b. cov B caps T K D {} m b \<longrightarrow> s \<in> T \<longrightarrow> Join2 B s \<in> D \<longrightarrow>
     (\<forall>c. (s, c) \<notin> K) \<longrightarrow>
     (\<exists>b' K'. run b = (Inr (), b') \<and> K' \<subseteq> K \<union> {s} \<times> UNIV \<and> cov B caps T K' D {} (m + n) b'))"

lemma cov_base: "cov B caps T K D L m b \<Longrightarrow> b_basePath b = B \<and> b_enabled b = caps"
  by (simp add: cov_def)

text \<open>All cells add at most \<open>c\<close> entries.\<close>

lemma cov_cells:
  assumes inv: "cov B caps T K D {} m b" and sizes: "\<forall>size \<in> set sizes. 0 < size" "2 \<le> length sizes"
    and cell: "\<And>idx tc rep n b. case_ok sizes tc \<Longrightarrow> cov B caps T K D {} n b \<Longrightarrow>
      \<exists>b'. cell idx tc rep b = (Inr (), b') \<and> cov B caps T K D {} (n + c) b'"
    and n: "pair_total sizes * reps * c \<le> n"
  shows "\<exists>b'. for_cells (pairwise_cases sizes) reps cell b = (Inr (), b') \<and> cov B caps T K D {} (m + n) b'"
proof -
  let ?cs = "pairwise_cases sizes"
  have "\<exists>b'. for_cells ?cs reps cell b = (Inr (), b') \<and> cov B caps T K D {} (m + (length ?cs * reps) * c) b'"
  proof (rule for_cells_inv [where I = "\<lambda>j. cov B caps T K D {} (m + j * c)"])
    fix i tc rep b
    assume i: "i < length ?cs" "tc = ?cs ! i" and b: "cov B caps T K D {} (m + (i * reps + rep) * c) b"
    have "case_ok sizes tc" using pairwise_cases_ok [OF sizes] i by simp
    from cell [OF this b] show "\<exists>b'. cell i tc rep b = (Inr (), b') \<and> cov B caps T K D {} (m + Suc (i * reps + rep) * c) b'"
      by (simp add: add.commute add.left_commute)
  qed (use inv in simp)
  moreover have "length ?cs * reps * c \<le> n"
    using mult_le_mono1 [OF mult_le_mono1 [OF pairwise_cases_length [OF sizes]]] n by (meson le_trans)
  ultimately show ?thesis using cov_mono [where m' = "m + n"] by (metis add_le_mono1 add.commute subset_refl)
qed

text \<open>A cell with one file or directory.\<close>

lemma cov_cell_push:
  assumes inv: "cov B caps T K D L m b" and s: "elem_ok s" "list_all name_byte s" "s \<in> T" "Join2 B s \<in> D"
    and kind: "list_all name_byte kind"
    and e: "\<And>w. \<not> Contains (Join2 w (coverageDeterministicName nc n cellID)) NUL \<Longrightarrow>
      path w = Join2 w (coverageDeterministicName nc n cellID) \<and> pe_path (entry w caps) = path w \<and> cov_entry caps (entry w caps) \<and>
      pe_type (entry w caps) \<in> {plannedEntryTypeFile, plannedEntryTypeDir}"
  shows "\<exists>b'. bindS (cell_wrapper (Join2 B s) kind)
      (\<lambda>w. push_entry (entry w) (path w)) b = (Inr (), b') \<and>
    cov B caps T K D L (m + 2) b'"
proof (rule cov_cell [OF inv s kind])
  fix w b1
  assume c: "cell_inv B caps T K (insert w D) L (Suc m) s w {} b1"
  note e = e [OF in_cell_NUL [OF c]]
  have "\<exists>b'. push_entry (entry w) (path w) b1 = (Inr (), b') \<and>
      cell_inv B caps T K (insert w D) L (Suc (Suc m)) s w (insert (coverageDeterministicName nc n cellID) {}) b' \<and>
      b_hardlinks b' = b_hardlinks b1 \<and> b_entries b' = b_entries b1 @ [entry w caps]"
    by (rule push_in_cell [where entry = "entry w", OF c name_elem_ok(1)]) (use e in auto)
  then show "\<exists>b'. push_entry (entry w) (path w) b1 = (Inr (), b') \<and>
      cov B caps T K D L (m + 2) b'"
    using cov_mono [of B caps T K "insert w D" L "Suc (Suc m)" _ T D L "m + 2"] by (auto simp: cell_inv_def)
qed

lemma sub_tree_okI:
  assumes "\<And>B caps T K D m b. cov B caps T K D {} m b \<Longrightarrow> s \<in> T \<Longrightarrow> Join2 B s \<in> D \<Longrightarrow>
    b_basePath b = B \<Longrightarrow> b_enabled b = caps \<Longrightarrow> \<exists>b'. run b = (Inr (), b') \<and> cov B caps T K D {} (m + n) b'"
  shows "sub_tree_ok s run n"
  unfolding sub_tree_ok_def using assms cov_base by blast

text \<open>A sub-tree that is switched off.\<close>

lemma cov_skip: "cov B caps T K D {} m b \<Longrightarrow> \<exists>b'. returnS () b = (Inr (), b') \<and> cov B caps T K D {} (m + n) b'"
  using cov_mono [of B caps T K D "{}" m b T D "{}" "m + n"] by (simp add: returnS_def)

lemma getS_bind: "bindS (getS f) g b = g (f b) b"
  by (simp add: bindS_def getS_def)

lemma lift_Inr: "bindS (liftS (Inr x)) f = f x"
  by (rule ext) (simp add: bindS_def liftS_def)

lemmas legal_simps = elem_ok_def dot_def dotdot_def name_byte_def NUL_def slash_def

section \<open>Directories and files\<close>

lemma metaValues: "0 < length (coverageEnabledMetadataValues caps)" "length (coverageEnabledMetadataValues caps) \<le> 4"
  by (auto simp: coverageEnabledMetadataValues_def)

lemma class_counts [simp]:
  "length coverageModeClassAll = 6" "length coverageNameClassAll = 9" "length coverageContentClassAll = 5"
  "length coverageSizeClassAll = 7" "length coverageSymlinkStrategyAll = 6" "length coverageHardlinkGroupSizeAll = 3"
  by (simp_all add: coverageModeClassAll_def coverageNameClassAll_def coverageContentClassAll_def
      coverageSizeClassAll_def coverageSymlinkStrategyAll_def coverageHardlinkGroupSizeAll_def)

lemma dirs_ok: "sub_tree_ok ''dirs'' (enumerateCoverageDirSubTree k reps) (228 * reps)"
proof (rule sub_tree_okI)
  fix B caps T K D m b
  assume inv: "cov B caps T K D {} m b" and s: "''dirs'' \<in> T" "Join2 B ''dirs'' \<in> D" and b: "b_basePath b = B" "b_enabled b = caps"
  let ?q = "length (coverageEnabledMetadataValues caps)"
  have sizes: "\<forall>size \<in> set [6, 9, ?q]. 0 < size" "2 \<le> length [6, 9, ?q]" using metaValues [of caps] by auto
  have "pair_total [6, 9, ?q] \<le> 114" using metaValues(2) [of caps] by (simp add: pair_total_def)
  then have n: "pair_total [6, 9, ?q] * reps * 2 \<le> 228 * reps" using mult_le_mono1 [of _ 114 reps] by fastforce
  show "\<exists>b'. enumerateCoverageDirSubTree k reps b = (Inr (), b') \<and> cov B caps T K D {} (m + 228 * reps) b'"
    unfolding enumerateCoverageDirSubTree_def getS_bind b Let_def prod.case class_counts appendDir_def
    by (rule cov_cells [OF inv sizes _ n], rule cov_cell_push)
      (auto simp: s legal_simps cov_entry_def entry0_def metadataFor_shape)
qed

lemma files_ok: "sub_tree_ok ''files'' (enumerateCoverageFileSubTree k reps) (754 * reps)"
proof (rule sub_tree_okI)
  fix B caps T K D m b
  assume inv: "cov B caps T K D {} m b" and s: "''files'' \<in> T" "Join2 B ''files'' \<in> D" and b: "b_basePath b = B" "b_enabled b = caps"
  let ?q = "length (coverageEnabledMetadataValues caps)"
  have sizes: "\<forall>size \<in> set [6, 5, 7, 9, ?q]. 0 < size" "2 \<le> length [6, 5, 7, 9, ?q]" using metaValues [of caps] by auto
  have "pair_total [6, 5, 7, 9, ?q] \<le> 377" using metaValues(2) [of caps] by (simp add: pair_total_def)
  then have n: "pair_total [6, 5, 7, 9, ?q] * reps * 2 \<le> 754 * reps" using mult_le_mono1 [of _ 377 reps] by fastforce
  have known: "coverageContentClassAll ! i \<noteq> coverageContentClassUnknown u" if "i < 5" for i u
  proof -
    have "list_all (\<lambda>c. c \<noteq> coverageContentClassUnknown u) coverageContentClassAll"
      by (simp add: coverageContentClassAll_def)
    then show ?thesis by (rule list_all_nthI) (simp add: that)
  qed
  show "\<exists>b'. enumerateCoverageFileSubTree k reps b = (Inr (), b') \<and> cov B caps T K D {} (m + 754 * reps) b'"
    unfolding enumerateCoverageFileSubTree_def getS_bind b Let_def prod.case class_counts appendFile_def
  proof (rule cov_cells [OF inv sizes _ n], goal_cases)
    case (1 idx tc rep n b)
    note tc = 1(1) and b = 1(2)
    let ?cls = "coverageContentClassAll ! (tc ! 1)" and ?sz = "coverageSizeClassAll ! (tc ! 2)"
    define cellID where "cellID = coverageCellID [''files'', coverageModeClass_String (coverageModeClassAll ! (tc ! 0)),
      coverageContentClass_String ?cls, coverageSizeClass_String ?sz,
      coverageNameClass_String (coverageNameClassAll ! (tc ! 3)),
      coverageMetadataClass_String (coverageEnabledMetadataValues caps ! (tc ! 4)), rep_label rep]"
    have "tc ! 1 < 5" using tc by (auto simp: case_ok_def dest: spec [of _ 1])
    then obtain c where c: "coverageContentFor ?cls ?sz cellID = Inr c"
      "if ?cls = coverageContentClassPlain then c = content0
       else content_writable c \<and> pc_logicalSize c = coverageSizeBytes ?sz"
      using coverageContentFor_ok [of ?cls ?sz cellID] known by blast
    have f: "nat (coverageSizeBytes ?sz) \<le> 131079"
      using size_bounds(2) [of ?sz] by simp
    have "content_writable c \<and> pc_logicalSize c \<le> 131079 \<and> pc_pattern c \<noteq> ContentPatternUnknown 0 \<or>
        c = content0 \<and> pc_pattern c = ContentPatternUnknown 0"
      using c(2) size_bounds(2) [of ?sz] by (auto simp: content_writable_def content0_def split: if_splits)
    then show ?case
      unfolding cellID_def [symmetric] c(1) lift_Inr
      by (intro cov_cell_push [OF b]) (auto simp: s f legal_simps cov_entry_def entry0_def metadataFor_shape)
  qed
qed

section \<open>Attributes, ACLs and time stamps\<close>

lemma xattr_variant_shape:
  "caps coverageCapabilityXAttrUser \<Longrightarrow>
    meta_shape caps (metadata0\<lparr>hasXAttrs := True, md_xattrs := coverageXAttrValueFor v cellID\<rparr>)"
  using xattr_variant_names by (simp add: meta_shape_def metadata0_def)

lemma xattrs_ok: "sub_tree_ok ''xattr-variants'' (enumerateCoverageXAttrSubTree reps) (108 * reps)"
proof (rule sub_tree_okI)
  fix B caps T K D m b
  assume inv: "cov B caps T K D {} m b" and s: "''xattr-variants'' \<in> T" "Join2 B ''xattr-variants'' \<in> D"
    and b: "b_basePath b = B" "b_enabled b = caps"
  define variants where "variants =
    [coverageXAttrVariantUserShort, coverageXAttrVariantUserEmpty, coverageXAttrVariantUserLarge, coverageXAttrVariantUserBinary] @
    (if caps coverageCapabilityXAttrTrusted then [coverageXAttrVariantTrusted] else []) @
    (if caps coverageCapabilityXAttrSecurity then [coverageXAttrVariantSecurity] else [])"
  have sizes: "\<forall>size \<in> set [length variants, 9]. 0 < size" "2 \<le> length [length variants, 9]" by (simp_all add: variants_def)
  have "pair_total [length variants, 9] \<le> 54" by (simp add: pair_total_def variants_def)
  then have n: "pair_total [length variants, 9] * reps * 2 \<le> 108 * reps" using mult_le_mono1 [of _ 54 reps] by fastforce
  show "\<exists>b'. enumerateCoverageXAttrSubTree reps b = (Inr (), b') \<and> cov B caps T K D {} (m + 108 * reps) b'"
  proof (cases "caps coverageCapabilityXAttrUser")
    case False
    with cov_skip [OF inv] show ?thesis
      unfolding enumerateCoverageXAttrSubTree_def getS_bind b by simp
  next
    case True
    then show ?thesis
      unfolding enumerateCoverageXAttrSubTree_def getS_bind b Let_def prod.case class_counts appendFile_def
        variants_def [symmetric]
      by (simp only: if_False not_True_eq_False, intro cov_cells [OF inv sizes _ n] cov_cell_push)
        (auto simp: s legal_simps cov_entry_def entry0_def file_entry_def xattr_variant_shape)
  qed
qed

lemma acls_ok: "sub_tree_ok ''acl-variants'' (enumerateCoverageACLSubTree reps) (54 * reps)"
proof (rule sub_tree_okI)
  fix B caps T K D m b
  assume inv: "cov B caps T K D {} m b" and s: "''acl-variants'' \<in> T" "Join2 B ''acl-variants'' \<in> D"
    and b: "b_basePath b = B" "b_enabled b = caps"
  have sizes: "\<forall>size \<in> set [3, 9 :: nat]. 0 < size" "2 \<le> length [3, 9 :: nat]" by simp_all
  have n: "pair_total [3, 9] * reps * 2 \<le> 54 * reps" by (simp add: pair_total_def)
  have three: "length [a, b, c] = 3" for a b c :: coverageACLVariant by simp
  show "\<exists>b'. enumerateCoverageACLSubTree reps b = (Inr (), b') \<and> cov B caps T K D {} (m + 54 * reps) b'"
  proof (cases "caps coverageCapabilityACL")
    case False
    with cov_skip [OF inv] show ?thesis unfolding enumerateCoverageACLSubTree_def getS_bind b by simp
  next
    case True
    then have md: "meta_shape caps (metadata0\<lparr>hasACL := True, aclEntries := es\<rparr>)" for es
      by (simp add: meta_shape_def metadata0_def)
    have off: "(\<not> caps coverageCapabilityACL) = False" using True by simp
    let ?v = "\<lambda>tc. [coverageACLVariantBase, coverageACLVariantNamedUserGroupMask, coverageACLVariantDefaultOnDir] ! (tc ! 0)"
    show ?thesis
      unfolding enumerateCoverageACLSubTree_def getS_bind b Let_def prod.case class_counts three off if_False
    proof (rule cov_cells [OF inv sizes _ n], goal_cases)
      case (1 idx tc rep n b)
      show ?case
        unfolding appendFile_def appendDir_def
        by (cases "?v tc = coverageACLVariantDefaultOnDir"; simp only: if_True if_False refl; rule cov_cell_push [OF 1(2)])
          (auto simp: s legal_simps cov_entry_def entry0_def file_entry_def md)
    qed
  qed
qed

lemma timestamps_ok: "sub_tree_ok ''timestamp-variants'' (enumerateCoverageTimestampSubTree reps) (90 * reps)"
proof (rule sub_tree_okI)
  fix B caps T K D m b
  assume inv: "cov B caps T K D {} m b" and s: "''timestamp-variants'' \<in> T" "Join2 B ''timestamp-variants'' \<in> D"
    and b: "b_basePath b = B" "b_enabled b = caps"
  have sizes: "\<forall>size \<in> set [5, 9 :: nat]. 0 < size" "2 \<le> length [5, 9 :: nat]" by simp_all
  have n: "pair_total [5, 9] * reps * 2 \<le> 90 * reps" by (simp add: pair_total_def)
  have five: "length [a, b, c, d, e] = 5" for a b c d e :: coverageTimestampVariant by simp
  show "\<exists>b'. enumerateCoverageTimestampSubTree reps b = (Inr (), b') \<and> cov B caps T K D {} (m + 90 * reps) b'"
  proof (cases "caps coverageCapabilityTimestampMetadata")
    case False
    with cov_skip [OF inv] show ?thesis unfolding enumerateCoverageTimestampSubTree_def getS_bind b by simp
  next
    case True
    then have md: "meta_shape caps (metadata0\<lparr>hasTimestamps := True, md_atime := a, md_mtime := t\<rparr>)" for a t
      by (simp add: meta_shape_def metadata0_def)
    show ?thesis
      using True
      unfolding enumerateCoverageTimestampSubTree_def getS_bind b Let_def prod.case class_counts appendFile_def
        five case_prod_beta fst_conv snd_conv
      by (simp only: if_False not_True_eq_False, intro cov_cells [OF inv sizes _ n] cov_cell_push)
        (auto simp: s legal_simps cov_entry_def entry0_def file_entry_def md)
  qed
qed

section \<open>Special files\<close>

text \<open>An entry directly below the root of a sub-tree, with a name that is no cell's.\<close>

lemma cov_push_child:
  assumes inv: "cov B caps T K D L m b" and s: "elem_ok s" "s \<in> T" "Join2 B s \<in> D"
    and x: "elem_ok x" "hd x \<noteq> CHR ''c''" "(s, x) \<notin> K"
    and e: "path = Join2 (Join2 B s) x" "entry caps = e" "pe_path e = path" "cov_entry caps e"
    and link: "pe_type e \<noteq> plannedEntryTypeHardlink"
    and sym: "pe_type e = plannedEntryTypeSymlink \<Longrightarrow> pe_linkTarget e \<noteq> []"
    and spec: "pe_type e = plannedEntryTypeSpecial \<Longrightarrow>
      is_ok (validateSpecialFileType (pe_special e)) \<and> 0 \<le> pe_major e \<and> 0 \<le> pe_minor e"
  shows "\<exists>b'. push_entry entry path b = (Inr (), b') \<and> cov B caps T (insert (s, x) K) D L (Suc m) b'"
proof -
  let ?n = "b_nextCellIndex b"
  have B: "clean_abs B" using inv by (simp add: cov_def)
  note c = child_below [OF B s(1) x(1)]
  have new: "path \<notin> set (b_used b)"
  proof
    assume "path \<in> set (b_used b)"
    then have "key_ok B T K ?n path" using inv by (simp add: cov_def)
    then have "(\<exists>kind i. x = cell_name kind i \<and> i < ?n) \<or> (s, x) \<in> K"
      unfolding key_ok_def using c(3) e(1) by auto
    then show False using x(2,3) by (auto simp: cell_name_def)
  qed
  have key: "key_ok B T (insert (s, x) K) ?n path" unfolding key_ok_def e(1) using c(3) s(2) by auto
  have hds: "\<forall>(s, c) \<in> insert (s, x) K. hd c \<noteq> CHR ''c''" using inv x(2) by (auto simp: cov_def)
  have "\<exists>b'. push_entry entry path b = (Inr (), b') \<and> cov B caps T (insert (s, x) K) D L (Suc m) b' \<and>
    b_used b' = path # b_used b \<and> b_nextCellIndex b' = b_nextCellIndex b \<and> b_hardlinks b' = b_hardlinks b \<and>
    b_entries b' = b_entries b @ [e]"
    by (rule cov_push [where entry = entry, OF inv new e(2-4) _ _ _ sym spec key _ _ hds])
      (use c e(1) s(3) link in \<open>auto\<close>)
  then show ?thesis by blast
qed

definition special_name :: "SpecialFileType \<Rightarrow> nat \<Rightarrow> string" where
  "special_name t i = pad_zero 6 (show_nat i) @ ''-'' @ coverageSpecialTypeChar t"

lemma special_name_inj: "special_name t i = special_name u j \<Longrightarrow> i = j"
proof -
  have "takeWhile (\<lambda>c. c \<noteq> CHR ''-'') (special_name t i) = pad_zero 6 (show_nat i)" for t i
    using digits_no_dash [OF pad_digits [of 6 i]] unfolding special_name_def
    by (subst takeWhile_append2) auto
  then show "special_name t i = special_name u j \<Longrightarrow> i = j" by (metis read_pad)
qed

lemma special_name_ok:
  "list_all name_byte (special_name t i)" "elem_ok (special_name t i)" "hd (special_name t i) \<noteq> CHR ''c''"
proof -
  have "list_all name_byte (pad_zero 6 (show_nat i))" using pad_digits [of 6 i] digit_name_byte by (auto simp: list_all_iff)
  moreover have "list_all name_byte (coverageSpecialTypeChar t)"
    by (cases t) (simp_all add: coverageSpecialTypeChar_def legal_simps)
  ultimately show ok: "list_all name_byte (special_name t i)" by (simp add: special_name_def legal_simps)
  have len: "6 \<le> length (pad_zero 6 (show_nat i))" by (simp add: pad_zero_def)
  then show "elem_ok (special_name t i)" by (intro legal_elem_ok [OF ok]) (simp add: special_name_def)
  have ne: "pad_zero 6 (show_nat i) \<noteq> []" using len by force
  then have "is_digit (hd (pad_zero 6 (show_nat i)))" using pad_digits [of 6 i] by (simp add: list_all_iff)
  then show "hd (special_name t i) \<noteq> CHR ''c''" using ne by (auto simp: special_name_def is_digit_def less_eq_char_def)
qed

text \<open>The names of the first \<open>j\<close> special files.\<close>

definition special_keys :: "nat \<Rightarrow> (string \<times> string) set" where
  "special_keys j = {''special''} \<times> {special_name t i | t i. i < j}"

lemma special_keys_Suc: "insert (''special'', special_name t j) (special_keys j) \<subseteq> special_keys (Suc j)"
  unfolding special_keys_def using less_SucI by blast

lemma special_cell:
  assumes cov: "cov B caps T K' D {} (m + j) b" and K': "K' \<subseteq> K \<union> special_keys j" and new: "\<forall>c. (''special'', c) \<notin> K"
    and s: "''special'' \<in> T" "Join2 B ''special'' \<in> D" and t: "t \<in> set coverageSpecialFileTypeAll"
  shows "\<exists>b'. appendSpecial (special_entry (Join2 B ''special'') t mode j) b = (Inr (), b') \<and>
    (\<exists>K'. K' \<subseteq> K \<union> special_keys (Suc j) \<and> cov B caps T K' D {} (m + Suc j) b')"
proof -
  let ?x = "special_name t j" and ?e = "special_entry (Join2 B ''special'') t mode j"
  have e: "pe_path ?e = Join2 (Join2 B ''special'') ?x" "pe_special ?e = t" "0 \<le> pe_major ?e" "0 \<le> pe_minor ?e"
    "pe_metadata ?e = metadata0"
    by (simp_all add: special_entry_def special_name_def Let_def entry0_def)
  have known: "is_ok (validateSpecialFileType t)"
    using t by (auto simp: coverageSpecialFileTypeAll_def validateSpecialFileType_def is_ok_def)
  have x: "(''special'', ?x) \<notin> K'" using K' new special_name_inj unfolding special_keys_def by blast
  have no_xattrs: "\<not> hasXAttrs metadata0" by (simp add: metadata0_def)
  have "\<not> Contains B NUL" using cov by (simp add: cov_def)
  then have nul: "\<not> Contains (Join2 (Join2 B ''special'') ?x) NUL"
    using special_name_ok(1) by (intro Join2_NUL) (simp_all add: legal_simps)
  have "\<exists>b'. push_entry (\<lambda>caps. ?e\<lparr>pe_type := plannedEntryTypeSpecial,
        pe_metadata := ensureDeterministicTimestamps caps (pe_metadata ?e)\<rparr>) (pe_path ?e) b = (Inr (), b') \<and>
      cov B caps T (insert (''special'', ?x) K') D {} (Suc (m + j)) b'"
    by (rule cov_push_child [OF cov _ s special_name_ok(2,3) x e(1) refl])
      (use e nul known no_xattrs in \<open>auto simp: cov_entry_def legal_simps\<close>)
  moreover have "insert (''special'', ?x) K' \<subseteq> K \<union> special_keys (Suc j)"
    using K' special_keys_Suc [of t j] by blast
  ultimately show ?thesis unfolding appendSpecial_def add_Suc_right by blast
qed

lemma special_ok: "sub_tree_ok ''special'' (enumerateCoverageSpecialSubTree reps) (8 * reps)"
  unfolding sub_tree_ok_def
proof (intro allI impI)
  fix B caps T K D m b
  assume inv: "cov B caps T K D {} m b" and s: "''special'' \<in> T" "Join2 B ''special'' \<in> D" and new: "\<forall>c. (''special'', c) \<notin> K"
  have b: "b_basePath b = B" "b_enabled b = caps" using cov_base [OF inv] by simp_all
  define types where "types = filter (special_enabled caps) coverageSpecialFileTypeAll"
  let ?modes = "[coverageModeClassRegular, coverageModeClassExecutable]"
  have known: "set types \<subseteq> set coverageSpecialFileTypeAll" and len: "length types \<le> 4"
    unfolding types_def using length_filter_le [of "special_enabled caps" coverageSpecialFileTypeAll]
    by (auto simp: coverageSpecialFileTypeAll_def)
  have modes: "length ?modes = 2" by simp
  show "\<exists>b' K'. enumerateCoverageSpecialSubTree reps b = (Inr (), b') \<and> K' \<subseteq> K \<union> {''special''} \<times> UNIV \<and>
      cov B caps T K' D {} (m + 8 * reps) b'"
  proof (cases "types = []")
    case True
    then show ?thesis
      using cov_skip [OF inv, of "8 * reps"]
      unfolding enumerateCoverageSpecialSubTree_def getS_bind b prod.case Let_def types_def [symmetric] by auto
  next
    case False
    have sizes: "\<forall>size \<in> set [length types, 2]. 0 < size" "2 \<le> length [length types, 2]" using False by simp_all
    let ?cs = "pairwise_cases [length types, 2]"
    let ?cell = "\<lambda>idx tc rep. appendSpecial (special_entry (Join2 B ''special'') (types ! (tc ! 0)) (?modes ! (tc ! 1)) (idx * reps + rep))"
    let ?I = "\<lambda>j b. \<exists>K'. K' \<subseteq> K \<union> special_keys j \<and> cov B caps T K' D {} (m + j) b"
    have "\<exists>b'. for_cells ?cs reps ?cell b = (Inr (), b') \<and> ?I (length ?cs * reps) b'"
    proof (rule for_cells_inv [where I = ?I])
      fix i tc rep b
      assume i: "i < length ?cs" "tc = ?cs ! i" and I: "?I (i * reps + rep) b"
      have "case_ok [length types, 2] tc" using pairwise_cases_ok [OF sizes] i by simp
      then have "tc ! 0 < length types" by (auto simp: case_ok_def dest: spec [of _ 0])
      then have "types ! (tc ! 0) \<in> set coverageSpecialFileTypeAll" using known nth_mem by blast
      moreover obtain K' where "K' \<subseteq> K \<union> special_keys (i * reps + rep)" "cov B caps T K' D {} (m + (i * reps + rep)) b"
        using I by blast
      ultimately show "\<exists>b'. ?cell i tc rep b = (Inr (), b') \<and> ?I (Suc (i * reps + rep)) b'"
        using special_cell [OF _ _ new s] by simp
    qed (use inv in auto)
    then obtain b' K' where run: "for_cells ?cs reps ?cell b = (Inr (), b')" and K': "K' \<subseteq> K \<union> special_keys (length ?cs * reps)"
      and cov: "cov B caps T K' D {} (m + length ?cs * reps) b'" by blast
    have "length ?cs \<le> 8" using pairwise_cases_length [OF sizes] len by (simp add: pair_total_def)
    then have "cov B caps T K' D {} (m + 8 * reps) b'" by (intro cov_mono [OF cov]) simp_all
    moreover have "enumerateCoverageSpecialSubTree reps b = (Inr (), b')"
      using run False
      unfolding enumerateCoverageSpecialSubTree_def getS_bind b prod.case Let_def types_def [symmetric] modes by simp
    moreover have "K' \<subseteq> K \<union> {''special''} \<times> UNIV" using K' unfolding special_keys_def by blast
    ultimately show ?thesis by blast
  qed
qed

section \<open>Symbolic links\<close>

lemma Base_child:
  assumes "clean_abs w" "elem_ok x"
  shows "Base (Join2 w x) = x"
proof -
  have x: "x \<noteq> []" "slash \<notin> set x" using assms(2) by (auto simp: elem_ok_def)
  obtain cs where cs: "\<forall>c \<in> set cs. elem_ok c" "w = abs_path cs" using assms(1) by (rule clean_absE)
  have "Join2 w x = abs_path (cs @ [x])" using Join2_abs_path [OF cs(1) assms(2)] cs(2) by simp
  moreover have "abs_path (cs @ [x]) = (if cs = [] then [] else abs_path cs) @ slash # x" unfolding abs_path_snoc by simp
  ultimately obtain u where u: "Join2 w x = u @ slash # x" by metis
  obtain c y where "rev x = c # y" "c \<noteq> slash" using x by (cases "rev x") auto
  then have "dropWhile (\<lambda>c. c = slash) (rev (u @ slash # x)) = rev (u @ slash # x)" by simp
  moreover have "takeWhile (\<lambda>c. c \<noteq> slash) (rev x @ slash # rev u) = rev x"
    using x(2) by (subst takeWhile_append2) auto
  ultimately show ?thesis using x(1) unfolding u Base_def by (simp add: after_last_slash_def Let_def)
qed

lemma Rel_NUL:
  assumes "clean_abs b" "clean_abs t" "\<not> Contains t NUL"
  shows "\<exists>r. Rel b t = Inr r \<and> r \<noteq> [] \<and> \<not> Contains r NUL"
proof -
  obtain bs ts where bs: "\<forall>w \<in> set bs. elem_ok w" "b = abs_path bs" and ts: "\<forall>w \<in> set ts. elem_ok w" "t = abs_path ts"
    using assms(1,2) by (elim clean_absE)
  obtain bs' ts' where st: "strip_common bs ts = (bs', ts')" by fastforce
  obtain p where p: "ts = p @ ts'" using strip_common_append [OF st] by blast
  have "set w \<subseteq> set t" if "w \<in> set ts'" for w
    using that p set_Join_mem [of w ts slash] by (auto simp: ts(2) abs_path_def)
  then have "(\<Union>w \<in> set (replicate (length bs') dotdot @ ts'). set w) \<subseteq> insert (CHR ''.'') (set t)"
    by (intro UN_least) (auto simp: in_set_replicate dotdot_def)
  then have "set (Join slash (replicate (length bs') dotdot @ ts')) \<subseteq> insert slash (insert (CHR ''.'') (set t))"
    using set_Join [of slash "replicate (length bs') dotdot @ ts'"] by blast
  then have "\<not> Contains (Join slash (replicate (length bs') dotdot @ ts')) NUL"
    using assms(3) by (auto simp: Contains_def NUL_def slash_def)
  moreover have "\<not> Contains dot NUL" by (simp add: Contains_def dot_def NUL_def)
  ultimately show ?thesis
    using Rel_clean [OF assms(1,2)] Rel_abs_path [OF bs(1) ts(1)] unfolding bs(2) ts(2) st by (auto split: if_splits)
qed

text \<open>A link with a name that is new in the cell.\<close>

lemma cell_symlink:
  assumes c: "cell_inv B caps T K D L m s w N b" and x: "coverageDeterministicName nc n cellID \<notin> N"
    and t: "t \<noteq> []" "\<not> Contains t NUL"
  shows "\<exists>b'. appendCoverageSymlink (Join2 w (coverageDeterministicName nc n cellID)) t b = (Inr (), b') \<and>
    cell_inv B caps T K D L (Suc m) s w (insert (coverageDeterministicName nc n cellID) N) b'"
proof -
  let ?x = "coverageDeterministicName nc n cellID"
  have "\<exists>b'. push_entry (\<lambda>caps. (entry0 plannedEntryTypeSymlink (Join2 w ?x))\<lparr>pe_linkTarget := t,
        pe_metadata := deterministicLinkMetadata caps\<rparr>) (Join2 w ?x) b = (Inr (), b') \<and>
      cell_inv B caps T K D L (Suc m) s w (insert ?x N) b' \<and> b_hardlinks b' = b_hardlinks b \<and>
      b_entries b' = b_entries b @ [(entry0 plannedEntryTypeSymlink (Join2 w ?x))\<lparr>pe_linkTarget := t,
        pe_metadata := deterministicLinkMetadata caps\<rparr>]"
    by (rule push_in_cell [OF c name_elem_ok(1) x refl refl])
      (use t in_cell_NUL [OF c] in \<open>auto simp: cov_entry_def entry0_def\<close>)
  then show ?thesis unfolding appendCoverageSymlink_def by blast
qed

lemma cell_done: "cell_inv B caps T K (insert w D) L m s w N b \<Longrightarrow> m \<le> m' \<Longrightarrow> cov B caps T K D L m' b"
  unfolding cell_inv_def using cov_mono [of B caps T K "insert w D" L m b T D L m'] by blast

lemma cell_append:
  assumes "cell_inv B caps T K (insert w D) L m s w N b" "coverageDeterministicName nc n cellID \<notin> N" "t \<noteq> []" "\<not> Contains t NUL"
    "Suc m \<le> m'"
  shows "\<exists>b'. appendCoverageSymlink (Join2 w (coverageDeterministicName nc n cellID)) t b = (Inr (), b') \<and> cov B caps T K D L m' b'"
  using cell_symlink [OF assms(1-4)] cell_done assms(5) by blast

text \<open>The names of a cell: the cell's identifier with constants mixed into its low half.\<close>

lemma xor_low:
  fixes c d1 d2 :: "64 word"
  assumes "unat d1 < 2 ^ 32" "unat d2 < 2 ^ 32" "unat (xor c d1) mod 2 ^ 32 = unat (xor c d2) mod 2 ^ 32"
  shows "d1 = d2"
proof -
  have low: "take_bit 32 (unat (xor c d)) = xor (take_bit 32 (unat c)) (unat d)" if "unat d < 2 ^ 32" for d :: "64 word"
    using that by (simp add: unsigned_xor_eq take_bit_xor take_bit_nat_eq_self)
  have "xor (take_bit 32 (unat c)) (unat d1) = xor (take_bit 32 (unat c)) (unat d2)"
    using assms(3) low [OF assms(1)] low [OF assms(2)] by (simp add: take_bit_eq_mod)
  then have "unat d1 = unat d2" by (metis xor.assoc xor_self_eq xor.left_neutral)
  then show ?thesis by (rule word_unat_eq_iff [THEN iffD2])
qed

lemma cell_names_distinct:
  fixes d1 d2 :: "64 word"
  assumes "unat d1 < 2 ^ 32" "unat d2 < 2 ^ 32"
    "coverageDeterministicName nc n (xor cellID d1) = coverageDeterministicName nc n (xor cellID d2)"
  shows "d1 = d2"
  using xor_low [OF assms(1,2)] suffix_inj name_suffix_eq [OF assms(3)] by blast

lemma emit_ok:
  assumes c: "cell_inv B caps T K (insert w D) L (Suc m) s w {} b" and "\<And>u. strategy \<noteq> SymlinkStrategyUnknown u"
    and f: "clean_abs f" "\<not> Contains f NUL" and l: "clean_abs l" "\<not> Contains l NUL"
  shows "\<exists>b'. emitCoverageSymlinkCell w f l strategy nc cellID b = (Inr (), b') \<and> cov B caps T K D L (m + 3) b'"
proof -
  let ?x = "coverageDeterministicName nc coverageNameDefaultLen cellID"
  let ?y = "coverageDeterministicName nc coverageNameDefaultLen (xor cellID 0xBEEF)"
  have w: "clean_abs w" "\<not> Contains w NUL" using cell_inv_wrapper [OF c] by simp_all
  have one: "\<exists>b'. appendCoverageSymlink (Join2 w ?x) t b = (Inr (), b') \<and> cov B caps T K D L (m + 3) b'"
    if "t \<noteq> []" "\<not> Contains t NUL" for t
    using cell_append [OF c _ that] by simp
  have abs: "p \<noteq> []" if "clean_abs p" for p using that by (auto simp: clean_abs_def rooted_def)
  have name: "coverageDeterministicName nc n i \<noteq> []" "\<not> Contains (coverageDeterministicName nc n i) NUL" for n i
    using name_elem_ok(1,2) [of nc n i] by (auto simp: elem_ok_def Contains_def list_all_iff name_byte_def)
  have rel: "\<exists>b'. bindS (liftS (wrapE msg (Rel w p))) (appendCoverageSymlink (Join2 w ?x)) b = (Inr (), b') \<and>
      cov B caps T K D L (m + 3) b'" if "clean_abs p" "\<not> Contains p NUL" for p msg
    using Rel_NUL [OF w(1) that] one by (auto simp: wrapE_def lift_Inr)
  show ?thesis
  proof (cases strategy)
    case SymlinkStrategyDangling
    then show ?thesis
      using one [of "Join2 w (coverageDeterministicName coverageNameClassBasic coverageNameDefaultLen (xor cellID 0xDEAD))"]
        child_path(1) [OF w(1) name_elem_ok(1)] abs in_cell_NUL [OF c]
      by (simp add: emitCoverageSymlinkCell_def Let_def)
  next
    case SymlinkStrategyCycle
    have "?y \<noteq> ?x" using cell_names_distinct [of "0xBEEF" 0 nc coverageNameDefaultLen cellID] by auto
    then have y: "?y \<notin> insert ?x {}" by simp
    obtain b1 where b1: "appendCoverageSymlink (Join2 w ?x) ?y b = (Inr (), b1)"
      "cell_inv B caps T K (insert w D) L (Suc (Suc m)) s w (insert ?x {}) b1"
      using cell_symlink [OF c _ name] by blast
    with cell_append [OF b1(2) y name, of "m + 3"] show ?thesis
      using SymlinkStrategyCycle Base_child [OF w(1) name_elem_ok(1)]
      by (simp add: emitCoverageSymlinkCell_def Let_def bindS_def)
  qed (use assms(2) one [OF abs [OF f(1)] f(2)] one [OF name] rel [OF f] rel [OF l] Base_child [OF w(1) name_elem_ok(1)] in
      \<open>auto simp: emitCoverageSymlinkCell_def Let_def\<close>)
qed

lemma symlinks_ok: "sub_tree_ok ''symlinks'' (enumerateCoverageSymlinkSubTree reps) (2 + 162 * reps)"
  unfolding sub_tree_ok_def
proof (intro allI impI)
  fix B caps T K D m b
  assume inv: "cov B caps T K D {} m b" and s: "''symlinks'' \<in> T" "Join2 B ''symlinks'' \<in> D" and new: "\<forall>c. (''symlinks'', c) \<notin> K"
  have b: "b_basePath b = B" "b_enabled b = caps" using cov_base [OF inv] by simp_all
  have B: "clean_abs B" "\<not> Contains B NUL" using inv by (simp_all add: cov_def)
  have root: "elem_ok ''symlinks''" "list_all name_byte ''symlinks''" by (simp_all add: legal_simps)
  let ?root = "Join2 B ''symlinks''"
  let ?f = "Join2 ?root ''anchor-file.bin''" and ?l = "Join2 ?root ''anchor-symlink.lnk''"
  have leaf: "elem_ok ''anchor-file.bin''" "elem_ok ''anchor-symlink.lnk''"
    "list_all name_byte ''anchor-file.bin''" "list_all name_byte ''anchor-symlink.lnk''" by (simp_all add: legal_simps)
  have fl: "clean_abs ?f" "\<not> Contains ?f NUL" "clean_abs ?l" "\<not> Contains ?l NUL"
    using child_below(2) [OF B(1) root(1)] leaf Join2_NUL [OF Join2_NUL [OF B(2) root(2)]] by blast+
  let ?K = "insert (''symlinks'', ''anchor-symlink.lnk'') (insert (''symlinks'', ''anchor-file.bin'') K)"
  show "\<exists>b' K'. enumerateCoverageSymlinkSubTree reps b = (Inr (), b') \<and> K' \<subseteq> K \<union> {''symlinks''} \<times> UNIV \<and>
      cov B caps T K' D {} (m + (2 + 162 * reps)) b'"
  proof (cases "caps coverageCapabilitySymlinks")
    case False
    with cov_skip [OF inv, of "2 + 162 * reps"] show ?thesis
      unfolding enumerateCoverageSymlinkSubTree_def getS_bind b by auto
  next
    case True
    let ?fe = "file_entry ?f 0x1A4 (string_bytes ''coverage-anchor-file'') metadata0"
    have len: "length (string_bytes ''coverage-anchor-file'') \<le> 131079" by (simp add: string_bytes_def)
    have "\<exists>b'. push_entry (\<lambda>caps. ?fe\<lparr>pe_metadata := ensureDeterministicTimestamps caps (pe_metadata ?fe)\<rparr>) (pe_path ?fe) b = (Inr (), b') \<and>
        cov B caps T (insert (''symlinks'', ''anchor-file.bin'') K) D {} (Suc m) b'"
      by (rule cov_push_child [OF inv root(1) s leaf(1) _ _ _ refl])
        (use new fl len in \<open>auto simp: cov_entry_def file_entry_def entry0_def\<close>)
    then obtain b1 where b1: "appendFile ?fe b = (Inr (), b1)" "cov B caps T (insert (''symlinks'', ''anchor-file.bin'') K) D {} (Suc m) b1"
      unfolding appendFile_def by blast
    have "\<exists>b'. push_entry (\<lambda>caps. (entry0 plannedEntryTypeSymlink ?l)\<lparr>pe_linkTarget := ''anchor-file.bin'',
          pe_metadata := deterministicLinkMetadata caps\<rparr>) ?l b1 = (Inr (), b') \<and> cov B caps T ?K D {} (Suc (Suc m)) b'"
      by (rule cov_push_child [OF b1(2) root(1) s leaf(2) _ _ _ refl])
        (use new fl in \<open>auto simp: cov_entry_def entry0_def Contains_def NUL_def\<close>)
    then obtain b2 where b2: "appendCoverageSymlink ?l ''anchor-file.bin'' b1 = (Inr (), b2)" "cov B caps T ?K D {} (Suc (Suc m)) b2"
      unfolding appendCoverageSymlink_def by blast
    have sizes: "\<forall>size \<in> set [6, 9 :: nat]. 0 < size" "2 \<le> length [6, 9 :: nat]" by simp_all
    have n: "pair_total [6, 9] * reps * 3 \<le> 162 * reps" by (simp add: pair_total_def)
    have known: "coverageSymlinkStrategyAll ! i \<noteq> SymlinkStrategyUnknown u" if "i < 6" for i u
    proof -
      have "list_all (\<lambda>c. c \<noteq> SymlinkStrategyUnknown u) coverageSymlinkStrategyAll" by (simp add: coverageSymlinkStrategyAll_def)
      then show ?thesis by (rule list_all_nthI) (simp add: that)
    qed
    have "\<exists>b'. for_cells (pairwise_cases [6, 9]) reps
        (\<lambda>idx tc rep. bindS (cell_wrapper ?root ''symlinks'') (\<lambda>w. emitCoverageSymlinkCell w ?f ?l (coverageSymlinkStrategyAll ! (tc ! 0))
          (coverageNameClassAll ! (tc ! 1)) (coverageCellID [''symlinks'', SymlinkStrategy_String (coverageSymlinkStrategyAll ! (tc ! 0)),
             coverageNameClass_String (coverageNameClassAll ! (tc ! 1)), rep_label rep]))) b2 = (Inr (), b') \<and>
        cov B caps T ?K D {} (Suc (Suc m) + 162 * reps) b'"
    proof (rule cov_cells [OF b2(2) sizes _ n], goal_cases)
      case (1 idx tc rep n b)
      have "tc ! 0 < 6" using 1(1) by (auto simp: case_ok_def dest: spec [of _ 0])
      then show ?case
        by (intro cov_cell [OF 1(2) root s root(2)] emit_ok known fl)
    qed
    then obtain b3 where "enumerateCoverageSymlinkSubTree reps b = (Inr (), b3)" "cov B caps T ?K D {} (Suc (Suc m) + 162 * reps) b3"
      using True b1(1) b2(1) unfolding enumerateCoverageSymlinkSubTree_def getS_bind b by (auto simp: bindS_def Let_def)
    then show ?thesis by (intro exI [of _ b3] exI [of _ ?K]) auto
  qed
qed

section \<open>Hard links\<close>

definition mirror_name :: "coverageNameClass \<Rightarrow> 64 word \<Rightarrow> nat \<Rightarrow> string" where
  "mirror_name nc cellID i = coverageDeterministicName nc coverageNameDefaultLen (xor cellID (word_of_nat i * 0x9E37))"

lemma mirror_name_inj:
  assumes "i < 4" "j < 4" "mirror_name nc cellID i = mirror_name nc cellID j"
  shows "i = j"
proof -
  have id: "unat (word_of_nat i * 0x9E37 :: 64 word) = i * 0x9E37" if "i < 4" for i
  proof -
    have "i \<in> {0, 1, 2, 3}" using that by auto
    then show ?thesis by auto
  qed
  have "(word_of_nat i * 0x9E37 :: 64 word) = word_of_nat j * 0x9E37"
    by (rule cell_names_distinct [OF _ _ assms(3) [unfolded mirror_name_def]]) (use id assms(1,2) in auto)
  then show ?thesis using id assms(1,2) by (metis mult_cancel2 zero_neq_numeral)
qed

lemma append_mirrors_ok:
  assumes "cell_inv B caps T K D L m s w N b" and "origin \<in> set (names plannedEntryTypeFile (b_entries b))"
    and "distinct ms" "\<forall>i \<in> set ms. i < 4 \<and> mirror_name nc cellID i \<notin> N"
  shows "\<exists>b'. append_mirrors w nc cellID origin ms b = (Inr (map (\<lambda>i. Join2 w (mirror_name nc cellID i)) ms), b') \<and>
    cell_inv B caps T K D (L \<union> (\<lambda>i. (Join2 w (mirror_name nc cellID i), origin)) ` set ms) (m + length ms) s w
      (N \<union> mirror_name nc cellID ` set ms) b' \<and> b_hardlinks b' = b_hardlinks b \<and>
    (\<forall>i \<in> set ms. Join2 w (mirror_name nc cellID i) \<in> set (names plannedEntryTypeHardlink (b_entries b'))) \<and>
    (\<exists>new. b_entries b' = b_entries b @ new)"
  using assms
proof (induction ms arbitrary: L m N b)
  case Nil
  then show ?case by (simp add: returnS_def)
next
  case (Cons i ms)
  let ?x = "mirror_name nc cellID i"
  have x: "elem_ok ?x" "\<not> Contains (Join2 w ?x) NUL"
    using name_elem_ok(1) in_cell_NUL [OF Cons.prems(1)] by (simp_all add: mirror_name_def)
  have "\<exists>b'. push_entry (\<lambda>caps. (entry0 plannedEntryTypeHardlink (Join2 w ?x))\<lparr>pe_linkTarget := origin\<rparr>) (Join2 w ?x) b = (Inr (), b') \<and>
      cell_inv B caps T K D (insert (Join2 w ?x, origin) L) (Suc m) s w (insert ?x N) b' \<and> b_hardlinks b' = b_hardlinks b \<and>
      b_entries b' = b_entries b @ [(entry0 plannedEntryTypeHardlink (Join2 w ?x))\<lparr>pe_linkTarget := origin\<rparr>]"
    by (rule push_in_cell [OF Cons.prems(1) x(1) _ refl refl])
      (use Cons.prems x in \<open>auto simp: cov_entry_def entry0_def\<close>)
  then obtain b1 where b1: "appendHardlink (Join2 w ?x) origin b = (Inr (), b1)"
    "cell_inv B caps T K D (insert (Join2 w ?x, origin) L) (Suc m) s w (insert ?x N) b1" "b_hardlinks b1 = b_hardlinks b"
    "b_entries b1 = b_entries b @ [(entry0 plannedEntryTypeHardlink (Join2 w ?x))\<lparr>pe_linkTarget := origin\<rparr>]"
    unfolding appendHardlink_def by blast
  have "origin \<in> set (names plannedEntryTypeFile (b_entries b1))" using Cons.prems(2) b1(4) by simp
  moreover have "\<forall>j \<in> set ms. j < 4 \<and> mirror_name nc cellID j \<notin> insert ?x N"
    using Cons.prems(3,4) mirror_name_inj by (metis distinct.simps(2) insert_iff list.set_intros(1,2))
  ultimately obtain b2 where b2: "append_mirrors w nc cellID origin ms b1 = (Inr (map (\<lambda>i. Join2 w (mirror_name nc cellID i)) ms), b2)"
    "cell_inv B caps T K D (insert (Join2 w ?x, origin) L \<union> (\<lambda>i. (Join2 w (mirror_name nc cellID i), origin)) ` set ms)
      (Suc m + length ms) s w (insert ?x N \<union> mirror_name nc cellID ` set ms) b2" "b_hardlinks b2 = b_hardlinks b1"
    "\<forall>i \<in> set ms. Join2 w (mirror_name nc cellID i) \<in> set (names plannedEntryTypeHardlink (b_entries b2))"
    "\<exists>new. b_entries b2 = b_entries b1 @ new"
    using Cons.IH [OF b1(2)] Cons.prems(3) by auto
  have "append_mirrors w nc cellID origin (i # ms) b = (Inr (map (\<lambda>i. Join2 w (mirror_name nc cellID i)) (i # ms)), b2)"
    using b1(1) b2(1) by (simp add: bindS_def returnS_def Let_def mirror_name_def)
  moreover obtain new where "b_entries b2 = b_entries b1 @ new" using b2(5) by blast
  then have "Join2 w ?x \<in> set (names plannedEntryTypeHardlink (b_entries b2))"
    using b1(4) by (simp add: names_def entry0_def)
  ultimately show ?case using b2(2-5) b1(3,4) by auto
qed

text \<open>The group of a cell.\<close>

lemma register_ok:
  assumes c: "cell_inv B caps T K D L m s w N b" and origin: "origin = Join2 w x" "elem_ok x"
      "origin \<in> set (names plannedEntryTypeFile (b_entries b))"
    and ps: "ps \<noteq> []" "distinct (origin # ps)" "\<forall>p \<in> set ps. (\<exists>y. elem_ok y \<and> p = Join2 w y) \<and>
      p \<in> set (names plannedEntryTypeHardlink (b_entries b))"
    and L: "L \<subseteq> set ps \<times> {origin}"
  shows "\<exists>b'. registerHardlinkGroup origin ps b = (Inr (), b') \<and> cov B caps T K D {} m b'"
proof -
  let ?g = "\<lparr>hg_origin = origin, hg_paths = sort_strings (origin # ps)\<rparr>"
  let ?b = "b\<lparr>b_hardlinks := b_hardlinks b @ [?g]\<rparr>"
  have cov: "cov B caps T K D L m b" and free: "\<forall>g \<in> set (b_hardlinks b). \<forall>p \<in> set (hg_paths g). \<forall>x. elem_ok x \<longrightarrow> p \<noteq> Join2 w x"
    using c by (simp_all add: cell_inv_def in_cell_def)
  have set: "set (hg_paths ?g) = insert origin (set ps)" "length (hg_paths ?g) = Suc (length ps)" "distinct (hg_paths ?g)"
    unfolding sort_strings_def using ps(2) by (simp_all only: plannedHardlinkGroup.simps set_sort length_sort distinct_sort
      list.size set_simps add_Suc_right add_0_right)
  then have grp: "group_ok (b_entries b) ?g" using origin(3) ps by (auto simp: group_ok_def Suc_le_eq)
  have "\<forall>p \<in> set (hg_paths ?g). \<exists>y. elem_ok y \<and> p = Join2 w y" using set(1) origin(1,2) ps(3) by auto
  then have "set (concat (map hg_paths (b_hardlinks b))) \<inter> set (hg_paths ?g) = {}" using free by fastforce
  then have dist: "distinct (concat (map hg_paths (b_hardlinks b @ [?g])))" using cov set(3) by (simp add: cov_def)
  have "grouped (b_hardlinks b @ [?g]) l" if "l \<in> set (hard_links (b_entries b))" for l
  proof -
    have "grouped (b_hardlinks b) l \<or> l \<in> L" using cov that by (simp add: cov_def)
    then show ?thesis using L set(1) by (auto simp: grouped_def)
  qed
  then have "cov B caps T K D {} m ?b" using cov grp dist by (simp add: cov_def)
  then show ?thesis by (simp add: registerHardlinkGroup_def modifyS_def)
qed

lemma mirror_name_0: "coverageDeterministicName nc coverageNameDefaultLen cellID = mirror_name nc cellID 0"
  by (simp add: mirror_name_def)

lemma hardlink_cell:
  assumes c: "cell_inv B caps T K (insert w D) {} (Suc m) s w {} b" and sz: "2 \<le> gs" "gs \<le> 4"
  shows "\<exists>b'. (let originPath = Join2 w (coverageDeterministicName nc coverageNameDefaultLen cellID) in
      bindS (appendFile (file_entry originPath 0x1A4 (coveragePlainData 64 cellID) metadata0)) (\<lambda>_.
      bindS (append_mirrors w nc cellID originPath [1..<gs]) (\<lambda>mirrors.
      registerHardlinkGroup originPath mirrors))) b = (Inr (), b') \<and> cov B caps T K D {} (m + 5) b'"
proof -
  let ?x = "mirror_name nc cellID 0" and ?path = "\<lambda>i. Join2 w (mirror_name nc cellID i)"
  let ?fe = "file_entry (?path 0) 0x1A4 (coveragePlainData 64 cellID) metadata0"
  let ?e = "?fe\<lparr>pe_metadata := ensureDeterministicTimestamps caps (pe_metadata ?fe)\<rparr>"
  have w: "clean_abs w" using cell_inv_wrapper [OF c] by simp
  have x: "elem_ok (mirror_name nc cellID i)" for i using name_elem_ok(1) by (simp add: mirror_name_def)
  have path_inj: "i = j" if "?path i = ?path j" "i < 4" "j < 4" for i j
    using child_path(2) [OF w x] that mirror_name_inj by (metis last_snoc)
  have "\<not> Contains (?path 0) NUL" using in_cell_NUL [OF c] by (simp add: mirror_name_def)
  then have "\<exists>b'. push_entry (\<lambda>caps. ?fe\<lparr>pe_metadata := ensureDeterministicTimestamps caps (pe_metadata ?fe)\<rparr>) (pe_path ?fe) b =
        (Inr (), b') \<and> cell_inv B caps T K (insert w D) {} (Suc (Suc m)) s w (insert ?x {}) b' \<and>
      b_hardlinks b' = b_hardlinks b \<and> b_entries b' = b_entries b @ [?e]"
    by (intro push_in_cell [OF c x _ _ refl]) (auto simp: cov_entry_def file_entry_def entry0_def)
  then obtain b1 where b1: "appendFile ?fe b = (Inr (), b1)" "cell_inv B caps T K (insert w D) {} (Suc (Suc m)) s w {?x} b1"
    "b_entries b1 = b_entries b @ [?e]"
    unfolding appendFile_def by blast
  have origin: "?path 0 \<in> set (names plannedEntryTypeFile (b_entries b1))"
    using b1(3) by (simp add: file_entry_def entry0_def)
  have "mirror_name nc cellID i \<noteq> ?x" if "i \<in> set [1..<gs]" for i
    using mirror_name_inj [of i 0] that sz(2) by auto
  then have "\<forall>i \<in> set [1..<gs]. i < 4 \<and> mirror_name nc cellID i \<notin> {?x}" using sz(2) by auto
  from append_mirrors_ok [OF b1(2) origin _ this] obtain b2 new where
    b2: "append_mirrors w nc cellID (?path 0) [1..<gs] b1 = (Inr (map ?path [1..<gs]), b2)"
      "cell_inv B caps T K (insert w D) ((\<lambda>i. (?path i, ?path 0)) ` set [1..<gs]) (Suc (Suc m) + (gs - 1)) s w
        ({?x} \<union> mirror_name nc cellID ` set [1..<gs]) b2"
      "\<forall>i \<in> set [1..<gs]. ?path i \<in> set (names plannedEntryTypeHardlink (b_entries b2))"
      "b_entries b2 = b_entries b1 @ new"
    by auto
  have origin2: "?path 0 \<in> set (names plannedEntryTypeFile (b_entries b2))"
    using origin b2(4) by (simp add: names_def)
  have "inj_on ?path (set (0 # [1..<gs]))" using path_inj sz(2) by (intro inj_onI) auto
  then have dist: "distinct (?path 0 # map ?path [1..<gs])"
    using distinct_map [of ?path "0 # [1..<gs]"] by simp
  obtain b3 where b3: "registerHardlinkGroup (?path 0) (map ?path [1..<gs]) b2 = (Inr (), b3)"
    "cov B caps T K (insert w D) {} (Suc (Suc m) + (gs - 1)) b3"
    using register_ok [OF b2(2) refl x origin2 _ dist] sz b2(3) x by fastforce
  have "cov B caps T K D {} (m + 5) b3" using sz by (intro cov_mono [OF b3(2)]) auto
  with b1(1) b2(1) b3(1) show ?thesis by (simp add: mirror_name_0 Let_def bindS_def)
qed

lemma hardlinks_ok: "sub_tree_ok ''hardlinks'' (enumerateCoverageHardlinkSubTree reps) (135 * reps)"
proof (rule sub_tree_okI)
  fix B caps T K D m b
  assume inv: "cov B caps T K D {} m b" and s: "''hardlinks'' \<in> T" "Join2 B ''hardlinks'' \<in> D"
    and b: "b_basePath b = B" "b_enabled b = caps"
  have sizes: "\<forall>size \<in> set [3, 9 :: nat]. 0 < size" "2 \<le> length [3, 9 :: nat]" by simp_all
  have n: "pair_total [3, 9] * reps * 5 \<le> 135 * reps" by (simp add: pair_total_def)
  have root: "elem_ok ''hardlinks''" "list_all name_byte ''hardlinks''" by (simp_all add: legal_simps)
  have size: "2 \<le> coverageHardlinkGroupSizeAll ! i \<and> coverageHardlinkGroupSizeAll ! i \<le> 4" if "i < 3" for i
  proof -
    have "list_all (\<lambda>c. 2 \<le> c \<and> c \<le> 4) coverageHardlinkGroupSizeAll" by (simp add: coverageHardlinkGroupSizeAll_def)
    then show ?thesis by (rule list_all_nthI) (simp add: that)
  qed
  show "\<exists>b'. enumerateCoverageHardlinkSubTree reps b = (Inr (), b') \<and> cov B caps T K D {} (m + 135 * reps) b'"
  proof (cases "caps coverageCapabilityHardlinks")
    case False
    with cov_skip [OF inv] show ?thesis unfolding enumerateCoverageHardlinkSubTree_def getS_bind b by simp
  next
    case True
    then have off: "(\<not> caps coverageCapabilityHardlinks) = False" by simp
    show ?thesis
      unfolding enumerateCoverageHardlinkSubTree_def getS_bind b prod.case class_counts off if_False
    proof (rule cov_cells [OF inv sizes _ n], goal_cases)
      case (1 idx tc rep n b)
      have "tc ! 0 < 3" using 1(1) by (auto simp: case_ok_def dest: spec [of _ 0])
      then have sz: "2 \<le> coverageHardlinkGroupSizeAll ! (tc ! 0)" "coverageHardlinkGroupSizeAll ! (tc ! 0) \<le> 4"
        using size by simp_all
      show ?case
        unfolding Let_def
        by (rule cov_cell [OF 1(2) root s root(2)], drule hardlink_cell [OF _ sz, unfolded Let_def])
    qed
  qed
qed

section \<open>The plan\<close>

lemma cov_start:
  assumes "clean_abs B" "\<not> Contains B NUL"
  shows "\<exists>b'. appendDir B 0x1ED metadata0 (newCoveragePlanBuilder B caps) = (Inr (), b') \<and>
    cov B (coverageCapabilitySet caps) {} {} {B} {} 1 b'"
proof -
  let ?caps = "coverageCapabilitySet caps"
  let ?e = "(entry0 plannedEntryTypeDir B)\<lparr>pe_mode := 0x1ED, pe_metadata := ensureDeterministicTimestamps ?caps metadata0\<rparr>"
  let ?b = "\<lparr>b_basePath = B, b_entries = [?e], b_hardlinks = [], b_used = [B], b_enabled = ?caps, b_nextCellIndex = 0\<rparr>"
  have run: "appendDir B 0x1ED metadata0 (newCoveragePlanBuilder B caps) = (Inr (), ?b)"
    by (simp add: appendDir_def push_entry_def registerPath_def newCoveragePlanBuilder_def bindS_def modifyS_def)
  have e: "pe_path ?e = B" "cov_entry ?caps ?e" "pe_type ?e = plannedEntryTypeDir"
    using assms by (simp_all add: cov_entry_def entry0_def)
  have "entries_ok B [?e]" using e(1,3) by (simp add: entries_ok_def entry_ok_def paths_def)
  moreover have "paths [?e] = [B]" "names plannedEntryTypeDir [?e] = [B]" "hard_links [?e] = []"
    using e(1,3) by (simp_all add: paths_def names_def hard_links_def)
  ultimately have "cov B ?caps {} {} {B} {} 1 ?b" using assms e(2) by (simp add: cov_def key_ok_def)
  with run show ?thesis by blast
qed

text \<open>The root of a sub-tree.\<close>

lemma cov_root:
  assumes inv: "cov B caps T K {B} {} m b" and s: "elem_ok s" "list_all name_byte s" "s \<notin> T" and K: "K \<subseteq> T \<times> UNIV"
  shows "\<exists>b'. appendDir (Join2 B s) 0x1ED metadata0 b = (Inr (), b') \<and> cov B caps (insert s T) K {B, Join2 B s} {} (Suc m) b'"
proof -
  let ?e = "(entry0 plannedEntryTypeDir (Join2 B s))\<lparr>pe_mode := 0x1ED, pe_metadata := ensureDeterministicTimestamps caps metadata0\<rparr>"
  have B: "clean_abs B" "\<not> Contains B NUL" using inv by (simp_all add: cov_def)
  note r = root_below [OF B(1) s(1)]
  have new: "Join2 B s \<notin> set (b_used b)"
  proof
    assume "Join2 B s \<in> set (b_used b)"
    then have "key_ok B T K (b_nextCellIndex b) (Join2 B s)" using inv by (simp add: cov_def)
    then show False unfolding key_ok_def using r(3) s(3) by auto
  qed
  have key: "key_ok B (insert s T) K (b_nextCellIndex b) (Join2 B s)" unfolding key_ok_def using r(3) by simp
  have hds: "\<forall>(s, c) \<in> K. hd c \<noteq> CHR ''c''" using inv by (simp add: cov_def)
  have e: "pe_path ?e = Join2 B s" "cov_entry caps ?e" "pe_type ?e = plannedEntryTypeDir"
    using Join2_NUL [OF B(2) s(2)] by (simp_all add: cov_entry_def entry0_def)
  have "\<exists>b'. push_entry (\<lambda>caps. (entry0 plannedEntryTypeDir (Join2 B s))\<lparr>pe_mode := 0x1ED,
        pe_metadata := ensureDeterministicTimestamps caps metadata0\<rparr>) (Join2 B s) b = (Inr (), b') \<and>
      cov B caps (insert s T) K {B, Join2 B s} {} (Suc m) b' \<and> b_used b' = Join2 B s # b_used b \<and>
      b_nextCellIndex b' = b_nextCellIndex b \<and> b_hardlinks b' = b_hardlinks b \<and> b_entries b' = b_entries b @ [?e]"
    by (rule cov_push [OF inv new refl _ _ r(1) _ _ _ _ key]) (use r(4) e hds in auto)
  then show ?thesis unfolding appendDir_def by blast
qed

lemma sub_trees_ok:
  assumes "list_all2 (\<lambda>st n. sub_tree_ok (fst st) (snd st reps) n) sts ns"
    and "distinct (map fst sts)" "list_all (\<lambda>s. elem_ok s \<and> list_all name_byte s) (map fst sts)"
    and "cov B caps T K {B} {} m b" "K \<subseteq> T \<times> UNIV" "set (map fst sts) \<inter> T = {}"
  shows "\<exists>b' T' K'. for_each (\<lambda>(name, fn). bindS (appendDir (Join2 B name) 0x1ED metadata0) (\<lambda>_. fn reps)) sts b = (Inr (), b') \<and>
    cov B caps T' K' {B} {} (m + sum_list ns + length ns) b'"
  using assms
proof (induction arbitrary: T K m b rule: list_all2_induct)
  case Nil
  then show ?case by (auto simp: returnS_def)
next
  case (Cons st sts n ns)
  obtain s fn where st: "st = (s, fn)" by fastforce
  have s: "elem_ok s" "list_all name_byte s" "s \<notin> T" using Cons.prems st by simp_all
  obtain b1 where b1: "appendDir (Join2 B s) 0x1ED metadata0 b = (Inr (), b1)"
    "cov B caps (insert s T) K {B, Join2 B s} {} (Suc m) b1"
    using cov_root [OF Cons.prems(3) s Cons.prems(4)] by blast
  have "\<forall>c. (s, c) \<notin> K" using Cons.prems(4) s(3) by auto
  moreover have "sub_tree_ok s (fn reps) n" using Cons.hyps(1) st by simp
  ultimately obtain b2 K2 where b2: "fn reps b1 = (Inr (), b2)" "K2 \<subseteq> K \<union> {s} \<times> UNIV"
    "cov B caps (insert s T) K2 {B, Join2 B s} {} (Suc m + n) b2"
    using b1(2) unfolding sub_tree_ok_def by blast
  have "cov B caps (insert s T) K2 {B} {} (Suc m + n) b2" by (rule cov_mono [OF b2(3)]) auto
  moreover have "K2 \<subseteq> insert s T \<times> UNIV" using b2(2) Cons.prems(4) by auto
  moreover have "set (map fst sts) \<inter> insert s T = {}" using Cons.prems(1,5) st by auto
  ultimately obtain b3 T' K' where
    "for_each (\<lambda>(name, fn). bindS (appendDir (Join2 B name) 0x1ED metadata0) (\<lambda>_. fn reps)) sts b2 = (Inr (), b3)"
    "cov B caps T' K' {B} {} (Suc m + n + sum_list ns + length ns) b3"
    using Cons.IH [of "insert s T" K2 "Suc m + n" b2] Cons.prems(1,2) by auto
  moreover have "Suc m + n + sum_list ns + length ns = m + sum_list (n # ns) + length (n # ns)" by simp
  ultimately show ?case using b1(1) b2(1) unfolding st for_each.simps by (auto simp: bindS_def add.assoc)
qed

lemma build_coverage_ok:
  assumes "clean_abs B" "\<not> Contains B NUL"
  shows "\<exists>b T K. build_coverage k B reps (newCoveragePlanBuilder B caps) = (Inr (), b) \<and>
    cov B (coverageCapabilitySet caps) T K {B} {} (11 + 1539 * reps) b"
proof -
  let ?ns = "[228 * reps, 754 * reps, 2 + 162 * reps, 135 * reps, 8 * reps, 108 * reps, 54 * reps, 90 * reps]"
  obtain b0 where b0: "appendDir B 0x1ED metadata0 (newCoveragePlanBuilder B caps) = (Inr (), b0)"
    "cov B (coverageCapabilitySet caps) {} {} {B} {} 1 b0"
    using cov_start [OF assms] by blast
  have "list_all2 (\<lambda>st n. sub_tree_ok (fst st) (snd st reps) n) (subTrees k) ?ns"
    using symlinks_ok [of reps] by (simp add: subTrees_def dirs_ok files_ok hardlinks_ok special_ok xattrs_ok acls_ok timestamps_ok)
  moreover have "distinct (map fst (subTrees k))" "list_all (\<lambda>s. elem_ok s \<and> list_all name_byte s) (map fst (subTrees k))"
    by (simp_all add: subTrees_def legal_simps)
  ultimately obtain b T K where b: "for_each (\<lambda>(name, fn). bindS (appendDir (Join2 B name) 0x1ED metadata0) (\<lambda>_. fn reps)) (subTrees k) b0 = (Inr (), b)"
    "cov B (coverageCapabilitySet caps) T K {B} {} (1 + sum_list ?ns + length ?ns) b"
    using sub_trees_ok [of reps "subTrees k" ?ns B "coverageCapabilitySet caps" "{}" "{}" 1 b0] b0(2) by blast
  have "build_coverage k B reps (newCoveragePlanBuilder B caps) = (Inr (), b)"
    using b0(1) b(1) by (simp add: build_coverage_def bindS_def)
  moreover have "1 + sum_list ?ns + length ?ns = 11 + 1539 * reps" by simp
  ultimately show ?thesis using b(2) by metis
qed

definition plan_ok :: "string \<Rightarrow> capabilitySet \<Rightarrow> runPlan \<Rightarrow> bool" where
  "plan_ok B caps plan \<longleftrightarrow> entries_ok B (entries plan) \<and> entries plan \<noteq> [] \<and> groups_ok (entries plan) (planGroups plan) \<and>
     list_all (cov_entry caps) (entries plan)"

lemma buildRunPlan_ok:
  assumes "cov B caps T K D {} m b"
  shows "plan_ok B caps (buildRunPlan b)"
    and "sorted (map hg_origin (planGroups (buildRunPlan b)))"
    and "list_all (\<lambda>g. sorted (hg_paths g)) (planGroups (buildRunPlan b))"
    and "length (entries (buildRunPlan b)) \<le> m"
proof -
  define st :: planState where "st = undefined\<lparr>hardlinkGroups := b_hardlinks b\<rparr>"
  have groups: "groups_ok (entries (buildRunPlan b)) (hardlinkGroups st)"
    using assms by (auto simp: st_def cov_def groups_ok_def buildRunPlan_def list_all_iff)
  have eq: "planGroups (buildRunPlan b) = materializeHardlinkGroups st"
    unfolding buildRunPlan_def materializeHardlinkGroups_def st_def by (auto intro!: arg_cong [of _ _ "sort_key hg_origin"])
  show "plan_ok B caps (buildRunPlan b)" "length (entries (buildRunPlan b)) \<le> m"
    using assms materialize_ok(1) [OF groups] unfolding eq [symmetric] by (simp_all add: plan_ok_def cov_def buildRunPlan_def)
  show "sorted (map hg_origin (planGroups (buildRunPlan b)))"
    "list_all (\<lambda>g. sorted (hg_paths g)) (planGroups (buildRunPlan b))"
    using materialize_ok(2,3) [OF groups] unfolding eq by simp_all
qed

text \<open>The plan and the probes' file system.\<close>

lemma enumerateCoveragePlan_cases:
  assumes "clean_abs base" "\<not> Contains base NUL"
  obtains b T K where "enumerateCoveragePlan k base opts fs =
      ((Inr (buildRunPlan b), fst (resolveCoverageCapabilities k opts base fs)), snd (resolveCoverageCapabilities k opts base fs))"
    "cov base (coverageCapabilitySet (fst (resolveCoverageCapabilities k opts base fs))) T K {base} {}
      (11 + 1539 * coverageEffortMultiplier (co_effort opts)) b"
proof -
  obtain caps fs' where r: "resolveCoverageCapabilities k opts base fs = (caps, fs')" by fastforce
  obtain b T K where b: "build_coverage k base (coverageEffortMultiplier (co_effort opts)) (newCoveragePlanBuilder base caps) = (Inr (), b)"
    "cov base (coverageCapabilitySet caps) T K {base} {} (11 + 1539 * coverageEffortMultiplier (co_effort opts)) b"
    using build_coverage_ok [OF assms] by blast
  then show thesis using that [of b T K] r by (simp add: enumerateCoveragePlan_def)
qed

lemma effort_multiplier: "coverageEffortMultiplier e \<le> 50"
  by (cases e) (simp_all add: coverageEffortMultiplier_def)

text \<open>
  C30: the enumeration of a coverage plan never fails below a clean absolute base path, for every
  kernel and all options: no two paths collide. The entries are in an order in which they can be
  created (every parent directory and link target comes earlier, at paths that differ), the hard
  link groups are exactly the files and links of the plan, sorted, and every entry needs only the
  dimensions that the capability probes enabled, with ownership that is not negative, attribute names that
  are legal and contents that can be written.
\<close>

theorem enumerateCoveragePlan_well_formed:
  assumes "clean_abs base" and "\<not> Contains base NUL"
  shows "\<exists>plan reports fs'. enumerateCoveragePlan k base opts fs = ((Inr plan, reports), fs') \<and>
    entries_ok base (entries plan) \<and> groups_ok (entries plan) (planGroups plan) \<and>
    sorted (map hg_origin (planGroups plan)) \<and> list_all (\<lambda>g. sorted (hg_paths g)) (planGroups plan) \<and>
    list_all (cov_entry (coverageCapabilitySet reports)) (entries plan)"
  by (rule enumerateCoveragePlan_cases [OF assms, of k opts fs], frule buildRunPlan_ok(1), frule buildRunPlan_ok(2),
      drule buildRunPlan_ok(3)) (simp add: plan_ok_def)

lemma sample_path: "clean_abs ''/t''" "\<not> Contains ''/t'' NUL"
  by code_simp+

theorem enumerateCoveragePlan_well_formed_witness:
  "\<exists>plan reports fs'. enumerateCoveragePlan sample_kernel ''/t''
      \<lparr>co_effort = DeterministicCoverageEffortLow, co_includeLinuxOnly = True, co_includePrivileged = False,
       co_planEntryLimit = 0, co_runMode = RunModeAppend\<rparr> sample_fs = ((Inr plan, reports), fs') \<and> entries_ok ''/t'' (entries plan)"
  using enumerateCoveragePlan_well_formed [OF sample_path, of sample_kernel
    "\<lparr>co_effort = DeterministicCoverageEffortLow, co_includeLinuxOnly = True, co_includePrivileged = False,
      co_planEntryLimit = 0, co_runMode = RunModeAppend\<rparr>" sample_fs] by blast

definition defaultPlanEntryLimit :: int where
  "defaultPlanEntryLimit = 100000"

text \<open>
  C32: the size of a coverage plan. Whatever the kernel allows, there is an entry for the base and at
  most \<open>10 + 1539 * m\<close> more, with \<open>m\<close> the multiplier of the effort, so even the highest effort
  stays below the default limit of 100000 entries.
\<close>

theorem enumerateCoveragePlan_bound:
  assumes "clean_abs base" and "\<not> Contains base NUL"
  shows "\<exists>plan reports fs'. enumerateCoveragePlan k base opts fs = ((Inr plan, reports), fs') \<and>
    1 \<le> length (entries plan) \<and> length (entries plan) \<le> 11 + 1539 * coverageEffortMultiplier (co_effort opts) \<and>
    int (length (entries plan)) < defaultPlanEntryLimit"
proof (rule enumerateCoveragePlan_cases [OF assms, of k opts fs])
  fix b T K
  assume run: "enumerateCoveragePlan k base opts fs = ((Inr (buildRunPlan b), fst (resolveCoverageCapabilities k opts base fs)),
      snd (resolveCoverageCapabilities k opts base fs))"
    and cov: "cov base (coverageCapabilitySet (fst (resolveCoverageCapabilities k opts base fs))) T K {base} {}
      (11 + 1539 * coverageEffortMultiplier (co_effort opts)) b"
  note b = buildRunPlan_ok(1,4) [OF cov]
  have "entries (buildRunPlan b) \<noteq> []" using b(1) by (simp add: plan_ok_def)
  then have "1 \<le> length (entries (buildRunPlan b))" by (simp add: Suc_le_eq)
  moreover have "int (length (entries (buildRunPlan b))) < defaultPlanEntryLimit"
    using b(2) effort_multiplier [of "co_effort opts"] by (simp add: defaultPlanEntryLimit_def)
  ultimately show ?thesis using run b(2) by blast
qed

theorem enumerateCoveragePlan_bound_witness:
  "\<exists>plan reports fs'. enumerateCoveragePlan sample_kernel ''/t''
      \<lparr>co_effort = DeterministicCoverageEffortXHigh, co_includeLinuxOnly = True, co_includePrivileged = True,
       co_planEntryLimit = 0, co_runMode = RunModeAppend\<rparr> sample_fs = ((Inr plan, reports), fs') \<and> length (entries plan) \<le> 76961"
  using enumerateCoveragePlan_bound [OF sample_path, of sample_kernel
    "\<lparr>co_effort = DeterministicCoverageEffortXHigh, co_includeLinuxOnly = True, co_includePrivileged = True,
      co_planEntryLimit = 0, co_runMode = RunModeAppend\<rparr>" sample_fs]
  by (auto simp: coverageEffortMultiplier_def)

end
