(* ===== verification/Coverage.thy ===== *)
theory Coverage
  imports Coverage_Plan
begin

text \<open>
  The entry points of the deterministic coverage scenario (\<^verbatim>\<open>coverage.go\<close>): the specification of a
  coverage run, the run itself, and the run on behalf of a generator. A run enumerates the plan
  (\<open>Coverage_Enumerator\<close>) and applies it without faults (\<open>Apply_Plan\<close>). Elapsed times are left out.
\<close>

section \<open>Specification and run\<close>

record DeterministicCoverageSpec =
  cs_Effort :: DeterministicCoverageEffort
  cs_BasePath :: string
  cs_EnabledDimensions :: "string list"
  cs_SkippedDimensions :: "SkippedDimension list"
  cs_PlannedEntries :: int
  cs_HardlinkGroups :: int
  cs_GeneratedAt :: time

text \<open>The composite literal at the end of both functions.\<close>

definition coverage_spec ::
  "string \<Rightarrow> DeterministicCoverageOptions \<Rightarrow> capabilityReport list \<Rightarrow> runPlan \<Rightarrow> DeterministicCoverageSpec" where
  "coverage_spec base opts caps plan =
     \<lparr>cs_Effort = co_effort opts, cs_BasePath = base,
      cs_EnabledDimensions = coverageCapabilityEnabledNames caps,
      cs_SkippedDimensions = coverageCapabilitySkipped caps,
      cs_PlannedEntries = int (length (entries plan)),
      cs_HardlinkGroups = int (length (planGroups plan)),
      cs_GeneratedAt = coverageEpoch\<rparr>"

definition BuildDeterministicCoverageSpec ::
  "kernel \<Rightarrow> string \<Rightarrow> DeterministicCoverageOptions \<Rightarrow> fsys \<Rightarrow> (err + DeterministicCoverageSpec) \<times> fsys" where
  "BuildDeterministicCoverageSpec k base opts fs =
     (if base = [] then (Inl (Sentinel ErrDeterministicCoverageBasePathEmpty), fs)
      else case validateDeterministicCoverageEffort (co_effort opts) of
        Inl e \<Rightarrow> (Inl e, fs)
      | Inr _ \<Rightarrow>
          let opts = normalizeDeterministicCoverageOptions opts in
          (case enumerateCoveragePlan k base opts fs of
             ((Inl e, _), fs') \<Rightarrow> (Inl e, fs')
           | ((Inr plan, caps), fs') \<Rightarrow> (Inr (coverage_spec base opts caps plan), fs')))"

text \<open>The counters of the metrics after the plan was applied.\<close>

definition coverage_metrics :: "runPlan \<Rightarrow> applyStats \<Rightarrow> RunMetrics" where
  "coverage_metrics plan st =
     RunMetrics0\<lparr>Nodes := int (length (entries plan)), HardlinkGroups := int (length (planGroups plan)),
       AppliedEntries := appliedEntries st, FinalizedDirectories := finalizedDirectories st\<rparr>"

definition plan_limit :: "int \<Rightarrow> int" where
  "plan_limit n = (if n \<le> 0 then defaultPlanEntryLimit else n)"

text \<open>\<open>None\<close> is the zero value of the specification, which goes with every early error.\<close>

definition RunDeterministicCoverage ::
  "kernel \<Rightarrow> (int \<Rightarrow> rng) \<Rightarrow> string \<Rightarrow> DeterministicCoverageOptions \<Rightarrow> fsys
     \<Rightarrow> (DeterministicCoverageSpec option \<times> RunMetrics \<times> applyCause option) \<times> fsys" where
  "RunDeterministicCoverage k seeded base opts fs =
     (let stop = (\<lambda>e fs. ((None, RunMetrics0, Some (OperationFailed e)), fs)) in
      if base = [] then stop (Sentinel ErrDeterministicCoverageBasePathEmpty) fs
      else case validateDeterministicCoverageEffort (co_effort opts) of
        Inl e \<Rightarrow> stop e fs
      | Inr _ \<Rightarrow>
          let opts = normalizeDeterministicCoverageOptions opts in
          (case validateRunMode (co_runMode opts) of
             Inl e \<Rightarrow> stop e fs
           | Inr _ \<Rightarrow>
               (case enumerateCoveragePlan k base opts fs of
                  ((Inl e, _), fs') \<Rightarrow> stop e fs'
                | ((Inr plan, caps), fs') \<Rightarrow>
                    let planLimit = plan_limit (co_planEntryLimit opts) in
                    if int (length (entries plan)) > planLimit
                    then stop (Errorf ''planned limit'' (Some (Sentinel ErrPlanEntryLimitExceeded))) fs'
                    else
                      (case applyPrebuiltPlan k seeded
                              ((New base)\<lparr>runMode := co_runMode opts, planEntryLimit := planLimit\<rparr>) plan fs' of
                         ((st, applyErr), fs'') \<Rightarrow>
                           ((Some (coverage_spec base opts caps plan), coverage_metrics plan st, applyErr), fs'')))))"

text \<open>
  The run of a generator whose deterministic coverage is active. The zero value of the options' run
  mode, \<open>RunModeAppend\<close>, stands for the mode of the generator. The generator's own fields are
  restored by the deferred call, so the caller's record stays as it is.
\<close>

definition runCoverage ::
  "kernel \<Rightarrow> (int \<Rightarrow> rng) \<Rightarrow> Generator \<Rightarrow> DeterministicCoverageOptions \<Rightarrow> fsys
     \<Rightarrow> (RunMetrics \<times> applyCause option) \<times> fsys" where
  "runCoverage k seeded g coverageOptions fs =
     (let stop = (\<lambda>e fs. ((RunMetrics0, Some (OperationFailed e)), fs));
          opts0 = normalizeDeterministicCoverageOptions coverageOptions in
      case validateDeterministicCoverageEffort (co_effort opts0) of
        Inl e \<Rightarrow> stop e fs
      | Inr _ \<Rightarrow>
          let opts1 = (if co_runMode opts0 \<noteq> runMode g \<and> co_runMode opts0 = RunModeAppend
                       then opts0\<lparr>co_runMode := runMode g\<rparr> else opts0);
              opts = (if co_planEntryLimit opts1 \<le> 0 then opts1\<lparr>co_planEntryLimit := planEntryLimit g\<rparr> else opts1) in
          (case enumerateCoveragePlan k (basePath g) opts fs of
             ((Inl e, _), fs') \<Rightarrow> stop e fs'
           | ((Inr plan, _), fs') \<Rightarrow>
               let planLimit = plan_limit (co_planEntryLimit opts) in
               if int (length (entries plan)) > planLimit
               then stop (Errorf ''planned limit'' (Some (Sentinel ErrPlanEntryLimitExceeded))) fs'
               else
                 (case applyPrebuiltPlan k seeded (g\<lparr>runMode := co_runMode opts, planEntryLimit := planLimit\<rparr>) plan fs' of
                    ((st, applyErr), fs'') \<Rightarrow> ((coverage_metrics plan st, applyErr), fs''))))"

text \<open>\<^verbatim>\<open>RunWithMetrics\<close> with the fields of the generator that hold the coverage options.\<close>

definition RunConfigured ::
  "kernel \<Rightarrow> (int \<Rightarrow> rng) \<Rightarrow> DeterministicCoverageOptions option \<Rightarrow> Generator
     \<Rightarrow> FaultProfile \<Rightarrow> rng \<Rightarrow> fsys \<Rightarrow> (RunMetrics \<times> applyCause option) \<times> rng \<times> fsys" where
  "RunConfigured k seeded coverage g =
     RunWithMetrics k seeded (map_option (runCoverage k seeded g) coverage) (Some g)"

section \<open>Applying the plan\<close>

lemma writable_data:
  assumes "content_writable c" "pc_logicalSize c \<le> 131079"
  shows "\<exists>d. planned_bytes maxFileSize seeded c = Inr d \<and> length d \<le> 131079"
  using write_content [OF assms(1), of maxFileSize seeded] assms(2) by (auto simp: maxFileSize_def)

lemma cov_entry_ready:
  assumes "cov_entry caps e" and "\<not> caps coverageCapabilityACL"
  shows "entry_ready seeded e"
proof -
  have "meta_ready (pe_metadata e)" using assms by (auto simp: cov_entry_def meta_shape_def meta_ready_def)
  moreover have "case planned_data seeded e of Inl _ \<Rightarrow> False | Inr d \<Rightarrow> int (length d) \<le> maxFileSize"
    if "pe_type e = plannedEntryTypeFile"
  proof -
    have f: "length (pe_data e) \<le> 131079"
      "pe_content e = content0 \<or> content_writable (pe_content e) \<and> pc_logicalSize (pe_content e) \<le> 131079"
      using assms(1) that by (simp_all add: cov_entry_def)
    then show ?thesis
      using writable_data [of "pe_content e" seeded]
      by (auto simp: planned_data_def maxFileSize_def content0_def split: sum.splits)
  qed
  ultimately show ?thesis using assms(1) by (auto simp: cov_entry_def entry_ready_def split: plannedEntryType.splits)
qed

lemma applyPrebuiltPlan_run:
  "applyPrebuiltPlan k seeded g plan = applyRunPlan k seeded g plan \<lparr>injector = None\<rparr>"
proof -
  have "newExecutionContext [] = Inr \<lparr>injector = None\<rparr>" by code_simp
  then show ?thesis by (simp add: applyPrebuiltPlan_def fun_eq_iff)
qed

text \<open>Options without the dimensions that need Linux.\<close>

definition portable :: "DeterministicCoverageOptions \<Rightarrow> bool" where
  "portable opts \<longleftrightarrow> \<not> co_includeLinuxOnly (normalizeDeterministicCoverageOptions opts)"

lemma normalize_simps [simp]:
  "co_effort (normalizeDeterministicCoverageOptions opts) = co_effort opts"
  "co_runMode (normalizeDeterministicCoverageOptions opts) = co_runMode opts"
  "co_planEntryLimit (normalizeDeterministicCoverageOptions opts) = co_planEntryLimit opts"
  by (simp_all add: normalizeDeterministicCoverageOptions_def)

lemma portable_names:
  assumes "\<not> co_includeLinuxOnly opts"
  shows "coverageCapabilityEnabledNames (fst (resolveCoverageCapabilities k opts base fs)) =
    map coverageCapabilityID_String [coverageCapabilityHardlinks, coverageCapabilitySymlinks]"
  using assms
  by (auto simp: resolveCoverageCapabilities_def coverageCapabilityIDs_def coverageCapabilityRequirements_def Let_def
      runCoverageCapabilityProbe_def coverageCapabilityEnabledNames_def)

lemma portable_cases:
  assumes "portable opts" "clean_abs base" "\<not> Contains base NUL"
  obtains plan reports where "enumerateCoveragePlan k base (normalizeDeterministicCoverageOptions opts) fs = ((Inr plan, reports), fs)"
    "plan_ok base (\<lambda>cid. cid \<in> {coverageCapabilityHardlinks, coverageCapabilitySymlinks}) plan"
    "int (length (entries plan)) < defaultPlanEntryLimit"
proof -
  let ?opts = "normalizeDeterministicCoverageOptions opts"
  have p: "\<not> co_includeLinuxOnly ?opts" using assms(1) by (simp add: portable_def)
  note r = resolve_portable [OF p, of k base fs]
  obtain b T K where run: "enumerateCoveragePlan k base ?opts fs = ((Inr (buildRunPlan b), fst (resolveCoverageCapabilities k ?opts base fs)),
      snd (resolveCoverageCapabilities k ?opts base fs))"
    and cov: "cov base (coverageCapabilitySet (fst (resolveCoverageCapabilities k ?opts base fs))) T K {base} {}
      (11 + 1539 * coverageEffortMultiplier (co_effort ?opts)) b"
    by (rule enumerateCoveragePlan_cases [OF assms(2,3)])
  have "int (length (entries (buildRunPlan b))) < defaultPlanEntryLimit"
    using buildRunPlan_ok(4) [OF cov] effort_multiplier [of "co_effort opts"] by (simp add: defaultPlanEntryLimit_def)
  with run buildRunPlan_ok(1) [OF cov] show thesis using that unfolding r by blast
qed

lemma portable_applied:
  assumes k: "permissive k" and base: "clean_abs base" "phys fs (butlast (elems base))" "inodes_ok fs" "absent fs (elems base)"
    and g: "basePath g = base" "is_ok (validateRunMode (runMode g))"
    and plan: "plan_ok base (\<lambda>cid. cid \<in> {coverageCapabilityHardlinks, coverageCapabilitySymlinks}) plan"
      "int (length (entries plan)) < defaultPlanEntryLimit"
  shows "\<exists>fs'. applyPrebuiltPlan k seeded g plan fs =
      ((\<lparr>appliedEntries = int (length (entries plan)),
         finalizedDirectories = int (length (names plannedEntryTypeDir (entries plan)))\<rparr>, None), fs') \<and>
    tree_there k seeded (elems base) (entries plan) fs' \<and>
    (\<forall>q. \<not> Go_FS.below (elems base) q \<longrightarrow> lookup fs' q = lookup fs q)"
proof -
  have "list_all (entry_ready seeded) (entries plan)"
    using plan(1) cov_entry_ready by (force simp: plan_ok_def list_all_iff)
  moreover have "\<forall>n. runMode g \<noteq> RunModeUnknown n" using g(2) by (auto simp: validateRunMode_def is_ok_def)
  ultimately show ?thesis
    using applyRunPlan_ok [of k g fs "\<lparr>injector = None\<rparr>" plan seeded] assms
    unfolding applyPrebuiltPlan_run by (auto simp: plan_ok_def defaultPlanEntryLimit_def)
qed

text \<open>
  C29: a deterministic coverage run without the Linux dimensions builds its whole plan. On a kernel
  that refuses nothing, for a legal effort and run mode, the default limit and a free base path whose parent is a
  real directory, the run succeeds: the metrics count every entry of the enumerated plan, the specification tells the
  two dimensions and the numbers of entries and groups, the tree on disk has the paths, types, contents, links, owners and
  times of the plan and nothing else, and nothing outside has changed. Of the modes only the nine permission bits arrive:
  the setuid, setgid and sticky classes of the coverage matrix are planned and end up as plain modes, contrary to the README.
\<close>

theorem RunDeterministicCoverage_builds:
  assumes "permissive k" and "portable opts" and "is_ok (validateDeterministicCoverageEffort (co_effort opts))"
    and "is_ok (validateRunMode (co_runMode opts))" and "co_planEntryLimit opts \<le> 0"
    and "clean_abs base" and "\<not> Contains base NUL"
    and "phys fs (butlast (elems base))" and "inodes_ok fs" and "absent fs (elems base)"
  shows "\<exists>spec m plan reports fs'. RunDeterministicCoverage k seeded base opts fs = ((Some spec, m, None), fs') \<and>
    enumerateCoveragePlan k base (normalizeDeterministicCoverageOptions opts) fs = ((Inr plan, reports), fs) \<and>
    cs_EnabledDimensions spec = map coverageCapabilityID_String [coverageCapabilityHardlinks, coverageCapabilitySymlinks] \<and>
    cs_PlannedEntries spec = int (length (entries plan)) \<and> Nodes m = cs_PlannedEntries spec \<and> AppliedEntries m = Nodes m \<and>
    HardlinkGroups m = int (length (planGroups plan)) \<and>
    FinalizedDirectories m = int (length (names plannedEntryTypeDir (entries plan))) \<and>
    tree_there k seeded (elems base) (entries plan) fs' \<and> permission_bits_only (entries plan) fs' \<and>
    (\<forall>q. \<not> Go_FS.below (elems base) q \<longrightarrow> lookup fs' q = lookup fs q)"
proof -
  let ?opts = "normalizeDeterministicCoverageOptions opts"
  let ?g = "(New base)\<lparr>runMode := co_runMode opts, planEntryLimit := defaultPlanEntryLimit\<rparr>"
  obtain plan reports where plan: "enumerateCoveragePlan k base ?opts fs = ((Inr plan, reports), fs)"
    "plan_ok base (\<lambda>cid. cid \<in> {coverageCapabilityHardlinks, coverageCapabilitySymlinks}) plan"
    "int (length (entries plan)) < defaultPlanEntryLimit"
    by (rule portable_cases [OF assms(2,6,7)])
  obtain fs' where run: "applyPrebuiltPlan k seeded ?g plan fs =
      ((\<lparr>appliedEntries = int (length (entries plan)),
         finalizedDirectories = int (length (names plannedEntryTypeDir (entries plan)))\<rparr>, None), fs')"
    "tree_there k seeded (elems base) (entries plan) fs'"
    "\<forall>q. \<not> Go_FS.below (elems base) q \<longrightarrow> lookup fs' q = lookup fs q"
    using portable_applied [OF assms(1,6,8-10) _ _ plan(2,3), of ?g seeded] assms(4) by (auto simp: New_def)
  have "reports = fst (resolveCoverageCapabilities k ?opts base fs)"
    using plan(1) by (auto simp: enumerateCoveragePlan_def split: prod.splits sum.splits)
  then have names: "coverageCapabilityEnabledNames reports = map coverageCapabilityID_String [coverageCapabilityHardlinks, coverageCapabilitySymlinks]"
    using portable_names [of ?opts] assms(2) by (simp add: portable_def)
  have "\<exists>u. validateDeterministicCoverageEffort (co_effort opts) = Inr u" "\<exists>u. validateRunMode (co_runMode opts) = Inr u"
    using assms(3,4) by (auto simp: is_ok_def split: sum.splits)
  then have "RunDeterministicCoverage k seeded base opts fs =
      ((Some (coverage_spec base ?opts reports plan), coverage_metrics plan \<lparr>appliedEntries = int (length (entries plan)),
         finalizedDirectories = int (length (names plannedEntryTypeDir (entries plan)))\<rparr>, None), fs')"
    using clean_abs_nonempty [OF assms(6)] plan(1,3) run(1) assms(5)
    by (auto simp: RunDeterministicCoverage_def Let_def plan_limit_def)
  then show ?thesis
    using plan(1) run(2,3) names tree_there_modes [OF run(2)]
    by (intro exI [of _ "coverage_spec base ?opts reports plan"] exI [of _ plan] exI [of _ reports] exI [of _ fs'] exI conjI)
      (auto simp: coverage_spec_def coverage_metrics_def RunMetrics0_def)
qed

definition portable_options :: DeterministicCoverageOptions where
  "portable_options =
     \<lparr>co_effort = DeterministicCoverageEffortLow, co_includeLinuxOnly = False, co_includePrivileged = True,
      co_planEntryLimit = 0, co_runMode = RunModeStrict\<rparr>"

theorem RunDeterministicCoverage_builds_witness:
  "\<exists>spec m fs'. RunDeterministicCoverage sample_kernel (\<lambda>s. []) ''/t'' portable_options sample_fs = ((Some spec, m, None), fs') \<and>
     AppliedEntries m = cs_PlannedEntries spec \<and> length (cs_EnabledDimensions spec) = 2"
proof -
  have "permissive sample_kernel" by (simp add: permissive_def sample_kernel_def)
  moreover have "portable portable_options" "is_ok (validateDeterministicCoverageEffort (co_effort portable_options))"
    "is_ok (validateRunMode (co_runMode portable_options))" "co_planEntryLimit portable_options \<le> 0"
    "clean_abs ''/t''" "\<not> Contains ''/t'' NUL" "phys sample_fs (butlast (elems ''/t''))" "inodes_ok sample_fs"
    "absent sample_fs (elems ''/t'')"
    unfolding portable_def by code_simp+
  ultimately show ?thesis
    using RunDeterministicCoverage_builds [of sample_kernel portable_options "''/t''" sample_fs "\<lambda>s. []"] by fastforce
qed

section \<open>The specification\<close>

text \<open>A file of the user that has the name of a probe.\<close>

definition probe_fs :: fsys where
  "probe_fs = sample_fs\<lparr>ents := ents sample_fs @ [([''b'', ''.randfiletree-coverage-xattr-probe''], 5)], nextino := 6\<rparr>"

definition linux_options :: DeterministicCoverageOptions where
  "linux_options =
     \<lparr>co_effort = DeterministicCoverageEffortLow, co_includeLinuxOnly = True, co_includePrivileged = False,
      co_planEntryLimit = 0, co_runMode = RunModeAppend\<rparr>"

lemma resolve_length: "length (fst (resolveCoverageCapabilities k opts base fs)) = length coverageCapabilityIDs"
proof -
  have "resolve_capabilities k opts base cids s = (r, s') \<Longrightarrow> length r = length cids" for cids s r s'
    by (induction cids arbitrary: s r s') (auto simp: Let_def split: prod.splits)
  then show ?thesis by (auto simp: resolveCoverageCapabilities_def split: prod.splits)
qed

lemma BuildDeterministicCoverageSpec_run:
  assumes "clean_abs base" "\<not> Contains base NUL" and "is_ok (validateDeterministicCoverageEffort (co_effort opts))"
  shows "\<exists>plan reports fs'. enumerateCoveragePlan k base (normalizeDeterministicCoverageOptions opts) fs = ((Inr plan, reports), fs') \<and>
    BuildDeterministicCoverageSpec k base opts fs =
      (Inr (coverage_spec base (normalizeDeterministicCoverageOptions opts) reports plan), fs') \<and>
    fs' = snd (resolveCoverageCapabilities k (normalizeDeterministicCoverageOptions opts) base fs)"
proof -
  let ?opts = "normalizeDeterministicCoverageOptions opts"
  obtain u where u: "validateDeterministicCoverageEffort (co_effort opts) = Inr u" using assms(3) by (auto simp: is_ok_def split: sum.splits)
  obtain b T K where run: "enumerateCoveragePlan k base ?opts fs = ((Inr (buildRunPlan b), fst (resolveCoverageCapabilities k ?opts base fs)),
      snd (resolveCoverageCapabilities k ?opts base fs))"
    by (rule enumerateCoveragePlan_cases [OF assms(1,2)])
  have "BuildDeterministicCoverageSpec k base opts fs =
      (Inr (coverage_spec base ?opts (fst (resolveCoverageCapabilities k ?opts base fs)) (buildRunPlan b)),
       snd (resolveCoverageCapabilities k ?opts base fs))"
    unfolding BuildDeterministicCoverageSpec_def Let_def run u using clean_abs_nonempty [OF assms(1)] by simp
  with run show ?thesis by blast
qed

text \<open>
  C35: \<^verbatim>\<open>BuildDeterministicCoverageSpec\<close> never fails for a legal effort and a clean absolute base path without
  NUL, on any kernel, and its counts are those of the plan that a run on this file system would apply. It leaves
  the file system alone when the Linux dimensions are off. When they are on it need not: two given file systems
  are examples, in one the probes create the missing base path, in the other they delete an existing file that
  has the name of the probe file.
\<close>

theorem BuildDeterministicCoverageSpec_effects:
  assumes "clean_abs base" and "\<not> Contains base NUL" and "is_ok (validateDeterministicCoverageEffort (co_effort opts))"
  shows "(\<exists>spec plan reports fs'. BuildDeterministicCoverageSpec k base opts fs = (Inr spec, fs') \<and>
      enumerateCoveragePlan k base (normalizeDeterministicCoverageOptions opts) fs = ((Inr plan, reports), fs') \<and>
      cs_PlannedEntries spec = int (length (entries plan)) \<and> cs_HardlinkGroups spec = int (length (planGroups plan)) \<and>
      length (cs_EnabledDimensions spec) + length (cs_SkippedDimensions spec) = length coverageCapabilityIDs \<and>
      (portable opts \<longrightarrow> fs' = fs)) \<and>
    (let fs' = snd (BuildDeterministicCoverageSpec sample_kernel ''/t'' linux_options sample_fs) in
      lookup sample_fs [''t''] = None \<and> lookup fs' [''t''] \<noteq> None) \<and>
    (let probe = [''b'', ''.randfiletree-coverage-xattr-probe''];
         fs' = snd (BuildDeterministicCoverageSpec sample_kernel ''/b'' linux_options probe_fs) in
      lookup probe_fs probe \<noteq> None \<and> lookup fs' probe = None)"
proof (intro conjI)
  let ?opts = "normalizeDeterministicCoverageOptions opts"
  obtain plan reports fs' where run: "enumerateCoveragePlan k base ?opts fs = ((Inr plan, reports), fs')"
    "BuildDeterministicCoverageSpec k base opts fs = (Inr (coverage_spec base ?opts reports plan), fs')"
    "fs' = snd (resolveCoverageCapabilities k ?opts base fs)"
    using BuildDeterministicCoverageSpec_run [OF assms] by blast
  have "reports = fst (resolveCoverageCapabilities k ?opts base fs)"
    using run(1) by (auto simp: enumerateCoveragePlan_def split: prod.splits sum.splits)
  then have "length reports = length coverageCapabilityIDs" by (simp add: resolve_length)
  then have "length (cs_EnabledDimensions (coverage_spec base ?opts reports plan)) +
      length (cs_SkippedDimensions (coverage_spec base ?opts reports plan)) = length coverageCapabilityIDs"
    using sum_length_filter_compl [of cr_enabled reports]
    by (simp add: coverage_spec_def coverageCapabilityEnabledNames_def coverageCapabilitySkipped_def)
  moreover have "portable opts \<longrightarrow> fs' = fs" using run(3) resolve_portable(1) by (simp add: portable_def)
  ultimately show "\<exists>spec plan reports fs'. BuildDeterministicCoverageSpec k base opts fs = (Inr spec, fs') \<and>
      enumerateCoveragePlan k base ?opts fs = ((Inr plan, reports), fs') \<and>
      cs_PlannedEntries spec = int (length (entries plan)) \<and> cs_HardlinkGroups spec = int (length (planGroups plan)) \<and>
      length (cs_EnabledDimensions spec) + length (cs_SkippedDimensions spec) = length coverageCapabilityIDs \<and>
      (portable opts \<longrightarrow> fs' = fs)"
    using run(1,2) by (intro exI conjI) (auto simp: coverage_spec_def)
  have ok: "is_ok (validateDeterministicCoverageEffort (co_effort linux_options))" "clean_abs ''/t''" "\<not> Contains ''/t'' NUL"
    "clean_abs ''/b''" "\<not> Contains ''/b'' NUL" by code_simp+
  have t: "snd (BuildDeterministicCoverageSpec sample_kernel ''/t'' linux_options sample_fs) =
      snd (resolveCoverageCapabilities sample_kernel (normalizeDeterministicCoverageOptions linux_options) ''/t'' sample_fs)"
    and b: "snd (BuildDeterministicCoverageSpec sample_kernel ''/b'' linux_options probe_fs) =
      snd (resolveCoverageCapabilities sample_kernel (normalizeDeterministicCoverageOptions linux_options) ''/b'' probe_fs)"
    using BuildDeterministicCoverageSpec_run [OF ok(2,3,1), of sample_kernel sample_fs]
      BuildDeterministicCoverageSpec_run [OF ok(4,5,1), of sample_kernel probe_fs] by auto
  show "let fs' = snd (BuildDeterministicCoverageSpec sample_kernel ''/t'' linux_options sample_fs) in
      lookup sample_fs [''t''] = None \<and> lookup fs' [''t''] \<noteq> None"
    unfolding t by code_simp
  show "let probe = [''b'', ''.randfiletree-coverage-xattr-probe''];
         fs' = snd (BuildDeterministicCoverageSpec sample_kernel ''/b'' linux_options probe_fs) in
      lookup probe_fs probe \<noteq> None \<and> lookup fs' probe = None"
    unfolding b by code_simp
qed

theorem BuildDeterministicCoverageSpec_effects_witness:
  "\<exists>spec. BuildDeterministicCoverageSpec sample_kernel ''/t'' portable_options sample_fs = (Inr spec, sample_fs) \<and>
     length (cs_EnabledDimensions spec) + length (cs_SkippedDimensions spec) = length coverageCapabilityIDs"
proof -
  have "clean_abs ''/t''" "\<not> Contains ''/t'' NUL" "is_ok (validateDeterministicCoverageEffort (co_effort portable_options))"
    "portable portable_options" unfolding portable_def by code_simp+
  then show ?thesis
    using BuildDeterministicCoverageSpec_effects [of "''/t''" portable_options sample_kernel sample_fs] by fastforce
qed

section \<open>The run of a generator\<close>

text \<open>The options of a run on behalf of the generator \<open>g\<close>.\<close>

definition complete_options :: "Generator \<Rightarrow> DeterministicCoverageOptions \<Rightarrow> DeterministicCoverageOptions" where
  "complete_options g opts =
     opts\<lparr>co_runMode := (if co_runMode opts = RunModeAppend then runMode g else co_runMode opts),
          co_planEntryLimit := (if co_planEntryLimit opts \<le> 0 then planEntryLimit g else co_planEntryLimit opts)\<rparr>"

text \<open>Applying a plan looks at the base path and the mode of the generator only.\<close>

lemma create_entries_cong:
  assumes "basePath g = basePath h" "runMode g = runMode h"
  shows "create_entries k seeded g i es c fs = create_entries k seeded h i es c fs"
proof -
  have check: "check_existing g = check_existing h" using assms by (simp add: check_existing_def fun_eq_iff)
  have "applyPlannedEntry k seeded g = applyPlannedEntry k seeded h"
    unfolding applyPlannedEntry_def fun_eq_iff check by simp
  then show ?thesis by (induction es arbitrary: i c fs) (simp_all split: prod.splits option.splits sum.splits)
qed

lemma applyPrebuiltPlan_cong:
  "basePath g = basePath h \<Longrightarrow> runMode g = runMode h \<Longrightarrow> applyPrebuiltPlan k seeded g = applyPrebuiltPlan k seeded h"
proof -
  assume g: "basePath g = basePath h" "runMode g = runMode h"
  then have clear: "clear_base k g = clear_base k h" by (simp add: clear_base_def split: RunMode.split)
  have create: "create_entries k seeded g = create_entries k seeded h" using create_entries_cong [OF g] by (simp add: fun_eq_iff)
  have run: "applyRunPlan k seeded g = applyRunPlan k seeded h" unfolding applyRunPlan_def fun_eq_iff clear create by simp
  show ?thesis unfolding applyPrebuiltPlan_def fun_eq_iff run by simp
qed

lemma enumerate_mode:
  "co_effort o1 = co_effort o2 \<Longrightarrow> co_includeLinuxOnly o1 = co_includeLinuxOnly o2 \<Longrightarrow>
   co_includePrivileged o1 = co_includePrivileged o2 \<Longrightarrow> enumerateCoveragePlan k base o1 fs = enumerateCoveragePlan k base o2 fs"
proof -
  assume o: "co_effort o1 = co_effort o2" "co_includeLinuxOnly o1 = co_includeLinuxOnly o2" "co_includePrivileged o1 = co_includePrivileged o2"
  have "resolve_capabilities k o1 base cids s = resolve_capabilities k o2 base cids s" for cids s
    by (induction cids arbitrary: s) (simp_all add: o Let_def split: prod.splits)
  then show ?thesis by (simp add: enumerateCoveragePlan_def resolveCoverageCapabilities_def o)
qed

text \<open>
  C34: a generator with an active deterministic coverage runs like \<^verbatim>\<open>RunDeterministicCoverage\<close> on its
  base path, with the run mode and the entry limit of the options completed from the generator, on every kernel
  and with the same effect on the file system, metrics and error. It draws nothing from the random source
  and consults no fault profile. As the zero value of the mode means the generator's, options that ask for the append mode
  do not override a generator in replace mode.
\<close>

theorem RunConfigured_coverage:
  assumes "basePath g \<noteq> []" and "is_ok (validateRunMode (co_runMode (complete_options g opts)))"
    and "validateFaultProfile faults = Inr ()"
  shows "RunConfigured k seeded (Some opts) g faults r fs =
    (case RunDeterministicCoverage k seeded (basePath g) (complete_options g opts) fs of
       ((spec, m, res), fs') \<Rightarrow> ((m, res), r, fs'))"
proof -
  let ?n = "normalizeDeterministicCoverageOptions opts" and ?c = "complete_options g opts"
  let ?m = "?n\<lparr>co_runMode := co_runMode ?c, co_planEntryLimit := co_planEntryLimit ?c\<rparr>"
  have c: "normalizeDeterministicCoverageOptions ?c = ?m" "co_effort ?c = co_effort opts"
    by (simp_all add: complete_options_def normalizeDeterministicCoverageOptions_def)
  have enum: "enumerateCoveragePlan k (basePath g) o1 fs = enumerateCoveragePlan k (basePath g) ?n fs"
    if "co_effort o1 = co_effort ?n" "co_includeLinuxOnly o1 = co_includeLinuxOnly ?n" "co_includePrivileged o1 = co_includePrivileged ?n" for o1
    using that by (rule enumerate_mode)
  have mode: "\<exists>u. validateRunMode (co_runMode ?c) = Inr u" using assms(2) by (auto simp: is_ok_def split: sum.splits)
  have app: "applyPrebuiltPlan k seeded (g\<lparr>runMode := co_runMode ?c, planEntryLimit := l\<rparr>) =
      applyPrebuiltPlan k seeded ((New (basePath g))\<lparr>runMode := co_runMode ?c, planEntryLimit := l\<rparr>)" for l
    by (rule applyPrebuiltPlan_cong) (simp_all add: New_def)
  have "runCoverage k seeded g opts fs =
    (case RunDeterministicCoverage k seeded (basePath g) ?c fs of ((spec, m, res), fs') \<Rightarrow> ((m, res), fs'))"
  proof (cases "validateDeterministicCoverageEffort (co_effort opts)")
    case (Inl e)
    then show ?thesis using assms(1) by (simp add: runCoverage_def RunDeterministicCoverage_def c Let_def)
  next
    case (Inr u)
    have same: "g\<lparr>planEntryLimit := l\<rparr> = g\<lparr>runMode := RunModeAppend, planEntryLimit := l\<rparr>" if "runMode g = RunModeAppend" for l
      using that by (cases g) simp
    obtain res caps fs' where E: "enumerateCoveragePlan k (basePath g) ?n fs = ((res, caps), fs')" by (metis prod.exhaust)
    have "runCoverage k seeded g opts fs =
      (case res of Inl e \<Rightarrow> ((RunMetrics0, Some (OperationFailed e)), fs')
       | Inr plan \<Rightarrow>
           if int (length (entries plan)) > plan_limit (co_planEntryLimit ?c)
           then ((RunMetrics0, Some (OperationFailed (Errorf ''planned limit'' (Some (Sentinel ErrPlanEntryLimitExceeded))))), fs')
           else (case applyPrebuiltPlan k seeded (g\<lparr>runMode := co_runMode ?c, planEntryLimit := plan_limit (co_planEntryLimit ?c)\<rparr>) plan fs' of
             ((st, applyErr), fs'') \<Rightarrow> ((coverage_metrics plan st, applyErr), fs'')))"
      using Inr enum E by (auto simp: runCoverage_def Let_def complete_options_def same split: sum.split)
    moreover have "enumerateCoveragePlan k (basePath g) ?m fs = ((res, caps), fs')" using enum [of ?m] E by simp
    ultimately show ?thesis
      using mode assms(1) Inr unfolding RunDeterministicCoverage_def c app
      by (auto simp: Let_def split: sum.splits prod.splits)
  qed
  then show ?thesis
    using assms(3) by (simp add: RunConfigured_def RunWithMetrics_def wrapE_def Let_def split: prod.splits)
qed

theorem RunConfigured_coverage_witness:
  "RunConfigured sample_kernel (\<lambda>s. []) (Some (portable_options\<lparr>co_runMode := RunModeAppend\<rparr>))
       ((New ''/t'')\<lparr>runMode := RunModeReplace\<rparr>) [] [] sample_fs =
     (case RunDeterministicCoverage sample_kernel (\<lambda>s. []) ''/t''
             (portable_options\<lparr>co_runMode := RunModeReplace, co_planEntryLimit := 100000\<rparr>) sample_fs of
        ((spec, m, res), fs') \<Rightarrow> ((m, res), [], fs'))"
proof -
  let ?g = "(New ''/t'')\<lparr>runMode := RunModeReplace\<rparr>" and ?o = "portable_options\<lparr>co_runMode := RunModeAppend\<rparr>"
  have "complete_options ?g ?o = portable_options\<lparr>co_runMode := RunModeReplace, co_planEntryLimit := 100000\<rparr>"
    by (simp add: complete_options_def portable_options_def New_def)
  moreover have "is_ok (validateRunMode (co_runMode (complete_options ?g ?o)))" by code_simp
  moreover have "validateFaultProfile [] = Inr ()" by code_simp
  moreover have "basePath ?g = ''/t''" by (simp add: New_def)
  ultimately show ?thesis using RunConfigured_coverage [of ?g ?o "[]" sample_kernel "\<lambda>s. []" "[]" sample_fs] by simp
qed

end
