(* ===== verification/Go_Float.thy ===== *)
theory Go_Float
  imports Generators Complex_Main
begin

text \<open>
  Go's \<^verbatim>\<open>float64\<close> as far as probabilities need it: a finite value is a rational number, and sums
  and quotients are rounded to 53 bits, to nearest and to even, with gradual underflow. With it
  the random choices by probability (\<^verbatim>\<open>vars.go\<close>, \<^verbatim>\<open>links.go\<close>, \<^verbatim>\<open>special.go\<close>, \<^verbatim>\<open>content_patterns.go\<close>).
  The sign of zero is left out; nothing here can see it.
\<close>

section \<open>Numbers\<close>

datatype float64 = NaN | Inf bool | Finite rat

definition pow2 :: "int \<Rightarrow> rat" where
  "pow2 e = (if 0 \<le> e then 2 ^ nat e else 1 / 2 ^ nat (- e))"

text \<open>The exponent \<open>e\<close> of a positive number, \<open>2^e \<le> x < 2^(e+1)\<close>.\<close>

function bit_length :: "int \<Rightarrow> int" where
  "bit_length n = (if n \<le> 0 then 0 else 1 + bit_length (n div 2))"
  by auto
termination by (relation "measure nat") auto

declare bit_length.simps [simp del]

definition exponent :: "rat \<Rightarrow> int" where
  "exponent x =
     (case quotient_of x of
        (p, q) \<Rightarrow> let e = bit_length p - bit_length q in if pow2 e \<le> x then e else e - 1)"

definition round_half_even :: "rat \<Rightarrow> int" where
  "round_half_even y =
     (let n = \<lfloor>y\<rfloor>; d = y - of_int n in
      if d < 1 / 2 then n else if d > 1 / 2 then n + 1 else if even n then n else n + 1)"

definition round64 :: "rat \<Rightarrow> float64" where
  "round64 x =
     (if x = 0 then Finite 0
      else let e = max (exponent \<bar>x\<bar> - 52) (- 1074);
               y = of_int (round_half_even (\<bar>x\<bar> / pow2 e)) * pow2 e in
        if 1024 \<le> exponent y then Inf (x < 0) else Finite (if x < 0 then - y else y))"

definition f_add :: "float64 \<Rightarrow> float64 \<Rightarrow> float64" where
  "f_add a b =
     (case (a, b) of
        (Finite x, Finite y) \<Rightarrow> round64 (x + y)
      | (NaN, _) \<Rightarrow> NaN
      | (_, NaN) \<Rightarrow> NaN
      | (Inf s, Inf t) \<Rightarrow> if s = t then Inf s else NaN
      | (Inf s, _) \<Rightarrow> Inf s
      | (_, Inf t) \<Rightarrow> Inf t)"

text \<open>Division by zero gives an infinity of the sign of the dividend, as for a positive zero.\<close>

definition f_div :: "float64 \<Rightarrow> float64 \<Rightarrow> float64" where
  "f_div a b =
     (case (a, b) of
        (Finite x, Finite y) \<Rightarrow>
          if y = 0 then (if x = 0 then NaN else Inf (x < 0)) else round64 (x / y)
      | (Inf s, Finite y) \<Rightarrow> Inf (s \<noteq> (y < 0))
      | (Finite x, Inf t) \<Rightarrow> Finite 0
      | _ \<Rightarrow> NaN)"

definition f_le :: "float64 \<Rightarrow> float64 \<Rightarrow> bool" where
  "f_le a b =
     (case (a, b) of
        (Finite x, Finite y) \<Rightarrow> x \<le> y
      | (NaN, _) \<Rightarrow> False
      | (_, NaN) \<Rightarrow> False
      | (Inf True, _) \<Rightarrow> True
      | (_, Inf False) \<Rightarrow> True
      | (_, Inf True) \<Rightarrow> False
      | (Inf False, _) \<Rightarrow> False)"

definition f_lt :: "float64 \<Rightarrow> float64 \<Rightarrow> bool" where
  "f_lt a b \<longleftrightarrow> a \<noteq> NaN \<and> b \<noteq> NaN \<and> \<not> f_le b a"

section \<open>Random choices\<close>

text \<open>\<^verbatim>\<open>r.Float64()\<close>: 53 random bits over \<open>2^53\<close>, always below 1.\<close>

definition Float64 :: "float64 gen" where
  "Float64 = bindS (Intn (2 ^ 53)) (\<lambda>v. returnS (Finite (of_int v / 2 ^ 53)))"

definition BooleanGeneratorProbabilityFlat :: "float64 \<Rightarrow> BooleanGenerator" where
  "BooleanGeneratorProbabilityFlat prob = bindS Float64 (\<lambda>v. returnS (f_lt v prob))"

text \<open>
  The three weighted choices have the same code. A Go map of probabilities is a list of bindings
  with distinct keys; \<open>code\<close> is the number by which the keys are sorted.
\<close>

definition positive_keys :: "('a \<Rightarrow> nat) \<Rightarrow> ('a \<times> float64) list \<Rightarrow> 'a list" where
  "positive_keys code probabilities =
     sort_key code (map fst (filter (\<lambda>p. \<not> f_le (snd p) (Finite 0)) probabilities))"

definition probability_of :: "('a \<times> float64) list \<Rightarrow> 'a \<Rightarrow> float64" where
  "probability_of probabilities x = (case map_of probabilities x of Some p \<Rightarrow> p | None \<Rightarrow> Finite 0)"

fun cumulate :: "('a \<Rightarrow> float64) \<Rightarrow> float64 \<Rightarrow> 'a list \<Rightarrow> ('a \<times> float64) list" where
  "cumulate share cumulative [] = []"
| "cumulate share cumulative (x # xs) =
     (let c = f_add cumulative (share x) in (x, c) # cumulate share c xs)"

definition weighted_table :: "('a \<Rightarrow> nat) \<Rightarrow> ('a \<times> float64) list \<Rightarrow> ('a \<times> float64) list" where
  "weighted_table code probabilities =
     (let xs = positive_keys code probabilities;
          total = foldl (\<lambda>t x. f_add t (probability_of probabilities x)) (Finite 0) xs in
      cumulate (\<lambda>x. f_div (probability_of probabilities x) total) (Finite 0) xs)"

definition weighted_choice :: "('a \<Rightarrow> nat) \<Rightarrow> ('a \<times> float64) list \<Rightarrow> 'a gen" where
  "weighted_choice code probabilities =
     (let weighted = weighted_table code probabilities in
      bindS Float64 (\<lambda>v.
      case find (\<lambda>w. f_le v (snd w)) weighted of
        Some w \<Rightarrow> returnS (fst w)
      | None \<Rightarrow> if weighted = [] then raiseS (Panic ''index out of range'') else returnS (fst (last weighted))))"

definition symlinkStrategyCode :: "SymlinkStrategy \<Rightarrow> nat" where
  "symlinkStrategyCode s =
     (case s of
        SymlinkStrategyAbsolute \<Rightarrow> 1 | SymlinkStrategyRelative \<Rightarrow> 2 | SymlinkStrategyDangling \<Rightarrow> 3
      | SymlinkStrategySelfReferential \<Rightarrow> 4 | SymlinkStrategyChained \<Rightarrow> 5 | SymlinkStrategyCycle \<Rightarrow> 6
      | SymlinkStrategyUnknown n \<Rightarrow> unat n)"

definition specialFileTypeCode :: "SpecialFileType \<Rightarrow> nat" where
  "specialFileTypeCode t =
     (case t of
        SpecialFileTypeFIFO \<Rightarrow> 1 | SpecialFileTypeSocket \<Rightarrow> 2 | SpecialFileTypeCharDevice \<Rightarrow> 3
      | SpecialFileTypeBlockDevice \<Rightarrow> 4 | SpecialFileTypeUnknown n \<Rightarrow> unat n)"

definition contentPatternCode :: "ContentPattern \<Rightarrow> nat" where
  "contentPatternCode p =
     (case p of
        ContentPatternDenseRandom \<Rightarrow> 1 | ContentPatternSparseHoles \<Rightarrow> 2
      | ContentPatternRepeatedBlocks \<Rightarrow> 3 | ContentPatternPartialRangeOverwrite \<Rightarrow> 4
      | ContentPatternUnknown n \<Rightarrow> unat n)"

definition SymlinkStrategyGeneratorProbabilityWeighted :: "(SymlinkStrategy \<times> float64) list \<Rightarrow> SymlinkStrategy gen" where
  "SymlinkStrategyGeneratorProbabilityWeighted = weighted_choice symlinkStrategyCode"

definition SpecialFileTypeGeneratorProbabilityWeighted :: "(SpecialFileType \<times> float64) list \<Rightarrow> SpecialFileType gen" where
  "SpecialFileTypeGeneratorProbabilityWeighted = weighted_choice specialFileTypeCode"

definition ContentPatternGeneratorProbabilityWeighted :: "(ContentPattern \<times> float64) list \<Rightarrow> ContentPattern gen" where
  "ContentPatternGeneratorProbabilityWeighted = weighted_choice contentPatternCode"

section \<open>Which probabilities are accepted\<close>

definition validateProbability :: "string \<Rightarrow> float64 \<Rightarrow> err + unit" where
  "validateProbability name probability =
     (case probability of
        NaN \<Rightarrow> Err (name @ '' must not be NaN'')
      | Inf s \<Rightarrow> Err (name @ '' must be finite'')
      | Finite x \<Rightarrow> if x < 0 \<or> x > 1 then Err (name @ '' must be within [0, 1]'') else Inr ())"

text \<open>The loop of the three checks, over the bindings in the order of the iteration.\<close>

fun validate_weights :: "('a \<Rightarrow> err + unit) \<Rightarrow> string \<Rightarrow> sentinel \<Rightarrow> ('a \<times> float64) list \<Rightarrow> float64 \<Rightarrow> err + unit" where
  "validate_weights valid name nonPositive [] sum0 =
     (if f_le sum0 (Finite 0) then Inl (Sentinel nonPositive) else Inr ())"
| "validate_weights valid name nonPositive ((x, probability) # rest) sum0 =
     bindE (valid x) (\<lambda>_.
       case probability of
         NaN \<Rightarrow> Err (name @ '' must not be NaN'')
       | Inf s \<Rightarrow> Err (name @ '' must be finite'')
       | Finite p \<Rightarrow> if p < 0 then Err (name @ '' must be >= 0'')
           else validate_weights valid name nonPositive rest (f_add sum0 probability))"

definition validateSymlinkStrategyProbabilities :: "(SymlinkStrategy \<times> float64) list \<Rightarrow> err + unit" where
  "validateSymlinkStrategyProbabilities probabilities =
     (if probabilities = [] then Inl (Sentinel ErrSymlinkStrategyProbabilitiesEmpty)
      else validate_weights validateSymlinkStrategy ''symlink strategy probability''
             ErrSymlinkStrategyProbabilitiesNonPositive probabilities (Finite 0))"

definition validateSpecialFileTypeProbabilities :: "(SpecialFileType \<times> float64) list \<Rightarrow> err + unit" where
  "validateSpecialFileTypeProbabilities probabilities =
     (if probabilities = [] then Inl (Sentinel ErrSpecialFileTypeProbabilitiesEmpty)
      else validate_weights validateSpecialFileType ''special file type probability''
             ErrSpecialFileTypeProbabilitiesNonPositive probabilities (Finite 0))"

definition validateContentPatternProbabilities :: "(ContentPattern \<times> float64) list \<Rightarrow> err + unit" where
  "validateContentPatternProbabilities probabilities =
     (if probabilities = [] then Inl (Sentinel ErrContentPatternProbabilitiesEmpty)
      else validate_weights validateContentPattern ''content pattern probability''
             ErrContentPatternProbabilitiesNonPositive probabilities (Finite 0))"

section \<open>What the choices return\<close>

lemma map_fst_cumulate [simp]: "map fst (cumulate share c xs) = xs"
  by (induction xs arbitrary: c) (simp_all add: Let_def)

lemma map_fst_table [simp]: "map fst (weighted_table code ps) = positive_keys code ps"
  by (simp add: weighted_table_def Let_def)

lemma set_positive_keys: "set (positive_keys code ps) = {x. \<exists>p. (x, p) \<in> set ps \<and> \<not> f_le p (Finite 0)}"
  by (force simp: positive_keys_def)

lemma accepted_weights:
  assumes "validate_weights valid name nonPositive ps s = Inr ()"
  shows "\<forall>(x, p) \<in> set ps. valid x = Inr () \<and> (\<exists>q \<ge> 0. p = Finite q)"
    and "s = Finite 0 \<Longrightarrow> \<exists>(x, p) \<in> set ps. \<not> f_le p (Finite 0)"
proof -
  show "\<forall>(x, p) \<in> set ps. valid x = Inr () \<and> (\<exists>q \<ge> 0. p = Finite q)"
    using assms
    by (induction valid name nonPositive ps s rule: validate_weights.induct)
      (auto split: float64.splits if_splits simp: bindE_eq_Inr)
  have "s = Finite 0 \<longrightarrow> (\<exists>(x, p) \<in> set ps. \<not> f_le p (Finite 0))"
    using assms
  proof (induction valid name nonPositive ps s rule: validate_weights.induct)
    case (2 valid name nonPositive x probability rest s)
    obtain q where q: "probability = Finite q" "0 \<le> q" "validate_weights valid name nonPositive rest (f_add s probability) = Inr ()"
      using 2(2) by (auto split: float64.splits if_splits simp: bindE_eq_Inr)
    show ?case
    proof (cases "q = 0")
      case True
      then have "s = Finite 0 \<longrightarrow> f_add s probability = Finite 0" using q(1) by (simp add: f_add_def round64_def)
      then show ?thesis using 2 q True by (auto split: float64.splits if_splits simp: bindE_eq_Inr)
    next
      case False
      then have "\<not> f_le probability (Finite 0)" using q(1,2) by (simp add: f_le_def)
      then show ?thesis by auto
    qed
  qed (auto simp: f_le_def split: if_splits)
  then show "s = Finite 0 \<Longrightarrow> \<exists>(x, p) \<in> set ps. \<not> f_le p (Finite 0)" by blast
qed

lemma weighted_choice_table:
  assumes "positive_keys code ps \<noteq> []"
  shows "gives (weighted_choice code ps) (\<lambda>x. x \<in> set (positive_keys code ps))"
    and "weighted_choice code ps r \<noteq> (Inl e, r')"
proof -
  have ne: "weighted_table code ps \<noteq> []" using assms map_fst_table [of code ps] by force
  have mem: "fst w \<in> set (positive_keys code ps)" if "w \<in> set (weighted_table code ps)" for w
    using that map_fst_table [of code ps] by (metis image_eqI list.set_map)
  have pick: "case find (\<lambda>w. f_le v (snd w)) (weighted_table code ps) of
      Some w \<Rightarrow> fst w \<in> set (positive_keys code ps) | None \<Rightarrow> True" for v
  proof (cases "find (\<lambda>w. f_le v (snd w)) (weighted_table code ps)")
    case (Some w)
    then have "w \<in> set (weighted_table code ps)" by (metis find_Some_iff nth_mem)
    then show ?thesis using Some mem by simp
  qed simp
  show "gives (weighted_choice code ps) (\<lambda>x. x \<in> set (positive_keys code ps))"
    unfolding weighted_choice_def Let_def
  proof (rule gives_bind [OF gives_any])
    fix v
    have "fst (last (weighted_table code ps)) \<in> set (positive_keys code ps)" using ne mem by simp
    then show "gives (case find (\<lambda>w. f_le v (snd w)) (weighted_table code ps) of
        Some w \<Rightarrow> returnS (fst w)
      | None \<Rightarrow> if weighted_table code ps = [] then raiseS (Panic ''index out of range'')
          else returnS (fst (last (weighted_table code ps)))) (\<lambda>x. x \<in> set (positive_keys code ps))"
      using pick [of v] ne by (cases "find (\<lambda>w. f_le v (snd w)) (weighted_table code ps)") (simp_all add: gives_return)
  qed
  show "weighted_choice code ps r \<noteq> (Inl e, r')"
    using ne
    by (auto simp: weighted_choice_def Float64_def Intn_def Let_def bindS_def returnS_def split: prod.splits option.splits)
qed

lemma positive_keys_accepted:
  assumes "validate_weights valid name nonPositive ps (Finite 0) = Inr ()"
  shows "positive_keys code ps \<noteq> []" and "x \<in> set (positive_keys code ps) \<Longrightarrow> valid x = Inr ()"
proof -
  have "\<exists>x. x \<in> set (positive_keys code ps)"
    using accepted_weights(2) [OF assms refl] unfolding set_positive_keys by auto
  then show "positive_keys code ps \<noteq> []" by auto
  show "x \<in> set (positive_keys code ps) \<Longrightarrow> valid x = Inr ()"
    using accepted_weights(1) [OF assms] unfolding set_positive_keys by blast
qed

text \<open>
  C38: the choice of a symlink strategy by accepted probabilities never fails, whatever the rounding of
  the cumulated shares: it returns one of the strategies with a positive probability.
\<close>

theorem SymlinkStrategy_weighted_choice:
  assumes "validateSymlinkStrategyProbabilities probabilities = Inr ()"
  shows "\<exists>s p. fst (SymlinkStrategyGeneratorProbabilityWeighted probabilities r) = Inr s \<and>
    (s, Finite p) \<in> set probabilities \<and> 0 < p \<and> is_ok (validateSymlinkStrategy s)"
proof -
  have w: "validate_weights validateSymlinkStrategy ''symlink strategy probability''
      ErrSymlinkStrategyProbabilitiesNonPositive probabilities (Finite 0) = Inr ()"
    using assms by (simp add: validateSymlinkStrategyProbabilities_def split: if_splits)
  let ?code = symlinkStrategyCode
  note ne = positive_keys_accepted(1) [OF w, of ?code]
  obtain res r' where run: "weighted_choice ?code probabilities r = (res, r')" by fastforce
  then obtain s where s: "res = Inr s" using weighted_choice_table(2) [OF ne] by (cases res) auto
  then have m: "s \<in> set (positive_keys ?code probabilities)"
    using weighted_choice_table(1) [OF ne] run unfolding gives_def by blast
  then obtain p where p: "(s, p) \<in> set probabilities" "\<not> f_le p (Finite 0)" unfolding set_positive_keys by blast
  then obtain q where "p = Finite q" using accepted_weights(1) [OF w] by blast
  then show ?thesis
    using p run s positive_keys_accepted(2) [OF w m]
    by (auto simp: SymlinkStrategyGeneratorProbabilityWeighted_def f_le_def)
qed

theorem SymlinkStrategy_weighted_choice_witness:
  "\<exists>s p. fst (SymlinkStrategyGeneratorProbabilityWeighted
       [(SymlinkStrategyCycle, Finite 0), (SymlinkStrategyDangling, Finite (1 / 10)), (SymlinkStrategyRelative, Finite 3)]
       [2 ^ 53 - 1]) = Inr s \<and>
     (s, Finite p) \<in> set [(SymlinkStrategyCycle, Finite 0), (SymlinkStrategyDangling, Finite (1 / 10)), (SymlinkStrategyRelative, Finite 3)] \<and>
     0 < p \<and> is_ok (validateSymlinkStrategy s)"
proof -
  have "validateSymlinkStrategyProbabilities
    [(SymlinkStrategyCycle, Finite 0), (SymlinkStrategyDangling, Finite (1 / 10)), (SymlinkStrategyRelative, Finite 3)] = Inr ()"
    by code_simp
  from SymlinkStrategy_weighted_choice [OF this, of "[2 ^ 53 - 1]"] show ?thesis .
qed

end
