(* ===== verification/Options.thy ===== *)
theory Options
  imports Go_Float Plan_Total Coverage_Capabilities
begin

text \<open>
  The options of a generator (\<^verbatim>\<open>options.go\<close>): each \<^verbatim>\<open>With...\<close> function, the checks they make, and
  \<^verbatim>\<open>Configure\<close>, which applies a list of them to a copy of the generator. The last sections show
  that a generator set up from the ready-made options plans without errors of its own.
\<close>

section \<open>The configured generator\<close>

text \<open>
  The fields of \<^verbatim>\<open>Generator\<close> beside the plan's configuration: \<^verbatim>\<open>seed\<close>, \<^verbatim>\<open>rndSrc\<close>, and
  \<^verbatim>\<open>coverageActive\<close> with \<^verbatim>\<open>coverageOptions\<close> (\<^const>\<open>None\<close> when not active).
  The argument \<open>seeded\<close> is \<^verbatim>\<open>rand.New(rand.NewSource(seed))\<close>.
\<close>

record gconfig =
  cfg_generator :: Generator
  cfg_seed :: int
  cfg_rndSrc :: rng
  cfg_coverage :: "DeterministicCoverageOptions option"

type_synonym Option = "gconfig \<Rightarrow> err + gconfig"

definition defaultSeed :: int where
  "defaultSeed = 1"

definition NewConfig :: "(int \<Rightarrow> rng) \<Rightarrow> string \<Rightarrow> gconfig" where
  "NewConfig seeded path =
     \<lparr>cfg_generator = New path, cfg_seed = defaultSeed, cfg_rndSrc = seeded defaultSeed, cfg_coverage = None\<rparr>"

text \<open>The loop of \<^verbatim>\<open>Configure\<close> over the options that are left, on the copy of the generator.\<close>

fun apply_options :: "nat \<Rightarrow> Option option list \<Rightarrow> Option" where
  "apply_options i [] next_cfg = Inr next_cfg"
| "apply_options i (None # opts) next_cfg = Err (''option at index '' @ show_nat i @ '' is nil'')"
| "apply_options i (Some opt # opts) next_cfg =
     (case opt next_cfg of
        Inl e \<Rightarrow> Inl (Errorf (''failed to apply option at index '' @ show_nat i) (Some e))
      | Inr c \<Rightarrow> apply_options (Suc i) opts c)"

text \<open>The error and the generator afterwards; a nil generator stays nil.\<close>

definition Configure :: "Option option list \<Rightarrow> gconfig option \<Rightarrow> err option \<times> gconfig option" where
  "Configure opts g =
     (case g of
        None \<Rightarrow> (Some (Sentinel ErrNilGenerator), None)
      | Some c \<Rightarrow>
          (case apply_options 0 opts c of
             Inl e \<Rightarrow> (Some e, g)
           | Inr c' \<Rightarrow> (None, Some c')))"

definition NewWithOptions :: "(int \<Rightarrow> rng) \<Rightarrow> string \<Rightarrow> Option option list \<Rightarrow> err + gconfig" where
  "NewWithOptions seeded path opts =
     (case Configure opts (Some (NewConfig seeded path)) of
        (Some e, _) \<Rightarrow> Inl e
      | (None, None) \<Rightarrow> Inl (Sentinel ErrNilGenerator)
      | (None, Some c) \<Rightarrow> Inr c)"

section \<open>Checks\<close>

text \<open>The ten checks of a callback have the same code for ten types.\<close>

definition validateGenerator :: "string \<Rightarrow> 'a option \<Rightarrow> err + unit" where
  "validateGenerator name gen = (if gen = None then Err (name @ '' must not be nil'') else Inr ())"

definition validateIntRange :: "string \<Rightarrow> int \<Rightarrow> int \<Rightarrow> err + unit" where
  "validateIntRange name mn mx =
     (if mn < 0 then Err (name @ '' minimum must be >= 0'')
      else if mx \<le> mn then Err (name @ '' maximum must be > minimum'')
      else Inr ())"

definition validateContentLogicalSizeRange :: "string \<Rightarrow> int \<Rightarrow> int \<Rightarrow> err + unit" where
  "validateContentLogicalSizeRange name mn mx =
     (if mn < 0 then Err (name @ '' minimum must be >= 0'')
      else if mx < 0 then Err (name @ '' maximum must be >= 0'')
      else if mx \<le> mn then Err (name @ '' maximum must be > minimum'')
      else Inr ())"

text \<open>A fixed value must not be negative.\<close>

definition fixed_number :: "string \<Rightarrow> int \<Rightarrow> err + unit" where
  "fixed_number name n = (if n < 0 then Err (name @ '' must be >= 0'') else Inr ())"

text \<open>An option that makes a check and then sets fields.\<close>

definition checked :: "err + unit \<Rightarrow> (Generator \<Rightarrow> Generator) \<Rightarrow> Option" where
  "checked check f c = bindE check (\<lambda>_. Inr (c\<lparr>cfg_generator := f (cfg_generator c)\<rparr>))"

section \<open>Options of the run\<close>

definition WithSeed :: "(int \<Rightarrow> rng) \<Rightarrow> int \<Rightarrow> Option" where
  "WithSeed seeded sd c = Inr (c\<lparr>cfg_seed := sd, cfg_rndSrc := seeded sd\<rparr>)"

definition WithRunMode :: "RunMode \<Rightarrow> Option" where
  "WithRunMode mode = checked (validateRunMode mode) (\<lambda>g. g\<lparr>runMode := mode\<rparr>)"

definition WithPlanEntryLimit :: "int \<Rightarrow> Option" where
  "WithPlanEntryLimit limit =
     checked (if limit \<le> 0 then Inl (Sentinel ErrPlanEntryLimitInvalid) else Inr ()) (\<lambda>g. g\<lparr>planEntryLimit := limit\<rparr>)"

definition WithDeterministicCoverage :: "DeterministicCoverageOptions \<Rightarrow> Option" where
  "WithDeterministicCoverage opts c =
     bindE (validateDeterministicCoverageEffort (co_effort opts)) (\<lambda>_. Inr (c\<lparr>cfg_coverage := Some opts\<rparr>))"

section \<open>Options of names, modes and counts\<close>

definition WithDirNameGenerator :: "StringGenerator option \<Rightarrow> Option" where
  "WithDirNameGenerator gen =
     checked (validateGenerator ''directory name generator'' gen) (\<lambda>g. g\<lparr>dirNameGen := gen\<rparr>)"

definition WithDirNameLengthGenerator :: "NumberGenerator option \<Rightarrow> Option" where
  "WithDirNameLengthGenerator gen =
     checked (validateGenerator ''directory name length generator'' gen) (\<lambda>g. g\<lparr>dirNameLenGen := gen\<rparr>)"

definition WithDirModeGenerator :: "FileModeGenerator option \<Rightarrow> Option" where
  "WithDirModeGenerator gen =
     checked (validateGenerator ''directory mode generator'' gen) (\<lambda>g. g\<lparr>dirModeGen := gen\<rparr>)"

definition WithFilesPerDirectoryGenerator :: "NumberGenerator option \<Rightarrow> Option" where
  "WithFilesPerDirectoryGenerator gen =
     checked (validateGenerator ''files-per-directory generator'' gen) (\<lambda>g. g\<lparr>nFilesInDirGen := gen\<rparr>)"

definition WithDirectoriesPerDirectoryGenerator :: "NumberGenerator option \<Rightarrow> Option" where
  "WithDirectoriesPerDirectoryGenerator gen =
     checked (validateGenerator ''directories-per-directory generator'' gen) (\<lambda>g. g\<lparr>nDirsInDirGen := gen\<rparr>)"

definition WithFileNameGenerator :: "StringGenerator option \<Rightarrow> Option" where
  "WithFileNameGenerator gen =
     checked (validateGenerator ''file name generator'' gen) (\<lambda>g. g\<lparr>fileNameGen := gen\<rparr>)"

definition WithFileNameLengthGenerator :: "NumberGenerator option \<Rightarrow> Option" where
  "WithFileNameLengthGenerator gen =
     checked (validateGenerator ''file name length generator'' gen) (\<lambda>g. g\<lparr>fileNameLenGen := gen\<rparr>)"

definition WithFileModeGenerator :: "FileModeGenerator option \<Rightarrow> Option" where
  "WithFileModeGenerator gen =
     checked (validateGenerator ''file mode generator'' gen) (\<lambda>g. g\<lparr>fileModeGen := gen\<rparr>)"

definition WithDataGenerator :: "DataGenerator option \<Rightarrow> Option" where
  "WithDataGenerator gen = checked (validateGenerator ''data generator'' gen) (\<lambda>g. g\<lparr>dataGen := gen\<rparr>)"

definition WithPathDepthGenerator :: "NumberGenerator option \<Rightarrow> Option" where
  "WithPathDepthGenerator gen =
     checked (validateGenerator ''path depth generator'' gen) (\<lambda>g. g\<lparr>pathDepthGen := gen\<rparr>)"

definition WithByteFileNameGenerator :: "StringGenerator option \<Rightarrow> Option" where
  "WithByteFileNameGenerator gen =
     checked (validateGenerator ''byte file name generator'' gen) (\<lambda>g. g\<lparr>byteFileNameGen := gen\<rparr>)"

definition WithByteDirNameGenerator :: "StringGenerator option \<Rightarrow> Option" where
  "WithByteDirNameGenerator gen =
     checked (validateGenerator ''byte directory name generator'' gen) (\<lambda>g. g\<lparr>byteDirNameGen := gen\<rparr>)"

definition WithDirNameLengthRange :: "int \<Rightarrow> int \<Rightarrow> Option" where
  "WithDirNameLengthRange mn mx =
     checked (validateIntRange ''directory name length range'' mn mx)
       (\<lambda>g. g\<lparr>dirNameLenGen := Some (NumberGeneratorRandomFlat mn mx)\<rparr>)"

definition WithFileNameLengthRange :: "int \<Rightarrow> int \<Rightarrow> Option" where
  "WithFileNameLengthRange mn mx =
     checked (validateIntRange ''file name length range'' mn mx)
       (\<lambda>g. g\<lparr>fileNameLenGen := Some (NumberGeneratorRandomFlat mn mx)\<rparr>)"

definition WithFilesPerDirectoryRange :: "int \<Rightarrow> int \<Rightarrow> Option" where
  "WithFilesPerDirectoryRange mn mx =
     checked (validateIntRange ''files-per-directory range'' mn mx)
       (\<lambda>g. g\<lparr>nFilesInDirGen := Some (NumberGeneratorRandomFlat mn mx)\<rparr>)"

definition WithDirectoriesPerDirectoryRange :: "int \<Rightarrow> int \<Rightarrow> Option" where
  "WithDirectoriesPerDirectoryRange mn mx =
     checked (validateIntRange ''directories-per-directory range'' mn mx)
       (\<lambda>g. g\<lparr>nDirsInDirGen := Some (NumberGeneratorRandomFlat mn mx)\<rparr>)"

definition WithDataLengthRange :: "int \<Rightarrow> int \<Rightarrow> Option" where
  "WithDataLengthRange mn mx =
     checked (validateIntRange ''data length range'' mn mx)
       (\<lambda>g. g\<lparr>dataGen := Some (DataGeneratorRandom (NumberGeneratorRandomFlat mn mx))\<rparr>)"

section \<open>Options of content patterns\<close>

definition WithContentPatternGenerator :: "ContentPattern gen option \<Rightarrow> Option" where
  "WithContentPatternGenerator gen =
     checked (validateGenerator ''content pattern generator'' gen) (\<lambda>g. g\<lparr>contentPatternGen := gen\<rparr>)"

definition WithContentPattern :: "ContentPattern \<Rightarrow> Option" where
  "WithContentPattern pattern =
     checked (validateContentPattern pattern) (\<lambda>g. g\<lparr>contentPatternGen := Some (returnS pattern)\<rparr>)"

definition WithContentPatternProbabilities :: "(ContentPattern \<times> float64) list \<Rightarrow> Option" where
  "WithContentPatternProbabilities probabilities =
     checked (validateContentPatternProbabilities probabilities)
       (\<lambda>g. g\<lparr>contentPatternGen := Some (ContentPatternGeneratorProbabilityWeighted probabilities)\<rparr>)"

definition WithContentLogicalSizeGenerator :: "NumberGenerator option \<Rightarrow> Option" where
  "WithContentLogicalSizeGenerator gen =
     checked (validateGenerator ''content logical size generator'' gen) (\<lambda>g. g\<lparr>contentLogicalSizeGen := gen\<rparr>)"

definition WithContentLogicalSize :: "int \<Rightarrow> Option" where
  "WithContentLogicalSize sz =
     checked (fixed_number ''content logical size'' sz)
       (\<lambda>g. g\<lparr>contentLogicalSizeGen := Some (NumberGeneratorConstant sz)\<rparr>)"

definition WithContentLogicalSizeRange :: "int \<Rightarrow> int \<Rightarrow> Option" where
  "WithContentLogicalSizeRange mn mx =
     checked (validateContentLogicalSizeRange ''content logical size range'' mn mx)
       (\<lambda>g. g\<lparr>contentLogicalSizeGen := Some (NumberGeneratorRandomFlat mn mx)\<rparr>)"

section \<open>Options of metadata\<close>

definition WithOwnershipGenerators :: "NumberGenerator option \<Rightarrow> NumberGenerator option \<Rightarrow> Option" where
  "WithOwnershipGenerators uidGen gidGen =
     checked (bindE (validateGenerator ''ownership uid generator'' uidGen) (\<lambda>_.
              validateGenerator ''ownership gid generator'' gidGen))
       (\<lambda>g. g\<lparr>ownershipUIDGen := uidGen, ownershipGIDGen := gidGen\<rparr>)"

definition WithOwnership :: "int \<Rightarrow> int \<Rightarrow> Option" where
  "WithOwnership uid gid =
     checked (bindE (fixed_number ''ownership uid'' uid) (\<lambda>_. fixed_number ''ownership gid'' gid))
       (\<lambda>g. g\<lparr>ownershipUIDGen := Some (NumberGeneratorConstant uid),
              ownershipGIDGen := Some (NumberGeneratorConstant gid)\<rparr>)"

definition WithTimestampGenerators :: "time gen option \<Rightarrow> time gen option \<Rightarrow> Option" where
  "WithTimestampGenerators aGen mGen =
     checked (bindE (validateGenerator ''atime generator'' aGen) (\<lambda>_. validateGenerator ''mtime generator'' mGen))
       (\<lambda>g. g\<lparr>atimeGen := aGen, mtimeGen := mGen\<rparr>)"

definition WithTimestamps :: "time \<Rightarrow> time \<Rightarrow> Option" where
  "WithTimestamps atime mtime =
     checked (Inr ())
       (\<lambda>g. g\<lparr>atimeGen := Some (TimestampGeneratorConstant atime),
              mtimeGen := Some (TimestampGeneratorConstant mtime)\<rparr>)"

text \<open>The loop that replaces the generators of a name and says whether there was one.\<close>

fun replace_xattr :: "string \<Rightarrow> DataGenerator option \<Rightarrow> xattrValueGeneratorConfig list
    \<Rightarrow> xattrValueGeneratorConfig list \<times> bool" where
  "replace_xattr name gen [] = ([], False)"
| "replace_xattr name gen (cfg # cfgs) =
     (case replace_xattr name gen cfgs of
        (rest, replaced) \<Rightarrow>
          if xc_name cfg = name then (\<lparr>xc_name = name, xc_valueGen = gen\<rparr> # rest, True)
          else (cfg # rest, replaced))"

definition WithXAttrValueGenerator :: "string \<Rightarrow> DataGenerator option \<Rightarrow> Option" where
  "WithXAttrValueGenerator name gen c =
     bindE (validateGenerator ''xattr value generator'' gen) (\<lambda>_.
     bindE (validateXAttrName name) (\<lambda>normalizedName.
       checked (Inr ())
         (\<lambda>g. case replace_xattr normalizedName gen (xattrValueGens g) of
            (cfgs, replaced) \<Rightarrow>
              g\<lparr>xattrValueGens :=
                sort_key xc_name
                  (if replaced then cfgs else cfgs @ [\<lparr>xc_name = normalizedName, xc_valueGen = gen\<rparr>])\<rparr>) c))"

definition WithXAttr :: "string \<Rightarrow> 8 word list \<Rightarrow> Option" where
  "WithXAttr name value = WithXAttrValueGenerator name (Some (DataGeneratorFixed value))"

fun validate_names :: "string list \<Rightarrow> err + string list" where
  "validate_names [] = Inr []"
| "validate_names (name # others) =
     bindE (validateXAttrName name) (\<lambda>normalizedName.
     bindE (validate_names others) (\<lambda>rest. Inr (normalizedName # rest)))"

definition WithXAttrsFixed :: "8 word list gomap \<Rightarrow> Option" where
  "WithXAttrsFixed xs c =
     (if xs = [] then checked (Inr ()) (\<lambda>g. g\<lparr>xattrValueGens := []\<rparr>) c
      else bindE (validate_names (keys xs)) (\<lambda>valid.
        checked (Inr ())
          (\<lambda>g. g\<lparr>xattrValueGens :=
             map (\<lambda>name. \<lparr>xc_name = name,
                    xc_valueGen = Some (DataGeneratorFixed (case map_of xs name of None \<Rightarrow> [] | Some v \<Rightarrow> v))\<rparr>)
               (sort_strings valid)\<rparr>) c))"

definition WithTrustedXAttrNamespace :: "bool \<Rightarrow> Option" where
  "WithTrustedXAttrNamespace enabled = checked (Inr ()) (\<lambda>g. g\<lparr>xattrAllowTrustedNamespace := enabled\<rparr>)"

definition WithSecurityXAttrNamespace :: "bool \<Rightarrow> Option" where
  "WithSecurityXAttrNamespace enabled = checked (Inr ()) (\<lambda>g. g\<lparr>xattrAllowSecurityNamespace := enabled\<rparr>)"

definition WithACLGenerator :: "string list gen option \<Rightarrow> Option" where
  "WithACLGenerator gen = checked (validateGenerator ''ACL generator'' gen) (\<lambda>g. g\<lparr>aclEntriesGen := gen\<rparr>)"

definition WithACL :: "string list \<Rightarrow> Option" where
  "WithACL acl = WithACLGenerator (Some (ACLGeneratorFixed acl))"

section \<open>Options of links and special files\<close>

definition WithSymlinkGenerator :: "BooleanGenerator option \<Rightarrow> Option" where
  "WithSymlinkGenerator gen = checked (validateGenerator ''symlink generator'' gen) (\<lambda>g. g\<lparr>symlinkProbGen := gen\<rparr>)"

definition WithRelativeSymlinkGenerator :: "BooleanGenerator option \<Rightarrow> Option" where
  "WithRelativeSymlinkGenerator gen =
     checked (validateGenerator ''relative symlink generator'' gen) (\<lambda>g. g\<lparr>symlinkRelProbGen := gen\<rparr>)"

definition WithHardlinkGenerator :: "BooleanGenerator option \<Rightarrow> Option" where
  "WithHardlinkGenerator gen =
     checked (validateGenerator ''hardlink generator'' gen) (\<lambda>g. g\<lparr>hardlinkProbGen := gen\<rparr>)"

definition WithSpecialFileGenerator :: "BooleanGenerator option \<Rightarrow> Option" where
  "WithSpecialFileGenerator gen =
     checked (validateGenerator ''special file generator'' gen) (\<lambda>g. g\<lparr>specialFileProbGen := gen\<rparr>)"

definition WithSpecialFileTypeGenerator :: "SpecialFileType gen option \<Rightarrow> Option" where
  "WithSpecialFileTypeGenerator gen =
     checked (validateGenerator ''special file type generator'' gen) (\<lambda>g. g\<lparr>specialFileTypeGen := gen\<rparr>)"

definition WithSpecialFileTypeProbabilities :: "(SpecialFileType \<times> float64) list \<Rightarrow> Option" where
  "WithSpecialFileTypeProbabilities probabilities =
     checked (validateSpecialFileTypeProbabilities probabilities)
       (\<lambda>g. g\<lparr>specialFileTypeGen := Some (SpecialFileTypeGeneratorProbabilityWeighted probabilities)\<rparr>)"

definition WithSpecialDeviceNumberGenerators :: "NumberGenerator option \<Rightarrow> NumberGenerator option \<Rightarrow> Option" where
  "WithSpecialDeviceNumberGenerators majorGen minorGen =
     checked (bindE (validateGenerator ''special device major generator'' majorGen) (\<lambda>_.
              validateGenerator ''special device minor generator'' minorGen))
       (\<lambda>g. g\<lparr>specialDeviceMajorGen := majorGen, specialDeviceMinorGen := minorGen\<rparr>)"

definition WithSpecialDeviceNumbers :: "int \<Rightarrow> int \<Rightarrow> Option" where
  "WithSpecialDeviceNumbers major minor =
     checked (bindE (fixed_number ''special device major'' major) (\<lambda>_. fixed_number ''special device minor'' minor))
       (\<lambda>g. g\<lparr>specialDeviceMajorGen := Some (NumberGeneratorConstant major),
              specialDeviceMinorGen := Some (NumberGeneratorConstant minor)\<rparr>)"

definition WithSymlinkStrategyGenerator :: "SymlinkStrategy gen option \<Rightarrow> Option" where
  "WithSymlinkStrategyGenerator gen =
     checked (validateGenerator ''symlink strategy generator'' gen) (\<lambda>g. g\<lparr>symlinkStrategyGen := gen\<rparr>)"

definition WithSymlinkStrategyProbabilities :: "(SymlinkStrategy \<times> float64) list \<Rightarrow> Option" where
  "WithSymlinkStrategyProbabilities probabilities =
     checked (validateSymlinkStrategyProbabilities probabilities)
       (\<lambda>g. g\<lparr>symlinkStrategyGen := Some (SymlinkStrategyGeneratorProbabilityWeighted probabilities)\<rparr>)"

definition WithSymlinkProbability :: "float64 \<Rightarrow> Option" where
  "WithSymlinkProbability probability =
     checked (validateProbability ''symlink probability'' probability)
       (\<lambda>g. g\<lparr>symlinkProbGen := Some (BooleanGeneratorProbabilityFlat probability)\<rparr>)"

definition WithRelativeSymlinkProbability :: "float64 \<Rightarrow> Option" where
  "WithRelativeSymlinkProbability probability =
     checked (validateProbability ''relative symlink probability'' probability)
       (\<lambda>g. g\<lparr>symlinkRelProbGen := Some (BooleanGeneratorProbabilityFlat probability)\<rparr>)"

definition WithHardlinkProbability :: "float64 \<Rightarrow> Option" where
  "WithHardlinkProbability probability =
     checked (validateProbability ''hardlink probability'' probability)
       (\<lambda>g. g\<lparr>hardlinkProbGen := Some (BooleanGeneratorProbabilityFlat probability)\<rparr>)"

definition WithSpecialFileProbability :: "float64 \<Rightarrow> Option" where
  "WithSpecialFileProbability probability =
     checked (validateProbability ''special file probability'' probability)
       (\<lambda>g. g\<lparr>specialFileProbGen := Some (BooleanGeneratorProbabilityFlat probability)\<rparr>)"

section \<open>Settings that plan without errors of their own\<close>

text \<open>
  What the ready-made options have in common, field by field: a length is positive, a name of
  positive length is a proper path element, data is not empty, and every other callback returns a
  value in its range. \<^const>\<open>callbacks_ok\<close> follows, but for the device numbers.
\<close>

definition name_gen_ok :: "StringGenerator \<Rightarrow> bool" where
  "name_gen_ok f \<longleftrightarrow> (\<forall>n. 1 \<le> n \<longrightarrow> fails (f n) (\<lambda>_. False) \<and> gives (f n) elem_ok)"

definition name_settings :: "StringGenerator option \<Rightarrow> NumberGenerator option \<Rightarrow> StringGenerator option \<Rightarrow> bool" where
  "name_settings nameGen lenGen byteGen \<longleftrightarrow>
     callback lenGen (\<lambda>n. 1 \<le> n) \<and> pred_option name_gen_ok nameGen \<and> pred_option name_gen_ok byteGen"

definition content_settings :: "Generator \<Rightarrow> bool" where
  "content_settings g \<longleftrightarrow>
     callback (contentPatternGen g) (\<lambda>p. is_ok (validateContentPattern p)) \<and>
     callback (contentLogicalSizeGen g) (\<lambda>n. 0 \<le> n \<and> n < 2 ^ 63) \<and>
     callback (dataGen g) (\<lambda>b. b \<noteq> [])"

definition entry_settings :: "Generator \<Rightarrow> bool" where
  "entry_settings g \<longleftrightarrow>
     callback (pathDepthGen g) (\<lambda>_. True) \<and> callback (dirModeGen g) (\<lambda>_. True) \<and> callback (fileModeGen g) (\<lambda>_. True) \<and>
     callback (nDirsInDirGen g) (\<lambda>_. True) \<and> callback (nFilesInDirGen g) (\<lambda>_. True) \<and>
     callback (symlinkProbGen g) (\<lambda>_. True) \<and> callback (symlinkRelProbGen g) (\<lambda>_. True) \<and>
     callback (hardlinkProbGen g) (\<lambda>_. True) \<and> callback (specialFileProbGen g) (\<lambda>_. True) \<and>
     callback (symlinkStrategyGen g) (\<lambda>s. is_ok (validateSymlinkStrategy s)) \<and>
     callback (specialFileTypeGen g) (\<lambda>t. is_ok (validateSpecialFileType t)) \<and>
     callback (specialDeviceMajorGen g) (\<lambda>v. 0 \<le> v) \<and> callback (specialDeviceMinorGen g) (\<lambda>v. 0 \<le> v)"

definition settings_ok :: "Generator \<Rightarrow> bool" where
  "settings_ok g \<longleftrightarrow>
     name_settings (fileNameGen g) (fileNameLenGen g) (byteFileNameGen g) \<and>
     name_settings (dirNameGen g) (dirNameLenGen g) (byteDirNameGen g) \<and>
     content_settings g \<and> metadata_callbacks g \<and> entry_settings g"

lemma callback_mono: "callback f R \<Longrightarrow> (\<And>x. R x \<Longrightarrow> R' x) \<Longrightarrow> callback f R'"
  by (cases f) (auto simp: callback_def elim: gives_mono)

lemma callback_None [simp]: "callback None R"
  by (simp add: callback_def)

lemma name_settings_callback:
  assumes "name_settings nameGen lenGen byteGen"
  shows "name_callback nameGen lenGen byteGen"
proof -
  have len: "fails (call lenGen) C" if "lenGen \<noteq> None" for C
    using assms that callback_fails by (auto simp: name_settings_def)
  have pos: "gives (call lenGen) (\<lambda>n. 1 \<le> n)"
    using assms callback_gives by (auto simp: name_settings_def)
  have name: "fails (call1 f n) (\<lambda>_. False)" "gives (call1 f n) elem_ok"
    if "f \<in> {nameGen, byteGen}" "f \<noteq> None" "1 \<le> n" for f n
    using assms that by (auto simp: name_settings_def name_gen_ok_def call1_def)
  have none: "gives (call1 None n) elem_ok" for n :: int
    by (simp add: call1_def gives_raise)
  have "fails (next_name nameGen lenGen byteGen) (\<lambda>_. False)"
    if "lenGen \<noteq> None" "nameGen \<noteq> None \<or> byteGen \<noteq> None"
  proof (cases byteGen)
    case None
    then show ?thesis
      using that name(1) [of nameGen] unfolding next_name_def
      by (simp add: fails_bind [where f = "call1 nameGen", OF len pos])
  next
    case (Some f)
    then show ?thesis
      using that name(1) [of byteGen] unfolding next_name_def
      by (simp add: call1_def fails_bind [where f = f, OF len pos])
  qed
  moreover have "gives (next_name nameGen lenGen byteGen) elem_ok"
  proof (cases byteGen)
    case None
    then show ?thesis
      using name(2) [of nameGen] none gives_bind [where f = "call1 nameGen", OF pos]
      by (cases nameGen) (simp_all add: next_name_def)
  next
    case (Some f)
    then show ?thesis
      using name(2) [of byteGen] gives_bind [where f = f, OF pos] by (simp add: next_name_def call1_def)
  qed
  ultimately show ?thesis unfolding name_callback_def by blast
qed

lemma settings_callbacks:
  assumes "settings_ok g" and "specialFileTypeGen g = None \<or> specialDeviceMajorGen g \<noteq> None"
  shows "callbacks_ok g"
proof -
  have "content_callbacks g"
    using assms(1) callback_mono [of "dataGen g"] by (auto simp: settings_ok_def content_settings_def content_callbacks_def)
  moreover have "entry_callbacks g"
    using assms callback_mono [of "specialFileTypeGen g"]
    by (auto simp: settings_ok_def entry_settings_def entry_callbacks_def)
  ultimately show ?thesis
    using assms(1) name_settings_callback by (simp add: callbacks_ok_def settings_ok_def)
qed

section \<open>What the ready-made callbacks return\<close>

named_theorems ready_callback

lemma callback_constant [ready_callback]: "R x \<Longrightarrow> callback (Some (returnS x)) R"
  by (simp add: callback_def fails_return gives_return)

lemma constants_return:
  "NumberGeneratorConstant n = returnS n" "TimestampGeneratorConstant t = returnS t"
  "ACLGeneratorFixed acl = returnS acl" "DataGeneratorFixed data = returnS data"
  by (simp_all add: NumberGeneratorConstant_def TimestampGeneratorConstant_def ACLGeneratorFixed_def DataGeneratorFixed_def)

lemma range_callback:
  assumes "mn < mx"
  shows "callback (Some (NumberGeneratorRandomFlat mn mx)) (\<lambda>n. mn \<le> n \<and> n < mx)"
proof -
  have "gives (NumberGeneratorRandomFlat mn mx) (\<lambda>n. mn \<le> n \<and> n < mx)"
    unfolding NumberGeneratorRandomFlat_def by (rule gives_bind [OF gives_Intn], rule gives_return) auto
  moreover have "fails (NumberGeneratorRandomFlat mn mx) (\<lambda>_. False)"
    unfolding NumberGeneratorRandomFlat_def using assms by (intro fails_bind0 fails_Intn fails_return) simp
  ultimately show ?thesis by (simp add: callback_def)
qed

lemma callback_range [ready_callback]:
  "mn < mx \<Longrightarrow> (\<And>n. mn \<le> n \<Longrightarrow> n < mx \<Longrightarrow> R n) \<Longrightarrow> callback (Some (NumberGeneratorRandomFlat mn mx)) R"
  using callback_mono [OF range_callback] by blast

lemma callback_data [ready_callback]:
  assumes "1 \<le> mn" and "mn < mx"
  shows "callback (Some (DataGeneratorRandom (NumberGeneratorRandomFlat mn mx))) (\<lambda>b. b \<noteq> [])"
proof -
  have len: "fails (NumberGeneratorRandomFlat mn mx) (\<lambda>_. False)"
    "gives (NumberGeneratorRandomFlat mn mx) (\<lambda>n. mn \<le> n \<and> n < mx)"
    using range_callback [OF assms(2)] by (simp_all add: callback_def)
  have "fails (DataGeneratorRandom (NumberGeneratorRandomFlat mn mx)) (\<lambda>_. False)"
    unfolding DataGeneratorRandom_def makeslice_ok_def
    by (rule fails_bind [OF len]) (use assms in \<open>auto intro: fails_draws\<close>)
  moreover have "gives (DataGeneratorRandom (NumberGeneratorRandomFlat mn mx)) (\<lambda>b. b \<noteq> [])"
    unfolding DataGeneratorRandom_def makeslice_ok_def
    by (rule gives_bind [OF len(2)]) (use assms in \<open>auto intro!: gives_mono [OF gives_read]\<close>)
  ultimately show ?thesis by (simp add: callback_def)
qed

lemma callback_probability [ready_callback]: "callback (Some (BooleanGeneratorProbabilityFlat p)) (\<lambda>_. True)"
proof -
  have "fails (BooleanGeneratorProbabilityFlat p) (\<lambda>_. False)"
    unfolding BooleanGeneratorProbabilityFlat_def Float64_def by (intro fails_bind0 fails_Intn fails_return) simp
  then show ?thesis by (simp add: callback_def gives_any)
qed

lemma callback_weighted:
  assumes "validate_weights valid name nonPositive ps (Finite 0) = Inr ()"
  shows "callback (Some (weighted_choice code ps)) (\<lambda>x. is_ok (valid x))"
proof -
  note ne = positive_keys_accepted(1) [OF assms, of code] and ok = positive_keys_accepted(2) [OF assms]
  have "gives (weighted_choice code ps) (\<lambda>x. is_ok (valid x))"
    by (rule gives_mono [OF weighted_choice_table(1) [OF ne]]) (simp add: ok)
  then show ?thesis
    using weighted_choice_table(2) [OF ne] by (simp add: callback_def fails_def)
qed

lemma callback_strategies [ready_callback]:
  "validateSymlinkStrategyProbabilities ps = Inr () \<Longrightarrow>
     callback (Some (SymlinkStrategyGeneratorProbabilityWeighted ps)) (\<lambda>s. is_ok (validateSymlinkStrategy s))"
  unfolding SymlinkStrategyGeneratorProbabilityWeighted_def
  by (rule callback_weighted) (auto simp: validateSymlinkStrategyProbabilities_def split: if_splits)

lemma callback_types [ready_callback]:
  "validateSpecialFileTypeProbabilities ps = Inr () \<Longrightarrow>
     callback (Some (SpecialFileTypeGeneratorProbabilityWeighted ps)) (\<lambda>t. is_ok (validateSpecialFileType t))"
  unfolding SpecialFileTypeGeneratorProbabilityWeighted_def
  by (rule callback_weighted) (auto simp: validateSpecialFileTypeProbabilities_def split: if_splits)

lemma callback_patterns [ready_callback]:
  "validateContentPatternProbabilities ps = Inr () \<Longrightarrow>
     callback (Some (ContentPatternGeneratorProbabilityWeighted ps)) (\<lambda>p. is_ok (validateContentPattern p))"
  unfolding ContentPatternGeneratorProbabilityWeighted_def
  by (rule callback_weighted) (auto simp: validateContentPatternProbabilities_def split: if_splits)

section \<open>Ready options\<close>

text \<open>
  Options that leave the settings fit for planning: those with constants, ranges and probabilities,
  and those with a callback of the user that returns a value in its range. The three ranges of
  lengths need a positive minimum; the code takes a minimum of 0 too.
\<close>

inductive ready_option :: "Option \<Rightarrow> bool" where
  seed: "ready_option (WithSeed seeded n)"
| run_mode: "ready_option (WithRunMode mode)"
| limit: "ready_option (WithPlanEntryLimit n)"
| coverage: "ready_option (WithDeterministicCoverage opts)"
| dir_name: "pred_option name_gen_ok f \<Longrightarrow> ready_option (WithDirNameGenerator f)"
| file_name: "pred_option name_gen_ok f \<Longrightarrow> ready_option (WithFileNameGenerator f)"
| byte_dir_name: "pred_option name_gen_ok f \<Longrightarrow> ready_option (WithByteDirNameGenerator f)"
| byte_file_name: "pred_option name_gen_ok f \<Longrightarrow> ready_option (WithByteFileNameGenerator f)"
| dir_length: "callback m (\<lambda>n. 1 \<le> n) \<Longrightarrow> ready_option (WithDirNameLengthGenerator m)"
| file_length: "callback m (\<lambda>n. 1 \<le> n) \<Longrightarrow> ready_option (WithFileNameLengthGenerator m)"
| dir_length_range: "1 \<le> mn \<Longrightarrow> ready_option (WithDirNameLengthRange mn mx)"
| file_length_range: "1 \<le> mn \<Longrightarrow> ready_option (WithFileNameLengthRange mn mx)"
| dir_mode: "callback md (\<lambda>_. True) \<Longrightarrow> ready_option (WithDirModeGenerator md)"
| file_mode: "callback md (\<lambda>_. True) \<Longrightarrow> ready_option (WithFileModeGenerator md)"
| n_files: "callback m (\<lambda>_. True) \<Longrightarrow> ready_option (WithFilesPerDirectoryGenerator m)"
| n_dirs: "callback m (\<lambda>_. True) \<Longrightarrow> ready_option (WithDirectoriesPerDirectoryGenerator m)"
| n_files_range: "ready_option (WithFilesPerDirectoryRange mn mx)"
| n_dirs_range: "ready_option (WithDirectoriesPerDirectoryRange mn mx)"
| depth: "callback m (\<lambda>_. True) \<Longrightarrow> ready_option (WithPathDepthGenerator m)"
| data: "callback d (\<lambda>b. b \<noteq> []) \<Longrightarrow> ready_option (WithDataGenerator d)"
| data_range: "1 \<le> mn \<Longrightarrow> ready_option (WithDataLengthRange mn mx)"
| pattern_gen: "callback pt (\<lambda>p. is_ok (validateContentPattern p)) \<Longrightarrow> ready_option (WithContentPatternGenerator pt)"
| pattern: "ready_option (WithContentPattern pattern)"
| pattern_probabilities: "ready_option (WithContentPatternProbabilities ps)"
| size_gen: "callback m (\<lambda>n. 0 \<le> n \<and> n < 2 ^ 63) \<Longrightarrow> ready_option (WithContentLogicalSizeGenerator m)"
| size: "n < 2 ^ 63 \<Longrightarrow> ready_option (WithContentLogicalSize n)"
| size_range: "mx \<le> 2 ^ 63 \<Longrightarrow> ready_option (WithContentLogicalSizeRange mn mx)"
| owner_gens: "callback m (\<lambda>_. True) \<Longrightarrow> callback m' (\<lambda>_. True) \<Longrightarrow> ready_option (WithOwnershipGenerators m m')"
| owner: "ready_option (WithOwnership uid gid)"
| time_gens: "callback t (\<lambda>_. True) \<Longrightarrow> callback t' (\<lambda>_. True) \<Longrightarrow> ready_option (WithTimestampGenerators t t')"
| times: "ready_option (WithTimestamps atime mtime)"
| xattr_gen: "callback d (\<lambda>_. True) \<Longrightarrow> ready_option (WithXAttrValueGenerator name d)"
| xattr: "ready_option (WithXAttr name value)"
| xattrs: "ready_option (WithXAttrsFixed xs)"
| trusted: "ready_option (WithTrustedXAttrNamespace b)"
| security: "ready_option (WithSecurityXAttrNamespace b)"
| acl_gen: "callback ac (list_all (\<lambda>x. acl_text_ok (TrimSpace x))) \<Longrightarrow> ready_option (WithACLGenerator ac)"
| acl: "list_all (\<lambda>x. acl_text_ok (TrimSpace x)) acl \<Longrightarrow> ready_option (WithACL acl)"
| symlink: "callback bg (\<lambda>_. True) \<Longrightarrow> ready_option (WithSymlinkGenerator bg)"
| relative: "callback bg (\<lambda>_. True) \<Longrightarrow> ready_option (WithRelativeSymlinkGenerator bg)"
| hardlink: "callback bg (\<lambda>_. True) \<Longrightarrow> ready_option (WithHardlinkGenerator bg)"
| special: "callback bg (\<lambda>_. True) \<Longrightarrow> ready_option (WithSpecialFileGenerator bg)"
| symlink_probability: "ready_option (WithSymlinkProbability p)"
| relative_probability: "ready_option (WithRelativeSymlinkProbability p)"
| hardlink_probability: "ready_option (WithHardlinkProbability p)"
| special_probability: "ready_option (WithSpecialFileProbability p)"
| type_gen: "callback ty (\<lambda>t. is_ok (validateSpecialFileType t)) \<Longrightarrow> ready_option (WithSpecialFileTypeGenerator ty)"
| type_probabilities: "ready_option (WithSpecialFileTypeProbabilities ts)"
| device_gens: "callback m (\<lambda>v. 0 \<le> v) \<Longrightarrow> callback m' (\<lambda>v. 0 \<le> v) \<Longrightarrow>
    ready_option (WithSpecialDeviceNumberGenerators m m')"
| devices: "ready_option (WithSpecialDeviceNumbers major minor)"
| strategy_gen: "callback st (\<lambda>s. is_ok (validateSymlinkStrategy s)) \<Longrightarrow> ready_option (WithSymlinkStrategyGenerator st)"
| strategy_probabilities: "ready_option (WithSymlinkStrategyProbabilities ss)"

lemma checked_Inr: "checked v f c = Inr c' \<longleftrightarrow> v = Inr () \<and> c' = c\<lparr>cfg_generator := f (cfg_generator c)\<rparr>"
  by (auto simp: checked_def bindE_eq_Inr)

lemma checks_Inr:
  "validateGenerator nm gen = Inr () \<longleftrightarrow> gen \<noteq> None"
  "validateIntRange nm mn mx = Inr () \<longleftrightarrow> 0 \<le> mn \<and> mn < mx"
  "validateContentLogicalSizeRange nm mn mx = Inr () \<longleftrightarrow> 0 \<le> mn \<and> mn < mx"
  "fixed_number nm n = Inr () \<longleftrightarrow> 0 \<le> n"
  by (auto simp: validateGenerator_def validateIntRange_def validateContentLogicalSizeRange_def fixed_number_def)

lemmas settings_defs = settings_ok_def name_settings_def content_settings_def metadata_callbacks_def entry_settings_def

text \<open>What the option of an attribute does to the list of generators.\<close>

lemma replace_xattr_set:
  "set (fst (replace_xattr name gen cfgs)) \<subseteq> insert \<lparr>xc_name = name, xc_valueGen = gen\<rparr> (set cfgs)"
  by (induction cfgs) (auto split: prod.splits)

lemma replace_xattr_names:
  "map xc_name (fst (replace_xattr name gen cfgs)) = map xc_name cfgs"
  "snd (replace_xattr name gen cfgs) \<longleftrightarrow> name \<in> xc_name ` set cfgs"
  by (induction cfgs) (auto split: prod.splits)

lemma validateXAttrName_same: "validateXAttrName name = Inr n \<Longrightarrow> n = name"
  by (auto simp: validateXAttrName_def Let_def split: if_splits)

lemma validate_names_Inr: "validate_names ns = Inr valid \<Longrightarrow> valid = ns"
  by (induction ns arbitrary: valid) (auto simp: bindE_eq_Inr dest: validateXAttrName_same)

lemma WithXAttrValueGenerator_Inr:
  assumes "WithXAttrValueGenerator name gen c = Inr c'"
  obtains cfgs where
    "c' = c\<lparr>cfg_generator := (cfg_generator c)\<lparr>xattrValueGens := sort_key xc_name cfgs\<rparr>\<rparr>"
    "set cfgs \<subseteq> insert \<lparr>xc_name = name, xc_valueGen = gen\<rparr> (set (xattrValueGens (cfg_generator c)))"
    "distinct (map xc_name (xattrValueGens (cfg_generator c))) \<Longrightarrow> distinct (map xc_name cfgs)"
    "xc_name ` set cfgs = insert name (xc_name ` set (xattrValueGens (cfg_generator c)))"
proof -
  let ?old = "xattrValueGens (cfg_generator c)"
  obtain cfgs replaced where r: "replace_xattr name gen ?old = (cfgs, replaced)" by fastforce
  let ?new = "if replaced then cfgs else cfgs @ [\<lparr>xc_name = name, xc_valueGen = gen\<rparr>]"
  have n: "validateXAttrName name = Inr name"
    using assms by (auto simp: WithXAttrValueGenerator_def bindE_eq_Inr dest: validateXAttrName_same)
  have names: "map xc_name cfgs = map xc_name ?old" "replaced \<longleftrightarrow> name \<in> xc_name ` set ?old"
    using replace_xattr_names [of name gen ?old] r by simp_all
  then have im: "xc_name ` set cfgs = xc_name ` set ?old" by (metis list.set_map)
  show ?thesis
  proof (rule that)
    show "c' = c\<lparr>cfg_generator := (cfg_generator c)\<lparr>xattrValueGens := sort_key xc_name ?new\<rparr>\<rparr>"
      using assms n r by (auto simp: WithXAttrValueGenerator_def bindE_eq_Inr checked_Inr)
    show "set ?new \<subseteq> insert \<lparr>xc_name = name, xc_valueGen = gen\<rparr> (set ?old)"
      using replace_xattr_set [of name gen ?old] r by auto
    show "distinct (map xc_name ?new)" if "distinct (map xc_name ?old)"
      using that names im by auto
    show "xc_name ` set ?new = insert name (xc_name ` set ?old)"
      using names(2) im by auto
  qed
qed

lemma ready_xattr:
  assumes "WithXAttrValueGenerator name gen c = Inr c'" and "callback gen (\<lambda>_. True)" and "settings_ok (cfg_generator c)"
  shows "settings_ok (cfg_generator c')"
proof (rule WithXAttrValueGenerator_Inr [OF assms(1)])
  fix cfgs
  assume "c' = c\<lparr>cfg_generator := (cfg_generator c)\<lparr>xattrValueGens := sort_key xc_name cfgs\<rparr>\<rparr>"
    and "set cfgs \<subseteq> insert \<lparr>xc_name = name, xc_valueGen = gen\<rparr> (set (xattrValueGens (cfg_generator c)))"
  then show ?thesis
    using assms(2,3) by (auto simp: settings_defs list_all_iff)
qed

text \<open>The definitions of the options that only make checks and set fields.\<close>

lemmas plain_option_defs =
  WithRunMode_def WithPlanEntryLimit_def WithDirNameGenerator_def WithDirNameLengthGenerator_def
  WithDirModeGenerator_def WithFilesPerDirectoryGenerator_def WithDirectoriesPerDirectoryGenerator_def
  WithFileNameGenerator_def WithFileNameLengthGenerator_def WithFileModeGenerator_def WithDataGenerator_def
  WithPathDepthGenerator_def WithByteFileNameGenerator_def WithByteDirNameGenerator_def
  WithDirNameLengthRange_def WithFileNameLengthRange_def WithFilesPerDirectoryRange_def
  WithDirectoriesPerDirectoryRange_def WithDataLengthRange_def WithContentPatternGenerator_def
  WithContentPattern_def WithContentPatternProbabilities_def WithContentLogicalSizeGenerator_def
  WithContentLogicalSize_def WithContentLogicalSizeRange_def WithOwnershipGenerators_def WithOwnership_def
  WithTimestampGenerators_def WithTimestamps_def WithTrustedXAttrNamespace_def WithSecurityXAttrNamespace_def
  WithACLGenerator_def WithACL_def WithSymlinkGenerator_def WithRelativeSymlinkGenerator_def
  WithHardlinkGenerator_def WithSpecialFileGenerator_def WithSpecialFileTypeGenerator_def
  WithSpecialFileTypeProbabilities_def WithSpecialDeviceNumberGenerators_def WithSpecialDeviceNumbers_def
  WithSymlinkStrategyGenerator_def WithSymlinkStrategyProbabilities_def WithSymlinkProbability_def
  WithRelativeSymlinkProbability_def WithHardlinkProbability_def WithSpecialFileProbability_def

lemma settings_fields:
  "settings_ok (g\<lparr>runMode := mode\<rparr>) = settings_ok g"
  "settings_ok (g\<lparr>planEntryLimit := n\<rparr>) = settings_ok g"
  "settings_ok (g\<lparr>xattrAllowTrustedNamespace := b\<rparr>) = settings_ok g"
  "settings_ok (g\<lparr>xattrAllowSecurityNamespace := b\<rparr>) = settings_ok g"
  by (simp_all add: settings_defs)

lemma ready_step:
  assumes "ready_option opt" and "opt c = Inr c'" and "settings_ok (cfg_generator c)"
  shows "settings_ok (cfg_generator c')"
  using assms
proof (cases rule: ready_option.cases)
  case (seed seeded n)
  then show ?thesis using assms(2,3) by (simp add: WithSeed_def) (auto simp: settings_defs)
next
  case (coverage opts)
  then show ?thesis using assms(2,3) by (auto simp: WithDeterministicCoverage_def bindE_eq_Inr)
next
  case (xattr_gen d name)
  then show ?thesis using ready_xattr assms(2,3) by blast
next
  case (xattr name val)
  then show ?thesis
    using ready_xattr [of name "Some (DataGeneratorFixed val)" c c'] assms(2,3)
    by (simp add: WithXAttr_def constants_return callback_constant)
next
  case (xattrs xs)
  then show ?thesis
    using assms(2,3)
    by (auto simp: WithXAttrsFixed_def bindE_eq_Inr checked_Inr settings_defs list_all_iff constants_return
        callback_constant split: if_splits)
qed (insert assms(2,3), auto simp: plain_option_defs checked_Inr checks_Inr bindE_eq_Inr settings_defs constants_return
      intro!: ready_callback split: if_splits)

lemma ready_keeps_base:
  assumes "ready_option opt" and "opt c = Inr c'"
  shows "basePath (cfg_generator c') = basePath (cfg_generator c)"
  using assms
proof (cases rule: ready_option.cases)
  case (xattr_gen d name)
  with assms(2) have "WithXAttrValueGenerator name d c = Inr c'" by simp
  then show ?thesis by (rule WithXAttrValueGenerator_Inr) simp
next
  case (xattr name val)
  with assms(2) have "WithXAttrValueGenerator name (Some (DataGeneratorFixed val)) c = Inr c'" by (simp add: WithXAttr_def)
  then show ?thesis by (rule WithXAttrValueGenerator_Inr) simp
qed (insert assms(2), auto simp: plain_option_defs WithSeed_def WithDeterministicCoverage_def WithXAttrsFixed_def
      checked_Inr bindE_eq_Inr split: if_splits)

lemma ready_options:
  assumes "apply_options i opts c = Inr c'" and "list_all (pred_option ready_option) opts"
    and "settings_ok (cfg_generator c)"
  shows "settings_ok (cfg_generator c') \<and> basePath (cfg_generator c') = basePath (cfg_generator c)"
  using assms
proof (induction i opts c rule: apply_options.induct)
  case (3 i opt opts c)
  obtain c1 where c1: "opt c = Inr c1" "apply_options (Suc i) opts c1 = Inr c'"
    using 3(2) by (auto split: sum.splits)
  have "ready_option opt" using 3(3) by simp
  then have "settings_ok (cfg_generator c1)" "basePath (cfg_generator c1) = basePath (cfg_generator c)"
    using ready_step ready_keeps_base c1(1) 3(4) by blast+
  then show ?case using 3(1) [OF c1(1,2)] 3(3) by simp
qed simp_all

lemma New_settings: "settings_ok (New path)"
  by (simp add: settings_defs New_def)

section \<open>Configuration is atomic\<close>

lemma apply_options_append:
  "apply_options i (pre @ post) c =
     (case apply_options i pre c of Inl e \<Rightarrow> Inl e | Inr c' \<Rightarrow> apply_options (i + length pre) post c')"
  by (induction i pre c rule: apply_options.induct) (auto split: sum.splits)

text \<open>
  C36: \<open>Configure\<close> applies its options in order, all or none: it succeeds with the result of applying
  one after the other; or it leaves the generator as it was and reports the first option that is nil
  or fails, with the number of options before it and the option's own error.
\<close>

theorem Configure_atomic:
  "(case Configure opts (Some c) of
     (None, g) \<Rightarrow> \<exists>os. opts = map Some os \<and> map_option Inr g = Some (foldl bindE (Inr c) os)
   | (Some e, g) \<Rightarrow> g = Some c \<and>
       (\<exists>os c1 post. foldl bindE (Inr c) os = Inr c1 \<and>
          (opts = map Some os @ None # post \<and> e = Errorf (''option at index '' @ show_nat (length os) @ '' is nil'') None \<or>
           (\<exists>opt e1. opts = map Some os @ Some opt # post \<and> opt c1 = Inl e1 \<and>
              e = Errorf (''failed to apply option at index '' @ show_nat (length os)) (Some e1)))))"
proof -
  have ok: "\<exists>os. opts = map Some os \<and> foldl bindE (Inr c) os = Inr c'"
    if "apply_options i opts c = Inr c'" for i and opts :: "Option option list" and c c'
    using that
  proof (induction i opts c rule: apply_options.induct)
    case (3 i opt opts c)
    then obtain c1 os where "opt c = Inr c1" "opts = map Some os" "foldl bindE (Inr c1) os = Inr c'"
      by (auto split: sum.splits)
    then show ?case by (intro exI [of _ "opt # os"]) simp
  qed simp_all
  have bad: "\<exists>os c1 post. foldl bindE (Inr c) os = Inr c1 \<and>
      (opts = map Some os @ None # post \<and> e = Errorf (''option at index '' @ show_nat (i + length os) @ '' is nil'') None \<or>
       (\<exists>opt e1. opts = map Some os @ Some opt # post \<and> opt c1 = Inl e1 \<and>
          e = Errorf (''failed to apply option at index '' @ show_nat (i + length os)) (Some e1)))"
    if "apply_options i opts c = Inl e" for i and opts :: "Option option list" and c e
    using that
  proof (induction i opts c rule: apply_options.induct)
    case (2 i opts c)
    then show ?case by (intro exI [of _ "[]"]) simp
  next
    case (3 i opt opts c)
    show ?case
    proof (cases "opt c")
      case (Inl e1)
      then show ?thesis using 3(2) by (intro exI [of _ "[]"]) auto
    next
      case (Inr c0)
      then obtain os c1 post where "foldl bindE (Inr c0) os = Inr c1"
        "opts = map Some os @ None # post \<and> e = Errorf (''option at index '' @ show_nat (Suc i + length os) @ '' is nil'') None \<or>
         (\<exists>opt e1. opts = map Some os @ Some opt # post \<and> opt c1 = Inl e1 \<and>
            e = Errorf (''failed to apply option at index '' @ show_nat (Suc i + length os)) (Some e1))"
        using 3 by auto
      then show ?thesis using Inr by (intro exI [of _ "opt # os"] exI [of _ c1] exI [of _ post]) auto
    qed
  qed simp
  show ?thesis
  proof (cases "apply_options 0 opts c")
    case (Inl e)
    then show ?thesis using bad [OF Inl] by (simp add: Configure_def)
  next
    case (Inr c')
    then show ?thesis using ok [OF Inr] by (auto simp: Configure_def)
  qed
qed

section \<open>Planning with ready options\<close>

text \<open>
  C37: a generator set up by \<open>NewWithOptions\<close> from ready options plans without errors of its own: when
  its configuration is accepted as complete, and either no special file types are configured or device
  numbers are too, planning fails only with too many entries or with exhausted name collisions. (A
  configuration with device types but no device numbers is accepted and fails on the first device.)
\<close>

theorem NewWithOptions_plans:
  assumes "NewWithOptions seeded path opts = Inr c" and "list_all (pred_option ready_option) opts"
    and "validateRunConfiguration (cfg_generator c) = Inr ()"
    and "specialFileTypeGen (cfg_generator c) = None \<or> specialDeviceMajorGen (cfg_generator c) \<noteq> None"
    and "clean_abs path" and "planRun (cfg_generator c) r = ((plan, Inl e), r')"
  shows "errors_Is e ErrPlanEntryLimitExceeded \<or> errors_Is e ErrPlanPathCollisionExhausted"
proof -
  have "apply_options 0 opts (NewConfig seeded path) = Inr c"
    using assms(1) by (auto simp: NewWithOptions_def Configure_def split: sum.splits)
  from ready_options [OF this assms(2)] New_settings
  have "settings_ok (cfg_generator c)" and b: "basePath (cfg_generator c) = path"
    by (simp_all add: NewConfig_def New_def)
  then have "callbacks_ok (cfg_generator c)" using settings_callbacks assms(4) by blast
  then show ?thesis
    using planRun_seg [OF gens_ok_callbacks [OF assms(3)] _ assms(6)] assms(5) b
    unfolding planning_error_def by blast
qed

section \<open>A sample configuration\<close>

definition sample_options :: "Option option list" where
  "sample_options = map Some
     [WithByteDirNameGenerator (Some ByteNamePresetLeadingSpaces), WithDirNameLengthRange 2 9,
      WithByteFileNameGenerator (Some ByteNamePresetLeadingSpaces), WithFileNameLengthRange 2 9,
      WithDirModeGenerator (Some (FileModeGeneratorConstant 493)), WithFileModeGenerator (Some (FileModeGeneratorConstant 420)),
      WithPathDepthGenerator (Some (NumberGeneratorConstant 2)), WithDirectoriesPerDirectoryRange 1 3,
      WithFilesPerDirectoryRange 1 4, WithDataLengthRange 1 5, WithSymlinkProbability (Finite (1 / 4)),
      WithRelativeSymlinkProbability (Finite (1 / 2)), WithHardlinkProbability (Finite (1 / 4)),
      WithSymlinkStrategyProbabilities
        [(SymlinkStrategyRelative, Finite (3 / 4)), (SymlinkStrategyAbsolute, Finite (1 / 4))],
      WithXAttr ''user.b'' [1], WithXAttr ''user.a'' [2], WithXAttr ''user.b'' [3],
      WithOwnership 7 7, WithPlanEntryLimit 2]"

definition sample_config :: gconfig where
  "sample_config = (case NewWithOptions (\<lambda>s. []) ''/b'' sample_options of Inr c \<Rightarrow> c)"

lemma LeadingSpaces_names: "name_gen_ok ByteNamePresetLeadingSpaces"
proof -
  have "gives (ByteNamePresetLeadingSpaces n) elem_ok" for n
    by (rule gives_mono [OF gives_legal [OF gives_LeadingSpaces]]) (auto simp: dotdot_def)
  then show ?thesis by (simp add: name_gen_ok_def fails_LeadingSpaces)
qed

lemma sample_options_ready: "list_all (pred_option ready_option) sample_options"
  using LeadingSpaces_names unfolding sample_options_def FileModeGeneratorConstant_def constants_return
  by (auto intro!: ready_option.intros callback_constant)

lemma sample_config_made: "NewWithOptions (\<lambda>s. []) ''/b'' sample_options = Inr sample_config"
proof -
  have "is_ok (NewWithOptions (\<lambda>s. []) ''/b'' sample_options)" by code_simp
  then show ?thesis by (auto simp: sample_config_def is_ok_iff)
qed

lemma sample_config_stops: "is_ok (snd (fst (planRun (cfg_generator sample_config) sample_tape))) = False" by code_simp

theorem NewWithOptions_plans_witness:
  "\<exists>e. snd (fst (planRun (cfg_generator sample_config) sample_tape)) = Inl e \<and>
     (errors_Is e ErrPlanEntryLimitExceeded \<or> errors_Is e ErrPlanPathCollisionExhausted)"
proof -
  have v: "validateRunConfiguration (cfg_generator sample_config) = Inr ()" by code_simp
  have t: "specialFileTypeGen (cfg_generator sample_config) = None"
  proof -
    have "(case specialFileTypeGen (cfg_generator sample_config) of None \<Rightarrow> True | Some _ \<Rightarrow> False)" by code_simp
    then show ?thesis by (simp split: option.splits)
  qed
  have b: "clean_abs ''/b''" by code_simp
  obtain plan res r' where run: "planRun (cfg_generator sample_config) sample_tape = ((plan, res), r')" by (metis prod.exhaust)
  with sample_config_stops obtain e where e: "res = Inl e" by (cases res) auto
  show ?thesis
    using NewWithOptions_plans [OF sample_config_made sample_options_ready v disjI1 [OF t] b run [unfolded e]] run e by simp
qed

end
