(* ===== verification/Scenarios.thy ===== *)
theory Scenarios
  imports Options Coverage
begin

text \<open>
  The catalog of built-in scenarios (\<^verbatim>\<open>scenarios.go\<close>): their names and aliases, the descriptors, the
  lists of options they stand for. Every name the catalog knows gives a generator that is complete
  and plans without errors of its own.
\<close>

section \<open>Names and descriptors\<close>

type_synonym BuiltInScenarioCapability = string

abbreviation BuiltInScenarioCapabilityHardlinkCreation :: BuiltInScenarioCapability where
  "BuiltInScenarioCapabilityHardlinkCreation \<equiv> ''hardlink-creation''"

abbreviation BuiltInScenarioCapabilitySymlinkCreation :: BuiltInScenarioCapability where
  "BuiltInScenarioCapabilitySymlinkCreation \<equiv> ''symlink-creation''"

abbreviation BuiltInScenarioCapabilityContentPatterns :: BuiltInScenarioCapability where
  "BuiltInScenarioCapabilityContentPatterns \<equiv> ''content-patterns''"

abbreviation BuiltInScenarioCapabilityLinuxTimestampMetadata :: BuiltInScenarioCapability where
  "BuiltInScenarioCapabilityLinuxTimestampMetadata \<equiv> ''linux-timestamp-metadata''"

abbreviation BuiltInScenarioCapabilityLinuxXAttrMetadata :: BuiltInScenarioCapability where
  "BuiltInScenarioCapabilityLinuxXAttrMetadata \<equiv> ''linux-xattr-metadata''"

abbreviation BuiltInScenarioCapabilityLinuxACLMetadata :: BuiltInScenarioCapability where
  "BuiltInScenarioCapabilityLinuxACLMetadata \<equiv> ''linux-acl-metadata''"

abbreviation ScenarioNameHardlinkHeavy :: string where
  "ScenarioNameHardlinkHeavy \<equiv> ''hardlink-heavy''"

abbreviation ScenarioNameSymlinkCycle :: string where
  "ScenarioNameSymlinkCycle \<equiv> ''symlink-cycle''"

abbreviation ScenarioNameMetadataHeavy :: string where
  "ScenarioNameMetadataHeavy \<equiv> ''metadata-heavy''"

abbreviation ScenarioNameSparseLarge :: string where
  "ScenarioNameSparseLarge \<equiv> ''sparse-large''"

abbreviation ScenarioNameXAttrACLHeavy :: string where
  "ScenarioNameXAttrACLHeavy \<equiv> ''xattr-acl-heavy''"

abbreviation ScenarioNameDeterministicCoverageLow :: string where
  "ScenarioNameDeterministicCoverageLow \<equiv> ''deterministic-coverage-low''"

abbreviation ScenarioNameDeterministicCoverageMedium :: string where
  "ScenarioNameDeterministicCoverageMedium \<equiv> ''deterministic-coverage-medium''"

abbreviation ScenarioNameDeterministicCoverageHigh :: string where
  "ScenarioNameDeterministicCoverageHigh \<equiv> ''deterministic-coverage-high''"

abbreviation ScenarioNameDeterministicCoverageXHigh :: string where
  "ScenarioNameDeterministicCoverageXHigh \<equiv> ''deterministic-coverage-xhigh''"

record BuiltInScenarioDescriptor =
  sd_Name :: string
  sd_Intent :: string
  sd_RequiredCapabilities :: "BuiltInScenarioCapability list"
  sd_Prerequisites :: "string list"
  sd_Pitfalls :: "string list"

record BuiltInScenarioSpec =
  ss_Descriptor :: BuiltInScenarioDescriptor
  ss_Seed :: int
  ss_Options :: "Option list"

record builtInScenarioTemplate =
  st_descriptor :: BuiltInScenarioDescriptor
  st_build :: "int \<Rightarrow> Option list"

definition builtInScenarioOrder :: "string list" where
  "builtInScenarioOrder =
     [ScenarioNameHardlinkHeavy,
      ScenarioNameSymlinkCycle,
      ScenarioNameMetadataHeavy,
      ScenarioNameSparseLarge,
      ScenarioNameXAttrACLHeavy,
      ScenarioNameDeterministicCoverageLow,
      ScenarioNameDeterministicCoverageMedium,
      ScenarioNameDeterministicCoverageHigh,
      ScenarioNameDeterministicCoverageXHigh]"

definition builtInScenarioAliases :: "string gomap" where
  "builtInScenarioAliases =
     [(ScenarioNameHardlinkHeavy, ScenarioNameHardlinkHeavy),
      (ScenarioNameHardlinkHeavy @ ''-tree'', ScenarioNameHardlinkHeavy),
      (ScenarioNameSymlinkCycle, ScenarioNameSymlinkCycle),
      (ScenarioNameSymlinkCycle @ ''-tree'', ScenarioNameSymlinkCycle),
      (ScenarioNameMetadataHeavy, ScenarioNameMetadataHeavy),
      (ScenarioNameMetadataHeavy @ ''-tree'', ScenarioNameMetadataHeavy),
      (ScenarioNameSparseLarge, ScenarioNameSparseLarge),
      (ScenarioNameSparseLarge @ ''-tree'', ScenarioNameSparseLarge),
      (ScenarioNameXAttrACLHeavy, ScenarioNameXAttrACLHeavy),
      (ScenarioNameXAttrACLHeavy @ ''-tree'', ScenarioNameXAttrACLHeavy),
      (ScenarioNameDeterministicCoverageLow, ScenarioNameDeterministicCoverageLow),
      (ScenarioNameDeterministicCoverageMedium, ScenarioNameDeterministicCoverageMedium),
      (ScenarioNameDeterministicCoverageHigh, ScenarioNameDeterministicCoverageHigh),
      (ScenarioNameDeterministicCoverageXHigh, ScenarioNameDeterministicCoverageXHigh)]"

section \<open>Options\<close>

definition FileNameAlphabetBasic :: "string list" where
  "FileNameAlphabetBasic =
     map (\<lambda>c. [c]) ''abcdefghijklmnopqrstuvwxyzABCDEFGHIJKLMNOPQRSTUVWXYZ01234567890''"

definition FileNameAlphabetLinux :: "string list" where
  "FileNameAlphabetLinux =
     map (\<lambda>c. [c]) ''abcdefghijklmnopqrstuvwxyzABCDEFGHIJKLMNOPQRSTUVWXYZ01234567890!@#$%^&*()-_+= ;.,''"

definition builtInScenarioBaseOptions :: "(int \<Rightarrow> rng) \<Rightarrow> int \<Rightarrow> Option list" where
  "builtInScenarioBaseOptions seeded sd =
     [WithSeed seeded sd,
      WithRunMode RunModeAppend,
      WithPlanEntryLimit defaultPlanEntryLimit,
      WithDirNameGenerator (Some (StringGeneratorAlphabet FileNameAlphabetBasic)),
      WithDirNameLengthRange 6 12,
      WithDirModeGenerator (Some (FileModeGeneratorConstant 0x1E8)),
      WithFilesPerDirectoryGenerator (Some (NumberGeneratorConstant 4)),
      WithDirectoriesPerDirectoryGenerator (Some (NumberGeneratorConstant 1)),
      WithFileNameGenerator (Some (StringGeneratorAlphabet FileNameAlphabetBasic)),
      WithFileNameLengthRange 8 16,
      WithFileModeGenerator (Some (FileModeGeneratorConstant 0x1A0)),
      WithDataLengthRange 128 512,
      WithPathDepthGenerator (Some (NumberGeneratorConstant 2)),
      WithSymlinkProbability (Finite 0),
      WithRelativeSymlinkProbability (Finite 0),
      WithHardlinkProbability (Finite 0)]"

definition buildHardlinkHeavyScenarioOptions :: "(int \<Rightarrow> rng) \<Rightarrow> int \<Rightarrow> Option list" where
  "buildHardlinkHeavyScenarioOptions seeded sd =
     builtInScenarioBaseOptions seeded sd @
     [WithFilesPerDirectoryGenerator (Some (NumberGeneratorConstant 10)),
      WithDirectoriesPerDirectoryGenerator (Some (NumberGeneratorConstant 1)),
      WithPathDepthGenerator (Some (NumberGeneratorConstant 3)),
      WithHardlinkProbability (round64 (85 / 100))]"

definition cycle_probabilities :: "(SymlinkStrategy \<times> float64) list" where
  "cycle_probabilities =
     [(SymlinkStrategyCycle, Finite 6), (SymlinkStrategyChained, Finite 2), (SymlinkStrategyDangling, Finite 1)]"

definition buildSymlinkCycleScenarioOptions :: "(int \<Rightarrow> rng) \<Rightarrow> int \<Rightarrow> Option list" where
  "buildSymlinkCycleScenarioOptions seeded sd =
     builtInScenarioBaseOptions seeded sd @
     [WithFilesPerDirectoryGenerator (Some (NumberGeneratorConstant 6)),
      WithDirectoriesPerDirectoryGenerator (Some (NumberGeneratorConstant 1)),
      WithPathDepthGenerator (Some (NumberGeneratorConstant 3)),
      WithSymlinkProbability (Finite 1),
      WithHardlinkProbability (Finite 0),
      WithSymlinkStrategyProbabilities cycle_probabilities]"

text \<open>\<^verbatim>\<open>baseTime\<close> and the two generators of times, in nanoseconds.\<close>

definition scenario_time :: "int \<Rightarrow> time gen" where
  "scenario_time offset =
     bindS (Intn 8) (\<lambda>n. returnS (1700000000123456789 + (offset + n) * 1000000000))"

definition buildMetadataHeavyScenarioOptions :: "(int \<Rightarrow> rng) \<Rightarrow> int \<Rightarrow> Option list" where
  "buildMetadataHeavyScenarioOptions seeded sd =
     builtInScenarioBaseOptions seeded sd @
     [WithFilesPerDirectoryGenerator (Some (NumberGeneratorConstant 6)),
      WithDirectoriesPerDirectoryGenerator (Some (NumberGeneratorConstant 2)),
      WithPathDepthGenerator (Some (NumberGeneratorConstant 2)),
      WithDirModeGenerator (Some (FileModeGeneratorConstant 0x5E8)),
      WithFileModeGenerator (Some (FileModeGeneratorConstant 0xDE8)),
      WithTimestampGenerators (Some (scenario_time 0)) (Some (scenario_time 30))]"

definition pattern_probabilities :: "(ContentPattern \<times> float64) list" where
  "pattern_probabilities =
     [(ContentPatternSparseHoles, Finite 7), (ContentPatternPartialRangeOverwrite, Finite 2),
      (ContentPatternRepeatedBlocks, Finite 1)]"

definition buildSparseLargeScenarioOptions :: "(int \<Rightarrow> rng) \<Rightarrow> int \<Rightarrow> Option list" where
  "buildSparseLargeScenarioOptions seeded sd =
     builtInScenarioBaseOptions seeded sd @
     [WithFilesPerDirectoryGenerator (Some (NumberGeneratorConstant 3)),
      WithDirectoriesPerDirectoryGenerator (Some (NumberGeneratorConstant 1)),
      WithPathDepthGenerator (Some (NumberGeneratorConstant 2)),
      WithContentPatternProbabilities pattern_probabilities,
      WithContentLogicalSizeRange 0x100000 0x200000,
      WithDataLengthRange 0x1000 0x2000]"

definition bytes_of :: "string \<Rightarrow> 8 word list" where
  "bytes_of s = map (\<lambda>c. word_of_nat (of_char c)) s"

definition buildXAttrACLHeavyScenarioOptions :: "(int \<Rightarrow> rng) \<Rightarrow> int \<Rightarrow> Option list" where
  "buildXAttrACLHeavyScenarioOptions seeded sd =
     builtInScenarioBaseOptions seeded sd @
     [WithFilesPerDirectoryGenerator (Some (NumberGeneratorConstant 4)),
      WithDirectoriesPerDirectoryGenerator (Some (NumberGeneratorConstant 1)),
      WithPathDepthGenerator (Some (NumberGeneratorConstant 2)),
      WithXAttrsFixed
        [(''user.backup.case'', bytes_of ''edge''), (''user.backup.retention'', bytes_of ''long''),
         (''user.backup.source'', bytes_of ''simulated'')],
      WithACL [''u::rwx'', ''g::r-x'', ''o::---'', ''u:1000:r--'', ''g:1000:r--'']]"

text \<open>The zero values of the other coverage options.\<close>

definition buildDeterministicCoverageScenarioOptions :: "DeterministicCoverageEffort \<Rightarrow> int \<Rightarrow> Option list" where
  "buildDeterministicCoverageScenarioOptions effort sd =
     [WithDeterministicCoverage
        \<lparr>co_effort = effort, co_includeLinuxOnly = False, co_includePrivileged = False,
         co_planEntryLimit = 0, co_runMode = RunModeAppend\<rparr>]"

section \<open>The catalog\<close>

definition deterministicCoverageDescriptor :: "string \<Rightarrow> DeterministicCoverageEffort \<Rightarrow> BuiltInScenarioDescriptor" where
  "deterministicCoverageDescriptor name effort =
     \<lparr>sd_Name = name,
      sd_Intent = ''Apply the deterministic pairwise coverage matrix at '' @ [CHR 0x22] @
        DeterministicCoverageEffort_String effort @ [CHR 0x22] @
        '' effort. Seed is ignored; the tree is identical for any seed value.'',
      sd_RequiredCapabilities =
        [BuiltInScenarioCapabilityHardlinkCreation,
        BuiltInScenarioCapabilitySymlinkCreation,
        BuiltInScenarioCapabilityContentPatterns,
        BuiltInScenarioCapabilityLinuxTimestampMetadata,
        BuiltInScenarioCapabilityLinuxXAttrMetadata,
        BuiltInScenarioCapabilityLinuxACLMetadata],
      sd_Prerequisites =
        [''Capability-gated dimensions are skipped gracefully when unsupported; the scenario still succeeds and reports SkippedDimensions in the returned spec.''],
      sd_Pitfalls =
        [''The seed parameter is ignored; pass any value.'',
        ''Privileged dimensions (char/block devices, trusted.*/security.* xattrs, non-effective uid/gid) are only included when the caller sets IncludePrivileged via WithDeterministicCoverage.'']\<rparr>"

definition builtInScenarioTemplates :: "(int \<Rightarrow> rng) \<Rightarrow> builtInScenarioTemplate gomap" where
  "builtInScenarioTemplates seeded =
     [(ScenarioNameHardlinkHeavy,
       \<lparr>st_descriptor =
        \<lparr>sd_Name = ScenarioNameHardlinkHeavy,
         sd_Intent = ''Create inode-sharing pressure with dense hardlink groups.'',
         sd_RequiredCapabilities = [BuiltInScenarioCapabilityHardlinkCreation],
         sd_Prerequisites =
        [''Filesystem and runtime must allow hardlink creation.''],
         sd_Pitfalls =
        [''Mutating one linked path mutates all paths in the same inode group.'',
        ''Path-level dedup assumptions can hide data sharing bugs.'']\<rparr>,
        st_build = buildHardlinkHeavyScenarioOptions seeded\<rparr>),
      (ScenarioNameSymlinkCycle,
       \<lparr>st_descriptor =
        \<lparr>sd_Name = ScenarioNameSymlinkCycle,
         sd_Intent = ''Exercise cycle-aware and dangling symlink traversal behavior.'',
         sd_RequiredCapabilities = [BuiltInScenarioCapabilitySymlinkCreation],
         sd_Prerequisites =
        [''Filesystem and runtime must allow symlink creation.''],
         sd_Pitfalls =
        [''Recursive scanners can loop forever without cycle detection.'',
        ''Absolute-vs-relative target rewriting can break restore parity.'']\<rparr>,
        st_build = buildSymlinkCycleScenarioOptions seeded\<rparr>),
      (ScenarioNameMetadataHeavy,
       \<lparr>st_descriptor =
        \<lparr>sd_Name = ScenarioNameMetadataHeavy,
         sd_Intent = ''Stress mode-bit and nanosecond timestamp metadata handling.'',
         sd_RequiredCapabilities = [BuiltInScenarioCapabilityLinuxTimestampMetadata],
         sd_Prerequisites =
        [''Linux is required for nanosecond timestamp metadata controls.''],
         sd_Pitfalls =
        [''Non-Linux platforms fail with explicit metadata unsupported errors.'',
        ''Mode-bit parity checks should distinguish permission bits from content data.'']\<rparr>,
        st_build = buildMetadataHeavyScenarioOptions seeded\<rparr>),
      (ScenarioNameSparseLarge,
       \<lparr>st_descriptor =
        \<lparr>sd_Name = ScenarioNameSparseLarge,
         sd_Intent = ''Stress sparse allocation and large logical file replay behavior.'',
         sd_RequiredCapabilities = [BuiltInScenarioCapabilityContentPatterns],
         sd_Prerequisites =
        [''Environment should have enough free space for the configured logical sizes.''],
         sd_Pitfalls =
        [''Logical size and allocated blocks are intentionally not equivalent.'',
        ''Block-allocation behavior differs across filesystems and mount settings.'']\<rparr>,
        st_build = buildSparseLargeScenarioOptions seeded\<rparr>),
      (ScenarioNameXAttrACLHeavy,
       \<lparr>st_descriptor =
        \<lparr>sd_Name = ScenarioNameXAttrACLHeavy,
         sd_Intent = ''Stress xattr/ACL metadata parity for backup and restore validation.'',
         sd_RequiredCapabilities = [BuiltInScenarioCapabilityLinuxXAttrMetadata,
        BuiltInScenarioCapabilityLinuxACLMetadata],
         sd_Prerequisites =
        [''Linux filesystem must support user.* xattrs and POSIX ACL xattrs.''],
         sd_Pitfalls =
        [''Some filesystems disable ACLs or xattrs by default and return unsupported errors.'',
        ''ACL semantics can vary between local and network-backed filesystems.'']\<rparr>,
        st_build = buildXAttrACLHeavyScenarioOptions seeded\<rparr>),
      (ScenarioNameDeterministicCoverageLow,
       \<lparr>st_descriptor = deterministicCoverageDescriptor ScenarioNameDeterministicCoverageLow DeterministicCoverageEffortLow,
        st_build = buildDeterministicCoverageScenarioOptions DeterministicCoverageEffortLow\<rparr>),
      (ScenarioNameDeterministicCoverageMedium,
       \<lparr>st_descriptor = deterministicCoverageDescriptor ScenarioNameDeterministicCoverageMedium DeterministicCoverageEffortMedium,
        st_build = buildDeterministicCoverageScenarioOptions DeterministicCoverageEffortMedium\<rparr>),
      (ScenarioNameDeterministicCoverageHigh,
       \<lparr>st_descriptor = deterministicCoverageDescriptor ScenarioNameDeterministicCoverageHigh DeterministicCoverageEffortHigh,
        st_build = buildDeterministicCoverageScenarioOptions DeterministicCoverageEffortHigh\<rparr>),
      (ScenarioNameDeterministicCoverageXHigh,
       \<lparr>st_descriptor = deterministicCoverageDescriptor ScenarioNameDeterministicCoverageXHigh DeterministicCoverageEffortXHigh,
        st_build = buildDeterministicCoverageScenarioOptions DeterministicCoverageEffortXHigh\<rparr>)]"

text \<open>The zero value of the template, for a name that is not a key.\<close>

definition template_of :: "(int \<Rightarrow> rng) \<Rightarrow> string \<Rightarrow> builtInScenarioTemplate" where
  "template_of seeded name =
     (case map_of (builtInScenarioTemplates seeded) name of
        Some t \<Rightarrow> t
      | None \<Rightarrow> \<lparr>st_descriptor = \<lparr>sd_Name = [], sd_Intent = [], sd_RequiredCapabilities = [], sd_Prerequisites = [],
                   sd_Pitfalls = []\<rparr>, st_build = (\<lambda>_. [])\<rparr>)"

definition BuiltInScenarioCatalog :: "(int \<Rightarrow> rng) \<Rightarrow> BuiltInScenarioDescriptor list" where
  "BuiltInScenarioCatalog seeded = map (\<lambda>name. st_descriptor (template_of seeded name)) builtInScenarioOrder"

text \<open>\<^verbatim>\<open>strings.NewReplacer("_", "-", " ", "-", "/", "-")\<close>, a replacement of single bytes.\<close>

definition dash_byte :: "char \<Rightarrow> char" where
  "dash_byte c = (if c \<in> {CHR ''_'', CHR '' '', CHR ''/''} then CHR ''-'' else c)"

text \<open>\<^verbatim>\<open>strings.Contains(s, "--")\<close> and \<^verbatim>\<open>strings.ReplaceAll(s, "--", "-")\<close>\<close>

fun has_dashes :: "string \<Rightarrow> bool" where
  "has_dashes (a # b # s) \<longleftrightarrow> a = CHR ''-'' \<and> b = CHR ''-'' \<or> has_dashes (b # s)"
| "has_dashes s \<longleftrightarrow> False"

fun replace_dashes :: "string \<Rightarrow> string" where
  "replace_dashes (a # b # s) =
     (if a = CHR ''-'' \<and> b = CHR ''-'' then CHR ''-'' # replace_dashes s else a # replace_dashes (b # s))"
| "replace_dashes s = s"

lemma replace_dashes_length: "length (replace_dashes s) \<le> length s"
  by (induction s rule: replace_dashes.induct) auto

lemma replace_dashes_shorter: "has_dashes s \<Longrightarrow> length (replace_dashes s) < length s"
proof (induction s rule: replace_dashes.induct)
  case (1 a b s)
  then show ?case using replace_dashes_length [of s] by auto
qed auto

function squeeze_dashes :: "string \<Rightarrow> string" where
  "squeeze_dashes s = (if has_dashes s then squeeze_dashes (replace_dashes s) else s)"
  by auto
termination by (relation "measure length") (auto intro: replace_dashes_shorter)

declare squeeze_dashes.simps [simp del]

definition trim_dashes :: "string \<Rightarrow> string" where
  "trim_dashes s = rev (dropWhile (\<lambda>c. c = CHR ''-'') (rev (dropWhile (\<lambda>c. c = CHR ''-'') s)))"

definition normalizeBuiltInScenarioName :: "string \<Rightarrow> string" where
  "normalizeBuiltInScenarioName name = trim_dashes (squeeze_dashes (map dash_byte (TrimSpace (ToLower name))))"

definition BuildBuiltInScenario :: "(int \<Rightarrow> rng) \<Rightarrow> string \<Rightarrow> int \<Rightarrow> err + BuiltInScenarioSpec" where
  "BuildBuiltInScenario seeded name sd =
     (let normalizedName = normalizeBuiltInScenarioName name in
      if normalizedName = [] then Inl (Sentinel ErrScenarioNameEmpty)
      else case map_of builtInScenarioAliases normalizedName of
        None \<Rightarrow> FailW ''scenario'' ErrScenarioUnknown
      | Some canonicalName \<Rightarrow>
          (case map_of (builtInScenarioTemplates seeded) canonicalName of
             None \<Rightarrow> FailW ''scenario'' ErrScenarioUnknown
           | Some t \<Rightarrow> Inr \<lparr>ss_Descriptor = st_descriptor t, ss_Seed = sd, ss_Options = st_build t sd\<rparr>))"

section \<open>Every scenario plans\<close>

lemma alphabet_byte: "[c] \<in> set FileNameAlphabetBasic \<Longrightarrow> c \<noteq> slash \<and> c \<noteq> CHR ''.''"
  by (auto simp: FileNameAlphabetBasic_def slash_def)

lemma alphabet_single: "w \<in> set FileNameAlphabetBasic \<Longrightarrow> \<exists>c. w = [c]"
  by (auto simp: FileNameAlphabetBasic_def)

lemma alphabet_concat:
  "list_all (\<lambda>w. w \<in> set FileNameAlphabetBasic) ws \<Longrightarrow>
     length (concat ws) = length ws \<and> slash \<notin> set (concat ws) \<and> CHR ''.'' \<notin> set (concat ws)"
proof (induction ws)
  case (Cons w ws)
  obtain c where "w = [c]" using Cons(2) alphabet_single by auto
  then show ?case using Cons alphabet_byte by auto
qed simp

lemma alphabet_names: "name_gen_ok (StringGeneratorAlphabet FileNameAlphabetBasic)"
  unfolding name_gen_ok_def StringGeneratorAlphabet_def makeslice_ok_def
proof (intro allI impI conjI)
  fix n :: int
  assume n: "1 \<le> n"
  have ne: "0 < int (length FileNameAlphabetBasic)" by (simp add: FileNameAlphabetBasic_def)
  have "fails (repeat_gen (nat n) (pick FileNameAlphabetBasic)) (\<lambda>_. False)"
    unfolding pick_def by (intro fails_repeat fails_bind0 fails_Intn fails_return ne)
  then show "fails (bindS (if n < 0 then raiseS (Panic ''makeslice: len out of range'') else returnS ())
      (\<lambda>_. bindS (repeat_gen (nat n) (pick FileNameAlphabetBasic)) (\<lambda>rs. returnS (concat rs)))) (\<lambda>_. False)"
    using n by (auto intro!: fails_bind0 fails_return)
  have "gives (bindS (repeat_gen (nat n) (pick FileNameAlphabetBasic)) (\<lambda>rs. returnS (concat rs))) elem_ok"
  proof (rule gives_bind [OF gives_repeat [OF gives_pick]], rule gives_return)
    fix ws
    assume ws: "length ws = nat n \<and> list_all (\<lambda>w. w \<in> set FileNameAlphabetBasic) ws"
    then show "elem_ok (concat ws)"
      using alphabet_concat [of ws] n unfolding elem_ok_def dot_def dotdot_def
      by (intro conjI notI) (auto simp del: concat_eq_Nil_conv set_concat)
  qed
  then show "gives (bindS (if n < 0 then raiseS (Panic ''makeslice: len out of range'') else returnS ())
      (\<lambda>_. bindS (repeat_gen (nat n) (pick FileNameAlphabetBasic)) (\<lambda>rs. returnS (concat rs)))) elem_ok"
    using n by simp
qed

lemma scenario_time_ready: "callback (Some (scenario_time n)) (\<lambda>_. True)"
  unfolding callback_def scenario_time_def option.case
  by (intro conjI gives_any fails_bind0 fails_Intn fails_return) simp

lemma scenario_acl: "list_all (\<lambda>x. acl_text_ok (TrimSpace x)) [''u::rwx'', ''g::r-x'', ''o::---'', ''u:1000:r--'', ''g:1000:r--'']"
  by (simp add: acl_text_ok_def TrimSpace_id space_first_def space_last_def Contains_def NUL_def)

text \<open>The five builders of random scenarios.\<close>

definition random_scenarios :: "(int \<Rightarrow> rng) \<Rightarrow> (int \<Rightarrow> Option list) set" where
  "random_scenarios seeded =
     {buildHardlinkHeavyScenarioOptions seeded, buildSymlinkCycleScenarioOptions seeded,
      buildMetadataHeavyScenarioOptions seeded, buildSparseLargeScenarioOptions seeded,
      buildXAttrACLHeavyScenarioOptions seeded}"

lemmas scenario_option_defs =
  buildHardlinkHeavyScenarioOptions_def buildSymlinkCycleScenarioOptions_def buildMetadataHeavyScenarioOptions_def
  buildSparseLargeScenarioOptions_def buildXAttrACLHeavyScenarioOptions_def builtInScenarioBaseOptions_def

lemma scenario_ready:
  assumes "build \<in> random_scenarios seeded"
  shows "list_all ready_option (build sd)"
  using assms alphabet_names scenario_time_ready scenario_acl
  unfolding random_scenarios_def scenario_option_defs FileModeGeneratorConstant_def constants_return
  by (elim insertE emptyE; simp only: list_all_append append.simps)
    (auto intro!: ready_option.intros callback_constant)

lemma template_build:
  assumes "map_of (builtInScenarioTemplates seeded) name = Some t"
  shows "st_build t \<in> random_scenarios seeded \<or>
    st_build t \<in> buildDeterministicCoverageScenarioOptions ` {DeterministicCoverageEffortLow,
      DeterministicCoverageEffortMedium, DeterministicCoverageEffortHigh, DeterministicCoverageEffortXHigh}"
  using assms unfolding builtInScenarioTemplates_def
  by (auto simp: random_scenarios_def split: if_splits)

text \<open>The options of the five scenarios that set a field by a check which always succeeds.\<close>

lemma checked_run [simp]: "checked (Inr ()) f c = Inr (c\<lparr>cfg_generator := f (cfg_generator c)\<rparr>)"
  by (simp add: checked_def)

lemma scenario_checks [simp]:
  "validateGenerator name (Some gen) = Inr ()"
  "mn \<ge> 0 \<Longrightarrow> mn < mx \<Longrightarrow> validateIntRange name mn mx = Inr ()"
  "mn \<ge> 0 \<Longrightarrow> mn < mx \<Longrightarrow> validateContentLogicalSizeRange name mn mx = Inr ()"
  "validateRunMode RunModeAppend = Inr ()"
  by (simp_all add: checks_Inr validateRunMode_def)

lemma scenario_probabilities [simp]:
  "validateProbability name (Finite 0) = Inr ()" "validateProbability name (Finite 1) = Inr ()"
  "validateProbability name (round64 (17 / 20)) = Inr ()"
  "validateSymlinkStrategyProbabilities cycle_probabilities = Inr ()"
  "validateContentPatternProbabilities pattern_probabilities = Inr ()"
proof -
  have "round64 (17 / 20) = Finite (7656119366529843 / 9007199254740992)" by code_simp
  then show "validateProbability name (round64 (17 / 20)) = Inr ()" by (simp add: validateProbability_def)
  show "validateSymlinkStrategyProbabilities cycle_probabilities = Inr ()"
    "validateContentPatternProbabilities pattern_probabilities = Inr ()" by code_simp+
qed (simp_all add: validateProbability_def)

lemma scenario_names:
  "validate_names [''user.backup.case'', ''user.backup.retention'', ''user.backup.source''] =
     Inr [''user.backup.case'', ''user.backup.retention'', ''user.backup.source'']"
  by code_simp

lemma scenario_xattrs:
  "validateXAttrName ''user.backup.case'' = Inr ''user.backup.case''" "xattrNamespace ''user.backup.case'' = ''user''"
  "validateXAttrName ''user.backup.retention'' = Inr ''user.backup.retention''" "xattrNamespace ''user.backup.retention'' = ''user''"
  "validateXAttrName ''user.backup.source'' = Inr ''user.backup.source''" "xattrNamespace ''user.backup.source'' = ''user''"
  "sort_strings [''user.backup.case'', ''user.backup.retention'', ''user.backup.source''] =
     [''user.backup.case'', ''user.backup.retention'', ''user.backup.source'']"
  by code_simp+

definition base_generator :: "string \<Rightarrow> Generator" where
  "base_generator path = (New path)\<lparr>
     dirNameGen := Some (StringGeneratorAlphabet FileNameAlphabetBasic),
     dirNameLenGen := Some (NumberGeneratorRandomFlat 6 12),
     dirModeGen := Some (FileModeGeneratorConstant 0x1E8),
     nFilesInDirGen := Some (NumberGeneratorConstant 4),
     nDirsInDirGen := Some (NumberGeneratorConstant 1),
     fileNameGen := Some (StringGeneratorAlphabet FileNameAlphabetBasic),
     fileNameLenGen := Some (NumberGeneratorRandomFlat 8 16),
     fileModeGen := Some (FileModeGeneratorConstant 0x1A0),
     dataGen := Some (DataGeneratorRandom (NumberGeneratorRandomFlat 128 512)),
     pathDepthGen := Some (NumberGeneratorConstant 2),
     symlinkProbGen := Some (BooleanGeneratorProbabilityFlat (Finite 0)),
     symlinkRelProbGen := Some (BooleanGeneratorProbabilityFlat (Finite 0)),
     hardlinkProbGen := Some (BooleanGeneratorProbabilityFlat (Finite 0))\<rparr>"

lemma base_config:
  "apply_options 0 (map Some (builtInScenarioBaseOptions seeded sd)) (NewConfig seeded path) =
     Inr \<lparr>cfg_generator = base_generator path, cfg_seed = sd, cfg_rndSrc = seeded sd, cfg_coverage = None\<rparr>"
  unfolding builtInScenarioBaseOptions_def base_generator_def
  by (simp add: plain_option_defs WithSeed_def NewConfig_def New_def defaultPlanEntryLimit_def)

text \<open>A configuration in which every mandatory callback is set, and the optional ones go in pairs.\<close>

lemma complete_config:
  assumes "dirNameGen g \<noteq> None" "dirNameLenGen g \<noteq> None" "dirModeGen g \<noteq> None" "nFilesInDirGen g \<noteq> None"
    "nDirsInDirGen g \<noteq> None" "fileNameGen g \<noteq> None" "fileNameLenGen g \<noteq> None" "fileModeGen g \<noteq> None"
    "dataGen g \<noteq> None" "(contentPatternGen g = None) = (contentLogicalSizeGen g = None)" "pathDepthGen g \<noteq> None"
    "(ownershipUIDGen g = None) = (ownershipGIDGen g = None)" "(atimeGen g = None) = (mtimeGen g = None)"
    "symlinkProbGen g \<noteq> None" "symlinkRelProbGen g \<noteq> None" "(specialFileProbGen g = None) = (specialFileTypeGen g = None)"
    "(specialDeviceMajorGen g = None) = (specialDeviceMinorGen g = None)"
    "is_ok (validateXAttrConfiguration g)" "is_ok (validateRunMode (runMode g))" "0 < planEntryLimit g"
  shows "validateRunConfiguration g = Inr ()"
  using assms by (simp add: validateRunConfiguration_def missing_parts_def)

definition scenario_accepted :: "gconfig \<Rightarrow> int \<Rightarrow> bool" where
  "scenario_accepted c sd \<longleftrightarrow> validateRunConfiguration (cfg_generator c) = Inr () \<and> cfg_seed c = sd \<and>
     cfg_coverage c = None \<and> specialFileTypeGen (cfg_generator c) = None"

lemma scenario_acceptedI:
  assumes "\<exists>c. apply_options (length (builtInScenarioBaseOptions seeded sd)) (map Some more_options)
      \<lparr>cfg_generator = base_generator path, cfg_seed = sd, cfg_rndSrc = seeded sd, cfg_coverage = None\<rparr> = Inr c \<and>
    scenario_accepted c sd"
  shows "\<exists>c. apply_options 0 (map Some (builtInScenarioBaseOptions seeded sd @ more_options)) (NewConfig seeded path) = Inr c \<and>
    scenario_accepted c sd"
  using assms by (simp add: apply_options_append base_config)

lemmas accepted_defs = scenario_accepted_def base_generator_def New_def validateXAttrConfiguration_def validateRunMode_def

lemma accepted_hardlinks:
  "\<exists>c. apply_options 0 (map Some (buildHardlinkHeavyScenarioOptions seeded sd)) (NewConfig seeded path) = Inr c \<and> scenario_accepted c sd"
  unfolding buildHardlinkHeavyScenarioOptions_def
  by (rule scenario_acceptedI) (simp add: plain_option_defs, simp add: accepted_defs complete_config)

lemma accepted_cycles:
  "\<exists>c. apply_options 0 (map Some (buildSymlinkCycleScenarioOptions seeded sd)) (NewConfig seeded path) = Inr c \<and> scenario_accepted c sd"
  unfolding buildSymlinkCycleScenarioOptions_def
  by (rule scenario_acceptedI) (simp add: plain_option_defs, simp add: accepted_defs complete_config)

lemma accepted_metadata:
  "\<exists>c. apply_options 0 (map Some (buildMetadataHeavyScenarioOptions seeded sd)) (NewConfig seeded path) = Inr c \<and> scenario_accepted c sd"
  unfolding buildMetadataHeavyScenarioOptions_def
  by (rule scenario_acceptedI) (simp add: plain_option_defs, simp add: accepted_defs complete_config)

lemma accepted_sparse:
  "\<exists>c. apply_options 0 (map Some (buildSparseLargeScenarioOptions seeded sd)) (NewConfig seeded path) = Inr c \<and> scenario_accepted c sd"
  unfolding buildSparseLargeScenarioOptions_def
  by (rule scenario_acceptedI) (simp add: plain_option_defs, simp add: accepted_defs complete_config)

lemma accepted_xattrs:
  "\<exists>c. apply_options 0 (map Some (buildXAttrACLHeavyScenarioOptions seeded sd)) (NewConfig seeded path) = Inr c \<and> scenario_accepted c sd"
  unfolding buildXAttrACLHeavyScenarioOptions_def
  by (rule scenario_acceptedI)
    (simp add: plain_option_defs WithXAttrsFixed_def keys_def scenario_names scenario_xattrs,
     simp add: accepted_defs complete_config scenario_xattrs)

lemma scenario_config:
  assumes "build \<in> random_scenarios seeded"
  shows "\<exists>c. apply_options 0 (map Some (build sd)) (NewConfig seeded path) = Inr c \<and> scenario_accepted c sd"
  using assms accepted_hardlinks accepted_cycles accepted_metadata accepted_sparse accepted_xattrs
  unfolding random_scenarios_def by blast

text \<open>
  C39: every name the catalog knows stands for a working configuration: its options apply to a new
  generator, and either they ask for the coverage run with a legal effort, or the generator has the
  given seed, is complete, and plans from every random source without errors of its own (only the
  entry limit and exhausted name collisions can stop it).
\<close>

theorem BuildBuiltInScenario_plans:
  assumes "BuildBuiltInScenario seeded name sd = Inr spec" and "clean_abs path"
  shows "\<exists>c. NewWithOptions seeded path (map Some (ss_Options spec)) = Inr c \<and>
    (case cfg_coverage c of
       Some opts \<Rightarrow> is_ok (validateDeterministicCoverageEffort (co_effort opts))
     | None \<Rightarrow> cfg_seed c = sd \<and> validateRunConfiguration (cfg_generator c) = Inr () \<and>
         (\<forall>r. case snd (fst (planRun (cfg_generator c) r)) of
            Inr _ \<Rightarrow> True
          | Inl e \<Rightarrow> errors_Is e ErrPlanEntryLimitExceeded \<or> errors_Is e ErrPlanPathCollisionExhausted))"
proof -
  obtain key t where t: "map_of (builtInScenarioTemplates seeded) key = Some t" "ss_Options spec = st_build t sd"
    using assms(1) by (auto simp: BuildBuiltInScenario_def Let_def split: if_splits option.splits)
  from template_build [OF t(1)] show ?thesis
  proof
    assume b: "st_build t \<in> random_scenarios seeded"
    obtain c where c: "apply_options 0 (map Some (st_build t sd)) (NewConfig seeded path) = Inr c"
      "validateRunConfiguration (cfg_generator c) = Inr ()" "cfg_seed c = sd" "cfg_coverage c = None"
      "specialFileTypeGen (cfg_generator c) = None"
      using scenario_config [OF b] unfolding scenario_accepted_def by blast
    have "list_all (pred_option ready_option) (map Some (st_build t sd))"
      using scenario_ready [OF b] by (simp add: list_all_iff)
    note ready = ready_options [OF c(1) this]
    have "settings_ok (cfg_generator c)" and base: "basePath (cfg_generator c) = path"
      using ready New_settings by (simp_all add: NewConfig_def New_def)
    then have "callbacks_ok (cfg_generator c)" using settings_callbacks c(5) by blast
    note gens = gens_ok_callbacks [OF c(2) this]
    have "case snd (fst (planRun (cfg_generator c) r)) of Inr _ \<Rightarrow> True
      | Inl e \<Rightarrow> errors_Is e ErrPlanEntryLimitExceeded \<or> errors_Is e ErrPlanPathCollisionExhausted" for r
    proof (cases "planRun (cfg_generator c) r")
      case (Pair pr r')
      obtain plan res where pr: "pr = (plan, res)" by fastforce
      show ?thesis
      proof (cases res)
        case (Inl e)
        then have "planning_error e"
          using planRun_seg [OF gens] Pair pr base assms(2) by blast
        then show ?thesis using Pair pr Inl by (simp add: planning_error_def)
      qed (simp add: Pair pr)
    qed
    moreover have "NewWithOptions seeded path (map Some (ss_Options spec)) = Inr c"
      using c(1) t(2) by (simp add: NewWithOptions_def Configure_def)
    ultimately show ?thesis using c by auto
  next
    assume "st_build t \<in> buildDeterministicCoverageScenarioOptions ` {DeterministicCoverageEffortLow,
      DeterministicCoverageEffortMedium, DeterministicCoverageEffortHigh, DeterministicCoverageEffortXHigh}"
    then show ?thesis
      using t(2) by (auto simp: buildDeterministicCoverageScenarioOptions_def NewWithOptions_def Configure_def
          WithDeterministicCoverage_def validateDeterministicCoverageEffort_def)
  qed
qed

section \<open>A sample scenario\<close>

lemma normalize_sample: "normalizeBuiltInScenarioName ''Hardlink__Heavy / Tree'' = ''hardlink-heavy-tree''"
proof -
  have l: "ToLower ''Hardlink__Heavy / Tree'' = ''hardlink__heavy / tree''" by code_simp
  have t: "TrimSpace ''hardlink__heavy / tree'' = ''hardlink__heavy / tree''"
    by (rule TrimSpace_id) (simp_all add: space_first_def space_last_def)
  have "trim_dashes (squeeze_dashes (map dash_byte ''hardlink__heavy / tree'')) = ''hardlink-heavy-tree''" by code_simp
  then show ?thesis unfolding normalizeBuiltInScenarioName_def l t .
qed

lemma sample_scenario:
  "\<exists>spec. BuildBuiltInScenario (\<lambda>s. []) ''Hardlink__Heavy / Tree'' 5 = Inr spec \<and>
     ss_Options spec = buildHardlinkHeavyScenarioOptions (\<lambda>s. []) 5"
  unfolding BuildBuiltInScenario_def normalize_sample
  by (simp add: builtInScenarioAliases_def builtInScenarioTemplates_def)

theorem BuildBuiltInScenario_plans_witness:
  "\<exists>c. NewWithOptions (\<lambda>s. []) ''/b'' (map Some (buildHardlinkHeavyScenarioOptions (\<lambda>s. []) 5)) = Inr c \<and>
    (case cfg_coverage c of
       Some opts \<Rightarrow> is_ok (validateDeterministicCoverageEffort (co_effort opts))
     | None \<Rightarrow> cfg_seed c = 5 \<and> validateRunConfiguration (cfg_generator c) = Inr () \<and>
         (\<forall>r. case snd (fst (planRun (cfg_generator c) r)) of
            Inr _ \<Rightarrow> True
          | Inl e \<Rightarrow> errors_Is e ErrPlanEntryLimitExceeded \<or> errors_Is e ErrPlanPathCollisionExhausted))"
proof -
  obtain spec where spec: "BuildBuiltInScenario (\<lambda>s. []) ''Hardlink__Heavy / Tree'' 5 = Inr spec"
    "ss_Options spec = buildHardlinkHeavyScenarioOptions (\<lambda>s. []) 5"
    using sample_scenario by blast
  have "clean_abs ''/b''" by code_simp
  from BuildBuiltInScenario_plans [OF spec(1) this] show ?thesis unfolding spec(2) .
qed

end
