(* ===== verification/Manifest.thy ===== *)
theory Manifest
  imports Options Coverage Executor
begin

text \<open>
  Scenario manifests (\<^verbatim>\<open>manifest.go\<close>, \<^verbatim>\<open>manifest_json.go\<close>, \<^verbatim>\<open>manifest_yaml.go\<close>): the document, its
  normalization, its checksum, the capabilities it needs, the way from a plan to a manifest and
  back, and building, exporting, parsing and applying manifests. The JSON and YAML libraries are
  arguments, as are the encoding the checksum is taken of (\<open>canonical\<close>) and the hash (\<open>sha256\<close>).
  A pointer that may be nil is an option, a map that is only read in sorted order a list of bindings.
\<close>

section \<open>The document\<close>

definition scenarioManifestVersionMinSupported :: int where
  "scenarioManifestVersionMinSupported = 1"

definition scenarioManifestVersionMaxSupported :: int where
  "scenarioManifestVersionMaxSupported = 1"

definition scenarioManifestVersion :: int where
  "scenarioManifestVersion = scenarioManifestVersionMaxSupported"

abbreviation scenarioManifestChecksumAlgorithmSHA256 :: string where
  "scenarioManifestChecksumAlgorithmSHA256 \<equiv> ''sha256''"

record ScenarioManifestSetting =
  ms_Name :: string
  ms_Value :: string

record ScenarioManifestGenerator =
  mg_Seed :: int
  mg_RunMode :: RunMode
  mg_PlanEntryLimit :: int
  mg_DeterministicSettings :: "ScenarioManifestSetting list"

record ScenarioManifestIntegrity =
  mi_Algorithm :: string
  mi_Checksum :: string

type_synonym ScenarioManifestCapability = string

abbreviation ScenarioManifestCapabilityLinuxSpecialFiles :: ScenarioManifestCapability where
  "ScenarioManifestCapabilityLinuxSpecialFiles \<equiv> ''linux-special-files''"
abbreviation ScenarioManifestCapabilityLinuxOwnershipMetadata :: ScenarioManifestCapability where
  "ScenarioManifestCapabilityLinuxOwnershipMetadata \<equiv> ''linux-ownership-metadata''"
abbreviation ScenarioManifestCapabilityLinuxTimestampMetadata :: ScenarioManifestCapability where
  "ScenarioManifestCapabilityLinuxTimestampMetadata \<equiv> ''linux-timestamp-metadata''"
abbreviation ScenarioManifestCapabilityLinuxXAttrMetadata :: ScenarioManifestCapability where
  "ScenarioManifestCapabilityLinuxXAttrMetadata \<equiv> ''linux-xattr-metadata''"
abbreviation ScenarioManifestCapabilityLinuxACLMetadata :: ScenarioManifestCapability where
  "ScenarioManifestCapabilityLinuxACLMetadata \<equiv> ''linux-acl-metadata''"
abbreviation ScenarioManifestCapabilityOperationXAttr :: ScenarioManifestCapability where
  "ScenarioManifestCapabilityOperationXAttr \<equiv> ''operation-xattr''"
abbreviation ScenarioManifestCapabilityOperationChown :: ScenarioManifestCapability where
  "ScenarioManifestCapabilityOperationChown \<equiv> ''operation-chown''"

type_synonym ScenarioManifestEntryType = string

abbreviation ScenarioManifestEntryTypeDir :: ScenarioManifestEntryType where
  "ScenarioManifestEntryTypeDir \<equiv> ''dir''"
abbreviation ScenarioManifestEntryTypeFile :: ScenarioManifestEntryType where
  "ScenarioManifestEntryTypeFile \<equiv> ''file''"
abbreviation ScenarioManifestEntryTypeSymlink :: ScenarioManifestEntryType where
  "ScenarioManifestEntryTypeSymlink \<equiv> ''symlink''"
abbreviation ScenarioManifestEntryTypeHardlink :: ScenarioManifestEntryType where
  "ScenarioManifestEntryTypeHardlink \<equiv> ''hardlink''"
abbreviation ScenarioManifestEntryTypeSpecial :: ScenarioManifestEntryType where
  "ScenarioManifestEntryTypeSpecial \<equiv> ''special''"

type_synonym ScenarioManifestLinkTargetType = string

abbreviation ScenarioManifestLinkTargetTypeLiteral :: ScenarioManifestLinkTargetType where
  "ScenarioManifestLinkTargetTypeLiteral \<equiv> ''literal''"
abbreviation ScenarioManifestLinkTargetTypeManifestPath :: ScenarioManifestLinkTargetType where
  "ScenarioManifestLinkTargetTypeManifestPath \<equiv> ''manifest-path''"

record ScenarioManifestSpecialFile =
  sf_Type :: SpecialFileType
  sf_DeviceMajor :: int
  sf_DeviceMinor :: int

record ScenarioManifestContentRange =
  cr_Offset :: int
  cr_Length :: int
  cr_Seed :: int

record ScenarioManifestFileContent =
  fc_Pattern :: ContentPattern
  fc_LogicalSize :: int
  fc_Seed :: int
  fc_RepeatedBlock :: "8 word list"
  fc_SparseExtents :: "ScenarioManifestContentRange list"
  fc_OverwriteExtents :: "ScenarioManifestContentRange list"

record ScenarioManifestOwnership =
  mo_UID :: int
  mo_GID :: int

record ScenarioManifestTimestamps =
  mt_AtimeUnixNano :: int
  mt_MtimeUnixNano :: int

record ScenarioManifestXAttr =
  mx_Name :: string
  mx_Value :: "8 word list"

record ScenarioManifestMetadata =
  mm_Ownership :: "ScenarioManifestOwnership option"
  mm_Timestamps :: "ScenarioManifestTimestamps option"
  mm_XAttrs :: "ScenarioManifestXAttr list"
  mm_ACL :: "string list"

record ScenarioManifestEntry =
  me_Type :: ScenarioManifestEntryType
  me_Path :: string
  me_Mode :: "32 word"
  me_Data :: "8 word list"
  me_Content :: "ScenarioManifestFileContent option"
  me_LinkTarget :: string
  me_LinkTargetType :: ScenarioManifestLinkTargetType
  me_SourcePath :: string
  me_Special :: "ScenarioManifestSpecialFile option"
  me_Metadata :: "ScenarioManifestMetadata option"

record ScenarioManifest =
  sm_Version :: int
  sm_Generator :: ScenarioManifestGenerator
  sm_Entries :: "ScenarioManifestEntry list"
  sm_Operations :: "Operation list"
  sm_RequiredCapabilities :: "ScenarioManifestCapability list"
  sm_Integrity :: ScenarioManifestIntegrity

text \<open>The zero values the literals of the code start from.\<close>

definition ScenarioManifestEntry0 :: "ScenarioManifestEntryType \<Rightarrow> ScenarioManifestEntry" where
  "ScenarioManifestEntry0 t =
     \<lparr>me_Type = t, me_Path = [], me_Mode = 0, me_Data = [], me_Content = None, me_LinkTarget = [],
      me_LinkTargetType = [], me_SourcePath = [], me_Special = None, me_Metadata = None\<rparr>"

definition ScenarioManifestMetadata0 :: ScenarioManifestMetadata where
  "ScenarioManifestMetadata0 = \<lparr>mm_Ownership = None, mm_Timestamps = None, mm_XAttrs = [], mm_ACL = []\<rparr>"

definition ScenarioManifestIntegrity0 :: ScenarioManifestIntegrity where
  "ScenarioManifestIntegrity0 = \<lparr>mi_Algorithm = [], mi_Checksum = []\<rparr>"

section \<open>Normalization of the parts\<close>

definition validateScenarioManifestVersion :: "int \<Rightarrow> err + unit" where
  "validateScenarioManifestVersion version =
     (if version < scenarioManifestVersionMinSupported then FailW '''' ErrScenarioManifestVersionTooOld
      else if version > scenarioManifestVersionMaxSupported then FailW '''' ErrScenarioManifestVersionTooNew
      else Inr ())"

definition validateScenarioManifestCapability :: "ScenarioManifestCapability \<Rightarrow> err + unit" where
  "validateScenarioManifestCapability capability =
     (if capability \<in> {ScenarioManifestCapabilityLinuxSpecialFiles, ScenarioManifestCapabilityLinuxOwnershipMetadata,
        ScenarioManifestCapabilityLinuxTimestampMetadata, ScenarioManifestCapabilityLinuxXAttrMetadata,
        ScenarioManifestCapabilityLinuxACLMetadata, ScenarioManifestCapabilityOperationXAttr,
        ScenarioManifestCapabilityOperationChown}
      then Inr () else FailW '''' ErrScenarioManifestCapabilityUnsupported)"

text \<open>The loops over the settings and the capabilities, with the names seen so far.\<close>

fun normalize_settings :: "string list \<Rightarrow> ScenarioManifestSetting list \<Rightarrow> err + ScenarioManifestSetting list" where
  "normalize_settings seen [] = Inr []"
| "normalize_settings seen (setting # rest) =
     (let name = TrimSpace (ms_Name setting) in
      if name = [] then Err ''generator deterministic setting has empty name''
      else if name \<in> set seen then Err ''generator deterministic setting is duplicated''
      else bindE (normalize_settings (name # seen) rest) (\<lambda>ss.
        Inr (\<lparr>ms_Name = name, ms_Value = ms_Value setting\<rparr> # ss)))"

fun normalize_capabilities :: "string list \<Rightarrow> ScenarioManifestCapability list \<Rightarrow> err + ScenarioManifestCapability list" where
  "normalize_capabilities seen [] = Inr []"
| "normalize_capabilities seen (capability # rest) =
     (let name = TrimSpace capability in
      if name = [] then Err ''required capability is empty''
      else bindE (wrapE ''required capability'' (validateScenarioManifestCapability name)) (\<lambda>_.
        if name \<in> set seen then Err ''required capability is duplicated''
        else bindE (normalize_capabilities (name # seen) rest) (\<lambda>cs. Inr (name # cs))))"

definition normalizeScenarioManifestCapabilities ::
  "ScenarioManifestCapability list \<Rightarrow> err + ScenarioManifestCapability list" where
  "normalizeScenarioManifestCapabilities capabilities =
     (if capabilities = [] then Inr []
      else bindE (normalize_capabilities [] capabilities) (\<lambda>normalized. Inr (sort_strings normalized)))"

definition validateScenarioManifestEntryType :: "ScenarioManifestEntryType \<Rightarrow> err + unit" where
  "validateScenarioManifestEntryType typeName =
     (if typeName \<in> {ScenarioManifestEntryTypeDir, ScenarioManifestEntryTypeFile, ScenarioManifestEntryTypeSymlink,
        ScenarioManifestEntryTypeHardlink, ScenarioManifestEntryTypeSpecial}
      then Inr () else Err ''invalid manifest entry type'')"

definition normalizeScenarioManifestLinkTargetType ::
  "ScenarioManifestLinkTargetType \<Rightarrow> err + ScenarioManifestLinkTargetType" where
  "normalizeScenarioManifestLinkTargetType typeName =
     (if typeName = [] then Inr ScenarioManifestLinkTargetTypeLiteral
      else if typeName \<in> {ScenarioManifestLinkTargetTypeLiteral, ScenarioManifestLinkTargetTypeManifestPath}
      then Inr typeName else Err ''invalid symlink target type'')"

definition normalizeScenarioManifestSpecialFile ::
  "ScenarioManifestSpecialFile \<Rightarrow> err + ScenarioManifestSpecialFile" where
  "normalizeScenarioManifestSpecialFile special =
     bindE (validateSpecialFileType (sf_Type special)) (\<lambda>_.
     if sf_DeviceMajor special < 0 then Err ''special device major must be >= 0''
     else if sf_DeviceMinor special < 0 then Err ''special device minor must be >= 0''
     else if isSpecialDeviceType (sf_Type special) then Inr special
     else Inr (special\<lparr>sf_DeviceMajor := 0, sf_DeviceMinor := 0\<rparr>))"

text \<open>The loop over the extents; the sum wraps like an \<^verbatim>\<open>int64\<close>.\<close>

fun check_extents :: "int \<Rightarrow> ScenarioManifestContentRange list \<Rightarrow> err + ScenarioManifestContentRange list" where
  "check_extents logicalSize [] = Inr []"
| "check_extents logicalSize (extent # rest) =
     (if cr_Offset extent < 0 then Err ''extent offset must be >= 0''
      else if cr_Length extent \<le> 0 then Err ''extent length must be > 0''
      else if wrap64 (cr_Offset extent + cr_Length extent) > logicalSize then Err ''extent exceeds logical size''
      else bindE (check_extents logicalSize rest) (\<lambda>es. Inr (extent # es)))"

definition normalizeScenarioManifestFileContent ::
  "ScenarioManifestFileContent option \<Rightarrow> err + ScenarioManifestFileContent option" where
  "normalizeScenarioManifestFileContent content =
     (case content of None \<Rightarrow> Inr None
      | Some content \<Rightarrow>
          bindE (validateContentPattern (fc_Pattern content)) (\<lambda>_.
          if fc_LogicalSize content < 0 then Err ''content logical size must be >= 0''
          else bindE (check_extents (fc_LogicalSize content) (fc_SparseExtents content)) (\<lambda>sparse.
          bindE (check_extents (fc_LogicalSize content) (fc_OverwriteExtents content)) (\<lambda>overwrites.
          let normalized =
            \<lparr>fc_Pattern = fc_Pattern content, fc_LogicalSize = fc_LogicalSize content, fc_Seed = fc_Seed content,
             fc_RepeatedBlock = cloneBytes (fc_RepeatedBlock content), fc_SparseExtents = sparse,
             fc_OverwriteExtents = overwrites\<rparr> in
          if fc_Pattern normalized = ContentPatternRepeatedBlocks \<and> fc_LogicalSize normalized > 0 \<and>
             fc_RepeatedBlock normalized = []
          then Fail ErrContentPatternRepeatedBlockEmpty
          else Inr (Some normalized)))))"

fun normalize_xattrs :: "string list \<Rightarrow> ScenarioManifestXAttr list \<Rightarrow> err + ScenarioManifestXAttr list" where
  "normalize_xattrs seen [] = Inr []"
| "normalize_xattrs seen (xattr # rest) =
     bindE (wrapE ''xattr'' (validateXAttrName (mx_Name xattr))) (\<lambda>name.
     if name \<in> set seen then Err ''xattr is duplicated''
     else bindE (normalize_xattrs (name # seen) rest) (\<lambda>xs.
       Inr (\<lparr>mx_Name = name, mx_Value = cloneBytes (mx_Value xattr)\<rparr> # xs)))"

definition normalizeScenarioManifestMetadata ::
  "ScenarioManifestMetadata option \<Rightarrow> err + ScenarioManifestMetadata option" where
  "normalizeScenarioManifestMetadata metadata =
     (case metadata of None \<Rightarrow> Inr None
      | Some metadata \<Rightarrow>
          bindE (case mm_Ownership metadata of
                   None \<Rightarrow> Inr None
                 | Some ow \<Rightarrow>
                     if mo_UID ow < 0 then Err ''metadata ownership uid must be >= 0''
                     else if mo_GID ow < 0 then Err ''metadata ownership gid must be >= 0''
                     else Inr (Some \<lparr>mo_UID = mo_UID ow, mo_GID = mo_GID ow\<rparr>)) (\<lambda>ownership.
          bindE (if mm_XAttrs metadata = [] then Inr []
                 else bindE (normalize_xattrs [] (mm_XAttrs metadata)) (\<lambda>xs. Inr (sort_key mx_Name xs))) (\<lambda>xattrs.
          bindE (if mm_ACL metadata = [] then Inr [] else normalizeACLEntries (mm_ACL metadata)) (\<lambda>acl.
          let normalized = \<lparr>mm_Ownership = ownership, mm_Timestamps = mm_Timestamps metadata,
                mm_XAttrs = xattrs, mm_ACL = acl\<rparr> in
          if mm_Ownership normalized = None \<and> mm_Timestamps normalized = None \<and> mm_XAttrs normalized = [] \<and>
             mm_ACL normalized = []
          then Inr None else Inr (Some normalized)))))"

definition normalizeScenarioManifestEntry :: "ScenarioManifestEntry \<Rightarrow> err + ScenarioManifestEntry" where
  "normalizeScenarioManifestEntry entry =
     bindE (wrapE ''manifest entry'' (validateScenarioManifestEntryType (me_Type entry))) (\<lambda>_.
     bindE (wrapE ''manifest entry path''
              (normalizeOperationPath (me_Path entry) (me_Type entry = ScenarioManifestEntryTypeDir))) (\<lambda>path.
     bindE (case validateMode (me_Mode entry) of
              Inl e \<Rightarrow>
                if me_Mode entry \<noteq> 0 \<or> me_Type entry = ScenarioManifestEntryTypeDir \<or>
                   me_Type entry = ScenarioManifestEntryTypeFile \<or> me_Type entry = ScenarioManifestEntryTypeSpecial
                then Inl (Errorf ''manifest entry mode'' (Some e)) else Inr ()
            | Inr _ \<Rightarrow> Inr ()) (\<lambda>_.
     let normalized = (ScenarioManifestEntry0 (me_Type entry))\<lparr>me_Path := path, me_Mode := me_Mode entry\<rparr> in
     if me_Type entry = ScenarioManifestEntryTypeDir then
       if path \<noteq> ''/'' \<and> me_Mode entry = 0 then Err ''manifest entry directory mode must be set''
       else bindE (wrapE ''manifest entry metadata'' (normalizeScenarioManifestMetadata (me_Metadata entry))) (\<lambda>metadata.
         Inr (normalized\<lparr>me_Metadata := metadata\<rparr>))
     else if me_Type entry = ScenarioManifestEntryTypeFile then
       if me_Mode entry = 0 then Err ''manifest entry file mode must be set''
       else bindE (wrapE ''manifest entry content'' (normalizeScenarioManifestFileContent (me_Content entry))) (\<lambda>content.
         if content \<noteq> None \<and> cloneBytes (me_Data entry) \<noteq> []
         then Err ''manifest entry file must not define both data and content pattern''
         else bindE (wrapE ''manifest entry metadata'' (normalizeScenarioManifestMetadata (me_Metadata entry))) (\<lambda>metadata.
           Inr (normalized\<lparr>me_Data := cloneBytes (me_Data entry), me_Content := content, me_Metadata := metadata\<rparr>)))
     else if me_Type entry = ScenarioManifestEntryTypeSymlink then
       if TrimSpace (me_LinkTarget entry) = [] then Err ''manifest entry symlink target must not be empty''
       else if Contains (me_LinkTarget entry) NUL then Err ''manifest entry symlink target must not contain NUL bytes''
       else bindE (wrapE ''manifest entry symlink target type''
                     (normalizeScenarioManifestLinkTargetType (me_LinkTargetType entry))) (\<lambda>targetType.
         if targetType = ScenarioManifestLinkTargetTypeManifestPath then
           bindE (wrapE ''manifest entry symlink target path'' (normalizeOperationPath (me_LinkTarget entry) True)) (\<lambda>target.
             Inr (normalized\<lparr>me_LinkTarget := target, me_LinkTargetType := targetType\<rparr>))
         else Inr (normalized\<lparr>me_LinkTarget := me_LinkTarget entry, me_LinkTargetType := targetType\<rparr>))
     else if me_Type entry = ScenarioManifestEntryTypeHardlink then
       bindE (wrapE ''manifest entry hardlink source path'' (normalizeOperationPath (me_SourcePath entry) False)) (\<lambda>source.
         if source = path then Err ''manifest entry hardlink source and destination must differ''
         else Inr (normalized\<lparr>me_SourcePath := source\<rparr>))
     else if me_Mode entry = 0 then Err ''manifest entry special file mode must be set''
     else (case me_Special entry of
         None \<Rightarrow> Err ''manifest entry special file metadata must be set''
       | Some special \<Rightarrow>
           bindE (wrapE ''manifest entry special file metadata'' (normalizeScenarioManifestSpecialFile special)) (\<lambda>normalizedSpecial.
           bindE (wrapE ''manifest entry metadata'' (normalizeScenarioManifestMetadata (me_Metadata entry))) (\<lambda>metadata.
             if metadata \<noteq> None then Err ''manifest entry special files do not support metadata''
             else Inr (normalized\<lparr>me_Special := Some normalizedSpecial\<rparr>)))))))"

section \<open>Capabilities\<close>

definition entry_capabilities :: "ScenarioManifestEntry \<Rightarrow> ScenarioManifestCapability list" where
  "entry_capabilities entry =
     (if me_Type entry = ScenarioManifestEntryTypeSpecial then [ScenarioManifestCapabilityLinuxSpecialFiles] else []) @
     (case me_Metadata entry of None \<Rightarrow> []
      | Some m \<Rightarrow>
          (if mm_Ownership m \<noteq> None then [ScenarioManifestCapabilityLinuxOwnershipMetadata] else []) @
          (if mm_Timestamps m \<noteq> None then [ScenarioManifestCapabilityLinuxTimestampMetadata] else []) @
          (if mm_XAttrs m \<noteq> [] then [ScenarioManifestCapabilityLinuxXAttrMetadata] else []) @
          (if mm_ACL m \<noteq> [] then [ScenarioManifestCapabilityLinuxACLMetadata] else []))"

definition operation_capabilities :: "Operation \<Rightarrow> ScenarioManifestCapability list" where
  "operation_capabilities op =
     (case opKind op of
        OperationKindSetXAttr \<Rightarrow> [ScenarioManifestCapabilityOperationXAttr]
      | OperationKindRemoveXAttr \<Rightarrow> [ScenarioManifestCapabilityOperationXAttr]
      | OperationKindChown \<Rightarrow> [ScenarioManifestCapabilityOperationChown]
      | _ \<Rightarrow> [])"

text \<open>The set is a list without repetitions, sorted in the end.\<close>

definition deriveScenarioManifestCapabilities ::
  "ScenarioManifestEntry list \<Rightarrow> Operation list \<Rightarrow> ScenarioManifestCapability list" where
  "deriveScenarioManifestCapabilities es ops =
     sort_strings (remdups (concat (map entry_capabilities es) @ concat (map operation_capabilities ops)))"

text \<open>\<open>goos\<close> is \<^verbatim>\<open>runtime.GOOS\<close>.\<close>

fun ensureScenarioManifestCapabilities :: "string \<Rightarrow> ScenarioManifestCapability list \<Rightarrow> err + unit" where
  "ensureScenarioManifestCapabilities goos [] = Inr ()"
| "ensureScenarioManifestCapabilities goos (capability # rest) =
     bindE (validateScenarioManifestCapability capability) (\<lambda>_.
     if capability \<in> {ScenarioManifestCapabilityLinuxSpecialFiles, ScenarioManifestCapabilityLinuxOwnershipMetadata,
          ScenarioManifestCapabilityLinuxTimestampMetadata, ScenarioManifestCapabilityLinuxXAttrMetadata,
          ScenarioManifestCapabilityLinuxACLMetadata, ScenarioManifestCapabilityOperationXAttr} \<and> goos \<noteq> ''linux''
     then FailW '''' ErrScenarioManifestCapabilityUnsupported
     else if capability = ScenarioManifestCapabilityOperationChown \<and> goos = ''windows''
     then FailW '''' ErrScenarioManifestCapabilityUnsupported
     else ensureScenarioManifestCapabilities goos rest)"

section \<open>Normalization of a manifest\<close>

text \<open>The directory of a path as the manifest names it.\<close>

definition parent_of :: "string \<Rightarrow> string" where
  "parent_of path = (let parentPath = Clean (Dir path) in if parentPath = dot then ''/'' else parentPath)"

text \<open>The loop that enters the paths with their types; a parent comes before its children.\<close>

fun check_tree :: "ScenarioManifestEntryType gomap \<Rightarrow> ScenarioManifestEntry list \<Rightarrow> err + ScenarioManifestEntryType gomap" where
  "check_tree pathSet [] = Inr pathSet"
| "check_tree pathSet (entry # rest) =
     (if has pathSet (me_Path entry) then Err ''manifest entry duplicates existing entry''
      else let pathSet = put (me_Path entry) (me_Type entry) pathSet in
        if me_Path entry = ''/'' then check_tree pathSet rest
        else (case map_of pathSet (parent_of (me_Path entry)) of
            None \<Rightarrow> Err ''manifest entry has missing parent directory''
          | Some parentType \<Rightarrow>
              if parentType \<noteq> ScenarioManifestEntryTypeDir then Err ''manifest entry parent is not a directory''
              else check_tree pathSet rest))"

fun check_hardlinks :: "ScenarioManifestEntryType gomap \<Rightarrow> ScenarioManifestEntry list \<Rightarrow> err + unit" where
  "check_hardlinks pathSet [] = Inr ()"
| "check_hardlinks pathSet (entry # rest) =
     (if me_Type entry \<noteq> ScenarioManifestEntryTypeHardlink then check_hardlinks pathSet rest
      else case map_of pathSet (me_SourcePath entry) of
          None \<Rightarrow> Err ''manifest hardlink entry source path does not exist in manifest''
        | Some sourceType \<Rightarrow>
            if sourceType \<noteq> ScenarioManifestEntryTypeFile \<and> sourceType \<noteq> ScenarioManifestEntryTypeHardlink
            then Err ''manifest hardlink entry source path is not a regular file path''
            else check_hardlinks pathSet rest)"

fun check_symlinks :: "ScenarioManifestEntryType gomap \<Rightarrow> ScenarioManifestEntry list \<Rightarrow> err + unit" where
  "check_symlinks pathSet [] = Inr ()"
| "check_symlinks pathSet (entry # rest) =
     (if me_Type entry \<noteq> ScenarioManifestEntryTypeSymlink then check_symlinks pathSet rest
      else if me_LinkTargetType entry \<noteq> ScenarioManifestLinkTargetTypeManifestPath then check_symlinks pathSet rest
      else if \<not> has pathSet (me_LinkTarget entry)
      then Err ''manifest symlink entry target path does not exist in manifest''
      else check_symlinks pathSet rest)"

definition normalizeScenarioManifest :: "ScenarioManifest \<Rightarrow> err + ScenarioManifest" where
  "normalizeScenarioManifest manifest =
     bindE (validateScenarioManifestVersion (sm_Version manifest)) (\<lambda>_.
     let gen = sm_Generator manifest in
     bindE (wrapE ''generator run mode'' (validateRunMode (mg_RunMode gen))) (\<lambda>_.
     if mg_PlanEntryLimit gen \<le> 0 then FailW ''generator plan entry limit'' ErrPlanEntryLimitInvalid
     else bindE (normalize_settings [] (mg_DeterministicSettings gen)) (\<lambda>settings.
     bindE (normalizeScenarioManifestCapabilities (sm_RequiredCapabilities manifest)) (\<lambda>capabilities.
     if sm_Entries manifest = [] then Err ''scenario manifest entries must not be empty''
     else bindE (mapE_from 0 (\<lambda>_. normalizeScenarioManifestEntry) (sm_Entries manifest)) (\<lambda>es.
     if me_Type (hd es) \<noteq> ScenarioManifestEntryTypeDir \<or> me_Path (hd es) \<noteq> ''/''
     then Err ''first scenario manifest entry must be root directory''
     else bindE (check_tree [] es) (\<lambda>pathSet.
     bindE (check_hardlinks pathSet es) (\<lambda>_.
     bindE (check_symlinks pathSet es) (\<lambda>_.
     bindE (mapE_from 0 (\<lambda>_ op. wrapE ''invalid manifest operation'' (normalizeOperation op)) (sm_Operations manifest)) (\<lambda>ops.
     if filter (\<lambda>c. c \<notin> set capabilities) (deriveScenarioManifestCapabilities es ops) \<noteq> []
     then FailW ''missing'' ErrScenarioManifestCapabilitiesIncomplete
     else Inr
       \<lparr>sm_Version = sm_Version manifest,
        sm_Generator =
          \<lparr>mg_Seed = mg_Seed gen, mg_RunMode = mg_RunMode gen, mg_PlanEntryLimit = mg_PlanEntryLimit gen,
           mg_DeterministicSettings = sort_key ms_Name settings\<rparr>,
        sm_Entries = es, sm_Operations = ops, sm_RequiredCapabilities = capabilities,
        sm_Integrity =
          \<lparr>mi_Algorithm = ToLower (TrimSpace (mi_Algorithm (sm_Integrity manifest))),
           mi_Checksum = ToLower (TrimSpace (mi_Checksum (sm_Integrity manifest)))\<rparr>\<rparr>)))))))))"

section \<open>Integrity\<close>

definition scenarioManifestChecksum ::
  "(ScenarioManifest \<Rightarrow> err + string) \<Rightarrow> (string \<Rightarrow> 256 word) \<Rightarrow> ScenarioManifest \<Rightarrow> err + string" where
  "scenarioManifestChecksum canonical sha256 manifest =
     bindE (wrapE ''failed to serialize scenario manifest checksum payload''
              (canonical (manifest\<lparr>sm_Integrity := ScenarioManifestIntegrity0\<rparr>))) (\<lambda>payload.
     Inr (hex_digits 64 (unat (sha256 payload))))"

definition sealScenarioManifestIntegrity ::
  "(ScenarioManifest \<Rightarrow> err + string) \<Rightarrow> (string \<Rightarrow> 256 word) \<Rightarrow> ScenarioManifest \<Rightarrow> err + ScenarioManifest" where
  "sealScenarioManifestIntegrity canonical sha256 manifest =
     bindE (scenarioManifestChecksum canonical sha256 manifest) (\<lambda>digest.
     Inr (manifest\<lparr>sm_Integrity :=
       \<lparr>mi_Algorithm = scenarioManifestChecksumAlgorithmSHA256, mi_Checksum = digest\<rparr>\<rparr>))"

text \<open>Whether \<^verbatim>\<open>hex.DecodeString\<close> succeeds.\<close>

definition hex_decodes :: "string \<Rightarrow> bool" where
  "hex_decodes s \<longleftrightarrow> even (length s) \<and> list_all (\<lambda>c. c \<in> set ''0123456789abcdefABCDEF'') s"

definition verifyScenarioManifestIntegrity ::
  "(ScenarioManifest \<Rightarrow> err + string) \<Rightarrow> (string \<Rightarrow> 256 word) \<Rightarrow> ScenarioManifest \<Rightarrow> err + unit" where
  "verifyScenarioManifestIntegrity canonical sha256 manifest =
     (let expectedChecksum = ToLower (TrimSpace (mi_Checksum (sm_Integrity manifest))) in
      if TrimSpace (mi_Algorithm (sm_Integrity manifest)) = []
      then FailW ''integrity algorithm is empty'' ErrScenarioManifestChecksumAlgorithmUnsupported
      else if ToLower (mi_Algorithm (sm_Integrity manifest)) \<noteq> scenarioManifestChecksumAlgorithmSHA256
      then FailW '''' ErrScenarioManifestChecksumAlgorithmUnsupported
      else if expectedChecksum = [] then FailW ''checksum is empty'' ErrScenarioManifestChecksumMismatch
      else if \<not> hex_decodes expectedChecksum then FailW ''checksum is not valid hex'' ErrScenarioManifestChecksumMismatch
      else bindE (scenarioManifestChecksum canonical sha256 manifest) (\<lambda>actualChecksum.
        if expectedChecksum = actualChecksum then Inr ()
        else FailW ''expected, got'' ErrScenarioManifestChecksumMismatch))"

section \<open>From a plan to a manifest\<close>

definition planPathToManifestPath :: "string \<Rightarrow> string \<Rightarrow> err + string" where
  "planPathToManifestPath base path =
     bindE (wrapE ''failed to derive relative planned path'' (Rel (Clean base) (Clean path))) (\<lambda>relPath.
     if relPath = dot then Inr ''/''
     else if relPath = dotdot \<or> HasPrefix relPath (dotdot @ [slash]) then Err ''planned path escapes base path''
     else normalizeOperationPath (''/'' @ relPath) False)"

definition tryTranslateAbsolutePathToManifestPath :: "string \<Rightarrow> string \<Rightarrow> err + (string \<times> bool)" where
  "tryTranslateAbsolutePathToManifestPath base path =
     (if TrimSpace path = [] then Err ''path must not be empty''
      else if \<not> IsAbs path then Inr ([], False)
      else bindE (wrapE ''failed to derive relative path'' (Rel (Clean base) (Clean path))) (\<lambda>relPath.
        if relPath = dotdot \<or> HasPrefix relPath (dotdot @ [slash]) then Inr ([], False)
        else if relPath = dot then Inr (''/'', True)
        else bindE (normalizeOperationPath (''/'' @ relPath) False) (\<lambda>normalizedPath. Inr (normalizedPath, True))))"

fun plannedEntryTypeToScenarioManifestEntryType :: "plannedEntryType \<Rightarrow> err + ScenarioManifestEntryType" where
  "plannedEntryTypeToScenarioManifestEntryType plannedEntryTypeDir = Inr ScenarioManifestEntryTypeDir"
| "plannedEntryTypeToScenarioManifestEntryType plannedEntryTypeFile = Inr ScenarioManifestEntryTypeFile"
| "plannedEntryTypeToScenarioManifestEntryType plannedEntryTypeSymlink = Inr ScenarioManifestEntryTypeSymlink"
| "plannedEntryTypeToScenarioManifestEntryType plannedEntryTypeHardlink = Inr ScenarioManifestEntryTypeHardlink"
| "plannedEntryTypeToScenarioManifestEntryType plannedEntryTypeSpecial = Inr ScenarioManifestEntryTypeSpecial"

text \<open>\<^verbatim>\<open>UnixNano\<close> of a time outside of the range of \<^verbatim>\<open>int64\<close> wraps.\<close>

definition scenarioManifestMetadataFromConfig :: "metadataConfig \<Rightarrow> err + ScenarioManifestMetadata option" where
  "scenarioManifestMetadataFromConfig metadata =
     (if \<not> hasOwnership metadata \<and> \<not> hasTimestamps metadata \<and> \<not> hasXAttrs metadata \<and> \<not> hasACL metadata then Inr None
      else normalizeScenarioManifestMetadata (Some
        \<lparr>mm_Ownership = (if hasOwnership metadata then Some \<lparr>mo_UID = md_uid metadata, mo_GID = md_gid metadata\<rparr> else None),
         mm_Timestamps =
           (if hasTimestamps metadata
            then Some \<lparr>mt_AtimeUnixNano = wrap64 (md_atime metadata), mt_MtimeUnixNano = wrap64 (md_mtime metadata)\<rparr>
            else None),
         mm_XAttrs =
           (if hasXAttrs metadata
            then map (\<lambda>name. \<lparr>mx_Name = name,
                   mx_Value = cloneBytes (case map_of (md_xattrs metadata) name of Some v \<Rightarrow> v | None \<Rightarrow> [])\<rparr>)
                 (sort_strings (keys (md_xattrs metadata)))
            else []),
         mm_ACL = (if hasACL metadata then aclEntries metadata else [])\<rparr>))"

definition rangesFromPlanned :: "plannedContentRange list \<Rightarrow> ScenarioManifestContentRange list" where
  "rangesFromPlanned input = map (\<lambda>r. \<lparr>cr_Offset = rg_offset r, cr_Length = rg_length r, cr_Seed = rg_seed r\<rparr>) input"

definition scenarioManifestFileContentFromPlanned :: "plannedFileContent \<Rightarrow> err + ScenarioManifestFileContent option" where
  "scenarioManifestFileContentFromPlanned content =
     (if pc_pattern content = ContentPatternUnknown 0 then Inr None
      else normalizeScenarioManifestFileContent (Some
        \<lparr>fc_Pattern = pc_pattern content, fc_LogicalSize = pc_logicalSize content, fc_Seed = pc_seed content,
         fc_RepeatedBlock = cloneBytes (pc_repeatedBlock content),
         fc_SparseExtents = rangesFromPlanned (pc_sparseExtents content),
         fc_OverwriteExtents = rangesFromPlanned (pc_overwriteExtents content)\<rparr>))"

definition scenarioManifestEntryFromPlannedEntry :: "string \<Rightarrow> plannedEntry \<Rightarrow> err + ScenarioManifestEntry" where
  "scenarioManifestEntryFromPlannedEntry base entry =
     bindE (planPathToManifestPath base (pe_path entry)) (\<lambda>manifestPath.
     bindE (plannedEntryTypeToScenarioManifestEntryType (pe_type entry)) (\<lambda>typeName.
     bindE (scenarioManifestMetadataFromConfig (pe_metadata entry)) (\<lambda>metadata.
     let manifestEntry = (ScenarioManifestEntry0 typeName)\<lparr>me_Path := manifestPath, me_Mode := pe_mode entry,
           me_Metadata := metadata\<rparr> in
     case pe_type entry of
       plannedEntryTypeDir \<Rightarrow> Inr manifestEntry
     | plannedEntryTypeFile \<Rightarrow>
         bindE (scenarioManifestFileContentFromPlanned (pe_content entry)) (\<lambda>content.
         Inr (manifestEntry\<lparr>me_Data := cloneBytes (pe_data entry), me_Content := content\<rparr>))
     | plannedEntryTypeSymlink \<Rightarrow>
         bindE (tryTranslateAbsolutePathToManifestPath base (pe_linkTarget entry)) (\<lambda>(target, asManifestPath).
         if asManifestPath
         then Inr (manifestEntry\<lparr>me_LinkTarget := target, me_LinkTargetType := ScenarioManifestLinkTargetTypeManifestPath\<rparr>)
         else Inr (manifestEntry\<lparr>me_LinkTarget := pe_linkTarget entry,
                me_LinkTargetType := ScenarioManifestLinkTargetTypeLiteral\<rparr>))
     | plannedEntryTypeHardlink \<Rightarrow>
         bindE (planPathToManifestPath base (pe_linkTarget entry)) (\<lambda>sourcePath.
         Inr (manifestEntry\<lparr>me_SourcePath := sourcePath\<rparr>))
     | plannedEntryTypeSpecial \<Rightarrow>
         Inr (manifestEntry\<lparr>me_Special := Some \<lparr>sf_Type = pe_special entry, sf_DeviceMajor = pe_major entry,
                sf_DeviceMinor = pe_minor entry\<rparr>\<rparr>))))"

text \<open>
  \<^verbatim>\<open>planRun\<close> of a generator with all its fields: when deterministic coverage is active the plan is that
  of the coverage matrix, whose probes may touch the file system, else the random one (\<open>planRun\<close> in
  \<open>Plan\<close>), whose error comes with a partial plan that is dropped here.
\<close>

definition configuredPlanRun :: "kernel \<Rightarrow> gconfig \<Rightarrow> rng \<Rightarrow> runPlan fsop" where
  "configuredPlanRun k c rndSrc fs =
     (case cfg_coverage c of
        Some coverageOptions \<Rightarrow>
          (case enumerateCoveragePlan k (basePath (cfg_generator c))
                  (normalizeDeterministicCoverageOptions coverageOptions) fs of
             ((plan, _), fs') \<Rightarrow> (plan, fs'))
      | None \<Rightarrow>
          (case planRun (cfg_generator c) rndSrc of
             ((plan, Inl e), _) \<Rightarrow> (Inl e, fs)
           | ((plan, Inr _), _) \<Rightarrow> (Inr plan, fs)))"

definition BuildScenarioManifest ::
  "kernel \<Rightarrow> (ScenarioManifest \<Rightarrow> err + string) \<Rightarrow> (string \<Rightarrow> 256 word) \<Rightarrow> (int \<Rightarrow> rng) \<Rightarrow> gconfig option
     \<Rightarrow> Operation list \<Rightarrow> ScenarioManifest fsop" where
  "BuildScenarioManifest k canonical sha256 seeded generator ops =
     (case generator of None \<Rightarrow> raiseS (Sentinel ErrNilGenerator)
      | Some c \<Rightarrow>
          let g = cfg_generator c in
          bindS (liftS (validateRunConfiguration g)) (\<lambda>_.
          bindS (liftS (mapE_from 0 (\<lambda>_ op. wrapE ''invalid operation'' (normalizeOperation op)) ops)) (\<lambda>normalizedOps.
          bindS (configuredPlanRun k c (seeded (cfg_seed c))) (\<lambda>plan.
          liftS (
            bindE (mapE_from 0 (\<lambda>_ entry. wrapE ''failed to serialize planned entry''
                     (scenarioManifestEntryFromPlannedEntry (basePath g) entry)) (entries plan)) (\<lambda>es.
            bindE (normalizeScenarioManifest
              \<lparr>sm_Version = scenarioManifestVersion,
               sm_Generator = \<lparr>mg_Seed = cfg_seed c, mg_RunMode = runMode g, mg_PlanEntryLimit = planEntryLimit g,
                 mg_DeterministicSettings = []\<rparr>,
               sm_Entries = es, sm_Operations = normalizedOps,
               sm_RequiredCapabilities = deriveScenarioManifestCapabilities es normalizedOps,
               sm_Integrity = ScenarioManifestIntegrity0\<rparr>) (\<lambda>normalizedManifest.
            sealScenarioManifestIntegrity canonical sha256 normalizedManifest)))))))"

section \<open>From a manifest to a plan\<close>

definition metadataConfigFromScenarioManifestMetadata :: "ScenarioManifestMetadata option \<Rightarrow> err + metadataConfig" where
  "metadataConfigFromScenarioManifestMetadata metadata =
     (case metadata of None \<Rightarrow> Inr metadata0
      | Some _ \<Rightarrow>
          bindE (normalizeScenarioManifestMetadata metadata) (\<lambda>normalizedMetadata.
          case normalizedMetadata of None \<Rightarrow> Inr metadata0
          | Some m \<Rightarrow>
              let config = metadata0;
                config = (case mm_Ownership m of None \<Rightarrow> config
                  | Some ow \<Rightarrow> config\<lparr>hasOwnership := True, md_uid := mo_UID ow, md_gid := mo_GID ow\<rparr>);
                config = (case mm_Timestamps m of None \<Rightarrow> config
                  | Some ts \<Rightarrow> config\<lparr>hasTimestamps := True, md_atime := mt_AtimeUnixNano ts, md_mtime := mt_MtimeUnixNano ts\<rparr>);
                config = (if mm_XAttrs m = [] then config
                  else config\<lparr>hasXAttrs := True,
                    md_xattrs := fold (\<lambda>x. put (mx_Name x) (cloneBytes (mx_Value x))) (mm_XAttrs m) []\<rparr>);
                config = (if mm_ACL m = [] then config else config\<lparr>hasACL := True, aclEntries := mm_ACL m\<rparr>)
              in Inr config))"

definition ranges_to_planned :: "ScenarioManifestContentRange list \<Rightarrow> plannedContentRange list" where
  "ranges_to_planned rs = map (\<lambda>r. \<lparr>rg_offset = cr_Offset r, rg_length = cr_Length r, rg_seed = cr_Seed r\<rparr>) rs"

definition plannedFileContentFromScenarioManifestFileContent ::
  "ScenarioManifestFileContent option \<Rightarrow> err + plannedFileContent" where
  "plannedFileContentFromScenarioManifestFileContent content =
     (case content of None \<Rightarrow> Inr content0
      | Some _ \<Rightarrow>
          bindE (normalizeScenarioManifestFileContent content) (\<lambda>normalizedContent.
          case normalizedContent of None \<Rightarrow> Inl (Panic ''invalid memory address or nil pointer dereference'')
          | Some c \<Rightarrow> Inr (content0\<lparr>pc_pattern := fc_Pattern c, pc_logicalSize := fc_LogicalSize c, pc_seed := fc_Seed c,
              pc_repeatedBlock := cloneBytes (fc_RepeatedBlock c), pc_sparseExtents := ranges_to_planned (fc_SparseExtents c),
              pc_overwriteExtents := ranges_to_planned (fc_OverwriteExtents c)\<rparr>)))"

definition scenarioManifestEntryTypeToPlannedEntryType :: "ScenarioManifestEntryType \<Rightarrow> err + plannedEntryType" where
  "scenarioManifestEntryTypeToPlannedEntryType typeName =
     (if typeName = ScenarioManifestEntryTypeDir then Inr plannedEntryTypeDir
      else if typeName = ScenarioManifestEntryTypeFile then Inr plannedEntryTypeFile
      else if typeName = ScenarioManifestEntryTypeSymlink then Inr plannedEntryTypeSymlink
      else if typeName = ScenarioManifestEntryTypeHardlink then Inr plannedEntryTypeHardlink
      else if typeName = ScenarioManifestEntryTypeSpecial then Inr plannedEntryTypeSpecial
      else Err ''unsupported manifest entry type'')"

definition plannedEntryFromScenarioManifestEntry ::
  "kernel \<Rightarrow> fsys \<Rightarrow> string \<Rightarrow> ScenarioManifestEntry \<Rightarrow> err + plannedEntry" where
  "plannedEntryFromScenarioManifestEntry k fs base entry =
     bindE (wrapE ''manifest entry path'' (operationPathToFS base (me_Path entry))) (\<lambda>path.
     bindE (wrapE ''manifest entry path'' (ensureNoSymlinkParents k base path fs)) (\<lambda>_.
     bindE (scenarioManifestEntryTypeToPlannedEntryType (me_Type entry)) (\<lambda>typeName.
     bindE (metadataConfigFromScenarioManifestMetadata (me_Metadata entry)) (\<lambda>metadata.
     let planned = (entry0 typeName path)\<lparr>pe_mode := me_Mode entry, pe_metadata := metadata\<rparr> in
     if me_Type entry = ScenarioManifestEntryTypeFile then
       bindE (plannedFileContentFromScenarioManifestFileContent (me_Content entry)) (\<lambda>contentPattern.
       Inr (planned\<lparr>pe_data := cloneBytes (me_Data entry), pe_content := contentPattern\<rparr>))
     else if me_Type entry = ScenarioManifestEntryTypeSymlink then
       let targetType = (if me_LinkTargetType entry = [] then ScenarioManifestLinkTargetTypeLiteral
             else me_LinkTargetType entry) in
       if targetType = ScenarioManifestLinkTargetTypeManifestPath
       then bindE (wrapE ''manifest symlink target path'' (operationPathToFS base (me_LinkTarget entry))) (\<lambda>target.
         Inr (planned\<lparr>pe_linkTarget := target\<rparr>))
       else Inr (planned\<lparr>pe_linkTarget := me_LinkTarget entry\<rparr>)
     else if me_Type entry = ScenarioManifestEntryTypeHardlink then
       bindE (wrapE ''manifest hardlink source path'' (operationPathToFS base (me_SourcePath entry))) (\<lambda>source.
       bindE (wrapE ''manifest hardlink source path'' (ensureNoSymlinkParents k base source fs)) (\<lambda>_.
       Inr (planned\<lparr>pe_linkTarget := source\<rparr>)))
     else if me_Type entry = ScenarioManifestEntryTypeSpecial then
       (case me_Special entry of
          None \<Rightarrow> Inl (Panic ''invalid memory address or nil pointer dereference'')
        | Some sp \<Rightarrow> Inr (planned\<lparr>pe_special := sf_Type sp, pe_major := sf_DeviceMajor sp, pe_minor := sf_DeviceMinor sp\<rparr>))
     else Inr planned))))"

definition runPlanFromScenarioManifest ::
  "kernel \<Rightarrow> fsys \<Rightarrow> string \<Rightarrow> ScenarioManifestEntry list \<Rightarrow> err + runPlan" where
  "runPlanFromScenarioManifest k fs base es =
     bindE (mapE_from 0 (\<lambda>_ entry. wrapE ''failed to deserialize manifest entry''
              (plannedEntryFromScenarioManifestEntry k fs base entry)) es) (\<lambda>planned.
     Inr \<lparr>entries = planned, planGroups = [], planMetrics = \<lparr>pathRetries = 0, pathCollisions = 0\<rparr>\<rparr>)"

section \<open>Applying a manifest\<close>

text \<open>Where an application failed.\<close>

datatype manifestApplyError =
    ManifestRejected err
  | EntriesNotApplied applyCause
  | OperationsNotApplied applyError

definition ApplyScenarioManifest ::
  "kernel \<Rightarrow> (int \<Rightarrow> rng) \<Rightarrow> string \<Rightarrow> (ScenarioManifest \<Rightarrow> err + string) \<Rightarrow> (string \<Rightarrow> 256 word) \<Rightarrow> string
     \<Rightarrow> ScenarioManifest \<Rightarrow> fsys \<Rightarrow> manifestApplyError option \<times> fsys" where
  "ApplyScenarioManifest k seeded goos canonical sha256 path manifest fs =
     (let checked =
        (if TrimSpace path = [] then Fail ErrBasePathEmpty
         else bindE (normalizeScenarioManifest manifest) (\<lambda>m.
           bindE (verifyScenarioManifestIntegrity canonical sha256 m) (\<lambda>_.
           bindE (ensureScenarioManifestCapabilities goos (sm_RequiredCapabilities m)) (\<lambda>_.
           bindE (case Configure
                    [Some (WithSeed seeded (mg_Seed (sm_Generator m))),
                     Some (WithRunMode (mg_RunMode (sm_Generator m))),
                     Some (WithPlanEntryLimit (mg_PlanEntryLimit (sm_Generator m)))]
                    (Some (NewConfig seeded path)) of
                    (Some e, _) \<Rightarrow> Inl (Errorf ''failed to configure generator for scenario manifest apply'' (Some e))
                  | (None, None) \<Rightarrow> Inl (Panic ''invalid memory address or nil pointer dereference'')
                  | (None, Some c) \<Rightarrow> Inr c) (\<lambda>c.
           bindE (runPlanFromScenarioManifest k fs path (sm_Entries m)) (\<lambda>plan.
           bindE (newExecutionContext []) (\<lambda>ctx. Inr (m, c, plan, ctx)))))))) in
      case checked of
        Inl e \<Rightarrow> (Some (ManifestRejected e), fs)
      | Inr (m, c, plan, ctx) \<Rightarrow>
          (case applyRunPlan k seeded (cfg_generator c) plan ctx fs of
             ((st, Some cause), fs') \<Rightarrow> (Some (EntriesNotApplied cause), fs')
           | ((st, None), fs') \<Rightarrow>
               if sm_Operations m = [] then (None, fs')
               else (case ApplyOperations k path (sm_Operations m) fs' of
                   (Some e, fs'') \<Rightarrow> (Some (OperationsNotApplied e), fs'')
                 | (None, fs'') \<Rightarrow> (None, fs''))))"

section \<open>Documents\<close>

definition ExportScenarioManifestJSON ::
  "(ScenarioManifest \<Rightarrow> err + string) \<Rightarrow> (string \<Rightarrow> 256 word) \<Rightarrow> (ScenarioManifest \<Rightarrow> err + string)
     \<Rightarrow> ScenarioManifest \<Rightarrow> err + string" where
  "ExportScenarioManifestJSON canonical sha256 marshal manifest =
     bindE (normalizeScenarioManifest manifest) (\<lambda>normalized.
     bindE (sealScenarioManifestIntegrity canonical sha256 normalized) (\<lambda>sealed.
     wrapE ''failed to serialize scenario manifest JSON'' (marshal sealed)))"

definition ParseScenarioManifestJSON ::
  "(ScenarioManifest \<Rightarrow> err + string) \<Rightarrow> (string \<Rightarrow> 256 word) \<Rightarrow> (string \<Rightarrow> err + ScenarioManifest)
     \<Rightarrow> string \<Rightarrow> err + ScenarioManifest" where
  "ParseScenarioManifestJSON canonical sha256 unmarshal payload =
     (if TrimSpace payload = [] then Fail ErrScenarioManifestPayloadEmpty
      else bindE (wrapE ''failed to parse scenario manifest JSON'' (unmarshal payload)) (\<lambda>manifest.
        bindE (normalizeScenarioManifest manifest) (\<lambda>normalized.
        bindE (verifyScenarioManifestIntegrity canonical sha256 normalized) (\<lambda>_. Inr normalized))))"

definition ApplyScenarioManifestJSON ::
  "kernel \<Rightarrow> (int \<Rightarrow> rng) \<Rightarrow> string \<Rightarrow> (ScenarioManifest \<Rightarrow> err + string) \<Rightarrow> (string \<Rightarrow> 256 word)
     \<Rightarrow> (string \<Rightarrow> err + ScenarioManifest) \<Rightarrow> string \<Rightarrow> string \<Rightarrow> fsys \<Rightarrow> manifestApplyError option \<times> fsys" where
  "ApplyScenarioManifestJSON k seeded goos canonical sha256 unmarshal path payload fs =
     (case ParseScenarioManifestJSON canonical sha256 unmarshal payload of
        Inl e \<Rightarrow> (Some (ManifestRejected e), fs)
      | Inr manifest \<Rightarrow> ApplyScenarioManifest k seeded goos canonical sha256 path manifest fs)"

definition ExportScenarioManifestYAML ::
  "(ScenarioManifest \<Rightarrow> err + string) \<Rightarrow> (string \<Rightarrow> 256 word) \<Rightarrow> (ScenarioManifest \<Rightarrow> err + string)
     \<Rightarrow> ScenarioManifest \<Rightarrow> err + string" where
  "ExportScenarioManifestYAML canonical sha256 marshal manifest =
     bindE (normalizeScenarioManifest manifest) (\<lambda>normalized.
     bindE (sealScenarioManifestIntegrity canonical sha256 normalized) (\<lambda>sealed.
     wrapE ''failed to serialize scenario manifest YAML'' (marshal sealed)))"

definition ParseScenarioManifestYAML ::
  "(ScenarioManifest \<Rightarrow> err + string) \<Rightarrow> (string \<Rightarrow> 256 word) \<Rightarrow> (string \<Rightarrow> err + ScenarioManifest)
     \<Rightarrow> string \<Rightarrow> err + ScenarioManifest" where
  "ParseScenarioManifestYAML canonical sha256 unmarshal payload =
     (if TrimSpace payload = [] then Fail ErrScenarioManifestPayloadEmpty
      else bindE (wrapE ''failed to parse scenario manifest YAML'' (unmarshal payload)) (\<lambda>manifest.
        bindE (normalizeScenarioManifest manifest) (\<lambda>normalized.
        bindE (verifyScenarioManifestIntegrity canonical sha256 normalized) (\<lambda>_. Inr normalized))))"

definition ApplyScenarioManifestYAML ::
  "kernel \<Rightarrow> (int \<Rightarrow> rng) \<Rightarrow> string \<Rightarrow> (ScenarioManifest \<Rightarrow> err + string) \<Rightarrow> (string \<Rightarrow> 256 word)
     \<Rightarrow> (string \<Rightarrow> err + ScenarioManifest) \<Rightarrow> string \<Rightarrow> string \<Rightarrow> fsys \<Rightarrow> manifestApplyError option \<times> fsys" where
  "ApplyScenarioManifestYAML k seeded goos canonical sha256 unmarshal path payload fs =
     (case ParseScenarioManifestYAML canonical sha256 unmarshal payload of
        Inl e \<Rightarrow> (Some (ManifestRejected e), fs)
      | Inr manifest \<Rightarrow> ApplyScenarioManifest k seeded goos canonical sha256 path manifest fs)"

section \<open>Methods of the generator\<close>

text \<open>The wrappers that take the base path from the receiver, which may be nil.\<close>

definition Generator_ApplyScenarioManifest ::
  "kernel \<Rightarrow> (int \<Rightarrow> rng) \<Rightarrow> string \<Rightarrow> (ScenarioManifest \<Rightarrow> err + string) \<Rightarrow> (string \<Rightarrow> 256 word) \<Rightarrow> gconfig option
     \<Rightarrow> ScenarioManifest \<Rightarrow> fsys \<Rightarrow> manifestApplyError option \<times> fsys" where
  "Generator_ApplyScenarioManifest k seeded goos canonical sha256 g manifest fs =
     (case g of None \<Rightarrow> (Some (ManifestRejected (Sentinel ErrNilGenerator)), fs)
      | Some c \<Rightarrow> ApplyScenarioManifest k seeded goos canonical sha256 (basePath (cfg_generator c)) manifest fs)"

definition Generator_ApplyScenarioManifestJSON ::
  "kernel \<Rightarrow> (int \<Rightarrow> rng) \<Rightarrow> string \<Rightarrow> (ScenarioManifest \<Rightarrow> err + string) \<Rightarrow> (string \<Rightarrow> 256 word)
     \<Rightarrow> (string \<Rightarrow> err + ScenarioManifest) \<Rightarrow> gconfig option \<Rightarrow> string \<Rightarrow> fsys \<Rightarrow> manifestApplyError option \<times> fsys" where
  "Generator_ApplyScenarioManifestJSON k seeded goos canonical sha256 unmarshal g payload fs =
     (case g of None \<Rightarrow> (Some (ManifestRejected (Sentinel ErrNilGenerator)), fs)
      | Some c \<Rightarrow>
          ApplyScenarioManifestJSON k seeded goos canonical sha256 unmarshal (basePath (cfg_generator c)) payload fs)"

definition Generator_ApplyScenarioManifestYAML ::
  "kernel \<Rightarrow> (int \<Rightarrow> rng) \<Rightarrow> string \<Rightarrow> (ScenarioManifest \<Rightarrow> err + string) \<Rightarrow> (string \<Rightarrow> 256 word)
     \<Rightarrow> (string \<Rightarrow> err + ScenarioManifest) \<Rightarrow> gconfig option \<Rightarrow> string \<Rightarrow> fsys \<Rightarrow> manifestApplyError option \<times> fsys" where
  "Generator_ApplyScenarioManifestYAML k seeded goos canonical sha256 unmarshal g payload fs =
     (case g of None \<Rightarrow> (Some (ManifestRejected (Sentinel ErrNilGenerator)), fs)
      | Some c \<Rightarrow>
          ApplyScenarioManifestYAML k seeded goos canonical sha256 unmarshal (basePath (cfg_generator c)) payload fs)"

end
