(* ===== verification/Manifest_Norm.thy ===== *)
theory Manifest_Norm
  imports Manifest
begin

text \<open>
  What a normalized manifest is: the normal forms of the parts, that \<open>normalizeScenarioManifest\<close> returns
  exactly the well-formed manifests, and what this gives for sealing, verifying, exporting and
  parsing.
\<close>

section \<open>Parts\<close>

definition opt_ok :: "('a \<Rightarrow> bool) \<Rightarrow> 'a option \<Rightarrow> bool" where
  "opt_ok P x \<longleftrightarrow> (case x of None \<Rightarrow> True | Some y \<Rightarrow> P y)"

lemma opt_ok_simps [simp]: "opt_ok P None" "opt_ok P (Some y) \<longleftrightarrow> P y"
  by (simp_all add: opt_ok_def)

definition setting_ok :: "ScenarioManifestSetting \<Rightarrow> bool" where
  "setting_ok s \<longleftrightarrow> TrimSpace (ms_Name s) = ms_Name s \<and> ms_Name s \<noteq> []"

definition settings_wf :: "ScenarioManifestSetting list \<Rightarrow> bool" where
  "settings_wf ss \<longleftrightarrow> list_all setting_ok ss \<and> distinct (map ms_Name ss) \<and> sorted (map ms_Name ss)"

definition capabilities_wf :: "ScenarioManifestCapability list \<Rightarrow> bool" where
  "capabilities_wf cs \<longleftrightarrow> list_all (\<lambda>c. is_ok (validateScenarioManifestCapability c)) cs \<and> distinct cs \<and> sorted cs"

lemma normalize_settings_Inr:
  "normalize_settings seen ss = Inr out \<Longrightarrow> list_all setting_ok out \<and> distinct (map ms_Name out) \<and>
     set (map ms_Name out) \<inter> set seen = {}"
  by (induction seen ss arbitrary: out rule: normalize_settings.induct)
    (simp, fastforce simp: Let_def setting_ok_def TrimSpace_idem split: if_splits)

lemma normalize_settings_id:
  "list_all setting_ok ss \<Longrightarrow> distinct (map ms_Name ss) \<Longrightarrow> set (map ms_Name ss) \<inter> set seen = {} \<Longrightarrow>
     normalize_settings seen ss = Inr ss"
  by (induction seen ss rule: normalize_settings.induct) (auto simp: Let_def setting_ok_def)

lemma settings_wf_sort:
  assumes "normalize_settings [] ss = Inr out"
  shows "settings_wf (sort_key ms_Name out)"
  using normalize_settings_Inr [OF assms]
  by (auto simp: settings_wf_def list_all_iff distinct_map)

lemma normalize_capabilities_Inr:
  "normalize_capabilities seen cs = Inr out \<Longrightarrow> list_all (\<lambda>c. is_ok (validateScenarioManifestCapability c)) out \<and>
     distinct out \<and> set out \<inter> set seen = {}"
  by (induction seen cs arbitrary: out rule: normalize_capabilities.induct)
    (simp, fastforce simp: Let_def is_ok_iff split: if_splits)

lemma capability_trimmed [simp]:
  "validateScenarioManifestCapability c = Inr u \<Longrightarrow> c \<noteq> []"
  "validateScenarioManifestCapability c = Inr u \<Longrightarrow> TrimSpace c = c"
  by (auto simp: validateScenarioManifestCapability_def space_first_def space_last_def split: if_splits
      intro!: TrimSpace_id)

lemma normalize_capabilities_id:
  "list_all (\<lambda>c. is_ok (validateScenarioManifestCapability c)) cs \<Longrightarrow> distinct cs \<Longrightarrow> set cs \<inter> set seen = {} \<Longrightarrow>
     normalize_capabilities seen cs = Inr cs"
  by (induction seen cs rule: normalize_capabilities.induct) (auto simp: Let_def is_ok_iff)

lemma capabilities_normal:
  "normalizeScenarioManifestCapabilities cs = Inr out \<Longrightarrow> capabilities_wf out"
  "capabilities_wf cs \<Longrightarrow> normalizeScenarioManifestCapabilities cs = Inr cs"
  by (auto simp: normalizeScenarioManifestCapabilities_def capabilities_wf_def list_all_iff sort_strings_def
      normalize_capabilities_id sorted_sort_id split: if_splits dest!: normalize_capabilities_Inr)

text \<open>Contents are checked, not changed.\<close>

definition extent_ok :: "int \<Rightarrow> ScenarioManifestContentRange \<Rightarrow> bool" where
  "extent_ok logicalSize r \<longleftrightarrow> 0 \<le> cr_Offset r \<and> 0 < cr_Length r \<and> wrap64 (cr_Offset r + cr_Length r) \<le> logicalSize"

definition content_wf :: "ScenarioManifestFileContent \<Rightarrow> bool" where
  "content_wf c \<longleftrightarrow> is_ok (validateContentPattern (fc_Pattern c)) \<and> 0 \<le> fc_LogicalSize c \<and>
     list_all (extent_ok (fc_LogicalSize c)) (fc_SparseExtents c) \<and>
     list_all (extent_ok (fc_LogicalSize c)) (fc_OverwriteExtents c) \<and>
     (fc_Pattern c = ContentPatternRepeatedBlocks \<longrightarrow> 0 < fc_LogicalSize c \<longrightarrow> fc_RepeatedBlock c \<noteq> [])"

lemma check_extents_Inr: "check_extents n rs = Inr out \<longleftrightarrow> out = rs \<and> list_all (extent_ok n) rs"
  by (induction n rs arbitrary: out rule: check_extents.induct) (auto simp: extent_ok_def)

lemma content_Inr:
  "normalizeScenarioManifestFileContent c = Inr out \<longleftrightarrow> out = c \<and> opt_ok content_wf c"
  by (cases c) (auto simp: normalizeScenarioManifestFileContent_def content_wf_def check_extents_Inr Let_def is_ok_iff)

text \<open>Attributes are checked and sorted; lists of ACL entries become sorted sets.\<close>

definition metadata_wf :: "ScenarioManifestMetadata \<Rightarrow> bool" where
  "metadata_wf m \<longleftrightarrow>
     opt_ok (\<lambda>ow. 0 \<le> mo_UID ow \<and> 0 \<le> mo_GID ow) (mm_Ownership m) \<and>
     list_all (\<lambda>x. xattr_name_wf (mx_Name x)) (mm_XAttrs m) \<and> distinct (map mx_Name (mm_XAttrs m)) \<and>
     sorted (map mx_Name (mm_XAttrs m)) \<and>
     list_all acl_text_ok (mm_ACL m) \<and> distinct (mm_ACL m) \<and> sorted (mm_ACL m) \<and>
     \<not> (mm_Ownership m = None \<and> mm_Timestamps m = None \<and> mm_XAttrs m = [] \<and> mm_ACL m = [])"

lemma normalize_xattrs_Inr:
  "normalize_xattrs seen xs = Inr out \<longleftrightarrow> out = xs \<and> list_all (\<lambda>x. xattr_name_wf (mx_Name x)) xs \<and>
     distinct (map mx_Name xs) \<and> set (map mx_Name xs) \<inter> set seen = {}"
  by (induction seen xs arbitrary: out rule: normalize_xattrs.induct) (auto simp: validateXAttrName_Inr)

lemma acl_normal:
  "normalizeACLEntries es = Inr out \<Longrightarrow> list_all acl_text_ok out \<and> distinct out \<and> sorted out"
  using normalizeACLEntries_spec [of es] by simp

lemma metadata_normal:
  assumes "normalizeScenarioManifestMetadata md = Inr out"
  shows "opt_ok metadata_wf out"
  using assms unfolding normalizeScenarioManifestMetadata_def
  by (auto simp: Let_def metadata_wf_def normalize_xattrs_Inr list_all_iff distinct_map
      split: option.splits if_splits dest!: acl_normal)

lemma acl_id:
  assumes "list_all acl_text_ok es" "distinct es" "sorted es"
  shows "normalizeACLEntries es = Inr es"
proof -
  have trim: "TrimSpace x = x" if "x \<in> set es" for x using assms(1) that by (auto simp: list_all_iff acl_text_ok_def)
  then have "list_all (\<lambda>x. acl_text_ok (TrimSpace x)) es" using assms(1) by (simp add: list_all_iff)
  then obtain out where out: "normalizeACLEntries es = Inr out" "sorted out" "distinct out" "set out = TrimSpace ` set es"
    using normalizeACLEntries_spec [of es] by (auto split: sum.splits)
  have "set out = set es" using out(4) trim by force
  then show ?thesis using out sorted_distinct_set_unique [OF out(2,3) assms(3,2)] by simp
qed

lemma metadata_id:
  assumes "opt_ok metadata_wf md"
  shows "normalizeScenarioManifestMetadata md = Inr md"
proof (cases md)
  case (Some m)
  have wf: "metadata_wf m" using assms Some by simp
  have own: "(case mm_Ownership m of None \<Rightarrow> Inr None
       | Some ow \<Rightarrow> if mo_UID ow < 0 then Err ''metadata ownership uid must be >= 0''
           else if mo_GID ow < 0 then Err ''metadata ownership gid must be >= 0''
           else Inr (Some \<lparr>mo_UID = mo_UID ow, mo_GID = mo_GID ow\<rparr>)) = Inr (mm_Ownership m)"
    using wf by (auto simp: metadata_wf_def split: option.splits)
  have xs: "(if mm_XAttrs m = [] then Inr []
      else bindE (normalize_xattrs [] (mm_XAttrs m)) (\<lambda>xs. Inr (sort_key mx_Name xs))) = Inr (mm_XAttrs m)"
    using wf normalize_xattrs_Inr [of "[]" "mm_XAttrs m" "mm_XAttrs m"]
    by (auto simp: metadata_wf_def sort_key_id_if_sorted)
  have acl: "(if mm_ACL m = [] then Inr [] else normalizeACLEntries (mm_ACL m)) = Inr (mm_ACL m)"
    using wf acl_id [of "mm_ACL m"] by (auto simp: metadata_wf_def)
  show ?thesis
    using wf unfolding Some normalizeScenarioManifestMetadata_def option.case own xs acl bindE_simps Let_def
    by (cases m) (auto simp: metadata_wf_def)
qed (simp add: normalizeScenarioManifestMetadata_def)

definition special_wf :: "ScenarioManifestSpecialFile \<Rightarrow> bool" where
  "special_wf s \<longleftrightarrow> is_ok (validateSpecialFileType (sf_Type s)) \<and> 0 \<le> sf_DeviceMajor s \<and> 0 \<le> sf_DeviceMinor s \<and>
     (isSpecialDeviceType (sf_Type s) \<or> sf_DeviceMajor s = 0 \<and> sf_DeviceMinor s = 0)"

lemma special_normal:
  "normalizeScenarioManifestSpecialFile s = Inr out \<Longrightarrow> special_wf out"
  "special_wf s \<Longrightarrow> normalizeScenarioManifestSpecialFile s = Inr s"
  by (auto simp: normalizeScenarioManifestSpecialFile_def special_wf_def is_ok_iff split: if_splits)

section \<open>Entries\<close>

text \<open>A well-formed entry has a legal mode and path and the fields of its type, all others zero.\<close>

definition entry_fields :: "ScenarioManifestEntry \<Rightarrow> ScenarioManifestEntry" where
  "entry_fields e =
     (let z = (ScenarioManifestEntry0 (me_Type e))\<lparr>me_Path := me_Path e, me_Mode := me_Mode e\<rparr> in
      if me_Type e = ScenarioManifestEntryTypeDir then z\<lparr>me_Metadata := me_Metadata e\<rparr>
      else if me_Type e = ScenarioManifestEntryTypeFile
      then z\<lparr>me_Data := me_Data e, me_Content := me_Content e, me_Metadata := me_Metadata e\<rparr>
      else if me_Type e = ScenarioManifestEntryTypeSymlink
      then z\<lparr>me_LinkTarget := me_LinkTarget e, me_LinkTargetType := me_LinkTargetType e\<rparr>
      else if me_Type e = ScenarioManifestEntryTypeHardlink then z\<lparr>me_SourcePath := me_SourcePath e\<rparr>
      else z\<lparr>me_Special := me_Special e\<rparr>)"

definition entry_wf :: "ScenarioManifestEntry \<Rightarrow> bool" where
  "entry_wf e \<longleftrightarrow> entry_fields e = e \<and> me_Mode e \<le> maxPOSIXFileMode \<and>
     path_wf (me_Path e) (me_Type e = ScenarioManifestEntryTypeDir) \<and>
     (if me_Type e = ScenarioManifestEntryTypeDir
      then (me_Path e = ''/'' \<or> me_Mode e \<noteq> 0) \<and> opt_ok metadata_wf (me_Metadata e)
      else if me_Type e = ScenarioManifestEntryTypeFile
      then me_Mode e \<noteq> 0 \<and> opt_ok content_wf (me_Content e) \<and> (me_Content e = None \<or> me_Data e = []) \<and>
        opt_ok metadata_wf (me_Metadata e)
      else if me_Type e = ScenarioManifestEntryTypeSymlink
      then TrimSpace (me_LinkTarget e) \<noteq> [] \<and> \<not> Contains (me_LinkTarget e) NUL \<and>
        (me_LinkTargetType e = ScenarioManifestLinkTargetTypeLiteral \<or>
         me_LinkTargetType e = ScenarioManifestLinkTargetTypeManifestPath \<and> path_wf (me_LinkTarget e) True)
      else if me_Type e = ScenarioManifestEntryTypeHardlink
      then path_wf (me_SourcePath e) False \<and> me_SourcePath e \<noteq> me_Path e
      else me_Type e = ScenarioManifestEntryTypeSpecial \<and> me_Mode e \<noteq> 0 \<and>
        (case me_Special e of None \<Rightarrow> False | Some s \<Rightarrow> special_wf s))"

lemma rooted_target: "path_wf p r \<Longrightarrow> TrimSpace p \<noteq> [] \<and> \<not> Contains p NUL"
  using TrimSpace_rooted by (auto simp: path_wf_def clean_abs_def)

text \<open>The five branches.\<close>

definition checked_mode :: "ScenarioManifestEntry \<Rightarrow> err + unit" where
  "checked_mode e = (if me_Mode e \<le> maxPOSIXFileMode then Inr ()
     else Inl (Errorf ''manifest entry mode'' (Some (Errorf ''mode must be <= 07777'' None))))"

lemma checked_mode:
  "(case validateMode (me_Mode e) of
      Inl err \<Rightarrow> if me_Mode e \<noteq> 0 \<or> b then Inl (Errorf ''manifest entry mode'' (Some err)) else Inr ()
    | Inr _ \<Rightarrow> Inr ()) = checked_mode e"
  by (auto simp: validateMode_def checked_mode_def not_less)

lemma checked_mode_Inr: "checked_mode e = Inr u \<longleftrightarrow> me_Mode e \<le> maxPOSIXFileMode"
  by (auto simp: checked_mode_def)

definition base_entry :: "ScenarioManifestEntryType \<Rightarrow> 32 word \<Rightarrow> string \<Rightarrow> ScenarioManifestEntry" where
  "base_entry t m path = (ScenarioManifestEntry0 t)\<lparr>me_Path := path, me_Mode := m\<rparr>"

lemmas branch_unfold = normalizeScenarioManifestEntry_def checked_mode base_entry_def Let_def

lemmas branch_simps = validateScenarioManifestEntryType_def checked_mode_Inr

lemma branch_dir:
  "me_Type e = ScenarioManifestEntryTypeDir \<Longrightarrow> normalizeScenarioManifestEntry e = Inr out \<longleftrightarrow>
     (\<exists>path metadata. normalizeOperationPath (me_Path e) True = Inr path \<and> me_Mode e \<le> maxPOSIXFileMode \<and>
        \<not> (path \<noteq> ''/'' \<and> me_Mode e = 0) \<and> normalizeScenarioManifestMetadata (me_Metadata e) = Inr metadata \<and>
        out = (base_entry (me_Type e) (me_Mode e) path)\<lparr>me_Metadata := metadata\<rparr>)"
  unfolding branch_unfold
  by (cases "normalizeOperationPath (me_Path e) True"; cases "normalizeScenarioManifestMetadata (me_Metadata e)")
    (simp_all add: branch_simps eq_commute [of out])

lemma branch_file:
  "me_Type e = ScenarioManifestEntryTypeFile \<Longrightarrow> normalizeScenarioManifestEntry e = Inr out \<longleftrightarrow>
     (\<exists>path metadata. normalizeOperationPath (me_Path e) False = Inr path \<and> me_Mode e \<le> maxPOSIXFileMode \<and>
        me_Mode e \<noteq> 0 \<and> opt_ok content_wf (me_Content e) \<and> (me_Content e = None \<or> me_Data e = []) \<and>
        normalizeScenarioManifestMetadata (me_Metadata e) = Inr metadata \<and>
        out = (base_entry (me_Type e) (me_Mode e) path)\<lparr>me_Data := me_Data e, me_Content := me_Content e, me_Metadata := metadata\<rparr>)"
  unfolding branch_unfold by (auto simp: branch_simps content_Inr)

lemma branch_symlink:
  assumes "me_Type e = ScenarioManifestEntryTypeSymlink"
  shows "normalizeScenarioManifestEntry e = Inr out \<longleftrightarrow>
     (\<exists>path targetType target. normalizeOperationPath (me_Path e) False = Inr path \<and> me_Mode e \<le> maxPOSIXFileMode \<and>
        TrimSpace (me_LinkTarget e) \<noteq> [] \<and> \<not> Contains (me_LinkTarget e) NUL \<and>
        normalizeScenarioManifestLinkTargetType (me_LinkTargetType e) = Inr targetType \<and>
        (if targetType = ScenarioManifestLinkTargetTypeManifestPath
         then normalizeOperationPath (me_LinkTarget e) True = Inr target else target = me_LinkTarget e) \<and>
        out = (base_entry (me_Type e) (me_Mode e) path)\<lparr>me_LinkTarget := target, me_LinkTargetType := targetType\<rparr>)"
    (is "_ \<longleftrightarrow> (\<exists>path targetType target. ?p path \<and> ?m \<and> ?t \<and> ?n \<and> ?tt targetType \<and> ?ta targetType target \<and> _)")
proof (cases "?m \<and> ?t \<and> ?n")
  case True
  then show ?thesis
    using assms unfolding branch_unfold
    by (cases "normalizeScenarioManifestLinkTargetType (me_LinkTargetType e)"; cases "normalizeOperationPath (me_Path e) False")
      (simp_all add: branch_simps eq_commute [of out])
next
  case False
  then show ?thesis
    using assms unfolding branch_unfold by (auto simp: branch_simps)
qed

lemma branch_hardlink:
  "me_Type e = ScenarioManifestEntryTypeHardlink \<Longrightarrow> normalizeScenarioManifestEntry e = Inr out \<longleftrightarrow>
     (\<exists>path source. normalizeOperationPath (me_Path e) False = Inr path \<and> me_Mode e \<le> maxPOSIXFileMode \<and>
        normalizeOperationPath (me_SourcePath e) False = Inr source \<and> source \<noteq> path \<and>
        out = (base_entry (me_Type e) (me_Mode e) path)\<lparr>me_SourcePath := source\<rparr>)"
  unfolding branch_unfold by (auto simp: branch_simps)

lemma branch_special:
  "me_Type e = ScenarioManifestEntryTypeSpecial \<Longrightarrow> normalizeScenarioManifestEntry e = Inr out \<longleftrightarrow>
     (\<exists>path special normalizedSpecial. normalizeOperationPath (me_Path e) False = Inr path \<and>
        me_Mode e \<le> maxPOSIXFileMode \<and> me_Mode e \<noteq> 0 \<and> me_Special e = Some special \<and>
        normalizeScenarioManifestSpecialFile special = Inr normalizedSpecial \<and>
        normalizeScenarioManifestMetadata (me_Metadata e) = Inr None \<and>
        out = (base_entry (me_Type e) (me_Mode e) path)\<lparr>me_Special := Some normalizedSpecial\<rparr>)"
  unfolding branch_unfold by (auto simp: branch_simps split: option.splits)

lemma entry_types:
  assumes "normalizeScenarioManifestEntry e = Inr out \<or> entry_wf e"
  obtains "me_Type e = ScenarioManifestEntryTypeDir" | "me_Type e = ScenarioManifestEntryTypeFile"
    | "me_Type e = ScenarioManifestEntryTypeSymlink" | "me_Type e = ScenarioManifestEntryTypeHardlink"
    | "me_Type e = ScenarioManifestEntryTypeSpecial"
proof -
  have "is_ok (validateScenarioManifestEntryType (me_Type e))"
    using assms unfolding normalizeScenarioManifestEntry_def entry_wf_def
    by (auto simp: validateScenarioManifestEntryType_def is_ok_iff split: if_splits)
  then show ?thesis using that by (auto simp: validateScenarioManifestEntryType_def is_ok_iff split: if_splits)
qed

lemma base_entry_simps [simp]:
  "me_Type (base_entry t m path) = t" "me_Path (base_entry t m path) = path" "me_Mode (base_entry t m path) = m"
  "me_Data (base_entry t m path) = []" "me_Content (base_entry t m path) = None" "me_LinkTarget (base_entry t m path) = []"
  "me_LinkTargetType (base_entry t m path) = []" "me_SourcePath (base_entry t m path) = []"
  "me_Special (base_entry t m path) = None" "me_Metadata (base_entry t m path) = None"
  by (simp_all add: base_entry_def ScenarioManifestEntry0_def)

lemma entry_fields_base: "entry_fields e =
   (if me_Type e = ScenarioManifestEntryTypeDir then (base_entry (me_Type e) (me_Mode e) (me_Path e))\<lparr>me_Metadata := me_Metadata e\<rparr>
    else if me_Type e = ScenarioManifestEntryTypeFile
    then (base_entry (me_Type e) (me_Mode e) (me_Path e))\<lparr>me_Data := me_Data e, me_Content := me_Content e, me_Metadata := me_Metadata e\<rparr>
    else if me_Type e = ScenarioManifestEntryTypeSymlink
    then (base_entry (me_Type e) (me_Mode e) (me_Path e))\<lparr>me_LinkTarget := me_LinkTarget e, me_LinkTargetType := me_LinkTargetType e\<rparr>
    else if me_Type e = ScenarioManifestEntryTypeHardlink then (base_entry (me_Type e) (me_Mode e) (me_Path e))\<lparr>me_SourcePath := me_SourcePath e\<rparr>
    else (base_entry (me_Type e) (me_Mode e) (me_Path e))\<lparr>me_Special := me_Special e\<rparr>)"
  by (simp add: entry_fields_def base_entry_def)

lemma target_type_Inr:
  "normalizeScenarioManifestLinkTargetType t = Inr t' \<Longrightarrow>
     t' = ScenarioManifestLinkTargetTypeLiteral \<or> t' = ScenarioManifestLinkTargetTypeManifestPath"
  by (auto simp: normalizeScenarioManifestLinkTargetType_def split: if_splits)

lemma normal_dir:
  assumes "me_Type e = ScenarioManifestEntryTypeDir" "normalizeScenarioManifestEntry e = Inr out"
  shows "entry_wf out"
proof -
  obtain path metadata where n: "normalizeOperationPath (me_Path e) True = Inr path" "me_Mode e \<le> maxPOSIXFileMode"
    "\<not> (path \<noteq> ''/'' \<and> me_Mode e = 0)" "normalizeScenarioManifestMetadata (me_Metadata e) = Inr metadata"
    and out: "out = (base_entry (me_Type e) (me_Mode e) path)\<lparr>me_Metadata := metadata\<rparr>"
    using assms(2) unfolding branch_dir [OF assms(1)] by (elim exE conjE)
  show ?thesis
    using n(2,3) normalizeOperationPath_wf [OF n(1)] metadata_normal [OF n(4)]
    by (simp add: out entry_wf_def entry_fields_base assms(1))
qed

lemma normal_file:
  assumes "me_Type e = ScenarioManifestEntryTypeFile" "normalizeScenarioManifestEntry e = Inr out"
  shows "entry_wf out"
proof -
  obtain path metadata where n: "normalizeOperationPath (me_Path e) False = Inr path" "me_Mode e \<le> maxPOSIXFileMode"
    "me_Mode e \<noteq> 0" "opt_ok content_wf (me_Content e)" "me_Content e = None \<or> me_Data e = []"
    "normalizeScenarioManifestMetadata (me_Metadata e) = Inr metadata"
    and out: "out = (base_entry (me_Type e) (me_Mode e) path)\<lparr>me_Data := me_Data e, me_Content := me_Content e, me_Metadata := metadata\<rparr>"
    using assms(2) unfolding branch_file [OF assms(1)] by (elim exE conjE)
  show ?thesis
    using n(2-5) normalizeOperationPath_wf [OF n(1)] metadata_normal [OF n(6)]
    by (simp add: out entry_wf_def entry_fields_base assms(1))
qed

lemma normal_symlink:
  assumes "me_Type e = ScenarioManifestEntryTypeSymlink" "normalizeScenarioManifestEntry e = Inr out"
  shows "entry_wf out"
proof -
  obtain path targetType target where n: "normalizeOperationPath (me_Path e) False = Inr path"
    "me_Mode e \<le> maxPOSIXFileMode" "TrimSpace (me_LinkTarget e) \<noteq> []" "\<not> Contains (me_LinkTarget e) NUL"
    "normalizeScenarioManifestLinkTargetType (me_LinkTargetType e) = Inr targetType"
    "if targetType = ScenarioManifestLinkTargetTypeManifestPath
     then normalizeOperationPath (me_LinkTarget e) True = Inr target else target = me_LinkTarget e"
    and out: "out = (base_entry (me_Type e) (me_Mode e) path)\<lparr>me_LinkTarget := target, me_LinkTargetType := targetType\<rparr>"
    using assms(2) unfolding branch_symlink [OF assms(1)] by (elim exE conjE)
  have "TrimSpace target \<noteq> [] \<and> \<not> Contains target NUL \<and> (targetType = ScenarioManifestLinkTargetTypeLiteral \<or>
      targetType = ScenarioManifestLinkTargetTypeManifestPath \<and> path_wf target True)"
  proof (cases "targetType = ScenarioManifestLinkTargetTypeManifestPath")
    case True
    then have "path_wf target True" using n(6) normalizeOperationPath_wf by simp
    then show ?thesis using True rooted_target by blast
  next
    case False
    then show ?thesis using n(3,4,6) target_type_Inr [OF n(5)] by simp
  qed
  then show ?thesis
    using n(2) normalizeOperationPath_wf [OF n(1)] by (simp add: out entry_wf_def entry_fields_base assms(1))
qed

lemma normal_hardlink:
  assumes "me_Type e = ScenarioManifestEntryTypeHardlink" "normalizeScenarioManifestEntry e = Inr out"
  shows "entry_wf out"
proof -
  obtain path source where n: "normalizeOperationPath (me_Path e) False = Inr path" "me_Mode e \<le> maxPOSIXFileMode"
    "normalizeOperationPath (me_SourcePath e) False = Inr source" "source \<noteq> path"
    and out: "out = (base_entry (me_Type e) (me_Mode e) path)\<lparr>me_SourcePath := source\<rparr>"
    using assms(2) unfolding branch_hardlink [OF assms(1)] by (elim exE conjE)
  show ?thesis
    using n(2,4) normalizeOperationPath_wf [OF n(1)] normalizeOperationPath_wf [OF n(3)]
    by (simp add: out entry_wf_def entry_fields_base assms(1))
qed

lemma normal_special:
  assumes "me_Type e = ScenarioManifestEntryTypeSpecial" "normalizeScenarioManifestEntry e = Inr out"
  shows "entry_wf out"
proof -
  obtain path special normalizedSpecial where n: "normalizeOperationPath (me_Path e) False = Inr path"
    "me_Mode e \<le> maxPOSIXFileMode" "me_Mode e \<noteq> 0" "normalizeScenarioManifestSpecialFile special = Inr normalizedSpecial"
    and out: "out = (base_entry (me_Type e) (me_Mode e) path)\<lparr>me_Special := Some normalizedSpecial\<rparr>"
    using assms(2) unfolding branch_special [OF assms(1)] by (elim exE conjE)
  show ?thesis
    using n(2,3) normalizeOperationPath_wf [OF n(1)] special_normal(1) [OF n(4)]
    by (simp add: out entry_wf_def entry_fields_base assms(1))
qed

lemma entry_normal: "normalizeScenarioManifestEntry e = Inr out \<Longrightarrow> entry_wf out"
  by (rule entry_types [of e out]) (blast intro: normal_dir normal_file normal_symlink normal_hardlink normal_special)+

lemma entry_id:
  assumes wf: "entry_wf e"
  shows "normalizeScenarioManifestEntry e = Inr e"
proof -
  have f: "e = entry_fields e" using wf by (simp add: entry_wf_def)
  have m: "me_Mode e \<le> maxPOSIXFileMode" using wf by (simp add: entry_wf_def)
  have p: "normalizeOperationPath (me_Path e) (me_Type e = ScenarioManifestEntryTypeDir) = Inr (me_Path e)"
    using wf by (simp add: entry_wf_def normalizeOperationPath_id)
  note rest = wf [unfolded entry_wf_def, THEN conjunct2, THEN conjunct2, THEN conjunct2]
  have "normalizeScenarioManifestEntry e = Inr out \<or> entry_wf e" for out using wf by blast
  then show ?thesis
  proof (cases rule: entry_types)
    case 1
    note fe = f [unfolded entry_fields_base if_P [OF 1]]
    show ?thesis unfolding branch_dir [OF 1]
      using 1 rest m p metadata_id by (intro exI [of _ "me_Path e"] exI [of _ "me_Metadata e"] conjI fe) auto
  next
    case 2
    have fe: "e = (base_entry (me_Type e) (me_Mode e) (me_Path e))\<lparr>me_Data := me_Data e, me_Content := me_Content e, me_Metadata := me_Metadata e\<rparr>"
      using f unfolding entry_fields_base 2 by simp
    show ?thesis unfolding branch_file [OF 2]
      using 2 rest m p metadata_id by (intro exI [of _ "me_Path e"] exI [of _ "me_Metadata e"] conjI fe) auto
  next
    case 3
    have fe: "e = (base_entry (me_Type e) (me_Mode e) (me_Path e))\<lparr>me_LinkTarget := me_LinkTarget e, me_LinkTargetType := me_LinkTargetType e\<rparr>"
      using f unfolding entry_fields_base 3 by simp
    show ?thesis unfolding branch_symlink [OF 3]
      using 3 rest m p normalizeOperationPath_id [of "me_LinkTarget e" True]
      by (intro exI [of _ "me_Path e"] exI [of _ "me_LinkTargetType e"] exI [of _ "me_LinkTarget e"] conjI fe)
        (auto simp: normalizeScenarioManifestLinkTargetType_def)
  next
    case 4
    have fe: "e = (base_entry (me_Type e) (me_Mode e) (me_Path e))\<lparr>me_SourcePath := me_SourcePath e\<rparr>"
      using f unfolding entry_fields_base 4 by simp
    show ?thesis unfolding branch_hardlink [OF 4]
      using 4 rest m p normalizeOperationPath_id [of "me_SourcePath e" False]
      by (intro exI [of _ "me_Path e"] exI [of _ "me_SourcePath e"] conjI fe) auto
  next
    case 5
    have fe: "e = (base_entry (me_Type e) (me_Mode e) (me_Path e))\<lparr>me_Special := me_Special e\<rparr>"
      using f unfolding entry_fields_base 5 by simp
    have "me_Metadata ((base_entry (me_Type e) (me_Mode e) (me_Path e))\<lparr>me_Special := me_Special e\<rparr>) = None" by simp
    then have none: "me_Metadata e = None" unfolding fe [symmetric] .
    obtain s where s: "me_Special e = Some s" "special_wf s" using rest 5 by (auto split: option.splits)
    show ?thesis unfolding branch_special [OF 5]
      using 5 rest m p special_normal(2) [OF s(2)] s(1) fe none
      by (intro exI [of _ "me_Path e"] exI [of _ s] conjI) (simp_all add: normalizeScenarioManifestMetadata_def)
  qed
qed

section \<open>The tree of a manifest\<close>

definition path_types :: "ScenarioManifestEntry list \<Rightarrow> ScenarioManifestEntryType gomap" where
  "path_types es = map (\<lambda>e. (me_Path e, me_Type e)) es"

definition parent_ok :: "ScenarioManifestEntry list \<Rightarrow> ScenarioManifestEntry \<Rightarrow> bool" where
  "parent_ok es e \<longleftrightarrow> me_Path e = ''/'' \<or> map_of (path_types es) (parent_of (me_Path e)) = Some ScenarioManifestEntryTypeDir"

text \<open>Every path is new and its parent an earlier directory.\<close>

definition manifest_tree_ok :: "ScenarioManifestEntry list \<Rightarrow> bool" where
  "manifest_tree_ok es \<longleftrightarrow> distinct (map me_Path es) \<and> list_all (\<lambda>i. parent_ok (take (Suc i) es) (es ! i)) [0..<length es]"

lemma put_new: "\<not> has m k \<Longrightarrow> put k v m = m @ [(k, v)]"
  by (induction k v m rule: put.induct) (auto simp: has_def split: if_splits)

lemma has_path_types: "has (path_types es) p \<longleftrightarrow> p \<in> me_Path ` set es"
  by (force simp: has_iff keys_def path_types_def)

lemma check_tree_Inr:
  assumes "distinct (map me_Path es)"
  shows "check_tree (path_types es) rest = Inr out \<longleftrightarrow> out = path_types (es @ rest) \<and> distinct (map me_Path (es @ rest)) \<and>
     list_all (\<lambda>i. parent_ok (take (Suc i) (es @ rest)) ((es @ rest) ! i)) [length es..<length (es @ rest)]"
  using assms
proof (induction rest arbitrary: es)
  case (Cons e rest)
  show ?case
  proof (cases "me_Path e \<in> me_Path ` set es")
    case True
    then show ?thesis by (auto simp: has_path_types)
  next
    case False
    have put: "put (me_Path e) (me_Type e) (path_types es) = path_types (es @ [e])"
      using False by (simp add: put_new has_path_types) (simp add: path_types_def)
    have step: "check_tree (path_types es) (e # rest) = Inr out \<longleftrightarrow>
        parent_ok (es @ [e]) e \<and> check_tree (path_types (es @ [e])) rest = Inr out"
      using False by (auto simp: has_path_types put parent_ok_def Let_def split: option.splits if_splits)
    have upt: "[length es..<length (es @ e # rest)] = length es # [length (es @ [e])..<length ((es @ [e]) @ rest)]"
      unfolding upt_rec [of "length es"] by simp
    have "distinct (map me_Path (es @ [e]))" using Cons.prems False by auto
    from Cons.IH [OF this] show ?thesis
      unfolding step upt by (auto simp: nth_append)
  qed
qed auto

definition hardlink_ok :: "ScenarioManifestEntryType gomap \<Rightarrow> ScenarioManifestEntry \<Rightarrow> bool" where
  "hardlink_ok pathSet e \<longleftrightarrow> me_Type e = ScenarioManifestEntryTypeHardlink \<longrightarrow>
     map_of pathSet (me_SourcePath e) \<in> {Some ScenarioManifestEntryTypeFile, Some ScenarioManifestEntryTypeHardlink}"

definition symlink_ok :: "ScenarioManifestEntryType gomap \<Rightarrow> ScenarioManifestEntry \<Rightarrow> bool" where
  "symlink_ok pathSet e \<longleftrightarrow> me_Type e = ScenarioManifestEntryTypeSymlink \<longrightarrow>
     me_LinkTargetType e = ScenarioManifestLinkTargetTypeManifestPath \<longrightarrow> has pathSet (me_LinkTarget e)"

lemma check_hardlinks_Inr: "check_hardlinks ps es = Inr u \<longleftrightarrow> list_all (hardlink_ok ps) es"
  by (induction ps es rule: check_hardlinks.induct) (auto simp: hardlink_ok_def split: option.splits if_splits)

lemma check_symlinks_Inr: "check_symlinks ps es = Inr u \<longleftrightarrow> list_all (symlink_ok ps) es"
  by (induction ps es rule: check_symlinks.induct) (auto simp: symlink_ok_def)

section \<open>Manifests\<close>

text \<open>
  A well-formed manifest: a supported version, legal settings of the generator, sorted sets of settings
  and capabilities, normalized entries and operations, the root directory first, each entry at a new
  path in an earlier directory, hard links to files and links to paths of the manifest, and every
  capability declared that an entry or operation needs.
\<close>

definition manifest_wf :: "ScenarioManifest \<Rightarrow> bool" where
  "manifest_wf m \<longleftrightarrow> sm_Version m = scenarioManifestVersion \<and>
     is_ok (validateRunMode (mg_RunMode (sm_Generator m))) \<and> 0 < mg_PlanEntryLimit (sm_Generator m) \<and>
     settings_wf (mg_DeterministicSettings (sm_Generator m)) \<and> capabilities_wf (sm_RequiredCapabilities m) \<and>
     sm_Entries m \<noteq> [] \<and> list_all entry_wf (sm_Entries m) \<and>
     me_Type (hd (sm_Entries m)) = ScenarioManifestEntryTypeDir \<and> me_Path (hd (sm_Entries m)) = ''/'' \<and>
     manifest_tree_ok (sm_Entries m) \<and>
     list_all (\<lambda>e. hardlink_ok (path_types (sm_Entries m)) e \<and> symlink_ok (path_types (sm_Entries m)) e) (sm_Entries m) \<and>
     list_all op_wf (sm_Operations m) \<and>
     list_all (\<lambda>c. c \<in> set (sm_RequiredCapabilities m))
       (deriveScenarioManifestCapabilities (sm_Entries m) (sm_Operations m))"

definition lower_integrity :: "ScenarioManifestIntegrity \<Rightarrow> ScenarioManifestIntegrity" where
  "lower_integrity i =
     \<lparr>mi_Algorithm = ToLower (TrimSpace (mi_Algorithm i)), mi_Checksum = ToLower (TrimSpace (mi_Checksum i))\<rparr>"

lemma version_Inr: "validateScenarioManifestVersion v = Inr u \<longleftrightarrow> v = scenarioManifestVersion"
  by (auto simp: validateScenarioManifestVersion_def scenarioManifestVersion_def
      scenarioManifestVersionMinSupported_def scenarioManifestVersionMaxSupported_def)

lemma mapE_entries: "mapE_from 0 (\<lambda>_. normalizeScenarioManifestEntry) es = Inr out \<Longrightarrow> list_all entry_wf out"
  by (auto simp: list_all_iff dest!: mapE_from_setD entry_normal)

lemma mapE_operations:
  "mapE_from 0 (\<lambda>_ op. wrapE msg (normalizeOperation op)) ops = Inr out \<Longrightarrow> list_all op_wf out"
  by (auto simp: list_all_iff dest!: mapE_from_setD normalizeOperation_wf)

lemma normalize_wf:
  assumes "normalizeScenarioManifest m = Inr n"
  shows "manifest_wf n" "sm_Integrity n = lower_integrity (sm_Integrity m)"
    "mg_Seed (sm_Generator n) = mg_Seed (sm_Generator m)" "mg_RunMode (sm_Generator n) = mg_RunMode (sm_Generator m)"
    "length (sm_Entries n) = length (sm_Entries m)"
proof -
  let ?g = "sm_Generator m"
  obtain settings capabilities es pathSet ops u1 u2 u3 u4 where
    v: "validateScenarioManifestVersion (sm_Version m) = Inr u1" "validateRunMode (mg_RunMode ?g) = Inr u2"
      "\<not> mg_PlanEntryLimit ?g \<le> 0"
    and s: "normalize_settings [] (mg_DeterministicSettings ?g) = Inr settings"
    and c: "normalizeScenarioManifestCapabilities (sm_RequiredCapabilities m) = Inr capabilities"
    and e: "mapE_from 0 (\<lambda>_. normalizeScenarioManifestEntry) (sm_Entries m) = Inr es" "sm_Entries m \<noteq> []"
      "me_Type (hd es) = ScenarioManifestEntryTypeDir" "me_Path (hd es) = ''/''"
    and t: "check_tree [] es = Inr pathSet" "check_hardlinks pathSet es = Inr u3" "check_symlinks pathSet es = Inr u4"
    and o': "mapE_from 0 (\<lambda>_ op. wrapE ''invalid manifest operation'' (normalizeOperation op)) (sm_Operations m) = Inr ops"
    and r: "filter (\<lambda>c. c \<notin> set capabilities) (deriveScenarioManifestCapabilities es ops) = []"
    and n: "n = \<lparr>sm_Version = sm_Version m,
        sm_Generator = \<lparr>mg_Seed = mg_Seed ?g, mg_RunMode = mg_RunMode ?g, mg_PlanEntryLimit = mg_PlanEntryLimit ?g,
           mg_DeterministicSettings = sort_key ms_Name settings\<rparr>,
        sm_Entries = es, sm_Operations = ops, sm_RequiredCapabilities = capabilities,
        sm_Integrity = \<lparr>mi_Algorithm = ToLower (TrimSpace (mi_Algorithm (sm_Integrity m))),
           mi_Checksum = ToLower (TrimSpace (mi_Checksum (sm_Integrity m)))\<rparr>\<rparr>"
    using assms unfolding normalizeScenarioManifest_def Let_def
    by (auto split: if_splits)
  have "es \<noteq> []" using e(1,2) mapE_from_length by fastforce
  moreover have "pathSet = path_types es \<and> manifest_tree_ok es"
    using check_tree_Inr [of "[]" es pathSet] t(1) by (simp add: path_types_def manifest_tree_ok_def)
  ultimately show "manifest_wf n"
    using v settings_wf_sort [OF s] capabilities_normal(1) [OF c] mapE_entries [OF e(1)] e(3,4) t(2,3)
      mapE_operations [OF o'] r
    by (auto simp: n manifest_wf_def version_Inr check_hardlinks_Inr check_symlinks_Inr list_all_iff filter_empty_conv)
  show "sm_Integrity n = lower_integrity (sm_Integrity m)" by (simp add: n lower_integrity_def)
  show "mg_Seed (sm_Generator n) = mg_Seed (sm_Generator m)" "mg_RunMode (sm_Generator n) = mg_RunMode (sm_Generator m)"
    "length (sm_Entries n) = length (sm_Entries m)"
    using mapE_from_length [OF e(1)] by (simp_all add: n)
qed

lemma normalize_id:
  assumes "manifest_wf n"
  shows "normalizeScenarioManifest n = Inr (n\<lparr>sm_Integrity := lower_integrity (sm_Integrity n)\<rparr>)"
proof -
  note wf = assms [unfolded manifest_wf_def]
  have s: "normalize_settings [] (mg_DeterministicSettings (sm_Generator n)) = Inr (mg_DeterministicSettings (sm_Generator n))"
    "sort_key ms_Name (mg_DeterministicSettings (sm_Generator n)) = mg_DeterministicSettings (sm_Generator n)"
    using wf by (auto simp: settings_wf_def normalize_settings_id sort_key_id_if_sorted)
  have e: "mapE_from 0 (\<lambda>_. normalizeScenarioManifestEntry) (sm_Entries n) = Inr (sm_Entries n)"
    by (rule mapE_from_id) (use wf entry_id in \<open>auto simp: list_all_iff\<close>)
  have ops: "mapE_from 0 (\<lambda>_ op. wrapE ''invalid manifest operation'' (normalizeOperation op)) (sm_Operations n) = Inr (sm_Operations n)"
    by (rule mapE_from_id) (use wf normalizeOperation_id in \<open>auto simp: list_all_iff\<close>)
  have t: "check_tree [] (sm_Entries n) = Inr (path_types (sm_Entries n))"
    using check_tree_Inr [of "[]" "sm_Entries n"] wf by (simp add: path_types_def manifest_tree_ok_def)
  have h: "check_hardlinks (path_types (sm_Entries n)) (sm_Entries n) = Inr ()"
    "check_symlinks (path_types (sm_Entries n)) (sm_Entries n) = Inr ()"
    using wf by (auto simp: check_hardlinks_Inr check_symlinks_Inr list_all_iff)
  have v: "validateScenarioManifestVersion (sm_Version n) = Inr ()" "validateRunMode (mg_RunMode (sm_Generator n)) = Inr ()"
    using wf by (auto simp: version_Inr is_ok_iff)
  have r: "filter (\<lambda>c. c \<notin> set (sm_RequiredCapabilities n)) (deriveScenarioManifestCapabilities (sm_Entries n) (sm_Operations n)) = []"
    using wf by (auto simp: list_all_iff filter_empty_conv)
  have c: "normalizeScenarioManifestCapabilities (sm_RequiredCapabilities n) = Inr (sm_RequiredCapabilities n)"
    using wf capabilities_normal(2) by blast
  have rest: "\<not> mg_PlanEntryLimit (sm_Generator n) \<le> 0" "sm_Entries n \<noteq> []"
    "\<not> (me_Type (hd (sm_Entries n)) \<noteq> ScenarioManifestEntryTypeDir \<or> me_Path (hd (sm_Entries n)) \<noteq> ''/'')"
    using wf by auto
  show ?thesis
    unfolding normalizeScenarioManifest_def Let_def v wrapE_simps bindE_simps s c e t h ops if_not_P [OF rest(1)]
      if_not_P [OF rest(2)] if_not_P [OF rest(3)] r lower_integrity_def
    by simp
qed

section \<open>Sealed manifests\<close>

lemma hex_alphabet_bytes: "c \<in> set hex_alphabet \<Longrightarrow> c \<notin> space_first \<and> c \<notin> space_last \<and> c \<noteq> CHR 0xC4 \<and> c \<noteq> CHR 0xE2 \<and>
    lower_byte c = c \<and> c \<in> set ''0123456789abcdefABCDEF''"
proof -
  have "list_all (\<lambda>c. c \<notin> space_first \<and> c \<notin> space_last \<and> c \<noteq> CHR 0xC4 \<and> c \<noteq> CHR 0xE2 \<and>
    lower_byte c = c \<and> c \<in> set ''0123456789abcdefABCDEF'') hex_alphabet" by code_simp
  then show "c \<in> set hex_alphabet \<Longrightarrow> ?thesis" unfolding list_all_iff by blast
qed

text \<open>Bytes that are no lower case letters are neither made nor moved, so lowering twice is lowering once.\<close>

definition kept :: "char \<Rightarrow> bool" where
  "kept b \<longleftrightarrow> b < CHR ''a'' \<or> CHR ''z'' < b"

lemma lower_byte_kept: "lower_byte x = b \<Longrightarrow> kept b \<Longrightarrow> x = b"
  by (auto simp: lower_byte_def kept_def less_char_def less_eq_char_def split: if_splits)

lemma lower_byte_idem [simp]: "lower_byte (lower_byte x) = lower_byte x"
  by (auto simp: lower_byte_def less_eq_char_def)

lemma ToLower_kept:
  assumes "ToLower xs = b # ys" "kept b"
  shows "\<exists>zs. xs = b # zs \<and> ys = ToLower zs"
proof (cases xs)
  case (Cons x zs)
  have "\<not> kept (CHR ''i'')" "\<not> kept (CHR ''k'')" by code_simp+
  then show ?thesis using assms Cons lower_byte_kept [of x b] by (auto split: if_splits)
qed (use assms in simp)

lemma HasPrefix_Cons: "HasPrefix s (b # p) \<longleftrightarrow> (\<exists>t. s = b # t \<and> HasPrefix t p)"
  by (auto simp: HasPrefix_iff)

lemma HasPrefix_Nil: "HasPrefix s []"
  by (simp add: HasPrefix_iff)

lemma ToLower_prefix:
  "HasPrefix (ToLower xs) q \<Longrightarrow> list_all kept q \<Longrightarrow> HasPrefix xs q"
proof (induction q arbitrary: xs)
  case (Cons b q)
  obtain t where t: "ToLower xs = b # t" "HasPrefix t q" using Cons.prems(1) unfolding HasPrefix_Cons by blast
  obtain zs where "xs = b # zs" "t = ToLower zs" using ToLower_kept [OF t(1)] Cons.prems(2) by auto
  then show ?case using Cons.IH [of zs] t(2) Cons.prems(2) by (simp add: HasPrefix_Cons)
qed (simp add: HasPrefix_Nil)

lemma ToLower_head:
  assumes "HasPrefix (lower_byte x # ToLower xs) (b # p)" "list_all kept (b # p)"
  shows "HasPrefix (x # xs) (b # p)"
  using assms ToLower_prefix [of xs p] lower_byte_kept [of x b] by (simp add: HasPrefix_Cons)

lemma ToLower_all_kept: "ToLower xs = w \<Longrightarrow> list_all kept w \<Longrightarrow> xs = w"
proof (induction w arbitrary: xs)
  case Nil
  then show ?case by (cases xs) (auto split: if_splits)
next
  case (Cons b w)
  then show ?case using ToLower_kept [of xs b w] by auto
qed

lemma ToLower_suffix: "ToLower s = t @ w \<Longrightarrow> list_all kept w \<Longrightarrow> \<exists>u. s = u @ w"
proof (induction s arbitrary: t rule: ToLower.induct)
  case (2 x xs)
  show ?case
  proof (cases t)
    case Nil
    then show ?thesis using ToLower_all_kept [of "x # xs" w] 2(4,5) by auto
  next
    case (Cons b t')
    note IH = 2(1-3)
    show ?thesis
    proof (cases "HasPrefix (x # xs) [CHR 0xC4, CHR 0xB0]")
      case True
      then have "ToLower (drop 1 xs) = t' @ w" using 2(4) Cons by simp
      from IH(1) [OF True this 2(5)] show ?thesis by (metis append.assoc append_Cons append_take_drop_id)
    next
      case f: False
      show ?thesis
      proof (cases "HasPrefix (x # xs) [CHR 0xE2, CHR 0x84, CHR 0xAA]")
        case True
        then have "ToLower (drop 2 xs) = t' @ w" using 2(4) f Cons by simp
        from IH(2) [OF f True this 2(5)] show ?thesis by (metis append.assoc append_Cons append_take_drop_id)
      next
        case False
        have "lower_byte x # ToLower xs = b # t' @ w"
          using 2(4) unfolding Cons ToLower.simps if_not_P [OF f] if_not_P [OF False] by simp
        then have "ToLower xs = t' @ w" by simp
        from IH(3) [OF f False this 2(5)] show ?thesis by (metis append_Cons)
      qed
    qed
  qed
qed simp

text \<open>A string is trimmed when no white space starts or ends it.\<close>

lemma trimmed_iff: "TrimSpace s = s \<longleftrightarrow> (\<forall>w \<in> set space_seqs. \<not> HasPrefix s w \<and> (\<nexists>u. s = u @ w))"
proof
  assume t: "TrimSpace s = s"
  let ?a = "drop_seqs space_seqs s"
  let ?b = "drop_seqs (map rev space_seqs) (rev ?a)"
  obtain p q where p: "s = p @ ?a" "rev ?a = q @ ?b" using drop_seqs_sublist by blast
  have b: "?b = rev s" using t unfolding TrimSpace_def by (metis rev_rev_ident)
  have "length s = length p + length ?a" using arg_cong [OF p(1), of length] by simp
  moreover have "length ?a = length q + length s" using arg_cong [OF p(2), of length] b by simp
  ultimately have "p = []" by simp
  then have a: "?a = s" using p(1) by simp
  show "\<forall>w \<in> set space_seqs. \<not> HasPrefix s w \<and> (\<nexists>u. s = u @ w)"
  proof (intro ballI conjI)
    fix w assume w: "w \<in> set space_seqs"
    show "\<not> HasPrefix s w" using drop_seqs_no_prefix [OF w space_seqs_nonempty [OF w], of s] a by simp
    have "\<not> HasPrefix (rev s) (rev w)"
      using drop_seqs_no_prefix [of "rev w" "map rev space_seqs" "rev ?a"] b w space_seqs_nonempty [OF w] by simp
    then show "\<nexists>u. s = u @ w" by auto
  qed
next
  assume n: "\<forall>w \<in> set space_seqs. \<not> HasPrefix s w \<and> (\<nexists>u. s = u @ w)"
  have "drop_seqs space_seqs s = s" by (rule drop_seqs_id) (use n in blast)
  moreover have "drop_seqs (map rev space_seqs) (rev s) = rev s"
  proof (rule drop_seqs_id, intro ballI impI notI)
    fix w assume "w \<in> set (map rev space_seqs)" "HasPrefix (rev s) w"
    then obtain v t where "v \<in> set space_seqs" "rev s = rev v @ t" by (auto simp: HasPrefix_iff)
    then have "s = rev t @ v" by (metis rev_append rev_rev_ident)
    then show False using n \<open>v \<in> set space_seqs\<close> by blast
  qed
  ultimately show "TrimSpace s = s" by (simp add: TrimSpace_def)
qed

lemma TrimSpace_ToLower:
  assumes "TrimSpace s = s"
  shows "TrimSpace (ToLower s) = ToLower s"
proof -
  have "list_all (list_all kept) space_seqs" by code_simp
  then have k: "list_all kept w" if "w \<in> set space_seqs" for w using that by (simp add: list_all_iff)
  show ?thesis
    using assms ToLower_prefix ToLower_suffix k unfolding trimmed_iff by meson
qed

lemma ToLower_idem: "ToLower (ToLower s) = ToLower s"
proof (induction s rule: ToLower.induct)
  case (2 x xs)
  have z: "list_all kept [CHR 0xC4, CHR 0xB0]" "list_all kept [CHR 0xE2, CHR 0x84, CHR 0xAA]"
    by code_simp+
  have ik: "ToLower (CHR ''i'' # s) = CHR ''i'' # ToLower s" "ToLower (CHR ''k'' # s) = CHR ''k'' # ToLower s" for s
    by (simp_all add: HasPrefix_Cons lower_byte_def)
  show ?case
  proof (cases "HasPrefix (x # xs) [CHR 0xC4, CHR 0xB0]")
    case True
    then show ?thesis using 2(1) ik by simp
  next
    case f1: False
    show ?thesis
    proof (cases "HasPrefix (x # xs) [CHR 0xE2, CHR 0x84, CHR 0xAA]")
      case True
      then show ?thesis using f1 2(2) ik by simp
    next
      case False
      then show ?thesis using f1 2(3) ToLower_head [OF _ z(1), of x xs] ToLower_head [OF _ z(2), of x xs] by auto
    qed
  qed
qed simp

lemma ToLower_hex: "set s \<subseteq> set hex_alphabet \<Longrightarrow> ToLower s = s"
  by (induction s rule: ToLower.induct) (auto simp: HasPrefix_def dest: hex_alphabet_bytes)

lemma digest_facts:
  "ToLower (hex_digits 64 n) = hex_digits 64 n" "TrimSpace (hex_digits 64 n) = hex_digits 64 n"
  "hex_digits 64 n \<noteq> []" "hex_decodes (hex_digits 64 n)"
proof -
  have s: "set (hex_digits 64 n) \<subseteq> set hex_alphabet" by (rule hex_digits_set)
  show ne: "hex_digits 64 n \<noteq> []" using hex_digits_length [of 64 n] by fastforce
  show "ToLower (hex_digits 64 n) = hex_digits 64 n" using ToLower_hex [OF s] .
  have "hd (hex_digits 64 n) \<in> set hex_alphabet" "last (hex_digits 64 n) \<in> set hex_alphabet" using s ne by auto
  then show "TrimSpace (hex_digits 64 n) = hex_digits 64 n" using ne hex_alphabet_bytes by (intro TrimSpace_id) blast+
  show "hex_decodes (hex_digits 64 n)"
    unfolding hex_decodes_def list_all_iff hex_digits_length
  proof
    show "\<forall>c\<in>set (hex_digits 64 n). c \<in> set ''0123456789abcdefABCDEF''" using s hex_alphabet_bytes by blast
  qed simp
qed

lemma algorithm_facts [simp]: "TrimSpace ''sha256'' = ''sha256''" "ToLower ''sha256'' = ''sha256''"
proof -
  show "TrimSpace ''sha256'' = ''sha256''" by (rule TrimSpace_id) (simp_all add: space_first_def space_last_def)
  show "ToLower ''sha256'' = ''sha256''" by code_simp
qed

text \<open>\<open>digest\<close> is the checksum of the manifest without its integrity.\<close>

lemma checksum_integrity: "scenarioManifestChecksum canonical sha256 (m\<lparr>sm_Integrity := i\<rparr>) = scenarioManifestChecksum canonical sha256 m"
  by (simp add: scenarioManifestChecksum_def)

lemma checksum_digest: "scenarioManifestChecksum canonical sha256 m = Inr d \<Longrightarrow> \<exists>n. d = hex_digits 64 n"
  by (auto simp: scenarioManifestChecksum_def)

lemma seal_Inr:
  "sealScenarioManifestIntegrity canonical sha256 m = Inr s \<longleftrightarrow>
     (\<exists>d. scenarioManifestChecksum canonical sha256 m = Inr d \<and>
        s = m\<lparr>sm_Integrity := \<lparr>mi_Algorithm = ''sha256'', mi_Checksum = d\<rparr>\<rparr>)"
  by (auto simp: sealScenarioManifestIntegrity_def)

text \<open>What passes the check has the integrity it would be sealed with.\<close>

lemma verify_normal:
  assumes "lower_integrity (sm_Integrity m) = sm_Integrity m"
  shows "verifyScenarioManifestIntegrity canonical sha256 m = Inr u \<longleftrightarrow> sealScenarioManifestIntegrity canonical sha256 m = Inr m"
proof -
  obtain a c where i: "sm_Integrity m = \<lparr>mi_Algorithm = a, mi_Checksum = c\<rparr>" by (cases "sm_Integrity m")
  have l: "ToLower (TrimSpace a) = a" "ToLower (TrimSpace c) = c" using assms by (simp_all add: i lower_integrity_def)
  show ?thesis
  proof
    assume "verifyScenarioManifestIntegrity canonical sha256 m = Inr u"
    then have "ToLower a = ''sha256''" "scenarioManifestChecksum canonical sha256 m = Inr c" "TrimSpace a \<noteq> []"
      using l by (auto simp: verifyScenarioManifestIntegrity_def i split: if_splits)
    moreover have "a = ToLower a" by (metis ToLower_idem l(1))
    ultimately show "sealScenarioManifestIntegrity canonical sha256 m = Inr m" using i by (cases m) (auto simp: seal_Inr)
  next
    assume "sealScenarioManifestIntegrity canonical sha256 m = Inr m"
    then obtain d where d: "scenarioManifestChecksum canonical sha256 m = Inr d" "a = ''sha256''" "c = d"
      using i by (auto simp: seal_Inr dest: arg_cong [of _ _ sm_Integrity])
    then show "verifyScenarioManifestIntegrity canonical sha256 m = Inr u"
      using checksum_digest [OF d(1)] digest_facts by (auto simp: verifyScenarioManifestIntegrity_def i Let_def simp del: ToLower.simps)
  qed
qed

lemma sealed_normal:
  assumes "manifest_wf m" "sealScenarioManifestIntegrity canonical sha256 m = Inr s"
  shows "manifest_wf s" "normalizeScenarioManifest s = Inr s" "verifyScenarioManifestIntegrity canonical sha256 s = Inr ()"
    "sealScenarioManifestIntegrity canonical sha256 s = Inr s"
proof -
  obtain d where d: "scenarioManifestChecksum canonical sha256 m = Inr d"
    and s: "s = m\<lparr>sm_Integrity := \<lparr>mi_Algorithm = ''sha256'', mi_Checksum = d\<rparr>\<rparr>"
    using assms(2) unfolding seal_Inr by blast
  have low: "lower_integrity (sm_Integrity s) = sm_Integrity s"
    using checksum_digest [OF d] digest_facts by (auto simp: s lower_integrity_def simp del: ToLower.simps)
  show wf: "manifest_wf s" using assms(1) by (simp add: s manifest_wf_def)
  show "normalizeScenarioManifest s = Inr s" unfolding normalize_id [OF wf] low by (cases s) simp
  show seal: "sealScenarioManifestIntegrity canonical sha256 s = Inr s"
    using d unfolding s seal_Inr checksum_integrity by simp
  then show "verifyScenarioManifestIntegrity canonical sha256 s = Inr ()" using verify_normal [OF low] by blast
qed

lemma lower_integrity_idem: "lower_integrity (lower_integrity i) = lower_integrity i"
  by (simp add: lower_integrity_def TrimSpace_ToLower TrimSpace_idem ToLower_idem)

lemma normalized_again:
  assumes "normalizeScenarioManifest m = Inr n"
  shows "normalizeScenarioManifest n = Inr n"
  using normalize_id [OF normalize_wf(1) [OF assms]] unfolding normalize_wf(2) [OF assms] lower_integrity_idem
  by (simp add: normalize_wf(2) [OF assms, symmetric])

text \<open>Two sealed manifests with the same checksum encode to payloads with the same hash.\<close>

lemma sealed_hash:
  assumes "sealScenarioManifestIntegrity canonical sha256 m = Inr m" "sealScenarioManifestIntegrity canonical sha256 n = Inr n"
    and "sm_Integrity m = sm_Integrity n"
  shows "\<exists>p q. canonical (m\<lparr>sm_Integrity := ScenarioManifestIntegrity0\<rparr>) = Inr p \<and>
    canonical (n\<lparr>sm_Integrity := ScenarioManifestIntegrity0\<rparr>) = Inr q \<and> sha256 p = sha256 q"
proof -
  obtain d where d: "scenarioManifestChecksum canonical sha256 m = Inr d" "scenarioManifestChecksum canonical sha256 n = Inr d"
    using assms by (auto simp: seal_Inr) (metis ScenarioManifest.select_convs(6) ScenarioManifest.surjective
        ScenarioManifest.update_convs(6) ScenarioManifestIntegrity.ext_inject)
  obtain p q where p: "canonical (m\<lparr>sm_Integrity := ScenarioManifestIntegrity0\<rparr>) = Inr p" "d = hex_digits 64 (unat (sha256 p))"
    and q: "canonical (n\<lparr>sm_Integrity := ScenarioManifestIntegrity0\<rparr>) = Inr q" "d = hex_digits 64 (unat (sha256 q))"
    using d by (auto simp: scenarioManifestChecksum_def)
  have "unat (sha256 x) < 16 ^ 64" for x using unsigned_less [of "sha256 x"] by simp
  then have "unat (sha256 p) = unat (sha256 q)"
    using hex_digits_inj [of 64 "unat (sha256 p)" "unat (sha256 q)"] p(2) q(2) by simp
  then have "sha256 p = sha256 q" by (rule unsigned_word_eqI)
  then show ?thesis using p(1) q(1) by simp
qed

section \<open>Properties\<close>

text \<open>
  C23: \<open>normalizeScenarioManifest\<close> returns exactly the well-formed manifests: what it accepts it turns into
  one (legal settings, a tree in creation order below its root, hard links and manifest links that
  resolve within the manifest, operations in normal form, every capability declared), keeping seed, mode and
  the number of entries, and normalizing again changes nothing; and it returns a manifest unchanged,
  up to the spelling of the integrity fields, exactly when it is well formed.
\<close>

theorem normalizeScenarioManifest_spec:
  "(case normalizeScenarioManifest m of
      Inl e \<Rightarrow> \<not> manifest_wf m
    | Inr n \<Rightarrow> manifest_wf n \<and> normalizeScenarioManifest n = Inr n \<and>
        mg_Seed (sm_Generator n) = mg_Seed (sm_Generator m) \<and> mg_RunMode (sm_Generator n) = mg_RunMode (sm_Generator m) \<and>
        length (sm_Entries n) = length (sm_Entries m) \<and> sm_Integrity n = lower_integrity (sm_Integrity m)) \<and>
   (manifest_wf m \<longleftrightarrow> normalizeScenarioManifest m = Inr (m\<lparr>sm_Integrity := lower_integrity (sm_Integrity m)\<rparr>))"
proof -
  have "manifest_wf m \<longleftrightarrow> normalizeScenarioManifest m = Inr (m\<lparr>sm_Integrity := lower_integrity (sm_Integrity m)\<rparr>)"
  proof
    assume "normalizeScenarioManifest m = Inr (m\<lparr>sm_Integrity := lower_integrity (sm_Integrity m)\<rparr>)"
    from normalize_wf(1) [OF this] show "manifest_wf m" by (simp add: manifest_wf_def)
  qed (rule normalize_id)
  moreover have "case normalizeScenarioManifest m of
      Inl e \<Rightarrow> \<not> manifest_wf m
    | Inr n \<Rightarrow> manifest_wf n \<and> normalizeScenarioManifest n = Inr n \<and>
        mg_Seed (sm_Generator n) = mg_Seed (sm_Generator m) \<and> mg_RunMode (sm_Generator n) = mg_RunMode (sm_Generator m) \<and>
        length (sm_Entries n) = length (sm_Entries m) \<and> sm_Integrity n = lower_integrity (sm_Integrity m)"
  proof (cases "normalizeScenarioManifest m")
    case (Inr n)
    then show ?thesis using normalize_wf [OF Inr] normalized_again [OF Inr] by simp
  qed (use normalize_id [of m] in auto)
  ultimately show ?thesis by blast
qed

text \<open>
  A manifest whose strings are valid UTF-8. The JSON library replaces other bytes; byte slices
  (data, repeated blocks, attribute values) are written in base64.
\<close>

definition entry_utf8 :: "ScenarioManifestEntry \<Rightarrow> bool" where
  "entry_utf8 e \<longleftrightarrow> ValidString (me_Type e) \<and> ValidString (me_Path e) \<and> ValidString (me_LinkTarget e) \<and>
     ValidString (me_LinkTargetType e) \<and> ValidString (me_SourcePath e) \<and>
     (case me_Metadata e of None \<Rightarrow> True
      | Some md \<Rightarrow> list_all (\<lambda>x. ValidString (mx_Name x)) (mm_XAttrs md) \<and> list_all ValidString (mm_ACL md))"

definition manifest_utf8 :: "ScenarioManifest \<Rightarrow> bool" where
  "manifest_utf8 m \<longleftrightarrow>
     list_all (\<lambda>s. ValidString (ms_Name s) \<and> ValidString (ms_Value s)) (mg_DeterministicSettings (sm_Generator m)) \<and>
     list_all entry_utf8 (sm_Entries m) \<and> list_all op_utf8 (sm_Operations m) \<and>
     list_all ValidString (sm_RequiredCapabilities m) \<and>
     ValidString (mi_Algorithm (sm_Integrity m)) \<and> ValidString (mi_Checksum (sm_Integrity m))"

lemma ValidString_ascii: "list_all (\<lambda>c. (of_char c :: nat) < 0x80) s \<Longrightarrow> ValidString s"
  by (induction s) (simp_all add: runes_ascii)

lemma hex_digits_valid: "ValidString (hex_digits w n)"
proof (rule ValidString_ascii)
  have "list_all (\<lambda>c. (of_char c :: nat) < 0x80) hex_alphabet" by code_simp
  then show "list_all (\<lambda>c. (of_char c :: nat) < 0x80) (hex_digits w n)"
    using hex_digits_set [of w n] by (auto simp: list_all_iff)
qed

lemma sealed_utf8:
  assumes "manifest_utf8 n" "sealScenarioManifestIntegrity canonical sha256 n = Inr s"
  shows "manifest_utf8 s"
proof -
  have "ValidString ''sha256''" by (rule ValidString_ascii) simp
  then show ?thesis
    using assms by (auto simp: manifest_utf8_def seal_Inr scenarioManifestChecksum_def hex_digits_valid)
qed

lemma unsealed_utf8: "manifest_utf8 m \<Longrightarrow> manifest_utf8 (m\<lparr>sm_Integrity := ScenarioManifestIntegrity0\<rparr>)"
  by (simp add: manifest_utf8_def ScenarioManifestIntegrity0_def)

lemma same_unsealed:
  "s\<lparr>sm_Integrity := i\<rparr> = t\<lparr>sm_Integrity := i\<rparr> \<Longrightarrow> sm_Integrity s = sm_Integrity t \<Longrightarrow> s = t"
  by (cases s; cases t) simp

text \<open>
  C24: an exported manifest of valid UTF-8 comes back, and its content is sealed. The JSON library
  reads back the documents of valid UTF-8 that it wrote, in the encoding of the export and in the
  canonical one the checksum is taken of (it replaces other bytes, so a manifest with an invalid
  name does not survive), and what it writes is not blank. Then parsing an exported document gives
  the normalized manifest with its seal and exporting that writes the same document; and any
  document that parses to a manifest of valid UTF-8 with the same seal is that manifest, or the
  two encode to different payloads with the same hash: the content of a manifest cannot be changed
  without changing its checksum or finding a collision.
\<close>

theorem manifest_export_roundtrip:
  assumes json_reads_back: "\<And>d p. manifest_utf8 d \<Longrightarrow> marshal d = Inr p \<or> canonical d = Inr p \<Longrightarrow> unmarshal p = Inr d"
    and not_blank: "\<forall>d p. marshal d = Inr p \<longrightarrow> TrimSpace p \<noteq> []"
    and utf8: "\<And>n. normalizeScenarioManifest m = Inr n \<Longrightarrow> manifest_utf8 n"
    and export: "ExportScenarioManifestJSON canonical sha256 marshal m = Inr payload"
  shows "\<exists>n. normalizeScenarioManifest m = Inr n \<and> (\<exists>s. sealScenarioManifestIntegrity canonical sha256 n = Inr s \<and>
      ParseScenarioManifestJSON canonical sha256 unmarshal payload = Inr s \<and>
      ExportScenarioManifestJSON canonical sha256 marshal s = Inr payload \<and>
      (\<forall>p' t. ParseScenarioManifestJSON canonical sha256 unmarshal p' = Inr t \<longrightarrow> manifest_utf8 t \<longrightarrow>
         sm_Integrity t = sm_Integrity s \<longrightarrow>
         t = s \<or> (\<exists>x y. canonical (s\<lparr>sm_Integrity := ScenarioManifestIntegrity0\<rparr>) = Inr x \<and>
              canonical (t\<lparr>sm_Integrity := ScenarioManifestIntegrity0\<rparr>) = Inr y \<and> x \<noteq> y \<and> sha256 x = sha256 y)))"
proof -
  obtain n s where n: "normalizeScenarioManifest m = Inr n" "sealScenarioManifestIntegrity canonical sha256 n = Inr s"
    "marshal s = Inr payload"
    using export by (auto simp: ExportScenarioManifestJSON_def)
  note s = sealed_normal [OF normalize_wf(1) [OF n(1)] n(2)]
  have u: "manifest_utf8 s" by (rule sealed_utf8 [OF utf8 [OF n(1)] n(2)])
  have parse: "ParseScenarioManifestJSON canonical sha256 unmarshal payload = Inr s"
    using json_reads_back [OF u] not_blank n(3) s(2,3) by (simp add: ParseScenarioManifestJSON_def)
  have export: "ExportScenarioManifestJSON canonical sha256 marshal s = Inr payload"
    using n(3) s(2,4) by (simp add: ExportScenarioManifestJSON_def)
  have "t = s \<or> (\<exists>x y. canonical (s\<lparr>sm_Integrity := ScenarioManifestIntegrity0\<rparr>) = Inr x \<and>
          canonical (t\<lparr>sm_Integrity := ScenarioManifestIntegrity0\<rparr>) = Inr y \<and> x \<noteq> y \<and> sha256 x = sha256 y)"
    if t: "ParseScenarioManifestJSON canonical sha256 unmarshal p' = Inr t" "manifest_utf8 t" "sm_Integrity t = sm_Integrity s"
    for p' t
  proof -
    obtain d v where d: "normalizeScenarioManifest d = Inr t" "verifyScenarioManifestIntegrity canonical sha256 t = Inr v"
      using t(1) by (auto simp: ParseScenarioManifestJSON_def split: if_splits)
    have "lower_integrity (sm_Integrity t) = sm_Integrity t" unfolding normalize_wf(2) [OF d(1)] lower_integrity_idem ..
    then have "sealScenarioManifestIntegrity canonical sha256 t = Inr t" using d(2) verify_normal by blast
    from sealed_hash [OF s(4) this] t(3) obtain x y where
      x: "canonical (s\<lparr>sm_Integrity := ScenarioManifestIntegrity0\<rparr>) = Inr x"
      and y: "canonical (t\<lparr>sm_Integrity := ScenarioManifestIntegrity0\<rparr>) = Inr y" and h: "sha256 x = sha256 y" by auto
    have "t = s" if "x = y"
    proof -
      have "unmarshal x = Inr (s\<lparr>sm_Integrity := ScenarioManifestIntegrity0\<rparr>)"
        by (rule json_reads_back [OF unsealed_utf8 [OF u]]) (simp add: x)
      moreover have "unmarshal y = Inr (t\<lparr>sm_Integrity := ScenarioManifestIntegrity0\<rparr>)"
        by (rule json_reads_back [OF unsealed_utf8 [OF t(2)]]) (simp add: y)
      ultimately show ?thesis using same_unsealed [OF _ t(3)] that by simp
    qed
    then show ?thesis using x y h by blast
  qed
  with n(1,2) parse export show ?thesis by blast
qed

section \<open>A sample manifest\<close>

definition sample_manifest :: ScenarioManifest where
  "sample_manifest =
     \<lparr>sm_Version = 1,
      sm_Generator = \<lparr>mg_Seed = 7, mg_RunMode = RunModeAppend, mg_PlanEntryLimit = 100, mg_DeterministicSettings = []\<rparr>,
      sm_Entries =
        [(ScenarioManifestEntry0 ''dir'')\<lparr>me_Path := ''/'', me_Mode := 0x1C0\<rparr>,
         (ScenarioManifestEntry0 ''file'')\<lparr>me_Path := ''/f'', me_Mode := 0x180, me_Data := [7, 8]\<rparr>,
         (ScenarioManifestEntry0 ''hardlink'')\<lparr>me_Path := ''/h'', me_SourcePath := ''/f''\<rparr>],
      sm_Operations = [], sm_RequiredCapabilities = [], sm_Integrity = ScenarioManifestIntegrity0\<rparr>"

definition sample_seal :: ScenarioManifest where
  "sample_seal = sample_manifest\<lparr>sm_Integrity := \<lparr>mi_Algorithm = ''sha256'', mi_Checksum = hex_digits 64 5\<rparr>\<rparr>"

lemma sample_manifest_wf: "manifest_wf sample_manifest"
  by code_simp

text \<open>
  A second manifest with another seed, and a codec that knows the two and tells them apart, in both
  encodings; the hash tells their payloads apart.
\<close>

definition other_manifest :: ScenarioManifest where
  "other_manifest = sample_manifest\<lparr>sm_Generator :=
     \<lparr>mg_Seed = 8, mg_RunMode = RunModeAppend, mg_PlanEntryLimit = 100, mg_DeterministicSettings = []\<rparr>\<rparr>"

definition other_seal :: ScenarioManifest where
  "other_seal = other_manifest\<lparr>sm_Integrity := \<lparr>mi_Algorithm = ''sha256'', mi_Checksum = hex_digits 64 6\<rparr>\<rparr>"

definition sample_canonical :: "ScenarioManifest \<Rightarrow> err + string" where
  "sample_canonical d =
     (if d = sample_manifest then Inr ''c5'' else if d = other_manifest then Inr ''c6'' else Err ''no document'')"

definition sample_sha256 :: "string \<Rightarrow> 256 word" where
  "sample_sha256 p = (if p = ''c5'' then 5 else 6)"

definition sample_encode :: "ScenarioManifest \<Rightarrow> err + string" where
  "sample_encode d =
     (if d = sample_seal then Inr ''d5'' else if d = other_seal then Inr ''d6'' else Err ''no document'')"

definition sample_decode :: "string \<Rightarrow> err + ScenarioManifest" where
  "sample_decode p =
     (if p = ''c5'' then Inr sample_manifest else if p = ''c6'' then Inr other_manifest
      else if p = ''d5'' then Inr sample_seal else if p = ''d6'' then Inr other_seal else Err ''no manifest'')"

lemma other_manifest_wf: "manifest_wf other_manifest"
  by code_simp

lemma samples_differ: "sample_manifest \<noteq> other_manifest" "sample_seal \<noteq> other_seal"
proof -
  have "mg_Seed (sm_Generator sample_manifest) \<noteq> mg_Seed (sm_Generator other_manifest)"
    "mg_Seed (sm_Generator sample_seal) \<noteq> mg_Seed (sm_Generator other_seal)"
    by (simp_all add: sample_manifest_def other_manifest_def sample_seal_def other_seal_def)
  then show "sample_manifest \<noteq> other_manifest" "sample_seal \<noteq> other_seal" by auto
qed

lemma sample_reads_back:
  "sample_encode d = Inr p \<or> sample_canonical d = Inr p \<Longrightarrow> sample_decode p = Inr d"
  using samples_differ by (auto simp: sample_encode_def sample_canonical_def sample_decode_def split: if_splits)

lemma sample_not_blank: "sample_encode d = Inr p \<Longrightarrow> TrimSpace p \<noteq> []"
proof -
  have "TrimSpace ''d5'' = ''d5''" "TrimSpace ''d6'' = ''d6''"
    by (rule TrimSpace_id; simp add: space_first_def space_last_def)+
  then show "sample_encode d = Inr p \<Longrightarrow> TrimSpace p \<noteq> []" by (auto simp: sample_encode_def split: if_splits)
qed

lemma samples_normal:
  "normalizeScenarioManifest sample_manifest = Inr sample_manifest" "normalizeScenarioManifest other_manifest = Inr other_manifest"
  using normalize_id [OF sample_manifest_wf] normalize_id [OF other_manifest_wf]
  by (simp_all add: other_manifest_def sample_manifest_def lower_integrity_def ScenarioManifestIntegrity0_def)

lemma samples_sealed:
  "sealScenarioManifestIntegrity sample_canonical sample_sha256 sample_manifest = Inr sample_seal"
  "sealScenarioManifestIntegrity sample_canonical sample_sha256 other_manifest = Inr other_seal"
proof -
  have "sample_manifest\<lparr>sm_Integrity := ScenarioManifestIntegrity0\<rparr> = sample_manifest"
    "other_manifest\<lparr>sm_Integrity := ScenarioManifestIntegrity0\<rparr> = other_manifest"
    by (simp_all add: sample_manifest_def other_manifest_def)
  moreover have "sample_canonical sample_manifest = Inr ''c5''" "sample_canonical other_manifest = Inr ''c6''"
    using samples_differ by (auto simp: sample_canonical_def)
  moreover have "unat (sample_sha256 ''c5'') = 5" "unat (sample_sha256 ''c6'') = 6" by (simp_all add: sample_sha256_def)
  ultimately show "sealScenarioManifestIntegrity sample_canonical sample_sha256 sample_manifest = Inr sample_seal"
    "sealScenarioManifestIntegrity sample_canonical sample_sha256 other_manifest = Inr other_seal"
    by (simp_all add: seal_Inr scenarioManifestChecksum_def sample_seal_def other_seal_def)
qed

lemma samples_utf8: "manifest_utf8 sample_manifest" "manifest_utf8 other_manifest"
  by (simp_all add: manifest_utf8_def sample_manifest_def other_manifest_def entry_utf8_def ScenarioManifestEntry0_def
      ScenarioManifestIntegrity0_def runes_ascii)

text \<open>Both exported documents come back, and their seals differ.\<close>

theorem manifest_export_roundtrip_witness:
  "ParseScenarioManifestJSON sample_canonical sample_sha256 sample_decode ''d5'' = Inr sample_seal \<and>
   ParseScenarioManifestJSON sample_canonical sample_sha256 sample_decode ''d6'' = Inr other_seal \<and>
   sm_Integrity sample_seal \<noteq> sm_Integrity other_seal"
proof -
  have e: "sample_encode sample_seal = Inr ''d5''" "sample_encode other_seal = Inr ''d6''"
    using samples_differ by (auto simp: sample_encode_def)
  have x: "ExportScenarioManifestJSON sample_canonical sample_sha256 sample_encode sample_manifest = Inr ''d5''"
    "ExportScenarioManifestJSON sample_canonical sample_sha256 sample_encode other_manifest = Inr ''d6''"
    by (simp_all add: ExportScenarioManifestJSON_def samples_normal samples_sealed e)
  have u: "manifest_utf8 n" if "normalizeScenarioManifest sample_manifest = Inr n" for n
    using that samples_normal samples_utf8 by simp
  have u': "manifest_utf8 n" if "normalizeScenarioManifest other_manifest = Inr n" for n
    using that samples_normal samples_utf8 by simp
  have b: "sample_decode p = Inr d" if "manifest_utf8 d" "sample_encode d = Inr p \<or> sample_canonical d = Inr p" for d p
    using that(2) by (rule sample_reads_back)
  have nb: "\<forall>d p. sample_encode d = Inr p \<longrightarrow> TrimSpace p \<noteq> []" using sample_not_blank by blast
  obtain s where s: "sealScenarioManifestIntegrity sample_canonical sample_sha256 sample_manifest = Inr s"
    "ParseScenarioManifestJSON sample_canonical sample_sha256 sample_decode ''d5'' = Inr s"
    using manifest_export_roundtrip [where unmarshal = sample_decode, OF b nb u x(1)] samples_normal(1) by auto
  obtain t where t: "sealScenarioManifestIntegrity sample_canonical sample_sha256 other_manifest = Inr t"
    "ParseScenarioManifestJSON sample_canonical sample_sha256 sample_decode ''d6'' = Inr t"
    using manifest_export_roundtrip [where unmarshal = sample_decode, OF b nb u' x(2)] samples_normal(2) by auto
  have "hex_digits 64 5 \<noteq> hex_digits 64 6" using hex_digits_inj [of 64 5 6] by auto
  then have "sm_Integrity sample_seal \<noteq> sm_Integrity other_seal" by (simp add: sample_seal_def other_seal_def)
  then show ?thesis using s t by (simp add: samples_sealed)
qed

end
