(* ===== verification/Manifest_Apply.thy ===== *)
theory Manifest_Apply
  imports Manifest_Norm Executor_Confine Plan_Total Executor_Generated
begin

text \<open>
  Applying manifests and building them: the planned entries a manifest stands for, when
  \<open>ApplyScenarioManifest\<close> creates them, and that a built manifest describes the plan of its generator,
  the random one or that of the deterministic coverage.
\<close>

section \<open>The planned entries of a manifest\<close>

definition config_of :: "ScenarioManifestMetadata option \<Rightarrow> metadataConfig" where
  "config_of md = (case metadataConfigFromScenarioManifestMetadata md of Inl _ \<Rightarrow> metadata0 | Inr c \<Rightarrow> c)"

definition content_of :: "ScenarioManifestFileContent option \<Rightarrow> plannedFileContent" where
  "content_of c = (case plannedFileContentFromScenarioManifestFileContent c of Inl _ \<Rightarrow> content0 | Inr c \<Rightarrow> c)"

definition fs_path :: "string \<Rightarrow> string \<Rightarrow> string" where
  "fs_path base p = abs_path (elems base @ elems p)"

definition planned_of :: "string \<Rightarrow> ScenarioManifestEntry \<Rightarrow> plannedEntry" where
  "planned_of base e =
     (let z = (\<lambda>t. (entry0 t (fs_path base (me_Path e)))\<lparr>pe_mode := me_Mode e, pe_metadata := config_of (me_Metadata e)\<rparr>) in
      if me_Type e = ScenarioManifestEntryTypeDir then z plannedEntryTypeDir
      else if me_Type e = ScenarioManifestEntryTypeFile
      then (z plannedEntryTypeFile)\<lparr>pe_data := me_Data e, pe_content := content_of (me_Content e)\<rparr>
      else if me_Type e = ScenarioManifestEntryTypeSymlink
      then (z plannedEntryTypeSymlink)\<lparr>pe_linkTarget :=
        (if me_LinkTargetType e = ScenarioManifestLinkTargetTypeManifestPath then fs_path base (me_LinkTarget e)
         else me_LinkTarget e)\<rparr>
      else if me_Type e = ScenarioManifestEntryTypeHardlink
      then (z plannedEntryTypeHardlink)\<lparr>pe_linkTarget := fs_path base (me_SourcePath e)\<rparr>
      else (case me_Special e of None \<Rightarrow> z plannedEntryTypeSpecial
          | Some s \<Rightarrow> (z plannedEntryTypeSpecial)\<lparr>pe_special := sf_Type s, pe_major := sf_DeviceMajor s,
              pe_minor := sf_DeviceMinor s\<rparr>))"

lemma config_of: "opt_ok metadata_wf md \<Longrightarrow> metadataConfigFromScenarioManifestMetadata md = Inr (config_of md)"
  using metadata_id [of md]
  by (auto simp: config_of_def metadataConfigFromScenarioManifestMetadata_def Let_def split: option.splits)

lemma content_of: "opt_ok content_wf c \<Longrightarrow> plannedFileContentFromScenarioManifestFileContent c = Inr (content_of c)"
  using content_Inr [of c c]
  by (auto simp: content_of_def plannedFileContentFromScenarioManifestFileContent_def split: option.splits)

text \<open>What a real directory chain above a path is, seen by the check of the code.\<close>

definition parents_real :: "kernel \<Rightarrow> fsys \<Rightarrow> string \<Rightarrow> string \<Rightarrow> err + unit" where
  "parents_real k fs base p = check_parents k fs (abs_path (elems base)) (butlast (elems p))"

lemma path_wf_True: "path_wf p r \<Longrightarrow> path_wf p True"
  by (simp add: path_wf_def)

lemma path_wf_elems: "path_wf p r \<Longrightarrow> \<forall>c \<in> set (elems p). elem_ok c"
  by (auto simp: path_wf_def clean_abs_def intro: elems_ok)

lemma parents_step:
  assumes "rooted base" "path_wf p r"
  shows "ensureNoSymlinkParents k base (fs_path base p) fs = parents_real k fs base p"
  unfolding fs_path_def parents_real_def
  by (rule ensureNoSymlinkParents_eq) (use assms path_wf_elems elems_ok in auto)

lemma fs_path_wf: "rooted base \<Longrightarrow> path_wf p r \<Longrightarrow> operationPathToFS base p = Inr (fs_path base p)"
  unfolding fs_path_def using operationPathToFS_wf path_wf_True by blast

lemma planned_step:
  assumes base: "rooted base" and wf: "entry_wf e"
  shows "plannedEntryFromScenarioManifestEntry k fs base e =
    bindE (wrapE ''manifest entry path'' (parents_real k fs base (me_Path e))) (\<lambda>_.
    bindE (if me_Type e = ScenarioManifestEntryTypeHardlink
           then wrapE ''manifest hardlink source path'' (parents_real k fs base (me_SourcePath e)) else Inr ()) (\<lambda>_.
    Inr (planned_of base e)))"
proof -
  have p: "path_wf (me_Path e) (me_Type e = ScenarioManifestEntryTypeDir)" using wf by (simp add: entry_wf_def)
  note rest = wf [unfolded entry_wf_def, THEN conjunct2, THEN conjunct2, THEN conjunct2]
  have meta: "opt_ok metadata_wf (me_Metadata e)"
  proof -
    have "me_Type e \<notin> {ScenarioManifestEntryTypeDir, ScenarioManifestEntryTypeFile} \<Longrightarrow> me_Metadata (entry_fields e) = None"
      by (simp add: entry_fields_base)
    then show ?thesis using wf by (auto simp: entry_wf_def split: if_splits)
  qed
  note steps = plannedEntryFromScenarioManifestEntry_def fs_path_wf [OF base p] config_of [OF meta]
    scenarioManifestEntryTypeToPlannedEntryType_def planned_of_def Let_def
  note [simp] = parents_step [OF base p]
  have "normalizeScenarioManifestEntry e = Inr out \<or> entry_wf e" for out using wf by blast
  then show ?thesis
  proof (cases rule: entry_types)
    case 1
    show ?thesis unfolding steps 1 by simp
  next
    case 2
    then have "opt_ok content_wf (me_Content e)" using rest by simp
    from content_of [OF this] show ?thesis unfolding steps 2 by simp
  next
    case 3
    then have t: "me_LinkTargetType e = ScenarioManifestLinkTargetTypeLiteral \<or>
        me_LinkTargetType e = ScenarioManifestLinkTargetTypeManifestPath \<and>
        operationPathToFS base (me_LinkTarget e) = Inr (fs_path base (me_LinkTarget e))"
      using rest fs_path_wf [OF base] by auto
    then show ?thesis unfolding steps 3 by auto
  next
    case 4
    then have s: "path_wf (me_SourcePath e) False" using rest by simp
    show ?thesis unfolding steps 4 fs_path_wf [OF base s] by (simp add: parents_step [OF base s])
  next
    case 5
    then obtain s where s: "me_Special e = Some s" using rest by (auto split: option.splits)
    show ?thesis unfolding steps 5 s by simp
  qed
qed

definition entry_parents :: "kernel \<Rightarrow> fsys \<Rightarrow> string \<Rightarrow> ScenarioManifestEntry \<Rightarrow> bool" where
  "entry_parents k fs base e \<longleftrightarrow> is_ok (parents_real k fs base (me_Path e)) \<and>
     (me_Type e = ScenarioManifestEntryTypeHardlink \<longrightarrow> is_ok (parents_real k fs base (me_SourcePath e)))"

lemma planned_Inr:
  assumes "rooted base" "entry_wf e"
  shows "plannedEntryFromScenarioManifestEntry k fs base e = Inr p \<longleftrightarrow> entry_parents k fs base e \<and> p = planned_of base e"
  unfolding planned_step [OF assms] by (auto simp: entry_parents_def is_ok_iff split: if_splits)

lemma run_plan_Inr:
  assumes "rooted base" "list_all entry_wf es"
  shows "runPlanFromScenarioManifest k fs base es = Inr plan \<longleftrightarrow> list_all (entry_parents k fs base) es \<and>
    plan = \<lparr>entries = map (planned_of base) es, planGroups = [], planMetrics = \<lparr>pathRetries = 0, pathCollisions = 0\<rparr>\<rparr>"
proof -
  have "mapE_from i (\<lambda>_ entry. wrapE msg (plannedEntryFromScenarioManifestEntry k fs base entry)) es = Inr ps \<longleftrightarrow>
      list_all (entry_parents k fs base) es \<and> ps = map (planned_of base) es" for i msg ps
    using assms(2)
  proof (induction es arbitrary: i ps)
    case (Cons e es)
    then show ?case using planned_Inr [OF assms(1), of e] by auto
  qed auto
  then show ?thesis by (auto simp: runPlanFromScenarioManifest_def)
qed

section \<open>A manifest on a free base\<close>

text \<open>Below a missing directory every lookup fails.\<close>

lemma walk_missing:
  assumes "\<forall>c \<in> set cs. elem_ok c" "cs \<noteq> []" "\<forall>i < length cs. dir_at fs (cur @ take i cs)" "lookup fs (cur @ cs) = None"
  shows "walk fs follow n cur (cs @ d # ds) = Fail ENOENT"
  using assms
proof (induction cs arbitrary: cur)
  case (Cons c cs)
  have c: "c \<noteq> []" "c \<noteq> dot" "c \<noteq> dotdot" using Cons.prems(1) by (auto simp: elem_ok_def)
  have dir: "dir_at fs cur" using Cons.prems(3) by (auto dest: spec [of _ 0])
  show ?case
  proof (cases "cs = []")
    case True
    then show ?thesis using c dir Cons.prems(4) by simp
  next
    case False
    have step: "\<forall>i < length cs. dir_at fs ((cur @ [c]) @ take i cs)"
    proof (intro allI impI)
      fix i assume "i < length cs"
      then show "dir_at fs ((cur @ [c]) @ take i cs)" using Cons.prems(3) by (auto dest: spec [of _ "Suc i"])
    qed
    then have "dir_at fs (cur @ [c])" using False by (auto dest: spec [of _ 0])
    then obtain i where "lookup fs (cur @ [c]) = Some i" "node i = NDir" by (auto simp: dir_at_lookup)
    moreover have "walk fs follow n (cur @ [c]) (cs @ d # ds) = Fail ENOENT"
      by (rule Cons.IH [OF _ False step]) (use Cons.prems(1,4) in auto)
    ultimately show ?thesis using c dir by simp
  qed
qed simp

lemma absent_lookup: "absent fs bs \<Longrightarrow> lookup fs (bs @ r) = None"
proof -
  assume a: "absent fs bs"
  have "map_of (ents fs) (bs @ r) = None"
  proof (rule ccontr)
    assume "map_of (ents fs) (bs @ r) \<noteq> None"
    then obtain i where "(bs @ r, i) \<in> set (ents fs)" using map_of_SomeD by fastforce
    then show False using a by (auto simp: absent_def list_all_iff Go_FS.below_def)
  qed
  then show ?thesis by (simp add: lookup_def)
qed

lemma absent_Lstat:
  assumes "absent fs bs" "phys fs (butlast bs)" "\<forall>c \<in> set (bs @ [c]). elem_ok c"
  shows "\<not> is_ok (os_Lstat k (abs_path (bs @ [c])) fs)"
proof -
  have "dir_at fs []" using phys_root [OF assms(2)] .
  then have bs: "bs \<noteq> []" using absent_lookup [OF assms(1), of "[]"] by (auto simp: dir_at_def)
  have dirs: "\<forall>i < length bs. dir_at fs ([] @ take i bs)"
  proof (intro allI impI)
    fix i assume i: "i < length bs"
    then have "take i bs = take i (butlast bs)" by (simp add: take_butlast)
    then show "dir_at fs ([] @ take i bs)" using assms(2) i by (auto simp: phys_iff)
  qed
  have "lookup fs ([] @ bs) = None" using absent_lookup [OF assms(1), of "[]"] by simp
  then have "walk fs False maxSymlinks [] (bs @ [c]) = Fail ENOENT"
    using walk_missing [of bs fs "[]" False maxSymlinks c "[]"] bs dirs assms(3) by simp
  then show ?thesis
    using assms(3) \<open>dir_at fs []\<close> by (auto simp: os_Lstat_def resolve_def Split_abs_path is_ok_def)
qed

text \<open>A manifest is flat when no entry lies deeper than one level below the root.\<close>

definition manifest_flat :: "ScenarioManifestEntry list \<Rightarrow> bool" where
  "manifest_flat es \<longleftrightarrow> list_all (\<lambda>e. length (elems (me_Path e)) \<le> 1) es"

lemma parents_absent:
  assumes "absent fs (elems base)" "phys fs (butlast (elems base))" "rooted base" "path_wf p r"
  shows "is_ok (parents_real k fs base p) \<longleftrightarrow> length (elems p) \<le> 1"
proof (cases "butlast (elems p)")
  case Nil
  then have "length (elems p) - 1 = 0" by (metis length_butlast list.size(3))
  then show ?thesis using Nil by (simp add: parents_real_def)
next
  case (Cons c cs)
  then have "length (elems p) - 1 = Suc (length cs)" by (metis length_Cons length_butlast)
  then have len: "\<not> length (elems p) \<le> 1" by simp
  have c: "elem_ok c" using Cons path_wf_elems [OF assms(4)] by (metis in_set_butlastD list.set_intros(1))
  have bs: "\<forall>c \<in> set (elems base). elem_ok c" using elems_ok assms(3) by blast
  have "c \<noteq> [] \<and> c \<noteq> dot" using c by (simp add: elem_ok_def)
  moreover have "Join2 (abs_path (elems base)) c = abs_path (elems base @ [c])" by (rule Join2_abs_path [OF bs c])
  moreover have "\<not> is_ok (os_Lstat k (abs_path (elems base @ [c])) fs)"
    by (rule absent_Lstat [OF assms(1,2)]) (use bs c in auto)
  ultimately have "\<not> is_ok (parents_real k fs base p)"
    unfolding parents_real_def Cons by (auto simp: Let_def is_ok_iff)
  then show ?thesis using len by simp
qed

lemma source_entry:
  assumes "manifest_wf m" "e \<in> set (sm_Entries m)" "me_Type e = ScenarioManifestEntryTypeHardlink"
  shows "\<exists>s \<in> set (sm_Entries m). me_Path s = me_SourcePath e"
proof -
  have "map_of (path_types (sm_Entries m)) (me_SourcePath e) \<noteq> None"
    using assms by (auto simp: manifest_wf_def list_all_iff hardlink_ok_def)
  then obtain t where "(me_SourcePath e, t) \<in> set (path_types (sm_Entries m))" using map_of_SomeD by fastforce
  then show ?thesis by (force simp: path_types_def)
qed

lemma entry_wf_path: "entry_wf e \<Longrightarrow> path_wf (me_Path e) (me_Type e = ScenarioManifestEntryTypeDir)"
  by (simp add: entry_wf_def)

lemma flat_parents:
  assumes "manifest_wf m" "rooted base" "absent fs (elems base)" "phys fs (butlast (elems base))"
  shows "list_all (entry_parents k fs base) (sm_Entries m) \<longleftrightarrow> manifest_flat (sm_Entries m)"
proof -
  have wf: "path_wf (me_Path e) (me_Type e = ScenarioManifestEntryTypeDir)" if "e \<in> set (sm_Entries m)" for e
    using assms(1) that entry_wf_path by (auto simp: manifest_wf_def list_all_iff)
  have "entry_parents k fs base e \<longleftrightarrow> length (elems (me_Path e)) \<le> 1 \<and>
      (me_Type e = ScenarioManifestEntryTypeHardlink \<longrightarrow> is_ok (parents_real k fs base (me_SourcePath e)))"
    if "e \<in> set (sm_Entries m)" for e
    using parents_absent [OF assms(3,4,2) wf [OF that]] by (simp add: entry_parents_def)
  moreover have "is_ok (parents_real k fs base (me_SourcePath e)) \<longleftrightarrow> length (elems (me_SourcePath e)) \<le> 1"
    if "e \<in> set (sm_Entries m)" "me_Type e = ScenarioManifestEntryTypeHardlink" for e
    using source_entry [OF assms(1) that] parents_absent [OF assms(3,4,2) wf] by metis
  ultimately show ?thesis
    using source_entry [OF assms(1)] by (fastforce simp: manifest_flat_def list_all_iff)
qed

section \<open>The plan of a manifest can be created\<close>

text \<open>Hard links that come after the entry they link to.\<close>

definition sources_first :: "ScenarioManifestEntry list \<Rightarrow> bool" where
  "sources_first es \<longleftrightarrow> list_all (\<lambda>i. me_Type (es ! i) = ScenarioManifestEntryTypeHardlink \<longrightarrow>
     me_SourcePath (es ! i) \<in> me_Path ` set (take i es)) [0..<length es]"

lemma planned_path [simp]: "pe_path (planned_of base e) = fs_path base (me_Path e)"
  by (simp add: planned_of_def entry0_def Let_def split: option.split)

lemma planned_source:
  "me_Type e = ScenarioManifestEntryTypeHardlink \<Longrightarrow> pe_linkTarget (planned_of base e) = fs_path base (me_SourcePath e)"
  by (simp add: planned_of_def)

lemma planned_symlink:
  assumes "entry_wf e" "me_Type e = ScenarioManifestEntryTypeSymlink"
  shows "pe_linkTarget (planned_of base e) \<noteq> []"
proof -
  have "TrimSpace (me_LinkTarget e) \<noteq> []" using assms(1) unfolding entry_wf_def assms(2) by simp
  moreover have "TrimSpace [] = []" by code_simp
  ultimately have "me_LinkTarget e \<noteq> []" by metis
  then show ?thesis using assms(2) by (simp add: planned_of_def fs_path_def)
qed

lemma planned_special:
  assumes "entry_wf e" "me_Type e = ScenarioManifestEntryTypeSpecial"
  shows "is_ok (validateSpecialFileType (pe_special (planned_of base e))) \<and> 0 \<le> pe_major (planned_of base e) \<and>
    0 \<le> pe_minor (planned_of base e)"
proof -
  obtain s where "me_Special e = Some s" "special_wf s"
    using assms(1) unfolding entry_wf_def assms(2) by (auto split: option.splits)
  then show ?thesis using assms(2) by (simp add: planned_of_def special_wf_def)
qed

lemma planned_type:
  assumes "entry_wf e"
  shows "pe_type (planned_of base e) = plannedEntryTypeDir \<longleftrightarrow> me_Type e = ScenarioManifestEntryTypeDir"
    "pe_type (planned_of base e) = plannedEntryTypeFile \<longleftrightarrow> me_Type e = ScenarioManifestEntryTypeFile"
    "pe_type (planned_of base e) = plannedEntryTypeSymlink \<longleftrightarrow> me_Type e = ScenarioManifestEntryTypeSymlink"
    "pe_type (planned_of base e) = plannedEntryTypeHardlink \<longleftrightarrow> me_Type e = ScenarioManifestEntryTypeHardlink"
    "pe_type (planned_of base e) = plannedEntryTypeSpecial \<longleftrightarrow> me_Type e = ScenarioManifestEntryTypeSpecial"
proof -
  have "normalizeScenarioManifestEntry e = Inr out \<or> entry_wf e" for out using assms by blast
  then show "pe_type (planned_of base e) = plannedEntryTypeDir \<longleftrightarrow> me_Type e = ScenarioManifestEntryTypeDir"
    "pe_type (planned_of base e) = plannedEntryTypeFile \<longleftrightarrow> me_Type e = ScenarioManifestEntryTypeFile"
    "pe_type (planned_of base e) = plannedEntryTypeSymlink \<longleftrightarrow> me_Type e = ScenarioManifestEntryTypeSymlink"
    "pe_type (planned_of base e) = plannedEntryTypeHardlink \<longleftrightarrow> me_Type e = ScenarioManifestEntryTypeHardlink"
    "pe_type (planned_of base e) = plannedEntryTypeSpecial \<longleftrightarrow> me_Type e = ScenarioManifestEntryTypeSpecial"
    by (cases rule: entry_types; simp add: planned_of_def entry0_def Let_def split: option.split)+
qed

lemma fs_path_facts:
  assumes "rooted base" "path_wf p r"
  shows "elems (fs_path base p) = elems base @ elems p" "clean_abs (fs_path base p)"
  using assms path_wf_elems [OF assms(2)] elems_ok
  by (auto simp: fs_path_def intro!: elems_abs_path clean_abs_abs_path)

lemma fs_path_inj:
  assumes "rooted base" "path_wf p r" "path_wf q r'"
  shows "fs_path base p = fs_path base q \<longleftrightarrow> p = q"
proof
  assume "fs_path base p = fs_path base q"
  then have "elems p = elems q" using fs_path_facts(1) [OF assms(1,2)] fs_path_facts(1) [OF assms(1,3)] by simp
  then show "p = q" using elems_inj assms(2,3) by (auto simp: path_wf_def)
qed simp

lemma fs_path_root: "clean_abs base \<Longrightarrow> fs_path base ''/'' = base"
proof -
  assume "clean_abs base"
  moreover have "elems ''/'' = []" by code_simp
  ultimately show ?thesis by (simp add: fs_path_def abs_path_elems)
qed

lemma parent_of_wf:
  assumes "path_wf p r"
  shows "parent_of p = abs_path (butlast (elems p))"
proof -
  have c: "clean_abs p" using assms by (simp add: path_wf_def)
  then have "Clean (Dir p) = Dir p" using clean_abs_Dir by (simp add: clean_abs_def)
  then show ?thesis using Dir_clean_abs [OF c] by (simp add: parent_of_def abs_path_def dot_def slash_def)
qed

lemma fs_path_Dir:
  assumes "clean_abs base" "path_wf p r" "elems p \<noteq> []"
  shows "Dir (fs_path base p) = fs_path base (parent_of p)"
proof -
  have r: "rooted base" using assms(1) by (simp add: clean_abs_def)
  have "\<forall>c \<in> set (butlast (elems p)). elem_ok c" using path_wf_elems [OF assms(2)] by (meson in_set_butlastD)
  then show ?thesis
    using assms(3) Dir_clean_abs [OF fs_path_facts(2) [OF r assms(2)]] fs_path_facts(1) [OF r assms(2)]
    by (simp add: parent_of_wf [OF assms(2)] fs_path_def butlast_append)
qed

lemma elems_root_iff: "path_wf p r \<Longrightarrow> elems p = [] \<longleftrightarrow> p = ''/''"
  using elems_Nil_iff by (auto simp: path_wf_def clean_abs_def)

lemma take_path_types:
  assumes "map_of (path_types (take n es)) p = Some t"
  shows "\<exists>j < length es. j < n \<and> me_Path (es ! j) = p \<and> me_Type (es ! j) = t"
proof -
  have "(p, t) \<in> set (path_types (take n es))" using assms by (rule map_of_SomeD)
  then show ?thesis by (fastforce simp: path_types_def in_set_conv_nth)
qed

lemma in_names: "j < i \<Longrightarrow> j < length es \<Longrightarrow> pe_type (es ! j) = t \<Longrightarrow> pe_path (es ! j) \<in> set (names t (take i es))"
  by (fastforce simp: names_def in_set_conv_nth)

lemma planned_entries_ok:
  assumes wf: "manifest_wf m" and base: "clean_abs base" and src: "sources_first (sm_Entries m)"
  shows "entries_ok base (map (planned_of base) (sm_Entries m))"
proof -
  let ?es = "sm_Entries m" and ?ps = "map (planned_of base) (sm_Entries m)"
  have r: "rooted base" using base by (simp add: clean_abs_def)
  have ewf: "entry_wf (?es ! i)" if "i < length ?es" for i using wf that by (auto simp: manifest_wf_def list_all_length)
  have pwf: "path_wf (me_Path (?es ! i)) True" if "i < length ?es" for i
    using entry_wf_path [OF ewf [OF that]] path_wf_True by blast
  have tree: "distinct (map me_Path ?es)" "\<And>i. i < length ?es \<Longrightarrow> parent_ok (take (Suc i) ?es) (?es ! i)"
    using wf by (auto simp: manifest_wf_def manifest_tree_ok_def list_all_iff)
  have diff: "me_Path (?es ! i) \<noteq> me_Path (?es ! j)" if "i < length ?es" "j < length ?es" "i \<noteq> j" for i j
    using nth_eq_iff_index_eq [OF tree(1), of i j] that by simp
  have "Plan_Spec.entry_ok base (take i ?ps) (?ps ! i)" if i: "i < length ?es" for i
  proof -
    let ?e = "?es ! i"
    have p: "?ps ! i = planned_of base ?e" using i by simp
    have new: "pe_path (?ps ! i) \<notin> set (paths (take i ?ps))"
      using diff i fs_path_inj [OF r pwf pwf] by (auto simp: paths_def in_set_conv_nth)
    have place: "if take i ?ps = [] then pe_type (?ps ! i) = plannedEntryTypeDir \<and> pe_path (?ps ! i) = base
      else Plan_Spec.below base (pe_path (?ps ! i)) \<and> Dir (pe_path (?ps ! i)) \<in> set (names plannedEntryTypeDir (take i ?ps))"
    proof (cases "i = 0")
      case True
      have "me_Type (?es ! 0) = ScenarioManifestEntryTypeDir" "me_Path (?es ! 0) = ''/''"
        using wf by (auto simp: manifest_wf_def hd_conv_nth)
      then show ?thesis using True planned_type(1) [OF ewf [OF i]] fs_path_root [OF base] p by simp
    next
      case False
      have "me_Path (?es ! 0) = ''/''" using wf by (auto simp: manifest_wf_def hd_conv_nth)
      moreover have "0 < length ?es" using i by linarith
      ultimately have np: "me_Path ?e \<noteq> ''/''" using diff [OF i, of 0] False by metis
      have ne: "elems (me_Path ?e) \<noteq> []" using elems_root_iff [OF pwf [OF i]] np by simp
      obtain j where j: "j < length ?es" "j < Suc i" "me_Path (?es ! j) = parent_of (me_Path ?e)"
        "me_Type (?es ! j) = ScenarioManifestEntryTypeDir"
        using take_path_types tree(2) [OF i] np unfolding parent_ok_def by blast
      have "elems (parent_of (me_Path ?e)) = butlast (elems (me_Path ?e))"
        using parent_of_wf [OF pwf [OF i]] path_wf_elems [OF pwf [OF i]] by (metis elems_abs_path in_set_butlastD)
      then have "parent_of (me_Path ?e) \<noteq> me_Path ?e" using ne by (metis append_butlast_last_id append_self_conv not_Cons_self2)
      then have "j \<noteq> i" using j(3) by metis
      then have "pe_path (?ps ! j) \<in> set (names plannedEntryTypeDir (take i ?ps))"
        using j in_names [of j i ?ps plannedEntryTypeDir] planned_type(1) [OF ewf [OF j(1)]] by simp
      then have "Dir (pe_path (?ps ! i)) \<in> set (names plannedEntryTypeDir (take i ?ps))"
        using fs_path_Dir [OF base pwf [OF i] ne] j p by simp
      moreover have "Plan_Spec.below base (pe_path (?ps ! i))"
        using fs_path_facts [OF r pwf [OF i]] ne p by (simp add: Plan_Spec.below_def)
      moreover have "take i ?ps \<noteq> []" using False i by (cases ?es) auto
      ultimately show ?thesis by simp
    qed
    have hard: "pe_linkTarget (?ps ! i) \<in> set (names plannedEntryTypeFile (take i ?ps)) \<union> set (names plannedEntryTypeHardlink (take i ?ps))"
      if t: "me_Type ?e = ScenarioManifestEntryTypeHardlink"
    proof -
      have "me_SourcePath ?e \<in> me_Path ` set (take i ?es)"
        using src i t by (simp add: sources_first_def list_all_iff)
      then obtain j where j: "j < i" "me_Path (?es ! j) = me_SourcePath ?e" by (fastforce simp: in_set_conv_nth)
      have "(me_SourcePath ?e, me_Type (?es ! j)) \<in> set (path_types ?es)"
        unfolding path_types_def set_map by (rule image_eqI [of _ _ "?es ! j"]) (use j i in simp_all)
      moreover have "distinct (map fst (path_types ?es))" using tree(1) by (simp add: path_types_def comp_def)
      ultimately have "map_of (path_types ?es) (me_SourcePath ?e) = Some (me_Type (?es ! j))" by (rule map_of_is_SomeI [rotated])
      then have "me_Type (?es ! j) \<in> {ScenarioManifestEntryTypeFile, ScenarioManifestEntryTypeHardlink}"
        using wf t i by (auto simp: manifest_wf_def list_all_length hardlink_ok_def)
      then have "pe_path (?ps ! j) \<in> set (names plannedEntryTypeFile (take i ?ps)) \<union> set (names plannedEntryTypeHardlink (take i ?ps))"
        using j i in_names [of j i ?ps] planned_type [OF ewf [of j]] by auto
      moreover have "pe_linkTarget (?ps ! i) = pe_path (?ps ! j)"
        using planned_source [OF t] p j i by simp
      ultimately show ?thesis by simp
    qed
    have sym: "pe_linkTarget (?ps ! i) \<noteq> []" if "me_Type ?e = ScenarioManifestEntryTypeSymlink"
      unfolding p by (rule planned_symlink [OF ewf [OF i] that])
    have spec: "is_ok (validateSpecialFileType (pe_special (?ps ! i))) \<and> 0 \<le> pe_major (?ps ! i) \<and> 0 \<le> pe_minor (?ps ! i)"
      if "me_Type ?e = ScenarioManifestEntryTypeSpecial"
      unfolding p by (rule planned_special [OF ewf [OF i] that])
    note types = planned_type [OF ewf [OF i], of base, folded p]
    show ?thesis
      unfolding Plan_Spec.entry_ok_def
    proof (intro conjI new place)
      show "pe_type (?ps ! i) = plannedEntryTypeHardlink \<longrightarrow> pe_linkTarget (?ps ! i) \<in>
          set (names plannedEntryTypeFile (take i ?ps)) \<union> set (names plannedEntryTypeHardlink (take i ?ps))"
        using hard unfolding types(4) by blast
      show "pe_type (?ps ! i) = plannedEntryTypeSymlink \<longrightarrow> pe_linkTarget (?ps ! i) \<noteq> []"
        using sym unfolding types(3) by blast
      show "pe_type (?ps ! i) = plannedEntryTypeSpecial \<longrightarrow>
          is_ok (validateSpecialFileType (pe_special (?ps ! i))) \<and> 0 \<le> pe_major (?ps ! i) \<and> 0 \<le> pe_minor (?ps ! i)"
        using spec unfolding types(5) by blast
    qed
  qed
  then show ?thesis by (simp add: entries_ok_def list_all_iff)
qed

section \<open>Applying\<close>

lemma capabilities_linux:
  "list_all (\<lambda>c. is_ok (validateScenarioManifestCapability c)) cs \<Longrightarrow> ensureScenarioManifestCapabilities ''linux'' cs = Inr ()"
  by (induction cs) (auto simp: is_ok_iff)

lemma apply_no_operations: "TrimSpace base \<noteq> [] \<Longrightarrow> ApplyOperations k base [] fs = (None, fs)"
  by (simp add: ApplyOperations_def ApplyOperationsWithOptions_def validateApplyOptions_def validateFaultProfile_def)

text \<open>The generator of an application.\<close>

definition manifest_generator :: "string \<Rightarrow> ScenarioManifest \<Rightarrow> Generator" where
  "manifest_generator base n = (New base)\<lparr>runMode := mg_RunMode (sm_Generator n), planEntryLimit := mg_PlanEntryLimit (sm_Generator n)\<rparr>"

lemma manifest_configure:
  assumes "manifest_wf n"
  shows "\<exists>c. Configure
      [Some (WithSeed seeded (mg_Seed (sm_Generator n))), Some (WithRunMode (mg_RunMode (sm_Generator n))),
       Some (WithPlanEntryLimit (mg_PlanEntryLimit (sm_Generator n)))]
      (Some (NewConfig seeded base)) = (None, Some c) \<and> cfg_generator c = manifest_generator base n"
  using assms
  by (auto simp: manifest_wf_def Configure_def WithSeed_def WithRunMode_def WithPlanEntryLimit_def checked_def is_ok_iff
      NewConfig_def manifest_generator_def)

text \<open>What is left of an application when the checks of the document have passed.\<close>

lemma apply_accepted:
  assumes "rooted base" "normalizeScenarioManifest m = Inr n" "verifyScenarioManifestIntegrity canonical sha256 n = Inr ()"
  shows "ApplyScenarioManifest k seeded ''linux'' canonical sha256 base m fs =
    (case runPlanFromScenarioManifest k fs base (sm_Entries n) of
       Inl e \<Rightarrow> (Some (ManifestRejected e), fs)
     | Inr plan \<Rightarrow>
         (case applyRunPlan k seeded (manifest_generator base n) plan \<lparr>injector = None\<rparr> fs of
            ((st, Some cause), fs') \<Rightarrow> (Some (EntriesNotApplied cause), fs')
          | ((st, None), fs') \<Rightarrow>
              (case ApplyOperations k base (sm_Operations n) fs' of
                 (e, fs'') \<Rightarrow> (map_option OperationsNotApplied e, fs''))))"
proof -
  have t: "TrimSpace base \<noteq> []" by (rule TrimSpace_rooted [OF assms(1)])
  have wf: "manifest_wf n" by (rule normalize_wf(1) [OF assms(2)])
  have caps: "ensureScenarioManifestCapabilities ''linux'' (sm_RequiredCapabilities n) = Inr ()"
    by (rule capabilities_linux) (use wf in \<open>auto simp: manifest_wf_def capabilities_wf_def\<close>)
  obtain c where c: "Configure
      [Some (WithSeed seeded (mg_Seed (sm_Generator n))), Some (WithRunMode (mg_RunMode (sm_Generator n))),
       Some (WithPlanEntryLimit (mg_PlanEntryLimit (sm_Generator n)))]
      (Some (NewConfig seeded base)) = (None, Some c)" "cfg_generator c = manifest_generator base n"
    using manifest_configure [OF wf] by blast
  have ctx: "newExecutionContext [] = Inr \<lparr>injector = None\<rparr>" by (simp add: newExecutionContext_def newFaultInjector_def validateFaultProfile_def)
  show ?thesis
    unfolding ApplyScenarioManifest_def Let_def if_not_P [OF t] assms(2,3) bindE_simps caps c(1) ctx prod.case option.case
    by (auto simp: c(2) apply_no_operations [OF t] split: sum.split option.split prod.split)
qed

text \<open>
  C21: what applying a manifest does. On a kernel that refuses nothing, for a free base whose parent is a
  real directory, a sealed manifest without ACL metadata whose hard links follow their sources in the
  list of entries and whose entries the file system can hold is applied in full exactly when it is flat
  (no entry lies deeper than one level below the base): then each of its entries is there with its
  type, content, owner, attributes and times, with the nine permission bits of its mode and never with
  setuid, setgid or sticky, nothing else is below the base, nothing outside has changed, and the
  operation stream of the manifest runs on that tree. A manifest with an entry deeper than one level is
  rejected before anything is created, since its parents are looked for on the disk. (Manifests with a
  hard link before its source are accepted too but fail half-way; they are outside this statement.)
\<close>

theorem ApplyScenarioManifest_builds:
  assumes "permissive k" "clean_abs base" "phys fs (butlast (elems base))" "inodes_ok fs" "absent fs (elems base)"
    and "normalizeScenarioManifest m = Inr n" "verifyScenarioManifestIntegrity canonical sha256 n = Inr ()"
    and "sources_first (sm_Entries n)" "list_all (entry_ready seeded) (map (planned_of base) (sm_Entries n))"
    and "int (length (sm_Entries n)) < 2 ^ 63"
  shows "if manifest_flat (sm_Entries n)
    then \<exists>fs'. tree_there k seeded (elems base) (map (planned_of base) (sm_Entries n)) fs' \<and>
      permission_bits_only (map (planned_of base) (sm_Entries n)) fs' \<and>
      (\<forall>q. Go_FS.below (elems base) q \<or> lookup fs' q = lookup fs q) \<and>
      ApplyScenarioManifest k seeded ''linux'' canonical sha256 base m fs =
        (case ApplyOperations k base (sm_Operations n) fs' of (e, fs'') \<Rightarrow> (map_option OperationsNotApplied e, fs''))
    else \<exists>e. ApplyScenarioManifest k seeded ''linux'' canonical sha256 base m fs = (Some (ManifestRejected e), fs)"
proof -
  have r: "rooted base" using assms(2) by (simp add: clean_abs_def)
  have wf: "manifest_wf n" by (rule normalize_wf(1) [OF assms(6)])
  then have ewf: "list_all entry_wf (sm_Entries n)" by (simp add: manifest_wf_def)
  note accepted = apply_accepted [OF r assms(6,7), of k seeded fs]
  note plan = run_plan_Inr [OF r ewf, of k fs, unfolded flat_parents [OF wf r assms(5,3)]]
  show ?thesis
  proof (cases "manifest_flat (sm_Entries n)")
    case True
    let ?plan = "\<lparr>entries = map (planned_of base) (sm_Entries n), planGroups = [],
      planMetrics = \<lparr>pathRetries = 0, pathCollisions = 0\<rparr>\<rparr>"
    have run: "runPlanFromScenarioManifest k fs base (sm_Entries n) = Inr ?plan" using plan True by blast
    have g: "basePath (manifest_generator base n) = base" by (simp add: manifest_generator_def New_def)
    have mode: "\<forall>x. runMode (manifest_generator base n) \<noteq> RunModeUnknown x"
      using wf by (auto simp: manifest_wf_def manifest_generator_def validateRunMode_def is_ok_iff split: RunMode.splits)
    have ne: "entries ?plan \<noteq> []" using wf by (simp add: manifest_wf_def)
    have ok: "entries_ok base (entries ?plan)" using planned_entries_ok [OF wf assms(2,8)] by simp
    obtain fs' where fs': "applyRunPlan k seeded (manifest_generator base n) ?plan \<lparr>injector = None\<rparr> fs =
        ((\<lparr>appliedEntries = int (length (entries ?plan)),
           finalizedDirectories = int (length (names plannedEntryTypeDir (entries ?plan)))\<rparr>, None), fs')"
      "tree_there k seeded (elems base) (entries ?plan) fs'"
      "\<forall>q. \<not> Go_FS.below (elems base) q \<longrightarrow> map_of (ents fs') q = map_of (ents fs) q \<and> lookup fs' q = lookup fs q"
      using applyRunPlan_ok [OF assms(1), of "manifest_generator base n" fs "\<lparr>injector = None\<rparr>" ?plan seeded]
        assms(2,3,4,5,9,10) mode ne ok g by auto
    show ?thesis
      unfolding if_P [OF True] accepted run using fs' tree_there_modes [OF fs'(2)] by (intro exI [of _ fs']) auto
  next
    case False
    obtain e where "runPlanFromScenarioManifest k fs base (sm_Entries n) = Inl e"
      using plan False by (cases "runPlanFromScenarioManifest k fs base (sm_Entries n)") auto
    then show ?thesis unfolding if_not_P [OF False] accepted by simp
  qed
qed

lemma sample_seal_facts:
  "normalizeScenarioManifest sample_seal = Inr sample_seal"
  "verifyScenarioManifestIntegrity (\<lambda>d. Inr ''c'') (\<lambda>p. 5) sample_seal = Inr ()"
  "sm_Operations sample_seal = []"
proof -
  have "sealScenarioManifestIntegrity (\<lambda>d. Inr ''c'') (\<lambda>p. 5) sample_manifest = Inr sample_seal"
    by (simp add: seal_Inr scenarioManifestChecksum_def sample_seal_def)
  from sealed_normal [OF sample_manifest_wf this]
  show "normalizeScenarioManifest sample_seal = Inr sample_seal"
    "verifyScenarioManifestIntegrity (\<lambda>d. Inr ''c'') (\<lambda>p. 5) sample_seal = Inr ()" by simp_all
  show "sm_Operations sample_seal = []" by (simp add: sample_seal_def sample_manifest_def)
qed

theorem ApplyScenarioManifest_builds_witness:
  "\<exists>fs'. tree_there sample_kernel (\<lambda>s. []) [''n''] (map (planned_of ''/n'') (sm_Entries sample_manifest)) fs' \<and>
     lookup fs' [''o''] = lookup sample_fs [''o''] \<and>
     ApplyScenarioManifest sample_kernel (\<lambda>s. []) ''linux'' (\<lambda>d. Inr ''c'') (\<lambda>p. 5) ''/n'' sample_seal sample_fs = (None, fs')"
proof -
  have e: "elems ''/n'' = [''n'']" by code_simp
  have es: "sm_Entries sample_seal = sm_Entries sample_manifest" by (simp add: sample_seal_def)
  have k: "permissive sample_kernel" by (simp add: permissive_def sample_kernel_def)
  have base: "clean_abs ''/n''" "phys sample_fs (butlast (elems ''/n''))" "inodes_ok sample_fs" "absent sample_fs (elems ''/n'')"
    unfolding e by code_simp+
  have src: "sources_first (sm_Entries sample_seal)" unfolding es by code_simp
  have flat: "manifest_flat (sm_Entries sample_seal)" unfolding es by code_simp
  have ready: "list_all (entry_ready (\<lambda>s. [])) (map (planned_of ''/n'') (sm_Entries sample_seal))" unfolding es by code_simp
  have len: "int (length (sm_Entries sample_seal)) < 2 ^ 63" by (simp add: sample_seal_def sample_manifest_def)
  have t: "TrimSpace ''/n'' \<noteq> []" by (rule TrimSpace_rooted) (simp add: rooted_def slash_def)
  obtain fs' where fs': "tree_there sample_kernel (\<lambda>s. []) [''n''] (map (planned_of ''/n'') (sm_Entries sample_seal)) fs'"
    "\<forall>q. Go_FS.below [''n''] q \<or> lookup fs' q = lookup sample_fs q"
    "ApplyScenarioManifest sample_kernel (\<lambda>s. []) ''linux'' (\<lambda>d. Inr ''c'') (\<lambda>p. 5) ''/n'' sample_seal sample_fs =
      (case ApplyOperations sample_kernel ''/n'' (sm_Operations sample_seal) fs' of (e, fs'') \<Rightarrow> (map_option OperationsNotApplied e, fs''))"
    using ApplyScenarioManifest_builds [OF k base sample_seal_facts(1,2) src ready len] unfolding if_P [OF flat] e by blast
  have "\<not> Go_FS.below [''n''] [''o'']" by code_simp
  then show ?thesis
    using fs' unfolding sample_seal_facts(3) apply_no_operations [OF t] es by auto
qed

section \<open>What a manifest keeps of a plan\<close>

definition portable_metadata :: "metadataConfig \<Rightarrow> metadataConfig" where
  "portable_metadata md =
     (let xs = (if hasXAttrs md
            then map (\<lambda>n. (n, case map_of (md_xattrs md) n of Some v \<Rightarrow> v | None \<Rightarrow> [])) (sort_strings (keys (md_xattrs md)))
            else []);
          acl = (if hasACL md then (case normalizeACLEntries (aclEntries md) of Inl _ \<Rightarrow> [] | Inr a \<Rightarrow> a) else []) in
      metadata0\<lparr>hasOwnership := hasOwnership md,
        md_uid := (if hasOwnership md then md_uid md else 0), md_gid := (if hasOwnership md then md_gid md else 0),
        hasTimestamps := hasTimestamps md,
        md_atime := (if hasTimestamps md then wrap64 (md_atime md) else 0),
        md_mtime := (if hasTimestamps md then wrap64 (md_mtime md) else 0),
        hasXAttrs := xs \<noteq> [], md_xattrs := xs, hasACL := acl \<noteq> [], aclEntries := acl\<rparr>)"

definition portable_content :: "plannedFileContent \<Rightarrow> plannedFileContent" where
  "portable_content c =
     (if pc_pattern c = ContentPatternUnknown 0 then content0
      else c\<lparr>pc_expectedWrittenBytes := 0, pc_expectedSparse := False\<rparr>)"

definition portable_target :: "string \<Rightarrow> string \<Rightarrow> string" where
  "portable_target base t = (if IsAbs t \<and> Go_FS.below (elems base) (elems t) then Clean t else t)"

definition portable :: "string \<Rightarrow> plannedEntry \<Rightarrow> plannedEntry" where
  "portable base p =
     (let z = (entry0 (pe_type p) (pe_path p))\<lparr>pe_mode := pe_mode p\<rparr> in
      case pe_type p of
        plannedEntryTypeDir \<Rightarrow> z\<lparr>pe_metadata := portable_metadata (pe_metadata p)\<rparr>
      | plannedEntryTypeFile \<Rightarrow> z\<lparr>pe_metadata := portable_metadata (pe_metadata p), pe_data := pe_data p,
          pe_content := portable_content (pe_content p)\<rparr>
      | plannedEntryTypeSymlink \<Rightarrow> z\<lparr>pe_linkTarget := portable_target base (pe_linkTarget p)\<rparr>
      | plannedEntryTypeHardlink \<Rightarrow> z\<lparr>pe_linkTarget := pe_linkTarget p\<rparr>
      | plannedEntryTypeSpecial \<Rightarrow> z\<lparr>pe_special := pe_special p,
          pe_major := (if isSpecialDeviceType (pe_special p) then pe_major p else 0),
          pe_minor := (if isSpecialDeviceType (pe_special p) then pe_minor p else 0)\<rparr>)"

lemma fold_put:
  "distinct (map fst m @ map f xs) \<Longrightarrow> fold (\<lambda>x. put (f x) (g x)) xs m = m @ map (\<lambda>x. (f x, g x)) xs"
proof (induction xs arbitrary: m)
  case (Cons x xs)
  have "\<not> has m (f x)" using Cons.prems by (auto simp: has_iff keys_def)
  then have "put (f x) (g x) m = m @ [(f x, g x)]" by (rule put_new)
  then show ?case using Cons.IH [of "m @ [(f x, g x)]"] Cons.prems by simp
qed simp

lemma config_of_Some:
  assumes "metadata_wf m"
  shows "config_of (Some m) =
    metadata0\<lparr>hasOwnership := mm_Ownership m \<noteq> None,
      md_uid := (case mm_Ownership m of None \<Rightarrow> 0 | Some ow \<Rightarrow> mo_UID ow),
      md_gid := (case mm_Ownership m of None \<Rightarrow> 0 | Some ow \<Rightarrow> mo_GID ow),
      hasTimestamps := mm_Timestamps m \<noteq> None,
      md_atime := (case mm_Timestamps m of None \<Rightarrow> 0 | Some ts \<Rightarrow> mt_AtimeUnixNano ts),
      md_mtime := (case mm_Timestamps m of None \<Rightarrow> 0 | Some ts \<Rightarrow> mt_MtimeUnixNano ts),
      hasXAttrs := mm_XAttrs m \<noteq> [], md_xattrs := map (\<lambda>x. (mx_Name x, mx_Value x)) (mm_XAttrs m),
      hasACL := mm_ACL m \<noteq> [], aclEntries := mm_ACL m\<rparr>"
proof -
  have n: "normalizeScenarioManifestMetadata (Some m) = Inr (Some m)" using metadata_id [of "Some m"] assms by simp
  have "distinct (map fst [] @ map mx_Name (mm_XAttrs m))" using assms by (simp add: metadata_wf_def)
  from fold_put [OF this]
  have f: "fold (\<lambda>x. put (mx_Name x) (cloneBytes (mx_Value x))) (mm_XAttrs m) [] = map (\<lambda>x. (mx_Name x, mx_Value x)) (mm_XAttrs m)"
    by simp
  show ?thesis
    unfolding config_of_def metadataConfigFromScenarioManifestMetadata_def option.case n bindE_simps Let_def f
    by (auto simp: metadata0_def split: option.split)
qed

lemma metadata_portable:
  assumes "scenarioManifestMetadataFromConfig md = Inr x"
  shows "config_of x = portable_metadata md"
proof -
  define xs where "xs = (if hasXAttrs md
      then map (\<lambda>name. \<lparr>mx_Name = name, mx_Value = (case map_of (md_xattrs md) name of Some v \<Rightarrow> v | None \<Rightarrow> [])\<rparr>)
             (sort_strings (keys (md_xattrs md)))
      else [])"
  define ow where "ow = (if hasOwnership md then Some \<lparr>mo_UID = md_uid md, mo_GID = md_gid md\<rparr> else None)"
  define ts where "ts = (if hasTimestamps md
      then Some \<lparr>mt_AtimeUnixNano = wrap64 (md_atime md), mt_MtimeUnixNano = wrap64 (md_mtime md)\<rparr> else None)"
  have c0: "config_of None = metadata0" by (simp add: config_of_def metadataConfigFromScenarioManifestMetadata_def)
  show ?thesis
  proof (cases "\<not> hasOwnership md \<and> \<not> hasTimestamps md \<and> \<not> hasXAttrs md \<and> \<not> hasACL md")
    case True
    then have "x = None" using assms by (simp add: scenarioManifestMetadataFromConfig_def)
    then show ?thesis using True c0 by (simp add: portable_metadata_def Let_def) (simp add: metadata0_def)
  next
    case False
    let ?M = "\<lparr>mm_Ownership = ow, mm_Timestamps = ts, mm_XAttrs = xs, mm_ACL = (if hasACL md then aclEntries md else [])\<rparr>"
    have x: "normalizeScenarioManifestMetadata (Some ?M) = Inr x"
      using assms False unfolding scenarioManifestMetadataFromConfig_def ow_def ts_def xs_def cloneBytes_id by simp
    have sorted: "sort_key mx_Name xs = xs"
      by (rule sort_key_id_if_sorted) (simp add: xs_def comp_def)
    obtain acl where acl: "(if hasACL md then normalizeACLEntries (aclEntries md) else Inr []) = Inr acl"
      and res: "x = (if ow = None \<and> ts = None \<and> xs = [] \<and> acl = [] then None
        else Some \<lparr>mm_Ownership = ow, mm_Timestamps = ts, mm_XAttrs = xs, mm_ACL = acl\<rparr>)"
      using x sorted unfolding normalizeScenarioManifestMetadata_def
      by (auto simp: Let_def normalize_xattrs_Inr normalizeACLEntries_def split: option.splits if_splits)
    have acl': "(if hasACL md then (case normalizeACLEntries (aclEntries md) of Inl _ \<Rightarrow> [] | Inr a \<Rightarrow> a) else []) = acl"
      using acl by (auto split: if_splits)
    have xs': "(if hasXAttrs md
        then map (\<lambda>n. (n, case map_of (md_xattrs md) n of Some v \<Rightarrow> v | None \<Rightarrow> [])) (sort_strings (keys (md_xattrs md)))
        else []) = map (\<lambda>x. (mx_Name x, mx_Value x)) xs"
      by (simp add: xs_def)
    have port: "portable_metadata md = metadata0\<lparr>hasOwnership := ow \<noteq> None,
        md_uid := (case ow of None \<Rightarrow> 0 | Some ow \<Rightarrow> mo_UID ow), md_gid := (case ow of None \<Rightarrow> 0 | Some ow \<Rightarrow> mo_GID ow),
        hasTimestamps := ts \<noteq> None, md_atime := (case ts of None \<Rightarrow> 0 | Some ts \<Rightarrow> mt_AtimeUnixNano ts),
        md_mtime := (case ts of None \<Rightarrow> 0 | Some ts \<Rightarrow> mt_MtimeUnixNano ts),
        hasXAttrs := xs \<noteq> [], md_xattrs := map (\<lambda>x. (mx_Name x, mx_Value x)) xs, hasACL := acl \<noteq> [], aclEntries := acl\<rparr>"
      unfolding portable_metadata_def Let_def acl' xs' by (simp add: ow_def ts_def)
    have wf: "opt_ok metadata_wf x" using metadata_normal [OF x] .
    show ?thesis
    proof (cases "x")
      case None
      then have "ow = None" "ts = None" "xs = []" "acl = []" using res by (auto split: if_splits)
      then show ?thesis unfolding None c0 port by (simp add: metadata0_def)
    next
      case (Some n)
      then have n: "n = \<lparr>mm_Ownership = ow, mm_Timestamps = ts, mm_XAttrs = xs, mm_ACL = acl\<rparr>" "metadata_wf n"
        using res wf by (auto split: if_splits)
      show ?thesis unfolding Some config_of_Some [OF n(2)] port by (simp add: n(1))
    qed
  qed
qed

lemma metadata_from_wf: "scenarioManifestMetadataFromConfig md = Inr x \<Longrightarrow> opt_ok metadata_wf x"
  by (auto simp: scenarioManifestMetadataFromConfig_def dest: metadata_normal split: if_splits)

lemma ranges_back [simp]: "ranges_to_planned (rangesFromPlanned rs) = rs"
  by (induction rs) (simp_all add: ranges_to_planned_def rangesFromPlanned_def)

lemma content_portable:
  assumes "scenarioManifestFileContentFromPlanned c = Inr x"
  shows "content_of x = portable_content c \<and> opt_ok content_wf x"
proof (cases "pc_pattern c = ContentPatternUnknown 0")
  case True
  then show ?thesis using assms
    by (simp add: scenarioManifestFileContentFromPlanned_def portable_content_def content_of_def
        plannedFileContentFromScenarioManifestFileContent_def)
next
  case False
  let ?f = "\<lparr>fc_Pattern = pc_pattern c, fc_LogicalSize = pc_logicalSize c, fc_Seed = pc_seed c,
    fc_RepeatedBlock = pc_repeatedBlock c, fc_SparseExtents = rangesFromPlanned (pc_sparseExtents c),
    fc_OverwriteExtents = rangesFromPlanned (pc_overwriteExtents c)\<rparr>"
  have x: "x = Some ?f" "opt_ok content_wf (Some ?f)"
    using assms False by (auto simp: scenarioManifestFileContentFromPlanned_def content_Inr)
  have "normalizeScenarioManifestFileContent (Some ?f) = Inr (Some ?f)" using content_Inr x(2) by blast
  then have "content_of x = portable_content c"
    unfolding x(1) using False
    by (cases c) (simp add: content_of_def plannedFileContentFromScenarioManifestFileContent_def portable_content_def content0_def)
  then show ?thesis using x by simp
qed

text \<open>A path of the plan and its name in the manifest.\<close>

lemma Rel_inside:
  assumes "rooted base" "rooted p" "Rel (Clean base) (Clean p) = Inr rel" "rel \<noteq> dotdot" "\<not> HasPrefix rel (dotdot @ [slash])"
  shows "Go_FS.below (elems base) (elems p) \<and> (rel = dot \<longrightarrow> elems p = elems base) \<and>
    (rel \<noteq> dot \<longrightarrow> rel = Join slash (drop (length (elems base)) (elems p)) \<and> elems p \<noteq> elems base)"
proof -
  have ok: "\<forall>w \<in> set (elems base). elem_ok w" "\<forall>w \<in> set (elems p). elem_ok w" using elems_ok by blast+
  have c: "Clean base = abs_path (elems base)" "Clean p = abs_path (elems p)" using Clean_rooted assms(1,2) by blast+
  have e: "ensurePathWithinBase (abs_path (elems base)) (abs_path (elems p)) = Inr ()"
    using assms(3-5) unfolding c ensurePathWithinBase_def by simp
  have below: "Go_FS.below (elems base) (elems p)" using ensurePathWithinBase_iff [OF ok] e by blast
  then obtain r where r: "elems p = elems base @ r" by (rule belowE)
  show ?thesis
  proof (cases "r = []")
    case True
    then have "rel = dot" using assms(3) r ok unfolding c by (simp add: Rel_abs_path)
    then show ?thesis using below r True by simp
  next
    case False
    then have "rel = Join slash r" using assms(3) Rel_below [of "elems base" r] ok unfolding c r by simp
    moreover have "Join slash r \<noteq> dot"
    proof
      assume "Join slash r = dot"
      then have "cut (abs_path r) = cut (slash # dot)" by (simp add: abs_path_def)
      moreover have "cut (slash # dot) = [dot]" by code_simp
      ultimately have "r = [dot]" using cut_abs_path [of r] ok(2) r by simp
      then show False using ok(2) r by (simp add: elem_ok_def)
    qed
    ultimately show ?thesis using below r False by simp
  qed
qed

lemma relative_path:
  assumes "rooted base" "elems p = elems base @ r" "r \<noteq> []"
    and "normalizeOperationPath (''/'' @ Join slash r) False = Inr mp"
  shows "path_wf mp False \<and> fs_path base mp = abs_path (elems p)"
proof -
  have ok: "\<forall>w \<in> set r. elem_ok w" using elems_ok [of _ p] assms(2) by auto
  have "''/'' @ Join slash r = abs_path r" by (simp add: abs_path_def slash_def)
  then have "mp = abs_path r"
    using assms(4) ok by (auto simp: normalizeOperationPath_def Let_def split: if_splits)
  then have "fs_path base mp = abs_path (elems p)" using ok assms(2) by (simp add: fs_path_def)
  then show ?thesis using normalizeOperationPath_wf [OF assms(4)] by simp
qed

lemma plan_path:
  assumes "clean_abs base" "clean_abs p" "planPathToManifestPath base p = Inr mp"
  shows "path_wf mp True \<and> fs_path base mp = p \<and> (mp = ''/'' \<or> path_wf mp False)"
proof -
  have r: "rooted base" "rooted p" using assms(1,2) by (simp_all add: clean_abs_def)
  obtain rel where rel: "Rel (Clean base) (Clean p) = Inr rel"
    and mp: "if rel = dot then mp = ''/''
      else rel \<noteq> dotdot \<and> \<not> HasPrefix rel (dotdot @ [slash]) \<and> normalizeOperationPath (''/'' @ rel) False = Inr mp"
    using assms(3) by (auto simp: planPathToManifestPath_def split: if_splits)
  have "rel \<noteq> dotdot \<and> \<not> HasPrefix rel (dotdot @ [slash])"
    using mp by (cases "rel = dot") (auto simp: dot_def dotdot_def HasPrefix_def)
  then have inside: "Go_FS.below (elems base) (elems p)" "rel = dot \<longrightarrow> elems p = elems base"
    "rel \<noteq> dot \<longrightarrow> rel = Join slash (drop (length (elems base)) (elems p)) \<and> elems p \<noteq> elems base"
    using Rel_inside [OF r rel] by blast+
  have p: "abs_path (elems p) = p" by (rule abs_path_elems [OF assms(2)])
  show ?thesis
  proof (cases "rel = dot")
    case True
    then have "mp = ''/''" "elems p = elems base" using mp inside by auto
    moreover have "path_wf ''/'' True" by code_simp
    moreover have "elems ''/'' = []" by code_simp
    ultimately show ?thesis using p by (simp add: fs_path_def)
  next
    case False
    obtain s where s: "elems p = elems base @ s" using inside(1) by (rule belowE)
    then have "s \<noteq> []" "rel = Join slash s" using inside(3) False by auto
    then show ?thesis
      using relative_path [OF r(1) s] mp False p path_wf_True by auto
  qed
qed

lemma plan_target:
  assumes "clean_abs base" "tryTranslateAbsolutePathToManifestPath base t = Inr (mt, asPath)"
  shows "(if asPath then path_wf mt True \<and> fs_path base mt = portable_target base t else portable_target base t = t) \<and>
    TrimSpace t \<noteq> []"
proof (cases "IsAbs t")
  case False
  then show ?thesis using assms(2) by (auto simp: tryTranslateAbsolutePathToManifestPath_def portable_target_def split: if_splits)
next
  case True
  then have t: "rooted t" by (simp add: IsAbs_def)
  have r: "rooted base" using assms(1) by (simp add: clean_abs_def)
  have trim: "TrimSpace t \<noteq> []" by (rule TrimSpace_rooted [OF t])
  obtain rel where rel: "Rel (Clean base) (Clean t) = Inr rel"
    and mp: "if rel = dotdot \<or> HasPrefix rel (dotdot @ [slash]) then mt = [] \<and> \<not> asPath
      else if rel = dot then mt = ''/'' \<and> asPath
      else normalizeOperationPath (''/'' @ rel) False = Inr mt \<and> asPath"
    using assms(2) True trim by (auto simp: tryTranslateAbsolutePathToManifestPath_def split: if_splits)
  have clean: "Clean t = abs_path (elems t)" by (rule Clean_rooted [OF t])
  show ?thesis
  proof (cases "rel = dotdot \<or> HasPrefix rel (dotdot @ [slash])")
    case True
    have ok: "\<forall>w \<in> set (elems base). elem_ok w" "\<forall>w \<in> set (elems t). elem_ok w" using elems_ok by blast+
    have "ensurePathWithinBase (abs_path (elems base)) (abs_path (elems t)) \<noteq> Inr ()"
      using rel True unfolding clean Clean_rooted [OF r] ensurePathWithinBase_def by simp
    then have "\<not> Go_FS.below (elems base) (elems t)" using ensurePathWithinBase_iff [OF ok] by blast
    then show ?thesis using mp True trim by (simp add: portable_target_def)
  next
    case False
    then have "rel \<noteq> dotdot" "\<not> HasPrefix rel (dotdot @ [slash])" by simp_all
    note inside = Rel_inside [OF r t rel this]
    obtain s where s: "elems t = elems base @ s" using inside by (auto elim: belowE)
    have port: "portable_target base t = abs_path (elems t)" using inside \<open>IsAbs t\<close> clean by (simp add: portable_target_def)
    show ?thesis
    proof (cases "rel = dot")
      case True
      moreover have "path_wf ''/'' True" "elems ''/'' = []" by code_simp+
      ultimately show ?thesis using mp False inside port trim by (simp add: fs_path_def)
    next
      case F: False
      then have "s \<noteq> []" "rel = Join slash s" using inside s by auto
      then show ?thesis using relative_path [OF r s, of mt] mp False F port trim path_wf_True by auto
    qed
  qed
qed

lemma path_again: "path_wf mp r' \<Longrightarrow> normalizeOperationPath mp r = Inr q \<Longrightarrow> q = mp"
  by (auto simp: normalizeOperationPath_def path_wf_def clean_abs_def Let_def split: if_splits)

lemma base_entry_dir:
  "(ScenarioManifestEntry0 t)\<lparr>me_Path := p, me_Mode := m, me_Metadata := md\<rparr> = (base_entry t m p)\<lparr>me_Metadata := md\<rparr>"
  by (simp add: base_entry_def)

lemma entry0_metadata [simp]: "(entry0 t p)\<lparr>pe_mode := m, pe_metadata := metadata0\<rparr> = (entry0 t p)\<lparr>pe_mode := m\<rparr>"
  "pe_type (entry0 t p) = t" "pe_path (entry0 t p) = p"
  by (simp_all add: entry0_def)

lemma entry_portable:
  assumes base: "clean_abs base" and p: "clean_abs (pe_path p)"
    and link: "pe_type p = plannedEntryTypeHardlink \<Longrightarrow> clean_abs (pe_linkTarget p)"
    and e: "scenarioManifestEntryFromPlannedEntry base p = Inr e" and n: "normalizeScenarioManifestEntry e = Inr out"
  shows "planned_of base out = portable base p"
proof -
  obtain mp md t where mp: "planPathToManifestPath base (pe_path p) = Inr mp"
    and t: "plannedEntryTypeToScenarioManifestEntryType (pe_type p) = Inr t"
    and md: "scenarioManifestMetadataFromConfig (pe_metadata p) = Inr md"
    using e by (auto simp: scenarioManifestEntryFromPlannedEntry_def)
  note path = plan_path [OF base p mp]
  have c0: "config_of None = metadata0" by (simp add: config_of_def metadataConfigFromScenarioManifestMetadata_def)
  have wfm: "opt_ok metadata_wf md" by (rule metadata_from_wf [OF md])
  have again: "normalizeOperationPath mp r = Inr q \<Longrightarrow> q = mp" for r q using path path_again by blast
  note steps = scenarioManifestEntryFromPlannedEntry_def mp md bindE_simps Let_def base_entry_dir
    plannedEntryTypeToScenarioManifestEntryType.simps
  show ?thesis
  proof (cases "pe_type p")
    case plannedEntryTypeDir
    have e: "e = (base_entry ScenarioManifestEntryTypeDir (pe_mode p) mp)\<lparr>me_Metadata := md\<rparr>"
      using e unfolding steps plannedEntryTypeDir by simp
    have "out = e" using n metadata_id [OF wfm] unfolding e by (auto simp: branch_dir dest: again)
    then show ?thesis
      using path metadata_portable [OF md] plannedEntryTypeDir by (simp add: e planned_of_def portable_def)
  next
    case plannedEntryTypeFile
    obtain c where c: "scenarioManifestFileContentFromPlanned (pe_content p) = Inr c"
      and e: "e = (base_entry ScenarioManifestEntryTypeFile (pe_mode p) mp)\<lparr>me_Metadata := md, me_Data := pe_data p, me_Content := c\<rparr>"
      using e unfolding steps plannedEntryTypeFile by auto
    have "out = e" using n metadata_id [OF wfm] unfolding e by (auto simp: branch_file dest: again)
    then show ?thesis
      using path metadata_portable [OF md] content_portable [OF c] plannedEntryTypeFile
      by (simp add: e planned_of_def portable_def)
  next
    case plannedEntryTypeSymlink
    obtain mt asPath where t: "tryTranslateAbsolutePathToManifestPath base (pe_linkTarget p) = Inr (mt, asPath)"
      and e: "e = (base_entry ScenarioManifestEntryTypeSymlink (pe_mode p) mp)\<lparr>me_Metadata := md,
        me_LinkTarget := (if asPath then mt else pe_linkTarget p), me_LinkTargetType :=
          (if asPath then ScenarioManifestLinkTargetTypeManifestPath else ScenarioManifestLinkTargetTypeLiteral)\<rparr>"
      using e unfolding steps plannedEntryTypeSymlink by (auto split: if_splits)
    note targ = plan_target [OF base t]
    have "out = (base_entry ScenarioManifestEntryTypeSymlink (pe_mode p) mp)\<lparr>
        me_LinkTarget := (if asPath then mt else pe_linkTarget p), me_LinkTargetType :=
          (if asPath then ScenarioManifestLinkTargetTypeManifestPath else ScenarioManifestLinkTargetTypeLiteral)\<rparr>"
      using n targ path_again [of mt True True] unfolding e
      by (cases asPath) (auto simp: branch_symlink normalizeScenarioManifestLinkTargetType_def dest: again)
    then show ?thesis
      using path targ plannedEntryTypeSymlink c0 by (simp add: planned_of_def portable_def)
  next
    case plannedEntryTypeHardlink
    obtain sp where s: "planPathToManifestPath base (pe_linkTarget p) = Inr sp"
      and e: "e = (base_entry ScenarioManifestEntryTypeHardlink (pe_mode p) mp)\<lparr>me_Metadata := md, me_SourcePath := sp\<rparr>"
      using e unfolding steps plannedEntryTypeHardlink by auto
    note src = plan_path [OF base link [OF plannedEntryTypeHardlink] s]
    have "out = (base_entry ScenarioManifestEntryTypeHardlink (pe_mode p) mp)\<lparr>me_SourcePath := sp\<rparr>"
      using n src path_again [of sp True False] unfolding e by (auto simp: branch_hardlink dest: again)
    then show ?thesis
      using path src plannedEntryTypeHardlink c0 by (simp add: planned_of_def portable_def)
  next
    case plannedEntryTypeSpecial
    let ?s = "\<lparr>sf_Type = pe_special p, sf_DeviceMajor = pe_major p, sf_DeviceMinor = pe_minor p\<rparr>"
    have e: "e = (base_entry ScenarioManifestEntryTypeSpecial (pe_mode p) mp)\<lparr>me_Metadata := md, me_Special := Some ?s\<rparr>"
      using e unfolding steps plannedEntryTypeSpecial by simp
    obtain s' where s: "normalizeScenarioManifestSpecialFile ?s = Inr s'"
      and "out = (base_entry ScenarioManifestEntryTypeSpecial (pe_mode p) mp)\<lparr>me_Special := Some s'\<rparr>"
      using n unfolding e by (auto simp: branch_special dest: again)
    moreover have "s' = \<lparr>sf_Type = pe_special p,
        sf_DeviceMajor = (if isSpecialDeviceType (pe_special p) then pe_major p else 0),
        sf_DeviceMinor = (if isSpecialDeviceType (pe_special p) then pe_minor p else 0)\<rparr>"
      using s by (auto simp: normalizeScenarioManifestSpecialFile_def split: if_splits)
    ultimately show ?thesis
      using path plannedEntryTypeSpecial c0 by (simp add: planned_of_def portable_def)
  qed
qed

section \<open>Building\<close>

lemma normalize_keeps:
  assumes "normalizeScenarioManifest m = Inr n"
  shows "length (sm_Entries n) = length (sm_Entries m)"
    "i < length (sm_Entries m) \<Longrightarrow> normalizeScenarioManifestEntry (sm_Entries m ! i) = Inr (sm_Entries n ! i)"
proof -
  have e: "mapE_from 0 (\<lambda>_. normalizeScenarioManifestEntry) (sm_Entries m) = Inr (sm_Entries n)"
    using assms unfolding normalizeScenarioManifest_def Let_def by (auto split: if_splits)
  show "length (sm_Entries n) = length (sm_Entries m)" using mapE_from_length [OF e] .
  show "i < length (sm_Entries m) \<Longrightarrow> normalizeScenarioManifestEntry (sm_Entries m ! i) = Inr (sm_Entries n ! i)"
    using mapE_from_nth [OF e] by simp
qed

lemma portable_simps [simp]:
  "pe_type (portable base p) = pe_type p" "pe_path (portable base p) = pe_path p"
  by (simp_all add: portable_def Let_def split: plannedEntryType.split)

lemma portable_source: "pe_type p = plannedEntryTypeHardlink \<Longrightarrow> pe_linkTarget (portable base p) = pe_linkTarget p"
  by (simp add: portable_def)

lemma entries_clean:
  assumes "entries_ok base es" "clean_abs base" "i < length es"
  shows "clean_abs (pe_path (es ! i))"
    "pe_type (es ! i) = plannedEntryTypeHardlink \<Longrightarrow> \<exists>j < i. pe_linkTarget (es ! i) = pe_path (es ! j)"
proof -
  have "pe_path (es ! i) \<in> set (paths es)" using assms(3) by (auto simp: paths_def)
  then show "clean_abs (pe_path (es ! i))"
    using entries_ok_path [OF assms(1)] assms(2) by (auto simp: Plan_Spec.below_def)
  assume t: "pe_type (es ! i) = plannedEntryTypeHardlink"
  have "Plan_Spec.entry_ok base (take i es) (es ! i)" using assms(1,3) by (simp add: entries_ok_def list_all_iff)
  then have "pe_linkTarget (es ! i) \<in> set (paths (take i es))" using t names_paths by (auto simp: Plan_Spec.entry_ok_def)
  then show "\<exists>j < i. pe_linkTarget (es ! i) = pe_path (es ! j)"
    using assms(3) by (fastforce simp: paths_def in_set_conv_nth)
qed

lemma described_sources:
  assumes base: "clean_abs base" and ok: "entries_ok base ps" and wf: "list_all entry_wf es"
    and eq: "map (planned_of base) es = map (portable base) ps"
  shows "sources_first es"
proof -
  have r: "rooted base" using base by (simp add: clean_abs_def)
  have len: "length es = length ps" using map_eq_imp_length_eq [OF eq] .
  have nth: "planned_of base (es ! i) = portable base (ps ! i)" if "i < length es" for i
    using arg_cong [OF eq, of "\<lambda>xs. xs ! i"] that len by simp
  have w: "entry_wf (es ! i)" if "i < length es" for i using wf that by (simp add: list_all_length)
  have "me_SourcePath (es ! i) \<in> me_Path ` set (take i es)"
    if i: "i < length es" and t: "me_Type (es ! i) = ScenarioManifestEntryTypeHardlink" for i
  proof -
    have pt: "pe_type (ps ! i) = plannedEntryTypeHardlink"
      using planned_type(4) [OF w [OF i], of base] t nth [OF i] by simp
    obtain j where j: "j < i" "pe_linkTarget (ps ! i) = pe_path (ps ! j)"
      using entries_clean(2) [OF ok base _ pt] i len by auto
    have "fs_path base (me_SourcePath (es ! i)) = pe_linkTarget (ps ! i)"
      using planned_source [OF t, of base] nth [OF i] portable_source [OF pt] by simp
    also have "\<dots> = fs_path base (me_Path (es ! j))"
      using j nth [of j] i by (metis order.strict_trans planned_path portable_simps(2))
    finally have eq: "fs_path base (me_SourcePath (es ! i)) = fs_path base (me_Path (es ! j))" .
    have "path_wf (me_SourcePath (es ! i)) False" using w [OF i] unfolding entry_wf_def t by simp
    moreover have "path_wf (me_Path (es ! j)) (me_Type (es ! j) = ScenarioManifestEntryTypeDir)"
      using entry_wf_path w j i by simp
    ultimately have "me_SourcePath (es ! i) = me_Path (es ! j)" using fs_path_inj [OF r] eq by blast
    moreover have "es ! j \<in> set (take i es)" using j i by (auto simp: in_set_conv_nth)
    ultimately show ?thesis by blast
  qed
  then show ?thesis by (simp add: sources_first_def list_all_iff)
qed

text \<open>The plan of a configured generator can be created in its order, whichever of the two it is.\<close>

lemma configured_plan:
  assumes "cfg_coverage c = None \<longrightarrow>
      gives (next_name (fileNameGen g) (fileNameLenGen g) (byteFileNameGen g)) elem_ok \<and>
      gives (next_name (dirNameGen g) (dirNameLenGen g) (byteDirNameGen g)) elem_ok"
    and "cfg_coverage c \<noteq> None \<longrightarrow> \<not> Contains (basePath g) NUL"
    and "clean_abs (basePath g)" and "g = cfg_generator c" and "configuredPlanRun k c r fs = (Inr plan, fs')"
  shows "entries_ok (basePath g) (entries plan)"
    and "case cfg_coverage c of
       None \<Rightarrow> fst (planRun g r) = (plan, Inr ()) \<and> fs' = fs
     | Some opts \<Rightarrow> \<exists>reports.
         enumerateCoveragePlan k (basePath g) (normalizeDeterministicCoverageOptions opts) fs = ((Inr plan, reports), fs') \<and>
         (reports, fs') = resolveCoverageCapabilities k (normalizeDeterministicCoverageOptions opts) (basePath g) fs"
proof -
  have "entries_ok (basePath g) (entries plan) \<and> (case cfg_coverage c of
       None \<Rightarrow> fst (planRun g r) = (plan, Inr ()) \<and> fs' = fs
     | Some opts \<Rightarrow> \<exists>reports.
         enumerateCoveragePlan k (basePath g) (normalizeDeterministicCoverageOptions opts) fs = ((Inr plan, reports), fs') \<and>
         (reports, fs') = resolveCoverageCapabilities k (normalizeDeterministicCoverageOptions opts) (basePath g) fs)"
  proof (cases "cfg_coverage c")
    case None
    obtain p res r' where p: "planRun g r = ((p, res), r')" by (metis prod.exhaust)
    have "res = Inr () \<and> p = plan \<and> fs' = fs"
      using assms(5) None p by (cases res) (auto simp: configuredPlanRun_def assms(4))
    then show ?thesis
      using planRun_in_order [where g = g and plan = plan] assms(1) None assms(3) p by auto
  next
    case (Some opts)
    let ?opts = "normalizeDeterministicCoverageOptions opts"
    obtain b T K where e: "enumerateCoveragePlan k (basePath g) ?opts fs =
      ((Inr (buildRunPlan b), fst (resolveCoverageCapabilities k ?opts (basePath g) fs)),
       snd (resolveCoverageCapabilities k ?opts (basePath g) fs))"
      and cov: "cov (basePath g) (coverageCapabilitySet (fst (resolveCoverageCapabilities k ?opts (basePath g) fs))) T K
        {basePath g} {} (11 + 1539 * coverageEffortMultiplier (co_effort ?opts)) b"
      using enumerateCoveragePlan_cases [OF assms(3)] assms(2) Some by blast
    have "plan = buildRunPlan b" "fs' = snd (resolveCoverageCapabilities k ?opts (basePath g) fs)"
      using assms(5) Some e by (simp_all add: configuredPlanRun_def assms(4))
    then show ?thesis using Some e buildRunPlan_ok(1) [OF cov] by (simp add: plan_ok_def)
  qed
  then show "entries_ok (basePath g) (entries plan)"
    and "case cfg_coverage c of
       None \<Rightarrow> fst (planRun g r) = (plan, Inr ()) \<and> fs' = fs
     | Some opts \<Rightarrow> \<exists>reports.
         enumerateCoveragePlan k (basePath g) (normalizeDeterministicCoverageOptions opts) fs = ((Inr plan, reports), fs') \<and>
         (reports, fs') = resolveCoverageCapabilities k (normalizeDeterministicCoverageOptions opts) (basePath g) fs"
    by blast+
qed

text \<open>
  C22: a built manifest describes the run. Whatever \<open>BuildScenarioManifest\<close> returns is a well-formed manifest
  with a valid checksum, so it can be exported, parsed and applied, with the seed and the run mode of the
  generator, hard links after their sources, and its entries stand for exactly the entries of the plan, in their
  order: same paths, types, modes, data, contents, device numbers and metadata. The plan is the random one of
  that seed, and the file system is left alone; or, when deterministic coverage is active, the coverage plan
  that the probes of this file system give, and only the probes touch it. Attributes and ACL entries are
  sorted, times cut to 64 bits, absolute link targets inside the base cleaned, metadata of links and the sizes
  used by statistics dropped. The base path is clean, and without NUL for the coverage plan; for the random
  plan the name generators return proper path elements (not empty, not a dot or two dots, without a
  slash), as all presets but the leading-dots one do. The statement is about what is returned: a plan with a
  link to an absolute path inside the base that no entry has is refused by the normalization, and the
  coverage matrix has such links.
\<close>

theorem BuildScenarioManifest_describes:
  assumes "cfg_coverage c = None \<longrightarrow>
      gives (next_name (fileNameGen g) (fileNameLenGen g) (byteFileNameGen g)) elem_ok \<and>
      gives (next_name (dirNameGen g) (dirNameLenGen g) (byteDirNameGen g)) elem_ok"
    and "cfg_coverage c \<noteq> None \<longrightarrow> \<not> Contains (basePath g) NUL"
    and "clean_abs (basePath g)" and "g = cfg_generator c"
    and "BuildScenarioManifest k canonical sha256 seeded (Some c) ops fs = (Inr m, fs')"
  shows "manifest_wf m \<and> normalizeScenarioManifest m = Inr m \<and>
    verifyScenarioManifestIntegrity canonical sha256 m = Inr () \<and> sources_first (sm_Entries m) \<and>
    mg_Seed (sm_Generator m) = cfg_seed c \<and> mg_RunMode (sm_Generator m) = runMode g \<and>
    (\<exists>plan. map (planned_of (basePath g)) (sm_Entries m) = map (portable (basePath g)) (entries plan) \<and>
       (case cfg_coverage c of
          None \<Rightarrow> fst (planRun g (seeded (cfg_seed c))) = (plan, Inr ()) \<and> fs' = fs
        | Some opts \<Rightarrow> \<exists>reports.
            enumerateCoveragePlan k (basePath g) (normalizeDeterministicCoverageOptions opts) fs = ((Inr plan, reports), fs') \<and>
            (reports, fs') = resolveCoverageCapabilities k (normalizeDeterministicCoverageOptions opts) (basePath g) fs))"
proof -
  let ?base = "basePath g"
  obtain nops plan es n where run: "configuredPlanRun k c (seeded (cfg_seed c)) fs = (Inr plan, fs')"
    and es: "mapE_from 0 (\<lambda>_ entry. wrapE ''failed to serialize planned entry''
               (scenarioManifestEntryFromPlannedEntry ?base entry)) (entries plan) = Inr es"
    and n: "normalizeScenarioManifest
        \<lparr>sm_Version = scenarioManifestVersion,
         sm_Generator = \<lparr>mg_Seed = cfg_seed c, mg_RunMode = runMode g, mg_PlanEntryLimit = planEntryLimit g,
           mg_DeterministicSettings = []\<rparr>,
         sm_Entries = es, sm_Operations = nops,
         sm_RequiredCapabilities = deriveScenarioManifestCapabilities es nops,
         sm_Integrity = ScenarioManifestIntegrity0\<rparr> = Inr n" (is "_ ?raw = _")
    and seal: "sealScenarioManifestIntegrity canonical sha256 n = Inr m"
    using assms(5) unfolding BuildScenarioManifest_def option.case Let_def assms(4) [symmetric] bindS_eq_Inr liftS_def
    by auto
  note planned = configured_plan [OF assms(1-4) run]
  note ok = planned(1)
  note wf = normalize_wf [OF n]
  note sealed = sealed_normal [OF wf(1) seal]
  have m: "sm_Entries m = sm_Entries n" "sm_Generator m = sm_Generator n" using seal by (auto simp: seal_Inr)
  have len: "length (sm_Entries n) = length es" "length es = length (entries plan)"
    using normalize_keeps(1) [OF n] mapE_from_length [OF es] by simp_all
  have "planned_of ?base (sm_Entries n ! i) = portable ?base (entries plan ! i)" if i: "i < length es" for i
  proof (rule entry_portable [OF assms(3)])
    have ip: "i < length (entries plan)" using i len by simp
    show "clean_abs (pe_path (entries plan ! i))" by (rule entries_clean(1) [OF ok assms(3) ip])
    show "clean_abs (pe_linkTarget (entries plan ! i))" if "pe_type (entries plan ! i) = plannedEntryTypeHardlink"
      using entries_clean(2) [OF ok assms(3) ip that] entries_clean(1) [OF ok assms(3)] ip by (metis order.strict_trans)
    show "scenarioManifestEntryFromPlannedEntry ?base (entries plan ! i) = Inr (es ! i)"
      using mapE_from_nth [OF es ip] by simp
    show "normalizeScenarioManifestEntry (es ! i) = Inr (sm_Entries n ! i)" using normalize_keeps(2) [OF n] i by simp
  qed
  then have eq: "map (planned_of ?base) (sm_Entries m) = map (portable ?base) (entries plan)"
    unfolding m using len by (auto intro!: nth_equalityI)
  have mwf: "manifest_wf m" by (rule sealed(1))
  then have "list_all entry_wf (sm_Entries m)" unfolding manifest_wf_def by blast
  then have "sources_first (sm_Entries m)" by (rule described_sources [OF assms(3) ok _ eq])
  have "mg_Seed (sm_Generator m) = cfg_seed c" "mg_RunMode (sm_Generator m) = runMode g"
    using wf(3,4) m by simp_all
  then show ?thesis using sealed eq planned(2) \<open>sources_first (sm_Entries m)\<close> by blast
qed

definition sample_config :: gconfig where
  "sample_config = \<lparr>cfg_generator = Plan_Spec.sample_tree, cfg_seed = 1, cfg_rndSrc = [], cfg_coverage = None\<rparr>"

lemma sample_built:
  "case BuildScenarioManifest sample_kernel (\<lambda>d. Inr ''c'') (\<lambda>p. 5) (\<lambda>s. sample_tape) (Some sample_config) [] sample_fs of
     (Inl _, fs) \<Rightarrow> False
   | (Inr m, fs) \<Rightarrow> length (sm_Entries m) = 7"
  by code_simp

theorem BuildScenarioManifest_describes_witness:
  "\<exists>m. BuildScenarioManifest sample_kernel (\<lambda>d. Inr ''c'') (\<lambda>p. 5) (\<lambda>s. sample_tape) (Some sample_config) [] sample_fs =
       (Inr m, sample_fs) \<and>
     length (sm_Entries m) = 7 \<and> manifest_wf m \<and> sources_first (sm_Entries m) \<and> mg_Seed (sm_Generator m) = 1 \<and>
     map (planned_of ''/b'') (sm_Entries m) = map (portable ''/b'') (entries (fst (fst (planRun Plan_Spec.sample_tree sample_tape))))"
proof -
  obtain m fs' where m: "BuildScenarioManifest sample_kernel (\<lambda>d. Inr ''c'') (\<lambda>p. 5) (\<lambda>s. sample_tape) (Some sample_config) []
      sample_fs = (Inr m, fs')"
    and seven: "length (sm_Entries m) = 7"
    using sample_built by (auto split: sum.splits prod.splits)
  have base: "basePath Plan_Spec.sample_tree = ''/b''" by (simp add: Plan_Spec.sample_tree_def New_def)
  have c: "Plan_Spec.sample_tree = cfg_generator sample_config" "cfg_seed sample_config = 1" "cfg_coverage sample_config = None"
    by (simp_all add: sample_config_def)
  show ?thesis
    using BuildScenarioManifest_describes [OF _ _ sample_base c(1) m] sample_names m seven c unfolding base
    by (auto split: prod.splits)
qed

end
