(* ===== verification/Diff.thy ===== *)
theory Diff
  imports Apply_Plan
begin

text \<open>
  The package \<^verbatim>\<open>diff\<close>: the comparison of two file trees. What the file system answers about one path is
  a record, a walk the list of these records in the order of \<^verbatim>\<open>filepath.Walk\<close>. The hash
  (\<^verbatim>\<open>highwayhash\<close>), the helpers of \<^verbatim>\<open>golang.org/x/sys/unix\<close> and \<^verbatim>\<open>cmp.Diff\<close> are parameters, bundled in one
  record. Where the code wraps two errors the first is kept.
\<close>

section \<open>Options\<close>

datatype TimestampPrecision =
    TimestampPrecisionSeconds
  | TimestampPrecisionNanoseconds
  | TimestampPrecisionUnknown nat

datatype InodeType =
    InodeTypeRegular | InodeTypeDirectory | InodeTypeSymlink | InodeTypeFIFO | InodeTypeSocket
  | InodeTypeCharDevice | InodeTypeBlockDevice | InodeTypeOther

record XAttr =
  xa_Name :: string
  xa_Value :: "8 word list"

record Node =
  nd_Path :: string
  nd_LinkTarget :: string
  nd_Size :: int
  nd_Mode :: "32 word"
  nd_ModTime :: int
  nd_Atime :: int
  nd_ModTimeNsec :: int
  nd_AtimeNsec :: int
  nd_Hash :: "8 word list"
  nd_UID :: "32 word"
  nd_GID :: "32 word"
  nd_HasOwnership :: bool
  nd_HasAccessTime :: bool
  nd_InodeType :: InodeType
  nd_DevID :: "64 word"
  nd_HasDevID :: bool
  nd_AllocatedBlocks :: int
  nd_HasAllocatedBlocks :: bool
  nd_SparseParity :: bool
  nd_DeviceMajor :: "32 word"
  nd_DeviceMinor :: "32 word"
  nd_HasDeviceNumbers :: bool
  nd_XAttrs :: "XAttr list"
  nd_HasXAttrs :: bool
  nd_ACLEntries :: "string list"
  nd_HasACL :: bool

record collectedPaths =
  cp_nodes :: "Node list"
  cp_hardlinkGroups :: "string list list"

type_synonym MetadataComparator = "string \<Rightarrow> Node \<Rightarrow> Node \<Rightarrow> err option"

record DiffOptions =
  CompareContentHash :: bool
  TimestampPrecisionOf :: TimestampPrecision
  CompareOwnership :: bool
  CompareAccessTime :: bool
  CompareHardlinkTopology :: bool
  CompareDeviceIDs :: bool
  CompareSparseness :: bool
  CompareXAttrs :: bool
  XAttrComparator :: "MetadataComparator option"
  CompareACLs :: bool
  ACLComparator :: "MetadataComparator option"

definition DiffDefaultOptions :: DiffOptions where
  "DiffDefaultOptions =
     \<lparr>CompareContentHash = True, TimestampPrecisionOf = TimestampPrecisionSeconds, CompareOwnership = False,
      CompareAccessTime = False, CompareHardlinkTopology = True, CompareDeviceIDs = False, CompareSparseness = False,
      CompareXAttrs = False, XAttrComparator = None, CompareACLs = False, ACLComparator = None\<rparr>"

definition StrictLinuxOptions :: DiffOptions where
  "StrictLinuxOptions = DiffDefaultOptions\<lparr>TimestampPrecisionOf := TimestampPrecisionNanoseconds,
     CompareOwnership := True, CompareAccessTime := True\<rparr>"

definition validate_options :: "DiffOptions \<Rightarrow> err + unit" where
  "validate_options opts =
     (if TimestampPrecisionOf opts \<noteq> TimestampPrecisionSeconds \<and> TimestampPrecisionOf opts \<noteq> TimestampPrecisionNanoseconds
      then Err ''invalid timestamp precision'' else Inr ())"

section \<open>What the system answers\<close>

text \<open>The fields of \<^verbatim>\<open>unix.Stat_t\<close> the code reads; times are seconds with nanoseconds.\<close>

record Stat_t =
  st_uid :: "32 word"
  st_gid :: "32 word"
  st_dev :: "64 word"
  st_ino :: "64 word"
  st_rdev :: "64 word"
  st_atim :: "int \<times> int"
  st_mtim :: "int \<times> int"
  st_size :: int
  st_blocks :: int

text \<open>
  One step of the walk: the path, the error the walk met, the mode, the size and the time (in nanoseconds) of its
  \<^verbatim>\<open>FileInfo\<close>; then the answers to \<^verbatim>\<open>Lstat\<close> for the metadata and for the identity, \<^verbatim>\<open>Readlink\<close>, opening and reading
  the file, closing it, \<^verbatim>\<open>Llistxattr\<close> without and with a buffer, and \<^verbatim>\<open>Lgetxattr\<close> of a name likewise.
\<close>

record visit =
  dv_path :: string
  dv_err :: "err option"
  dv_mode :: "32 word"
  dv_size :: int
  dv_mtime :: int
  dv_lstat :: "err + Stat_t"
  dv_identity :: "err + Stat_t"
  dv_readlink :: "err + string"
  dv_read :: "err + 8 word list"
  dv_close :: "err option"
  dv_list_size :: "err + int"
  dv_list :: "err + string"
  dv_get_size :: "string \<Rightarrow> err + int"
  dv_get :: "string \<Rightarrow> err + 8 word list"

record projectedNode =
  pn_Path :: string
  pn_LinkTarget :: string
  pn_Size :: int
  pn_Mode :: "32 word"
  pn_InodeType :: InodeType
  pn_ModTime :: int
  pn_Atime :: int
  pn_Hash :: "8 word list"
  pn_UID :: "32 word"
  pn_GID :: "32 word"
  pn_DeviceMajor :: "32 word"
  pn_DeviceMinor :: "32 word"
  pn_DevID :: "64 word"
  pn_SparseParity :: bool

text \<open>The libraries; \<^verbatim>\<open>cmp.Diff\<close> at the four types it is called with, returning the report.\<close>

record diffLib =
  newHash :: "8 word list \<Rightarrow> err + (8 word list \<Rightarrow> 8 word list)"
  timespecToNsec :: "int \<times> int \<Rightarrow> int"
  devMajor :: "64 word \<Rightarrow> 32 word"
  devMinor :: "64 word \<Rightarrow> 32 word"
  cmpNodes :: "projectedNode list \<Rightarrow> projectedNode list \<Rightarrow> string"
  cmpGroups :: "string list list \<Rightarrow> string list list \<Rightarrow> string"
  cmpXAttrs :: "XAttr list \<Rightarrow> XAttr list \<Rightarrow> string"
  cmpACL :: "string list \<Rightarrow> string list \<Rightarrow> string"

section \<open>Collecting a tree\<close>

text \<open>The type bits of \<^verbatim>\<open>fs.FileMode\<close>.\<close>

definition ModeDir :: "32 word" where "ModeDir = 0x80000000"
definition ModeSymlink :: "32 word" where "ModeSymlink = 0x08000000"
definition ModeDevice :: "32 word" where "ModeDevice = 0x04000000"
definition ModeNamedPipe :: "32 word" where "ModeNamedPipe = 0x02000000"
definition ModeSocket :: "32 word" where "ModeSocket = 0x01000000"
definition ModeCharDevice :: "32 word" where "ModeCharDevice = 0x00200000"
definition ModeIrregular :: "32 word" where "ModeIrregular = 0x00080000"

definition mode_IsRegular :: "32 word \<Rightarrow> bool" where
  "mode_IsRegular mode \<longleftrightarrow>
     mode AND (ModeDir OR ModeSymlink OR ModeNamedPipe OR ModeSocket OR ModeDevice OR ModeCharDevice OR ModeIrregular) = 0"

definition mode_IsDir :: "32 word \<Rightarrow> bool" where
  "mode_IsDir mode \<longleftrightarrow> mode AND ModeDir \<noteq> 0"

definition inodeTypeFromFileMode :: "32 word \<Rightarrow> InodeType" where
  "inodeTypeFromFileMode mode =
     (if mode_IsRegular mode then InodeTypeRegular
      else if mode_IsDir mode then InodeTypeDirectory
      else if mode AND ModeSymlink \<noteq> 0 then InodeTypeSymlink
      else if mode AND ModeNamedPipe \<noteq> 0 then InodeTypeFIFO
      else if mode AND ModeSocket \<noteq> 0 then InodeTypeSocket
      else if mode AND ModeDevice \<noteq> 0 \<and> mode AND ModeCharDevice \<noteq> 0 then InodeTypeCharDevice
      else if mode AND ModeDevice \<noteq> 0 then InodeTypeBlockDevice
      else InodeTypeOther)"

definition canonicalNodePath :: "string \<Rightarrow> string \<Rightarrow> err + string" where
  "canonicalNodePath base path =
     bindE (wrapE ''failed to determine relative path'' (Rel base path)) (\<lambda>relPath.
     if relPath = dot then Inr [] else Inr (''/'' @ relPath))"

definition hashKey :: "8 word list" where
  "hashKey = [0x00, 0x01, 0x02, 0x03, 0x04, 0x05, 0x06, 0x07, 0x08, 0x09, 0x0a, 0x0b, 0x0c, 0x0d, 0x0e, 0x0f,
     0xf0, 0xe0, 0xd0, 0xc0, 0xb0, 0xa0, 0x90, 0x80, 0x70, 0x60, 0x50, 0x40, 0x30, 0x20, 0x10, 0x00]"

text \<open>Opening and reading fail with the error as it is; a failure to close counts only if nothing failed before.\<close>

definition hashFile :: "diffLib \<Rightarrow> visit \<Rightarrow> err + 8 word list" where
  "hashFile lib v =
     bindE (newHash lib hashKey) (\<lambda>hash.
     bindE (dv_read v) (\<lambda>content.
     case dv_close v of Some e \<Rightarrow> Inl e | None \<Rightarrow> Inr (hash content)))"

definition not_supported :: "err \<Rightarrow> bool" where
  "not_supported e \<longleftrightarrow> errors_Is e ENOTSUP \<or> errors_Is e EINVAL"

definition listXAttrNames :: "visit \<Rightarrow> err + string list" where
  "listXAttrNames v =
     (case dv_list_size v of
        Inl e \<Rightarrow> if not_supported e then FailW '''' ErrXAttrCollectionUnsupported
                 else Inl (Errorf ''failed to list xattrs'' (Some e))
      | Inr len \<Rightarrow>
          if len = 0 then Inr []
          else bindE (wrapE ''failed to list xattrs'' (dv_list v)) (\<lambda>buf.
            if buf = [] then Inr []
            else Inr (sort_strings (filter (\<lambda>part. part \<noteq> []) (Split NUL buf)))))"

definition getXAttr :: "visit \<Rightarrow> string \<Rightarrow> err + 8 word list" where
  "getXAttr v name =
     bindE (wrapE ''failed to read xattr'' (dv_get_size v name)) (\<lambda>len.
     if len = 0 then Inr []
     else wrapE ''failed to read xattr'' (dv_get v name))"

definition collectXAttrs :: "visit \<Rightarrow> err + XAttr list" where
  "collectXAttrs v =
     bindE (listXAttrNames v) (\<lambda>names.
     mapE_from 0 (\<lambda>_ name. bindE (getXAttr v name) (\<lambda>value. Inr \<lparr>xa_Name = name, xa_Value = value\<rparr>)) names)"

definition readACLXAttr :: "endian \<Rightarrow> visit \<Rightarrow> string \<Rightarrow> err + Entry list" where
  "readACLXAttr en v name =
     (case getXAttr v name of
        Inl e \<Rightarrow> if errors_Is e ENODATA then Inr []
                 else if not_supported e then FailW '''' ErrACLCollectionUnsupported
                 else Inl (Errorf ''failed to collect ACL xattr'' (Some e))
      | Inr data \<Rightarrow> wrapE ''failed to parse ACL xattr'' (Parse en data))"

definition collectACLEntries :: "endian \<Rightarrow> visit \<Rightarrow> err + string list" where
  "collectACLEntries en v =
     bindE (readACLXAttr en v XAttrAccess) (\<lambda>access.
     bindE (readACLXAttr en v XAttrDefault) (\<lambda>defaults.
     Inr (sort_strings (FormatTextEntries access defaults))))"

text \<open>What the collection on Linux takes from \<^verbatim>\<open>Lstat\<close>.\<close>

definition stat_node :: "diffLib \<Rightarrow> Stat_t \<Rightarrow> Node \<Rightarrow> Node" where
  "stat_node lib stat nd =
     (let nd = nd\<lparr>nd_UID := st_uid stat, nd_GID := st_gid stat, nd_HasOwnership := True,
           nd_DevID := st_dev stat, nd_HasDevID := True, nd_Atime := fst (st_atim stat),
           nd_AtimeNsec := timespecToNsec lib (st_atim stat), nd_HasAccessTime := True,
           nd_ModTimeNsec := timespecToNsec lib (st_mtim stat)\<rparr>;
         nd = (if nd_InodeType nd = InodeTypeRegular
           then let nd = nd\<lparr>nd_AllocatedBlocks := st_blocks stat, nd_HasAllocatedBlocks := True\<rparr> in
             if st_size stat > 0 then nd\<lparr>nd_SparseParity := wrap64 (st_blocks stat * 512) < st_size stat\<rparr> else nd
           else nd)
     in if nd_InodeType nd = InodeTypeCharDevice \<or> nd_InodeType nd = InodeTypeBlockDevice
        then nd\<lparr>nd_DeviceMajor := devMajor lib (st_rdev stat), nd_DeviceMinor := devMinor lib (st_rdev stat),
          nd_HasDeviceNumbers := True\<rparr>
        else nd)"

text \<open>The collection on Linux, and the one of all other systems.\<close>

definition collectPlatformMetadata :: "endian \<Rightarrow> diffLib \<Rightarrow> visit \<Rightarrow> DiffOptions \<Rightarrow> Node \<Rightarrow> err + Node" where
  "collectPlatformMetadata en lib v opts nd =
     bindE (wrapE ''failed to stat path'' (dv_lstat v)) (\<lambda>stat.
     let nd = stat_node lib stat nd in
     bindE (if CompareXAttrs opts
            then bindE (collectXAttrs v) (\<lambda>xs. Inr (nd\<lparr>nd_XAttrs := xs, nd_HasXAttrs := True\<rparr>))
            else Inr nd) (\<lambda>nd.
     if CompareACLs opts
     then bindE (collectACLEntries en v) (\<lambda>acl. Inr (nd\<lparr>nd_ACLEntries := acl, nd_HasACL := True\<rparr>))
     else Inr nd))"

definition collectPlatformMetadata_other :: "visit \<Rightarrow> DiffOptions \<Rightarrow> Node \<Rightarrow> err + Node" where
  "collectPlatformMetadata_other v opts nd =
     (if CompareSparseness opts then FailW '''' ErrSparsenessCollectionUnsupported
      else if CompareXAttrs opts then FailW '''' ErrXAttrCollectionUnsupported
      else if CompareACLs opts then FailW '''' ErrACLCollectionUnsupported
      else Inr (nd\<lparr>nd_HasXAttrs := False, nd_HasACL := False, nd_HasAllocatedBlocks := False, nd_HasDevID := False\<rparr>))"

text \<open>The node as the literal of the callback sets it up.\<close>

definition node_of_info :: "visit \<Rightarrow> string \<Rightarrow> Node" where
  "node_of_info v path =
     \<lparr>nd_Path = path, nd_LinkTarget = [], nd_Size = 0, nd_Mode = dv_mode v, nd_ModTime = dv_mtime v div 1000000000,
      nd_Atime = 0, nd_ModTimeNsec = wrap64 (dv_mtime v), nd_AtimeNsec = 0, nd_Hash = [], nd_UID = 0, nd_GID = 0,
      nd_HasOwnership = False, nd_HasAccessTime = False, nd_InodeType = inodeTypeFromFileMode (dv_mode v), nd_DevID = 0,
      nd_HasDevID = False, nd_AllocatedBlocks = 0, nd_HasAllocatedBlocks = False, nd_SparseParity = False,
      nd_DeviceMajor = 0, nd_DeviceMinor = 0, nd_HasDeviceNumbers = False, nd_XAttrs = [], nd_HasXAttrs = False,
      nd_ACLEntries = [], nd_HasACL = False\<rparr>"

type_synonym fileIdentity = "64 word \<times> 64 word"

definition fileIdentityFromPath :: "visit \<Rightarrow> fileIdentity option" where
  "fileIdentityFromPath v = (case dv_identity v of Inl _ \<Rightarrow> None | Inr stat \<Rightarrow> Some (st_dev stat, st_ino stat))"

text \<open>The map from identities to paths, in the order the identities were met.\<close>

fun add_path :: "fileIdentity \<Rightarrow> string \<Rightarrow> (fileIdentity \<times> string list) list \<Rightarrow> (fileIdentity \<times> string list) list" where
  "add_path key p [] = [(key, [p])]"
| "add_path key p ((key', ps) # m) = (if key' = key then (key', ps @ [p]) # m else (key', ps) # add_path key p m)"

text \<open>The callback of the walk on the nodes and identities collected so far; \<open>platform\<close> is the collection of the system.\<close>

definition collect_visit ::
  "diffLib \<Rightarrow> (visit \<Rightarrow> DiffOptions \<Rightarrow> Node \<Rightarrow> err + Node) \<Rightarrow> string \<Rightarrow> DiffOptions \<Rightarrow> visit
     \<Rightarrow> Node list \<times> (fileIdentity \<times> string list) list \<Rightarrow> err + Node list \<times> (fileIdentity \<times> string list) list" where
  "collect_visit lib platform base opts v st =
     (case dv_err v of
        Some e \<Rightarrow> Inl (Errorf ''failed to access path'' (Some e))
      | None \<Rightarrow>
          bindE (canonicalNodePath base (dv_path v)) (\<lambda>path.
          if path = [] then Inr st
          else bindE (platform v opts (node_of_info v path)) (\<lambda>node.
          bindE (if dv_mode v AND ModeSymlink \<noteq> 0
                 then bindE (wrapE ''failed to read symlink target'' (dv_readlink v)) (\<lambda>target.
                   Inr (node\<lparr>nd_LinkTarget := target\<rparr>))
                 else Inr node) (\<lambda>node.
          if mode_IsRegular (dv_mode v)
          then let node = node\<lparr>nd_Size := dv_size v\<rparr> in
            bindE (if CompareContentHash opts
                   then bindE (hashFile lib v) (\<lambda>sum. Inr (node\<lparr>nd_Hash := sum\<rparr>)) else Inr node) (\<lambda>node.
            Inr (fst st @ [node],
                 if CompareHardlinkTopology opts
                 then (case fileIdentityFromPath v of None \<Rightarrow> snd st | Some key \<Rightarrow> add_path key (nd_Path node) (snd st))
                 else snd st))
          else Inr (fst st @ [node], snd st)))))"

fun collect_visits ::
  "diffLib \<Rightarrow> (visit \<Rightarrow> DiffOptions \<Rightarrow> Node \<Rightarrow> err + Node) \<Rightarrow> string \<Rightarrow> DiffOptions \<Rightarrow> visit list
     \<Rightarrow> Node list \<times> (fileIdentity \<times> string list) list \<Rightarrow> err + Node list \<times> (fileIdentity \<times> string list) list" where
  "collect_visits lib platform base opts [] st = Inr st"
| "collect_visits lib platform base opts (v # vs) st =
     bindE (collect_visit lib platform base opts v st) (\<lambda>st'. collect_visits lib platform base opts vs st')"

text \<open>Groups have two paths or more, so the comparison of the sort never sees an empty one.\<close>

definition buildHardlinkGroups :: "(fileIdentity \<times> string list) list \<Rightarrow> string list list" where
  "buildHardlinkGroups pathsByIdentity =
     sort_key hd (map sort_strings (filter (\<lambda>paths. \<not> length paths < 2) (map snd pathsByIdentity)))"

definition collectPaths ::
  "diffLib \<Rightarrow> (visit \<Rightarrow> DiffOptions \<Rightarrow> Node \<Rightarrow> err + Node) \<Rightarrow> string \<Rightarrow> visit list \<Rightarrow> DiffOptions \<Rightarrow> err + collectedPaths" where
  "collectPaths lib platform base visits opts =
     bindE (collect_visits lib platform base opts visits ([], [])) (\<lambda>(ns, byIdentity).
     Inr \<lparr>cp_nodes = sort_key nd_Path ns,
          cp_hardlinkGroups = (if CompareHardlinkTopology opts then buildHardlinkGroups byIdentity else [])\<rparr>)"

section \<open>Comparing two trees\<close>

definition ensureOwnershipMetadata :: "Node list \<Rightarrow> Node list \<Rightarrow> DiffOptions \<Rightarrow> err + unit" where
  "ensureOwnershipMetadata nodesA nodesB opts =
     (if \<not> CompareOwnership opts then Inr ()
      else if \<not> list_all nd_HasOwnership nodesA then Err ''ownership metadata unavailable for left path''
      else if \<not> list_all nd_HasOwnership nodesB then Err ''ownership metadata unavailable for right path''
      else Inr ())"

definition ensureAccessTimeMetadata :: "Node list \<Rightarrow> Node list \<Rightarrow> DiffOptions \<Rightarrow> err + unit" where
  "ensureAccessTimeMetadata nodesA nodesB opts =
     (if \<not> CompareAccessTime opts then Inr ()
      else if \<not> list_all nd_HasAccessTime nodesA then Err ''access-time metadata unavailable for left path''
      else if \<not> list_all nd_HasAccessTime nodesB then Err ''access-time metadata unavailable for right path''
      else Inr ())"

definition blocks_known :: "Node \<Rightarrow> bool" where
  "blocks_known nd \<longleftrightarrow> nd_InodeType nd \<noteq> InodeTypeRegular \<or> nd_HasAllocatedBlocks nd"

definition ensureSparsenessMetadata :: "Node list \<Rightarrow> Node list \<Rightarrow> DiffOptions \<Rightarrow> err + unit" where
  "ensureSparsenessMetadata nodesA nodesB opts =
     (if \<not> CompareSparseness opts then Inr ()
      else if \<not> list_all blocks_known nodesA then FailW ''left path'' ErrSparsenessMetadataUnavailable
      else if \<not> list_all blocks_known nodesB then FailW ''right path'' ErrSparsenessMetadataUnavailable
      else Inr ())"

definition ensureDeviceIDMetadata :: "Node list \<Rightarrow> Node list \<Rightarrow> DiffOptions \<Rightarrow> err + unit" where
  "ensureDeviceIDMetadata nodesA nodesB opts =
     (if \<not> CompareDeviceIDs opts then Inr ()
      else if \<not> list_all nd_HasDevID nodesA then FailW ''left path'' ErrDeviceIDMetadataUnavailable
      else if \<not> list_all nd_HasDevID nodesB then FailW ''right path'' ErrDeviceIDMetadataUnavailable
      else Inr ())"

definition ensureXAttrMetadata :: "Node list \<Rightarrow> Node list \<Rightarrow> DiffOptions \<Rightarrow> err + unit" where
  "ensureXAttrMetadata nodesA nodesB opts =
     (if \<not> CompareXAttrs opts then Inr ()
      else if \<not> list_all nd_HasXAttrs nodesA then FailW ''left path'' ErrXAttrMetadataUnavailable
      else if \<not> list_all nd_HasXAttrs nodesB then FailW ''right path'' ErrXAttrMetadataUnavailable
      else Inr ())"

definition ensureACLMetadata :: "Node list \<Rightarrow> Node list \<Rightarrow> DiffOptions \<Rightarrow> err + unit" where
  "ensureACLMetadata nodesA nodesB opts =
     (if \<not> CompareACLs opts then Inr ()
      else if \<not> list_all nd_HasACL nodesA then FailW ''left path'' ErrACLMetadataUnavailable
      else if \<not> list_all nd_HasACL nodesB then FailW ''right path'' ErrACLMetadataUnavailable
      else Inr ())"

definition project_node :: "DiffOptions \<Rightarrow> Node \<Rightarrow> projectedNode" where
  "project_node opts nd =
     (let p = \<lparr>pn_Path = nd_Path nd, pn_LinkTarget = nd_LinkTarget nd, pn_Size = nd_Size nd, pn_Mode = nd_Mode nd,
           pn_InodeType = nd_InodeType nd, pn_ModTime = nd_ModTime nd, pn_Atime = nd_Atime nd, pn_Hash = [],
           pn_UID = 0, pn_GID = 0, pn_DeviceMajor = 0, pn_DeviceMinor = 0, pn_DevID = 0, pn_SparseParity = False\<rparr>;
         p = (if TimestampPrecisionOf opts = TimestampPrecisionNanoseconds
           then p\<lparr>pn_ModTime := nd_ModTimeNsec nd, pn_Atime := nd_AtimeNsec nd\<rparr> else p);
         p = (if CompareContentHash opts then p\<lparr>pn_Hash := nd_Hash nd\<rparr> else p);
         p = (if CompareOwnership opts then p\<lparr>pn_UID := nd_UID nd, pn_GID := nd_GID nd\<rparr> else p);
         p = (if nd_InodeType nd = InodeTypeCharDevice \<or> nd_InodeType nd = InodeTypeBlockDevice
           then p\<lparr>pn_DeviceMajor := nd_DeviceMajor nd, pn_DeviceMinor := nd_DeviceMinor nd\<rparr> else p);
         p = (if CompareSparseness opts \<and> nd_InodeType nd = InodeTypeRegular
           then p\<lparr>pn_SparseParity := nd_SparseParity nd\<rparr> else p);
         p = (if CompareDeviceIDs opts then p\<lparr>pn_DevID := nd_DevID nd\<rparr> else p)
     in if \<not> CompareAccessTime opts then p\<lparr>pn_Atime := 0\<rparr> else p)"

definition projectNodes :: "Node list \<Rightarrow> DiffOptions \<Rightarrow> projectedNode list" where
  "projectNodes ns opts = map (project_node opts) ns"

text \<open>A hook of the caller: an error it returns is wrapped.\<close>

definition run_comparator :: "string \<Rightarrow> MetadataComparator option \<Rightarrow> Node \<Rightarrow> Node \<Rightarrow> err + unit" where
  "run_comparator what hook a b =
     (case hook of None \<Rightarrow> Inr ()
      | Some compare \<Rightarrow> (case compare (nd_Path a) a b of None \<Rightarrow> Inr () | Some e \<Rightarrow> Inl (Errorf what (Some e))))"

text \<open>The loop over the indices of the left nodes; it indexes the right ones, which panics past their end.\<close>

fun hooks_loop :: "diffLib \<Rightarrow> DiffOptions \<Rightarrow> Node list \<Rightarrow> Node list \<Rightarrow> err + unit" where
  "hooks_loop lib opts [] bs = Inr ()"
| "hooks_loop lib opts (a # as) [] = Inl (Panic ''index out of range'')"
| "hooks_loop lib opts (a # as) (b # bs) =
     bindE (if CompareXAttrs opts
            then if cmpXAttrs lib (nd_XAttrs a) (nd_XAttrs b) \<noteq> [] then Err ''xattr mismatch''
              else run_comparator ''xattr mismatch'' (XAttrComparator opts) a b
            else Inr ()) (\<lambda>_.
     bindE (if CompareACLs opts
            then if cmpACL lib (nd_ACLEntries a) (nd_ACLEntries b) \<noteq> [] then Err ''ACL mismatch''
              else run_comparator ''ACL mismatch'' (ACLComparator opts) a b
            else Inr ()) (\<lambda>_.
     hooks_loop lib opts as bs))"

definition runMetadataHooks :: "diffLib \<Rightarrow> Node list \<Rightarrow> Node list \<Rightarrow> DiffOptions \<Rightarrow> err + unit" where
  "runMetadataHooks lib nodesA nodesB opts =
     (if \<not> CompareXAttrs opts \<and> \<not> CompareACLs opts then Inr () else hooks_loop lib opts nodesA nodesB)"

definition PathsWithOptions ::
  "diffLib \<Rightarrow> (visit \<Rightarrow> DiffOptions \<Rightarrow> Node \<Rightarrow> err + Node) \<Rightarrow> string \<Rightarrow> visit list \<Rightarrow> string \<Rightarrow> visit list \<Rightarrow> DiffOptions
     \<Rightarrow> err + unit" where
  "PathsWithOptions lib platform a visitsA b visitsB opts =
     bindE (wrapE ''invalid diff options'' (validate_options opts)) (\<lambda>_.
     bindE (collectPaths lib platform a visitsA opts) (\<lambda>pathsA.
     bindE (collectPaths lib platform b visitsB opts) (\<lambda>pathsB.
     let nodesA = cp_nodes pathsA; nodesB = cp_nodes pathsB in
     bindE (ensureOwnershipMetadata nodesA nodesB opts) (\<lambda>_.
     bindE (ensureAccessTimeMetadata nodesA nodesB opts) (\<lambda>_.
     bindE (ensureSparsenessMetadata nodesA nodesB opts) (\<lambda>_.
     bindE (ensureDeviceIDMetadata nodesA nodesB opts) (\<lambda>_.
     bindE (ensureXAttrMetadata nodesA nodesB opts) (\<lambda>_.
     bindE (ensureACLMetadata nodesA nodesB opts) (\<lambda>_.
     if cmpNodes lib (projectNodes nodesA opts) (projectNodes nodesB opts) \<noteq> [] then Err ''mismatch''
     else if CompareHardlinkTopology opts \<and> cmpGroups lib (cp_hardlinkGroups pathsA) (cp_hardlinkGroups pathsB) \<noteq> []
     then Err ''hardlink topology mismatch''
     else runMetadataHooks lib nodesA nodesB opts)))))))))"

definition Paths :: "diffLib \<Rightarrow> (visit \<Rightarrow> DiffOptions \<Rightarrow> Node \<Rightarrow> err + Node) \<Rightarrow> string \<Rightarrow> visit list \<Rightarrow> string \<Rightarrow> visit list \<Rightarrow> err + unit" where
  "Paths lib platform a visitsA b visitsB = PathsWithOptions lib platform a visitsA b visitsB DiffDefaultOptions"

end
