(* ===== verification/Diff_Spec.thy ===== *)
theory Diff_Spec
  imports Diff Mutation_Plan
begin

text \<open>
  What the comparison of two trees means. The abstract side knows no lists and no order: a tree maps the
  paths below its base to what the system answered there. Two trees agree if they have the same paths, if
  the entries at each path agree in what the options name, and if the same paths are linked.
\<close>

section \<open>Sorted lists\<close>

lemma sorted_projection:
  fixes p :: "'c \<Rightarrow> 'k::linorder"
  assumes "distinct (map f xs)" "distinct (map f' ys)" "\<And>x. p (g x) = f x" "\<And>y. p (g' y) = f' y"
  shows "map g (sort_key f xs) = map g' (sort_key f' ys) \<longleftrightarrow>
    f ` set xs = f' ` set ys \<and> (\<forall>x \<in> set xs. \<forall>y \<in> set ys. f x = f' y \<longrightarrow> g x = g' y)" (is "?l \<longleftrightarrow> ?r")
proof
  let ?xs = "sort_key f xs" and ?ys = "sort_key f' ys"
  have d: "distinct (map f ?xs)" using assms(1) by (simp add: distinct_map)
  assume l: ?l
  then have len: "length ?xs = length ?ys" by (metis length_map)
  have "map p (map g ?xs) = map p (map g' ?ys)" using l by simp
  moreover have "p \<circ> g = f" "p \<circ> g' = f'" by (simp_all add: fun_eq_iff assms(3,4))
  ultimately have keys: "map f ?xs = map f' ?ys" by simp
  then have "set (map f ?xs) = set (map f' ?ys)" by simp
  then have dom: "f ` set xs = f' ` set ys" by simp
  moreover have "g x = g' y" if x: "x \<in> set xs" and y: "y \<in> set ys" and k: "f x = f' y" for x y
  proof -
    obtain i j where i: "i < length ?xs" "?xs ! i = x" and j: "j < length ?ys" "?ys ! j = y"
      using x y by (metis in_set_conv_nth set_sort)
    have "map f ?xs ! i = map f ?xs ! j" using i j k keys len by (metis nth_map)
    then have "i = j" using d i j len nth_eq_iff_index_eq [of "map f ?xs" i j] by simp
    then show ?thesis using l i j by (metis nth_map)
  qed
  ultimately show ?r by blast
next
  let ?xs = "sort_key f xs" and ?ys = "sort_key f' ys"
  assume r: ?r
  have s: "sorted (map f ?xs)" "sorted (map f' ?ys)" "distinct (map f ?xs)" "distinct (map f' ?ys)"
    using assms(1,2) by (simp_all add: distinct_map)
  have keys: "map f ?xs = map f' ?ys"
    by (rule sorted_distinct_set_unique) (use s r in auto)
  then have len: "length ?xs = length ?ys" by (metis length_map)
  show ?l
  proof (rule nth_equalityI)
    fix i assume i: "i < length (map g ?xs)"
    then have "f (?xs ! i) = f' (?ys ! i)" using keys len by (metis length_map nth_map)
    moreover have "?xs ! i \<in> set xs" "?ys ! i \<in> set ys" using i len by (metis length_map nth_mem set_sort)+
    ultimately show "map g ?xs ! i = map g' ?ys ! i" using r i len by simp
  qed (use len in simp)
qed

lemma sort_key_set_eq:
  fixes f :: "'a \<Rightarrow> 'k::linorder"
  assumes "distinct xs" "distinct ys" "inj_on f (set xs)" "inj_on f (set ys)"
  shows "sort_key f xs = sort_key f ys \<longleftrightarrow> set xs = set ys"
proof
  assume "set xs = set ys"
  then have "mset xs = mset ys" using assms(1,2) by (simp add: set_eq_iff_mset_eq_distinct)
  then show "sort_key f xs = sort_key f ys"
    by (intro sort_key_inj_key_eq) (simp_all add: assms(3))
qed (metis set_sort)

section \<open>Groups of hard links\<close>

text \<open>The registrations of the walk: each path with the identity of its file.\<close>

definition linked :: "(string \<times> fileIdentity) list \<Rightarrow> string \<Rightarrow> string \<Rightarrow> bool" where
  "linked regs p q \<longleftrightarrow> (\<exists>key. (p, key) \<in> set regs \<and> (q, key) \<in> set regs)"

definition by_identity :: "(string \<times> fileIdentity) list \<Rightarrow> (fileIdentity \<times> string list) list" where
  "by_identity regs = fold (\<lambda>(p, key). add_path key p) regs []"

definition paths_of :: "(string \<times> fileIdentity) list \<Rightarrow> fileIdentity \<Rightarrow> string list" where
  "paths_of regs key = map fst (filter (\<lambda>r. snd r = key) regs)"

lemma add_path_keys: "set (map fst (add_path key p m)) = insert key (set (map fst m))"
  by (induction key p m rule: add_path.induct) auto

lemma add_path_distinct: "distinct (map fst m) \<Longrightarrow> distinct (map fst (add_path key p m))"
proof (induction key p m rule: add_path.induct)
  case (2 key p key' ps m)
  then show ?case using add_path_keys [of key p m] by auto
qed simp

lemma add_path_lookup:
  "map_of (add_path key p m) k =
     (if k = key then Some (case map_of m key of None \<Rightarrow> [p] | Some ps \<Rightarrow> ps @ [p]) else map_of m k)"
  by (induction key p m rule: add_path.induct) auto

lemma by_identity_snoc: "by_identity (regs @ [(p, key)]) = add_path key p (by_identity regs)"
  by (simp add: by_identity_def)

lemma by_identity_spec:
  "distinct (map fst (by_identity regs)) \<and>
   map_of (by_identity regs) key = (if paths_of regs key = [] then None else Some (paths_of regs key))"
proof (induction regs rule: rev_induct)
  case (snoc r regs)
  obtain p k where r: "r = (p, k)" by (metis prod.exhaust)
  have "distinct (map fst (by_identity regs))" using snoc by blast
  then show ?case
    using snoc add_path_distinct [of "by_identity regs" k p]
    by (auto simp: r by_identity_snoc add_path_lookup paths_of_def)
qed (simp add: by_identity_def paths_of_def)

lemma by_identity_members:
  "(key, ps) \<in> set (by_identity regs) \<longleftrightarrow> ps = paths_of regs key \<and> ps \<noteq> []"
proof -
  have "(key, ps) \<in> set (by_identity regs) \<longleftrightarrow> map_of (by_identity regs) key = Some ps"
    using by_identity_spec [of regs key] by (meson map_of_eq_Some_iff)
  also have "\<dots> \<longleftrightarrow> ps = paths_of regs key \<and> ps \<noteq> []" using by_identity_spec [of regs key] by auto
  finally show ?thesis .
qed

lemma set_paths_of: "p \<in> set (paths_of regs key) \<longleftrightarrow> (p, key) \<in> set regs"
  by (force simp: paths_of_def)

lemma distinct_paths_of: "distinct (map fst regs) \<Longrightarrow> distinct (paths_of regs key)"
  by (induction regs) (auto simp: paths_of_def)

text \<open>The groups before they are sorted: the classes with two paths or more.\<close>

definition unsorted_groups :: "(fileIdentity \<times> string list) list \<Rightarrow> string list list" where
  "unsorted_groups m = map sort_strings (filter (\<lambda>ps. \<not> length ps < 2) (map snd m))"

lemma unsorted_groups_set:
  "set (unsorted_groups (by_identity regs)) =
     {g. \<exists>key. g = sort_strings (paths_of regs key) \<and> 2 \<le> length (paths_of regs key)}"
proof -
  have "g \<in> set (unsorted_groups (by_identity regs)) \<longleftrightarrow>
      (\<exists>key ps. (key, ps) \<in> set (by_identity regs) \<and> g = sort_strings ps \<and> 2 \<le> length ps)" for g
    by (force simp: unsorted_groups_def not_less)
  then show ?thesis unfolding by_identity_members by fastforce
qed

lemma one_class:
  assumes "distinct (map fst regs)" "(p, k) \<in> set regs" "(p, k') \<in> set regs"
  shows "k = k'"
  using assms by (metis map_of_is_SomeI option.inject)

lemma groups_share:
  assumes "distinct (map fst regs)" "g \<in> set (unsorted_groups (by_identity regs))"
    "h \<in> set (unsorted_groups (by_identity regs))" "p \<in> set g" "p \<in> set h"
  shows "g = h"
proof -
  obtain k k' where g: "g = sort_strings (paths_of regs k)" and h: "h = sort_strings (paths_of regs k')"
    using assms(2,3) unfolding unsorted_groups_set by blast
  then have "(p, k) \<in> set regs" "(p, k') \<in> set regs" using assms(4,5) by (simp_all add: set_paths_of)
  then show "g = h" using one_class [OF assms(1)] g h by blast
qed

lemma groups_distinct:
  assumes "distinct (map fst regs)"
  shows "distinct (unsorted_groups (by_identity regs))"
proof -
  have d: "distinct (map fst (by_identity regs))" using by_identity_spec by blast
  have inj: "inj_on (\<lambda>b. sort_strings (snd b)) (set (by_identity regs))"
  proof (rule inj_onI)
    fix x y assume x: "x \<in> set (by_identity regs)" and y: "y \<in> set (by_identity regs)"
      and eq: "sort_strings (snd x) = sort_strings (snd y)"
    obtain kx px ky py where xy: "x = (kx, px)" "y = (ky, py)" by fastforce
    have px: "px = paths_of regs kx" "px \<noteq> []" and py: "py = paths_of regs ky"
      using x y unfolding xy by_identity_members by auto
    obtain p where p: "p \<in> set px" using px(2) by (meson list.set_sel(1))
    have "set px = set py" using eq unfolding xy by (metis set_sort_strings snd_conv)
    then have "kx = ky" using p one_class [OF assms] unfolding px(1) py by (metis set_paths_of)
    then show "x = y" by (simp add: xy px(1) py)
  qed
  then have "distinct (map (\<lambda>b. sort_strings (snd b)) (by_identity regs))"
    using d by (simp add: distinct_map)
  then show ?thesis
    by (simp add: unsorted_groups_def distinct_map filter_map comp_def inj_on_def)
qed

lemma groups_nonempty: "g \<in> set (unsorted_groups m) \<Longrightarrow> g \<noteq> []"
  by (auto simp: unsorted_groups_def sort_strings_def dest: arg_cong [of _ "[]" length])

lemma groups_heads:
  assumes "distinct (map fst regs)"
  shows "inj_on hd (set (unsorted_groups (by_identity regs)))"
  by (rule inj_onI) (metis assms groups_share groups_nonempty list.set_sel(1))

text \<open>A group is determined by any of its paths and by what that is linked with.\<close>

lemma group_of_links:
  assumes "distinct (map fst regs)"
  shows "set (unsorted_groups (by_identity regs)) =
    {g. \<exists>p q. p \<noteq> q \<and> linked regs p q \<and> g = sorted_list_of_set (insert p {r. linked regs p r})}"
proof (intro set_eqI iffI)
  have cls: "set (paths_of regs key) = insert p {r. linked regs p r}" if "(p, key) \<in> set regs" for p key
  proof (rule set_eqI)
    fix x
    have one: "(p, k) \<in> set regs \<longleftrightarrow> k = key" for k using one_class [OF assms that] that by metis
    have "linked regs p x \<longleftrightarrow> (x, key) \<in> set regs" unfolding linked_def one by simp
    then show "x \<in> set (paths_of regs key) \<longleftrightarrow> x \<in> insert p {r. linked regs p r}" using that by (simp add: set_paths_of) metis
  qed
  have srt: "sort_strings (paths_of regs key) = sorted_list_of_set (set (paths_of regs key))" for key
    using distinct_paths_of [OF assms] by (simp add: sort_strings_def sorted_list_of_set_sort_remdups distinct_remdups_id)
  {
    fix g assume "g \<in> set (unsorted_groups (by_identity regs))"
    then obtain key where g: "g = sort_strings (paths_of regs key)" "2 \<le> length (paths_of regs key)"
      unfolding unsorted_groups_set by blast
    have "2 \<le> card (set (paths_of regs key))" using g(2) distinct_card [OF distinct_paths_of [OF assms]] by metis
    then obtain p q where pq: "p \<in> set (paths_of regs key)" "q \<in> set (paths_of regs key)" "p \<noteq> q"
      by (metis List.finite_set card_le_Suc0_iff_eq not_less_eq_eq numeral_2_eq_2)
    then have "linked regs p q" "(p, key) \<in> set regs" unfolding linked_def set_paths_of by blast+
    then show "g \<in> {g. \<exists>p q. p \<noteq> q \<and> linked regs p q \<and> g = sorted_list_of_set (insert p {r. linked regs p r})}"
      using pq(3) cls [of p key] g(1) srt [of key] by auto
  next
    fix g assume "g \<in> {g. \<exists>p q. p \<noteq> q \<and> linked regs p q \<and> g = sorted_list_of_set (insert p {r. linked regs p r})}"
    then obtain p q key where pq: "p \<noteq> q" "(p, key) \<in> set regs" "(q, key) \<in> set regs"
      and g: "g = sorted_list_of_set (insert p {r. linked regs p r})" by (auto simp: linked_def)
    have "card {p, q} \<le> card (set (paths_of regs key))"
      using pq by (intro card_mono) (auto simp: set_paths_of)
    then have "2 \<le> length (paths_of regs key)" using pq(1) distinct_card [OF distinct_paths_of [OF assms], of key] by simp
    then show "g \<in> set (unsorted_groups (by_identity regs))"
      unfolding unsorted_groups_set g cls [OF pq(2), symmetric] srt [symmetric] by blast
  }
qed

lemma group_links:
  assumes "distinct (map fst regs)" "p \<noteq> q"
  shows "linked regs p q \<longleftrightarrow> (\<exists>g \<in> set (unsorted_groups (by_identity regs)). p \<in> set g \<and> q \<in> set g)"
proof
  assume "linked regs p q"
  then obtain key where k: "(p, key) \<in> set regs" "(q, key) \<in> set regs" by (auto simp: linked_def)
  have "card {p, q} \<le> card (set (paths_of regs key))" using k by (intro card_mono) (auto simp: set_paths_of)
  then have "2 \<le> length (paths_of regs key)" using assms(2) distinct_card [OF distinct_paths_of [OF assms(1)], of key] by simp
  then show "\<exists>g \<in> set (unsorted_groups (by_identity regs)). p \<in> set g \<and> q \<in> set g"
    unfolding unsorted_groups_set using k set_paths_of set_sort_strings by blast
next
  assume "\<exists>g \<in> set (unsorted_groups (by_identity regs)). p \<in> set g \<and> q \<in> set g"
  then obtain key where "p \<in> set (sort_strings (paths_of regs key))" "q \<in> set (sort_strings (paths_of regs key))"
    unfolding unsorted_groups_set by blast
  then show "linked regs p q" unfolding linked_def set_sort_strings set_paths_of by blast
qed

lemma groups_equal:
  assumes "distinct (map fst regs)" "distinct (map fst regs')"
  shows "buildHardlinkGroups (by_identity regs) = buildHardlinkGroups (by_identity regs') \<longleftrightarrow>
    (\<forall>p q. p \<noteq> q \<longrightarrow> linked regs p q = linked regs' p q)"
proof -
  have "buildHardlinkGroups (by_identity regs) = buildHardlinkGroups (by_identity regs') \<longleftrightarrow>
      set (unsorted_groups (by_identity regs)) = set (unsorted_groups (by_identity regs'))"
    unfolding buildHardlinkGroups_def unsorted_groups_def [symmetric]
    by (rule sort_key_set_eq) (use assms groups_distinct groups_heads in auto)
  also have "\<dots> \<longleftrightarrow> (\<forall>p q. p \<noteq> q \<longrightarrow> linked regs p q = linked regs' p q)"
  proof
    assume "\<forall>p q. p \<noteq> q \<longrightarrow> linked regs p q = linked regs' p q"
    then have l: "linked regs p q = linked regs' p q" if "p \<noteq> q" for p q using that by simp
    have i: "insert p {r. linked regs p r} = insert p {r. linked regs' p r}" for p
    proof (rule set_eqI)
      show "x \<in> insert p {r. linked regs p r} \<longleftrightarrow> x \<in> insert p {r. linked regs' p r}" for x
        using l [of p x] by (cases "p = x") simp_all
    qed
    show "set (unsorted_groups (by_identity regs)) = set (unsorted_groups (by_identity regs'))"
      unfolding group_of_links [OF assms(1)] group_of_links [OF assms(2)] i using l by metis
  next
    assume "set (unsorted_groups (by_identity regs)) = set (unsorted_groups (by_identity regs'))"
    then show "\<forall>p q. p \<noteq> q \<longrightarrow> linked regs p q = linked regs' p q"
      using group_links [OF assms(1)] group_links [OF assms(2)] by metis
  qed
  finally show ?thesis .
qed

section \<open>What is collected on Linux\<close>

text \<open>The node of a visit when all its calls succeed, and the sizes and links of files.\<close>

definition collected_node :: "endian \<Rightarrow> diffLib \<Rightarrow> DiffOptions \<Rightarrow> visit \<Rightarrow> string \<Rightarrow> err + Node" where
  "collected_node en lib opts v path =
     bindE (collectPlatformMetadata en lib v opts (node_of_info v path)) (\<lambda>n.
     bindE (if dv_mode v AND ModeSymlink \<noteq> 0
            then bindE (wrapE ''failed to read symlink target'' (dv_readlink v)) (\<lambda>target. Inr (n\<lparr>nd_LinkTarget := target\<rparr>))
            else Inr n) (\<lambda>n.
     if mode_IsRegular (dv_mode v)
     then let n = n\<lparr>nd_Size := dv_size v\<rparr> in
       if CompareContentHash opts then bindE (hashFile lib v) (\<lambda>sum. Inr (n\<lparr>nd_Hash := sum\<rparr>)) else Inr n
     else Inr n))"

text \<open>A record chosen by a condition has its fields chosen by it.\<close>

lemmas node_if =
  if_distrib [of nd_Path] if_distrib [of nd_LinkTarget] if_distrib [of nd_Size] if_distrib [of nd_Mode]
  if_distrib [of nd_ModTime] if_distrib [of nd_Atime] if_distrib [of nd_ModTimeNsec]
  if_distrib [of nd_AtimeNsec] if_distrib [of nd_Hash] if_distrib [of nd_UID] if_distrib [of nd_GID]
  if_distrib [of nd_HasOwnership] if_distrib [of nd_HasAccessTime] if_distrib [of nd_InodeType]
  if_distrib [of nd_DevID] if_distrib [of nd_HasDevID] if_distrib [of nd_AllocatedBlocks]
  if_distrib [of nd_HasAllocatedBlocks] if_distrib [of nd_SparseParity] if_distrib [of nd_DeviceMajor]
  if_distrib [of nd_DeviceMinor] if_distrib [of nd_HasDeviceNumbers] if_distrib [of nd_XAttrs]
  if_distrib [of nd_HasXAttrs] if_distrib [of nd_ACLEntries] if_distrib [of nd_HasACL]

lemmas projected_if =
  if_distrib [of pn_Path] if_distrib [of pn_LinkTarget] if_distrib [of pn_Size] if_distrib [of pn_Mode]
  if_distrib [of pn_InodeType] if_distrib [of pn_ModTime] if_distrib [of pn_Atime] if_distrib [of pn_Hash]
  if_distrib [of pn_UID] if_distrib [of pn_GID] if_distrib [of pn_DeviceMajor] if_distrib [of pn_DeviceMinor]
  if_distrib [of pn_DevID] if_distrib [of pn_SparseParity]

lemma project_fields:
  "pn_Path (project_node opts n) = nd_Path n"
  "pn_LinkTarget (project_node opts n) = nd_LinkTarget n"
  "pn_Size (project_node opts n) = nd_Size n"
  "pn_Mode (project_node opts n) = nd_Mode n"
  "pn_InodeType (project_node opts n) = nd_InodeType n"
  "pn_ModTime (project_node opts n) =
     (if TimestampPrecisionOf opts = TimestampPrecisionNanoseconds then nd_ModTimeNsec n else nd_ModTime n)"
  "pn_Atime (project_node opts n) = (if \<not> CompareAccessTime opts then 0
     else if TimestampPrecisionOf opts = TimestampPrecisionNanoseconds then nd_AtimeNsec n else nd_Atime n)"
  "pn_Hash (project_node opts n) = (if CompareContentHash opts then nd_Hash n else [])"
  "pn_UID (project_node opts n) = (if CompareOwnership opts then nd_UID n else 0)"
  "pn_GID (project_node opts n) = (if CompareOwnership opts then nd_GID n else 0)"
  "pn_DeviceMajor (project_node opts n) =
     (if nd_InodeType n = InodeTypeCharDevice \<or> nd_InodeType n = InodeTypeBlockDevice then nd_DeviceMajor n else 0)"
  "pn_DeviceMinor (project_node opts n) =
     (if nd_InodeType n = InodeTypeCharDevice \<or> nd_InodeType n = InodeTypeBlockDevice then nd_DeviceMinor n else 0)"
  "pn_DevID (project_node opts n) = (if CompareDeviceIDs opts then nd_DevID n else 0)"
  "pn_SparseParity (project_node opts n) \<longleftrightarrow>
     CompareSparseness opts \<and> nd_InodeType n = InodeTypeRegular \<and> nd_SparseParity n"
  by (simp_all add: project_node_def Let_def projected_if split del: if_split cong: if_cong) auto

lemma projected_eq:
  "(p :: projectedNode) = q \<longleftrightarrow> pn_Path p = pn_Path q \<and> pn_LinkTarget p = pn_LinkTarget q \<and> pn_Size p = pn_Size q \<and>
     pn_Mode p = pn_Mode q \<and> pn_InodeType p = pn_InodeType q \<and> pn_ModTime p = pn_ModTime q \<and> pn_Atime p = pn_Atime q \<and>
     pn_Hash p = pn_Hash q \<and> pn_UID p = pn_UID q \<and> pn_GID p = pn_GID q \<and> pn_DeviceMajor p = pn_DeviceMajor q \<and>
     pn_DeviceMinor p = pn_DeviceMinor q \<and> pn_DevID p = pn_DevID q \<and> pn_SparseParity p = pn_SparseParity q"
  by (cases p; cases q) simp

lemma stat_node_fields:
  "nd_Path (stat_node lib st n) = nd_Path n"
  "nd_LinkTarget (stat_node lib st n) = nd_LinkTarget n"
  "nd_Size (stat_node lib st n) = nd_Size n"
  "nd_Mode (stat_node lib st n) = nd_Mode n"
  "nd_ModTime (stat_node lib st n) = nd_ModTime n"
  "nd_InodeType (stat_node lib st n) = nd_InodeType n"
  "nd_Hash (stat_node lib st n) = nd_Hash n"
  "nd_UID (stat_node lib st n) = st_uid st" "nd_GID (stat_node lib st n) = st_gid st"
  "nd_DevID (stat_node lib st n) = st_dev st"
  "nd_HasOwnership (stat_node lib st n)" "nd_HasAccessTime (stat_node lib st n)" "nd_HasDevID (stat_node lib st n)"
  "nd_Atime (stat_node lib st n) = fst (st_atim st)"
  "nd_AtimeNsec (stat_node lib st n) = timespecToNsec lib (st_atim st)"
  "nd_ModTimeNsec (stat_node lib st n) = timespecToNsec lib (st_mtim st)"
  "nd_InodeType n = InodeTypeRegular \<Longrightarrow> nd_HasAllocatedBlocks (stat_node lib st n)"
  "nd_InodeType n = InodeTypeRegular \<Longrightarrow> \<not> nd_SparseParity n \<Longrightarrow>
     nd_SparseParity (stat_node lib st n) \<longleftrightarrow> st_size st > 0 \<and> wrap64 (st_blocks st * 512) < st_size st"
  "nd_InodeType n = InodeTypeCharDevice \<or> nd_InodeType n = InodeTypeBlockDevice \<Longrightarrow>
     nd_DeviceMajor (stat_node lib st n) = devMajor lib (st_rdev st)"
  "nd_InodeType n = InodeTypeCharDevice \<or> nd_InodeType n = InodeTypeBlockDevice \<Longrightarrow>
     nd_DeviceMinor (stat_node lib st n) = devMinor lib (st_rdev st)"
  by (simp_all add: stat_node_def Let_def node_if split del: if_split cong: if_cong) simp

text \<open>The node put together from the answers.\<close>

definition assembled ::
  "diffLib \<Rightarrow> DiffOptions \<Rightarrow> visit \<Rightarrow> string \<Rightarrow> Stat_t \<Rightarrow> XAttr list \<Rightarrow> string list \<Rightarrow> string \<Rightarrow> 8 word list \<Rightarrow> Node" where
  "assembled lib opts v path st xs acl target digest =
     (let n = stat_node lib st (node_of_info v path);
        n = (if CompareXAttrs opts then n\<lparr>nd_XAttrs := xs, nd_HasXAttrs := True\<rparr> else n);
        n = (if CompareACLs opts then n\<lparr>nd_ACLEntries := acl, nd_HasACL := True\<rparr> else n);
        n = (if dv_mode v AND ModeSymlink \<noteq> 0 then n\<lparr>nd_LinkTarget := target\<rparr> else n);
        n = (if mode_IsRegular (dv_mode v) then n\<lparr>nd_Size := dv_size v\<rparr> else n)
      in if mode_IsRegular (dv_mode v) \<and> CompareContentHash opts then n\<lparr>nd_Hash := digest\<rparr> else n)"

lemma collected_Inr:
  assumes "collected_node en lib opts v path = Inr n"
  obtains st xs acl target digest where "dv_lstat v = Inr st"
    "CompareXAttrs opts \<Longrightarrow> collectXAttrs v = Inr xs" "CompareACLs opts \<Longrightarrow> collectACLEntries en v = Inr acl"
    "dv_mode v AND ModeSymlink \<noteq> 0 \<Longrightarrow> dv_readlink v = Inr target"
    "mode_IsRegular (dv_mode v) \<Longrightarrow> CompareContentHash opts \<Longrightarrow> hashFile lib v = Inr digest"
    "n = assembled lib opts v path st xs acl target digest"
proof -
  obtain st where st: "dv_lstat v = Inr st"
    using assms by (cases "dv_lstat v") (simp_all add: collected_node_def collectPlatformMetadata_def)
  obtain xs where xs: "CompareXAttrs opts \<Longrightarrow> collectXAttrs v = Inr xs"
    using assms by (cases "collectXAttrs v"; cases "CompareXAttrs opts")
      (auto simp: collected_node_def collectPlatformMetadata_def st Let_def)
  obtain acl where acl: "CompareACLs opts \<Longrightarrow> collectACLEntries en v = Inr acl"
    using assms xs
    by (cases "collectACLEntries en v"; cases "CompareXAttrs opts"; cases "CompareACLs opts")
      (auto simp: collected_node_def collectPlatformMetadata_def st Let_def)
  let ?n = "stat_node lib st (node_of_info v path)"
  let ?n2 = "if CompareXAttrs opts then ?n\<lparr>nd_XAttrs := xs, nd_HasXAttrs := True\<rparr> else ?n"
  let ?n3 = "if CompareACLs opts then ?n2\<lparr>nd_ACLEntries := acl, nd_HasACL := True\<rparr> else ?n2"
  have n3: "collectPlatformMetadata en lib v opts (node_of_info v path) = Inr ?n3"
    using st xs acl by (cases "CompareXAttrs opts"; cases "CompareACLs opts") (simp_all add: collectPlatformMetadata_def Let_def)
  obtain target where target: "dv_mode v AND ModeSymlink \<noteq> 0 \<Longrightarrow> dv_readlink v = Inr target"
    using assms by (cases "dv_readlink v"; cases "dv_mode v AND ModeSymlink \<noteq> 0") (auto simp: collected_node_def n3)
  let ?n4 = "if dv_mode v AND ModeSymlink \<noteq> 0 then ?n3\<lparr>nd_LinkTarget := target\<rparr> else ?n3"
  have n4: "collected_node en lib opts v path =
     (if mode_IsRegular (dv_mode v)
      then let n = ?n4\<lparr>nd_Size := dv_size v\<rparr> in
        if CompareContentHash opts then bindE (hashFile lib v) (\<lambda>digest. Inr (n\<lparr>nd_Hash := digest\<rparr>)) else Inr n
      else Inr ?n4)"
    using target by (cases "dv_mode v AND ModeSymlink \<noteq> 0") (simp_all only: collected_node_def n3 bindE_simps wrapE_simps if_True if_False simp_thms)
  obtain digest where digest: "mode_IsRegular (dv_mode v) \<Longrightarrow> CompareContentHash opts \<Longrightarrow> hashFile lib v = Inr digest"
    using assms by (cases "hashFile lib v") (auto simp: n4 Let_def split: if_splits)
  have "n = assembled lib opts v path st xs acl target digest"
    using assms digest unfolding n4 assembled_def Let_def
    by (cases "mode_IsRegular (dv_mode v)"; cases "CompareContentHash opts")
      (simp_all only: bindE_simps if_True if_False simp_thms sum.inject)
  with st xs acl target digest show ?thesis using that by blast
qed

lemma info_fields:
  "nd_Path (node_of_info v path) = path" "nd_Mode (node_of_info v path) = dv_mode v"
  "nd_ModTime (node_of_info v path) = dv_mtime v div 1000000000"
  "nd_InodeType (node_of_info v path) = inodeTypeFromFileMode (dv_mode v)"
  "nd_LinkTarget (node_of_info v path) = []" "nd_Size (node_of_info v path) = 0" "nd_Hash (node_of_info v path) = []"
  "\<not> nd_SparseParity (node_of_info v path)"
  by (simp_all add: node_of_info_def)

lemma regular_type: "inodeTypeFromFileMode mode = InodeTypeRegular \<longleftrightarrow> mode_IsRegular mode"
  by (simp add: inodeTypeFromFileMode_def)

lemma assembled_fields:
  "nd_Path (assembled lib opts v path st xs acl target digest) = path"
  "nd_LinkTarget (assembled lib opts v path st xs acl target digest) = (if dv_mode v AND ModeSymlink \<noteq> 0 then target else [])"
  "nd_Size (assembled lib opts v path st xs acl target digest) = (if mode_IsRegular (dv_mode v) then dv_size v else 0)"
  "nd_Mode (assembled lib opts v path st xs acl target digest) = dv_mode v"
  "nd_InodeType (assembled lib opts v path st xs acl target digest) = inodeTypeFromFileMode (dv_mode v)"
  "nd_ModTime (assembled lib opts v path st xs acl target digest) = dv_mtime v div 1000000000"
  "nd_ModTimeNsec (assembled lib opts v path st xs acl target digest) = timespecToNsec lib (st_mtim st)"
  "nd_Atime (assembled lib opts v path st xs acl target digest) = fst (st_atim st)"
  "nd_AtimeNsec (assembled lib opts v path st xs acl target digest) = timespecToNsec lib (st_atim st)"
  "nd_Hash (assembled lib opts v path st xs acl target digest) =
     (if mode_IsRegular (dv_mode v) \<and> CompareContentHash opts then digest else [])"
  "nd_UID (assembled lib opts v path st xs acl target digest) = st_uid st"
  "nd_GID (assembled lib opts v path st xs acl target digest) = st_gid st"
  "nd_DevID (assembled lib opts v path st xs acl target digest) = st_dev st"
  "nd_HasOwnership (assembled lib opts v path st xs acl target digest)"
  "nd_HasAccessTime (assembled lib opts v path st xs acl target digest)"
  "nd_HasDevID (assembled lib opts v path st xs acl target digest)"
  "CompareXAttrs opts \<Longrightarrow> nd_HasXAttrs (assembled lib opts v path st xs acl target digest)"
  "CompareXAttrs opts \<Longrightarrow> nd_XAttrs (assembled lib opts v path st xs acl target digest) = xs"
  "CompareACLs opts \<Longrightarrow> nd_HasACL (assembled lib opts v path st xs acl target digest)"
  "CompareACLs opts \<Longrightarrow> nd_ACLEntries (assembled lib opts v path st xs acl target digest) = acl"
  by (simp_all add: assembled_def Let_def node_if stat_node_fields info_fields split del: if_split cong: if_cong) simp

lemma assembled_typed_fields:
  "mode_IsRegular (dv_mode v) \<Longrightarrow> nd_HasAllocatedBlocks (assembled lib opts v path st xs acl target digest)"
  "mode_IsRegular (dv_mode v) \<Longrightarrow> nd_SparseParity (assembled lib opts v path st xs acl target digest) \<longleftrightarrow>
     st_size st > 0 \<and> wrap64 (st_blocks st * 512) < st_size st"
  "inodeTypeFromFileMode (dv_mode v) = InodeTypeCharDevice \<or> inodeTypeFromFileMode (dv_mode v) = InodeTypeBlockDevice \<Longrightarrow>
     nd_DeviceMajor (assembled lib opts v path st xs acl target digest) = devMajor lib (st_rdev st)"
  "inodeTypeFromFileMode (dv_mode v) = InodeTypeCharDevice \<or> inodeTypeFromFileMode (dv_mode v) = InodeTypeBlockDevice \<Longrightarrow>
     nd_DeviceMinor (assembled lib opts v path st xs acl target digest) = devMinor lib (st_rdev st)"
  by (simp_all add: assembled_def Let_def node_if stat_node_fields info_fields regular_type split del: if_split cong: if_cong)

section \<open>The walk\<close>

text \<open>What \<^verbatim>\<open>filepath.Walk\<close> promises: every path is visited once, and lies at or below the base.\<close>

definition walked :: "string \<Rightarrow> visit list \<Rightarrow> bool" where
  "walked base visits \<longleftrightarrow> clean_abs base \<and> distinct (map dv_path visits) \<and>
     list_all (\<lambda>v. clean_abs (dv_path v) \<and> in_subtree base (dv_path v)) visits"

text \<open>The tree: the paths below the base with what was answered there.\<close>

definition entries_of :: "string \<Rightarrow> visit list \<Rightarrow> (string \<times> visit) list" where
  "entries_of base visits = map (\<lambda>v. (node_path_of base (dv_path v), v)) (filter (\<lambda>v. dv_path v \<noteq> base) visits)"

definition registration :: "string \<times> visit \<Rightarrow> (string \<times> fileIdentity) list" where
  "registration e =
     (if mode_IsRegular (dv_mode (snd e))
      then (case fileIdentityFromPath (snd e) of None \<Rightarrow> [] | Some key \<Rightarrow> [(fst e, key)]) else [])"

definition registrations :: "DiffOptions \<Rightarrow> (string \<times> visit) list \<Rightarrow> (string \<times> fileIdentity) list" where
  "registrations opts es = (if CompareHardlinkTopology opts then concat (map registration es) else [])"

lemma registration_members:
  "(p, key) \<in> set (registration e) \<longleftrightarrow>
     p = fst e \<and> mode_IsRegular (dv_mode (snd e)) \<and> fileIdentityFromPath (snd e) = Some key"
  unfolding registration_def by (cases "fileIdentityFromPath (snd e)"; cases "mode_IsRegular (dv_mode (snd e))") auto

lemma node_path_nonempty: "node_path_of base p \<noteq> []"
  by (simp add: node_path_of_def)

lemma visit_path_inj:
  assumes "clean_abs base" "clean_abs p" "clean_abs q" "in_subtree base p" "in_subtree base q"
    and "node_path_of base p = node_path_of base q"
  shows "p = q"
proof -
  obtain r s where r: "elems p = elems base @ r" and s: "elems q = elems base @ s"
    using in_subtree_iff assms(1-5) by metis
  then have "abs_path r = abs_path s" using assms(6) by (simp add: node_path_of_def)
  moreover have "\<forall>w \<in> set r. elem_ok w" "\<forall>w \<in> set s. elem_ok w" using elems_ok [of _ p] elems_ok [of _ q] r s by simp_all
  ultimately have "r = s" using elems_abs_path by metis
  then show ?thesis using r s assms(2,3) abs_path_elems by metis
qed

lemma canonicalNodePath_eq:
  assumes "clean_abs base" "clean_abs p" "in_subtree base p"
  shows "canonicalNodePath base p = Inr (if p = base then [] else node_path_of base p)"
proof -
  obtain rel where rel: "Rel base p = Inr rel" and np: "node_path_of base p = (if rel = ''.'' then ''/'' else ''/'' @ rel)"
    using canonical_path [OF assms] by (cases "Rel base p") (auto simp: canonicalMutationPath_def split: if_splits)
  have "rel = ''.'' \<longleftrightarrow> p = base"
  proof
    assume "p = base"
    then show "rel = ''.''" using rel by (simp add: Rel_def dot_def)
  next
    assume "rel = ''.''"
    then have "node_path_of base p = abs_path []" using np by (simp add: slash_string)
    moreover have "node_path_of base base = abs_path []" by (simp add: node_path_of_def)
    ultimately show "p = base" using visit_path_inj [OF assms(1,2,1,3)] by (simp add: in_subtree_def)
  qed
  then show ?thesis using rel np by (simp add: canonicalNodePath_def dot_def)
qed

lemma entries_distinct:
  assumes "walked base visits"
  shows "distinct (map fst (entries_of base visits))"
proof -
  have "inj_on (\<lambda>v. node_path_of base (dv_path v)) (set visits)"
  proof (rule inj_onI)
    fix v w assume vw: "v \<in> set visits" "w \<in> set visits" and eq: "node_path_of base (dv_path v) = node_path_of base (dv_path w)"
    then have "dv_path v = dv_path w" using assms visit_path_inj by (auto simp: walked_def list_all_iff)
    then show "v = w" using assms vw by (auto simp: walked_def distinct_map inj_on_def)
  qed
  moreover have "distinct visits" using assms by (simp add: walked_def distinct_map)
  ultimately show ?thesis
    by (auto simp: entries_of_def distinct_map comp_def inj_on_def)
qed

lemma registrations_members:
  "(p, key) \<in> set (registrations opts es) \<longleftrightarrow> CompareHardlinkTopology opts \<and>
     (\<exists>v. (p, v) \<in> set es \<and> mode_IsRegular (dv_mode v) \<and> fileIdentityFromPath v = Some key)"
  by (cases "CompareHardlinkTopology opts") (auto simp: registrations_def registration_members Bex_def)

lemma registrations_distinct:
  "distinct (map fst es) \<Longrightarrow> distinct (map fst (registrations opts es))"
proof (induction es)
  case (Cons e es)
  have "fst ` set (registrations opts es) \<subseteq> fst ` set es"
    using registrations_members [of _ _ opts es] by force
  then have "fst e \<notin> fst ` set (registrations opts es)" using Cons.prems by auto
  moreover have "map fst (registration e) = [] \<or> map fst (registration e) = [fst e]"
    by (cases "fileIdentityFromPath (snd e)") (auto simp: registration_def)
  moreover have "registrations opts (e # es) = (if CompareHardlinkTopology opts then registration e else []) @ registrations opts es"
    by (simp add: registrations_def)
  ultimately show ?case using Cons by (auto simp del: set_map simp add: set_map [symmetric] split: if_splits)
qed (simp add: registrations_def)

lemma collected_path: "collected_node en lib opts v path = Inr n \<Longrightarrow> nd_Path n = path"
  by (erule collected_Inr) (simp add: assembled_fields)

lemma collect_visit_eq:
  assumes "canonicalNodePath base (dv_path v) = Inr path" "path \<noteq> []"
    and "collect_visit lib (collectPlatformMetadata en lib) base opts v (ns, m) = Inr st"
  shows "\<exists>n. collected_node en lib opts v path = Inr n \<and>
    st = (ns @ [n], fold (\<lambda>(p, key). add_path key p) (registrations opts [(path, v)]) m)"
proof -
  have none: "dv_err v = None" using assms(3) by (cases "dv_err v") (simp_all add: collect_visit_def)
  have "collect_visit lib (collectPlatformMetadata en lib) base opts v (ns, m) =
     bindE (collected_node en lib opts v path) (\<lambda>n. Inr (ns @ [n],
       if mode_IsRegular (dv_mode v) \<and> CompareHardlinkTopology opts
       then (case fileIdentityFromPath v of None \<Rightarrow> m | Some key \<Rightarrow> add_path key (nd_Path n) m) else m))"
    using assms(2)
    unfolding collect_visit_def collected_node_def fst_conv snd_conv none option.case assms(1) bindE_simps if_False Let_def
    by (cases "mode_IsRegular (dv_mode v)"; cases "CompareContentHash opts"; cases "hashFile lib v")
      (simp_all add: bindE_def split: sum.split)
  then obtain n where n: "collected_node en lib opts v path = Inr n"
    and st: "st = (ns @ [n], if mode_IsRegular (dv_mode v) \<and> CompareHardlinkTopology opts
       then (case fileIdentityFromPath v of None \<Rightarrow> m | Some key \<Rightarrow> add_path key (nd_Path n) m) else m)"
    using assms(3) by (cases "collected_node en lib opts v path") simp_all
  have "(if mode_IsRegular (dv_mode v) \<and> CompareHardlinkTopology opts
      then (case fileIdentityFromPath v of None \<Rightarrow> m | Some key \<Rightarrow> add_path key (nd_Path n) m) else m)
    = fold (\<lambda>(p, key). add_path key p) (registrations opts [(path, v)]) m"
    unfolding collected_path [OF n]
    by (cases "fileIdentityFromPath v") (simp_all add: registrations_def registration_def)
  then show ?thesis using n st by simp
qed

definition nodes_for :: "endian \<Rightarrow> diffLib \<Rightarrow> DiffOptions \<Rightarrow> (string \<times> visit) list \<Rightarrow> Node list \<Rightarrow> bool" where
  "nodes_for en lib opts es ns \<longleftrightarrow> list_all2 (\<lambda>e n. collected_node en lib opts (snd e) (fst e) = Inr n) es ns"

lemma collect_visits_Inr:
  assumes "clean_abs base" "list_all (\<lambda>v. clean_abs (dv_path v) \<and> in_subtree base (dv_path v)) visits"
    and "collect_visits lib (collectPlatformMetadata en lib) base opts visits (ns, m) = Inr st"
  shows "\<exists>new. st = (ns @ new, fold (\<lambda>(p, key). add_path key p) (registrations opts (entries_of base visits)) m) \<and>
    nodes_for en lib opts (entries_of base visits) new"
  using assms(2,3)
proof (induction visits arbitrary: ns m)
  case Nil
  then show ?case by (simp add: entries_of_def registrations_def nodes_for_def)
next
  case (Cons v vs)
  let ?p = "node_path_of base (dv_path v)"
  have path: "canonicalNodePath base (dv_path v) = Inr (if dv_path v = base then [] else ?p)"
    using canonicalNodePath_eq assms(1) Cons.prems(1) by simp
  obtain ns1 m1 where step: "collect_visit lib (collectPlatformMetadata en lib) base opts v (ns, m) = Inr (ns1, m1)"
    and rest: "collect_visits lib (collectPlatformMetadata en lib) base opts vs (ns1, m1) = Inr st"
    using Cons.prems(2) by (cases "collect_visit lib (collectPlatformMetadata en lib) base opts v (ns, m)") auto
  have vs: "list_all (\<lambda>v. clean_abs (dv_path v) \<and> in_subtree base (dv_path v)) vs" using Cons.prems(1) by simp
  obtain new where new: "st = (ns1 @ new, fold (\<lambda>(p, key). add_path key p) (registrations opts (entries_of base vs)) m1)"
    "nodes_for en lib opts (entries_of base vs) new"
    using Cons.IH [OF vs rest] by blast
  show ?case
  proof (cases "dv_path v = base")
    case True
    then have "(ns1, m1) = (ns, m)"
      using step path by (cases "dv_err v") (simp_all add: collect_visit_def)
    then show ?thesis using new True by (simp add: entries_of_def)
  next
    case False
    obtain n where n: "collected_node en lib opts v ?p = Inr n"
      and st1: "ns1 = ns @ [n]" "m1 = fold (\<lambda>(p, key). add_path key p) (registrations opts [(?p, v)]) m"
      using collect_visit_eq [OF _ _ step, of ?p] path False node_path_nonempty by auto
    have es: "entries_of base (v # vs) = (?p, v) # entries_of base vs" using False by (simp add: entries_of_def)
    have "registrations opts ((?p, v) # entries_of base vs) = registrations opts [(?p, v)] @ registrations opts (entries_of base vs)"
      by (simp add: registrations_def)
    then show ?thesis using new n st1 unfolding es by (intro exI [of _ "n # new"]) (simp add: nodes_for_def)
  qed
qed

lemma collectPaths_Inr:
  assumes "walked base visits" "collectPaths lib (collectPlatformMetadata en lib) base visits opts = Inr c"
  obtains ns where "nodes_for en lib opts (entries_of base visits) ns" "cp_nodes c = sort_key nd_Path ns"
    "cp_hardlinkGroups c =
       (if CompareHardlinkTopology opts then buildHardlinkGroups (by_identity (registrations opts (entries_of base visits))) else [])"
proof -
  have w: "clean_abs base" "list_all (\<lambda>v. clean_abs (dv_path v) \<and> in_subtree base (dv_path v)) visits"
    using assms(1) by (simp_all add: walked_def)
  obtain st where st: "collect_visits lib (collectPlatformMetadata en lib) base opts visits ([], []) = Inr st"
    using assms(2) by (cases "collect_visits lib (collectPlatformMetadata en lib) base opts visits ([], [])")
      (simp_all add: collectPaths_def)
  obtain ns where ns: "st = (ns, by_identity (registrations opts (entries_of base visits)))"
    "nodes_for en lib opts (entries_of base visits) ns"
    using collect_visits_Inr [OF w st] by (auto simp: by_identity_def)
  show thesis using that [OF ns(2)] assms(2) unfolding collectPaths_def st ns(1) by auto
qed

lemma nodes_for_paths: "nodes_for en lib opts es ns \<Longrightarrow> map nd_Path ns = map fst es"
  unfolding nodes_for_def by (induction rule: list_all2_induct) (simp_all add: collected_path)

lemma nodes_for_members:
  assumes "nodes_for en lib opts es ns"
  shows "n \<in> set ns \<longleftrightarrow> (\<exists>p v. (p, v) \<in> set es \<and> collected_node en lib opts v p = Inr n)"
  using assms unfolding nodes_for_def
proof (induction rule: list_all2_induct)
  case (Cons e es n' ns)
  then show ?case by (cases e) auto
qed simp

section \<open>When two trees agree\<close>

text \<open>What the comparison looks at in two entries, apart from the attributes and the callbacks.\<close>

definition same_core :: "diffLib \<Rightarrow> DiffOptions \<Rightarrow> visit \<Rightarrow> visit \<Rightarrow> bool" where
  "same_core lib opts v w \<longleftrightarrow>
     (let s = projr (dv_lstat v); t = projr (dv_lstat w); type = inodeTypeFromFileMode (dv_mode v) in
      dv_mode v = dv_mode w \<and>
      (dv_mode v AND ModeSymlink \<noteq> 0 \<longrightarrow> dv_readlink v = dv_readlink w) \<and>
      (type = InodeTypeRegular \<longrightarrow> dv_size v = dv_size w) \<and>
      (type = InodeTypeRegular \<and> CompareContentHash opts \<longrightarrow> hashFile lib v = hashFile lib w) \<and>
      (if TimestampPrecisionOf opts = TimestampPrecisionNanoseconds
       then timespecToNsec lib (st_mtim s) = timespecToNsec lib (st_mtim t)
       else dv_mtime v div 1000000000 = dv_mtime w div 1000000000) \<and>
      (CompareAccessTime opts \<longrightarrow>
        (if TimestampPrecisionOf opts = TimestampPrecisionNanoseconds
         then timespecToNsec lib (st_atim s) = timespecToNsec lib (st_atim t)
         else fst (st_atim s) = fst (st_atim t))) \<and>
      (CompareOwnership opts \<longrightarrow> st_uid s = st_uid t \<and> st_gid s = st_gid t) \<and>
      (type = InodeTypeCharDevice \<or> type = InodeTypeBlockDevice \<longrightarrow>
        devMajor lib (st_rdev s) = devMajor lib (st_rdev t) \<and> devMinor lib (st_rdev s) = devMinor lib (st_rdev t)) \<and>
      (CompareDeviceIDs opts \<longrightarrow> st_dev s = st_dev t) \<and>
      (CompareSparseness opts \<and> type = InodeTypeRegular \<longrightarrow>
        (st_size s > 0 \<and> wrap64 (st_blocks s * 512) < st_size s) = (st_size t > 0 \<and> wrap64 (st_blocks t * 512) < st_size t)))"

lemma project_same:
  assumes "collected_node en lib opts v p = Inr a" "collected_node en lib opts w p = Inr b"
  shows "project_node opts a = project_node opts b \<longleftrightarrow> same_core lib opts v w"
proof -
  obtain sv xv av tv hv where v: "dv_lstat v = Inr sv" "dv_mode v AND ModeSymlink \<noteq> 0 \<Longrightarrow> dv_readlink v = Inr tv"
    "mode_IsRegular (dv_mode v) \<Longrightarrow> CompareContentHash opts \<Longrightarrow> hashFile lib v = Inr hv"
    "a = assembled lib opts v p sv xv av tv hv"
    using assms(1) by (rule collected_Inr) (rule that, simp_all)
  obtain sw xw aw tw hw where w: "dv_lstat w = Inr sw" "dv_mode w AND ModeSymlink \<noteq> 0 \<Longrightarrow> dv_readlink w = Inr tw"
    "mode_IsRegular (dv_mode w) \<Longrightarrow> CompareContentHash opts \<Longrightarrow> hashFile lib w = Inr hw"
    "b = assembled lib opts w p sw xw aw tw hw"
    using assms(2) by (rule collected_Inr) (rule that, simp_all)
  show ?thesis
  proof (cases "dv_mode v = dv_mode w")
    case False
    then show ?thesis by (simp add: projected_eq project_fields v(4) w(4) assembled_fields same_core_def Let_def)
  next
    case True
    let ?type = "inodeTypeFromFileMode (dv_mode w)" and ?a = "project_node opts a" and ?b = "project_node opts b"
    note fields = project_fields v(4) w(4) assembled_fields True
    have s: "projr (dv_lstat v) = sv" "projr (dv_lstat w) = sw" using v(1) w(1) by simp_all
    have link: "pn_LinkTarget ?a = pn_LinkTarget ?b \<longleftrightarrow> (dv_mode w AND ModeSymlink \<noteq> 0 \<longrightarrow> dv_readlink v = dv_readlink w)"
      using v(2) w(2) True by (simp add: fields)
    have sz: "pn_Size ?a = pn_Size ?b \<longleftrightarrow> (?type = InodeTypeRegular \<longrightarrow> dv_size v = dv_size w)"
      by (simp add: fields regular_type)
    have hash: "pn_Hash ?a = pn_Hash ?b \<longleftrightarrow> (?type = InodeTypeRegular \<and> CompareContentHash opts \<longrightarrow> hashFile lib v = hashFile lib w)"
      using v(3) w(3) True by (simp add: fields regular_type)
    have mt: "pn_ModTime ?a = pn_ModTime ?b \<longleftrightarrow> (if TimestampPrecisionOf opts = TimestampPrecisionNanoseconds
       then timespecToNsec lib (st_mtim sv) = timespecToNsec lib (st_mtim sw)
       else dv_mtime v div 1000000000 = dv_mtime w div 1000000000)"
      by (simp add: fields)
    have atm: "pn_Atime ?a = pn_Atime ?b \<longleftrightarrow> (CompareAccessTime opts \<longrightarrow>
        (if TimestampPrecisionOf opts = TimestampPrecisionNanoseconds
         then timespecToNsec lib (st_atim sv) = timespecToNsec lib (st_atim sw)
         else fst (st_atim sv) = fst (st_atim sw)))"
      by (simp add: fields)
    have own: "pn_UID ?a = pn_UID ?b \<and> pn_GID ?a = pn_GID ?b \<longleftrightarrow>
        (CompareOwnership opts \<longrightarrow> st_uid sv = st_uid sw \<and> st_gid sv = st_gid sw)"
      by (simp add: fields)
    have dev: "pn_DeviceMajor ?a = pn_DeviceMajor ?b \<and> pn_DeviceMinor ?a = pn_DeviceMinor ?b \<longleftrightarrow>
        (?type = InodeTypeCharDevice \<or> ?type = InodeTypeBlockDevice \<longrightarrow>
        devMajor lib (st_rdev sv) = devMajor lib (st_rdev sw) \<and> devMinor lib (st_rdev sv) = devMinor lib (st_rdev sw))"
      by (simp add: fields assembled_typed_fields)
    have did: "pn_DevID ?a = pn_DevID ?b \<longleftrightarrow> (CompareDeviceIDs opts \<longrightarrow> st_dev sv = st_dev sw)" by (simp add: fields)
    have sp: "pn_SparseParity ?a = pn_SparseParity ?b \<longleftrightarrow> (CompareSparseness opts \<and> ?type = InodeTypeRegular \<longrightarrow>
        (st_size sv > 0 \<and> wrap64 (st_blocks sv * 512) < st_size sv) = (st_size sw > 0 \<and> wrap64 (st_blocks sw * 512) < st_size sw))"
      using regular_type by (cases "?type = InodeTypeRegular") (simp_all add: fields assembled_typed_fields, blast)
    have same: "pn_Path ?a = pn_Path ?b" "pn_Mode ?a = pn_Mode ?b" "pn_InodeType ?a = pn_InodeType ?b"
      by (simp_all add: fields)
    show ?thesis
      unfolding projected_eq same_core_def Let_def s True link sz hash mt atm dev [symmetric] own [symmetric] did sp
      using same by argo
  qed
qed

text \<open>The attributes, the ACL entries and what the callbacks of the caller say.\<close>

definition accepts :: "MetadataComparator option \<Rightarrow> string \<Rightarrow> Node \<Rightarrow> Node \<Rightarrow> bool" where
  "accepts hook p a b = (case hook of None \<Rightarrow> True | Some compare \<Rightarrow> compare p a b = None)"

definition same_extras :: "endian \<Rightarrow> diffLib \<Rightarrow> DiffOptions \<Rightarrow> string \<Rightarrow> visit \<Rightarrow> visit \<Rightarrow> bool" where
  "same_extras en lib opts p v w \<longleftrightarrow>
     (let a = projr (collected_node en lib opts v p); b = projr (collected_node en lib opts w p) in
      (CompareXAttrs opts \<longrightarrow> collectXAttrs v = collectXAttrs w \<and> accepts (XAttrComparator opts) p a b) \<and>
      (CompareACLs opts \<longrightarrow> collectACLEntries en v = collectACLEntries en w \<and> accepts (ACLComparator opts) p a b))"

definition linked_in :: "(string \<times> visit) list \<Rightarrow> string \<Rightarrow> string \<Rightarrow> bool" where
  "linked_in es p q \<longleftrightarrow> (\<exists>v w. (p, v) \<in> set es \<and> (q, w) \<in> set es \<and> mode_IsRegular (dv_mode v) \<and> mode_IsRegular (dv_mode w) \<and>
     fileIdentityFromPath v \<noteq> None \<and> fileIdentityFromPath v = fileIdentityFromPath w)"

text \<open>The specification: two trees, as finite maps from paths, agree.\<close>

definition same_tree :: "endian \<Rightarrow> diffLib \<Rightarrow> DiffOptions \<Rightarrow> (string \<times> visit) list \<Rightarrow> (string \<times> visit) list \<Rightarrow> bool" where
  "same_tree en lib opts es es' \<longleftrightarrow>
     fst ` set es = fst ` set es' \<and>
     (\<forall>p v w. (p, v) \<in> set es \<longrightarrow> (p, w) \<in> set es' \<longrightarrow> same_core lib opts v w \<and> same_extras en lib opts p v w) \<and>
     (CompareHardlinkTopology opts \<longrightarrow> (\<forall>p q. p \<noteq> q \<longrightarrow> linked_in es p q = linked_in es' p q))"

text \<open>The documented promise of \<^verbatim>\<open>cmp.Diff\<close>: the report is empty exactly for equal values.\<close>

definition cmp_exact :: "diffLib \<Rightarrow> bool" where
  "cmp_exact lib \<longleftrightarrow> (\<forall>x y. cmpNodes lib x y = [] \<longleftrightarrow> x = y) \<and> (\<forall>x y. cmpGroups lib x y = [] \<longleftrightarrow> x = y) \<and>
     (\<forall>x y. cmpXAttrs lib x y = [] \<longleftrightarrow> x = y) \<and> (\<forall>x y. cmpACL lib x y = [] \<longleftrightarrow> x = y)"

definition node_hooks_ok :: "DiffOptions \<Rightarrow> Node \<Rightarrow> Node \<Rightarrow> bool" where
  "node_hooks_ok opts a b \<longleftrightarrow>
     (CompareXAttrs opts \<longrightarrow> nd_XAttrs a = nd_XAttrs b \<and> accepts (XAttrComparator opts) (nd_Path a) a b) \<and>
     (CompareACLs opts \<longrightarrow> nd_ACLEntries a = nd_ACLEntries b \<and> accepts (ACLComparator opts) (nd_Path a) a b)"

lemma run_comparator_ok: "run_comparator what hook a b = Inr u \<longleftrightarrow> accepts hook (nd_Path a) a b"
  by (auto simp: run_comparator_def accepts_def split: option.splits)

lemma run_comparator_no_panic: "run_comparator what hook a b \<noteq> Inl (Panic msg)"
  by (auto simp: run_comparator_def split: option.splits)

lemma hooks_loop_ok:
  assumes "cmp_exact lib" "length as = length bs"
  shows "(hooks_loop lib opts as bs = Inr () \<longleftrightarrow> (\<forall>(a, b) \<in> set (zip as bs). node_hooks_ok opts a b)) \<and>
    hooks_loop lib opts as bs \<noteq> Inl (Panic msg)"
  using assms(2)
proof (induction as bs rule: list_induct2)
  case (Cons a as b bs)
  have x: "cmpXAttrs lib (nd_XAttrs a) (nd_XAttrs b) = [] \<longleftrightarrow> nd_XAttrs a = nd_XAttrs b"
    and l: "cmpACL lib (nd_ACLEntries a) (nd_ACLEntries b) = [] \<longleftrightarrow> nd_ACLEntries a = nd_ACLEntries b"
    using assms(1) by (simp_all add: cmp_exact_def)
  have r: "run_comparator what hook a b = Inr u \<or> (\<exists>e. run_comparator what hook a b = Inl e \<and> (\<forall>m. e \<noteq> Panic m))" for what hook u
    using run_comparator_no_panic [of what hook a b] by (cases "run_comparator what hook a b") auto
  show ?case
    using Cons.IH r [of "''xattr mismatch''" "XAttrComparator opts" "()"] r [of "''ACL mismatch''" "ACLComparator opts" "()"]
      run_comparator_ok [of "''xattr mismatch''" "XAttrComparator opts" a b "()"]
      run_comparator_ok [of "''ACL mismatch''" "ACLComparator opts" a b "()"] x l
    by (cases "CompareXAttrs opts"; cases "CompareACLs opts"; cases "nd_XAttrs a = nd_XAttrs b";
        cases "nd_ACLEntries a = nd_ACLEntries b") (auto simp: node_hooks_ok_def)
qed simp

lemma runMetadataHooks_ok:
  assumes "cmp_exact lib" "length as = length bs"
  shows "runMetadataHooks lib as bs opts = Inr () \<longleftrightarrow> (\<forall>(a, b) \<in> set (zip as bs). node_hooks_ok opts a b)"
    and "runMetadataHooks lib as bs opts \<noteq> Inl (Panic msg)"
  using hooks_loop_ok [OF assms, of opts msg] by (auto simp: runMetadataHooks_def node_hooks_ok_def)

lemma zip_same_keys:
  assumes "map f as = map f bs" "distinct (map f as)"
  shows "set (zip as bs) = {(a, b). a \<in> set as \<and> b \<in> set bs \<and> f a = f b}"
proof -
  have len: "length as = length bs" using assms(1) by (metis length_map)
  have k: "f (as ! i) = f (bs ! i)" if "i < length as" for i using assms(1) len that by (metis nth_map)
  have "(a, b) \<in> set (zip as bs)" if ab: "a \<in> set as" "b \<in> set bs" "f a = f b" for a b
  proof -
    obtain i j where i: "i < length as" "as ! i = a" and j: "j < length bs" "bs ! j = b"
      using ab(1,2) by (metis in_set_conv_nth)
    then have "map f as ! i = map f as ! j" using ab(3) k len by simp
    then have "i = j" using nth_eq_iff_index_eq [OF assms(2), of i j] i(1) j(1) len by simp
    then show ?thesis using i j len by (auto simp: set_zip)
  qed
  moreover have "a \<in> set as \<and> b \<in> set bs \<and> f a = f b" if "(a, b) \<in> set (zip as bs)" for a b
    using that k len by (auto simp: set_zip)
  ultimately show ?thesis by auto
qed

lemma collected_flags:
  assumes "nodes_for en lib opts es ns" "n \<in> set ns"
  shows "nd_HasOwnership n" "nd_HasAccessTime n" "nd_HasDevID n" "blocks_known n"
    "CompareXAttrs opts \<Longrightarrow> nd_HasXAttrs n" "CompareACLs opts \<Longrightarrow> nd_HasACL n"
proof -
  obtain p v where "collected_node en lib opts v p = Inr n" using nodes_for_members [OF assms(1)] assms(2) by blast
  then obtain st xs acl target digest where n: "n = assembled lib opts v p st xs acl target digest"
    by (rule collected_Inr)
  show "nd_HasOwnership n" "nd_HasAccessTime n" "nd_HasDevID n" "blocks_known n"
    "CompareXAttrs opts \<Longrightarrow> nd_HasXAttrs n" "CompareACLs opts \<Longrightarrow> nd_HasACL n"
    using regular_type by (simp_all add: n assembled_fields assembled_typed_fields blocks_known_def)
qed

lemma hooks_same:
  assumes "collected_node en lib opts v p = Inr a" "collected_node en lib opts w p = Inr b"
  shows "node_hooks_ok opts a b \<longleftrightarrow> same_extras en lib opts p v w"
proof -
  obtain sv xv av tv hv where v: "CompareXAttrs opts \<Longrightarrow> collectXAttrs v = Inr xv"
    "CompareACLs opts \<Longrightarrow> collectACLEntries en v = Inr av" "a = assembled lib opts v p sv xv av tv hv"
    using assms(1) by (rule collected_Inr) (rule that, simp_all)
  obtain sw xw aw tw hw where w: "CompareXAttrs opts \<Longrightarrow> collectXAttrs w = Inr xw"
    "CompareACLs opts \<Longrightarrow> collectACLEntries en w = Inr aw" "b = assembled lib opts w p sw xw aw tw hw"
    using assms(2) by (rule collected_Inr) (rule that, simp_all)
  have x: "CompareXAttrs opts \<Longrightarrow> nd_XAttrs a = nd_XAttrs b \<longleftrightarrow> collectXAttrs v = collectXAttrs w"
    using v(1) w(1) by (simp add: v(3) w(3) assembled_fields)
  have l: "CompareACLs opts \<Longrightarrow> nd_ACLEntries a = nd_ACLEntries b \<longleftrightarrow> collectACLEntries en v = collectACLEntries en w"
    using v(2) w(2) by (simp add: v(3) w(3) assembled_fields)
  have "nd_Path a = p" using collected_path [OF assms(1)] .
  then show ?thesis using x l assms by (auto simp: node_hooks_ok_def same_extras_def Let_def)
qed

lemma nodes_for_all:
  assumes "nodes_for en lib opts es ns" "(p, v) \<in> set es"
  shows "\<exists>n \<in> set ns. collected_node en lib opts v p = Inr n"
  using assms unfolding nodes_for_def by (induction rule: list_all2_induct) auto

lemma pointwise_agreement:
  assumes "nodes_for en lib opts es ns" "nodes_for en lib opts es' ns'"
    and "\<And>p v w a b. collected_node en lib opts v p = Inr a \<Longrightarrow> collected_node en lib opts w p = Inr b \<Longrightarrow> R a b \<longleftrightarrow> S p v w"
  shows "(\<forall>a \<in> set ns. \<forall>b \<in> set ns'. nd_Path a = nd_Path b \<longrightarrow> R a b) \<longleftrightarrow>
    (\<forall>p v w. (p, v) \<in> set es \<longrightarrow> (p, w) \<in> set es' \<longrightarrow> S p v w)"
proof (intro iffI allI impI ballI)
  fix p v w assume all: "\<forall>a \<in> set ns. \<forall>b \<in> set ns'. nd_Path a = nd_Path b \<longrightarrow> R a b"
    and v: "(p, v) \<in> set es" and w: "(p, w) \<in> set es'"
  obtain a where a: "a \<in> set ns" "collected_node en lib opts v p = Inr a" using nodes_for_all [OF assms(1) v] by blast
  obtain b where b: "b \<in> set ns'" "collected_node en lib opts w p = Inr b" using nodes_for_all [OF assms(2) w] by blast
  show "S p v w" using all a b collected_path assms(3) [OF a(2) b(2)] by metis
next
  fix a b assume all: "\<forall>p v w. (p, v) \<in> set es \<longrightarrow> (p, w) \<in> set es' \<longrightarrow> S p v w"
    and ab: "a \<in> set ns" "b \<in> set ns'" "nd_Path a = nd_Path b"
  obtain p v where v: "(p, v) \<in> set es" "collected_node en lib opts v p = Inr a"
    using ab(1) nodes_for_members [OF assms(1)] by blast
  obtain q w where w: "(q, w) \<in> set es'" "collected_node en lib opts w q = Inr b"
    using ab(2) nodes_for_members [OF assms(2)] by blast
  have "p = q" using collected_path v(2) w(2) ab(3) by metis
  then show "R a b" using all v w assms(3) by blast
qed

lemma project_agreement:
  assumes "nodes_for en lib opts es ns" "nodes_for en lib opts es' ns'" "distinct (map fst es)" "distinct (map fst es')"
  shows "projectNodes (sort_key nd_Path ns) opts = projectNodes (sort_key nd_Path ns') opts \<longleftrightarrow>
    fst ` set es = fst ` set es' \<and>
    (\<forall>p v w. (p, v) \<in> set es \<longrightarrow> (p, w) \<in> set es' \<longrightarrow> same_core lib opts v w)"
proof -
  note keys = nodes_for_paths [OF assms(1)] nodes_for_paths [OF assms(2)]
  have "projectNodes (sort_key nd_Path ns) opts = projectNodes (sort_key nd_Path ns') opts \<longleftrightarrow>
      nd_Path ` set ns = nd_Path ` set ns' \<and>
      (\<forall>a \<in> set ns. \<forall>b \<in> set ns'. nd_Path a = nd_Path b \<longrightarrow> project_node opts a = project_node opts b)"
    unfolding projectNodes_def
    by (rule sorted_projection [where p = pn_Path]) (use assms(3,4) keys in \<open>simp_all add: project_fields\<close>)
  moreover have "nd_Path ` set ns = fst ` set es" "nd_Path ` set ns' = fst ` set es'"
    using keys by (metis set_map)+
  moreover have "(\<forall>a \<in> set ns. \<forall>b \<in> set ns'. nd_Path a = nd_Path b \<longrightarrow> project_node opts a = project_node opts b) \<longleftrightarrow>
      (\<forall>p v w. (p, v) \<in> set es \<longrightarrow> (p, w) \<in> set es' \<longrightarrow> same_core lib opts v w)"
    by (rule pointwise_agreement [OF assms(1,2)]) (rule project_same)
  ultimately show ?thesis by simp
qed

lemma hooks_agreement:
  assumes "cmp_exact lib" "nodes_for en lib opts es ns" "nodes_for en lib opts es' ns'"
    and "distinct (map fst es)" "distinct (map fst es')"
    and "projectNodes (sort_key nd_Path ns) opts = projectNodes (sort_key nd_Path ns') opts"
  shows "runMetadataHooks lib (sort_key nd_Path ns) (sort_key nd_Path ns') opts = Inr () \<longleftrightarrow>
      (\<forall>p v w. (p, v) \<in> set es \<longrightarrow> (p, w) \<in> set es' \<longrightarrow> same_extras en lib opts p v w)"
    and "runMetadataHooks lib (sort_key nd_Path ns) (sort_key nd_Path ns') opts \<noteq> Inl (Panic msg)"
proof -
  let ?a = "sort_key nd_Path ns" and ?b = "sort_key nd_Path ns'"
  have "map pn_Path (projectNodes ?a opts) = map pn_Path (projectNodes ?b opts)" using assms(6) by simp
  then have k: "map nd_Path ?a = map nd_Path ?b" by (simp add: projectNodes_def comp_def project_fields)
  have d: "distinct (map nd_Path ?a)"
    using assms(4) nodes_for_paths [OF assms(2)] by (metis distinct_map distinct_sort set_sort)
  have len: "length ?a = length ?b" using k by (metis length_map)
  show "runMetadataHooks lib ?a ?b opts \<noteq> Inl (Panic msg)" by (rule runMetadataHooks_ok [OF assms(1) len])
  have "runMetadataHooks lib ?a ?b opts = Inr () \<longleftrightarrow>
      (\<forall>a \<in> set ns. \<forall>b \<in> set ns'. nd_Path a = nd_Path b \<longrightarrow> node_hooks_ok opts a b)"
    unfolding runMetadataHooks_ok(1) [OF assms(1) len] zip_same_keys [OF k d] by auto
  also have "\<dots> \<longleftrightarrow> (\<forall>p v w. (p, v) \<in> set es \<longrightarrow> (p, w) \<in> set es' \<longrightarrow> same_extras en lib opts p v w)"
    by (rule pointwise_agreement [OF assms(2,3)]) (rule hooks_same)
  finally show "runMetadataHooks lib ?a ?b opts = Inr () \<longleftrightarrow>
      (\<forall>p v w. (p, v) \<in> set es \<longrightarrow> (p, w) \<in> set es' \<longrightarrow> same_extras en lib opts p v w)" .
qed

lemma paths_run:
  assumes "cmp_exact lib" "validate_options opts = Inr ()" "collectPaths lib platform base visits opts = Inr c"
    "collectPaths lib platform base' visits' opts = Inr c'"
    and "\<And>n. n \<in> set (cp_nodes c) \<union> set (cp_nodes c') \<Longrightarrow> nd_HasOwnership n \<and> nd_HasAccessTime n \<and> nd_HasDevID n \<and>
      blocks_known n \<and> (CompareXAttrs opts \<longrightarrow> nd_HasXAttrs n) \<and> (CompareACLs opts \<longrightarrow> nd_HasACL n)"
  shows "PathsWithOptions lib platform base visits base' visits' opts =
    (if projectNodes (cp_nodes c) opts \<noteq> projectNodes (cp_nodes c') opts then Err ''mismatch''
     else if \<not> (CompareHardlinkTopology opts \<longrightarrow> cp_hardlinkGroups c = cp_hardlinkGroups c')
     then Err ''hardlink topology mismatch'' else runMetadataHooks lib (cp_nodes c) (cp_nodes c') opts)"
proof -
  let ?a = "cp_nodes c" and ?b = "cp_nodes c'"
  have "ensureOwnershipMetadata ?a ?b opts = Inr ()" "ensureAccessTimeMetadata ?a ?b opts = Inr ()"
    "ensureSparsenessMetadata ?a ?b opts = Inr ()" "ensureDeviceIDMetadata ?a ?b opts = Inr ()"
    "ensureXAttrMetadata ?a ?b opts = Inr ()" "ensureACLMetadata ?a ?b opts = Inr ()"
    using assms(5) by (simp_all add: ensureOwnershipMetadata_def ensureAccessTimeMetadata_def ensureSparsenessMetadata_def
      ensureDeviceIDMetadata_def ensureXAttrMetadata_def ensureACLMetadata_def list_all_iff)
  then show ?thesis
    using assms(1) unfolding PathsWithOptions_def assms(2-4) wrapE_simps bindE_simps Let_def cmp_exact_def by simp
qed

lemma linked_registrations:
  "CompareHardlinkTopology opts \<Longrightarrow> linked (registrations opts es) p q = linked_in es p q"
  unfolding linked_def linked_in_def registrations_members by (auto 0 4)

section \<open>The comparison decides agreement\<close>

text \<open>
  C25: \<open>PathsWithOptions\<close> on Linux decides whether two trees agree. For complete walks of both bases
  and legal options it succeeds exactly if the trees have the same paths below their bases, the entries at
  each path agree in what the options name (mode, link target, size and hash, times in the chosen
  precision, owner, device numbers, sparseness, attributes, ACL entries, the callbacks of the caller), and the same pairs of
  paths are links of one file, whatever the order of the walks and the inode numbers; and it never indexes
  past the end of a list. A failed collection of either tree is returned as the error.
\<close>

theorem PathsWithOptions_decides:
  assumes "cmp_exact lib" "walked base visits" "walked base' visits'"
  shows "case (validate_options opts, collectPaths lib (collectPlatformMetadata en lib) base visits opts,
          collectPaths lib (collectPlatformMetadata en lib) base' visits' opts) of
      (Inl e, _, _) \<Rightarrow> PathsWithOptions lib (collectPlatformMetadata en lib) base visits base' visits' opts =
        Inl (Errorf ''invalid diff options'' (Some e))
    | (Inr _, Inl e, _) \<Rightarrow> PathsWithOptions lib (collectPlatformMetadata en lib) base visits base' visits' opts = Inl e
    | (Inr _, Inr _, Inl e) \<Rightarrow> PathsWithOptions lib (collectPlatformMetadata en lib) base visits base' visits' opts = Inl e
    | (Inr _, Inr _, Inr _) \<Rightarrow>
        (PathsWithOptions lib (collectPlatformMetadata en lib) base visits base' visits' opts = Inr () \<longleftrightarrow>
          same_tree en lib opts (entries_of base visits) (entries_of base' visits')) \<and>
        (\<forall>msg. PathsWithOptions lib (collectPlatformMetadata en lib) base visits base' visits' opts \<noteq> Inl (Panic msg))"
proof -
  let ?pl = "collectPlatformMetadata en lib" and ?es = "entries_of base visits" and ?es' = "entries_of base' visits'"
  {
    fix c c'
    assume valid: "validate_options opts = Inr ()" and c: "collectPaths lib ?pl base visits opts = Inr c"
      and c': "collectPaths lib ?pl base' visits' opts = Inr c'"
    obtain ns where ns: "nodes_for en lib opts ?es ns" "cp_nodes c = sort_key nd_Path ns"
      and g: "cp_hardlinkGroups c = (if CompareHardlinkTopology opts then buildHardlinkGroups (by_identity (registrations opts ?es)) else [])"
      using collectPaths_Inr [OF assms(2) c] by blast
    obtain ns' where ns': "nodes_for en lib opts ?es' ns'" "cp_nodes c' = sort_key nd_Path ns'"
      and g': "cp_hardlinkGroups c' = (if CompareHardlinkTopology opts then buildHardlinkGroups (by_identity (registrations opts ?es')) else [])"
      using collectPaths_Inr [OF assms(3) c'] by blast
    note d = entries_distinct [OF assms(2)] entries_distinct [OF assms(3)]
    note keys = nodes_for_paths [OF ns(1)] nodes_for_paths [OF ns'(1)]
    note member = nodes_for_members [OF ns(1)] nodes_for_members [OF ns'(1)]
    let ?a = "sort_key nd_Path ns" and ?b = "sort_key nd_Path ns'"
    let ?nodes = "projectNodes ?a opts = projectNodes ?b opts"
    let ?links = "CompareHardlinkTopology opts \<longrightarrow> (\<forall>p q. p \<noteq> q \<longrightarrow> linked_in ?es p q = linked_in ?es' p q)"
    have nodes: "?nodes \<longleftrightarrow> fst ` set ?es = fst ` set ?es' \<and>
        (\<forall>p v w. (p, v) \<in> set ?es \<longrightarrow> (p, w) \<in> set ?es' \<longrightarrow> same_core lib opts v w)"
      using project_agreement [OF ns(1) ns'(1) d] .
    have groups: "(CompareHardlinkTopology opts \<longrightarrow> cp_hardlinkGroups c = cp_hardlinkGroups c') \<longleftrightarrow> ?links"
      using groups_equal [OF registrations_distinct [OF d(1)] registrations_distinct [OF d(2)], of opts opts]
      by (simp add: g g' linked_registrations)
    have run: "PathsWithOptions lib ?pl base visits base' visits' opts =
        (if \<not> ?nodes then Err ''mismatch''
         else if \<not> ?links then Err ''hardlink topology mismatch'' else runMetadataHooks lib ?a ?b opts)"
      unfolding groups [symmetric] ns(2) [symmetric] ns'(2) [symmetric]
    proof (rule paths_run [OF assms(1) valid c c'])
      fix n assume "n \<in> set (cp_nodes c) \<union> set (cp_nodes c')"
      then show "nd_HasOwnership n \<and> nd_HasAccessTime n \<and> nd_HasDevID n \<and> blocks_known n \<and>
          (CompareXAttrs opts \<longrightarrow> nd_HasXAttrs n) \<and> (CompareACLs opts \<longrightarrow> nd_HasACL n)"
        using collected_flags [OF ns(1), of n] collected_flags [OF ns'(1), of n] by (auto simp: ns(2) ns'(2))
    qed
    have "runMetadataHooks lib ?a ?b opts = Inr () \<longleftrightarrow>
        (\<forall>p v w. (p, v) \<in> set ?es \<longrightarrow> (p, w) \<in> set ?es' \<longrightarrow> same_extras en lib opts p v w)"
      and "\<forall>msg. runMetadataHooks lib ?a ?b opts \<noteq> Inl (Panic msg)" if ?nodes
      using hooks_agreement [OF assms(1) ns(1) ns'(1) d that] by simp_all
    then have "(PathsWithOptions lib ?pl base visits base' visits' opts = Inr () \<longleftrightarrow> same_tree en lib opts ?es ?es') \<and>
        (\<forall>msg. PathsWithOptions lib ?pl base visits base' visits' opts \<noteq> Inl (Panic msg))"
      unfolding run same_tree_def using nodes by auto
  }
  then show ?thesis
    by (cases "validate_options opts"; cases "collectPaths lib ?pl base visits opts";
        cases "collectPaths lib ?pl base' visits' opts") (simp_all add: PathsWithOptions_def)
qed

section \<open>A sample\<close>

definition sample_lib :: diffLib where
  "sample_lib = \<lparr>newHash = \<lambda>key. Inr (\<lambda>content. content), timespecToNsec = \<lambda>(s, n). wrap64 (s * 1000000000 + n),
     devMajor = \<lambda>d. ucast (drop_bit 8 d), devMinor = \<lambda>d. ucast (d AND 0xff),
     cmpNodes = \<lambda>x y. if x = y then [] else ''nodes'', cmpGroups = \<lambda>x y. if x = y then [] else ''groups'',
     cmpXAttrs = \<lambda>x y. if x = y then [] else ''xattrs'', cmpACL = \<lambda>x y. if x = y then [] else ''acl''\<rparr>"

definition sample_visit :: "string \<Rightarrow> 32 word \<Rightarrow> 64 word \<Rightarrow> visit" where
  "sample_visit path mode ino =
     (let st = \<lparr>st_uid = 0, st_gid = 0, st_dev = 1, st_ino = ino, st_rdev = 0, st_atim = (7, 0), st_mtim = (5, 0),
        st_size = 2, st_blocks = 8\<rparr> in
      \<lparr>dv_path = path, dv_err = None, dv_mode = mode, dv_size = 2, dv_mtime = 5000000000, dv_lstat = Inr st,
       dv_identity = Inr st, dv_readlink = Inr ''f'', dv_read = Inr [104, 105], dv_close = None, dv_list_size = Inr 0,
       dv_list = Inr [], dv_get_size = \<lambda>n. Fail ENODATA, dv_get = \<lambda>n. Fail ENODATA\<rparr>)"

text \<open>Two trees with the files \<^verbatim>\<open>f\<close> and \<^verbatim>\<open>g\<close>, a link \<^verbatim>\<open>l\<close> and a second name \<^verbatim>\<open>h\<close>: in the third tree \<^verbatim>\<open>h\<close> is a name of \<^verbatim>\<open>g\<close>.\<close>

definition sample_walk1 :: "visit list" where
  "sample_walk1 = [sample_visit ''/b'' 0x800001ED 1, sample_visit ''/b/f'' 0x1A4 2, sample_visit ''/b/g'' 0x1A4 3,
     sample_visit ''/b/h'' 0x1A4 2, sample_visit ''/b/l'' 0x080001FF 4]"

definition sample_walk2 :: "visit list" where
  "sample_walk2 = [sample_visit ''/x/c'' 0x800001ED 9, sample_visit ''/x/c/l'' 0x080001FF 8, sample_visit ''/x/c/h'' 0x1A4 7,
     sample_visit ''/x/c/f'' 0x1A4 7, sample_visit ''/x/c/g'' 0x1A4 6]"

definition sample_walk3 :: "visit list" where
  "sample_walk3 = [sample_visit ''/b'' 0x800001ED 1, sample_visit ''/b/f'' 0x1A4 2, sample_visit ''/b/g'' 0x1A4 3,
     sample_visit ''/b/h'' 0x1A4 3, sample_visit ''/b/l'' 0x080001FF 4]"

abbreviation sample_platform :: "visit \<Rightarrow> DiffOptions \<Rightarrow> Node \<Rightarrow> err + Node" where
  "sample_platform \<equiv> collectPlatformMetadata LittleEndian sample_lib"

lemma sample_runs:
  "is_ok (collectPaths sample_lib sample_platform ''/b'' sample_walk1 DiffDefaultOptions)"
  "is_ok (collectPaths sample_lib sample_platform ''/x/c'' sample_walk2 DiffDefaultOptions)"
  "is_ok (collectPaths sample_lib sample_platform ''/b'' sample_walk3 DiffDefaultOptions)"
  "is_ok (PathsWithOptions sample_lib sample_platform ''/b'' sample_walk1 ''/x/c'' sample_walk2 DiffDefaultOptions)"
  "\<not> is_ok (PathsWithOptions sample_lib sample_platform ''/b'' sample_walk1 ''/b'' sample_walk3 DiffDefaultOptions)"
  by code_simp+

lemma sample_walked: "walked ''/b'' sample_walk1" "walked ''/x/c'' sample_walk2" "walked ''/b'' sample_walk3"
  by code_simp+

lemma sample_exact: "cmp_exact sample_lib"
  by (simp add: cmp_exact_def sample_lib_def)

theorem PathsWithOptions_decides_witness:
  "same_tree LittleEndian sample_lib DiffDefaultOptions (entries_of ''/b'' sample_walk1) (entries_of ''/x/c'' sample_walk2) \<and>
   \<not> same_tree LittleEndian sample_lib DiffDefaultOptions (entries_of ''/b'' sample_walk1) (entries_of ''/b'' sample_walk3)"
proof -
  have "validate_options DiffDefaultOptions = Inr ()" by code_simp
  moreover obtain c1 c2 c3 where "collectPaths sample_lib sample_platform ''/b'' sample_walk1 DiffDefaultOptions = Inr c1"
    "collectPaths sample_lib sample_platform ''/x/c'' sample_walk2 DiffDefaultOptions = Inr c2"
    "collectPaths sample_lib sample_platform ''/b'' sample_walk3 DiffDefaultOptions = Inr c3"
    using sample_runs(1-3) unfolding is_ok_iff by blast
  ultimately show ?thesis
    using PathsWithOptions_decides [OF sample_exact sample_walked(1,2), where opts = DiffDefaultOptions and en = LittleEndian]
      PathsWithOptions_decides [OF sample_exact sample_walked(1,3), where opts = DiffDefaultOptions and en = LittleEndian] sample_runs(4,5)
    by (simp add: is_ok_iff)
qed

end
