(* ===== verification/Path_Escape.thy ===== *)
theory Path_Escape
  imports Go_Match
begin

text \<open>
  The display form of path names (\<^verbatim>\<open>diff/path_escape.go\<close>). \<^verbatim>\<open>unicode.IsPrint\<close> is an argument. The main
  theorem says what may be pasted into a terminal, and which names can be told apart.
\<close>

section \<open>The program\<close>

abbreviation backslash :: char where
  "backslash \<equiv> CHR 0x5C"

definition hexDigits :: string where
  "hexDigits = ''0123456789abcdef''"

definition hexByte :: "char \<Rightarrow> string" where
  "hexByte b = [hexDigits ! (of_char b div 16), hexDigits ! (of_char b mod 16)]"

function EscapePathForDisplay :: "(nat \<Rightarrow> bool) \<Rightarrow> string \<Rightarrow> string" where
  "EscapePathForDisplay isPrint path =
     (if path = [] then []
      else let (r, n) = DecodeRuneInString path in
        if r = RuneError \<and> n = 1
        then [backslash, CHR ''x''] @ hexByte (path ! 0) @ EscapePathForDisplay isPrint (drop 1 path)
        else if r < 0x20 \<or> r = 0x7F
        then [backslash, CHR ''x''] @ hexByte (path ! 0) @ EscapePathForDisplay isPrint (drop n path)
        else if \<not> isPrint r \<and> r \<noteq> 9
        then concat (map (\<lambda>b. [backslash, CHR ''x''] @ hexByte b) (take n path)) @ EscapePathForDisplay isPrint (drop n path)
        else take n path @ EscapePathForDisplay isPrint (drop n path))"
  by pat_completeness auto
termination
  by (relation "measure (\<lambda>(p, s). length s)") (use DecodeRune_width in \<open>auto simp: prod_eq_iff\<close>)

declare EscapePathForDisplay.simps [simp del]

section \<open>Decoded runes\<close>

lemma mod_window:
  fixes b :: nat
  assumes "m * k \<le> b" "b < m * k + k"
  shows "b mod k = b - m * k"
proof -
  have "b = (b - m * k) + m * k" using assms(1) by simp
  then have "b mod k = (b - m * k) mod k" by (metis mod_mult_self1)
  then show ?thesis using assms by simp
qed

lemma DecodeRune_ascii:
  assumes "s \<noteq> []" "DecodeRuneInString s = (r, n)" "r < 0x80"
  shows "n = 1 \<and> r = of_char (s ! 0)"
proof -
  let ?b = "of_char (s ! 0) :: nat"
  have b: "?b < 256" by simp
  have two: "128 \<le> (?b mod 32) * 64 + low6 s 1" if "0xC2 \<le> ?b" "?b \<le> 0xDF"
  proof -
    have "2 \<le> ?b mod 32" using that mod_window [of 6 32 ?b] by simp
    then show ?thesis by linarith
  qed
  have three: "128 \<le> (?b mod 16) * 4096 + low6 s 1 * 64 + low6 s 2" if "0xE0 \<le> ?b" "?b \<le> 0xEF"
    "byte_in (if ?b = 0xE0 then 0xA0 else 0x80) (if ?b = 0xED then 0x9F else 0xBF) s 1"
  proof (cases "?b = 0xE0")
    case True
    then have "0xA0 \<le> (of_char (s ! 1) :: nat)" "(of_char (s ! 1) :: nat) \<le> 0xBF" using that(3) by (simp_all add: byte_in_def)
    then have "32 \<le> low6 s 1" using mod_window [of 2 64 "of_char (s ! 1)"] by (simp add: low6_def)
    then show ?thesis by linarith
  next
    case False
    then have "1 \<le> ?b mod 16" using that(1,2) mod_window [of 14 16 ?b] by simp
    then show ?thesis by linarith
  qed
  have four: "128 \<le> (?b mod 8) * 262144 + low6 s 1 * 4096 + low6 s 2 * 64 + low6 s 3" if "0xF0 \<le> ?b" "?b \<le> 0xF4"
    "byte_in (if ?b = 0xF0 then 0x90 else 0x80) (if ?b = 0xF4 then 0x8F else 0xBF) s 1"
  proof (cases "?b = 0xF0")
    case True
    then have "0x90 \<le> (of_char (s ! 1) :: nat)" "(of_char (s ! 1) :: nat) \<le> 0xBF" using that(3) by (simp_all add: byte_in_def)
    then have "16 \<le> low6 s 1" using mod_window [of 2 64 "of_char (s ! 1)"] by (simp add: low6_def)
    then show ?thesis by linarith
  next
    case False
    then have "1 \<le> ?b mod 8" using that(1,2) mod_window [of 30 8 ?b] by simp
    then show ?thesis by linarith
  qed
  show ?thesis
    using assms two three four
    by (auto simp: DecodeRuneInString_def Let_def RuneError_def split: if_splits)
qed

lemma DecodeRune_wide:
  assumes "s \<noteq> []" "DecodeRuneInString s = (r, n)" "n \<noteq> 1" "c \<in> set (take n s)"
  shows "0x80 \<le> (of_char c :: nat)"
proof -
  obtain i where i: "i < n" "i < length s" "c = s ! i" using assms(4) by (auto simp: in_set_conv_nth)
  have shape: "0xC2 \<le> (of_char (s ! 0) :: nat) \<and> n \<le> 4 \<and> 0x80 \<le> (of_char (s ! 1) :: nat) \<and>
      (2 < n \<longrightarrow> 0x80 \<le> (of_char (s ! 2) :: nat)) \<and> (3 < n \<longrightarrow> 0x80 \<le> (of_char (s ! 3) :: nat))"
    using assms(1-3) unfolding DecodeRuneInString_def Let_def byte_in_def by (auto split: if_splits)
  then have "i = 0 \<or> i = 1 \<or> (i = 2 \<and> 2 < n) \<or> (i = 3 \<and> 3 < n)" using i(1) by auto
  then have "0x80 \<le> (of_char (s ! i) :: nat)" using shape by auto
  then show ?thesis using i(3) by simp
qed

section \<open>What is displayed\<close>

definition display_safe :: "char \<Rightarrow> bool" where
  "display_safe c \<longleftrightarrow> 0x20 \<le> (of_char c :: nat) \<and> (of_char c :: nat) \<noteq> 0x7F"

definition hex_value :: "char \<Rightarrow> nat" where
  "hex_value c = (if is_digit c then of_char c - 48 else of_char c - 87)"

text \<open>Valid UTF-8 of printable runes only.\<close>

definition shown :: "(nat \<Rightarrow> bool) \<Rightarrow> string \<Rightarrow> bool" where
  "shown isPrint s \<longleftrightarrow> ValidString s \<and> list_all isPrint (runes s)"

lemma shown_rune:
  assumes "s \<noteq> []" "DecodeRuneInString s = (r, n)" "\<not> (r = RuneError \<and> n = 1)" "isPrint r" "shown isPrint t"
  shows "shown isPrint (take n s @ t)"
  using assms(4,5) by (simp add: shown_def runes_prefix [OF assms(1-3)])

lemma shown_ascii:
  assumes "\<forall>r. 0x20 \<le> r \<longrightarrow> r < 0x7F \<longrightarrow> isPrint r" "shown isPrint t"
  shows "list_all (\<lambda>c. 0x20 \<le> (of_char c :: nat) \<and> (of_char c :: nat) < 0x7F) cs \<Longrightarrow> shown isPrint (cs @ t)"
proof (induction cs)
  case (Cons c cs)
  then have "(of_char c :: nat) < 0x80" "isPrint (of_char c)" using assms(1) by simp_all
  then show ?case using Cons by (simp add: shown_def runes_ascii)
qed (simp add: assms(2))

text \<open>The reader of the display form: a backslash starts the two digits of a byte.\<close>

fun unescape :: "string \<Rightarrow> string" where
  "unescape (c # x # h # l # s) =
     (if c = backslash then char_of (16 * hex_value h + hex_value l) # unescape s else c # unescape (x # h # l # s))"
| "unescape s = s"

lemma hex_digits_safe: "list_all (\<lambda>d. display_safe (hexDigits ! d) \<and> hex_value (hexDigits ! d) = d) [0..<16]"
  by code_simp

lemma hex_digits_ascii:
  "list_all (\<lambda>d. 0x20 \<le> (of_char (hexDigits ! d) :: nat) \<and> (of_char (hexDigits ! d) :: nat) < 0x7F) [0..<16]"
  by code_simp

lemma nibbles: "(of_char b :: nat) div 16 \<in> set [0..<16]" "(of_char b :: nat) mod 16 \<in> set [0..<16]"
proof -
  have "(of_char b :: nat) < 256" by simp
  then show "(of_char b :: nat) div 16 \<in> set [0..<16]" by (simp add: div_less_iff_less_mult)
qed simp

lemma hexByte_safe: "c \<in> set (hexByte b) \<Longrightarrow> display_safe c"
  using hex_digits_safe nibbles [of b] unfolding list_all_iff hexByte_def by (metis empty_iff empty_set set_ConsD)

lemma hex_ascii:
  "list_all (\<lambda>c. 0x20 \<le> (of_char c :: nat) \<and> (of_char c :: nat) < 0x7F) ([backslash, CHR ''x''] @ hexByte b)"
  using hex_digits_ascii nibbles [of b] unfolding hexByte_def list_all_iff by simp

lemma unescape_byte: "unescape ([backslash, CHR ''x''] @ hexByte b @ s) = b # unescape s"
proof -
  have "hex_value (hexDigits ! (of_char b div 16)) = of_char b div 16" "hex_value (hexDigits ! (of_char b mod 16)) = of_char b mod 16"
    using hex_digits_safe nibbles [of b] unfolding list_all_iff by blast+
  then show ?thesis by (simp add: hexByte_def)
qed

lemma unescape_plain: "c \<noteq> backslash \<Longrightarrow> unescape (c # s) = c # unescape s"
proof -
  assume c: "c \<noteq> backslash"
  show ?thesis
  proof (cases "length s < 3")
    case True
    then have "unescape s = s" "unescape (c # s) = c # s"
      by (cases s; cases "tl s"; cases "tl (tl s)"; auto)+
    then show ?thesis by simp
  next
    case False
    then obtain x h l t where "s = x # h # l # t"
      by (cases s; cases "tl s"; cases "tl (tl s)"; auto)
    then show ?thesis using c by simp
  qed
qed

lemma unescape_plains: "backslash \<notin> set xs \<Longrightarrow> unescape (xs @ s) = xs @ unescape s"
  by (induction xs) (auto simp: unescape_plain)

lemma unescape_bytes: "unescape (concat (map (\<lambda>b. [backslash, CHR ''x''] @ hexByte b) xs) @ s) = xs @ unescape s"
proof (induction xs)
  case (Cons b xs)
  then show ?case using unescape_byte [of b "concat (map (\<lambda>b. [backslash, CHR ''x''] @ hexByte b) xs) @ s"] by simp
qed simp

text \<open>One round of the loop: what is written for the first rune, and what is left.\<close>

lemma Escape_step:
  assumes "path \<noteq> []"
  obtains n out where "0 < n" "n \<le> length path"
    "EscapePathForDisplay isPrint path = out @ EscapePathForDisplay isPrint (drop n path)"
    "list_all display_safe out"
    "\<And>t. \<forall>r. 0x20 \<le> r \<longrightarrow> r < 0x7F \<longrightarrow> isPrint r \<Longrightarrow> shown isPrint t \<Longrightarrow> shown isPrint (out @ t)"
    "\<And>s. backslash \<notin> set path \<Longrightarrow> unescape (out @ s) = take n path @ unescape s"
    "list_all (\<lambda>c. 0x20 \<le> (of_char c :: nat) \<and> (of_char c :: nat) < 0x7F) path \<Longrightarrow>
       (\<And>r. 0x20 \<le> r \<Longrightarrow> r < 0x7F \<Longrightarrow> isPrint r) \<Longrightarrow> out = take n path"
proof -
  obtain r n where d: "DecodeRuneInString path = (r, n)" by fastforce
  have n: "0 < n" "n \<le> length path" using DecodeRune_width [OF assms] DecodeRune_fits [of path] d by simp_all
  have one: "take 1 path = [path ! 0]" using assms by (cases path) simp_all
  have first: "path ! 0 \<in> set path" using assms by (cases path) simp_all
  let ?hex = "\<lambda>b. [backslash, CHR ''x''] @ hexByte b"
  have hex: "list_all display_safe (?hex b)" for b
    using hexByte_safe [of _ b] by (auto simp: list_all_iff display_safe_def)
  have bytes: "list_all display_safe (concat (map ?hex xs))" for xs using hex by (auto simp: list_all_iff)
  have shown_bytes: "shown isPrint (concat (map ?hex xs) @ t)"
    if "\<forall>r. 0x20 \<le> r \<longrightarrow> r < 0x7F \<longrightarrow> isPrint r" "shown isPrint t" for xs t
  proof -
    have "list_all (\<lambda>c. 0x20 \<le> (of_char c :: nat) \<and> (of_char c :: nat) < 0x7F) (concat (map ?hex xs))"
      using hex_ascii by (auto simp: list_all_iff)
    then show ?thesis using shown_ascii [OF that] by blast
  qed
  then have shown_byte: "shown isPrint (?hex b @ t)"
    if "\<forall>r. 0x20 \<le> r \<longrightarrow> r < 0x7F \<longrightarrow> isPrint r" "shown isPrint t" for b t
    using shown_bytes [OF that, of "[b]"] by simp
  note step = EscapePathForDisplay.simps [of isPrint path, unfolded d Let_def prod.case]
  consider (invalid) "r = RuneError" "n = 1" | (control) "\<not> (r = RuneError \<and> n = 1)" "r < 0x20 \<or> r = 0x7F"
    | (odd) "\<not> (r = RuneError \<and> n = 1)" "\<not> (r < 0x20 \<or> r = 0x7F)" "\<not> isPrint r \<and> r \<noteq> 9"
    | (plain) "\<not> (r = RuneError \<and> n = 1)" "\<not> (r < 0x20 \<or> r = 0x7F)" "\<not> (\<not> isPrint r \<and> r \<noteq> 9)" by blast
  then show thesis
  proof cases
    case invalid
    have ascii: "\<not> list_all (\<lambda>c. 0x20 \<le> (of_char c :: nat) \<and> (of_char c :: nat) < 0x7F) path"
    proof
      assume "list_all (\<lambda>c. 0x20 \<le> (of_char c :: nat) \<and> (of_char c :: nat) < 0x7F) path"
      then have "(of_char (path ! 0) :: nat) < 0x7F" using first by (simp add: list_all_iff)
      then show False using d invalid assms by (simp add: DecodeRuneInString_def Let_def RuneError_def)
    qed
    show thesis
      by (rule that [of 1 "?hex (path ! 0)", OF _ _ _ _ shown_byte])
        (use assms n step invalid one hex unescape_byte [of "path ! 0"] ascii in auto)
  next
    case control
    then have c: "n = 1" "r = of_char (path ! 0)" using DecodeRune_ascii [OF assms d] by auto
    have ascii: "\<not> list_all (\<lambda>c. 0x20 \<le> (of_char c :: nat) \<and> (of_char c :: nat) < 0x7F) path"
      using control(2) c(2) first unfolding list_all_iff by (intro notI) force
    show thesis
      by (rule that [of 1 "?hex (path ! 0)", OF _ _ _ _ shown_byte])
        (use assms n step control c(1) one hex unescape_byte [of "path ! 0"] ascii in auto)
  next
    case odd
    have ascii: "\<not> isPrint r" "0x20 \<le> r" "r \<noteq> 0x7F" using odd by auto
    have small: "r < 0x7F" if "list_all (\<lambda>c. 0x20 \<le> (of_char c :: nat) \<and> (of_char c :: nat) < 0x7F) path"
    proof -
      have "(of_char (path ! 0) :: nat) < 0x7F" using first that by (simp add: list_all_iff)
      then show ?thesis using d assms by (simp add: DecodeRuneInString_def Let_def)
    qed
    show thesis
      by (rule that [of n "concat (map ?hex (take n path))", OF _ _ _ _ shown_bytes])
        (use assms step odd n bytes unescape_bytes ascii small in auto)
  next
    case plain
    have safe: "list_all display_safe (take n path)"
    proof (cases "n = 1")
      case True
      have "(of_char (path ! 0) :: nat) = r"
        using d assms plain(1) True by (auto simp: DecodeRuneInString_def Let_def split: if_splits)
      then show ?thesis using True one plain(2) by (simp add: display_safe_def)
    next
      case False
      then show ?thesis using DecodeRune_wide [OF assms d] by (fastforce simp: list_all_iff display_safe_def)
    qed
    have "unescape (take n path @ s) = take n path @ unescape s" if "backslash \<notin> set path" for s
      using that by (intro unescape_plains) (auto dest: in_set_takeD)
    moreover have "shown isPrint (take n path @ t)" if "shown isPrint t" for t
      using plain that by (intro shown_rune [OF assms d]) auto
    ultimately show thesis
      by (intro that [of n "take n path"]) (use assms step plain n safe in auto)
  qed
qed

lemma Escape_facts:
  "list_all display_safe (EscapePathForDisplay isPrint path) \<and>
   ((\<forall>r. 0x20 \<le> r \<longrightarrow> r < 0x7F \<longrightarrow> isPrint r) \<longrightarrow> shown isPrint (EscapePathForDisplay isPrint path)) \<and>
   (backslash \<notin> set path \<longrightarrow> unescape (EscapePathForDisplay isPrint path) = path) \<and>
   (list_all (\<lambda>c. 0x20 \<le> (of_char c :: nat) \<and> (of_char c :: nat) < 0x7F) path \<longrightarrow>
      (\<forall>r. 0x20 \<le> r \<longrightarrow> r < 0x7F \<longrightarrow> isPrint r) \<longrightarrow> EscapePathForDisplay isPrint path = path)"
proof (induction path rule: length_induct)
  case (1 path)
  show ?case
  proof (cases "path = []")
    case True
    then show ?thesis by (simp add: EscapePathForDisplay.simps shown_def)
  next
    case False
    then obtain n out where n: "0 < n" "n \<le> length path"
      and eq: "EscapePathForDisplay isPrint path = out @ EscapePathForDisplay isPrint (drop n path)"
      and safe: "list_all display_safe out"
      and printed: "\<And>t. \<forall>r. 0x20 \<le> r \<longrightarrow> r < 0x7F \<longrightarrow> isPrint r \<Longrightarrow> shown isPrint t \<Longrightarrow> shown isPrint (out @ t)"
      and read: "\<And>s. backslash \<notin> set path \<Longrightarrow> unescape (out @ s) = take n path @ unescape s"
      and same: "list_all (\<lambda>c. 0x20 \<le> (of_char c :: nat) \<and> (of_char c :: nat) < 0x7F) path \<Longrightarrow>
        (\<And>r. 0x20 \<le> r \<Longrightarrow> r < 0x7F \<Longrightarrow> isPrint r) \<Longrightarrow> out = take n path"
      using Escape_step [OF False, of isPrint] by blast
    have "length (drop n path) < length path" using n by simp
    note IH = 1 [rule_format, OF this]
    have "backslash \<notin> set path \<Longrightarrow> backslash \<notin> set (drop n path)" by (auto dest: in_set_dropD)
    moreover have "list_all P path \<Longrightarrow> list_all P (drop n path)" for P :: "char \<Rightarrow> bool"
      by (auto simp: list_all_iff dest: in_set_dropD)
    ultimately have rest: "list_all display_safe (EscapePathForDisplay isPrint (drop n path))"
      "\<forall>r. 0x20 \<le> r \<longrightarrow> r < 0x7F \<longrightarrow> isPrint r \<Longrightarrow> shown isPrint (EscapePathForDisplay isPrint (drop n path))"
      "backslash \<notin> set path \<Longrightarrow> unescape (EscapePathForDisplay isPrint (drop n path)) = drop n path"
      "list_all (\<lambda>c. 0x20 \<le> (of_char c :: nat) \<and> (of_char c :: nat) < 0x7F) path \<Longrightarrow>
        (\<forall>r. 0x20 \<le> r \<longrightarrow> r < 0x7F \<longrightarrow> isPrint r) \<Longrightarrow> EscapePathForDisplay isPrint (drop n path) = drop n path"
      using IH by simp_all
    show ?thesis
    proof (intro conjI impI)
      show "list_all display_safe (EscapePathForDisplay isPrint path)" using safe rest(1) by (simp add: eq)
      show "shown isPrint (EscapePathForDisplay isPrint path)" if "\<forall>r. 0x20 \<le> r \<longrightarrow> r < 0x7F \<longrightarrow> isPrint r"
        unfolding eq by (rule printed [OF that rest(2) [OF that]])
      show "unescape (EscapePathForDisplay isPrint path) = path" if "backslash \<notin> set path"
        unfolding eq read [OF that] rest(3) [OF that] by simp
      show "EscapePathForDisplay isPrint path = path"
        if "list_all (\<lambda>c. 0x20 \<le> (of_char c :: nat) \<and> (of_char c :: nat) < 0x7F) path" "\<forall>r. 0x20 \<le> r \<longrightarrow> r < 0x7F \<longrightarrow> isPrint r"
        unfolding eq rest(4) [OF that] using same that by simp
    qed
  qed
qed

lemma shown_control: "EscapePathForDisplay isPrint [CHR 0x01] = [backslash, CHR ''x'', CHR ''0'', CHR ''1'']"
proof -
  have "DecodeRuneInString [CHR 0x01] = (1, 1)" by (simp add: DecodeRuneInString_def)
  moreover have "hexByte (CHR 0x01) = [CHR ''0'', CHR ''1'']" by code_simp
  moreover have "EscapePathForDisplay isPrint [] = []" by (subst EscapePathForDisplay.simps) simp
  ultimately show ?thesis by (subst EscapePathForDisplay.simps) (simp add: RuneError_def)
qed

lemma shown_alike:
  assumes "\<forall>r. 0x20 \<le> r \<longrightarrow> r < 0x7F \<longrightarrow> isPrint r"
  shows "EscapePathForDisplay isPrint [backslash, CHR ''x'', CHR ''0'', CHR ''1''] = EscapePathForDisplay isPrint [CHR 0x01]"
proof -
  have "list_all (\<lambda>c. 0x20 \<le> (of_char c :: nat) \<and> (of_char c :: nat) < 0x7F) [backslash, CHR ''x'', CHR ''0'', CHR ''1'']"
    by simp
  then show ?thesis
    unfolding shown_control
    by (rule conjunct2 [OF conjunct2 [OF conjunct2 [OF Escape_facts [of isPrint]]], THEN mp, THEN mp]) (rule assms)
qed

lemma shown_apart:
  assumes "backslash \<notin> set path" "backslash \<notin> set path'"
    and "EscapePathForDisplay isPrint path = EscapePathForDisplay isPrint path'"
  shows "path = path'"
  using Escape_facts [of isPrint path] Escape_facts [of isPrint path'] assms by metis

text \<open>
  C40: what is displayed is safe, and can mostly be read back. When the printable runes include the printable
  ASCII, as those of \<^verbatim>\<open>unicode.IsPrint\<close> do, the display form is valid UTF-8 all of whose runes are
  printable, so with a \<^verbatim>\<open>unicode.IsPrint\<close> that has no control characters (C0, delete, C1) it has none
  either; whatever is printable, no byte of it is a C0 control or a delete. A name of printable ASCII is
  shown as it is; of a name without backslashes every byte can be recovered, so two such names are never
  shown alike. Backslashes are not escaped, so a name that has them may look like another one.
\<close>

theorem EscapePathForDisplay_readable:
  "list_all display_safe (EscapePathForDisplay isPrint path) \<and>
   (backslash \<notin> set path \<longrightarrow> unescape (EscapePathForDisplay isPrint path) = path) \<and>
   (backslash \<notin> set path \<longrightarrow> backslash \<notin> set path' \<longrightarrow>
      EscapePathForDisplay isPrint path = EscapePathForDisplay isPrint path' \<longrightarrow> path = path') \<and>
   ((\<forall>r. 0x20 \<le> r \<longrightarrow> r < 0x7F \<longrightarrow> isPrint r) \<longrightarrow>
      ValidString (EscapePathForDisplay isPrint path) \<and>
      list_all isPrint (runes (EscapePathForDisplay isPrint path)) \<and>
      (list_all (\<lambda>c. 0x20 \<le> (of_char c :: nat) \<and> (of_char c :: nat) < 0x7F) path \<longrightarrow> EscapePathForDisplay isPrint path = path) \<and>
      EscapePathForDisplay isPrint [backslash, CHR ''x'', CHR ''0'', CHR ''1''] = EscapePathForDisplay isPrint [CHR 0x01])"
  using Escape_facts [of isPrint path] shown_alike [of isPrint] shown_apart [of path path' isPrint]
  unfolding shown_def by (intro conjI impI) blast+

text \<open>The C1 control U+0085 is valid UTF-8 (0xC2 0x85) and not printable: its bytes are escaped.\<close>

theorem EscapePathForDisplay_readable_witness:
  "EscapePathForDisplay (\<lambda>r. 0x20 \<le> r \<and> r < 0x7F) ''/a b'' = ''/a b'' \<and>
   unescape (EscapePathForDisplay (\<lambda>r. 0x20 \<le> r \<and> r < 0x7F) [CHR ''a'', CHR 0x0A, CHR 0xC3]) = [CHR ''a'', CHR 0x0A, CHR 0xC3] \<and>
   list_all (\<lambda>r. 0x20 \<le> r \<and> r < 0x7F) (runes (EscapePathForDisplay (\<lambda>r. 0x20 \<le> r \<and> r < 0x7F) [CHR 0xC2, CHR 0x85])) \<and>
   \<not> list_all (\<lambda>r. 0x20 \<le> r \<and> r < 0x7F) (runes [CHR 0xC2, CHR 0x85])"
proof -
  have "\<not> list_all (\<lambda>r. 0x20 \<le> r \<and> r < 0x7F) (runes [CHR 0xC2, CHR 0x85])"
    by (subst runes.simps) (simp add: DecodeRuneInString_def byte_in_def low6_def)
  then show ?thesis
    using EscapePathForDisplay_readable [of "\<lambda>r. 0x20 \<le> r \<and> r < 0x7F" "''/a b''" "[]"]
      EscapePathForDisplay_readable [of "\<lambda>r. 0x20 \<le> r \<and> r < 0x7F" "[CHR ''a'', CHR 0x0A, CHR 0xC3]" "[]"]
      EscapePathForDisplay_readable [of "\<lambda>r. 0x20 \<le> r \<and> r < 0x7F" "[CHR 0xC2, CHR 0x85]" "[]"]
    by simp
qed

end
