(* ===== verification/Spec2Isabelle.thy ===== *)
theory Spec2Isabelle
  imports Acl_Resolve Mutation_Plan Plan_Total Executor_Generated Apply_Total Coverage Scenarios Manifest_Apply Diff_Spec
    Path_Escape
begin

text \<open>
  randfiletree is a Go library that creates random directory trees for tests of backup and
  synchronisation programs, and streams of operations that change such trees. A \<^emph>\<open>generator\<close> is a
  record of callbacks (names, sizes, modes, metadata, link strategies). \<^emph>\<open>Planning\<close> draws from the
  callbacks and a random source and returns a list of entries without touching the disk;
  \<^emph>\<open>applying\<close> creates the entries and then gives the directories their metadata. The
  \<^emph>\<open>mutation\<close> half keeps a virtual tree, plans operations that are possible on it, and applies
  such streams to the disk, with a replay document for failures. \<^emph>\<open>Fault injection\<close> makes both
  appliers stop at chosen points. The development models these parts as functions with explicit
  state and proves what they promise.

  \<^bold>\<open>Theories and sources.\<close>

  \<^item> \<^verbatim>\<open>Go_Base\<close>, \<^verbatim>\<open>Go_Strings\<close>, \<^verbatim>\<open>Go_Path\<close>, \<^verbatim>\<open>Go_Map\<close>, \<^verbatim>\<open>Go_Match\<close>: errors with their chains,
    state-passing code with errors (\<^verbatim>\<open>sem\<close>), the random source as a tape of numbers, byte files, \<^verbatim>\<open>strings\<close>,
    the runes of a string, \<^verbatim>\<open>path/filepath\<close> on Linux, maps as association lists, \<^verbatim>\<open>path.Match\<close>. No source
    file of the repository; the parts of the standard library it uses.
  \<^item> \<^verbatim>\<open>Go_FS\<close>, \<^verbatim>\<open>FS_Frame\<close>: a file system of entries and inodes behind the \<^verbatim>\<open>os\<close> and \<^verbatim>\<open>unix\<close> calls, with
    path lookup through symbolic links, and what each call can change (\<^verbatim>\<open>confined\<close>). What a real
    kernel may refuse beyond the rules is the field \<^verbatim>\<open>refuses\<close>; theorems about every kernel hold
    for every such refusal, theorems on success assume a kernel that refuses nothing
    (\<^verbatim>\<open>permissive\<close>).
  \<^item> \<^verbatim>\<open>Acl_Xattr\<close>: \<^verbatim>\<open>internal/aclxattr/aclxattr.go\<close>, the binary and textual form of POSIX ACLs.
    Round trips, \<^verbatim>\<open>Validate\<close> against its specification, independence of the order.
  \<^item> \<^verbatim>\<open>Acl_Resolve\<close>: \<^verbatim>\<open>resolveACLEntries\<close> of \<^verbatim>\<open>metadata_linux.go\<close>. When it succeeds, that the last
    entry of a tag and qualifier wins in the access and the default ACL, that a given mask stands
    and what a derived one has, that the result is valid.
  \<^item> \<^verbatim>\<open>Operations\<close>: \<^verbatim>\<open>operations.go\<close> and the replay document of \<^verbatim>\<open>mutate.go\<close>; the JSON library is a pair of
    arguments with the law that parsing undoes printing for documents of valid UTF-8 (the library
    replaces other bytes).
  \<^item> \<^verbatim>\<open>Mutation_State\<close>, \<^verbatim>\<open>Mutation_Plan\<close>: the virtual tree and the planner of \<^verbatim>\<open>mutate.go\<close>. The tree
    invariant, the effect of rename and delete, and that generated streams are possible
    (\<^verbatim>\<open>GenerateOperations_replays\<close>).
  \<^item> \<^verbatim>\<open>Generators\<close>, \<^verbatim>\<open>Metadata\<close>, \<^verbatim>\<open>Content_Patterns\<close>: \<^verbatim>\<open>vars.go\<close>, \<^verbatim>\<open>links.go\<close>, \<^verbatim>\<open>special.go\<close>,
    \<^verbatim>\<open>runmode.go\<close>, \<^verbatim>\<open>generator.go\<close>, \<^verbatim>\<open>metadata.go\<close>, \<^verbatim>\<open>content_patterns.go\<close>: the callbacks, the
    record of the generator, metadata of an entry, contents of files byte for byte. The writer of
    contents runs over calls that may fail at any point; the locale \<^verbatim>\<open>byte_file\<close> says what a
    successful call means, \<^verbatim>\<open>roomy_file\<close> when none fails. Both are interpreted on a file in memory, and
    \<^verbatim>\<open>byte_file\<close> on the modelled kernel in \<^verbatim>\<open>Apply_Plan\<close>.
  \<^item> \<^verbatim>\<open>Plan\<close>, \<^verbatim>\<open>Plan_Spec\<close>, \<^verbatim>\<open>Plan_Total\<close>: planning in \<^verbatim>\<open>plan.go\<close>. Plans whose names are proper path
    elements can be created in their order, hard link groups are right, which errors are possible, the fuel suffices.
  \<^item> \<^verbatim>\<open>Apply_Plan\<close>, \<^verbatim>\<open>Apply_Safe\<close>, \<^verbatim>\<open>Apply_Total\<close>: applying in \<^verbatim>\<open>plan.go\<close>, \<^verbatim>\<open>metadata_linux.go\<close>,
    \<^verbatim>\<open>special_linux.go\<close>, and \<^verbatim>\<open>RunWithMetrics\<close>. On every kernel nothing that exists is changed
    (\<^verbatim>\<open>grown\<close>, append and strict mode); on a permissive one the tree is the plan, up to
    the setuid, setgid and sticky bits, which the code loses (\<^verbatim>\<open>permission_bits_only\<close>).
  \<^item> \<^verbatim>\<open>Faults\<close>: \<^verbatim>\<open>faults.go\<close>, \<^verbatim>\<open>executor.go\<close>. A rule fires exactly at the Nth point it counts.
  \<^item> \<^verbatim>\<open>Executor\<close>, \<^verbatim>\<open>Executor_Confine\<close>, \<^verbatim>\<open>Executor_Replay\<close>, \<^verbatim>\<open>Executor_Generated\<close>: the executor of
    operation streams in \<^verbatim>\<open>mutate.go\<close>. It stays inside its base (\<^verbatim>\<open>confined\<close>), it refines the virtual tree
    (\<^verbatim>\<open>mirrors\<close>) for the operations on which the two agree (\<^verbatim>\<open>fits\<close>: no hard links, no chmod or
    attributes of symbolic links), generated streams of link-free kinds run through, a stopped stream
    can be resumed.

  \<^item> \<^verbatim>\<open>Coverage_Pairwise\<close>, \<^verbatim>\<open>Coverage_Names\<close>, \<^verbatim>\<open>Coverage_Content\<close>, \<^verbatim>\<open>Coverage_Capabilities\<close>,
    \<^verbatim>\<open>Coverage_Enumerator\<close>: \<^verbatim>\<open>coverage_naming.go\<close>, \<^verbatim>\<open>coverage_content.go\<close>,
    \<^verbatim>\<open>coverage_capabilities.go\<close>, \<^verbatim>\<open>coverage_enumerator.go\<close>, the deterministic coverage plan: covering arrays,
    names and contents from a hash of the cell, the probes of the file system, the eight sub-trees.
  \<^item> \<^verbatim>\<open>Coverage_Spec\<close>, \<^verbatim>\<open>Coverage_Plan\<close>: the invariant of the builder and what every sub-tree keeps of it. The enumeration never
    fails, its plans can be created, their size is bounded.
  \<^item> \<^verbatim>\<open>Coverage\<close>: \<^verbatim>\<open>coverage.go\<close>. A run without the Linux dimensions builds its plan, up to the special mode bits; a generator's run is the
    same as the function's.

  \<^item> \<^verbatim>\<open>Go_Float\<close>: \<^verbatim>\<open>float64\<close> arithmetic as rational arithmetic rounded to 53 bits, the booleans with a probability and
    the three weighted choices of \<^verbatim>\<open>links.go\<close>, \<^verbatim>\<open>special.go\<close> and \<^verbatim>\<open>content_patterns.go\<close>. However the shares are
    rounded, an accepted choice returns a key with a positive probability.
  \<^item> \<^verbatim>\<open>Options\<close>: \<^verbatim>\<open>options.go\<close>. Applying options is atomic, and what the accepted options set up is complete
    enough to plan without errors of its own, if device numbers come with special file types.
  \<^item> \<^verbatim>\<open>Scenarios\<close>: \<^verbatim>\<open>scenarios.go\<close>, the catalog; every name in it stands for a working configuration.
  \<^item> \<^verbatim>\<open>Manifest\<close>, \<^verbatim>\<open>Manifest_Norm\<close>, \<^verbatim>\<open>Manifest_Apply\<close>: \<^verbatim>\<open>manifest.go\<close>, \<^verbatim>\<open>manifest_json.go\<close>,
    \<^verbatim>\<open>manifest_yaml.go\<close>. The normal form of a manifest, its checksum and its round trip through a document; a
    built manifest stands for the plan of a run, random or deterministic coverage (\<^verbatim>\<open>configuredPlanRun\<close>),
    and applying a flat one builds the tree it lists. The document libraries, the canonical encoding and
    the hash are parameters; the libraries read back what they wrote of valid UTF-8.
  \<^item> \<^verbatim>\<open>Diff\<close>, \<^verbatim>\<open>Diff_Spec\<close>, \<^verbatim>\<open>Path_Escape\<close>: the package \<^verbatim>\<open>diff\<close>, which compares two trees. The comparison of
    sorted lists decides whether two trees, seen as finite maps, agree in what the options name; paths are
    displayed as printable UTF-8.

  The theorems that span components are at the end of this theory.

  \<^bold>\<open>State and operations.\<close> A Go function that changes the generator's state, the virtual tree or the
  disk is a function from the state before to a result and the state after; what it changed before
  an error stays changed. A callback is such a function on the tape of the random source; theorems
  quantify over all tapes, so they hold for every seed. Errors keep the chain that
  \<^verbatim>\<open>errors.Is\<close> looks at and a short message, without the interpolated values.

  \<^bold>\<open>Bounds and fuel.\<close> \<^verbatim>\<open>planDir\<close> recurses with the fuel \<^verbatim>\<open>planEntryLimit + 1\<close>: every level adds an entry
  and the number of entries is limited (\<^verbatim>\<open>planRun_fuel\<close>). Name collisions are retried 128
  times as in the code. Path lookup follows at most 40 symbolic links, as Linux. All other
  recursions are structural or have a measure. Machine integers that can wrap are
  \<^verbatim>\<open>word\<close>s or pass through \<^verbatim>\<open>wrap64\<close>.

  \<^bold>\<open>Not modelled.\<close> Texts of error messages; elapsed
  times; the mode bits Linux derives from an ACL attribute; concurrent changes of the file system
  during a run. Mount operations, file system features (ioctl flags, quotas) and
  the stubs for other systems are outside: their behaviour lies in the kernel.
\<close>

section \<open>Planning and applying\<close>

lemma RunWithMetrics_cases:
  assumes "RunWithMetrics k seeded None (Some g) faults r fs = ((m, res), r', fs')"
  shows "fs' = fs \<or> (\<exists>plan ctx st. planRun g r = ((plan, Inr ()), r') \<and>
    applyRunPlan k seeded g plan ctx fs = ((st, res), fs'))"
  using assms
  by (fastforce simp: RunWithMetrics_def Let_def split: sum.splits if_splits prod.splits)

text \<open>
  C4: a run of a random plan in append or strict mode never harms what is on disk. For every
  generator without active deterministic coverage (whose probes do touch the disk) and whose name
  generators return only proper path elements, whatever its callbacks draw, for every random
  source, every fault profile and every kernel, and whether the run succeeds or not: what
  the file system held before, it holds afterwards, unchanged.
\<close>

theorem Run_keeps_existing:
  assumes "gives (next_name (fileNameGen g) (fileNameLenGen g) (byteFileNameGen g)) elem_ok"
    and "gives (next_name (dirNameGen g) (dirNameLenGen g) (byteDirNameGen g)) elem_ok"
    and "clean_abs (basePath g)" and "runMode g = RunModeAppend \<or> runMode g = RunModeStrict"
    and "phys fs (butlast (elems (basePath g)))" and "inodes_ok fs"
    and "RunWithMetrics k seeded None (Some g) faults r fs = ((m, res), r', fs')"
  shows "list_all (\<lambda>x. lookup fs' (fst x) = lookup fs (fst x)) (ents fs)"
  using RunWithMetrics_cases [OF assms(7)]
proof
  assume "fs' = fs"
  then show ?thesis by (simp add: list_all_iff)
next
  assume "\<exists>plan ctx st. planRun g r = ((plan, Inr ()), r') \<and>
    applyRunPlan k seeded g plan ctx fs = ((st, res), fs')"
  then obtain plan ctx st where p: "planRun g r = ((plan, Inr ()), r')"
    and a: "applyRunPlan k seeded g plan ctx fs = ((st, res), fs')" by blast
  have "grown (nextino fs) fs fs'"
    by (rule applyRunPlan_grown(1) [OF assms(4,3,5,6) _ a]) (use planRun_in_order [OF assms(1-3) p] in blast)
  then show ?thesis using grown_lookup [OF _ assms(6)] by (auto simp: list_all_iff)
qed

theorem Run_keeps_existing_witness:
  "\<exists>m r' fs'. RunWithMetrics sample_kernel (\<lambda>s. []) None (Some Plan_Spec.sample_tree) [] sample_tape sample_fs = ((m, None), r', fs') \<and>
     AppliedEntries m = 7 \<and> list_all (\<lambda>x. lookup fs' (fst x) = lookup sample_fs (fst x)) (ents sample_fs)"
proof -
  obtain m res r' fs' where run:
    "RunWithMetrics sample_kernel (\<lambda>s. []) None (Some Plan_Spec.sample_tree) [] sample_tape sample_fs = ((m, res), r', fs')"
    by (metis prod.exhaust)
  have "(let x = RunWithMetrics sample_kernel (\<lambda>s. []) None (Some Plan_Spec.sample_tree) [] sample_tape sample_fs in
      snd (fst x) = None \<and> AppliedEntries (fst (fst x)) = 7)" by code_simp
  then have "res = None" "AppliedEntries m = 7" by (simp_all add: run)
  moreover have "runMode Plan_Spec.sample_tree = RunModeAppend" by (simp add: Plan_Spec.sample_tree_def New_def)
  moreover have "phys sample_fs (butlast (elems (basePath Plan_Spec.sample_tree)))" "inodes_ok sample_fs" by code_simp+
  ultimately show ?thesis using Run_keeps_existing [OF sample_names sample_base _ _ _ run] run by auto
qed

end
